(* ===== verification/GeoPrelude.thy ===== *)
theory GeoPrelude
  imports Main "HOL-Library.Word" "HOL-Library.AList"
begin

text \<open>
  Shared vocabulary of the development.

  \<^item> The identifiers of \<^verbatim>\<open>src/src/core/common/Types.h\<close>, at their width.
  \<^item> The exceptions the modelled code throws, as a datatype. \<open>StdRangeError\<close> and
    \<open>StdOverflowError\<close> are what the checked 256-bit amount type throws, \<open>StdOutOfRange\<close> is
    \<^verbatim>\<open>vector::at\<close> out of bounds, \<open>StdInvalidArgument\<close> is \<^verbatim>\<open>stoul\<close> on a text without digits.
    \<open>UndefinedBehaviour\<close> stands for steps the language leaves undefined (reading past the end of a vector, dereferencing a null pointer, using an
    invalidated iterator).
  \<^item> Two result shapes. A const method, or a method that throws before it writes, returns
    \<open>geo_error + 'a\<close>. A method that may have written part of its effects when it throws returns
    \<open>(geo_error + 'a) \<times> 'state\<close>: the state it leaves behind is part of the result.
  \<^item> Association lists stand for \<^verbatim>\<open>std::map\<close> and \<^verbatim>\<open>std::unordered_map\<close>; lookup is \<open>map_of\<close>,
    \<open>m[k] = v\<close> is \<open>AList.update\<close>, \<open>erase(k)\<close> is \<open>AList.delete\<close>.
\<close>

type_synonym ContractorID = "32 word"
type_synonym TrustLineID = "32 word"
type_synonym AuditNumber = "32 word"
type_synonym KeyNumber = "32 word"
type_synonym KeysCount = "32 word"
type_synonym SerializedEquivalent = "32 word"
type_synonym PathID = "16 word"
type_synonym TransactionUUID = "128 word"

datatype geo_error =
    ValueError
  | NotFoundError
  | OverflowError
  | ConflictError
  | IndexError
  | RuntimeError
  | CallChainBreakException
  | IOError
  | StdRangeError
  | StdOverflowError
  | StdOutOfRange
  | StdInvalidArgument
  | UndefinedBehaviour

type_synonym 'a result = "geo_error + 'a"

named_theorems amount_simps
  \<open>rewriting of the 256-bit arithmetic inside its range\<close>
named_theorems result_simps
  \<open>unfolding of the result combinators\<close>

section \<open>Results\<close>

definition bindR :: "'a result \<Rightarrow> ('a \<Rightarrow> 'b result) \<Rightarrow> 'b result" where
  "bindR r f = (case r of Inl e \<Rightarrow> Inl e | Inr x \<Rightarrow> f x)"

lemma bindR_Inl [simp]: "bindR (Inl e) f = Inl e"
  by (simp add: bindR_def)

lemma bindR_Inr [simp]: "bindR (Inr x) f = f x"
  by (simp add: bindR_def)

lemma bindR_eq_Inr [result_simps]:
  "bindR r f = Inr y \<longleftrightarrow> (\<exists>x. r = Inr x \<and> f x = Inr y)"
  by (cases r) auto

text \<open>\<open>throwing op s e\<close>: the method throws \<open>e\<close> and leaves the state \<open>s\<close>.\<close>

abbreviation throwing :: "geo_error \<Rightarrow> 's \<Rightarrow> 'a result \<times> 's" where
  "throwing e s \<equiv> (Inl e, s)"

abbreviation returning :: "'a \<Rightarrow> 's \<Rightarrow> 'a result \<times> 's" where
  "returning x s \<equiv> (Inr x, s)"

definition bindS :: "'a result \<times> 's \<Rightarrow> ('a \<Rightarrow> 's \<Rightarrow> 'b result \<times> 's) \<Rightarrow> 'b result \<times> 's" where
  "bindS r f = (case r of (Inl e, s) \<Rightarrow> (Inl e, s) | (Inr x, s) \<Rightarrow> f x s)"

lemma bindS_Inl [simp]: "bindS (Inl e, s) f = (Inl e, s)"
  by (simp add: bindS_def)

lemma bindS_Inr [simp]: "bindS (Inr x, s) f = f x s"
  by (simp add: bindS_def)

lemma bindS_eq_Inr [result_simps]:
  "bindS r f = (Inr y, s') \<longleftrightarrow> (\<exists>x s. r = (Inr x, s) \<and> f x s = (Inr y, s'))"
  by (cases r; cases "fst r") auto

section \<open>Maps as association lists\<close>

abbreviation keys :: "('k \<times> 'v) list \<Rightarrow> 'k list" where
  "keys m \<equiv> map fst m"

lemma map_of_update [simp]: "map_of (AList.update k v m) = (map_of m)(k \<mapsto> v)"
  by (rule AList.update_conv')

lemma map_of_delete [simp]: "map_of (AList.delete k m) = (map_of m)(k := None)"
  by (rule AList.delete_conv')

lemma distinct_keys_update [simp]: "distinct (keys m) \<Longrightarrow> distinct (keys (AList.update k v m))"
  by (rule AList.distinct_update)

lemma distinct_keys_delete [simp]: "distinct (keys m) \<Longrightarrow> distinct (keys (AList.delete k m))"
  by (rule AList.distinct_delete)

lemma in_set_update:
  "distinct (keys m) \<Longrightarrow>
     (x, y) \<in> set (AList.update k v m) \<longleftrightarrow> (if x = k then y = v else (x, y) \<in> set m)"
  by (metis AList.distinct_update fun_upd_other fun_upd_same map_of_eq_Some_iff map_of_update
      option.inject)

lemma map_of_eq_None_keys: "map_of m k = None \<longleftrightarrow> k \<notin> set (keys m)"
  by (simp add: map_of_eq_None_iff)

text \<open>\<open>m[k] = v\<close> on a \<^verbatim>\<open>std::map\<close>, whose iteration order is that of its keys.\<close>

fun ordUpdate :: "'k::linorder \<Rightarrow> 'v \<Rightarrow> ('k \<times> 'v) list \<Rightarrow> ('k \<times> 'v) list" where
  "ordUpdate k v [] = [(k, v)]"
| "ordUpdate k v ((k', v') # m) =
     (if k < k' then (k, v) # (k', v') # m
      else if k = k' then (k, v) # m
      else (k', v') # ordUpdate k v m)"

lemma map_of_ordUpdate [simp]: "map_of (ordUpdate k v m) = (map_of m)(k \<mapsto> v)"
  by (induction k v m rule: ordUpdate.induct) auto

lemma keys_ordUpdate: "set (keys (ordUpdate k v m)) = insert k (set (keys m))"
  by (induction k v m rule: ordUpdate.induct) auto

lemma ordUpdate_set: "x \<in> set (ordUpdate k v m) \<Longrightarrow> x = (k, v) \<or> x \<in> set m"
  by (induction k v m rule: ordUpdate.induct) (auto split: if_splits)

lemma sorted_ordUpdate:
  "sorted (keys m) \<Longrightarrow> distinct (keys m) \<Longrightarrow>
     sorted (keys (ordUpdate k v m)) \<and> distinct (keys (ordUpdate k v m))"
proof (induction k v m rule: ordUpdate.induct)
  case (2 k v k' v' m)
  show ?case
  proof (cases "k' < k")
    case True
    then show ?thesis using 2 keys_ordUpdate [of k v m] by auto
  next
    case False
    then show ?thesis using 2(2,3) by fastforce
  qed
qed simp

section \<open>Erasing from and writing into a vector\<close>

text \<open>\<open>erase(find_if(...))\<close>, and a write to the first element found.\<close>

fun removeFirst :: "('a \<Rightarrow> bool) \<Rightarrow> 'a list \<Rightarrow> 'a list" where
  "removeFirst q [] = []"
| "removeFirst q (x # xs) = (if q x then xs else x # removeFirst q xs)"

fun mapFirst :: "('a \<Rightarrow> bool) \<Rightarrow> ('a \<Rightarrow> 'a) \<Rightarrow> 'a list \<Rightarrow> 'a list" where
  "mapFirst q f [] = []"
| "mapFirst q f (x # xs) = (if q x then f x # xs else x # mapFirst q f xs)"

lemma find_SomeD: "find P xs = Some x \<Longrightarrow> x \<in> set xs \<and> P x"
  by (induction xs) (auto split: if_splits)

lemma removeFirst_keeps: "x \<in> set xs \<Longrightarrow> \<not> q x \<Longrightarrow> x \<in> set (removeFirst q xs)"
  by (induction xs) auto

lemma length_removeFirst: "\<exists>x \<in> set xs. q x \<Longrightarrow> length (removeFirst q xs) + 1 = length xs"
  by (induction xs) auto

lemma mapFirst_Nil [simp]: "mapFirst q f xs = [] \<longleftrightarrow> xs = []"
  by (cases xs) auto

lemma find_removeFirst_other: "(\<And>x. q x \<Longrightarrow> \<not> P x) \<Longrightarrow> find P (removeFirst q xs) = find P xs"
  by (induction xs) auto

lemma find_mapFirst_other:
  "(\<And>x. q x \<Longrightarrow> \<not> P x \<and> \<not> P (f x)) \<Longrightarrow> find P (mapFirst q f xs) = find P xs"
  by (induction xs) auto

lemma find_mapFirst_same:
  "(\<And>x. P (f x) = P x) \<Longrightarrow> find P (mapFirst P f xs) = map_option f (find P xs)"
  by (induction xs) auto

section \<open>Sums over lists of checked amounts\<close>

lemma sum_list_remove1_nat:
  "x \<in> set xs \<Longrightarrow> sum_list (map f xs) = f x + sum_list (map f (remove1 x xs))"
  for f :: "'a \<Rightarrow> nat"
  by (induction xs) auto

lemma member_le_sum_list_nat: "x \<in> set xs \<Longrightarrow> f x \<le> sum_list (map f xs)" for f :: "'a \<Rightarrow> nat"
  by (induction xs) auto

section \<open>Invariants of step relations\<close>

text \<open>
  The contract every stateful component states: an invariant that each of its steps keeps. The
  lemmas lift it to whole runs.
\<close>

locale step_invariant =
  fixes step :: "'s \<Rightarrow> 's \<Rightarrow> bool"
    and inv :: "'s \<Rightarrow> bool"
  assumes step_inv: "step s t \<Longrightarrow> inv s \<Longrightarrow> inv t"
begin

lemma steps_inv: "step\<^sup>*\<^sup>* s t \<Longrightarrow> inv s \<Longrightarrow> inv t"
  by (induction rule: rtranclp_induct) (auto intro: step_inv)

lemma run_inv: "rtranclp step s t \<Longrightarrow> inv s \<Longrightarrow> rtranclp step t u \<Longrightarrow> inv u"
  by (blast intro: steps_inv)

end

end
