(* ===== verification/Scheduler.thy ===== *)
theory Scheduler
  imports GeoPrelude
begin

text \<open>
  The scheduler of transactions:
  \<^verbatim>\<open>src/src/core/transactions/scheduler/TransactionsScheduler.cpp\<close> and the states transactions wait
  in, \<^verbatim>\<open>src/src/core/transactions/transactions/result\<close>.

  The scheduler owns a map from transaction objects to the state each waits in, ordered by the
  pointers: here an ordered list from object numbers to the object and its state. It has one timer.
  The clock is a field that only a step of its own moves: an operation reads one time. \<^verbatim>\<open>run()\<close> is
  virtual; it is the parameter \<open>run\<close> of the operations that launch a transaction, a function from the
  object number and the scheduler to the result (\<open>None\<close> is a null pointer, \<open>Inl\<close> an exception) and the
  scheduler, on which it may start other transactions. What the code relies on is \<open>well_behaved\<close>.

  Times are microseconds since the epoch of the program, \<^verbatim>\<open>int64_t\<close>; \<^verbatim>\<open>exit()\<close> is the largest.
\<close>

type_synonym GEOEpochTimestamp = int
type_synonym MessageTypeID = nat
type_synonym ResourceTypeID = nat
type_synonym CommandUUID = "128 word"

definition kMaxTimestamp :: GEOEpochTimestamp where
  "kMaxTimestamp = 2 ^ 63 - 1"

section \<open>States of transactions\<close>

record TransactionState =
  mAwakeningTimestamp :: GEOEpochTimestamp
  mRequiredMessageTypes :: "MessageTypeID list"
  mRequiredResourcesTypes :: "ResourceTypeID list"
  mFlushToPermanentStorage :: bool
  mMustBeAwakenedOnMessage :: bool
  mMustSavePreviousStateState :: bool

definition newTransactionState :: "GEOEpochTimestamp \<Rightarrow> bool \<Rightarrow> bool \<Rightarrow> TransactionState" where
  "newTransactionState awakeningTimestamp flushToPermanentStorage awakeOnMessage =
     \<lparr>mAwakeningTimestamp = awakeningTimestamp, mRequiredMessageTypes = [], mRequiredResourcesTypes = [],
      mFlushToPermanentStorage = flushToPermanentStorage, mMustBeAwakenedOnMessage = awakeOnMessage,
      mMustSavePreviousStateState = False\<rparr>"

definition exit_state :: TransactionState where
  "exit_state = newTransactionState kMaxTimestamp False True"

definition flushAndContinue :: "GEOEpochTimestamp \<Rightarrow> TransactionState" where
  "flushAndContinue now = newTransactionState now True True"

definition awakeAsFastAsPossible :: "GEOEpochTimestamp \<Rightarrow> TransactionState" where
  "awakeAsFastAsPossible now = newTransactionState now False True"

text \<open>\<^verbatim>\<open>milliseconds * 1000\<close> is a product of 32 bit unsigned integers.\<close>

definition delayMicroseconds :: "32 word \<Rightarrow> int" where
  "delayMicroseconds milliseconds = uint (milliseconds * 1000)"

definition awakeAfterMilliseconds :: "32 word \<Rightarrow> GEOEpochTimestamp \<Rightarrow> TransactionState" where
  "awakeAfterMilliseconds milliseconds now =
     newTransactionState (now + delayMicroseconds milliseconds) False True"

definition waitForMessageTypes ::
  "MessageTypeID list \<Rightarrow> 32 word \<Rightarrow> GEOEpochTimestamp \<Rightarrow> TransactionState" where
  "waitForMessageTypes requiredMessageType noLongerThanMilliseconds now =
     (if noLongerThanMilliseconds = 0 then exit_state
      else awakeAfterMilliseconds noLongerThanMilliseconds now)
     \<lparr>mRequiredMessageTypes := requiredMessageType\<rparr>"

definition waitForMessageTypesAndAwakeAfterMilliseconds ::
  "MessageTypeID list \<Rightarrow> 32 word \<Rightarrow> GEOEpochTimestamp \<Rightarrow> TransactionState" where
  "waitForMessageTypesAndAwakeAfterMilliseconds requiredMessageType noLongerThanMilliseconds now =
     (if noLongerThanMilliseconds = 0 then exit_state
      else newTransactionState (now + delayMicroseconds noLongerThanMilliseconds) False False)
     \<lparr>mRequiredMessageTypes := requiredMessageType\<rparr>"

definition waitForResourcesTypes ::
  "ResourceTypeID list \<Rightarrow> 32 word \<Rightarrow> GEOEpochTimestamp \<Rightarrow> TransactionState" where
  "waitForResourcesTypes requiredResourcesType noLongerThanMilliseconds now =
     (if noLongerThanMilliseconds = 0 then exit_state
      else awakeAfterMilliseconds noLongerThanMilliseconds now)
     \<lparr>mRequiredResourcesTypes := requiredResourcesType\<rparr>"

definition waitForResourcesAndMessagesTypes ::
  "ResourceTypeID list \<Rightarrow> MessageTypeID list \<Rightarrow> 32 word \<Rightarrow> GEOEpochTimestamp \<Rightarrow> TransactionState" where
  "waitForResourcesAndMessagesTypes requiredResourcesType requiredMessageType noLongerThanMilliseconds now =
     (if noLongerThanMilliseconds = 0 then exit_state
      else awakeAfterMilliseconds noLongerThanMilliseconds now)
     \<lparr>mRequiredResourcesTypes := requiredResourcesType, mRequiredMessageTypes := requiredMessageType\<rparr>"

text \<open>This constructor sets one flag only; \<open>unset\<close> is what the memory of the other fields held.\<close>

definition continueWithPreviousState :: "TransactionState \<Rightarrow> TransactionState" where
  "continueWithPreviousState unset =
     unset\<lparr>mRequiredMessageTypes := [], mRequiredResourcesTypes := [], mMustSavePreviousStateState := True\<rparr>"

definition mustBeRescheduled :: "TransactionState \<Rightarrow> bool" where
  "mustBeRescheduled st \<longleftrightarrow>
     mAwakeningTimestamp st \<noteq> kMaxTimestamp \<or> mRequiredMessageTypes st \<noteq> []"

definition mustExit :: "TransactionState \<Rightarrow> bool" where
  "mustExit st \<longleftrightarrow> \<not> mustBeRescheduled st"

record TransactionResult =
  mCommandResult :: "string option"
  mTransactionState :: "TransactionState option"

datatype ResultType = CommandResultType | TransactionStateType | HybridType

definition resultType :: "TransactionResult \<Rightarrow> ResultType" where
  "resultType res =
     (if mCommandResult res \<noteq> None \<and> mTransactionState res \<noteq> None then HybridType
      else if mCommandResult res \<noteq> None then CommandResultType
      else TransactionStateType)"

section \<open>The state of the scheduler\<close>

record TransactionMessage =
  msgTypeID :: MessageTypeID
  msgIsTransactionMessage :: bool
  msgTransactionUUID :: TransactionUUID
  senderAddresses :: "string list"

record BaseResource =
  resType :: ResourceTypeID
  resTransactionUUID :: TransactionUUID

text \<open>\<open>txCoordinator\<close> is \<open>None\<close> for an object that is no payment or whose coordinator is a null pointer.\<close>

record Transaction =
  txUUID :: TransactionUUID
  txType :: nat
  txStep :: nat
  txStarted :: GEOEpochTimestamp
  txEquivalent :: SerializedEquivalent
  txCoordinator :: "string option"
  txCommandUUID :: CommandUUID
  txContext :: "TransactionMessage list"
  txResources :: "BaseResource list"

datatype SchedulerSignal =
    CommandResultIsReady string
  | SerializeTransaction nat
  | CycleCloserTransactionWasFinished SerializedEquivalent

type_synonym Scheduled = "Transaction \<times> TransactionState"

record Scheduler =
  clock :: GEOEpochTimestamp
  mTransactions :: "(nat \<times> Scheduled) list"
  mProcessingTimer :: "GEOEpochTimestamp option"
  errorsCount :: int
  signals :: "SchedulerSignal list"

type_synonym Behaviour =
  "nat \<Rightarrow> Scheduler \<Rightarrow> TransactionResult option result \<times> Scheduler"

definition CoordinatorPaymentTransaction :: nat where
  "CoordinatorPaymentTransaction = 301"

definition Payments_CycleCloserInitiatorTransaction :: nat where
  "Payments_CycleCloserInitiatorTransaction = 305"

definition Payments_CycleCloserIntermediateNodeTransaction :: nat where
  "Payments_CycleCloserIntermediateNodeTransaction = 306"

definition MaxFlowCalculationStepTwoTransactionType :: nat where
  "MaxFlowCalculationStepTwoTransactionType = 408"

definition coordinatorOnlyMessages :: "MessageTypeID list" where
  "coordinatorOnlyMessages = [216, 211, 213]"

section \<open>The timer\<close>

text \<open>
  \<^verbatim>\<open>expires_from_now\<close> converts the delay to the nanoseconds of \<^verbatim>\<open>steady_clock\<close>, 64 bits: a delay
  that does not fit is a signed overflow.
\<close>

definition asyncWaitUntil :: "GEOEpochTimestamp \<Rightarrow> Scheduler \<Rightarrow> unit result \<times> Scheduler" where
  "asyncWaitUntil nextAwakeningTimestamp s =
     (let microsecondsDelay = (if nextAwakeningTimestamp > clock s
                               then nextAwakeningTimestamp - clock s else 0)
      in if microsecondsDelay * 1000 > kMaxTimestamp then throwing UndefinedBehaviour s
         else returning () (s\<lparr>mProcessingTimer := Some (clock s + microsecondsDelay)\<rparr>))"

abbreviation awakening :: "nat \<times> Scheduled \<Rightarrow> GEOEpochTimestamp" where
  "awakening it \<equiv> mAwakeningTimestamp (snd (snd it))"

fun minimalFrom :: "nat \<times> Scheduled \<Rightarrow> (nat \<times> Scheduled) list \<Rightarrow> nat \<times> Scheduled" where
  "minimalFrom next [] = next"
| "minimalFrom next (it # rest) = minimalFrom (if awakening it < awakening next then it else next) rest"

definition transactionWithMinimalAwakeningTimestamp :: "Scheduler \<Rightarrow> (nat \<times> GEOEpochTimestamp) result" where
  "transactionWithMinimalAwakeningTimestamp s =
     (case mTransactions s of
        [] \<Rightarrow> Inl NotFoundError
      | first # others \<Rightarrow>
          (let next = (if length (mTransactions s) > 1 then minimalFrom first (mTransactions s) else first)
           in if mustBeRescheduled (snd (snd next)) then Inr (fst next, awakening next)
              else Inl NotFoundError))"

definition adjustAwakeningToNextTransaction :: "Scheduler \<Rightarrow> unit result \<times> Scheduler" where
  "adjustAwakeningToNextTransaction s =
     (case transactionWithMinimalAwakeningTimestamp s of
        Inr (r, timestamp) \<Rightarrow> asyncWaitUntil timestamp s
      | Inl NotFoundError \<Rightarrow> returning () s
      | Inl e \<Rightarrow> throwing e s)"

definition run_scheduler :: "Scheduler \<Rightarrow> unit result \<times> Scheduler" where
  "run_scheduler s =
     (if mTransactions s = [] then returning () s else adjustAwakeningToNextTransaction s)"

section \<open>Scheduling\<close>

definition isTransactionInProcess :: "TransactionUUID \<Rightarrow> Scheduler \<Rightarrow> bool" where
  "isTransactionInProcess transactionUUID s =
     list_ex (\<lambda>it. txUUID (fst (snd it)) = transactionUUID) (mTransactions s)"

definition scheduleTransaction :: "nat \<Rightarrow> Transaction \<Rightarrow> Scheduler \<Rightarrow> unit result \<times> Scheduler" where
  "scheduleTransaction r transaction s =
     (if isTransactionInProcess (txUUID transaction) s then throwing ConflictError s
      else adjustAwakeningToNextTransaction
             (s\<lparr>mTransactions :=
                  ordUpdate r (transaction, awakeAsFastAsPossible (clock s)) (mTransactions s)\<rparr>))"

definition postponeTransaction ::
  "nat \<Rightarrow> Transaction \<Rightarrow> 32 word \<Rightarrow> Scheduler \<Rightarrow> unit result \<times> Scheduler" where
  "postponeTransaction r transaction millisecondsDelay s =
     (if isTransactionInProcess (txUUID transaction) s then throwing ConflictError s
      else adjustAwakeningToNextTransaction
             (s\<lparr>mTransactions :=
                  ordUpdate r (transaction, awakeAfterMilliseconds millisecondsDelay (clock s))
                    (mTransactions s)\<rparr>))"

definition awakeTransaction :: "TransactionUUID \<Rightarrow> Scheduler \<Rightarrow> unit result \<times> Scheduler" where
  "awakeTransaction transactionUUID s =
     (case find (\<lambda>it. txUUID (fst (snd it)) = transactionUUID) (mTransactions s) of
        None \<Rightarrow> returning () s
      | Some (r, tx, st) \<Rightarrow>
          adjustAwakeningToNextTransaction
            (s\<lparr>mTransactions := ordUpdate r (tx, awakeAsFastAsPossible (clock s)) (mTransactions s)\<rparr>))"

section \<open>Launching\<close>

definition forgetTransaction :: "nat \<Rightarrow> Transaction \<Rightarrow> Scheduler \<Rightarrow> Scheduler" where
  "forgetTransaction r transaction s =
     (let s = (if txType transaction = Payments_CycleCloserInitiatorTransaction
               then s\<lparr>signals := signals s @ [CycleCloserTransactionWasFinished (txEquivalent transaction)]\<rparr>
               else s)
      in s\<lparr>mTransactions := AList.delete r (mTransactions s)\<rparr>)"

definition processCommandResult :: "nat \<Rightarrow> Transaction \<Rightarrow> string \<Rightarrow> Scheduler \<Rightarrow> Scheduler" where
  "processCommandResult r transaction commandResult s =
     forgetTransaction r transaction (s\<lparr>signals := signals s @ [CommandResultIsReady commandResult]\<rparr>)"

text \<open>The object of the transaction is the one in the map when it is there.\<close>

definition processTransactionState ::
  "nat \<Rightarrow> Transaction \<Rightarrow> TransactionState \<Rightarrow> Scheduler \<Rightarrow> Scheduler" where
  "processTransactionState r transaction st s =
     (if mMustSavePreviousStateState st then s
      else if mustBeRescheduled st then
        (let s = (if mFlushToPermanentStorage st
                  then s\<lparr>signals := signals s @ [SerializeTransaction r]\<rparr> else s);
             object = (case map_of (mTransactions s) r of Some (tx, _) \<Rightarrow> tx | None \<Rightarrow> transaction)
         in s\<lparr>mTransactions := ordUpdate r (object, st) (mTransactions s)\<rparr>)
      else forgetTransaction r transaction s)"

definition processCommandResultAndTransactionState ::
  "nat \<Rightarrow> Transaction \<Rightarrow> string \<Rightarrow> TransactionState \<Rightarrow> Scheduler \<Rightarrow> Scheduler" where
  "processCommandResultAndTransactionState r transaction commandResult st s =
     processTransactionState r transaction st (s\<lparr>signals := signals s @ [CommandResultIsReady commandResult]\<rparr>)"

definition handleTransactionResult ::
  "nat \<Rightarrow> Transaction \<Rightarrow> TransactionResult \<Rightarrow> Scheduler \<Rightarrow> unit result \<times> Scheduler" where
  "handleTransactionResult r transaction res s =
     (case (mCommandResult res, mTransactionState res) of
        (Some commandResult, None) \<Rightarrow> returning () (processCommandResult r transaction commandResult s)
      | (None, Some st) \<Rightarrow> returning () (processTransactionState r transaction st s)
      | (Some commandResult, Some st) \<Rightarrow>
          returning () (processCommandResultAndTransactionState r transaction commandResult st s)
      | (None, None) \<Rightarrow> throwing UndefinedBehaviour s)"

text \<open>Every exception is caught here and drops the transaction; undefined behaviour is not an exception.\<close>

definition launchTransaction ::
  "Behaviour \<Rightarrow> nat \<Rightarrow> Transaction \<Rightarrow> Scheduler \<Rightarrow> unit result \<times> Scheduler" where
  "launchTransaction run r transaction s =
     (case bindS (run r s) (\<lambda>res s. case res of
             None \<Rightarrow> throwing ValueError s
           | Some result \<Rightarrow>
               bindS (handleTransactionResult r transaction result s)
                 (\<lambda>_. adjustAwakeningToNextTransaction)) of
        (Inl UndefinedBehaviour, s) \<Rightarrow> throwing UndefinedBehaviour s
      | (Inl e, s) \<Rightarrow> returning () (forgetTransaction r transaction s)
      | (Inr _, s) \<Rightarrow> returning () s)"

section \<open>Messages and resources\<close>

text \<open>The loop over the accepted types of one transaction.\<close>

fun acceptedBy :: "TransactionMessage \<Rightarrow> Transaction \<Rightarrow> MessageTypeID list \<Rightarrow> bool result" where
  "acceptedBy message transaction [] = Inr False"
| "acceptedBy message transaction (messageType # rest) =
     (if msgTypeID message \<noteq> messageType then acceptedBy message transaction rest
      else if msgTypeID message \<in> set coordinatorOnlyMessages then
        (case senderAddresses message of
           [] \<Rightarrow> Inl StdOutOfRange
         | sender # _ \<Rightarrow>
             (case txCoordinator transaction of
                None \<Rightarrow> Inl UndefinedBehaviour
              | Some coordinator \<Rightarrow>
                  if coordinator \<noteq> sender then acceptedBy message transaction rest else Inr True))
      else Inr True)"

definition pushContext :: "nat \<Rightarrow> TransactionMessage \<Rightarrow> Scheduler \<Rightarrow> Scheduler" where
  "pushContext r message s =
     (case map_of (mTransactions s) r of
        None \<Rightarrow> s
      | Some (tx, st) \<Rightarrow>
          s\<lparr>mTransactions := ordUpdate r (tx\<lparr>txContext := txContext tx @ [message]\<rparr>, st) (mTransactions s)\<rparr>)"

definition pushResource :: "nat \<Rightarrow> BaseResource \<Rightarrow> Scheduler \<Rightarrow> Scheduler" where
  "pushResource r resource s =
     (case map_of (mTransactions s) r of
        None \<Rightarrow> s
      | Some (tx, st) \<Rightarrow>
          s\<lparr>mTransactions := ordUpdate r (tx\<lparr>txResources := txResources tx @ [resource]\<rparr>, st) (mTransactions s)\<rparr>)"

fun attachMessage ::
  "Behaviour \<Rightarrow> TransactionMessage \<Rightarrow> (nat \<times> Scheduled) list \<Rightarrow> Scheduler \<Rightarrow> unit result \<times> Scheduler" where
  "attachMessage run message [] s = throwing NotFoundError s"
| "attachMessage run message ((r, tx, st) # rest) s =
     (if msgTransactionUUID message \<noteq> txUUID tx then attachMessage run message rest s
      else case acceptedBy message tx (mRequiredMessageTypes st) of
        Inl e \<Rightarrow> throwing e s
      | Inr False \<Rightarrow> attachMessage run message rest s
      | Inr True \<Rightarrow>
          (let s = pushContext r message s
           in if mMustBeAwakenedOnMessage st then launchTransaction run r tx s else returning () s))"

definition tryAttachMessageToTransaction ::
  "Behaviour \<Rightarrow> TransactionMessage \<Rightarrow> Scheduler \<Rightarrow> unit result \<times> Scheduler" where
  "tryAttachMessageToTransaction run message s =
     (if \<not> msgIsTransactionMessage message then throwing ValueError s
      else attachMessage run message (mTransactions s) s)"

fun attachResource ::
  "Behaviour \<Rightarrow> BaseResource \<Rightarrow> (nat \<times> Scheduled) list \<Rightarrow> Scheduler \<Rightarrow> unit result \<times> Scheduler" where
  "attachResource run resource [] s = throwing NotFoundError s"
| "attachResource run resource ((r, tx, st) # rest) s =
     (if resTransactionUUID resource \<noteq> txUUID tx then attachResource run resource rest s
      else if resType resource \<in> set (mRequiredResourcesTypes st)
      then launchTransaction run r tx (pushResource r resource s)
      else attachResource run resource rest s)"

definition tryAttachResourceToTransaction ::
  "Behaviour \<Rightarrow> BaseResource \<Rightarrow> Scheduler \<Rightarrow> unit result \<times> Scheduler" where
  "tryAttachResourceToTransaction run resource s = attachResource run resource (mTransactions s) s"

section \<open>Awakening\<close>

text \<open>
  The earliest started transaction of the same type in step 3; every such transaction that is due is
  put off to now on the way.
\<close>

fun earlierLoop ::
  "nat \<Rightarrow> (nat \<times> Scheduled) list \<Rightarrow> nat \<times> Transaction \<Rightarrow> Scheduler \<Rightarrow> (nat \<times> Transaction) \<times> Scheduler" where
  "earlierLoop type [] earlier s = (earlier, s)"
| "earlierLoop type ((r, tx, st) # rest) earlier s =
     (if txType tx \<noteq> type then earlierLoop type rest earlier s
      else if txStep tx \<noteq> 3 then earlierLoop type rest earlier s
      else earlierLoop type rest
             (if txStarted tx < txStarted (snd earlier) then (r, tx) else earlier)
             (if clock s \<ge> mAwakeningTimestamp st
              then s\<lparr>mTransactions :=
                       ordUpdate r (tx, awakeAsFastAsPossible (clock s)) (mTransactions s)\<rparr>
              else s))"

definition getEarlierTransaction ::
  "nat \<times> Transaction \<Rightarrow> Scheduler \<Rightarrow> (nat \<times> Transaction) \<times> Scheduler" where
  "getEarlierTransaction transaction s =
     (if length (mTransactions s) > 1
      then earlierLoop (txType (snd transaction)) (mTransactions s) transaction s
      else (transaction, s))"

datatype TimerError = NoError | OperationAborted | OtherError

definition handleAwakening :: "Behaviour \<Rightarrow> TimerError \<Rightarrow> Scheduler \<Rightarrow> unit result \<times> Scheduler" where
  "handleAwakening run errorMessage s =
     (if errorMessage = OperationAborted then returning () s
      else bindS
        (if errorMessage \<noteq> NoError
         then if errorsCount s < 10
              then asyncWaitUntil (clock s + errorsCount s * 1000000) s
              else throwing RuntimeError s
         else returning () s)
        (\<lambda>_ s. case transactionWithMinimalAwakeningTimestamp s of
             Inl NotFoundError \<Rightarrow> returning () s
           | Inl e \<Rightarrow> throwing e s
           | Inr (r, timestamp) \<Rightarrow>
               bindS
                 (if clock s \<ge> timestamp
                  then (case map_of (mTransactions s) r of
                          None \<Rightarrow> throwing UndefinedBehaviour s
                        | Some (tx, _) \<Rightarrow>
                            if txType tx \<noteq> MaxFlowCalculationStepTwoTransactionType
                            then bindS (launchTransaction run r tx s)
                                   (\<lambda>_ s. returning () (s\<lparr>errorsCount := 0\<rparr>))
                            else (case getEarlierTransaction (r, tx) s of
                                    ((r', tx'), s) \<Rightarrow>
                                      bindS (launchTransaction run r' tx' s)
                                        (\<lambda>_ s. returning () (s\<lparr>errorsCount := 0\<rparr>))))
                  else returning () s)
                 (\<lambda>_. adjustAwakeningToNextTransaction)))"

section \<open>Queries\<close>

definition cycleClosingTransactionByUUID :: "TransactionUUID \<Rightarrow> Scheduler \<Rightarrow> nat result" where
  "cycleClosingTransactionByUUID transactionUUID s =
     (case find (\<lambda>it. txUUID (fst (snd it)) = transactionUUID) (mTransactions s) of
        None \<Rightarrow> Inl NotFoundError
      | Some (r, tx, st) \<Rightarrow>
          if txType tx \<noteq> Payments_CycleCloserInitiatorTransaction \<and>
             txType tx \<noteq> Payments_CycleCloserIntermediateNodeTransaction
          then Inl ValueError else Inr r)"

definition paymentTransactionByCommandUUID :: "CommandUUID \<Rightarrow> Scheduler \<Rightarrow> nat option" where
  "paymentTransactionByCommandUUID commandUUID s =
     (case find (\<lambda>it. txType (fst (snd it)) = CoordinatorPaymentTransaction \<and>
                      txCommandUUID (fst (snd it)) = commandUUID) (mTransactions s) of
        None \<Rightarrow> None
      | Some (r, _) \<Rightarrow> Some r)"

section \<open>What the scheduler keeps\<close>

text \<open>
  Deadlines are at most \<open>kLongestDelay\<close> ahead, what 32 bits of microseconds can hold, and the clock is
  below 2 to the 62 (some 146 thousand years). \<open>armed\<close> says that no wakeup is lost: the timer
  fires no later than the deadline of any transaction, or at once when it has passed.
\<close>

definition kLongestDelay :: int where
  "kLongestDelay = 2 ^ 32"

definition table_ok :: "Scheduler \<Rightarrow> bool" where
  "table_ok s \<longleftrightarrow> sorted (keys (mTransactions s)) \<and> distinct (keys (mTransactions s)) \<and>
     (\<forall>r1 r2 tx1 st1 tx2 st2. map_of (mTransactions s) r1 = Some (tx1, st1) \<longrightarrow>
        map_of (mTransactions s) r2 = Some (tx2, st2) \<longrightarrow> txUUID tx1 = txUUID tx2 \<longrightarrow> r1 = r2) \<and>
     (\<forall>r tx st. map_of (mTransactions s) r = Some (tx, st) \<longrightarrow>
        mAwakeningTimestamp st \<le> clock s + kLongestDelay) \<and>
     0 \<le> clock s \<and> clock s < 2 ^ 62 \<and> errorsCount s = 0"

definition armed :: "Scheduler \<Rightarrow> bool" where
  "armed s \<longleftrightarrow> (\<forall>r tx st. map_of (mTransactions s) r = Some (tx, st) \<longrightarrow>
     (\<exists>t. mProcessingTimer s = Some t \<and> t \<le> max (mAwakeningTimestamp st) (clock s)))"

lemma table_okD:
  assumes "table_ok s"
  shows "sorted (keys (mTransactions s))" "distinct (keys (mTransactions s))"
    "map_of (mTransactions s) r1 = Some (tx1, st1) \<Longrightarrow> map_of (mTransactions s) r2 = Some (tx2, st2) \<Longrightarrow>
       txUUID tx1 = txUUID tx2 \<Longrightarrow> r1 = r2"
    "map_of (mTransactions s) r = Some (tx, st) \<Longrightarrow> mAwakeningTimestamp st \<le> clock s + kLongestDelay"
    "0 \<le> clock s" "clock s < 2 ^ 62" "errorsCount s = 0"
  using assms by (auto simp: table_ok_def)

lemma table_ok_timer [simp]:
  "table_ok (s\<lparr>mProcessingTimer := t\<rparr>) = table_ok s" "table_ok (s\<lparr>signals := x\<rparr>) = table_ok s"
  by (simp_all add: table_ok_def)

lemma armed_signals [simp]: "armed (s\<lparr>signals := x\<rparr>) = armed s"
  by (simp add: armed_def)

lemma in_table: "table_ok s \<Longrightarrow> (r, tx, st) \<in> set (mTransactions s) \<longleftrightarrow> map_of (mTransactions s) r = Some (tx, st)"
  by (simp add: table_okD(2))

lemma inProcess_iff:
  assumes "table_ok s"
  shows "isTransactionInProcess u s \<longleftrightarrow> (\<exists>r tx st. map_of (mTransactions s) r = Some (tx, st) \<and> txUUID tx = u)"
proof -
  have "isTransactionInProcess u s \<longleftrightarrow> (\<exists>r tx st. (r, tx, st) \<in> set (mTransactions s) \<and> txUUID tx = u)"
    by (force simp: isTransactionInProcess_def list_ex_iff)
  then show ?thesis using in_table [OF assms] by simp
qed

lemma table_ok_put:
  assumes "table_ok s" and "mAwakeningTimestamp st \<le> clock s + kLongestDelay"
    and "\<And>r' tx' st'. map_of (mTransactions s) r' = Some (tx', st') \<Longrightarrow> txUUID tx' = txUUID tx \<Longrightarrow> r' = r"
  shows "table_ok (s\<lparr>mTransactions := ordUpdate r (tx, st) (mTransactions s)\<rparr>)"
  unfolding table_ok_def
  using sorted_ordUpdate [OF table_okD(1,2) [OF assms(1)], of r "(tx, st)"] assms(2,3)
    table_okD(3-7) [OF assms(1)]
  by (auto split: if_splits)

lemma sorted_filter_keys: "sorted (keys m) \<Longrightarrow> sorted (keys (filter P m))"
  by (induction m) auto

lemma table_ok_delete: "table_ok s \<Longrightarrow> table_ok (s\<lparr>mTransactions := AList.delete r (mTransactions s)\<rparr>)"
  unfolding table_ok_def
  using sorted_filter_keys [of "mTransactions s" "\<lambda>(k, _). r \<noteq> k"]
  by (auto simp: AList.delete_eq fun_upd_def map_of_delete [unfolded AList.delete_eq] split: if_splits)
    (metis AList.delete_eq distinct_keys_delete)

lemma armed_subset:
  "armed s \<Longrightarrow> (\<And>r tx st. map_of (mTransactions t) r = Some (tx, st) \<Longrightarrow>
      \<exists>tx'. map_of (mTransactions s) r = Some (tx', st)) \<Longrightarrow>
    mProcessingTimer t = mProcessingTimer s \<Longrightarrow> clock s \<le> clock t \<Longrightarrow> armed t"
  by (fastforce simp: armed_def)

section \<open>Arming the timer\<close>

abbreviation before :: "nat \<times> Scheduled \<Rightarrow> nat \<times> Scheduled \<Rightarrow> bool" where
  "before a b \<equiv> awakening a < awakening b \<or> (awakening a = awakening b \<and> fst a \<le> fst b)"

lemma minimalFrom_least:
  assumes "\<forall>it \<in> set xs. fst next \<le> fst it" and "sorted (keys xs)"
  shows "minimalFrom next xs \<in> insert next (set xs) \<and>
    (\<forall>it \<in> insert next (set xs). before (minimalFrom next xs) it)"
  using assms
proof (induction "next" xs rule: minimalFrom.induct)
  case (2 "next" it rest)
  let ?n = "if awakening it < awakening next then it else next"
  have "\<forall>x \<in> set rest. fst ?n \<le> fst x" using 2(2,3) by auto
  then have IH: "minimalFrom ?n rest \<in> insert ?n (set rest)"
    "\<forall>x \<in> insert ?n (set rest). before (minimalFrom ?n rest) x"
    using 2(1,3) by auto
  have n: "before ?n it" "before ?n next" using 2(2) by auto
  have m: "before (minimalFrom ?n rest) ?n" using IH(2) by blast
  have "before (minimalFrom ?n rest) it" "before (minimalFrom ?n rest) next"
    using n m by (smt (verit) order_trans)+
  then show ?case using IH by (auto split: if_splits)
qed auto

lemma earliest:
  assumes "table_ok s" and "mTransactions s \<noteq> []"
  shows "\<exists>r tx st. transactionWithMinimalAwakeningTimestamp s = Inr (r, mAwakeningTimestamp st) \<and>
    map_of (mTransactions s) r = Some (tx, st) \<and>
    (\<forall>r' tx' st'. map_of (mTransactions s) r' = Some (tx', st') \<longrightarrow> before (r, tx, st) (r', tx', st'))"
proof -
  obtain first others where xs: "mTransactions s = first # others" using assms(2) by (cases "mTransactions s") auto
  define n where "n = (if length (mTransactions s) > 1 then minimalFrom first (mTransactions s) else first)"
  have srt: "sorted (keys (mTransactions s))" using table_okD(1) [OF assms(1)] .
  have "\<forall>it \<in> set (mTransactions s). fst first \<le> fst it" using srt xs by auto
  then have "n \<in> set (mTransactions s) \<and> (\<forall>it \<in> set (mTransactions s). before n it)"
    using minimalFrom_least [of "mTransactions s" first] srt xs by (auto simp: n_def)
  moreover obtain r tx st where n: "n = (r, tx, st)" by (metis surj_pair)
  ultimately have mem: "map_of (mTransactions s) r = Some (tx, st)"
    and least: "\<forall>r' tx' st'. map_of (mTransactions s) r' = Some (tx', st') \<longrightarrow> before n (r', tx', st')"
    using table_okD(2) [OF assms(1)] by (simp, metis map_of_SomeD)
  have "mAwakeningTimestamp st \<le> clock s + kLongestDelay" using table_okD(4) [OF assms(1) mem] .
  then have "mustBeRescheduled st"
    using table_okD(6) [OF assms(1)] by (simp add: mustBeRescheduled_def kMaxTimestamp_def kLongestDelay_def)
  then have "transactionWithMinimalAwakeningTimestamp s = Inr (r, mAwakeningTimestamp st)"
    using n xs by (simp add: transactionWithMinimalAwakeningTimestamp_def n_def Let_def)
  then show ?thesis using mem least n by blast
qed

lemma asyncWait_ok:
  assumes "t \<le> clock s + kLongestDelay"
  shows "asyncWaitUntil t s = (Inr (), s\<lparr>mProcessingTimer := Some (max t (clock s))\<rparr>)"
  using assms by (auto simp: asyncWaitUntil_def Let_def kMaxTimestamp_def kLongestDelay_def max_def)

lemma adjust_ok:
  assumes "table_ok s"
  shows "\<exists>t. adjustAwakeningToNextTransaction s = (Inr (), s\<lparr>mProcessingTimer := t\<rparr>) \<and>
    armed (s\<lparr>mProcessingTimer := t\<rparr>)"
proof (cases "mTransactions s = []")
  case True
  then have "adjustAwakeningToNextTransaction s = (Inr (), s\<lparr>mProcessingTimer := mProcessingTimer s\<rparr>)"
    by (simp add: adjustAwakeningToNextTransaction_def transactionWithMinimalAwakeningTimestamp_def)
  moreover have "armed (s\<lparr>mProcessingTimer := mProcessingTimer s\<rparr>)" using True by (simp add: armed_def)
  ultimately show ?thesis by blast
next
  case False
  obtain r tx st where m: "transactionWithMinimalAwakeningTimestamp s = Inr (r, mAwakeningTimestamp st)"
    "map_of (mTransactions s) r = Some (tx, st)"
    "\<forall>r' tx' st'. map_of (mTransactions s) r' = Some (tx', st') \<longrightarrow> before (r, tx, st) (r', tx', st')"
    using earliest [OF assms False] by blast
  let ?s = "s\<lparr>mProcessingTimer := Some (max (mAwakeningTimestamp st) (clock s))\<rparr>"
  have "adjustAwakeningToNextTransaction s = (Inr (), ?s)"
    using m(1) asyncWait_ok table_okD(4) [OF assms m(2)] by (simp add: adjustAwakeningToNextTransaction_def)
  moreover have "armed ?s"
    using m(3) by (fastforce simp: armed_def)
  ultimately show ?thesis by blast
qed

section \<open>Operations keep the table and the timer\<close>

abbreviation kept :: "Scheduler \<Rightarrow> Scheduler \<Rightarrow> bool" where
  "kept s t \<equiv> table_ok t \<and> (armed s \<longrightarrow> armed t) \<and> clock t = clock s"

lemma delay_bound: "0 \<le> delayMicroseconds d" "delayMicroseconds d \<le> kLongestDelay"
  using uint_bounded [of "d * 1000"] by (simp_all add: delayMicroseconds_def kLongestDelay_def)

lemma state_times [simp]:
  "mAwakeningTimestamp (awakeAsFastAsPossible now) = now"
  "mAwakeningTimestamp (awakeAfterMilliseconds d now) = now + delayMicroseconds d"
  "mAwakeningTimestamp exit_state = kMaxTimestamp"
  "mRequiredMessageTypes exit_state = []"
  by (simp_all add: awakeAsFastAsPossible_def awakeAfterMilliseconds_def newTransactionState_def exit_state_def)

lemma kLongestDelay_pos [simp]: "0 \<le> kLongestDelay" "0 < kLongestDelay"
  by (simp_all add: kLongestDelay_def)

text \<open>Entering a fresh object under an unused identifier, in a state with a near deadline.\<close>

lemma enter_ok:
  assumes "table_ok s" and "\<not> isTransactionInProcess (txUUID tx) s"
    and "mAwakeningTimestamp st \<le> clock s + kLongestDelay"
  shows "\<exists>t. adjustAwakeningToNextTransaction (s\<lparr>mTransactions := ordUpdate r (tx, st) (mTransactions s)\<rparr>) =
      (Inr (), s\<lparr>mTransactions := ordUpdate r (tx, st) (mTransactions s), mProcessingTimer := t\<rparr>) \<and>
    kept s (s\<lparr>mTransactions := ordUpdate r (tx, st) (mTransactions s), mProcessingTimer := t\<rparr>) \<and>
    armed (s\<lparr>mTransactions := ordUpdate r (tx, st) (mTransactions s), mProcessingTimer := t\<rparr>)"
proof -
  have "table_ok (s\<lparr>mTransactions := ordUpdate r (tx, st) (mTransactions s)\<rparr>)"
    using assms inProcess_iff [OF assms(1)] by (intro table_ok_put) blast+
  from adjust_ok [OF this] this show ?thesis by auto
qed

definition entered :: "nat \<Rightarrow> Transaction \<Rightarrow> TransactionState \<Rightarrow> Scheduler \<Rightarrow> Scheduler \<Rightarrow> bool" where
  "entered r tx st s s' \<longleftrightarrow>
     (\<exists>t. s' = s\<lparr>mTransactions := ordUpdate r (tx, st) (mTransactions s), mProcessingTimer := t\<rparr>)"

lemma schedule_cases:
  assumes "table_ok s" and "scheduleTransaction r tx s = (res, s')"
  shows "kept s s' \<and> ((res = Inl ConflictError \<and> s' = s \<and> isTransactionInProcess (txUUID tx) s) \<or>
    (res = Inr () \<and> \<not> isTransactionInProcess (txUUID tx) s \<and> armed s' \<and>
     entered r tx (awakeAsFastAsPossible (clock s)) s s'))"
proof (cases "isTransactionInProcess (txUUID tx) s")
  case False
  then show ?thesis
    using assms enter_ok [OF assms(1) False, of "awakeAsFastAsPossible (clock s)" r]
    by (auto simp: scheduleTransaction_def entered_def)
qed (use assms in \<open>auto simp: scheduleTransaction_def\<close>)

lemma postpone_cases:
  assumes "table_ok s" and "postponeTransaction r tx d s = (res, s')"
  shows "kept s s' \<and> ((res = Inl ConflictError \<and> s' = s \<and> isTransactionInProcess (txUUID tx) s) \<or>
    (res = Inr () \<and> \<not> isTransactionInProcess (txUUID tx) s \<and> armed s' \<and>
     entered r tx (awakeAfterMilliseconds d (clock s)) s s'))"
proof (cases "isTransactionInProcess (txUUID tx) s")
  case False
  then show ?thesis
    using assms enter_ok [OF assms(1) False, of "awakeAfterMilliseconds d (clock s)" r] delay_bound [of d]
    by (auto simp: postponeTransaction_def entered_def)
qed (use assms in \<open>auto simp: postponeTransaction_def\<close>)

lemma awake_cases:
  assumes "table_ok s" and "awakeTransaction u s = (res, s')"
  shows "res = Inr () \<and> kept s s' \<and> (s' = s \<or>
    (\<exists>r tx st. map_of (mTransactions s) r = Some (tx, st) \<and> txUUID tx = u \<and> armed s' \<and>
       entered r tx (awakeAsFastAsPossible (clock s)) s s'))"
proof (cases "find (\<lambda>it. txUUID (fst (snd it)) = u) (mTransactions s)")
  case None
  then show ?thesis using assms by (simp add: awakeTransaction_def)
next
  case (Some it)
  obtain r tx st where it: "it = (r, tx, st)" by (metis surj_pair)
  have m: "map_of (mTransactions s) r = Some (tx, st)" "txUUID tx = u"
    using find_SomeD [OF Some] it in_table [OF assms(1)] by auto
  have ok: "table_ok (s\<lparr>mTransactions := ordUpdate r (tx, awakeAsFastAsPossible (clock s)) (mTransactions s)\<rparr>)"
    using assms(1) m table_okD(3) [OF assms(1)] by (intro table_ok_put) auto
  from adjust_ok [OF ok] ok show ?thesis
    using assms(2) Some it m by (auto simp: awakeTransaction_def entered_def)
qed

lemma forget_fields [simp]:
  "mTransactions (forgetTransaction r tx s) = AList.delete r (mTransactions s)"
  "clock (forgetTransaction r tx s) = clock s"
  "mProcessingTimer (forgetTransaction r tx s) = mProcessingTimer s"
  by (simp_all add: forgetTransaction_def Let_def)

lemma forget_ok:
  assumes "table_ok s"
  shows "kept s (forgetTransaction r tx s)"
proof -
  have x: "forgetTransaction r tx s =
      s\<lparr>mTransactions := AList.delete r (mTransactions s), signals := signals (forgetTransaction r tx s)\<rparr>"
    by (cases s) (simp add: forgetTransaction_def Let_def)
  have "armed (forgetTransaction r tx s)" if "armed s"
    using that by (rule armed_subset) (auto simp: fun_upd_def split: if_splits)
  moreover have "table_ok (forgetTransaction r tx s)"
    by (subst x) (simp add: table_ok_delete [OF assms])
  ultimately show ?thesis by simp
qed

lemma keys_delete: "fst ` set (AList.delete r m) = fst ` set m - {r}"
  by (simp add: AList.delete_eq) force

section \<open>The results of runs\<close>

text \<open>A run returns a result, waits for at most a 32 bit number of microseconds, and does not run into undefined
  behaviour.\<close>

definition result_ok :: "GEOEpochTimestamp \<Rightarrow> TransactionResult \<Rightarrow> bool" where
  "result_ok now result \<longleftrightarrow>
     (mCommandResult result \<noteq> None \<or> mTransactionState result \<noteq> None) \<and>
     (\<forall>st. mTransactionState result = Some st \<longrightarrow>
        mMustSavePreviousStateState st \<or> mustExit st \<or> mAwakeningTimestamp st \<le> now + kLongestDelay)"

definition ran_ok :: "GEOEpochTimestamp \<Rightarrow> TransactionResult option result \<Rightarrow> bool" where
  "ran_ok now res \<longleftrightarrow> res \<noteq> Inl UndefinedBehaviour \<and> (\<forall>result. res = Inr (Some result) \<longrightarrow> result_ok now result)"

section \<open>Launching keeps the table and the timer\<close>

lemma process_ok:
  assumes "table_ok s" and "r \<in> set (keys (mTransactions s))"
    and "mMustSavePreviousStateState st \<or> mustExit st \<or> mAwakeningTimestamp st \<le> clock s + kLongestDelay"
  shows "table_ok (processTransactionState r tx st s) \<and> clock (processTransactionState r tx st s) = clock s"
proof -
  obtain tx0 st0 where m: "map_of (mTransactions s) r = Some (tx0, st0)"
    using assms(2) map_of_eq_None_keys [of "mTransactions s" r] by (cases "map_of (mTransactions s) r") auto
  consider "mMustSavePreviousStateState st" | "\<not> mMustSavePreviousStateState st" "mustExit st"
    | "\<not> mMustSavePreviousStateState st" "\<not> mustExit st" by blast
  then show ?thesis
  proof cases
    case 1 then show ?thesis using assms(1) by (simp add: processTransactionState_def)
  next
    case 2 then show ?thesis
      using forget_ok [OF assms(1), of r tx] by (simp add: processTransactionState_def mustExit_def)
  next
    case 3
    have put: "table_ok (s\<lparr>signals := x, mTransactions := ordUpdate r (tx0, st) (mTransactions s)\<rparr>)" for x
      using table_ok_put [of "s\<lparr>signals := x\<rparr>" st tx0 r] assms 3 m table_okD(3) [OF assms(1)] by simp
    have "processTransactionState r tx st s =
        s\<lparr>signals := (if mFlushToPermanentStorage st then signals s @ [SerializeTransaction r] else signals s),
          mTransactions := ordUpdate r (tx0, st) (mTransactions s)\<rparr>"
      using 3 m by (simp add: processTransactionState_def mustExit_def)
    then show ?thesis using put by simp
  qed
qed

lemma handle_ok:
  assumes "table_ok s" and "r \<in> set (keys (mTransactions s))" and "result_ok (clock s) result"
  shows "\<exists>s'. handleTransactionResult r tx result s = (Inr (), s') \<and> table_ok s' \<and> clock s' = clock s"
proof -
  have sig: "table_ok (s\<lparr>signals := x\<rparr>)" "r \<in> set (keys (mTransactions (s\<lparr>signals := x\<rparr>)))" for x
    using assms by simp_all
  have state: "table_ok (processTransactionState r tx st (s\<lparr>signals := x\<rparr>)) \<and>
      clock (processTransactionState r tx st (s\<lparr>signals := x\<rparr>)) = clock s"
    if "mTransactionState result = Some st" for st x
    using process_ok [OF sig, of st x tx] assms(3) that by (simp add: result_ok_def)
  have plain: "s\<lparr>signals := signals s\<rparr> = s" by simp
  show ?thesis
  proof (cases "mTransactionState result")
    case None
    then obtain c where "mCommandResult result = Some c" using assms(3) by (auto simp: result_ok_def)
    then show ?thesis
      using None forget_ok [OF sig(1) [of "signals s @ [CommandResultIsReady c]"], of r tx]
      by (simp add: handleTransactionResult_def processCommandResult_def)
  next
    case (Some st)
    then show ?thesis
      using state [OF Some, of "signals s"] state [OF Some]
      by (cases "mCommandResult result")
        (simp_all add: handleTransactionResult_def processCommandResultAndTransactionState_def)
  qed
qed

lemma process_map:
  "map_of (mTransactions (processTransactionState r tx st s)) r' =
    (if r' \<noteq> r \<or> mMustSavePreviousStateState st then map_of (mTransactions s) r'
     else if mustBeRescheduled st
     then Some (case map_of (mTransactions s) r of Some (tx, _) \<Rightarrow> tx | None \<Rightarrow> tx, st) else None)"
  by (simp add: processTransactionState_def Let_def)

lemma handle_map:
  assumes "handleTransactionResult r tx result s = (Inr (), s')"
  shows "map_of (mTransactions s') r' =
    (case mTransactionState result of
       None \<Rightarrow> if r' = r then None else map_of (mTransactions s) r'
     | Some st \<Rightarrow> map_of (mTransactions (processTransactionState r tx st s)) r')"
  using assms
  by (auto simp: handleTransactionResult_def processCommandResult_def processCommandResultAndTransactionState_def
      process_map split: option.splits)

text \<open>What the scheduler does after a run that has left the state \<open>s1\<close>.\<close>

lemma conclude_ok:
  assumes "table_ok s1" and "r \<in> set (keys (mTransactions s1))" and "ran_ok (clock s1) res"
  shows "\<exists>s'. launchTransaction (\<lambda>_ _. (res, s1)) r tx s = (Inr (), s') \<and> kept s1 s' \<and>
    set (keys (mTransactions s1)) - {r} \<subseteq> set (keys (mTransactions s'))"
proof -
  have drop: ?thesis if "launchTransaction (\<lambda>_ _. (res, s1)) r tx s = (Inr (), forgetTransaction r tx s1)"
    using that assms(1) forget_ok [of s1 r tx] by (simp add: keys_delete)
  show ?thesis
  proof (cases res)
    case (Inl e)
    then show ?thesis using assms(3) by (intro drop) (cases e; simp add: launchTransaction_def ran_ok_def)
  next
    case (Inr ro)
    show ?thesis
    proof (cases ro)
      case None
      then show ?thesis using Inr by (intro drop) (simp add: launchTransaction_def)
    next
      case (Some result)
      obtain s2 where s2: "handleTransactionResult r tx result s1 = (Inr (), s2)" "table_ok s2" "clock s2 = clock s1"
        using handle_ok [of s1 r result tx] assms Inr Some by (auto simp: ran_ok_def)
      obtain t where "adjustAwakeningToNextTransaction s2 = (Inr (), s2\<lparr>mProcessingTimer := t\<rparr>)"
        "armed (s2\<lparr>mProcessingTimer := t\<rparr>)"
        using adjust_ok [OF s2(2)] by blast
      moreover have "set (keys (mTransactions s1)) - {r} \<subseteq> set (keys (mTransactions s2))"
      proof
        fix k assume k: "k \<in> set (keys (mTransactions s1)) - {r}"
        then have "map_of (mTransactions s2) k = map_of (mTransactions s1) k"
          using handle_map [OF s2(1), of k] by (simp add: process_map split: option.split)
        then show "k \<in> set (keys (mTransactions s2))" using k by (metis DiffD1 map_of_eq_None_keys)
      qed
      ultimately show ?thesis using Inr Some s2 assms(1) by (simp add: launchTransaction_def)
    qed
  qed
qed

section \<open>What running a transaction may do\<close>

text \<open>
  A transaction that runs changes its own object (not its identifier, type or equivalent), starts new transactions,
  awakens others, and puts resources: a transaction that waits for the resource is launched at once, inside the run, and
  may do the same. \<open>busy\<close> are the transactions whose runs have begun; they do not wait for a resource of their own or of
  one they launch. (The only run that puts a resource is the search for paths, which puts it for the payment that asked.)
\<close>

inductive run_effect :: "nat set \<Rightarrow> nat \<Rightarrow> Scheduler \<Rightarrow> Scheduler \<Rightarrow> bool" where
  change_self: "map_of (mTransactions s) r = Some (tx, st) \<Longrightarrow> txUUID tx' = txUUID tx \<Longrightarrow>
    txType tx' = txType tx \<Longrightarrow> txEquivalent tx' = txEquivalent tx \<Longrightarrow>
    run_effect busy r s (s\<lparr>mTransactions := ordUpdate r (tx', st) (mTransactions s)\<rparr>)"
| start: "r' \<notin> set (keys (mTransactions s)) \<Longrightarrow> scheduleTransaction r' tx s = (res, s') \<Longrightarrow> run_effect busy r s s'"
| postpone: "r' \<notin> set (keys (mTransactions s)) \<Longrightarrow> postponeTransaction r' tx d s = (res, s') \<Longrightarrow>
    run_effect busy r s s'"
| awake_other: "awakeTransaction u s = (res, s') \<Longrightarrow> run_effect busy r s s'"
| put_resource: "r' \<notin> busy \<Longrightarrow> map_of (mTransactions s) r' = Some (tx, st) \<Longrightarrow>
    resTransactionUUID resource = txUUID tx \<Longrightarrow> resType resource \<in> set (mRequiredResourcesTypes st) \<Longrightarrow>
    (run_effect (insert r' busy) r')\<^sup>*\<^sup>* (pushResource r' resource s) s1 \<Longrightarrow> ran_ok (clock s) res \<Longrightarrow>
    launchTransaction (\<lambda>_ _. (res, s1)) r' tx (pushResource r' resource s) = (res', s') \<Longrightarrow> run_effect busy r s s'"

definition well_behaved :: "Behaviour \<Rightarrow> bool" where
  "well_behaved run \<longleftrightarrow> (\<forall>r s res s'. run r s = (res, s') \<longrightarrow> r \<in> set (keys (mTransactions s)) \<longrightarrow>
     (run_effect {r} r)\<^sup>*\<^sup>* s s' \<and> ran_ok (clock s) res)"

lemma entered_keys: "entered r tx st s s' \<Longrightarrow> set (keys (mTransactions s')) = insert r (set (keys (mTransactions s)))"
  by (clarsimp simp: entered_def) (simp add: keys_ordUpdate [simplified])

lemma change_self_ok:
  assumes "table_ok s" and "map_of (mTransactions s) r = Some (tx, st)" and "txUUID tx' = txUUID tx"
  shows "kept s (s\<lparr>mTransactions := ordUpdate r (tx', st) (mTransactions s)\<rparr>) \<and>
    set (keys (mTransactions s)) \<subseteq> set (keys (mTransactions (s\<lparr>mTransactions := ordUpdate r (tx', st) (mTransactions s)\<rparr>)))"
proof -
  let ?s = "s\<lparr>mTransactions := ordUpdate r (tx', st) (mTransactions s)\<rparr>"
  have "table_ok ?s"
    using assms table_okD(3,4) [OF assms(1)] by (intro table_ok_put) fastforce+
  moreover have "armed ?s" if "armed s"
    using that by (rule armed_subset) (use assms in \<open>auto split: if_splits\<close>)
  ultimately show ?thesis by (auto simp: keys_ordUpdate [simplified])
qed

lemma push_ok:
  assumes "table_ok s" and "map_of (mTransactions s) r = Some (tx, st)"
  shows "kept s (pushContext r message s) \<and> set (keys (mTransactions s)) \<subseteq> set (keys (mTransactions (pushContext r message s)))"
    and "kept s (pushResource r resource s) \<and> set (keys (mTransactions s)) \<subseteq> set (keys (mTransactions (pushResource r resource s)))"
  using change_self_ok [OF assms, of "tx\<lparr>txContext := txContext tx @ [message]\<rparr>"]
    change_self_ok [OF assms, of "tx\<lparr>txResources := txResources tx @ [resource]\<rparr>"] assms(2)
  by (simp_all add: pushContext_def pushResource_def)

lemma run_effect_ok: "run_effect busy r s s' \<Longrightarrow> table_ok s \<Longrightarrow> busy \<subseteq> set (keys (mTransactions s)) \<Longrightarrow>
    kept s s' \<and> busy \<subseteq> set (keys (mTransactions s'))"
proof (induction rule: run_effect.induct)
  case (change_self s r tx st tx' busy)
  then show ?case using change_self_ok [of s r tx st tx'] by blast
next
  case (start r' s tx res s' busy r)
  then show ?case using schedule_cases [OF start(3,2)] entered_keys by blast
next
  case (postpone r' s tx d res s' busy r)
  then show ?case using postpone_cases [OF postpone(3,2)] entered_keys by blast
next
  case (awake_other u s res s' busy r)
  then show ?case using awake_cases [OF awake_other(2,1)] entered_keys by blast
next
  case (put_resource r' busy s tx st resource s1 res res' s' r)
  let ?p = "pushResource r' resource s"
  have p: "kept s ?p" "set (keys (mTransactions s)) \<subseteq> set (keys (mTransactions ?p))"
    using push_ok(2) [OF put_resource.prems(1) put_resource.hyps(2), of resource] by blast+
  have "r' \<in> set (keys (mTransactions s))" using put_resource.hyps(2) by (force dest: map_of_SomeD)
  then have in_p: "insert r' busy \<subseteq> set (keys (mTransactions ?p))" using p(2) put_resource.prems(2) by blast
  have "kept ?p s1 \<and> insert r' busy \<subseteq> set (keys (mTransactions s1))"
    using put_resource.IH
  proof (induction rule: rtranclp_induct)
    case base
    then show ?case using p(1) in_p by simp
  next
    case (step y z)
    then show ?case by auto
  qed
  then have s1: "kept s s1" "insert r' busy \<subseteq> set (keys (mTransactions s1))" using p(1) by auto
  obtain s'' where "launchTransaction (\<lambda>_ _. (res, s1)) r' tx ?p = (Inr (), s'')" "kept s1 s''"
    "set (keys (mTransactions s1)) - {r'} \<subseteq> set (keys (mTransactions s''))"
    using conclude_ok [of s1 r' res tx ?p] s1 put_resource.hyps(5) by auto
  then show ?case using put_resource.hyps(1,6) s1 by auto
qed

lemma run_effects_ok: "(run_effect busy r)\<^sup>*\<^sup>* s s' \<Longrightarrow> table_ok s \<Longrightarrow> busy \<subseteq> set (keys (mTransactions s)) \<Longrightarrow>
    kept s s' \<and> busy \<subseteq> set (keys (mTransactions s'))"
proof (induction rule: rtranclp_induct)
  case (step y z)
  then show ?case using run_effect_ok [of busy r y z] by auto
qed simp

lemma well_behavedD:
  assumes "well_behaved run" and "table_ok s" and "r \<in> set (keys (mTransactions s))" and "run r s = (res, s')"
  shows "kept s s'" "r \<in> set (keys (mTransactions s'))" "ran_ok (clock s') res" "(run_effect {r} r)\<^sup>*\<^sup>* s s'"
proof -
  have w: "(run_effect {r} r)\<^sup>*\<^sup>* s s'" "ran_ok (clock s) res"
    using assms(1,3,4) by (auto simp: well_behaved_def)
  note e = run_effects_ok [OF w(1) assms(2)]
  show "kept s s'" "r \<in> set (keys (mTransactions s'))" "ran_ok (clock s') res" "(run_effect {r} r)\<^sup>*\<^sup>* s s'"
    using e w assms(3) by auto
qed

lemma launch_ok:
  assumes "well_behaved run" and "table_ok s" and "r \<in> set (keys (mTransactions s))"
  shows "\<exists>s'. launchTransaction run r tx s = (Inr (), s') \<and> kept s s'"
proof -
  obtain res s1 where run: "run r s = (res, s1)" by (metis surj_pair)
  note w = well_behavedD [OF assms run]
  have "launchTransaction run r tx s = launchTransaction (\<lambda>_ _. (res, s1)) r tx s"
    by (simp add: launchTransaction_def run)
  then show ?thesis using conclude_ok [of s1 r res tx s] w by auto
qed

lemma attachMessage_ok:
  assumes "well_behaved run" and "table_ok s"
  shows "set xs \<subseteq> set (mTransactions s) \<Longrightarrow> attachMessage run message xs s = (res, s') \<Longrightarrow> kept s s'"
proof (induction xs)
  case (Cons x xs)
  obtain r tx st where x: "x = (r, tx, st)" by (metis surj_pair)
  have "(r, tx, st) \<in> set (mTransactions s)" using Cons(2) x by simp
  then have m: "map_of (mTransactions s) r = Some (tx, st)" using in_table [OF assms(2)] by simp
  note p' = push_ok(1) [OF assms(2) m, of message]
  have p: "kept s (pushContext r message s)" "r \<in> set (keys (mTransactions (pushContext r message s)))"
    using p' m by (force dest: map_of_SomeD)+
  obtain s1 where l: "launchTransaction run r tx (pushContext r message s) = (Inr (), s1)"
    "kept (pushContext r message s) s1"
    using launch_ok [OF assms(1) _ p(2)] p(1) by blast
  have "kept s s1" "kept s (pushContext r message s)" using l p(1) by auto
  then show ?case
    using Cons l(1) assms(2)
    by (auto simp: x Let_def split: if_splits sum.splits bool.splits)
qed (use assms in simp)

lemma attachResource_ok:
  assumes "well_behaved run" and "table_ok s"
  shows "set xs \<subseteq> set (mTransactions s) \<Longrightarrow> attachResource run resource xs s = (res, s') \<Longrightarrow> kept s s'"
proof (induction xs)
  case (Cons x xs)
  obtain r tx st where x: "x = (r, tx, st)" by (metis surj_pair)
  have "(r, tx, st) \<in> set (mTransactions s)" using Cons(2) x by simp
  then have m: "map_of (mTransactions s) r = Some (tx, st)" using in_table [OF assms(2)] by simp
  note p' = push_ok(2) [OF assms(2) m, of resource]
  have p: "kept s (pushResource r resource s)" "r \<in> set (keys (mTransactions (pushResource r resource s)))"
    using p' m by (force dest: map_of_SomeD)+
  obtain s1 where l: "launchTransaction run r tx (pushResource r resource s) = (Inr (), s1)"
    "kept (pushResource r resource s) s1"
    using launch_ok [OF assms(1) _ p(2)] p(1) by blast
  have "kept s s1" using l p(1) by auto
  then show ?case using Cons l(1) assms(2) by (auto simp: x split: if_splits)
qed (use assms in simp)

section \<open>Awakening keeps the table and arms the timer\<close>

lemma earlierLoop_ok:
  assumes "table_ok s" and "distinct (keys xs)" and "fst earlier \<in> set (keys (mTransactions s))"
    and "\<forall>(r, tx, st) \<in> set xs. map_of (mTransactions s) r = Some (tx, st)"
    and "earlierLoop type xs earlier s = ((r', tx'), s')"
  shows "kept s s' \<and> r' \<in> set (keys (mTransactions s'))"
  using assms
proof (induction type xs earlier s rule: earlierLoop.induct)
  case (2 type r tx st rest earlier s)
  let ?t = "if clock s \<ge> mAwakeningTimestamp st
      then s\<lparr>mTransactions := ordUpdate r (tx, awakeAsFastAsPossible (clock s)) (mTransactions s)\<rparr> else s"
  have m: "map_of (mTransactions s) r = Some (tx, st)" using 2(7) by simp
  have t: "kept s ?t \<and> set (keys (mTransactions s)) \<subseteq> set (keys (mTransactions ?t))"
  proof (cases "clock s \<ge> mAwakeningTimestamp st")
    case True
    then have t: "?t = s\<lparr>mTransactions := ordUpdate r (tx, awakeAsFastAsPossible (clock s)) (mTransactions s)\<rparr>"
      by simp
    have "table_ok ?t"
      unfolding t using 2(4) m table_okD(3) [OF 2(4)] by (intro table_ok_put) auto
    moreover have "armed ?t" if "armed s"
      unfolding t armed_def using that m True by (auto simp: armed_def max_def split: if_splits)
    ultimately show ?thesis unfolding t by (auto simp: keys_ordUpdate [simplified])
  qed (use 2(4) in simp)
  have rest: "\<forall>(r2, tx2, st2) \<in> set rest. map_of (mTransactions ?t) r2 = Some (tx2, st2)"
    using 2(5,7) by (force simp: image_iff)
  have d: "distinct (keys rest)" using 2(5) by simp
  have "r \<in> set (keys (mTransactions s))" using m by (force dest: map_of_SomeD)
  then have "fst (if txStarted tx < txStarted (snd earlier) then (r, tx) else earlier) \<in> set (keys (mTransactions s))"
    using 2(6) by simp
  then have e: "fst (if txStarted tx < txStarted (snd earlier) then (r, tx) else earlier) \<in> set (keys (mTransactions ?t))"
    by (rule subsetD [OF conjunct2 [OF t]])
  have same: ?case if "txType tx \<noteq> type \<or> txStep tx \<noteq> 3"
  proof (cases "txType tx \<noteq> type")
    case True
    then show ?thesis using 2(1) [OF True 2(4) d 2(6)] 2(7,8) by simp
  next
    case False
    then show ?thesis using 2(2) [OF False _ 2(4) d 2(6)] 2(7,8) that by simp
  qed
  show ?case
  proof (cases "txType tx \<noteq> type \<or> txStep tx \<noteq> 3")
    case False
    have "kept ?t s' \<and> r' \<in> set (keys (mTransactions s'))"
      using 2(3) [OF _ _ conjunct1 [OF conjunct1 [OF t]] d e rest] 2(8) False by simp
    then show ?thesis using t by auto
  qed (rule same)
qed auto

lemma errors_zero: "table_ok s \<Longrightarrow> s\<lparr>errorsCount := 0\<rparr> = s"
  by (cases s) (simp add: table_ok_def)

lemma handleAwakening_launches:
  assumes "table_ok s" and "mTransactions s \<noteq> []" and "well_behaved run"
  shows "\<exists>r tx st. map_of (mTransactions s) r = Some (tx, st) \<and>
    (\<forall>r' tx' st'. map_of (mTransactions s) r' = Some (tx', st') \<longrightarrow> before (r, tx, st) (r', tx', st')) \<and>
    handleAwakening run NoError s =
      bindS (if clock s \<ge> mAwakeningTimestamp st
             then if txType tx \<noteq> MaxFlowCalculationStepTwoTransactionType
                  then launchTransaction run r tx s
                  else (case getEarlierTransaction (r, tx) s of ((r', tx'), s) \<Rightarrow> launchTransaction run r' tx' s)
             else returning () s)
        (\<lambda>_. adjustAwakeningToNextTransaction)"
proof -
  obtain r tx st where m: "transactionWithMinimalAwakeningTimestamp s = Inr (r, mAwakeningTimestamp st)"
    "map_of (mTransactions s) r = Some (tx, st)"
    "\<forall>r' tx' st'. map_of (mTransactions s) r' = Some (tx', st') \<longrightarrow> before (r, tx, st) (r', tx', st')"
    using earliest [OF assms(1,2)] by blast
  have rk: "r \<in> set (keys (mTransactions s))" using m(2) by (force dest: map_of_SomeD)
  obtain s1 where s1: "launchTransaction run r tx s = (Inr (), s1)" "table_ok s1"
    using launch_ok [OF assms(3,1) rk] by blast
  obtain r' tx' s2 where g: "getEarlierTransaction (r, tx) s = ((r', tx'), s2)" by (metis surj_pair)
  have "kept s s2 \<and> r' \<in> set (keys (mTransactions s2))"
  proof (cases "length (mTransactions s) > 1")
    case True
    then show ?thesis
      using g earlierLoop_ok [OF assms(1) table_okD(2) [OF assms(1)], of "(r, tx)" "txType tx" r' tx' s2]
        rk table_okD(2) [OF assms(1)]
      by (simp add: getEarlierTransaction_def split_beta)
  qed (use g rk assms(1) in \<open>auto simp: getEarlierTransaction_def\<close>)
  then obtain s3 where s3: "launchTransaction run r' tx' s2 = (Inr (), s3)" "table_ok s3"
    using launch_ok [OF assms(3)] by blast
  have "handleAwakening run NoError s =
      bindS (if clock s \<ge> mAwakeningTimestamp st
             then if txType tx \<noteq> MaxFlowCalculationStepTwoTransactionType
                  then launchTransaction run r tx s
                  else (case getEarlierTransaction (r, tx) s of ((r', tx'), s) \<Rightarrow> launchTransaction run r' tx' s)
             else returning () s)
        (\<lambda>_. adjustAwakeningToNextTransaction)"
    using m s1 s3 g errors_zero by (simp add: handleAwakening_def)
  then show ?thesis using m by blast
qed

lemma getEarlier_ok:
  assumes "table_ok s" and "map_of (mTransactions s) r = Some (tx, st)"
    and "getEarlierTransaction (r, tx) s = ((r', tx'), s')"
  shows "kept s s' \<and> r' \<in> set (keys (mTransactions s'))"
proof -
  have rk: "r \<in> set (keys (mTransactions s))" using assms(2) by (force dest: map_of_SomeD)
  show ?thesis
  proof (cases "length (mTransactions s) > 1")
    case True
    then show ?thesis
      using assms(3) earlierLoop_ok [OF assms(1) table_okD(2) [OF assms(1)], of "(r, tx)" "txType tx" r' tx' s']
        rk table_okD(2) [OF assms(1)]
      by (simp add: getEarlierTransaction_def split_beta)
  qed (use assms rk in \<open>auto simp: getEarlierTransaction_def\<close>)
qed

lemma handleAwakening_ok:
  assumes "well_behaved run" and "table_ok s" and "errorMessage \<noteq> OperationAborted"
  shows "\<exists>s'. handleAwakening run errorMessage s = (Inr (), s') \<and> table_ok s' \<and> armed s' \<and> clock s' = clock s"
proof -
  have main: "\<exists>s'. handleAwakening run NoError s = (Inr (), s') \<and> table_ok s' \<and> armed s' \<and> clock s' = clock s"
    if s: "table_ok s" for s
  proof (cases "mTransactions s = []")
    case True
    then show ?thesis
      using s by (simp add: handleAwakening_def transactionWithMinimalAwakeningTimestamp_def armed_def)
  next
    case False
    obtain r tx st where m: "map_of (mTransactions s) r = Some (tx, st)"
      and eq: "handleAwakening run NoError s =
        bindS (if clock s \<ge> mAwakeningTimestamp st
             then if txType tx \<noteq> MaxFlowCalculationStepTwoTransactionType
                  then launchTransaction run r tx s
                  else (case getEarlierTransaction (r, tx) s of ((r', tx'), s) \<Rightarrow> launchTransaction run r' tx' s)
             else returning () s)
        (\<lambda>_. adjustAwakeningToNextTransaction)"
      using handleAwakening_launches [OF s False assms(1)] by blast
    obtain r' tx' s2 where g: "getEarlierTransaction (r, tx) s = ((r', tx'), s2)" by (metis surj_pair)
    note g2 = getEarlier_ok [OF s m g]
    obtain s1 where s1: "launchTransaction run r tx s = (Inr (), s1)" "kept s s1"
      using launch_ok [OF assms(1) s] m by (metis map_of_eq_None_keys option.distinct(1))
    obtain s3 where s3: "launchTransaction run r' tx' s2 = (Inr (), s3)" "kept s2 s3"
      using launch_ok [OF assms(1)] g2 by blast
    define t where "t = (if clock s \<ge> mAwakeningTimestamp st
      then if txType tx \<noteq> MaxFlowCalculationStepTwoTransactionType then s1 else s3 else s)"
    have t: "handleAwakening run NoError s = adjustAwakeningToNextTransaction t" "table_ok t" "clock t = clock s"
      using eq s1 s3 g g2 s by (simp_all add: t_def)
    from adjust_ok [OF t(2)] t show ?thesis by auto
  qed
  show ?thesis
  proof (cases "errorMessage = NoError")
    case True
    then show ?thesis using main [OF assms(2)] by simp
  next
    case False
    have "handleAwakening run errorMessage s =
        handleAwakening run NoError (s\<lparr>mProcessingTimer := Some (max (clock s) (clock s))\<rparr>)"
      using False assms(3) table_okD(7) [OF assms(2)] asyncWait_ok [of "clock s" s]
      by (simp add: handleAwakening_def)
    then show ?thesis using main [of "s\<lparr>mProcessingTimer := Some (max (clock s) (clock s))\<rparr>"] assms(2) by simp
  qed
qed

section \<open>Runs of the scheduler\<close>

text \<open>
  Time passes, the timer fires, messages and resources arrive, commands and other transactions start
  or awaken transactions. Every operation may be followed by any other.
\<close>

inductive scheduler_step :: "Scheduler \<Rightarrow> Scheduler \<Rightarrow> bool" where
  tick: "clock s \<le> c \<Longrightarrow> c < 2 ^ 62 \<Longrightarrow> scheduler_step s (s\<lparr>clock := c\<rparr>)"
| fire: "mProcessingTimer s = Some t \<Longrightarrow> t \<le> clock s \<Longrightarrow> errorMessage \<noteq> OperationAborted \<Longrightarrow>
    well_behaved run \<Longrightarrow> handleAwakening run errorMessage (s\<lparr>mProcessingTimer := None\<rparr>) = (res, s') \<Longrightarrow>
    scheduler_step s s'"
| aborted: "handleAwakening run OperationAborted s = (res, s') \<Longrightarrow> scheduler_step s s'"
| message: "well_behaved run \<Longrightarrow> tryAttachMessageToTransaction run message s = (res, s') \<Longrightarrow> scheduler_step s s'"
| resource: "well_behaved run \<Longrightarrow> tryAttachResourceToTransaction run resource s = (res, s') \<Longrightarrow> scheduler_step s s'"
| schedule: "scheduleTransaction r tx s = (res, s') \<Longrightarrow> scheduler_step s s'"
| delay: "postponeTransaction r tx d s = (res, s') \<Longrightarrow> scheduler_step s s'"
| awake: "awakeTransaction u s = (res, s') \<Longrightarrow> scheduler_step s s'"

definition scheduler_ok :: "Scheduler \<Rightarrow> bool" where
  "scheduler_ok s \<longleftrightarrow> table_ok s \<and> armed s"

lemma tick_ok:
  assumes "scheduler_ok s" and "clock s \<le> c" and "c < 2 ^ 62"
  shows "scheduler_ok (s\<lparr>clock := c\<rparr>)"
proof -
  have "armed (s\<lparr>clock := c\<rparr>)"
    by (rule armed_subset [of s]) (use assms in \<open>auto simp: scheduler_ok_def\<close>)
  moreover have "table_ok (s\<lparr>clock := c\<rparr>)"
    using assms by (force simp: scheduler_ok_def table_ok_def)
  ultimately show ?thesis by (simp add: scheduler_ok_def)
qed

lemma scheduler_step_ok: "scheduler_step s s' \<Longrightarrow> scheduler_ok s \<Longrightarrow> scheduler_ok s'"
proof (induction rule: scheduler_step.induct)
  case (tick s c) then show ?case by (rule_tac tick_ok)
next
  case (fire s t errorMessage run res s')
  have "table_ok (s\<lparr>mProcessingTimer := None\<rparr>)" using fire(6) by (simp add: scheduler_ok_def)
  from handleAwakening_ok [OF fire(4) this fire(3)] show ?case using fire(5) by (auto simp: scheduler_ok_def)
next
  case (aborted run s res s') then show ?case by (simp add: handleAwakening_def)
next
  case (message run message s res s')
  then show ?case
    using attachMessage_ok [OF message(1), of s "mTransactions s" message res s']
    by (auto simp: scheduler_ok_def tryAttachMessageToTransaction_def split: if_splits)
next
  case (resource run resource s res s')
  then show ?case
    using attachResource_ok [OF resource(1), of s "mTransactions s" resource res s']
    by (auto simp: scheduler_ok_def tryAttachResourceToTransaction_def)
next
  case (schedule r tx s res s')
  then show ?case using schedule_cases by (auto simp: scheduler_ok_def)
next
  case (delay r tx d s res s')
  then show ?case using postpone_cases by (auto simp: scheduler_ok_def)
next
  case (awake u s res s')
  then show ?case using awake_cases by (auto simp: scheduler_ok_def)
qed

interpretation scheduler_run: step_invariant scheduler_step scheduler_ok
  by unfold_locales (rule scheduler_step_ok)

section \<open>The queue before a transaction\<close>

definition undisturbed :: "Scheduler \<Rightarrow> Scheduler \<Rightarrow> nat \<Rightarrow> bool" where
  "undisturbed s s' r \<longleftrightarrow> map_of (mTransactions s') r = map_of (mTransactions s) r \<or>
     (map_of (mTransactions s) r = None \<and>
      (\<exists>tx st. map_of (mTransactions s') r = Some (tx, st) \<and> clock s \<le> mAwakeningTimestamp st))"

text \<open>\<open>moves_on\<close>: the run of a transaction, with its result and the state it leaves, asks neither for a time in the past nor
  for its previous state, and does not touch other transactions; what it starts is due now or later. \<open>continues\<close>: it asks
  for its previous state. \<open>ahead\<close> are the transactions the scheduler prefers to one with deadline \<open>t\<close>.\<close>

definition moves_on :: "Scheduler \<Rightarrow> nat \<Rightarrow> TransactionResult option result \<times> Scheduler \<Rightarrow> bool" where
  "moves_on s r x \<longleftrightarrow>
     (\<forall>result st. fst x = Inr (Some result) \<longrightarrow> mTransactionState result = Some st \<longrightarrow>
        \<not> mMustSavePreviousStateState st \<and> clock s \<le> mAwakeningTimestamp st) \<and>
     (\<forall>r'. r' \<noteq> r \<longrightarrow> undisturbed s (snd x) r')"

definition continues :: "TransactionResult option result \<times> Scheduler \<Rightarrow> bool" where
  "continues x \<longleftrightarrow> (\<exists>result st. fst x = Inr (Some result) \<and> mTransactionState result = Some st \<and> mMustSavePreviousStateState st)"

definition ahead :: "nat \<Rightarrow> GEOEpochTimestamp \<Rightarrow> Scheduler \<Rightarrow> nat set" where
  "ahead r t s = {r'. \<exists>tx st. map_of (mTransactions s) r' = Some (tx, st) \<and>
     (mAwakeningTimestamp st < t \<or> (mAwakeningTimestamp st = t \<and> r' < r))}"

lemma finite_ahead: "finite (ahead r t s)"
  by (rule finite_subset [OF _ finite_dom_map_of [of "mTransactions s"]]) (auto simp: ahead_def)

lemma launch_map:
  assumes "well_behaved run" and "table_ok s" and "r \<in> set (keys (mTransactions s))"
    and "launchTransaction run r tx s = (Inr (), s')"
  shows "moves_on s r (run r s) \<Longrightarrow> (\<forall>r'. r' \<noteq> r \<longrightarrow> undisturbed s s' r') \<and>
      (\<forall>tx' st'. map_of (mTransactions s') r = Some (tx', st') \<longrightarrow> clock s \<le> mAwakeningTimestamp st')"
    and "continues (run r s) \<Longrightarrow> mTransactions s' = mTransactions (snd (run r s))"
proof -
  obtain res s1 where run: "run r s = (res, s1)" by (metis surj_pair)
  note w = well_behavedD [OF assms(1-3) run]
  have returned: "\<exists>s2. handleTransactionResult r tx result s1 = (Inr (), s2) \<and> mTransactions s' = mTransactions s2"
    if "res = Inr (Some result)" for result
  proof -
    have "table_ok s1" "result_ok (clock s1) result" using w(1,3) that by (simp_all add: ran_ok_def)
    then obtain s2 where s2: "handleTransactionResult r tx result s1 = (Inr (), s2)" "table_ok s2"
      using handle_ok [OF _ w(2), of result tx] by blast
    obtain t where "adjustAwakeningToNextTransaction s2 = (Inr (), s2\<lparr>mProcessingTimer := t\<rparr>)"
      using adjust_ok [OF s2(2)] by blast
    then show ?thesis using run that s2(1) assms(4) by (auto simp: launchTransaction_def)
  qed
  show "mTransactions s' = mTransactions (snd (run r s))" if "continues (run r s)"
  proof -
    obtain result st where result: "res = Inr (Some result)" "mTransactionState result = Some st" "mMustSavePreviousStateState st"
      using \<open>continues (run r s)\<close> run by (auto simp: continues_def)
    then show ?thesis
      using returned [OF result(1)] run
      by (auto simp: handleTransactionResult_def processCommandResultAndTransactionState_def processTransactionState_def
          split: option.splits)
  qed
  let ?kept = "(\<forall>r'. r' \<noteq> r \<longrightarrow> undisturbed s s' r') \<and>
      (\<forall>tx' st'. map_of (mTransactions s') r = Some (tx', st') \<longrightarrow> clock s \<le> mAwakeningTimestamp st')"
  assume moves: "moves_on s r (run r s)"
  then have others: "\<forall>r'. r' \<noteq> r \<longrightarrow> undisturbed s s1 r'" using run by (simp add: moves_on_def)
  have drop: ?kept if "s' = forgetTransaction r tx s1"
    using that others by (auto simp: undisturbed_def)
  show ?kept
  proof (cases res)
    case (Inl e)
    then show ?kept using run w(3) assms(4) by (intro drop) (cases e; simp add: launchTransaction_def ran_ok_def)
  next
    case (Inr ro)
    show ?kept
    proof (cases ro)
      case None
      then show ?kept using run Inr assms(4) by (intro drop) (simp add: launchTransaction_def)
    next
      case (Some result)
      obtain s2 where s2: "handleTransactionResult r tx result s1 = (Inr (), s2)" "mTransactions s' = mTransactions s2"
        using returned Inr Some by blast
      have st: "\<not> mMustSavePreviousStateState st \<and> clock s \<le> mAwakeningTimestamp st"
        if "mTransactionState result = Some st" for st
        using moves run Inr Some that by (simp add: moves_on_def)
      show ?kept
        using others st
        by (cases "mTransactionState result")
          (auto simp: undisturbed_def s2(2) handle_map [OF s2(1)] process_map)
    qed
  qed
qed

section \<open>Properties\<close>

definition sampleTransaction :: "TransactionUUID \<Rightarrow> Transaction" where
  "sampleTransaction u = \<lparr>txUUID = u, txType = 302, txStep = 1, txStarted = 0, txEquivalent = 1,
     txCoordinator = Some ''coordinator'', txCommandUUID = 0, txContext = [], txResources = []\<rparr>"

text \<open>Two payments: the second waits for a final configuration and is overdue.\<close>

definition sampleScheduler :: Scheduler where
  "sampleScheduler = \<lparr>clock = 1000,
     mTransactions = [(1, sampleTransaction 11, awakeAsFastAsPossible 900),
                      (2, sampleTransaction 12, waitForMessageTypes [213] 1 (- 100))],
     mProcessingTimer = Some 900, errorsCount = 0, signals = []\<rparr>"

definition sampleRun :: Behaviour where
  "sampleRun r s = (Inr (Some \<lparr>mCommandResult = None,
     mTransactionState = Some (waitForMessageTypes [213] 100 (clock s))\<rparr>), s)"

lemma delayMicroseconds_small [simp]: "delayMicroseconds 1 = 1000" "delayMicroseconds 100 = 100000"
  by (simp_all add: delayMicroseconds_def)

lemma sample_states [simp]:
  "mAwakeningTimestamp (waitForMessageTypes [213] 1 now) = now + 1000"
  "mAwakeningTimestamp (waitForMessageTypes [213] 100 now) = now + 100000"
  "\<not> mMustSavePreviousStateState (waitForMessageTypes [213] 100 now)"
  by (simp_all add: waitForMessageTypes_def awakeAfterMilliseconds_def newTransactionState_def)

lemma sampleScheduler_fields [simp]:
  "clock sampleScheduler = 1000" "mProcessingTimer sampleScheduler = Some 900" "errorsCount sampleScheduler = 0"
  "mTransactions sampleScheduler = [(1, sampleTransaction 11, awakeAsFastAsPossible 900),
     (2, sampleTransaction 12, waitForMessageTypes [213] 1 (- 100))]"
  "txUUID (sampleTransaction u) = u" "txType (sampleTransaction u) = 302"
  by (simp_all add: sampleScheduler_def sampleTransaction_def)

lemma sampleScheduler_ok: "scheduler_ok sampleScheduler"
  by (auto simp: scheduler_ok_def table_ok_def armed_def kLongestDelay_def split: if_splits)

lemma sampleRun_ok: "well_behaved sampleRun" "moves_on s r (sampleRun r s)"
  by (auto simp: well_behaved_def ran_ok_def moves_on_def undisturbed_def sampleRun_def result_ok_def kLongestDelay_def)

text \<open>C20: no transaction is forgotten by the timer. In every run of the scheduler, in whatever order messages,
  resources, commands and timer errors come: while a transaction is in the map the timer is armed, for no later than its
  deadline (or for now, when that has passed), and no other transaction in the map has its identifier. What a transaction
  may do while it runs (\<open>run_effect\<close>): change its own object, start, postpone and awake others, and put a
  resource, which is attached to another transaction and runs that one inside its own run; a chain of such nested runs does
  not come back to a transaction that is running.\<close>

theorem no_lost_wakeup:
  assumes "scheduler_ok s" and "scheduler_step\<^sup>*\<^sup>* s s'" and "map_of (mTransactions s') r = Some (tx, st)"
  shows "(\<exists>t. mProcessingTimer s' = Some t \<and> t \<le> max (mAwakeningTimestamp st) (clock s')) \<and>
    (\<forall>r2 tx2 st2. map_of (mTransactions s') r2 = Some (tx2, st2) \<longrightarrow> txUUID tx2 = txUUID tx \<longrightarrow> r2 = r)"
proof -
  have "scheduler_ok s'" using scheduler_run.steps_inv [OF assms(2,1)] .
  then have "table_ok s'" "armed s'" by (auto simp: scheduler_ok_def)
  then show ?thesis using table_okD(3) [OF \<open>table_ok s'\<close>] assms(3) unfolding armed_def by metis
qed

theorem no_lost_wakeup_witness:
  "\<exists>s' t. tryAttachResourceToTransaction sampleRun \<lparr>resType = 1, resTransactionUUID = 99\<rparr> sampleScheduler = s' \<and>
     mProcessingTimer (snd s') = Some t \<and> t \<le> 1000"
proof -
  let ?s' = "tryAttachResourceToTransaction sampleRun \<lparr>resType = 1, resTransactionUUID = 99\<rparr> sampleScheduler"
  have "scheduler_step sampleScheduler (snd ?s')"
    using scheduler_step.resource [OF sampleRun_ok(1)] by (metis prod.collapse)
  moreover have "snd ?s' = sampleScheduler" by (simp add: tryAttachResourceToTransaction_def)
  ultimately show ?thesis
    using no_lost_wakeup [OF sampleScheduler_ok r_into_rtranclp, of _ 1 "sampleTransaction 11"
        "awakeAsFastAsPossible 900"] by auto
qed

text \<open>C21: what an awakening does for an overdue transaction. When the timer fires, the awakening returns without an
  exception and launches the transaction with the least deadline. When this is another transaction that moves on (asks
  neither for a time in the past nor for its previous state, and does not touch others), the overdue one keeps
  its place and the transactions the scheduler prefers to it become strictly fewer. When instead the first one asks for its
  previous state and changes nothing, the table is as before, so that the next awakening launches it again. (There is no
  step two of a max flow in the table, for which the code has another rule.)\<close>

theorem awakening_progress:
  assumes "well_behaved run" and "table_ok s"
    and "map_of (mTransactions s) r = Some (tx, st)" and "mAwakeningTimestamp st < clock s"
    and "\<forall>r' tx' st'. map_of (mTransactions s) r' = Some (tx', st') \<longrightarrow>
      txType tx' \<noteq> MaxFlowCalculationStepTwoTransactionType"
  shows "\<exists>r0 tx0 st0 s'. map_of (mTransactions s) r0 = Some (tx0, st0) \<and> before (r0, tx0, st0) (r, tx, st) \<and>
    handleAwakening run NoError s = bindS (launchTransaction run r0 tx0 s) (\<lambda>_. adjustAwakeningToNextTransaction) \<and>
    handleAwakening run NoError s = (Inr (), s') \<and>
    (r0 \<noteq> r \<and> moves_on s r0 (run r0 s) \<longrightarrow> map_of (mTransactions s') r = Some (tx, st) \<and>
       ahead r (mAwakeningTimestamp st) s' \<subset> ahead r (mAwakeningTimestamp st) s) \<and>
    (continues (run r0 s) \<and> mTransactions (snd (run r0 s)) = mTransactions s \<longrightarrow> mTransactions s' = mTransactions s)"
proof -
  have ne: "mTransactions s \<noteq> []" using assms(3) by auto
  obtain r0 tx0 st0 where m: "map_of (mTransactions s) r0 = Some (tx0, st0)"
    and least: "before (r0, tx0, st0) (r, tx, st)"
    and eq: "handleAwakening run NoError s =
      bindS (if clock s \<ge> mAwakeningTimestamp st0
             then if txType tx0 \<noteq> MaxFlowCalculationStepTwoTransactionType
                  then launchTransaction run r0 tx0 s
                  else (case getEarlierTransaction (r0, tx0) s of ((r', tx'), s) \<Rightarrow> launchTransaction run r' tx' s)
             else returning () s)
        (\<lambda>_. adjustAwakeningToNextTransaction)"
    using handleAwakening_launches [OF assms(2) ne assms(1)] assms(3) by blast
  have due: "mAwakeningTimestamp st0 \<le> clock s" using least assms(4) by auto
  have h: "handleAwakening run NoError s =
      bindS (launchTransaction run r0 tx0 s) (\<lambda>_. adjustAwakeningToNextTransaction)"
    using eq due assms(5) m by simp
  have r0: "r0 \<in> set (keys (mTransactions s))" using m by (force dest: map_of_SomeD)
  obtain s1 where s1: "launchTransaction run r0 tx0 s = (Inr (), s1)" "table_ok s1"
    using launch_ok [OF assms(1,2) r0] by blast
  obtain t where t: "adjustAwakeningToNextTransaction s1 = (Inr (), s1\<lparr>mProcessingTimer := t\<rparr>)"
    using adjust_ok [OF s1(2)] by blast
  let ?s' = "s1\<lparr>mProcessingTimer := t\<rparr>"
  have ret: "handleAwakening run NoError s = (Inr (), ?s')" using h s1 t by simp
  have "map_of (mTransactions ?s') r = Some (tx, st) \<and>
      ahead r (mAwakeningTimestamp st) ?s' \<subset> ahead r (mAwakeningTimestamp st) s" if "r0 \<noteq> r" "moves_on s r0 (run r0 s)"
  proof -
    note l = launch_map(1) [OF assms(1,2) r0 s1(1) that(2)]
    have keep: "map_of (mTransactions ?s') r = Some (tx, st)"
      using l that(1) assms(3) by (auto simp: undisturbed_def)
    have "ahead r (mAwakeningTimestamp st) ?s' \<subseteq> ahead r (mAwakeningTimestamp st) s"
    proof
      fix x assume x: "x \<in> ahead r (mAwakeningTimestamp st) ?s'"
      then obtain txx stx where xs: "map_of (mTransactions s1) x = Some (txx, stx)"
        "mAwakeningTimestamp stx \<le> mAwakeningTimestamp st"
        by (auto simp: ahead_def)
      have "x \<noteq> r0" using l xs assms(4) by fastforce
      then have "map_of (mTransactions s) x = map_of (mTransactions s1) x"
        using l xs assms(4) unfolding undisturbed_def by fastforce
      then show "x \<in> ahead r (mAwakeningTimestamp st) s" using x by (simp add: ahead_def)
    qed
    moreover have "r0 \<in> ahead r (mAwakeningTimestamp st) s" using m least that(1) by (auto simp: ahead_def)
    moreover have "r0 \<notin> ahead r (mAwakeningTimestamp st) ?s'"
      using l assms(4) by (fastforce simp: ahead_def)
    ultimately show ?thesis using keep by blast
  qed
  moreover have "mTransactions ?s' = mTransactions s" if "continues (run r0 s)" "mTransactions (snd (run r0 s)) = mTransactions s"
    using launch_map(2) [OF assms(1,2) r0 s1(1) that(1)] that(2) by simp
  ultimately show ?thesis using m least h ret by blast
qed

theorem awakening_progress_witness:
  "\<exists>s'. handleAwakening sampleRun NoError sampleScheduler = (Inr (), s') \<and>
     (handleAwakening sampleRun NoError sampleScheduler =
        bindS (launchTransaction sampleRun 2 (sampleTransaction 12) sampleScheduler)
          (\<lambda>_. adjustAwakeningToNextTransaction) \<or>
      ahead 2 900 s' \<subset> ahead 2 900 sampleScheduler)"
proof -
  have ok: "table_ok sampleScheduler" using sampleScheduler_ok by (simp add: scheduler_ok_def)
  have two: "map_of (mTransactions sampleScheduler) 2 =
      Some (sampleTransaction 12, waitForMessageTypes [213] 1 (- 100))" by simp
  have late: "mAwakeningTimestamp (waitForMessageTypes [213] 1 (- 100)) < clock sampleScheduler" by simp
  have plain: "\<forall>r' tx' st'. map_of (mTransactions sampleScheduler) r' = Some (tx', st') \<longrightarrow>
      txType tx' \<noteq> MaxFlowCalculationStepTwoTransactionType"
    by (auto simp: MaxFlowCalculationStepTwoTransactionType_def split: if_splits)
  obtain r0 tx0 st0 s' where m: "map_of (mTransactions sampleScheduler) r0 = Some (tx0, st0)"
    and eq: "handleAwakening sampleRun NoError sampleScheduler =
      bindS (launchTransaction sampleRun r0 tx0 sampleScheduler) (\<lambda>_. adjustAwakeningToNextTransaction)"
    and ret: "handleAwakening sampleRun NoError sampleScheduler = (Inr (), s')"
    and shrinks: "r0 \<noteq> 2 \<and> moves_on sampleScheduler r0 (sampleRun r0 sampleScheduler) \<longrightarrow>
      map_of (mTransactions s') 2 = Some (sampleTransaction 12, waitForMessageTypes [213] 1 (- 100)) \<and>
      ahead 2 (mAwakeningTimestamp (waitForMessageTypes [213] 1 (- 100))) s' \<subset>
        ahead 2 (mAwakeningTimestamp (waitForMessageTypes [213] 1 (- 100))) sampleScheduler"
    using awakening_progress [OF sampleRun_ok(1) ok two late plain] by blast
  show ?thesis
  proof (cases "r0 = 2")
    case True
    then have "tx0 = sampleTransaction 12" using m two by simp
    then show ?thesis using eq ret True by metis
  next
    case False
    then show ?thesis using shrinks sampleRun_ok(2) ret by auto
  qed
qed

text \<open>What becomes of a message for a transaction in the map.\<close>

definition delivery :: "TransactionMessage \<Rightarrow> Transaction \<Rightarrow> TransactionState \<Rightarrow> unit result" where
  "delivery message tx st =
     (if msgTypeID message \<notin> set (mRequiredMessageTypes st) then Inl NotFoundError
      else if msgTypeID message \<notin> set coordinatorOnlyMessages then Inr ()
      else case senderAddresses message of
        [] \<Rightarrow> Inl StdOutOfRange
      | sender # _ \<Rightarrow> (case txCoordinator tx of
            None \<Rightarrow> Inl UndefinedBehaviour
          | Some coordinator \<Rightarrow> if coordinator = sender then Inr () else Inl NotFoundError))"

lemma find_split: "find P xs = Some x \<Longrightarrow> \<exists>ys zs. xs = ys @ x # zs \<and> P x \<and> (\<forall>y \<in> set ys. \<not> P y)"
proof (induction xs)
  case (Cons a xs)
  show ?case
  proof (cases "P a")
    case True
    then show ?thesis using Cons.prems by fastforce
  next
    case False
    then obtain ys zs where "xs = ys @ x # zs" "P x" "\<forall>y \<in> set ys. \<not> P y" using Cons by auto
    then show ?thesis using False by (intro exI [of _ "a # ys"] exI [of _ zs]) simp
  qed
qed simp

text \<open>C22: a message reaches the transaction it is for and no other. A message that is no transaction message is refused;
  otherwise the first transaction with its identifier, the only one, decides: it must accept the type, and for the three
  messages only a coordinator may send the sender must be its coordinator. Then the message is attached to it, and it is
  launched if it waits to be awakened. In every other case the scheduler is unchanged: \<open>NotFoundError\<close> is thrown,
  \<open>StdOutOfRange\<close> when a message only a coordinator may send has no sender, and a transaction that has no coordinator, or is no
  payment, makes the comparison undefined.\<close>

theorem message_delivery:
  assumes "table_ok s"
  shows "tryAttachMessageToTransaction run message s =
    (if \<not> msgIsTransactionMessage message then throwing ValueError s
     else case find (\<lambda>(r, tx, st). txUUID tx = msgTransactionUUID message) (mTransactions s) of
       None \<Rightarrow> throwing NotFoundError s
     | Some (r, tx, st) \<Rightarrow> (case delivery message tx st of
           Inl e \<Rightarrow> throwing e s
         | Inr _ \<Rightarrow>
             (let s' = s\<lparr>mTransactions := ordUpdate r (tx\<lparr>txContext := txContext tx @ [message]\<rparr>, st) (mTransactions s)\<rparr>
              in if mMustBeAwakenedOnMessage st then launchTransaction run r tx s' else (Inr (), s'))))"
proof -
  have acc: "acceptedBy message tx types = (if msgTypeID message \<notin> set types then Inr False
      else if msgTypeID message \<notin> set coordinatorOnlyMessages then Inr True
      else case senderAddresses message of [] \<Rightarrow> Inl StdOutOfRange
        | sender # _ \<Rightarrow> (case txCoordinator tx of None \<Rightarrow> Inl UndefinedBehaviour | Some c \<Rightarrow> Inr (c = sender)))" for tx types
    by (induction types) (auto split: list.splits option.splits)
  have miss: "attachMessage run message xs s = throwing NotFoundError s"
    if "\<forall>(r', tx', st') \<in> set xs. txUUID tx' \<noteq> msgTransactionUUID message" for xs
    using that by (induction xs) auto
  have skip: "attachMessage run message (xs @ ys) s = attachMessage run message ys s"
    if "\<forall>(r', tx', st') \<in> set xs. txUUID tx' \<noteq> msgTransactionUUID message" for xs ys
    using that by (induction xs) auto
  show ?thesis
  proof (cases "find (\<lambda>(r, tx, st). txUUID tx = msgTransactionUUID message) (mTransactions s)")
    case None
    then have "\<forall>(r', tx', st') \<in> set (mTransactions s). txUUID tx' \<noteq> msgTransactionUUID message"
      by (auto simp: find_None_iff)
    then show ?thesis using None miss by (simp add: tryAttachMessageToTransaction_def)
  next
    case (Some x)
    obtain r tx st where x: "x = (r, tx, st)" by (metis surj_pair)
    obtain xs ys where xy: "mTransactions s = xs @ (r, tx, st) # ys"
      and u: "txUUID tx = msgTransactionUUID message"
      and xs: "\<forall>(r', tx', st') \<in> set xs. txUUID tx' \<noteq> msgTransactionUUID message"
      using find_split [OF Some] unfolding x by force
    have d: "distinct (keys (mTransactions s))" using table_okD(2) [OF assms] .
    have m: "map_of (mTransactions s) r = Some (tx, st)" using xy in_table [OF assms, of r tx st] by simp
    have ys: "\<forall>(r', tx', st') \<in> set ys. txUUID tx' \<noteq> msgTransactionUUID message"
    proof clarify
      fix r' tx' st' assume z: "(r', tx', st') \<in> set ys" and u': "txUUID tx' = msgTransactionUUID message"
      then have "map_of (mTransactions s) r' = Some (tx', st')" using xy in_table [OF assms, of r' tx' st'] by simp
      then have "r' = r" using table_okD(3) [OF assms _ m] u u' by metis
      then show False using z d xy by force
    qed
    have "attachMessage run message (mTransactions s) s = attachMessage run message ((r, tx, st) # ys) s"
      using skip [OF xs] xy by simp
    then show ?thesis
      using Some m u miss [OF ys] unfolding x
      by (auto simp: tryAttachMessageToTransaction_def acc delivery_def pushContext_def Let_def split: list.split option.split bool.split)
  qed
qed

theorem message_delivery_witness:
  "tryAttachMessageToTransaction sampleRun
     \<lparr>msgTypeID = 213, msgIsTransactionMessage = True, msgTransactionUUID = 12, senderAddresses = [''other'']\<rparr>
     sampleScheduler = (Inl NotFoundError, sampleScheduler)"
  using message_delivery [of sampleScheduler sampleRun
      "\<lparr>msgTypeID = 213, msgIsTransactionMessage = True, msgTransactionUUID = 12, senderAddresses = [''other'']\<rparr>"] sampleScheduler_ok
  by (simp add: scheduler_ok_def coordinatorOnlyMessages_def sampleTransaction_def delivery_def)

text \<open>A failing transaction harms only itself. If running it throws any exception, launching it
  returns normally, the transaction is no longer in the map, and every other entry is as the run left it.\<close>

theorem failing_transaction_dropped:
  assumes "run r s = (Inl e, s1)" and "e \<noteq> UndefinedBehaviour"
  shows "\<exists>s'. launchTransaction run r tx s = (Inr (), s') \<and>
    map_of (mTransactions s') = (map_of (mTransactions s1))(r := None) \<and>
    mProcessingTimer s' = mProcessingTimer s1 \<and>
    (txType tx = Payments_CycleCloserInitiatorTransaction \<longrightarrow>
       CycleCloserTransactionWasFinished (txEquivalent tx) \<in> set (signals s'))"
proof -
  have "launchTransaction run r tx s = (Inr (), forgetTransaction r tx s1)"
    using assms by (cases e) (simp_all add: launchTransaction_def)
  then show ?thesis by (simp add: forgetTransaction_def Let_def)
qed

theorem failing_transaction_dropped_witness:
  "\<exists>s'. launchTransaction (\<lambda>r s. (Inl IOError, s)) 1 (sampleTransaction 11) sampleScheduler = (Inr (), s') \<and>
     map_of (mTransactions s') 1 = None"
  using failing_transaction_dropped [of "\<lambda>r s. (Inl IOError, s)" 1 sampleScheduler IOError sampleScheduler
      "sampleTransaction 11"] by auto

text \<open>C28: delays are exact up to 4294967 milliseconds (71 minutes) and only then: the product with
  1000 is computed in 32 bits.\<close>

theorem delay_exact_iff:
  "mAwakeningTimestamp (awakeAfterMilliseconds milliseconds now) = now + 1000 * uint milliseconds \<longleftrightarrow>
     uint milliseconds \<le> 4294967"
proof -
  have u: "uint (milliseconds * 1000) = (uint milliseconds * 1000) mod 4294967296"
    by (simp add: uint_word_ariths)
  have "(uint milliseconds * 1000) mod 4294967296 = 1000 * uint milliseconds \<longleftrightarrow> uint milliseconds \<le> 4294967"
  proof (cases "uint milliseconds \<le> 4294967")
    case True
    then have "(uint milliseconds * 1000) mod 4294967296 = uint milliseconds * 1000"
      by (intro mod_pos_pos_trivial) simp_all
    then show ?thesis using True by simp
  next
    case False
    have "(uint milliseconds * 1000) mod 4294967296 < 4294967296" by simp
    then show ?thesis using False by linarith
  qed
  then show ?thesis by (simp add: delayMicroseconds_def u)
qed

end
