(* ===== verification/Amounts.thy ===== *)
theory Amounts
  imports GeoPrelude
begin

text \<open>
  The integer types of the ledger and their byte format:
  \<^verbatim>\<open>src/src/core/common/Types.h\<close> and
  \<^verbatim>\<open>src/src/core/common/multiprecision/MultiprecisionUtils.h\<close>.

  \<open>TrustLineAmount\<close> is an unsigned 256-bit integer whose operations throw when the exact result
  does not fit; \<open>TrustLineBalance\<close> is a sign-and-magnitude integer with a 256-bit magnitude whose
  operations drop the bits above the magnitude (\<open>wrap256\<close>). Amounts are modelled as \<open>nat\<close> and
  balances as \<open>int\<close>, with the width written out in every operation.
\<close>

type_synonym TrustLineAmount = nat
type_synonym TrustLineBalance = int
type_synonym byte = "8 word"

definition kMaxAmount :: TrustLineAmount where
  "kMaxAmount = 2 ^ 256 - 1"

definition kMaxBalance :: TrustLineBalance where
  "kMaxBalance = 2 ^ 256 - 1"

abbreviation amount_ok :: "TrustLineAmount \<Rightarrow> bool" where
  "amount_ok a \<equiv> a < 2 ^ 256"

abbreviation balance_ok :: "TrustLineBalance \<Rightarrow> bool" where
  "balance_ok b \<equiv> \<bar>b\<bar> < 2 ^ 256"

text \<open>The operations of the two integer types.\<close>

definition checked_add :: "TrustLineAmount \<Rightarrow> TrustLineAmount \<Rightarrow> TrustLineAmount result" where
  "checked_add a b = (if a + b < 2 ^ 256 then Inr (a + b) else Inl StdOverflowError)"

definition checked_sub :: "TrustLineAmount \<Rightarrow> TrustLineAmount \<Rightarrow> TrustLineAmount result" where
  "checked_sub a b = (if b \<le> a then Inr (a - b) else Inl StdRangeError)"

definition to_amount :: "TrustLineBalance \<Rightarrow> TrustLineAmount result" where
  "to_amount x = (if 0 \<le> x \<and> x < 2 ^ 256 then Inr (nat x) else Inl StdRangeError)"

definition wrap256 :: "int \<Rightarrow> TrustLineBalance" where
  "wrap256 x = sgn x * (\<bar>x\<bar> mod 2 ^ 256)"

lemma wrap256_id [amount_simps]: "balance_ok x \<Longrightarrow> wrap256 x = x"
  by (simp add: wrap256_def sgn_mult_abs mult.commute [of "sgn x"] abs_mult_sgn)

lemma wrap256_ok [simp]: "balance_ok (wrap256 x)"
proof -
  have "\<bar>wrap256 x\<bar> = \<bar>sgn x\<bar> * (\<bar>x\<bar> mod 2 ^ 256)"
    by (simp add: wrap256_def abs_mult)
  also have "\<dots> < 2 ^ 256"
    by (cases "x = 0") (simp_all add: abs_sgn_eq)
  finally show ?thesis .
qed

lemma wrap256_minus: "wrap256 (- x) = - wrap256 x"
  by (simp add: wrap256_def)

lemma to_amount_Inr [amount_simps]: "0 \<le> x \<Longrightarrow> x < 2 ^ 256 \<Longrightarrow> to_amount x = Inr (nat x)"
  by (simp add: to_amount_def)

section \<open>Absolute value of a balance\<close>

definition absoluteBalanceAmount :: "TrustLineBalance \<Rightarrow> TrustLineAmount result" where
  "absoluteBalanceAmount balance =
     (if balance > 0 then to_amount balance else to_amount (wrap256 (-1 * balance)))"

lemma absoluteBalanceAmount_ok [amount_simps]:
  "balance_ok b \<Longrightarrow> absoluteBalanceAmount b = Inr (nat \<bar>b\<bar>)"
  by (auto simp: absoluteBalanceAmount_def amount_simps)

section \<open>Byte format\<close>

text \<open>
  \<open>export_bits\<close> and \<open>import_bits\<close> belong to the multiprecision library, so they are arguments of
  the definitions. \<open>boost_bits\<close> is what its documentation promises and the code relies on:
  big-endian bytes, most significant first, without more bytes than the value needs.
\<close>

definition kTrustLineAmountBytesCount :: nat where
  "kTrustLineAmountBytesCount = 32"

definition be_value :: "byte list \<Rightarrow> nat" where
  "be_value bs = foldl (\<lambda>v b. 256 * v + unat b) 0 bs"

definition boost_bits :: "(nat \<Rightarrow> byte list) \<Rightarrow> (byte list \<Rightarrow> nat) \<Rightarrow> bool" where
  "boost_bits export_bits import_bits \<longleftrightarrow>
     (\<forall>bs. import_bits bs = be_value bs) \<and>
     (\<forall>n. be_value (export_bits n) = n) \<and>
     (\<forall>n. n < 2 ^ 256 \<longrightarrow> length (export_bits n) \<le> kTrustLineAmountBytesCount)"

definition trustLineAmountToBytes :: "(nat \<Rightarrow> byte list) \<Rightarrow> TrustLineAmount \<Rightarrow> byte list" where
  "trustLineAmountToBytes export_bits amount =
     (let rawExportedBytesBuffer = export_bits amount;
          unusedBytesCount = kTrustLineAmountBytesCount - length rawExportedBytesBuffer
      in replicate unusedBytesCount 0 @ rawExportedBytesBuffer)"

definition trustLineBalanceToBytes :: "(nat \<Rightarrow> byte list) \<Rightarrow> TrustLineBalance \<Rightarrow> byte list" where
  "trustLineBalanceToBytes export_bits balance =
     (let rawExportedBytesBuffer = export_bits (nat \<bar>balance\<bar>);
          unusedBytesCount = kTrustLineAmountBytesCount - length rawExportedBytesBuffer;
          resultBytesBuffer = replicate unusedBytesCount 0 @ rawExportedBytesBuffer
      in (if balance < 0 then 1 else 0) # resultBytesBuffer)"

definition bytesToTrustLineAmount ::
  "(byte list \<Rightarrow> nat) \<Rightarrow> byte list \<Rightarrow> TrustLineAmount result" where
  "bytesToTrustLineAmount import_bits amountBytes =
     (if length amountBytes < kTrustLineAmountBytesCount then Inl UndefinedBehaviour
      else Inr (import_bits (take kTrustLineAmountBytesCount amountBytes)))"

definition bytesToTrustLineBalance ::
  "(byte list \<Rightarrow> nat) \<Rightarrow> byte list \<Rightarrow> TrustLineBalance result" where
  "bytesToTrustLineBalance import_bits balanceBytes =
     (if length balanceBytes < kTrustLineAmountBytesCount + 1 then Inl UndefinedBehaviour
      else
        (let balance = int (import_bits (take kTrustLineAmountBytesCount (drop 1 balanceBytes)))
         in if balance > 0
            then (if balanceBytes ! 0 \<noteq> 0 then Inr (wrap256 (balance * -1)) else Inr balance)
            else Inr balance))"

lemma be_value_Nil [simp]: "be_value [] = 0"
  by (simp add: be_value_def)

lemma be_value_snoc [simp]: "be_value (bs @ [b]) = 256 * be_value bs + unat b"
  by (simp add: be_value_def)

lemma be_value_zeros: "be_value (replicate k 0 @ bs) = be_value bs"
proof (induction bs rule: rev_induct)
  case Nil
  have "be_value (replicate k 0) = 0"
    by (induction k) (simp_all flip: replicate_append_same)
  then show ?case by simp
next
  case (snoc b bs)
  have "be_value (replicate k 0 @ bs @ [b]) = 256 * be_value (replicate k 0 @ bs) + unat b"
    by (simp flip: append_assoc)
  with snoc show ?case by simp
qed

lemma be_value_bound: "be_value bs < 256 ^ length bs"
proof (induction bs rule: rev_induct)
  case (snoc b bs)
  have "unat b < 256" by (rule order_less_le_trans [OF unsigned_less]) simp
  with snoc show ?case by simp
qed simp

text \<open>
  The contract of a fixed-width field of a serialized record, and what its users (the message and
  transaction serializers that concatenate such fields) get from it.
\<close>

locale fixed_codec =
  fixes enc :: "'a \<Rightarrow> byte list"
    and dec :: "byte list \<Rightarrow> 'a result"
    and valid :: "'a \<Rightarrow> bool"
    and width :: nat
  assumes enc_width: "valid x \<Longrightarrow> length (enc x) = width"
    and dec_enc: "valid x \<Longrightarrow> dec (enc x @ rest) = Inr x"
begin

lemma roundtrip: "valid x \<Longrightarrow> dec (enc x) = Inr x"
  using dec_enc [of x "[]"] by simp

lemma enc_inj: "valid x \<Longrightarrow> valid y \<Longrightarrow> enc x = enc y \<Longrightarrow> x = y"
  by (metis roundtrip sum.inject(2))

lemma dec_at_offset: "valid x \<Longrightarrow> dec (drop (length pre) (pre @ enc x @ rest)) = Inr x"
  by (simp add: dec_enc)

lemma next_field: "valid x \<Longrightarrow> drop width (enc x @ rest) = rest"
  by (simp add: enc_width)

end

locale boost_codec =
  fixes export_bits :: "nat \<Rightarrow> byte list"
    and import_bits :: "byte list \<Rightarrow> nat"
  assumes bits: "boost_bits export_bits import_bits"
begin

lemma import_be: "import_bits bs = be_value bs"
  using bits by (simp add: boost_bits_def)

lemma export_be: "be_value (export_bits n) = n"
  using bits by (simp add: boost_bits_def)

lemma export_length: "amount_ok n \<Longrightarrow> length (export_bits n) \<le> 32"
  using bits by (simp add: boost_bits_def kTrustLineAmountBytesCount_def)

lemma amount_width: "amount_ok a \<Longrightarrow> length (trustLineAmountToBytes export_bits a) = 32"
  using export_length [of a]
  by (simp add: trustLineAmountToBytes_def Let_def kTrustLineAmountBytesCount_def)

lemma amount_value: "be_value (trustLineAmountToBytes export_bits a) = a"
  by (simp add: trustLineAmountToBytes_def Let_def be_value_zeros export_be)

lemma balance_bytes:
  "trustLineBalanceToBytes export_bits b =
     (if b < 0 then 1 else 0) # trustLineAmountToBytes export_bits (nat \<bar>b\<bar>)"
  by (simp add: trustLineBalanceToBytes_def trustLineAmountToBytes_def Let_def)

end

sublocale boost_codec \<subseteq> amount: fixed_codec
  "trustLineAmountToBytes export_bits" "bytesToTrustLineAmount import_bits"
  "\<lambda>a. a < 2 ^ 256" 32
proof
  show "length (trustLineAmountToBytes export_bits a) = 32" if "a < 2 ^ 256" for a
    using that by (rule amount_width)
  show "bytesToTrustLineAmount import_bits (trustLineAmountToBytes export_bits a @ rest) = Inr a"
    if "a < 2 ^ 256" for a rest
    using that
    by (simp add: bytesToTrustLineAmount_def amount_width import_be amount_value
        kTrustLineAmountBytesCount_def)
qed

sublocale boost_codec \<subseteq> balance: fixed_codec
  "trustLineBalanceToBytes export_bits" "bytesToTrustLineBalance import_bits"
  "\<lambda>b. \<bar>b\<bar> < 2 ^ 256" 33
proof
  fix b :: TrustLineBalance and rest
  assume b: "\<bar>b\<bar> < 2 ^ 256"
  then have n: "nat \<bar>b\<bar> < 2 ^ 256" by simp
  show "length (trustLineBalanceToBytes export_bits b) = 33"
    by (simp add: balance_bytes amount_width [OF n])
  show "bytesToTrustLineBalance import_bits (trustLineBalanceToBytes export_bits b @ rest) = Inr b"
    using b
    by (simp add: bytesToTrustLineBalance_def balance_bytes amount_width [OF n] import_be
        amount_value kTrustLineAmountBytesCount_def Let_def wrap256_id)
qed

text \<open>A concrete library: the documented behaviour, computed. It instantiates the parameters.\<close>

fun be_export :: "nat \<Rightarrow> byte list" where
  "be_export n =
     (if n < 256 then [word_of_nat n] else be_export (n div 256) @ [word_of_nat (n mod 256)])"

declare be_export.simps [simp del]

lemma be_value_be_export: "be_value (be_export n) = n"
proof (induction n rule: be_export.induct)
  case (1 n)
  have small: "unat (word_of_nat m :: byte) = m" if "m < 256" for m
    using that by (simp add: unat_of_nat)
  show ?case
  proof (cases "n < 256")
    case True
    then show ?thesis
      using small [OF True] by (simp add: be_export.simps [of n] be_value_def)
  next
    case False
    then show ?thesis
      using 1 small [of "n mod 256"] by (simp add: be_export.simps [of n])
  qed
qed

lemma length_be_export: "n < 256 ^ k \<Longrightarrow> 0 < k \<Longrightarrow> length (be_export n) \<le> k"
proof (induction n arbitrary: k rule: be_export.induct)
  case (1 n)
  show ?case
  proof (cases "n < 256")
    case True
    then show ?thesis using "1.prems" by (simp add: be_export.simps [of n])
  next
    case False
    with "1.prems" obtain j where k: "k = Suc j" and j: "0 < j"
      by (cases k; cases "k - 1") auto
    have "n div 256 < 256 ^ j"
      using "1.prems" k by (simp add: less_mult_imp_div_less mult.commute)
    with 1 False j k show ?thesis by (simp add: be_export.simps [of n])
  qed
qed

interpretation big_endian: boost_codec be_export be_value
proof
  have "length (be_export n) \<le> 32" if "n < 2 ^ 256" for n
    by (rule length_be_export) (use that in simp_all)
  then show "boost_bits be_export be_value"
    by (simp add: boost_bits_def be_value_be_export kTrustLineAmountBytesCount_def)
qed

text \<open>What the serializers use, over any big number library that keeps its documentation.\<close>

context boost_codec begin

lemma amount_field:
  "amount_ok a \<Longrightarrow>
     length (trustLineAmountToBytes export_bits a) = 32 \<and>
     bytesToTrustLineAmount import_bits
       (drop (length pre) (pre @ trustLineAmountToBytes export_bits a @ rest)) = Inr a"
  using amount.dec_at_offset [of a pre rest] by (simp add: amount_width)

lemma balance_field:
  "balance_ok b \<Longrightarrow>
     length (trustLineBalanceToBytes export_bits b) = 33 \<and>
     bytesToTrustLineBalance import_bits
       (drop (length pre) (pre @ trustLineBalanceToBytes export_bits b @ rest)) = Inr b"
  using balance.dec_at_offset [of b pre rest] balance.enc_width [of b] by simp

end

section \<open>Properties\<close>

text \<open>An amount written into a record at any offset is 32 bytes long and reads back as
  itself, whatever surrounds it.\<close>

theorem amount_bytes_roundtrip:
  assumes "boost_bits export_bits import_bits" and "amount_ok a"
  shows "length (trustLineAmountToBytes export_bits a) = 32 \<and>
    bytesToTrustLineAmount import_bits
      (drop (length pre) (pre @ trustLineAmountToBytes export_bits a @ rest)) = Inr a"
  using boost_codec.amount_field [OF boost_codec.intro, OF assms] .

theorem amount_bytes_roundtrip_witness:
  "bytesToTrustLineAmount be_value
     (drop (length [7, 9]) ([7, 9] @ trustLineAmountToBytes be_export 70000 @ [1, 2, 3])) = Inr 70000"
  using amount_bytes_roundtrip [OF big_endian.bits, of 70000 "[7, 9]" "[1, 2, 3]"] by simp

text \<open>a signed balance written into a record at any offset is 33 bytes long (a sign byte and
  the magnitude) and reads back as itself; every balance is covered, negative ones included.\<close>

theorem balance_bytes_roundtrip:
  assumes "boost_bits export_bits import_bits" and "balance_ok b"
  shows "length (trustLineBalanceToBytes export_bits b) = 33 \<and>
    bytesToTrustLineBalance import_bits
      (drop (length pre) (pre @ trustLineBalanceToBytes export_bits b @ rest)) = Inr b"
  using boost_codec.balance_field [OF boost_codec.intro, OF assms] .

theorem balance_bytes_roundtrip_witness:
  "bytesToTrustLineBalance be_value
     (drop (length [7]) ([7] @ trustLineBalanceToBytes be_export (- 300) @ [5])) = Inr (- 300)"
  using balance_bytes_roundtrip [OF big_endian.bits, of "- 300" "[7]" "[5]"] by simp

end
