(* ===== verification/Topology.thy ===== *)
theory Topology
  imports Amounts
begin

text \<open>
  What a node knows of the network:
  \<^verbatim>\<open>src/src/core/topology/manager/TopologyTrustLinesManager.cpp\<close> and
  \<^verbatim>\<open>src/src/core/topology/TopologyTrustLine.cpp\<close>.

  Nodes of the topology are numbered in the order their addresses are met; 0 is the node itself. The
  manager keeps, per source node, the set of lines that leave it (a hash set of pointers, here a list
  in any order) and the times they were learned. The manager alone makes the line objects, at most one
  for a pair of nodes, so a pair of nodes stands for the pointer. Times are microseconds; an operation
  reads one time, its argument \<open>now\<close>.
\<close>

type_synonym DateTime = int

record TopologyTrustLine =
  ttSourceID :: ContractorID
  ttTargetID :: ContractorID
  ttAmount :: TrustLineAmount
  ttUsedAmount :: TrustLineAmount

definition newTopologyTrustLine :: "ContractorID \<Rightarrow> ContractorID \<Rightarrow> TrustLineAmount \<Rightarrow> TopologyTrustLine" where
  "newTopologyTrustLine sourceID targetID amount =
     \<lparr>ttSourceID = sourceID, ttTargetID = targetID, ttAmount = amount, ttUsedAmount = 0\<rparr>"

definition freeAmount :: "TopologyTrustLine \<Rightarrow> TrustLineAmount result" where
  "freeAmount line = checked_sub (ttAmount line) (ttUsedAmount line)"

definition addUsed :: "TrustLineAmount \<Rightarrow> TopologyTrustLine \<Rightarrow> TopologyTrustLine result" where
  "addUsed amount line =
     bindR (checked_add (ttUsedAmount line) amount) (\<lambda>used. Inr (line\<lparr>ttUsedAmount := used\<rparr>))"

definition setUsedAmount :: "TrustLineAmount \<Rightarrow> TopologyTrustLine \<Rightarrow> TopologyTrustLine" where
  "setUsedAmount amount line = line\<lparr>ttUsedAmount := amount\<rparr>"

definition setAmount :: "TrustLineAmount \<Rightarrow> TopologyTrustLine \<Rightarrow> TopologyTrustLine" where
  "setAmount amount line = line\<lparr>ttAmount := amount\<rparr>"

record Topology =
  msTrustLines :: "(ContractorID \<times> TopologyTrustLine list) list"
  mtTrustLines :: "(DateTime \<times> ContractorID \<times> ContractorID) list"
  mParticipantsAddresses :: "(string \<times> ContractorID) list"
  mHigherFreeID :: ContractorID
  mPreventDeleting :: bool
  mTopologyGateways :: "ContractorID list"
  mLastTrustLineTimeAdding :: DateTime

definition kCurrentNodeID :: ContractorID where
  "kCurrentNodeID = 0"

definition kResetTrustLinesDuration :: int where
  "kResetTrustLinesDuration = 12 * 60 * 1000000"

definition kClearTrustLinesDuration :: int where
  "kClearTrustLinesDuration = 30 * 60 * 1000000"

definition newTopology :: "bool \<Rightarrow> DateTime \<Rightarrow> Topology" where
  "newTopology iAmGateway unset =
     \<lparr>msTrustLines = [], mtTrustLines = [], mParticipantsAddresses = [], mHigherFreeID = 1,
      mPreventDeleting = False, mTopologyGateways = (if iAmGateway then [0] else []),
      mLastTrustLineTimeAdding = unset\<rparr>"

section \<open>Lines\<close>

definition trustLinePtrsSet :: "ContractorID \<Rightarrow> Topology \<Rightarrow> TopologyTrustLine list" where
  "trustLinePtrsSet nodeID t = (case map_of (msTrustLines t) nodeID of None \<Rightarrow> [] | Some ls \<Rightarrow> ls)"

text \<open>The object of a pair of nodes, and a write to it.\<close>

definition lineBetween :: "ContractorID \<Rightarrow> ContractorID \<Rightarrow> Topology \<Rightarrow> TopologyTrustLine option" where
  "lineBetween sourceID targetID t = find (\<lambda>line. ttTargetID line = targetID) (trustLinePtrsSet sourceID t)"

definition writeLine ::
  "ContractorID \<Rightarrow> ContractorID \<Rightarrow> (TopologyTrustLine \<Rightarrow> TopologyTrustLine) \<Rightarrow> Topology \<Rightarrow> Topology" where
  "writeLine sourceID targetID f t =
     (case map_of (msTrustLines t) sourceID of
        None \<Rightarrow> t
      | Some ls \<Rightarrow>
          t\<lparr>msTrustLines :=
              AList.update sourceID (mapFirst (\<lambda>line. ttTargetID line = targetID) f ls) (msTrustLines t)\<rparr>)"

definition insertTime ::
  "DateTime \<Rightarrow> ContractorID \<times> ContractorID \<Rightarrow> (DateTime \<times> ContractorID \<times> ContractorID) list \<Rightarrow>
   (DateTime \<times> ContractorID \<times> ContractorID) list" where
  "insertTime now line known_times =
     (let now = (if now \<in> set (keys known_times) then now + 5 else now)
      in if now \<in> set (keys known_times) then known_times else ordUpdate now line known_times)"

text \<open>
  Adding a line whose pair is known sets its amount and renews its time; with amount zero it is removed,
  if it has a time. (The code then compares the iterator it has just erased with the end of the set; the
  comparison of an iterator that pointed to an element is taken as false.)
\<close>

definition addTrustLine :: "DateTime \<Rightarrow> TopologyTrustLine \<Rightarrow> Topology \<Rightarrow> Topology" where
  "addTrustLine now trustLine t =
     (let s = ttSourceID trustLine; d = ttTargetID trustLine
      in case map_of (msTrustLines t) s of
        None \<Rightarrow>
          if ttAmount trustLine = 0 then t
          else t\<lparr>msTrustLines := AList.update s [trustLine] (msTrustLines t),
                 mtTrustLines := insertTime now (s, d) (mtTrustLines t),
                 mLastTrustLineTimeAdding := now\<rparr>
      | Some ls \<Rightarrow>
          if \<not> list_ex (\<lambda>line. ttTargetID line = d) ls \<and> ls \<noteq> [] then
            (if ttAmount trustLine = 0 then t
             else t\<lparr>msTrustLines := AList.update s (ls @ [trustLine]) (msTrustLines t),
                    mtTrustLines := insertTime now (s, d) (mtTrustLines t),
                    mLastTrustLineTimeAdding := now\<rparr>)
          else
            (let ls1 = mapFirst (\<lambda>line. ttTargetID line = d) (setAmount (ttAmount trustLine)) ls;
                 known = list_ex (\<lambda>it. snd it = (s, d)) (mtTrustLines t) \<and> ls \<noteq> [];
                 known_times = removeFirst (\<lambda>it. snd it = (s, d)) (mtTrustLines t);
                 ls2 = (if known \<and> ttAmount trustLine = 0
                        then removeFirst (\<lambda>line. ttTargetID line = d) ls1 else ls1)
             in t\<lparr>msTrustLines := (if ls2 = [] then AList.delete s (msTrustLines t)
                                   else AList.update s ls2 (msTrustLines t)),
                  mtTrustLines := (if \<not> known then mtTrustLines t
                                   else if ttAmount trustLine = 0 then known_times
                                   else insertTime now (s, d) known_times),
                  mLastTrustLineTimeAdding := now\<rparr>))"

definition resetAllUsedAmounts :: "Topology \<Rightarrow> Topology" where
  "resetAllUsedAmounts t =
     t\<lparr>msTrustLines := map (\<lambda>(s, ls). (s, map (setUsedAmount 0) ls)) (msTrustLines t)\<rparr>"

definition addUsedAmount ::
  "ContractorID \<Rightarrow> ContractorID \<Rightarrow> TrustLineAmount \<Rightarrow> Topology \<Rightarrow> unit result \<times> Topology" where
  "addUsedAmount sourceID targetID amount t =
     (case lineBetween sourceID targetID t of
        None \<Rightarrow> returning () t
      | Some line \<Rightarrow>
          (case addUsed amount line of
             Inl e \<Rightarrow> throwing e t
           | Inr line' \<Rightarrow> returning () (writeLine sourceID targetID (\<lambda>_. line') t)))"

definition makeFullyUsed :: "ContractorID \<Rightarrow> ContractorID \<Rightarrow> Topology \<Rightarrow> Topology" where
  "makeFullyUsed sourceID targetID t =
     writeLine sourceID targetID (\<lambda>line. setUsedAmount (ttAmount line) line) t"

section \<open>Ageing\<close>

text \<open>
  The loop erases from the map it iterates over with a range \<^verbatim>\<open>for\<close>: after the first erased entry
  the next iteration uses an invalid iterator.
\<close>

definition deleteLegacyTrustLines :: "DateTime \<Rightarrow> Topology \<Rightarrow> bool result \<times> Topology" where
  "deleteLegacyTrustLines now t =
     (case mtTrustLines t of
        [] \<Rightarrow>
          returning False
            (if now - mLastTrustLineTimeAdding t > kClearTrustLinesDuration
             then t\<lparr>msTrustLines := []\<rparr> else t)
      | (time, s, d) # rest \<Rightarrow>
          if now - time > kResetTrustLinesDuration then
            (let ls = removeFirst (\<lambda>line. ttTargetID line = d) (trustLinePtrsSet s t)
             in throwing UndefinedBehaviour
                  (t\<lparr>msTrustLines := (if ls = [] then AList.delete s (msTrustLines t)
                                      else AList.update s ls (msTrustLines t)),
                     mtTrustLines := rest\<rparr>))
          else returning False t)"

definition trustLinesCounts :: "Topology \<Rightarrow> nat" where
  "trustLinesCounts t = sum_list (map (\<lambda>(_, ls). length ls) (msTrustLines t))"

definition closestTimeEvent :: "DateTime \<Rightarrow> Topology \<Rightarrow> DateTime" where
  "closestTimeEvent now t =
     (let res = now + kResetTrustLinesDuration
      in case mtTrustLines t of
           [] \<Rightarrow> res
         | (time, _) # _ \<Rightarrow>
             if time + kResetTrustLinesDuration < res then time + kResetTrustLinesDuration else res)"

definition setPreventDeleting :: "bool \<Rightarrow> Topology \<Rightarrow> Topology" where
  "setPreventDeleting preventDeleting t = t\<lparr>mPreventDeleting := preventDeleting\<rparr>"

section \<open>Gateways\<close>

definition addGateway :: "ContractorID \<Rightarrow> Topology \<Rightarrow> Topology" where
  "addGateway gateway t =
     t\<lparr>mTopologyGateways := (if gateway \<in> set (mTopologyGateways t) then mTopologyGateways t
                             else insort gateway (mTopologyGateways t))\<rparr>"

definition makeFullyUsedLinesOf :: "ContractorID \<Rightarrow> ContractorID \<Rightarrow> Topology \<Rightarrow> Topology" where
  "makeFullyUsedLinesOf exceptedNode gateway t =
     (case map_of (msTrustLines t) gateway of
        None \<Rightarrow> t
      | Some ls \<Rightarrow>
          t\<lparr>msTrustLines := AList.update gateway
              (map (\<lambda>line. if ttTargetID line \<in> set (mTopologyGateways t) then line
                           else if ttTargetID line \<noteq> exceptedNode
                           then setUsedAmount (ttAmount line) line else line) ls)
              (msTrustLines t)\<rparr>)"

definition makeFullyUsedTLsFromGatewaysToAllNodesExceptOne :: "ContractorID \<Rightarrow> Topology \<Rightarrow> Topology" where
  "makeFullyUsedTLsFromGatewaysToAllNodesExceptOne exceptedNode t =
     fold (makeFullyUsedLinesOf exceptedNode) (mTopologyGateways t) t"

section \<open>Amounts and participants\<close>

definition flowAmount :: "ContractorID \<Rightarrow> ContractorID \<Rightarrow> Topology \<Rightarrow> TrustLineAmount" where
  "flowAmount source destination t =
     (case lineBetween source destination t of None \<Rightarrow> 0 | Some line \<Rightarrow> ttAmount line)"

definition getID :: "string \<Rightarrow> Topology \<Rightarrow> ContractorID \<times> Topology" where
  "getID address t =
     (case find (\<lambda>it. fst it = address) (mParticipantsAddresses t) of
        Some it \<Rightarrow> (snd it, t)
      | None \<Rightarrow>
          (mHigherFreeID t,
           t\<lparr>mParticipantsAddresses := mParticipantsAddresses t @ [(address, mHigherFreeID t)],
             mHigherFreeID := mHigherFreeID t + 1\<rparr>))"

definition getAddressByID :: "ContractorID \<Rightarrow> Topology \<Rightarrow> string option" where
  "getAddressByID nodeID t = map_option fst (find (\<lambda>it. snd it = nodeID) (mParticipantsAddresses t))"

section \<open>What the manager keeps\<close>

text \<open>
  Every set of lines is non-empty, its lines leave the node it is stored under and have different
  targets; participants are numbered 1, 2, ... in the order of their list, without repetition.
\<close>

definition lines_ok :: "Topology \<Rightarrow> bool" where
  "lines_ok t \<longleftrightarrow> distinct (keys (msTrustLines t)) \<and>
     (\<forall>(s, ls) \<in> set (msTrustLines t). ls \<noteq> [] \<and> distinct (map ttTargetID ls) \<and>
        (\<forall>line \<in> set ls. ttSourceID line = s))"

definition participants_ok :: "Topology \<Rightarrow> bool" where
  "participants_ok t \<longleftrightarrow> distinct (keys (mParticipantsAddresses t)) \<and>
     map snd (mParticipantsAddresses t) = map of_nat [1..<Suc (length (mParticipantsAddresses t))] \<and>
     mHigherFreeID t = of_nat (Suc (length (mParticipantsAddresses t))) \<and>
     Suc (length (mParticipantsAddresses t)) < 2 ^ 32"

lemma lines_okD:
  assumes "lines_ok t" and "map_of (msTrustLines t) s = Some ls"
  shows "ls \<noteq> []" "distinct (map ttTargetID ls)" "\<forall>line \<in> set ls. ttSourceID line = s"
  using assms by (auto simp: lines_ok_def dest!: map_of_SomeD)

lemma find_unique:
  "distinct (map ttTargetID ls) \<Longrightarrow> line \<in> set ls \<Longrightarrow> find (\<lambda>l. ttTargetID l = ttTargetID line) ls = Some line"
  by (induction ls) auto

lemma find_append: "find P (xs @ ys) = (case find P xs of Some x \<Rightarrow> Some x | None \<Rightarrow> find P ys)"
  by (induction xs) auto

lemma find_by_key: "it \<in> set xs \<Longrightarrow> distinct (map g xs) \<Longrightarrow> find (\<lambda>x. g x = g it) xs = Some it"
  by (induction xs) auto

lemma find_target_None: "find (\<lambda>l. ttTargetID l = d) ls = None \<longleftrightarrow> d \<notin> ttTargetID ` set ls"
  by (induction ls) auto

lemma targets_mapFirst [simp]:
  "(\<And>line. ttTargetID (f line) = ttTargetID line) \<Longrightarrow> map ttTargetID (mapFirst q f ls) = map ttTargetID ls"
  by (induction ls) auto

lemma set_mapFirst: "x \<in> set (mapFirst q f xs) \<Longrightarrow> x \<in> set xs \<or> (\<exists>y \<in> set xs. q y \<and> x = f y)"
  by (induction xs) (auto split: if_splits)

lemma set_removeFirst: "set (removeFirst q xs) \<subseteq> set xs"
  by (induction xs) auto

lemma distinct_removeFirst: "distinct (map g xs) \<Longrightarrow> distinct (map g (removeFirst q xs))"
  by (induction xs) (auto dest: subsetD [OF set_removeFirst])

lemma find_removeFirst_unique:
  "distinct (map ttTargetID ls) \<Longrightarrow> find (\<lambda>l. ttTargetID l = d) (removeFirst (\<lambda>l. ttTargetID l = d) ls) = None"
  by (induction ls) (auto simp: find_target_None)

lemma setAmount_fields [simp]:
  "ttTargetID (setAmount a line) = ttTargetID line" "ttSourceID (setAmount a line) = ttSourceID line"
  "ttAmount (setAmount a line) = a" "ttUsedAmount (setAmount a line) = ttUsedAmount line"
  "ttTargetID (setUsedAmount u line) = ttTargetID line" "ttSourceID (setUsedAmount u line) = ttSourceID line"
  "ttAmount (setUsedAmount u line) = ttAmount line" "ttUsedAmount (setUsedAmount u line) = u"
  by (simp_all add: setAmount_def setUsedAmount_def)

lemma lines_ok_times [simp]:
  "lines_ok (t\<lparr>mtTrustLines := mt\<rparr>) = lines_ok t" "lines_ok (t\<lparr>mLastTrustLineTimeAdding := l\<rparr>) = lines_ok t"
  by (simp_all add: lines_ok_def)

lemma lines_ok_update:
  assumes "lines_ok t" and "ls \<noteq> []" and "distinct (map ttTargetID ls)" and "\<forall>line \<in> set ls. ttSourceID line = s"
  shows "lines_ok (t\<lparr>msTrustLines := AList.update s ls (msTrustLines t)\<rparr>)"
  using assms by (fastforce simp: lines_ok_def in_set_update split: if_splits)

lemma lines_ok_delete:
  "lines_ok t \<Longrightarrow> lines_ok (t\<lparr>msTrustLines := AList.delete s (msTrustLines t)\<rparr>)"
  using distinct_keys_delete [of "msTrustLines t" s] by (auto simp: lines_ok_def AList.delete_eq)

lemma lineBetween_map: "lineBetween s d t =
    (case map_of (msTrustLines t) s of None \<Rightarrow> None | Some ls \<Rightarrow> find (\<lambda>line. ttTargetID line = d) ls)"
  by (simp add: lineBetween_def trustLinePtrsSet_def split: option.splits)

section \<open>Properties\<close>

definition sampleTopology :: Topology where
  "sampleTopology =
     \<lparr>msTrustLines = [(0, [newTopologyTrustLine 0 1 100]), (1, [newTopologyTrustLine 1 2 70])],
      mtTrustLines = [(10, 0, 1), (20, 1, 2)], mParticipantsAddresses = [(''a'', 1), (''b'', 2)],
      mHigherFreeID = 3, mPreventDeleting = False, mTopologyGateways = [],
      mLastTrustLineTimeAdding = 20\<rparr>"

lemma sampleTopology_ok: "lines_ok sampleTopology" "participants_ok sampleTopology"
  by (simp_all add: lines_ok_def participants_ok_def sampleTopology_def newTopologyTrustLine_def upt_rec)

text \<open>learning a line. Whatever was known, after \<open>addTrustLine\<close> the flow between the two nodes of
  the line is its amount (zero when the line was taken back), the flow between every other two nodes is
  the same, and the structure stays well formed.\<close>

theorem add_line_exact:
  assumes "lines_ok t"
  shows "flowAmount s d (addTrustLine now trustLine t) =
      (if s = ttSourceID trustLine \<and> d = ttTargetID trustLine then ttAmount trustLine else flowAmount s d t)
    \<and> lines_ok (addTrustLine now trustLine t)"
proof (cases "map_of (msTrustLines t) (ttSourceID trustLine)")
  case None
  then show ?thesis
    using assms lines_ok_update [OF assms, of "[trustLine]" "ttSourceID trustLine"]
    by (auto simp: addTrustLine_def Let_def flowAmount_def lineBetween_map)
next
  case (Some ls)
  let ?s = "ttSourceID trustLine" and ?d = "ttTargetID trustLine"
  note ok = lines_okD [OF assms Some]
  show ?thesis
  proof (cases "?d \<in> ttTargetID ` set ls")
    case False
    then have "\<not> list_ex (\<lambda>line. ttTargetID line = ?d) ls"
      unfolding list_ex_iff by (blast intro: rev_image_eqI dest: sym)
    moreover have "find (\<lambda>line. ttTargetID line = ?d) ls = None" using False by (simp add: find_target_None)
    moreover have "find (\<lambda>line. ttTargetID line = d) (ls @ [trustLine]) =
        (if d = ?d then Some trustLine else find (\<lambda>line. ttTargetID line = d) ls)"
      using False by (induction ls) auto
    moreover have "lines_ok (t\<lparr>msTrustLines := AList.update ?s (ls @ [trustLine]) (msTrustLines t)\<rparr>)"
      using ok False by (intro lines_ok_update [OF assms]) auto
    ultimately show ?thesis
      using Some ok(1) assms by (auto simp: addTrustLine_def Let_def flowAmount_def lineBetween_map)
  next
    case True
    let ?ls1 = "mapFirst (\<lambda>line. ttTargetID line = ?d) (setAmount (ttAmount trustLine)) ls"
    let ?ls2 = "removeFirst (\<lambda>line. ttTargetID line = ?d) ?ls1"
    have ex: "list_ex (\<lambda>line. ttTargetID line = ?d) ls" using True by (auto simp: list_ex_iff)
    have d1: "distinct (map ttTargetID ?ls1)" using ok(2) by simp
    have src1: "\<forall>line \<in> set ?ls1. ttSourceID line = ?s" by (metis ok(3) set_mapFirst setAmount_fields(2))
    have src2: "\<forall>line \<in> set ?ls2. ttSourceID line = ?s"
      by (rule ballI) (rule bspec [OF src1 subsetD [OF set_removeFirst]])
    have same: "\<exists>line. find (\<lambda>l. ttTargetID l = ?d) ?ls1 = Some line \<and> ttAmount line = ttAmount trustLine"
      using True find_target_None [of ?d ls] by (auto simp: find_mapFirst_same)
    have other: "find (\<lambda>l. ttTargetID l = d) ?ls1 = find (\<lambda>l. ttTargetID l = d) ls"
      "find (\<lambda>l. ttTargetID l = d) ?ls2 = find (\<lambda>l. ttTargetID l = d) ?ls1" if "d \<noteq> ?d"
      using that by (auto intro: find_mapFirst_other find_removeFirst_other)
    have gone: "find (\<lambda>l. ttTargetID l = ?d) ?ls2 = None" using d1 by (rule find_removeFirst_unique)
    have ok1: "lines_ok (t\<lparr>msTrustLines := AList.update ?s ?ls1 (msTrustLines t)\<rparr>)"
      using ok(1) d1 src1 by (intro lines_ok_update [OF assms]) simp_all
    have ok2: "lines_ok (t\<lparr>msTrustLines := AList.update ?s ?ls2 (msTrustLines t)\<rparr>)" if "?ls2 \<noteq> []"
      using that distinct_removeFirst [OF d1] src2 by (intro lines_ok_update [OF assms]) simp_all
    have "lines_ok (addTrustLine now trustLine t)"
      using Some ok(1) ex ok1 ok2 lines_ok_delete [OF assms]
      by (cases "ttAmount trustLine = 0") (simp_all add: addTrustLine_def Let_def)
    moreover have "flowAmount s d (addTrustLine now trustLine t) =
        (if s = ?s \<and> d = ?d then ttAmount trustLine else flowAmount s d t)"
    proof (cases "s = ?s")
      case False
      then show ?thesis using Some ok(1) ex by (simp add: addTrustLine_def Let_def flowAmount_def lineBetween_map)
    next
      case True
      show ?thesis
      proof (cases "d = ?d")
        case True
        then show ?thesis using \<open>s = ?s\<close> Some ok(1) ex same gone
          by (force simp: addTrustLine_def Let_def flowAmount_def lineBetween_map)
      next
        case False
        have "find (\<lambda>l. ttTargetID l = d) ls = None" if "?ls2 = []"
          using other [OF False] that by simp
        then show ?thesis using \<open>s = ?s\<close> Some ok(1) ex other [OF False] False
          by (cases "ttAmount trustLine = 0")
            (simp_all add: addTrustLine_def Let_def flowAmount_def lineBetween_map)
      qed
    qed
    ultimately show ?thesis by blast
  qed
qed

theorem add_line_exact_witness:
  "flowAmount 1 2 (addTrustLine 30 (newTopologyTrustLine 1 2 0) sampleTopology) = 0 \<and>
   flowAmount 0 1 (addTrustLine 30 (newTopologyTrustLine 1 2 0) sampleTopology) = 100"
  using add_line_exact [OF sampleTopology_ok(1), of 1 2 30 "newTopologyTrustLine 1 2 0"]
    add_line_exact [OF sampleTopology_ok(1), of 0 1 30 "newTopologyTrustLine 1 2 0"]
  by (simp add: newTopologyTrustLine_def) (simp add: sampleTopology_def flowAmount_def lineBetween_map
      newTopologyTrustLine_def)

text \<open>Numbers of participants. \<open>getID\<close> gives a number whose address is the one asked for; an
  address that was known keeps its number, every other number keeps its address, and different addresses
  never get the same number.\<close>

theorem participant_roundtrip:
  assumes "participants_ok t" and "getID address t = (nodeID, t')"
    and "Suc (Suc (length (mParticipantsAddresses t))) < 2 ^ 32"
  shows "getAddressByID nodeID t' = Some address \<and> nodeID \<noteq> kCurrentNodeID \<and> participants_ok t' \<and>
    (\<forall>i a. getAddressByID i t = Some a \<longrightarrow> getAddressByID i t' = Some a) \<and> getID address t' = (nodeID, t')"
proof -
  let ?ps = "mParticipantsAddresses t" and ?n = "length (mParticipantsAddresses t)"
  have ids: "map snd ?ps = map of_nat [1..<Suc ?n]" and free: "mHigherFreeID t = of_nat (Suc ?n)"
    and small: "Suc ?n < 2 ^ 32"
    using assms(1) by (auto simp: participants_ok_def)
  have val: "unat (of_nat i :: ContractorID) = i" if "i < 2 ^ 32" for i
    using that by (simp add: unat_of_nat)
  have free_new: "\<forall>it \<in> set ?ps. snd it \<noteq> mHigherFreeID t"
  proof (rule ballI, rule notI)
    fix it assume "it \<in> set ?ps" and eq: "snd it = mHigherFreeID t"
    then have "snd it \<in> of_nat ` {1..<Suc ?n}" using arg_cong [OF ids, of set] by (metis image_eqI set_map set_upt)
    then obtain i where i: "i < Suc ?n" "snd it = of_nat i" by auto
    have "i < 2 ^ 32" "Suc ?n < 2 ^ 32" using i(1) small by simp_all
    then have "i = Suc ?n" using i(2) eq free val by metis
    then show False using i(1) by simp
  qed
  have dist: "distinct (map snd ?ps)"
  proof -
    have "inj_on (of_nat :: nat \<Rightarrow> ContractorID) {1..<Suc ?n}"
      using small by (intro inj_on_inverseI [of _ unat]) (simp add: val)
    then show ?thesis unfolding ids distinct_map by (simp del: upt_Suc)
  qed
  have nz: "snd it \<noteq> kCurrentNodeID" if it: "it \<in> set ?ps" for it
  proof
    assume "snd it = kCurrentNodeID"
    moreover have "snd it \<in> of_nat ` {1..<Suc ?n}" using it arg_cong [OF ids, of set] by (metis image_eqI set_map set_upt)
    ultimately obtain i where "1 \<le> i" "i < Suc ?n" "(of_nat i :: ContractorID) = 0"
      by (auto simp: kCurrentNodeID_def)
    then show False using val [of i] small by simp
  qed
  have "mHigherFreeID t \<noteq> kCurrentNodeID"
    using val [of "Suc ?n"] small unfolding free kCurrentNodeID_def by (metis nat.distinct(1) unat_0)
  show ?thesis
  proof (cases "find (\<lambda>it. fst it = address) ?ps")
    case (Some it)
    then have it: "it \<in> set ?ps" "fst it = address" by (auto dest: find_SomeD)
    have r: "nodeID = snd it" "t' = t" using assms(2) Some by (simp_all add: getID_def)
    have "find (\<lambda>x. snd x = snd it) ?ps = Some it" using it(1) dist by (rule find_by_key)
    then show ?thesis using r it nz assms(1) Some by (simp add: getAddressByID_def getID_def)
  next
    case None
    then have new: "address \<notin> set (keys ?ps)" by (auto simp: find_None_iff)
    have r: "nodeID = mHigherFreeID t"
      "t' = t\<lparr>mParticipantsAddresses := ?ps @ [(address, mHigherFreeID t)], mHigherFreeID := mHigherFreeID t + 1\<rparr>"
      using assms(2) None by (auto simp: getID_def)
    have "participants_ok t'"
      using assms(1,3) new by (simp add: participants_ok_def r)
    moreover have "find (\<lambda>it. snd it = mHigherFreeID t) ?ps = None" using free_new by (force simp: find_None_iff)
    ultimately show ?thesis
      using r \<open>mHigherFreeID t \<noteq> kCurrentNodeID\<close> None
      by (auto simp: getAddressByID_def getID_def find_append)
  qed
qed

theorem participant_roundtrip_witness:
  "getID ''c'' sampleTopology = (3, snd (getID ''c'' sampleTopology)) \<and>
   getAddressByID 3 (snd (getID ''c'' sampleTopology)) = Some ''c'' \<and>
   getAddressByID 1 (snd (getID ''c'' sampleTopology)) = Some ''a''"
proof -
  have g: "getID ''c'' sampleTopology = (3, snd (getID ''c'' sampleTopology))"
    by (simp add: getID_def sampleTopology_def)
  have "Suc (Suc (length (mParticipantsAddresses sampleTopology))) < 2 ^ 32" by (simp add: sampleTopology_def)
  from participant_roundtrip [OF sampleTopology_ok(2) g this]
  have "getAddressByID 3 (snd (getID ''c'' sampleTopology)) = Some ''c''"
    "getAddressByID 1 sampleTopology = Some ''a'' \<longrightarrow> getAddressByID 1 (snd (getID ''c'' sampleTopology)) = Some ''a''"
    by blast+
  moreover have "getAddressByID 1 sampleTopology = Some ''a''" by (simp add: getAddressByID_def sampleTopology_def)
  ultimately show ?thesis using g by simp
qed

end
