(* ===== verification/Paths.thy ===== *)
theory Paths
  imports Topology
begin

text \<open>
  Building payment paths and computing max flows over the known topology:
  \<^verbatim>\<open>src/src/core/paths\<close> and the \<^verbatim>\<open>calculate...\<close> functions of
  \<^verbatim>\<open>transactions/max_flow_calculation/InitiateMaxFlowCalculationTransaction.cpp\<close> and
  \<^verbatim>\<open>MaxFlowCalculationFullyTransaction.cpp\<close>.

  The code has four copies of one depth first search (their comments say so). They differ in what
  happens when the search arrives at the contractor (a path is added, or the flow is summed) and in
  whether some nodes are blocked. Here the search is \<open>searchNode\<close> with both as arguments, and each copy
  is an instance of it. The \<^verbatim>\<open>level\<close> of the code counts up to \<^verbatim>\<open>mCurrentPathLength\<close>; the argument of
  the search is what is left, \<^verbatim>\<open>mCurrentPathLength - level\<close>, which makes the recursion structural.
  Loops that end only because the capacities run out are \<open>partial_function (option)\<close>.
\<close>

section \<open>Paths\<close>

type_synonym Path = "string list"

definition positionOfNode :: "string \<Rightarrow> Path \<Rightarrow> int" where
  "positionOfNode nodeAddress nodes =
     (case find (\<lambda>it. fst it = nodeAddress) (zip nodes [0..<length nodes]) of
        Some it \<Rightarrow> int (snd it) | None \<Rightarrow> - 1)"

definition addReceiver :: "string \<Rightarrow> Path \<Rightarrow> Path" where
  "addReceiver receiverAddress nodes = nodes @ [receiverAddress]"

text \<open>\<^verbatim>\<open>nodes.size() - 1\<close> wraps around for an empty path, and \<^verbatim>\<open>at(0)\<close> throws.\<close>

definition containsTrustLine :: "string \<Rightarrow> string \<Rightarrow> Path \<Rightarrow> bool result" where
  "containsTrustLine source destination nodes =
     (if nodes = [] then Inl StdOutOfRange
      else Inr (list_ex (\<lambda>it. it = (source, destination)) (zip nodes (tl nodes))))"

record PathsCollection =
  mDestinationNode :: string
  mPaths :: "Path list"
  mCurrentPath :: nat

definition newPathsCollection :: "string \<Rightarrow> PathsCollection" where
  "newPathsCollection destinationAddress =
     \<lparr>mDestinationNode = destinationAddress, mPaths = [], mCurrentPath = 0\<rparr>"

definition add :: "Path \<Rightarrow> PathsCollection \<Rightarrow> unit result \<times> PathsCollection" where
  "add path c = (if length path > 5 then throwing ValueError c
                 else returning () (c\<lparr>mPaths := mPaths c @ [path]\<rparr>))"

definition resetCurrentPath :: "PathsCollection \<Rightarrow> PathsCollection" where
  "resetCurrentPath c = c\<lparr>mCurrentPath := 0\<rparr>"

definition hasNextPath :: "PathsCollection \<Rightarrow> bool" where
  "hasNextPath c \<longleftrightarrow> mCurrentPath c < length (mPaths c)"

text \<open>The guard lets the position one past the end through; \<^verbatim>\<open>at\<close> then throws, after the increment.\<close>

definition nextPath :: "PathsCollection \<Rightarrow> Path result \<times> PathsCollection" where
  "nextPath c =
     (if mCurrentPath c > length (mPaths c) then throwing IndexError c
      else (let c = c\<lparr>mCurrentPath := mCurrentPath c + 1\<rparr>
            in if mCurrentPath c - 1 < length (mPaths c)
               then returning (mPaths c ! (mCurrentPath c - 1)) c else throwing StdOutOfRange c))"

definition count_paths :: "PathsCollection \<Rightarrow> nat" where
  "count_paths c = length (mPaths c)"

definition kMaxPathLength :: nat where
  "kMaxPathLength = 6"

section \<open>The search\<close>

type_synonym 'a Arrival = "ContractorID list \<Rightarrow> TrustLineAmount \<Rightarrow> 'a \<Rightarrow> unit result \<times> 'a"

text \<open>
  \<open>passed\<close> are the nodes already passed, \<open>remaining\<close> the lines that may still be taken. The lines of a
  node are a copy of the set of pointers made when the node is entered: the targets are fixed there, the
  amounts are read when a line is looked at.
\<close>

fun searchNode ::
  "'a Arrival \<Rightarrow> ContractorID list \<Rightarrow> ContractorID \<Rightarrow> ContractorID \<Rightarrow> TrustLineAmount \<Rightarrow> nat \<Rightarrow>
   ContractorID list \<Rightarrow> Topology \<times> 'a \<Rightarrow> TrustLineAmount result \<times> (Topology \<times> 'a)"
and searchLines ::
  "'a Arrival \<Rightarrow> ContractorID list \<Rightarrow> ContractorID \<Rightarrow> ContractorID \<Rightarrow> ContractorID list \<Rightarrow>
   TrustLineAmount \<Rightarrow> nat \<Rightarrow> ContractorID list \<Rightarrow> Topology \<times> 'a \<Rightarrow>
   TrustLineAmount result \<times> (Topology \<times> 'a)"
where
  "searchNode arrive blocked contractor nodeID currentFlow remaining passed (t, acc) =
     (if nodeID = contractor then
        (if currentFlow > 0
         then (case arrive passed currentFlow acc of
                 (Inl e, acc') \<Rightarrow> throwing e (t, acc')
               | (Inr _, acc') \<Rightarrow> returning currentFlow (t, acc'))
         else returning currentFlow (t, acc))
      else case remaining of
        0 \<Rightarrow> returning 0 (t, acc)
      | Suc r \<Rightarrow> searchLines arrive blocked contractor nodeID
                   (map ttTargetID (trustLinePtrsSet nodeID t)) currentFlow r passed (t, acc))"
| "searchLines arrive blocked contractor nodeID [] currentFlow remaining passed (t, acc) =
     returning 0 (t, acc)"
| "searchLines arrive blocked contractor nodeID (target # rest) currentFlow remaining passed (t, acc) =
     (if target = 0 \<or> target \<in> set blocked \<or> target \<in> set passed
      then searchLines arrive blocked contractor nodeID rest currentFlow remaining passed (t, acc)
      else case lineBetween nodeID target t of
        None \<Rightarrow> throwing UndefinedBehaviour (t, acc)
      | Some line \<Rightarrow>
          (case freeAmount line of
             Inl e \<Rightarrow> throwing e (t, acc)
           | Inr free \<Rightarrow>
               (let nextFlow = (if free < currentFlow then free else currentFlow)
                in if nextFlow = 0
                   then searchLines arrive blocked contractor nodeID rest currentFlow remaining passed (t, acc)
                   else (case searchNode arrive blocked contractor target nextFlow remaining
                                (passed @ [nodeID]) (t, acc) of
                           (Inl e, t', acc') \<Rightarrow> throwing e (t', acc')
                         | (Inr calcFlow, t', acc') \<Rightarrow>
                             if calcFlow > 0
                             then (case addUsedAmount nodeID target calcFlow t' of
                                     (Inl e, t'') \<Rightarrow> throwing e (t'', acc')
                                   | (Inr _, t'') \<Rightarrow> returning calcFlow (t'', acc'))
                             else searchLines arrive blocked contractor nodeID rest currentFlow remaining
                                    passed (t', acc')))))"

text \<open>What \<open>addressesPath\<close> makes of the passed nodes; a node without an address is a null pointer.\<close>

definition addressesPath :: "(ContractorID \<Rightarrow> string option) \<Rightarrow> ContractorID list \<Rightarrow> Path option" where
  "addressesPath address passed =
     (if list_all (\<lambda>nodeID. address nodeID \<noteq> None) passed
      then Some (map (the \<circ> address) passed) else None)"

text \<open>Arriving for a path: the path is added, then printed, which dereferences its addresses.\<close>

definition arrivePath :: "(ContractorID \<Rightarrow> string option) \<Rightarrow> PathsCollection Arrival" where
  "arrivePath address passed currentFlow c =
     (case addressesPath address passed of
        None \<Rightarrow> if length passed > 5 then throwing ValueError c else throwing UndefinedBehaviour c
      | Some path \<Rightarrow> add path c)"

text \<open>Arriving for a max flow.\<close>

definition arriveFlow :: "TrustLineAmount Arrival" where
  "arriveFlow passed currentFlow maxFlow =
     (case checked_add maxFlow currentFlow of
        Inl e \<Rightarrow> throwing e maxFlow | Inr maxFlow' \<Rightarrow> returning () maxFlow')"

definition calculateOneNode ::
  "ContractorID \<Rightarrow> nat \<Rightarrow> ContractorID \<Rightarrow> TrustLineAmount \<Rightarrow> Topology \<times> PathsCollection \<Rightarrow>
   TrustLineAmount result \<times> (Topology \<times> PathsCollection)" where
  "calculateOneNode contractor pathLength nodeID currentFlow s =
     searchNode (arrivePath (\<lambda>i. getAddressByID i (fst s))) [] contractor nodeID currentFlow
       (pathLength - 1) [] s"

definition calculateOneNodeForRebuildingPaths ::
  "ContractorID list \<Rightarrow> ContractorID \<Rightarrow> nat \<Rightarrow> ContractorID \<Rightarrow> TrustLineAmount \<Rightarrow>
   Topology \<times> PathsCollection \<Rightarrow> TrustLineAmount result \<times> (Topology \<times> PathsCollection)" where
  "calculateOneNodeForRebuildingPaths inaccessible contractor pathLength nodeID currentFlow s =
     searchNode (arrivePath (\<lambda>i. getAddressByID i (fst s))) inaccessible contractor nodeID currentFlow
       (pathLength - 1) [] s"

definition calculateOneNode_maxFlow ::
  "ContractorID \<Rightarrow> nat \<Rightarrow> ContractorID \<Rightarrow> TrustLineAmount \<Rightarrow> Topology \<times> TrustLineAmount \<Rightarrow>
   TrustLineAmount result \<times> (Topology \<times> TrustLineAmount)" where
  "calculateOneNode_maxFlow contractor pathLength nodeID currentFlow s =
     searchNode arriveFlow [] contractor nodeID currentFlow (pathLength - 1) [] s"

section \<open>One level\<close>

type_synonym 'a LineSearch =
  "ContractorID \<Rightarrow> TrustLineAmount \<Rightarrow> Topology \<times> 'a \<Rightarrow> TrustLineAmount result \<times> (Topology \<times> 'a)"

text \<open>
  One attempt over the line from the node itself to \<open>target\<close>: search with its free amount, and use the
  flow found on the line.
\<close>

definition tryLine ::
  "'a LineSearch \<Rightarrow> ContractorID \<Rightarrow> Topology \<times> 'a \<Rightarrow> TrustLineAmount result \<times> (Topology \<times> 'a)" where
  "tryLine search target s =
     (case lineBetween kCurrentNodeID target (fst s) of
        None \<Rightarrow> throwing UndefinedBehaviour s
      | Some line \<Rightarrow>
          (case freeAmount line of
             Inl e \<Rightarrow> throwing e s
           | Inr free \<Rightarrow>
               bindS (search target free s) (\<lambda>flow (t, acc).
                 if flow > 0
                 then (case addUsedAmount kCurrentNodeID target flow t of
                         (Inl e, t') \<Rightarrow> throwing e (t', acc)
                       | (Inr _, t') \<Rightarrow> returning flow (t', acc))
                 else returning 0 (t, acc))))"

definition isExhausted :: "ContractorID \<Rightarrow> Topology \<Rightarrow> bool" where
  "isExhausted target t =
     (case lineBetween kCurrentNodeID target t of
        None \<Rightarrow> False | Some line \<Rightarrow> freeAmount line = Inr 0)"

text \<open>
  The loop of \<open>buildPathsOnOneLevel\<close>: a line is tried until it gives no flow; with \<open>skipEmpty\<close> a line
  without free amount is not tried at all. The last loop of the second level is the same without it.
\<close>

partial_function (option) drainLines ::
  "bool \<Rightarrow> 'a LineSearch \<Rightarrow> ContractorID list \<Rightarrow> Topology \<times> 'a \<Rightarrow>
   (unit result \<times> (Topology \<times> 'a)) option" where
  "drainLines skipEmpty search lines s =
     (case lines of
        [] \<Rightarrow> Some (returning () s)
      | target # rest \<Rightarrow>
          if skipEmpty \<and> isExhausted target (fst s) then drainLines skipEmpty search rest s
          else (case tryLine search target s of
                  (Inl e, s') \<Rightarrow> Some (throwing e s')
                | (Inr flow, s') \<Rightarrow>
                    if flow > 0 then drainLines skipEmpty search (target # rest) s'
                    else drainLines skipEmpty search rest s'))"

abbreviation firstLevel :: "Topology \<Rightarrow> ContractorID list" where
  "firstLevel t \<equiv> map ttTargetID (trustLinePtrsSet kCurrentNodeID t)"

definition buildPathsOnOneLevel ::
  "ContractorID \<Rightarrow> nat \<Rightarrow> Topology \<times> PathsCollection \<Rightarrow>
   (unit result \<times> (Topology \<times> PathsCollection)) option" where
  "buildPathsOnOneLevel contractor pathLength s =
     drainLines True (calculateOneNode contractor pathLength) (firstLevel (fst s)) s"

text \<open>Gateways first: their lines are tried once and leave the local set.\<close>

fun gatewaysFirst ::
  "'a LineSearch \<Rightarrow> ContractorID list \<Rightarrow> ContractorID list \<Rightarrow> Topology \<times> 'a \<Rightarrow>
   ContractorID list result \<times> (Topology \<times> 'a)" where
  "gatewaysFirst search [] lines s = returning lines s"
| "gatewaysFirst search (gateway # gateways) lines s =
     (if gateway \<in> set lines
      then bindS (tryLine search gateway s) (\<lambda>_. gatewaysFirst search gateways (remove1 gateway lines))
      else gatewaysFirst search gateways lines s)"

definition buildPathsOnSecondLevel ::
  "ContractorID list \<Rightarrow> ContractorID \<Rightarrow> Topology \<times> PathsCollection \<Rightarrow>
   (unit result \<times> (Topology \<times> PathsCollection)) option" where
  "buildPathsOnSecondLevel gateways contractor s =
     (case gatewaysFirst (calculateOneNode contractor 2) gateways (firstLevel (fst s)) s of
        (Inl e, s') \<Rightarrow> Some (throwing e s')
      | (Inr lines, s') \<Rightarrow> drainLines False (calculateOneNode contractor 2) lines s')"

text \<open>Rebuilding: in every round the first line that gives a flow; blocked nodes are passed over.\<close>

fun firstFlow ::
  "'a LineSearch \<Rightarrow> ContractorID list \<Rightarrow> ContractorID list \<Rightarrow> Topology \<times> 'a \<Rightarrow>
   TrustLineAmount result \<times> (Topology \<times> 'a)" where
  "firstFlow search blocked [] s = returning 0 s"
| "firstFlow search blocked (target # rest) s =
     (case lineBetween kCurrentNodeID target (fst s) of
        None \<Rightarrow> throwing UndefinedBehaviour s
      | Some line \<Rightarrow>
          (case freeAmount line of
             Inl e \<Rightarrow> throwing e s
           | Inr free \<Rightarrow>
               if target \<in> set blocked then firstFlow search blocked rest s
               else bindS (tryLine search target s)
                      (\<lambda>flow s. if flow > 0 then returning flow s else firstFlow search blocked rest s)))"

partial_function (option) rebuildLoop ::
  "'a LineSearch \<Rightarrow> ContractorID list \<Rightarrow> ContractorID list \<Rightarrow> TrustLineAmount \<Rightarrow> Topology \<times> 'a \<Rightarrow>
   (TrustLineAmount result \<times> (Topology \<times> 'a)) option" where
  "rebuildLoop search blocked lines acc s =
     (case firstFlow search blocked lines s of
        (Inl e, s') \<Rightarrow> Some (throwing e s')
      | (Inr currentFlow, s') \<Rightarrow>
          (case checked_add acc currentFlow of
             Inl e \<Rightarrow> Some (throwing e s')
           | Inr acc' \<Rightarrow>
               if currentFlow = 0 then Some (returning acc' s')
               else rebuildLoop search blocked lines acc' s'))"

definition reBuildPathsOnOneLevel ::
  "ContractorID list \<Rightarrow> ContractorID \<Rightarrow> nat \<Rightarrow> Topology \<times> PathsCollection \<Rightarrow>
   (TrustLineAmount result \<times> (Topology \<times> PathsCollection)) option" where
  "reBuildPathsOnOneLevel inaccessible contractor pathLength s =
     rebuildLoop (calculateOneNodeForRebuildingPaths inaccessible contractor pathLength) inaccessible
       (firstLevel (fst s)) 0 s"

text \<open>Max flow: every round tries every line once, until a round gives nothing.\<close>

fun roundOfLines ::
  "'a LineSearch \<Rightarrow> ContractorID list \<Rightarrow> TrustLineAmount \<Rightarrow> Topology \<times> 'a \<Rightarrow>
   TrustLineAmount result \<times> (Topology \<times> 'a)" where
  "roundOfLines search [] currentFlow s = returning currentFlow s"
| "roundOfLines search (target # rest) currentFlow s =
     bindS (tryLine search target s) (\<lambda>flow s.
       if flow > 0
       then (case checked_add currentFlow flow of
               Inl e \<Rightarrow> throwing e s
             | Inr currentFlow' \<Rightarrow> roundOfLines search rest currentFlow' s)
       else roundOfLines search rest currentFlow s)"

partial_function (option) roundsLoop ::
  "'a LineSearch \<Rightarrow> ContractorID list \<Rightarrow> Topology \<times> 'a \<Rightarrow> (unit result \<times> (Topology \<times> 'a)) option" where
  "roundsLoop search lines s =
     (case roundOfLines search lines 0 s of
        (Inl e, s') \<Rightarrow> Some (throwing e s')
      | (Inr currentFlow, s') \<Rightarrow>
          if currentFlow = 0 then Some (returning () s') else roundsLoop search lines s')"

definition calculateMaxFlowOnOneLevel ::
  "ContractorID list \<Rightarrow> ContractorID \<Rightarrow> nat \<Rightarrow> Topology \<times> TrustLineAmount \<Rightarrow>
   (unit result \<times> (Topology \<times> TrustLineAmount)) option" where
  "calculateMaxFlowOnOneLevel firstLevelTopology contractor pathLength s =
     roundsLoop (calculateOneNode_maxFlow contractor pathLength) firstLevelTopology s"

section \<open>All levels\<close>

text \<open>The levels in the order of the list, stopping at an exception.\<close>

fun levels :: "(nat \<Rightarrow> 's \<Rightarrow> ('b result \<times> 's) option) \<Rightarrow> nat list \<Rightarrow> 's \<Rightarrow> (unit result \<times> 's) option" where
  "levels level [] s = Some (returning () s)"
| "levels level (n # ns) s =
     (case level n s of
        None \<Rightarrow> None
      | Some (Inl e, s') \<Rightarrow> Some (throwing e s')
      | Some (Inr _, s') \<Rightarrow> levels level ns s')"

record PathsManager =
  mTopology :: Topology
  mPathCollection :: "PathsCollection option"
  mInaccessibleNodes :: "ContractorID list"

definition clearPathsCollection :: "PathsManager \<Rightarrow> PathsManager" where
  "clearPathsCollection p = p\<lparr>mPathCollection := None\<rparr>"

text \<open>\<open>gateways\<close> is what the trust lines manager answers.\<close>

definition buildPaths ::
  "ContractorID list \<Rightarrow> string \<Rightarrow> ContractorID \<Rightarrow> PathsManager \<Rightarrow> (unit result \<times> PathsManager) option" where
  "buildPaths gateways contractorAddress contractorID p =
     (let t = makeFullyUsedTLsFromGatewaysToAllNodesExceptOne contractorID (mTopology p);
          c = newPathsCollection contractorAddress
      in if trustLinePtrsSet kCurrentNodeID t = []
         then Some (returning () (p\<lparr>mTopology := resetAllUsedAmounts t, mPathCollection := Some c\<rparr>))
         else (case levels (\<lambda>pathLength.
                       if pathLength = 2 then buildPathsOnSecondLevel gateways contractorID
                       else buildPathsOnOneLevel contractorID pathLength)
                     [1..<kMaxPathLength + 1] (t, c) of
                 None \<Rightarrow> None
               | Some (Inl e, t', c') \<Rightarrow>
                   Some (throwing e (p\<lparr>mTopology := t', mPathCollection := Some c'\<rparr>))
               | Some (Inr _, t', c') \<Rightarrow>
                   Some (returning ()
                     (p\<lparr>mTopology := resetAllUsedAmounts t', mPathCollection := Some c'\<rparr>))))"

fun getIDs :: "string list \<Rightarrow> Topology \<Rightarrow> ContractorID list \<times> Topology" where
  "getIDs [] t = ([], t)"
| "getIDs (a # as) t = (case getID a t of (i, t1) \<Rightarrow> (case getIDs as t1 of (is, t2) \<Rightarrow> (i # is, t2)))"

text \<open>The set of inaccessible nodes is never cleared.\<close>

definition reBuildPaths ::
  "string \<Rightarrow> string list \<Rightarrow> PathsManager \<Rightarrow> (unit result \<times> PathsManager) option" where
  "reBuildPaths contractorAddress inaccessibleNodes p =
     (case getID contractorAddress (mTopology p) of (contractorID, t0) \<Rightarrow>
      (case getIDs inaccessibleNodes (makeFullyUsedTLsFromGatewaysToAllNodesExceptOne contractorID t0) of
         (new, t) \<Rightarrow>
           (let c = newPathsCollection contractorAddress;
                p = p\<lparr>mInaccessibleNodes := mInaccessibleNodes p @ new\<rparr>
            in if trustLinePtrsSet kCurrentNodeID t = []
               then Some (returning () (p\<lparr>mTopology := resetAllUsedAmounts t, mPathCollection := Some c\<rparr>))
               else (case levels (reBuildPathsOnOneLevel (mInaccessibleNodes p) contractorID)
                           [2..<kMaxPathLength + 1] (t, c) of
                       None \<Rightarrow> None
                     | Some (Inl e, t', c') \<Rightarrow>
                         Some (throwing e (p\<lparr>mTopology := t', mPathCollection := Some c'\<rparr>))
                     | Some (Inr _, t', c') \<Rightarrow>
                         Some (returning ()
                           (p\<lparr>mTopology := resetAllUsedAmounts t', mPathCollection := Some c'\<rparr>))))))"

text \<open>The result of \<open>calculateMaxFlow\<close> for both transactions; \<open>maxPathLength\<close> is 5 or 6.\<close>

definition calculateMaxFlow ::
  "ContractorID list \<Rightarrow> nat \<Rightarrow> ContractorID \<Rightarrow> Topology \<Rightarrow> (TrustLineAmount result \<times> Topology) option" where
  "calculateMaxFlow firstLevelTopology maxPathLength contractorID t0 =
     (let t = makeFullyUsedTLsFromGatewaysToAllNodesExceptOne contractorID t0
      in if firstLevelTopology = [] then Some (returning 0 (resetAllUsedAmounts t))
         else (case levels (calculateMaxFlowOnOneLevel firstLevelTopology contractorID)
                     [1..<maxPathLength + 1] (t, 0) of
                 None \<Rightarrow> None
               | Some (Inl e, t', _) \<Rightarrow> Some (throwing e t')
               | Some (Inr _, t', maxFlow) \<Rightarrow> Some (returning maxFlow (resetAllUsedAmounts t'))))"

section \<open>Usage by other nodes\<close>

definition addUsedAmount_addresses ::
  "string \<Rightarrow> string \<Rightarrow> TrustLineAmount \<Rightarrow> Topology \<Rightarrow> unit result \<times> Topology" where
  "addUsedAmount_addresses sourceAddress targetAddress amount t =
     (case getID sourceAddress t of (sourceID, t1) \<Rightarrow>
      (case getID targetAddress t1 of (targetID, t2) \<Rightarrow> addUsedAmount sourceID targetID amount t2))"

definition addUsedAmountFromInitiator ::
  "string \<Rightarrow> TrustLineAmount \<Rightarrow> Topology \<Rightarrow> unit result \<times> Topology" where
  "addUsedAmountFromInitiator targetAddress amount t =
     (case getID targetAddress t of (targetID, t1) \<Rightarrow> addUsedAmount kCurrentNodeID targetID amount t1)"

definition makeTrustLineFullyUsed :: "string \<Rightarrow> string \<Rightarrow> Topology \<Rightarrow> Topology" where
  "makeTrustLineFullyUsed sourceAddress targetAddress t =
     (case getID sourceAddress t of (sourceID, t1) \<Rightarrow>
      (case getID targetAddress t1 of (targetID, t2) \<Rightarrow> makeFullyUsed sourceID targetID t2))"

section \<open>Usage and room\<close>

text \<open>
  \<open>used\<close> and \<open>room\<close> of a pair of nodes (zero without a line). \<open>caps_ok\<close>: no line is used beyond its
  amount. \<open>grown t t' g\<close>: \<open>t'\<close> is the same network with \<open>g\<close> more used.
\<close>

definition used :: "Topology \<Rightarrow> ContractorID \<Rightarrow> ContractorID \<Rightarrow> nat" where
  "used t s d = (case lineBetween s d t of None \<Rightarrow> 0 | Some line \<Rightarrow> ttUsedAmount line)"

definition room :: "Topology \<Rightarrow> ContractorID \<Rightarrow> ContractorID \<Rightarrow> nat" where
  "room t s d = flowAmount s d t - used t s d"

definition caps_ok :: "Topology \<Rightarrow> bool" where
  "caps_ok t \<longleftrightarrow> lines_ok t \<and> (\<forall>s d line. lineBetween s d t = Some line \<longrightarrow>
     ttUsedAmount line \<le> ttAmount line \<and> ttAmount line < 2 ^ 256)"

abbreviation outOf :: "Topology \<Rightarrow> ContractorID \<Rightarrow> ContractorID list" where
  "outOf t n \<equiv> map ttTargetID (trustLinePtrsSet n t)"

definition same_net :: "Topology \<Rightarrow> Topology \<Rightarrow> bool" where
  "same_net t t' \<longleftrightarrow> (\<forall>n. outOf t' n = outOf t n) \<and> (\<forall>s d. flowAmount s d t' = flowAmount s d t) \<and>
     mParticipantsAddresses t' = mParticipantsAddresses t"

definition grown :: "Topology \<Rightarrow> Topology \<Rightarrow> (ContractorID \<Rightarrow> ContractorID \<Rightarrow> nat) \<Rightarrow> bool" where
  "grown t t' g \<longleftrightarrow> same_net t t' \<and> caps_ok t' \<and> (\<forall>s d. used t' s d = used t s d + g s d)"

lemma grown_trans: "grown t t1 g \<Longrightarrow> grown t1 t2 h \<Longrightarrow> grown t t2 (\<lambda>s d. g s d + h s d)"
  by (simp add: grown_def same_net_def)

lemma grown_refl: "caps_ok t \<Longrightarrow> grown t t (\<lambda>s d. 0)"
  by (simp add: grown_def same_net_def)

lemma grown_room: "grown t t' g \<Longrightarrow> room t' s d = room t s d - g s d"
  by (simp add: grown_def same_net_def room_def)

lemma lineBetween_iff: "lineBetween s d t = None \<longleftrightarrow> d \<notin> set (outOf t s)"
  by (simp add: lineBetween_def find_target_None)

lemma lineBetween_fields:
  assumes "lines_ok t" and "lineBetween s d t = Some line"
  shows "ttSourceID line = s" "ttTargetID line = d"
  using assms lines_okD(3) [OF assms(1)]
  by (auto simp: lineBetween_map split: option.splits dest: find_SomeD)

lemma line_facts:
  assumes "caps_ok t" and "lineBetween s d t = Some line"
  shows "used t s d = ttUsedAmount line" "flowAmount s d t = ttAmount line"
    "ttUsedAmount line \<le> ttAmount line" "ttAmount line < 2 ^ 256"
    "freeAmount line = Inr (room t s d)"
  using assms by (auto simp: used_def flowAmount_def caps_ok_def freeAmount_def checked_sub_def room_def)

lemma used_le_flow: "caps_ok t \<Longrightarrow> used t s d \<le> flowAmount s d t"
  by (cases "lineBetween s d t") (auto simp: line_facts, simp add: used_def)

text \<open>Writing to one line.\<close>

lemma writeLine_ptrs:
  "trustLinePtrsSet n (writeLine s d f t) =
     (if n = s then mapFirst (\<lambda>line. ttTargetID line = d) f (trustLinePtrsSet n t) else trustLinePtrsSet n t)"
  by (auto simp: writeLine_def trustLinePtrsSet_def split: option.splits)

lemma find_mapFirst_const: "find P ls = Some x \<Longrightarrow> P y \<Longrightarrow> find P (mapFirst P (\<lambda>_. y) ls) = Some y"
  by (induction ls) auto

lemma lineBetween_write:
  assumes "lineBetween s d t = Some line" and "ttTargetID line' = d"
  shows "lineBetween n e (writeLine s d (\<lambda>_. line') t) = (if n = s \<and> e = d then Some line' else lineBetween n e t)"
proof (cases "n = s")
  case True
  show ?thesis
  proof (cases "e = d")
    case True
    then show ?thesis
      using \<open>n = s\<close> assms find_mapFirst_const [of "\<lambda>l. ttTargetID l = d" "trustLinePtrsSet s t" line line']
      by (simp add: lineBetween_def writeLine_ptrs)
  next
    case False
    then show ?thesis
      using \<open>n = s\<close> assms(2) by (simp add: lineBetween_def writeLine_ptrs) (rule find_mapFirst_other, auto)
  qed
qed (simp add: lineBetween_def writeLine_ptrs)

lemma lines_ok_write:
  assumes "lines_ok t" and "lineBetween s d t = Some line" and "ttTargetID line' = d" and "ttSourceID line' = s"
  shows "lines_ok (writeLine s d (\<lambda>_. line') t)"
proof -
  obtain ls where ls: "map_of (msTrustLines t) s = Some ls" using assms(2) by (auto simp: lineBetween_map split: option.splits)
  note ok = lines_okD [OF assms(1) ls]
  have targets: "map ttTargetID (mapFirst (\<lambda>line. ttTargetID line = d) (\<lambda>_. line') ls) = map ttTargetID ls"
    using assms(3) by (induction ls) auto
  have src: "\<forall>l \<in> set (mapFirst (\<lambda>line. ttTargetID line = d) (\<lambda>_. line') ls). ttSourceID l = s"
    using ok(3) assms(4) by (metis set_mapFirst)
  show ?thesis
    using lines_ok_update [OF assms(1) _ _ src] ok targets ls by (simp add: writeLine_def)
qed

lemma outOf_write: "ttTargetID line' = d \<Longrightarrow> outOf (writeLine s d (\<lambda>_. line') t) n = outOf t n"
proof -
  have "map ttTargetID (mapFirst (\<lambda>line. ttTargetID line = d) (\<lambda>_. line') ls) = map ttTargetID ls"
    if "ttTargetID line' = d" for ls
    using that by (induction ls) auto
  then show "ttTargetID line' = d \<Longrightarrow> outOf (writeLine s d (\<lambda>_. line') t) n = outOf t n"
    by (simp add: writeLine_ptrs)
qed

lemma addUsedAmount_ok:
  assumes "caps_ok t" and "d \<in> set (outOf t s)" and "a \<le> room t s d"
  shows "\<exists>t'. addUsedAmount s d a t = (Inr (), t') \<and>
    grown t t' (\<lambda>s' d'. if s' = s \<and> d' = d then a else 0)"
proof -
  obtain line where line: "lineBetween s d t = Some line" using assms(2) lineBetween_iff by blast
  note l = line_facts [OF assms(1) line]
  have ok: "lines_ok t" using assms(1) by (simp add: caps_ok_def)
  note f = lineBetween_fields [OF ok line]
  let ?line' = "line\<lparr>ttUsedAmount := ttUsedAmount line + a\<rparr>"
  let ?t' = "writeLine s d (\<lambda>_. ?line') t"
  have fit: "ttUsedAmount line + a \<le> ttAmount line" using assms(3) l by (simp add: room_def)
  then have "addUsedAmount s d a t = (Inr (), ?t')"
    using line l(4) by (simp add: addUsedAmount_def addUsed_def checked_add_def)
  moreover have lb: "lineBetween n e ?t' = (if n = s \<and> e = d then Some ?line' else lineBetween n e t)" for n e
    using lineBetween_write [OF line, of ?line'] f by simp
  moreover have "caps_ok ?t'"
    using assms(1) fit l(4) lines_ok_write [OF ok line, of ?line'] f lb
    by (auto simp: caps_ok_def split: if_splits)
  moreover have "mParticipantsAddresses ?t' = mParticipantsAddresses t"
    by (simp add: writeLine_def split: option.splits)
  ultimately show ?thesis
    using outOf_write [of ?line' d] f line
    by (auto simp: grown_def same_net_def flowAmount_def used_def)
qed

section \<open>What a search does\<close>

text \<open>
  The lines a walk takes, its narrowest line, and the walks that are open: without repetition, avoiding
  some nodes, with room on every line.
\<close>

definition hops :: "ContractorID \<Rightarrow> ContractorID list \<Rightarrow> (ContractorID \<times> ContractorID) list" where
  "hops n xs = zip (n # xs) xs"

definition narrowest :: "Topology \<Rightarrow> nat \<Rightarrow> (ContractorID \<times> ContractorID) list \<Rightarrow> nat" where
  "narrowest t flow hs = foldr (\<lambda>(s, d). min (room t s d)) hs flow"

definition along :: "(ContractorID \<times> ContractorID) list \<Rightarrow> nat \<Rightarrow> ContractorID \<Rightarrow> ContractorID \<Rightarrow> nat" where
  "along hs f s d = (if (s, d) \<in> set hs then f else 0)"

definition open_walk ::
  "Topology \<Rightarrow> ContractorID \<Rightarrow> nat \<Rightarrow> ContractorID \<Rightarrow> ContractorID set \<Rightarrow> ContractorID list \<Rightarrow> bool" where
  "open_walk t n k contractor avoid xs \<longleftrightarrow> last (n # xs) = contractor \<and> length xs \<le> k \<and> distinct (n # xs) \<and>
     set xs \<inter> avoid = {} \<and> (\<forall>(s, d) \<in> set (hops n xs). 0 < room t s d)"

lemma along_Nil [simp]: "along [] f = (\<lambda>s d. 0)"
  by (simp add: along_def fun_eq_iff)

lemma hops_simps [simp]: "hops n [] = []" "hops n (m # xs) = (n, m) # hops m xs"
  by (simp_all add: hops_def)

lemma narrowest_simps [simp]:
  "narrowest t flow [] = flow" "narrowest t flow ((s, d) # hs) = min (room t s d) (narrowest t flow hs)"
  by (simp_all add: narrowest_def)

lemma narrowest_min: "narrowest t (min a flow) hs = min a (narrowest t flow hs)"
  by (induction hs) (auto simp: min.left_commute)

lemma narrowest_le: "narrowest t flow hs \<le> flow" "(s, d) \<in> set hs \<Longrightarrow> narrowest t flow hs \<le> room t s d"
  by (induction hs) auto

lemma hops_nodes: "(s, d) \<in> set (hops n xs) \<Longrightarrow> s \<in> insert n (set (butlast xs)) \<and> d \<in> set xs"
  by (induction xs arbitrary: n) (auto split: if_splits)

lemma hop_once: "n \<notin> set xs \<Longrightarrow> (n, m) \<notin> set (hops m xs)"
  by (auto dest: hops_nodes in_set_butlastD)

lemma room_pos_line: "0 < room t s d \<Longrightarrow> d \<in> set (outOf t s)"
  using lineBetween_iff [of s d t] by (auto simp: room_def flowAmount_def split: option.splits)

text \<open>
  The contract of a search from \<open>n\<close> with at most \<open>k\<close> lines: either it gives nothing, changes nothing and
  no walk is open, or it gives the narrowest of a walk to the contractor, uses it on the whole walk, and
  arrives with the nodes passed.
\<close>

definition searched ::
  "(ContractorID list \<Rightarrow> nat \<Rightarrow> 'a \<Rightarrow> 'a) \<Rightarrow> ContractorID list \<Rightarrow> ContractorID \<Rightarrow> Topology \<Rightarrow> ContractorID \<Rightarrow> nat \<Rightarrow>
   nat \<Rightarrow> ContractorID list \<Rightarrow> 'a \<Rightarrow> nat result \<times> (Topology \<times> 'a) \<Rightarrow> bool" where
  "searched after blocked contractor t n k flow passed acc r \<longleftrightarrow>
     (r = (Inr 0, t, acc) \<and>
        (0 < flow \<longrightarrow> (\<nexists>xs. open_walk t n k contractor (insert 0 (set blocked \<union> set passed)) xs))) \<or>
     (\<exists>f t' xs. r = (Inr f, t', after (passed @ butlast (n # xs)) f acc) \<and> 0 < f \<and>
        f = narrowest t flow (hops n xs) \<and> last (n # xs) = contractor \<and> length xs \<le> k \<and>
        set xs \<inter> insert 0 (set blocked \<union> set passed) = {} \<and> grown t t' (along (hops n xs) f))"

locale arrival =
  fixes arrive :: "'a Arrival"
    and after :: "ContractorID list \<Rightarrow> nat \<Rightarrow> 'a \<Rightarrow> 'a"
    and known :: "ContractorID \<Rightarrow> bool"
    and maxlen :: nat
    and fits :: "nat \<Rightarrow> 'a \<Rightarrow> bool"
  assumes arrive_ok: "list_all known passed \<Longrightarrow> length passed \<le> maxlen \<Longrightarrow> fits f acc \<Longrightarrow>
      arrive passed f acc = (Inr (), after passed f acc)"
    and fits_le: "fits f acc \<Longrightarrow> f' \<le> f \<Longrightarrow> fits f' acc"
begin

lemma searchLines_ok:
  assumes node: "\<forall>m f. known m \<longrightarrow> fits f acc \<longrightarrow>
      searched after blocked contractor t m k f (passed @ [n]) acc
        (searchNode arrive blocked contractor m f k (passed @ [n]) (t, acc))"
    and caps: "caps_ok t" and fit: "fits flow acc"
    and targets: "set ts \<subseteq> set (outOf t n)" and kn: "\<forall>m \<in> set (outOf t n). m \<noteq> 0 \<longrightarrow> known m"
  shows "(searchLines arrive blocked contractor n ts flow k passed (t, acc) = (Inr 0, t, acc) \<and>
       (\<forall>m \<in> set ts. 0 < flow \<longrightarrow> 0 < room t n m \<longrightarrow> m \<notin> insert 0 (set blocked \<union> set passed) \<longrightarrow>
          (\<nexists>xs. open_walk t m k contractor (insert 0 (set blocked \<union> set (passed @ [n]))) xs))) \<or>
     (\<exists>f t' m xs. searchLines arrive blocked contractor n ts flow k passed (t, acc) =
           (Inr f, t', after (passed @ butlast (n # m # xs)) f acc) \<and> 0 < f \<and>
        f = narrowest t flow (hops n (m # xs)) \<and> last (m # xs) = contractor \<and> length xs \<le> k \<and>
        set (m # xs) \<inter> insert 0 (set blocked \<union> set passed) = {} \<and>
        grown t t' (along (hops n (m # xs)) f))"
  using targets
proof (induction ts)
  case Nil
  then show ?case by simp
next
  case (Cons m ts)
  note IH = Cons.IH [OF subset_trans [OF set_subset_Cons Cons.prems]]
  let ?avoid = "insert 0 (set blocked \<union> set passed)"
  obtain line where line: "lineBetween n m t = Some line"
    using Cons.prems lineBetween_iff [of n m t] by fastforce
  note lf = line_facts(5) [OF caps line]
  let ?next = "if room t n m < flow then room t n m else flow"
  have next_min: "?next = min (room t n m) flow" by simp
  show ?case
  proof (cases "m \<in> ?avoid \<or> ?next = 0")
    case True
    then have "searchLines arrive blocked contractor n (m # ts) flow k passed (t, acc) =
        searchLines arrive blocked contractor n ts flow k passed (t, acc)"
      using line lf by (auto simp: Let_def)
    moreover have "0 < flow \<longrightarrow> 0 < room t n m \<longrightarrow> m \<notin> ?avoid \<longrightarrow> P" for P
      using True by (auto split: if_splits)
    ultimately show ?thesis using IH by (simp only: list.set ball_simps) blast
  next
    case False
    have "m \<in> set (outOf t n)" using Cons.prems by simp
    then have "known m" using kn False by blast
    moreover have "fits ?next acc" using fit by (rule fits_le) simp
    ultimately have s: "searched after blocked contractor t m k ?next (passed @ [n]) acc
        (searchNode arrive blocked contractor m ?next k (passed @ [n]) (t, acc))"
      using node by blast
    have step: "searchLines arrive blocked contractor n (m # ts) flow k passed (t, acc) =
        (case searchNode arrive blocked contractor m ?next k (passed @ [n]) (t, acc) of
           (Inl e, t', acc') \<Rightarrow> throwing e (t', acc')
         | (Inr calcFlow, t', acc') \<Rightarrow>
             if calcFlow > 0
             then (case addUsedAmount n m calcFlow t' of
                     (Inl e, t'') \<Rightarrow> throwing e (t'', acc')
                   | (Inr _, t'') \<Rightarrow> returning calcFlow (t'', acc'))
             else searchLines arrive blocked contractor n ts flow k passed (t', acc'))"
      using False line lf by (simp add: Let_def split del: if_split)
    show ?thesis
      using s unfolding searched_def
    proof (elim disjE exE conjE)
      assume z: "searchNode arrive blocked contractor m ?next k (passed @ [n]) (t, acc) = (Inr 0, t, acc)"
        and none: "0 < ?next \<longrightarrow> (\<nexists>xs. open_walk t m k contractor (insert 0 (set blocked \<union> set (passed @ [n]))) xs)"
      have "searchLines arrive blocked contractor n (m # ts) flow k passed (t, acc) =
          searchLines arrive blocked contractor n ts flow k passed (t, acc)"
        unfolding step z by simp
      moreover have "\<nexists>xs. open_walk t m k contractor (insert 0 (set blocked \<union> set (passed @ [n]))) xs"
        using none False by blast
      ultimately show ?thesis using IH by (simp only: list.set ball_simps) blast
    next
      fix f t' xs
      assume r: "searchNode arrive blocked contractor m ?next k (passed @ [n]) (t, acc) =
          (Inr f, t', after ((passed @ [n]) @ butlast (m # xs)) f acc)"
        and f: "0 < f" "f = narrowest t ?next (hops m xs)"
        and w: "last (m # xs) = contractor" "length xs \<le> k"
          "set xs \<inter> insert 0 (set blocked \<union> set (passed @ [n])) = {}"
        and g: "grown t t' (along (hops m xs) f)"
      have once: "(n, m) \<notin> set (hops m xs)" using w(3) by (intro hop_once) auto
      have fm: "f = narrowest t flow (hops n (m # xs))"
        using f(2) unfolding next_min narrowest_min by simp
      then have "f \<le> room t n m" by simp
      moreover have "room t' n m = room t n m" using grown_room [OF g, of n m] once by (simp add: along_def)
      moreover have "caps_ok t'" "m \<in> set (outOf t' n)"
        using g Cons.prems by (auto simp: grown_def same_net_def)
      ultimately obtain t'' where t'': "addUsedAmount n m f t' = (Inr (), t'')"
        "grown t' t'' (\<lambda>s' d'. if s' = n \<and> d' = m then f else 0)"
        using addUsedAmount_ok [of t' m n f] by auto
      have "(\<lambda>s d. along (hops m xs) f s d + (if s = n \<and> d = m then f else 0)) = along (hops n (m # xs)) f"
        using once by (intro ext) (auto simp: along_def)
      then have gg: "grown t t'' (along (hops n (m # xs)) f)" using grown_trans [OF g t''(2)] by simp
      have "searchLines arrive blocked contractor n (m # ts) flow k passed (t, acc) =
          (Inr f, t'', after (passed @ butlast (n # m # xs)) f acc)"
        unfolding step r using f(1) t''(1) by simp
      moreover have "set (m # xs) \<inter> ?avoid = {}" using w(3) False by auto
      ultimately show ?thesis using f(1) fm w gg by blast
    qed
  qed
qed

lemma searchNode_ok:
  assumes "caps_ok t" and "\<forall>n. \<forall>m \<in> set (outOf t n). m \<noteq> 0 \<longrightarrow> known m"
    and "known n" and "list_all known passed" and "length passed + k \<le> maxlen" and "fits flow acc"
  shows "searched after blocked contractor t n k flow passed acc
    (searchNode arrive blocked contractor n flow k passed (t, acc))"
  using assms(3-6)
proof (induction k arbitrary: n passed flow)
  case 0
  show ?case
  proof (cases "n = contractor")
    case True
    then show ?thesis
      using 0 arrive_ok [of passed flow acc] grown_refl [OF assms(1)]
      by (auto simp: searched_def open_walk_def intro: exI [of _ "[]"])
  next
    case False
    then show ?thesis by (simp add: searched_def open_walk_def)
  qed
next
  case (Suc k)
  show ?case
  proof (cases "n = contractor")
    case True
    then show ?thesis
      using Suc.prems arrive_ok [of passed flow acc] grown_refl [OF assms(1)]
      by (auto simp: searched_def open_walk_def intro: exI [of _ "[]"])
  next
    case False
    have node: "\<forall>m f. known m \<longrightarrow> fits f acc \<longrightarrow> searched after blocked contractor t m k f (passed @ [n]) acc
        (searchNode arrive blocked contractor m f k (passed @ [n]) (t, acc))"
      using Suc.prems by (intro allI impI Suc.IH) auto
    have eq: "searchNode arrive blocked contractor n flow (Suc k) passed (t, acc) =
        searchLines arrive blocked contractor n (outOf t n) flow k passed (t, acc)"
      using False by simp
    have kn: "\<forall>m \<in> set (outOf t n). m \<noteq> 0 \<longrightarrow> known m" using assms(2) by blast
    note lines = searchLines_ok [OF node assms(1) Suc.prems(4) subset_refl kn]
    have via: "\<exists>m ys. xs = m # ys \<and> m \<in> set (outOf t n) \<and> 0 < room t n m \<and>
        m \<notin> insert 0 (set blocked \<union> set passed) \<and>
        open_walk t m k contractor (insert 0 (set blocked \<union> set (passed @ [n]))) ys"
      if "open_walk t n (Suc k) contractor (insert 0 (set blocked \<union> set passed)) xs" for xs
      using that False room_pos_line by (cases xs) (auto simp: open_walk_def)
    from lines show ?thesis
    proof (elim disjE exE conjE)
      assume "searchLines arrive blocked contractor n (outOf t n) flow k passed (t, acc) = (Inr 0, t, acc)"
        and none: "\<forall>m \<in> set (outOf t n). 0 < flow \<longrightarrow> 0 < room t n m \<longrightarrow> m \<notin> insert 0 (set blocked \<union> set passed) \<longrightarrow>
          (\<nexists>xs. open_walk t m k contractor (insert 0 (set blocked \<union> set (passed @ [n]))) xs)"
      moreover have "\<nexists>xs. open_walk t n (Suc k) contractor (insert 0 (set blocked \<union> set passed)) xs" if "0 < flow"
        using via none that by blast
      ultimately show ?thesis unfolding eq searched_def by blast
    next
      fix f t' m xs
      assume r: "searchLines arrive blocked contractor n (outOf t n) flow k passed (t, acc) =
          (Inr f, t', after (passed @ butlast (n # m # xs)) f acc)"
        and "0 < f" "f = narrowest t flow (hops n (m # xs))" "last (m # xs) = contractor" "length xs \<le> k"
        "set (m # xs) \<inter> insert 0 (set blocked \<union> set passed) = {}" "grown t t' (along (hops n (m # xs)) f)"
      then show ?thesis unfolding eq searched_def r
        by (intro disjI2 exI [of _ f] exI [of _ t'] exI [of _ "m # xs"]) simp
    qed
  qed
qed

end

section \<open>What a level does\<close>

text \<open>
  The abstract algorithm: a step pushes a positive flow, the narrowest of a walk of at most \<open>k\<close> lines from
  the node itself to the contractor, and records the walk.
\<close>

inductive route ::
  "(ContractorID list \<Rightarrow> nat \<Rightarrow> 'a \<Rightarrow> 'a) \<Rightarrow> ContractorID list \<Rightarrow> ContractorID \<Rightarrow> nat \<Rightarrow>
   Topology \<times> 'a \<Rightarrow> Topology \<times> 'a \<Rightarrow> bool"
  for after blocked contractor k where
  route: "last (m # xs) = contractor \<Longrightarrow> length xs < k \<Longrightarrow> set (m # xs) \<inter> insert 0 (set blocked) = {} \<Longrightarrow>
    0 < f \<Longrightarrow> f = narrowest t (room t 0 m) (hops 0 (m # xs)) \<Longrightarrow> grown t t' (along (hops 0 (m # xs)) f) \<Longrightarrow>
    route after blocked contractor k (t, acc) (t', after (butlast (m # xs)) f acc)"

lemma routeE:
  assumes "route after blocked contractor k (t, acc) (t', acc')"
  obtains m xs f where "last (m # xs) = contractor" "length xs < k" "set (m # xs) \<inter> insert 0 (set blocked) = {}"
    "0 < f" "f = narrowest t (room t 0 m) (hops 0 (m # xs))" "grown t t' (along (hops 0 (m # xs)) f)"
    "acc' = after (butlast (m # xs)) f acc"
  using assms
proof cases
  case (route m xs f)
  show ?thesis by (rule that [OF route(2-7) route(1)])
qed

abbreviation routes ::
  "(ContractorID list \<Rightarrow> nat \<Rightarrow> 'a \<Rightarrow> 'a) \<Rightarrow> ContractorID list \<Rightarrow> ContractorID \<Rightarrow> nat \<Rightarrow>
   Topology \<times> 'a \<Rightarrow> Topology \<times> 'a \<Rightarrow> bool" where
  "routes after blocked contractor k \<equiv> (route after blocked contractor k)\<^sup>*\<^sup>*"

text \<open>What the node itself can still send.\<close>

definition outroom :: "Topology \<Rightarrow> nat" where
  "outroom t = (\<Sum>d \<in> set (outOf t 0). room t 0 d)"

lemma route_mono: "route after blocked contractor k s s' \<Longrightarrow> k \<le> k' \<Longrightarrow> route after blocked contractor k' s s'"
proof (induction rule: route.induct)
  case (route m xs f t t' acc)
  show ?case using route(1) less_le_trans [OF route(2,7)] route(3-6) by (rule route.intros)
qed

lemma routes_mono: "routes after blocked contractor k s s' \<Longrightarrow> k \<le> k' \<Longrightarrow> routes after blocked contractor k' s s'"
  by (induction rule: rtranclp_induct) (auto intro: rtranclp.rtrancl_into_rtrancl route_mono)

lemma grown_along_room:
  assumes "grown t t' (along (hops 0 (m # xs)) f)" and "0 \<notin> set (m # xs)" and "f \<le> room t 0 m"
    and "m \<in> set (outOf t 0)"
  shows "outroom t' + f = outroom t"
proof -
  have r: "room t' 0 d = room t 0 d - (if d = m then f else 0)" for d
    using grown_room [OF assms(1), of 0 d] assms(2) hops_nodes [of 0 d m xs]
    by (auto simp: along_def dest: in_set_butlastD)
  have "outroom t' = room t' 0 m + (\<Sum>d \<in> set (outOf t 0) - {m}. room t' 0 d)"
    using assms(1,4) by (simp add: outroom_def grown_def same_net_def sum.remove)
  also have "\<dots> = room t 0 m - f + (\<Sum>d \<in> set (outOf t 0) - {m}. room t 0 d)"
    by (simp add: r)
  finally show ?thesis
    using assms(3,4) by (simp add: outroom_def sum.remove)
qed

lemma route_facts:
  assumes "route after blocked contractor k (t, acc) (t', acc')"
  shows "same_net t t'" "caps_ok t'" "room t' s d \<le> room t s d" "outroom t' < outroom t"
    "\<exists>f ps. acc' = after ps f acc \<and> length ps < k \<and> outroom t' + f = outroom t"
proof -
  obtain m xs f where w: "last (m # xs) = contractor" "length xs < k" "set (m # xs) \<inter> insert 0 (set blocked) = {}"
    and f: "0 < f" "f = narrowest t (room t 0 m) (hops 0 (m # xs))" and g: "grown t t' (along (hops 0 (m # xs)) f)"
    and acc': "acc' = after (butlast (m # xs)) f acc"
    by (rule routeE [OF assms]) (rule that)
  have le: "f \<le> room t 0 m" using f(2) by simp
  then have "m \<in> set (outOf t 0)" using f(1) by (intro room_pos_line) simp
  then have o: "outroom t' + f = outroom t" using grown_along_room [OF g _ le] w(3) by simp
  show "same_net t t'" "caps_ok t'" using g by (simp_all add: grown_def)
  show "room t' s d \<le> room t s d" using grown_room [OF g, of s d] by simp
  show "outroom t' < outroom t" using o f(1) by simp
  show "\<exists>f ps. acc' = after ps f acc \<and> length ps < k \<and> outroom t' + f = outroom t"
    using acc' o w(2) by (intro exI [of _ f] exI [of _ "butlast (m # xs)"]) (auto simp: less_Suc_eq_le)
qed

lemma routes_facts:
  assumes "routes after blocked contractor k (t, acc) (t', acc')"
  shows "same_net t t' \<and> (\<forall>s d. room t' s d \<le> room t s d) \<and> outroom t' \<le> outroom t"
  using assms
proof (induction rule: rtranclp_induct2)
  case refl
  then show ?case by (simp add: same_net_def)
next
  case (step t1 a1 t2 a2)
  note f = route_facts [OF step.hyps(2)]
  show ?case using step.IH f(1,4) le_trans [OF f(3)] by (simp add: same_net_def)
qed

lemma open_walk_antimono:
  "\<forall>s d. room t' s d \<le> room t s d \<Longrightarrow> open_walk t' n k contractor avoid xs \<Longrightarrow> open_walk t n k contractor avoid xs"
  unfolding open_walk_def by (auto intro: less_le_trans)

locale level_search =
  fixes search :: "nat \<Rightarrow> 'a LineSearch"
    and after :: "ContractorID list \<Rightarrow> nat \<Rightarrow> 'a \<Rightarrow> 'a"
    and blocked :: "ContractorID list"
    and contractor :: ContractorID
    and maxk :: nat
    and good :: "Topology \<Rightarrow> 'a \<Rightarrow> bool"
  assumes good_caps: "good t acc \<Longrightarrow> caps_ok t \<and> 0 \<notin> set (outOf t 0)"
    and search_ok: "good t acc \<Longrightarrow> 0 < k \<Longrightarrow> k \<le> maxk \<Longrightarrow> m \<in> set (outOf t 0) \<Longrightarrow> m \<notin> set blocked \<Longrightarrow>
      searched after blocked contractor t m (k - 1) (room t 0 m) [] acc (search k m (room t 0 m) (t, acc))"
    and good_route: "good t acc \<Longrightarrow> route after blocked contractor maxk (t, acc) (t', acc') \<Longrightarrow> good t' acc'"
begin

lemma good_routes:
  assumes "routes after blocked contractor maxk (t, acc) (t', acc')" and "good t acc"
  shows "good t' acc'"
  using assms by (induction rule: rtranclp_induct2) (auto intro: good_route)

definition dry :: "nat \<Rightarrow> Topology \<Rightarrow> ContractorID \<Rightarrow> bool" where
  "dry k t m \<longleftrightarrow> (\<nexists>xs. open_walk t 0 k contractor (insert 0 (set blocked)) (m # xs))"

lemma dry_antimono: "dry k t m \<Longrightarrow> \<forall>s d. room t' s d \<le> room t s d \<Longrightarrow> dry k t' m"
  unfolding dry_def using open_walk_antimono by metis

lemma dry_routes: "dry k t m \<Longrightarrow> routes after blocked contractor k' (t, acc) (t', acc') \<Longrightarrow> dry k t' m"
  using dry_antimono routes_facts by metis

lemma tryLine_ok:
  assumes "good t acc" and "0 < k" and "k \<le> maxk" and "m \<in> set (outOf t 0)" and "m \<notin> set blocked"
  shows "(tryLine (search k) m (t, acc) = (Inr 0, t, acc) \<and> dry k t m) \<or>
    (\<exists>f t' acc'. tryLine (search k) m (t, acc) = (Inr f, t', acc') \<and> 0 < f \<and>
       route after blocked contractor k (t, acc) (t', acc') \<and> good t' acc' \<and>
       outroom t' + f = outroom t \<and> outOf t' 0 = outOf t 0)"
proof -
  have caps: "caps_ok t" and m0: "m \<noteq> 0" using good_caps [OF assms(1)] assms(4) by auto
  obtain line where line: "lineBetween 0 m t = Some line" using assms(4) lineBetween_iff [of 0 m t] by fastforce
  have s: "searched after blocked contractor t m (k - 1) (room t 0 m) [] acc (search k m (room t 0 m) (t, acc))"
    using assms by (rule search_ok)
  have via: "open_walk t m (k - 1) contractor (insert 0 (set blocked \<union> set [])) xs \<and> 0 < room t 0 m"
    if "open_walk t 0 k contractor (insert 0 (set blocked)) (m # xs)" for xs
    using that by (auto simp: open_walk_def)
  have eq: "tryLine (search k) m (t, acc) =
      bindS (search k m (room t 0 m) (t, acc)) (\<lambda>flow (t, acc).
        if flow > 0
        then (case addUsedAmount kCurrentNodeID m flow t of
                (Inl e, t') \<Rightarrow> throwing e (t', acc) | (Inr _, t') \<Rightarrow> returning flow (t', acc))
        else returning 0 (t, acc))"
    using line line_facts(5) [OF caps line] by (simp add: tryLine_def kCurrentNodeID_def)
  from s show ?thesis
    unfolding searched_def
  proof (elim disjE exE conjE)
    assume "search k m (room t 0 m) (t, acc) = (Inr 0, t, acc)"
      and none: "0 < room t 0 m \<longrightarrow> (\<nexists>xs. open_walk t m (k - 1) contractor (insert 0 (set blocked \<union> set [])) xs)"
    then have "tryLine (search k) m (t, acc) = (Inr 0, t, acc)" unfolding eq by simp
    moreover have "dry k t m" unfolding dry_def using via none by metis
    ultimately show ?thesis by blast
  next
    fix f t1 xs
    assume r: "search k m (room t 0 m) (t, acc) = (Inr f, t1, after ([] @ butlast (m # xs)) f acc)"
      and f: "0 < f" "f = narrowest t (room t 0 m) (hops m xs)"
      and w: "last (m # xs) = contractor" "length xs \<le> k - 1" "set xs \<inter> insert 0 (set blocked \<union> set []) = {}"
      and g: "grown t t1 (along (hops m xs) f)"
    have once: "(0, m) \<notin> set (hops m xs)" using w(3) by (intro hop_once) auto
    have le: "f \<le> room t 0 m" using narrowest_le(1) f(2) by simp
    moreover have "room t1 0 m = room t 0 m" using grown_room [OF g, of 0 m] once by (simp add: along_def)
    moreover have "caps_ok t1" "m \<in> set (outOf t1 0)" using g assms(4) by (auto simp: grown_def same_net_def)
    ultimately obtain t' where t': "addUsedAmount 0 m f t1 = (Inr (), t')"
      "grown t1 t' (\<lambda>s' d'. if s' = 0 \<and> d' = m then f else 0)"
      using addUsedAmount_ok [of t1 m 0 f] by auto
    have "(\<lambda>s d. along (hops m xs) f s d + (if s = 0 \<and> d = m then f else 0)) = along (hops 0 (m # xs)) f"
      using once by (intro ext) (auto simp: along_def)
    then have gg: "grown t t' (along (hops 0 (m # xs)) f)" using grown_trans [OF g t'(2)] by simp
    have fm: "f = narrowest t (room t 0 m) (hops 0 (m # xs))" using f(2) le by simp
    have avoid: "set (m # xs) \<inter> insert 0 (set blocked) = {}" using w(3) m0 assms(5) by auto
    have rt: "route after blocked contractor k (t, acc) (t', after (butlast (m # xs)) f acc)"
      using w(1,2) assms(2) avoid f(1) fm gg by (intro route.intros) auto
    have "tryLine (search k) m (t, acc) = (Inr f, t', after (butlast (m # xs)) f acc)"
      unfolding eq r using f(1) t'(1) by (simp add: kCurrentNodeID_def)
    moreover have "good t' (after (butlast (m # xs)) f acc)"
      using good_route [OF assms(1) route_mono [OF rt assms(3)]] .
    moreover have "outroom t' + f = outroom t" using grown_along_room [OF gg _ le assms(4)] avoid by auto
    moreover have "outOf t' 0 = outOf t 0" using gg by (simp add: grown_def same_net_def)
    ultimately show ?thesis using f(1) rt by blast
  qed
qed

end

context level_search
begin

text \<open>Where a loop of a level ends: only routes were taken, and what was drained stays dry.\<close>

definition reached :: "nat \<Rightarrow> Topology \<times> 'a \<Rightarrow> Topology \<times> 'a \<Rightarrow> bool" where
  "reached k s s' \<longleftrightarrow> routes after blocked contractor k s s' \<and> good (fst s') (snd s') \<and>
     outOf (fst s') 0 = outOf (fst s) 0 \<and> outroom (fst s') \<le> outroom (fst s)"

lemma reached_refl: "good t acc \<Longrightarrow> reached k (t, acc) (t, acc)"
  by (simp add: reached_def)

lemma reached_step:
  assumes "route after blocked contractor k (t, acc) (t1, acc1)" and "reached k (t1, acc1) s'"
  shows "reached k (t, acc) s'"
  using assms route_facts(1,4) [OF assms(1)]
  by (auto simp: reached_def same_net_def intro: converse_rtranclp_into_rtranclp)

lemma reached_trans: "reached k s s1 \<Longrightarrow> reached k s1 s2 \<Longrightarrow> reached k s s2"
  by (auto simp: reached_def)

lemma dry_exhausted: "isExhausted m t \<Longrightarrow> caps_ok t \<Longrightarrow> dry k t m"
  by (auto simp: isExhausted_def dry_def open_walk_def kCurrentNodeID_def line_facts split: option.splits)

lemma drainLines_ok:
  assumes "good t acc" and "0 < k" and "k \<le> maxk" and "set ms \<subseteq> set (outOf t 0)" and "set ms \<inter> set blocked = {}"
  shows "\<exists>s'. drainLines skipEmpty (search k) ms (t, acc) = Some (Inr (), s') \<and> reached k (t, acc) s' \<and>
    (\<forall>m \<in> set ms. dry k (fst s') m)"
  using assms
proof (induction "length ms + outroom t" arbitrary: ms t acc rule: less_induct)
  case less
  show ?case
  proof (cases ms)
    case Nil
    then show ?thesis using less.prems(1) by (auto simp: drainLines.simps reached_refl)
  next
    case (Cons m ms')
    have m: "m \<in> set (outOf t 0)" "m \<notin> set blocked" and ms': "set ms' \<subseteq> set (outOf t 0)" "set ms' \<inter> set blocked = {}"
      using less.prems(4,5) Cons by auto
    obtain sr where sr: "drainLines skipEmpty (search k) ms' (t, acc) = Some (Inr (), sr)" "reached k (t, acc) sr"
      "\<forall>m \<in> set ms'. dry k (fst sr) m"
      using less.hyps [OF _ less.prems(1-3) ms'] Cons by auto
    have keep: "dry k t m \<Longrightarrow> dry k (fst sr) m"
      using sr(2) dry_routes [of k t m k acc "fst sr" "snd sr"] by (simp add: reached_def)
    show ?thesis
    proof (cases "skipEmpty \<and> isExhausted m t")
      case True
      then have "drainLines skipEmpty (search k) ms (t, acc) = drainLines skipEmpty (search k) ms' (t, acc)"
        unfolding Cons by (subst drainLines.simps) simp
      then show ?thesis
        using sr keep dry_exhausted True good_caps [OF less.prems(1)] Cons by auto
    next
      case False
      have step: "drainLines skipEmpty (search k) ms (t, acc) =
          (case tryLine (search k) m (t, acc) of
             (Inl e, s') \<Rightarrow> Some (throwing e s')
           | (Inr flow, s') \<Rightarrow> if flow > 0 then drainLines skipEmpty (search k) (m # ms') s'
                              else drainLines skipEmpty (search k) ms' s')"
        unfolding Cons using False by (subst drainLines.simps) auto
      show ?thesis
        using tryLine_ok [OF less.prems(1-3) m]
      proof (elim disjE exE conjE)
        assume "tryLine (search k) m (t, acc) = (Inr 0, t, acc)" "dry k t m"
        then show ?thesis using sr keep Cons unfolding step by auto
      next
        fix f t1 acc1
        assume r: "tryLine (search k) m (t, acc) = (Inr f, t1, acc1)" "0 < f"
          "route after blocked contractor k (t, acc) (t1, acc1)" "good t1 acc1"
          and o: "outroom t1 + f = outroom t" "outOf t1 0 = outOf t 0"
        obtain s' where "drainLines skipEmpty (search k) ms (t1, acc1) = Some (Inr (), s')"
          "reached k (t1, acc1) s'" "\<forall>m \<in> set ms. dry k (fst s') m"
          using less.hyps [OF _ r(4) less.prems(2,3) _ less.prems(5)] less.prems(4) o r(2) by auto
        then show ?thesis using r(1,2) reached_step [OF r(3)] Cons unfolding step by auto
      qed
    qed
  qed
qed

lemma gatewaysFirst_ok:
  assumes "good t acc" and "0 < k" and "k \<le> maxk" and "set ms \<subseteq> set (outOf t 0)" and "set ms \<inter> set blocked = {}"
  shows "\<exists>ms' s'. gatewaysFirst (search k) gs ms (t, acc) = (Inr ms', s') \<and> reached k (t, acc) s' \<and>
    set ms' \<subseteq> set ms"
  using assms
proof (induction gs arbitrary: ms t acc)
  case Nil
  then show ?case by (simp add: reached_refl)
next
  case (Cons g gs)
  show ?case
  proof (cases "g \<in> set ms")
    case False
    then show ?thesis using Cons by simp
  next
    case True
    then have g: "g \<in> set (outOf t 0)" "g \<notin> set blocked" using Cons.prems(4,5) by auto
    have sub: "set (remove1 g ms) \<subseteq> set ms" by (rule set_remove1_subset)
    show ?thesis
      using tryLine_ok [OF Cons.prems(1-3) g]
    proof (elim disjE exE conjE)
      assume r: "tryLine (search k) g (t, acc) = (Inr 0, t, acc)"
      have "\<exists>ms' s'. gatewaysFirst (search k) gs (remove1 g ms) (t, acc) = (Inr ms', s') \<and>
          reached k (t, acc) s' \<and> set ms' \<subseteq> set (remove1 g ms)"
        using sub Cons.prems by (intro Cons.IH) auto
      then show ?thesis using r True sub by auto
    next
      fix f t1 acc1
      assume r: "tryLine (search k) g (t, acc) = (Inr f, t1, acc1)" "0 < f"
          "route after blocked contractor k (t, acc) (t1, acc1)" "good t1 acc1"
        and o: "outroom t1 + f = outroom t" "outOf t1 0 = outOf t 0"
      have "\<exists>ms' s'. gatewaysFirst (search k) gs (remove1 g ms) (t1, acc1) = (Inr ms', s') \<and>
          reached k (t1, acc1) s' \<and> set ms' \<subseteq> set (remove1 g ms)"
        using sub Cons.prems r(4) o(2) by (intro Cons.IH) auto
      then show ?thesis using r(1) True sub reached_step [OF r(3)] by auto
    qed
  qed
qed

lemma firstFlow_ok:
  assumes "good t acc" and "0 < k" and "k \<le> maxk" and "set ms \<subseteq> set (outOf t 0)"
  shows "(firstFlow (search k) blocked ms (t, acc) = (Inr 0, t, acc) \<and> (\<forall>m \<in> set ms. dry k t m)) \<or>
    (\<exists>f t' acc'. firstFlow (search k) blocked ms (t, acc) = (Inr f, t', acc') \<and> 0 < f \<and>
       route after blocked contractor k (t, acc) (t', acc') \<and> good t' acc' \<and>
       outroom t' + f = outroom t \<and> outOf t' 0 = outOf t 0)"
  using assms(4)
proof (induction ms)
  case Nil
  then show ?case by simp
next
  case (Cons m ms)
  have caps: "caps_ok t" using good_caps [OF assms(1)] by simp
  have m: "m \<in> set (outOf t 0)" using Cons.prems by simp
  obtain line where line: "lineBetween 0 m t = Some line" using m lineBetween_iff [of 0 m t] by fastforce
  note IH = Cons.IH [OF subset_trans [OF set_subset_Cons Cons.prems]]
  show ?case
  proof (cases "m \<in> set blocked")
    case True
    then have "dry k t m" by (simp add: dry_def open_walk_def)
    moreover have "firstFlow (search k) blocked (m # ms) (t, acc) = firstFlow (search k) blocked ms (t, acc)"
      using True line line_facts(5) [OF caps line] by (simp add: kCurrentNodeID_def)
    ultimately show ?thesis using IH by auto
  next
    case False
    have step: "firstFlow (search k) blocked (m # ms) (t, acc) = bindS (tryLine (search k) m (t, acc))
        (\<lambda>flow s. if flow > 0 then returning flow s else firstFlow (search k) blocked ms s)"
      using False line line_facts(5) [OF caps line] by (simp add: kCurrentNodeID_def)
    show ?thesis
      using tryLine_ok [OF assms(1-3) m False]
    proof (elim disjE exE conjE)
      assume "tryLine (search k) m (t, acc) = (Inr 0, t, acc)" "dry k t m"
      then show ?thesis using IH unfolding step by auto
    next
      fix f t1 acc1
      assume "tryLine (search k) m (t, acc) = (Inr f, t1, acc1)" "0 < f"
          "route after blocked contractor k (t, acc) (t1, acc1)" "good t1 acc1"
          "outroom t1 + f = outroom t" "outOf t1 0 = outOf t 0"
      then show ?thesis unfolding step by auto
    qed
  qed
qed

lemma rebuildLoop_ok:
  assumes "good t acc" and "0 < k" and "k \<le> maxk" and "set ms \<subseteq> set (outOf t 0)" and "a + outroom t < 2 ^ 256"
  shows "\<exists>b s'. rebuildLoop (search k) blocked ms a (t, acc) = Some (Inr b, s') \<and> reached k (t, acc) s' \<and>
    b + outroom (fst s') = a + outroom t \<and> (\<forall>m \<in> set ms. dry k (fst s') m)"
  using assms
proof (induction "outroom t" arbitrary: t acc a rule: less_induct)
  case less
  show ?case
    using firstFlow_ok [OF less.prems(1-4)]
  proof (elim disjE exE conjE)
    assume "firstFlow (search k) blocked ms (t, acc) = (Inr 0, t, acc)" "\<forall>m \<in> set ms. dry k t m"
    then show ?thesis
      using less.prems(1,5) by (subst rebuildLoop.simps) (auto simp: checked_add_def reached_refl)
  next
    fix f t1 acc1
    assume r: "firstFlow (search k) blocked ms (t, acc) = (Inr f, t1, acc1)" "0 < f"
        "route after blocked contractor k (t, acc) (t1, acc1)" "good t1 acc1"
      and o: "outroom t1 + f = outroom t" "outOf t1 0 = outOf t 0"
    have step: "rebuildLoop (search k) blocked ms a (t, acc) = rebuildLoop (search k) blocked ms (a + f) (t1, acc1)"
      using r(1,2) o(1) less.prems(5) by (subst rebuildLoop.simps) (simp add: checked_add_def)
    obtain b s' where "rebuildLoop (search k) blocked ms (a + f) (t1, acc1) = Some (Inr b, s')"
      "reached k (t1, acc1) s'" "b + outroom (fst s') = a + f + outroom t1" "\<forall>m \<in> set ms. dry k (fst s') m"
      using less.hyps [of t1 acc1 "a + f"] r(2,4) o less.prems by auto
    then show ?thesis unfolding step using reached_step [OF r(3)] o(1) by auto
  qed
qed

lemma roundOfLines_ok:
  assumes "good t acc" and "0 < k" and "k \<le> maxk" and "set ms \<subseteq> set (outOf t 0)" and "set ms \<inter> set blocked = {}"
    and "a + outroom t < 2 ^ 256"
  shows "\<exists>f s'. roundOfLines (search k) ms a (t, acc) = (Inr (a + f), s') \<and> reached k (t, acc) s' \<and>
    outroom (fst s') + f = outroom t \<and> (f = 0 \<longrightarrow> s' = (t, acc) \<and> (\<forall>m \<in> set ms. dry k t m))"
  using assms
proof (induction ms arbitrary: t acc a)
  case Nil
  then show ?case by (simp add: reached_refl)
next
  case (Cons m ms)
  have m: "m \<in> set (outOf t 0)" "m \<notin> set blocked" and ms: "set ms \<subseteq> set (outOf t 0)" "set ms \<inter> set blocked = {}"
    using Cons.prems(4,5) by auto
  show ?case
    using tryLine_ok [OF Cons.prems(1-3) m]
  proof (elim disjE exE conjE)
    assume "tryLine (search k) m (t, acc) = (Inr 0, t, acc)" "dry k t m"
    then show ?thesis using Cons.IH [OF Cons.prems(1-3) ms Cons.prems(6)] by auto
  next
    fix f t1 acc1
    assume r: "tryLine (search k) m (t, acc) = (Inr f, t1, acc1)" "0 < f"
        "route after blocked contractor k (t, acc) (t1, acc1)" "good t1 acc1"
      and o: "outroom t1 + f = outroom t" "outOf t1 0 = outOf t 0"
    have step: "roundOfLines (search k) (m # ms) a (t, acc) = roundOfLines (search k) ms (a + f) (t1, acc1)"
      using r(1,2) o(1) Cons.prems(6) by (simp add: checked_add_def)
    obtain f' s' where "roundOfLines (search k) ms (a + f) (t1, acc1) = (Inr (a + f + f'), s')"
      "reached k (t1, acc1) s'" "outroom (fst s') + f' = outroom t1"
      using Cons.IH [of t1 acc1 "a + f"] r(4) ms o Cons.prems by auto
    then show ?thesis
      unfolding step using reached_step [OF r(3)] o(1) r(2) by (intro exI [of _ "f + f'"] exI [of _ s']) (auto simp: add.assoc)
  qed
qed

lemma roundsLoop_ok:
  assumes "good t acc" and "0 < k" and "k \<le> maxk" and "set ms \<subseteq> set (outOf t 0)" and "set ms \<inter> set blocked = {}"
    and "outroom t < 2 ^ 256"
  shows "\<exists>s'. roundsLoop (search k) ms (t, acc) = Some (Inr (), s') \<and> reached k (t, acc) s' \<and>
    (\<forall>m \<in> set ms. dry k (fst s') m)"
  using assms
proof (induction "outroom t" arbitrary: t acc rule: less_induct)
  case less
  obtain f s1 where r: "roundOfLines (search k) ms 0 (t, acc) = (Inr f, s1)" "reached k (t, acc) s1"
    "outroom (fst s1) + f = outroom t" "f = 0 \<longrightarrow> s1 = (t, acc) \<and> (\<forall>m \<in> set ms. dry k t m)"
    using less.prems(6) roundOfLines_ok [OF less.prems(1-5), of 0] unfolding add_0_left by blast
  show ?case
  proof (cases "f = 0")
    case True
    then show ?thesis using r less.prems(1) by (subst roundsLoop.simps) (auto simp: reached_refl)
  next
    case False
    obtain t1 acc1 where s1: "s1 = (t1, acc1)" by (cases s1)
    have step: "roundsLoop (search k) ms (t, acc) = roundsLoop (search k) ms (t1, acc1)"
      using r(1) s1 False by (subst roundsLoop.simps) simp
    have "good t1 acc1" "outOf t1 0 = outOf t 0" using r(2) s1 by (simp_all add: reached_def)
    then show ?thesis
      unfolding step using less.hyps [of t1 acc1] less.prems r(2,3) s1 False reached_trans [OF r(2)] by auto
  qed
qed

end

section \<open>All levels together\<close>

context level_search
begin

lemma reached_max: "reached k s s' \<Longrightarrow> k \<le> maxk \<Longrightarrow> reached maxk s s'"
  by (auto simp: reached_def intro: routes_mono)

lemma levels_ok:
  assumes "good t acc"
    and "\<forall>n \<in> set ns. n \<le> maxk"
    and "\<forall>n \<in> set (ns @ [maxk]). \<forall>t' acc'. good t' acc' \<longrightarrow> outOf t' 0 = outOf t 0 \<longrightarrow> outroom t' \<le> outroom t \<longrightarrow>
      (\<exists>b s'. level n (t', acc') = Some (Inr b, s') \<and> reached n (t', acc') s' \<and>
         (n = maxk \<longrightarrow> (\<forall>m \<in> set (outOf t 0). dry maxk (fst s') m)))"
  shows "\<exists>s'. levels level (ns @ [maxk]) (t, acc) = Some (Inr (), s') \<and> reached maxk (t, acc) s' \<and>
    (\<forall>m \<in> set (outOf t 0). dry maxk (fst s') m)"
  using assms
proof (induction ns arbitrary: t acc)
  case Nil
  have "\<exists>b s'. level maxk (t, acc) = Some (Inr b, s') \<and> reached maxk (t, acc) s' \<and>
      (maxk = maxk \<longrightarrow> (\<forall>m \<in> set (outOf t 0). dry maxk (fst s') m))"
    by (rule Nil.prems(3) [THEN bspec, THEN spec, THEN spec, THEN mp, THEN mp, THEN mp])
      (use Nil.prems(1) in simp_all)
  then show ?case by auto
next
  case (Cons n ns)
  obtain b t1 acc1 where n: "level n (t, acc) = Some (Inr b, t1, acc1)" "reached n (t, acc) (t1, acc1)"
    using Cons.prems(3) [THEN bspec, THEN spec, THEN spec, THEN mp, THEN mp, THEN mp, of n t acc] Cons.prems(1)
    by auto
  then have r: "reached maxk (t, acc) (t1, acc1)" using reached_max Cons.prems(2) by simp
  then have t1: "good t1 acc1" "outOf t1 0 = outOf t 0" "outroom t1 \<le> outroom t" by (simp_all add: reached_def)
  have "\<exists>s'. levels level (ns @ [maxk]) (t1, acc1) = Some (Inr (), s') \<and> reached maxk (t1, acc1) s' \<and>
      (\<forall>m \<in> set (outOf t1 0). dry maxk (fst s') m)"
    using t1 Cons.prems(2,3) le_trans by (intro Cons.IH) auto
  then show ?case using n(1) reached_trans [OF r] t1(2) by auto
qed

lemma dry_all:
  assumes "\<forall>m \<in> set (outOf t 0). dry k t' m" and "outOf t' 0 = outOf t 0"
  shows "xs \<noteq> [] \<longrightarrow> \<not> open_walk t' 0 k contractor (insert 0 (set blocked)) xs"
proof
  assume "xs \<noteq> []"
  then obtain m ys where xs: "xs = m # ys" by (cases xs) auto
  show "\<not> open_walk t' 0 k contractor (insert 0 (set blocked)) xs"
  proof
    assume o: "open_walk t' 0 k contractor (insert 0 (set blocked)) xs"
    then have "m \<in> set (outOf t' 0)" using xs by (intro room_pos_line) (auto simp: open_walk_def)
    then show False using o assms xs unfolding dry_def by auto
  qed
qed

end

text \<open>What arriving adds, for paths and for flows.\<close>

definition afterPath ::
  "(ContractorID \<Rightarrow> string option) \<Rightarrow> ContractorID list \<Rightarrow> nat \<Rightarrow> PathsCollection \<Rightarrow> PathsCollection" where
  "afterPath address passed f c = c\<lparr>mPaths := mPaths c @ [map (the \<circ> address) passed]\<rparr>"

definition afterFlow :: "ContractorID list \<Rightarrow> nat \<Rightarrow> nat \<Rightarrow> nat" where
  "afterFlow passed f acc = acc + f"

interpretation path_arrival: arrival "arrivePath address" "afterPath address" "\<lambda>m. address m \<noteq> None" 5 "\<lambda>f c. True"
  for address
  by unfold_locales (simp_all add: arrivePath_def addressesPath_def add_def afterPath_def)

interpretation flow_arrival: arrival arriveFlow afterFlow "\<lambda>m. True" maxlen "\<lambda>f acc. acc + f < 2 ^ 256"
  for maxlen
  by unfold_locales (simp_all add: arriveFlow_def checked_add_def afterFlow_def)

text \<open>
  Networks in which a search can run: capacities respected, no line from the node to itself, every node at
  the end of a line has an address.
\<close>

definition known_net :: "(ContractorID \<Rightarrow> string option) \<Rightarrow> Topology \<Rightarrow> bool" where
  "known_net address t \<longleftrightarrow> caps_ok t \<and> 0 \<notin> set (outOf t 0) \<and> (\<forall>i. getAddressByID i t = address i) \<and>
     (\<forall>n. \<forall>m \<in> set (outOf t n). m \<noteq> 0 \<longrightarrow> address m \<noteq> None)"

lemma known_net_same: "known_net address t \<Longrightarrow> same_net t t' \<Longrightarrow> caps_ok t' \<Longrightarrow> known_net address t'"
  by (simp add: known_net_def same_net_def getAddressByID_def)

interpretation build_level:
  level_search "calculateOneNode contractor" "afterPath address" "[]" contractor 6 "\<lambda>t c. known_net address t"
  for contractor address
proof unfold_locales
  fix t and c :: PathsCollection
  assume k: "known_net address t"
  then show "caps_ok t \<and> 0 \<notin> set (outOf t 0)" by (simp add: known_net_def)
  fix n :: nat and m
  assume "0 < n" "n \<le> 6" "m \<in> set (outOf t 0)" "m \<notin> set []"
  have a: "(\<lambda>i. getAddressByID i t) = address" using k by (auto simp: known_net_def)
  have net: "caps_ok t" "\<forall>n. \<forall>m \<in> set (outOf t n). m \<noteq> 0 \<longrightarrow> address m \<noteq> None" "address m \<noteq> None"
    using k \<open>m \<in> set (outOf t 0)\<close> unfolding known_net_def by (blast, blast, metis)
  have len: "length ([] :: ContractorID list) + (n - 1) \<le> 5" using \<open>n \<le> 6\<close> by simp
  show "searched (afterPath address) [] contractor t m (n - 1) (room t 0 m) [] c
      (calculateOneNode contractor n m (room t 0 m) (t, c))"
    unfolding calculateOneNode_def fst_conv a
    by (rule path_arrival.searchNode_ok [OF net(1-3) _ len TrueI]) simp
next
  fix t t' and c c' :: PathsCollection
  assume k: "known_net address t" and r: "route (afterPath address) [] contractor 6 (t, c) (t', c')"
  show "known_net address t'" by (rule known_net_same [OF k route_facts(1,2) [OF r]])
qed

interpretation rebuild_level:
  level_search "calculateOneNodeForRebuildingPaths blocked contractor" "afterPath address" blocked contractor 6
    "\<lambda>t c. known_net address t"
  for blocked contractor address
proof unfold_locales
  fix t and c :: PathsCollection
  assume k: "known_net address t"
  then show "caps_ok t \<and> 0 \<notin> set (outOf t 0)" by (simp add: known_net_def)
  fix n :: nat and m
  assume "0 < n" "n \<le> 6" "m \<in> set (outOf t 0)" "m \<notin> set blocked"
  have a: "(\<lambda>i. getAddressByID i t) = address" using k by (auto simp: known_net_def)
  have net: "caps_ok t" "\<forall>n. \<forall>m \<in> set (outOf t n). m \<noteq> 0 \<longrightarrow> address m \<noteq> None" "address m \<noteq> None"
    using k \<open>m \<in> set (outOf t 0)\<close> unfolding known_net_def by (blast, blast, metis)
  have len: "length ([] :: ContractorID list) + (n - 1) \<le> 5" using \<open>n \<le> 6\<close> by simp
  show "searched (afterPath address) blocked contractor t m (n - 1) (room t 0 m) [] c
      (calculateOneNodeForRebuildingPaths blocked contractor n m (room t 0 m) (t, c))"
    unfolding calculateOneNodeForRebuildingPaths_def fst_conv a
    by (rule path_arrival.searchNode_ok [OF net(1-3) _ len TrueI]) simp
next
  fix t t' and c c' :: PathsCollection
  assume k: "known_net address t" and r: "route (afterPath address) blocked contractor 6 (t, c) (t', c')"
  show "known_net address t'" by (rule known_net_same [OF k route_facts(1,2) [OF r]])
qed

lemma route_flow_sum:
  "route afterFlow blocked contractor k (t, acc) (t', acc') \<Longrightarrow> acc' + outroom t' = acc + outroom t"
  using route_facts(5) by (fastforce simp: afterFlow_def)

lemma routes_flow_sum:
  assumes "routes afterFlow blocked contractor k (t, acc) (t', acc')"
  shows "acc' + outroom t' = acc + outroom t"
  using assms by (induction rule: rtranclp_induct2) (auto dest: route_flow_sum)

definition flow_net :: "Topology \<Rightarrow> nat \<Rightarrow> bool" where
  "flow_net t acc \<longleftrightarrow> caps_ok t \<and> 0 \<notin> set (outOf t 0) \<and> acc + outroom t < 2 ^ 256"

interpretation flow_level:
  level_search "calculateOneNode_maxFlow contractor" afterFlow "[]" contractor maxk flow_net
  for contractor maxk
proof unfold_locales
  fix t acc
  assume g: "flow_net t acc"
  then show "caps_ok t \<and> 0 \<notin> set (outOf t 0)" by (simp add: flow_net_def)
  fix n :: nat and m
  assume "0 < n" "n \<le> maxk" "m \<in> set (outOf t 0)" "m \<notin> set []"
  have "room t 0 m \<le> outroom t" unfolding outroom_def using \<open>m \<in> set (outOf t 0)\<close> by (intro member_le_sum) auto
  then show "searched afterFlow [] contractor t m (n - 1) (room t 0 m) [] acc
      (calculateOneNode_maxFlow contractor n m (room t 0 m) (t, acc))"
    using g unfolding calculateOneNode_maxFlow_def
    by (intro flow_arrival.searchNode_ok [where maxlen = "n - 1"]) (auto simp: flow_net_def)
next
  fix t t' and acc acc' :: nat
  assume "flow_net t acc" and r: "route afterFlow [] contractor maxk (t, acc) (t', acc')"
  then show "flow_net t' acc'"
    using route_facts(1,2) [OF r] route_flow_sum [OF r] by (simp add: flow_net_def same_net_def)
qed

text \<open>Changing how much of the lines is used changes nothing else.\<close>

lemma find_map_same: "(\<And>x. P (f x) = P x) \<Longrightarrow> find P (map f xs) = map_option f (find P xs)"
  by (induction xs) auto

lemma map_lines_ok:
  assumes "caps_ok t"
    and "\<And>n. map_of (msTrustLines t') n = map_option (map (F n)) (map_of (msTrustLines t) n)"
    and "distinct (keys (msTrustLines t'))" and "mParticipantsAddresses t' = mParticipantsAddresses t"
    and "\<And>n line. ttTargetID (F n line) = ttTargetID line \<and> ttSourceID (F n line) = ttSourceID line \<and>
      ttAmount (F n line) = ttAmount line \<and>
      (ttUsedAmount line \<le> ttAmount line \<longrightarrow> ttUsedAmount (F n line) \<le> ttAmount line)"
  shows "same_net t t' \<and> caps_ok t' \<and> lineBetween s d t' = map_option (F s) (lineBetween s d t)"
proof -
  have lb: "lineBetween s d t' = map_option (F s) (lineBetween s d t)" for s d
    using assms(2,5) by (simp add: lineBetween_map find_map_same split: option.splits)
  have ptrs: "trustLinePtrsSet n t' = map (F n) (trustLinePtrsSet n t)" for n
    using assms(2) by (simp add: trustLinePtrsSet_def split: option.splits)
  have "lines_ok t'"
    unfolding lines_ok_def
  proof (intro conjI ballI)
    show "distinct (keys (msTrustLines t'))" by (rule assms(3))
    fix it assume "it \<in> set (msTrustLines t')"
    then obtain s ls' where it: "it = (s, ls')" "map_of (msTrustLines t') s = Some ls'"
      using map_of_eq_Some_iff [OF assms(3)] by (metis surj_pair)
    then obtain ls where ls: "map_of (msTrustLines t) s = Some ls" "ls' = map (F s) ls"
      using assms(2) by (auto simp: map_option_case split: option.splits)
    have "lines_ok t" using assms(1) by (simp add: caps_ok_def)
    from lines_okD [OF this ls(1)] show "case it of (s, ls) \<Rightarrow> ls \<noteq> [] \<and> distinct (map ttTargetID ls) \<and>
        (\<forall>line \<in> set ls. ttSourceID line = s)"
      using it(1) ls(2) assms(5) by (simp add: comp_def)
  qed
  then have "caps_ok t'"
    using assms(1,5) lb by (auto simp: caps_ok_def)
  moreover have "same_net t t'"
    using ptrs lb assms(4,5) by (simp add: same_net_def comp_def flowAmount_def split: option.splits)
  ultimately show ?thesis using lb by simp
qed

lemma same_net_trans: "same_net t t1 \<Longrightarrow> same_net t1 t2 \<Longrightarrow> same_net t t2"
  by (simp add: same_net_def)

lemma prepared_line_ok:
  assumes "caps_ok t"
  shows "same_net t (makeFullyUsedLinesOf node g t) \<and> caps_ok (makeFullyUsedLinesOf node g t)"
proof (cases "map_of (msTrustLines t) g")
  case None
  then show ?thesis using assms by (simp add: same_net_def makeFullyUsedLinesOf_def)
next
  case (Some ls)
  let ?F = "\<lambda>n line. if n \<noteq> g \<or> ttTargetID line \<in> set (mTopologyGateways t) then line
    else if ttTargetID line \<noteq> node then setUsedAmount (ttAmount line) line else line"
  let ?t = "makeFullyUsedLinesOf node g t"
  have "distinct (keys (msTrustLines t))" using assms by (simp add: caps_ok_def lines_ok_def)
  then have d: "distinct (keys (msTrustLines ?t))" using Some by (simp add: makeFullyUsedLinesOf_def)
  have m: "map_of (msTrustLines ?t) n = map_option (map (?F n)) (map_of (msTrustLines t) n)" for n
    using Some by (simp add: makeFullyUsedLinesOf_def map_option_case split: option.splits)
  have "mParticipantsAddresses ?t = mParticipantsAddresses t" using Some by (simp add: makeFullyUsedLinesOf_def)
  from map_lines_ok [OF assms m d this] show ?thesis by simp
qed

lemma prepared_ok:
  assumes "caps_ok t"
  shows "same_net t (makeFullyUsedTLsFromGatewaysToAllNodesExceptOne node t) \<and>
    caps_ok (makeFullyUsedTLsFromGatewaysToAllNodesExceptOne node t)"
proof -
  have "same_net t (fold (makeFullyUsedLinesOf node) gs t) \<and> caps_ok (fold (makeFullyUsedLinesOf node) gs t)" for gs
    using assms
  proof (induction gs arbitrary: t)
    case Nil
    then show ?case by (simp add: same_net_def)
  next
    case (Cons g gs)
    then show ?case
      using prepared_line_ok [OF Cons.prems, of node g] Cons.IH [of "makeFullyUsedLinesOf node g t"]
        same_net_trans [of t "makeFullyUsedLinesOf node g t"] by simp
  qed
  then show ?thesis by (simp add: makeFullyUsedTLsFromGatewaysToAllNodesExceptOne_def)
qed

lemma reset_ok:
  assumes "caps_ok t"
  shows "same_net t (resetAllUsedAmounts t) \<and> caps_ok (resetAllUsedAmounts t) \<and> used (resetAllUsedAmounts t) s d = 0"
proof -
  have k: "keys (msTrustLines (resetAllUsedAmounts t)) = keys (msTrustLines t)"
    by (auto simp: resetAllUsedAmounts_def)
  have d: "distinct (keys (msTrustLines (resetAllUsedAmounts t)))"
    unfolding k using assms by (simp add: caps_ok_def lines_ok_def)
  have m: "map_of (msTrustLines (resetAllUsedAmounts t)) n =
      map_option (map ((\<lambda>_. setUsedAmount 0) n)) (map_of (msTrustLines t) n)" for n
    by (simp add: resetAllUsedAmounts_def map_of_map)
  have "mParticipantsAddresses (resetAllUsedAmounts t) = mParticipantsAddresses t"
    by (simp add: resetAllUsedAmounts_def)
  from map_lines_ok [OF assms m d this, of s d] show ?thesis
    by (simp add: used_def split: option.splits)
qed

section \<open>Properties\<close>

definition stored_paths_short :: "PathsCollection \<Rightarrow> bool" where
  "stored_paths_short c \<longleftrightarrow> (\<forall>path \<in> set (mPaths c). length path \<le> 5)"

lemma routes_paths_short:
  assumes "routes (afterPath address) blocked contractor 6 (t, c) (t', c')" and "stored_paths_short c"
  shows "stored_paths_short c'"
  using assms
proof (induction rule: rtranclp_induct2)
  case (step t1 c1 t2 c2)
  obtain f ps where "c2 = afterPath address ps f c1" "length ps < 6" using route_facts(5) [OF step.hyps(2)] by blast
  then show ?case using step by (auto simp: afterPath_def stored_paths_short_def)
qed

lemma known_net_prepared:
  "known_net address t \<Longrightarrow> known_net address (makeFullyUsedTLsFromGatewaysToAllNodesExceptOne node t)"
  using prepared_ok [of t node] known_net_same by (metis known_net_def)

lemma build_levels:
  assumes "known_net address t"
  shows "\<exists>t' c'. levels (\<lambda>pathLength.
        if pathLength = 2 then buildPathsOnSecondLevel gateways contractor
        else buildPathsOnOneLevel contractor pathLength) [1..<kMaxPathLength + 1] (t, c) = Some (Inr (), t', c') \<and>
     routes (afterPath address) [] contractor 6 (t, c) (t', c') \<and> known_net address t' \<and>
     (\<forall>xs. xs \<noteq> [] \<longrightarrow> \<not> open_walk t' 0 6 contractor {0} xs)"
proof -
  let ?level = "\<lambda>pathLength. if pathLength = 2 then buildPathsOnSecondLevel gateways contractor
    else buildPathsOnOneLevel contractor pathLength"
  have range: "[1..<kMaxPathLength + 1] = [1, 2, 3, 4, 5] @ [6]" by (simp add: kMaxPathLength_def upt_rec)
  have one: "\<exists>b s'. buildPathsOnOneLevel contractor n (t', c') = Some (Inr b, s') \<and>
      build_level.reached address contractor n (t', c') s' \<and>
      (\<forall>m \<in> set (outOf t' 0). build_level.dry contractor n (fst s') m)"
    if "known_net address t'" "0 < n" "n \<le> 6" for n t' c'
    using build_level.drainLines_ok [where address = address and k = n and ms = "outOf t' 0" and skipEmpty = True, OF that]
    by (auto simp: buildPathsOnOneLevel_def kCurrentNodeID_def)
  have two: "\<exists>b s'. buildPathsOnSecondLevel gateways contractor (t', c') = Some (Inr b, s') \<and>
      build_level.reached address contractor 2 (t', c') s'"
    if net: "known_net address t'" for t' c'
  proof -
    obtain ms t1 c1 where g: "gatewaysFirst (calculateOneNode contractor 2) gateways (outOf t' 0) (t', c') = (Inr ms, t1, c1)"
      "build_level.reached address contractor 2 (t', c') (t1, c1)" "set ms \<subseteq> set (outOf t' 0)"
      using build_level.gatewaysFirst_ok [where address = address and k = 2 and ms = "outOf t' 0", OF net]
      by fastforce
    then have "known_net address t1" "set ms \<subseteq> set (outOf t1 0)" by (simp_all add: build_level.reached_def)
    then obtain s' where "drainLines False (calculateOneNode contractor 2) ms (t1, c1) = Some (Inr (), s')"
      "build_level.reached address contractor 2 (t1, c1) s'"
      using build_level.drainLines_ok [where address = address and k = 2 and t = t1 and ms = ms] by fastforce
    then show ?thesis
      using g build_level.reached_trans [OF g(2)] by (simp add: buildPathsOnSecondLevel_def kCurrentNodeID_def)
  qed
  have level: "\<exists>b s'. ?level n (t', c') = Some (Inr b, s') \<and> build_level.reached address contractor n (t', c') s' \<and>
      (n = 6 \<longrightarrow> (\<forall>m \<in> set (outOf t 0). build_level.dry contractor 6 (fst s') m))"
    if "n \<in> set ([1, 2, 3, 4, 5] @ [6])" "known_net address t'" "outOf t' 0 = outOf t 0" for n t' c'
    using that one [of t' n c'] two [of t' c'] by (cases "n = 2") auto
  have "\<exists>s'. levels ?level [1..<kMaxPathLength + 1] (t, c) = Some (Inr (), s') \<and>
      build_level.reached address contractor 6 (t, c) s' \<and>
      (\<forall>m \<in> set (outOf t 0). build_level.dry contractor 6 (fst s') m)"
    unfolding range
    by (rule build_level.levels_ok [where address = address, OF assms]) (simp, intro ballI allI impI level)
  then obtain s' where s': "levels ?level [1..<kMaxPathLength + 1] (t, c) = Some (Inr (), s')"
    "build_level.reached address contractor 6 (t, c) s'" "\<forall>m \<in> set (outOf t 0). build_level.dry contractor 6 (fst s') m"
    by blast
  then have "\<not> open_walk (fst s') 0 6 contractor {0} xs" if "xs \<noteq> []" for xs
    using build_level.dry_all [OF s'(3), of xs] that by (simp add: build_level.reached_def)
  then show ?thesis
    using s' by (intro exI [of _ "fst s'"] exI [of _ "snd s'"]) (simp add: build_level.reached_def)
qed

lemma rebuild_levels:
  assumes "known_net address t" and "outroom t < 2 ^ 256"
  shows "\<exists>t' c'. levels (reBuildPathsOnOneLevel blocked contractor) [2..<kMaxPathLength + 1] (t, c) =
       Some (Inr (), t', c') \<and>
     routes (afterPath address) blocked contractor 6 (t, c) (t', c') \<and> known_net address t' \<and>
     (\<forall>xs. xs \<noteq> [] \<longrightarrow> \<not> open_walk t' 0 6 contractor (insert 0 (set blocked)) xs)"
proof -
  have range: "[2..<kMaxPathLength + 1] = [2, 3, 4, 5] @ [6]" by (simp add: kMaxPathLength_def upt_rec)
  have level: "\<exists>b s'. reBuildPathsOnOneLevel blocked contractor n (t', c') = Some (Inr b, s') \<and>
      rebuild_level.reached address blocked contractor n (t', c') s' \<and>
      (n = 6 \<longrightarrow> (\<forall>m \<in> set (outOf t 0). rebuild_level.dry blocked contractor 6 (fst s') m))"
    if n: "n \<in> set ([2, 3, 4, 5] @ [6])" and net: "known_net address t'" and o: "outOf t' 0 = outOf t 0"
      "outroom t' \<le> outroom t" for n t' c'
  proof -
    have nn: "0 < n" "n \<le> 6" using n by auto
    have "0 + outroom t' < 2 ^ 256" using assms(2) o(2) by simp
    from rebuild_level.rebuildLoop_ok [where address = address, OF net nn subset_refl this]
    obtain b s' where "rebuildLoop (calculateOneNodeForRebuildingPaths blocked contractor n) blocked (outOf t' 0) 0 (t', c') =
        Some (Inr b, s')" "rebuild_level.reached address blocked contractor n (t', c') s'"
      "\<forall>m \<in> set (outOf t' 0). rebuild_level.dry blocked contractor n (fst s') m"
      by blast
    then show ?thesis using o(1) by (cases "n = 6") (simp_all add: reBuildPathsOnOneLevel_def kCurrentNodeID_def)
  qed
  have "\<exists>s'. levels (reBuildPathsOnOneLevel blocked contractor) [2..<kMaxPathLength + 1] (t, c) = Some (Inr (), s') \<and>
      rebuild_level.reached address blocked contractor 6 (t, c) s' \<and>
      (\<forall>m \<in> set (outOf t 0). rebuild_level.dry blocked contractor 6 (fst s') m)"
    unfolding range
    by (rule rebuild_level.levels_ok [where address = address, OF assms(1)]) (simp, intro ballI allI impI level)
  then obtain s' where s': "levels (reBuildPathsOnOneLevel blocked contractor) [2..<kMaxPathLength + 1] (t, c) =
      Some (Inr (), s')" "rebuild_level.reached address blocked contractor 6 (t, c) s'"
    "\<forall>m \<in> set (outOf t 0). rebuild_level.dry blocked contractor 6 (fst s') m"
    by blast
  then have "\<not> open_walk (fst s') 0 6 contractor (insert 0 (set blocked)) xs" if "xs \<noteq> []" for xs
    using rebuild_level.dry_all [OF s'(3), of xs] that by (simp add: rebuild_level.reached_def)
  then show ?thesis
    using s' by (intro exI [of _ "fst s'"] exI [of _ "snd s'"]) (simp add: rebuild_level.reached_def)
qed

lemma flow_levels:
  assumes "flow_net t acc" and "set lines = set (outOf t 0)" and "0 < k"
  shows "\<exists>t' acc'. levels (calculateMaxFlowOnOneLevel lines contractor) [1..<k + 1] (t, acc) =
       Some (Inr (), t', acc') \<and>
     routes afterFlow [] contractor k (t, acc) (t', acc') \<and> flow_net t' acc' \<and>
     (\<forall>xs. xs \<noteq> [] \<longrightarrow> \<not> open_walk t' 0 k contractor {0} xs)"
proof -
  have range: "[1..<k + 1] = [1..<k] @ [k]" using assms(3) by simp
  have level: "\<exists>b s'. calculateMaxFlowOnOneLevel lines contractor n (t', acc') = Some (Inr b, s') \<and>
      flow_level.reached contractor n (t', acc') s' \<and>
      (n = k \<longrightarrow> (\<forall>m \<in> set (outOf t 0). flow_level.dry contractor k (fst s') m))"
    if n: "n \<in> set ([1..<k] @ [k])" and net: "flow_net t' acc'" and o: "outOf t' 0 = outOf t 0"
      "outroom t' \<le> outroom t" for n t' acc'
  proof -
    have nn: "0 < n" "n \<le> k" using n assms(3) by auto
    have sub: "set lines \<subseteq> set (outOf t' 0)" using assms(2) o(1) by simp
    have "outroom t' < 2 ^ 256" using net by (simp add: flow_net_def)
    from flow_level.roundsLoop_ok [where maxk = k and contractor = contractor, OF net nn sub _ this]
    obtain s' where "roundsLoop (calculateOneNode_maxFlow contractor n) lines (t', acc') = Some (Inr (), s')"
      "flow_level.reached contractor n (t', acc') s'" "\<forall>m \<in> set lines. flow_level.dry contractor n (fst s') m"
      by auto
    then show ?thesis using assms(2) by (cases "n = k") (simp_all add: calculateMaxFlowOnOneLevel_def)
  qed
  have "\<exists>s'. levels (calculateMaxFlowOnOneLevel lines contractor) [1..<k + 1] (t, acc) = Some (Inr (), s') \<and>
      flow_level.reached contractor k (t, acc) s' \<and>
      (\<forall>m \<in> set (outOf t 0). flow_level.dry contractor k (fst s') m)"
    unfolding range
    by (rule flow_level.levels_ok [OF assms(1)]) (simp, intro ballI allI impI level)
  then obtain s' where s': "levels (calculateMaxFlowOnOneLevel lines contractor) [1..<k + 1] (t, acc) = Some (Inr (), s')"
    "flow_level.reached contractor k (t, acc) s'" "\<forall>m \<in> set (outOf t 0). flow_level.dry contractor k (fst s') m"
    by blast
  then have "\<not> open_walk (fst s') 0 k contractor {0} xs" if "xs \<noteq> []" for xs
    using flow_level.dry_all [OF s'(3), of xs] that by (simp add: flow_level.reached_def)
  then show ?thesis
    using s' by (intro exI [of _ "fst s'"] exI [of _ "snd s'"]) (simp add: flow_level.reached_def)
qed

lemma getID_same:
  "mTopologyGateways (snd (getID a t)) = mTopologyGateways t" "outOf (snd (getID a t)) n = outOf t n"
  "lineBetween s d (snd (getID a t)) = lineBetween s d t" "lines_ok (snd (getID a t)) = lines_ok t"
  "getAddressByID i t \<noteq> None \<Longrightarrow> getAddressByID i (snd (getID a t)) = getAddressByID i t"
  by (auto simp: getID_def trustLinePtrsSet_def lineBetween_def lines_ok_def getAddressByID_def find_append
      split: option.splits)

lemma getIDs_same:
  "mTopologyGateways (snd (getIDs as t)) = mTopologyGateways t \<and> outOf (snd (getIDs as t)) n = outOf t n \<and>
   lineBetween s d (snd (getIDs as t)) = lineBetween s d t \<and> lines_ok (snd (getIDs as t)) = lines_ok t \<and>
   (getAddressByID i t \<noteq> None \<longrightarrow> getAddressByID i (snd (getIDs as t)) = getAddressByID i t)"
proof (induction as arbitrary: t)
  case (Cons a as)
  then show ?case
    using getID_same [where a = a and t = t] Cons.IH [of "snd (getID a t)"] by (simp add: split_beta)
qed simp

lemma same_lines_known:
  assumes "known_net address t" and "\<And>n. outOf t' n = outOf t n" and "\<And>s d. lineBetween s d t' = lineBetween s d t"
    and "lines_ok t' = lines_ok t" and "\<And>i. getAddressByID i t \<noteq> None \<Longrightarrow> getAddressByID i t' = getAddressByID i t"
  shows "known_net (\<lambda>i. getAddressByID i t') t'" "outroom t' = outroom t"
proof -
  have "room t' s d = room t s d" for s d using assms(3) by (simp add: room_def used_def flowAmount_def)
  then show "outroom t' = outroom t" using assms(2) by (simp add: outroom_def)
  have "caps_ok t'" using assms(1,3,4) by (auto simp: known_net_def caps_ok_def)
  moreover have "getAddressByID m t' \<noteq> None" if "m \<in> set (outOf t' n)" "m \<noteq> 0" for n m
  proof -
    have "getAddressByID m t \<noteq> None" using assms(1,2) that unfolding known_net_def by metis
    then show ?thesis using assms(5) by simp
  qed
  moreover have "0 \<notin> set (outOf t' 0)" using assms(1,2) unfolding known_net_def by metis
  ultimately show "known_net (\<lambda>i. getAddressByID i t') t'" unfolding known_net_def by blast
qed

text \<open>C29: payment paths. For a well formed topology whose nodes are known, \<open>buildPaths\<close> returns without an
  exception. What it does is a run of the abstract algorithm: every path is added for a positive flow, the
  narrowest of its lines at that moment, which is then used on each of them, so that together the paths
  respect every capacity; and when it ends no walk of at most six lines to the contractor has room left.
  Every path has at most five intermediate nodes, and afterwards nothing is marked as used.\<close>

theorem build_paths_exhaustive:
  assumes "known_net address (mTopology p)"
  shows "\<exists>p' c t'. buildPaths gateways contractorAddress contractorID p = Some (Inr (), p') \<and>
    mPathCollection p' = Some c \<and>
    routes (afterPath address) [] contractorID 6
      (makeFullyUsedTLsFromGatewaysToAllNodesExceptOne contractorID (mTopology p), newPathsCollection contractorAddress)
      (t', c) \<and>
    caps_ok t' \<and> (\<forall>xs. xs \<noteq> [] \<longrightarrow> \<not> open_walk t' 0 6 contractorID {0} xs) \<and>
    stored_paths_short c \<and> same_net (mTopology p) (mTopology p') \<and> (\<forall>s d. used (mTopology p') s d = 0)"
proof -
  let ?t = "makeFullyUsedTLsFromGatewaysToAllNodesExceptOne contractorID (mTopology p)"
  let ?c = "newPathsCollection contractorAddress"
  have caps: "caps_ok (mTopology p)" using assms by (simp add: known_net_def)
  have net: "known_net address ?t" using assms by (rule known_net_prepared)
  obtain t' c' where l: "levels (\<lambda>pathLength.
        if pathLength = 2 then buildPathsOnSecondLevel gateways contractorID
        else buildPathsOnOneLevel contractorID pathLength) [1..<kMaxPathLength + 1] (?t, ?c) = Some (Inr (), t', c')"
    "routes (afterPath address) [] contractorID 6 (?t, ?c) (t', c')" "known_net address t'"
    "\<forall>xs. xs \<noteq> [] \<longrightarrow> \<not> open_walk t' 0 6 contractorID {0} xs"
    using build_levels [OF net] by blast
  have caps': "caps_ok t'" using l(3) by (simp add: known_net_def)
  have same: "same_net (mTopology p) t'"
    using prepared_ok [OF caps] routes_facts [OF l(2)] same_net_trans by blast
  have short: "stored_paths_short c'"
    by (rule routes_paths_short [OF l(2)]) (simp add: stored_paths_short_def newPathsCollection_def)
  show ?thesis
  proof (cases "trustLinePtrsSet kCurrentNodeID ?t = []")
    case True
    then have "\<not> open_walk ?t 0 6 contractorID {0} xs" if "xs \<noteq> []" for xs
      using that room_pos_line [of ?t 0 "hd xs"] by (cases xs) (auto simp: open_walk_def kCurrentNodeID_def)
    moreover have "stored_paths_short ?c" by (simp add: stored_paths_short_def newPathsCollection_def)
    moreover have "caps_ok ?t" "same_net (mTopology p) (resetAllUsedAmounts ?t)"
      "used (resetAllUsedAmounts ?t) s d = 0" for s d
      using prepared_ok [OF caps, of contractorID] reset_ok [of ?t s d] same_net_trans by blast+
    ultimately show ?thesis
      using True by (intro exI [of _ "p\<lparr>mTopology := resetAllUsedAmounts ?t, mPathCollection := Some ?c\<rparr>"]
          exI [of _ ?c] exI [of _ ?t]) (simp add: buildPaths_def Let_def)
  next
    case False
    have "same_net (mTopology p) (resetAllUsedAmounts t')" "used (resetAllUsedAmounts t') s d = 0" for s d
      using same reset_ok [OF caps', of s d] same_net_trans by blast+
    then show ?thesis
      using False l caps' short
      by (intro exI [of _ "p\<lparr>mTopology := resetAllUsedAmounts t', mPathCollection := Some c'\<rparr>"]
          exI [of _ c'] exI [of _ t']) (simp add: buildPaths_def Let_def)
  qed
qed

lemma sample_known: "known_net (\<lambda>i. getAddressByID i sampleTopology) sampleTopology"
proof -
  have lb: "lineBetween s d sampleTopology =
      (if s = 0 \<and> d = 1 then Some (newTopologyTrustLine 0 1 100)
       else if s = 1 \<and> d = 2 then Some (newTopologyTrustLine 1 2 70) else None)" for s d
    by (auto simp: sampleTopology_def lineBetween_def trustLinePtrsSet_def newTopologyTrustLine_def)
  have out: "outOf sampleTopology n = (if n = 0 then [1] else if n = 1 then [2] else [])" for n
    by (simp add: sampleTopology_def trustLinePtrsSet_def newTopologyTrustLine_def)
  have a: "getAddressByID 1 sampleTopology = Some ''a''" "getAddressByID 2 sampleTopology = Some ''b''"
    by (simp_all add: getAddressByID_def sampleTopology_def)
  have "caps_ok sampleTopology"
    using sampleTopology_ok(1) lb by (auto simp: caps_ok_def newTopologyTrustLine_def split: if_splits)
  then show ?thesis
    unfolding known_net_def out by (auto simp: a split: if_splits)
qed

lemma sample_flow: "flow_net (makeFullyUsedTLsFromGatewaysToAllNodesExceptOne 2 sampleTopology) 0"
  "set [1] = set (outOf sampleTopology 0)"
proof -
  have t: "makeFullyUsedTLsFromGatewaysToAllNodesExceptOne 2 sampleTopology = sampleTopology"
    by (simp add: makeFullyUsedTLsFromGatewaysToAllNodesExceptOne_def sampleTopology_def)
  have "outOf sampleTopology 0 = [1]" "room sampleTopology 0 1 = 100"
    by (simp_all add: sampleTopology_def trustLinePtrsSet_def newTopologyTrustLine_def room_def flowAmount_def used_def
        lineBetween_def)
  then show "flow_net (makeFullyUsedTLsFromGatewaysToAllNodesExceptOne 2 sampleTopology) 0"
    "set [1] = set (outOf sampleTopology 0)"
    using sample_known by (simp_all add: t flow_net_def known_net_def outroom_def)
qed

theorem build_paths_exhaustive_witness:
  "known_net (\<lambda>i. getAddressByID i sampleTopology)
     (mTopology \<lparr>mTopology = sampleTopology, mPathCollection = None, mInaccessibleNodes = []\<rparr>) \<and>
   (\<exists>p' c. buildPaths [1] ''b'' 2
        \<lparr>mTopology = sampleTopology, mPathCollection = None, mInaccessibleNodes = []\<rparr> = Some (Inr (), p') \<and>
      mPathCollection p' = Some c \<and> stored_paths_short c)"
proof -
  have k: "known_net (\<lambda>i. getAddressByID i sampleTopology)
     (mTopology \<lparr>mTopology = sampleTopology, mPathCollection = None, mInaccessibleNodes = []\<rparr>)"
    using sample_known by simp
  show ?thesis using build_paths_exhaustive [OF k, of "[1]" "''b''" 2] k by blast
qed

lemma rebuild_known:
  assumes "known_net (\<lambda>i. getAddressByID i (mTopology p)) (mTopology p)"
    and "getID contractorAddress (mTopology p) = (contractorID, t0)"
    and "t1 = makeFullyUsedTLsFromGatewaysToAllNodesExceptOne contractorID t0"
    and "getIDs inaccessibleNodes t1 = (new, t2)" and "outroom t1 < 2 ^ 256"
  shows "\<exists>p' c t'. reBuildPaths contractorAddress inaccessibleNodes p = Some (Inr (), p') \<and>
    mPathCollection p' = Some c \<and> mInaccessibleNodes p' = mInaccessibleNodes p @ new \<and>
    routes (afterPath (\<lambda>i. getAddressByID i t2)) (mInaccessibleNodes p @ new) contractorID 6
      (t2, newPathsCollection contractorAddress) (t', c) \<and>
    (\<forall>xs. xs \<noteq> [] \<longrightarrow> \<not> open_walk t' 0 6 contractorID (insert 0 (set (mInaccessibleNodes p @ new))) xs) \<and>
    stored_paths_short c \<and> (\<forall>s d. flowAmount s d (mTopology p') = flowAmount s d (mTopology p) \<and>
      used (mTopology p') s d = 0)"
proof -
  let ?c = "newPathsCollection contractorAddress" and ?blocked = "mInaccessibleNodes p @ new"
  note g = getID_same [where a = contractorAddress and t = "mTopology p", unfolded assms(2), simplified]
  note gs = getIDs_same [of inaccessibleNodes t1, unfolded assms(4), simplified]
  have "known_net (\<lambda>i. getAddressByID i t0) t0"
    using g by (intro same_lines_known [OF assms(1)]) auto
  then have net1: "known_net (\<lambda>i. getAddressByID i t0) t1" using known_net_prepared assms(3) by simp
  have net: "known_net (\<lambda>i. getAddressByID i t2) t2" "outroom t2 = outroom t1"
    using gs by (auto intro!: same_lines_known [OF net1])
  have flow: "flowAmount s d t2 = flowAmount s d (mTopology p)" for s d
  proof -
    have "flowAmount s d t2 = flowAmount s d t1" using gs by (simp add: flowAmount_def)
    also have "\<dots> = flowAmount s d t0"
      using prepared_ok [of t0 contractorID] \<open>known_net _ t0\<close> assms(3) by (simp add: known_net_def same_net_def)
    also have "\<dots> = flowAmount s d (mTopology p)" using g(3) by (simp add: flowAmount_def)
    finally show ?thesis .
  qed
  have small: "outroom t2 < 2 ^ 256" using net(2) assms(5) by simp
  obtain t' c' where l: "levels (reBuildPathsOnOneLevel ?blocked contractorID) [2..<kMaxPathLength + 1] (t2, ?c) =
      Some (Inr (), t', c')"
    "routes (afterPath (\<lambda>i. getAddressByID i t2)) ?blocked contractorID 6 (t2, ?c) (t', c')"
    "known_net (\<lambda>i. getAddressByID i t2) t'"
    "\<forall>xs. xs \<noteq> [] \<longrightarrow> \<not> open_walk t' 0 6 contractorID (insert 0 (set ?blocked)) xs"
    using rebuild_levels [OF net(1) small] by blast
  have reset: "flowAmount s d (resetAllUsedAmounts t) = flowAmount s d t" "used (resetAllUsedAmounts t) s d = 0"
    if "caps_ok t" for s d t
    using reset_ok [OF that, of s d] by (simp_all add: same_net_def)
  have short: "stored_paths_short c'"
    by (rule routes_paths_short [OF l(2)]) (simp add: stored_paths_short_def newPathsCollection_def)
  show ?thesis
  proof (cases "trustLinePtrsSet kCurrentNodeID t2 = []")
    case True
    then have "\<not> open_walk t2 0 6 contractorID (insert 0 (set ?blocked)) xs" if "xs \<noteq> []" for xs
      using that room_pos_line [of t2 0 "hd xs"] by (cases xs) (auto simp: open_walk_def kCurrentNodeID_def)
    moreover have "stored_paths_short ?c" by (simp add: stored_paths_short_def newPathsCollection_def)
    moreover have "caps_ok t2" using net(1) by (simp add: known_net_def)
    ultimately show ?thesis
      using True assms(2-4) flow reset
      by (intro exI [of _ "p\<lparr>mTopology := resetAllUsedAmounts t2, mPathCollection := Some ?c,
            mInaccessibleNodes := ?blocked\<rparr>"] exI [of _ ?c] exI [of _ t2]) (simp add: reBuildPaths_def Let_def)
  next
    case False
    have "caps_ok t'" "flowAmount s d t' = flowAmount s d t2" for s d
      using l(3) routes_facts [OF l(2)] by (simp_all add: known_net_def same_net_def)
    then show ?thesis
      using False assms(2-4) flow reset l short
      by (intro exI [of _ "p\<lparr>mTopology := resetAllUsedAmounts t', mPathCollection := Some c',
            mInaccessibleNodes := ?blocked\<rparr>"] exI [of _ c'] exI [of _ t']) (simp add: reBuildPaths_def Let_def)
  qed
qed

lemma rebuild_overused:
  assumes "getID contractorAddress (mTopology p) = (contractorID, t0)"
    and "getIDs inaccessibleNodes (makeFullyUsedTLsFromGatewaysToAllNodesExceptOne contractorID t0) = (new, t2)"
    and "firstLevel t2 = d # rest" and "lineBetween kCurrentNodeID d t2 = Some line"
    and "ttAmount line < ttUsedAmount line"
  shows "reBuildPaths contractorAddress inaccessibleNodes p = Some (Inl StdRangeError,
    p\<lparr>mTopology := t2, mPathCollection := Some (newPathsCollection contractorAddress),
      mInaccessibleNodes := mInaccessibleNodes p @ new\<rparr>)"
proof -
  have flow: "firstFlow search blocked (d # rest) (t2, c) = (Inl StdRangeError, t2, c)" for search blocked c
    using assms(4,5) by (simp add: freeAmount_def checked_sub_def)
  have "rebuildLoop search blocked (d # rest) acc (t2, c) = Some (Inl StdRangeError, t2, c)" for search blocked acc c
    by (subst rebuildLoop.simps) (simp add: flow del: firstFlow.simps)
  then have "reBuildPathsOnOneLevel blocked contractor n (t2, c) = Some (Inl StdRangeError, t2, c)" for blocked contractor n c
    using assms(3) by (simp add: reBuildPathsOnOneLevel_def)
  then have "levels (reBuildPathsOnOneLevel blocked contractor) [2..<kMaxPathLength + 1] (t2, c) =
      Some (Inl StdRangeError, t2, c)" for blocked contractor c
    by (simp add: kMaxPathLength_def upt_rec)
  moreover have "trustLinePtrsSet kCurrentNodeID t2 \<noteq> []" using assms(3) by auto
  ultimately show ?thesis using assms(1,2) by (simp add: reBuildPaths_def Let_def)
qed

text \<open>C31: rebuilding paths after nodes were found inaccessible. When every line is used within its amount,
  the nodes are known and the node's own lines have less than 2 to the 256 free together, it returns without
  an exception; the run takes no inaccessible node, neither the new ones nor those of earlier calls, and when
  it ends no walk of at most six lines around them has room left; the lines of the topology are as before
  and unused. When the node's first own line is used beyond its amount (the caller adds the flow of every
  earlier path without a limit), the rebuild throws a range error: no path is found, and the used amounts
  stay as they are.\<close>

theorem rebuild_paths_avoids:
  assumes "getID contractorAddress (mTopology p) = (contractorID, t0)"
    and "t1 = makeFullyUsedTLsFromGatewaysToAllNodesExceptOne contractorID t0"
    and "getIDs inaccessibleNodes t1 = (new, t2)"
  shows "(known_net (\<lambda>i. getAddressByID i (mTopology p)) (mTopology p) \<and> outroom t1 < 2 ^ 256 \<longrightarrow>
      (\<exists>p' c t'. reBuildPaths contractorAddress inaccessibleNodes p = Some (Inr (), p') \<and>
        mPathCollection p' = Some c \<and> mInaccessibleNodes p' = mInaccessibleNodes p @ new \<and>
        routes (afterPath (\<lambda>i. getAddressByID i t2)) (mInaccessibleNodes p @ new) contractorID 6
          (t2, newPathsCollection contractorAddress) (t', c) \<and>
        (\<forall>xs. xs \<noteq> [] \<longrightarrow> \<not> open_walk t' 0 6 contractorID (insert 0 (set (mInaccessibleNodes p @ new))) xs) \<and>
        stored_paths_short c \<and> (\<forall>s d. flowAmount s d (mTopology p') = flowAmount s d (mTopology p) \<and>
          used (mTopology p') s d = 0))) \<and>
    ((\<exists>d rest line. firstLevel t2 = d # rest \<and> lineBetween kCurrentNodeID d t2 = Some line \<and>
        ttAmount line < ttUsedAmount line) \<longrightarrow>
      reBuildPaths contractorAddress inaccessibleNodes p = Some (Inl StdRangeError,
        p\<lparr>mTopology := t2, mPathCollection := Some (newPathsCollection contractorAddress),
          mInaccessibleNodes := mInaccessibleNodes p @ new\<rparr>))"
proof (intro conjI impI, goal_cases)
  case 1
  then show ?case by (intro rebuild_known [OF _ assms]) simp_all
next
  case 2
  then obtain d rest line where "firstLevel t2 = d # rest" "lineBetween kCurrentNodeID d t2 = Some line"
    "ttAmount line < ttUsedAmount line" by (elim exE conjE) (rule that)
  then show ?case using rebuild_overused [OF assms(1)] assms(2,3) by simp
qed

definition overusedTopology :: Topology where
  "overusedTopology = sampleTopology\<lparr>msTrustLines :=
     [(0, [(newTopologyTrustLine 0 1 100)\<lparr>ttUsedAmount := 101\<rparr>]), (1, [newTopologyTrustLine 1 2 70])]\<rparr>"

theorem rebuild_paths_avoids_witness:
  "known_net (\<lambda>i. getAddressByID i sampleTopology) sampleTopology \<and>
   (\<exists>p' c. reBuildPaths ''b'' [''a'']
        \<lparr>mTopology = sampleTopology, mPathCollection = None, mInaccessibleNodes = []\<rparr> = Some (Inr (), p') \<and>
      mPathCollection p' = Some c \<and> mInaccessibleNodes p' = [1]) \<and>
   (\<exists>p'. reBuildPaths ''b'' [''a'']
        \<lparr>mTopology = overusedTopology, mPathCollection = None, mInaccessibleNodes = []\<rparr> = Some (Inl StdRangeError, p'))"
proof (intro conjI)
  let ?p = "\<lparr>mTopology = sampleTopology, mPathCollection = None, mInaccessibleNodes = []\<rparr>"
  show k: "known_net (\<lambda>i. getAddressByID i sampleTopology) sampleTopology" by (rule sample_known)
  have b: "getID ''b'' (mTopology ?p) = (2, sampleTopology)" by (simp add: getID_def sampleTopology_def)
  have t: "makeFullyUsedTLsFromGatewaysToAllNodesExceptOne 2 sampleTopology = sampleTopology"
    by (simp add: makeFullyUsedTLsFromGatewaysToAllNodesExceptOne_def sampleTopology_def)
  have a: "getIDs [''a''] sampleTopology = ([1], sampleTopology)" by (simp add: getID_def sampleTopology_def)
  have o: "outroom sampleTopology < 2 ^ 256"
    using sample_flow(1) unfolding t by (simp add: flow_net_def)
  show "\<exists>p' c. reBuildPaths ''b'' [''a''] ?p = Some (Inr (), p') \<and> mPathCollection p' = Some c \<and>
      mInaccessibleNodes p' = [1]"
    using rebuild_paths_avoids [OF b t [symmetric] a] k o by fastforce
  let ?q = "\<lparr>mTopology = overusedTopology, mPathCollection = None, mInaccessibleNodes = []\<rparr>"
  have b: "getID ''b'' (mTopology ?q) = (2, overusedTopology)"
    by (simp add: getID_def overusedTopology_def sampleTopology_def)
  have t: "overusedTopology = makeFullyUsedTLsFromGatewaysToAllNodesExceptOne 2 overusedTopology"
    by (simp add: makeFullyUsedTLsFromGatewaysToAllNodesExceptOne_def overusedTopology_def sampleTopology_def)
  have a: "getIDs [''a''] overusedTopology = ([1], overusedTopology)"
    by (simp add: getID_def overusedTopology_def sampleTopology_def)
  have "firstLevel overusedTopology = [1]"
    "lineBetween kCurrentNodeID 1 overusedTopology = Some ((newTopologyTrustLine 0 1 100)\<lparr>ttUsedAmount := 101\<rparr>)"
    by (simp_all add: overusedTopology_def lineBetween_def trustLinePtrsSet_def newTopologyTrustLine_def kCurrentNodeID_def)
  moreover have "ttAmount ((newTopologyTrustLine 0 1 100)\<lparr>ttUsedAmount := 101\<rparr>) < 101"
    by (simp add: newTopologyTrustLine_def)
  ultimately show "\<exists>p'. reBuildPaths ''b'' [''a''] ?q = Some (Inl StdRangeError, p')"
    using rebuild_paths_avoids [OF b t a] by fastforce
qed

text \<open>C30: max flow. When the node's own lines can carry less than 2 to the 256 together, \<open>calculateMaxFlow\<close>
  returns without an exception. The result is exactly what its run has taken from the node's own lines,
  never more than they can carry; every flow of the run respects the capacities, and when it ends no walk
  of at most \<open>maxPathLength\<close> lines to the contractor has room left.\<close>

theorem max_flow_exhaustive:
  assumes "t = makeFullyUsedTLsFromGatewaysToAllNodesExceptOne contractorID t0"
    and "flow_net t 0" and "caps_ok t0" and "set lines = set (outOf t0 0)" and "0 < maxPathLength"
  shows "\<exists>maxFlow t' t1. calculateMaxFlow lines maxPathLength contractorID t0 = Some (Inr maxFlow, t') \<and>
    routes afterFlow [] contractorID maxPathLength (t, 0) (t1, maxFlow) \<and> caps_ok t1 \<and>
    maxFlow + outroom t1 = outroom t \<and>
    (\<forall>xs. xs \<noteq> [] \<longrightarrow> \<not> open_walk t1 0 maxPathLength contractorID {0} xs) \<and>
    same_net t0 t' \<and> (\<forall>s d. used t' s d = 0)"
proof -
  have same: "same_net t0 t" using prepared_ok [OF assms(3)] assms(1) by simp
  then have lines: "set lines = set (outOf t 0)" using assms(4) by (simp add: same_net_def)
  obtain t1 maxFlow where l: "levels (calculateMaxFlowOnOneLevel lines contractorID) [1..<maxPathLength + 1] (t, 0) =
      Some (Inr (), t1, maxFlow)"
    "routes afterFlow [] contractorID maxPathLength (t, 0) (t1, maxFlow)" "flow_net t1 maxFlow"
    "\<forall>xs. xs \<noteq> [] \<longrightarrow> \<not> open_walk t1 0 maxPathLength contractorID {0} xs"
    using flow_levels [OF assms(2) lines assms(5)] by blast
  have fin: "same_net t0 (resetAllUsedAmounts u)" "used (resetAllUsedAmounts u) s d = 0"
    if "same_net t0 u" "caps_ok u" for s d u
    using reset_ok [OF that(2), of s d] same_net_trans [OF that(1)] by blast+
  show ?thesis
  proof (cases "lines = []")
    case True
    then have "\<not> open_walk t 0 maxPathLength contractorID {0} xs" if "xs \<noteq> []" for xs
      using that lines room_pos_line [of t 0 "hd xs"] by (cases xs) (auto simp: open_walk_def)
    then show ?thesis
      using True fin [OF same] assms(1,2)
      by (intro exI [of _ 0] exI [of _ "resetAllUsedAmounts t"] exI [of _ t])
        (simp add: calculateMaxFlow_def flow_net_def)
  next
    case False
    have "caps_ok t1" "same_net t0 t1"
      using l(3) routes_facts [OF l(2)] same_net_trans [OF same] by (simp_all add: flow_net_def)
    then show ?thesis
      using False l routes_flow_sum [OF l(2)] fin [of t1] assms(1)
      by (intro exI [of _ maxFlow] exI [of _ "resetAllUsedAmounts t1"] exI [of _ t1])
        (simp add: calculateMaxFlow_def)
  qed
qed

theorem max_flow_exhaustive_witness:
  "set [1] = set (outOf sampleTopology 0) \<and>
   (\<exists>maxFlow t'. calculateMaxFlow [1] 6 2 sampleTopology = Some (Inr maxFlow, t') \<and> maxFlow \<le> 100)"
proof -
  have caps: "caps_ok sampleTopology" using sample_known by (simp add: known_net_def)
  have t: "makeFullyUsedTLsFromGatewaysToAllNodesExceptOne 2 sampleTopology = sampleTopology"
    by (simp add: makeFullyUsedTLsFromGatewaysToAllNodesExceptOne_def sampleTopology_def)
  have o: "outroom sampleTopology = 100"
    by (simp add: outroom_def sampleTopology_def trustLinePtrsSet_def newTopologyTrustLine_def room_def flowAmount_def
        used_def lineBetween_def)
  show ?thesis
    using max_flow_exhaustive [OF refl sample_flow(1) caps sample_flow(2), of 6] sample_flow(2)
    unfolding t o by fastforce
qed

end
