(* ===== verification/Cycles.thy ===== *)
theory Cycles
  imports Scheduler Paths "HOL-Library.Char_ord" "HOL-Library.List_Lexorder"
begin

text \<open>
  Closing cycles of debts: \<^verbatim>\<open>src/src/core/cycles/CyclesManager.cpp\<close> and
  \<^verbatim>\<open>src/src/core/cycles/RoutingTableManager.cpp\<close>.

  The cycles found by other transactions are queued by their length; \<open>closeOneCycle\<close> hands the next one to
  the transactions manager. The slot behind \<open>closeCycleSignal\<close> is a parameter: it starts a transaction
  (\<open>Inr True\<close>), does nothing (\<open>Inr False\<close>), or throws. Conflicts between two cycle closing transactions
  over a reservation are resolved on the transactions of the \<open>Scheduler\<close>.
\<close>

section \<open>The queues\<close>

datatype CycleClosingState = ThreeNodes | FourNodes | FiveNodes | SixNodes

record CyclesRunningParameters =
  mCyclesThreeNodesEnabled :: bool
  mCyclesFourNodesEnabled :: bool
  mCyclesFiveNodesEnabled :: bool
  mCyclesFiveNodesIntervalSec :: "32 word"
  mCyclesSixNodesEnabled :: bool
  mCyclesSixNodesIntervalSec :: "32 word"
  mRoutingTableUpdatingIntervalDays :: "16 word"

definition isUpdateRoutingTables :: "CyclesRunningParameters \<Rightarrow> bool" where
  "isUpdateRoutingTables ps \<longleftrightarrow> mCyclesThreeNodesEnabled ps \<or> mCyclesFourNodesEnabled ps"

datatype CyclesSignal = CloseCycle Path | BuildFiveNodesCycles | BuildSixNodesCycles

text \<open>Timers are their deadlines, \<open>None\<close> for one that was never made.\<close>

record CyclesManager =
  mCyclesRunningParameters :: CyclesRunningParameters
  mThreeNodesCycles :: "Path list"
  mFourNodesCycles :: "Path list"
  mFiveNodesCycles :: "Path list"
  mSixNodesCycles :: "Path list"
  mClosedTrustLines :: "(DateTime \<times> string \<times> string) list"
  mOfflineNodes :: "(DateTime \<times> string) list"
  mCurrentCycleClosingState :: CycleClosingState
  mSixNodesCycleTimer :: "DateTime option"
  mFiveNodesCycleTimer :: "DateTime option"
  mUpdatingTimer :: DateTime
  mIsCycleInProcess :: bool
  cycleSignals :: "CyclesSignal list"

definition kUpdatingTimerPeriodSeconds :: int where
  "kUpdatingTimerPeriodSeconds = 10 * 60"

definition kOfflineNodesAndClosedTLLiveDuration :: int where
  "kOfflineNodesAndClosedTLLiveDuration = 30 * 60 * 1000000"

definition secondsFromNow :: "DateTime \<Rightarrow> int \<Rightarrow> DateTime" where
  "secondsFromNow now s = now + s * 1000000"

text \<open>\<open>r5\<close> and \<open>r6\<close> are what \<^verbatim>\<open>rand()\<close> answers.\<close>

definition newCyclesManager :: "CyclesRunningParameters \<Rightarrow> DateTime \<Rightarrow> nat \<Rightarrow> nat \<Rightarrow> CyclesManager" where
  "newCyclesManager ps now r5 r6 =
     \<lparr>mCyclesRunningParameters = ps, mThreeNodesCycles = [], mFourNodesCycles = [], mFiveNodesCycles = [],
      mSixNodesCycles = [], mClosedTrustLines = [], mOfflineNodes = [], mCurrentCycleClosingState = ThreeNodes,
      mSixNodesCycleTimer =
        (if mCyclesSixNodesEnabled ps
         then Some (secondsFromNow now (int (10 * 60 + r6 mod (60 * 60 * 6)))) else None),
      mFiveNodesCycleTimer =
        (if mCyclesFiveNodesEnabled ps
         then Some (secondsFromNow now (int (10 * 60 + r5 mod (60 * 60 * 6)))) else None),
      mUpdatingTimer = secondsFromNow now kUpdatingTimerPeriodSeconds,
      mIsCycleInProcess = False, cycleSignals = []\<rparr>"

text \<open>\<open>allowed\<close> is \<^verbatim>\<open>isRunCycleClosingTransactions()\<close>.\<close>

definition addCycle :: "bool \<Rightarrow> Path \<Rightarrow> CyclesManager \<Rightarrow> unit result \<times> CyclesManager" where
  "addCycle allowed cycle cm =
     (if \<not> allowed then returning () cm
      else if length cycle = 2 then returning () (cm\<lparr>mThreeNodesCycles := mThreeNodesCycles cm @ [cycle]\<rparr>)
      else if length cycle = 3 then returning () (cm\<lparr>mFourNodesCycles := mFourNodesCycles cm @ [cycle]\<rparr>)
      else if length cycle = 4 then returning () (cm\<lparr>mFiveNodesCycles := mFiveNodesCycles cm @ [cycle]\<rparr>)
      else if length cycle = 5 then returning () (cm\<lparr>mSixNodesCycles := mSixNodesCycles cm @ [cycle]\<rparr>)
      else throwing ValueError cm)"

text \<open>\<^verbatim>\<open>cyclesVector\<close> returns a pointer: reading and writing the queue of a state.\<close>

primrec cyclesVector :: "CycleClosingState \<Rightarrow> CyclesManager \<Rightarrow> Path list" where
  "cyclesVector ThreeNodes cm = mThreeNodesCycles cm"
| "cyclesVector FourNodes cm = mFourNodesCycles cm"
| "cyclesVector FiveNodes cm = mFiveNodesCycles cm"
| "cyclesVector SixNodes cm = mSixNodesCycles cm"

primrec setCyclesVector :: "CycleClosingState \<Rightarrow> Path list \<Rightarrow> CyclesManager \<Rightarrow> CyclesManager" where
  "setCyclesVector ThreeNodes cs cm = cm\<lparr>mThreeNodesCycles := cs\<rparr>"
| "setCyclesVector FourNodes cs cm = cm\<lparr>mFourNodesCycles := cs\<rparr>"
| "setCyclesVector FiveNodes cs cm = cm\<lparr>mFiveNodesCycles := cs\<rparr>"
| "setCyclesVector SixNodes cs cm = cm\<lparr>mSixNodesCycles := cs\<rparr>"

primrec incremented :: "CycleClosingState \<Rightarrow> CycleClosingState" where
  "incremented ThreeNodes = FourNodes"
| "incremented FourNodes = FiveNodes"
| "incremented FiveNodes = SixNodes"
| "incremented SixNodes = ThreeNodes"

definition incrementCurrentCycleClosingState :: "CyclesManager \<Rightarrow> CyclesManager" where
  "incrementCurrentCycleClosingState cm =
     cm\<lparr>mCurrentCycleClosingState := incremented (mCurrentCycleClosingState cm)\<rparr>"

section \<open>Closed lines and offline nodes\<close>

text \<open>\<^verbatim>\<open>std::map::insert\<close> keeps what the key has.\<close>

definition insertAt :: "'k::linorder \<Rightarrow> 'v \<Rightarrow> ('k \<times> 'v) list \<Rightarrow> ('k \<times> 'v) list" where
  "insertAt k v m = (if k \<in> set (keys m) then m else ordUpdate k v m)"

definition addClosedTrustLine :: "DateTime \<Rightarrow> string \<Rightarrow> string \<Rightarrow> CyclesManager \<Rightarrow> CyclesManager" where
  "addClosedTrustLine now source destination cm =
     cm\<lparr>mClosedTrustLines := insertAt now (source, destination) (mClosedTrustLines cm)\<rparr>"

definition addOfflineNode :: "DateTime \<Rightarrow> string \<Rightarrow> CyclesManager \<Rightarrow> CyclesManager" where
  "addOfflineNode now nodeAddress cm =
     cm\<lparr>mOfflineNodes := insertAt now nodeAddress (mOfflineNodes cm)\<rparr>"

fun removeCyclesWithClosedTrustLine :: "string \<Rightarrow> string \<Rightarrow> Path list \<Rightarrow> Path list result" where
  "removeCyclesWithClosedTrustLine s d [] = Inr []"
| "removeCyclesWithClosedTrustLine s d (c # cs) =
     bindR (containsTrustLine s d c) (\<lambda>contains.
       bindR (removeCyclesWithClosedTrustLine s d cs) (\<lambda>cs.
         Inr (if contains then cs else c # cs)))"

definition removeCyclesWithOfflineNode :: "string \<Rightarrow> Path list \<Rightarrow> Path list" where
  "removeCyclesWithOfflineNode offlineNode cs = filter (\<lambda>c. positionOfNode offlineNode c < 0) cs"

text \<open>One closed line and one offline node, the oldest, are taken into account per call.\<close>

definition clearClosedTrustLine :: "CyclesManager \<Rightarrow> unit result \<times> CyclesManager" where
  "clearClosedTrustLine cm =
     (case mClosedTrustLines cm of
        [] \<Rightarrow> returning () cm
      | (_, s, d) # rest \<Rightarrow>
          foldl (\<lambda>r state. bindS r (\<lambda>_ cm.
              case removeCyclesWithClosedTrustLine s d (cyclesVector state cm) of
                Inl e \<Rightarrow> throwing e cm
              | Inr cs \<Rightarrow> returning () (setCyclesVector state cs cm)))
            (returning () (cm\<lparr>mClosedTrustLines := rest\<rparr>))
            [ThreeNodes, FourNodes, FiveNodes, SixNodes])"

definition clearOfflineNode :: "CyclesManager \<Rightarrow> CyclesManager" where
  "clearOfflineNode cm =
     (case mOfflineNodes cm of
        [] \<Rightarrow> cm
      | (_, node) # rest \<Rightarrow>
          foldl (\<lambda>cm state. setCyclesVector state (removeCyclesWithOfflineNode node (cyclesVector state cm)) cm)
            (cm\<lparr>mOfflineNodes := rest\<rparr>) [ThreeNodes, FourNodes, FiveNodes, SixNodes])"

definition clearClosedCycles :: "CyclesManager \<Rightarrow> unit result \<times> CyclesManager" where
  "clearClosedCycles cm = bindS (clearClosedTrustLine cm) (\<lambda>_ cm. returning () (clearOfflineNode cm))"

section \<open>Closing\<close>

type_synonym CloseCycleSlot = "Path \<Rightarrow> bool result"

definition place :: "CycleClosingState \<Rightarrow> nat" where
  "place st = (case st of ThreeNodes \<Rightarrow> 0 | FourNodes \<Rightarrow> 1 | FiveNodes \<Rightarrow> 2 | SixNodes \<Rightarrow> 3)"

function closeLoop ::
  "CloseCycleSlot \<Rightarrow> CycleClosingState \<Rightarrow> CyclesManager \<Rightarrow> unit result \<times> CyclesManager" where
  "closeLoop slot start cm =
     (case cyclesVector (mCurrentCycleClosingState cm) cm of
        cycle # rest \<Rightarrow>
          (let cm = setCyclesVector (mCurrentCycleClosingState cm) rest cm
           in case slot cycle of
                Inl e \<Rightarrow> throwing e cm
              | Inr _ \<Rightarrow> returning () (cm\<lparr>mIsCycleInProcess := True,
                                        cycleSignals := cycleSignals cm @ [CloseCycle cycle]\<rparr>))
      | [] \<Rightarrow>
          (let cm = incrementCurrentCycleClosingState cm
           in if mCurrentCycleClosingState cm \<noteq> start then closeLoop slot start cm
              else returning () (cm\<lparr>mIsCycleInProcess := False\<rparr>)))"
  by pat_completeness auto

termination
proof (relation "measure (\<lambda>(slot, start, cm).
    if mCurrentCycleClosingState cm = start then 4
    else (place start + 4 - place (mCurrentCycleClosingState cm)) mod 4)")
  fix slot start cm x
  assume "cyclesVector (mCurrentCycleClosingState cm) cm = []" "x = incrementCurrentCycleClosingState cm"
    "mCurrentCycleClosingState x \<noteq> start"
  then show "((slot, start, x), slot, start, cm) \<in> measure (\<lambda>(slot, start, cm).
    if mCurrentCycleClosingState cm = start then 4
    else (place start + 4 - place (mCurrentCycleClosingState cm)) mod 4)"
    by (cases "mCurrentCycleClosingState cm"; cases start)
      (simp_all add: incrementCurrentCycleClosingState_def place_def)
qed simp

declare closeLoop.simps [simp del]

definition closeOneCycle ::
  "bool \<Rightarrow> CloseCycleSlot \<Rightarrow> bool \<Rightarrow> CyclesManager \<Rightarrow> unit result \<times> CyclesManager" where
  "closeOneCycle allowed slot nextCycleShouldBeRunned cm =
     (if \<not> allowed then returning () cm
      else
        (let cm = (if nextCycleShouldBeRunned then cm\<lparr>mIsCycleInProcess := False\<rparr> else cm)
         in bindS (clearClosedCycles cm) (\<lambda>_ cm.
              if mIsCycleInProcess cm then returning () cm
              else closeLoop slot (mCurrentCycleClosingState cm) cm)))"

section \<open>Timers\<close>

definition runSignalFiveNodes :: "DateTime \<Rightarrow> CyclesManager \<Rightarrow> CyclesManager" where
  "runSignalFiveNodes now cm =
     cm\<lparr>mFiveNodesCycleTimer :=
          Some (secondsFromNow now (uint (mCyclesFiveNodesIntervalSec (mCyclesRunningParameters cm)))),
        cycleSignals := cycleSignals cm @ [BuildFiveNodesCycles]\<rparr>"

definition runSignalSixNodes :: "DateTime \<Rightarrow> CyclesManager \<Rightarrow> CyclesManager" where
  "runSignalSixNodes now cm =
     cm\<lparr>mSixNodesCycleTimer :=
          Some (secondsFromNow now (uint (mCyclesSixNodesIntervalSec (mCyclesRunningParameters cm)))),
        cycleSignals := cycleSignals cm @ [BuildSixNodesCycles]\<rparr>"

text \<open>
  Both loops erase from the map they iterate over: after the first erased entry the iterator is invalid.
\<close>

definition updateOfflineNodesAndClosedTLLists :: "DateTime \<Rightarrow> CyclesManager \<Rightarrow> unit result \<times> CyclesManager" where
  "updateOfflineNodesAndClosedTLLists now cm =
     (let cm = cm\<lparr>mUpdatingTimer := secondsFromNow now kUpdatingTimerPeriodSeconds\<rparr>
      in case mOfflineNodes cm of
        (time, _) # rest \<Rightarrow>
          if now - time > kOfflineNodesAndClosedTLLiveDuration
          then throwing UndefinedBehaviour (cm\<lparr>mOfflineNodes := rest\<rparr>)
          else (case mClosedTrustLines cm of
                  (time, _) # rest \<Rightarrow>
                    if now - time > kOfflineNodesAndClosedTLLiveDuration
                    then throwing UndefinedBehaviour (cm\<lparr>mClosedTrustLines := rest\<rparr>)
                    else returning () cm
                | [] \<Rightarrow> returning () cm)
      | [] \<Rightarrow>
          (case mClosedTrustLines cm of
             (time, _) # rest \<Rightarrow>
               if now - time > kOfflineNodesAndClosedTLLiveDuration
               then throwing UndefinedBehaviour (cm\<lparr>mClosedTrustLines := rest\<rparr>)
               else returning () cm
           | [] \<Rightarrow> returning () cm))"

section \<open>Conflicts over reservations\<close>

definition Common_Voting_step :: nat where
  "Common_Voting_step = 17"

definition Common_VotesChecking_step :: nat where
  "Common_VotesChecking_step = 18"

definition Common_Recovery_step :: nat where
  "Common_Recovery_step = 20"

definition Common_Observing_step :: nat where
  "Common_Observing_step = 21"

definition Common_RollbackByOtherTransaction_step :: nat where
  "Common_RollbackByOtherTransaction_step = 23"

definition isVotingStage_tx :: "Transaction \<Rightarrow> bool" where
  "isVotingStage_tx tx \<longleftrightarrow>
     txStep tx = Common_Voting_step \<or> txStep tx = Common_VotesChecking_step \<or> txStep tx = Common_Recovery_step"

definition isCycleTransaction :: "Transaction \<Rightarrow> bool" where
  "isCycleTransaction tx \<longleftrightarrow> txType tx = Payments_CycleCloserInitiatorTransaction \<or>
     txType tx = Payments_CycleCloserIntermediateNodeTransaction"

text \<open>
  \<open>cycleLength\<close> is the virtual method; a coordinator that is a null pointer is dereferenced. Addresses
  are compared as \<^verbatim>\<open>std::string\<close>s.
\<close>

definition isChallengerTransactionWinReservation ::
  "(Transaction \<Rightarrow> 8 word) \<Rightarrow> Transaction \<Rightarrow> Transaction \<Rightarrow> bool result" where
  "isChallengerTransactionWinReservation cycleLength challenger reserved =
     (case (txCoordinator challenger, txCoordinator reserved) of
        (Some c, Some r) \<Rightarrow>
          Inr (if \<not> isCycleTransaction reserved then False
               else if isVotingStage_tx reserved then False
               else if cycleLength challenger \<noteq> cycleLength reserved
                    then cycleLength challenger > cycleLength reserved
               else c > r)
      | _ \<Rightarrow> Inl UndefinedBehaviour)"

definition setTransactionState :: "nat \<Rightarrow> nat \<Rightarrow> Scheduler \<Rightarrow> Scheduler" where
  "setTransactionState r transactionStage s =
     (case map_of (mTransactions s) r of
        None \<Rightarrow> s
      | Some (tx, st) \<Rightarrow>
          s\<lparr>mTransactions := ordUpdate r (tx\<lparr>txStep := transactionStage\<rparr>, st) (mTransactions s)\<rparr>)"

definition transactionAt :: "nat \<Rightarrow> Scheduler \<Rightarrow> Transaction result" where
  "transactionAt r s =
     (case map_of (mTransactions s) r of None \<Rightarrow> Inl UndefinedBehaviour | Some (tx, st) \<Rightarrow> Inr tx)"

definition catchNotFound :: "bool result \<times> Scheduler \<Rightarrow> bool result \<times> Scheduler" where
  "catchNotFound r = (case r of (Inl NotFoundError, s) \<Rightarrow> returning False s | _ \<Rightarrow> r)"

definition resolveReservationConflict ::
  "(Transaction \<Rightarrow> 8 word) \<Rightarrow> TransactionUUID \<Rightarrow> TransactionUUID \<Rightarrow> Scheduler \<Rightarrow> bool result \<times> Scheduler" where
  "resolveReservationConflict cycleLength challengerUUID reservedUUID s =
     catchNotFound
       (case bindR (cycleClosingTransactionByUUID challengerUUID s) (\<lambda>c.
             bindR (cycleClosingTransactionByUUID reservedUUID s) (\<lambda>r.
             bindR (transactionAt c s) (\<lambda>challenger.
             bindR (transactionAt r s) (\<lambda>reserved.
             bindR (isChallengerTransactionWinReservation cycleLength challenger reserved) (\<lambda>wins.
               Inr (r, reserved, wins)))))) of
          Inl e \<Rightarrow> throwing e s
        | Inr (r, reserved, wins) \<Rightarrow>
            if wins
            then bindS (awakeTransaction (txUUID reserved)
                          (setTransactionState r Common_RollbackByOtherTransaction_step s))
                   (\<lambda>_ s. returning True s)
            else returning False s)"

definition isTransactionStillAlive :: "TransactionUUID \<Rightarrow> Scheduler \<Rightarrow> bool result" where
  "isTransactionStillAlive transactionUUID s =
     (case cycleClosingTransactionByUUID transactionUUID s of
        Inr _ \<Rightarrow> Inr True
      | Inl NotFoundError \<Rightarrow> Inr False
      | Inl e \<Rightarrow> Inl e)"

section \<open>The routing table\<close>

type_synonym RoutingTable = "(ContractorID \<times> string list) list"

definition updateMapAddSeveralNeighbors :: "ContractorID \<Rightarrow> string list \<Rightarrow> RoutingTable \<Rightarrow> RoutingTable" where
  "updateMapAddSeveralNeighbors firstLevelContractor secondLevelContractors rt =
     ordUpdate firstLevelContractor secondLevelContractors rt"

text \<open>\<^verbatim>\<open>operator[]\<close> adds an empty entry for a contractor that has none.\<close>

definition secondLevelContractorsForNode :: "ContractorID \<Rightarrow> RoutingTable \<Rightarrow> string list \<times> RoutingTable" where
  "secondLevelContractorsForNode contractorID rt =
     (case map_of rt contractorID of
        Some contractors \<Rightarrow> (contractors, rt)
      | None \<Rightarrow> ([], ordUpdate contractorID [] rt))"

definition clearMap :: "RoutingTable \<Rightarrow> RoutingTable" where
  "clearMap rt = []"

section \<open>Well formed queues\<close>

text \<open>A cycle lists the other nodes: the cycles of state \<open>st\<close> have \<open>place st + 2\<close> of them.\<close>

definition cycles_ok :: "CyclesManager \<Rightarrow> bool" where
  "cycles_ok cm \<longleftrightarrow> (\<forall>st. \<forall>c \<in> set (cyclesVector st cm). length c = place st + 2)"

abbreviation states :: "CycleClosingState list" where
  "states \<equiv> [ThreeNodes, FourNodes, FiveNodes, SixNodes]"

lemma cyclesVector_set [simp]:
  "cyclesVector st (setCyclesVector st' cs cm) = (if st = st' then cs else cyclesVector st cm)"
  by (cases st; cases st') simp_all

lemma queues_other [simp]:
  "cyclesVector st (cm\<lparr>mClosedTrustLines := a\<rparr>) = cyclesVector st cm"
  "cyclesVector st (cm\<lparr>mOfflineNodes := b\<rparr>) = cyclesVector st cm"
  "cyclesVector st (cm\<lparr>mIsCycleInProcess := i\<rparr>) = cyclesVector st cm"
  "cyclesVector st (cm\<lparr>mCurrentCycleClosingState := c\<rparr>) = cyclesVector st cm"
  "cyclesVector st (cm\<lparr>cycleSignals := s\<rparr>) = cyclesVector st cm"
  "cyclesVector st (cm\<lparr>mFiveNodesCycleTimer := t\<rparr>) = cyclesVector st cm"
  "cyclesVector st (cm\<lparr>mSixNodesCycleTimer := t\<rparr>) = cyclesVector st cm"
  "cyclesVector st (cm\<lparr>mUpdatingTimer := u\<rparr>) = cyclesVector st cm"
  by (cases st; simp)+

lemma others_queue [simp]:
  "mIsCycleInProcess (setCyclesVector st cs cm) = mIsCycleInProcess cm"
  "cycleSignals (setCyclesVector st cs cm) = cycleSignals cm"
  "mCurrentCycleClosingState (setCyclesVector st cs cm) = mCurrentCycleClosingState cm"
  "mClosedTrustLines (setCyclesVector st cs cm) = mClosedTrustLines cm"
  "mOfflineNodes (setCyclesVector st cs cm) = mOfflineNodes cm"
  by (cases st; simp)+

lemma all_states: "(\<forall>st. P st) \<longleftrightarrow> (\<forall>st \<in> set states. P st)"
  by (metis (full_types) CycleClosingState.exhaust list.set_intros)

definition hasLine :: "string \<Rightarrow> string \<Rightarrow> Path \<Rightarrow> bool" where
  "hasLine s d c \<longleftrightarrow> (s, d) \<in> set (zip c (tl c))"

lemma removeCyclesWithClosedTrustLine_filter:
  "\<forall>c \<in> set cs. c \<noteq> [] \<Longrightarrow> removeCyclesWithClosedTrustLine s d cs = Inr (filter (\<lambda>c. \<not> hasLine s d c) cs)"
  by (induction cs) (auto simp: containsTrustLine_def hasLine_def list_ex_iff)

lemma positionOfNode_neg: "positionOfNode node c < 0 \<longleftrightarrow> node \<notin> set c"
proof (cases "find (\<lambda>it. fst it = node) (zip c [0..<length c])")
  case None
  then have "node \<notin> set c" by (auto simp: find_None_iff set_zip in_set_conv_nth)
  then show ?thesis using None by (simp add: positionOfNode_def)
next
  case (Some it)
  then have "it \<in> set (zip c [0..<length c])" "fst it = node" by (auto dest: find_SomeD)
  then have "node \<in> set c" by (metis prod.collapse set_zip_leftD)
  then show ?thesis using Some by (simp add: positionOfNode_def)
qed

text \<open>What remains of a queue after one closed line and one offline node.\<close>

definition survives :: "CyclesManager \<Rightarrow> Path \<Rightarrow> bool" where
  "survives cm c \<longleftrightarrow>
     (case mClosedTrustLines cm of [] \<Rightarrow> True | (_, s, d) # _ \<Rightarrow> \<not> hasLine s d c) \<and>
     (case mOfflineNodes cm of [] \<Rightarrow> True | (_, node) # _ \<Rightarrow> node \<notin> set c)"

lemma cycles_nonempty: "cycles_ok cm \<Longrightarrow> \<forall>c \<in> set (cyclesVector st cm). c \<noteq> []"
  by (fastforce simp: cycles_ok_def)

lemma clearClosedTrustLine_exact:
  assumes "cycles_ok cm"
  obtains cm' where "clearClosedTrustLine cm = (Inr (), cm')"
    "\<And>st. cyclesVector st cm' = filter (\<lambda>c. case mClosedTrustLines cm of [] \<Rightarrow> True | (_, s, d) # _ \<Rightarrow> \<not> hasLine s d c)
      (cyclesVector st cm)"
    "mClosedTrustLines cm' = drop 1 (mClosedTrustLines cm)" "mOfflineNodes cm' = mOfflineNodes cm"
    "mIsCycleInProcess cm' = mIsCycleInProcess cm" "cycleSignals cm' = cycleSignals cm"
    "mCurrentCycleClosingState cm' = mCurrentCycleClosingState cm"
proof (cases "mClosedTrustLines cm")
  case Nil
  then show ?thesis using that [of cm] by (simp add: clearClosedTrustLine_def)
next
  case (Cons x rest)
  obtain time s d where x: "x = (time, s, d)" by (cases x)
  note f = removeCyclesWithClosedTrustLine_filter [OF cycles_nonempty [OF assms], where s = s and d = d]
  let ?F = "\<lambda>st. setCyclesVector st (filter (\<lambda>c. \<not> hasLine s d c) (cyclesVector st cm))"
  let ?cm = "?F SixNodes (?F FiveNodes (?F FourNodes (?F ThreeNodes (cm\<lparr>mClosedTrustLines := rest\<rparr>))))"
  have "clearClosedTrustLine cm = (Inr (), ?cm)"
    using f [of ThreeNodes] f [of FourNodes] f [of FiveNodes] f [of SixNodes] Cons x
    by (simp add: clearClosedTrustLine_def)
  moreover have "cyclesVector st ?cm = filter (\<lambda>c. \<not> hasLine s d c) (cyclesVector st cm)" for st
    by (cases st) simp_all
  ultimately show ?thesis using that [of ?cm] Cons x by simp
qed

lemma clearClosedCycles_exact:
  assumes "cycles_ok cm"
  obtains cm' where "clearClosedCycles cm = (Inr (), cm')"
    "\<And>st. cyclesVector st cm' = filter (survives cm) (cyclesVector st cm)"
    "mClosedTrustLines cm' = drop 1 (mClosedTrustLines cm)" "mOfflineNodes cm' = drop 1 (mOfflineNodes cm)"
    "mIsCycleInProcess cm' = mIsCycleInProcess cm" "cycleSignals cm' = cycleSignals cm"
    "mCurrentCycleClosingState cm' = mCurrentCycleClosingState cm"
proof -
  obtain c1 where c1: "clearClosedTrustLine cm = (Inr (), c1)"
    "\<And>st. cyclesVector st c1 = filter (\<lambda>c. case mClosedTrustLines cm of [] \<Rightarrow> True | (_, s, d) # _ \<Rightarrow> \<not> hasLine s d c)
      (cyclesVector st cm)"
    "mClosedTrustLines c1 = drop 1 (mClosedTrustLines cm)" "mOfflineNodes c1 = mOfflineNodes cm"
    "mIsCycleInProcess c1 = mIsCycleInProcess cm" "cycleSignals c1 = cycleSignals cm"
    "mCurrentCycleClosingState c1 = mCurrentCycleClosingState cm"
    using clearClosedTrustLine_exact [OF assms] by blast
  have q: "cyclesVector st (clearOfflineNode c1) =
      filter (\<lambda>c. case mOfflineNodes cm of [] \<Rightarrow> True | (_, node) # _ \<Rightarrow> node \<notin> set c) (cyclesVector st c1)" for st
    using c1(4) by (cases st; cases "mOfflineNodes cm")
      (auto simp: clearOfflineNode_def removeCyclesWithOfflineNode_def positionOfNode_neg split: prod.splits)
  have o: "mClosedTrustLines (clearOfflineNode c1) = mClosedTrustLines c1"
    "mOfflineNodes (clearOfflineNode c1) = drop 1 (mOfflineNodes c1)"
    "mIsCycleInProcess (clearOfflineNode c1) = mIsCycleInProcess c1"
    "cycleSignals (clearOfflineNode c1) = cycleSignals c1"
    "mCurrentCycleClosingState (clearOfflineNode c1) = mCurrentCycleClosingState c1"
    by (cases "mOfflineNodes c1"; simp add: clearOfflineNode_def split: prod.splits)+
  show ?thesis
    by (rule that [of "clearOfflineNode c1"])
      (simp_all add: clearClosedCycles_def c1 o q survives_def [abs_def] conj_commute)
qed

text \<open>The order in which \<open>closeLoop\<close> looks at the queues, and what it does with the first that is not empty.\<close>

definition rotation :: "CycleClosingState \<Rightarrow> CycleClosingState list" where
  "rotation st = [st, incremented st, incremented (incremented st), incremented (incremented (incremented st))]"

definition closeFirst :: "CloseCycleSlot \<Rightarrow> CycleClosingState option \<Rightarrow> CyclesManager \<Rightarrow> unit result \<times> CyclesManager" where
  "closeFirst slot found cm =
     (case found of
        None \<Rightarrow> returning () (cm\<lparr>mIsCycleInProcess := False\<rparr>)
      | Some st \<Rightarrow>
          (let cycle = hd (cyclesVector st cm);
               cm = setCyclesVector st (tl (cyclesVector st cm)) (cm\<lparr>mCurrentCycleClosingState := st\<rparr>)
           in case slot cycle of
                Inl e \<Rightarrow> throwing e cm
              | Inr _ \<Rightarrow> returning () (cm\<lparr>mIsCycleInProcess := True,
                                        cycleSignals := cycleSignals cm @ [CloseCycle cycle]\<rparr>)))"

lemma closeLoop_here:
  "cyclesVector (mCurrentCycleClosingState cm) cm \<noteq> [] \<Longrightarrow>
     closeLoop slot start cm = closeFirst slot (Some (mCurrentCycleClosingState cm)) cm"
  by (subst closeLoop.simps) (simp add: closeFirst_def neq_Nil_conv split: list.splits; force)

lemma closeLoop_next:
  "cyclesVector (mCurrentCycleClosingState cm) cm = [] \<Longrightarrow> incremented (mCurrentCycleClosingState cm) \<noteq> start \<Longrightarrow>
     closeLoop slot start cm = closeLoop slot start (incrementCurrentCycleClosingState cm)"
  by (subst closeLoop.simps) (simp add: incrementCurrentCycleClosingState_def)

lemma closeLoop_end:
  "cyclesVector (mCurrentCycleClosingState cm) cm = [] \<Longrightarrow> incremented (mCurrentCycleClosingState cm) = start \<Longrightarrow>
     closeLoop slot start cm = closeFirst slot None (incrementCurrentCycleClosingState cm)"
  by (subst closeLoop.simps) (simp add: incrementCurrentCycleClosingState_def closeFirst_def)

lemma closeFirst_current: "closeFirst slot (Some st) (cm\<lparr>mCurrentCycleClosingState := c\<rparr>) = closeFirst slot (Some st) cm"
  by (cases st) (simp_all add: closeFirst_def)

lemma closeLoop_rotation:
  "closeLoop slot (mCurrentCycleClosingState cm) cm =
     closeFirst slot (find (\<lambda>st. cyclesVector st cm \<noteq> []) (rotation (mCurrentCycleClosingState cm))) cm"
proof -
  let ?c = "mCurrentCycleClosingState cm"
  let ?at = "\<lambda>st. cm\<lparr>mCurrentCycleClosingState := st\<rparr>"
  have inc: "incrementCurrentCycleClosingState (?at st) = ?at (incremented st)" for st
    by (simp add: incrementCurrentCycleClosingState_def)
  have here: "closeLoop slot ?c (?at st) = closeFirst slot (Some st) cm" if "cyclesVector st cm \<noteq> []" for st
    using that closeLoop_here [of "?at st"] by (simp add: closeFirst_current)
  have nxt: "closeLoop slot ?c (?at st) = closeLoop slot ?c (?at (incremented st))"
    if "cyclesVector st cm = []" "incremented st \<noteq> ?c" for st
    using that closeLoop_next [of "?at st"] inc by simp
  have fin: "closeLoop slot ?c (?at st) = closeFirst slot None cm"
    if "cyclesVector st cm = []" "incremented st = ?c" for st
    using that closeLoop_end [of "?at st"] inc by simp
  have i4: "incremented (incremented (incremented (incremented ?c))) = ?c" by (cases ?c) simp_all
  have ne: "incremented ?c \<noteq> ?c" "incremented (incremented ?c) \<noteq> ?c"
    "incremented (incremented (incremented ?c)) \<noteq> ?c"
    by (cases ?c; simp)+
  show ?thesis
    using here [of ?c] here [of "incremented ?c"] here [of "incremented (incremented ?c)"]
      here [of "incremented (incremented (incremented ?c))"]
      nxt [of ?c] nxt [of "incremented ?c"] nxt [of "incremented (incremented ?c)"]
      fin [of "incremented (incremented (incremented ?c))"] ne i4
    by (simp add: rotation_def split: if_splits)
qed

section \<open>Runs\<close>

fun isClose :: "CyclesSignal \<Rightarrow> bool" where
  "isClose (CloseCycle c) = True"
| "isClose _ = False"

definition closes :: "CyclesManager \<Rightarrow> nat" where
  "closes cm = length (filter isClose (cycleSignals cm))"

text \<open>
  What happens to a manager. The number counts the cycle closing transactions that have finished: the
  scheduler then calls \<open>closeOneCycle\<close> with \<open>True\<close>.
\<close>

inductive cycles_step :: "CyclesManager \<times> nat \<Rightarrow> CyclesManager \<times> nat \<Rightarrow> bool" where
  found: "cycles_step (cm, n) (snd (addCycle allowed cycle cm), n)"
| built: "cycles_step (cm, n) (snd (closeOneCycle allowed slot False cm), n)"
| finished: "cycles_step (cm, n) (snd (closeOneCycle allowed slot True cm), Suc n)"
| closed: "cycles_step (cm, n) (addClosedTrustLine now s d cm, n)"
| offline: "cycles_step (cm, n) (addOfflineNode now node cm, n)"
| five: "cycles_step (cm, n) (runSignalFiveNodes now cm, n)"
| six: "cycles_step (cm, n) (runSignalSixNodes now cm, n)"
| update: "cycles_step (cm, n) (snd (updateOfflineNodesAndClosedTLLists now cm), n)"

inductive_cases cycles_stepE: "cycles_step (cm, n) (cm', n')"

text \<open>Every cycle handed over is accounted for by a finished transaction, or is in process.\<close>

definition one_at_a_time :: "CyclesManager \<times> nat \<Rightarrow> bool" where
  "one_at_a_time s \<longleftrightarrow> cycles_ok (fst s) \<and>
     closes (fst s) \<le> snd s + (if mIsCycleInProcess (fst s) then 1 else 0)"

lemma cycles_ok_filter:
  "cycles_ok cm \<Longrightarrow> (\<And>st. set (cyclesVector st cm') \<subseteq> set (cyclesVector st cm)) \<Longrightarrow> cycles_ok cm'"
  unfolding cycles_ok_def by blast

lemma addCycle_ok: "cycles_ok cm \<Longrightarrow> cycles_ok (snd (addCycle allowed cycle cm))"
  unfolding cycles_ok_def all_states by (auto simp: addCycle_def place_def)

lemma addCycle_other: "cycleSignals (snd (addCycle allowed cycle cm)) = cycleSignals cm \<and>
    mIsCycleInProcess (snd (addCycle allowed cycle cm)) = mIsCycleInProcess cm"
  by (simp add: addCycle_def)

lemma closeFirst_effect:
  assumes "\<forall>st. found = Some st \<longrightarrow> cyclesVector st cm \<noteq> []" and "\<not> mIsCycleInProcess cm"
  shows "set (cyclesVector st (snd (closeFirst slot found cm))) \<subseteq> set (cyclesVector st cm)"
    "closes (snd (closeFirst slot found cm)) =
       closes cm + (if mIsCycleInProcess (snd (closeFirst slot found cm)) then 1 else 0)"
  using assms by (auto simp: closeFirst_def closes_def Let_def split: option.splits sum.splits dest: list.set_sel(2))

text \<open>What one call does when the queues are well formed.\<close>

lemma closeOneCycle_exact:
  assumes "cycles_ok cm" and "nextCycleShouldBeRunned \<or> \<not> mIsCycleInProcess cm"
  obtains cm1 where "clearClosedCycles (cm\<lparr>mIsCycleInProcess := False\<rparr>) = (Inr (), cm1)"
    "\<And>st. cyclesVector st cm1 = filter (survives cm) (cyclesVector st cm)"
    "\<not> mIsCycleInProcess cm1" "cycleSignals cm1 = cycleSignals cm"
    "closeOneCycle True slot nextCycleShouldBeRunned cm =
       closeFirst slot (find (\<lambda>st. cyclesVector st cm1 \<noteq> []) (rotation (mCurrentCycleClosingState cm))) cm1"
proof -
  let ?cm = "cm\<lparr>mIsCycleInProcess := False\<rparr>"
  have ok: "cycles_ok ?cm" using assms(1) by (simp add: cycles_ok_def)
  have same: "(if nextCycleShouldBeRunned then ?cm else cm) = ?cm" using assms(2) by (cases cm) auto
  have sv: "survives ?cm = survives cm" by (simp add: survives_def [abs_def])
  obtain cm1 where c: "clearClosedCycles ?cm = (Inr (), cm1)"
    "\<And>st. cyclesVector st cm1 = filter (survives ?cm) (cyclesVector st ?cm)"
    "mIsCycleInProcess cm1 = mIsCycleInProcess ?cm" "cycleSignals cm1 = cycleSignals ?cm"
    "mCurrentCycleClosingState cm1 = mCurrentCycleClosingState ?cm"
    using clearClosedCycles_exact [OF ok] by blast
  show ?thesis
    by (rule that [of cm1])
      (use c same closeLoop_rotation [of slot cm1] in \<open>simp_all add: closeOneCycle_def Let_def sv\<close>)
qed

lemma find_rotation: "find P (rotation st) = Some st' \<Longrightarrow> P st'"
  by (auto dest: find_SomeD)

lemma closeOneCycle_ok:
  assumes "cycles_ok cm" and "n' = n + (if b then 1 else 0)"
    and "closes cm \<le> n + (if mIsCycleInProcess cm then 1 else 0)"
  shows "one_at_a_time (snd (closeOneCycle allowed slot b cm), n')"
proof -
  consider "\<not> allowed" | "allowed" "\<not> b" "mIsCycleInProcess cm" | "allowed" "b \<or> \<not> mIsCycleInProcess cm" by blast
  then show ?thesis
  proof cases
    case 1
    then show ?thesis using assms by (simp add: closeOneCycle_def one_at_a_time_def)
  next
    case 2
    obtain cm1 where "clearClosedCycles cm = (Inr (), cm1)"
      "\<And>st. cyclesVector st cm1 = filter (survives cm) (cyclesVector st cm)"
      "mIsCycleInProcess cm1 = mIsCycleInProcess cm" "cycleSignals cm1 = cycleSignals cm"
      using clearClosedCycles_exact [OF assms(1)] by blast
    then show ?thesis
      using 2 assms cycles_ok_filter [OF assms(1), of cm1]
      by (auto simp: closeOneCycle_def one_at_a_time_def closes_def)
  next
    case 3
    obtain cm1 where c: "\<And>st. cyclesVector st cm1 = filter (survives cm) (cyclesVector st cm)"
      "\<not> mIsCycleInProcess cm1" "cycleSignals cm1 = cycleSignals cm"
      "closeOneCycle True slot b cm =
         closeFirst slot (find (\<lambda>st. cyclesVector st cm1 \<noteq> []) (rotation (mCurrentCycleClosingState cm))) cm1"
      using closeOneCycle_exact [OF assms(1) 3(2), of slot] by metis
    let ?found = "find (\<lambda>st. cyclesVector st cm1 \<noteq> []) (rotation (mCurrentCycleClosingState cm))"
    have f: "\<forall>st. ?found = Some st \<longrightarrow> cyclesVector st cm1 \<noteq> []"
      using find_rotation [of "\<lambda>st. cyclesVector st cm1 \<noteq> []"] by blast
    note e = closeFirst_effect [OF f c(2)]
    have "cycles_ok (snd (closeFirst slot ?found cm1))"
      using e(1) c(1) by (intro cycles_ok_filter [OF assms(1)]) fastforce
    moreover have "closes cm1 \<le> n'" using assms(2,3) 3(2) c(3) by (auto simp: closes_def split: if_splits)
    ultimately show ?thesis
      using 3(1) c(4) e(2) by (simp add: one_at_a_time_def)
  qed
qed

lemma simple_steps:
  "one_at_a_time (cm, n) \<Longrightarrow> one_at_a_time (addClosedTrustLine now s d cm, n)"
  "one_at_a_time (cm, n) \<Longrightarrow> one_at_a_time (addOfflineNode now node cm, n)"
  "one_at_a_time (cm, n) \<Longrightarrow> one_at_a_time (runSignalFiveNodes now cm, n)"
  "one_at_a_time (cm, n) \<Longrightarrow> one_at_a_time (runSignalSixNodes now cm, n)"
  "one_at_a_time (cm, n) \<Longrightarrow> one_at_a_time (snd (updateOfflineNodesAndClosedTLLists now cm), n)"
  by (auto simp: one_at_a_time_def cycles_ok_def closes_def addClosedTrustLine_def addOfflineNode_def runSignalFiveNodes_def
      runSignalSixNodes_def updateOfflineNodesAndClosedTLLists_def Let_def split: list.splits prod.splits)

lemma one_at_a_time_step: "cycles_step s s' \<Longrightarrow> one_at_a_time s \<Longrightarrow> one_at_a_time s'"
proof (induction rule: cycles_step.induct)
  case (found cm n allowed cycle)
  then show ?case using addCycle_ok [of cm allowed cycle] addCycle_other [of allowed cycle cm]
    by (simp add: one_at_a_time_def closes_def)
next
  case (built cm n allowed slot)
  then show ?case by (intro closeOneCycle_ok [where n = n]) (simp_all add: one_at_a_time_def)
next
  case (finished cm n allowed slot)
  then show ?case by (intro closeOneCycle_ok [where n = n]) (simp_all add: one_at_a_time_def)
qed (fact simple_steps)+

interpretation cycles_run: step_invariant cycles_step one_at_a_time
  by unfold_locales (rule one_at_a_time_step)

section \<open>Properties\<close>

lemma new_one_at_a_time: "one_at_a_time (newCyclesManager ps now r5 r6, 0)"
  unfolding one_at_a_time_def cycles_ok_def all_states by (simp add: newCyclesManager_def closes_def)

definition sampleParameters :: CyclesRunningParameters where
  "sampleParameters =
     \<lparr>mCyclesThreeNodesEnabled = True, mCyclesFourNodesEnabled = True, mCyclesFiveNodesEnabled = False,
      mCyclesFiveNodesIntervalSec = 0, mCyclesSixNodesEnabled = False, mCyclesSixNodesIntervalSec = 0,
      mRoutingTableUpdatingIntervalDays = 1\<rparr>"

definition sampleCycles :: CyclesManager where
  "sampleCycles = snd (addCycle True [''a'', ''b'', ''c''] (newCyclesManager sampleParameters 0 0 0))"

lemma sample_run: "cycles_step\<^sup>*\<^sup>* (newCyclesManager sampleParameters 0 0 0, 0) (sampleCycles, 0)"
  using cycles_step.found [of "newCyclesManager sampleParameters 0 0 0" 0 True "[''a'', ''b'', ''c'']"]
  by (auto simp: sampleCycles_def)

lemma sampleCycles_ok: "cycles_ok sampleCycles" "\<not> mIsCycleInProcess sampleCycles" "closes sampleCycles = 0"
  "mCurrentCycleClosingState sampleCycles = ThreeNodes"
  "cyclesVector st sampleCycles = (if st = FourNodes then [[''a'', ''b'', ''c'']] else [])"
  "survives sampleCycles c"
proof -
  show "cycles_ok sampleCycles"
    unfolding cycles_ok_def all_states
    by (simp add: sampleCycles_def addCycle_def newCyclesManager_def place_def)
  show "cyclesVector st sampleCycles = (if st = FourNodes then [[''a'', ''b'', ''c'']] else [])"
    by (cases st) (simp_all add: sampleCycles_def addCycle_def newCyclesManager_def)
qed (simp_all add: sampleCycles_def addCycle_def newCyclesManager_def closes_def survives_def)

text \<open>C35: the queues are typed by length. In every run the cycles queued for three, four, five and six nodes
  have two, three, four and five other nodes; so taking out the cycles over a closed line or an offline node
  never throws, and a call of \<open>closeOneCycle\<close> throws only what the slot throws.\<close>

theorem queues_well_formed:
  assumes "cycles_step\<^sup>*\<^sup>* (newCyclesManager ps now r5 r6, 0) (cm, n)"
  shows "cycles_ok cm \<and> fst (clearClosedCycles cm) = Inr () \<and>
    (\<forall>e. fst (closeOneCycle allowed slot b cm) = Inl e \<longrightarrow> (\<exists>c. slot c = Inl e))"
proof -
  have "one_at_a_time (cm, n)" by (rule cycles_run.steps_inv [OF assms new_one_at_a_time])
  then have ok: "cycles_ok cm" by (simp add: one_at_a_time_def)
  have clear: "fst (clearClosedCycles cm) = Inr ()" using clearClosedCycles_exact [OF ok] by (metis fst_conv)
  have "\<exists>c. slot c = Inl e" if t: "fst (closeOneCycle allowed slot b cm) = Inl e" for e
  proof -
    have a: "allowed" using t by (cases allowed) (simp_all add: closeOneCycle_def)
    show ?thesis
    proof (cases "b \<or> \<not> mIsCycleInProcess cm")
      case True
      obtain cm1 found where "closeOneCycle True slot b cm = closeFirst slot found cm1"
        using closeOneCycle_exact [OF ok True, of slot] by metis
      then show ?thesis using t a by (auto simp: closeFirst_def Let_def split: option.splits sum.splits)
    next
      case False
      obtain cm1 where "clearClosedCycles cm = (Inr (), cm1)" "mIsCycleInProcess cm1 = mIsCycleInProcess cm"
        using clearClosedCycles_exact [OF ok] by metis
      then show ?thesis using t a False by (simp add: closeOneCycle_def)
    qed
  qed
  then show ?thesis using ok clear by blast
qed

theorem queues_well_formed_witness:
  "cycles_step\<^sup>*\<^sup>* (newCyclesManager sampleParameters 0 0 0, 0) (sampleCycles, 0) \<and> cycles_ok sampleCycles \<and>
   fst (closeOneCycle True (\<lambda>c. Inr True) False sampleCycles) = Inr ()"
  using queues_well_formed [OF sample_run, of True "\<lambda>c. Inr True" False] sample_run
  by (cases "fst (closeOneCycle True (\<lambda>c. Inr True) False sampleCycles)") auto

text \<open>C34: which cycle is closed. One call takes the oldest closed line and the oldest offline node into account,
  and then behaves as a plain round robin: it starts at the queue it stopped at, hands over the head of the
  first queue that still has a cycle, and is idle when none has.\<close>

theorem close_one_cycle_reference:
  assumes "cycles_ok cm" and "nextCycleShouldBeRunned \<or> \<not> mIsCycleInProcess cm"
  shows "\<exists>cm1. clearClosedCycles (cm\<lparr>mIsCycleInProcess := False\<rparr>) = (Inr (), cm1) \<and>
    (\<forall>st. cyclesVector st cm1 = filter (survives cm) (cyclesVector st cm)) \<and>
    closeOneCycle True slot nextCycleShouldBeRunned cm =
      closeFirst slot (find (\<lambda>st. cyclesVector st cm1 \<noteq> []) (rotation (mCurrentCycleClosingState cm))) cm1"
  using closeOneCycle_exact [OF assms, of slot] by metis

theorem close_one_cycle_reference_witness:
  "cycles_ok sampleCycles \<and>
   cycleSignals (snd (closeOneCycle True (\<lambda>c. Inr True) False sampleCycles)) = [CloseCycle [''a'', ''b'', ''c'']]"
proof -
  obtain cm1 where c: "clearClosedCycles (sampleCycles\<lparr>mIsCycleInProcess := False\<rparr>) = (Inr (), cm1)"
    "\<forall>st. cyclesVector st cm1 = filter (survives sampleCycles) (cyclesVector st sampleCycles)"
    "closeOneCycle True (\<lambda>c. Inr True) False sampleCycles = closeFirst (\<lambda>c. Inr True)
      (find (\<lambda>st. cyclesVector st cm1 \<noteq> []) (rotation (mCurrentCycleClosingState sampleCycles))) cm1"
    using close_one_cycle_reference [OF sampleCycles_ok(1), of False "\<lambda>c. Inr True"] sampleCycles_ok(2) by metis
  have q: "cyclesVector st cm1 = (if st = FourNodes then [[''a'', ''b'', ''c'']] else [])" for st
    using c(2) by (simp add: sampleCycles_ok(5) sampleCycles_ok(6))
  obtain cm2 where "clearClosedCycles (sampleCycles\<lparr>mIsCycleInProcess := False\<rparr>) = (Inr (), cm2)"
    "cycleSignals cm2 = cycleSignals (sampleCycles\<lparr>mIsCycleInProcess := False\<rparr>)"
    using clearClosedCycles_exact [of "sampleCycles\<lparr>mIsCycleInProcess := False\<rparr>"] sampleCycles_ok(1)
    by (metis cycles_ok_def queues_other(3))
  then have s: "cycleSignals cm1 = []"
    using c(1) by (simp add: sampleCycles_def addCycle_def newCyclesManager_def)
  show ?thesis
    using sampleCycles_ok(1) by (simp add: c(3) sampleCycles_ok(4) q rotation_def closeFirst_def s Let_def)
qed

text \<open>C32: one cycle at a time. In every run the number of cycles handed over is at most the number of cycle
  transactions that have finished, plus the one in process; while one is in process, a call that does not
  report a finished transaction hands nothing over.\<close>

theorem one_cycle_at_a_time:
  assumes "cycles_step\<^sup>*\<^sup>* (newCyclesManager ps now r5 r6, 0) (cm, n)"
  shows "closes cm \<le> n + (if mIsCycleInProcess cm then 1 else 0) \<and>
    (mIsCycleInProcess cm \<longrightarrow> closes (snd (closeOneCycle allowed slot False cm)) = closes cm)"
proof -
  have "one_at_a_time (cm, n)" by (rule cycles_run.steps_inv [OF assms new_one_at_a_time])
  then have ok: "cycles_ok cm" "closes cm \<le> n + (if mIsCycleInProcess cm then 1 else 0)"
    by (simp_all add: one_at_a_time_def)
  obtain cm1 where "clearClosedCycles cm = (Inr (), cm1)" "mIsCycleInProcess cm1 = mIsCycleInProcess cm"
    "cycleSignals cm1 = cycleSignals cm"
    using clearClosedCycles_exact [OF ok(1)] by metis
  then show ?thesis using ok(2) by (auto simp: closeOneCycle_def closes_def)
qed

theorem one_cycle_at_a_time_witness:
  "cycles_step\<^sup>*\<^sup>* (newCyclesManager sampleParameters 0 0 0, 0) (sampleCycles, 0) \<and> closes sampleCycles = 0"
  using one_cycle_at_a_time [OF sample_run] sampleCycles_ok(2) sample_run by simp

text \<open>Steps in which no transaction finishes leave a manager with a cycle in process as it is.\<close>

lemma blocked_step:
  assumes "cycles_step (cm, n) (cm', n')" and "mIsCycleInProcess cm" and "cycles_ok cm"
  shows "n \<le> n' \<and> (n' = n \<longrightarrow> mIsCycleInProcess cm' \<and> closes cm' = closes cm)"
  using assms(1)
proof (rule cycles_stepE)
  fix allowed slot
  assume s: "cm' = snd (closeOneCycle allowed slot False cm)" "n' = n"
  obtain cm1 where "clearClosedCycles cm = (Inr (), cm1)" "mIsCycleInProcess cm1 = mIsCycleInProcess cm"
    "cycleSignals cm1 = cycleSignals cm"
    using clearClosedCycles_exact [OF assms(3)] by metis
  then show ?thesis using s assms(2) by (auto simp: closeOneCycle_def closes_def)
qed (use assms(2) in \<open>auto simp: closes_def addCycle_def addClosedTrustLine_def addOfflineNode_def
      runSignalFiveNodes_def runSignalSixNodes_def updateOfflineNodesAndClosedTLLists_def Let_def split: list.splits\<close>)

lemma blocked_run:
  assumes "cycles_step\<^sup>*\<^sup>* (cm, n) (cm', n')" and "mIsCycleInProcess cm" and "one_at_a_time (cm, n)"
  shows "n \<le> n' \<and> (n' = n \<longrightarrow> mIsCycleInProcess cm' \<and> closes cm' = closes cm)"
  using assms
proof (induction rule: rtranclp_induct2)
  case (step cm1 n1 cm2 n2)
  have "one_at_a_time (cm1, n1)" by (rule cycles_run.steps_inv [OF step.hyps(1) step.prems(2)])
  then have ok: "cycles_ok cm1" by (simp add: one_at_a_time_def)
  have mono: "n1 \<le> n2" using step.hyps(2) by (rule cycles_stepE) auto
  have IH: "n \<le> n1" "n1 = n \<longrightarrow> mIsCycleInProcess cm1 \<and> closes cm1 = closes cm" using step.IH step.prems by auto
  then show ?case using mono blocked_step [OF step.hyps(2) _ ok] by auto
qed simp

text \<open>a cycle that is not started blocks the manager. When the slot behind \<open>closeCycleSignal\<close> returns
  without starting a transaction, as \<^verbatim>\<open>TransactionsManager::onCloseCycleTransaction\<close> does while payments are
  forbidden, the manager believes a cycle is in process: no transaction will report its end, and whatever
  else happens no cycle is handed over again.\<close>

theorem refused_cycle_blocks:
  assumes "cycles_step\<^sup>*\<^sup>* (newCyclesManager ps now r5 r6, 0) (cm, n)" and "\<not> mIsCycleInProcess cm"
    and "survives cm c" and "c \<in> set (cyclesVector st cm)"
    and "cycles_step\<^sup>*\<^sup>* (snd (closeOneCycle True (\<lambda>c. Inr False) False cm), n) (cm', n)"
  shows "mIsCycleInProcess cm' \<and> closes cm' = closes cm + 1"
proof -
  let ?slot = "\<lambda>c. Inr False :: bool result" and ?cm = "snd (closeOneCycle True (\<lambda>c. Inr False) False cm)"
  have inv: "one_at_a_time (cm, n)" by (rule cycles_run.steps_inv [OF assms(1) new_one_at_a_time])
  then have ok: "cycles_ok cm" by (simp add: one_at_a_time_def)
  obtain cm1 where c1: "\<And>st. cyclesVector st cm1 = filter (survives cm) (cyclesVector st cm)"
    "\<not> mIsCycleInProcess cm1" "cycleSignals cm1 = cycleSignals cm"
    "closeOneCycle True ?slot False cm =
       closeFirst ?slot (find (\<lambda>st. cyclesVector st cm1 \<noteq> []) (rotation (mCurrentCycleClosingState cm))) cm1"
    using closeOneCycle_exact [OF ok, of False ?slot] assms(2) by metis
  have "c \<in> set (cyclesVector st cm1)" using assms(3,4) c1(1) by simp
  then have "cyclesVector st cm1 \<noteq> []" by auto
  moreover have "st \<in> set (rotation (mCurrentCycleClosingState cm))"
    by (cases st; cases "mCurrentCycleClosingState cm") (simp_all add: rotation_def)
  ultimately obtain st' where "find (\<lambda>st. cyclesVector st cm1 \<noteq> []) (rotation (mCurrentCycleClosingState cm)) = Some st'"
    by (metis (mono_tags, lifting) find_None_iff not_None_eq)
  then have run: "mIsCycleInProcess ?cm" "closes ?cm = closes cm + 1"
    using c1(3,4) by (simp_all add: closeFirst_def Let_def closes_def)
  have "one_at_a_time (?cm, n)" by (rule one_at_a_time_step [OF cycles_step.built inv])
  then show ?thesis using blocked_run [OF assms(5) run(1)] run(2) by simp
qed

theorem refused_cycle_blocks_witness:
  "mIsCycleInProcess (snd (addCycle True [''x'', ''y'']
     (snd (closeOneCycle True (\<lambda>c. Inr False) False sampleCycles))))"
proof -
  have "cycles_step\<^sup>*\<^sup>* (snd (closeOneCycle True (\<lambda>c. Inr False) False sampleCycles), 0)
      (snd (addCycle True [''x'', ''y''] (snd (closeOneCycle True (\<lambda>c. Inr False) False sampleCycles))), 0)"
    by (rule r_into_rtranclp) (rule cycles_step.found)
  from refused_cycle_blocks [OF sample_run sampleCycles_ok(2) sampleCycles_ok(6) _ this, of "[''a'', ''b'', ''c'']" FourNodes]
  show ?thesis by (simp add: sampleCycles_ok(5))
qed

section \<open>Conflicts\<close>

lemma find_uuid:
  assumes "table_ok s" and "map_of (mTransactions s) r = Some (tx, st)"
  shows "find (\<lambda>it. txUUID (fst (snd it)) = txUUID tx) (mTransactions s) = Some (r, tx, st)"
proof (cases "find (\<lambda>it. txUUID (fst (snd it)) = txUUID tx) (mTransactions s)")
  case None
  moreover have "(r, tx, st) \<in> set (mTransactions s)" using in_table [OF assms(1)] assms(2) by simp
  ultimately show ?thesis by (force simp: find_None_iff)
next
  case (Some it)
  obtain r' tx' st' where it: "it = (r', tx', st')" by (metis surj_pair)
  have m: "map_of (mTransactions s) r' = Some (tx', st')" "txUUID tx' = txUUID tx"
    using find_SomeD [OF Some] it in_table [OF assms(1)] by auto
  then have "r' = r" by (rule table_okD(3) [OF assms(1) _ assms(2)])
  then show ?thesis using Some it m assms(2) by simp
qed

lemma cycleClosing_found:
  assumes "table_ok s" and "map_of (mTransactions s) r = Some (tx, st)"
  shows "cycleClosingTransactionByUUID (txUUID tx) s = (if isCycleTransaction tx then Inr r else Inl ValueError)"
  using find_uuid [OF assms] by (simp add: cycleClosingTransactionByUUID_def isCycleTransaction_def)

text \<open>When the challenger wins.\<close>

definition beats :: "(Transaction \<Rightarrow> 8 word) \<Rightarrow> Transaction \<Rightarrow> Transaction \<Rightarrow> bool" where
  "beats cycleLength challenger reserved \<longleftrightarrow> \<not> isVotingStage_tx reserved \<and>
     (if cycleLength challenger \<noteq> cycleLength reserved then cycleLength reserved < cycleLength challenger
      else the (txCoordinator reserved) < the (txCoordinator challenger))"

lemma beats_asym: "beats cycleLength a b \<Longrightarrow> \<not> beats cycleLength b a"
  by (auto simp: beats_def split: if_splits)

lemma resolve_cases:
  assumes "table_ok s" and "map_of (mTransactions s) c = Some (tc, sc)" and "map_of (mTransactions s) r = Some (tr, sr)"
    and "isCycleTransaction tc" and "isCycleTransaction tr" and "txCoordinator tc \<noteq> None" and "txCoordinator tr \<noteq> None"
  shows "beats cycleLength tc tr \<Longrightarrow> \<exists>t. t \<le> clock s \<and>
      resolveReservationConflict cycleLength (txUUID tc) (txUUID tr) s = (Inr True,
        s\<lparr>mTransactions := ordUpdate r (tr\<lparr>txStep := Common_RollbackByOtherTransaction_step\<rparr>, awakeAsFastAsPossible (clock s))
            (ordUpdate r (tr\<lparr>txStep := Common_RollbackByOtherTransaction_step\<rparr>, sr) (mTransactions s)),
          mProcessingTimer := Some t\<rparr>)"
    and "\<not> beats cycleLength tc tr \<Longrightarrow>
      resolveReservationConflict cycleLength (txUUID tc) (txUUID tr) s = (Inr False, s)"
proof -
  have eq: "resolveReservationConflict cycleLength (txUUID tc) (txUUID tr) s =
      catchNotFound (if beats cycleLength tc tr
        then bindS (awakeTransaction (txUUID tr) (setTransactionState r Common_RollbackByOtherTransaction_step s))
               (\<lambda>_ s. returning True s)
        else returning False s)"
    using cycleClosing_found [OF assms(1,2)] cycleClosing_found [OF assms(1,3)] assms(2-7)
    by (auto simp: resolveReservationConflict_def transactionAt_def isChallengerTransactionWinReservation_def beats_def)
  show "resolveReservationConflict cycleLength (txUUID tc) (txUUID tr) s = (Inr False, s)" if "\<not> beats cycleLength tc tr"
    using that by (simp add: eq catchNotFound_def)
  let ?tr = "tr\<lparr>txStep := Common_RollbackByOtherTransaction_step\<rparr>"
  let ?s1 = "s\<lparr>mTransactions := ordUpdate r (?tr, sr) (mTransactions s)\<rparr>"
  have set: "setTransactionState r Common_RollbackByOtherTransaction_step s = ?s1"
    using assms(3) by (simp add: setTransactionState_def)
  have ok1: "table_ok ?s1"
    using assms(1,3) table_okD(3) [OF assms(1)] table_okD(4) [OF assms(1)] by (intro table_ok_put) fastforce+
  have m1: "map_of (mTransactions ?s1) r = Some (?tr, sr)" by simp
  have u: "txUUID ?tr = txUUID tr" by simp
  let ?s2 = "?s1\<lparr>mTransactions := ordUpdate r (?tr, awakeAsFastAsPossible (clock s)) (mTransactions ?s1)\<rparr>"
  have ok2: "table_ok ?s2"
  proof (rule table_ok_put [OF ok1])
    show "mAwakeningTimestamp (awakeAsFastAsPossible (clock s)) \<le> clock ?s1 + kLongestDelay"
      by (simp add: awakeAsFastAsPossible_def newTransactionState_def)
    show "r' = r" if "map_of (mTransactions ?s1) r' = Some (tx', st')" "txUUID tx' = txUUID ?tr" for r' tx' st'
      by (rule table_okD(3) [OF ok1 that(1) m1 that(2)])
  qed
  obtain t where t: "adjustAwakeningToNextTransaction ?s2 = (Inr (), ?s2\<lparr>mProcessingTimer := t\<rparr>)"
    "armed (?s2\<lparr>mProcessingTimer := t\<rparr>)"
    using adjust_ok [OF ok2] by blast
  have "map_of (mTransactions (?s2\<lparr>mProcessingTimer := t\<rparr>)) r = Some (?tr, awakeAsFastAsPossible (clock s))" by simp
  with t(2) have "\<exists>t'. mProcessingTimer (?s2\<lparr>mProcessingTimer := t\<rparr>) = Some t' \<and>
      t' \<le> max (mAwakeningTimestamp (awakeAsFastAsPossible (clock s))) (clock (?s2\<lparr>mProcessingTimer := t\<rparr>))"
    unfolding armed_def by blast
  then obtain t' where t': "t = Some t'" "t' \<le> clock s"
    by (auto simp: awakeAsFastAsPossible_def newTransactionState_def)
  have "awakeTransaction (txUUID tr) ?s1 = (Inr (), ?s2\<lparr>mProcessingTimer := t\<rparr>)"
    using find_uuid [OF ok1 m1] t(1) u by (simp add: awakeTransaction_def)
  then show "\<exists>t. t \<le> clock s \<and> resolveReservationConflict cycleLength (txUUID tc) (txUUID tr) s = (Inr True,
        s\<lparr>mTransactions := ordUpdate r (?tr, awakeAsFastAsPossible (clock s)) (ordUpdate r (?tr, sr) (mTransactions s)),
          mProcessingTimer := Some t\<rparr>)" if "beats cycleLength tc tr"
    using that t' by (auto simp: eq set catchNotFound_def)
qed

text \<open>A node's own cycle transaction against one it takes part in, which waits for the observers.\<close>

definition sampleCycleTransaction :: "TransactionUUID \<Rightarrow> nat \<Rightarrow> nat \<Rightarrow> string \<Rightarrow> Transaction" where
  "sampleCycleTransaction u ty stp coordinator = \<lparr>txUUID = u, txType = ty, txStep = stp, txStarted = 0,
     txEquivalent = 1, txCoordinator = Some coordinator, txCommandUUID = 0, txContext = [], txResources = []\<rparr>"

definition sampleOwn :: Transaction where
  "sampleOwn = sampleCycleTransaction 11 Payments_CycleCloserInitiatorTransaction 14 ''me''"

definition sampleForeign :: Transaction where
  "sampleForeign =
     sampleCycleTransaction 12 Payments_CycleCloserIntermediateNodeTransaction Common_Observing_step ''him''"

definition sampleConflict :: Scheduler where
  "sampleConflict = \<lparr>clock = 1000,
     mTransactions = [(1, sampleOwn, awakeAsFastAsPossible 900), (2, sampleForeign, awakeAsFastAsPossible 950)],
     mProcessingTimer = Some 900, errorsCount = 0, signals = []\<rparr>"

lemma sampleConflict_ok: "table_ok sampleConflict"
  "map_of (mTransactions sampleConflict) 1 = Some (sampleOwn, awakeAsFastAsPossible 900)"
  "map_of (mTransactions sampleConflict) 2 = Some (sampleForeign, awakeAsFastAsPossible 950)"
  "isCycleTransaction sampleOwn" "isCycleTransaction sampleForeign"
  "txCoordinator sampleOwn = Some ''me''" "txCoordinator sampleForeign = Some ''him''"
  by (auto simp: sampleConflict_def table_ok_def sampleOwn_def sampleForeign_def sampleCycleTransaction_def
      isCycleTransaction_def kLongestDelay_def split: if_splits)

lemma him_me: "''him'' < (''me'' :: string)"
  by (simp add: less_char_def)

text \<open>C33: a conflict over a reservation has one winner. The challenger wins exactly when the other transaction is
  not voting and its cycle is shorter, or as long with a smaller coordinator address; the loser is then set
  to roll back and is due at once, nothing else changes. Otherwise nothing changes at all. And never do both
  win over each other.\<close>

theorem conflict_has_one_winner:
  assumes "table_ok s" and "map_of (mTransactions s) c = Some (tc, sc)" and "map_of (mTransactions s) r = Some (tr, sr)"
    and "isCycleTransaction tc" and "isCycleTransaction tr"
    and "txCoordinator tc = Some addressC" and "txCoordinator tr = Some addressR"
  shows "(\<not> isVotingStage_tx tr \<and> (if cycleLength tc \<noteq> cycleLength tr then cycleLength tr < cycleLength tc
            else addressR < addressC) \<longrightarrow>
      (\<exists>s'. resolveReservationConflict cycleLength (txUUID tc) (txUUID tr) s = (Inr True, s') \<and>
        map_of (mTransactions s') = (map_of (mTransactions s))
          (r \<mapsto> (tr\<lparr>txStep := Common_RollbackByOtherTransaction_step\<rparr>, awakeAsFastAsPossible (clock s))) \<and>
        (\<exists>t. mProcessingTimer s' = Some t \<and> t \<le> clock s))) \<and>
    (\<not> (\<not> isVotingStage_tx tr \<and> (if cycleLength tc \<noteq> cycleLength tr then cycleLength tr < cycleLength tc
            else addressR < addressC)) \<longrightarrow>
      resolveReservationConflict cycleLength (txUUID tc) (txUUID tr) s = (Inr False, s)) \<and>
    \<not> (fst (resolveReservationConflict cycleLength (txUUID tc) (txUUID tr) s) = Inr True \<and>
       fst (resolveReservationConflict cycleLength (txUUID tr) (txUUID tc) s) = Inr True)"
proof -
  have some: "txCoordinator tc \<noteq> None" "txCoordinator tr \<noteq> None" using assms(6,7) by simp_all
  have b: "beats cycleLength tc tr \<longleftrightarrow> \<not> isVotingStage_tx tr \<and>
      (if cycleLength tc \<noteq> cycleLength tr then cycleLength tr < cycleLength tc else addressR < addressC)"
    using assms(6,7) by (simp add: beats_def)
  note cr = resolve_cases [OF assms(1-5) some, of cycleLength]
  note rc = resolve_cases [OF assms(1,3,2,5,4) some(2,1), of cycleLength]
  show ?thesis
    unfolding b [symmetric]
  proof (intro conjI impI notI)
    assume "beats cycleLength tc tr"
    from cr(1) [OF this] show "\<exists>s'. resolveReservationConflict cycleLength (txUUID tc) (txUUID tr) s = (Inr True, s') \<and>
        map_of (mTransactions s') = (map_of (mTransactions s))
          (r \<mapsto> (tr\<lparr>txStep := Common_RollbackByOtherTransaction_step\<rparr>, awakeAsFastAsPossible (clock s))) \<and>
        (\<exists>t. mProcessingTimer s' = Some t \<and> t \<le> clock s)"
      by auto
  next
    assume "\<not> beats cycleLength tc tr"
    then show "resolveReservationConflict cycleLength (txUUID tc) (txUUID tr) s = (Inr False, s)" by (rule cr(2))
  next
    assume "fst (resolveReservationConflict cycleLength (txUUID tc) (txUUID tr) s) = Inr True \<and>
       fst (resolveReservationConflict cycleLength (txUUID tr) (txUUID tc) s) = Inr True"
    then have "beats cycleLength tc tr" "beats cycleLength tr tc" using cr(2) rc(2) by fastforce+
    then show False using beats_asym by blast
  qed
qed

theorem conflict_has_one_winner_witness:
  "resolveReservationConflict (\<lambda>tx. 2) 12 11 sampleConflict = (Inr False, sampleConflict)"
  using conflict_has_one_winner [OF sampleConflict_ok(1,3,2,5,4,7,6), of "\<lambda>tx. 2"] him_me
  by (simp add: sampleOwn_def sampleForeign_def sampleCycleTransaction_def)

text \<open>
  A transaction on which this node has voted and which waits for the decision of the observers is not
  protected: it is told to roll back, although it may only do what the observers decide.
\<close>

lemma observing_transaction_loses:
  "\<exists>s'. resolveReservationConflict (\<lambda>tx. 2) 11 12 sampleConflict = (Inr True, s') \<and>
     map_of (mTransactions s') 2 =
       Some (sampleForeign\<lparr>txStep := Common_RollbackByOtherTransaction_step\<rparr>, awakeAsFastAsPossible 1000)"
proof -
  have "beats (\<lambda>tx. 2) sampleOwn sampleForeign"
    using him_me sampleConflict_ok(6,7)
    by (simp add: beats_def isVotingStage_tx_def sampleForeign_def sampleCycleTransaction_def Common_Observing_step_def
        Common_Voting_step_def Common_VotesChecking_step_def Common_Recovery_step_def)
  from resolve_cases(1) [OF sampleConflict_ok(1-5) _ _ this] sampleConflict_ok(6,7)
  show ?thesis
    by (auto simp: sampleOwn_def sampleForeign_def sampleCycleTransaction_def sampleConflict_def)
qed

text \<open>The check for ordinary payments comes too late: a conflict with one is an exception.\<close>

lemma conflict_with_payment_throws:
  assumes "table_ok s" and "map_of (mTransactions s) c = Some (tc, sc)" and "map_of (mTransactions s) r = Some (tr, sr)"
    and "isCycleTransaction tc" and "\<not> isCycleTransaction tr"
  shows "resolveReservationConflict cycleLength (txUUID tc) (txUUID tr) s = (Inl ValueError, s)"
  using cycleClosing_found [OF assms(1,2)] cycleClosing_found [OF assms(1,3)] assms(4,5)
  by (simp add: resolveReservationConflict_def catchNotFound_def)

end
