(* ===== verification/Reservations.thy ===== *)
theory Reservations
  imports Amounts
begin

text \<open>
  Amount reservations on trust lines: \<^verbatim>\<open>src/src/core/payments/reservations/\<close>.

  The handler keeps, per contractor, a vector of shared pointers to immutable reservations. The
  code compares the pointers, not the values (\<^verbatim>\<open>*it == reservation\<close> on \<^verbatim>\<open>shared_ptr\<close>), so a
  reservation carries the address of its object (\<open>resRef\<close>) and the handler the next address the
  allocator hands out (\<open>nextRef\<close>). The locale \<open>reservation_ledger\<close> is the contract its client, the
  trust lines manager, relies on.
\<close>

datatype ReservationDirection = Outgoing | Incoming

record AmountReservation =
  resRef :: nat
  mTransactionUUID :: TransactionUUID
  mBlockedAmount :: TrustLineAmount
  mDirection :: ReservationDirection

record AmountReservationsHandler =
  mReservations :: "(ContractorID \<times> AmountReservation list) list"
  nextRef :: nat

definition sameReservation :: "AmountReservation \<Rightarrow> AmountReservation \<Rightarrow> bool" where
  "sameReservation lhs rhs \<longleftrightarrow>
     mBlockedAmount lhs = mBlockedAmount rhs \<and>
     mTransactionUUID lhs = mTransactionUUID rhs \<and>
     mDirection lhs = mDirection rhs"

section \<open>Operations\<close>

definition reserve ::
  "ContractorID \<Rightarrow> TransactionUUID \<Rightarrow> TrustLineAmount \<Rightarrow> ReservationDirection \<Rightarrow>
   AmountReservationsHandler \<Rightarrow> AmountReservation result \<times> AmountReservationsHandler" where
  "reserve trustLineContractor transactionUUID amount direction h =
     (if 0 = amount then throwing ValueError h
      else
        (let kReservation = \<lparr>resRef = nextRef h, mTransactionUUID = transactionUUID,
                             mBlockedAmount = amount, mDirection = direction\<rparr>
         in case map_of (mReservations h) trustLineContractor of
              Some reservations \<Rightarrow>
                returning kReservation
                  (h\<lparr>mReservations :=
                       AList.update trustLineContractor (reservations @ [kReservation])
                         (mReservations h),
                     nextRef := Suc (nextRef h)\<rparr>)
            | None \<Rightarrow>
                returning kReservation
                  (h\<lparr>mReservations :=
                       AList.update trustLineContractor [kReservation] (mReservations h),
                     nextRef := Suc (nextRef h)\<rparr>)))"

fun replaceFirst ::
  "AmountReservation \<Rightarrow> AmountReservation \<Rightarrow> AmountReservation list \<Rightarrow>
   AmountReservation list option" where
  "replaceFirst reservation new [] = None"
| "replaceFirst reservation new (it # rest) =
     (if resRef it = resRef reservation then Some (new # rest)
      else map_option ((#) it) (replaceFirst reservation new rest))"

definition updateReservation ::
  "ContractorID \<Rightarrow> AmountReservation \<Rightarrow> TrustLineAmount \<Rightarrow>
   AmountReservationsHandler \<Rightarrow> AmountReservation result \<times> AmountReservationsHandler" where
  "updateReservation trustLineContractor reservation newAmount h =
     (if newAmount = 0 then throwing ValueError h
      else case map_of (mReservations h) trustLineContractor of
        None \<Rightarrow> throwing NotFoundError h
      | Some reservations \<Rightarrow>
          (let kNewReservation = \<lparr>resRef = nextRef h,
                                  mTransactionUUID = mTransactionUUID reservation,
                                  mBlockedAmount = newAmount,
                                  mDirection = mDirection reservation\<rparr>
           in case replaceFirst reservation kNewReservation reservations of
                Some reservations' \<Rightarrow>
                  returning kNewReservation
                    (h\<lparr>mReservations :=
                         AList.update trustLineContractor reservations' (mReservations h),
                       nextRef := Suc (nextRef h)\<rparr>)
              | None \<Rightarrow> throwing NotFoundError h))"

fun eraseFirst ::
  "AmountReservation \<Rightarrow> AmountReservation list \<Rightarrow> AmountReservation list option" where
  "eraseFirst reservation [] = None"
| "eraseFirst reservation (it # rest) =
     (if resRef it = resRef reservation then Some rest
      else map_option ((#) it) (eraseFirst reservation rest))"

definition free ::
  "ContractorID \<Rightarrow> AmountReservation \<Rightarrow>
   AmountReservationsHandler \<Rightarrow> unit result \<times> AmountReservationsHandler" where
  "free trustLineContractor reservation h =
     (case map_of (mReservations h) trustLineContractor of
        None \<Rightarrow> throwing NotFoundError h
      | Some reservations \<Rightarrow>
          (case eraseFirst reservation reservations of
             Some reservations' \<Rightarrow>
               returning ()
                 (h\<lparr>mReservations :=
                      (if reservations' = []
                       then AList.delete trustLineContractor (mReservations h)
                       else AList.update trustLineContractor reservations' (mReservations h))\<rparr>)
           | None \<Rightarrow> throwing NotFoundError h))"

definition reservations ::
  "AmountReservationsHandler \<Rightarrow> ContractorID \<Rightarrow> TransactionUUID option \<Rightarrow>
   AmountReservation list" where
  "reservations h trustLineContractor transactionUUID =
     (case map_of (mReservations h) trustLineContractor of
        None \<Rightarrow> []
      | Some rs \<Rightarrow>
          (case transactionUUID of
             None \<Rightarrow> rs
           | Some uuid \<Rightarrow> filter (\<lambda>it. mTransactionUUID it = uuid) rs))"

fun sumReserved ::
  "ReservationDirection \<Rightarrow> TrustLineAmount \<Rightarrow> AmountReservation list \<Rightarrow>
   TrustLineAmount result" where
  "sumReserved direction amount [] = Inr amount"
| "sumReserved direction amount (lock # rest) =
     (if mDirection lock = direction
      then bindR (checked_add amount (mBlockedAmount lock)) (\<lambda>amount'.
             sumReserved direction amount' rest)
      else sumReserved direction amount rest)"

definition totalReserved ::
  "AmountReservationsHandler \<Rightarrow> ContractorID \<Rightarrow> ReservationDirection \<Rightarrow>
   TransactionUUID option \<Rightarrow> TrustLineAmount result" where
  "totalReserved h trustLineContractor direction transactionUUID =
     sumReserved direction 0 (reservations h trustLineContractor transactionUUID)"

definition isReservationsPresentWithContractor ::
  "AmountReservationsHandler \<Rightarrow> ContractorID \<Rightarrow> bool" where
  "isReservationsPresentWithContractor h trustLineContractorID \<longleftrightarrow>
     map_of (mReservations h) trustLineContractorID \<noteq> None"

definition contractorReservations ::
  "AmountReservationsHandler \<Rightarrow> ContractorID \<Rightarrow> ReservationDirection \<Rightarrow>
   AmountReservation list" where
  "contractorReservations h trustLineContractorID direction =
     filter (\<lambda>lock. mDirection lock = direction) (reservations h trustLineContractorID None)"

definition isTransactionReservationsPresent ::
  "AmountReservationsHandler \<Rightarrow> TransactionUUID \<Rightarrow> bool" where
  "isTransactionReservationsPresent h transactionUUID \<longleftrightarrow>
     (\<exists>contractorAndReservations \<in> set (mReservations h).
        \<exists>reservation \<in> set (snd contractorAndReservations).
          mTransactionUUID reservation = transactionUUID)"

definition getReservation ::
  "AmountReservationsHandler \<Rightarrow> ContractorID \<Rightarrow> TransactionUUID \<Rightarrow> TrustLineAmount \<Rightarrow>
   ReservationDirection \<Rightarrow> AmountReservation result" where
  "getReservation h trustLineContractor transactionUUID amount direction =
     (case map_of (mReservations h) trustLineContractor of
        None \<Rightarrow> Inl NotFoundError
      | Some rs \<Rightarrow>
          (case find (\<lambda>reservation. mTransactionUUID reservation = transactionUUID \<and>
                                     mBlockedAmount reservation = amount \<and>
                                     mDirection reservation = direction) rs of
             Some reservation \<Rightarrow> Inr reservation
           | None \<Rightarrow> Inl NotFoundError))"

section \<open>Abstract view: reserved amount per contractor and direction\<close>

abbreviation held :: "AmountReservationsHandler \<Rightarrow> ContractorID \<Rightarrow> AmountReservation list" where
  "held h c \<equiv> reservations h c None"

definition amountOf :: "ReservationDirection \<Rightarrow> AmountReservation \<Rightarrow> nat" where
  "amountOf d r = (if mDirection r = d then mBlockedAmount r else 0)"

definition reserved :: "AmountReservationsHandler \<Rightarrow> ContractorID \<Rightarrow> ReservationDirection \<Rightarrow> nat" where
  "reserved h c d = sum_list (map (amountOf d) (held h c))"

definition allReservations :: "AmountReservationsHandler \<Rightarrow> AmountReservation list" where
  "allReservations h = concat (map snd (mReservations h))"

definition handler_ok :: "AmountReservationsHandler \<Rightarrow> bool" where
  "handler_ok h \<longleftrightarrow>
     distinct (keys (mReservations h)) \<and>
     (\<forall>(c, rs) \<in> set (mReservations h).
        rs \<noteq> [] \<and> distinct (map resRef rs) \<and>
        (\<forall>r \<in> set rs. resRef r < nextRef h \<and> 0 < mBlockedAmount r))"

definition emptyHandler :: AmountReservationsHandler where
  "emptyHandler = \<lparr>mReservations = [], nextRef = 0\<rparr>"

lemma handler_ok_empty [simp]: "handler_ok emptyHandler"
  by (simp add: handler_ok_def emptyHandler_def)

lemma handler_okD:
  assumes "handler_ok h" and "map_of (mReservations h) c = Some rs"
  shows "rs \<noteq> []" "distinct (map resRef rs)"
    "\<And>r. r \<in> set rs \<Longrightarrow> resRef r < nextRef h" "\<And>r. r \<in> set rs \<Longrightarrow> 0 < mBlockedAmount r"
  using assms map_of_SomeD [OF assms(2)] by (auto simp: handler_ok_def)

lemma held_Some: "map_of (mReservations h) c = Some rs \<Longrightarrow> held h c = rs"
  by (simp add: reservations_def)

lemma held_None: "map_of (mReservations h) c = None \<Longrightarrow> held h c = []"
  by (simp add: reservations_def)

section \<open>The loops over a container\<close>

lemma sumReserved_eq:
  "amount_ok a \<Longrightarrow>
     sumReserved d a rs =
       (if a + sum_list (map (amountOf d) rs) < 2 ^ 256
        then Inr (a + sum_list (map (amountOf d) rs)) else Inl StdOverflowError)"
  by (induction d a rs rule: sumReserved.induct)
    (auto simp: amountOf_def checked_add_def ac_simps)

lemma totalReserved_eq:
  "totalReserved h c d None =
     (if reserved h c d < 2 ^ 256 then Inr (reserved h c d) else Inl StdOverflowError)"
  by (simp add: totalReserved_def reserved_def sumReserved_eq)

lemma eraseFirst_None: "eraseFirst r rs = None \<longleftrightarrow> resRef r \<notin> resRef ` set rs"
  by (induction rs) auto

lemma eraseFirst_Some:
  "distinct (map resRef rs) \<Longrightarrow> r \<in> set rs \<Longrightarrow> eraseFirst r rs = Some (remove1 r rs)"
  by (induction rs) (auto simp: rev_image_eqI)

lemma replaceFirst_None: "replaceFirst r n rs = None \<longleftrightarrow> resRef r \<notin> resRef ` set rs"
  by (induction rs) auto

lemma replaceFirst_Some:
  assumes "distinct (map resRef rs)" and "r \<in> set rs"
  obtains pre post where "rs = pre @ r # post" and "replaceFirst r n rs = Some (pre @ n # post)"
  using assms
proof (induction rs arbitrary: thesis)
  case (Cons x rs)
  show ?case
  proof (cases "resRef x = resRef r")
    case True
    then have "x = r" using Cons.prems by (auto simp: rev_image_eqI)
    then show ?thesis using Cons.prems(1) [of "[]" rs] by simp
  next
    case False
    then obtain pre post where "rs = pre @ r # post" "replaceFirst r n rs = Some (pre @ n # post)"
      using Cons.IH Cons.prems by auto
    then show ?thesis using Cons.prems(1) [of "x # pre" post] False by simp
  qed
qed simp

lemma eraseFirst_set: "eraseFirst r rs = Some rs' \<Longrightarrow> set rs' \<subseteq> set rs"
  by (induction rs arbitrary: rs') (auto split: if_splits)

lemma eraseFirst_distinct:
  "eraseFirst r rs = Some rs' \<Longrightarrow> distinct (map resRef rs) \<Longrightarrow> distinct (map resRef rs')"
proof (induction rs arbitrary: rs')
  case (Cons x rs)
  then show ?case
    using eraseFirst_set [of r rs] by (force split: if_splits)
qed simp

lemma replaceFirst_set: "replaceFirst r n rs = Some rs' \<Longrightarrow> set rs' \<subseteq> insert n (set rs)"
  by (induction rs arbitrary: rs') (auto split: if_splits)

lemma replaceFirst_distinct:
  "replaceFirst r n rs = Some rs' \<Longrightarrow> distinct (map resRef rs) \<Longrightarrow>
     resRef n \<notin> resRef ` set rs \<Longrightarrow> distinct (map resRef rs')"
proof (induction rs arbitrary: rs')
  case (Cons x rs)
  show ?case
  proof (cases "resRef x = resRef r")
    case True
    then show ?thesis using Cons.prems by auto
  next
    case False
    then obtain zs where zs: "replaceFirst r n rs = Some zs" and rs': "rs' = x # zs"
      using Cons.prems(1) by auto
    have "distinct (map resRef zs)"
      using Cons.IH [OF zs] Cons.prems by simp
    moreover have "resRef x \<notin> resRef ` set zs"
      using replaceFirst_set [OF zs] Cons.prems(2,3) by auto
    ultimately show ?thesis by (simp add: rs')
  qed
qed simp

lemma remove1_refs: "resRef ` set (remove1 r rs) \<subseteq> resRef ` set rs"
  using set_remove1_subset [of r rs] by blast

section \<open>What each operation does to the ledger\<close>

lemma reserve_cases:
  "reserve c u a d h =
     (if a = 0 then throwing ValueError h
      else
        (let r = \<lparr>resRef = nextRef h, mTransactionUUID = u, mBlockedAmount = a, mDirection = d\<rparr>
         in returning r
              (h\<lparr>mReservations := AList.update c (held h c @ [r]) (mReservations h),
                 nextRef := Suc (nextRef h)\<rparr>)))"
  by (auto simp: reserve_def reservations_def Let_def split: option.splits)

lemma reserve_Inr:
  assumes "reserve c u a d h = (Inr r, h')"
  shows "0 < a"
    and "r = \<lparr>resRef = nextRef h, mTransactionUUID = u, mBlockedAmount = a, mDirection = d\<rparr>"
    and "held h' c' = (if c' = c then held h c @ [r] else held h c')"
  using assms
  by (auto simp: reserve_cases reservations_def Let_def split: if_splits option.splits)

lemma held_free:
  assumes ok: "handler_ok h" and r: "r \<in> set (held h c)"
  shows "fst (free c r h) = Inr ()"
    and "held (snd (free c r h)) c' = (if c' = c then remove1 r (held h c) else held h c')"
proof -
  obtain rs where rs: "map_of (mReservations h) c = Some rs"
    using r by (cases "map_of (mReservations h) c") (auto simp: reservations_def)
  then have "eraseFirst r rs = Some (remove1 r rs)"
    using r handler_okD(2) [OF ok rs] by (simp add: held_Some eraseFirst_Some)
  then show "fst (free c r h) = Inr ()"
    and "held (snd (free c r h)) c' = (if c' = c then remove1 r (held h c) else held h c')"
    using rs by (auto simp: free_def reservations_def)
qed

lemma free_absent:
  "resRef r \<notin> resRef ` set (held h c) \<Longrightarrow> free c r h = throwing NotFoundError h"
  by (auto simp: free_def reservations_def eraseFirst_None [symmetric] split: option.splits)

lemma held_update:
  assumes ok: "handler_ok h" and r: "r \<in> set (held h c)" and a: "0 < a"
  obtains pre post where "held h c = pre @ r # post"
    and "fst (updateReservation c r a h) =
      Inr \<lparr>resRef = nextRef h, mTransactionUUID = mTransactionUUID r, mBlockedAmount = a,
           mDirection = mDirection r\<rparr>"
    and "\<And>c'. held (snd (updateReservation c r a h)) c' =
      (if c' = c then pre @ \<lparr>resRef = nextRef h, mTransactionUUID = mTransactionUUID r,
                             mBlockedAmount = a, mDirection = mDirection r\<rparr> # post
       else held h c')"
proof -
  obtain rs where rs: "map_of (mReservations h) c = Some rs"
    using r by (cases "map_of (mReservations h) c") (auto simp: reservations_def)
  have mem: "r \<in> set rs" using r rs by (simp add: held_Some)
  let ?n = "\<lparr>resRef = nextRef h, mTransactionUUID = mTransactionUUID r, mBlockedAmount = a,
             mDirection = mDirection r\<rparr>"
  obtain pre post where "rs = pre @ r # post" and "replaceFirst r ?n rs = Some (pre @ ?n # post)"
    using replaceFirst_Some [OF handler_okD(2) [OF ok rs] mem] by blast
  then show thesis
    using a rs by (intro that [of pre post]) (auto simp: updateReservation_def reservations_def Let_def)
qed

lemma handler_okI:
  assumes "distinct (keys (mReservations h))"
    and "\<And>c. map_of (mReservations h) c \<noteq> Some []"
    and "\<And>c. distinct (map resRef (held h c))"
    and "\<And>c r. r \<in> set (held h c) \<Longrightarrow> resRef r < nextRef h \<and> 0 < mBlockedAmount r"
  shows "handler_ok h"
  unfolding handler_ok_def
proof (intro conjI ballI)
  fix x assume "x \<in> set (mReservations h)"
  then have "map_of (mReservations h) (fst x) = Some (snd x)"
    using assms(1) by (metis map_of_eq_Some_iff prod.collapse)
  then show "case x of (c, rs) \<Rightarrow> rs \<noteq> [] \<and> distinct (map resRef rs) \<and>
      (\<forall>r\<in>set rs. resRef r < nextRef h \<and> 0 < mBlockedAmount r)"
    using assms(2,3) [of "fst x"] assms(4) [of _ "fst x"] by (auto simp: reservations_def split_beta)
qed (rule assms(1))

lemma handler_ok_held:
  assumes "handler_ok h"
  shows "distinct (keys (mReservations h))"
    and "map_of (mReservations h) c \<noteq> Some []"
    and "distinct (map resRef (held h c))"
    and "r \<in> set (held h c) \<Longrightarrow> resRef r < nextRef h"
    and "r \<in> set (held h c) \<Longrightarrow> 0 < mBlockedAmount r"
  using assms handler_okD [OF assms]
  by (auto simp: handler_ok_def reservations_def split: option.splits)

lemma reserve_ok:
  assumes "handler_ok h" and "reserve c u a d h = (Inr r, h')"
  shows "handler_ok h'"
proof (rule handler_okI)
  have h': "mReservations h' = AList.update c (held h c @ [r]) (mReservations h)"
    "nextRef h' = Suc (nextRef h)"
    using assms(2) by (auto simp: reserve_cases Let_def split: if_splits)
  note ok = handler_ok_held [OF assms(1)] and res = reserve_Inr [OF assms(2)]
  show "distinct (keys (mReservations h'))" and "\<And>c. map_of (mReservations h') c \<noteq> Some []"
    using ok by (simp_all add: h')
  show "distinct (map resRef (held h' c'))" for c'
    using ok(3) [of c'] ok(4) [of _ c'] by (force simp: res(2,3))
  show "resRef x < nextRef h' \<and> 0 < mBlockedAmount x" if "x \<in> set (held h' c')" for c' x
    using that ok(4,5) res(1) by (auto simp: res h'(2) split: if_splits dest: less_SucI)
qed

lemma free_ok:
  assumes ok: "handler_ok h" and res: "free c r h = (Inr (), h')"
  shows "handler_ok h'"
proof (rule handler_okI)
  have mem: "resRef r \<in> resRef ` set (held h c)"
    using free_absent [of r h c] res by auto
  obtain rs rs' where rs: "map_of (mReservations h) c = Some rs"
    and rs': "eraseFirst r rs = Some rs'"
    and h': "h' = h\<lparr>mReservations := (if rs' = [] then AList.delete c (mReservations h)
                      else AList.update c rs' (mReservations h))\<rparr>"
    using res by (auto simp: free_def split: option.splits)
  have sub: "set rs' \<subseteq> set rs" and dist: "distinct (map resRef rs')"
    using rs' handler_okD(2) [OF ok rs] by (auto dest: eraseFirst_set eraseFirst_distinct)
  note held = handler_ok_held [OF ok] and okD = handler_okD [OF ok rs]
  have held': "held h' c' = (if c' = c then rs' else held h c')" for c'
    by (simp add: h' reservations_def)
  show "distinct (keys (mReservations h'))"
    using held(1) by (simp add: h')
  show "map_of (mReservations h') c' \<noteq> Some []" for c'
    using held(2) [of c'] by (auto simp: h')
  show "distinct (map resRef (held h' c'))" for c'
    using held(3) dist by (simp add: held')
  show "resRef x < nextRef h' \<and> 0 < mBlockedAmount x" if "x \<in> set (held h' c')" for c' x
  proof -
    have nxt: "nextRef h' = nextRef h" by (simp add: h')
    show ?thesis
      using that held(4,5) [of x c'] okD(3,4) [of x] sub
      by (cases "c' = c") (auto simp: held' nxt)
  qed
qed

lemma updateReservation_Inr:
  assumes "updateReservation c r a h = (Inr n, h')"
  shows "\<exists>rs rs'. 0 < a \<and> map_of (mReservations h) c = Some rs \<and>
    resRef n = nextRef h \<and> mBlockedAmount n = a \<and> replaceFirst r n rs = Some rs' \<and>
    h' = h\<lparr>mReservations := AList.update c rs' (mReservations h), nextRef := Suc (nextRef h)\<rparr>"
proof -
  define n0 where "n0 = \<lparr>resRef = nextRef h, mTransactionUUID = mTransactionUUID r,
                         mBlockedAmount = a, mDirection = mDirection r\<rparr>"
  have f: "resRef n0 = nextRef h" "mBlockedAmount n0 = a"
    by (simp_all add: n0_def)
  note res = assms [unfolded updateReservation_def Let_def, folded n0_def]
  have a: "a \<noteq> 0" using res by (cases "a = 0") auto
  obtain rs where rs: "map_of (mReservations h) c = Some rs"
    using res a by (cases "map_of (mReservations h) c") auto
  obtain rs' where rs': "replaceFirst r n0 rs = Some rs'"
    using res a rs by (cases "replaceFirst r n0 rs") auto
  have "n = n0"
    using res a rs rs' by simp
  with res a rs rs' f show ?thesis by simp
qed

lemma update_ok:
  assumes ok: "handler_ok h" and res: "updateReservation c r a h = (Inr n, h')"
  shows "handler_ok h'"
proof (rule handler_okI)
  obtain rs rs' where a: "0 < a" and rs: "map_of (mReservations h) c = Some rs"
    and fields: "resRef n = nextRef h" "mBlockedAmount n = a"
    and rs': "replaceFirst r n rs = Some rs'"
    and h': "h' = h\<lparr>mReservations := AList.update c rs' (mReservations h),
                    nextRef := Suc (nextRef h)\<rparr>"
    using updateReservation_Inr [OF res] by blast
  note held = handler_ok_held [OF ok] and okD = handler_okD [OF ok rs]
  have sub: "set rs' \<subseteq> insert n (set rs)"
    using rs' by (rule replaceFirst_set)
  have "resRef n \<notin> resRef ` set rs"
    unfolding fields(1) using okD(3) by force
  with rs' okD(2) have dist: "distinct (map resRef rs')"
    by (rule replaceFirst_distinct)
  have ne: "rs' \<noteq> []"
    using rs' by (cases rs) (auto split: if_splits)
  have refs: "resRef x < Suc (nextRef h)" "0 < mBlockedAmount x" if "x \<in> set rs'" for x
  proof -
    have "x = n \<or> x \<in> set rs" using that sub by blast
    then show "resRef x < Suc (nextRef h)" "0 < mBlockedAmount x"
      using okD(3,4) [of x] a fields by auto
  qed
  have nxt: "nextRef h' = Suc (nextRef h)" by (simp add: h')
  have held': "held h' c' = (if c' = c then rs' else held h c')" for c'
    by (simp add: h' reservations_def)
  show "distinct (keys (mReservations h'))"
    using held(1) by (simp add: h')
  show "map_of (mReservations h') c' \<noteq> Some []" for c'
    using held(2) [of c'] ne by (auto simp: h')
  show "distinct (map resRef (held h' c'))" for c'
    using held(3) dist by (simp add: held')
  show "resRef x < nextRef h' \<and> 0 < mBlockedAmount x" if "x \<in> set (held h' c')" for c' x
    using that held(4,5) [of x c'] refs [of x] by (cases "c' = c") (simp_all add: held' nxt)
qed


section \<open>The contract with the trust lines manager\<close>

text \<open>
  \<open>inv\<close> is the handler's invariant, \<open>reserved h c d\<close> the amount locked for contractor \<open>c\<close> in
  direction \<open>d\<close>, \<open>holds h c r\<close> says that \<open>r\<close> is one of its reservations. Under these laws the
  lemmas relate the reservations to a capacity \<open>cap c d\<close>: what the client may lock.
\<close>

locale reservation_ledger =
  fixes inv :: "'h \<Rightarrow> bool"
    and locked :: "'h \<Rightarrow> 'c \<Rightarrow> 'd \<Rightarrow> nat"
    and holds :: "'h \<Rightarrow> 'c \<Rightarrow> 'r \<Rightarrow> bool"
    and size_of :: "'r \<Rightarrow> nat"
    and side_of :: "'r \<Rightarrow> 'd"
    and lock :: "'c \<Rightarrow> 'u \<Rightarrow> nat \<Rightarrow> 'd \<Rightarrow> 'h \<Rightarrow> 'r result \<times> 'h"
    and unlock :: "'c \<Rightarrow> 'r \<Rightarrow> 'h \<Rightarrow> unit result \<times> 'h"
    and relock :: "'c \<Rightarrow> 'r \<Rightarrow> nat \<Rightarrow> 'h \<Rightarrow> 'r result \<times> 'h"
  assumes lock_ok: "lock c u a d h = (Inr r, h') \<Longrightarrow> inv h \<Longrightarrow> inv h' \<and> holds h' c r"
    and lock_field: "lock c u a d h = (Inr r, h') \<Longrightarrow> size_of r = a \<and> side_of r = d"
    and lock_locked: "lock c u a d h = (Inr r, h') \<Longrightarrow> inv h \<Longrightarrow>
        locked h' c' d' = locked h c' d' + (if c' = c \<and> d' = d then a else 0)"
    and unlock_ok: "holds h c r \<Longrightarrow> inv h \<Longrightarrow> \<exists>h'. unlock c r h = (Inr (), h') \<and> inv h'"
    and unlock_locked: "unlock c r h = (Inr (), h') \<Longrightarrow> holds h c r \<Longrightarrow> inv h \<Longrightarrow>
        locked h c' d' = locked h' c' d' + (if c' = c \<and> d' = side_of r then size_of r else 0)"
    and relock_ok: "relock c r a h = (Inr n, h') \<Longrightarrow> inv h \<Longrightarrow> inv h'"
    and relock_locked: "relock c r a h = (Inr n, h') \<Longrightarrow> holds h c r \<Longrightarrow> inv h \<Longrightarrow>
        locked h' c' d' + (if c' = c \<and> d' = side_of r then size_of r else 0) =
        locked h c' d' + (if c' = c \<and> d' = side_of r then a else 0)"
begin

lemma holds_le: "holds h c r \<Longrightarrow> inv h \<Longrightarrow> size_of r \<le> locked h c (side_of r)"
  using unlock_ok [of h c r] unlock_locked [of c r h _ c "side_of r"] by force

lemma lock_covered:
  assumes "lock c u a d h = (Inr r, h')" and "inv h" and "\<forall>c d. locked h c d \<le> cap c d"
    and "locked h c d + a \<le> cap c d"
  shows "\<forall>c d. locked h' c d \<le> cap c d"
  using assms(3,4) by (auto simp: lock_locked [OF assms(1,2)])

lemma unlock_covered:
  assumes "unlock c r h = (Inr (), h')" and "holds h c r" and "inv h"
    and "\<forall>c d. locked h c d \<le> cap c d"
  shows "\<forall>c d. locked h' c d \<le> cap c d"
  using assms(4) unlock_locked [OF assms(1-3)] by (metis le_add1 le_trans)

lemma settle_covered:
  assumes "unlock c r h = (Inr (), h')" and "holds h c r" and "inv h"
    and "\<forall>c d. locked h c d \<le> cap c d"
    and "\<And>c' d'. cap c' d' \<le> cap' c' d' + (if c' = c \<and> d' = side_of r then size_of r else 0)"
  shows "\<forall>c d. locked h' c d \<le> cap' c d"
proof (intro allI)
  fix c' d'
  have "locked h' c' d' + (if c' = c \<and> d' = side_of r then size_of r else 0) \<le> cap c' d'"
    using assms(4) unlock_locked [OF assms(1-3)] by metis
  then show "locked h' c' d' \<le> cap' c' d'"
    using assms(5) [of c' d'] by (auto split: if_splits)
qed

lemma relock_covered:
  assumes "relock c r a h = (Inr n, h')" and "holds h c r" and "inv h"
    and "\<forall>c d. locked h c d \<le> cap c d"
    and "locked h c (side_of r) + a \<le> cap c (side_of r) + size_of r"
  shows "\<forall>c d. locked h' c d \<le> cap c d"
proof (intro allI)
  fix c' d'
  show "locked h' c' d' \<le> cap c' d'"
    using assms(4,5) relock_locked [OF assms(1-3), of c' d'] by (auto split: if_splits)
qed

lemma lock_unlock:
  assumes "lock c u a d h = (Inr r, h')" and "inv h"
  shows "\<exists>h''. unlock c r h' = (Inr (), h'') \<and> inv h'' \<and> locked h'' = locked h"
proof -
  obtain h'' where un: "unlock c r h' = (Inr (), h'')" "inv h''"
    using unlock_ok lock_ok [OF assms] by blast
  have "locked h'' c' d' = locked h c' d'" for c' d'
    using unlock_locked [OF un(1), of c' d'] lock_locked [OF assms, of c' d'] lock_ok [OF assms]
      lock_field [OF assms(1)] by (cases "c' = c \<and> d' = d") simp_all
  with un show ?thesis by blast
qed

end

lemma reserved_reserve:
  assumes "reserve c u a d h = (Inr r, h')"
  shows "reserved h' c' d' = reserved h c' d' + (if c' = c \<and> d' = d then a else 0)"
  using reserve_Inr(2,3) [OF assms] by (auto simp: reserved_def amountOf_def)

lemma reserved_free:
  assumes "free c r h = (Inr (), h')" and "r \<in> set (held h c)" and "handler_ok h"
  shows "reserved h c' d' = reserved h' c' d' + (if c' = c \<and> d' = mDirection r then mBlockedAmount r else 0)"
  using held_free(2) [OF assms(3,2), of c'] assms(1,2) sum_list_remove1_nat [of r "held h c" "amountOf d'"]
  by (auto simp: reserved_def amountOf_def)

lemma reserved_update:
  assumes "updateReservation c r a h = (Inr n, h')" and "r \<in> set (held h c)" and "handler_ok h"
  shows "reserved h' c' d' + (if c' = c \<and> d' = mDirection r then mBlockedAmount r else 0) =
    reserved h c' d' + (if c' = c \<and> d' = mDirection r then a else 0)"
proof -
  have "0 < a" using updateReservation_Inr [OF assms(1)] by blast
  then obtain pre post where s: "held h c = pre @ r # post" and u: "\<And>c'. held h' c' =
      (if c' = c then pre @ \<lparr>resRef = nextRef h, mTransactionUUID = mTransactionUUID r,
                             mBlockedAmount = a, mDirection = mDirection r\<rparr> # post
       else held h c')"
    using held_update [OF assms(3,2)] assms(1) by (metis snd_conv)
  show ?thesis
    unfolding reserved_def u by (auto simp: s amountOf_def)
qed

interpretation ledger: reservation_ledger handler_ok reserved "\<lambda>h c r. r \<in> set (held h c)"
  mBlockedAmount mDirection reserve free updateReservation
proof (unfold_locales, goal_cases)
  case (1 c u a d h r h')
  then show ?case using reserve_ok reserve_Inr(3) [OF 1(1), of c] by auto
next
  case (2 c u a d h r h')
  then show ?case by (simp add: reserve_Inr(2) [OF 2])
next
  case (3 c u a d h r h' c' d')
  then show ?case by (simp add: reserved_reserve)
next
  case (4 h c r)
  then show ?case using held_free(1) [OF 4(2,1)] free_ok [OF 4(2)] by (metis prod.collapse)
next
  case (5 c r h h' c' d')
  then show ?case by (rule reserved_free)
next
  case (6 c r a h n h')
  then show ?case using update_ok by blast
next
  case (7 c r a h n h' c' d')
  then show ?case by (rule reserved_update)
qed

section \<open>Properties\<close>

lemma reserve_throws: "reserve c u a d h = (Inl e, h') \<Longrightarrow> h' = h"
  by (cases "a = 0") (simp_all add: reserve_cases Let_def)

lemma free_throws: "free c r h = (Inl e, h') \<Longrightarrow> h' = h"
  by (auto simp: free_def split: option.splits)

lemma update_throws: "updateReservation c r a h = (Inl e, h') \<Longrightarrow> h' = h"
  by (cases "a = 0"; cases "map_of (mReservations h) c")
    (simp_all add: updateReservation_def Let_def split: option.splits)

lemma kept_or_thrown:
  assumes "\<And>x h'. f h = (Inr x, h') \<Longrightarrow> P h'" and "P h"
    and "\<And>e h'. f h = (Inl e, h') \<Longrightarrow> h' = h"
  shows "P (snd (f h))"
proof (cases "fst (f h)")
  case (Inl e)
  then show ?thesis using assms(2) assms(3) [of e "snd (f h)"] by (metis prod.collapse)
next
  case (Inr x)
  then show ?thesis using assms(1) [of x "snd (f h)"] by (metis prod.collapse)
qed

text \<open>Every operation of the reservations handler keeps its invariant: one entry per contractor,
  no empty entry, distinct reservation objects of positive amount. An operation that throws leaves
  the handler as it was.\<close>

theorem handler_invariant:
  assumes "handler_ok h"
  shows "handler_ok (snd (reserve c u a d h)) \<and> handler_ok (snd (free c r h)) \<and>
    handler_ok (snd (updateReservation c r a h)) \<and>
    (\<forall>e. fst (reserve c u a d h) = Inl e \<longrightarrow> snd (reserve c u a d h) = h) \<and>
    (\<forall>e. fst (free c r h) = Inl e \<longrightarrow> snd (free c r h) = h) \<and>
    (\<forall>e. fst (updateReservation c r a h) = Inl e \<longrightarrow> snd (updateReservation c r a h) = h)"
proof -
  have "handler_ok (snd (reserve c u a d h))"
    using reserve_ok [OF assms] assms reserve_throws by (rule kept_or_thrown)
  moreover have "handler_ok (snd (free c r h))"
    using free_ok [OF assms] assms free_throws by (rule kept_or_thrown) simp
  moreover have "handler_ok (snd (updateReservation c r a h))"
    using update_ok [OF assms] assms update_throws by (rule kept_or_thrown)
  ultimately show ?thesis
    using reserve_throws [of c u a d h] free_throws [of c r h] update_throws [of c r a h]
    by (metis prod.collapse)
qed

theorem handler_invariant_witness:
  "handler_ok (snd (reserve 7 5 30 Outgoing emptyHandler))"
  using handler_invariant [of emptyHandler 7 5 30 Outgoing] by simp

text \<open>The total reserved by contractor and direction is exact after every operation: a reserve
  adds its amount to its own contractor and direction, a free takes it away, an update exchanges the
  old amount for the new one, and no other total changes.\<close>

theorem reserved_exact:
  assumes "handler_ok h" and "r \<in> set (held h c)"
  shows "(\<forall>n h'. reserve c u a d h = (Inr n, h') \<longrightarrow>
        reserved h' c' d' = reserved h c' d' + (if c' = c \<and> d' = d then a else 0))
    \<and> (\<forall>h'. free c r h = (Inr (), h') \<longrightarrow>
        reserved h' c' d' + (if c' = c \<and> d' = mDirection r then mBlockedAmount r else 0) =
        reserved h c' d')
    \<and> (\<forall>n h'. updateReservation c r a h = (Inr n, h') \<longrightarrow>
        reserved h' c' d' + (if c' = c \<and> d' = mDirection r then mBlockedAmount r else 0) =
        reserved h c' d' + (if c' = c \<and> d' = mDirection r then a else 0))"
  using assms ledger.lock_locked ledger.unlock_locked ledger.relock_locked by metis

definition sampleHandler :: AmountReservationsHandler where
  "sampleHandler = snd (reserve 7 6 5 Incoming (snd (reserve 7 5 30 Outgoing emptyHandler)))"

definition sampleReservation :: AmountReservation where
  "sampleReservation =
     \<lparr>resRef = 0, mTransactionUUID = 5, mBlockedAmount = 30, mDirection = Outgoing\<rparr>"

lemma sampleHandler_eq:
  "sampleHandler = \<lparr>mReservations = [(7, [sampleReservation,
     \<lparr>resRef = 1, mTransactionUUID = 6, mBlockedAmount = 5, mDirection = Incoming\<rparr>])], nextRef = 2\<rparr>"
  by (simp add: sampleHandler_def sampleReservation_def reserve_def emptyHandler_def Let_def
      numeral_2_eq_2)

lemma sampleHandler_ok [simp]: "handler_ok sampleHandler"
  by (simp add: sampleHandler_eq handler_ok_def sampleReservation_def)

lemma sampleReservation_held: "sampleReservation \<in> set (held sampleHandler 7)"
  by (simp add: sampleHandler_eq reservations_def)

theorem reserved_exact_witness:
  "reserved (snd (updateReservation 7 sampleReservation 12 sampleHandler)) 7 Outgoing = 12"
proof -
  have "reserved sampleHandler 7 Outgoing = 30" and "mBlockedAmount sampleReservation = 30"
    and "mDirection sampleReservation = Outgoing"
    by (simp_all add: sampleHandler_eq sampleReservation_def reserved_def reservations_def amountOf_def)
  moreover have "\<exists>n h'. updateReservation 7 sampleReservation 12 sampleHandler = (Inr n, h')"
    by (simp add: sampleHandler_eq sampleReservation_def updateReservation_def Let_def)
  ultimately show ?thesis
    using reserved_exact [OF sampleHandler_ok sampleReservation_held, of _ _ _ 7 Outgoing] by force
qed

text \<open>A granted reservation can be dropped again, and dropping it restores every total; until
  then \<open>getReservation\<close> finds a reservation with exactly its transaction, amount and direction.\<close>

theorem reserve_free_roundtrip:
  assumes "handler_ok h" and "0 < a"
  shows "\<exists>r h1 h2. reserve c u a d h = (Inr r, h1) \<and> free c r h1 = (Inr (), h2) \<and>
    reserved h2 = reserved h \<and>
    (\<exists>g. getReservation h1 c u a d = Inr g \<and> sameReservation g r)"
proof -
  obtain r h1 where r: "reserve c u a d h = (Inr r, h1)"
    using assms(2) by (simp add: reserve_cases Let_def)
  obtain h2 where h2: "free c r h1 = (Inr (), h2)" "reserved h2 = reserved h"
    using ledger.lock_unlock [OF r assms(1)] by blast
  obtain rs where rs: "map_of (mReservations h1) c = Some rs" "r \<in> set rs"
    using reserve_Inr(3) [OF r, of c]
    by (cases "map_of (mReservations h1) c") (auto simp: reservations_def)
  let ?p = "\<lambda>x. mTransactionUUID x = u \<and> mBlockedAmount x = a \<and> mDirection x = d"
  have p: "?p r" using reserve_Inr(2) [OF r] by simp
  obtain g where g: "find ?p rs = Some g" "?p g"
    using p rs(2) by (cases "find ?p rs") (auto simp: find_None_iff find_Some_iff)
  have "getReservation h1 c u a d = Inr g \<and> sameReservation g r"
    using rs(1) g p by (simp add: getReservation_def sameReservation_def)
  with r h2 show ?thesis by blast
qed

theorem reserve_free_roundtrip_witness:
  "\<exists>r h1 h2. reserve 7 6 4 Outgoing sampleHandler = (Inr r, h1) \<and> free 7 r h1 = (Inr (), h2) \<and>
     reserved h2 = reserved sampleHandler"
  using reserve_free_roundtrip [OF sampleHandler_ok, of 4 7 6 Outgoing] by auto

end
