(* ===== verification/Trust_Line.thy ===== *)
theory Trust_Line
  imports Amounts
begin

text \<open>
  One trust line: \<^verbatim>\<open>src/src/core/trust_lines/TrustLine.h\<close> and \<^verbatim>\<open>TrustLine.cpp\<close>. The record has the
  fields of the class, each operation is one definition. A positive balance is a debt of the
  contractor to this node (bounded by the outgoing trust amount), a negative balance a debt of this
  node (bounded by the incoming trust amount). The lemmas give the exact result of every operation
  inside the limits and the symmetry between the two ends of a line.
\<close>

datatype TrustLineState =
  Init | Active | AuditPending | Archived | Conflict | ConflictResolving | ResetPending | Reset

record TrustLine =
  mContractorID :: ContractorID
  mID :: TrustLineID
  mIncomingTrustAmount :: TrustLineAmount
  mOutgoingTrustAmount :: TrustLineAmount
  mBalance :: TrustLineBalance
  mTotalOutgoingReceiptsAmount :: TrustLineAmount
  mTotalIncomingReceiptsAmount :: TrustLineAmount
  mIsContractorGateway :: bool
  mState :: TrustLineState
  mCurrentAudit :: AuditNumber
  mIsOwnKeysPresent :: bool
  mIsContractorKeysPresent :: bool

definition kInitialAuditNumber :: AuditNumber where
  "kInitialAuditNumber = 0"

section \<open>Construction\<close>

definition newTrustLine ::
  "TrustLineID \<Rightarrow> ContractorID \<Rightarrow> bool \<Rightarrow> TrustLineState \<Rightarrow> TrustLine" where
  "newTrustLine trustLineID contractorID isContractorGateway state =
     \<lparr>mContractorID = contractorID, mID = trustLineID,
      mIncomingTrustAmount = 0, mOutgoingTrustAmount = 0, mBalance = 0,
      mTotalOutgoingReceiptsAmount = 0, mTotalIncomingReceiptsAmount = 0,
      mIsContractorGateway = isContractorGateway, mState = state,
      mCurrentAudit = kInitialAuditNumber,
      mIsOwnKeysPresent = False, mIsContractorKeysPresent = False\<rparr>"

definition newInitTrustLine :: "ContractorID \<Rightarrow> TrustLineID \<Rightarrow> TrustLine" where
  "newInitTrustLine contractorID trustLineID =
     \<lparr>mContractorID = contractorID, mID = trustLineID,
      mIncomingTrustAmount = 0, mOutgoingTrustAmount = 0, mBalance = 0,
      mTotalOutgoingReceiptsAmount = 0, mTotalIncomingReceiptsAmount = 0,
      mIsContractorGateway = False, mState = Init,
      mCurrentAudit = kInitialAuditNumber,
      mIsOwnKeysPresent = False, mIsContractorKeysPresent = False\<rparr>"

section \<open>Setters that refuse the largest value\<close>

definition setIncomingTrustAmount :: "TrustLineAmount \<Rightarrow> TrustLine \<Rightarrow> TrustLine result" where
  "setIncomingTrustAmount amount line =
     (if kMaxAmount = amount then Inl ValueError else Inr (line\<lparr>mIncomingTrustAmount := amount\<rparr>))"

definition setOutgoingTrustAmount :: "TrustLineAmount \<Rightarrow> TrustLine \<Rightarrow> TrustLine result" where
  "setOutgoingTrustAmount amount line =
     (if kMaxAmount = amount then Inl ValueError else Inr (line\<lparr>mOutgoingTrustAmount := amount\<rparr>))"

definition setBalance :: "TrustLineBalance \<Rightarrow> TrustLine \<Rightarrow> TrustLine result" where
  "setBalance balance line =
     (if kMaxBalance = balance then Inl ValueError else Inr (line\<lparr>mBalance := balance\<rparr>))"

definition setTotalOutgoingReceiptsAmount ::
  "TrustLineAmount \<Rightarrow> TrustLine \<Rightarrow> TrustLine result" where
  "setTotalOutgoingReceiptsAmount amount line =
     (if kMaxAmount = amount then Inl ValueError
      else Inr (line\<lparr>mTotalOutgoingReceiptsAmount := amount\<rparr>))"

definition setTotalIncomingReceiptsAmount ::
  "TrustLineAmount \<Rightarrow> TrustLine \<Rightarrow> TrustLine result" where
  "setTotalIncomingReceiptsAmount amount line =
     (if kMaxAmount = amount then Inl ValueError
      else Inr (line\<lparr>mTotalIncomingReceiptsAmount := amount\<rparr>))"

section \<open>Amounts that can still be used\<close>

definition availableOutgoingAmount :: "TrustLine \<Rightarrow> TrustLineAmount result" where
  "availableOutgoingAmount line =
     (if mBalance line < 0
      then bindR (absoluteBalanceAmount (mBalance line)) (\<lambda>absolute.
             if absolute > mIncomingTrustAmount line then Inr 0
             else to_amount (wrap256 (int (mIncomingTrustAmount line) + mBalance line)))
      else to_amount (wrap256 (int (mIncomingTrustAmount line) + mBalance line)))"

definition availableIncomingAmount :: "TrustLine \<Rightarrow> TrustLineAmount result" where
  "availableIncomingAmount line =
     (if mBalance line > 0
      then bindR (absoluteBalanceAmount (mBalance line)) (\<lambda>absolute.
             if absolute > mOutgoingTrustAmount line then Inr 0
             else to_amount (wrap256 (int (mOutgoingTrustAmount line) - mBalance line)))
      else to_amount (wrap256 (int (mOutgoingTrustAmount line) - mBalance line)))"

definition usedAmountByContractor :: "TrustLine \<Rightarrow> TrustLineAmount result" where
  "usedAmountByContractor line = (if mBalance line \<ge> 0 then to_amount (mBalance line) else Inr 0)"

definition usedAmountBySelf :: "TrustLine \<Rightarrow> TrustLineAmount result" where
  "usedAmountBySelf line = (if mBalance line \<le> 0 then to_amount (wrap256 (- mBalance line)) else Inr 0)"

definition isTrustLineOverflowed :: "TrustLine \<Rightarrow> bool" where
  "isTrustLineOverflowed line =
     (if mTotalIncomingReceiptsAmount line > mOutgoingTrustAmount line
         \<or> mTotalOutgoingReceiptsAmount line > mIncomingTrustAmount line
      then True else False)"

definition resetTotalReceiptsAmounts :: "TrustLine \<Rightarrow> TrustLine" where
  "resetTotalReceiptsAmounts line =
     line\<lparr>mTotalOutgoingReceiptsAmount := 0, mTotalIncomingReceiptsAmount := 0\<rparr>"

definition sameContractor :: "TrustLine \<Rightarrow> TrustLine \<Rightarrow> bool" where
  "sameContractor contractor1 contractor2 \<longleftrightarrow> mContractorID contractor1 = mContractorID contractor2"

section \<open>Payments\<close>

text \<open>The assignment of the new balance happens before the checked addition that may throw.\<close>

definition settleOutgoing ::
  "TrustLineBalance \<Rightarrow> TrustLineAmount \<Rightarrow> TrustLine \<Rightarrow> unit result \<times> TrustLine" where
  "settleOutgoing kNewBalance amount line =
     (let line' = line\<lparr>mBalance := kNewBalance\<rparr>
      in case checked_add (mTotalOutgoingReceiptsAmount line') amount of
           Inl e \<Rightarrow> throwing e line'
         | Inr receipts \<Rightarrow> returning () (line'\<lparr>mTotalOutgoingReceiptsAmount := receipts\<rparr>))"

definition settleIncoming ::
  "TrustLineBalance \<Rightarrow> TrustLineAmount \<Rightarrow> TrustLine \<Rightarrow> unit result \<times> TrustLine" where
  "settleIncoming kNewBalance amount line =
     (let line' = line\<lparr>mBalance := kNewBalance\<rparr>
      in case checked_add (mTotalIncomingReceiptsAmount line') amount of
           Inl e \<Rightarrow> throwing e line'
         | Inr receipts \<Rightarrow> returning () (line'\<lparr>mTotalIncomingReceiptsAmount := receipts\<rparr>))"

definition pay :: "TrustLineAmount \<Rightarrow> TrustLine \<Rightarrow> unit result \<times> TrustLine" where
  "pay amount line =
     (let kNewBalance = wrap256 (mBalance line - int amount);
          sameSign = wrap256 (mBalance line * kNewBalance) > 0
      in if sameSign \<and> mBalance line > 0 \<and> mBalance line > kNewBalance
         then settleOutgoing kNewBalance amount line
         else if sameSign \<and> mBalance line < 0 \<and> mBalance line < kNewBalance
         then settleOutgoing kNewBalance amount line
         else if kNewBalance < 0 \<and> \<bar>kNewBalance\<bar> > int (mIncomingTrustAmount line)
         then throwing OverflowError line
         else if kNewBalance > 0 \<and> kNewBalance > int (mOutgoingTrustAmount line)
         then throwing OverflowError line
         else settleOutgoing kNewBalance amount line)"

definition acceptPayment :: "TrustLineAmount \<Rightarrow> TrustLine \<Rightarrow> unit result \<times> TrustLine" where
  "acceptPayment amount line =
     (let kNewBalance = wrap256 (mBalance line + int amount);
          sameSign = wrap256 (mBalance line * kNewBalance) > 0
      in if sameSign \<and> mBalance line > 0 \<and> mBalance line > kNewBalance
         then settleIncoming kNewBalance amount line
         else if sameSign \<and> mBalance line < 0 \<and> mBalance line < kNewBalance
         then settleIncoming kNewBalance amount line
         else if kNewBalance < 0 \<and> \<bar>kNewBalance\<bar> > int (mIncomingTrustAmount line)
         then throwing OverflowError line
         else if kNewBalance > 0 \<and> kNewBalance > int (mOutgoingTrustAmount line)
         then throwing OverflowError line
         else settleIncoming kNewBalance amount line)"

section \<open>Well-formed lines\<close>

text \<open>Every field holds a value of its type; \<open>within_limits\<close>: no side owes more than it is trusted.\<close>

definition trust_line_ok :: "TrustLine \<Rightarrow> bool" where
  "trust_line_ok line \<longleftrightarrow>
     amount_ok (mIncomingTrustAmount line) \<and> amount_ok (mOutgoingTrustAmount line) \<and>
     balance_ok (mBalance line) \<and>
     amount_ok (mTotalOutgoingReceiptsAmount line) \<and> amount_ok (mTotalIncomingReceiptsAmount line)"

definition within_limits :: "TrustLine \<Rightarrow> bool" where
  "within_limits line \<longleftrightarrow>
     - int (mIncomingTrustAmount line) \<le> mBalance line \<and> mBalance line \<le> int (mOutgoingTrustAmount line)"

text \<open>What is left to pay and to accept, as exact integers.\<close>

definition outgoing_room :: "TrustLine \<Rightarrow> nat" where
  "outgoing_room line = nat (int (mIncomingTrustAmount line) + mBalance line)"

definition incoming_room :: "TrustLine \<Rightarrow> nat" where
  "incoming_room line = nat (int (mOutgoingTrustAmount line) - mBalance line)"

lemma availableOutgoingAmount_room:
  assumes "trust_line_ok line" and "outgoing_room line < 2 ^ 256"
  shows "availableOutgoingAmount line = Inr (outgoing_room line)"
proof -
  have b: "balance_ok (mBalance line)" and i: "amount_ok (mIncomingTrustAmount line)"
    using assms(1) by (simp_all add: trust_line_ok_def)
  have r: "int (mIncomingTrustAmount line) + mBalance line < 2 ^ 256"
    using assms(2) by (simp add: outgoing_room_def)
  show ?thesis
  proof (cases "\<bar>mBalance line\<bar> > int (mIncomingTrustAmount line) \<and> mBalance line < 0")
    case True
    then show ?thesis
      using b by (auto simp: availableOutgoingAmount_def outgoing_room_def amount_simps)
  next
    case False
    then have "0 \<le> int (mIncomingTrustAmount line) + mBalance line" by linarith
    with r False b show ?thesis
      by (auto simp: availableOutgoingAmount_def outgoing_room_def amount_simps)
  qed
qed

lemma availableIncomingAmount_room:
  assumes "trust_line_ok line" and "incoming_room line < 2 ^ 256"
  shows "availableIncomingAmount line = Inr (incoming_room line)"
proof -
  have b: "balance_ok (mBalance line)"
    using assms(1) by (simp add: trust_line_ok_def)
  have r: "int (mOutgoingTrustAmount line) - mBalance line < 2 ^ 256"
    using assms(2) by (simp add: incoming_room_def)
  show ?thesis
  proof (cases "mBalance line > int (mOutgoingTrustAmount line)")
    case True
    then show ?thesis
      using b by (auto simp: availableIncomingAmount_def incoming_room_def amount_simps)
  next
    case False
    then have "0 \<le> int (mOutgoingTrustAmount line) - mBalance line" by linarith
    with r False b show ?thesis
      by (auto simp: availableIncomingAmount_def incoming_room_def amount_simps)
  qed
qed

lemma wrap256_pos: "0 < wrap256 x \<Longrightarrow> 0 < x"
  by (cases x "0 :: int" rule: linorder_cases) (auto simp: wrap256_def)

lemma settleOutgoing_Inr [simp]:
  "mTotalOutgoingReceiptsAmount line + amount < 2 ^ 256 \<Longrightarrow>
     settleOutgoing b amount line =
       returning () (line\<lparr>mBalance := b,
         mTotalOutgoingReceiptsAmount := mTotalOutgoingReceiptsAmount line + amount\<rparr>)"
  by (simp add: settleOutgoing_def checked_add_def Let_def)

lemma pay_in_limits:
  assumes ok: "trust_line_ok line" "within_limits line"
    and fits: "int amount - mBalance line < 2 ^ 256"
      "mTotalOutgoingReceiptsAmount line + amount < 2 ^ 256"
  shows "pay amount line =
    (if amount \<le> outgoing_room line
     then returning () (line\<lparr>mBalance := mBalance line - int amount,
       mTotalOutgoingReceiptsAmount := mTotalOutgoingReceiptsAmount line + amount\<rparr>)
     else throwing OverflowError line)"
proof -
  have new: "wrap256 (mBalance line - int amount) = mBalance line - int amount"
    using ok fits(1) by (intro wrap256_id) (auto simp: trust_line_ok_def)
  have sign: "0 < wrap256 (mBalance line * (mBalance line - int amount)) \<Longrightarrow>
      0 < mBalance line * (mBalance line - int amount)"
    by (rule wrap256_pos)
  show ?thesis
  proof (cases "amount \<le> outgoing_room line")
    case True
    then show ?thesis
      using ok(2) fits(2)
      by (auto simp: pay_def new Let_def outgoing_room_def within_limits_def)
  next
    case False
    then have neg: "mBalance line - int amount < - int (mIncomingTrustAmount line)"
      using ok(2) by (simp add: outgoing_room_def within_limits_def)
    then have "\<not> (0 < mBalance line \<and> 0 < mBalance line * (mBalance line - int amount))"
      by (auto simp: zero_less_mult_iff)
    with False neg sign show ?thesis
      by (auto simp: pay_def new Let_def)
  qed
qed

section \<open>The two ends of a line\<close>

text \<open>
  The contractor keeps the same line with the directions exchanged and the balance negated.
\<close>

definition mirror :: "TrustLine \<Rightarrow> TrustLine" where
  "mirror line = line\<lparr>
     mIncomingTrustAmount := mOutgoingTrustAmount line,
     mOutgoingTrustAmount := mIncomingTrustAmount line,
     mBalance := - mBalance line,
     mTotalOutgoingReceiptsAmount := mTotalIncomingReceiptsAmount line,
     mTotalIncomingReceiptsAmount := mTotalOutgoingReceiptsAmount line\<rparr>"

lemma mirror_fields [simp]:
  "mIncomingTrustAmount (mirror line) = mOutgoingTrustAmount line"
  "mOutgoingTrustAmount (mirror line) = mIncomingTrustAmount line"
  "mBalance (mirror line) = - mBalance line"
  "mTotalOutgoingReceiptsAmount (mirror line) = mTotalIncomingReceiptsAmount line"
  "mTotalIncomingReceiptsAmount (mirror line) = mTotalOutgoingReceiptsAmount line"
  by (simp_all add: mirror_def)

lemma mirror_mirror [simp]: "mirror (mirror line) = line"
  by (simp add: mirror_def)

lemma mirror_ok [simp]: "trust_line_ok (mirror line) = trust_line_ok line"
  by (auto simp: trust_line_ok_def)

lemma mirror_limits [simp]: "within_limits (mirror line) = within_limits line"
  by (auto simp: within_limits_def)

lemma mirror_room [simp]:
  "outgoing_room (mirror line) = incoming_room line"
  "incoming_room (mirror line) = outgoing_room line"
  by (simp_all add: outgoing_room_def incoming_room_def)

lemma settle_mirror:
  "settleIncoming (- b) amount (mirror line) = map_prod id mirror (settleOutgoing b amount line)"
  by (auto simp: settleIncoming_def settleOutgoing_def mirror_def checked_add_def Let_def)

lemma accept_mirror: "acceptPayment amount (mirror line) = map_prod id mirror (pay amount line)"
proof -
  define n where "n = wrap256 (mBalance line - int amount)"
  have neg: "wrap256 (- mBalance line + int amount) = - n"
    using wrap256_minus [of "mBalance line - int amount"] by (simp add: n_def)
  show ?thesis
    unfolding acceptPayment_def pay_def Let_def mirror_fields neg n_def [symmetric]
    by (simp add: settle_mirror abs_if)
qed

lemma accept_in_limits:
  assumes ok: "trust_line_ok line" "within_limits line"
    and fits: "int amount + mBalance line < 2 ^ 256"
      "mTotalIncomingReceiptsAmount line + amount < 2 ^ 256"
  shows "acceptPayment amount line =
    (if amount \<le> incoming_room line
     then returning () (line\<lparr>mBalance := mBalance line + int amount,
       mTotalIncomingReceiptsAmount := mTotalIncomingReceiptsAmount line + amount\<rparr>)
     else throwing OverflowError line)"
proof -
  have "acceptPayment amount line = map_prod id mirror (pay amount (mirror line))"
    using accept_mirror [of amount "mirror line"] by simp
  moreover have "pay amount (mirror line) =
    (if amount \<le> incoming_room line
     then returning () (mirror line\<lparr>mBalance := - mBalance line - int amount,
       mTotalOutgoingReceiptsAmount := mTotalIncomingReceiptsAmount line + amount\<rparr>)
     else throwing OverflowError (mirror line))"
    using ok fits pay_in_limits [of "mirror line" amount] by simp
  ultimately show ?thesis by (simp add: mirror_def)
qed

section \<open>Properties\<close>

text \<open>The available amounts are exact. On a line whose fields are in range, what can still be
  paid is the incoming limit plus the balance and what can still be accepted is the outgoing limit
  minus the balance, zero when that is negative, with no wrap-around.\<close>

theorem available_amounts_exact:
  assumes "trust_line_ok line" and "mIncomingTrustAmount line + mOutgoingTrustAmount line < 2 ^ 256"
    and "within_limits line"
  shows "availableOutgoingAmount line = Inr (nat (int (mIncomingTrustAmount line) + mBalance line))
    \<and> availableIncomingAmount line = Inr (nat (int (mOutgoingTrustAmount line) - mBalance line))"
proof -
  have "outgoing_room line < 2 ^ 256" "incoming_room line < 2 ^ 256"
    using assms by (auto simp: outgoing_room_def incoming_room_def within_limits_def nat_less_iff)
  then show ?thesis
    using availableOutgoingAmount_room [OF assms(1)] availableIncomingAmount_room [OF assms(1)]
    by (simp add: outgoing_room_def incoming_room_def)
qed

definition sampleLine :: TrustLine where
  "sampleLine = (newTrustLine 1 7 False Active)
     \<lparr>mIncomingTrustAmount := 100, mOutgoingTrustAmount := 50, mBalance := - 30,
        mIsOwnKeysPresent := True, mIsContractorKeysPresent := True\<rparr>"

lemma sampleLine_fields [simp]:
  "mIncomingTrustAmount sampleLine = 100" "mOutgoingTrustAmount sampleLine = 50"
  "mBalance sampleLine = - 30" "mTotalOutgoingReceiptsAmount sampleLine = 0"
  "mTotalIncomingReceiptsAmount sampleLine = 0" "mState sampleLine = Active"
  "mContractorID sampleLine = 7" "mIsOwnKeysPresent sampleLine" "mIsContractorKeysPresent sampleLine"
  by (simp_all add: sampleLine_def newTrustLine_def)

lemma sampleLine_ok [simp]: "trust_line_ok sampleLine" "within_limits sampleLine"
  by (simp_all add: trust_line_ok_def within_limits_def)

theorem available_amounts_exact_witness:
  "availableOutgoingAmount sampleLine = Inr 70 \<and> availableIncomingAmount sampleLine = Inr 80"
  using available_amounts_exact [of sampleLine] by simp

text \<open>C36: inside the limits \<open>pay\<close> succeeds exactly when the amount is available; it then lowers
  the balance and raises the outgoing receipts by the amount and changes nothing else, and the
  balance stays inside the limits. Otherwise it throws \<open>OverflowError\<close> and changes nothing.\<close>

theorem pay_exact:
  assumes "trust_line_ok line" and "within_limits line"
    and "int amount - mBalance line < 2 ^ 256"
    and "mTotalOutgoingReceiptsAmount line + amount < 2 ^ 256"
  shows "(if int amount \<le> int (mIncomingTrustAmount line) + mBalance line
     then pay amount line = returning () (line\<lparr>mBalance := mBalance line - int amount,
            mTotalOutgoingReceiptsAmount := mTotalOutgoingReceiptsAmount line + amount\<rparr>)
     else pay amount line = throwing OverflowError line)
    \<and> within_limits (snd (pay amount line))"
proof -
  have "amount \<le> outgoing_room line \<longleftrightarrow> int amount \<le> int (mIncomingTrustAmount line) + mBalance line"
    using assms(2) by (auto simp: outgoing_room_def within_limits_def le_nat_iff)
  then show ?thesis
    using pay_in_limits [OF assms] assms(2) by (auto simp: within_limits_def)
qed

theorem pay_exact_witness:
  "pay 70 sampleLine = returning () (sampleLine\<lparr>mBalance := - 100, mTotalOutgoingReceiptsAmount := 70\<rparr>)
   \<and> pay 71 sampleLine = throwing OverflowError sampleLine"
  using pay_exact [of sampleLine 70] pay_exact [of sampleLine 71] by simp

text \<open>C37: the two ends of a line stay consistent. Whenever one side pays, the other side, whose
  record is the mirror image (limits and receipts exchanged, balance negated), gets the mirror image
  of the same result by accepting the payment, errors included.\<close>

theorem accept_mirrors_pay:
  "acceptPayment amount (mirror line) = (fst (pay amount line), mirror (snd (pay amount line)))"
  by (simp add: accept_mirror map_prod_def split_beta)

end
