(* ===== verification/Trust_Line_Storage.thy ===== *)
theory Trust_Line_Storage
  imports Trust_Line
begin

text \<open>
  The table of trust lines: \<^verbatim>\<open>src/src/core/io/storage/TrustLineHandler.cpp\<close>. A row has the columns
  of the \<^verbatim>\<open>CREATE TABLE\<close> statement, and the constraints the code declares decide when an
  \<^verbatim>\<open>INSERT\<close> is refused: \<open>id\<close> is the primary key, \<open>(contractor_id, equivalent)\<close> is unique, and
  \<open>contractor_id\<close> must name a contractor (\<^verbatim>\<open>StorageHandler.cpp\<close> turns foreign keys on). Every
  other failure of the database engine (\<open>broken\<close>) is an \<open>IOError\<close>, as in the code.
\<close>

record TrustLineRow =
  rowId :: TrustLineID
  rowState :: TrustLineState
  rowContractorId :: ContractorID
  rowEquivalent :: SerializedEquivalent
  rowIsContractorGateway :: bool

record TrustLineStore =
  lineRows :: "TrustLineRow list"
  contractorRows :: "ContractorID list"
  broken :: bool

section \<open>Statements\<close>

definition saveTrustLine ::
  "TrustLine \<Rightarrow> SerializedEquivalent \<Rightarrow> TrustLineStore \<Rightarrow> unit result \<times> TrustLineStore" where
  "saveTrustLine trustLine equivalent store =
     (let row = \<lparr>rowId = mID trustLine, rowState = mState trustLine,
                 rowContractorId = mContractorID trustLine, rowEquivalent = equivalent,
                 rowIsContractorGateway = mIsContractorGateway trustLine\<rparr>
      in if broken store
            \<or> (\<exists>r \<in> set (lineRows store). rowId r = rowId row)
            \<or> (\<exists>r \<in> set (lineRows store). rowContractorId r = rowContractorId row
                                            \<and> rowEquivalent r = rowEquivalent row)
            \<or> rowContractorId row \<notin> set (contractorRows store)
         then throwing IOError store
         else returning () (store\<lparr>lineRows := lineRows store @ [row]\<rparr>))"

definition deleteTrustLine ::
  "ContractorID \<Rightarrow> SerializedEquivalent \<Rightarrow> TrustLineStore \<Rightarrow> unit result \<times> TrustLineStore" where
  "deleteTrustLine contractorID equivalent store =
     (if broken store then throwing IOError store
      else returning ()
        (store\<lparr>lineRows :=
           filter (\<lambda>r. \<not> (rowContractorId r = contractorID \<and> rowEquivalent r = equivalent))
             (lineRows store)\<rparr>))"

text \<open>The \<^verbatim>\<open>WHERE id = ? AND equivalent = ? AND contractor_id = ?\<close> of both updates.\<close>

definition isRowOf :: "TrustLine \<Rightarrow> SerializedEquivalent \<Rightarrow> TrustLineRow \<Rightarrow> bool" where
  "isRowOf trustLine equivalent r \<longleftrightarrow>
     rowId r = mID trustLine \<and> rowEquivalent r = equivalent \<and>
     rowContractorId r = mContractorID trustLine"

definition updateTrustLineState ::
  "TrustLine \<Rightarrow> SerializedEquivalent \<Rightarrow> TrustLineStore \<Rightarrow> unit result \<times> TrustLineStore" where
  "updateTrustLineState trustLine equivalent store =
     (if broken store then throwing IOError store
      else if filter (isRowOf trustLine equivalent) (lineRows store) = []
      then throwing ValueError store
      else returning ()
        (store\<lparr>lineRows :=
           map (\<lambda>r. if isRowOf trustLine equivalent r then r\<lparr>rowState := mState trustLine\<rparr> else r)
             (lineRows store)\<rparr>))"

definition updateTrustLineIsContractorGateway ::
  "TrustLine \<Rightarrow> SerializedEquivalent \<Rightarrow> TrustLineStore \<Rightarrow> unit result \<times> TrustLineStore" where
  "updateTrustLineIsContractorGateway trustLine equivalent store =
     (if broken store then throwing IOError store
      else if filter (isRowOf trustLine equivalent) (lineRows store) = []
      then throwing ValueError store
      else returning ()
        (store\<lparr>lineRows :=
           map (\<lambda>r. if isRowOf trustLine equivalent r
                    then r\<lparr>rowIsContractorGateway := mIsContractorGateway trustLine\<rparr> else r)
             (lineRows store)\<rparr>))"

section \<open>Queries\<close>

definition allTrustLinesByEquivalent ::
  "SerializedEquivalent \<Rightarrow> TrustLineStore \<Rightarrow> TrustLine list result" where
  "allTrustLinesByEquivalent equivalent store =
     (if broken store then Inl IOError
      else Inr (map (\<lambda>r. newTrustLine (rowId r) (rowContractorId r) (rowIsContractorGateway r)
                          (rowState r))
                 (filter (\<lambda>r. rowEquivalent r = equivalent) (lineRows store))))"

definition allTrustLinesByContractor ::
  "ContractorID \<Rightarrow> TrustLineStore \<Rightarrow> TrustLine list result" where
  "allTrustLinesByContractor contractorID store =
     (if broken store then Inl IOError
      else Inr (map (\<lambda>r. newTrustLine (rowId r) contractorID (rowIsContractorGateway r) (rowState r))
                 (filter (\<lambda>r. rowContractorId r = contractorID) (lineRows store))))"

definition equivalents :: "TrustLineStore \<Rightarrow> SerializedEquivalent list result" where
  "equivalents store =
     (if broken store then Inl IOError else Inr (remdups (map rowEquivalent (lineRows store))))"

definition allIDs :: "TrustLineStore \<Rightarrow> TrustLineID list result" where
  "allIDs store = (if broken store then Inl IOError else Inr (map rowId (lineRows store)))"

section \<open>Integrity of the table\<close>

definition store_ok :: "TrustLineStore \<Rightarrow> bool" where
  "store_ok store \<longleftrightarrow>
     distinct (map rowId (lineRows store)) \<and>
     distinct (map (\<lambda>r. (rowContractorId r, rowEquivalent r)) (lineRows store)) \<and>
     (\<forall>r \<in> set (lineRows store). rowContractorId r \<in> set (contractorRows store))"

lemma saveTrustLine_ok:
  "store_ok store \<Longrightarrow> saveTrustLine line equivalent store = (res, store') \<Longrightarrow> store_ok store'"
  by (auto simp: saveTrustLine_def store_ok_def Let_def split: if_splits) blast+

lemma deleteTrustLine_ok:
  "store_ok store \<Longrightarrow> deleteTrustLine c equivalent store = (res, store') \<Longrightarrow> store_ok store'"
  by (auto simp: deleteTrustLine_def store_ok_def distinct_map_filter split: if_splits)

lemma update_rows_ok:
  assumes "store_ok store" and "\<And>r. rowId (f r) = rowId r"
    and "\<And>r. rowContractorId (f r) = rowContractorId r" and "\<And>r. rowEquivalent (f r) = rowEquivalent r"
  shows "store_ok (store\<lparr>lineRows := map f (lineRows store)\<rparr>)"
  using assms by (simp add: store_ok_def comp_def)

lemma updateTrustLineState_ok:
  "store_ok store \<Longrightarrow> updateTrustLineState line equivalent store = (res, store') \<Longrightarrow> store_ok store'"
  by (auto simp: updateTrustLineState_def split: if_splits intro!: update_rows_ok)

lemma updateGateway_ok:
  "store_ok store \<Longrightarrow> updateTrustLineIsContractorGateway line equivalent store = (res, store') \<Longrightarrow>
     store_ok store'"
  by (auto simp: updateTrustLineIsContractorGateway_def split: if_splits intro!: update_rows_ok)

lemma saveTrustLine_Inr:
  "saveTrustLine line equivalent store = (Inr (), store') \<Longrightarrow>
     lineRows store' = lineRows store @
       [\<lparr>rowId = mID line, rowState = mState line, rowContractorId = mContractorID line,
         rowEquivalent = equivalent, rowIsContractorGateway = mIsContractorGateway line\<rparr>] \<and>
     broken store' = broken store \<and> contractorRows store' = contractorRows store"
  by (auto simp: saveTrustLine_def Let_def split: if_splits)

end
