(* ===== verification/Trust_Lines_Manager.thy ===== *)
theory Trust_Lines_Manager
  imports Reservations Trust_Line_Storage
begin

text \<open>
  \<^verbatim>\<open>src/src/core/trust_lines/manager/TrustLinesManager.cpp\<close> and \<^verbatim>\<open>trust_lines/audit_rules/\<close>: the
  trust lines of one equivalent with the reservations on them.

  The two unordered maps are association lists; nothing below depends on their order beyond the
  order of the produced vectors, which the code leaves to the container. The objects behind the
  shared pointers of \<^verbatim>\<open>mTrustLines\<close> are mutated in place, which is an update of the entry here. What
  the manager reads from the audit and receipt tables and from the keychain is the record
  \<open>AuditStorage\<close>, a parameter; the table of trust lines is that of \<open>Trust_Line_Storage\<close>.

  The lemmas show the capacity invariant \<open>manager_ok\<close>: for every contractor and direction the
  reserved amount stays within what the line can still carry. It comes from the contract
  \<open>reservation_ledger\<close>, and it is why a reservation that was granted can always be used.
\<close>

datatype BaseAuditRule = AuditRuleCountPayments "32 word" | AuditRuleBoundaryOverflowed

datatype TrustLineOperationResult = Opened | Updated | Closed | NoChanges

datatype TrustLineActionType = NoActions | Audit | KeysSharing

record TrustLinesManager =
  mTrustLines :: "(ContractorID \<times> TrustLine) list"
  mEquivalent :: SerializedEquivalent
  mAuditRules :: "(ContractorID \<times> BaseAuditRule) list"
  mContractorsShouldBePinged :: "ContractorID list"
  mAmountReservationsHandler :: AmountReservationsHandler

record AuditRecord =
  auditNumberOf :: AuditNumber
  incomingAmountOf :: TrustLineAmount
  outgoingAmountOf :: TrustLineAmount
  balanceOf :: TrustLineBalance
  isPendingState :: bool

record AuditStorage =
  getActualAudit :: "TrustLineID \<Rightarrow> AuditRecord result"
  getActualAuditNumber :: "TrustLineID \<Rightarrow> AuditNumber result"
  incomingReceiptsSum :: "TrustLineID \<Rightarrow> AuditNumber \<Rightarrow> TrustLineAmount"
  outgoingReceiptsSum :: "TrustLineID \<Rightarrow> AuditNumber \<Rightarrow> TrustLineAmount"
  incomingReceiptsCount :: "TrustLineID \<Rightarrow> AuditNumber \<Rightarrow> 32 word"
  outgoingReceiptsCount :: "TrustLineID \<Rightarrow> AuditNumber \<Rightarrow> 32 word"
  ownKeysPresent :: "TrustLineID \<Rightarrow> bool"
  contractorKeysPresent :: "TrustLineID \<Rightarrow> bool"
  ownKeysCriticalCount :: "TrustLineID \<Rightarrow> bool"
  checkKeysSetAppropriate :: "TrustLineID \<Rightarrow> bool \<times> bool"

definition kCountPaymentsForAudit :: "32 word" where
  "kCountPaymentsForAudit = 10"

section \<open>Lookup\<close>

definition trustLineIsPresent :: "TrustLinesManager \<Rightarrow> ContractorID \<Rightarrow> bool" where
  "trustLineIsPresent m contractorID \<longleftrightarrow> map_of (mTrustLines m) contractorID \<noteq> None"

definition trustLineReadOnly :: "TrustLinesManager \<Rightarrow> ContractorID \<Rightarrow> TrustLine result" where
  "trustLineReadOnly m contractorID =
     (case map_of (mTrustLines m) contractorID of None \<Rightarrow> Inl NotFoundError | Some line \<Rightarrow> Inr line)"

definition isContractorGateway :: "TrustLinesManager \<Rightarrow> ContractorID \<Rightarrow> bool result" where
  "isContractorGateway m contractorID =
     bindR (trustLineReadOnly m contractorID) (\<lambda>line. Inr (mIsContractorGateway line))"

definition incomingTrustAmount :: "TrustLinesManager \<Rightarrow> ContractorID \<Rightarrow> TrustLineAmount result" where
  "incomingTrustAmount m contractorID =
     bindR (trustLineReadOnly m contractorID) (\<lambda>line. Inr (mIncomingTrustAmount line))"

definition outgoingTrustAmount :: "TrustLinesManager \<Rightarrow> ContractorID \<Rightarrow> TrustLineAmount result" where
  "outgoingTrustAmount m contractorID =
     bindR (trustLineReadOnly m contractorID) (\<lambda>line. Inr (mOutgoingTrustAmount line))"

definition balance :: "TrustLinesManager \<Rightarrow> ContractorID \<Rightarrow> TrustLineBalance result" where
  "balance m contractorID =
     bindR (trustLineReadOnly m contractorID) (\<lambda>line. Inr (mBalance line))"

definition trustLineID :: "TrustLinesManager \<Rightarrow> ContractorID \<Rightarrow> TrustLineID result" where
  "trustLineID m contractorID = bindR (trustLineReadOnly m contractorID) (\<lambda>line. Inr (mID line))"

definition auditNumber :: "TrustLinesManager \<Rightarrow> ContractorID \<Rightarrow> AuditNumber result" where
  "auditNumber m contractorID =
     bindR (trustLineReadOnly m contractorID) (\<lambda>line. Inr (mCurrentAudit line))"

definition trustLineState :: "TrustLinesManager \<Rightarrow> ContractorID \<Rightarrow> TrustLineState result" where
  "trustLineState m contractorID =
     bindR (trustLineReadOnly m contractorID) (\<lambda>line. Inr (mState line))"

definition trustLineOwnKeysPresent :: "TrustLinesManager \<Rightarrow> ContractorID \<Rightarrow> bool result" where
  "trustLineOwnKeysPresent m contractorID =
     bindR (trustLineReadOnly m contractorID) (\<lambda>line. Inr (mIsOwnKeysPresent line))"

definition trustLineContractorKeysPresent ::
  "TrustLinesManager \<Rightarrow> ContractorID \<Rightarrow> bool result" where
  "trustLineContractorKeysPresent m contractorID =
     bindR (trustLineReadOnly m contractorID) (\<lambda>line. Inr (mIsContractorKeysPresent line))"

definition trustLineIsActive :: "TrustLinesManager \<Rightarrow> ContractorID \<Rightarrow> bool result" where
  "trustLineIsActive m contractorID =
     bindR (trustLineReadOnly m contractorID) (\<lambda>line. Inr (mState line = Active))"

definition isTrustLineEmpty :: "TrustLinesManager \<Rightarrow> ContractorID \<Rightarrow> bool result" where
  "isTrustLineEmpty m contractorID =
     (if \<not> trustLineIsPresent m contractorID then Inl NotFoundError
      else bindR (outgoingTrustAmount m contractorID) (\<lambda>out.
           bindR (incomingTrustAmount m contractorID) (\<lambda>inc.
           bindR (balance m contractorID) (\<lambda>bal.
             Inr (out = 0 \<and> inc = 0 \<and> bal = 0)))))"

section \<open>Changing a line in place\<close>

text \<open>
  The handle \<^verbatim>\<open>auto trustLine = mTrustLines[contractorID]\<close> of a present line, and the write through
  it. A setter that throws leaves the line as it was.
\<close>

definition putLine :: "ContractorID \<Rightarrow> TrustLine \<Rightarrow> TrustLinesManager \<Rightarrow> TrustLinesManager" where
  "putLine contractorID line m =
     m\<lparr>mTrustLines := AList.update contractorID line (mTrustLines m)\<rparr>"

definition onLine ::
  "ContractorID \<Rightarrow> (TrustLine \<Rightarrow> TrustLine result) \<Rightarrow> TrustLinesManager \<Rightarrow>
   unit result \<times> TrustLinesManager" where
  "onLine contractorID f m =
     (case map_of (mTrustLines m) contractorID of
        None \<Rightarrow> throwing NotFoundError m
      | Some line \<Rightarrow>
          (case f line of
             Inl e \<Rightarrow> throwing e m
           | Inr line' \<Rightarrow> returning () (putLine contractorID line' m)))"

definition setIsOwnKeysPresent ::
  "ContractorID \<Rightarrow> bool \<Rightarrow> TrustLinesManager \<Rightarrow> unit result \<times> TrustLinesManager" where
  "setIsOwnKeysPresent contractorID isOwnKeysPresent =
     onLine contractorID (\<lambda>line. Inr (line\<lparr>mIsOwnKeysPresent := isOwnKeysPresent\<rparr>))"

definition setIsContractorKeysPresent ::
  "ContractorID \<Rightarrow> bool \<Rightarrow> TrustLinesManager \<Rightarrow> unit result \<times> TrustLinesManager" where
  "setIsContractorKeysPresent contractorID isContractorKeysPresent =
     onLine contractorID (\<lambda>line. Inr (line\<lparr>mIsContractorKeysPresent := isContractorKeysPresent\<rparr>))"

definition setTrustLineAuditNumber ::
  "ContractorID \<Rightarrow> AuditNumber \<Rightarrow> TrustLinesManager \<Rightarrow> unit result \<times> TrustLinesManager" where
  "setTrustLineAuditNumber contractorID newAuditNumber =
     onLine contractorID (\<lambda>line. Inr (line\<lparr>mCurrentAudit := newAuditNumber\<rparr>))"

definition resetTrustLineTotalReceiptsAmounts ::
  "ContractorID \<Rightarrow> TrustLinesManager \<Rightarrow> unit result \<times> TrustLinesManager" where
  "resetTrustLineTotalReceiptsAmounts contractorID =
     onLine contractorID (\<lambda>line. Inr (resetTotalReceiptsAmounts line))"

text \<open>Each setter of \<open>resetTrustLine\<close> writes before the next one may throw.\<close>

definition resetTrustLine ::
  "ContractorID \<Rightarrow> TrustLineAmount \<Rightarrow> TrustLineAmount \<Rightarrow> TrustLineBalance \<Rightarrow> TrustLinesManager \<Rightarrow>
   unit result \<times> TrustLinesManager" where
  "resetTrustLine contractorID incoming outgoing newBalance m =
     bindS (onLine contractorID (setIncomingTrustAmount incoming) m) (\<lambda>_ m.
     bindS (onLine contractorID (setOutgoingTrustAmount outgoing) m) (\<lambda>_ m.
     bindS (onLine contractorID (setBalance newBalance) m) (\<lambda>_ m.
       onLine contractorID (\<lambda>line. Inr (line\<lparr>mState := ResetPending\<rparr>)) m)))"

section \<open>Trust amounts\<close>

definition closeOutgoing ::
  "ContractorID \<Rightarrow> TrustLinesManager \<Rightarrow> unit result \<times> TrustLinesManager" where
  "closeOutgoing contractorID m =
     (case outgoingTrustAmount m contractorID of
        Inl e \<Rightarrow> throwing e m
      | Inr current \<Rightarrow>
          if current = 0 then throwing ValueError m
          else onLine contractorID (setOutgoingTrustAmount 0) m)"

definition closeIncoming ::
  "ContractorID \<Rightarrow> TrustLinesManager \<Rightarrow> unit result \<times> TrustLinesManager" where
  "closeIncoming contractorID m =
     (case incomingTrustAmount m contractorID of
        Inl e \<Rightarrow> throwing e m
      | Inr current \<Rightarrow>
          if current = 0 then throwing ValueError m
          else onLine contractorID (setIncomingTrustAmount 0) m)"

definition setOutgoing ::
  "ContractorID \<Rightarrow> TrustLineAmount \<Rightarrow> TrustLinesManager \<Rightarrow>
   TrustLineOperationResult result \<times> TrustLinesManager" where
  "setOutgoing contractorID amount m =
     (case outgoingTrustAmount m contractorID of
        Inl e \<Rightarrow> throwing e m
      | Inr current \<Rightarrow>
          if current = 0 then
            (if amount = 0 then throwing ValueError m
             else bindS (onLine contractorID (setOutgoingTrustAmount amount) m)
                    (\<lambda>_. returning Updated))
          else if amount = 0 then
            bindS (closeOutgoing contractorID m) (\<lambda>_. returning Closed)
          else if current = amount then returning NoChanges m
          else bindS (onLine contractorID (setOutgoingTrustAmount amount) m)
                 (\<lambda>_. returning Updated))"

definition setIncoming ::
  "ContractorID \<Rightarrow> TrustLineAmount \<Rightarrow> TrustLinesManager \<Rightarrow>
   TrustLineOperationResult result \<times> TrustLinesManager" where
  "setIncoming contractorID amount m =
     (case incomingTrustAmount m contractorID of
        Inl e \<Rightarrow> throwing e m
      | Inr current \<Rightarrow>
          if current = 0 then
            (if amount = 0 then throwing ValueError m
             else bindS (onLine contractorID (setIncomingTrustAmount amount) m)
                    (\<lambda>_. returning Updated))
          else if amount = 0 then
            bindS (closeIncoming contractorID m) (\<lambda>_. returning Closed)
          else if current = amount then returning NoChanges m
          else bindS (onLine contractorID (setIncomingTrustAmount amount) m)
                 (\<lambda>_. returning Updated))"

section \<open>What a line can still carry\<close>

definition outgoingTrustAmountConsideringReservations ::
  "TrustLinesManager \<Rightarrow> ContractorID \<Rightarrow> TrustLineAmount result" where
  "outgoingTrustAmountConsideringReservations m contractorID =
     bindR (trustLineReadOnly m contractorID) (\<lambda>kTL.
       if mState kTL \<noteq> Active then Inr 0
       else bindR (availableOutgoingAmount kTL) (\<lambda>kAvailableAmount.
            bindR (totalReserved (mAmountReservationsHandler m) contractorID Outgoing None)
              (\<lambda>kAlreadyReservedAmount.
                 if kAlreadyReservedAmount \<ge> kAvailableAmount then Inr 0
                 else checked_sub kAvailableAmount kAlreadyReservedAmount)))"

definition incomingTrustAmountConsideringReservations ::
  "TrustLinesManager \<Rightarrow> ContractorID \<Rightarrow> TrustLineAmount result" where
  "incomingTrustAmountConsideringReservations m contractorID =
     bindR (trustLineReadOnly m contractorID) (\<lambda>kTL.
       if mState kTL \<noteq> Active then Inr 0
       else bindR (availableIncomingAmount kTL) (\<lambda>kAvailableAmount.
            bindR (totalReserved (mAmountReservationsHandler m) contractorID Incoming None)
              (\<lambda>kAlreadyReservedAmount.
                 if kAlreadyReservedAmount \<ge> kAvailableAmount then Inr 0
                 else checked_sub kAvailableAmount kAlreadyReservedAmount)))"

definition availableOutgoingCycleAmounts ::
  "TrustLinesManager \<Rightarrow> ContractorID \<Rightarrow> (TrustLineAmount \<times> TrustLineAmount) result" where
  "availableOutgoingCycleAmounts m contractorID =
     bindR (trustLineReadOnly m contractorID) (\<lambda>kTL.
       if mState kTL \<noteq> Active then Inr (0, 0)
       else let kBalance = mBalance kTL in
         if kBalance \<le> 0 then Inr (0, 0)
         else bindR (totalReserved (mAmountReservationsHandler m) contractorID Outgoing None)
           (\<lambda>kAlreadyReservedAmount.
              if kAlreadyReservedAmount = 0
              then bindR (to_amount kBalance) (\<lambda>b. Inr (b, b))
              else bindR (absoluteBalanceAmount kBalance) (\<lambda>kAbsoluteBalance.
                     if kAlreadyReservedAmount > kAbsoluteBalance
                     then bindR (to_amount kBalance) (\<lambda>b. Inr (0, b))
                     else bindR (checked_sub kAbsoluteBalance kAlreadyReservedAmount) (\<lambda>a.
                          bindR (to_amount kBalance) (\<lambda>b. Inr (a, b))))))"

definition availableIncomingCycleAmounts ::
  "TrustLinesManager \<Rightarrow> ContractorID \<Rightarrow> (TrustLineAmount \<times> TrustLineAmount) result" where
  "availableIncomingCycleAmounts m contractorID =
     bindR (trustLineReadOnly m contractorID) (\<lambda>kTL.
       if mState kTL \<noteq> Active then Inr (0, 0)
       else let kBalance = mBalance kTL in
         if kBalance \<ge> 0 then Inr (0, 0)
         else bindR (totalReserved (mAmountReservationsHandler m) contractorID Incoming None)
           (\<lambda>kAlreadyReservedAmount.
              bindR (absoluteBalanceAmount kBalance) (\<lambda>kAbsoluteBalance.
                if kAlreadyReservedAmount = 0 then Inr (kAbsoluteBalance, kAbsoluteBalance)
                else if kAlreadyReservedAmount \<ge> kAbsoluteBalance then Inr (0, kAbsoluteBalance)
                else bindR (checked_sub kAbsoluteBalance kAlreadyReservedAmount)
                       (\<lambda>a. Inr (a, kAbsoluteBalance)))))"

section \<open>Reservations\<close>

text \<open>An operation of the reservations handler, run on the manager's handler.\<close>

definition onHandler ::
  "(AmountReservationsHandler \<Rightarrow> 'a result \<times> AmountReservationsHandler) \<Rightarrow> TrustLinesManager \<Rightarrow>
   'a result \<times> TrustLinesManager" where
  "onHandler f m =
     (case f (mAmountReservationsHandler m) of
        (res, h) \<Rightarrow> (res, m\<lparr>mAmountReservationsHandler := h\<rparr>))"

definition reserveOutgoingAmount ::
  "ContractorID \<Rightarrow> TransactionUUID \<Rightarrow> TrustLineAmount \<Rightarrow> TrustLinesManager \<Rightarrow>
   AmountReservation result \<times> TrustLinesManager" where
  "reserveOutgoingAmount contractor transactionUUID amount m =
     (case outgoingTrustAmountConsideringReservations m contractor of
        Inl e \<Rightarrow> throwing e m
      | Inr kAvailableAmount \<Rightarrow>
          if kAvailableAmount \<ge> amount
          then onHandler (reserve contractor transactionUUID amount Outgoing) m
          else throwing ValueError m)"

definition reserveIncomingAmount ::
  "ContractorID \<Rightarrow> TransactionUUID \<Rightarrow> TrustLineAmount \<Rightarrow> TrustLinesManager \<Rightarrow>
   AmountReservation result \<times> TrustLinesManager" where
  "reserveIncomingAmount contractor transactionUUID amount m =
     (case incomingTrustAmountConsideringReservations m contractor of
        Inl e \<Rightarrow> throwing e m
      | Inr kAvailableAmount \<Rightarrow>
          if kAvailableAmount \<ge> amount
          then onHandler (reserve contractor transactionUUID amount Incoming) m
          else throwing ValueError m)"

definition updateAmountReservation ::
  "ContractorID \<Rightarrow> AmountReservation \<Rightarrow> TrustLineAmount \<Rightarrow> TrustLinesManager \<Rightarrow>
   AmountReservation result \<times> TrustLinesManager" where
  "updateAmountReservation contractor reservation newAmount m =
     (case bindR (outgoingTrustAmountConsideringReservations m contractor)
             (\<lambda>kAvailableAmount. checked_add kAvailableAmount (mBlockedAmount reservation)) of
        Inl e \<Rightarrow> throwing e m
      | Inr free_amount \<Rightarrow>
          if free_amount \<ge> newAmount
          then onHandler (updateReservation contractor reservation newAmount) m
          else throwing ValueError m)"

definition getAmountReservation ::
  "TrustLinesManager \<Rightarrow> ContractorID \<Rightarrow> TransactionUUID \<Rightarrow> TrustLineAmount \<Rightarrow>
   ReservationDirection \<Rightarrow> AmountReservation result" where
  "getAmountReservation m contractor transactionUUID amount direction =
     getReservation (mAmountReservationsHandler m) contractor transactionUUID amount direction"

definition dropAmountReservation ::
  "ContractorID \<Rightarrow> AmountReservation \<Rightarrow> TrustLinesManager \<Rightarrow> unit result \<times> TrustLinesManager" where
  "dropAmountReservation contractor reservation m = onHandler (free contractor reservation) m"

definition useReservation ::
  "ContractorID \<Rightarrow> AmountReservation \<Rightarrow> TrustLinesManager \<Rightarrow> unit result \<times> TrustLinesManager" where
  "useReservation contractorID reservation m =
     (case map_of (mTrustLines m) contractorID of
        None \<Rightarrow> throwing NotFoundError m
      | Some line \<Rightarrow>
          (case (case mDirection reservation of
                   Outgoing \<Rightarrow> pay (mBlockedAmount reservation) line
                 | Incoming \<Rightarrow> acceptPayment (mBlockedAmount reservation) line) of
             (res, line') \<Rightarrow> (res, putLine contractorID line' m)))"

definition isReservationsPresentOnTrustLine :: "TrustLinesManager \<Rightarrow> ContractorID \<Rightarrow> bool" where
  "isReservationsPresentOnTrustLine m contractorID =
     isReservationsPresentWithContractor (mAmountReservationsHandler m) contractorID"

definition isReservationsPresentConsiderTransaction ::
  "TrustLinesManager \<Rightarrow> TransactionUUID \<Rightarrow> bool" where
  "isReservationsPresentConsiderTransaction m transactionUUID =
     isTransactionReservationsPresent (mAmountReservationsHandler m) transactionUUID"

definition reservationsToContractor ::
  "TrustLinesManager \<Rightarrow> ContractorID \<Rightarrow> AmountReservation list" where
  "reservationsToContractor m contractorID =
     contractorReservations (mAmountReservationsHandler m) contractorID Outgoing"

definition reservationsFromContractor ::
  "TrustLinesManager \<Rightarrow> ContractorID \<Rightarrow> AmountReservation list" where
  "reservationsFromContractor m contractorID =
     contractorReservations (mAmountReservationsHandler m) contractorID Incoming"

section \<open>Neighbours and flows\<close>

text \<open>
  The bodies of the loops over \<^verbatim>\<open>mTrustLines\<close>: \<open>skip\<close> is the condition of the \<^verbatim>\<open>continue\<close>
  statements. \<open>splitByFlow\<close> pushes a contractor to the first vector when its flow is positive, to
  the second one otherwise; \<open>collectFlows\<close> pairs its flow with its main address.
\<close>

fun splitByFlow ::
  "(ContractorID \<Rightarrow> TrustLineAmount result) \<Rightarrow> (TrustLine \<Rightarrow> bool) \<Rightarrow>
   (ContractorID \<times> TrustLine) list \<Rightarrow> (ContractorID list \<times> ContractorID list) result" where
  "splitByFlow flow skip [] = Inr ([], [])"
| "splitByFlow flow skip ((c, line) # rest) =
     (if skip line then splitByFlow flow skip rest
      else bindR (flow c) (\<lambda>amount.
           bindR (splitByFlow flow skip rest) (\<lambda>(resultPos, resultNeg).
             Inr (if amount > 0 then (c # resultPos, resultNeg) else (resultPos, c # resultNeg)))))"

fun collectFlows ::
  "(ContractorID \<Rightarrow> 'addr result) \<Rightarrow> (ContractorID \<Rightarrow> TrustLineAmount result) \<Rightarrow>
   (TrustLine \<Rightarrow> bool) \<Rightarrow> (ContractorID \<times> TrustLine) list \<Rightarrow>
   ('addr \<times> TrustLineAmount) list result" where
  "collectFlows address flow skip [] = Inr []"
| "collectFlows address flow skip ((c, line) # rest) =
     (if skip line then collectFlows address flow skip rest
      else bindR (flow c) (\<lambda>amount.
           bindR (address c) (\<lambda>a.
           bindR (collectFlows address flow skip rest) (\<lambda>flows. Inr ((a, amount) # flows)))))"

definition firstLevelNeighborsWithOutgoingFlow ::
  "TrustLinesManager \<Rightarrow> (ContractorID list \<times> ContractorID list) result" where
  "firstLevelNeighborsWithOutgoingFlow m =
     splitByFlow (outgoingTrustAmountConsideringReservations m)
       (\<lambda>line. mState line \<noteq> Active) (mTrustLines m)"

definition firstLevelGatewayNeighborsWithOutgoingFlow ::
  "TrustLinesManager \<Rightarrow> (ContractorID list \<times> ContractorID list) result" where
  "firstLevelGatewayNeighborsWithOutgoingFlow m =
     splitByFlow (outgoingTrustAmountConsideringReservations m)
       (\<lambda>line. mState line \<noteq> Active \<or> \<not> mIsContractorGateway line) (mTrustLines m)"

definition firstLevelNeighborsWithIncomingFlow ::
  "TrustLinesManager \<Rightarrow> (ContractorID list \<times> ContractorID list) result" where
  "firstLevelNeighborsWithIncomingFlow m =
     splitByFlow (incomingTrustAmountConsideringReservations m)
       (\<lambda>line. mState line \<noteq> Active) (mTrustLines m)"

definition firstLevelGatewayNeighborsWithIncomingFlow ::
  "TrustLinesManager \<Rightarrow> (ContractorID list \<times> ContractorID list) result" where
  "firstLevelGatewayNeighborsWithIncomingFlow m =
     splitByFlow (incomingTrustAmountConsideringReservations m)
       (\<lambda>line. \<not> mIsContractorGateway line) (mTrustLines m)"

definition firstLevelNonGatewayNeighborsWithIncomingFlow ::
  "TrustLinesManager \<Rightarrow> (ContractorID list \<times> ContractorID list) result" where
  "firstLevelNonGatewayNeighborsWithIncomingFlow m =
     splitByFlow (incomingTrustAmountConsideringReservations m)
       (\<lambda>line. mState line \<noteq> Active \<or> mIsContractorGateway line) (mTrustLines m)"

definition incomingFlows ::
  "(ContractorID \<Rightarrow> 'addr result) \<Rightarrow> TrustLinesManager \<Rightarrow>
   ('addr \<times> TrustLineAmount) list result" where
  "incomingFlows contractorMainAddress m =
     collectFlows contractorMainAddress (incomingTrustAmountConsideringReservations m)
       (\<lambda>line. mState line \<noteq> Active) (mTrustLines m)"

definition outgoingFlows ::
  "(ContractorID \<Rightarrow> 'addr result) \<Rightarrow> TrustLinesManager \<Rightarrow>
   ('addr \<times> TrustLineAmount) list result" where
  "outgoingFlows contractorMainAddress m =
     collectFlows contractorMainAddress (outgoingTrustAmountConsideringReservations m)
       (\<lambda>line. mState line \<noteq> Active) (mTrustLines m)"

definition incomingFlowsFromNonGateways ::
  "(ContractorID \<Rightarrow> 'addr result) \<Rightarrow> TrustLinesManager \<Rightarrow>
   ('addr \<times> TrustLineAmount) list result" where
  "incomingFlowsFromNonGateways contractorMainAddress m =
     collectFlows contractorMainAddress (incomingTrustAmountConsideringReservations m)
       (\<lambda>line. mState line \<noteq> Active \<or> mIsContractorGateway line) (mTrustLines m)"

definition incomingFlowsFromGateways ::
  "(ContractorID \<Rightarrow> 'addr result) \<Rightarrow> TrustLinesManager \<Rightarrow>
   ('addr \<times> TrustLineAmount) list result" where
  "incomingFlowsFromGateways contractorMainAddress m =
     collectFlows contractorMainAddress (incomingTrustAmountConsideringReservations m)
       (\<lambda>line. \<not> mIsContractorGateway line) (mTrustLines m)"

definition outgoingFlowsToGateways ::
  "(ContractorID \<Rightarrow> 'addr result) \<Rightarrow> TrustLinesManager \<Rightarrow>
   ('addr \<times> TrustLineAmount) list result" where
  "outgoingFlowsToGateways contractorMainAddress m =
     collectFlows contractorMainAddress (outgoingTrustAmountConsideringReservations m)
       (\<lambda>line. mState line \<noteq> Active \<or> \<not> mIsContractorGateway line) (mTrustLines m)"

text \<open>The remaining loops push the contractors whose line satisfies a condition.\<close>

definition neighborsWhere :: "(TrustLine \<Rightarrow> bool) \<Rightarrow> TrustLinesManager \<Rightarrow> ContractorID list" where
  "neighborsWhere p m = map fst (filter (\<lambda>(c, line). p line) (mTrustLines m))"

definition gateways :: "TrustLinesManager \<Rightarrow> ContractorID list" where
  "gateways = neighborsWhere mIsContractorGateway"

definition firstLevelNeighbors :: "TrustLinesManager \<Rightarrow> ContractorID list" where
  "firstLevelNeighbors = neighborsWhere (\<lambda>line. mState line = Active)"

definition getFirstLevelNodesForCycles :: "bool \<Rightarrow> TrustLinesManager \<Rightarrow> ContractorID list" where
  "getFirstLevelNodesForCycles isCreditorBranch =
     neighborsWhere (\<lambda>line. mState line = Active \<and>
       (isCreditorBranch \<and> mBalance line > 0 \<or> \<not> isCreditorBranch \<and> mBalance line < 0))"

definition firstLevelNeighborsWithPositiveBalance :: "TrustLinesManager \<Rightarrow> ContractorID list" where
  "firstLevelNeighborsWithPositiveBalance =
     neighborsWhere (\<lambda>line. mState line = Active \<and> mBalance line > 0)"

definition firstLevelNeighborsWithNegativeBalance :: "TrustLinesManager \<Rightarrow> ContractorID list" where
  "firstLevelNeighborsWithNegativeBalance =
     neighborsWhere (\<lambda>line. mState line = Active \<and> mBalance line < 0)"

definition firstLevelNeighborsWithNoneZeroBalance :: "TrustLinesManager \<Rightarrow> ContractorID list" where
  "firstLevelNeighborsWithNoneZeroBalance =
     neighborsWhere (\<lambda>line. mState line = Active \<and> mBalance line \<noteq> 0)"

definition totalBalance :: "TrustLinesManager \<Rightarrow> TrustLineBalance" where
  "totalBalance m =
     foldl (\<lambda>acc (c, line). if mState line \<noteq> Active then acc else wrap256 (acc + mBalance line))
       0 (mTrustLines m)"

fun sumFlows ::
  "(ContractorID \<Rightarrow> TrustLineAmount result) \<Rightarrow> TrustLineAmount \<Rightarrow>
   (ContractorID \<times> TrustLine) list \<Rightarrow> TrustLineAmount result" where
  "sumFlows flow totalAmount [] = Inr totalAmount"
| "sumFlows flow totalAmount ((c, line) # rest) =
     (if mState line \<noteq> Active then sumFlows flow totalAmount rest
      else bindR (flow c) (\<lambda>kTLAmount.
           bindR (checked_add totalAmount kTLAmount) (\<lambda>totalAmount'.
             sumFlows flow totalAmount' rest)))"

definition totalOutgoingAmount :: "TrustLinesManager \<Rightarrow> TrustLineAmount result" where
  "totalOutgoingAmount m =
     sumFlows (outgoingTrustAmountConsideringReservations m) 0 (mTrustLines m)"

definition totalIncomingAmount :: "TrustLinesManager \<Rightarrow> TrustLineAmount result" where
  "totalIncomingAmount m =
     sumFlows (incomingTrustAmountConsideringReservations m) 0 (mTrustLines m)"

section \<open>Operations on the storage\<close>

text \<open>
  \<open>ioTransaction\<close> is the open database transaction, \<open>None\<close> the null pointer. The next trust line
  id is the smallest number missing in the sorted ids; \<^verbatim>\<open>nextFreeID\<close> dereferences its argument.
\<close>

fun firstGap :: "TrustLineID \<Rightarrow> TrustLineID list \<Rightarrow> TrustLineID" where
  "firstGap prevElement [] = prevElement + 1"
| "firstGap prevElement (it # rest) =
     (if it - prevElement > 1 then prevElement + 1 else firstGap it rest)"

definition nextFreeID :: "TrustLineStore option \<Rightarrow> TrustLineID result" where
  "nextFreeID ioTransaction =
     (case ioTransaction of
        None \<Rightarrow> Inl UndefinedBehaviour
      | Some store \<Rightarrow> bindR (allIDs store) (\<lambda>ids.
          case sort ids of
            [] \<Rightarrow> Inr 0
          | prevElement # rest \<Rightarrow>
              if prevElement \<noteq> 0 then Inr 0 else Inr (firstGap prevElement rest)))"

definition insertRule ::
  "ContractorID \<Rightarrow> BaseAuditRule \<Rightarrow> (ContractorID \<times> BaseAuditRule) list \<Rightarrow>
   (ContractorID \<times> BaseAuditRule) list" where
  "insertRule c rule rules = (if map_of rules c = None then AList.update c rule rules else rules)"

definition open_line ::
  "ContractorID \<Rightarrow> TrustLinesManager \<times> TrustLineStore option \<Rightarrow>
   unit result \<times> (TrustLinesManager \<times> TrustLineStore option)" where
  "open_line contractorID = (\<lambda>(m, ioTransaction).
     if trustLineIsPresent m contractorID then throwing ValueError (m, ioTransaction)
     else case nextFreeID ioTransaction of
       Inl e \<Rightarrow> throwing e (m, ioTransaction)
     | Inr newID \<Rightarrow>
         (let trustLine = newInitTrustLine contractorID newID;
              m' = (putLine contractorID trustLine m)
                     \<lparr>mAuditRules := insertRule contractorID
                        (AuditRuleCountPayments kCountPaymentsForAudit) (mAuditRules m)\<rparr>
          in case ioTransaction of
               None \<Rightarrow> returning () (m', None)
             | Some store \<Rightarrow>
                 (case saveTrustLine trustLine (mEquivalent m') store of
                    (res, store') \<Rightarrow> (res, (m', Some store')))))"

text \<open>The body of \<^verbatim>\<open>accept\<close> is that of \<^verbatim>\<open>open\<close>, word for word.\<close>

definition accept_line ::
  "ContractorID \<Rightarrow> TrustLinesManager \<times> TrustLineStore option \<Rightarrow>
   unit result \<times> (TrustLinesManager \<times> TrustLineStore option)" where
  "accept_line contractorID = (\<lambda>(m, ioTransaction).
     if trustLineIsPresent m contractorID then throwing ValueError (m, ioTransaction)
     else case nextFreeID ioTransaction of
       Inl e \<Rightarrow> throwing e (m, ioTransaction)
     | Inr newID \<Rightarrow>
         (let trustLine = newInitTrustLine contractorID newID;
              m' = (putLine contractorID trustLine m)
                     \<lparr>mAuditRules := insertRule contractorID
                        (AuditRuleCountPayments kCountPaymentsForAudit) (mAuditRules m)\<rparr>
          in case ioTransaction of
               None \<Rightarrow> returning () (m', None)
             | Some store \<Rightarrow>
                 (case saveTrustLine trustLine (mEquivalent m') store of
                    (res, store') \<Rightarrow> (res, (m', Some store')))))"

definition removeTrustLine ::
  "ContractorID \<Rightarrow> TrustLinesManager \<times> TrustLineStore option \<Rightarrow>
   unit result \<times> (TrustLinesManager \<times> TrustLineStore option)" where
  "removeTrustLine contractorID = (\<lambda>(m, ioTransaction).
     if \<not> trustLineIsPresent m contractorID then throwing NotFoundError (m, ioTransaction)
     else
       (let m' = m\<lparr>mTrustLines := AList.delete contractorID (mTrustLines m)\<rparr>
        in case ioTransaction of
             None \<Rightarrow> returning () (m', None)
           | Some store \<Rightarrow>
               (case deleteTrustLine contractorID (mEquivalent m') store of
                  (res, store') \<Rightarrow> (res, (m', Some store')))))"

definition setContractorAsGateway ::
  "ContractorID \<Rightarrow> bool \<Rightarrow> TrustLinesManager \<times> TrustLineStore option \<Rightarrow>
   unit result \<times> (TrustLinesManager \<times> TrustLineStore option)" where
  "setContractorAsGateway contractorID contractorIsGateway = (\<lambda>(m, ioTransaction).
     case map_of (mTrustLines m) contractorID of
       None \<Rightarrow> throwing NotFoundError (m, ioTransaction)
     | Some line \<Rightarrow>
         (let trustLine = line\<lparr>mIsContractorGateway := contractorIsGateway\<rparr>;
              m' = putLine contractorID trustLine m
          in case ioTransaction of
               None \<Rightarrow> throwing UndefinedBehaviour (m', None)
             | Some store \<Rightarrow>
                 (case updateTrustLineIsContractorGateway trustLine (mEquivalent m') store of
                    (res, store') \<Rightarrow> (res, (m', Some store')))))"

definition setTrustLineState ::
  "ContractorID \<Rightarrow> TrustLineState \<Rightarrow> TrustLinesManager \<times> TrustLineStore option \<Rightarrow>
   unit result \<times> (TrustLinesManager \<times> TrustLineStore option)" where
  "setTrustLineState contractorID state = (\<lambda>(m, ioTransaction).
     case map_of (mTrustLines m) contractorID of
       None \<Rightarrow> throwing NotFoundError (m, ioTransaction)
     | Some line \<Rightarrow>
         (let trustLine = line\<lparr>mState := state\<rparr>;
              m' = putLine contractorID trustLine m
          in case ioTransaction of
               None \<Rightarrow> returning () (m', None)
             | Some store \<Rightarrow>
                 (case updateTrustLineState trustLine (mEquivalent m') store of
                    (res, store') \<Rightarrow> (res, (m', Some store')))))"

section \<open>Lines read back from the storage\<close>

definition setting :: "(TrustLine \<Rightarrow> TrustLine result) \<Rightarrow> TrustLine \<Rightarrow> unit result \<times> TrustLine" where
  "setting f line = (case f line of Inl e \<Rightarrow> throwing e line | Inr line' \<Rightarrow> returning () line')"

definition readLimits :: "AuditRecord \<Rightarrow> TrustLine \<Rightarrow> unit result \<times> TrustLine" where
  "readLimits auditRecord line =
     bindS (returning () (line\<lparr>mCurrentAudit := auditNumberOf auditRecord\<rparr>)) (\<lambda>_ line.
     bindS (setting (setIncomingTrustAmount (incomingAmountOf auditRecord)) line) (\<lambda>_ line.
       setting (setOutgoingTrustAmount (outgoingAmountOf auditRecord)) line))"

text \<open>
  The balance of the last audit with the receipts committed since, and the receipt totals, to which
  the audited balance counts as a first receipt.
\<close>

definition readReceipts :: "AuditStorage \<Rightarrow> AuditRecord \<Rightarrow> TrustLine \<Rightarrow> unit result \<times> TrustLine" where
  "readReceipts st auditRecord line =
     (let totalIncoming = incomingReceiptsSum st (mID line) (auditNumberOf auditRecord);
          totalOutgoing = outgoingReceiptsSum st (mID line) (auditNumberOf auditRecord);
          audited = balanceOf auditRecord;
          newBalance = wrap256 (wrap256 (audited + int totalIncoming) - int totalOutgoing)
      in bindS (setting (setBalance newBalance) line) (\<lambda>_ line.
           case (if audited > 0
                 then bindR (to_amount audited) (\<lambda>a.
                      bindR (checked_add totalIncoming a) (\<lambda>incoming. Inr (incoming, totalOutgoing)))
                 else bindR (to_amount \<bar>audited\<bar>) (\<lambda>a.
                      bindR (checked_add totalOutgoing a) (\<lambda>outgoing. Inr (totalIncoming, outgoing))))
           of Inl e \<Rightarrow> throwing e line
            | Inr (incoming, outgoing) \<Rightarrow>
                bindS (setting (setTotalIncomingReceiptsAmount incoming) line) (\<lambda>_ line.
                  setting (setTotalOutgoingReceiptsAmount outgoing) line)))"

definition readLine :: "AuditStorage \<Rightarrow> TrustLine \<Rightarrow> unit result \<times> TrustLine" where
  "readLine st line =
     (case getActualAudit st (mID line) of
        Inr auditRecord \<Rightarrow>
          bindS (readLimits auditRecord line) (\<lambda>_ line.
          bindS (readReceipts st auditRecord line) (\<lambda>_ line.
            returning ()
              (line\<lparr>mIsOwnKeysPresent := ownKeysPresent st (mID line),
                    mIsContractorKeysPresent := contractorKeysPresent st (mID line)\<rparr>)))
      | Inl NotFoundError \<Rightarrow>
          bindS (setting (setIncomingTrustAmount 0) line) (\<lambda>_ line.
          bindS (setting (setOutgoingTrustAmount 0) line) (\<lambda>_ line.
          bindS (setting (setBalance 0) line) (\<lambda>_ line.
            returning () (line\<lparr>mCurrentAudit := kInitialAuditNumber\<rparr>))))
      | Inl e \<Rightarrow> throwing e line)"

definition updateTrustLineFromStorage ::
  "AuditStorage \<Rightarrow> ContractorID \<Rightarrow> TrustLinesManager \<Rightarrow> unit result \<times> TrustLinesManager" where
  "updateTrustLineFromStorage st contractorID m =
     (case map_of (mTrustLines m) contractorID of
        None \<Rightarrow> throwing NotFoundError m
      | Some line \<Rightarrow>
          (case readLine st line of
             (Inl e, line') \<Rightarrow> throwing e (putLine contractorID line' m)
           | (Inr (), line') \<Rightarrow>
                returning () (putLine (mContractorID line') line' (putLine contractorID line' m))))"

text \<open>One iteration of \<^verbatim>\<open>loadTrustLinesFromStorage\<close>: the line, and whether its contractor is pinged.\<close>

definition loadLine :: "AuditStorage \<Rightarrow> TrustLine \<Rightarrow> bool result \<times> TrustLine" where
  "loadLine st line =
     (case getActualAudit st (mID line) of
        Inr auditRecord \<Rightarrow>
          bindS (readLimits auditRecord line) (\<lambda>_ line.
          bindS (if \<not> isPendingState auditRecord
                 then bindS (readReceipts st auditRecord line) (\<lambda>_. returning False)
                 else returning True (line\<lparr>mState := AuditPending\<rparr>)) (\<lambda>pinged line.
            returning pinged
              (let (ownAppropriate, contractorAppropriate) = checkKeysSetAppropriate st (mID line);
                   line = (if ownKeysPresent st (mID line) \<and> ownAppropriate
                           then line\<lparr>mIsOwnKeysPresent := True\<rparr> else line)
               in if contractorKeysPresent st (mID line) \<and> contractorAppropriate
                  then line\<lparr>mIsContractorKeysPresent := True\<rparr> else line)))
      | Inl NotFoundError \<Rightarrow> returning True (line\<lparr>mState := Init\<rparr>)
      | Inl e \<Rightarrow> throwing e line)"

fun loadLines ::
  "AuditStorage \<Rightarrow> TrustLine list \<Rightarrow> TrustLinesManager \<Rightarrow> TrustLinesManager result" where
  "loadLines st [] m = Inr m"
| "loadLines st (kTrustLine # rest) m =
     (case loadLine st kTrustLine of
        (Inl e, _) \<Rightarrow> Inl e
      | (Inr pinged, line) \<Rightarrow>
          loadLines st rest
            (m\<lparr>mContractorsShouldBePinged :=
                 (if pinged then mContractorsShouldBePinged m @ [mContractorID line]
                  else mContractorsShouldBePinged m),
               mTrustLines :=
                 (if map_of (mTrustLines m) (mContractorID line) = None
                  then AList.update (mContractorID line) line (mTrustLines m) else mTrustLines m),
               mAuditRules := insertRule (mContractorID line)
                 (AuditRuleCountPayments kCountPaymentsForAudit) (mAuditRules m)\<rparr>))"

definition newTrustLinesManager ::
  "SerializedEquivalent \<Rightarrow> AuditStorage \<Rightarrow> TrustLineStore \<Rightarrow> TrustLinesManager result" where
  "newTrustLinesManager equivalent st store =
     bindR (allTrustLinesByEquivalent equivalent store) (\<lambda>kTrustLines.
       loadLines st kTrustLines
         \<lparr>mTrustLines = [], mEquivalent = equivalent, mAuditRules = [],
          mContractorsShouldBePinged = [], mAmountReservationsHandler = emptyHandler\<rparr>)"

definition clearContractorsShouldBePinged :: "TrustLinesManager \<Rightarrow> TrustLinesManager" where
  "clearContractorsShouldBePinged m = m\<lparr>mContractorsShouldBePinged := []\<rparr>"

section \<open>After a transaction\<close>

definition checkRule :: "AuditStorage \<Rightarrow> BaseAuditRule \<Rightarrow> TrustLine \<Rightarrow> bool result" where
  "checkRule st rule trustLine =
     (case rule of
        AuditRuleCountPayments countPayments \<Rightarrow>
          bindR (getActualAuditNumber st (mID trustLine)) (\<lambda>currentAuditNumber.
            Inr (incomingReceiptsCount st (mID trustLine) currentAuditNumber
                 + outgoingReceiptsCount st (mID trustLine) currentAuditNumber \<ge> countPayments))
      | AuditRuleBoundaryOverflowed \<Rightarrow> Inr (isTrustLineOverflowed trustLine))"

definition resetAuditRule ::
  "ContractorID \<Rightarrow> TrustLinesManager \<Rightarrow> unit result \<times> TrustLinesManager" where
  "resetAuditRule contractorID m =
     (if map_of (mAuditRules m) contractorID = None then throwing NotFoundError m
      else returning () m)"

definition checkTrustLineAfterTransaction ::
  "AuditStorage \<Rightarrow> ContractorID \<Rightarrow> bool \<Rightarrow> TrustLinesManager \<Rightarrow>
   TrustLineActionType result \<times> TrustLinesManager" where
  "checkTrustLineAfterTransaction st contractorID isActionInitiator m =
     (case map_of (mTrustLines m) contractorID of
        None \<Rightarrow> throwing NotFoundError m
      | Some trustLine \<Rightarrow>
          (case isTrustLineEmpty m contractorID of
             Inl e \<Rightarrow> throwing e m
           | Inr True \<Rightarrow> returning (if isActionInitiator then Audit else NoActions) m
           | Inr False \<Rightarrow>
               (case (case map_of (mAuditRules m) contractorID of
                        None \<Rightarrow> Inl UndefinedBehaviour
                      | Some rule \<Rightarrow> checkRule st rule trustLine) of
                  Inl e \<Rightarrow> throwing e m
                | Inr True \<Rightarrow>
                    (if isActionInitiator
                     then (if ownKeysCriticalCount st (mID trustLine)
                           then bindS (setIsOwnKeysPresent contractorID False m)
                                  (\<lambda>_. returning KeysSharing)
                           else returning Audit m)
                     else returning NoActions m)
                | Inr False \<Rightarrow>
                    (if ownKeysCriticalCount st (mID trustLine)
                     then bindS (setIsOwnKeysPresent contractorID False m)
                            (\<lambda>_. returning KeysSharing)
                     else returning NoActions m))))"

section \<open>The capacity invariant\<close>

text \<open>
  \<open>room m c d\<close> is what the line to \<open>c\<close> can still carry in direction \<open>d\<close>, reservations not
  counted. A line is \<open>line_ok\<close> when its fields are in range, its balance is within the limits and
  the two limits together fit the amount type.
\<close>

definition line_room :: "ReservationDirection \<Rightarrow> TrustLine \<Rightarrow> nat" where
  "line_room d line = (case d of Outgoing \<Rightarrow> outgoing_room line | Incoming \<Rightarrow> incoming_room line)"

definition room :: "TrustLinesManager \<Rightarrow> ContractorID \<Rightarrow> ReservationDirection \<Rightarrow> nat" where
  "room m c d = (case map_of (mTrustLines m) c of None \<Rightarrow> 0 | Some line \<Rightarrow> line_room d line)"

definition line_ok :: "TrustLine \<Rightarrow> bool" where
  "line_ok line \<longleftrightarrow> trust_line_ok line \<and> within_limits line \<and>
     mIncomingTrustAmount line + mOutgoingTrustAmount line < 2 ^ 256"

abbreviation locked :: "TrustLinesManager \<Rightarrow> ContractorID \<Rightarrow> ReservationDirection \<Rightarrow> nat" where
  "locked m \<equiv> reserved (mAmountReservationsHandler m)"

abbreviation held_by :: "TrustLinesManager \<Rightarrow> ContractorID \<Rightarrow> AmountReservation list" where
  "held_by m \<equiv> held (mAmountReservationsHandler m)"

definition manager_ok :: "TrustLinesManager \<Rightarrow> bool" where
  "manager_ok m \<longleftrightarrow>
     handler_ok (mAmountReservationsHandler m) \<and>
     distinct (keys (mTrustLines m)) \<and>
     (\<forall>(c, line) \<in> set (mTrustLines m). line_ok line) \<and>
     (\<forall>(c, rs) \<in> set (mReservations (mAmountReservationsHandler m)).
        locked m c Outgoing \<le> room m c Outgoing \<and> locked m c Incoming \<le> room m c Incoming)"

lemma locked_absent: "map_of (mReservations (mAmountReservationsHandler m)) c = None \<Longrightarrow> locked m c d = 0"
  by (simp add: reserved_def reservations_def)

lemma manager_ok_iff:
  "manager_ok m \<longleftrightarrow>
     handler_ok (mAmountReservationsHandler m) \<and> distinct (keys (mTrustLines m)) \<and>
     (\<forall>c line. map_of (mTrustLines m) c = Some line \<longrightarrow> line_ok line) \<and>
     (\<forall>c d. locked m c d \<le> room m c d)" (is "?L \<longleftrightarrow> ?R")
proof -
  have lines: "(\<forall>(c, line) \<in> set (mTrustLines m). line_ok line) \<longleftrightarrow>
      (\<forall>c line. map_of (mTrustLines m) c = Some line \<longrightarrow> line_ok line)"
    if "distinct (keys (mTrustLines m))"
    using that by (auto simp: map_of_eq_Some_iff)
  have caps: "(\<forall>(c, rs) \<in> set (mReservations (mAmountReservationsHandler m)).
        locked m c Outgoing \<le> room m c Outgoing \<and> locked m c Incoming \<le> room m c Incoming) \<longleftrightarrow>
      (\<forall>c d. locked m c d \<le> room m c d)" (is "?A \<longleftrightarrow> ?B")
  proof
    assume a: ?A
    show ?B
    proof (intro allI)
      fix c d
      show "locked m c d \<le> room m c d"
        using a by (cases "map_of (mReservations (mAmountReservationsHandler m)) c"; cases d)
          (auto simp: locked_absent dest!: map_of_SomeD)
    qed
  qed auto
  show ?thesis
    unfolding manager_ok_def caps using lines by blast
qed

lemma manager_okI:
  assumes "handler_ok (mAmountReservationsHandler m)" and "distinct (keys (mTrustLines m))"
    and "\<And>c line. map_of (mTrustLines m) c = Some line \<Longrightarrow> line_ok line"
    and "\<And>c d. locked m c d \<le> room m c d"
  shows "manager_ok m"
  using assms by (simp add: manager_ok_iff)

lemma manager_okD:
  assumes "manager_ok m"
  shows "handler_ok (mAmountReservationsHandler m)" and "distinct (keys (mTrustLines m))"
    and "map_of (mTrustLines m) c = Some line \<Longrightarrow> line_ok line"
    and "locked m c d \<le> room m c d"
  using assms by (simp_all add: manager_ok_iff)

lemma line_room_bound: "line_ok line \<Longrightarrow> line_room d line < 2 ^ 256"
  by (cases d) (auto simp: line_room_def line_ok_def within_limits_def outgoing_room_def
      incoming_room_def trust_line_ok_def nat_less_iff)

lemma line_room_available:
  assumes "line_ok line"
  shows "availableOutgoingAmount line = Inr (line_room Outgoing line)"
    and "availableIncomingAmount line = Inr (line_room Incoming line)"
  using assms availableOutgoingAmount_room [of line] availableIncomingAmount_room [of line]
    line_room_bound [OF assms, of Outgoing] line_room_bound [OF assms, of Incoming]
  by (simp_all add: line_room_def line_ok_def)

lemma locked_total:
  assumes "manager_ok m"
  shows "totalReserved (mAmountReservationsHandler m) c d None = Inr (locked m c d)"
proof -
  have "locked m c d < 2 ^ 256"
  proof (cases "map_of (mTrustLines m) c")
    case None
    then show ?thesis using manager_okD(4) [OF assms, of c d] by (simp add: room_def)
  next
    case (Some line)
    then show ?thesis
      using manager_okD(4) [OF assms, of c d] line_room_bound [OF manager_okD(3) [OF assms Some], of d]
      by (simp add: room_def)
  qed
  then show ?thesis by (simp add: totalReserved_eq)
qed

text \<open>The free amount in both directions, exactly.\<close>

lemma considering_exact:
  assumes "manager_ok m" and "map_of (mTrustLines m) c = Some line"
  shows "outgoingTrustAmountConsideringReservations m c =
      Inr (if mState line = Active then room m c Outgoing - locked m c Outgoing else 0)"
    and "incomingTrustAmountConsideringReservations m c =
      Inr (if mState line = Active then room m c Incoming - locked m c Incoming else 0)"
  using assms line_room_available [OF manager_okD(3) [OF assms]] locked_total [OF assms(1)]
  by (auto simp: outgoingTrustAmountConsideringReservations_def trustLineReadOnly_def room_def
      incomingTrustAmountConsideringReservations_def checked_sub_def)

lemma considering_absent:
  "map_of (mTrustLines m) c = None \<Longrightarrow>
     outgoingTrustAmountConsideringReservations m c = Inl NotFoundError \<and>
     incomingTrustAmountConsideringReservations m c = Inl NotFoundError"
  by (simp add: outgoingTrustAmountConsideringReservations_def trustLineReadOnly_def
      incomingTrustAmountConsideringReservations_def)

lemma onHandler_Inr:
  "onHandler f m = (Inr x, m') \<longleftrightarrow>
     (\<exists>h. f (mAmountReservationsHandler m) = (Inr x, h) \<and> m' = m\<lparr>mAmountReservationsHandler := h\<rparr>)"
  by (auto simp: onHandler_def split: prod.splits)

lemma room_handler [simp]: "room (m\<lparr>mAmountReservationsHandler := h\<rparr>) = room m"
  by (simp add: room_def fun_eq_iff)

lemma manager_ok_handler:
  assumes "manager_ok m" and "handler_ok h" and "\<forall>c d. reserved h c d \<le> room m c d"
  shows "manager_ok (m\<lparr>mAmountReservationsHandler := h\<rparr>)"
  using assms manager_okD [OF assms(1)] by (intro manager_okI) auto

lemma reserve_covered:
  assumes "manager_ok m" and "onHandler (reserve c u a d) m = (Inr r, m')"
    and "locked m c d + a \<le> room m c d"
  shows "manager_ok m' \<and> r \<in> set (held_by m' c) \<and>
    (\<forall>c' d'. locked m' c' d' = locked m c' d' + (if c' = c \<and> d' = d then a else 0)) \<and>
    mTrustLines m' = mTrustLines m"
proof -
  obtain h where h: "reserve c u a d (mAmountReservationsHandler m) = (Inr r, h)"
    and m': "m' = m\<lparr>mAmountReservationsHandler := h\<rparr>"
    using assms(2) by (auto simp: onHandler_Inr)
  note ok = manager_okD [OF assms(1)]
  have "handler_ok h \<and> r \<in> set (held h c)"
    using ledger.lock_ok [OF h ok(1)] .
  moreover have "\<forall>c d. reserved h c d \<le> room m c d"
    using ledger.lock_covered [where cap = "room m", OF h ok(1) _ assms(3)] ok(4) by blast
  ultimately show ?thesis
    using manager_ok_handler [OF assms(1)] ledger.lock_locked [OF h ok(1)] by (simp add: m')
qed

lemma drop_covered:
  assumes "manager_ok m" and "r \<in> set (held_by m c)"
  shows "\<exists>m'. dropAmountReservation c r m = (Inr (), m') \<and> manager_ok m' \<and>
    mTrustLines m' = mTrustLines m \<and>
    (\<forall>c'. held_by m' c' = (if c' = c then remove1 r (held_by m c) else held_by m c'))"
proof -
  note ok = manager_okD [OF assms(1)]
  obtain h where h: "free c r (mAmountReservationsHandler m) = (Inr (), h)" "handler_ok h"
    using ledger.unlock_ok [OF assms(2) ok(1)] by blast
  have "\<forall>c d. reserved h c d \<le> room m c d"
    using ledger.unlock_covered [where cap = "room m", OF h(1) assms(2) ok(1)] ok(4) by blast
  then show ?thesis
    using h manager_ok_handler [OF assms(1) h(2)] held_free(2) [OF ok(1) assms(2)]
    by (simp add: dropAmountReservation_def onHandler_def)
qed

lemma update_covered:
  assumes "manager_ok m" and "r \<in> set (held_by m c)"
    and "onHandler (updateReservation c r a) m = (Inr n, m')"
    and "locked m c (mDirection r) + a \<le> room m c (mDirection r) + mBlockedAmount r"
  shows "manager_ok m' \<and> mTrustLines m' = mTrustLines m"
proof -
  obtain h where h: "updateReservation c r a (mAmountReservationsHandler m) = (Inr n, h)"
    and m': "m' = m\<lparr>mAmountReservationsHandler := h\<rparr>"
    using assms(3) by (auto simp: onHandler_Inr)
  note ok = manager_okD [OF assms(1)]
  have "\<forall>c d. reserved h c d \<le> room m c d"
    using ledger.relock_covered [where cap = "room m", OF h assms(2) ok(1) _ assms(4)] ok(4) by blast
  then show ?thesis
    using manager_ok_handler [OF assms(1) ledger.relock_ok [OF h ok(1)]] by (simp add: m')
qed

section \<open>Using a reservation\<close>

definition receiptsOf :: "ReservationDirection \<Rightarrow> TrustLine \<Rightarrow> nat" where
  "receiptsOf d line = (case d of Outgoing \<Rightarrow> mTotalOutgoingReceiptsAmount line
                                | Incoming \<Rightarrow> mTotalIncomingReceiptsAmount line)"

definition usedLine :: "AmountReservation \<Rightarrow> TrustLine \<Rightarrow> TrustLine" where
  "usedLine r line =
     (case mDirection r of
        Outgoing \<Rightarrow> line\<lparr>mBalance := mBalance line - int (mBlockedAmount r),
          mTotalOutgoingReceiptsAmount := mTotalOutgoingReceiptsAmount line + mBlockedAmount r\<rparr>
      | Incoming \<Rightarrow> line\<lparr>mBalance := mBalance line + int (mBlockedAmount r),
          mTotalIncomingReceiptsAmount := mTotalIncomingReceiptsAmount line + mBlockedAmount r\<rparr>)"

lemma usedLine_fields [simp]:
  "mContractorID (usedLine r line) = mContractorID line"
  "mState (usedLine r line) = mState line"
  "mIncomingTrustAmount (usedLine r line) = mIncomingTrustAmount line"
  "mOutgoingTrustAmount (usedLine r line) = mOutgoingTrustAmount line"
  by (cases "mDirection r"; simp add: usedLine_def)+

lemma held_room:
  assumes "manager_ok m" and "r \<in> set (held_by m c)"
  obtains line where "map_of (mTrustLines m) c = Some line" and "line_ok line"
    and "mBlockedAmount r \<le> line_room (mDirection r) line" and "0 < mBlockedAmount r"
proof -
  note ok = manager_okD [OF assms(1)]
  have pos: "0 < mBlockedAmount r"
    using handler_ok_held(5) [OF ok(1) assms(2)] .
  have le: "mBlockedAmount r \<le> room m c (mDirection r)"
    using ledger.holds_le [OF assms(2) ok(1)] ok(4) [of c "mDirection r"] by (rule le_trans)
  with pos obtain line where line: "map_of (mTrustLines m) c = Some line"
    by (cases "map_of (mTrustLines m) c") (auto simp: room_def)
  show thesis
    using that [OF line ok(3) [OF line]] pos le line by (simp add: room_def)
qed

lemma use_line:
  assumes "line_ok line" and "a \<le> line_room d line" and "receiptsOf d line + a < 2 ^ 256"
    and r: "mDirection r = d" "mBlockedAmount r = a"
  shows "(case d of Outgoing \<Rightarrow> pay a line | Incoming \<Rightarrow> acceptPayment a line) =
      returning () (usedLine r line)"
    and "line_ok (usedLine r line)"
    and "line_room d' (usedLine r line) + (if d' = d then a else 0) =
      line_room d' line + (if d' = d then 0 else a)"
proof -
  have ok: "trust_line_ok line" "within_limits line" and
    sum: "mIncomingTrustAmount line + mOutgoingTrustAmount line < 2 ^ 256"
    using assms(1) by (simp_all add: line_ok_def)
  have room: "a \<le> line_room d line" by (rule assms(2))
  have "(case d of Outgoing \<Rightarrow> pay a line | Incoming \<Rightarrow> acceptPayment a line) =
      returning () (usedLine r line) \<and> line_ok (usedLine r line) \<and>
      line_room d' (usedLine r line) + (if d' = d then a else 0) =
      line_room d' line + (if d' = d then 0 else a)"
  proof (cases d)
    case Outgoing
    then have le: "a \<le> outgoing_room line" and le': "int a \<le> int (mIncomingTrustAmount line) + mBalance line"
      using room ok(2) by (simp_all add: line_room_def outgoing_room_def within_limits_def le_nat_iff)
    have "pay a line = returning () (usedLine r line)"
      using pay_in_limits [OF ok, of a] assms(3) le le' ok(1) r Outgoing
      by (simp add: usedLine_def receiptsOf_def trust_line_ok_def)
    moreover have "line_ok (usedLine r line)"
      using assms(1,3) le' r Outgoing
      by (auto simp: usedLine_def line_ok_def trust_line_ok_def within_limits_def receiptsOf_def)
    ultimately show ?thesis
      using le le' ok(2) Outgoing r
      by (cases d') (auto simp: usedLine_def line_room_def outgoing_room_def incoming_room_def
          within_limits_def)
  next
    case Incoming
    then have le: "a \<le> incoming_room line" and le': "int a \<le> int (mOutgoingTrustAmount line) - mBalance line"
      using room ok(2) by (simp_all add: line_room_def incoming_room_def within_limits_def le_nat_iff)
    have "acceptPayment a line = returning () (usedLine r line)"
      using accept_in_limits [OF ok, of a] assms(3) le le' ok(1) r Incoming
      by (simp add: usedLine_def receiptsOf_def trust_line_ok_def)
    moreover have "line_ok (usedLine r line)"
      using assms(1,3) le' r Incoming
      by (auto simp: usedLine_def line_ok_def trust_line_ok_def within_limits_def receiptsOf_def)
    ultimately show ?thesis
      using le le' ok(2) Incoming r
      by (cases d') (auto simp: usedLine_def line_room_def outgoing_room_def incoming_room_def
          within_limits_def)
  qed
  then show "(case d of Outgoing \<Rightarrow> pay a line | Incoming \<Rightarrow> acceptPayment a line) =
      returning () (usedLine r line)"
    and "line_ok (usedLine r line)"
    and "line_room d' (usedLine r line) + (if d' = d then a else 0) =
      line_room d' line + (if d' = d then 0 else a)"
    by blast+
qed

lemma putLine_lookup [simp]:
  "map_of (mTrustLines (putLine c line m)) = (map_of (mTrustLines m))(c \<mapsto> line)"
  "mAmountReservationsHandler (putLine c line m) = mAmountReservationsHandler m"
  "mAuditRules (putLine c line m) = mAuditRules m"
  "mEquivalent (putLine c line m) = mEquivalent m"
  by (simp_all add: putLine_def)

lemma putLine_distinct [simp]:
  "distinct (keys (mTrustLines m)) \<Longrightarrow> distinct (keys (mTrustLines (putLine c line m)))"
  by (simp add: putLine_def)

lemma use_held:
  assumes "manager_ok m" and "r \<in> set (held_by m c)"
    and "\<And>line. map_of (mTrustLines m) c = Some line \<Longrightarrow>
      receiptsOf (mDirection r) line + mBlockedAmount r < 2 ^ 256"
  shows "\<exists>line. map_of (mTrustLines m) c = Some line \<and>
    useReservation c r m = (Inr (), putLine c (usedLine r line) m)"
proof -
  obtain line where line: "map_of (mTrustLines m) c = Some line" "line_ok line"
    "mBlockedAmount r \<le> line_room (mDirection r) line"
    using held_room [OF assms(1,2)] by blast
  then show ?thesis
    using use_line(1) [OF line(2,3) assms(3) [OF line(1)], of r]
    by (cases "mDirection r") (auto simp: useReservation_def)
qed

text \<open>Used and dropped, as a commit does: the invariant holds again.\<close>

lemma settle_held:
  assumes "manager_ok m" and "r \<in> set (held_by m c)"
    and carries: "\<And>line. map_of (mTrustLines m) c = Some line \<Longrightarrow>
      receiptsOf (mDirection r) line + mBlockedAmount r < 2 ^ 256"
  shows "\<exists>line m'. map_of (mTrustLines m) c = Some line \<and>
    bindS (useReservation c r m) (\<lambda>_. dropAmountReservation c r) = (Inr (), m') \<and> manager_ok m' \<and>
    mTrustLines m' = AList.update c (usedLine r line) (mTrustLines m) \<and>
    (\<forall>c'. held_by m' c' = (if c' = c then remove1 r (held_by m c) else held_by m c'))"
proof -
  note ok = manager_okD [OF assms(1)]
  obtain line where line: "map_of (mTrustLines m) c = Some line" "line_ok line"
    "mBlockedAmount r \<le> line_room (mDirection r) line"
    using held_room [OF assms(1,2)] by blast
  note used = use_line [OF line(2,3) carries [OF line(1)], of r]
  let ?m = "putLine c (usedLine r line) m"
  have use: "useReservation c r m = (Inr (), ?m)"
    using use_held [OF assms] line(1) by auto
  obtain h where h: "free c r (mAmountReservationsHandler m) = (Inr (), h)" "handler_ok h"
    using ledger.unlock_ok [OF assms(2) ok(1)] by blast
  let ?m' = "?m\<lparr>mAmountReservationsHandler := h\<rparr>"
  have drop: "dropAmountReservation c r ?m = (Inr (), ?m')"
    using h(1) by (simp add: dropAmountReservation_def onHandler_def)
  have cap: "room m c' d' \<le> room ?m c' d' + (if c' = c \<and> d' = mDirection r then mBlockedAmount r else 0)"
    for c' d'
    using used(3) [of d'] line(1) by (auto simp: room_def split: if_splits)
  have "\<forall>c d. reserved h c d \<le> room ?m c d"
    using ledger.settle_covered [where cap = "room m" and cap' = "room ?m", OF h(1) assms(2) ok(1) _ cap]
      ok(4) by blast
  then have "manager_ok ?m'"
    using h(2) ok(2,3) used(2) by (intro manager_okI) (auto split: if_splits)
  then show ?thesis
    using line(1) use drop held_free(2) [OF ok(1) assms(2)] h(1) by (auto simp: putLine_def)
qed

section \<open>The next free identifier\<close>

lemma word_less_succ: "x < p + 1 \<Longrightarrow> x \<le> p" for x p :: TrustLineID
  by (metis inc_le linorder_not_less)

lemma word_succ_gap:
  fixes p it :: TrustLineID
  assumes "p \<le> it" and "it - p > 1"
  shows "p < p + 1 \<and> p + 1 < it"
  using assms by unat_arith

lemma word_succ_next:
  fixes p it :: TrustLineID
  assumes "p \<le> it" and "\<not> it - p > 1"
  shows "it = p \<or> it = p + 1"
proof -
  have "unat (it - p) \<le> 1"
    using assms(2) by (simp add: word_less_nat_alt)
  then have "unat (it - p) = unat (0 :: TrustLineID) \<or> unat (it - p) = unat (1 :: TrustLineID)"
    by simp linarith
  then have "it - p = 0 \<or> it - p = 1"
    unfolding word_unat_eq_iff .
  then show ?thesis
    by (metis add.commute diff_add_cancel eq_iff_diff_eq_0)
qed

lemma firstGap_fresh:
  assumes "sorted (p # rest)" and "ids = {..p} \<union> set rest" and "ids \<noteq> UNIV"
  shows "firstGap p rest \<notin> ids \<and> (\<forall>x < firstGap p rest. x \<in> ids)"
  using assms
proof (induction p rest rule: firstGap.induct)
  case (1 p)
  have "p \<noteq> - 1"
    using 1(2,3) by (auto simp: word_order.extremum)
  then have "p < p + 1"
    by (metis inc_less_eq_self_iff_eq linorder_not_le)
  with 1 show ?case by (auto dest: word_less_succ)
next
  case (2 p it rest)
  have le: "p \<le> it" "\<forall>x \<in> set rest. it \<le> x" using 2(2) by auto
  show ?case
  proof (cases "it - p > 1")
    case True
    then have "p < p + 1 \<and> p + 1 < it" using word_succ_gap le(1) by blast
    with le(2) True show ?thesis
      using 2(3) by (auto dest: word_less_succ)
  next
    case False
    have "x \<le> it \<longleftrightarrow> x = it \<or> x \<le> p" for x
      using word_succ_next [OF le(1) False] le(1) word_less_succ [of x p] by (metis order_le_less order_trans)
    then have "{..it} = insert it {..p}" by auto
    then have "ids = {..it} \<union> set rest" using 2(3) by auto
    with 2(1) [OF False] 2(2,4) False show ?thesis by simp
  qed
qed

text \<open>The search of both managers for an unused id, over a vector of 32-bit ids.\<close>

lemma smallest_free:
  fixes used :: "32 word list"
  assumes "length used < 2 ^ 32"
  defines "n \<equiv> (case sort used of [] \<Rightarrow> 0 | p # rest \<Rightarrow> if p \<noteq> 0 then 0 else firstGap p rest)"
  shows "n \<notin> set used \<and> (\<forall>x < n. x \<in> set used)"
proof -
  have "card (set used) < 2 ^ 32"
    using card_length [of used] assms(1) by simp
  then have univ: "set used \<noteq> UNIV"
    using card_word [where 'a = 32] by auto
  show ?thesis
  proof (cases "sort used")
    case Nil
    then have "used = []" by (metis length_0_conv length_sort)
    then show ?thesis by (simp add: n_def)
  next
    case (Cons p rest)
    have s: "sorted (p # rest)" "set (p # rest) = set used"
      unfolding Cons [symmetric] by simp_all
    show ?thesis
    proof (cases "p = 0")
      case True
      then have "{..p} = {p}" by auto
      then have "set used = {..p} \<union> set rest" by (simp flip: s(2))
      with firstGap_fresh [OF s(1), of "set used"] univ True Cons show ?thesis
        by (simp add: n_def)
    next
      case False
      then have "0 \<notin> set used" using s by (metis insert_iff list.simps(15) sorted_simps(2) word_le_0_iff)
      with False Cons show ?thesis by (simp add: n_def)
    qed
  qed
qed

lemma nextFreeID_fresh:
  assumes "\<not> broken store" and "length (lineRows store) < 2 ^ 32"
  shows "\<exists>n. nextFreeID (Some store) = Inr n \<and> n \<notin> set (map rowId (lineRows store)) \<and>
    (\<forall>x < n. x \<in> set (map rowId (lineRows store)))"
proof -
  let ?used = "map rowId (lineRows store)"
  have "nextFreeID (Some store) =
      Inr (case sort ?used of [] \<Rightarrow> 0 | p # rest \<Rightarrow> if p \<noteq> 0 then 0 else firstGap p rest)"
    using assms(1) by (simp add: nextFreeID_def allIDs_def split: list.split)
  then show ?thesis using smallest_free [of ?used] assms(2) by simp
qed

section \<open>Every change of a manager\<close>

lemma manager_ok_putLine:
  assumes "manager_ok m" and "line_ok line" and "\<And>d. locked m c d \<le> line_room d line"
  shows "manager_ok (putLine c line m)"
  using assms(2,3) manager_okD [OF assms(1)]
  by (intro manager_okI) (auto simp: room_def split: if_splits)

lemma manager_ok_cong:
  assumes "manager_ok m" and "mTrustLines m' = mTrustLines m"
    and "mAmountReservationsHandler m' = mAmountReservationsHandler m"
  shows "manager_ok m'"
  using assms by (simp add: manager_ok_iff room_def)

lemma onLine_Some:
  "map_of (mTrustLines m) c = Some line \<Longrightarrow>
     onLine c f m = (case f line of Inl e \<Rightarrow> throwing e m
                                  | Inr line' \<Rightarrow> returning () (putLine c line' m))"
  by (simp add: onLine_def)

lemma setOutgoing_exact:
  assumes "map_of (mTrustLines m) c = Some line"
  shows "setOutgoing c a m =
    (if a = mOutgoingTrustAmount line then (if a = 0 then throwing ValueError m else returning NoChanges m)
     else if a = kMaxAmount then throwing ValueError m
     else returning (if a = 0 then Closed else Updated)
            (putLine c (line\<lparr>mOutgoingTrustAmount := a\<rparr>) m))"
  using assms
  by (auto simp: setOutgoing_def closeOutgoing_def outgoingTrustAmount_def trustLineReadOnly_def
      onLine_Some setOutgoingTrustAmount_def kMaxAmount_def)

lemma setIncoming_exact:
  assumes "map_of (mTrustLines m) c = Some line"
  shows "setIncoming c a m =
    (if a = mIncomingTrustAmount line then (if a = 0 then throwing ValueError m else returning NoChanges m)
     else if a = kMaxAmount then throwing ValueError m
     else returning (if a = 0 then Closed else Updated)
            (putLine c (line\<lparr>mIncomingTrustAmount := a\<rparr>) m))"
  using assms
  by (auto simp: setIncoming_def closeIncoming_def incomingTrustAmount_def trustLineReadOnly_def
      onLine_Some setIncomingTrustAmount_def kMaxAmount_def)

lemma setOutgoing_covered:
  assumes "manager_ok m" and "map_of (mTrustLines m) c = Some line"
    and "setOutgoing c a m = (Inr res, m')"
    and "mBalance line + int (locked m c Incoming) \<le> int a"
    and "a + mIncomingTrustAmount line < 2 ^ 256"
  shows "manager_ok m'"
proof -
  have line: "line_ok line" using manager_okD(3) [OF assms(1,2)] .
  have "locked m c Outgoing \<le> line_room Outgoing line"
    using manager_okD(4) [OF assms(1), of c Outgoing] assms(2) by (simp add: room_def)
  then have "locked m c d \<le> line_room d (line\<lparr>mOutgoingTrustAmount := a\<rparr>)" for d
    using assms(4) by (cases d) (auto simp: line_room_def outgoing_room_def incoming_room_def)
  moreover have "line_ok (line\<lparr>mOutgoingTrustAmount := a\<rparr>)"
    using line assms(4,5) by (auto simp: line_ok_def trust_line_ok_def within_limits_def)
  ultimately have "manager_ok (putLine c (line\<lparr>mOutgoingTrustAmount := a\<rparr>) m)"
    by (intro manager_ok_putLine [OF assms(1)])
  then show ?thesis
    using assms(1,3) by (auto simp: setOutgoing_exact [OF assms(2)] split: if_splits)
qed

lemma setIncoming_covered:
  assumes "manager_ok m" and "map_of (mTrustLines m) c = Some line"
    and "setIncoming c a m = (Inr res, m')"
    and "int (locked m c Outgoing) - mBalance line \<le> int a"
    and "a + mOutgoingTrustAmount line < 2 ^ 256"
  shows "manager_ok m'"
proof -
  have line: "line_ok line" using manager_okD(3) [OF assms(1,2)] .
  have "locked m c Incoming \<le> line_room Incoming line"
    using manager_okD(4) [OF assms(1), of c Incoming] assms(2) by (simp add: room_def)
  then have "locked m c d \<le> line_room d (line\<lparr>mIncomingTrustAmount := a\<rparr>)" for d
    using assms(4) by (cases d) (auto simp: line_room_def outgoing_room_def incoming_room_def)
  moreover have "line_ok (line\<lparr>mIncomingTrustAmount := a\<rparr>)"
    using line assms(4,5) by (auto simp: line_ok_def trust_line_ok_def within_limits_def)
  ultimately have "manager_ok (putLine c (line\<lparr>mIncomingTrustAmount := a\<rparr>) m)"
    by (intro manager_ok_putLine [OF assms(1)])
  then show ?thesis
    using assms(1,3) by (auto simp: setIncoming_exact [OF assms(2)] split: if_splits)
qed

lemma update_reservation_covered:
  assumes "manager_ok m" and "r \<in> set (held_by m c)"
    and "updateAmountReservation c r a m = (Inr n, m')"
    and "mDirection r = Outgoing \<or> a \<le> mBlockedAmount r"
  shows "manager_ok m' \<and> mTrustLines m' = mTrustLines m"
proof -
  obtain line where line: "map_of (mTrustLines m) c = Some line"
    using held_room [OF assms(1,2)] by blast
  have upd: "onHandler (updateReservation c r a) m = (Inr n, m')"
    using assms(3) by (auto simp: updateAmountReservation_def split: sum.splits if_splits)
  have "mDirection r = Outgoing \<Longrightarrow>
      a \<le> (if mState line = Active then room m c Outgoing - locked m c Outgoing else 0) + mBlockedAmount r"
    using assms(3) considering_exact(1) [OF assms(1) line]
    by (auto simp: updateAmountReservation_def checked_add_def split: if_splits)
  then have "locked m c (mDirection r) + a \<le> room m c (mDirection r) + mBlockedAmount r"
    using assms(4) manager_okD(4) [OF assms(1), of c "mDirection r"] by (auto split: if_splits)
  then show ?thesis by (rule update_covered [OF assms(1,2) upd])
qed

lemma reserve_outgoing_exact:
  assumes "manager_ok m" and "map_of (mTrustLines m) c = Some line"
  shows "reserveOutgoingAmount c u a m =
    (if a \<le> (if mState line = Active then room m c Outgoing - locked m c Outgoing else 0)
     then onHandler (reserve c u a Outgoing) m else throwing ValueError m)"
  by (simp add: reserveOutgoingAmount_def considering_exact(1) [OF assms])

lemma reserve_incoming_exact:
  assumes "manager_ok m" and "map_of (mTrustLines m) c = Some line"
  shows "reserveIncomingAmount c u a m =
    (if a \<le> (if mState line = Active then room m c Incoming - locked m c Incoming else 0)
     then onHandler (reserve c u a Incoming) m else throwing ValueError m)"
  by (simp add: reserveIncomingAmount_def considering_exact(2) [OF assms])

lemma reserve_amount_covered:
  assumes "manager_ok m"
    and "reserveOutgoingAmount c u a m = (Inr r, m') \<and> d = Outgoing \<or>
         reserveIncomingAmount c u a m = (Inr r, m') \<and> d = Incoming"
  shows "manager_ok m' \<and> r \<in> set (held_by m' c) \<and>
    (\<forall>c' d'. locked m' c' d' = locked m c' d' + (if c' = c \<and> d' = d then a else 0)) \<and>
    mTrustLines m' = mTrustLines m"
proof -
  obtain line where line: "map_of (mTrustLines m) c = Some line"
    using assms(2) considering_absent [of m c]
    by (cases "map_of (mTrustLines m) c")
      (auto simp: reserveOutgoingAmount_def reserveIncomingAmount_def)
  have "onHandler (reserve c u a d) m = (Inr r, m')" and "locked m c d + a \<le> room m c d"
    using assms(2) manager_okD(4) [OF assms(1), of c d]
    by (auto simp: reserve_outgoing_exact [OF assms(1) line] reserve_incoming_exact [OF assms(1) line]
        split: if_splits)
  then show ?thesis by (rule reserve_covered [OF assms(1)])
qed

section \<open>Runs of a manager\<close>

text \<open>
  Every operation that changes a manager, as a call: reservations, their use and end (a commit uses a reservation and drops it,
  \<open>Settle\<close>), the limits, the state and the flags, opening, accepting, resetting and removing a line, reading it back from the
  tables, and the check after a transaction. \<open>apply_call\<close> is the state it leaves, whether it returns or throws.
\<close>

datatype ManagerCall =
    ReserveOutgoing ContractorID TransactionUUID TrustLineAmount
  | ReserveIncoming ContractorID TransactionUUID TrustLineAmount
  | UpdateReservation ContractorID AmountReservation TrustLineAmount
  | DropReservation ContractorID AmountReservation
  | Settle ContractorID AmountReservation
  | SetOutgoing ContractorID TrustLineAmount
  | SetIncoming ContractorID TrustLineAmount
  | CloseOutgoing ContractorID
  | CloseIncoming ContractorID
  | SetState ContractorID TrustLineState "TrustLineStore option"
  | SetGateway ContractorID bool "TrustLineStore option"
  | SetAuditNumber ContractorID AuditNumber
  | SetOwnKeysPresent ContractorID bool
  | SetContractorKeysPresent ContractorID bool
  | ResetReceipts ContractorID
  | ResetLine ContractorID TrustLineAmount TrustLineAmount TrustLineBalance
  | OpenLine ContractorID "TrustLineStore option"
  | AcceptLine ContractorID "TrustLineStore option"
  | RemoveLine ContractorID "TrustLineStore option"
  | UpdateFromStorage AuditStorage ContractorID
  | CheckAfter AuditStorage ContractorID bool
  | ResetRule ContractorID
  | ClearPinged

fun apply_call :: "ManagerCall \<Rightarrow> TrustLinesManager \<Rightarrow> TrustLinesManager" where
  "apply_call (ReserveOutgoing c u a) m = snd (reserveOutgoingAmount c u a m)"
| "apply_call (ReserveIncoming c u a) m = snd (reserveIncomingAmount c u a m)"
| "apply_call (UpdateReservation c r a) m = snd (updateAmountReservation c r a m)"
| "apply_call (DropReservation c r) m = snd (dropAmountReservation c r m)"
| "apply_call (Settle c r) m = snd (bindS (useReservation c r m) (\<lambda>_. dropAmountReservation c r))"
| "apply_call (SetOutgoing c a) m = snd (setOutgoing c a m)"
| "apply_call (SetIncoming c a) m = snd (setIncoming c a m)"
| "apply_call (CloseOutgoing c) m = snd (closeOutgoing c m)"
| "apply_call (CloseIncoming c) m = snd (closeIncoming c m)"
| "apply_call (SetState c state tx) m = fst (snd (setTrustLineState c state (m, tx)))"
| "apply_call (SetGateway c gateway tx) m = fst (snd (setContractorAsGateway c gateway (m, tx)))"
| "apply_call (SetAuditNumber c number) m = snd (setTrustLineAuditNumber c number m)"
| "apply_call (SetOwnKeysPresent c present) m = snd (setIsOwnKeysPresent c present m)"
| "apply_call (SetContractorKeysPresent c present) m = snd (setIsContractorKeysPresent c present m)"
| "apply_call (ResetReceipts c) m = snd (resetTrustLineTotalReceiptsAmounts c m)"
| "apply_call (ResetLine c i out b) m = snd (resetTrustLine c i out b m)"
| "apply_call (OpenLine c tx) m = fst (snd (open_line c (m, tx)))"
| "apply_call (AcceptLine c tx) m = fst (snd (accept_line c (m, tx)))"
| "apply_call (RemoveLine c tx) m = fst (snd (removeTrustLine c (m, tx)))"
| "apply_call (UpdateFromStorage st c) m = snd (updateTrustLineFromStorage st c m)"
| "apply_call (CheckAfter st c initiator) m = snd (checkTrustLineAfterTransaction st c initiator m)"
| "apply_call (ResetRule c) m = snd (resetAuditRule c m)"
| "apply_call ClearPinged m = clearContractorsShouldBePinged m"

text \<open>
  The callers of the last three operations on a reservation hold it, and the receipt total of a used one has room for its
  amount. \<open>covers\<close>: the values a call brings fit the reservations there are. The code compares neither the limits nor
  the balance it is given with them: a limit must not fall below what the balance and the reservations take, a reset or stored
  line must fit the reservations, a removed line must have none. The two limits together must fit the amount type.
\<close>

fun proper :: "TrustLinesManager \<Rightarrow> ManagerCall \<Rightarrow> bool" where
  "proper m (UpdateReservation c r a) \<longleftrightarrow> r \<in> set (held_by m c)"
| "proper m (DropReservation c r) \<longleftrightarrow> r \<in> set (held_by m c)"
| "proper m (Settle c r) \<longleftrightarrow> r \<in> set (held_by m c) \<and> (case map_of (mTrustLines m) c of None \<Rightarrow> True
     | Some line \<Rightarrow> receiptsOf (mDirection r) line + mBlockedAmount r < 2 ^ 256)"
| "proper m _ \<longleftrightarrow> True"

definition carries :: "TrustLinesManager \<Rightarrow> ContractorID \<Rightarrow> TrustLine \<Rightarrow> bool" where
  "carries m c line \<longleftrightarrow> line_ok line \<and> locked m c Outgoing \<le> outgoing_room line \<and> locked m c Incoming \<le> incoming_room line"

definition resetLine :: "TrustLineAmount \<Rightarrow> TrustLineAmount \<Rightarrow> TrustLineBalance \<Rightarrow> TrustLine \<Rightarrow> TrustLine" where
  "resetLine i out b line =
     (if i = kMaxAmount then line
      else if out = kMaxAmount then line\<lparr>mIncomingTrustAmount := i\<rparr>
      else if b = kMaxBalance then line\<lparr>mIncomingTrustAmount := i, mOutgoingTrustAmount := out\<rparr>
      else line\<lparr>mIncomingTrustAmount := i, mOutgoingTrustAmount := out, mBalance := b, mState := ResetPending\<rparr>)"

definition covers_outgoing :: "TrustLinesManager \<Rightarrow> ContractorID \<Rightarrow> TrustLine \<Rightarrow> TrustLineAmount \<Rightarrow> bool" where
  "covers_outgoing m c line a \<longleftrightarrow>
     mBalance line + int (locked m c Incoming) \<le> int a \<and> a + mIncomingTrustAmount line < 2 ^ 256"

definition covers_incoming :: "TrustLinesManager \<Rightarrow> ContractorID \<Rightarrow> TrustLine \<Rightarrow> TrustLineAmount \<Rightarrow> bool" where
  "covers_incoming m c line a \<longleftrightarrow>
     int (locked m c Outgoing) - mBalance line \<le> int a \<and> a + mOutgoingTrustAmount line < 2 ^ 256"

fun covers :: "TrustLinesManager \<Rightarrow> ManagerCall \<Rightarrow> bool" where
  "covers m (UpdateReservation c r a) \<longleftrightarrow> mDirection r = Outgoing \<or> a \<le> mBlockedAmount r \<or>
     isl (fst (updateAmountReservation c r a m)) \<or> locked m c Incoming + a \<le> room m c Incoming + mBlockedAmount r"
| "covers m (SetOutgoing c a) \<longleftrightarrow> (case map_of (mTrustLines m) c of None \<Rightarrow> True
     | Some line \<Rightarrow> a = mOutgoingTrustAmount line \<or> a = kMaxAmount \<or> covers_outgoing m c line a)"
| "covers m (SetIncoming c a) \<longleftrightarrow> (case map_of (mTrustLines m) c of None \<Rightarrow> True
     | Some line \<Rightarrow> a = mIncomingTrustAmount line \<or> a = kMaxAmount \<or> covers_incoming m c line a)"
| "covers m (CloseOutgoing c) \<longleftrightarrow> (case map_of (mTrustLines m) c of None \<Rightarrow> True
     | Some line \<Rightarrow> mOutgoingTrustAmount line = 0 \<or> covers_outgoing m c line 0)"
| "covers m (CloseIncoming c) \<longleftrightarrow> (case map_of (mTrustLines m) c of None \<Rightarrow> True
     | Some line \<Rightarrow> mIncomingTrustAmount line = 0 \<or> covers_incoming m c line 0)"
| "covers m (ResetLine c i out b) \<longleftrightarrow> (case map_of (mTrustLines m) c of None \<Rightarrow> True
     | Some line \<Rightarrow> carries m c (resetLine i out b line))"
| "covers m (UpdateFromStorage st c) \<longleftrightarrow> (case map_of (mTrustLines m) c of None \<Rightarrow> True
     | Some line \<Rightarrow> (case readLine st line of
         (Inl e, line') \<Rightarrow> carries m c line'
       | (Inr u, line') \<Rightarrow> carries m c line' \<and> carries m (mContractorID line') line'))"
| "covers m (RemoveLine c tx) \<longleftrightarrow> map_of (mTrustLines m) c = None \<or>
     locked m c Outgoing = 0 \<and> locked m c Incoming = 0"
| "covers m _ \<longleftrightarrow> True"

inductive manager_step :: "TrustLinesManager \<Rightarrow> TrustLinesManager \<Rightarrow> bool" where
  call: "proper m x \<Longrightarrow> covers m x \<Longrightarrow> manager_step m (apply_call x m)"

lemma line_ok_same_amounts:
  assumes "line_ok line" and "mIncomingTrustAmount line' = mIncomingTrustAmount line"
    and "mOutgoingTrustAmount line' = mOutgoingTrustAmount line" and "mBalance line' = mBalance line"
    and "amount_ok (mTotalOutgoingReceiptsAmount line')"
    and "amount_ok (mTotalIncomingReceiptsAmount line')"
  shows "line_ok line' \<and> line_room d line' = line_room d line"
  using assms
  by (cases d) (simp_all add: line_ok_def trust_line_ok_def within_limits_def line_room_def
      outgoing_room_def incoming_room_def)

lemma manager_ok_same_amounts:
  assumes "manager_ok m" and "map_of (mTrustLines m) c = Some line"
    and "mIncomingTrustAmount line' = mIncomingTrustAmount line"
    and "mOutgoingTrustAmount line' = mOutgoingTrustAmount line" and "mBalance line' = mBalance line"
    and "amount_ok (mTotalOutgoingReceiptsAmount line')"
    and "amount_ok (mTotalIncomingReceiptsAmount line')"
  shows "manager_ok (putLine c line' m)"
proof (rule manager_ok_putLine [OF assms(1)])
  note same = line_ok_same_amounts [OF manager_okD(3) [OF assms(1,2)] assms(3-7)]
  show "line_ok line'" using same by blast
  show "locked m c d \<le> line_room d line'" for d
    using same [of d] manager_okD(4) [OF assms(1), of c d] assms(2) by (simp add: room_def)
qed

lemma receipts_ok:
  assumes "manager_ok m" and "map_of (mTrustLines m) c = Some line"
  shows "amount_ok (mTotalOutgoingReceiptsAmount line)" "amount_ok (mTotalIncomingReceiptsAmount line)"
  using manager_okD(3) [OF assms] by (simp_all add: line_ok_def trust_line_ok_def)

lemma onLine_same_amounts:
  assumes "manager_ok m" and "onLine c (\<lambda>line. Inr (f line)) m = (res, m')"
    and "\<And>line. mIncomingTrustAmount (f line) = mIncomingTrustAmount line"
    and "\<And>line. mOutgoingTrustAmount (f line) = mOutgoingTrustAmount line"
    and "\<And>line. mBalance (f line) = mBalance line"
    and "\<And>line. mTotalOutgoingReceiptsAmount (f line) \<in> {0, mTotalOutgoingReceiptsAmount line}"
    and "\<And>line. mTotalIncomingReceiptsAmount (f line) \<in> {0, mTotalIncomingReceiptsAmount line}"
  shows "manager_ok m'"
proof (cases "map_of (mTrustLines m) c")
  case None
  then show ?thesis using assms(1,2) by (simp add: onLine_def)
next
  case (Some line)
  have "manager_ok (putLine c (f line) m)"
    using receipts_ok [OF assms(1) Some] assms(6,7) [of line]
    by (intro manager_ok_same_amounts [OF assms(1) Some] assms(3-5)) auto
  then show ?thesis using assms(2) Some by (simp add: onLine_def)
qed

lemma new_line_ok:
  assumes "manager_ok m" and "map_of (mTrustLines m) c = None"
  shows "manager_ok (putLine c (newInitTrustLine c i) m)"
proof (rule manager_ok_putLine [OF assms(1)])
  show "line_ok (newInitTrustLine c i)"
    by (simp add: newInitTrustLine_def line_ok_def trust_line_ok_def within_limits_def)
  show "locked m c d \<le> line_room d (newInitTrustLine c i)" for d
    using manager_okD(4) [OF assms(1), of c d] assms(2) by (simp add: room_def)
qed

lemma open_line_ok:
  assumes "manager_ok m" and "open_line c (m, tx) = (res, (m', tx'))"
  shows "manager_ok m'"
proof (cases "map_of (mTrustLines m) c = None \<and> (\<exists>i. nextFreeID tx = Inr i)")
  case True
  then obtain i where i: "nextFreeID tx = Inr i" by blast
  have "mTrustLines m' = mTrustLines (putLine c (newInitTrustLine c i) m) \<and>
      mAmountReservationsHandler m' = mAmountReservationsHandler m"
    using True i assms(2)
    by (auto simp: open_line_def trustLineIsPresent_def Let_def split: option.splits prod.splits)
  then show ?thesis
    using manager_ok_cong [OF new_line_ok [OF assms(1), of c i]] True by simp
next
  case False
  then show ?thesis
    using assms by (auto simp: open_line_def trustLineIsPresent_def split: if_splits sum.splits)
qed

lemma remove_line_ok:
  assumes "manager_ok m" and "\<not> isReservationsPresentOnTrustLine m c"
    and "removeTrustLine c (m, tx) = (res, (m', tx'))"
  shows "manager_ok m'"
proof -
  let ?m = "m\<lparr>mTrustLines := AList.delete c (mTrustLines m)\<rparr>"
  note ok = manager_okD [OF assms(1)]
  have none: "locked m c d = 0" for d
    using assms(2)
    by (simp add: isReservationsPresentOnTrustLine_def isReservationsPresentWithContractor_def
        locked_absent)
  have "reserved (mAmountReservationsHandler m) c' d \<le> room ?m c' d" for c' d
    using ok(4) [of c' d] none [of d] by (cases "c' = c") (simp_all add: room_def)
  then have "manager_ok ?m"
    using ok(1-3) by (intro manager_okI) (auto split: if_splits)
  moreover have "m' = m \<or> m' = ?m"
    using assms(3) by (auto simp: removeTrustLine_def Let_def split: if_splits option.splits prod.splits)
  ultimately show ?thesis using assms(1) by blast
qed

lemma putLine_same:
  assumes "manager_ok m" and "map_of (mTrustLines m) c = Some line"
  shows "manager_ok (putLine c (line\<lparr>mState := s\<rparr>) m)"
    and "manager_ok (putLine c (line\<lparr>mIsContractorGateway := g\<rparr>) m)"
  by (rule manager_ok_same_amounts [OF assms]; use receipts_ok [OF assms] in simp)+

lemma check_after_ok:
  assumes "manager_ok m" and "checkTrustLineAfterTransaction st c initiator m = (res, m')"
  shows "manager_ok m'"
proof -
  have "manager_ok m''" if "setIsOwnKeysPresent c False m = (res, m'')" for res m''
    using that unfolding setIsOwnKeysPresent_def by (rule onLine_same_amounts [OF assms(1)]) auto
  then have "manager_ok (snd (setIsOwnKeysPresent c False m))" by (metis prod.collapse)
  moreover have "m' = m \<or> m' = snd (setIsOwnKeysPresent c False m)"
    using assms(2)
    by (auto simp: checkTrustLineAfterTransaction_def bindS_def
        split: option.splits sum.splits bool.splits if_splits prod.splits)
  ultimately show ?thesis using assms(1) by blast
qed

lemma manager_ok_fits:
  assumes "manager_ok m" and "mAmountReservationsHandler m' = mAmountReservationsHandler m"
    and "distinct (keys (mTrustLines m'))" and "\<And>x. x \<notin> set S \<Longrightarrow> map_of (mTrustLines m') x = map_of (mTrustLines m) x"
    and "\<And>x. x \<in> set S \<Longrightarrow> map_of (mTrustLines m') x \<noteq> None"
  shows "manager_ok m' \<longleftrightarrow> (\<forall>x \<in> set S. carries m x (the (map_of (mTrustLines m') x)))"
proof -
  have f: "carries m x line \<longleftrightarrow> line_ok line \<and> (\<forall>d. locked m x d \<le> line_room d line)" for x line
    by (auto simp: carries_def line_room_def split: ReservationDirection.split)
  show ?thesis
  proof
    assume ok: "manager_ok m'"
    show "\<forall>x \<in> set S. carries m x (the (map_of (mTrustLines m') x))"
    proof
      fix x assume x: "x \<in> set S"
      then obtain line where l: "map_of (mTrustLines m') x = Some line" using assms(5) by blast
      show "carries m x (the (map_of (mTrustLines m') x))"
        using manager_okD(3,4) [OF ok] l assms(2) by (auto simp: f room_def) (metis (no_types, lifting) option.simps(5))
    qed
  next
    assume a: "\<forall>x \<in> set S. carries m x (the (map_of (mTrustLines m') x))"
    show "manager_ok m'"
    proof (rule manager_okI)
      show "handler_ok (mAmountReservationsHandler m')" using manager_okD(1) [OF assms(1)] assms(2) by simp
      show "distinct (keys (mTrustLines m'))" by (rule assms(3))
      show "line_ok line" if "map_of (mTrustLines m') x = Some line" for x line
        using that a manager_okD(3) [OF assms(1)] assms(4) [of x] by (cases "x \<in> set S") (auto simp: f)
      show "locked m' x d \<le> room m' x d" for x d
        using a manager_okD(4) [OF assms(1), of x d] assms(2) assms(4,5) [of x]
        by (cases "x \<in> set S") (auto simp: f room_def split: option.splits)
    qed
  qed
qed

lemma manager_ok_put_iff:
  assumes "manager_ok m"
  shows "manager_ok (putLine c line m) \<longleftrightarrow> carries m c line"
  using manager_ok_fits [OF assms, of "putLine c line m" "[c]"] manager_okD(2) [OF assms] by simp

lemma fits_limits:
  assumes "manager_ok m" and "map_of (mTrustLines m) c = Some line"
  shows "carries m c (line\<lparr>mOutgoingTrustAmount := a\<rparr>) \<longleftrightarrow> covers_outgoing m c line a"
    and "carries m c (line\<lparr>mIncomingTrustAmount := a\<rparr>) \<longleftrightarrow> covers_incoming m c line a"
proof -
  have line: "line_ok line" using manager_okD(3) [OF assms] .
  have le: "locked m c d \<le> line_room d line" for d
    using manager_okD(4) [OF assms(1), of c d] assms(2) by (simp add: room_def)
  show "carries m c (line\<lparr>mOutgoingTrustAmount := a\<rparr>) \<longleftrightarrow> covers_outgoing m c line a"
    using line le [of Outgoing]
    by (auto simp: carries_def covers_outgoing_def line_ok_def trust_line_ok_def within_limits_def line_room_def
        outgoing_room_def incoming_room_def)
  show "carries m c (line\<lparr>mIncomingTrustAmount := a\<rparr>) \<longleftrightarrow> covers_incoming m c line a"
    using line le [of Incoming]
    by (auto simp: carries_def covers_incoming_def line_ok_def trust_line_ok_def within_limits_def line_room_def
        outgoing_room_def incoming_room_def)
qed

lemma fits_present: "manager_ok m \<Longrightarrow> map_of (mTrustLines m) c = Some line \<Longrightarrow> carries m c line"
  using manager_okD(3) [of m c line] manager_okD(4) [of m c Outgoing] manager_okD(4) [of m c Incoming]
  by (auto simp: carries_def room_def line_room_def)

lemma putLine_twice [simp]: "putLine c line (putLine c line' m) = putLine c line m"
  by (simp add: putLine_def)

lemma resetTrustLine_exact:
  assumes "map_of (mTrustLines m) c = Some line"
  shows "snd (resetTrustLine c i out b m) = (if i = kMaxAmount then m else putLine c (resetLine i out b line) m)"
  using assms
  by (auto simp: resetTrustLine_def onLine_def resetLine_def setIncomingTrustAmount_def setOutgoingTrustAmount_def
      setBalance_def)

lemma limit_calls_iff:
  assumes "manager_ok m"
  shows "manager_ok (snd (setOutgoing c a m)) \<longleftrightarrow> covers m (SetOutgoing c a)"
    and "manager_ok (snd (setIncoming c a m)) \<longleftrightarrow> covers m (SetIncoming c a)"
    and "manager_ok (snd (closeOutgoing c m)) \<longleftrightarrow> covers m (CloseOutgoing c)"
    and "manager_ok (snd (closeIncoming c m)) \<longleftrightarrow> covers m (CloseIncoming c)"
    and "manager_ok (snd (resetTrustLine c i out b m)) \<longleftrightarrow> covers m (ResetLine c i out b)"
proof -
  have "(manager_ok (snd (setOutgoing c a m)) \<longleftrightarrow> covers m (SetOutgoing c a)) \<and>
      (manager_ok (snd (setIncoming c a m)) \<longleftrightarrow> covers m (SetIncoming c a)) \<and>
      (manager_ok (snd (closeOutgoing c m)) \<longleftrightarrow> covers m (CloseOutgoing c)) \<and>
      (manager_ok (snd (closeIncoming c m)) \<longleftrightarrow> covers m (CloseIncoming c)) \<and>
      (manager_ok (snd (resetTrustLine c i out b m)) \<longleftrightarrow> covers m (ResetLine c i out b))"
  proof (cases "map_of (mTrustLines m) c")
    case None
    then show ?thesis
      using assms by (simp add: setOutgoing_def setIncoming_def closeOutgoing_def closeIncoming_def resetTrustLine_def
          onLine_def outgoingTrustAmount_def incomingTrustAmount_def trustLineReadOnly_def)
  next
    case (Some line)
    note put = manager_ok_put_iff [OF assms] and limits = fits_limits [OF assms Some]
    have "manager_ok (snd (resetTrustLine c i out b m)) \<longleftrightarrow> covers m (ResetLine c i out b)"
      using Some assms fits_present [OF assms Some] by (simp add: resetTrustLine_exact put) (simp add: resetLine_def)
    moreover have "manager_ok (snd (closeOutgoing c m)) \<longleftrightarrow> covers m (CloseOutgoing c)"
      "manager_ok (snd (closeIncoming c m)) \<longleftrightarrow> covers m (CloseIncoming c)"
      using Some assms by (auto simp: closeOutgoing_def closeIncoming_def outgoingTrustAmount_def incomingTrustAmount_def
          trustLineReadOnly_def onLine_Some setOutgoingTrustAmount_def setIncomingTrustAmount_def kMaxAmount_def put limits)
    ultimately show ?thesis
      using Some assms by (auto simp: setOutgoing_exact [OF Some] setIncoming_exact [OF Some] put limits)
  qed
  then show "manager_ok (snd (setOutgoing c a m)) \<longleftrightarrow> covers m (SetOutgoing c a)"
    and "manager_ok (snd (setIncoming c a m)) \<longleftrightarrow> covers m (SetIncoming c a)"
    and "manager_ok (snd (closeOutgoing c m)) \<longleftrightarrow> covers m (CloseOutgoing c)"
    and "manager_ok (snd (closeIncoming c m)) \<longleftrightarrow> covers m (CloseIncoming c)"
    and "manager_ok (snd (resetTrustLine c i out b m)) \<longleftrightarrow> covers m (ResetLine c i out b)"
    by blast+
qed

lemma update_iff:
  assumes "manager_ok m" and "r \<in> set (held_by m c)"
  shows "manager_ok (snd (updateAmountReservation c r a m)) \<longleftrightarrow> covers m (UpdateReservation c r a)"
proof (cases "updateAmountReservation c r a m")
  case (Pair res m')
  show ?thesis
  proof (cases res)
    case (Inl e)
    then have "m' = m"
      using Pair by (auto simp: updateAmountReservation_def onHandler_def updateReservation_def Let_def
          split: sum.splits if_splits option.splits)
    then show ?thesis using Inl Pair assms(1) by simp
  next
    case (Inr n)
    have upd: "onHandler (updateReservation c r a) m = (Inr n, m')"
      using Inr Pair by (auto simp: updateAmountReservation_def split: sum.splits if_splits)
    obtain h where h: "updateReservation c r a (mAmountReservationsHandler m) = (Inr n, h)"
      and m': "m' = m\<lparr>mAmountReservationsHandler := h\<rparr>"
      using upd by (auto simp: onHandler_Inr)
    have "locked m c Incoming + a \<le> room m c Incoming + mBlockedAmount r" if "mDirection r = Incoming" "manager_ok m'"
      using reserved_update [OF h assms(2) manager_okD(1) [OF assms(1)], of c Incoming] that
        manager_okD(4) [OF that(2), of c Incoming] by (simp add: m')
    moreover have "manager_ok m'" if "locked m c Incoming + a \<le> room m c Incoming + mBlockedAmount r" "mDirection r = Incoming"
      using update_covered [OF assms upd] that by simp
    moreover have "manager_ok m'" if "mDirection r = Outgoing \<or> a \<le> mBlockedAmount r"
      using update_reservation_covered [OF assms _ that] Inr Pair by blast
    ultimately show ?thesis using Inr Pair by (cases "mDirection r") auto
  qed
qed

lemma storage_call_iff:
  assumes "manager_ok m"
  shows "manager_ok (snd (updateTrustLineFromStorage st c m)) \<longleftrightarrow> covers m (UpdateFromStorage st c)"
proof (cases "map_of (mTrustLines m) c")
  case None
  then show ?thesis using assms by (simp add: updateTrustLineFromStorage_def)
next
  case (Some line)
  obtain res line' where r: "readLine st line = (res, line')" by (metis surj_pair)
  have "manager_ok (putLine d line' (putLine c line' m)) \<longleftrightarrow> carries m c line' \<and> carries m d line'" for d
  proof -
    have "manager_ok (putLine d line' (putLine c line' m)) \<longleftrightarrow>
        (\<forall>x \<in> set [c, d]. carries m x (the (map_of (mTrustLines (putLine d line' (putLine c line' m))) x)))"
      using manager_okD(2) [OF assms] by (intro manager_ok_fits [OF assms]) auto
    then show ?thesis by simp
  qed
  then show ?thesis
    using Some r manager_ok_put_iff [OF assms]
    by (simp add: updateTrustLineFromStorage_def case_unit_Unity split: sum.splits)
qed

lemma remove_call_iff:
  assumes "manager_ok m"
  shows "manager_ok (fst (snd (removeTrustLine c (m, tx)))) \<longleftrightarrow> covers m (RemoveLine c tx)"
proof (cases "map_of (mTrustLines m) c")
  case None
  then show ?thesis using assms by (simp add: removeTrustLine_def trustLineIsPresent_def)
next
  case (Some line)
  let ?m = "m\<lparr>mTrustLines := AList.delete c (mTrustLines m)\<rparr>"
  note ok = manager_okD [OF assms]
  have state: "fst (snd (removeTrustLine c (m, tx))) = ?m"
    using Some by (auto simp: removeTrustLine_def trustLineIsPresent_def Let_def split: option.split prod.split)
  have "manager_ok ?m \<longleftrightarrow> (\<forall>d. locked m c d = 0)"
  proof
    assume a: "manager_ok ?m"
    have "room ?m c d = 0" for d by (simp add: room_def)
    then show "\<forall>d. locked m c d = 0" using manager_okD(4) [OF a, of c] by simp
  next
    assume none: "\<forall>d. locked m c d = 0"
    have "reserved (mAmountReservationsHandler m) c' d \<le> room ?m c' d" for c' d
      using ok(4) [of c' d] none by (cases "c' = c") (simp_all add: room_def)
    then show "manager_ok ?m" using ok(1-3) by (intro manager_okI) (auto split: if_splits)
  qed
  moreover have "(\<forall>d. locked m c d = 0) \<longleftrightarrow> locked m c Outgoing = 0 \<and> locked m c Incoming = 0"
    by (metis ReservationDirection.exhaust)
  ultimately show ?thesis unfolding state using Some by simp
qed

lemma plain_calls_ok:
  assumes "manager_ok m"
  shows "manager_ok (fst (snd (setTrustLineState c state (m, tx))))"
    and "manager_ok (fst (snd (setContractorAsGateway c gateway (m, tx))))"
    and "manager_ok (snd (setTrustLineAuditNumber c number m))"
    and "manager_ok (snd (setIsOwnKeysPresent c present m))"
    and "manager_ok (snd (setIsContractorKeysPresent c present m))"
    and "manager_ok (snd (resetTrustLineTotalReceiptsAmounts c m))"
proof -
  show "manager_ok (fst (snd (setTrustLineState c state (m, tx))))"
    using assms putLine_same(1) [of m c]
    by (auto simp: setTrustLineState_def Let_def split: option.splits prod.splits)
  show "manager_ok (fst (snd (setContractorAsGateway c gateway (m, tx))))"
    using assms putLine_same(2) [of m c]
    by (auto simp: setContractorAsGateway_def Let_def split: option.splits prod.splits)
  show "manager_ok (snd (setTrustLineAuditNumber c number m))" "manager_ok (snd (setIsOwnKeysPresent c present m))"
    "manager_ok (snd (setIsContractorKeysPresent c present m))" "manager_ok (snd (resetTrustLineTotalReceiptsAmounts c m))"
    unfolding setTrustLineAuditNumber_def setIsOwnKeysPresent_def setIsContractorKeysPresent_def
      resetTrustLineTotalReceiptsAmounts_def
    by (rule onLine_same_amounts [OF assms surjective_pairing]; simp add: resetTotalReceiptsAmounts_def)+
qed

lemma reserve_calls_ok:
  assumes "manager_ok m"
  shows "manager_ok (snd (reserveOutgoingAmount c u a m))" and "manager_ok (snd (reserveIncomingAmount c u a m))"
proof -
  have "onHandler (reserve c u a d) m = (Inl e, m') \<Longrightarrow> m' = m" for d e m'
    by (auto simp: onHandler_def reserve_def Let_def split: if_splits option.splits)
  then have same: "reserveOutgoingAmount c u a m = (Inl e, m') \<Longrightarrow> m' = m"
    "reserveIncomingAmount c u a m = (Inl e, m') \<Longrightarrow> m' = m" for e m'
    by (auto simp: reserveOutgoingAmount_def reserveIncomingAmount_def split: sum.splits if_splits)
  have covered: "manager_ok m'" if "reserveOutgoingAmount c u a m = (Inr r, m') \<or> reserveIncomingAmount c u a m = (Inr r, m')"
    for r m' using reserve_amount_covered [OF assms] that by blast
  show "manager_ok (snd (reserveOutgoingAmount c u a m))"
  proof (cases "reserveOutgoingAmount c u a m")
    case (Pair res m')
    then show ?thesis using same(1) covered assms by (cases res) auto
  qed
  show "manager_ok (snd (reserveIncomingAmount c u a m))"
  proof (cases "reserveIncomingAmount c u a m")
    case (Pair res m')
    then show ?thesis using same(2) covered assms by (cases res) auto
  qed
qed

lemma call_iff:
  assumes "manager_ok m" and "proper m x"
  shows "manager_ok (apply_call x m) \<longleftrightarrow> covers m x"
proof (cases x)
  case (DropReservation c r)
  then show ?thesis using drop_covered [OF assms(1), of r c] assms(2) by auto
next
  case (Settle c r)
  then show ?thesis using settle_held [OF assms(1), of r c] assms(2) by (force split: option.splits)
next
  case (OpenLine c tx)
  then show ?thesis using open_line_ok [OF assms(1), of c tx] by (metis apply_call.simps(17) covers.simps prod.collapse)
next
  case (AcceptLine c tx)
  have "accept_line c (m, tx) = open_line c (m, tx)" by (simp add: accept_line_def open_line_def)
  then show ?thesis using AcceptLine open_line_ok [OF assms(1), of c tx] by (metis apply_call.simps(18) covers.simps prod.collapse)
next
  case (CheckAfter st c initiator)
  then show ?thesis using check_after_ok [OF assms(1), of st c initiator]
    by (metis apply_call.simps(21) covers.simps prod.collapse)
next
  case (ResetRule c)
  then show ?thesis using assms(1) by (simp add: resetAuditRule_def)
next
  case ClearPinged
  have "manager_ok (clearContractorsShouldBePinged m)"
    by (rule manager_ok_cong [OF assms(1)]) (simp_all add: clearContractorsShouldBePinged_def)
  then show ?thesis using ClearPinged by simp
next
  case (UpdateReservation c r a)
  then show ?thesis using update_iff [OF assms(1)] assms(2) by simp
next
  case (UpdateFromStorage st c)
  then show ?thesis using storage_call_iff [OF assms(1)] by simp
next
  case (RemoveLine c tx)
  then show ?thesis using remove_call_iff [OF assms(1)] by simp
next
  case (SetOutgoing c a)
  then show ?thesis using limit_calls_iff(1) [OF assms(1)] by simp
next
  case (SetIncoming c a)
  then show ?thesis using limit_calls_iff(2) [OF assms(1)] by simp
next
  case (CloseOutgoing c)
  then show ?thesis using limit_calls_iff(3) [OF assms(1)] by simp
next
  case (CloseIncoming c)
  then show ?thesis using limit_calls_iff(4) [OF assms(1)] by simp
next
  case (ResetLine c i out b)
  then show ?thesis using limit_calls_iff(5) [OF assms(1)] by simp
qed (use plain_calls_ok [OF assms(1)] reserve_calls_ok [OF assms(1)] in simp_all)

lemma manager_step_ok: "manager_step m m' \<Longrightarrow> manager_ok m \<Longrightarrow> manager_ok m'"
  by (induction rule: manager_step.induct) (simp add: call_iff)

interpretation manager_run: step_invariant manager_step manager_ok
  by unfold_locales (rule manager_step_ok)

section \<open>Properties\<close>

definition sampleManager :: TrustLinesManager where
  "sampleManager = \<lparr>mTrustLines = [(7, sampleLine)], mEquivalent = 1,
     mAuditRules = [(7, AuditRuleCountPayments 10)], mContractorsShouldBePinged = [],
     mAmountReservationsHandler = sampleHandler\<rparr>"

definition sampleStore :: TrustLineStore where
  "sampleStore = \<lparr>lineRows = [\<lparr>rowId = 0, rowState = Active, rowContractorId = 3, rowEquivalent = 1,
       rowIsContractorGateway = False\<rparr>, \<lparr>rowId = 2, rowState = Active, rowContractorId = 4,
       rowEquivalent = 1, rowIsContractorGateway = False\<rparr>],
     contractorRows = [3, 4, 7, 8], broken = False\<rparr>"

lemma sampleManager_fields [simp]:
  "mTrustLines sampleManager = [(7, sampleLine)]"
  "mAmountReservationsHandler sampleManager = sampleHandler" "mEquivalent sampleManager = 1"
  by (simp_all add: sampleManager_def)

lemma sampleManager_ok [simp]: "manager_ok sampleManager"
proof -
  have "line_ok sampleLine" by (simp add: line_ok_def)
  then show ?thesis
    by (simp add: manager_ok_def sampleHandler_eq [symmetric] sampleHandler_ok) 
      (simp add: sampleHandler_eq reserved_def reservations_def amountOf_def
        sampleReservation_def room_def line_room_def outgoing_room_def incoming_room_def)
qed

lemma sampleReservation_held_by: "sampleReservation \<in> set (held_by sampleManager 7)"
  using sampleReservation_held by simp

text \<open>C11: when the reserved amounts exceed the capacity of a line. In a state where the reservations fit (the empty manager is
  one), a call of any operation leaves a state where they fit exactly when \<open>covers\<close> holds: always for reserving, lowering, dropping and
  settling, for raising an outgoing reservation and for what leaves the amounts alone; for a new limit, a reset line and a line
  read from the tables when the new values carry the balance and the reservations, which the code does not check; for raising
  an incoming reservation when the line can carry it, where the code looks at the other direction. Hence in every run of
  such calls the sum of the reservations is at most what the balance leaves of the limit, for every contractor and direction.
  (The reservation of an update, a drop or a settlement is held, and the receipt total has room for a settled amount.)\<close>

theorem reservations_within_capacity:
  assumes "manager_ok m"
  shows "(proper m x \<longrightarrow> (manager_ok (apply_call x m) \<longleftrightarrow> covers m x)) \<and>
    (manager_step\<^sup>*\<^sup>* m m' \<longrightarrow> manager_ok m' \<and> reserved (mAmountReservationsHandler m') c d \<le> room m' c d)"
  using call_iff [OF assms] manager_run.steps_inv [OF _ assms] manager_okD(4) by blast

theorem reservations_within_capacity_witness:
  "manager_ok (snd (dropAmountReservation 7 sampleReservation sampleManager)) \<and>
   \<not> manager_ok (snd (setIncoming 7 5 sampleManager))"
proof -
  have "reserved sampleHandler 7 Outgoing = 30"
    by (simp add: sampleHandler_eq sampleReservation_def reserved_def reservations_def amountOf_def)
  then have "\<not> covers sampleManager (SetIncoming 7 5)"
    by (simp add: covers_incoming_def kMaxAmount_def)
  then show ?thesis
    using reservations_within_capacity [OF sampleManager_ok, of "DropReservation 7 sampleReservation"]
      reservations_within_capacity [OF sampleManager_ok, of "SetIncoming 7 5"] sampleReservation_held_by by simp
qed

text \<open>C10: a granted reservation can be used. In every run of calls that leave the reservations covered (see
  \<open>manager_step\<close>; limits, resets and lines read back are in it as far as their values carry the balance and the
  reservations), as long as the handler still holds the reservation and the receipt total has room for its amount, \<open>useReservation\<close>
  succeeds: it moves the balance by exactly the amount, and using and dropping it, as a commit does, leaves the
  reservations covered and removes just that one.\<close>

theorem granted_reservation_usable:
  assumes "manager_ok m" and "manager_step\<^sup>*\<^sup>* m m'" and "r \<in> set (held_by m' c)"
    and "\<And>line. map_of (mTrustLines m') c = Some line \<Longrightarrow>
      receiptsOf (mDirection r) line + mBlockedAmount r < 2 ^ 256"
  shows "\<exists>line m''. map_of (mTrustLines m') c = Some line \<and>
    useReservation c r m' = (Inr (), putLine c (usedLine r line) m') \<and>
    dropAmountReservation c r (putLine c (usedLine r line) m') = (Inr (), m'') \<and> manager_ok m'' \<and>
    held_by m'' c = remove1 r (held_by m' c)"
proof -
  have ok: "manager_ok m'" using manager_run.steps_inv [OF assms(2,1)] .
  obtain line where line: "map_of (mTrustLines m') c = Some line"
    and use: "useReservation c r m' = (Inr (), putLine c (usedLine r line) m')"
    using use_held [OF ok assms(3,4)] by blast
  show ?thesis
    using settle_held [OF ok assms(3,4)] line use by force
qed

theorem granted_reservation_usable_witness:
  "fst (useReservation 7 sampleReservation sampleManager) = Inr ()"
  using granted_reservation_usable [OF sampleManager_ok _ sampleReservation_held_by]
  by (auto simp: receiptsOf_def sampleReservation_def)

text \<open>C12: a reservation is granted exactly when its amount is positive, the line is active and the
  amount carries what the line can carry minus what is already reserved; the reservation then has the
  requested fields. In every other case \<open>ValueError\<close> is thrown and nothing changes. The same holds in both directions.\<close>

theorem reserve_granted_iff:
  assumes "manager_ok m" and "map_of (mTrustLines m) c = Some line"
  shows "(let ok = (\<lambda>d. 0 < a \<and> mState line = Active \<and>
             reserved (mAmountReservationsHandler m) c d + a \<le> room m c d);
              op = (\<lambda>d. case d of Outgoing \<Rightarrow> reserveOutgoingAmount c u a m
                                | Incoming \<Rightarrow> reserveIncomingAmount c u a m)
          in if ok d then (\<exists>r m'. op d = (Inr r, m') \<and> mTransactionUUID r = u \<and>
                             mBlockedAmount r = a \<and> mDirection r = d \<and> r \<in> set (held_by m' c))
             else op d = (Inl ValueError, m))"
proof -
  have granted: "\<exists>r m'. onHandler (reserve c u a d) m = (Inr r, m') \<and> mTransactionUUID r = u \<and>
      mBlockedAmount r = a \<and> mDirection r = d \<and> r \<in> set (held_by m' c)" if "0 < a"
    using that by (auto simp: onHandler_def reserve_cases Let_def reservations_def)
  have refused: "onHandler (reserve c u 0 d) m = (Inl ValueError, m)"
    by (simp add: onHandler_def reserve_cases)
  have le: "locked m c d \<le> room m c d" using manager_okD(4) [OF assms(1)] .
  show ?thesis
    using granted refused le
    by (cases d; cases "a = 0")
      (auto simp: Let_def reserve_outgoing_exact [OF assms] reserve_incoming_exact [OF assms])
qed

theorem reserve_granted_iff_witness:
  "(\<exists>r m'. reserveOutgoingAmount 7 9 40 sampleManager = (Inr r, m')) \<and>
   reserveOutgoingAmount 7 9 41 sampleManager = (Inl ValueError, sampleManager)"
proof -
  have "reserved sampleHandler 7 Outgoing = 30" and "room sampleManager 7 Outgoing = 70"
    by (simp_all add: sampleHandler_eq sampleReservation_def reserved_def reservations_def
        amountOf_def room_def line_room_def outgoing_room_def)
  then show ?thesis
    using reserve_granted_iff [where a = 40 and d = Outgoing and u = 9, OF sampleManager_ok, of 7 sampleLine]
      reserve_granted_iff [where a = 41 and d = Outgoing and u = 9, OF sampleManager_ok, of 7 sampleLine]
    by (auto simp: Let_def)
qed

text \<open>\<open>nextFreeID\<close> returns the smallest identifier no stored trust line uses, as long as the
  table does not hold all \<open>2\<^sup>3\<^sup>2\<close> identifiers.\<close>

theorem nextFreeID_smallest:
  assumes "\<not> broken store" and "length (lineRows store) < 2 ^ 32"
  shows "\<exists>n. nextFreeID (Some store) = Inr n \<and> n \<notin> set (map rowId (lineRows store)) \<and>
    (\<forall>x < n. x \<in> set (map rowId (lineRows store)))"
  using nextFreeID_fresh [OF assms] .

lemma sampleStore_ids: "map rowId (lineRows sampleStore) = [0, 2]"
  by (simp add: sampleStore_def)

theorem nextFreeID_smallest_witness: "nextFreeID (Some sampleStore) = Inr 1"
proof -
  obtain n where n: "nextFreeID (Some sampleStore) = Inr n" "n \<notin> {0, 2}" "\<forall>x < n. x \<in> {0, 2}"
    using nextFreeID_smallest [of sampleStore] by (auto simp: sampleStore_def)
  then have "\<not> 1 < n" "n \<noteq> 0" by auto
  then have "n = 1" by unat_arith
  with n(1) show ?thesis by simp
qed

text \<open>opening a line. Without a line to the contractor and with a sound table, \<open>open\<close> creates an
  empty line in state \<open>Init\<close> under the smallest free identifier, keeps an audit rule for it, and
  stores exactly that row; the table stays sound. With a line already present it throws \<open>ValueError\<close>
  and changes nothing.\<close>

theorem open_line_spec:
  assumes "\<not> broken store" and "length (lineRows store) < 2 ^ 32" and "store_ok store"
    and "c \<in> set (contractorRows store)"
    and "\<forall>r \<in> set (lineRows store). \<not> (rowContractorId r = c \<and> rowEquivalent r = mEquivalent m)"
  shows "if trustLineIsPresent m c then open_line c (m, Some store) = (Inl ValueError, (m, Some store))
    else (\<exists>n m' store'. open_line c (m, Some store) = (Inr (), (m', Some store')) \<and>
      nextFreeID (Some store) = Inr n \<and> n \<notin> set (map rowId (lineRows store)) \<and>
      map_of (mTrustLines m') = (map_of (mTrustLines m))(c \<mapsto> newInitTrustLine c n) \<and>
      map_of (mAuditRules m') c \<noteq> None \<and>
      mAmountReservationsHandler m' = mAmountReservationsHandler m \<and> store_ok store' \<and>
      lineRows store' = lineRows store @ [\<lparr>rowId = n, rowState = Init, rowContractorId = c,
        rowEquivalent = mEquivalent m, rowIsContractorGateway = False\<rparr>])"
proof (cases "trustLineIsPresent m c")
  case True
  then show ?thesis by (simp add: open_line_def)
next
  case False
  obtain n where n: "nextFreeID (Some store) = Inr n" "n \<notin> set (map rowId (lineRows store))"
    using nextFreeID_fresh [OF assms(1,2)] by blast
  obtain store' where s: "saveTrustLine (newInitTrustLine c n) (mEquivalent m) store = (Inr (), store')"
  proof -
    have "\<not> (\<exists>r \<in> set (lineRows store). rowId r = n)" using n(2) by auto
    with assms(1,4,5) that show ?thesis
      by (simp add: saveTrustLine_def Let_def newInitTrustLine_def)
  qed
  show ?thesis
    using False n s saveTrustLine_Inr [OF s] saveTrustLine_ok [OF assms(3) s]
    by (auto simp: open_line_def Let_def insertRule_def newInitTrustLine_def)
qed

theorem open_line_spec_witness:
  "\<exists>m' store'. open_line 8 (sampleManager, Some sampleStore) = (Inr (), (m', Some store')) \<and>
     map rowId (lineRows store') = [0, 2, 1]"
proof -
  have "\<not> trustLineIsPresent sampleManager 8" by (simp add: trustLineIsPresent_def)
  moreover obtain n where n: "nextFreeID (Some sampleStore) = Inr n" "n \<notin> {0, 2}" "\<forall>x < n. x \<in> {0, 2}"
    using nextFreeID_fresh [of sampleStore] by (auto simp: sampleStore_def)
  moreover have "n = 1"
  proof -
    have "\<not> 1 < n" "n \<noteq> 0" using n(2,3) by auto
    then show ?thesis by unat_arith
  qed
  moreover have "store_ok sampleStore" by (simp add: sampleStore_def store_ok_def)
  ultimately show ?thesis
    using open_line_spec [of sampleStore 8 sampleManager] by (auto simp: sampleStore_def)
qed

text \<open>The contract of \<open>setOutgoing\<close> and \<open>setIncoming\<close> on a present line, over all amounts: the
  new limit is written and nothing else changes; zero closes the direction, the current amount is
  reported as no change, zero on a closed direction and the reserved largest value are refused.\<close>

theorem set_limits_exact:
  assumes "map_of (mTrustLines m) c = Some line"
  shows "setOutgoing c a m =
    (if a = mOutgoingTrustAmount line then (if a = 0 then (Inl ValueError, m) else (Inr NoChanges, m))
     else if a = kMaxAmount then (Inl ValueError, m)
     else (Inr (if a = 0 then Closed else Updated), putLine c (line\<lparr>mOutgoingTrustAmount := a\<rparr>) m))
   \<and> setIncoming c a m =
    (if a = mIncomingTrustAmount line then (if a = 0 then (Inl ValueError, m) else (Inr NoChanges, m))
     else if a = kMaxAmount then (Inl ValueError, m)
     else (Inr (if a = 0 then Closed else Updated), putLine c (line\<lparr>mIncomingTrustAmount := a\<rparr>) m))"
  using setOutgoing_exact [OF assms] setIncoming_exact [OF assms] by simp

theorem set_limits_exact_witness:
  "setOutgoing 7 0 sampleManager =
     (Inr Closed, putLine 7 (sampleLine\<lparr>mOutgoingTrustAmount := 0\<rparr>) sampleManager)"
  using set_limits_exact [of sampleManager 7 sampleLine 0] by (simp add: kMaxAmount_def)

text \<open>The amounts a node may clear by cycles. The second component is the debt in that
  direction on an active line, the first is that debt minus what is reserved, never below zero.\<close>

theorem cycle_amounts_exact:
  assumes "manager_ok m" and "map_of (mTrustLines m) c = Some line"
  shows "availableOutgoingCycleAmounts m c =
      (let debt = if mState line = Active then nat (mBalance line) else 0
       in Inr (debt - reserved (mAmountReservationsHandler m) c Outgoing, debt))
    \<and> availableIncomingCycleAmounts m c =
      (let debt = if mState line = Active then nat (- mBalance line) else 0
       in Inr (debt - reserved (mAmountReservationsHandler m) c Incoming, debt))"
proof -
  have "balance_ok (mBalance line)"
    using manager_okD(3) [OF assms] by (simp add: line_ok_def trust_line_ok_def)
  then show ?thesis
    using assms(2) locked_total [OF assms(1)]
    by (auto simp: availableOutgoingCycleAmounts_def availableIncomingCycleAmounts_def Let_def
        trustLineReadOnly_def absoluteBalanceAmount_ok to_amount_Inr checked_sub_def)
qed

theorem cycle_amounts_exact_witness:
  "availableIncomingCycleAmounts sampleManager 7 = Inr (25, 30)"
proof -
  have "reserved sampleHandler 7 Incoming = 5"
    by (simp add: sampleHandler_eq sampleReservation_def reserved_def reservations_def amountOf_def)
  then show ?thesis
    using cycle_amounts_exact [of sampleManager 7 sampleLine] by simp
qed

text \<open>\<open>updateAmountReservation\<close> checks the outgoing capacity whatever the direction of the
  reservation. On a concrete sound manager an incoming reservation is raised beyond what the line can
  still accept, so the capacity invariant is lost; for outgoing reservations, and whenever the amount
  is lowered, the check is the right one.\<close>

definition incomingReservation :: AmountReservation where
  "incomingReservation =
     \<lparr>resRef = 1, mTransactionUUID = 6, mBlockedAmount = 5, mDirection = Incoming\<rparr>"

definition tightManager :: TrustLinesManager where
  "tightManager = sampleManager\<lparr>mTrustLines := [(7, sampleLine\<lparr>mOutgoingTrustAmount := 0,
     mBalance := - 10\<rparr>)]\<rparr>"

lemma incomingReservation_held: "incomingReservation \<in> set (held sampleHandler 7)"
  by (simp add: sampleHandler_eq reservations_def incomingReservation_def)

theorem update_incoming_checks_outgoing:
  "manager_ok tightManager \<and> incomingReservation \<in> set (held_by tightManager 7) \<and>
   (\<exists>n m'. updateAmountReservation 7 incomingReservation 50 tightManager = (Inr n, m') \<and>
     reserved (mAmountReservationsHandler m') 7 Incoming = 50 \<and> room m' 7 Incoming = 10)"
proof -
  let ?line = "sampleLine\<lparr>mOutgoingTrustAmount := 0, mBalance := - 10\<rparr>"
  have res: "reserved sampleHandler 7 Outgoing = 30" "reserved sampleHandler 7 Incoming = 5"
    by (simp_all add: sampleHandler_eq sampleReservation_def reserved_def reservations_def amountOf_def)
  have line: "map_of (mTrustLines tightManager) 7 = Some ?line"
    by (simp add: tightManager_def)
  have rooms: "room tightManager 7 Outgoing = 90" "room tightManager 7 Incoming = 10"
    by (simp_all add: room_def line line_room_def outgoing_room_def incoming_room_def)
  have "handler_ok (mAmountReservationsHandler tightManager)"
    and "\<forall>(c, l) \<in> set (mTrustLines tightManager). line_ok l"
    and "keys (mReservations (mAmountReservationsHandler tightManager)) = [7]"
    and "distinct (keys (mTrustLines tightManager))"
    and "mAmountReservationsHandler tightManager = sampleHandler"
    using sampleHandler_ok
    by (simp_all add: tightManager_def line_ok_def trust_line_ok_def within_limits_def sampleHandler_eq)
  then have ok: "manager_ok tightManager"
    unfolding manager_ok_def using rooms res by (auto simp: map_eq_Cons_conv)
  have upd: "updateAmountReservation 7 incomingReservation 50 tightManager =
      onHandler (updateReservation 7 incomingReservation 50) tightManager"
    using considering_exact(1) [OF ok line] rooms(1) res(1)
    by (simp add: updateAmountReservation_def checked_add_def incomingReservation_def tightManager_def)
  obtain n h where h: "updateReservation 7 incomingReservation 50 sampleHandler = (Inr n, h)"
    by (auto simp: sampleHandler_eq sampleReservation_def updateReservation_def incomingReservation_def
        Let_def)
  have "reserved h 7 Incoming = 50"
    using reserved_update [OF h incomingReservation_held sampleHandler_ok, of 7 Incoming] res(2)
    by (simp add: incomingReservation_def)
  then show ?thesis
    using ok h upd rooms(2) incomingReservation_held by (simp add: onHandler_def tightManager_def)
qed

end
