(* ===== verification/Base_Payment.thy ===== *)
theory Base_Payment
  imports Trust_Lines_Manager "HOL-Library.Multiset"
begin

text \<open>
  What every payment transaction does with its reservations:
  \<^verbatim>\<open>src/src/core/transactions/transactions/regular/payments/base/BasePaymentTransaction.cpp\<close>. The
  transaction keeps, per neighbour, the reservations it made with the path each belongs to
  (\<^verbatim>\<open>mReservations\<close>, a \<^verbatim>\<open>std::map\<close>); the reservations themselves are in the trust lines manager.
  The operations work on the pair of both. What a commit tells the rest of the node (signals, storage)
  is recorded in \<open>events\<close>; \<open>storageOk\<close> says whether the database accepts the writes of the commit.

  The lemmas show that the transaction's list and the manager stay in step (\<open>tx_ok\<close>): a rollback
  or a commit never fails half way and leaves no reservation of the transaction behind.
\<close>

datatype PaymentEvent =
    TrustLineActionSignal ContractorID bool
  | ResetInitiatorCache
  | ClearCashes
  | SaveVotes
  | DeleteTransactionRecord TransactionUUID
  | TransactionCommittedObservingSignal TransactionUUID "64 word"

type_synonym PathReservations = "(PathID \<times> AmountReservation) list"

record Payment =
  currentTransactionUUID :: TransactionUUID
  mIAmGateway :: bool
  txReservations :: "(ContractorID \<times> PathReservations) list"
  mContractorsForCycles :: "ContractorID set"
  mOutgoingTransfers :: "(ContractorID \<times> TrustLineAmount) list"
  mIncomingTransfers :: "(ContractorID \<times> TrustLineAmount) list"
  mMaximalClaimingBlockNumber :: "64 word"
  events :: "PaymentEvent list"

type_synonym PaymentState = "Payment \<times> TrustLinesManager"

text \<open>The constructor leaves \<^verbatim>\<open>mMaximalClaimingBlockNumber\<close> uninitialised: \<open>unset\<close> is what the memory held.\<close>

definition newPayment :: "TransactionUUID \<Rightarrow> bool \<Rightarrow> 64 word \<Rightarrow> Payment" where
  "newPayment transactionUUID iAmGateway unset =
     \<lparr>currentTransactionUUID = transactionUUID, mIAmGateway = iAmGateway, txReservations = [],
      mContractorsForCycles = {}, mOutgoingTransfers = [], mIncomingTransfers = [],
      mMaximalClaimingBlockNumber = unset, events = []\<rparr>"

text \<open>\<^verbatim>\<open>catch (Exception &)\<close> catches the exceptions of the project, not those of the library.\<close>

definition isProjectException :: "geo_error \<Rightarrow> bool" where
  "isProjectException e \<longleftrightarrow>
     e \<notin> {StdRangeError, StdOverflowError, StdOutOfRange, StdInvalidArgument, UndefinedBehaviour}"

definition entries :: "Payment \<Rightarrow> ContractorID \<Rightarrow> PathReservations" where
  "entries p c = (case map_of (txReservations p) c of None \<Rightarrow> [] | Some rs \<Rightarrow> rs)"

section \<open>Making reservations\<close>

definition addEntry :: "ContractorID \<Rightarrow> PathID \<Rightarrow> AmountReservation \<Rightarrow> Payment \<Rightarrow> Payment" where
  "addEntry neighborNode pathID kReservation p =
     p\<lparr>txReservations :=
         ordUpdate neighborNode (entries p neighborNode @ [(pathID, kReservation)])
           (txReservations p)\<rparr>"

definition reserveOutgoingAmount_tx ::
  "ContractorID \<Rightarrow> TrustLineAmount \<Rightarrow> PathID \<Rightarrow> PaymentState \<Rightarrow> bool result \<times> PaymentState" where
  "reserveOutgoingAmount_tx neighborNode amount pathID = (\<lambda>(p, m).
     case reserveOutgoingAmount neighborNode (currentTransactionUUID p) amount m of
       (Inr kReservation, m') \<Rightarrow> returning True (addEntry neighborNode pathID kReservation p, m')
     | (Inl e, m') \<Rightarrow>
         if isProjectException e then returning False (p, m') else throwing e (p, m'))"

definition reserveIncomingAmount_tx ::
  "ContractorID \<Rightarrow> TrustLineAmount \<Rightarrow> PathID \<Rightarrow> PaymentState \<Rightarrow> bool result \<times> PaymentState" where
  "reserveIncomingAmount_tx neighborNode amount pathID = (\<lambda>(p, m).
     case reserveIncomingAmount neighborNode (currentTransactionUUID p) amount m of
       (Inr kReservation, m') \<Rightarrow> returning True (addEntry neighborNode pathID kReservation p, m')
     | (Inl e, m') \<Rightarrow>
         if isProjectException e then returning False (p, m') else throwing e (p, m'))"

definition copyReservationFromGlobalReservations ::
  "ContractorID \<Rightarrow> TrustLineAmount \<Rightarrow> ReservationDirection \<Rightarrow> PathID \<Rightarrow> PaymentState \<Rightarrow>
   bool result \<times> PaymentState" where
  "copyReservationFromGlobalReservations neighborNode amount reservationDirection pathID = (\<lambda>(p, m).
     case getAmountReservation m neighborNode (currentTransactionUUID p) amount reservationDirection of
       Inr reservation \<Rightarrow> returning True (addEntry neighborNode pathID reservation p, m)
     | Inl NotFoundError \<Rightarrow> returning False (p, m)
     | Inl e \<Rightarrow> throwing e (p, m))"

section \<open>Shortening\<close>

text \<open>
  The new entry gets the path id that the reference \<^verbatim>\<open>pathID\<close> denotes after the old one was erased
  (\<open>label\<close>). For a reference to anything but an entry of the list itself that is the path id passed in.
\<close>

definition shortageReservation_as ::
  "(PathReservations \<Rightarrow> PathID) \<Rightarrow> ContractorID \<Rightarrow> AmountReservation \<Rightarrow> TrustLineAmount \<Rightarrow> PathID \<Rightarrow>
   PaymentState \<Rightarrow> bool result \<times> PaymentState" where
  "shortageReservation_as label neighborNode kReservation kNewAmount pathID = (\<lambda>(p, m).
     if kNewAmount > mBlockedAmount kReservation then throwing ValueError (p, m)
     else case updateAmountReservation neighborNode kReservation kNewAmount m of
       (Inr updatedReservation, m') \<Rightarrow>
         (let kept = removeFirst (\<lambda>it. resRef (snd it) = resRef kReservation \<and> fst it = pathID)
                       (entries p neighborNode)
          in returning True
               (p\<lparr>txReservations := ordUpdate neighborNode (kept @ [(label kept, updatedReservation)])
                    (txReservations p)\<rparr>, m'))
     | (Inl NotFoundError, m') \<Rightarrow> returning False (p, m')
     | (Inl e, m') \<Rightarrow> throwing e (p, m'))"

definition shortageReservation ::
  "ContractorID \<Rightarrow> AmountReservation \<Rightarrow> TrustLineAmount \<Rightarrow> PathID \<Rightarrow> PaymentState \<Rightarrow>
   bool result \<times> PaymentState" where
  "shortageReservation neighborNode kReservation kNewAmount pathID =
     shortageReservation_as (\<lambda>kept. pathID) neighborNode kReservation kNewAmount pathID"

section \<open>Dropping reservations\<close>

text \<open>
  The nested loops of \<open>dropNodeReservationsOnPath\<close> and of \<open>rollBack\<close> on a path: a matching
  reservation is dropped and erased, a neighbour without reservations is erased. An exception leaves
  the entries not yet visited, the current one included.
\<close>

fun dropEntries ::
  "PathID \<Rightarrow> ContractorID \<Rightarrow> PathReservations \<Rightarrow> TrustLinesManager \<Rightarrow>
   unit result \<times> (PathReservations \<times> TrustLinesManager)" where
  "dropEntries pathID c [] m = returning () ([], m)"
| "dropEntries pathID c (it # rest) m =
     (if fst it = pathID
      then (case dropAmountReservation c (snd it) m of
              (Inl e, m') \<Rightarrow> throwing e (it # rest, m')
            | (Inr _, m') \<Rightarrow> dropEntries pathID c rest m')
      else (case dropEntries pathID c rest m of (res, kept, m') \<Rightarrow> (res, it # kept, m')))"

fun dropOnNodes ::
  "PathID \<Rightarrow> (ContractorID \<times> PathReservations) list \<Rightarrow> TrustLinesManager \<Rightarrow>
   unit result \<times> ((ContractorID \<times> PathReservations) list \<times> TrustLinesManager)" where
  "dropOnNodes pathID [] m = returning () ([], m)"
| "dropOnNodes pathID ((c, rs) # rest) m =
     (case dropEntries pathID c rs m of
        (Inl e, kept, m') \<Rightarrow> throwing e ((c, kept) # rest, m')
      | (Inr _, kept, m') \<Rightarrow>
          (case dropOnNodes pathID rest m' of
             (res, rest', m'') \<Rightarrow> (res, if kept = [] then rest' else (c, kept) # rest', m'')))"

definition dropNodeReservationsOnPath :: "PathID \<Rightarrow> PaymentState \<Rightarrow> unit result \<times> PaymentState" where
  "dropNodeReservationsOnPath pathID = (\<lambda>(p, m).
     case dropOnNodes pathID (txReservations p) m of
       (res, rs, m') \<Rightarrow> (res, p\<lparr>txReservations := rs\<rparr>, m'))"

text \<open>\<open>rollBack(pathID)\<close> repeats the body of \<open>dropNodeReservationsOnPath\<close>.\<close>

definition rollBackPath :: "PathID \<Rightarrow> PaymentState \<Rightarrow> unit result \<times> PaymentState" where
  "rollBackPath pathID = (\<lambda>(p, m).
     case dropOnNodes pathID (txReservations p) m of
       (res, rs, m') \<Rightarrow> (res, p\<lparr>txReservations := rs\<rparr>, m'))"

fun dropAllOf ::
  "(ContractorID \<times> AmountReservation) list \<Rightarrow> TrustLinesManager \<Rightarrow> unit result \<times> TrustLinesManager" where
  "dropAllOf [] m = returning () m"
| "dropAllOf ((c, r) # rest) m = bindS (dropAmountReservation c r m) (\<lambda>_. dropAllOf rest)"

definition allEntries ::
  "(ContractorID \<times> PathReservations) list \<Rightarrow> (ContractorID \<times> AmountReservation) list" where
  "allEntries rs = concat (map (\<lambda>(c, es). map (\<lambda>it. (c, snd it)) es) rs)"

definition rollBack :: "PaymentState \<Rightarrow> unit result \<times> PaymentState" where
  "rollBack = (\<lambda>(p, m).
     case dropAllOf (allEntries (txReservations p)) m of
       (Inl e, m') \<Rightarrow> throwing e (p, m')
     | (Inr _, m') \<Rightarrow> returning () (p\<lparr>txReservations := []\<rparr>, m'))"

section \<open>Final amounts\<close>

text \<open>\<open>updateReservation\<close> returns the path id it kept, or the largest path id for a dropped path.\<close>

definition updateReservation_tx ::
  "ContractorID \<Rightarrow> PathID \<times> AmountReservation \<Rightarrow> (PathID \<times> TrustLineAmount) list \<Rightarrow> PaymentState \<Rightarrow>
   PathID result \<times> PaymentState" where
  "updateReservation_tx contractorID pathIDAndReservation finalAmounts s =
     (case find (\<lambda>pathIDAndAmount. fst pathIDAndAmount = fst pathIDAndReservation) finalAmounts of
        Some pathIDAndAmount \<Rightarrow>
          bindS (if snd pathIDAndAmount \<noteq> mBlockedAmount (snd pathIDAndReservation)
                 then bindS (shortageReservation contractorID (snd pathIDAndReservation)
                               (snd pathIDAndAmount) (fst pathIDAndAmount) s) (\<lambda>_. returning ())
                 else returning () s)
            (\<lambda>_. returning (fst pathIDAndAmount))
      | None \<Rightarrow>
          bindS (dropNodeReservationsOnPath (fst pathIDAndReservation) s) (\<lambda>_. returning (- 1)))"

fun updateEach ::
  "(ContractorID \<times> PathID \<times> AmountReservation) list \<Rightarrow> (PathID \<times> TrustLineAmount) list \<Rightarrow>
   PathID set \<Rightarrow> PaymentState \<Rightarrow> PathID set result \<times> PaymentState" where
  "updateEach [] finalAmounts updatedPaths s = returning updatedPaths s"
| "updateEach ((c, it) # rest) finalAmounts updatedPaths s =
     bindS (updateReservation_tx c it finalAmounts s) (\<lambda>updatedPathID.
       updateEach rest finalAmounts
         (if updatedPathID \<noteq> - 1 then insert updatedPathID updatedPaths else updatedPaths))"

definition updateReservations ::
  "(PathID \<times> TrustLineAmount) list \<Rightarrow> PaymentState \<Rightarrow> bool result \<times> PaymentState" where
  "updateReservations finalAmounts s =
     (let reservationsCopy = concat (map (\<lambda>(c, es). map (Pair c) es) (txReservations (fst s)))
      in bindS (updateEach reservationsCopy finalAmounts {} s)
           (\<lambda>updatedPaths. returning (card updatedPaths = length finalAmounts)))"

section \<open>Totals\<close>

fun sumEntries ::
  "ReservationDirection \<Rightarrow> TrustLineAmount \<Rightarrow> AmountReservation list \<Rightarrow> TrustLineAmount result" where
  "sumEntries d totalAmount [] = Inr totalAmount"
| "sumEntries d totalAmount (r # rest) =
     (if mDirection r = d
      then bindR (checked_add totalAmount (mBlockedAmount r)) (\<lambda>totalAmount'. sumEntries d totalAmount' rest)
      else sumEntries d totalAmount rest)"

definition totalReservedAmount :: "ReservationDirection \<Rightarrow> Payment \<Rightarrow> TrustLineAmount result" where
  "totalReservedAmount reservationDirection p =
     sumEntries reservationDirection 0 (map snd (allEntries (txReservations p)))"

definition totalReservedIncomingAmountToNode :: "ContractorID \<Rightarrow> Payment \<Rightarrow> TrustLineAmount result" where
  "totalReservedIncomingAmountToNode contractorID p =
     (case map_of (txReservations p) contractorID of
        None \<Rightarrow> Inr 0
      | Some es \<Rightarrow> sumEntries Incoming 0 (map snd es))"

section \<open>Commit\<close>

text \<open>
  Every reservation is used, reported and dropped. \<open>address\<close> is the main address of a contractor,
  which the log line of the loop asks for (it throws for an unknown contractor). The last direction
  of a neighbour goes into the signal; without a reservation the variable is read uninitialised.
\<close>

definition noteTransfer :: "ContractorID \<Rightarrow> AmountReservation \<Rightarrow> Payment \<Rightarrow> Payment" where
  "noteTransfer c r p =
     (case mDirection r of
        Outgoing \<Rightarrow>
          p\<lparr>mContractorsForCycles := insert c (mContractorsForCycles p),
            mOutgoingTransfers := mOutgoingTransfers p @ [(c, mBlockedAmount r)]\<rparr>
      | Incoming \<Rightarrow>
          p\<lparr>mContractorsForCycles :=
              (if mIAmGateway p then insert c (mContractorsForCycles p) else mContractorsForCycles p),
            mIncomingTransfers := mIncomingTransfers p @ [(c, mBlockedAmount r)]\<rparr>)"

fun commitEntries ::
  "(ContractorID \<Rightarrow> 'a result) \<Rightarrow> ContractorID \<Rightarrow> ReservationDirection option \<Rightarrow> PathReservations \<Rightarrow>
   PaymentState \<Rightarrow> ReservationDirection option result \<times> PaymentState" where
  "commitEntries address c direction [] s = returning direction s"
| "commitEntries address c direction (it # rest) (p, m) =
     (case useReservation c (snd it) m of
        (Inl e, m1) \<Rightarrow> throwing e (p, m1)
      | (Inr _, m1) \<Rightarrow>
          (case address c of
             Inl e \<Rightarrow> throwing e (p, m1)
           | Inr _ \<Rightarrow>
               (case dropAmountReservation c (snd it) m1 of
                  (Inl e, m2) \<Rightarrow> throwing e (noteTransfer c (snd it) p, m2)
                | (Inr _, m2) \<Rightarrow>
                    commitEntries address c (Some (mDirection (snd it))) rest
                      (noteTransfer c (snd it) p, m2))))"

fun commitNodes ::
  "(ContractorID \<Rightarrow> 'a result) \<Rightarrow> (ContractorID \<times> PathReservations) list \<Rightarrow> PaymentState \<Rightarrow>
   unit result \<times> PaymentState" where
  "commitNodes address [] s = returning () s"
| "commitNodes address ((c, es) # rest) s =
     bindS (commitEntries address c None es s) (\<lambda>direction (p, m).
       case direction of
         None \<Rightarrow> throwing UndefinedBehaviour (p, m)
       | Some d \<Rightarrow>
           commitNodes address rest
             (p\<lparr>events := events p @ [TrustLineActionSignal c (d = Outgoing)]\<rparr>, m))"

definition commit ::
  "(ContractorID \<Rightarrow> 'a result) \<Rightarrow> bool \<Rightarrow> PaymentState \<Rightarrow> unit result \<times> PaymentState" where
  "commit address storageOk = (\<lambda>(p, m).
     bindS (commitNodes address (txReservations p) (p, m)) (\<lambda>_ (p, m).
       let p' = p\<lparr>txReservations := [], events := events p @ [ResetInitiatorCache, ClearCashes]\<rparr>
       in if \<not> storageOk then throwing IOError (p', m)
          else returning ()
            (p'\<lparr>events := events p' @ [SaveVotes, DeleteTransactionRecord (currentTransactionUUID p'),
                  TransactionCommittedObservingSignal (currentTransactionUUID p')
                    (mMaximalClaimingBlockNumber p')]\<rparr>, m)))"

section \<open>The transaction and the manager in step\<close>

text \<open>
  \<open>own u m c\<close> are the reservations of transaction \<open>u\<close> that the manager holds for \<open>c\<close>. A
  transaction is \<open>tx_ok\<close> when its own list names exactly these, for every contractor.
\<close>

definition own :: "TransactionUUID \<Rightarrow> TrustLinesManager \<Rightarrow> ContractorID \<Rightarrow> AmountReservation multiset" where
  "own u m c = mset (filter (\<lambda>r. mTransactionUUID r = u) (held_by m c))"

definition listed :: "(ContractorID \<times> PathReservations) list \<Rightarrow> ContractorID \<Rightarrow> AmountReservation multiset" where
  "listed rs c = (case map_of rs c of None \<Rightarrow> {#} | Some es \<Rightarrow> mset (map snd es))"

definition tx_ok :: "PaymentState \<Rightarrow> bool" where
  "tx_ok = (\<lambda>(p, m). manager_ok m \<and> distinct (keys (txReservations p)) \<and>
     sorted (keys (txReservations p)) \<and> (\<forall>(c, es) \<in> set (txReservations p). es \<noteq> []) \<and>
     (\<forall>c. listed (txReservations p) c = own (currentTransactionUUID p) m c))"

lemma own_held: "r \<in># own u m c \<Longrightarrow> r \<in> set (held_by m c)"
  by (simp add: own_def)

lemma own_unused: "own u m c = {#} \<longleftrightarrow> (\<forall>r \<in> set (held_by m c). mTransactionUUID r \<noteq> u)"
  by (auto simp: own_def filter_empty_conv)

lemma own_present:
  assumes "manager_ok m"
  shows "isReservationsPresentConsiderTransaction m u \<longleftrightarrow> (\<exists>c. own u m c \<noteq> {#})"
proof -
  have d: "distinct (keys (mReservations (mAmountReservationsHandler m)))"
    using manager_okD(1) [OF assms] by (simp add: handler_ok_def)
  have "(\<exists>x \<in> set (mReservations (mAmountReservationsHandler m)). \<exists>r \<in> set (snd x). mTransactionUUID r = u)
      \<longleftrightarrow> (\<exists>c. \<exists>r \<in> set (held_by m c). mTransactionUUID r = u)" (is "?A \<longleftrightarrow> ?B")
  proof
    assume ?A
    then obtain c rs r where "(c, rs) \<in> set (mReservations (mAmountReservationsHandler m))"
      "r \<in> set rs" "mTransactionUUID r = u" by auto
    then show ?B using d by (auto simp: reservations_def intro!: exI [of _ c] split: option.splits)
  next
    assume ?B
    then obtain c r where r: "r \<in> set (held_by m c)" "mTransactionUUID r = u" by blast
    then obtain rs where "map_of (mReservations (mAmountReservationsHandler m)) c = Some rs" "r \<in> set rs"
      by (cases "map_of (mReservations (mAmountReservationsHandler m)) c") (auto simp: reservations_def)
    then show ?A using r(2) by (force dest: map_of_SomeD)
  qed
  then show ?thesis
    by (simp add: isReservationsPresentConsiderTransaction_def isTransactionReservationsPresent_def
        own_unused)
qed

lemma mset_filter_remove1:
  assumes "r \<in> set xs"
  shows "mset (filter q (remove1 r xs)) = (if q r then mset (filter q xs) - {#r#} else mset (filter q xs))"
  using assms by (induction xs) auto

lemma drop_own:
  assumes "manager_ok m" and "r \<in># own u m c"
  shows "\<exists>m'. dropAmountReservation c r m = (Inr (), m') \<and> manager_ok m' \<and>
    mTrustLines m' = mTrustLines m \<and>
    (\<forall>c'. own u m' c' = (if c' = c then own u m c - {#r#} else own u m c')) \<and>
    (\<forall>u' c'. u' \<noteq> u \<longrightarrow> own u' m' c' = own u' m c')"
proof -
  obtain m' where m': "dropAmountReservation c r m = (Inr (), m')" "manager_ok m'"
      "mTrustLines m' = mTrustLines m"
      "\<forall>c'. held_by m' c' = (if c' = c then remove1 r (held_by m c) else held_by m c')"
    using drop_covered [OF assms(1) own_held [OF assms(2)]] by blast
  have u: "mTransactionUUID r = u" using assms(2) by (simp add: own_def)
  show ?thesis
    using m' u own_held [OF assms(2)] by (auto simp: own_def mset_filter_remove1)
qed

text \<open>What a run of drops does, whatever loop it is: the dropped reservations leave \<open>own\<close>.\<close>

definition dropped ::
  "TransactionUUID \<Rightarrow> TrustLinesManager \<Rightarrow> TrustLinesManager \<Rightarrow> (ContractorID \<Rightarrow> AmountReservation multiset) \<Rightarrow>
   bool" where
  "dropped u m m' gone \<longleftrightarrow> manager_ok m' \<and> mTrustLines m' = mTrustLines m \<and>
     (\<forall>c. own u m' c = own u m c - gone c) \<and> (\<forall>u' c. u' \<noteq> u \<longrightarrow> own u' m' c = own u' m c)"

lemma dropped_none: "manager_ok m \<Longrightarrow> dropped u m m (\<lambda>c. {#})"
  by (simp add: dropped_def)

lemma dropped_trans:
  "dropped u m m1 g1 \<Longrightarrow> dropped u m1 m2 g2 \<Longrightarrow> dropped u m m2 (\<lambda>c. g1 c + g2 c)"
  by (simp add: dropped_def)

lemma drop_dropped:
  assumes "manager_ok m" and "r \<in># own u m c"
  shows "\<exists>m'. dropAmountReservation c r m = (Inr (), m') \<and> dropped u m m' (\<lambda>c'. if c' = c then {#r#} else {#})"
  using drop_own [OF assms] by (auto simp: dropped_def)

lemma dropped_cong: "dropped u m m' g \<Longrightarrow> (\<And>c. g c = g' c) \<Longrightarrow> dropped u m m' g'"
  by (simp add: dropped_def)

definition onPath :: "PathID \<Rightarrow> PathReservations \<Rightarrow> AmountReservation multiset" where
  "onPath pathID es = mset (map snd (filter (\<lambda>it. fst it = pathID) es))"

lemma dropEntries_spec:
  assumes "manager_ok m" and "mset (map snd es) \<subseteq># own u m c"
  shows "\<exists>m'. dropEntries pathID c es m = (Inr (), filter (\<lambda>it. fst it \<noteq> pathID) es, m') \<and>
    dropped u m m' (\<lambda>c'. if c' = c then onPath pathID es else {#})"
  using assms
proof (induction es arbitrary: m)
  case Nil
  then show ?case by (auto simp: dropped_none onPath_def intro!: dropped_cong [OF dropped_none])
next
  case (Cons it es)
  show ?case
  proof (cases "fst it = pathID")
    case False
    have "mset (map snd es) \<subseteq># own u m c"
      by (rule subset_mset.order_trans [OF _ Cons.prems(2)]) simp
    then obtain m' where "dropEntries pathID c es m = (Inr (), filter (\<lambda>it. fst it \<noteq> pathID) es, m')"
      "dropped u m m' (\<lambda>c'. if c' = c then onPath pathID es else {#})"
      using Cons.IH [OF Cons.prems(1)] by blast
    moreover have eq: "onPath pathID (it # es) = onPath pathID es"
      using False by (simp add: onPath_def)
    ultimately show ?thesis unfolding eq using False by simp
  next
    case True
    have mem: "snd it \<in># own u m c" using Cons.prems(2) by (simp add: insert_subset_eq_iff)
    obtain m1 where m1: "dropAmountReservation c (snd it) m = (Inr (), m1)"
      "dropped u m m1 (\<lambda>c'. if c' = c then {#snd it#} else {#})"
      using drop_dropped [OF Cons.prems(1) mem] by blast
    have "mset (map snd es) \<subseteq># own u m1 c"
      using m1(2) Cons.prems(2) by (simp add: dropped_def insert_subset_eq_iff)
    then obtain m' where m': "dropEntries pathID c es m1 = (Inr (), filter (\<lambda>it. fst it \<noteq> pathID) es, m')"
      "dropped u m1 m' (\<lambda>c'. if c' = c then onPath pathID es else {#})"
      using Cons.IH [of m1] m1(2) by (auto simp: dropped_def)
    have "dropped u m m' (\<lambda>c'. if c' = c then onPath pathID (it # es) else {#})"
      using dropped_trans [OF m1(2) m'(2)] by (rule dropped_cong) (simp add: onPath_def True)
    with True m1(1) m'(1) show ?thesis by simp
  qed
qed

definition keepOff :: "PathID \<Rightarrow> (ContractorID \<times> PathReservations) list \<Rightarrow> (ContractorID \<times> PathReservations) list" where
  "keepOff pathID rs =
     filter (\<lambda>(c, es). es \<noteq> []) (map (\<lambda>(c, es). (c, filter (\<lambda>it. fst it \<noteq> pathID) es)) rs)"

definition goneOn :: "PathID \<Rightarrow> (ContractorID \<times> PathReservations) list \<Rightarrow> ContractorID \<Rightarrow> AmountReservation multiset" where
  "goneOn pathID rs c = (case map_of rs c of None \<Rightarrow> {#} | Some es \<Rightarrow> onPath pathID es)"

lemma listed_Cons: "listed ((c, es) # rs) c' = (if c' = c then mset (map snd es) else listed rs c')"
  by (simp add: listed_def)

lemma goneOn_Cons: "goneOn p ((c, es) # rs) c' = (if c' = c then onPath p es else goneOn p rs c')"
  by (simp add: goneOn_def)

lemma dropOnNodes_spec:
  assumes "manager_ok m" and "distinct (keys rs)" and "\<And>c. listed rs c \<subseteq># own u m c"
  shows "\<exists>m'. dropOnNodes pathID rs m = (Inr (), keepOff pathID rs, m') \<and>
    dropped u m m' (goneOn pathID rs)"
  using assms
proof (induction rs arbitrary: m)
  case Nil
  then show ?case by (auto simp: keepOff_def goneOn_def intro!: dropped_cong [OF dropped_none])
next
  case (Cons x rs)
  obtain c es where x: "x = (c, es)" by (cases x)
  have "mset (map snd es) \<subseteq># own u m c"
    using Cons.prems(3) [of c] by (simp add: x listed_Cons)
  then obtain m1 where m1: "dropEntries pathID c es m = (Inr (), filter (\<lambda>it. fst it \<noteq> pathID) es, m1)"
    "dropped u m m1 (\<lambda>c'. if c' = c then onPath pathID es else {#})"
    using dropEntries_spec [OF Cons.prems(1)] by blast
  have none: "map_of rs c = None" using Cons.prems(2) by (simp add: x map_of_eq_None_iff)
  have "listed rs c' \<subseteq># own u m1 c'" for c'
    using m1(2) none Cons.prems(3) [of c'] by (cases "c' = c") (simp_all add: dropped_def x listed_Cons listed_def)
  then obtain m' where m': "dropOnNodes pathID rs m1 = (Inr (), keepOff pathID rs, m')"
    "dropped u m1 m' (goneOn pathID rs)"
    using Cons.IH [of m1] m1(2) Cons.prems(2) by (auto simp: dropped_def)
  have "dropped u m m' (goneOn pathID (x # rs))"
    using dropped_trans [OF m1(2) m'(2)] by (rule dropped_cong) (simp add: x goneOn_Cons goneOn_def none)
  with m1(1) m'(1) show ?case by (auto simp: x keepOff_def)
qed

lemma listed_keepOff: "distinct (keys rs) \<Longrightarrow> listed (keepOff pathID rs) c = listed rs c - goneOn pathID rs c"
proof (induction rs arbitrary: c)
  case (Cons x rs)
  obtain d es where x: "x = (d, es)" by (cases x)
  have split: "mset (map snd es) - onPath pathID es = mset (map snd (filter (\<lambda>it. fst it \<noteq> pathID) es))"
  proof -
    have "mset (map snd es) = onPath pathID es + mset (map snd (filter (\<lambda>it. fst it \<noteq> pathID) es))"
      by (induction es) (auto simp: onPath_def)
    then show ?thesis by simp
  qed
  have none: "map_of rs d = None" using Cons.prems by (simp add: x map_of_eq_None_iff)
  have none': "listed (keepOff pathID rs) d = {#}"
    using Cons.IH [of d] Cons.prems none by (simp add: x listed_def [of rs])
  show ?case
    using Cons none' split
    by (cases "filter (\<lambda>it. fst it \<noteq> pathID) es = []")
      (auto simp: x listed_Cons goneOn_Cons keepOff_def filter_empty_conv)
qed (simp add: keepOff_def listed_def goneOn_def)

lemma keepOff_keys: "set (keys (keepOff pathID rs)) \<subseteq> set (keys rs)"
  by (force simp: keepOff_def)

lemma keepOff_distinct: "distinct (keys rs) \<Longrightarrow> distinct (keys (keepOff pathID rs))"
proof (induction rs)
  case (Cons x rs)
  then show ?case using keepOff_keys [of pathID rs] by (cases x) (auto simp: keepOff_def)
qed (simp add: keepOff_def)

lemma tx_okD:
  assumes "tx_ok (p, m)"
  shows "manager_ok m" and "distinct (keys (txReservations p))"
    and "(c, es) \<in> set (txReservations p) \<Longrightarrow> es \<noteq> []"
    and "listed (txReservations p) c = own (currentTransactionUUID p) m c"
    and "sorted (keys (txReservations p))"
  using assms by (auto simp: tx_ok_def)

lemma keepOff_sorted: "sorted (keys rs) \<Longrightarrow> sorted (keys (keepOff pathID rs))"
proof -
  assume "sorted (keys rs)"
  then have "sorted (map fst (filter (\<lambda>x. filter (\<lambda>it. fst it \<noteq> pathID) (snd x) \<noteq> []) rs))"
    by (rule sorted_filter)
  then show ?thesis
    by (simp add: keepOff_def filter_map comp_def split_beta)
qed

lemma keepOff_nonempty: "(c, es) \<in> set (keepOff pathID rs) \<Longrightarrow> es \<noteq> []"
  by (simp add: keepOff_def)

lemma dropPath_ok:
  assumes "tx_ok (p, m)"
  shows "\<exists>m'. dropNodeReservationsOnPath pathID (p, m) =
      (Inr (), p\<lparr>txReservations := keepOff pathID (txReservations p)\<rparr>, m') \<and>
    tx_ok (p\<lparr>txReservations := keepOff pathID (txReservations p)\<rparr>, m') \<and>
    mTrustLines m' = mTrustLines m \<and>
    (\<forall>u c. u \<noteq> currentTransactionUUID p \<longrightarrow> own u m' c = own u m c)"
proof -
  note ok = tx_okD [OF assms]
  obtain m' where m': "dropOnNodes pathID (txReservations p) m = (Inr (), keepOff pathID (txReservations p), m')"
    "dropped (currentTransactionUUID p) m m' (goneOn pathID (txReservations p))"
    using dropOnNodes_spec [OF ok(1,2)] ok(4) by (metis subset_mset.order_refl)
  then show ?thesis
    using ok by (auto simp: dropNodeReservationsOnPath_def tx_ok_def dropped_def listed_keepOff
        keepOff_distinct keepOff_sorted dest: keepOff_nonempty)
qed

section \<open>Rollback\<close>

definition entriesAt :: "ContractorID \<Rightarrow> (ContractorID \<times> AmountReservation) list \<Rightarrow> AmountReservation multiset" where
  "entriesAt c xs = mset (map snd (filter (\<lambda>x. fst x = c) xs))"

lemma entriesAt_simps [simp]:
  "entriesAt c [] = {#}"
  "entriesAt c (x # xs) = (if fst x = c then add_mset (snd x) (entriesAt c xs) else entriesAt c xs)"
  "entriesAt c (xs @ ys) = entriesAt c xs + entriesAt c ys"
  by (simp_all add: entriesAt_def)

lemma entriesAt_map: "entriesAt c (map (\<lambda>it. (d, snd it)) es) = (if d = c then mset (map snd es) else {#})"
  by (induction es) auto

lemma dropAllOf_spec:
  assumes "manager_ok m" and "\<And>c. entriesAt c xs \<subseteq># own u m c"
  shows "\<exists>m'. dropAllOf xs m = (Inr (), m') \<and>
    dropped u m m' (\<lambda>c. entriesAt c xs)"
  using assms
proof (induction xs arbitrary: m)
  case Nil
  then show ?case by (auto intro!: dropped_cong [OF dropped_none])
next
  case (Cons x xs)
  obtain c r where x: "x = (c, r)" by (cases x)
  have "r \<in># own u m c" using Cons.prems(2) [of c] by (simp add: x insert_subset_eq_iff)
  then obtain m1 where m1: "dropAmountReservation c r m = (Inr (), m1)"
    "dropped u m m1 (\<lambda>c'. if c' = c then {#r#} else {#})"
    using drop_dropped [OF Cons.prems(1)] by blast
  have "entriesAt c' xs \<subseteq># own u m1 c'" for c'
    using Cons.prems(2) [of c'] m1(2) by (auto simp: x dropped_def insert_subset_eq_iff split: if_splits)
  then obtain m' where m': "dropAllOf xs m1 = (Inr (), m')"
    "dropped u m1 m' (\<lambda>c. entriesAt c xs)"
    using Cons.IH [of m1] m1(2) by (auto simp: dropped_def)
  have "dropped u m m' (\<lambda>c. entriesAt c (x # xs))"
    using dropped_trans [OF m1(2) m'(2)] by (rule dropped_cong) (simp add: x)
  with m1(1) m'(1) show ?case by (auto simp: x)
qed

lemma allEntries_listed:
  "distinct (keys rs) \<Longrightarrow> entriesAt c (allEntries rs) = listed rs c"
proof (induction rs)
  case (Cons x rs)
  obtain d es where x: "x = (d, es)" by (cases x)
  have s: "entriesAt c (allEntries (x # rs)) =
      (if d = c then mset (map snd es) else {#}) + listed rs c"
    using Cons by (simp add: x allEntries_def entriesAt_map)
  have "map_of rs d = None" using Cons.prems by (simp add: x map_of_eq_None_iff)
  then have "d = c \<Longrightarrow> listed rs c = {#}" by (simp add: listed_def)
  with s show ?case by (auto simp: x listed_Cons)
qed (simp add: allEntries_def listed_def)

lemma rollBack_ok:
  assumes "tx_ok (p, m)"
  shows "\<exists>m'. rollBack (p, m) = (Inr (), p\<lparr>txReservations := []\<rparr>, m') \<and>
    tx_ok (p\<lparr>txReservations := []\<rparr>, m') \<and> mTrustLines m' = mTrustLines m \<and>
    (\<forall>u c. u \<noteq> currentTransactionUUID p \<longrightarrow> own u m' c = own u m c)"
proof -
  note ok = tx_okD [OF assms]
  obtain m' where "dropAllOf (allEntries (txReservations p)) m = (Inr (), m')"
    "dropped (currentTransactionUUID p) m m' (own (currentTransactionUUID p) m)"
    using dropAllOf_spec [OF ok(1), of "allEntries (txReservations p)" "currentTransactionUUID p"] ok(4)
    by (auto simp: allEntries_listed [OF ok(2)])
  then show ?thesis
    using ok(4) by (auto simp: rollBack_def tx_ok_def dropped_def listed_def)
qed

section \<open>New reservations and shortened ones\<close>

lemma listed_ordUpdate: "listed (ordUpdate c es rs) c' = (if c' = c then mset (map snd es) else listed rs c')"
  by (simp add: listed_def)

lemma listed_entries: "listed (txReservations p) c = mset (map snd (entries p c))"
  by (simp add: listed_def entries_def split: option.splits)

lemma onHandler_throws:
  "(\<And>h e h'. f h = (Inl e, h') \<Longrightarrow> h' = h) \<Longrightarrow> onHandler f m = (Inl e, m') \<Longrightarrow> m' = m"
  by (auto simp: onHandler_def split: prod.splits)

lemma reserve_result:
  assumes "reserveOutgoingAmount c u a m = (res, m') \<or> reserveIncomingAmount c u a m = (res, m')"
  shows "case res of Inl e \<Rightarrow> m' = m
    | Inr r \<Rightarrow> mTransactionUUID r = u \<and>
        (\<forall>c'. held_by m' c' = (if c' = c then held_by m c @ [r] else held_by m c'))"
proof -
  have "(res, m') = (Inl (case res of Inl e \<Rightarrow> e), m) \<or> (\<exists>d. onHandler (reserve c u a d) m = (res, m'))"
    using assms by (auto simp: reserveOutgoingAmount_def reserveIncomingAmount_def split: sum.splits if_splits)
  then show ?thesis
  proof
    assume "\<exists>d. onHandler (reserve c u a d) m = (res, m')"
    then obtain d where d: "onHandler (reserve c u a d) m = (res, m')" ..
    show ?thesis
    proof (cases res)
      case (Inl e)
      then show ?thesis using d onHandler_throws [of "reserve c u a d"] reserve_throws by auto
    next
      case (Inr r)
      then obtain h where h: "reserve c u a d (mAmountReservationsHandler m) = (Inr r, h)"
        and "m' = m\<lparr>mAmountReservationsHandler := h\<rparr>" using d by (auto simp: onHandler_Inr)
      moreover have "mTransactionUUID r = u" using reserve_Inr(2) [OF h] by simp
      ultimately show ?thesis using reserve_Inr(3) [OF h] Inr by simp
    qed
  qed (auto split: sum.splits)
qed

lemma tx_okI:
  assumes "manager_ok m" and "sorted (keys rs)" and "distinct (keys rs)"
    and "\<And>c es. (c, es) \<in> set rs \<Longrightarrow> es \<noteq> []"
    and "\<And>c. listed rs c = own (currentTransactionUUID p) m c"
  shows "tx_ok (p\<lparr>txReservations := rs\<rparr>, m)"
  using assms by (auto simp: tx_ok_def)

lemma tx_ok_put:
  assumes "tx_ok (p, m)" and "manager_ok m'" and "es \<noteq> []"
    and "\<And>c'. own (currentTransactionUUID p) m' c' =
      (if c' = c then mset (map snd es) else own (currentTransactionUUID p) m c')"
  shows "tx_ok (p\<lparr>txReservations := ordUpdate c es (txReservations p)\<rparr>, m')"
proof (rule tx_okI [OF assms(2)])
  note ok = tx_okD [OF assms(1)]
  show "sorted (keys (ordUpdate c es (txReservations p)))" "distinct (keys (ordUpdate c es (txReservations p)))"
    using sorted_ordUpdate [OF ok(5,2)] by auto
  show "es' \<noteq> []" if "(c', es') \<in> set (ordUpdate c es (txReservations p))" for c' es'
    using ordUpdate_set [OF that] assms(3) ok(3) by auto
  show "listed (ordUpdate c es (txReservations p)) c' = own (currentTransactionUUID p) m' c'" for c'
    using ok(4) assms(4) by (simp add: listed_ordUpdate)
qed

lemma own_append:
  assumes "\<And>c'. held_by m' c' = (if c' = c then held_by m c @ [r] else held_by m c')"
    and "mTransactionUUID r = u"
  shows "own u m' c' = (if c' = c then add_mset r (own u m c) else own u m c')"
    and "u' \<noteq> u \<Longrightarrow> own u' m' c' = own u' m c'"
  using assms by (auto simp: own_def)

lemma reserve_tx_ok:
  assumes "tx_ok (p, m)"
    and "reserveOutgoingAmount_tx c a pathID (p, m) = (res, s') \<or>
         reserveIncomingAmount_tx c a pathID (p, m) = (res, s')"
  shows "tx_ok s' \<and> currentTransactionUUID (fst s') = currentTransactionUUID p \<and>
    mTrustLines (snd s') = mTrustLines m \<and>
    (\<forall>u c'. u \<noteq> currentTransactionUUID p \<longrightarrow> own u (snd s') c' = own u m c')"
proof -
  define u where "u = currentTransactionUUID p"
  obtain rr mm where step: "reserveOutgoingAmount c u a m = (rr, mm) \<and>
        reserveOutgoingAmount_tx c a pathID (p, m) = (res, s') \<or>
      reserveIncomingAmount c u a m = (rr, mm) \<and>
        reserveIncomingAmount_tx c a pathID (p, m) = (res, s')"
    using assms(2) by (metis prod.exhaust)
  note facts = reserve_result [of c u a m rr mm]
  show ?thesis
  proof (cases rr)
    case (Inl e)
    then have "s' = (p, m)" using step facts
      by (auto simp: reserveOutgoingAmount_tx_def reserveIncomingAmount_tx_def u_def split: if_splits)
    then show ?thesis using assms(1) by simp
  next
    case (Inr r)
    have s': "s' = (addEntry c pathID r p, mm)"
      using step Inr by (auto simp: reserveOutgoingAmount_tx_def reserveIncomingAmount_tx_def u_def)
    have held: "held_by mm c' = (if c' = c then held_by m c @ [r] else held_by m c')" for c'
      using facts step Inr by auto
    have u: "mTransactionUUID r = u" using facts step Inr by auto
    have ok: "manager_ok mm" and lines: "mTrustLines mm = mTrustLines m"
      using reserve_amount_covered [OF tx_okD(1) [OF assms(1)], of c u a r mm] step Inr by auto
    have "tx_ok s'"
      unfolding s' addEntry_def
      using own_append(1) [OF held u] tx_okD(4) [OF assms(1), of c]
      by (intro tx_ok_put [OF assms(1) ok]) (auto simp: u_def listed_entries)
    then show ?thesis
      using lines own_append(2) [OF held u] by (simp add: s' addEntry_def u_def)
  qed
qed

lemma removeFirst_mset:
  assumes "\<exists>x \<in> set xs. q x" and "\<And>x. x \<in> set xs \<Longrightarrow> q x \<Longrightarrow> snd x = r"
  shows "mset (map snd (removeFirst q xs)) = mset (map snd xs) - {#r#}"
  using assms
proof (induction xs)
  case (Cons x xs)
  show ?case
  proof (cases "q x")
    case False
    then have ex: "\<exists>x \<in> set xs. q x" using Cons.prems(1) by auto
    then have "r \<in># mset (map snd xs)" using Cons.prems(2) by force
    then show ?thesis using Cons.IH [OF ex] Cons.prems(2) False by (auto simp: add_mset_commute)
  qed (use Cons.prems(2) in auto)
qed simp

lemma updated_held:
  assumes "manager_ok m" and "r \<in> set (held_by m c)" and "updateAmountReservation c r a m = (Inr n, m')"
  shows "mTransactionUUID n = mTransactionUUID r \<and> mBlockedAmount n = a \<and> mDirection n = mDirection r \<and>
    (\<forall>u c'. own u m' c' = (if c' = c \<and> u = mTransactionUUID r then add_mset n (own u m c - {#r#})
                         else own u m c'))"
proof -
  note ok = manager_okD(1) [OF assms(1)]
  obtain h where h: "updateReservation c r a (mAmountReservationsHandler m) = (Inr n, h)"
    and m': "m' = m\<lparr>mAmountReservationsHandler := h\<rparr>"
    using assms(3) by (auto simp: updateAmountReservation_def onHandler_Inr split: sum.splits if_splits)
  have "0 < a" using updateReservation_Inr [OF h] by blast
  then obtain pre post where e: "held_by m c = pre @ r # post"
    and n: "n = \<lparr>resRef = nextRef (mAmountReservationsHandler m), mTransactionUUID = mTransactionUUID r,
      mBlockedAmount = a, mDirection = mDirection r\<rparr>"
    and e': "\<And>c'. held h c' = (if c' = c then pre @ n # post else held_by m c')"
    using held_update [OF ok assms(2)] h by (metis (no_types, lifting) fst_conv snd_conv sum.inject(2))
  have f: "mTransactionUUID n = mTransactionUUID r" "mBlockedAmount n = a" "mDirection n = mDirection r"
    by (simp_all add: n)
  show ?thesis
    using e e' f(1) by (auto simp: f(2,3) own_def m')
qed

lemma entry_held:
  assumes "tx_ok (p, m)" and "it \<in> set (entries p c)"
  shows "snd it \<in># own (currentTransactionUUID p) m c"
proof -
  have "snd it \<in># mset (map snd (entries p c))" using assms(2) by auto
  then show ?thesis by (simp only: tx_okD(4) [OF assms(1), of c, symmetric] listed_entries)
qed

lemma same_ref_same:
  assumes "manager_ok m" and "r \<in> set (held_by m c)" and "r' \<in> set (held_by m c)"
    and "resRef r' = resRef r"
  shows "r' = r"
  using handler_ok_held(3) [OF manager_okD(1) [OF assms(1)], of c] assms(2-4)
  by (auto simp: distinct_map inj_on_def)

lemma shortage_as_ok:
  assumes "tx_ok (p, m)" and "(pathID, r) \<in> set (entries p c)"
    and "shortageReservation_as label c r a pathID (p, m) = (res, s')"
  shows "tx_ok s' \<and> currentTransactionUUID (fst s') = currentTransactionUUID p \<and>
    mTrustLines (snd s') = mTrustLines m \<and>
    (\<forall>u c'. u \<noteq> currentTransactionUUID p \<longrightarrow> own u (snd s') c' = own u m c')"
proof -
  define u where "u = currentTransactionUUID p"
  note ok = tx_okD [OF assms(1)]
  have r: "r \<in># own u m c" using entry_held [OF assms(1,2)] by (simp add: u_def)
  then have held: "r \<in> set (held_by m c)" and ru: "mTransactionUUID r = u"
    by (auto simp: own_def)
  obtain rr mm where upd: "updateAmountReservation c r a m = (rr, mm)" by fastforce
  show ?thesis
  proof (cases "mBlockedAmount r < a \<or> (\<exists>e. rr = Inl e)")
    case True
    have "rr = Inl e \<Longrightarrow> mm = m" for e
      using upd onHandler_throws [of "updateReservation c r a" m] update_throws
      by (auto simp: updateAmountReservation_def split: sum.splits if_splits)
    then have "s' = (p, m)"
      using True assms(3) upd
      by (auto simp: shortageReservation_as_def split: if_splits geo_error.splits)
    then show ?thesis using assms(1) by simp
  next
    case False
    then obtain n where n: "updateAmountReservation c r a m = (Inr n, mm)" and le: "a \<le> mBlockedAmount r"
      using upd by (cases rr) auto
    let ?q = "\<lambda>it. resRef (snd it) = resRef r \<and> fst it = pathID"
    let ?es = "removeFirst ?q (entries p c) @ [(label (removeFirst ?q (entries p c)), n)]"
    have s': "s' = (p\<lparr>txReservations := ordUpdate c ?es (txReservations p)\<rparr>, mm)"
      using assms(3) n le by (simp add: shortageReservation_as_def Let_def)
    have "snd x = r" if "x \<in> set (entries p c)" "?q x" for x
      using same_ref_same [OF ok(1) held, of "snd x"] own_held [OF entry_held [OF assms(1) that(1)]] that(2)
      by blast
    then have rem: "mset (map snd (removeFirst ?q (entries p c))) = mset (map snd (entries p c)) - {#r#}"
      using assms(2) by (intro removeFirst_mset) force+
    have mm: "manager_ok mm \<and> mTrustLines mm = mTrustLines m"
      using update_reservation_covered [OF ok(1) held n] le by blast
    note own = updated_held [OF ok(1) held n]
    have "tx_ok s'"
      unfolding s' using own mm rem ok(4) [of c]
      by (intro tx_ok_put [OF assms(1)]) (auto simp: listed_entries ru u_def [symmetric])
    then show ?thesis using mm own by (auto simp: s' ru u_def [symmetric])
  qed
qed

lemma shortage_ok:
  assumes "tx_ok (p, m)" and "(pathID, r) \<in> set (entries p c)"
    and "shortageReservation c r a pathID (p, m) = (res, s')"
  shows "tx_ok s' \<and> currentTransactionUUID (fst s') = currentTransactionUUID p \<and>
    mTrustLines (snd s') = mTrustLines m \<and>
    (\<forall>u c'. u \<noteq> currentTransactionUUID p \<longrightarrow> own u (snd s') c' = own u m c')"
  using shortage_as_ok [OF assms(1,2)] assms(3) by (simp add: shortageReservation_def)

text \<open>
  A loop over a copy of the list: each copied entry is an entry still, was shortened, or its path was
  dropped before.
\<close>

lemma updateReservation_tx_keeps:
  assumes "tx_ok (p, m)"
    and "\<And>a. find (\<lambda>x. fst x = fst it) finalAmounts = Some a \<Longrightarrow> it \<in> set (entries p c)"
    and "updateReservation_tx c it finalAmounts (p, m) = (res, s')"
  shows "tx_ok s' \<and> currentTransactionUUID (fst s') = currentTransactionUUID p \<and>
    mTrustLines (snd s') = mTrustLines m \<and>
    (\<forall>u c'. u \<noteq> currentTransactionUUID p \<longrightarrow> own u (snd s') c' = own u m c')"
proof (cases "find (\<lambda>x. fst x = fst it) finalAmounts")
  case None
  then show ?thesis
    using dropPath_ok [OF assms(1), of "fst it"] assms(3) by (auto simp: updateReservation_tx_def)
next
  case (Some a)
  have a: "fst a = fst it" using Some by (auto simp: find_Some_iff)
  have "it \<in> set (entries p c)" using assms(2) [OF Some] .
  then have mem: "(fst a, snd it) \<in> set (entries p c)" by (simp add: a)
  show ?thesis
  proof (cases "snd a \<noteq> mBlockedAmount (snd it)")
    case True
    obtain r s where sh: "shortageReservation c (snd it) (snd a) (fst a) (p, m) = (r, s)"
      by (meson surj_pair)
    have "s' = s" using assms(3) Some True sh
      by (cases r) (auto simp: updateReservation_tx_def)
    then show ?thesis using shortage_ok [OF assms(1) mem sh] by simp
  next
    case False
    then have "s' = (p, m)" using assms(3) Some by (auto simp: updateReservation_tx_def)
    then show ?thesis using assms(1) by simp
  qed
qed

section \<open>What an operation may do to the reservations\<close>

definition tx_kept :: "PaymentState \<Rightarrow> PaymentState \<Rightarrow> bool" where
  "tx_kept s s' \<longleftrightarrow> tx_ok s' \<and> currentTransactionUUID (fst s') = currentTransactionUUID (fst s) \<and>
     mTrustLines (snd s') = mTrustLines (snd s) \<and>
     (\<forall>u c. u \<noteq> currentTransactionUUID (fst s) \<longrightarrow> own u (snd s') c = own u (snd s) c)"

lemma tx_kept_refl: "tx_ok s \<Longrightarrow> tx_kept s s"
  by (simp add: tx_kept_def)

lemma tx_kept_trans: "tx_kept s t \<Longrightarrow> tx_kept t u \<Longrightarrow> tx_kept s u"
  by (simp add: tx_kept_def)

lemma tx_kept_ok: "tx_kept s s' \<Longrightarrow> tx_ok s'"
  by (simp add: tx_kept_def)

lemma reserve_kept:
  assumes "tx_ok s" and "reserveOutgoingAmount_tx c a pathID s = (res, s') \<or> reserveIncomingAmount_tx c a pathID s = (res, s')"
  shows "tx_kept s s'"
  using reserve_tx_ok [of "fst s" "snd s" c a pathID res s'] assms by (simp add: tx_kept_def)

lemma shortage_as_kept:
  assumes "tx_ok s" and "(pathID, r) \<in> set (entries (fst s) c)"
    and "shortageReservation_as label c r a pathID s = (res, s')"
  shows "tx_kept s s'"
  using shortage_as_ok [of "fst s" "snd s" pathID r c label a res s'] assms by (simp add: tx_kept_def)

lemma rollBackPath_kept:
  assumes "tx_ok s" and "rollBackPath pathID s = (res, s')"
  shows "tx_kept s s' \<and> res = Inr ()"
  using dropPath_ok [of "fst s" "snd s" pathID] assms
  by (cases s) (auto simp: rollBackPath_def dropNodeReservationsOnPath_def tx_kept_def)

lemma rollBack_kept:
  assumes "tx_ok s" and "rollBack s = (res, s')"
  shows "tx_kept s s' \<and> res = Inr () \<and> txReservations (fst s') = []"
  using rollBack_ok [of "fst s" "snd s"] assms by (cases s) (auto simp: tx_kept_def)

lemma entries_ordUpdate: "entries (p\<lparr>txReservations := ordUpdate c es (txReservations p)\<rparr>) c' = (if c' = c then es else entries p c')"
  by (simp add: entries_def)

lemma same_ref_entry:
  assumes "tx_ok (p, m)" and "it \<in> set (entries p c)" and "it' \<in> set (entries p c)"
    and "resRef (snd it') = resRef (snd it)"
  shows "snd it' = snd it"
  using same_ref_same [OF tx_okD(1) [OF assms(1)]] own_held entry_held assms by metis

text \<open>Shortening one entry leaves every other one.\<close>

lemma shortage_other_entries:
  assumes "tx_ok (p, m)" and "it \<in> set (entries p c)" and "(c', it') \<noteq> (c, it)" and "it' \<in> set (entries p c')"
    and "shortageReservation c (snd it) a (fst it) (p, m) = (res, s')"
  shows "it' \<in> set (entries (fst s') c')"
proof (cases "c' = c")
  case True
  have "it' \<noteq> it" using assms(3) True by simp
  then have "\<not> (resRef (snd it') = resRef (snd it) \<and> fst it' = fst it)"
    using same_ref_entry [OF assms(1,2), of it'] assms(4) True by (metis prod.expand)
  with assms(4,5) True show ?thesis
    by (auto simp: shortageReservation_def shortageReservation_as_def Let_def entries_ordUpdate
        intro!: removeFirst_keeps split: if_splits sum.splits geo_error.splits prod.splits)
next
  case False
  with assms(4,5) show ?thesis
    by (auto simp: shortageReservation_def shortageReservation_as_def Let_def entries_ordUpdate
        split: if_splits sum.splits geo_error.splits prod.splits)
qed

lemma dropPath_other_entries:
  assumes "tx_ok s" and "it' \<in> set (entries (fst s) c')" and "fst it' \<noteq> pathID"
    and "dropNodeReservationsOnPath pathID s = (res, s')"
  shows "it' \<in> set (entries (fst s') c')"
proof -
  obtain p m where s: "s = (p, m)" by (cases s)
  note ok = tx_okD [OF assms(1) [unfolded s]]
  obtain m' where s': "s' = (p\<lparr>txReservations := keepOff pathID (txReservations p)\<rparr>, m')"
    using dropPath_ok [OF assms(1) [unfolded s], of pathID] assms(4) s by auto
  obtain es where es: "(c', es) \<in> set (txReservations p)" "it' \<in> set es"
    using assms(2) s by (cases "map_of (txReservations p) c'") (auto simp: entries_def dest: map_of_SomeD)
  then have "(c', filter (\<lambda>it. fst it \<noteq> pathID) es) \<in> set (keepOff pathID (txReservations p))"
    using assms(3) by (auto simp: keepOff_def filter_empty_conv intro!: image_eqI [where x = "(c', es)"])
  then have "map_of (keepOff pathID (txReservations p)) c' = Some (filter (\<lambda>it. fst it \<noteq> pathID) es)"
    using keepOff_distinct [OF ok(2)] by (intro map_of_is_SomeI)
  then show ?thesis using es(2) assms(3) by (simp add: s' entries_def)
qed

text \<open>The loop over the copy: every entry whose path is kept is still there when its turn comes.\<close>

lemma updateReservation_tx_step:
  assumes "tx_ok s" and "find (\<lambda>x. fst x = fst it) finalAmounts \<noteq> None \<Longrightarrow> it \<in> set (entries (fst s) c)"
    and "updateReservation_tx c it finalAmounts s = (res, s')"
  shows "tx_kept s s' \<and>
    (\<forall>c' it'. it' \<in> set (entries (fst s) c') \<longrightarrow> (c', it') \<noteq> (c, it) \<longrightarrow>
       find (\<lambda>x. fst x = fst it') finalAmounts \<noteq> None \<longrightarrow> it' \<in> set (entries (fst s') c'))"
proof (intro conjI allI impI)
  show "tx_kept s s'"
    using updateReservation_tx_keeps [of "fst s" "snd s" it finalAmounts c res s'] assms
    by (auto simp: tx_kept_def)
next
  fix c' it'
  assume e: "it' \<in> set (entries (fst s) c')" "(c', it') \<noteq> (c, it)" "find (\<lambda>x. fst x = fst it') finalAmounts \<noteq> None"
  show "it' \<in> set (entries (fst s') c')"
  proof (cases "find (\<lambda>x. fst x = fst it) finalAmounts")
    case None
    then have ne: "fst it' \<noteq> fst it" using e(3) by auto
    obtain r where "dropNodeReservationsOnPath (fst it) s = (r, s')"
      using assms(3) None by (cases "dropNodeReservationsOnPath (fst it) s"; cases "fst (dropNodeReservationsOnPath (fst it) s)")
        (auto simp: updateReservation_tx_def)
    then show ?thesis using dropPath_other_entries [OF assms(1) e(1) ne] by blast
  next
    case (Some a)
    then have a: "fst a = fst it" by (auto simp: find_Some_iff)
    have mem: "it \<in> set (entries (fst s) c)" using assms(2) Some by simp
    show ?thesis
    proof (cases "snd a \<noteq> mBlockedAmount (snd it)")
      case True
      obtain r t where t: "shortageReservation c (snd it) (snd a) (fst it) s = (r, t)" by (meson surj_pair)
      then have "s' = t" using assms(3) Some True a by (cases r) (auto simp: updateReservation_tx_def)
      then show ?thesis
        using shortage_other_entries [of "fst s" "snd s" it c c' it' "snd a" r t] assms(1) mem e t by simp
    next
      case False
      then show ?thesis using assms(3) Some e by (auto simp: updateReservation_tx_def)
    qed
  qed
qed

text \<open>What is still to be visited after a step is still there.\<close>

lemma remaining_entries:
  assumes "distinct ((c, it) # todo)"
    and "\<forall>(c, it) \<in> set ((c, it) # todo). find (\<lambda>x. fst x = fst it) finalAmounts \<noteq> None \<longrightarrow> it \<in> set (entries (fst s) c)"
    and "\<forall>c' it'. it' \<in> set (entries (fst s) c') \<longrightarrow> (c', it') \<noteq> (c, it) \<longrightarrow>
       find (\<lambda>x. fst x = fst it') finalAmounts \<noteq> None \<longrightarrow> it' \<in> set (entries (fst t) c')"
  shows "\<forall>(c, it) \<in> set todo. find (\<lambda>x. fst x = fst it) finalAmounts \<noteq> None \<longrightarrow> it \<in> set (entries (fst t) c)"
proof (intro ballI, clarsimp)
  fix c' p' r' a b
  assume e: "(c', p', r') \<in> set todo" and f: "find (\<lambda>x. fst x = p') finalAmounts = Some (a, b)"
  have "(p', r') \<in> set (entries (fst s) c')" using assms(2) e f by fastforce
  moreover have "(c', p', r') \<noteq> (c, it)" using assms(1) e by auto
  ultimately show "(p', r') \<in> set (entries (fst t) c')" using assms(3) f by fastforce
qed

lemma updateEach_kept:
  assumes "tx_ok s" and "distinct todo"
    and "\<forall>(c, it) \<in> set todo. find (\<lambda>x. fst x = fst it) finalAmounts \<noteq> None \<longrightarrow> it \<in> set (entries (fst s) c)"
    and "updateEach todo finalAmounts paths s = (res, s')"
  shows "tx_kept s s'"
  using assms
proof (induction todo arbitrary: s paths)
  case Nil
  then show ?case by (simp add: tx_kept_refl)
next
  case (Cons x todo)
  obtain c it where x: "x = (c, it)" by (cases x)
  obtain r t where t: "updateReservation_tx c it finalAmounts s = (r, t)" by (meson surj_pair)
  have mem: "find (\<lambda>x. fst x = fst it) finalAmounts \<noteq> None \<Longrightarrow> it \<in> set (entries (fst s) c)"
    using Cons.prems(3) by (auto simp: x)
  note st = updateReservation_tx_step [OF Cons.prems(1) mem t]
  show ?case
  proof (cases r)
    case (Inl e)
    then show ?thesis using Cons.prems(4) t st by (simp add: x)
  next
    case (Inr y)
    then obtain paths' where go: "updateEach todo finalAmounts paths' t = (res, s')"
      using Cons.prems(4) t by (auto simp: x)
    have todo: "\<forall>(c, it) \<in> set todo. find (\<lambda>x. fst x = fst it) finalAmounts \<noteq> None \<longrightarrow> it \<in> set (entries (fst t) c)"
      using remaining_entries [OF Cons.prems(2,3) [unfolded x] conjunct2 [OF st]] .
    have "tx_kept t s'"
      using Cons.IH [OF tx_kept_ok [OF conjunct1 [OF st]] _ todo go] Cons.prems(2) by simp
    then show ?thesis using st tx_kept_trans by blast
  qed
qed

lemma copied_entries:
  assumes "tx_ok (p, m)"
  shows "distinct (concat (map (\<lambda>(c, es). map (Pair c) es) (txReservations p)))"
    and "(c, it) \<in> set (concat (map (\<lambda>(c, es). map (Pair c) es) (txReservations p))) \<Longrightarrow> it \<in> set (entries p c)"
proof -
  note ok = tx_okD [OF assms]
  have d: "distinct es" if "(c, es) \<in> set (txReservations p)" for c es
  proof -
    have "map_of (txReservations p) c = Some es" using that ok(2) by simp
    then have "mset (map snd es) = own (currentTransactionUUID p) m c" using ok(4) [of c] by (simp add: listed_def)
    then have "mset (map snd es) = mset (filter (\<lambda>r. mTransactionUUID r = currentTransactionUUID p) (held_by m c))"
      by (simp only: own_def)
    then have "distinct (map snd es) = distinct (filter (\<lambda>r. mTransactionUUID r = currentTransactionUUID p) (held_by m c))"
      by (rule mset_eq_imp_distinct_iff)
    moreover have "distinct (held_by m c)"
      using handler_ok_held(3) [OF manager_okD(1) [OF ok(1)], of c] by (simp add: distinct_map)
    ultimately show ?thesis by (simp add: distinct_map)
  qed
  show "distinct (concat (map (\<lambda>(c, es). map (Pair c) es) (txReservations p)))"
    using ok(2) d
  proof (induction "txReservations p" arbitrary: p)
    case (Cons x rs)
    obtain c es where x: "x = (c, es)" by (cases x)
    have "distinct (concat (map (\<lambda>(c, es). map (Pair c) es) rs))"
      using Cons.hyps(1) [of "p\<lparr>txReservations := rs\<rparr>"] Cons.prems Cons.hyps(2) by (auto simp: x Cons.hyps(2) [symmetric])
    moreover have "c \<notin> fst ` set rs" using Cons.prems(1) by (simp add: x Cons.hyps(2) [symmetric])
    moreover have "distinct es" using Cons.prems(2) [of c es] by (simp add: x Cons.hyps(2) [symmetric])
    ultimately show ?case by (force simp: x Cons.hyps(2) [symmetric] distinct_map inj_on_def)
  qed simp
  show "it \<in> set (entries p c)" if e: "(c, it) \<in> set (concat (map (\<lambda>(c, es). map (Pair c) es) (txReservations p)))"
  proof -
    obtain es where "(c, es) \<in> set (txReservations p)" "it \<in> set es" using e by (auto simp: split_beta)
    then show ?thesis using ok(2) by (simp add: entries_def)
  qed
qed

lemma updateReservations_kept:
  assumes "tx_ok s" and "updateReservations finalAmounts s = (res, s')"
  shows "tx_kept s s'"
proof -
  let ?copy = "concat (map (\<lambda>(c, es). map (Pair c) es) (txReservations (fst s)))"
  have s: "tx_ok (fst s, snd s)" using assms(1) by simp
  obtain r t where t: "updateEach ?copy finalAmounts {} s = (r, t)" by (meson surj_pair)
  have "s' = t" using assms(2) t by (cases r) (auto simp: updateReservations_def Let_def)
  moreover have "\<forall>(c, it) \<in> set ?copy. find (\<lambda>x. fst x = fst it) finalAmounts \<noteq> None \<longrightarrow> it \<in> set (entries (fst s) c)"
    using copied_entries(2) [OF s] by blast
  ultimately show ?thesis using updateEach_kept [OF assms(1) copied_entries(1) [OF s] _ t] by blast
qed

section \<open>Commit\<close>

text \<open>What committing the entries of one neighbour does to its line.\<close>

definition settledLine :: "AmountReservation list \<Rightarrow> TrustLine \<Rightarrow> TrustLine" where
  "settledLine rs line = foldl (\<lambda>l r. usedLine r l) line rs"

abbreviation flow :: "ReservationDirection \<Rightarrow> AmountReservation list \<Rightarrow> nat" where
  "flow d rs \<equiv> sum_list (map (amountOf d) rs)"

lemma usedLine_amounts:
  "mBalance (usedLine r line) = mBalance line + int (amountOf Incoming r) - int (amountOf Outgoing r)"
  "receiptsOf d (usedLine r line) = receiptsOf d line + amountOf d r"
  by (cases "mDirection r"; cases d; simp add: usedLine_def amountOf_def receiptsOf_def)+

lemma settledLine_amounts:
  "mBalance (settledLine rs line) = mBalance line + int (flow Incoming rs) - int (flow Outgoing rs)"
  "receiptsOf d (settledLine rs line) = receiptsOf d line + flow d rs"
  "mIncomingTrustAmount (settledLine rs line) = mIncomingTrustAmount line"
  "mOutgoingTrustAmount (settledLine rs line) = mOutgoingTrustAmount line"
  by (induction rs arbitrary: line; simp add: settledLine_def usedLine_amounts)+

definition settledTo ::
  "TransactionUUID \<Rightarrow> TrustLinesManager \<Rightarrow> TrustLinesManager \<Rightarrow> (ContractorID \<Rightarrow> AmountReservation list) \<Rightarrow>
   bool" where
  "settledTo u m m' gone \<longleftrightarrow> manager_ok m' \<and>
     (\<forall>c. map_of (mTrustLines m') c = map_option (settledLine (gone c)) (map_of (mTrustLines m) c)) \<and>
     (\<forall>c. own u m' c = own u m c - mset (gone c)) \<and> (\<forall>u' c. u' \<noteq> u \<longrightarrow> own u' m' c = own u' m c)"

lemma settledLine_simps [simp]:
  "settledLine [] = (\<lambda>line. line)" "settledLine (r # rs) = (\<lambda>line. settledLine rs (usedLine r line))"
  by (simp_all add: settledLine_def fun_eq_iff)

lemma settledLine_append [simp]: "settledLine (xs @ ys) = (\<lambda>line. settledLine ys (settledLine xs line))"
  by (simp add: settledLine_def fun_eq_iff)

lemma settledTo_none: "manager_ok m \<Longrightarrow> settledTo u m m (\<lambda>c. [])"
  by (simp add: settledTo_def option.map_ident)

lemma settledTo_trans:
  "settledTo u m m1 g1 \<Longrightarrow> settledTo u m1 m2 g2 \<Longrightarrow> settledTo u m m2 (\<lambda>c. g1 c @ g2 c)"
  by (simp add: settledTo_def option.map_comp comp_def)

lemma settledTo_cong: "settledTo u m m' g \<Longrightarrow> (\<And>c. g c = g' c) \<Longrightarrow> settledTo u m m' g'"
  by (simp add: settledTo_def)

lemma settle_one:
  assumes "manager_ok m" and "r \<in># own u m c"
    and "\<And>line. map_of (mTrustLines m) c = Some line \<Longrightarrow>
      receiptsOf (mDirection r) line + mBlockedAmount r < 2 ^ 256"
  shows "\<exists>m1 m'. useReservation c r m = (Inr (), m1) \<and> dropAmountReservation c r m1 = (Inr (), m') \<and>
    settledTo u m m' (\<lambda>c'. if c' = c then [r] else [])"
proof -
  have held: "r \<in> set (held_by m c)" and u: "mTransactionUUID r = u" using assms(2) by (auto simp: own_def)
  obtain line m' where line: "map_of (mTrustLines m) c = Some line"
    and s: "bindS (useReservation c r m) (\<lambda>_. dropAmountReservation c r) = (Inr (), m')" "manager_ok m'"
      "mTrustLines m' = AList.update c (usedLine r line) (mTrustLines m)"
      "\<forall>c'. held_by m' c' = (if c' = c then remove1 r (held_by m c) else held_by m c')"
    using settle_held [OF assms(1) held assms(3)] by blast
  have "settledTo u m m' (\<lambda>c'. if c' = c then [r] else [])"
    using s(2-4) line held u
    by (auto simp: settledTo_def own_def mset_filter_remove1 option.map_ident split: if_splits)
  moreover obtain x m1 where "useReservation c r m = (Inr x, m1)" "dropAmountReservation c r m1 = (Inr (), m')"
    using s(1) by (auto simp: bindS_eq_Inr)
  ultimately show ?thesis by auto
qed

definition noteAll :: "ContractorID \<Rightarrow> AmountReservation list \<Rightarrow> Payment \<Rightarrow> Payment" where
  "noteAll c rs p = foldl (\<lambda>p r. noteTransfer c r p) p rs"

lemma amountOf_own: "amountOf (mDirection r) r = mBlockedAmount r"
  by (simp add: amountOf_def)

lemma commitEntries_spec:
  assumes "manager_ok m" and "mset (map snd es) \<subseteq># own u m c" and "address c = Inr a"
    and "\<And>line d. map_of (mTrustLines m) c = Some line \<Longrightarrow> receiptsOf d line + flow d (map snd es) < 2 ^ 256"
  shows "\<exists>m'. commitEntries address c d0 es (p, m) =
      (Inr (if es = [] then d0 else Some (mDirection (snd (last es)))), noteAll c (map snd es) p, m') \<and>
    settledTo u m m' (\<lambda>c'. if c' = c then map snd es else [])"
  using assms(1,2,4)
proof (induction es arbitrary: m p d0)
  case Nil
  then show ?case by (auto simp: noteAll_def intro!: settledTo_cong [OF settledTo_none])
next
  case (Cons it es)
  have mem: "snd it \<in># own u m c" using Cons.prems(2) by (simp add: insert_subset_eq_iff)
  have fits: "receiptsOf (mDirection (snd it)) line + mBlockedAmount (snd it) < 2 ^ 256"
    if "map_of (mTrustLines m) c = Some line" for line
    using Cons.prems(3) [OF that, of "mDirection (snd it)"] by (simp add: amountOf_own)
  obtain m1 m2 where m: "useReservation c (snd it) m = (Inr (), m1)"
    "dropAmountReservation c (snd it) m1 = (Inr (), m2)"
    "settledTo u m m2 (\<lambda>c'. if c' = c then [snd it] else [])"
    using settle_one [OF Cons.prems(1) mem fits] by blast
  have "mset (map snd es) \<subseteq># own u m2 c"
    using m(3) Cons.prems(2) by (simp add: settledTo_def insert_subset_eq_iff)
  moreover have "receiptsOf d line + flow d (map snd es) < 2 ^ 256"
    if "map_of (mTrustLines m2) c = Some line" for line d
    using m(3) that Cons.prems(3) [of _ d]
    by (auto simp: settledTo_def usedLine_amounts)
  moreover have "manager_ok m2" using m(3) by (simp add: settledTo_def)
  ultimately obtain m' where m': "commitEntries address c (Some (mDirection (snd it))) es (noteTransfer c (snd it) p, m2) =
      (Inr (if es = [] then Some (mDirection (snd it)) else Some (mDirection (snd (last es)))),
       noteAll c (map snd es) (noteTransfer c (snd it) p), m')"
    "settledTo u m2 m' (\<lambda>c'. if c' = c then map snd es else [])"
    using Cons.IH by blast
  have "settledTo u m m' (\<lambda>c'. if c' = c then map snd (it # es) else [])"
    using settledTo_trans [OF m(3) m'(2)] by (rule settledTo_cong) simp
  then show ?case using m(1,2) m'(1) assms(3) by (auto simp: noteAll_def)
qed

definition listOf :: "(ContractorID \<times> PathReservations) list \<Rightarrow> ContractorID \<Rightarrow> AmountReservation list" where
  "listOf rs c = (case map_of rs c of None \<Rightarrow> [] | Some es \<Rightarrow> map snd es)"

lemma listOf_Cons: "listOf ((c, es) # rs) c' = (if c' = c then map snd es else listOf rs c')"
  by (simp add: listOf_def)

lemma mset_listOf: "mset (listOf rs c) = listed rs c"
  by (simp add: listOf_def listed_def split: option.splits)

definition settlingFits :: "(ContractorID \<times> PathReservations) list \<Rightarrow> TrustLinesManager \<Rightarrow> bool" where
  "settlingFits rs m \<longleftrightarrow>
     (\<forall>(c, es) \<in> set rs. \<forall>line \<in> set_option (map_of (mTrustLines m) c).
        receiptsOf Outgoing line + flow Outgoing (map snd es) < 2 ^ 256 \<and>
        receiptsOf Incoming line + flow Incoming (map snd es) < 2 ^ 256)"

lemma settlingFitsI:
  assumes "\<And>c es line d. (c, es) \<in> set rs \<Longrightarrow> map_of (mTrustLines m) c = Some line \<Longrightarrow>
    receiptsOf d line + flow d (map snd es) < 2 ^ 256"
  shows "settlingFits rs m"
  unfolding settlingFits_def
proof (rule ballI)
  fix x assume x: "x \<in> set rs"
  show "case x of (c, es) \<Rightarrow> \<forall>line \<in> set_option (map_of (mTrustLines m) c).
      receiptsOf Outgoing line + flow Outgoing (map snd es) < 2 ^ 256 \<and>
      receiptsOf Incoming line + flow Incoming (map snd es) < 2 ^ 256"
    using assms [of "fst x" "snd x"] x by (auto simp: split_beta)
qed

lemma settlingFitsD:
  assumes "settlingFits rs m" and "(c, es) \<in> set rs" and "map_of (mTrustLines m) c = Some line"
  shows "receiptsOf d line + flow d (map snd es) < 2 ^ 256"
  using assms by (cases d) (auto simp: settlingFits_def)

lemma noteAll_fields [simp]:
  "currentTransactionUUID (noteAll c rs p) = currentTransactionUUID p"
  "events (noteAll c rs p) = events p" "txReservations (noteAll c rs p) = txReservations p"
  by (induction rs arbitrary: p; simp add: noteAll_def noteTransfer_def split: ReservationDirection.splits)+

lemma commitNodes_spec:
  assumes "manager_ok m" and "distinct (keys rs)" and "\<And>c es. (c, es) \<in> set rs \<Longrightarrow> es \<noteq> []"
    and "\<And>c. listed rs c \<subseteq># own u m c" and "\<And>c. c \<in> set (keys rs) \<Longrightarrow> \<exists>a. address c = Inr a"
    and "settlingFits rs m"
  shows "\<exists>p' m'. commitNodes address rs (p, m) = (Inr (), p', m') \<and> settledTo u m m' (listOf rs) \<and>
    currentTransactionUUID p' = currentTransactionUUID p \<and> txReservations p' = txReservations p \<and>
    events p' = events p @ map (\<lambda>(c, es). TrustLineActionSignal c (mDirection (snd (last es)) = Outgoing)) rs"
  using assms
proof (induction rs arbitrary: m p)
  case Nil
  then show ?case by (auto simp: listOf_def intro!: settledTo_cong [OF settledTo_none])
next
  case (Cons x rs)
  obtain c es where x: "x = (c, es)" by (cases x)
  have ne: "es \<noteq> []" using Cons.prems(3) [of c es] by (simp add: x)
  have none: "map_of rs c = None" using Cons.prems(2) by (simp add: x map_of_eq_None_iff)
  obtain a where a: "address c = Inr a" using Cons.prems(5) by (auto simp: x)
  have sub: "mset (map snd es) \<subseteq># own u m c" using Cons.prems(4) [of c] by (simp add: x listed_Cons)
  have fits: "receiptsOf d line + flow d (map snd es) < 2 ^ 256"
    if "map_of (mTrustLines m) c = Some line" for line d
    using settlingFitsD [OF Cons.prems(6) _ that] by (simp add: x)
  obtain m1 where m1: "commitEntries address c None es (p, m) =
      (Inr (Some (mDirection (snd (last es)))), noteAll c (map snd es) p, m1)"
    "settledTo u m m1 (\<lambda>c'. if c' = c then map snd es else [])"
    using commitEntries_spec [where ?d0.0 = None and p = p and address = address and c = c and u = u,
        OF Cons.prems(1) sub a fits] ne by auto
  let ?p = "noteAll c (map snd es) p"
  let ?p1 = "?p\<lparr>events := events ?p @ [TrustLineActionSignal c (mDirection (snd (last es)) = Outgoing)]\<rparr>"
  have lines: "map_of (mTrustLines m1) c' = map_of (mTrustLines m) c'" if "c' \<noteq> c" for c'
    using m1(2) that by (simp add: settledTo_def option.map_ident)
  have "settlingFits rs m1"
  proof (rule settlingFitsI)
    fix c' es' line d
    assume e: "(c', es') \<in> set rs" and l: "map_of (mTrustLines m1) c' = Some line"
    have "c' \<noteq> c" using e none by (metis map_of_eq_None_iff fst_conv imageI)
    then have "map_of (mTrustLines m) c' = Some line" using l lines by simp
    then show "receiptsOf d line + flow d (map snd es') < 2 ^ 256"
      using settlingFitsD [OF Cons.prems(6), of c' es' line] e by (simp add: x)
  qed
  note fits1 = this
  have sub1: "listed rs c' \<subseteq># own u m1 c'" for c'
    using m1(2) none Cons.prems(4) [of c']
    by (cases "c' = c") (simp_all add: settledTo_def x listed_Cons listed_def)
  have ne1: "es' \<noteq> []" if "(c', es') \<in> set rs" for c' es'
    using Cons.prems(3) [of c' es'] that by simp
  have adr1: "\<exists>a. address c' = Inr a" if "c' \<in> set (keys rs)" for c'
    using Cons.prems(5) [of c'] that by simp
  have ok1: "manager_ok m1" "distinct (keys rs)"
    using m1(2) Cons.prems(2) by (simp_all add: settledTo_def)
  obtain p' m' where m': "commitNodes address rs (?p1, m1) = (Inr (), p', m')"
    "settledTo u m1 m' (listOf rs)" "currentTransactionUUID p' = currentTransactionUUID ?p1"
    "txReservations p' = txReservations ?p1"
    "events p' = events ?p1 @ map (\<lambda>(c, es). TrustLineActionSignal c (mDirection (snd (last es)) = Outgoing)) rs"
    using Cons.IH [where p = ?p1, OF ok1] ne1 sub1 adr1 fits1 by metis
  have "settledTo u m m' (listOf (x # rs))"
    using settledTo_trans [OF m1(2) m'(2)] by (rule settledTo_cong) (simp add: x listOf_Cons listOf_def none)
  with m1(1) m' show ?case by (auto simp: x)
qed

lemma commit_ok:
  assumes "tx_ok (p, m)" and "\<And>c. c \<in> set (keys (txReservations p)) \<Longrightarrow> \<exists>a. address c = Inr a"
    and "settlingFits (txReservations p) m"
  shows "\<exists>p' m'. commit address True (p, m) = (Inr (), p', m') \<and> tx_ok (p', m') \<and>
    txReservations p' = [] \<and> currentTransactionUUID p' = currentTransactionUUID p \<and>
    settledTo (currentTransactionUUID p) m m' (listOf (txReservations p))"
proof -
  note ok = tx_okD [OF assms(1)]
  obtain p1 m1 where c: "commitNodes address (txReservations p) (p, m) = (Inr (), p1, m1)"
    "settledTo (currentTransactionUUID p) m m1 (listOf (txReservations p))"
    "currentTransactionUUID p1 = currentTransactionUUID p"
    using commitNodes_spec [where u = "currentTransactionUUID p" and p = p and address = address
        and m = m and rs = "txReservations p"] ok assms(2,3) by auto
  have "own (currentTransactionUUID p) m1 c = {#}" for c
    using c(2) ok(4) [of c] by (simp add: settledTo_def mset_listOf)
  then show ?thesis
    using c by (auto simp: commit_def Let_def tx_ok_def settledTo_def listed_def)
qed

lemma commit_any_storage:
  assumes "tx_ok (p, m)" and "\<forall>c \<in> set (keys (txReservations p)). \<exists>a. address c = Inr a"
    and "settlingFits (txReservations p) m"
  shows "\<exists>p' m' new. commit address storageOk (p, m) = (if storageOk then Inr () else Inl IOError, p', m') \<and>
    events p' = events p @ new \<and> (SaveVotes \<in> set new \<longleftrightarrow> storageOk) \<and>
    (DeleteTransactionRecord (currentTransactionUUID p) \<in> set new \<longleftrightarrow> storageOk) \<and> tx_ok (p', m') \<and>
    txReservations p' = [] \<and> currentTransactionUUID p' = currentTransactionUUID p \<and>
    settledTo (currentTransactionUUID p) m m' (listOf (txReservations p))"
proof -
  note ok = tx_okD [OF assms(1)]
  let ?new = "map (\<lambda>(c, es). TrustLineActionSignal c (mDirection (snd (last es)) = Outgoing)) (txReservations p) @
    [ResetInitiatorCache, ClearCashes]"
  obtain p1 m1 where c: "commitNodes address (txReservations p) (p, m) = (Inr (), p1, m1)"
    "settledTo (currentTransactionUUID p) m m1 (listOf (txReservations p))"
    "currentTransactionUUID p1 = currentTransactionUUID p"
    "events p1 = events p @ map (\<lambda>(c, es). TrustLineActionSignal c (mDirection (snd (last es)) = Outgoing)) (txReservations p)"
    using commitNodes_spec [where u = "currentTransactionUUID p" and p = p and address = address
        and m = m and rs = "txReservations p"] ok assms(2,3) by auto
  have "own (currentTransactionUUID p) m1 c = {#}" for c
    using c(2) ok(4) [of c] by (simp add: settledTo_def mset_listOf)
  then have tx: "tx_ok (p1\<lparr>txReservations := [], events := es\<rparr>, m1)" for es
    using c(2,3) by (auto simp: tx_ok_def settledTo_def listed_def)
  show ?thesis
  proof (cases storageOk)
    case True
    then show ?thesis
      using c tx [of "events p1 @ [ResetInitiatorCache, ClearCashes] @ [SaveVotes, DeleteTransactionRecord (currentTransactionUUID p1),
          TransactionCommittedObservingSignal (currentTransactionUUID p1) (mMaximalClaimingBlockNumber p1)]"]
      by (simp add: commit_def Let_def)
  next
    case False
    have "SaveVotes \<notin> set ?new" "DeleteTransactionRecord (currentTransactionUUID p) \<notin> set ?new" by auto
    then show ?thesis
      using False c tx [of "events p1 @ [ResetInitiatorCache, ClearCashes]"]
      by (simp add: commit_def Let_def)
  qed
qed

section \<open>Several transactions on one manager\<close>

text \<open>
  The steps a payment transaction makes, and a node that runs several payments over the same trust
  lines, interleaved in any order. A transaction starts with an identifier that has no reservation
  and no other user, and ends with an empty list.
\<close>

inductive payment_step :: "PaymentState \<Rightarrow> PaymentState \<Rightarrow> bool" where
  make_outgoing: "reserveOutgoingAmount_tx c a pathID s = (res, s') \<Longrightarrow> payment_step s s'"
| make_incoming: "reserveIncomingAmount_tx c a pathID s = (res, s') \<Longrightarrow> payment_step s s'"
| shorten: "(pathID, r) \<in> set (entries (fst s) c) \<Longrightarrow> shortageReservation c r a pathID s = (res, s') \<Longrightarrow>
    payment_step s s'"
| drop_path: "dropNodeReservationsOnPath pathID s = (res, s') \<Longrightarrow> payment_step s s'"
| roll_back_path: "rollBackPath pathID s = (res, s') \<Longrightarrow> payment_step s s'"
| update_all: "updateReservations finalAmounts s = (res, s') \<Longrightarrow> payment_step s s'"
| roll_back: "rollBack s = (res, s') \<Longrightarrow> payment_step s s'"
| commit_all: "(\<And>c. c \<in> set (keys (txReservations (fst s))) \<Longrightarrow>
      \<exists>a. address c = (Inr a :: unit result)) \<Longrightarrow>
    settlingFits (txReservations (fst s)) (snd s) \<Longrightarrow> commit address True s = (res, s') \<Longrightarrow>
    payment_step s s'"

lemma payment_step_ok:
  assumes "payment_step s s'" and "tx_ok s"
  shows "tx_ok s' \<and> currentTransactionUUID (fst s') = currentTransactionUUID (fst s) \<and>
    (\<forall>u c. u \<noteq> currentTransactionUUID (fst s) \<longrightarrow> own u (snd s') c = own u (snd s) c)"
  using assms
proof (induction rule: payment_step.induct)
  case (make_outgoing c a pathID s res s')
  then show ?case using reserve_kept [of s c a pathID res s'] by (simp add: tx_kept_def)
next
  case (make_incoming c a pathID s res s')
  then show ?case using reserve_kept [of s c a pathID res s'] by (simp add: tx_kept_def)
next
  case (shorten pathID r s c a res s')
  then show ?case
    using shortage_as_kept [of s pathID r c "\<lambda>_. pathID" a res s'] by (simp add: shortageReservation_def tx_kept_def)
next
  case (drop_path pathID s res s')
  then show ?case using dropPath_ok [of "fst s" "snd s" pathID] by (cases s) auto
next
  case (roll_back_path pathID s res s')
  then show ?case using rollBackPath_kept [of s pathID res s'] by (simp add: tx_kept_def)
next
  case (update_all finalAmounts s res s')
  then show ?case using updateReservations_kept [of s finalAmounts res s'] by (simp add: tx_kept_def)
next
  case (roll_back s res s')
  then show ?case using rollBack_kept [of s res s'] by (simp add: tx_kept_def)
next
  case (commit_all s address res s')
  then show ?case
    using commit_ok [of "fst s" "snd s" address] by (cases s) (auto simp: settledTo_def)
qed

inductive node_step :: "Payment list \<times> TrustLinesManager \<Rightarrow> Payment list \<times> TrustLinesManager \<Rightarrow> bool" where
  act: "payment_step (p, m) (p', m') \<Longrightarrow> node_step (ps @ p # qs, m) (ps @ p' # qs, m')"
| start: "u \<notin> currentTransactionUUID ` set ps \<Longrightarrow> \<not> isReservationsPresentConsiderTransaction m u \<Longrightarrow>
    node_step (ps, m) (ps @ [newPayment u gateway unset], m)"
| finish: "txReservations p = [] \<Longrightarrow> node_step (ps @ p # qs, m) (ps @ qs, m)"

definition node_ok :: "Payment list \<times> TrustLinesManager \<Rightarrow> bool" where
  "node_ok = (\<lambda>(ps, m). manager_ok m \<and> distinct (map currentTransactionUUID ps) \<and>
     (\<forall>p \<in> set ps. tx_ok (p, m)))"

lemma tx_ok_other:
  assumes "tx_ok (q, m)" and "manager_ok m'" and "\<And>c. own (currentTransactionUUID q) m' c = own (currentTransactionUUID q) m c"
  shows "tx_ok (q, m')"
  using assms by (auto simp: tx_ok_def)

lemma node_step_ok: "node_step s t \<Longrightarrow> node_ok s \<Longrightarrow> node_ok t"
proof (induction rule: node_step.induct)
  case (act p m p' m' ps qs)
  have tx: "tx_ok (p, m)" using act by (simp add: node_ok_def)
  have new: "tx_ok (p', m')" "currentTransactionUUID p' = currentTransactionUUID p"
    and others: "\<And>u c. u \<noteq> currentTransactionUUID p \<Longrightarrow> own u m' c = own u m c"
    using payment_step_ok [OF act(1) tx] by auto
  have "tx_ok (q, m')" if "q \<in> set ps \<union> set qs" for q
  proof (rule tx_ok_other)
    show "tx_ok (q, m)" using act(2) that by (auto simp: node_ok_def)
    show "manager_ok m'" using new(1) by (simp add: tx_ok_def)
    have "currentTransactionUUID q \<in> currentTransactionUUID ` (set ps \<union> set qs)" using that by (rule imageI)
    moreover have "currentTransactionUUID p \<notin> currentTransactionUUID ` (set ps \<union> set qs)"
      using act(2) by (auto simp: node_ok_def)
    ultimately have "currentTransactionUUID q \<noteq> currentTransactionUUID p" by metis
    then show "own (currentTransactionUUID q) m' c = own (currentTransactionUUID q) m c" for c
      by (rule others)
  qed
  then show ?case using act(2) new by (auto simp: node_ok_def tx_ok_def)
next
  case (start u ps m gateway unset)
  have "own u m c = {#}" for c
    using start(2,3) own_present [of m u] by (auto simp: node_ok_def)
  then show ?case using start by (auto simp: node_ok_def tx_ok_def newPayment_def listed_def)
qed (auto simp: node_ok_def)

interpretation node_run: step_invariant node_step node_ok
  by unfold_locales (rule node_step_ok)

section \<open>Properties\<close>

definition samplePayment :: Payment where
  "samplePayment = (newPayment 5 False 0)\<lparr>txReservations := [(7, [(1, sampleReservation)])]\<rparr>"

lemma samplePayment_fields [simp]:
  "currentTransactionUUID samplePayment = 5" "txReservations samplePayment = [(7, [(1, sampleReservation)])]"
  by (simp_all add: samplePayment_def newPayment_def)

lemma samplePayment_ok: "tx_ok (samplePayment, sampleManager)"
proof -
  have "held_by sampleManager c =
      (if c = 7 then [sampleReservation, incomingReservation] else [])" for c
    by (simp add: sampleHandler_eq reservations_def incomingReservation_def)
  then have "own 5 sampleManager c = (if c = 7 then {#sampleReservation#} else {#})" for c
    by (simp add: own_def sampleReservation_def incomingReservation_def)
  then show ?thesis by (simp add: tx_ok_def listed_def)
qed

lemma own_rest: "own u m c = {#} \<Longrightarrow> r \<in> set (held_by m c) \<Longrightarrow> mTransactionUUID r \<noteq> u"
  by (simp add: own_unused)

text \<open>C1: several payments share the trust lines of a node and interleave their steps (reserving,
  shortening, dropping paths, rolling back, committing, starting, finishing) in any order. In every
  reachable state any of them can be rolled back: no exception is thrown, no reservation of it is
  left, the trust lines are untouched, and the reservations of every other transaction are the same.\<close>

theorem rollback_any_time:
  assumes "node_ok s" and "node_step\<^sup>*\<^sup>* s (ps, m)" and "p \<in> set ps"
  shows "\<exists>p' m'. rollBack (p, m) = (Inr (), (p', m')) \<and> txReservations p' = [] \<and>
    \<not> isReservationsPresentConsiderTransaction m' (currentTransactionUUID p) \<and>
    mTrustLines m' = mTrustLines m \<and> manager_ok m' \<and>
    (\<forall>u c. u \<noteq> currentTransactionUUID p \<longrightarrow> own u m' c = own u m c)"
proof -
  have "node_ok (ps, m)" using node_run.steps_inv [OF assms(2,1)] .
  then have tx: "tx_ok (p, m)" using assms(3) by (simp add: node_ok_def)
  obtain m' where m': "rollBack (p, m) = (Inr (), p\<lparr>txReservations := []\<rparr>, m')"
    "tx_ok (p\<lparr>txReservations := []\<rparr>, m')" "mTrustLines m' = mTrustLines m"
    "\<forall>u c. u \<noteq> currentTransactionUUID p \<longrightarrow> own u m' c = own u m c"
    using rollBack_ok [OF tx] by blast
  have "\<not> isReservationsPresentConsiderTransaction m' (currentTransactionUUID p)"
    using m'(2) own_present [of m' "currentTransactionUUID p"]
    by (auto simp: tx_ok_def listed_def)
  with m' show ?thesis by (auto simp: tx_ok_def)
qed

theorem rollback_any_time_witness:
  "\<exists>p' m'. rollBack (samplePayment, sampleManager) = (Inr (), (p', m')) \<and>
     \<not> isReservationsPresentConsiderTransaction m' 5"
proof -
  have "node_ok ([samplePayment], sampleManager)" using samplePayment_ok by (simp add: node_ok_def)
  from rollback_any_time [OF this rtranclp.rtrancl_refl] show ?thesis by auto
qed



text \<open>C19: dropping a path. \<open>dropNodeReservationsOnPath\<close> never throws on a transaction in step with
  its manager; it removes exactly the reservations of that path, from the list and from the manager,
  and leaves no neighbour with an empty list.\<close>

theorem drop_path_exact:
  assumes "tx_ok (p, m)"
  shows "\<exists>p' m'. dropNodeReservationsOnPath pathID (p, m) = (Inr (), (p', m')) \<and> tx_ok (p', m') \<and>
    (\<forall>c. mset (map snd (entries p' c)) =
         mset (map snd (filter (\<lambda>it. fst it \<noteq> pathID) (entries p c)))) \<and>
    (\<forall>(c, es) \<in> set (txReservations p'). es \<noteq> [] \<and> (\<forall>it \<in> set es. fst it \<noteq> pathID)) \<and>
    (\<forall>u c. u \<noteq> currentTransactionUUID p \<longrightarrow> own u m' c = own u m c)"
proof -
  note ok = tx_okD [OF assms]
  obtain m' where m': "dropNodeReservationsOnPath pathID (p, m) =
      (Inr (), p\<lparr>txReservations := keepOff pathID (txReservations p)\<rparr>, m')"
    "tx_ok (p\<lparr>txReservations := keepOff pathID (txReservations p)\<rparr>, m')"
    "\<forall>u c. u \<noteq> currentTransactionUUID p \<longrightarrow> own u m' c = own u m c"
    using dropPath_ok [OF assms] by blast
  let ?p' = "p\<lparr>txReservations := keepOff pathID (txReservations p)\<rparr>"
  have split: "mset (map snd es) - onPath pathID es = mset (map snd (filter (\<lambda>it. fst it \<noteq> pathID) es))" for es
  proof -
    have "mset (map snd es) = onPath pathID es + mset (map snd (filter (\<lambda>it. fst it \<noteq> pathID) es))"
      by (induction es) (auto simp: onPath_def)
    then show ?thesis by simp
  qed
  have "mset (map snd (entries ?p' c)) = mset (map snd (filter (\<lambda>it. fst it \<noteq> pathID) (entries p c)))" for c
    using listed_keepOff [OF ok(2), of pathID c] split
    by (simp add: listed_entries [symmetric])
      (simp add: listed_def goneOn_def entries_def split: option.splits)
  moreover have "es \<noteq> [] \<and> (\<forall>it \<in> set es. fst it \<noteq> pathID)"
    if "(c, es) \<in> set (txReservations ?p')" for c es
    using that by (auto simp: keepOff_def)
  ultimately show ?thesis using m' by auto
qed

theorem drop_path_exact_witness:
  "\<exists>p' m'. dropNodeReservationsOnPath 1 (samplePayment, sampleManager) = (Inr (), (p', m')) \<and>
     entries p' 7 = []"
  using drop_path_exact [OF samplePayment_ok, of 1] by (force simp: entries_def)

end
