(* ===== verification/Payment_Voting.thy ===== *)
theory Payment_Voting
  imports Base_Payment
begin

text \<open>
  The voting and recovery stages of
  \<^verbatim>\<open>src/src/core/transactions/transactions/regular/payments/base/BasePaymentTransaction.cpp\<close>, run by
  every participant of a payment: checking the public keys, voting, checking the votes, and asking
  the other participants when the votes do not come.

  The state is the payment with its manager (\<open>Base_Payment\<close>) and the fields the stages read and
  write. Messages to other nodes are collected in \<open>outbox\<close>. A contractor is the list of its
  addresses, which is what the overloaded comparison of \<^verbatim>\<open>Contractor.cpp\<close> compares. Keys, hashes
  and signatures are bytes; what the cryptography and the database answer is the record
  \<open>VoteEnv\<close>, a parameter. A null pointer that the code dereferences is \<open>UndefinedBehaviour\<close>.
\<close>

type_synonym PaymentNodeID = "16 word"
type_synonym Contractor = "string list"
type_synonym PublicKey = "8 word list"
type_synonym KeyHash = "8 word list"
type_synonym Signature = "8 word list"

datatype Stage =
    Coordinator_Initialization
  | Coordinator_ReceiverResourceProcessing
  | Coordinator_ReceiverResponseProcessing
  | Coordinator_AmountReservation
  | Coordinator_ShortPathAmountReservationResponseProcessing
  | Coordinator_PreviousNeighborRequestProcessing
  | Coordinator_FinalAmountsConfigurationConfirmation
  | Receiver_CoordinatorRequestApproving
  | Receiver_AmountReservationsProcessing
  | IntermediateNode_PreviousNeighborRequestProcessing
  | IntermediateNode_CoordinatorRequestProcessing
  | IntermediateNode_NextNeighborResponseProcessing
  | IntermediateNode_ReservationProlongation
  | Cycles_WaitForOutgoingAmountReleasing
  | Cycles_WaitForIncomingAmountReleasing
  | Common_ObservingBlockNumberProcessing
  | Common_Voting
  | Common_VotesChecking
  | Common_FinalPathConfigurationChecking
  | Common_Recovery
  | Common_Observing
  | Common_ObservingReject
  | Common_RollbackByOtherTransaction
  | Common_Uncertain

datatype VotesRecoveryStage =
    Common_PrepareNodesListToCheckVotes
  | Common_CheckCoordinatorVotesStage
  | Common_CheckIntermediateNodeVotesStage

datatype VoteMessage =
    ParticipantsPublicKeysMessage Contractor "(PaymentNodeID \<times> PublicKey) list"
  | ParticipantsVotesMessage Contractor "(PaymentNodeID \<times> Signature) list"
  | OtherMessage nat

datatype MessageType = Payments_ParticipantsPublicKeys | Payments_ParticipantsVotes | OtherType nat

datatype SentMessage =
    ParticipantVoteMessage Contractor "Signature option"
  | VotesStatusRequestMessage Contractor
  | ObservingClaim
  | RemovedAllData
  | PaymentSavedIntoHistory
  | BuildCyclesSignals "ContractorID set"

datatype StepResult =
    ResultDone
  | ResultWaitForMessageTypes "MessageType list" "32 word"
  | ResultAwakeAfterMilliseconds "32 word"
  | ResultContinuePreviousState

text \<open>The data every participant signs; the \<open>contractor\<close> argument of the code is not used by it.\<close>

type_synonym VotesData = "64 word \<times> TransactionUUID \<times> 16 word \<times> PaymentNodeID list"

text \<open>
  What the stages ask of the rest of the node. \<open>approve\<close> is virtual: a role that overrides it first adds
  up the committed amount (\<open>committedAmount\<close>, which may overflow) and in the end tells the cycles
  subsystem about the contractors (\<open>signalsCycles\<close>); the base class does neither.
\<close>

record VoteEnv =
  signatureCheck :: "Signature \<Rightarrow> VotesData \<Rightarrow> PublicKey \<Rightarrow> bool"
  publicKeyHash :: "PublicKey \<Rightarrow> KeyHash"
  selfContractor :: Contractor
  saveTransaction :: "unit result"
  signPaymentTransaction :: "VotesData \<Rightarrow> Signature option result"
  savePayment :: "unit result"
  commitStorageOk :: bool
  contractorAddress :: "ContractorID \<Rightarrow> unit result"
  committedAmount :: "Payment \<Rightarrow> TrustLineAmount result"
  signalsCycles :: bool

record VoteState =
  payment :: Payment
  linesManager :: TrustLinesManager
  mStep :: Stage
  mVotesRecoveryStep :: VotesRecoveryStage
  mTransactionIsVoted :: bool
  mCountRecoveryAttempts :: "8 word"
  mNodesToCheckVotes :: "Contractor list"
  mCurrentNodeToCheckVotes :: "Contractor option"
  mPaymentParticipants :: "(PaymentNodeID \<times> Contractor) list"
  mParticipantsPublicKeysHashes :: "(string \<times> PaymentNodeID \<times> KeyHash) list"
  mParticipantsPublicKeys :: "(PaymentNodeID \<times> PublicKey) list"
  mParticipantsSignatures :: "(PaymentNodeID \<times> Signature) list"
  mSignedTransaction :: "Signature option"
  mContext :: "VoteMessage list"
  outbox :: "SentMessage list"

definition kCoordinatorPaymentNodeID :: PaymentNodeID where
  "kCoordinatorPaymentNodeID = 0"

definition kMaxRecoveryAttempts :: "8 word" where
  "kMaxRecoveryAttempts = 3"

definition kWaitMillisecondsToTryRecoverAgain :: "32 word" where
  "kWaitMillisecondsToTryRecoverAgain = 30000"

definition kMaxMessageTransferLagMSec :: "32 word" where
  "kMaxMessageTransferLagMSec = 1500"

definition maxNetworkDelay :: "16 word \<Rightarrow> 32 word" where
  "maxNetworkDelay totalHopsCount = ucast totalHopsCount * kMaxMessageTransferLagMSec"

definition kAllowableBlockNumberDifference :: "64 word" where
  "kAllowableBlockNumberDifference = 2"

section \<open>Checks\<close>

definition typeID :: "VoteMessage \<Rightarrow> MessageType" where
  "typeID message = (case message of
     ParticipantsPublicKeysMessage _ _ \<Rightarrow> Payments_ParticipantsPublicKeys
   | ParticipantsVotesMessage _ _ \<Rightarrow> Payments_ParticipantsVotes
   | OtherMessage n \<Rightarrow> OtherType n)"

definition contextIsValid :: "MessageType \<Rightarrow> VoteState \<Rightarrow> bool" where
  "contextIsValid messageType s =
     (if mContext s = [] then False
      else if length (mContext s) > 1 then False
      else if typeID (hd (mContext s)) \<noteq> messageType then False
      else True)"

definition getSerializedParticipantsVotesData :: "VoteState \<Rightarrow> VotesData" where
  "getSerializedParticipantsVotesData s =
     (mMaximalClaimingBlockNumber (payment s), currentTransactionUUID (payment s),
      of_nat (length (mPaymentParticipants s)), map fst (mPaymentParticipants s))"

definition checkPublicKeysAppropriate :: "VoteEnv \<Rightarrow> VoteState \<Rightarrow> bool" where
  "checkPublicKeysAppropriate env s =
     (if length (mParticipantsPublicKeys s) \<noteq> length (mParticipantsPublicKeysHashes s) + 1 then False
      else list_all (\<lambda>(address, nodeID, hash).
             case map_of (mParticipantsPublicKeys s) nodeID of
               None \<Rightarrow> False
             | Some publicKey \<Rightarrow> publicKeyHash env publicKey = hash)
             (mParticipantsPublicKeysHashes s))"

text \<open>A missing signature is only logged.\<close>

definition checkSignaturesAppropriate :: "VoteState \<Rightarrow> bool" where
  "checkSignaturesAppropriate s =
     (if length (mParticipantsSignatures s) \<noteq> length (mParticipantsPublicKeys s) then False else True)"

definition checkAllPublicKeyHashesProperly :: "VoteState \<Rightarrow> bool" where
  "checkAllPublicKeyHashesProperly s =
     list_all (\<lambda>(nodeID, contractor).
       if nodeID = kCoordinatorPaymentNodeID then True
       else (case map_of (mParticipantsPublicKeysHashes s) (hd contractor) of
               None \<Rightarrow> False
             | Some (hashNodeID, hash) \<Rightarrow> hashNodeID = nodeID))
       (mPaymentParticipants s)"

definition checkMaxClaimingBlockNumber :: "64 word \<Rightarrow> VoteState \<Rightarrow> bool" where
  "checkMaxClaimingBlockNumber maxClaimingBlockNumberOnOwnSide s =
     (let own = mMaximalClaimingBlockNumber (payment s)
      in if own > maxClaimingBlockNumberOnOwnSide
         then own - maxClaimingBlockNumberOnOwnSide \<le> kAllowableBlockNumberDifference
         else if own < maxClaimingBlockNumberOnOwnSide
         then maxClaimingBlockNumberOnOwnSide - own \<le> kAllowableBlockNumberDifference
         else True)"

definition isVotingStage :: "VoteState \<Rightarrow> bool" where
  "isVotingStage s \<longleftrightarrow>
     mStep s = Common_Voting \<or> mStep s = Common_VotesChecking \<or> mStep s = Common_Recovery"

section \<open>Shortcuts\<close>

definition send :: "SentMessage \<Rightarrow> VoteState \<Rightarrow> VoteState" where
  "send message s = s\<lparr>outbox := outbox s @ [message]\<rparr>"

definition onPayment ::
  "(PaymentState \<Rightarrow> unit result \<times> PaymentState) \<Rightarrow> VoteState \<Rightarrow> unit result \<times> VoteState" where
  "onPayment f s =
     (case f (payment s, linesManager s) of
        (res, p, m) \<Rightarrow> (res, s\<lparr>payment := p, linesManager := m\<rparr>))"

definition reject :: "VoteState \<Rightarrow> StepResult result \<times> VoteState" where
  "reject s = bindS (onPayment rollBack s) (\<lambda>_. returning ResultDone)"

definition approve :: "VoteEnv \<Rightarrow> VoteState \<Rightarrow> StepResult result \<times> VoteState" where
  "approve env s =
     bindS (committedAmount env (payment s), s) (\<lambda>_ s.
     bindS (onPayment (commit (contractorAddress env) (commitStorageOk env)) s) (\<lambda>_ s.
       returning ResultDone
         (let s = send PaymentSavedIntoHistory s
          in if signalsCycles env then send (BuildCyclesSignals (mContractorsForCycles (payment s))) s else s)))"

section \<open>Recovery\<close>

definition runObservingStage :: "VoteEnv \<Rightarrow> VoteState \<Rightarrow> StepResult result \<times> VoteState" where
  "runObservingStage env s =
     (let s = send ObservingClaim s
      in bindS (saveTransaction env, s) (\<lambda>_. returning ResultDone))"

definition sendVotesRequestMessageAndWaitForResponse ::
  "Contractor \<Rightarrow> VoteState \<Rightarrow> StepResult result \<times> VoteState" where
  "sendVotesRequestMessageAndWaitForResponse contractor s =
     returning (ResultWaitForMessageTypes [Payments_ParticipantsVotes] (maxNetworkDelay 2))
       (send (VotesStatusRequestMessage contractor) s)"

definition processNextNodeToCheckVotes :: "VoteEnv \<Rightarrow> VoteState \<Rightarrow> StepResult result \<times> VoteState" where
  "processNextNodeToCheckVotes env s =
     (if mNodesToCheckVotes s = [] then
        (let s = s\<lparr>mCountRecoveryAttempts := mCountRecoveryAttempts s + 1\<rparr>
         in if mCountRecoveryAttempts s \<ge> kMaxRecoveryAttempts
            then runObservingStage env (s\<lparr>mStep := Common_Observing\<rparr>)
            else returning (ResultAwakeAfterMilliseconds kWaitMillisecondsToTryRecoverAgain)
                   (s\<lparr>mVotesRecoveryStep := Common_PrepareNodesListToCheckVotes\<rparr>))
      else
        (let node = last (mNodesToCheckVotes s)
         in sendVotesRequestMessageAndWaitForResponse node
              (s\<lparr>mVotesRecoveryStep := Common_CheckIntermediateNodeVotesStage,
                 mCurrentNodeToCheckVotes := Some node,
                 mNodesToCheckVotes := butlast (mNodesToCheckVotes s)\<rparr>)))"

definition runPrepareListNodesToCheckNodes ::
  "VoteEnv \<Rightarrow> VoteState \<Rightarrow> StepResult result \<times> VoteState" where
  "runPrepareListNodesToCheckNodes env s =
     (let others = filter (\<lambda>(nodeID, contractor). contractor \<noteq> selfContractor env) (mPaymentParticipants s);
          coordinator = map_of others kCoordinatorPaymentNodeID;
          s = s\<lparr>mNodesToCheckVotes := mNodesToCheckVotes s @
                  map snd (filter (\<lambda>(nodeID, _). nodeID \<noteq> kCoordinatorPaymentNodeID) others),
                mVotesRecoveryStep := Common_CheckCoordinatorVotesStage\<rparr>
      in case coordinator of
           None \<Rightarrow> processNextNodeToCheckVotes env s
         | Some contractor \<Rightarrow> sendVotesRequestMessageAndWaitForResponse contractor s)"

text \<open>\<open>recover\<close> enters \<open>runVotesRecoveryParentStage\<close> with the stage it just set.\<close>

definition recover :: "VoteEnv \<Rightarrow> VoteState \<Rightarrow> StepResult result \<times> VoteState" where
  "recover env s =
     (if mTransactionIsVoted s
      then runPrepareListNodesToCheckNodes env
             (s\<lparr>mStep := Common_Recovery, mVotesRecoveryStep := Common_PrepareNodesListToCheckVotes,
                mContext := [], mCountRecoveryAttempts := 0\<rparr>)
      else bindS (onPayment rollBack s) (\<lambda>_. returning ResultDone))"

section \<open>Checking the votes\<close>

text \<open>The first participant whose signature is wrong, if any; \<open>Inl\<close> when a map has no entry for it.\<close>

fun firstWrongSignature ::
  "VoteEnv \<Rightarrow> VoteState \<Rightarrow> (PaymentNodeID \<times> Contractor) list \<Rightarrow> Contractor option result" where
  "firstWrongSignature env s [] = Inr None"
| "firstWrongSignature env s ((nodeID, contractor) # rest) =
     (if contractor = selfContractor env then firstWrongSignature env s rest
      else if nodeID = kCoordinatorPaymentNodeID then firstWrongSignature env s rest
      else (case (map_of (mParticipantsPublicKeys s) nodeID, map_of (mParticipantsSignatures s) nodeID) of
              (Some publicKey, Some signature) \<Rightarrow>
                if \<not> signatureCheck env signature (getSerializedParticipantsVotesData s) publicKey
                then Inr (Some contractor)
                else firstWrongSignature env s rest
            | _ \<Rightarrow> Inl UndefinedBehaviour))"

text \<open>A wrong signature of the coordinator starts the recovery and then goes on: no \<^verbatim>\<open>return\<close>.\<close>

definition processParticipantsVotesMessage ::
  "VoteEnv \<Rightarrow> VoteState \<Rightarrow> StepResult result \<times> VoteState" where
  "processParticipantsVotesMessage env s =
     (if \<not> checkSignaturesAppropriate s then recover env s
      else case (map_of (mParticipantsSignatures s) kCoordinatorPaymentNodeID,
                 map_of (mParticipantsPublicKeys s) kCoordinatorPaymentNodeID) of
        (Some coordinatorSignature, Some coordinatorPublicKey) \<Rightarrow>
          bindS (if \<not> signatureCheck env coordinatorSignature (getSerializedParticipantsVotesData s)
                       coordinatorPublicKey
                 then recover env s else returning ResultDone s) (\<lambda>_ s.
            case firstWrongSignature env s (mPaymentParticipants s) of
              Inl e \<Rightarrow> throwing e s
            | Inr (Some _) \<Rightarrow> recover env s
            | Inr None \<Rightarrow> approve env s)
      | _ \<Rightarrow> throwing UndefinedBehaviour s)"

definition sendSignedTransaction :: "Contractor \<Rightarrow> VoteState \<Rightarrow> StepResult result \<times> VoteState" where
  "sendSignedTransaction coordinator s =
     returning (ResultWaitForMessageTypes
                  [Payments_ParticipantsVotes, Payments_ParticipantsPublicKeys] (maxNetworkDelay 9))
       (send (ParticipantVoteMessage coordinator (mSignedTransaction s)) s)"

definition runVotesConsistencyCheckingStage ::
  "VoteEnv \<Rightarrow> VoteState \<Rightarrow> StepResult result \<times> VoteState" where
  "runVotesConsistencyCheckingStage env s =
     (case mContext s of
        [ParticipantsPublicKeysMessage coordinator _] \<Rightarrow>
          (let s = s\<lparr>mContext := []\<rparr>
           in case map_of (mPaymentParticipants s) kCoordinatorPaymentNodeID of
                None \<Rightarrow> throwing UndefinedBehaviour s
              | Some known \<Rightarrow>
                  if coordinator \<noteq> known then returning ResultContinuePreviousState s
                  else if mSignedTransaction s = None then returning ResultContinuePreviousState s
                  else sendSignedTransaction coordinator s)
      | [ParticipantsVotesMessage _ participantsSignatures] \<Rightarrow>
          processParticipantsVotesMessage env
            (s\<lparr>mContext := [], mParticipantsSignatures := participantsSignatures\<rparr>)
      | _ \<Rightarrow> recover env s)"

definition runVotesCheckingStage :: "VoteEnv \<Rightarrow> VoteState \<Rightarrow> StepResult result \<times> VoteState" where
  "runVotesCheckingStage env s =
     (if mTransactionIsVoted s then runVotesConsistencyCheckingStage env s
      else case mContext s of
        [ParticipantsPublicKeysMessage coordinator publicKeys] \<Rightarrow>
          (let s = s\<lparr>mContext := []\<rparr>
           in case map_of (mPaymentParticipants s) kCoordinatorPaymentNodeID of
                None \<Rightarrow> throwing UndefinedBehaviour s
              | Some known \<Rightarrow>
                  if coordinator \<noteq> known then returning ResultContinuePreviousState s
                  else
                    (let s = s\<lparr>mParticipantsPublicKeys := publicKeys\<rparr>
                     in if \<not> checkPublicKeysAppropriate env s
                        then reject (send (ParticipantVoteMessage coordinator None) (send RemovedAllData s))
                        else
                          (case bindS (saveTransaction env, s) (\<lambda>_ s.
                                bindS (signPaymentTransaction env (getSerializedParticipantsVotesData s), s)
                                  (\<lambda>signature s. case signature of
                                     None \<Rightarrow> returning False (s\<lparr>mSignedTransaction := None\<rparr>)
                                   | Some sig \<Rightarrow>
                                       bindS (savePayment env,
                                              s\<lparr>mSignedTransaction := Some sig, mTransactionIsVoted := True\<rparr>)
                                         (\<lambda>_. returning True)))
                           of (Inr True, s) \<Rightarrow>
                                sendSignedTransaction coordinator (s\<lparr>mStep := Common_VotesChecking\<rparr>)
                            | (Inr False, s) \<Rightarrow> reject (send RemovedAllData s)
                            | (Inl IOError, s) \<Rightarrow>
                                reject (send (ParticipantVoteMessage coordinator None) (send RemovedAllData s))
                            | (Inl e, s) \<Rightarrow> throwing e s)))
      | _ \<Rightarrow> reject (send RemovedAllData s))"

section \<open>The stages of the recovery\<close>

definition runCheckCoordinatorVotesStage ::
  "VoteEnv \<Rightarrow> VoteState \<Rightarrow> StepResult result \<times> VoteState" where
  "runCheckCoordinatorVotesStage env s =
     (case mContext s of
        [ParticipantsVotesMessage sender participantsSignatures] \<Rightarrow>
          (let s = s\<lparr>mContext := []\<rparr>
           in case map_of (mPaymentParticipants s) kCoordinatorPaymentNodeID of
                None \<Rightarrow> throwing UndefinedBehaviour s
              | Some known \<Rightarrow>
                  if sender \<noteq> known then returning ResultContinuePreviousState s
                  else if participantsSignatures = [] then processNextNodeToCheckVotes env s
                  else processParticipantsVotesMessage env
                         (s\<lparr>mParticipantsSignatures := participantsSignatures\<rparr>))
      | [] \<Rightarrow> processNextNodeToCheckVotes env s
      | _ \<Rightarrow> returning ResultContinuePreviousState (s\<lparr>mContext := []\<rparr>))"

definition runCheckIntermediateNodeVotesStage ::
  "VoteEnv \<Rightarrow> VoteState \<Rightarrow> StepResult result \<times> VoteState" where
  "runCheckIntermediateNodeVotesStage env s =
     (case mContext s of
        [ParticipantsVotesMessage sender participantsSignatures] \<Rightarrow>
          (let s = s\<lparr>mContext := []\<rparr>
           in case mCurrentNodeToCheckVotes s of
                None \<Rightarrow> throwing UndefinedBehaviour s
              | Some current \<Rightarrow>
                  if sender \<noteq> current then returning ResultContinuePreviousState s
                  else if participantsSignatures = [] then processNextNodeToCheckVotes env s
                  else processParticipantsVotesMessage env
                         (s\<lparr>mParticipantsSignatures := participantsSignatures\<rparr>))
      | [] \<Rightarrow> processNextNodeToCheckVotes env s
      | _ \<Rightarrow> returning ResultContinuePreviousState (s\<lparr>mContext := []\<rparr>))"

definition runVotesRecoveryParentStage ::
  "VoteEnv \<Rightarrow> VoteState \<Rightarrow> StepResult result \<times> VoteState" where
  "runVotesRecoveryParentStage env s =
     (case mVotesRecoveryStep s of
        Common_PrepareNodesListToCheckVotes \<Rightarrow> runPrepareListNodesToCheckNodes env s
      | Common_CheckCoordinatorVotesStage \<Rightarrow> runCheckCoordinatorVotesStage env s
      | Common_CheckIntermediateNodeVotesStage \<Rightarrow> runCheckIntermediateNodeVotesStage env s)"

section \<open>The observing stages\<close>

definition runObservingResultStage :: "VoteEnv \<Rightarrow> VoteState \<Rightarrow> StepResult result \<times> VoteState" where
  "runObservingResultStage env s =
     (if mParticipantsSignatures s = [] then returning ResultDone (send ObservingClaim s)
      else processParticipantsVotesMessage env s)"

definition runObservingRejectTransaction :: "VoteState \<Rightarrow> StepResult result \<times> VoteState" where
  "runObservingRejectTransaction s =
     bindS (onPayment rollBack (send RemovedAllData s)) (\<lambda>_. returning ResultDone)"

section \<open>What the stages keep\<close>

lemma contextIsValid_iff:
  "contextIsValid Payments_ParticipantsVotes s \<longleftrightarrow> (\<exists>c v. mContext s = [ParticipantsVotesMessage c v])"
  "contextIsValid Payments_ParticipantsPublicKeys s \<longleftrightarrow>
     (\<exists>c v. mContext s = [ParticipantsPublicKeysMessage c v])"
  by (cases "mContext s"; cases "hd (mContext s)"; auto simp: contextIsValid_def typeID_def)+

lemma send_fields [simp]:
  "payment (send x s) = payment s" "linesManager (send x s) = linesManager s" "mStep (send x s) = mStep s"
  "mVotesRecoveryStep (send x s) = mVotesRecoveryStep s"
  "mTransactionIsVoted (send x s) = mTransactionIsVoted s"
  "mCountRecoveryAttempts (send x s) = mCountRecoveryAttempts s"
  "mNodesToCheckVotes (send x s) = mNodesToCheckVotes s"
  "mPaymentParticipants (send x s) = mPaymentParticipants s"
  "mParticipantsPublicKeys (send x s) = mParticipantsPublicKeys s"
  "mParticipantsSignatures (send x s) = mParticipantsSignatures s"
  "mContext (send x s) = mContext s" "outbox (send x s) = outbox s @ [x]"
  by (simp_all add: send_def)

lemma processNext_keeps:
  assumes "processNextNodeToCheckVotes env s = (res, s')"
  shows "payment s' = payment s \<and> linesManager s' = linesManager s \<and>
    mPaymentParticipants s' = mPaymentParticipants s \<and> mContext s' = mContext s \<and>
    mTransactionIsVoted s' = mTransactionIsVoted s \<and>
    mParticipantsPublicKeys s' = mParticipantsPublicKeys s \<and>
    mParticipantsSignatures s' = mParticipantsSignatures s \<and>
    (PaymentSavedIntoHistory \<in> set (outbox s') \<longrightarrow> PaymentSavedIntoHistory \<in> set (outbox s))"
  using assms
  by (auto simp: processNextNodeToCheckVotes_def Let_def runObservingStage_def bindS_def
      sendVotesRequestMessageAndWaitForResponse_def split: if_splits sum.splits)

lemma prepare_keeps:
  assumes "runPrepareListNodesToCheckNodes env s = (res, s')"
  shows "payment s' = payment s \<and> linesManager s' = linesManager s \<and>
    mPaymentParticipants s' = mPaymentParticipants s \<and> mContext s' = mContext s \<and>
    mTransactionIsVoted s' = mTransactionIsVoted s \<and>
    mParticipantsPublicKeys s' = mParticipantsPublicKeys s \<and>
    mParticipantsSignatures s' = mParticipantsSignatures s \<and>
    (PaymentSavedIntoHistory \<in> set (outbox s') \<longrightarrow> PaymentSavedIntoHistory \<in> set (outbox s))"
  using assms
  by (auto simp: runPrepareListNodesToCheckNodes_def Let_def
      sendVotesRequestMessageAndWaitForResponse_def split: option.splits dest!: processNext_keeps)

lemma dropAll_uuid: "rollBack (p, m) = (res, p', m') \<Longrightarrow> currentTransactionUUID p' = currentTransactionUUID p \<and>
    mMaximalClaimingBlockNumber p' = mMaximalClaimingBlockNumber p"
  by (auto simp: rollBack_def split: prod.splits sum.splits)

lemma recover_keeps:
  assumes "recover env s = (res, s')"
  shows "getSerializedParticipantsVotesData s' = getSerializedParticipantsVotesData s \<and>
    mPaymentParticipants s' = mPaymentParticipants s \<and>
    mParticipantsPublicKeys s' = mParticipantsPublicKeys s \<and>
    mParticipantsSignatures s' = mParticipantsSignatures s \<and>
    (PaymentSavedIntoHistory \<in> set (outbox s') \<longrightarrow> PaymentSavedIntoHistory \<in> set (outbox s)) \<and>
    (mTransactionIsVoted s \<longrightarrow> payment s' = payment s \<and> linesManager s' = linesManager s)"
proof (cases "mTransactionIsVoted s")
  case True
  then show ?thesis
    using assms by (auto simp: recover_def getSerializedParticipantsVotesData_def dest!: prepare_keeps)
next
  case False
  obtain r p m where roll: "rollBack (payment s, linesManager s) = (r, p, m)" by (metis surj_pair)
  have "s' = s\<lparr>payment := p, linesManager := m\<rparr>"
    using assms False roll by (cases r) (auto simp: recover_def onPayment_def)
  then show ?thesis
    using False dropAll_uuid [OF roll] by (simp add: getSerializedParticipantsVotesData_def)
qed

lemma firstWrongSignature_None:
  "firstWrongSignature env s ps = Inr None \<Longrightarrow> (nodeID, contractor) \<in> set ps \<Longrightarrow>
     contractor \<noteq> selfContractor env \<Longrightarrow> nodeID \<noteq> kCoordinatorPaymentNodeID \<Longrightarrow>
     \<exists>publicKey signature. map_of (mParticipantsPublicKeys s) nodeID = Some publicKey \<and>
       map_of (mParticipantsSignatures s) nodeID = Some signature \<and>
       signatureCheck env signature (getSerializedParticipantsVotesData s) publicKey"
  by (induction env s ps rule: firstWrongSignature.induct) (auto split: if_splits option.splits)

lemma process_approves:
  assumes "processParticipantsVotesMessage env s = (res, s')"
    and "PaymentSavedIntoHistory \<in> set (outbox s')" and "PaymentSavedIntoHistory \<notin> set (outbox s)"
  shows "\<exists>s1. firstWrongSignature env s1 (mPaymentParticipants s1) = Inr None \<and>
    getSerializedParticipantsVotesData s1 = getSerializedParticipantsVotesData s \<and>
    mPaymentParticipants s1 = mPaymentParticipants s \<and>
    mParticipantsPublicKeys s1 = mParticipantsPublicKeys s \<and>
    mParticipantsSignatures s1 = mParticipantsSignatures s"
proof -
  obtain r1 s1 where rec: "recover env s = (r1, s1)" by (meson surj_pair)
  note k = recover_keeps [OF rec]
  have app: "checkSignaturesAppropriate s"
  proof (rule ccontr)
    assume "\<not> checkSignaturesAppropriate s"
    then have "s' = s1" using assms(1) rec by (simp add: processParticipantsVotesMessage_def)
    then show False using k assms(2,3) by blast
  qed
  have "\<exists>sig key. map_of (mParticipantsSignatures s) kCoordinatorPaymentNodeID = Some sig \<and>
      map_of (mParticipantsPublicKeys s) kCoordinatorPaymentNodeID = Some key"
  proof (rule ccontr)
    assume no: "\<not> ?thesis"
    have "s' = s"
      using assms(1) app no
      by (cases "map_of (mParticipantsSignatures s) kCoordinatorPaymentNodeID";
          cases "map_of (mParticipantsPublicKeys s) kCoordinatorPaymentNodeID")
        (simp_all add: processParticipantsVotesMessage_def)
    then show False using assms(2,3) by simp
  qed
  then obtain sig key where sk: "map_of (mParticipantsSignatures s) kCoordinatorPaymentNodeID = Some sig"
    "map_of (mParticipantsPublicKeys s) kCoordinatorPaymentNodeID = Some key" by blast
  have main: ?thesis
    if "(case firstWrongSignature env t (mPaymentParticipants t) of
          Inl e \<Rightarrow> throwing e t | Inr (Some _) \<Rightarrow> recover env t | Inr None \<Rightarrow> approve env t) = (res, s')"
      and "t = s \<or> t = s1" for t
  proof -
    have t: "getSerializedParticipantsVotesData t = getSerializedParticipantsVotesData s"
      "mPaymentParticipants t = mPaymentParticipants s"
      "mParticipantsPublicKeys t = mParticipantsPublicKeys s"
      "mParticipantsSignatures t = mParticipantsSignatures s"
      "PaymentSavedIntoHistory \<notin> set (outbox t)"
      using that(2) k assms(3) by auto
    have "firstWrongSignature env t (mPaymentParticipants t) = Inr None"
      using that(1) assms(2) t(5) recover_keeps [of env t res s']
      by (auto split: sum.splits option.splits)
    with t show ?thesis by blast
  qed
  show ?thesis
  proof (cases "signatureCheck env sig (getSerializedParticipantsVotesData s) key")
    case True
    then show ?thesis using main [of s] assms(1) app sk by (simp add: processParticipantsVotesMessage_def)
  next
    case False
    then show ?thesis
      using main [of s1] assms app sk rec k
      by (cases r1) (auto simp: processParticipantsVotesMessage_def)
  qed
qed

section \<open>After the vote\<close>

text \<open>The stages of a payment that has voted, as every role calls them from its \<^verbatim>\<open>run\<close>; the observers deliver signatures by
  setting them and waking the payment.\<close>

definition runVotedStage :: "VoteEnv \<Rightarrow> VoteState \<Rightarrow> StepResult result \<times> VoteState" where
  "runVotedStage env s =
     (if mStep s = Common_VotesChecking then runVotesConsistencyCheckingStage env s
      else if mStep s = Common_Recovery then runVotesRecoveryParentStage env s
      else runObservingResultStage env s)"

inductive voted_step :: "VoteEnv \<Rightarrow> VoteState \<Rightarrow> VoteState \<Rightarrow> bool" for env where
  arrive: "voted_step env s (s\<lparr>mContext := messages\<rparr>)"
| observe: "mStep s = Common_Observing \<Longrightarrow> voted_step env s (s\<lparr>mParticipantsSignatures := signatures\<rparr>)"
| stage: "runVotedStage env s = (res, t) \<Longrightarrow> mStep s \<in> {Common_VotesChecking, Common_Recovery, Common_Observing} \<Longrightarrow>
    voted_step env s t"

definition votes_arrived :: "(PaymentNodeID \<times> Signature) list \<Rightarrow> VoteState \<Rightarrow> bool" where
  "votes_arrived votes s \<longleftrightarrow> (\<exists>sender. mContext s = [ParticipantsVotesMessage sender votes]) \<or>
     mStep s = Common_Observing \<and> mParticipantsSignatures s = votes"

definition signed_by_others :: "VoteEnv \<Rightarrow> (PaymentNodeID \<times> Signature) list \<Rightarrow> VoteState \<Rightarrow> bool" where
  "signed_by_others env votes s \<longleftrightarrow> (\<forall>(nodeID, contractor) \<in> set (mPaymentParticipants s).
     contractor \<noteq> selfContractor env \<longrightarrow> nodeID \<noteq> kCoordinatorPaymentNodeID \<longrightarrow>
       (\<exists>publicKey signature. map_of (mParticipantsPublicKeys s) nodeID = Some publicKey \<and>
          map_of votes nodeID = Some signature \<and>
          signatureCheck env signature (getSerializedParticipantsVotesData s) publicKey))"

lemma firstWrongSignature_cong:
  assumes "getSerializedParticipantsVotesData s' = getSerializedParticipantsVotesData s"
    and "mParticipantsPublicKeys s' = mParticipantsPublicKeys s" and "mParticipantsSignatures s' = mParticipantsSignatures s"
  shows "firstWrongSignature env s' ps = firstWrongSignature env s ps"
  using assms by (induction env s ps rule: firstWrongSignature.induct) (auto split: option.split)

lemma recover_returns:
  assumes "mTransactionIsVoted s"
  shows "\<exists>r s1. recover env s = (Inr r, s1) \<and> mStep s1 = Common_Recovery \<and> length (outbox s1) \<le> length (outbox s) + 1"
proof -
  have "\<not> kMaxRecoveryAttempts \<le> 0 + 1" unfolding kMaxRecoveryAttempts_def by unat_arith
  then show ?thesis
    using assms
    by (auto simp: recover_def runPrepareListNodesToCheckNodes_def Let_def sendVotesRequestMessageAndWaitForResponse_def
        processNextNodeToCheckVotes_def split: option.split)
qed

lemma recover_stays_voted: "recover env s = (res, s') \<Longrightarrow> mTransactionIsVoted s \<Longrightarrow> mTransactionIsVoted s'"
  by (auto simp: recover_def dest!: prepare_keeps)

lemma approve_voted: "approve env s = (res, s') \<Longrightarrow> mTransactionIsVoted s' = mTransactionIsVoted s"
  by (auto simp: approve_def onPayment_def bindS_def Let_def split: sum.splits prod.splits if_splits)

lemma approve_cong:
  assumes "payment s' = payment s" and "linesManager s' = linesManager s"
  shows "fst (approve env s') = fst (approve env s)"
    and "payment (snd (approve env s')) = payment (snd (approve env s))"
    and "linesManager (snd (approve env s')) = linesManager (snd (approve env s))"
  using assms by (auto simp: approve_def onPayment_def bindS_def Let_def split: sum.splits prod.splits)

lemma process_keeps:
  assumes "processParticipantsVotesMessage env s = (res, s')" and "mTransactionIsVoted s"
  shows "mTransactionIsVoted s' \<and>
    (payment s' = payment s \<and> linesManager s' = linesManager s \<or>
     firstWrongSignature env s (mPaymentParticipants s) = Inr None)"
proof -
  obtain r1 s1 where rec: "recover env s = (r1, s1)" by (meson surj_pair)
  note k = recover_keeps [OF rec]
  have s1: "mTransactionIsVoted s1" "payment s1 = payment s" "linesManager s1 = linesManager s"
    "firstWrongSignature env s1 (mPaymentParticipants s1) = firstWrongSignature env s (mPaymentParticipants s)"
    using recover_stays_voted [OF rec assms(2)] k assms(2) firstWrongSignature_cong [of s1 s env] by auto
  have main: ?thesis
    if "(case firstWrongSignature env t (mPaymentParticipants t) of
          Inl e \<Rightarrow> throwing e t | Inr (Some _) \<Rightarrow> recover env t | Inr None \<Rightarrow> approve env t) = (res, s')"
      and t: "mTransactionIsVoted t" "payment t = payment s" "linesManager t = linesManager s"
        "firstWrongSignature env t (mPaymentParticipants t) = firstWrongSignature env s (mPaymentParticipants s)" for t
    using that recover_keeps [of env t res s'] recover_stays_voted [of env t res s'] approve_voted [of env t res s']
    by (auto split: sum.splits option.splits)
  show ?thesis
  proof (cases "checkSignaturesAppropriate s")
    case False
    then show ?thesis using assms rec s1 by (simp add: processParticipantsVotesMessage_def)
  next
    case True
    show ?thesis
    proof (cases "\<exists>sig key. map_of (mParticipantsSignatures s) kCoordinatorPaymentNodeID = Some sig \<and>
        map_of (mParticipantsPublicKeys s) kCoordinatorPaymentNodeID = Some key")
      case False
      then have "s' = s"
        using assms(1) True
        by (cases "map_of (mParticipantsSignatures s) kCoordinatorPaymentNodeID";
            cases "map_of (mParticipantsPublicKeys s) kCoordinatorPaymentNodeID")
          (simp_all add: processParticipantsVotesMessage_def)
      then show ?thesis using assms(2) by simp
    next
      case sk: True
      then obtain sig key where sk: "map_of (mParticipantsSignatures s) kCoordinatorPaymentNodeID = Some sig"
        "map_of (mParticipantsPublicKeys s) kCoordinatorPaymentNodeID = Some key" by blast
      show ?thesis
      proof (cases "signatureCheck env sig (getSerializedParticipantsVotesData s) key")
        case c: True
        then show ?thesis using main [of s] assms True sk by (simp add: processParticipantsVotesMessage_def)
      next
        case c: False
        then show ?thesis
          using main [of s1] assms True sk rec s1 by (cases r1) (simp_all add: processParticipantsVotesMessage_def)
      qed
    qed
  qed
qed

text \<open>Votes that are processed after they were taken.\<close>

lemma processed_votes:
  assumes "processParticipantsVotesMessage env (s\<lparr>mContext := [], mParticipantsSignatures := votes\<rparr>) = (res, t)"
    and "mTransactionIsVoted s"
  shows "mTransactionIsVoted t \<and>
    (payment t = payment s \<and> linesManager t = linesManager s \<or> signed_by_others env votes s)"
proof -
  let ?s = "s\<lparr>mContext := [], mParticipantsSignatures := votes\<rparr>"
  have "signed_by_others env votes s" if n: "firstWrongSignature env ?s (mPaymentParticipants ?s) = Inr None"
    using firstWrongSignature_None [OF n] by (auto simp: signed_by_others_def getSerializedParticipantsVotesData_def)
  then show ?thesis using process_keeps [OF assms(1)] assms(2) by auto
qed

lemma runVotedStage_keeps:
  assumes "runVotedStage env s = (res, t)" and "mTransactionIsVoted s"
    and "mStep s \<in> {Common_VotesChecking, Common_Recovery, Common_Observing}"
  shows "mTransactionIsVoted t \<and> (payment t = payment s \<and> linesManager t = linesManager s \<or>
    (\<exists>votes. votes_arrived votes s \<and> signed_by_others env votes s))"
proof -
  have plain: ?thesis if "payment t = payment s" "linesManager t = linesManager s" "mTransactionIsVoted t"
    using that by blast
  have nxt: ?thesis if "processNextNodeToCheckVotes env s1 = (res, t)" "payment s1 = payment s" "linesManager s1 = linesManager s"
    "mTransactionIsVoted s1" for s1 using processNext_keeps [OF that(1)] that(2-4) by (intro plain) auto
  have votes: ?thesis if "processParticipantsVotesMessage env (s\<lparr>mContext := [], mParticipantsSignatures := votes\<rparr>) = (res, t)"
    "mContext s = [ParticipantsVotesMessage sender votes]" for votes sender
    using processed_votes [OF that(1) assms(2)] that(2) by (auto simp: votes_arrived_def)
  have rec: ?thesis if "recover env s = (res, t)"
    using recover_keeps [OF that] recover_stays_voted [OF that] assms(2) by auto
  from assms(3) show ?thesis
  proof (elim insertE emptyE)
    assume "mStep s = Common_VotesChecking"
    then have "runVotesConsistencyCheckingStage env s = (res, t)" using assms(1) by (simp add: runVotedStage_def)
    then show ?thesis
      using votes rec plain assms(2)
      by (auto simp: runVotesConsistencyCheckingStage_def sendSignedTransaction_def Let_def
          split: list.splits VoteMessage.splits option.splits if_splits)
  next
    assume "mStep s = Common_Recovery"
    then have "runVotesRecoveryParentStage env s = (res, t)" using assms(1) by (simp add: runVotedStage_def)
    then show ?thesis
      using votes nxt plain assms(2) prepare_keeps [of env s res t]
      by (auto simp: runVotesRecoveryParentStage_def runCheckCoordinatorVotesStage_def
          runCheckIntermediateNodeVotesStage_def Let_def
          split: VotesRecoveryStage.splits list.splits VoteMessage.splits option.splits if_splits)
  next
    assume o: "mStep s = Common_Observing"
    then have run: "runObservingResultStage env s = (res, t)" using assms(1) by (simp add: runVotedStage_def)
    show ?thesis
    proof (cases "mParticipantsSignatures s = []")
      case True
      then show ?thesis using run plain assms(2) by (auto simp: runObservingResultStage_def)
    next
      case False
      then have p: "processParticipantsVotesMessage env s = (res, t)" using run by (simp add: runObservingResultStage_def)
      have "signed_by_others env (mParticipantsSignatures s) s"
        if n: "firstWrongSignature env s (mPaymentParticipants s) = Inr None"
        using firstWrongSignature_None [OF n] by (auto simp: signed_by_others_def)
      then show ?thesis using process_keeps [OF p assms(2)] o by (auto simp: votes_arrived_def)
    qed
  qed
qed

lemma voted_step_keeps:
  "voted_step env s t \<Longrightarrow> mTransactionIsVoted s \<Longrightarrow>
    mTransactionIsVoted t \<and> (payment t = payment s \<and> linesManager t = linesManager s \<or>
      (\<exists>votes. votes_arrived votes s \<and> signed_by_others env votes s))"
  by (induction rule: voted_step.induct) (simp_all add: runVotedStage_keeps)

lemma voted_steps_voted: "(voted_step env)\<^sup>*\<^sup>* s t \<Longrightarrow> mTransactionIsVoted s \<Longrightarrow> mTransactionIsVoted t"
  by (induction rule: rtranclp_induct) (auto dest: voted_step_keeps)

section \<open>Recovery without answers\<close>

text \<open>One awakening of the recovery when no message came.\<close>

definition silent :: "VoteEnv \<Rightarrow> VoteState \<Rightarrow> VoteState" where
  "silent env s = snd (runVotesRecoveryParentStage env s)"

definition asking :: "VoteState \<Rightarrow> bool" where
  "asking s \<longleftrightarrow> mContext s = [] \<and> mVotesRecoveryStep s \<noteq> Common_PrepareNodesListToCheckVotes"

lemma silent_asking: "asking s \<Longrightarrow> silent env s = snd (processNextNodeToCheckVotes env s)"
  by (cases "mVotesRecoveryStep s")
    (simp_all add: asking_def silent_def runVotesRecoveryParentStage_def
      runCheckCoordinatorVotesStage_def runCheckIntermediateNodeVotesStage_def)

lemma silent_asks_next:
  assumes "asking s" and "mNodesToCheckVotes s \<noteq> []"
  shows "asking (silent env s) \<and> mNodesToCheckVotes (silent env s) = butlast (mNodesToCheckVotes s) \<and>
    mCountRecoveryAttempts (silent env s) = mCountRecoveryAttempts s \<and>
    mPaymentParticipants (silent env s) = mPaymentParticipants s \<and>
    payment (silent env s) = payment s \<and> linesManager (silent env s) = linesManager s \<and>
    outbox (silent env s) = outbox s @ [VotesStatusRequestMessage (last (mNodesToCheckVotes s))]"
  using assms
  by (simp add: silent_asking processNextNodeToCheckVotes_def Let_def asking_def
      sendVotesRequestMessageAndWaitForResponse_def)

lemma silent_drains:
  assumes "asking s" and "length (mNodesToCheckVotes s) = k"
  shows "asking ((silent env ^^ k) s) \<and> mNodesToCheckVotes ((silent env ^^ k) s) = [] \<and>
    mCountRecoveryAttempts ((silent env ^^ k) s) = mCountRecoveryAttempts s \<and>
    mPaymentParticipants ((silent env ^^ k) s) = mPaymentParticipants s \<and>
    payment ((silent env ^^ k) s) = payment s \<and> linesManager ((silent env ^^ k) s) = linesManager s"
  using assms
proof (induction k arbitrary: s)
  case (Suc k)
  have "mNodesToCheckVotes s \<noteq> []" using Suc.prems(2) by auto
  note n = silent_asks_next [OF Suc.prems(1) this, of env]
  have "length (mNodesToCheckVotes (silent env s)) = k" using n Suc.prems(2) by simp
  from Suc.IH [OF _ this] n show ?case by (simp add: funpow_swap1)
qed simp

lemma silent_attempt:
  assumes "asking s" and "mNodesToCheckVotes s = []" and "mCountRecoveryAttempts s = a" and "a < 2"
  shows "mVotesRecoveryStep (silent env s) = Common_PrepareNodesListToCheckVotes \<and>
    mContext (silent env s) = [] \<and> mNodesToCheckVotes (silent env s) = [] \<and>
    mCountRecoveryAttempts (silent env s) = a + 1 \<and>
    mPaymentParticipants (silent env s) = mPaymentParticipants s \<and>
    payment (silent env s) = payment s \<and> linesManager (silent env s) = linesManager s"
proof -
  have "\<not> kMaxRecoveryAttempts \<le> a + 1"
    using assms(4) unfolding kMaxRecoveryAttempts_def by unat_arith
  with assms show ?thesis
    by (simp add: silent_asking processNextNodeToCheckVotes_def Let_def asking_def)
qed

lemma silent_gives_up:
  assumes "asking s" and "mNodesToCheckVotes s = []" and "mCountRecoveryAttempts s = 2"
  shows "mStep (silent env s) = Common_Observing \<and> payment (silent env s) = payment s \<and>
    linesManager (silent env s) = linesManager s \<and> ObservingClaim \<in> set (outbox (silent env s))"
  using assms
  by (auto simp: silent_asking processNextNodeToCheckVotes_def Let_def runObservingStage_def
      kMaxRecoveryAttempts_def bindS_def split: sum.splits)

definition others :: "VoteEnv \<Rightarrow> VoteState \<Rightarrow> Contractor list" where
  "others env s = map snd (filter (\<lambda>(nodeID, contractor).
     contractor \<noteq> selfContractor env \<and> nodeID \<noteq> kCoordinatorPaymentNodeID) (mPaymentParticipants s))"

lemma prepare_asks:
  assumes "mContext s = []" and "mNodesToCheckVotes s = []"
    and "map_of (filter (\<lambda>(nodeID, contractor). contractor \<noteq> selfContractor env) (mPaymentParticipants s))
      kCoordinatorPaymentNodeID \<noteq> None"
  shows "let t = snd (runPrepareListNodesToCheckNodes env s)
    in asking t \<and> mNodesToCheckVotes t = others env s \<and>
      mCountRecoveryAttempts t = mCountRecoveryAttempts s \<and>
      mPaymentParticipants t = mPaymentParticipants s \<and> payment t = payment s \<and>
      linesManager t = linesManager s"
proof -
  have f: "filter (\<lambda>(nodeID, _). nodeID \<noteq> kCoordinatorPaymentNodeID)
      (filter (\<lambda>(nodeID, contractor). contractor \<noteq> selfContractor env) (mPaymentParticipants s)) =
    filter (\<lambda>(nodeID, contractor). contractor \<noteq> selfContractor env \<and> nodeID \<noteq> kCoordinatorPaymentNodeID)
      (mPaymentParticipants s)"
    unfolding filter_filter by (rule filter_cong) auto
  show ?thesis
    using assms f
    by (auto simp: runPrepareListNodesToCheckNodes_def Let_def asking_def others_def
        sendVotesRequestMessageAndWaitForResponse_def)
qed

text \<open>One round: the asked nodes, the failed attempt, and the next preparation.\<close>

lemma silent_round:
  assumes "asking s" and "mNodesToCheckVotes s = others env s" and "mCountRecoveryAttempts s = a" and "a < 2"
    and "map_of (filter (\<lambda>(nodeID, contractor). contractor \<noteq> selfContractor env) (mPaymentParticipants s))
      kCoordinatorPaymentNodeID \<noteq> None"
  shows "let t = (silent env ^^ (length (others env s) + 2)) s
    in asking t \<and> mNodesToCheckVotes t = others env s \<and> mCountRecoveryAttempts t = a + 1 \<and>
      mPaymentParticipants t = mPaymentParticipants s \<and> payment t = payment s \<and>
      linesManager t = linesManager s"
proof -
  let ?n = "length (others env s)"
  define t1 where "t1 = (silent env ^^ ?n) s"
  define t2 where "t2 = silent env t1"
  have d: "asking t1 \<and> mNodesToCheckVotes t1 = [] \<and> mCountRecoveryAttempts t1 = a \<and>
      mPaymentParticipants t1 = mPaymentParticipants s \<and> payment t1 = payment s \<and>
      linesManager t1 = linesManager s"
    using silent_drains [OF assms(1), of ?n env] assms(2,3) by (simp add: t1_def)
  have at: "mVotesRecoveryStep t2 = Common_PrepareNodesListToCheckVotes \<and>
      mContext t2 = [] \<and> mNodesToCheckVotes t2 = [] \<and> mCountRecoveryAttempts t2 = a + 1 \<and>
      mPaymentParticipants t2 = mPaymentParticipants s \<and> payment t2 = payment s \<and>
      linesManager t2 = linesManager s"
    using silent_attempt [of t1 a env] d assms(4) by (simp add: t2_def)
  have "silent env t2 = snd (runPrepareListNodesToCheckNodes env t2)"
    using at by (simp add: silent_def runVotesRecoveryParentStage_def)
  moreover have "(silent env ^^ (?n + 2)) s = silent env t2"
    by (simp add: t1_def t2_def)
  moreover have "others env t2 = others env s" using at by (simp add: others_def)
  ultimately show ?thesis
    using prepare_asks [of t2 env] at assms(5) by (simp add: Let_def)
qed

section \<open>Properties\<close>

lemma funpow_split: "(f ^^ (a + b)) s = (f ^^ b) ((f ^^ a) s)"
  by (metis add.commute comp_apply funpow_add)

text \<open>C14: the recovery of a voted payment does not wait for ever. When no participant ever answers,
  after three rounds over the coordinator and the \<open>n\<close> other participants (that is \<open>3n + 5\<close> awakenings
  after \<open>recover\<close>) the transaction hands itself to the observers, and its reservations are still as
  they were.\<close>

theorem silent_recovery_ends:
  assumes "mTransactionIsVoted s" and "mNodesToCheckVotes s = []"
    and "map_of (filter (\<lambda>(nodeID, contractor). contractor \<noteq> selfContractor env) (mPaymentParticipants s))
      kCoordinatorPaymentNodeID \<noteq> None"
  shows "let t = (silent env ^^ (3 * length (others env s) + 5)) (snd (recover env s))
    in mStep t = Common_Observing \<and> ObservingClaim \<in> set (outbox t) \<and>
      payment t = payment s \<and> linesManager t = linesManager s"
proof -
  let ?n = "length (others env s)"
  define s0 where "s0 = s\<lparr>mStep := Common_Recovery, mVotesRecoveryStep := Common_PrepareNodesListToCheckVotes,
    mContext := [], mCountRecoveryAttempts := 0\<rparr>"
  define t0 where "t0 = snd (runPrepareListNodesToCheckNodes env s0)"
  define t1 where "t1 = (silent env ^^ (?n + 2)) t0"
  define t2 where "t2 = (silent env ^^ (?n + 2)) t1"
  define t3 where "t3 = (silent env ^^ ?n) t2"
  have s0: "others env s0 = others env s" "mPaymentParticipants s0 = mPaymentParticipants s"
    by (simp_all add: s0_def others_def)
  have oth: "others env t = others env s" if "mPaymentParticipants t = mPaymentParticipants s" for t
    using that by (simp add: others_def)
  have t0: "asking t0 \<and> mNodesToCheckVotes t0 = others env s \<and> mCountRecoveryAttempts t0 = 0 \<and>
      mPaymentParticipants t0 = mPaymentParticipants s \<and> payment t0 = payment s \<and>
      linesManager t0 = linesManager s"
    using prepare_asks [of s0 env] assms(2,3) s0(1) by (simp add: t0_def s0_def Let_def)
  have t1: "asking t1 \<and> mNodesToCheckVotes t1 = others env s \<and> mCountRecoveryAttempts t1 = 1 \<and>
      mPaymentParticipants t1 = mPaymentParticipants s \<and> payment t1 = payment s \<and>
      linesManager t1 = linesManager s"
    using silent_round [of t0 env 0] t0 oth [of t0] assms(3) by (simp add: t1_def Let_def)
  have t2: "asking t2 \<and> mNodesToCheckVotes t2 = others env s \<and> mCountRecoveryAttempts t2 = 2 \<and>
      mPaymentParticipants t2 = mPaymentParticipants s \<and> payment t2 = payment s \<and>
      linesManager t2 = linesManager s"
    using silent_round [of t1 env 1] t1 oth [of t1] assms(3) by (simp add: t2_def Let_def)
  have t3: "asking t3 \<and> mNodesToCheckVotes t3 = [] \<and> mCountRecoveryAttempts t3 = 2 \<and>
      payment t3 = payment s \<and> linesManager t3 = linesManager s"
    using silent_drains [of t2 ?n env] t2 by (simp add: t3_def)
  have "(silent env ^^ (3 * ?n + 5)) (snd (recover env s)) = silent env t3"
  proof -
    have "snd (recover env s) = t0" using assms(1) by (simp add: recover_def t0_def s0_def)
    moreover have "3 * ?n + 5 = ((?n + 2) + (?n + 2)) + ?n + 1" by simp
    ultimately show ?thesis
      by (simp only: funpow_split t3_def t2_def t1_def) simp
  qed
  then show ?thesis
    using silent_gives_up [of t3 env] t3 by (simp add: Let_def)
qed

definition sampleEnv :: VoteEnv where
  "sampleEnv = \<lparr>signatureCheck = (\<lambda>signature data key. signature = [1]), publicKeyHash = (\<lambda>key. key),
     selfContractor = [''me''], saveTransaction = Inr (),
     signPaymentTransaction = (\<lambda>data. Inr (Some [1])), savePayment = Inr (),
     commitStorageOk = True, contractorAddress = (\<lambda>c. Inr ()), committedAmount = (\<lambda>p. Inr 0),
     signalsCycles = False\<rparr>"

lemma sampleEnv_hooks: "committedAmount sampleEnv p = Inr 0" "\<not> signalsCycles sampleEnv"
  by (simp_all add: sampleEnv_def)

definition sampleVoting :: VoteState where
  "sampleVoting = \<lparr>payment = samplePayment, linesManager = sampleManager, mStep = Common_VotesChecking,
     mVotesRecoveryStep = Common_PrepareNodesListToCheckVotes, mTransactionIsVoted = True,
     mCountRecoveryAttempts = 0, mNodesToCheckVotes = [], mCurrentNodeToCheckVotes = None,
     mPaymentParticipants = [(0, [''coordinator'']), (1, [''me'']), (2, [''other''])],
     mParticipantsPublicKeysHashes = [], mParticipantsPublicKeys = [(0, [9]), (1, [9]), (2, [9])],
     mParticipantsSignatures = [(0, [1]), (1, [1]), (2, [1])], mSignedTransaction = Some [1],
     mContext = [], outbox = []\<rparr>"

theorem silent_recovery_ends_witness:
  "mStep ((silent sampleEnv ^^ 8) (snd (recover sampleEnv sampleVoting))) = Common_Observing"
  using silent_recovery_ends [of sampleVoting sampleEnv]
  by (simp add: sampleVoting_def sampleEnv_def others_def kCoordinatorPaymentNodeID_def Let_def)

text \<open>C13: votes are counted before a commit. If processing a votes message leads to the payment being
  committed and saved, then every participant other than the node itself and the coordinator has a key
  and a signature in the maps, and the signature is valid for the data of this payment.\<close>

theorem commit_needs_participants_votes:
  assumes "processParticipantsVotesMessage env s = (res, s')"
    and "PaymentSavedIntoHistory \<in> set (outbox s')" and "PaymentSavedIntoHistory \<notin> set (outbox s)"
    and "(nodeID, contractor) \<in> set (mPaymentParticipants s)"
    and "contractor \<noteq> selfContractor env" and "nodeID \<noteq> kCoordinatorPaymentNodeID"
  shows "\<exists>publicKey signature. map_of (mParticipantsPublicKeys s) nodeID = Some publicKey \<and>
    map_of (mParticipantsSignatures s) nodeID = Some signature \<and>
    signatureCheck env signature (getSerializedParticipantsVotesData s) publicKey"
proof -
  obtain s1 where "firstWrongSignature env s1 (mPaymentParticipants s1) = Inr None"
    "getSerializedParticipantsVotesData s1 = getSerializedParticipantsVotesData s"
    "mPaymentParticipants s1 = mPaymentParticipants s"
    "mParticipantsPublicKeys s1 = mParticipantsPublicKeys s"
    "mParticipantsSignatures s1 = mParticipantsSignatures s"
    using process_approves [OF assms(1-3)] by blast
  then show ?thesis
    using firstWrongSignature_None [of env s1 "mPaymentParticipants s1" nodeID contractor] assms(4-6)
    by simp
qed

lemma sampleVoting_commit:
  "\<exists>p' m' line. commit (contractorAddress sampleEnv) (commitStorageOk sampleEnv) (samplePayment, sampleManager) =
      (Inr (), (p', m')) \<and> map_of (mTrustLines m') 7 = Some line \<and> mBalance line = - 60"
proof -
  have "settlingFits (txReservations samplePayment) sampleManager"
    by (simp add: settlingFits_def receiptsOf_def amountOf_def sampleReservation_def)
  then obtain p' m' where c: "commit (contractorAddress sampleEnv) True (samplePayment, sampleManager) = (Inr (), p', m')"
    "settledTo 5 sampleManager m' (listOf (txReservations samplePayment))"
    using commit_ok [OF samplePayment_ok, of "contractorAddress sampleEnv"] by (force simp: sampleEnv_def)
  have l: "listOf (txReservations samplePayment) 7 = [sampleReservation]" by (simp add: listOf_def)
  have "map_of (mTrustLines m') 7 = Some (settledLine [sampleReservation] sampleLine)"
    using c(2) l by (simp add: settledTo_def)
  moreover have "mBalance (settledLine [sampleReservation] sampleLine) = - 60"
    by (simp only: settledLine_amounts) (simp add: amountOf_def sampleReservation_def)
  ultimately show ?thesis using c(1) by (simp add: sampleEnv_def)
qed

theorem commit_needs_participants_votes_witness:
  "signatureCheck sampleEnv [1] (getSerializedParticipantsVotesData sampleVoting) [9]"
proof -
  obtain p' m' where c: "commit (contractorAddress sampleEnv) (commitStorageOk sampleEnv) (samplePayment, sampleManager) =
      (Inr (), (p', m'))"
    using sampleVoting_commit by blast
  have "processParticipantsVotesMessage sampleEnv sampleVoting = approve sampleEnv sampleVoting"
    by (simp add: processParticipantsVotesMessage_def checkSignaturesAppropriate_def sampleVoting_def
        sampleEnv_def kCoordinatorPaymentNodeID_def)
  then have "processParticipantsVotesMessage sampleEnv sampleVoting =
      (Inr ResultDone, send PaymentSavedIntoHistory (sampleVoting\<lparr>payment := p', linesManager := m'\<rparr>))"
    using c sampleEnv_hooks by (simp add: approve_def onPayment_def sampleVoting_def Let_def)
  from commit_needs_participants_votes [OF this, of 2 "[''other'']"] show ?thesis
    by (simp add: sampleVoting_def sampleEnv_def kCoordinatorPaymentNodeID_def)
qed

text \<open>C40: a wrong signature of the coordinator does not stop the commit. When the node has voted, the votes have as many
  signatures as there are keys, and all are right but the coordinator's: processing them starts the recovery (\<open>recover\<close> is called without a
  return), asks the others for the votes again, drops that result, and then approves the payment in the state the recovery
  left: the reservations, the lines and the participants are as before, so the balances and what is reserved end exactly as
  for a right signature, and the payment is saved if it would be then.\<close>

theorem wrong_coordinator_signature_commits:
  assumes "mTransactionIsVoted s" and "checkSignaturesAppropriate s"
    and "map_of (mParticipantsSignatures s) kCoordinatorPaymentNodeID = Some signature"
    and "map_of (mParticipantsPublicKeys s) kCoordinatorPaymentNodeID = Some key"
    and "\<not> signatureCheck env signature (getSerializedParticipantsVotesData s) key"
    and "firstWrongSignature env s (mPaymentParticipants s) = Inr None"
  shows "\<exists>r s1. recover env s = (Inr r, s1) \<and> mStep s1 = Common_Recovery \<and>
    payment s1 = payment s \<and> linesManager s1 = linesManager s \<and> length (outbox s1) \<le> length (outbox s) + 1 \<and>
    processParticipantsVotesMessage env s = approve env s1 \<and> fst (approve env s1) = fst (approve env s) \<and>
    payment (snd (approve env s1)) = payment (snd (approve env s)) \<and>
    linesManager (snd (approve env s1)) = linesManager (snd (approve env s))"
proof -
  obtain r s1 where r: "recover env s = (Inr r, s1)" "mStep s1 = Common_Recovery" "length (outbox s1) \<le> length (outbox s) + 1"
    using recover_returns [OF assms(1)] by blast
  note k = recover_keeps [OF r(1)]
  have same: "payment s1 = payment s" "linesManager s1 = linesManager s" using k assms(1) by auto
  have "firstWrongSignature env s1 (mPaymentParticipants s1) = Inr None"
    using firstWrongSignature_cong [of s1 s env] k assms(6) by simp
  then have "processParticipantsVotesMessage env s = approve env s1"
    using assms(2-5) r(1) by (simp add: processParticipantsVotesMessage_def)
  then show ?thesis using r same approve_cong [of s1 s env] by blast
qed

theorem wrong_coordinator_signature_commits_witness:
  "\<exists>s' line. processParticipantsVotesMessage sampleEnv
       (sampleVoting\<lparr>mParticipantsSignatures := [(0, [0]), (1, [1]), (2, [1])]\<rparr>) = (Inr ResultDone, s') \<and>
     map_of (mTrustLines (linesManager s')) 7 = Some line \<and> mBalance line = - 60"
proof -
  define s where "s = sampleVoting\<lparr>mParticipantsSignatures := [(0, [0]), (1, [1]), (2, [1])]\<rparr>"
  obtain p' m' line where c: "commit (contractorAddress sampleEnv) (commitStorageOk sampleEnv) (samplePayment, sampleManager) =
      (Inr (), (p', m'))" and l: "map_of (mTrustLines m') 7 = Some line" "mBalance line = - 60"
    using sampleVoting_commit by blast
  have "payment s = samplePayment" "linesManager s = sampleManager" by (simp_all add: s_def sampleVoting_def)
  then have a: "fst (approve sampleEnv s) = Inr ResultDone" "linesManager (snd (approve sampleEnv s)) = m'"
    using c sampleEnv_hooks by (simp_all add: approve_def onPayment_def Let_def)
  have "\<exists>r s1. recover sampleEnv s = (Inr r, s1) \<and> mStep s1 = Common_Recovery \<and>
    payment s1 = payment s \<and> linesManager s1 = linesManager s \<and> length (outbox s1) \<le> length (outbox s) + 1 \<and>
    processParticipantsVotesMessage sampleEnv s = approve sampleEnv s1 \<and>
    fst (approve sampleEnv s1) = fst (approve sampleEnv s) \<and>
    payment (snd (approve sampleEnv s1)) = payment (snd (approve sampleEnv s)) \<and>
    linesManager (snd (approve sampleEnv s1)) = linesManager (snd (approve sampleEnv s))"
    by (rule wrong_coordinator_signature_commits [where signature = "[0]" and key = "[9]"])
      (simp_all add: s_def sampleVoting_def sampleEnv_def kCoordinatorPaymentNodeID_def checkSignaturesAppropriate_def)
  then obtain s1 where "processParticipantsVotesMessage sampleEnv s = approve sampleEnv s1"
    "fst (approve sampleEnv s1) = Inr ResultDone" "linesManager (snd (approve sampleEnv s1)) = m'"
    using a by auto
  then have "processParticipantsVotesMessage sampleEnv s = (Inr ResultDone, snd (approve sampleEnv s1))"
    "linesManager (snd (approve sampleEnv s1)) = m'" by (auto simp: prod_eq_iff)
  then show ?thesis using l unfolding s_def by blast
qed



text \<open>C18: before its vote a node can always leave. Without exactly one message with the public keys
  the votes stage of a node that has not voted ends the transaction with no reservation of it left and
  the trust lines as they were.\<close>

theorem unvoted_node_releases:
  assumes "\<not> mTransactionIsVoted s" and "tx_ok (payment s, linesManager s)"
    and "\<not> contextIsValid Payments_ParticipantsPublicKeys s"
  shows "\<exists>s'. runVotesCheckingStage env s = (Inr ResultDone, s') \<and>
    \<not> isReservationsPresentConsiderTransaction (linesManager s') (currentTransactionUUID (payment s)) \<and>
    mTrustLines (linesManager s') = mTrustLines (linesManager s)"
proof -
  have run: "runVotesCheckingStage env s = reject (send RemovedAllData s)"
    using assms(1,3)
    by (auto simp: runVotesCheckingStage_def contextIsValid_iff split: list.splits VoteMessage.splits)
  obtain m' where m': "rollBack (payment s, linesManager s) = (Inr (), (payment s)\<lparr>txReservations := []\<rparr>, m')"
    "tx_ok ((payment s)\<lparr>txReservations := []\<rparr>, m')" "mTrustLines m' = mTrustLines (linesManager s)"
    using rollBack_ok [OF assms(2)] by blast
  have "\<not> isReservationsPresentConsiderTransaction m' (currentTransactionUUID (payment s))"
    using m'(2) own_present [of m' "currentTransactionUUID (payment s)"] by (auto simp: tx_ok_def listed_def)
  then show ?thesis
    using m' run by (simp add: reject_def onPayment_def)
qed

theorem unvoted_node_releases_witness:
  "\<exists>s'. runVotesCheckingStage sampleEnv (sampleVoting\<lparr>mTransactionIsVoted := False\<rparr>) = (Inr ResultDone, s') \<and>
     \<not> isReservationsPresentConsiderTransaction (linesManager s') 5"
  using unvoted_node_releases [of "sampleVoting\<lparr>mTransactionIsVoted := False\<rparr>" sampleEnv] samplePayment_ok
  by (auto simp: sampleVoting_def contextIsValid_def)

end
