(* ===== verification/Addresses.thy ===== *)
theory Addresses
  imports Amounts
begin

text \<open>
  The addresses of the nodes: \<^verbatim>\<open>src/src/core/contractors/addresses/\<close>, their comparison, their text and
  their byte format, and \<^verbatim>\<open>deserializeAddress\<close> of \<^verbatim>\<open>common/multiprecision/MultiprecisionUtils.h\<close>.

  A \<^verbatim>\<open>std::string\<close> is a \<open>string\<close>, a position in it a \<open>nat\<close>, \<^verbatim>\<open>npos\<close> is \<open>None\<close>. \<^verbatim>\<open>stoul\<close> is written out
  as the standard describes it (leading spaces, a sign, the longest prefix of digits); its 64-bit
  result is cut to the width of the field it is stored in, as the casts of the code do. Multi-byte
  integers are copied in memory order, least significant byte first.
\<close>

type_synonym Port = "16 word"

datatype Address =
    IPv4WithPortAddress byte byte byte byte Port
  | GNSAddress (gnsName: string) (gnsProvider: string) (gnsHost: string) Port

datatype AddressType = IPv4_IncludingPort | GNS

definition kAddressSeparator :: char where
  "kAddressSeparator = CHR '':''"

definition kGNSAddressSeparator :: char where
  "kGNSAddressSeparator = CHR ''@''"

section \<open>Numbers in texts\<close>

definition isspace :: "char \<Rightarrow> bool" where
  "isspace c \<longleftrightarrow> (of_char c :: nat) = 32 \<or> 9 \<le> (of_char c :: nat) \<and> (of_char c :: nat) \<le> 13"

text \<open>The bases used are 10 and, for texts of at most two characters, 16: a prefix \<^verbatim>\<open>0x\<close> plays no role.\<close>

definition digitValue :: "nat \<Rightarrow> char \<Rightarrow> nat option" where
  "digitValue base c =
     (let n = of_char c;
          v = (if 48 \<le> n \<and> n \<le> 57 then n - 48
               else if 65 \<le> n \<and> n \<le> 90 then n - 55
               else if 97 \<le> n \<and> n \<le> 122 then n - 87 else base)
      in if v < base then Some v else None)"

definition stoul :: "nat \<Rightarrow> string \<Rightarrow> nat result" where
  "stoul base str =
     (let body = dropWhile isspace str;
          negative = (body \<noteq> [] \<and> hd body = CHR ''-'');
          digits = takeWhile (\<lambda>c. digitValue base c \<noteq> None)
            (if body \<noteq> [] \<and> hd body \<in> {CHR ''-'', CHR ''+''} then tl body else body);
          v = foldl (\<lambda>n c. base * n + the (digitValue base c)) 0 digits
      in if digits = [] then Inl StdInvalidArgument
         else if v \<ge> 2 ^ 64 then Inl StdOutOfRange
         else Inr (if negative then (2 ^ 64 - v) mod 2 ^ 64 else v))"

text \<open>What \<^verbatim>\<open>stringstream\<close> prints for an unsigned number.\<close>

fun decimal :: "nat \<Rightarrow> string" where
  "decimal n = (if n < 10 then [char_of (48 + n)] else decimal (n div 10) @ [char_of (48 + n mod 10)])"

declare decimal.simps [simp del]

section \<open>Texts\<close>

definition byteOfChar :: "char \<Rightarrow> byte" where
  "byteOfChar c = of_nat (of_char c)"

definition charOfByte :: "byte \<Rightarrow> char" where
  "charOfByte b = char_of (unat b)"

definition findFrom :: "char \<Rightarrow> string \<Rightarrow> nat \<Rightarrow> nat option" where
  "findFrom c str pos =
     (let rest = takeWhile (\<lambda>x. x \<noteq> c) (drop pos str)
      in if pos + length rest < length str then Some (pos + length rest) else None)"

text \<open>\<^verbatim>\<open>substr(pos, n)\<close>; without a length the rest of the string.\<close>

definition substr :: "string \<Rightarrow> nat \<Rightarrow> nat option \<Rightarrow> string result" where
  "substr str pos n =
     (if pos > length str then Inl StdOutOfRange
      else Inr (case n of None \<Rightarrow> drop pos str | Some k \<Rightarrow> take k (drop pos str)))"

text \<open>The loop over the four bytes of the address; \<^verbatim>\<open>npos + 1\<close> is 0.\<close>

fun ipv4Bytes :: "nat \<Rightarrow> string \<Rightarrow> nat \<Rightarrow> byte list result" where
  "ipv4Bytes 0 addressStr byteStartPos = Inr []"
| "ipv4Bytes (Suc n) addressStr byteStartPos =
     (let bytesSeparatorPos = findFrom CHR ''.'' addressStr byteStartPos
      in bindR (substr addressStr byteStartPos (map_option (\<lambda>p. p - byteStartPos) bytesSeparatorPos)) (\<lambda>byteStr.
         bindR (stoul 10 byteStr) (\<lambda>value.
         bindR (ipv4Bytes n addressStr (case bytesSeparatorPos of None \<Rightarrow> 0 | Some p \<Rightarrow> p + 1)) (\<lambda>rest.
         Inr (of_nat value # rest)))))"

definition ipv4OfBytes :: "byte list \<Rightarrow> Port \<Rightarrow> Address result" where
  "ipv4OfBytes bytes port =
     (case bytes of
        [b0, b1, b2, b3] \<Rightarrow> Inr (IPv4WithPortAddress b0 b1 b2 b3 port)
      | _ \<Rightarrow> Inl UndefinedBehaviour)"

text \<open>The constructors from a text; \<^verbatim>\<open>catch (...)\<close> around the port.\<close>

definition portOfText :: "string \<Rightarrow> Port result" where
  "portOfText portStr =
     (case stoul 10 portStr of Inl _ \<Rightarrow> Inl ValueError | Inr n \<Rightarrow> Inr (of_nat n))"

definition newIPv4WithPortAddress :: "string \<Rightarrow> Address result" where
  "newIPv4WithPortAddress fullAddress =
     (case findFrom kAddressSeparator fullAddress 0 of
        None \<Rightarrow> Inl ValueError
      | Some addressSeparatorPos \<Rightarrow>
          bindR (substr fullAddress 0 (Some addressSeparatorPos)) (\<lambda>addressStr.
          bindR (ipv4Bytes 4 (addressStr @ ''.'') 0) (\<lambda>bytes.
          bindR (substr fullAddress (addressSeparatorPos + 1)
                  (Some (length fullAddress - addressSeparatorPos - 1))) (\<lambda>portStr.
          bindR (portOfText portStr) (ipv4OfBytes bytes)))))"

definition newIPv4OfHostPort :: "string \<Rightarrow> Port \<Rightarrow> Address result" where
  "newIPv4OfHostPort host port =
     bindR (ipv4Bytes 4 (host @ ''.'') 0) (\<lambda>bytes. ipv4OfBytes bytes port)"

definition newGNSAddress :: "string \<Rightarrow> Address result" where
  "newGNSAddress fullAddress =
     bindR (case findFrom kAddressSeparator fullAddress 0 of
              None \<Rightarrow> Inr (fullAddress, 0)
            | Some addressSeparatorPos \<Rightarrow>
                bindR (substr fullAddress (addressSeparatorPos + 1)
                        (Some (length fullAddress - addressSeparatorPos - 1))) (\<lambda>portStr.
                bindR (portOfText portStr) (\<lambda>port.
                bindR (substr fullAddress 0 (Some addressSeparatorPos)) (\<lambda>pure.
                Inr (pure, port)))))
       (\<lambda>(gnsPureAddress, port).
          case findFrom kGNSAddressSeparator gnsPureAddress 0 of
            None \<Rightarrow> Inl ValueError
          | Some addressSeparatorPos \<Rightarrow>
              bindR (substr gnsPureAddress 0 (Some addressSeparatorPos)) (\<lambda>name.
              bindR (substr gnsPureAddress (addressSeparatorPos + 1)
                      (Some (length fullAddress - addressSeparatorPos - 1))) (\<lambda>provider.
              Inr (GNSAddress name provider [] port))))"

definition setIPAndPort :: "string \<Rightarrow> Address \<Rightarrow> Address result" where
  "setIPAndPort providerData address =
     (case address of
        GNSAddress name provider _ _ \<Rightarrow>
          (case findFrom kAddressSeparator providerData 0 of
             None \<Rightarrow> Inl ValueError
           | Some addressSeparatorPos \<Rightarrow>
               bindR (substr providerData 0 (Some addressSeparatorPos)) (\<lambda>host.
               bindR (substr providerData (addressSeparatorPos + 1)
                       (Some (length providerData - addressSeparatorPos - 1))) (\<lambda>portStr.
               bindR (portOfText portStr) (\<lambda>port.
               Inr (GNSAddress name provider host port)))))
      | IPv4WithPortAddress _ _ _ _ _ \<Rightarrow> Inr address)"

section \<open>Reading an address\<close>

fun typeID_address :: "Address \<Rightarrow> AddressType" where
  "typeID_address (IPv4WithPortAddress _ _ _ _ _) = IPv4_IncludingPort"
| "typeID_address (GNSAddress _ _ _ _) = GNS"

fun port :: "Address \<Rightarrow> Port" where
  "port (IPv4WithPortAddress _ _ _ _ p) = p"
| "port (GNSAddress _ _ _ p) = p"

fun host :: "Address \<Rightarrow> string" where
  "host (IPv4WithPortAddress b0 b1 b2 b3 _) =
     decimal (unat b0) @ ''.'' @ decimal (unat b1) @ ''.'' @ decimal (unat b2) @ ''.'' @ decimal (unat b3)"
| "host (GNSAddress _ _ h _) = h"

fun fullAddress :: "Address \<Rightarrow> string" where
  "fullAddress (IPv4WithPortAddress b0 b1 b2 b3 p) =
     host (IPv4WithPortAddress b0 b1 b2 b3 p) @ [kAddressSeparator] @ decimal (unat p)"
| "fullAddress (GNSAddress name provider _ _) = name @ [kGNSAddressSeparator] @ provider"

text \<open>The overloaded comparison of \<^verbatim>\<open>BaseAddress.cpp\<close>: a GNS address is compared without its port.\<close>

definition sameAddress :: "Address \<Rightarrow> Address \<Rightarrow> bool" where
  "sameAddress address1 address2 =
     (if typeID_address address1 \<noteq> typeID_address address2 then False
      else fullAddress address1 = fullAddress address2)"

section \<open>Byte format\<close>

definition wordBytes :: "16 word \<Rightarrow> byte list" where
  "wordBytes w = [ucast w, ucast (drop_bit 8 w)]"

definition wordOfBytes :: "byte \<Rightarrow> byte \<Rightarrow> 16 word" where
  "wordOfBytes lo hi = ucast lo + 256 * ucast hi"

fun typeCode :: "AddressType \<Rightarrow> byte" where
  "typeCode IPv4_IncludingPort = 12"
| "typeCode GNS = 41"

fun serializedSize :: "Address \<Rightarrow> nat" where
  "serializedSize (IPv4WithPortAddress _ _ _ _ _) = 7"
| "serializedSize (GNSAddress name provider _ _) = 1 + 2 + length name + 1 + length provider"

text \<open>The buffer is zeroed, and the length is cut to 16 bits before the text is copied.\<close>

fun serializeToBytes :: "Address \<Rightarrow> byte list" where
  "serializeToBytes (IPv4WithPortAddress b0 b1 b2 b3 p) =
     [typeCode IPv4_IncludingPort, b0, b1, b2, b3] @ wordBytes p"
| "serializeToBytes (GNSAddress name provider h p) =
     (let full = fullAddress (GNSAddress name provider h p);
          addressLength = of_nat (length full) :: 16 word;
          copied = map byteOfChar (take (unat addressLength) full)
      in [typeCode GNS] @ wordBytes addressLength @ copied @
           replicate (serializedSize (GNSAddress name provider h p) - 3 - length copied) 0)"

text \<open>
  Reading back. The buffer is what follows the pointer; reading past its end is undefined. The port
  of a GNS address is not written, so the field keeps what the memory held (\<open>unset\<close>).
\<close>

definition deserializeIPv4 :: "byte list \<Rightarrow> Address result" where
  "deserializeIPv4 buffer =
     (case buffer of
        _ # b0 # b1 # b2 # b3 # lo # hi # _ \<Rightarrow> Inr (IPv4WithPortAddress b0 b1 b2 b3 (wordOfBytes lo hi))
      | _ \<Rightarrow> Inl UndefinedBehaviour)"

definition deserializeGNS :: "Port \<Rightarrow> byte list \<Rightarrow> Address result" where
  "deserializeGNS unset buffer =
     (case buffer of
        _ # lo # hi # rest \<Rightarrow>
          (let addressLength = wordOfBytes lo hi
           in if addressLength = 0 then Inl ValueError
              else if length rest < unat addressLength then Inl UndefinedBehaviour
              else
                (let gnsAddress = map charOfByte (take (unat addressLength) rest)
                 in case findFrom kGNSAddressSeparator gnsAddress 0 of
                      None \<Rightarrow> Inl ValueError
                    | Some addressSeparatorPos \<Rightarrow>
                        bindR (substr gnsAddress 0 (Some addressSeparatorPos)) (\<lambda>name.
                        bindR (substr gnsAddress (addressSeparatorPos + 1)
                                (Some (length gnsAddress - addressSeparatorPos - 1))) (\<lambda>provider.
                        Inr (GNSAddress name provider [] unset)))))
      | _ \<Rightarrow> Inl UndefinedBehaviour)"

text \<open>\<open>None\<close> is the null pointer returned for an unknown type.\<close>

definition deserializeAddress :: "Port \<Rightarrow> byte list \<Rightarrow> Address option result" where
  "deserializeAddress unset buffer =
     (case buffer of
        [] \<Rightarrow> Inl UndefinedBehaviour
      | code # _ \<Rightarrow>
          if code = typeCode IPv4_IncludingPort then bindR (deserializeIPv4 buffer) (\<lambda>a. Inr (Some a))
          else if code = typeCode GNS then bindR (deserializeGNS unset buffer) (\<lambda>a. Inr (Some a))
          else Inr None)"

section \<open>Printing and parsing numbers\<close>

lemma digitValue_char_of: "d < 10 \<Longrightarrow> digitValue 10 (char_of (48 + d)) = Some d" for d :: nat
proof -
  assume "d < 10"
  then have "(of_char (char_of (48 + d) :: char) :: nat) = 48 + d" by (simp add: of_char_of)
  with \<open>d < 10\<close> show ?thesis by (simp add: digitValue_def Let_def)
qed

lemma decimal_digits: "c \<in> set (decimal n) \<Longrightarrow> digitValue 10 c \<noteq> None"
proof (induction n rule: decimal.induct)
  case (1 n)
  have "c \<in> set (if n < 10 then [char_of (48 + n)] else decimal (n div 10) @ [char_of (48 + n mod 10)])"
    using 1(2) decimal.simps [of n] by simp
  with 1(1) show ?case by (auto simp: digitValue_char_of split: if_splits)
qed

lemma decimal_Nil [simp]: "decimal n \<noteq> []"
  by (subst decimal.simps) simp

lemma foldl_decimal: "foldl (\<lambda>n c. 10 * n + the (digitValue 10 c)) 0 (decimal n) = n"
proof (induction n rule: decimal.induct)
  case (1 n)
  show ?case
  proof (cases "n < 10")
    case True
    then show ?thesis by (subst decimal.simps) (simp add: digitValue_char_of)
  next
    case False
    then show ?thesis using 1 by (subst decimal.simps) (simp add: digitValue_char_of)
  qed
qed

lemma digit_not: 
  "digitValue 10 c \<noteq> None \<Longrightarrow> c \<noteq> CHR ''.'' \<and> c \<noteq> CHR '':'' \<and> c \<noteq> CHR ''-'' \<and> c \<noteq> CHR ''+'' \<and> \<not> isspace c"
  by (auto simp: digitValue_def isspace_def Let_def split: if_splits)

lemma decimal_not:
  "CHR ''.'' \<notin> set (decimal n)" "CHR '':'' \<notin> set (decimal n)"
  using decimal_digits digit_not by blast+

lemma stoul_decimal: "n < 2 ^ 64 \<Longrightarrow> stoul 10 (decimal n) = Inr n"
proof -
  assume n: "n < 2 ^ 64"
  obtain c cs where d: "decimal n = c # cs" by (cases "decimal n") simp_all
  have dig: "digitValue 10 x \<noteq> None" if "x \<in> set (c # cs)" for x
    using decimal_digits [of x n] that d by simp
  have "dropWhile isspace (decimal n) = decimal n"
    using digit_not [OF dig [of c]] by (simp add: d)
  moreover have "takeWhile (\<lambda>c. digitValue 10 c \<noteq> None) (decimal n) = decimal n"
    using dig d by (simp add: takeWhile_eq_all_conv)
  moreover have "c \<noteq> CHR ''-''" "c \<noteq> CHR ''+''"
    using digit_not [OF dig [of c]] by simp_all
  ultimately show "stoul 10 (decimal n) = Inr n"
    using n foldl_decimal [of n] d by (simp add: stoul_def Let_def)
qed

lemma findFrom_mid: "c \<notin> set xs \<Longrightarrow> findFrom c (pre @ xs @ c # rest) (length pre) = Some (length pre + length xs)"
proof -
  assume "c \<notin> set xs"
  then have "takeWhile (\<lambda>x. x \<noteq> c) (xs @ c # rest) = xs"
    by (induction xs) auto
  then show ?thesis by (simp add: findFrom_def Let_def)
qed

lemma findFrom_none: "c \<notin> set xs \<Longrightarrow> findFrom c xs 0 = None"
proof -
  assume "c \<notin> set xs"
  then have "length (takeWhile (\<lambda>x. x \<noteq> c) xs) = length xs"
    by (induction xs) auto
  then show ?thesis by (simp add: findFrom_def Let_def)
qed

lemma ipv4Bytes_step:
  assumes "n < 2 ^ 64"
  shows "ipv4Bytes (Suc k) (pre @ decimal n @ CHR ''.'' # rest) (length pre) =
    bindR (ipv4Bytes k ((pre @ decimal n @ ''.'') @ rest) (length (pre @ decimal n @ ''.'')))
      (\<lambda>bs. Inr (of_nat n # bs))"
  using findFrom_mid [OF decimal_not(1), of pre n rest] assms
  by (simp add: Let_def substr_def stoul_decimal)

section \<open>Round trips\<close>

lemma byte_less: "unat b < 2 ^ 8" for b :: byte
  by (rule order_less_le_trans [OF unsigned_less]) simp

lemma port_less: "unat p < 2 ^ 16" for p :: Port
  by (rule order_less_le_trans [OF unsigned_less]) simp

lemma length_word: "n < 2 ^ 16 \<Longrightarrow> unat (of_nat n :: 16 word) = n"
  by (simp add: unat_of_nat)

lemma ipv4Bytes_host:
  "ipv4Bytes 4 (host (IPv4WithPortAddress b0 b1 b2 b3 p) @ ''.'') 0 = Inr [b0, b1, b2, b3]"
proof -
  let ?d = "\<lambda>b :: byte. decimal (unat b)"
  have small: "unat b < 2 ^ 64" for b :: byte using byte_less [of b] by simp
  have "ipv4Bytes 4 (host (IPv4WithPortAddress b0 b1 b2 b3 p) @ ''.'') 0 =
      ipv4Bytes (Suc 3) ([] @ ?d b0 @ CHR ''.'' # (?d b1 @ ''.'' @ ?d b2 @ ''.'' @ ?d b3 @ ''.'')) (length ([] :: string))"
    by (simp add: numeral_eq_Suc)
  also have "\<dots> = bindR (ipv4Bytes (Suc 2) (([] @ ?d b0 @ ''.'') @ ?d b1 @ CHR ''.'' # (?d b2 @ ''.'' @ ?d b3 @ ''.''))
      (length ([] @ ?d b0 @ ''.''))) (\<lambda>bs. Inr (b0 # bs))"
    by (subst ipv4Bytes_step [OF small]) (simp add: numeral_eq_Suc)
  also have "\<dots> = bindR (bindR (ipv4Bytes (Suc 1) ((([] @ ?d b0 @ ''.'') @ ?d b1 @ ''.'') @ ?d b2 @ CHR ''.'' # (?d b3 @ ''.''))
      (length (([] @ ?d b0 @ ''.'') @ ?d b1 @ ''.''))) (\<lambda>bs. Inr (b1 # bs))) (\<lambda>bs. Inr (b0 # bs))"
    by (subst ipv4Bytes_step [OF small]) (simp add: numeral_eq_Suc)
  also have "\<dots> = bindR (bindR (bindR (ipv4Bytes (Suc 0) (((([] @ ?d b0 @ ''.'') @ ?d b1 @ ''.'') @ ?d b2 @ ''.'') @ ?d b3 @ CHR ''.'' # [])
      (length ((([] @ ?d b0 @ ''.'') @ ?d b1 @ ''.'') @ ?d b2 @ ''.''))) (\<lambda>bs. Inr (b2 # bs)))
      (\<lambda>bs. Inr (b1 # bs))) (\<lambda>bs. Inr (b0 # bs))"
    by (subst ipv4Bytes_step [OF small]) simp
  also have "\<dots> = Inr [b0, b1, b2, b3]"
    by (subst ipv4Bytes_step [OF small]) simp
  finally show ?thesis .
qed

lemma host_not: "kAddressSeparator \<notin> set (host (IPv4WithPortAddress b0 b1 b2 b3 p))"
  using decimal_not(2) by (simp add: kAddressSeparator_def)

lemma parse_print_ipv4:
  "newIPv4WithPortAddress (fullAddress (IPv4WithPortAddress b0 b1 b2 b3 p)) = Inr (IPv4WithPortAddress b0 b1 b2 b3 p)"
proof -
  let ?h = "host (IPv4WithPortAddress b0 b1 b2 b3 p)"
  have f: "findFrom kAddressSeparator (?h @ kAddressSeparator # decimal (unat p)) 0 = Some (length ?h)"
    using findFrom_mid [OF host_not, where pre = "[]" and rest = "decimal (unat p)"] by (simp del: host.simps)
  have full: "fullAddress (IPv4WithPortAddress b0 b1 b2 b3 p) = ?h @ kAddressSeparator # decimal (unat p)"
    by simp
  have "unat p < 2 ^ 64" using port_less [of p] by simp
  then have "portOfText (decimal (unat p)) = Inr p"
    by (simp add: portOfText_def stoul_decimal)
  then show ?thesis
    unfolding newIPv4WithPortAddress_def full f
    by (simp add: substr_def ipv4Bytes_host ipv4OfBytes_def del: host.simps)
qed

definition gnsNameOk :: "string \<Rightarrow> bool" where
  "gnsNameOk name \<longleftrightarrow> kGNSAddressSeparator \<notin> set name"

lemma parse_print_gns:
  assumes "gnsNameOk name" and "kAddressSeparator \<notin> set name" and "kAddressSeparator \<notin> set provider"
  shows "newGNSAddress (fullAddress (GNSAddress name provider h p)) = Inr (GNSAddress name provider [] 0)"
proof -
  have a: "findFrom kAddressSeparator (name @ kGNSAddressSeparator # provider) 0 = None"
    using assms by (intro findFrom_none) (auto simp: kAddressSeparator_def kGNSAddressSeparator_def)
  have b: "findFrom kGNSAddressSeparator (name @ kGNSAddressSeparator # provider) 0 = Some (length name)"
    using findFrom_mid [of kGNSAddressSeparator name "[]" provider] assms(1) by (simp add: gnsNameOk_def)
  show ?thesis by (simp add: newGNSAddress_def a b substr_def)
qed

lemma wordOfBytes_wordBytes: "wordBytes w = [lo, hi] \<Longrightarrow> wordOfBytes lo hi = w"
proof -
  assume "wordBytes w = [lo, hi]"
  then have lh: "lo = ucast w" "hi = ucast (drop_bit 8 w)" by (simp_all add: wordBytes_def)
  have l: "unat lo = unat w mod 256" by (simp add: lh unsigned_ucast_eq take_bit_eq_mod)
  have h: "unat hi = unat w div 256"
    using port_less [of w]
    by (simp add: lh unsigned_ucast_eq take_bit_eq_mod unsigned_drop_bit_eq del: ) (simp add: drop_bit_eq_div)
  have "unat (wordOfBytes lo hi) = (unat lo + 256 * unat hi) mod 2 ^ 16"
    by (simp add: wordOfBytes_def unat_word_ariths unsigned_ucast_eq take_bit_eq_mod mod_simps)
  also have "unat lo + 256 * unat hi = unat w"
    by (simp add: l h)
  finally have "unat (wordOfBytes lo hi) = unat w"
    using port_less [of w] by simp
  then show ?thesis by (simp only: word_unat_eq_iff)
qed

definition addressStorable :: "Address \<Rightarrow> bool" where
  "addressStorable address =
     (case address of
        IPv4WithPortAddress _ _ _ _ _ \<Rightarrow> True
      | GNSAddress name provider _ _ \<Rightarrow> gnsNameOk name \<and> length name + 1 + length provider < 2 ^ 16)"

text \<open>What is written for an address: a GNS address loses its host and its port.\<close>

definition reread :: "Port \<Rightarrow> Address \<Rightarrow> Address" where
  "reread unset address =
     (case address of
        IPv4WithPortAddress _ _ _ _ _ \<Rightarrow> address
      | GNSAddress name provider _ _ \<Rightarrow> GNSAddress name provider [] unset)"

lemma reread_same: "sameAddress (reread unset a) a"
  by (cases a) (simp_all add: reread_def sameAddress_def)

lemma charOfByte_byteOfChar [simp]: "charOfByte (byteOfChar c) = c"
proof -
  have "(of_char c :: nat) < 256" by (rule nat_of_char_less_256)
  then show ?thesis by (simp add: charOfByte_def byteOfChar_def unat_of_nat)
qed

lemma serialize_length:
  "addressStorable a \<Longrightarrow> length (serializeToBytes a) = serializedSize a"
  by (cases a) (simp_all add: addressStorable_def wordBytes_def Let_def length_word del: of_nat_Suc of_nat_add)

lemma deserialize_serialize:
  assumes "addressStorable a"
  shows "deserializeAddress unset (serializeToBytes a @ rest) = Inr (Some (reread unset a))"
proof (cases a)
  case (IPv4WithPortAddress b0 b1 b2 b3 p)
  then show ?thesis
    using wordOfBytes_wordBytes [of p] by (simp add: deserializeAddress_def deserializeIPv4_def wordBytes_def reread_def)
next
  case (GNSAddress name provider h p)
  let ?full = "name @ kGNSAddressSeparator # provider"
  let ?n = "of_nat (length ?full) :: 16 word"
  have n: "unat ?n = length ?full"
    using assms by (simp add: GNSAddress addressStorable_def length_word del: of_nat_Suc of_nat_add)
  then have n0: "?n \<noteq> 0" using unat_0 by (metis length_0_conv append_is_Nil_conv list.distinct(1))
  obtain lo hi where lh: "wordBytes ?n = [lo, hi]" by (simp add: wordBytes_def)
  have w: "wordOfBytes lo hi = ?n" by (rule wordOfBytes_wordBytes [OF lh])
  have bytes: "serializeToBytes a @ rest = 41 # lo # hi # map byteOfChar ?full @ rest"
    using n lh by (simp add: GNSAddress Let_def del: of_nat_Suc of_nat_add)
  have f: "findFrom kGNSAddressSeparator ?full 0 = Some (length name)"
    using findFrom_mid [of kGNSAddressSeparator name "[]" provider] assms
    by (simp add: GNSAddress addressStorable_def gnsNameOk_def)
  have "deserializeGNS unset (41 # lo # hi # map byteOfChar ?full @ rest) = Inr (GNSAddress name provider [] unset)"
    using n0 n f unfolding deserializeGNS_def by (simp add: w Let_def comp_def substr_def del: of_nat_Suc of_nat_add)
  then show ?thesis by (simp add: bytes deserializeAddress_def) (simp add: GNSAddress reread_def)
qed

section \<open>Properties\<close>

text \<open>C39: addresses survive their text and their byte format. Every IPv4 address is read back from what
  it prints; a GNS address is, up to host and port, when its name holds no separator; and a storable
  address is read back from its bytes, wherever they stand in a buffer, as an address that compares equal.\<close>

theorem address_roundtrips:
  "newIPv4WithPortAddress (fullAddress (IPv4WithPortAddress b0 b1 b2 b3 p)) = Inr (IPv4WithPortAddress b0 b1 b2 b3 p) \<and>
   (kGNSAddressSeparator \<notin> set name \<and> kAddressSeparator \<notin> set (name @ provider) \<longrightarrow>
      newGNSAddress (fullAddress (GNSAddress name provider h p)) = Inr (GNSAddress name provider [] 0)) \<and>
   (addressStorable a \<longrightarrow>
      (\<exists>a'. deserializeAddress unset (serializeToBytes a @ rest) = Inr (Some a') \<and> sameAddress a' a))"
  using parse_print_ipv4 parse_print_gns [of name provider h p] deserialize_serialize [of a unset rest] reread_same [of unset a]
  by (simp add: gnsNameOk_def)

theorem address_roundtrips_witness:
  "newGNSAddress (fullAddress (GNSAddress ''bob'' ''example'' [] 5)) = Inr (GNSAddress ''bob'' ''example'' [] 0) \<and>
   (\<exists>a'. deserializeAddress 0 (serializeToBytes (GNSAddress ''bob'' ''example'' [] 5) @ [1, 2]) = Inr (Some a'))"
  using address_roundtrips [of 127 0 0 1 5 "''bob''" "''example''" "[]" "GNSAddress ''bob'' ''example'' [] 5" 0 "[1, 2]"]
  by (auto simp: kGNSAddressSeparator_def kAddressSeparator_def addressStorable_def gnsNameOk_def
      simp del: fullAddress.simps serializeToBytes.simps)

end
