(* ===== verification/Contractors.thy ===== *)
theory Contractors
  imports Addresses Trust_Lines_Manager
begin

text \<open>
  The contractors a node has channels with: \<^verbatim>\<open>src/src/core/contractors/Contractor.cpp\<close>, the keys of a
  channel (\<^verbatim>\<open>crypto/MsgEncryptor.cpp\<close>), the two tables (\<^verbatim>\<open>io/storage/ContractorsHandler.cpp\<close>,
  \<^verbatim>\<open>io/storage/AddressHandler.cpp\<close>) and \<^verbatim>\<open>contractors/ContractorsManager.cpp\<close>.

  The manager keeps a map from ids to contractors in memory and writes every change to the tables; the
  operations work on the pair of both. The tables have the declared constraints: ids are unique, an
  address names a contractor, and deleting a contractor deletes its addresses and trust lines. Every
  other failure of the engine is the flag of the trust line table. New key pairs come from libsodium
  and are an argument. A field the code leaves uninitialised holds \<open>unset\<close>.
\<close>

section \<open>The keys of a channel\<close>

definition kBytesSize :: nat where
  "kBytesSize = 32"

record KeyTrio =
  publicKey :: "byte list option"
  secretKey :: "byte list option"
  contractorPublicKey :: "byte list option"

text \<open>\<^verbatim>\<open>serialize\<close> resizes to three keys, filled with zeros, and dereferences the own keys.\<close>

definition serializeKeys :: "KeyTrio \<Rightarrow> byte list result" where
  "serializeKeys keyTrio =
     (case (publicKey keyTrio, secretKey keyTrio) of
        (Some pk, Some sk) \<Rightarrow>
          Inr (pk @ sk @ (case contractorPublicKey keyTrio of None \<Rightarrow> replicate kBytesSize 0 | Some k \<Rightarrow> k))
      | _ \<Rightarrow> Inl UndefinedBehaviour)"

definition deserializeKeys :: "byte list \<Rightarrow> KeyTrio" where
  "deserializeKeys blob =
     \<lparr>publicKey = (if length blob \<ge> kBytesSize then Some (take kBytesSize blob) else None),
      secretKey = (if length blob \<ge> kBytesSize + kBytesSize
                   then Some (take kBytesSize (drop kBytesSize blob)) else None),
      contractorPublicKey = (if length blob \<ge> kBytesSize + kBytesSize + kBytesSize
                   then Some (take kBytesSize (drop (kBytesSize + kBytesSize) blob)) else None)\<rparr>"

section \<open>A contractor\<close>

record ContractorRecord =
  contractorId :: ContractorID
  mOwnIdOnContractorSide :: ContractorID
  mCryptoKey :: "KeyTrio option"
  mIsConfirmed :: bool
  mAddresses :: "Address list"

definition newContractor ::
  "ContractorID \<Rightarrow> ContractorID \<Rightarrow> Address list \<Rightarrow> KeyTrio option \<Rightarrow> ContractorRecord" where
  "newContractor unset cid addresses cryptoKey =
     \<lparr>contractorId = cid, mOwnIdOnContractorSide = unset, mCryptoKey = cryptoKey,
      mIsConfirmed = False, mAddresses = addresses\<rparr>"

definition contractorFromTable ::
  "ContractorID \<Rightarrow> ContractorID \<Rightarrow> KeyTrio option \<Rightarrow> bool \<Rightarrow> ContractorRecord" where
  "contractorFromTable cid idOnContractorSide cryptoKey isConfirmed =
     \<lparr>contractorId = cid, mOwnIdOnContractorSide = idOnContractorSide, mCryptoKey = cryptoKey,
      mIsConfirmed = isConfirmed, mAddresses = []\<rparr>"

definition mainAddress :: "Address list \<Rightarrow> Address result" where
  "mainAddress addresses = (case addresses of [] \<Rightarrow> Inl StdOutOfRange | a # _ \<Rightarrow> Inr a)"

definition containsAddresses :: "Address list \<Rightarrow> Address list \<Rightarrow> bool" where
  "containsAddresses mine addresses = list_all (\<lambda>address. list_ex (\<lambda>a. sameAddress a address) mine) addresses"

definition containsAtLeastOneAddress :: "Address list \<Rightarrow> Address list \<Rightarrow> bool" where
  "containsAtLeastOneAddress mine addresses = list_ex (\<lambda>address. list_ex (\<lambda>a. sameAddress a address) mine) addresses"

text \<open>The overloaded comparison: the addresses in order.\<close>

definition equalContractors :: "Address list \<Rightarrow> Address list \<Rightarrow> bool" where
  "equalContractors addresses1 addresses2 =
     (if length addresses1 \<noteq> length addresses2 then False else list_all2 sameAddress addresses1 addresses2)"

text \<open>The byte format of a contractor is its addresses behind one byte with their number.\<close>

definition serializeContractor :: "Address list \<Rightarrow> byte list" where
  "serializeContractor addresses = of_nat (length addresses) # concat (map serializeToBytes addresses)"

fun deserializeAddresses :: "nat \<Rightarrow> Port \<Rightarrow> byte list \<Rightarrow> Address list result" where
  "deserializeAddresses 0 unset buffer = Inr []"
| "deserializeAddresses (Suc n) unset buffer =
     bindR (deserializeAddress unset buffer) (\<lambda>address. case address of
       None \<Rightarrow> Inl UndefinedBehaviour
     | Some a \<Rightarrow>
         bindR (deserializeAddresses n unset (drop (serializedSize a) buffer)) (\<lambda>rest. Inr (a # rest)))"

definition contractorFromBytes :: "Port \<Rightarrow> byte list \<Rightarrow> Address list result" where
  "contractorFromBytes unset buffer =
     (case buffer of
        [] \<Rightarrow> Inl UndefinedBehaviour
      | addressesCount # rest \<Rightarrow> deserializeAddresses (unat addressesCount) unset rest)"

section \<open>The tables\<close>

record ContractorRow =
  crId :: ContractorID
  crIdOnContractorSide :: "ContractorID option"
  crCryptoKey :: "byte list"
  crIsConfirmed :: bool

record AddressRow =
  arType :: AddressType
  arContractorId :: ContractorID
  arSize :: nat
  arAddress :: "byte list"

record ContractorStore =
  contractorTable :: "ContractorRow list"
  addressTable :: "AddressRow list"
  lineStore :: TrustLineStore

abbreviation down :: "ContractorStore \<Rightarrow> bool" where
  "down store \<equiv> broken (lineStore store)"

text \<open>The blob of the key; an absent key makes an empty blob whose first byte is addressed.\<close>

definition keyBlob :: "ContractorRecord \<Rightarrow> byte list result" where
  "keyBlob c = (case mCryptoKey c of None \<Rightarrow> Inl UndefinedBehaviour | Some k \<Rightarrow> serializeKeys k)"

definition insertContractorRow :: "ContractorRow \<Rightarrow> ContractorStore \<Rightarrow> unit result \<times> ContractorStore" where
  "insertContractorRow row store =
     (if down store \<or> crId row \<in> set (map crId (contractorTable store)) then throwing IOError store
      else returning ()
        (store\<lparr>contractorTable := contractorTable store @ [row],
               lineStore := (lineStore store)\<lparr>contractorRows := contractorRows (lineStore store) @ [crId row]\<rparr>\<rparr>))"

definition saveContractor :: "ContractorRecord \<Rightarrow> ContractorStore \<Rightarrow> unit result \<times> ContractorStore" where
  "saveContractor c store =
     bindS (keyBlob c, store) (\<lambda>blob.
       insertContractorRow \<lparr>crId = contractorId c, crIdOnContractorSide = None, crCryptoKey = blob,
                            crIsConfirmed = False\<rparr>)"

definition saveContractorFull :: "ContractorRecord \<Rightarrow> ContractorStore \<Rightarrow> unit result \<times> ContractorStore" where
  "saveContractorFull c store =
     bindS (keyBlob c, store) (\<lambda>blob.
       insertContractorRow \<lparr>crId = contractorId c,
                            crIdOnContractorSide = Some (mOwnIdOnContractorSide c), crCryptoKey = blob,
                            crIsConfirmed = True\<rparr>)"

text \<open>An \<^verbatim>\<open>UPDATE ... WHERE id = ?\<close> that changes no row is a \<open>ValueError\<close>.\<close>

definition updateContractorRow ::
  "ContractorID \<Rightarrow> (ContractorRow \<Rightarrow> ContractorRow) \<Rightarrow> ContractorStore \<Rightarrow> unit result \<times> ContractorStore" where
  "updateContractorRow cid f store =
     (if down store then throwing IOError store
      else if cid \<notin> set (map crId (contractorTable store)) then throwing ValueError store
      else returning ()
        (store\<lparr>contractorTable := map (\<lambda>r. if crId r = cid then f r else r) (contractorTable store)\<rparr>))"

definition saveConfirmationInfo :: "ContractorRecord \<Rightarrow> ContractorStore \<Rightarrow> unit result \<times> ContractorStore" where
  "saveConfirmationInfo c store =
     bindS (keyBlob c, store) (\<lambda>blob. updateContractorRow (contractorId c)
       (\<lambda>r. r\<lparr>crIdOnContractorSide := Some (mOwnIdOnContractorSide c), crCryptoKey := blob,
              crIsConfirmed := True\<rparr>))"

definition updateCryptoKey :: "ContractorRecord \<Rightarrow> ContractorStore \<Rightarrow> unit result \<times> ContractorStore" where
  "updateCryptoKey c store =
     bindS (keyBlob c, store) (\<lambda>blob. updateContractorRow (contractorId c)
       (\<lambda>r. r\<lparr>crCryptoKey := blob, crIsConfirmed := True\<rparr>))"

definition updateChannelIdOnContractorSide ::
  "ContractorRecord \<Rightarrow> ContractorStore \<Rightarrow> unit result \<times> ContractorStore" where
  "updateChannelIdOnContractorSide c =
     updateContractorRow (contractorId c) (\<lambda>r. r\<lparr>crIdOnContractorSide := Some (mOwnIdOnContractorSide c)\<rparr>)"

text \<open>A \<^verbatim>\<open>NULL\<close> id is read as 0.\<close>

definition allStoredContractors :: "ContractorStore \<Rightarrow> ContractorRecord list result" where
  "allStoredContractors store =
     (if down store then Inl IOError
      else Inr (map (\<lambda>r. contractorFromTable (crId r)
                     (case crIdOnContractorSide r of None \<Rightarrow> 0 | Some i \<Rightarrow> i)
                     (Some (deserializeKeys (crCryptoKey r))) (crIsConfirmed r))
                 (contractorTable store)))"

definition allContractorIDs :: "ContractorStore \<Rightarrow> ContractorID list result" where
  "allContractorIDs store = (if down store then Inl IOError else Inr (map crId (contractorTable store)))"

definition removeContractorRow :: "ContractorID \<Rightarrow> ContractorStore \<Rightarrow> unit result \<times> ContractorStore" where
  "removeContractorRow cid store =
     (if down store then throwing IOError store
      else if cid \<notin> set (map crId (contractorTable store)) then throwing ValueError store
      else returning ()
        (store\<lparr>contractorTable := filter (\<lambda>r. crId r \<noteq> cid) (contractorTable store),
               addressTable := filter (\<lambda>r. arContractorId r \<noteq> cid) (addressTable store),
               lineStore := (lineStore store)\<lparr>
                 contractorRows := filter (\<lambda>c. c \<noteq> cid) (contractorRows (lineStore store)),
                 lineRows := filter (\<lambda>r. rowContractorId r \<noteq> cid) (lineRows (lineStore store))\<rparr>\<rparr>))"

definition saveAddress :: "ContractorID \<Rightarrow> Address \<Rightarrow> ContractorStore \<Rightarrow> unit result \<times> ContractorStore" where
  "saveAddress cid address store =
     (if down store \<or> cid \<notin> set (map crId (contractorTable store)) then throwing IOError store
      else returning ()
        (store\<lparr>addressTable := addressTable store @
           [\<lparr>arType = typeID_address address, arContractorId = cid, arSize = serializedSize address,
             arAddress = serializeToBytes address\<rparr>]\<rparr>))"

fun saveAddresses :: "ContractorID \<Rightarrow> Address list \<Rightarrow> ContractorStore \<Rightarrow> unit result \<times> ContractorStore" where
  "saveAddresses cid [] store = returning () store"
| "saveAddresses cid (a # rest) store = bindS (saveAddress cid a store) (\<lambda>_. saveAddresses cid rest)"

definition removeAddresses :: "ContractorID \<Rightarrow> ContractorStore \<Rightarrow> unit result \<times> ContractorStore" where
  "removeAddresses cid store =
     (if down store then throwing IOError store
      else returning ()
        (store\<lparr>addressTable := filter (\<lambda>r. arContractorId r \<noteq> cid) (addressTable store)\<rparr>))"

text \<open>Every exception of reading an address is caught; the base class \<^verbatim>\<open>Exception\<close> that is thrown instead is
  represented by \<open>RuntimeError\<close>.\<close>

definition addressOfRow :: "Port \<Rightarrow> AddressRow \<Rightarrow> Address result" where
  "addressOfRow unset row =
     (case (case arType row of
              IPv4_IncludingPort \<Rightarrow> deserializeIPv4 (arAddress row)
            | GNS \<Rightarrow> deserializeGNS unset (arAddress row)) of
        Inl UndefinedBehaviour \<Rightarrow> Inl UndefinedBehaviour
      | Inl _ \<Rightarrow> Inl RuntimeError
      | Inr a \<Rightarrow> Inr a)"

fun collectR :: "('a \<Rightarrow> 'b result) \<Rightarrow> 'a list \<Rightarrow> 'b list result" where
  "collectR f [] = Inr []"
| "collectR f (x # xs) = bindR (f x) (\<lambda>y. bindR (collectR f xs) (\<lambda>ys. Inr (y # ys)))"

definition storedAddresses :: "Port \<Rightarrow> ContractorID \<Rightarrow> ContractorStore \<Rightarrow> Address list result" where
  "storedAddresses unset cid store =
     (if down store then Inl IOError
      else collectR (addressOfRow unset) (filter (\<lambda>r. arContractorId r = cid) (addressTable store)))"

section \<open>New keys\<close>

text \<open>What a call finds: the pair libsodium makes, and what uninitialised memory holds.\<close>

record KeySource =
  newPair :: "byte list \<times> byte list"
  keyMemory :: "byte list"
  unsetId :: ContractorID

text \<open>\<^verbatim>\<open>parseHex\<close> writes one byte for two characters into an array of 32 bytes, without looking at its end.\<close>

fun parseHex :: "nat \<Rightarrow> string \<Rightarrow> byte list \<Rightarrow> byte list result" where
  "parseHex i [] out = Inr out"
| "parseHex i [c] out =
     bindR (stoul 16 [c]) (\<lambda>v. if i < length out then Inr (out[i := of_nat v]) else Inl UndefinedBehaviour)"
| "parseHex i (c # d # rest) out =
     bindR (stoul 16 [c, d]) (\<lambda>v.
       if i < length out then parseHex (i + 1) rest (out[i := of_nat v]) else Inl UndefinedBehaviour)"

definition generateUndefinedKey :: "KeySource \<Rightarrow> byte list result" where
  "generateUndefinedKey src = parseHex 0 (replicate kBytesSize CHR ''0'') (keyMemory src)"

definition generateKeyTrio :: "KeySource \<Rightarrow> string \<Rightarrow> KeyTrio result" where
  "generateKeyTrio src outputKey =
     bindR (if outputKey \<noteq> [] then parseHex 0 outputKey (keyMemory src) else generateUndefinedKey src)
       (\<lambda>k. Inr \<lparr>publicKey = Some (fst (newPair src)), secretKey = Some (snd (newPair src)),
                 contractorPublicKey = Some k\<rparr>)"

definition generateKeyTrioFor :: "KeySource \<Rightarrow> byte list option \<Rightarrow> KeyTrio" where
  "generateKeyTrioFor src contractorKey =
     \<lparr>publicKey = Some (fst (newPair src)), secretKey = Some (snd (newPair src)),
      contractorPublicKey = contractorKey\<rparr>"

section \<open>The manager\<close>

record ContractorsManager =
  mContractors :: "(ContractorID \<times> ContractorRecord) list"
  mSelf :: "Address list"

type_synonym ContractorsState = "ContractorsManager \<times> ContractorStore"

definition kNotFoundContractorID :: ContractorID where
  "kNotFoundContractorID = - 1"

section \<open>Construction\<close>

definition ownAddress :: "string \<Rightarrow> string \<Rightarrow> Address result" where
  "ownAddress kind text =
     (if kind = ''ipv4'' then (case newIPv4WithPortAddress text of Inl _ \<Rightarrow> Inl ValueError | Inr a \<Rightarrow> Inr a)
      else if kind = ''gns'' then (case newGNSAddress text of Inl _ \<Rightarrow> Inl ValueError | Inr a \<Rightarrow> Inr a)
      else Inl ValueError)"

fun readOwnAddresses ::
  "(string \<times> string) list \<Rightarrow> Address list \<Rightarrow> nat option \<Rightarrow> (Address list \<times> nat option) result" where
  "readOwnAddresses [] selfAddresses idxOfMainAddress = Inr (selfAddresses, idxOfMainAddress)"
| "readOwnAddresses ((kind, text) # rest) selfAddresses idxOfMainAddress =
     bindR (ownAddress kind text) (\<lambda>address.
       if port address \<noteq> 0
       then (if idxOfMainAddress \<noteq> None then Inl ValueError
             else readOwnAddresses rest (selfAddresses @ [address]) (Some (length selfAddresses)))
       else readOwnAddresses rest (selfAddresses @ [address]) idxOfMainAddress)"

definition ownContractor :: "(string \<times> string) list \<Rightarrow> Address list result" where
  "ownContractor ownAddressesStr =
     bindR (readOwnAddresses ownAddressesStr [] None) (\<lambda>(selfAddresses, idxOfMainAddress).
       case idxOfMainAddress of
         None \<Rightarrow> Inl ValueError
       | Some i \<Rightarrow> Inr (selfAddresses[0 := selfAddresses ! i, i := selfAddresses ! 0]))"

text \<open>\<^verbatim>\<open>insert\<close> does not overwrite.\<close>

fun loadContractors ::
  "Port \<Rightarrow> ContractorStore \<Rightarrow> ContractorRecord list \<Rightarrow> (ContractorID \<times> ContractorRecord) list \<Rightarrow>
   (ContractorID \<times> ContractorRecord) list result" where
  "loadContractors unset store [] cs = Inr cs"
| "loadContractors unset store (c # rest) cs =
     bindR (storedAddresses unset (contractorId c) store) (\<lambda>addresses.
       loadContractors unset store rest
         (if map_of cs (contractorId c) = None
          then ordUpdate (contractorId c) (c\<lparr>mAddresses := addresses\<rparr>) cs else cs))"

definition newContractorsManager ::
  "Port \<Rightarrow> (string \<times> string) list \<Rightarrow> ContractorStore \<Rightarrow> ContractorsManager result" where
  "newContractorsManager unset ownAddressesStr store =
     bindR (ownContractor ownAddressesStr) (\<lambda>self.
     bindR (allStoredContractors store) (\<lambda>stored.
     bindR (loadContractors unset store stored []) (\<lambda>cs.
     Inr \<lparr>mContractors = cs, mSelf = self\<rparr>)))"

section \<open>Queries\<close>

definition allContractors :: "ContractorsManager \<Rightarrow> ContractorRecord list" where
  "allContractors cm = map snd (mContractors cm)"

definition contractorPresent :: "ContractorsManager \<Rightarrow> ContractorID \<Rightarrow> bool" where
  "contractorPresent cm cid \<longleftrightarrow> map_of (mContractors cm) cid \<noteq> None"

definition contractor :: "ContractorsManager \<Rightarrow> ContractorID \<Rightarrow> ContractorRecord result" where
  "contractor cm cid = (case map_of (mContractors cm) cid of None \<Rightarrow> Inl NotFoundError | Some c \<Rightarrow> Inr c)"

definition channelConfirmed :: "ContractorsManager \<Rightarrow> ContractorID \<Rightarrow> bool result" where
  "channelConfirmed cm cid = bindR (contractor cm cid) (\<lambda>c. Inr (mIsConfirmed c))"

definition idOnContractorSide :: "ContractorsManager \<Rightarrow> ContractorID \<Rightarrow> ContractorID result" where
  "idOnContractorSide cm cid = bindR (contractor cm cid) (\<lambda>c. Inr (mOwnIdOnContractorSide c))"

definition contractorAddresses :: "ContractorsManager \<Rightarrow> ContractorID \<Rightarrow> Address list result" where
  "contractorAddresses cm cid = bindR (contractor cm cid) (\<lambda>c. Inr (mAddresses c))"

definition contractorMainAddress :: "ContractorsManager \<Rightarrow> ContractorID \<Rightarrow> Address result" where
  "contractorMainAddress cm cid = bindR (contractor cm cid) (\<lambda>c. mainAddress (mAddresses c))"

definition contractorIDByAddresses :: "ContractorsManager \<Rightarrow> Address list \<Rightarrow> ContractorID" where
  "contractorIDByAddresses cm checkedAddresses =
     (case find (\<lambda>(cid, c). list_all (\<lambda>a. list_ex (\<lambda>checked. sameAddress checked a) checkedAddresses)
                              (mAddresses c)) (mContractors cm) of
        None \<Rightarrow> kNotFoundContractorID
      | Some (cid, c) \<Rightarrow> cid)"

definition contractorIDByAddress :: "ContractorsManager \<Rightarrow> Address \<Rightarrow> ContractorID" where
  "contractorIDByAddress cm address =
     (case find (\<lambda>(cid, c). list_ex (\<lambda>a. sameAddress a address) (mAddresses c)) (mContractors cm) of
        None \<Rightarrow> kNotFoundContractorID
      | Some (cid, c) \<Rightarrow> cid)"

definition nextFreeContractorID :: "ContractorStore \<Rightarrow> ContractorID result" where
  "nextFreeContractorID store =
     bindR (allContractorIDs store) (\<lambda>ids.
       case sort ids of
         [] \<Rightarrow> Inr 0
       | prevElement # rest \<Rightarrow> if prevElement \<noteq> 0 then Inr 0 else Inr (firstGap prevElement rest))"

section \<open>Changes\<close>

text \<open>A write to the tables, with the manager unchanged.\<close>

definition onTables ::
  "(ContractorStore \<Rightarrow> unit result \<times> ContractorStore) \<Rightarrow> ContractorsState \<Rightarrow> unit result \<times> ContractorsState" where
  "onTables f = (\<lambda>(cm, store). case f store of (res, store') \<Rightarrow> (res, cm, store'))"

definition putContractor :: "ContractorRecord \<Rightarrow> ContractorsManager \<Rightarrow> ContractorsManager" where
  "putContractor c cm = cm\<lparr>mContractors := ordUpdate (contractorId c) c (mContractors cm)\<rparr>"

definition createContractor ::
  "KeySource \<Rightarrow> Address list \<Rightarrow> string \<Rightarrow> ContractorID \<Rightarrow> ContractorsState \<Rightarrow>
   ContractorRecord result \<times> ContractorsState" where
  "createContractor src addresses cryptoKey channelIDOnContractorSide = (\<lambda>(cm, store).
     if contractorIDByAddresses cm addresses \<noteq> kNotFoundContractorID then throwing ValueError (cm, store)
     else
       bindS (nextFreeContractorID store, (cm, store)) (\<lambda>cid s.
       bindS (generateKeyTrio src cryptoKey, s) (\<lambda>key (cm, store).
         let fresh = newContractor (unsetId src) cid addresses (Some key);
             c = (if cryptoKey = [] then fresh
                  else fresh\<lparr>mOwnIdOnContractorSide := channelIDOnContractorSide, mIsConfirmed := True\<rparr>)
         in bindS (onTables (if cryptoKey = [] then saveContractor c else saveContractorFull c)
                     (putContractor c cm, store)) (\<lambda>_ s.
            bindS (onTables (saveAddresses cid addresses) s) (\<lambda>_.
            returning c)))))"

text \<open>The key belongs to the contractor: it is changed in place, before the write.\<close>

definition setConfirmationInfo ::
  "ContractorID \<Rightarrow> ContractorID \<Rightarrow> byte list option \<Rightarrow> ContractorsState \<Rightarrow> unit result \<times> ContractorsState" where
  "setConfirmationInfo cid idOnSide cryptoKey = (\<lambda>(cm, store).
     case map_of (mContractors cm) cid of
       None \<Rightarrow> throwing NotFoundError (cm, store)
     | Some c \<Rightarrow>
         (case mCryptoKey c of
            None \<Rightarrow> throwing NotFoundError (cm, store)
          | Some k \<Rightarrow>
              (let c' = c\<lparr>mCryptoKey := Some (k\<lparr>contractorPublicKey := cryptoKey\<rparr>),
                          mOwnIdOnContractorSide := idOnSide, mIsConfirmed := True\<rparr>
               in onTables (saveConfirmationInfo c') (putContractor c' cm, store))))"

definition updateContractorCryptoKey ::
  "KeySource \<Rightarrow> ContractorID \<Rightarrow> string \<Rightarrow> ContractorsState \<Rightarrow> unit result \<times> ContractorsState" where
  "updateContractorCryptoKey src cid cryptoKey = (\<lambda>(cm, store).
     case map_of (mContractors cm) cid of
       None \<Rightarrow> throwing NotFoundError (cm, store)
     | Some c \<Rightarrow>
         (case mCryptoKey c of
            None \<Rightarrow> throwing NotFoundError (cm, store)
          | Some k \<Rightarrow>
              bindS (parseHex 0 cryptoKey (keyMemory src), (cm, store)) (\<lambda>parsed (cm, store).
                let c' = c\<lparr>mCryptoKey := Some (k\<lparr>contractorPublicKey := Some parsed\<rparr>), mIsConfirmed := True\<rparr>
                in onTables (updateCryptoKey c') (putContractor c' cm, store))))"

definition updateChannelIDOnContractorSide ::
  "ContractorID \<Rightarrow> ContractorID \<Rightarrow> ContractorsState \<Rightarrow> unit result \<times> ContractorsState" where
  "updateChannelIDOnContractorSide cid channelIdOnContractorSide = (\<lambda>(cm, store).
     case map_of (mContractors cm) cid of
       None \<Rightarrow> throwing NotFoundError (cm, store)
     | Some c \<Rightarrow>
         (let c' = c\<lparr>mOwnIdOnContractorSide := channelIdOnContractorSide\<rparr>
          in onTables (updateChannelIdOnContractorSide c') (putContractor c' cm, store)))"

definition regenerateCryptoKey ::
  "KeySource \<Rightarrow> ContractorID \<Rightarrow> ContractorsState \<Rightarrow> unit result \<times> ContractorsState" where
  "regenerateCryptoKey src cid = (\<lambda>(cm, store).
     case map_of (mContractors cm) cid of
       None \<Rightarrow> throwing NotFoundError (cm, store)
     | Some c \<Rightarrow>
         (case mCryptoKey c of
            None \<Rightarrow> throwing NotFoundError (cm, store)
          | Some k \<Rightarrow>
              (let c' = c\<lparr>mCryptoKey := Some (generateKeyTrioFor src (contractorPublicKey k))\<rparr>
               in onTables (updateCryptoKey c') (putContractor c' cm, store))))"

definition updateContractorAddresses ::
  "ContractorID \<Rightarrow> Address list \<Rightarrow> ContractorsState \<Rightarrow> unit result \<times> ContractorsState" where
  "updateContractorAddresses cid newAddresses = (\<lambda>(cm, store).
     case map_of (mContractors cm) cid of
       None \<Rightarrow> throwing NotFoundError (cm, store)
     | Some c \<Rightarrow>
         bindS (onTables (removeAddresses cid) (cm, store)) (\<lambda>_ s.
         bindS (onTables (saveAddresses cid newAddresses) s) (\<lambda>_ (cm, store).
           returning () (putContractor (c\<lparr>mAddresses := newAddresses\<rparr>) cm, store))))"

definition removeContractor ::
  "ContractorID \<Rightarrow> ContractorsState \<Rightarrow> unit result \<times> ContractorsState" where
  "removeContractor cid = (\<lambda>(cm, store).
     case allTrustLinesByContractor cid (lineStore store) of
       Inl e \<Rightarrow> throwing e (cm, store)
     | Inr (_ # _) \<Rightarrow> throwing ValueError (cm, store)
     | Inr [] \<Rightarrow>
         bindS (onTables (removeAddresses cid) (cm, store)) (\<lambda>_ s.
         bindS (onTables (removeContractorRow cid) s) (\<lambda>_ (cm, store).
           returning () (cm\<lparr>mContractors := AList.delete cid (mContractors cm)\<rparr>, store))))"

section \<open>Memory and tables in step\<close>

definition key_ok :: "KeyTrio \<Rightarrow> bool" where
  "key_ok k \<longleftrightarrow> (\<exists>pk sk ck. k = \<lparr>publicKey = Some pk, secretKey = Some sk, contractorPublicKey = Some ck\<rparr> \<and>
     length pk = kBytesSize \<and> length sk = kBytesSize \<and> length ck = kBytesSize)"

definition addressRow :: "ContractorID \<Rightarrow> Address \<Rightarrow> AddressRow" where
  "addressRow cid a = \<lparr>arType = typeID_address a, arContractorId = cid, arSize = serializedSize a,
     arAddress = serializeToBytes a\<rparr>"

definition stored_as :: "ContractorStore \<Rightarrow> ContractorRecord \<Rightarrow> ContractorRow \<Rightarrow> bool" where
  "stored_as store c r \<longleftrightarrow> crId r = contractorId c \<and> keyBlob c = Inr (crCryptoKey r) \<and>
     (\<exists>k. mCryptoKey c = Some k \<and> key_ok k) \<and> list_all addressStorable (mAddresses c) \<and>
     (mIsConfirmed c \<longrightarrow> crIsConfirmed r) \<and>
     (\<forall>i. crIdOnContractorSide r = Some i \<longrightarrow> mOwnIdOnContractorSide c = i) \<and>
     filter (\<lambda>a. arContractorId a = contractorId c) (addressTable store) =
       map (addressRow (contractorId c)) (mAddresses c)"

definition in_step :: "ContractorsState \<Rightarrow> bool" where
  "in_step = (\<lambda>(cm, store).
     sorted (keys (mContractors cm)) \<and> distinct (keys (mContractors cm)) \<and>
     distinct (map crId (contractorTable store)) \<and>
     set (map crId (contractorTable store)) = set (keys (mContractors cm)) \<and>
     (\<forall>a \<in> set (addressTable store). arContractorId a \<in> set (map crId (contractorTable store))) \<and>
     (\<forall>r \<in> set (contractorTable store).
        \<exists>c. map_of (mContractors cm) (crId r) = Some c \<and> stored_as store c r))"

lemma keys_back: "key_ok k \<Longrightarrow> \<exists>blob. serializeKeys k = Inr blob \<and> deserializeKeys blob = k"
  by (auto simp: key_ok_def serializeKeys_def deserializeKeys_def)

lemma address_back: "addressStorable a \<Longrightarrow> addressOfRow unset (addressRow cid a) = Inr (reread unset a)"
  using deserialize_serialize [of a unset "[]"]
  by (cases a) (auto simp: addressOfRow_def addressRow_def deserializeAddress_def bindR_eq_Inr Let_def)

lemma collectR_map: "(\<And>x. x \<in> set xs \<Longrightarrow> f x = Inr (g x)) \<Longrightarrow> collectR f xs = Inr (map g xs)"
  by (induction xs) auto

lemma addresses_back:
  assumes "stored_as store c r" and "\<not> down store"
  shows "storedAddresses unset (contractorId c) store = Inr (map (reread unset) (mAddresses c))"
proof -
  have "collectR (addressOfRow unset) (map (addressRow (contractorId c)) xs) = Inr (map (reread unset) xs)"
    if "list_all addressStorable xs" for xs
    using that by (induction xs) (auto simp: address_back)
  then show ?thesis
    using assms by (simp add: storedAddresses_def stored_as_def)
qed

lemma in_stepD:
  assumes "in_step (cm, store)"
  shows "sorted (keys (mContractors cm))" and "distinct (keys (mContractors cm))"
    and "distinct (map crId (contractorTable store))"
    and "set (map crId (contractorTable store)) = set (keys (mContractors cm))"
    and "a \<in> set (addressTable store) \<Longrightarrow> arContractorId a \<in> set (keys (mContractors cm))"
    and "r \<in> set (contractorTable store) \<Longrightarrow>
      \<exists>c. map_of (mContractors cm) (crId r) = Some c \<and> stored_as store c r"
  using assms by (auto simp: in_step_def)

text \<open>Every operation changes one contractor: the conditions that remain are those of its row.\<close>

lemma in_step_put:
  assumes "in_step (cm, store)" and "map_of (mContractors cm) cid = Some c" and "contractorId c' = cid"
    and "addressTable store' = addressTable store"
    and "contractorTable store' = map (\<lambda>r. if crId r = cid then f r else r) (contractorTable store)"
    and "\<And>r. crId (f r) = crId r"
    and "\<And>r. crId r = cid \<Longrightarrow> stored_as store c r \<Longrightarrow> stored_as store c' (f r)"
  shows "in_step (putContractor c' cm, store')"
proof -
  note ok = in_stepD [OF assms(1)]
  have ids: "map crId (contractorTable store') = map crId (contractorTable store)"
    using assms(6) by (simp add: assms(5) comp_def)
  have mem: "cid \<in> set (keys (mContractors cm))" using assms(2) by (force dest: map_of_SomeD)
  have keys: "set (keys (mContractors (putContractor c' cm))) = set (keys (mContractors cm))"
    using mem keys_ordUpdate [of cid c' "mContractors cm"] by (auto simp: putContractor_def assms(3))
  have so: "stored_as store' x r = stored_as store x r" for x r
    by (simp add: stored_as_def assms(4))
  have "\<exists>c. map_of (mContractors (putContractor c' cm)) (crId r) = Some c \<and> stored_as store' c r"
    if r: "r \<in> set (contractorTable store')" for r
  proof -
    obtain r0 where r0: "r0 \<in> set (contractorTable store)" "r = (if crId r0 = cid then f r0 else r0)"
      using r by (auto simp: assms(5))
    obtain c0 where c0: "map_of (mContractors cm) (crId r0) = Some c0" "stored_as store c0 r0"
      using ok(6) [OF r0(1)] by blast
    show ?thesis
      using r0(2) c0 assms(2,3,6,7) by (auto simp: putContractor_def so)
  qed
  moreover have "sorted (keys (mContractors (putContractor c' cm))) \<and> distinct (keys (mContractors (putContractor c' cm)))"
    using sorted_ordUpdate [OF ok(1,2)] by (simp add: putContractor_def)
  ultimately show ?thesis
    using ok(3-5) by (simp add: in_step_def ids keys assms(4) del: set_map)
qed

text \<open>The calls that return. The arrays that hold keys have 32 bytes, as their type says.\<close>

definition source_ok :: "KeySource \<Rightarrow> bool" where
  "source_ok src \<longleftrightarrow> length (fst (newPair src)) = kBytesSize \<and> length (snd (newPair src)) = kBytesSize \<and>
     length (keyMemory src) = kBytesSize"

text \<open>Beside the state a step keeps what the calls have said: the id each contractor was last told to have on
  the other side, and the contractors whose key was made anew.\<close>

type_synonym Told = "(ContractorID \<rightharpoonup> ContractorID) \<times> ContractorID set"

inductive contractors_step :: "ContractorsState \<times> Told \<Rightarrow> ContractorsState \<times> Told \<Rightarrow> bool" where
  create: "createContractor src addresses cryptoKey channelID s = (Inr c, t) \<Longrightarrow> source_ok src \<Longrightarrow>
     list_all addressStorable addresses \<Longrightarrow>
     contractors_step (s, ids, again)
       (t, ids(contractorId c := (if cryptoKey = [] then None else Some channelID)), again - {contractorId c})"
| confirm: "setConfirmationInfo cid idOnSide (Some key) s = (Inr (), t) \<Longrightarrow> length key = kBytesSize \<Longrightarrow>
     contractors_step (s, ids, again) (t, ids(cid \<mapsto> idOnSide), again)"
| newKey: "updateContractorCryptoKey src cid cryptoKey s = (Inr (), t) \<Longrightarrow> source_ok src \<Longrightarrow>
     contractors_step (s, told) (t, told)"
| newChannelID: "updateChannelIDOnContractorSide cid channelID s = (Inr (), t) \<Longrightarrow>
     contractors_step (s, ids, again) (t, ids(cid \<mapsto> channelID), again)"
| regenerate: "regenerateCryptoKey src cid s = (Inr (), t) \<Longrightarrow> source_ok src \<Longrightarrow>
     contractors_step (s, ids, again) (t, ids, insert cid again)"
| newAddresses: "updateContractorAddresses cid addresses s = (Inr (), t) \<Longrightarrow>
     list_all addressStorable addresses \<Longrightarrow> contractors_step (s, told) (t, told)"
| remove: "removeContractor cid s = (Inr (), t) \<Longrightarrow> contractors_step (s, told) (t, told)"

text \<open>The tables hold what was told.\<close>

definition told_ok :: "ContractorsState \<times> Told \<Rightarrow> bool" where
  "told_ok = (\<lambda>((cm, store), ids, again). \<forall>r \<in> set (contractorTable store).
     crIdOnContractorSide r = ids (crId r) \<and>
     (\<exists>c. map_of (mContractors cm) (crId r) = Some c \<and>
        (crIsConfirmed r \<longleftrightarrow> mIsConfirmed c \<or> crId r \<in> again)))"

lemma onTables_Inr: "onTables f (cm, store) = (Inr (), t) \<longleftrightarrow> (\<exists>store'. f store = (Inr (), store') \<and> t = (cm, store'))"
  by (auto simp: onTables_def split: prod.splits)

lemma parseHex_length: "parseHex i str out = Inr out' \<Longrightarrow> length out' = length out"
  by (induction i str out arbitrary: out' rule: parseHex.induct) (auto simp: bindR_eq_Inr split: if_splits)

lemma serializeKeys_ok: "key_ok k \<Longrightarrow> \<exists>blob. serializeKeys k = Inr blob"
  using keys_back by blast

lemma key_ok_contractor: "key_ok k \<Longrightarrow> length ck = kBytesSize \<Longrightarrow> key_ok (k\<lparr>contractorPublicKey := Some ck\<rparr>)"
  by (auto simp: key_ok_def)

lemma updateContractorRow_Inr:
  "updateContractorRow cid f store = (Inr (), store') \<Longrightarrow>
     store' = store\<lparr>contractorTable := map (\<lambda>r. if crId r = cid then f r else r) (contractorTable store)\<rparr>"
  by (auto simp: updateContractorRow_def split: if_splits)

lemma in_step_id: "in_step (cm, store) \<Longrightarrow> map_of (mContractors cm) cid = Some c \<Longrightarrow>
    contractorId c = cid \<and> (\<exists>r. stored_as store c r)"
proof -
  assume ok: "in_step (cm, store)" and c: "map_of (mContractors cm) cid = Some c"
  have "cid \<in> set (map crId (contractorTable store))"
    using in_stepD(4) [OF ok] c by (force dest: map_of_SomeD)
  then obtain r where "r \<in> set (contractorTable store)" "crId r = cid" by auto
  then show ?thesis using in_stepD(6) [OF ok, of r] c by (auto simp: stored_as_def)
qed

text \<open>The row with the new content of a contractor belongs to it.\<close>

lemma stored_as_update:
  assumes "stored_as store c r" and "mCryptoKey c' = Some k" and "key_ok k" and "serializeKeys k = Inr blob"
    and "contractorId c' = contractorId c" and "mAddresses c' = mAddresses c"
    and "crId r' = crId r" and "crCryptoKey r' = blob"
    and "mIsConfirmed c' \<Longrightarrow> crIsConfirmed r'"
    and "\<And>i. crIdOnContractorSide r' = Some i \<Longrightarrow> mOwnIdOnContractorSide c' = i"
  shows "stored_as store c' r'"
  using assms by (auto simp: stored_as_def keyBlob_def)

lemma change_in_step:
  assumes "in_step (cm, store)" and "map_of (mContractors cm) cid = Some c" and "contractorId c' = contractorId c"
    and "mAddresses c' = mAddresses c" and "mCryptoKey c' = Some k" and "key_ok k" and "serializeKeys k = Inr blob"
    and "updateContractorRow (contractorId c') f store = (Inr (), store')"
    and "\<And>r. crId (f r) = crId r"
    and "\<And>r. stored_as store c r \<Longrightarrow> crCryptoKey (f r) = blob \<and> (mIsConfirmed c' \<longrightarrow> crIsConfirmed (f r)) \<and>
      (\<forall>i. crIdOnContractorSide (f r) = Some i \<longrightarrow> mOwnIdOnContractorSide c' = i)"
  shows "in_step (putContractor c' cm, store')"
proof (rule in_step_put [OF assms(1,2)])
  have id: "contractorId c = cid" using in_step_id [OF assms(1,2)] by simp
  show "contractorId c' = cid" using assms(3) id by simp
  have "store' = store\<lparr>contractorTable := map (\<lambda>r. if crId r = cid then f r else r) (contractorTable store)\<rparr>"
    using updateContractorRow_Inr [OF assms(8)] assms(3) id by simp
  then show "addressTable store' = addressTable store"
    "contractorTable store' = map (\<lambda>r. if crId r = cid then f r else r) (contractorTable store)"
    by simp_all
  show "crId (f r) = crId r" for r by (rule assms(9))
  show "stored_as store c' (f r)" if "stored_as store c r" for r
    using stored_as_update [OF that assms(5-7,3,4) assms(9)] assms(10) [OF that] by blast
qed

lemma change_told:
  assumes "in_step (cm, store)" and "map_of (mContractors cm) cid = Some c" and "contractorId c' = cid"
    and "updateContractorRow cid f store = (Inr (), store')" and "told_ok ((cm, store), ids, again)"
    and "\<And>r. crId (f r) = crId r"
    and "\<And>r. crIdOnContractorSide r = ids cid \<Longrightarrow> (crIsConfirmed r \<longleftrightarrow> mIsConfirmed c \<or> cid \<in> again) \<Longrightarrow>
      crIdOnContractorSide (f r) = ids' cid \<and> (crIsConfirmed (f r) \<longleftrightarrow> mIsConfirmed c' \<or> cid \<in> again')"
    and "\<And>i. i \<noteq> cid \<Longrightarrow> ids' i = ids i \<and> (i \<in> again' \<longleftrightarrow> i \<in> again)"
  shows "told_ok ((putContractor c' cm, store'), ids', again')"
proof -
  have rows: "contractorTable store' = map (\<lambda>r. if crId r = cid then f r else r) (contractorTable store)"
    using updateContractorRow_Inr [OF assms(4)] by simp
  have "crIdOnContractorSide r = ids' (crId r) \<and>
      (\<exists>c. map_of (mContractors (putContractor c' cm)) (crId r) = Some c \<and>
        (crIsConfirmed r \<longleftrightarrow> mIsConfirmed c \<or> crId r \<in> again'))" if r: "r \<in> set (contractorTable store')" for r
  proof -
    obtain r0 where r0: "r0 \<in> set (contractorTable store)" "r = (if crId r0 = cid then f r0 else r0)"
      using r by (auto simp: rows)
    obtain c0 where c0: "crIdOnContractorSide r0 = ids (crId r0)" "map_of (mContractors cm) (crId r0) = Some c0"
      "crIsConfirmed r0 \<longleftrightarrow> mIsConfirmed c0 \<or> crId r0 \<in> again"
      using assms(5) r0(1) by (auto simp: told_ok_def)
    show ?thesis
    proof (cases "crId r0 = cid")
      case True
      then show ?thesis
        using r0(2) c0 assms(2,3,6) assms(7) [of r0] by (simp add: putContractor_def)
    next
      case False
      then show ?thesis
        using r0(2) c0 assms(3) assms(8) [of "crId r0"] by (simp add: putContractor_def)
    qed
  qed
  then show ?thesis by (simp add: told_ok_def)
qed

lemma setConfirmationInfo_ok:
  assumes "setConfirmationInfo cid idOnSide (Some key) (cm, store) = (Inr (), t)" and "in_step (cm, store)"
    and "length key = kBytesSize"
  shows "in_step t" and "told_ok ((cm, store), ids, again) \<Longrightarrow> told_ok (t, ids(cid \<mapsto> idOnSide), again)"
proof -
  obtain c where c: "map_of (mContractors cm) cid = Some c"
    using assms(1) by (auto simp: setConfirmationInfo_def split: option.splits)
  have id: "contractorId c = cid" using in_step_id [OF assms(2) c] by simp
  obtain r k where k: "stored_as store c r" "mCryptoKey c = Some k" "key_ok k"
    using in_step_id [OF assms(2) c] by (auto simp: stored_as_def)
  let ?c = "c\<lparr>mCryptoKey := Some (k\<lparr>contractorPublicKey := Some key\<rparr>), mOwnIdOnContractorSide := idOnSide,
    mIsConfirmed := True\<rparr>"
  have k': "key_ok (k\<lparr>contractorPublicKey := Some key\<rparr>)" using k(3) assms(3) by (rule key_ok_contractor)
  obtain blob where blob: "serializeKeys (k\<lparr>contractorPublicKey := Some key\<rparr>) = Inr blob"
    using serializeKeys_ok [OF k'] by blast
  obtain store' where "saveConfirmationInfo ?c store = (Inr (), store')" and t: "t = (putContractor ?c cm, store')"
    using assms(1) by (auto simp: setConfirmationInfo_def c k(2) Let_def onTables_Inr)
  then have row: "updateContractorRow cid (\<lambda>r. r\<lparr>crIdOnContractorSide := Some idOnSide, crCryptoKey := blob,
      crIsConfirmed := True\<rparr>) store = (Inr (), store')"
    by (simp add: saveConfirmationInfo_def keyBlob_def blob id)
  then have row': "updateContractorRow (contractorId ?c) (\<lambda>r. r\<lparr>crIdOnContractorSide := Some idOnSide, crCryptoKey := blob,
      crIsConfirmed := True\<rparr>) store = (Inr (), store')"
    using id by simp
  from change_in_step [OF assms(2) c _ _ _ k' blob row'] show "in_step t" by (simp add: t)
  show "told_ok (t, ids(cid \<mapsto> idOnSide), again)" if "told_ok ((cm, store), ids, again)"
    unfolding t by (rule change_told [OF assms(2) c _ row that]) (simp_all add: id)
qed

lemma updateContractorCryptoKey_ok:
  assumes "updateContractorCryptoKey src cid cryptoKey (cm, store) = (Inr (), t)" and "in_step (cm, store)"
    and "source_ok src"
  shows "in_step t" and "told_ok ((cm, store), ids, again) \<Longrightarrow> told_ok (t, ids, again)"
proof -
  obtain c where c: "map_of (mContractors cm) cid = Some c"
    using assms(1) by (auto simp: updateContractorCryptoKey_def split: option.splits)
  have id: "contractorId c = cid" using in_step_id [OF assms(2) c] by simp
  obtain r k where k: "stored_as store c r" "mCryptoKey c = Some k" "key_ok k"
    using in_step_id [OF assms(2) c] by (auto simp: stored_as_def)
  obtain key where key: "parseHex 0 cryptoKey (keyMemory src) = Inr key"
    using assms(1) by (cases "parseHex 0 cryptoKey (keyMemory src)") (auto simp: updateContractorCryptoKey_def c k(2))
  then have "length key = kBytesSize" using parseHex_length assms(3) by (fastforce simp: source_ok_def)
  then have k': "key_ok (k\<lparr>contractorPublicKey := Some key\<rparr>)" by (rule key_ok_contractor [OF k(3)])
  obtain blob where blob: "serializeKeys (k\<lparr>contractorPublicKey := Some key\<rparr>) = Inr blob"
    using serializeKeys_ok [OF k'] by blast
  let ?c = "c\<lparr>mCryptoKey := Some (k\<lparr>contractorPublicKey := Some key\<rparr>), mIsConfirmed := True\<rparr>"
  obtain store' where "updateCryptoKey ?c store = (Inr (), store')" and t: "t = (putContractor ?c cm, store')"
    using assms(1) by (auto simp: updateContractorCryptoKey_def c k(2) key Let_def onTables_Inr)
  then have row: "updateContractorRow cid (\<lambda>r. r\<lparr>crCryptoKey := blob, crIsConfirmed := True\<rparr>) store = (Inr (), store')"
    by (simp add: updateCryptoKey_def keyBlob_def blob id)
  then have row': "updateContractorRow (contractorId ?c) (\<lambda>r. r\<lparr>crCryptoKey := blob, crIsConfirmed := True\<rparr>) store = (Inr (), store')"
    using id by simp
  from change_in_step [OF assms(2) c _ _ _ k' blob row'] show "in_step t" by (simp add: t stored_as_def)
  show "told_ok (t, ids, again)" if "told_ok ((cm, store), ids, again)"
    unfolding t by (rule change_told [OF assms(2) c _ row that]) (simp_all add: id)
qed

lemma regenerateCryptoKey_ok:
  assumes "regenerateCryptoKey src cid (cm, store) = (Inr (), t)" and "in_step (cm, store)" and "source_ok src"
  shows "in_step t" and "told_ok ((cm, store), ids, again) \<Longrightarrow> told_ok (t, ids, insert cid again)"
proof -
  obtain c where c: "map_of (mContractors cm) cid = Some c"
    using assms(1) by (auto simp: regenerateCryptoKey_def split: option.splits)
  have id: "contractorId c = cid" using in_step_id [OF assms(2) c] by simp
  obtain r k where k: "stored_as store c r" "mCryptoKey c = Some k" "key_ok k"
    using in_step_id [OF assms(2) c] by (auto simp: stored_as_def)
  let ?k = "generateKeyTrioFor src (contractorPublicKey k)"
  have k': "key_ok ?k" using k(3) assms(3) by (auto simp: key_ok_def generateKeyTrioFor_def source_ok_def)
  obtain blob where blob: "serializeKeys ?k = Inr blob" using serializeKeys_ok [OF k'] by blast
  let ?c = "c\<lparr>mCryptoKey := Some ?k\<rparr>"
  obtain store' where "updateCryptoKey ?c store = (Inr (), store')" and t: "t = (putContractor ?c cm, store')"
    using assms(1) by (auto simp: regenerateCryptoKey_def c k(2) Let_def onTables_Inr)
  then have row: "updateContractorRow cid (\<lambda>r. r\<lparr>crCryptoKey := blob, crIsConfirmed := True\<rparr>) store = (Inr (), store')"
    by (simp add: updateCryptoKey_def keyBlob_def blob id)
  then have row': "updateContractorRow (contractorId ?c) (\<lambda>r. r\<lparr>crCryptoKey := blob, crIsConfirmed := True\<rparr>) store = (Inr (), store')"
    using id by simp
  from change_in_step [OF assms(2) c _ _ _ k' blob row'] show "in_step t" by (simp add: t stored_as_def)
  show "told_ok (t, ids, insert cid again)" if "told_ok ((cm, store), ids, again)"
    unfolding t by (rule change_told [OF assms(2) c _ row that]) (simp_all add: id)
qed

lemma updateChannelIDOnContractorSide_ok:
  assumes "updateChannelIDOnContractorSide cid channelID (cm, store) = (Inr (), t)" and "in_step (cm, store)"
  shows "in_step t" and "told_ok ((cm, store), ids, again) \<Longrightarrow> told_ok (t, ids(cid \<mapsto> channelID), again)"
proof -
  obtain c where c: "map_of (mContractors cm) cid = Some c"
    using assms(1) by (auto simp: updateChannelIDOnContractorSide_def split: option.splits)
  have id: "contractorId c = cid" using in_step_id [OF assms(2) c] by simp
  obtain r k where k: "stored_as store c r" "mCryptoKey c = Some k" "key_ok k"
    using in_step_id [OF assms(2) c] by (auto simp: stored_as_def)
  obtain blob where blob: "serializeKeys k = Inr blob" using serializeKeys_ok [OF k(3)] by blast
  let ?c = "c\<lparr>mOwnIdOnContractorSide := channelID\<rparr>"
  obtain store' where u: "updateChannelIdOnContractorSide ?c store = (Inr (), store')"
    and t: "t = (putContractor ?c cm, store')"
    using assms(1) by (auto simp: updateChannelIDOnContractorSide_def c Let_def onTables_Inr)
  have row: "updateContractorRow cid (\<lambda>r. r\<lparr>crIdOnContractorSide := Some channelID\<rparr>) store = (Inr (), store')"
    using u by (simp add: updateChannelIdOnContractorSide_def id)
  then have row': "updateContractorRow (contractorId ?c) (\<lambda>r. r\<lparr>crIdOnContractorSide := Some channelID\<rparr>) store = (Inr (), store')"
    using id by simp
  from change_in_step [OF assms(2) c _ _ _ k(3) blob row'] show "in_step t"
    by (simp add: t k(2)) (simp add: stored_as_def keyBlob_def k(2) blob)
  show "told_ok (t, ids(cid \<mapsto> channelID), again)" if "told_ok ((cm, store), ids, again)"
    unfolding t by (rule change_told [OF assms(2) c _ row that]) (simp_all add: id)
qed

lemma saveAddress_Inr:
  "saveAddress cid a store = (Inr (), store') \<Longrightarrow>
     store' = store\<lparr>addressTable := addressTable store @ [addressRow cid a]\<rparr>"
  by (auto simp: saveAddress_def addressRow_def split: if_splits)

lemma saveAddresses_Inr:
  "saveAddresses cid addresses store = (Inr (), store') \<Longrightarrow>
     store' = store\<lparr>addressTable := addressTable store @ map (addressRow cid) addresses\<rparr>"
proof (induction cid addresses store arbitrary: store' rule: saveAddresses.induct)
  case (2 cid a rest store)
  then obtain store1 where s1: "saveAddress cid a store = (Inr (), store1)"
    and s2: "saveAddresses cid rest store1 = (Inr (), store')"
    by (auto simp: bindS_eq_Inr)
  show ?case using 2(1) [OF s2] saveAddress_Inr [OF s1] by simp
qed simp

text \<open>The rows of one contractor when those of another are replaced.\<close>

lemma rows_replaced:
  "filter (\<lambda>r. arContractorId r = d) (filter (\<lambda>r. arContractorId r \<noteq> cid) rows @ map (addressRow cid) addresses) =
     (if d = cid then map (addressRow cid) addresses else filter (\<lambda>r. arContractorId r = d) rows)"
proof -
  have "filter (\<lambda>r. arContractorId r = d) (map (addressRow cid) addresses) =
      (if d = cid then map (addressRow cid) addresses else [])"
    by (induction addresses) (auto simp: addressRow_def)
  moreover have "filter (\<lambda>r. arContractorId r = d) (filter (\<lambda>r. arContractorId r \<noteq> cid) rows) =
      (if d = cid then [] else filter (\<lambda>r. arContractorId r = d) rows)"
    by (induction rows) auto
  ultimately show ?thesis by simp
qed

lemma updateContractorAddresses_ok:
  assumes "updateContractorAddresses cid addresses (cm, store) = (Inr (), t)" and "in_step (cm, store)"
    and "list_all addressStorable addresses"
  shows "in_step t" and "told_ok ((cm, store), told) \<Longrightarrow> told_ok (t, told)"
proof -
  obtain c where c: "map_of (mContractors cm) cid = Some c"
    using assms(1) by (auto simp: updateContractorAddresses_def split: option.splits)
  note ok = in_stepD [OF assms(2)]
  have id: "contractorId c = cid" using in_step_id [OF assms(2) c] by simp
  let ?c = "c\<lparr>mAddresses := addresses\<rparr>"
  let ?rows = "filter (\<lambda>r. arContractorId r \<noteq> cid) (addressTable store) @ map (addressRow cid) addresses"
  obtain s1 where s1: "removeAddresses cid store = (Inr (), s1)"
    and t1: "\<exists>s2. saveAddresses cid addresses s1 = (Inr (), s2) \<and> t = (putContractor ?c cm, s2)"
    using assms(1) by (auto simp: updateContractorAddresses_def c bindS_eq_Inr onTables_Inr)
  have "s1 = store\<lparr>addressTable := filter (\<lambda>r. arContractorId r \<noteq> cid) (addressTable store)\<rparr>"
    using s1 by (auto simp: removeAddresses_def split: if_splits)
  then have t: "t = (putContractor ?c cm, store\<lparr>addressTable := ?rows\<rparr>)"
    using t1 by (auto dest!: saveAddresses_Inr)
  have mem: "cid \<in> set (keys (mContractors cm))" using c by (force dest: map_of_SomeD)
  have "\<exists>c'. map_of (mContractors (putContractor ?c cm)) (crId r) = Some c' \<and>
      stored_as (store\<lparr>addressTable := ?rows\<rparr>) c' r" if r: "r \<in> set (contractorTable store)" for r
  proof -
    obtain c0 where c0: "map_of (mContractors cm) (crId r) = Some c0" "stored_as store c0 r"
      using ok(6) [OF r] by blast
    show ?thesis
    proof (cases "crId r = cid")
      case True
      then have "c0 = c" using c0 c by simp
      then have "stored_as (store\<lparr>addressTable := ?rows\<rparr>) ?c r"
        using c0(2) id assms(3) by (simp add: stored_as_def keyBlob_def rows_replaced del: filter_append)
      then show ?thesis using True by (simp add: putContractor_def id)
    next
      case False
      then have "stored_as (store\<lparr>addressTable := ?rows\<rparr>) c0 r"
        using c0(2) by (auto simp: stored_as_def rows_replaced simp del: filter_append)
      then show ?thesis using False c0(1) by (simp add: putContractor_def id)
    qed
  qed
  moreover have "set (keys (mContractors (putContractor ?c cm))) = set (keys (mContractors cm))"
    using mem keys_ordUpdate [of cid ?c "mContractors cm"] by (simp add: putContractor_def id insert_absorb del: set_map)
  moreover have "sorted (keys (mContractors (putContractor ?c cm))) \<and> distinct (keys (mContractors (putContractor ?c cm)))"
    using sorted_ordUpdate [OF ok(1,2), of cid ?c] by (simp add: putContractor_def id)
  moreover have "arContractorId a \<in> set (keys (mContractors cm))" if "a \<in> set ?rows" for a
  proof -
    have "a \<in> set (addressTable store) \<or> arContractorId a = cid"
      using that by (auto simp: addressRow_def)
    then show ?thesis using ok(5) [of a] mem by metis
  qed
  ultimately show "in_step t"
    using ok(3,4) by (simp add: t in_step_def del: set_map)
  have "\<exists>d. map_of (mContractors (putContractor ?c cm)) i = Some d \<and> mIsConfirmed d = mIsConfirmed c0"
    if "map_of (mContractors cm) i = Some c0" for i c0
    using that c by (cases "i = cid") (simp_all add: putContractor_def id)
  then show "told_ok (t, told)" if "told_ok ((cm, store), told)"
    using that unfolding t by (cases told) (fastforce simp: told_ok_def)
qed

lemma removeContractor_ok:
  assumes "removeContractor cid (cm, store) = (Inr (), t)" and "in_step (cm, store)"
  shows "in_step t" and "told_ok ((cm, store), told) \<Longrightarrow> told_ok (t, told)"
proof -
  note ok = in_stepD [OF assms(2)]
  obtain store' where t: "t = (cm\<lparr>mContractors := AList.delete cid (mContractors cm)\<rparr>, store')"
    and rows: "contractorTable store' = filter (\<lambda>r. crId r \<noteq> cid) (contractorTable store)"
      "addressTable store' = filter (\<lambda>r. arContractorId r \<noteq> cid) (addressTable store)"
    using assms(1)
    by (auto simp: removeContractor_def bindS_eq_Inr onTables_Inr removeAddresses_def removeContractorRow_def
        split: sum.splits list.splits if_splits)
  have "stored_as store' c r" if "stored_as store c r" "contractorId c \<noteq> cid" for c r
  proof -
    have "filter (\<lambda>a. arContractorId a = contractorId c) (filter (\<lambda>a. arContractorId a \<noteq> cid) (addressTable store)) =
        filter (\<lambda>a. arContractorId a = contractorId c) (addressTable store)"
      using that(2) by (auto intro: filter_cong)
    then show ?thesis using that by (simp add: stored_as_def rows)
  qed
  then have "\<exists>c. map_of (AList.delete cid (mContractors cm)) (crId r) = Some c \<and> stored_as store' c r"
    if "r \<in> set (contractorTable store')" for r
    using that ok(6) [of r] by (auto simp: rows stored_as_def)
  moreover have "sorted (keys (AList.delete cid (mContractors cm)))"
    using sorted_filter [of fst "mContractors cm"] ok(1) by (simp add: AList.delete_eq)
  moreover have "set (map crId (contractorTable store')) = set (keys (AList.delete cid (mContractors cm)))"
  proof -
    have "set (map crId (contractorTable store')) = set (map crId (contractorTable store)) - {cid}"
      by (auto simp: rows)
    then show ?thesis using ok(4) by (simp only: AList.delete_keys set_removeAll)
  qed
  moreover have "arContractorId a \<in> set (keys (AList.delete cid (mContractors cm)))"
    if "a \<in> set (addressTable store')" for a
    using that ok(5) [of a] by (simp only: AList.delete_keys set_removeAll) (simp add: rows)
  moreover have "distinct (map crId (contractorTable store'))"
    using ok(3) by (simp add: rows distinct_map_filter)
  ultimately show "in_step t"
    using ok(2) by (simp add: t in_step_def AList.distinct_delete del: set_map)
  show "told_ok (t, told)" if "told_ok ((cm, store), told)"
    using that unfolding t by (cases told) (auto simp: told_ok_def rows)
qed

text \<open>What a successful creation does.\<close>

definition createdContractor ::
  "KeySource \<Rightarrow> ContractorID \<Rightarrow> Address list \<Rightarrow> string \<Rightarrow> ContractorID \<Rightarrow> KeyTrio \<Rightarrow> ContractorRecord" where
  "createdContractor src cid addresses cryptoKey channelID key =
     (if cryptoKey = [] then newContractor (unsetId src) cid addresses (Some key)
      else (newContractor (unsetId src) cid addresses (Some key))
             \<lparr>mOwnIdOnContractorSide := channelID, mIsConfirmed := True\<rparr>)"

lemma createdContractor_fields [simp]:
  "contractorId (createdContractor src cid addresses cryptoKey channelID key) = cid"
  "mAddresses (createdContractor src cid addresses cryptoKey channelID key) = addresses"
  "mCryptoKey (createdContractor src cid addresses cryptoKey channelID key) = Some key"
  by (simp_all add: createdContractor_def newContractor_def)

lemma createContractor_Inr:
  assumes "createContractor src addresses cryptoKey channelID (cm, store) = (Inr c, t)" and "source_ok src"
  shows "\<exists>cid key row. contractorIDByAddresses cm addresses = kNotFoundContractorID \<and>
    nextFreeContractorID store = Inr cid \<and> key_ok key \<and> \<not> down store \<and>
    c = createdContractor src cid addresses cryptoKey channelID key \<and>
    cid \<notin> set (map crId (contractorTable store)) \<and>
    crId row = cid \<and> keyBlob c = Inr (crCryptoKey row) \<and> (crIsConfirmed row \<longleftrightarrow> mIsConfirmed c) \<and>
    crIdOnContractorSide row = (if cryptoKey = [] then None else Some channelID) \<and>
    (\<forall>i. crIdOnContractorSide row = Some i \<longrightarrow> mOwnIdOnContractorSide c = i) \<and>
    t = (putContractor c cm,
         store\<lparr>contractorTable := contractorTable store @ [row],
               addressTable := addressTable store @ map (addressRow cid) addresses,
               lineStore := (lineStore store)\<lparr>contractorRows := contractorRows (lineStore store) @ [cid]\<rparr>\<rparr>)"
proof -
  have free: "contractorIDByAddresses cm addresses = kNotFoundContractorID"
    using assms(1) by (auto simp: createContractor_def split: if_splits)
  obtain cid where cid: "nextFreeContractorID store = Inr cid"
    using assms(1) free by (cases "nextFreeContractorID store") (auto simp: createContractor_def)
  obtain key where key: "generateKeyTrio src cryptoKey = Inr key"
    using assms(1) free cid by (cases "generateKeyTrio src cryptoKey") (auto simp: createContractor_def)
  have kok: "key_ok key"
    using key assms(2) parseHex_length
    by (fastforce simp: generateKeyTrio_def generateUndefinedKey_def key_ok_def bindR_eq_Inr source_ok_def split: if_splits)
  let ?c = "createdContractor src cid addresses cryptoKey channelID key"
  have run: "bindS (onTables (if cryptoKey = [] then saveContractor ?c else saveContractorFull ?c) (putContractor ?c cm, store))
      (\<lambda>_ s. bindS (onTables (saveAddresses cid addresses) s) (\<lambda>_. returning ?c)) = (Inr c, t)"
    using assms(1) by (simp add: createContractor_def free cid key createdContractor_def Let_def split: if_splits)
  then obtain store1 store2 where s1: "(if cryptoKey = [] then saveContractor ?c else saveContractorFull ?c) store = (Inr (), store1)"
    and s2: "saveAddresses cid addresses store1 = (Inr (), store2)" and t: "t = (putContractor ?c cm, store2)" "c = ?c"
    by (auto simp: bindS_eq_Inr onTables_Inr)
  obtain blob where blob: "keyBlob ?c = Inr blob"
    using serializeKeys_ok [OF kok] by (auto simp: keyBlob_def)
  define row where "row = (if cryptoKey = []
    then \<lparr>crId = cid, crIdOnContractorSide = None, crCryptoKey = blob, crIsConfirmed = False\<rparr>
    else \<lparr>crId = cid, crIdOnContractorSide = Some (mOwnIdOnContractorSide ?c), crCryptoKey = blob, crIsConfirmed = True\<rparr>)"
  have "insertContractorRow row store = (Inr (), store1)"
    using s1 blob by (auto simp: row_def saveContractor_def saveContractorFull_def split: if_splits)
  then have ins: "\<not> down store" "crId row \<notin> set (map crId (contractorTable store))"
    "store1 = store\<lparr>contractorTable := contractorTable store @ [row],
       lineStore := (lineStore store)\<lparr>contractorRows := contractorRows (lineStore store) @ [crId row]\<rparr>\<rparr>"
    by (auto simp: insertContractorRow_def split: if_splits)
  have row: "crId row = cid" "crCryptoKey row = blob" "crIsConfirmed row \<longleftrightarrow> mIsConfirmed ?c"
    "crIdOnContractorSide row = (if cryptoKey = [] then None else Some channelID)"
    "\<forall>i. crIdOnContractorSide row = Some i \<longrightarrow> mOwnIdOnContractorSide ?c = i"
    by (auto simp: row_def createdContractor_def newContractor_def)
  have "t = (putContractor ?c cm,
         store\<lparr>contractorTable := contractorTable store @ [row],
               addressTable := addressTable store @ map (addressRow cid) addresses,
               lineStore := (lineStore store)\<lparr>contractorRows := contractorRows (lineStore store) @ [cid]\<rparr>\<rparr>)"
    using saveAddresses_Inr [OF s2] t(1) ins(3) row(1) by simp
  with free cid kok ins(1,2) row blob t(2) show ?thesis by blast
qed

lemma createContractor_ok:
  assumes "createContractor src addresses cryptoKey channelID (cm, store) = (Inr c, t)" and "in_step (cm, store)"
    and "source_ok src" and "list_all addressStorable addresses"
  shows "in_step t" and "told_ok ((cm, store), ids, again) \<Longrightarrow>
    told_ok (t, ids(contractorId c := (if cryptoKey = [] then None else Some channelID)), again - {contractorId c})"
proof -
  note ok = in_stepD [OF assms(2)]
  obtain cid key row where new: "key_ok key" "c = createdContractor src cid addresses cryptoKey channelID key"
    "cid \<notin> set (map crId (contractorTable store))" "crId row = cid" "keyBlob c = Inr (crCryptoKey row)"
    "crIsConfirmed row \<longleftrightarrow> mIsConfirmed c"
    "crIdOnContractorSide row = (if cryptoKey = [] then None else Some channelID)"
    "\<forall>i. crIdOnContractorSide row = Some i \<longrightarrow> mOwnIdOnContractorSide c = i"
    and t: "t = (putContractor c cm, store\<lparr>contractorTable := contractorTable store @ [row],
      addressTable := addressTable store @ map (addressRow cid) addresses,
      lineStore := (lineStore store)\<lparr>contractorRows := contractorRows (lineStore store) @ [cid]\<rparr>\<rparr>)"
    using createContractor_Inr [OF assms(1,3)] by blast
  let ?store = "snd t"
  have c: "contractorId c = cid" "mAddresses c = addresses" "mCryptoKey c = Some key" by (simp_all add: new(2))
  have none: "filter (\<lambda>a. arContractorId a = cid) (addressTable store) = []"
    using ok(4,5) new(3) by (fastforce simp: filter_empty_conv)
  have rows: "filter (\<lambda>a. arContractorId a = d) (addressTable ?store) =
      (if d = cid then map (addressRow cid) addresses else filter (\<lambda>a. arContractorId a = d) (addressTable store))" for d
  proof -
    have "filter (\<lambda>a. arContractorId a = d) (map (addressRow cid) addresses) =
        (if d = cid then map (addressRow cid) addresses else [])"
      by (induction addresses) (auto simp: addressRow_def)
    then show ?thesis using none by (simp add: t)
  qed
  have "stored_as ?store c row"
    using new c assms(4) by (simp add: stored_as_def rows)
  moreover have "stored_as ?store x r" if "stored_as store x r" "contractorId x \<noteq> cid" for x r
    using that by (simp add: stored_as_def rows)
  ultimately have "\<exists>x. map_of (mContractors (putContractor c cm)) (crId r) = Some x \<and> stored_as ?store x r"
    if r: "r \<in> set (contractorTable ?store)" for r
  proof (cases "r = row")
    case True
    then show ?thesis using \<open>stored_as ?store c row\<close> new(4) c(1) by (simp add: putContractor_def)
  next
    case False
    then have r': "r \<in> set (contractorTable store)" using r by (simp add: t)
    then have "crId r \<noteq> cid" using new(3) by auto
    moreover obtain x where "map_of (mContractors cm) (crId r) = Some x" "stored_as store x r"
      using ok(6) [OF r'] by blast
    moreover have "contractorId x = crId r" using \<open>stored_as store x r\<close> by (simp add: stored_as_def)
    ultimately show ?thesis
      using \<open>\<And>x r. stored_as store x r \<Longrightarrow> contractorId x \<noteq> cid \<Longrightarrow> stored_as ?store x r\<close> c(1)
      by (simp add: putContractor_def)
  qed
  moreover have "set (keys (mContractors (putContractor c cm))) = insert cid (set (keys (mContractors cm)))"
    using keys_ordUpdate [of cid c "mContractors cm"] by (simp add: putContractor_def c(1) del: set_map)
  moreover have "sorted (keys (mContractors (putContractor c cm))) \<and> distinct (keys (mContractors (putContractor c cm)))"
    using sorted_ordUpdate [OF ok(1,2)] by (simp add: putContractor_def)
  moreover have "arContractorId a \<in> insert cid (set (keys (mContractors cm)))" if "a \<in> set (addressTable ?store)" for a
    using that ok(5) [of a] by (fastforce simp: t addressRow_def)
  moreover have "set (map crId (contractorTable ?store)) = insert cid (set (keys (mContractors cm)))"
    using ok(4) new(4) by (auto simp: t)
  moreover have "distinct (map crId (contractorTable ?store))"
    using ok(3) new(3,4) by (auto simp: t)
  ultimately show "in_step t"
    unfolding in_step_def t by (simp add: t del: set_map)
  have old: "map_of (mContractors (putContractor c cm)) (crId r) = map_of (mContractors cm) (crId r)" "crId r \<noteq> cid"
    if "r \<in> set (contractorTable store)" for r
  proof -
    show "crId r \<noteq> cid" using that new(3) by auto
    then show "map_of (mContractors (putContractor c cm)) (crId r) = map_of (mContractors cm) (crId r)"
      by (simp add: putContractor_def c(1))
  qed
  have fresh: "map_of (mContractors (putContractor c cm)) cid = Some c" by (simp add: putContractor_def c(1))
  show "told_ok (t, ids(contractorId c := (if cryptoKey = [] then None else Some channelID)), again - {contractorId c})"
    if "told_ok ((cm, store), ids, again)"
    using that old fresh new(4,6,7) c(1) unfolding t by (auto simp: told_ok_def)
qed

lemma contractors_step_ok:
  "contractors_step x y \<Longrightarrow> in_step (fst x) \<and> told_ok x \<Longrightarrow> in_step (fst y) \<and> told_ok y"
proof (induction rule: contractors_step.induct)
  case (create src addresses cryptoKey channelID s c t ids again)
  then show ?case
    using createContractor_ok(1) [of src addresses cryptoKey channelID "fst s" "snd s" c t]
      createContractor_ok(2) [of src addresses cryptoKey channelID "fst s" "snd s" c t ids again] by simp
next
  case (confirm cid idOnSide key s t ids again)
  then show ?case
    using setConfirmationInfo_ok(1) [of cid idOnSide key "fst s" "snd s" t]
      setConfirmationInfo_ok(2) [of cid idOnSide key "fst s" "snd s" t ids again] by simp
next
  case (newKey src cid cryptoKey s t told)
  then show ?case
    using updateContractorCryptoKey_ok(1) [of src cid cryptoKey "fst s" "snd s" t]
      updateContractorCryptoKey_ok(2) [of src cid cryptoKey "fst s" "snd s" t "fst told" "snd told"] by simp
next
  case (newChannelID cid channelID s t ids again)
  then show ?case
    using updateChannelIDOnContractorSide_ok(1) [of cid channelID "fst s" "snd s" t]
      updateChannelIDOnContractorSide_ok(2) [of cid channelID "fst s" "snd s" t ids again] by simp
next
  case (regenerate src cid s t ids again)
  then show ?case
    using regenerateCryptoKey_ok(1) [of src cid "fst s" "snd s" t]
      regenerateCryptoKey_ok(2) [of src cid "fst s" "snd s" t ids again] by simp
next
  case (newAddresses cid addresses s t told)
  then show ?case
    using updateContractorAddresses_ok(1) [of cid addresses "fst s" "snd s" t]
      updateContractorAddresses_ok(2) [of cid addresses "fst s" "snd s" t told] by simp
next
  case (remove cid s t told)
  then show ?case
    using removeContractor_ok(1) [of cid "fst s" "snd s" t]
      removeContractor_ok(2) [of cid "fst s" "snd s" t told] by simp
qed

interpretation contractors_run: step_invariant contractors_step "\<lambda>x. in_step (fst x) \<and> told_ok x"
  by unfold_locales (rule contractors_step_ok)

section \<open>Restart\<close>

lemma loadContractors_spec:
  assumes "\<forall>c \<in> set cs. storedAddresses unset (contractorId c) store = Inr (f (contractorId c))"
    and "distinct (map contractorId cs)" and "sorted (keys acc)" and "distinct (keys acc)"
    and "set (map contractorId cs) \<inter> set (keys acc) = {}"
  shows "\<exists>res. loadContractors unset store cs acc = Inr res \<and> sorted (keys res) \<and> distinct (keys res) \<and>
    set (keys res) = set (map contractorId cs) \<union> set (keys acc) \<and>
    (\<forall>c \<in> set cs. map_of res (contractorId c) = Some (c\<lparr>mAddresses := f (contractorId c)\<rparr>)) \<and>
    (\<forall>i \<in> set (keys acc). map_of res i = map_of acc i)"
  using assms
proof (induction cs arbitrary: acc)
  case (Cons c cs)
  let ?i = "contractorId c"
  let ?acc = "ordUpdate ?i (c\<lparr>mAddresses := f ?i\<rparr>) acc"
  have none: "map_of acc ?i = None" using Cons.prems(5) by (auto simp: map_of_eq_None_iff)
  have ks: "set (keys ?acc) = insert ?i (set (keys acc))" by (rule keys_ordUpdate)
  have p5: "set (map contractorId cs) \<inter> set (keys ?acc) = {}"
    unfolding ks using Cons.prems(2,5) by auto
  have p34: "sorted (keys ?acc)" "distinct (keys ?acc)"
    using sorted_ordUpdate [OF Cons.prems(3,4)] by (simp_all del: set_map)
  have p1: "\<forall>c \<in> set cs. storedAddresses unset (contractorId c) store = Inr (f (contractorId c))"
    using Cons.prems(1) by simp
  have p2: "distinct (map contractorId cs)" using Cons.prems(2) by simp
  obtain res where res: "loadContractors unset store cs ?acc = Inr res" "sorted (keys res)"
    "distinct (keys res)" "set (keys res) = set (map contractorId cs) \<union> set (keys ?acc)"
    "\<forall>c \<in> set cs. map_of res (contractorId c) = Some (c\<lparr>mAddresses := f (contractorId c)\<rparr>)"
    "\<forall>i \<in> set (keys ?acc). map_of res i = map_of ?acc i"
    using Cons.IH [OF p1 p2 p34 p5] by (elim exE conjE) (rule that)
  have "map_of res ?i = Some (c\<lparr>mAddresses := f ?i\<rparr>)"
    using res(6) [rule_format, of ?i] ks by (simp del: set_map)
  moreover have "map_of res i = map_of acc i" if "i \<in> set (keys acc)" for i
  proof -
    have "?i \<notin> set (keys acc)" using Cons.prems(5) by auto
    then have "i \<noteq> ?i" using that by metis
    then show ?thesis using res(6) [rule_format, of i] ks that by (simp del: set_map)
  qed
  moreover have "set (keys res) = set (map contractorId (c # cs)) \<union> set (keys acc)"
    unfolding res(4) ks by auto
  ultimately show ?case
    using res(1-3,5) Cons.prems(1) none by auto
qed simp

lemma in_step_contractor:
  assumes "in_step (cm, store)" and "map_of (mContractors cm) cid = Some c"
  shows "\<exists>r \<in> set (contractorTable store). crId r = cid \<and> stored_as store c r \<and> contractorId c = cid"
proof -
  have "cid \<in> set (map crId (contractorTable store))"
    using in_stepD(4) [OF assms(1)] assms(2) by (force dest: map_of_SomeD)
  then obtain r where "r \<in> set (contractorTable store)" "crId r = cid" by auto
  then show ?thesis using in_stepD(6) [OF assms(1), of r] assms(2) by (auto simp: stored_as_def)
qed

lemma find_keys_cong:
  assumes "keys xs = keys ys" and "distinct (keys xs)"
    and "\<And>k x y. map_of xs k = Some x \<Longrightarrow> map_of ys k = Some y \<Longrightarrow> P x = Q y"
  shows "map_option fst (find (\<lambda>z. P (snd z)) xs) = map_option fst (find (\<lambda>z. Q (snd z)) ys)"
  using assms
proof (induction xs arbitrary: ys)
  case (Cons x xs)
  obtain y ys' where ys: "ys = y # ys'" "fst y = fst x" "keys ys' = keys xs"
    using Cons.prems(1) by (cases ys) auto
  have "P (snd x) = Q (snd y)"
    using Cons.prems(3) [of "fst x" "snd x" "snd y"] by (simp add: ys(1,2))
  moreover have "map_option fst (find (\<lambda>z. P (snd z)) xs) = map_option fst (find (\<lambda>z. Q (snd z)) ys')"
  proof (rule Cons.IH)
    show "keys xs = keys ys'" "distinct (keys xs)" using ys(3) Cons.prems(2) by simp_all
    show "P u = Q v" if u: "map_of xs k = Some u" and v: "map_of ys' k = Some v" for k u v
    proof -
      have "k \<noteq> fst x" using Cons.prems(2) u by (metis distinct.simps(2) list.simps(9) map_of_eq_None_iff option.distinct(1) set_map)
      then have "map_of (x # xs) k = Some u" "map_of ys k = Some v"
        using u v by (simp_all add: ys(1,2) map_of_Cons_code split: prod.split)
      then show ?thesis by (rule Cons.prems(3))
    qed
  qed
  ultimately show ?case using ys(2) by (simp add: ys(1))
qed simp

lemma sameAddress_reread [simp]: "sameAddress (reread unset a) b = sameAddress a b"
  by (cases a) (simp_all add: reread_def sameAddress_def)

lemma equalContractors_reread: "equalContractors (map (reread unset) xs) xs"
proof -
  have "sameAddress (reread unset a) a" for a by (simp only: sameAddress_reread) (simp add: sameAddress_def)
  then show ?thesis by (simp add: equalContractors_def list_all2_conv_all_nth del: sameAddress_reread)
qed

lemma contractorIDByAddress_find:
  "contractorIDByAddress cm a =
     (case map_option fst (find (\<lambda>z. list_ex (\<lambda>x. sameAddress x a) (mAddresses (snd z))) (mContractors cm)) of
        None \<Rightarrow> kNotFoundContractorID | Some cid \<Rightarrow> cid)"
proof -
  have eq: "(\<lambda>(cid, c). list_ex (\<lambda>x. sameAddress x a) (mAddresses c)) =
      (\<lambda>z :: ContractorID \<times> ContractorRecord. list_ex (\<lambda>x. sameAddress x a) (mAddresses (snd z)))"
    by (rule ext) (simp add: split_beta)
  show ?thesis
    unfolding contractorIDByAddress_def eq
    by (cases "find (\<lambda>z. list_ex (\<lambda>x. sameAddress x a) (mAddresses (snd z))) (mContractors cm)") auto
qed

lemma reload_map:
  assumes "in_step (cm, store)" and "\<not> down store" and "ownContractor own = Inr self"
  shows "\<exists>cm'. newContractorsManager unset own store = Inr cm' \<and> mSelf cm' = self \<and>
    keys (mContractors cm') = keys (mContractors cm) \<and>
    (\<forall>r \<in> set (contractorTable store). \<forall>c. map_of (mContractors cm) (crId r) = Some c \<longrightarrow>
       map_of (mContractors cm') (crId r) =
         Some \<lparr>contractorId = crId r,
               mOwnIdOnContractorSide = (case crIdOnContractorSide r of None \<Rightarrow> 0 | Some i \<Rightarrow> i),
               mCryptoKey = mCryptoKey c, mIsConfirmed = crIsConfirmed r,
               mAddresses = map (reread unset) (mAddresses c)\<rparr>)"
proof -
  note ok = in_stepD [OF assms(1)]
  let ?read = "\<lambda>r. contractorFromTable (crId r) (case crIdOnContractorSide r of None \<Rightarrow> 0 | Some i \<Rightarrow> i)
    (Some (deserializeKeys (crCryptoKey r))) (crIsConfirmed r)"
  let ?cs = "map ?read (contractorTable store)"
  let ?f = "\<lambda>i. map (reread unset) (mAddresses (the (map_of (mContractors cm) i)))"
  have ids: "map contractorId ?cs = map crId (contractorTable store)"
    by (simp add: contractorFromTable_def comp_def)
  have stored: "storedAddresses unset (crId r) store = Inr (?f (crId r))" if "r \<in> set (contractorTable store)" for r
    using ok(6) [OF that] addresses_back [OF _ assms(2)] by (fastforce simp: stored_as_def)
  have "\<forall>c \<in> set ?cs. storedAddresses unset (contractorId c) store = Inr (?f (contractorId c))"
    using stored by (simp add: contractorFromTable_def)
  from loadContractors_spec [OF this, of "[]"] ok(3) obtain res where
    res: "loadContractors unset store ?cs [] = Inr res" "sorted (keys res)" "distinct (keys res)"
      "set (keys res) = set (map contractorId ?cs)"
      "\<forall>c \<in> set ?cs. map_of res (contractorId c) = Some (c\<lparr>mAddresses := ?f (contractorId c)\<rparr>)"
    unfolding ids by auto
  have keys: "keys res = keys (mContractors cm)"
    using res(2-4) ok(1,2,4) unfolding ids by (intro sorted_distinct_set_unique) simp_all
  have "map_of res (crId r) = Some \<lparr>contractorId = crId r,
      mOwnIdOnContractorSide = (case crIdOnContractorSide r of None \<Rightarrow> 0 | Some i \<Rightarrow> i),
      mCryptoKey = mCryptoKey c, mIsConfirmed = crIsConfirmed r, mAddresses = map (reread unset) (mAddresses c)\<rparr>"
    if r: "r \<in> set (contractorTable store)" and c: "map_of (mContractors cm) (crId r) = Some c" for r c
  proof -
    have "stored_as store c r" using ok(6) [OF r] c by auto
    then obtain k where k: "mCryptoKey c = Some k" "key_ok k" "keyBlob c = Inr (crCryptoKey r)"
      by (auto simp: stored_as_def)
    then have "deserializeKeys (crCryptoKey r) = k"
      using keys_back [OF k(2)] by (auto simp: keyBlob_def)
    then show ?thesis
      using res(5) r c k(1) by (simp add: contractorFromTable_def)
  qed
  then show ?thesis
    using assms res(1) keys
    by (intro exI [of _ "\<lparr>mContractors = res, mSelf = self\<rparr>"])
      (simp add: newContractorsManager_def allStoredContractors_def)
qed

section \<open>The byte format of a contractor\<close>

lemma reread_size [simp]: "serializedSize (reread unset a) = serializedSize a"
  by (cases a) (simp_all add: reread_def)

lemma contractor_bytes_back:
  assumes "list_all addressStorable addresses" and "length addresses < 2 ^ 8"
  shows "contractorFromBytes unset (serializeContractor addresses @ rest) = Inr (map (reread unset) addresses)"
proof -
  have "deserializeAddresses (length xs) unset (concat (map serializeToBytes xs) @ rest) = Inr (map (reread unset) xs)"
    if "list_all addressStorable xs" for xs
    using that
  proof (induction xs)
    case (Cons a xs)
    then have "drop (serializedSize a) (serializeToBytes a @ concat (map serializeToBytes xs) @ rest) =
        concat (map serializeToBytes xs) @ rest"
      using serialize_length [of a] by simp
    then show ?case
      using Cons deserialize_serialize [of a unset "concat (map serializeToBytes xs) @ rest"] by simp
  qed simp
  moreover have "unat (of_nat (length addresses) :: byte) = length addresses"
    using assms(2) by (simp add: unat_of_nat)
  ultimately show ?thesis
    using assms(1) by (simp add: contractorFromBytes_def serializeContractor_def)
qed

section \<open>Properties\<close>

text \<open>C38: the contractors survive a restart. In every state that calls which return can reach, a manager
  built anew from the tables knows the same contractors under the same ids, with the same keys and the
  same addresses in the same order, and finds the same contractor for every address. The id a contractor
  has on the other side is the one the calls last gave for it, in both; where none was ever given the new
  manager has 0, while the field of the old one was never set. A channel is confirmed afterwards exactly
  when it was before or its key was made anew: \<open>regenerateCryptoKey\<close> confirms the row and not the contractor
  in memory.\<close>

theorem restart_restores_contractors:
  assumes "contractors_step\<^sup>*\<^sup>* (s, told) ((cm, store), ids, again)" and "in_step s" and "told_ok (s, told)"
    and "\<not> down store" and "ownContractor own = Inr self"
  shows "\<exists>cm'. newContractorsManager unset own store = Inr cm' \<and> mSelf cm' = self \<and>
    keys (mContractors cm') = keys (mContractors cm) \<and>
    (\<forall>a. contractorIDByAddress cm' a = contractorIDByAddress cm a) \<and>
    (\<forall>cid c. map_of (mContractors cm) cid = Some c \<longrightarrow>
       (\<exists>c'. map_of (mContractors cm') cid = Some c' \<and> mCryptoKey c' = mCryptoKey c \<and>
          equalContractors (mAddresses c') (mAddresses c) \<and>
          (case ids cid of
             None \<Rightarrow> mOwnIdOnContractorSide c' = 0
           | Some i \<Rightarrow> mOwnIdOnContractorSide c = i \<and> mOwnIdOnContractorSide c' = i) \<and>
          (mIsConfirmed c' \<longleftrightarrow> mIsConfirmed c \<or> cid \<in> again)))"
proof -
  have "in_step (cm, store)" and told: "told_ok ((cm, store), ids, again)"
    using contractors_run.steps_inv [OF assms(1)] assms(2,3) by simp_all
  note ok = this(1)
  obtain cm' where cm': "newContractorsManager unset own store = Inr cm'" "mSelf cm' = self"
    "keys (mContractors cm') = keys (mContractors cm)"
    and rows: "\<forall>r \<in> set (contractorTable store). \<forall>c. map_of (mContractors cm) (crId r) = Some c \<longrightarrow>
       map_of (mContractors cm') (crId r) = Some \<lparr>contractorId = crId r,
         mOwnIdOnContractorSide = (case crIdOnContractorSide r of None \<Rightarrow> 0 | Some i \<Rightarrow> i),
         mCryptoKey = mCryptoKey c, mIsConfirmed = crIsConfirmed r,
         mAddresses = map (reread unset) (mAddresses c)\<rparr>"
    using reload_map [OF ok assms(4,5)] by blast
  have each: "\<exists>c'. map_of (mContractors cm') cid = Some c' \<and> mCryptoKey c' = mCryptoKey c \<and>
      mAddresses c' = map (reread unset) (mAddresses c) \<and>
      (case ids cid of
         None \<Rightarrow> mOwnIdOnContractorSide c' = 0
       | Some i \<Rightarrow> mOwnIdOnContractorSide c = i \<and> mOwnIdOnContractorSide c' = i) \<and>
      (mIsConfirmed c' \<longleftrightarrow> mIsConfirmed c \<or> cid \<in> again)"
    if c: "map_of (mContractors cm) cid = Some c" for cid c
  proof -
    obtain r where r: "r \<in> set (contractorTable store)" "crId r = cid" "stored_as store c r"
      using in_step_contractor [OF ok c] by blast
    have "crIdOnContractorSide r = ids cid" "crIsConfirmed r \<longleftrightarrow> mIsConfirmed c \<or> cid \<in> again"
      using told r(1,2) c by (auto simp: told_ok_def)
    moreover have "map_of (mContractors cm') cid = Some \<lparr>contractorId = cid,
        mOwnIdOnContractorSide = (case crIdOnContractorSide r of None \<Rightarrow> 0 | Some i \<Rightarrow> i),
        mCryptoKey = mCryptoKey c, mIsConfirmed = crIsConfirmed r, mAddresses = map (reread unset) (mAddresses c)\<rparr>"
      using rows r(1,2) c by auto
    moreover have "\<forall>i. crIdOnContractorSide r = Some i \<longrightarrow> mOwnIdOnContractorSide c = i"
      using r(3) by (simp add: stored_as_def)
    ultimately show ?thesis by (cases "ids cid") simp_all
  qed
  have "map_option fst (find (\<lambda>z. list_ex (\<lambda>x. sameAddress x a) (mAddresses (snd z))) (mContractors cm')) =
      map_option fst (find (\<lambda>z. list_ex (\<lambda>x. sameAddress x a) (mAddresses (snd z))) (mContractors cm))" for a
  proof (rule find_keys_cong)
    show "list_ex (\<lambda>x. sameAddress x a) (mAddresses x) = list_ex (\<lambda>x. sameAddress x a) (mAddresses y)"
      if "map_of (mContractors cm') k = Some x" "map_of (mContractors cm) k = Some y" for k x y
      using each [OF that(2)] that(1) by (auto simp: list_ex_iff)
  qed (use cm'(3) in_stepD(2) [OF ok] in simp_all)
  then have "contractorIDByAddress cm' a = contractorIDByAddress cm a" for a
    by (simp only: contractorIDByAddress_find)
  moreover have "\<exists>c'. map_of (mContractors cm') cid = Some c' \<and> mCryptoKey c' = mCryptoKey c \<and>
      equalContractors (mAddresses c') (mAddresses c) \<and>
      (case ids cid of
         None \<Rightarrow> mOwnIdOnContractorSide c' = 0
       | Some i \<Rightarrow> mOwnIdOnContractorSide c = i \<and> mOwnIdOnContractorSide c' = i) \<and>
      (mIsConfirmed c' \<longleftrightarrow> mIsConfirmed c \<or> cid \<in> again)"
    if c: "map_of (mContractors cm) cid = Some c" for cid c
  proof -
    obtain c' where c': "map_of (mContractors cm') cid = Some c'" "mCryptoKey c' = mCryptoKey c"
      "mAddresses c' = map (reread unset) (mAddresses c)"
      "case ids cid of None \<Rightarrow> mOwnIdOnContractorSide c' = 0
        | Some i \<Rightarrow> mOwnIdOnContractorSide c = i \<and> mOwnIdOnContractorSide c' = i"
      "mIsConfirmed c' \<longleftrightarrow> mIsConfirmed c \<or> cid \<in> again"
      using each [OF c] by (elim exE conjE) (rule that)
    have "equalContractors (mAddresses c') (mAddresses c)" using c'(3) equalContractors_reread by simp
    then show ?thesis using c' by (intro exI [of _ c'] conjI)
  qed
  ultimately show ?thesis using cm' by (intro exI [of _ cm']) simp
qed

definition sampleSource :: KeySource where
  "sampleSource = \<lparr>newPair = (replicate 32 1, replicate 32 2), keyMemory = replicate 32 7, unsetId = 9\<rparr>"

definition sampleAddress :: Address where
  "sampleAddress = IPv4WithPortAddress 127 0 0 1 2033"

definition noContractors :: ContractorsState where
  "noContractors = (\<lparr>mContractors = [], mSelf = [sampleAddress]\<rparr>,
     \<lparr>contractorTable = [], addressTable = [],
      lineStore = \<lparr>lineRows = [], contractorRows = [], broken = False\<rparr>\<rparr>)"

definition sampleKey :: KeyTrio where
  "sampleKey = \<lparr>publicKey = Some (replicate 32 1), secretKey = Some (replicate 32 2),
     contractorPublicKey = Some (replicate 16 0 @ replicate 16 7)\<rparr>"

definition sampleContractor :: ContractorRecord where
  "sampleContractor = newContractor 9 0 [sampleAddress] (Some sampleKey)"

definition oneContractor :: ContractorsState where
  "oneContractor = (\<lparr>mContractors = [(0, sampleContractor)], mSelf = [sampleAddress]\<rparr>,
     \<lparr>contractorTable = [\<lparr>crId = 0, crIdOnContractorSide = None,
        crCryptoKey = replicate 32 1 @ replicate 32 2 @ replicate 16 0 @ replicate 16 7, crIsConfirmed = False\<rparr>],
      addressTable = [addressRow 0 sampleAddress],
      lineStore = \<lparr>lineRows = [], contractorRows = [0], broken = False\<rparr>\<rparr>)"

lemma source_ok_sample: "source_ok sampleSource"
  by (simp add: source_ok_def sampleSource_def kBytesSize_def)

lemma in_step_none: "in_step noContractors"
  by (simp add: in_step_def noContractors_def)

lemma stoul_zeros: "stoul 16 ''00'' = Inr 0"
  by (simp add: stoul_def digitValue_def isspace_def Let_def)

lemma parseHex_zeros:
  "i + n \<le> length out \<Longrightarrow>
     parseHex i (replicate (n + n) CHR ''0'') out = Inr (take i out @ replicate n 0 @ drop (i + n) out)"
proof (induction n arbitrary: i out)
  case (Suc n)
  have "parseHex i (replicate (Suc n + Suc n) CHR ''0'') out =
      parseHex (i + 1) (replicate (n + n) CHR ''0'') (out[i := 0])"
    using Suc.prems by (simp add: stoul_zeros)
  also have "\<dots> = Inr (take (i + 1) (out[i := 0]) @ replicate n 0 @ drop (i + 1 + n) (out[i := 0]))"
    using Suc by simp
  also have "take (i + 1) (out[i := 0]) = take i out @ [0]"
    using Suc.prems by (simp add: take_Suc_conv_app_nth)
  finally show ?case using Suc.prems by (simp add: replicate_append_same)
qed simp

lemma sample_generate: "generateKeyTrio sampleSource [] = Inr sampleKey"
proof -
  have "parseHex 0 (replicate 32 CHR ''0'') (replicate 32 7) = Inr (replicate 16 0 @ replicate 16 (7 :: byte))"
    using parseHex_zeros [of 0 16 "replicate 32 7"] by simp
  then show ?thesis
    by (simp add: generateKeyTrio_def generateUndefinedKey_def sampleSource_def sampleKey_def kBytesSize_def)
qed

lemma unset_sample: "unsetId sampleSource = 9"
  by (simp add: sampleSource_def)

lemma sample_create:
  "createContractor sampleSource [sampleAddress] [] 0 noContractors = (Inr sampleContractor, oneContractor)"
  by (simp add: createContractor_def noContractors_def contractorIDByAddresses_def nextFreeContractorID_def
      allContractorIDs_def sample_generate saveContractor_def keyBlob_def serializeKeys_def insertContractorRow_def
      onTables_def saveAddress_def putContractor_def newContractor_def sampleContractor_def sampleKey_def
      oneContractor_def addressRow_def unset_sample Let_def)

lemma told_none: "told_ok (noContractors, told)"
  by (simp add: told_ok_def noContractors_def)

lemma sample_step: "contractors_step (noContractors, Map.empty, {}) (oneContractor, Map.empty, {})"
proof -
  have "list_all addressStorable [sampleAddress]" by (simp add: addressStorable_def sampleAddress_def)
  from contractors_step.create [OF sample_create source_ok_sample this, of Map.empty "{}"] show ?thesis
    by (simp add: fun_upd_idem)
qed

lemma sample_own: "ownContractor [(''ipv4'', ''127.0.0.1:2033'')] = Inr [sampleAddress]"
proof -
  have "fullAddress sampleAddress = ''127.0.0.1:2033''"
    by (simp add: sampleAddress_def kAddressSeparator_def) (simp add: decimal.simps char_of_def bit_0)
  then have "newIPv4WithPortAddress ''127.0.0.1:2033'' = Inr sampleAddress"
    using parse_print_ipv4 [of 127 0 0 1 2033] by (simp add: sampleAddress_def del: fullAddress.simps)
  then have "ownAddress ''ipv4'' ''127.0.0.1:2033'' = Inr sampleAddress"
    by (simp add: ownAddress_def)
  then show ?thesis by (simp add: ownContractor_def) (simp add: sampleAddress_def)
qed

theorem restart_restores_contractors_witness:
  "\<exists>cm' c'. newContractorsManager 0 [(''ipv4'', ''127.0.0.1:2033'')] (snd oneContractor) = Inr cm' \<and>
     keys (mContractors cm') = [0] \<and> map_of (mContractors cm') 0 = Some c' \<and> mOwnIdOnContractorSide c' = 0 \<and>
     mCryptoKey c' = Some sampleKey \<and> \<not> mIsConfirmed c'"
proof -
  have run: "contractors_step\<^sup>*\<^sup>* (noContractors, Map.empty, {}) ((fst oneContractor, snd oneContractor), Map.empty, {})"
    using sample_step by simp
  have up: "\<not> down (snd oneContractor)" by (simp add: oneContractor_def)
  have c: "map_of (mContractors (fst oneContractor)) 0 = Some sampleContractor"
    "keys (mContractors (fst oneContractor)) = [0]"
    "mCryptoKey sampleContractor = Some sampleKey" "\<not> mIsConfirmed sampleContractor"
    by (simp_all add: oneContractor_def sampleContractor_def newContractor_def)
  obtain cm' where cm': "newContractorsManager 0 [(''ipv4'', ''127.0.0.1:2033'')] (snd oneContractor) = Inr cm'"
    "keys (mContractors cm') = [0]" and
    each: "\<forall>cid c. map_of (mContractors (fst oneContractor)) cid = Some c \<longrightarrow>
       (\<exists>c'. map_of (mContractors cm') cid = Some c' \<and> mCryptoKey c' = mCryptoKey c \<and>
          mOwnIdOnContractorSide c' = 0 \<and> (mIsConfirmed c' \<longleftrightarrow> mIsConfirmed c))"
    using restart_restores_contractors [OF run in_step_none told_none up sample_own, of 0] c(2) by auto
  then show ?thesis using c(1,3,4) by fastforce
qed

lemma contractorIDByAddresses_none:
  assumes "contractorIDByAddresses cm addresses = kNotFoundContractorID"
    and "kNotFoundContractorID \<notin> set (keys (mContractors cm))" and "(cid, c) \<in> set (mContractors cm)"
  shows "\<not> list_all (\<lambda>a. list_ex (\<lambda>checked. sameAddress checked a) addresses) (mAddresses c)"
proof -
  have "find (\<lambda>(cid, c). list_all (\<lambda>a. list_ex (\<lambda>checked. sameAddress checked a) addresses) (mAddresses c))
      (mContractors cm) = None"
    using assms(1,2) by (force simp: contractorIDByAddresses_def split: option.splits dest: find_SomeD)
  then show ?thesis using assms(3) by (auto simp: find_None_iff)
qed

text \<open>Opening a channel. A contractor is created only when no known contractor has all its addresses
  among the given ones; it gets the smallest id not in use, the others stay as they are, the channel is
  confirmed exactly when a key was given, and afterwards its addresses lead to it.\<close>

theorem create_contractor_exact:
  assumes "createContractor src addresses cryptoKey channelID (cm, store) = (Inr c, (cm', store'))"
    and "source_ok src" and "in_step (cm, store)" and "length (contractorTable store) < 2 ^ 32"
    and "kNotFoundContractorID \<notin> set (keys (mContractors cm))"
  shows "contractorId c \<notin> set (keys (mContractors cm)) \<and>
    (\<forall>i < contractorId c. i \<in> set (keys (mContractors cm))) \<and>
    map_of (mContractors cm') = (map_of (mContractors cm))(contractorId c \<mapsto> c) \<and>
    mAddresses c = addresses \<and> mIsConfirmed c = (cryptoKey \<noteq> []) \<and>
    contractorIDByAddresses cm' addresses = contractorId c"
proof -
  note ok = in_stepD [OF assms(3)]
  obtain cid key where new: "contractorIDByAddresses cm addresses = kNotFoundContractorID"
    "nextFreeContractorID store = Inr cid" "\<not> down store"
    "c = createdContractor src cid addresses cryptoKey channelID key" and cm': "cm' = putContractor c cm"
    using createContractor_Inr [OF assms(1,2)] by blast
  have id: "contractorId c = cid" "mAddresses c = addresses" by (simp_all add: new(4))
  have free: "cid \<notin> set (keys (mContractors cm)) \<and> (\<forall>i < cid. i \<in> set (keys (mContractors cm)))"
    using smallest_free [of "map crId (contractorTable store)"] assms(4) new(2,3) ok(4)
    by (simp add: nextFreeContractorID_def allContractorIDs_def split: list.splits if_splits)
  let ?P = "\<lambda>(cid :: ContractorID, c). list_all (\<lambda>a. list_ex (\<lambda>checked. sameAddress checked a) addresses) (mAddresses c)"
  have "(cid, c) \<in> set (mContractors cm')"
    by (rule map_of_SomeD) (simp add: cm' putContractor_def id)
  moreover have "?P (cid, c)" by (auto simp: id list_all_iff list_ex_iff sameAddress_def)
  ultimately have "find ?P (mContractors cm') \<noteq> None" by (auto simp: find_None_iff)
  then obtain i x where f: "find ?P (mContractors cm') = Some (i, x)" by fastforce
  have "i = cid" if "(i, x) \<in> set (mContractors cm')" "?P (i, x)" for i x
    using ordUpdate_set [of "(i, x)" cid c "mContractors cm"] that contractorIDByAddresses_none [OF new(1) assms(5), of i x]
    by (auto simp: cm' putContractor_def id)
  then have "i = cid" using find_SomeD [OF f] by blast
  then have "contractorIDByAddresses cm' addresses = cid"
    by (simp add: contractorIDByAddresses_def f)
  moreover have "mIsConfirmed c = (cryptoKey \<noteq> [])"
    by (simp add: new(4) createdContractor_def newContractor_def)
  ultimately show ?thesis
    using free id by (simp add: cm' putContractor_def)
qed

theorem create_contractor_exact_witness:
  "contractorIDByAddresses (fst oneContractor) [sampleAddress] = 0"
  using create_contractor_exact [of sampleSource "[sampleAddress]" "[]" 0 "fst noContractors" "snd noContractors"
      sampleContractor "fst oneContractor" "snd oneContractor"] sample_create source_ok_sample in_step_none
  by (simp add: noContractors_def sampleContractor_def newContractor_def)

text \<open>a regenerated key confirms the channel behind the manager's back. After
  \<open>regenerateCryptoKey\<close> on a channel that is not confirmed, the manager still reports it as not
  confirmed, but the table has it confirmed: after a restart it is.\<close>

theorem regenerate_confirms_after_restart:
  assumes "regenerateCryptoKey src cid (cm, store) = (Inr (), (cm', store'))" and "in_step (cm, store)"
    and "source_ok src" and "channelConfirmed cm cid = Inr False" and "ownContractor own = Inr self"
  shows "channelConfirmed cm' cid = Inr False \<and>
    (\<exists>cm''. newContractorsManager unset own store' = Inr cm'' \<and> channelConfirmed cm'' cid = Inr True)"
proof -
  have ok': "in_step (cm', store')" by (rule regenerateCryptoKey_ok [OF assms(1-3)])
  obtain c where c: "map_of (mContractors cm) cid = Some c" "\<not> mIsConfirmed c"
    using assms(4) by (auto simp: channelConfirmed_def contractor_def split: option.splits)
  have id: "contractorId c = cid" using in_step_id [OF assms(2) c(1)] by simp
  obtain r k where k: "stored_as store c r" "mCryptoKey c = Some k" "key_ok k"
    using in_step_id [OF assms(2) c(1)] by (auto simp: stored_as_def)
  let ?c = "c\<lparr>mCryptoKey := Some (generateKeyTrioFor src (contractorPublicKey k))\<rparr>"
  obtain store1 where u: "updateCryptoKey ?c store = (Inr (), store1)"
    and t: "cm' = putContractor ?c cm" "store' = store1"
    using assms(1) by (auto simp: regenerateCryptoKey_def c k(2) Let_def onTables_Inr)
  obtain blob where "updateContractorRow cid (\<lambda>r. r\<lparr>crCryptoKey := blob, crIsConfirmed := True\<rparr>) store = (Inr (), store')"
    using u id by (cases "keyBlob ?c") (auto simp: updateCryptoKey_def t)
  then have rows: "\<not> down store'" "\<forall>r \<in> set (contractorTable store'). crId r = cid \<longrightarrow> crIsConfirmed r"
    by (auto simp: updateContractorRow_def split: if_splits)
  have c': "map_of (mContractors cm') cid = Some ?c" by (simp add: t putContractor_def id)
  obtain r' where r': "r' \<in> set (contractorTable store')" "crId r' = cid"
    using in_step_contractor [OF ok' c'] by blast
  obtain cm'' where "newContractorsManager unset own store' = Inr cm''" "\<exists>d. map_of (mContractors cm'') cid = Some d \<and> mIsConfirmed d"
    using reload_map [OF ok' rows(1) assms(5)] r' c' rows(2) by fastforce
  then show ?thesis
    using c' c(2) by (auto simp: channelConfirmed_def contractor_def)
qed

lemma sample_regenerate:
  "\<exists>t. regenerateCryptoKey sampleSource 0 oneContractor = (Inr (), t)"
  by (simp add: regenerateCryptoKey_def oneContractor_def sampleContractor_def newContractor_def sampleKey_def
      updateCryptoKey_def keyBlob_def serializeKeys_def generateKeyTrioFor_def onTables_def updateContractorRow_def Let_def)

theorem regenerate_confirms_after_restart_witness:
  "\<exists>t. regenerateCryptoKey sampleSource 0 oneContractor = (Inr (), t) \<and> channelConfirmed (fst t) 0 = Inr False"
proof -
  obtain t where t: "regenerateCryptoKey sampleSource 0 oneContractor = (Inr (), t)"
    using sample_regenerate by blast
  have "in_step oneContractor" using contractors_step_ok [OF sample_step] in_step_none told_none by simp
  moreover have "channelConfirmed (fst oneContractor) 0 = Inr False"
    by (simp add: channelConfirmed_def contractor_def oneContractor_def sampleContractor_def newContractor_def)
  ultimately have "channelConfirmed (fst t) 0 = Inr False"
    using regenerate_confirms_after_restart [of sampleSource 0 "fst oneContractor" "snd oneContractor" "fst t" "snd t"
        "[(''ipv4'', ''127.0.0.1:2033'')]" "[sampleAddress]"] t source_ok_sample sample_own
    by simp
  then show ?thesis using t by blast
qed

end
