(* ===== verification/Intermediate_Node.thy ===== *)
theory Intermediate_Node
  imports Payment_Voting Contractors
begin

text \<open>
  A payment on a node between coordinator and receiver:
  \<^verbatim>\<open>transactions/transactions/regular/payments/IntermediateNodePaymentTransaction.cpp\<close>. It reserves an
  incoming amount for the previous node of a path and an outgoing one for the next, shortens both when
  the path turns out narrower, checks the final amounts with their receipts, and then votes.

  The state embeds the voting state of the base class (\<open>voting\<close>), which holds the payment and the trust
  lines manager. Messages to the node are \<open>NodeMessage\<close>s, what it sends is appended to \<open>sent\<close>. The voting
  stages see a node message as their own message, or as one of another type. Contractors are found in a
  \<open>ContractorsManager\<close>; the voting stages know a participant by the texts of its addresses. Keys,
  receipts and the database answer through \<open>NodeEnv\<close>. The dispatch of \<open>run\<close> catches the exceptions of the
  project and recovers.
\<close>


type_synonym PathAmounts = "(PathID \<times> TrustLineAmount) list"

datatype OperationState =
    Accepted
  | Rejected
  | RejectedDueOwnKeysAbsence
  | RejectedDueContractorKeysAbsence
  | ClosedState
  | NextNodeInaccessible

text \<open>A receipt: key number and signature. The lists are sender addresses.\<close>

type_synonym Receipt = "KeyNumber \<times> Signature"

datatype NodeMessage =
    IntermediateNodeReservationRequest "Address list" PathAmounts
  | CoordinatorReservationRequest "Address list" Address PathAmounts
  | IntermediateNodeReservationResponse "Address list" PathID OperationState TrustLineAmount
  | FinalPathConfiguration PathID TrustLineAmount
  | FinalAmountsConfiguration "Address list" PathAmounts "(PaymentNodeID \<times> Address list) list" "64 word"
      "Receipt option"
  | TransactionPublicKeyHash "Address list" PaymentNodeID KeyHash "Receipt option"
  | TTLProlongationResponse "8 word"
  | NoEquivalent
  | VotingStageMessage VoteMessage

datatype MessageKind =
    Payments_CoordinatorReservationRequest
  | Payments_IntermediateNodeReservationRequest
  | Payments_IntermediateNodeReservationResponse
  | Payments_FinalPathConfiguration
  | Payments_FinalAmountsConfiguration
  | Payments_TransactionPublicKeyHash
  | Payments_TTLProlongationResponse
  | General_NoEquivalent
  | Payments_ParticipantsPublicKeysKind

datatype NodeSent =
    SendIntermediateResponse Address PathID OperationState TrustLineAmount
  | SendCoordinatorResponse Address PathID OperationState TrustLineAmount
  | SendReservationRequest Address PathAmounts
  | SendTTLProlongationRequest Address
  | SendFinalAmountsResponse Address bool "PublicKey option"
  | SendPublicKeyHash Address PaymentNodeID KeyHash "Receipt option"
  | RequestObservingBlockNumber
  | SendReceiverInitResponse Address bool
  | RemoveAllData

datatype NodeResult =
    Ended
  | Continued
  | WaitForMessages "MessageKind list" "32 word"
  | WaitForResourceAndMessages "MessageKind list" "32 word"
  | VotingResult StepResult

datatype NodeResource = BlockNumberRecourse "64 word" | OtherResource

text \<open>What is signed in a receipt: source, target, block number, transaction, amount, audit number.\<close>

type_synonym ReceiptData =
  "ContractorID \<times> ContractorID \<times> 64 word \<times> TransactionUUID \<times> TrustLineAmount \<times> AuditNumber"

record NodeEnv =
  votes :: VoteEnv
  contractorsManager :: ContractorsManager
  durationExpired :: bool
  checkSign :: "TrustLineID \<Rightarrow> ReceiptData \<Rightarrow> Receipt \<Rightarrow> bool result"
  saveIncomingPaymentReceipt :: "TrustLineID \<Rightarrow> AuditNumber \<Rightarrow> TrustLineAmount \<Rightarrow> Receipt \<Rightarrow> bool result"
  signReceipt :: "TrustLineID \<Rightarrow> ReceiptData \<Rightarrow> Receipt result"
  saveOutgoingPaymentReceipt :: "TrustLineID \<Rightarrow> AuditNumber \<Rightarrow> TrustLineAmount \<Rightarrow> Receipt \<Rightarrow> bool result"
  newPaymentKey :: "PublicKey result"

record NodeState =
  voting :: VoteState
  mMessage :: "Address list \<times> PathAmounts"
  mCoordinator :: "Address list option"
  mLastProcessedPath :: PathID
  mLastReservedAmount :: TrustLineAmount
  mTTLRequestWasSend :: bool
  mBlockNumberObtainingInProcess :: bool
  mPaymentNodesIds :: "(string \<times> PaymentNodeID) list"
  participants :: "(PaymentNodeID \<times> Address list) list"
  mPublicKey :: "PublicKey option"
  nodeContext :: "NodeMessage list"
  mResources :: "NodeResource list"
  sent :: "NodeSent list"

definition kMaxPathLength_payment :: "16 word" where
  "kMaxPathLength_payment = 7"

definition kCountBlocksForClaiming :: "64 word" where
  "kCountBlocksForClaiming = 20"

section \<open>Shortcuts\<close>

abbreviation reservations_of :: "NodeState \<Rightarrow> (ContractorID \<times> PathReservations) list" where
  "reservations_of s \<equiv> txReservations (payment (voting s))"

definition post :: "NodeSent \<Rightarrow> NodeState \<Rightarrow> NodeState" where
  "post m s = s\<lparr>sent := sent s @ [m]\<rparr>"

definition goTo :: "Stage \<Rightarrow> NodeState \<Rightarrow> NodeState" where
  "goTo stage s = s\<lparr>voting := (voting s)\<lparr>mStep := stage\<rparr>\<rparr>"

definition onReservations ::
  "(PaymentState \<Rightarrow> 'a result \<times> PaymentState) \<Rightarrow> NodeState \<Rightarrow> 'a result \<times> NodeState" where
  "onReservations f s =
     (case f (payment (voting s), linesManager (voting s)) of
        (res, p, m) \<Rightarrow> (res, s\<lparr>voting := (voting s)\<lparr>payment := p, linesManager := m\<rparr>\<rparr>))"

text \<open>A voting stage: its view of the context, and what it answers.\<close>

definition voteMessage :: "NodeMessage \<Rightarrow> VoteMessage" where
  "voteMessage m = (case m of VotingStageMessage v \<Rightarrow> v | _ \<Rightarrow> OtherMessage 0)"

definition nodeResult :: "StepResult \<Rightarrow> NodeResult" where
  "nodeResult r =
     (case r of ResultDone \<Rightarrow> Ended | ResultContinuePreviousState \<Rightarrow> Continued | _ \<Rightarrow> VotingResult r)"

definition onVoting ::
  "(VoteState \<Rightarrow> StepResult result \<times> VoteState) \<Rightarrow> NodeState \<Rightarrow> NodeResult result \<times> NodeState" where
  "onVoting f s =
     (case f ((voting s)\<lparr>mContext := map voteMessage (nodeContext s)\<rparr>) of
        (res, v) \<Rightarrow>
          (map_sum id nodeResult res,
           s\<lparr>voting := v\<lparr>mContext := []\<rparr>, nodeContext := (if mContext v = [] then [] else nodeContext s)\<rparr>))"

definition totalOutgoing :: "Payment \<Rightarrow> TrustLineAmount result" where
  "totalOutgoing = totalReservedAmount Outgoing"

text \<open>The overridden \<open>approve\<close> and the contractors, as the voting stages ask for them.\<close>

definition voteEnv :: "NodeEnv \<Rightarrow> VoteEnv" where
  "voteEnv env = (votes env)
     \<lparr>selfContractor := map fullAddress (mSelf (contractorsManager env)),
      contractorAddress := (\<lambda>c. bindR (contractorMainAddress (contractorsManager env) c) (\<lambda>_. Inr ())),
      committedAmount := totalOutgoing, signalsCycles := True\<rparr>"

definition rejectPayment :: "NodeState \<Rightarrow> NodeResult result \<times> NodeState" where
  "rejectPayment = onVoting reject"

definition removeAllDataFromStorageConcerningTransaction :: "NodeState \<Rightarrow> NodeState" where
  "removeAllDataFromStorageConcerningTransaction = post RemoveAllData"

text \<open>\<^verbatim>\<open>mCoordinator->mainAddress()\<close>\<close>

definition coordinatorAddress :: "NodeState \<Rightarrow> Address result" where
  "coordinatorAddress s = (case mCoordinator s of None \<Rightarrow> Inl UndefinedBehaviour | Some a \<Rightarrow> mainAddress a)"

definition firstSender :: "Address list \<Rightarrow> Address result" where
  "firstSender senderAddresses = (case senderAddresses of [] \<Rightarrow> Inl StdOutOfRange | a # _ \<Rightarrow> Inr a)"

abbreviation popContext :: "NodeState \<Rightarrow> NodeState" where
  "popContext s \<equiv> s\<lparr>nodeContext := tl (nodeContext s)\<rparr>"

definition waitProlongation :: NodeResult where
  "waitProlongation = WaitForMessages
     [Payments_FinalAmountsConfiguration, Payments_TransactionPublicKeyHash,
      Payments_IntermediateNodeReservationRequest, Payments_TTLProlongationResponse]
     (maxNetworkDelay ((kMaxPathLength_payment - 2) * 4))"

section \<open>Answers to a failed reservation\<close>

definition closeOrProlong :: "NodeState \<Rightarrow> NodeResult result \<times> NodeState" where
  "closeOrProlong s =
     (if reservations_of s = [] then returning Ended s
      else returning waitProlongation (goTo IntermediateNode_ReservationProlongation s))"

definition sendErrorMessageOnPreviousNodeRequest ::
  "Address \<Rightarrow> PathID \<Rightarrow> OperationState \<Rightarrow> NodeState \<Rightarrow> NodeResult result \<times> NodeState" where
  "sendErrorMessageOnPreviousNodeRequest previousNode pathID errorState s =
     closeOrProlong (post (SendIntermediateResponse previousNode pathID errorState 0) s)"

definition sendErrorMessageOnCoordinatorRequest ::
  "OperationState \<Rightarrow> NodeState \<Rightarrow> NodeResult result \<times> NodeState" where
  "sendErrorMessageOnCoordinatorRequest errorState s =
     bindS (coordinatorAddress s, s) (\<lambda>a s.
     bindS (onReservations (rollBackPath (mLastProcessedPath s))
              (post (SendCoordinatorResponse a (mLastProcessedPath s) errorState 0) s))
       (\<lambda>_. closeOrProlong))"

text \<open>The same body again.\<close>

definition sendErrorMessageOnNextNodeResponse ::
  "OperationState \<Rightarrow> NodeState \<Rightarrow> NodeResult result \<times> NodeState" where
  "sendErrorMessageOnNextNodeResponse errorState s =
     bindS (coordinatorAddress s, s) (\<lambda>a s.
     bindS (onReservations (rollBackPath (mLastProcessedPath s))
              (post (SendCoordinatorResponse a (mLastProcessedPath s) errorState 0) s))
       (\<lambda>_. closeOrProlong))"

definition sendErrorMessageOnFinalAmountsConfiguration :: "NodeState \<Rightarrow> unit result \<times> NodeState" where
  "sendErrorMessageOnFinalAmountsConfiguration s =
     bindS (coordinatorAddress s, s) (\<lambda>a s. returning () (post (SendFinalAmountsResponse a False None) s))"

section \<open>Shortening on a path\<close>

text \<open>
  The loops run over the vectors that \<open>shortageReservation\<close> erases from and appends to. The language
  leaves that undefined; what a vector in contiguous memory does is modelled: the number of entries and
  the storage stay, so the loop visits the positions that were there, each as it is when it is reached,
  and \<open>pathID\<close>, a reference to the entry itself, denotes after the erasure what moved to its position.
\<close>

definition movedInto :: "nat \<Rightarrow> PathID \<Rightarrow> PathReservations \<Rightarrow> PathID" where
  "movedInto i pathID kept = (if i < length kept then fst (kept ! i) else pathID)"

fun shortageEntries ::
  "nat \<Rightarrow> nat \<Rightarrow> ContractorID \<Rightarrow> PathID \<Rightarrow> TrustLineAmount \<Rightarrow> PaymentState \<Rightarrow> unit result \<times> PaymentState" where
  "shortageEntries 0 i c pathID amount s = returning () s"
| "shortageEntries (Suc n) i c pathID amount s =
     (let it = entries (fst s) c ! i
      in bindS (if fst it = pathID \<and> mBlockedAmount (snd it) \<noteq> amount
                then bindS (shortageReservation_as (movedInto i pathID) c (snd it) amount pathID s)
                       (\<lambda>_. returning ())
                else returning () s)
           (\<lambda>_. shortageEntries n (i + 1) c pathID amount))"

fun shortageNodes ::
  "ContractorID list \<Rightarrow> PathID \<Rightarrow> TrustLineAmount \<Rightarrow> PaymentState \<Rightarrow> unit result \<times> PaymentState" where
  "shortageNodes [] pathID amount s = returning () s"
| "shortageNodes (c # cs) pathID amount s =
     bindS (shortageEntries (length (entries (fst s) c)) 0 c pathID amount s)
       (\<lambda>_. shortageNodes cs pathID amount)"

definition shortageReservationsOnPath ::
  "PathID \<Rightarrow> TrustLineAmount \<Rightarrow> PaymentState \<Rightarrow> unit result \<times> PaymentState" where
  "shortageReservationsOnPath pathID amount s = shortageNodes (keys (txReservations (fst s))) pathID amount s"

section \<open>Checks\<close>

definition flatEntries :: "(ContractorID \<times> PathReservations) list \<Rightarrow> PathReservations" where
  "flatEntries rs = concat (map snd rs)"

text \<open>Both loops run over all reservations: a reservation is checked against all of its path.\<close>

definition checkReservationsDirections :: "(ContractorID \<times> PathReservations) list \<Rightarrow> bool" where
  "checkReservationsDirections rs =
     list_all (\<lambda>(checkedPath, checked).
         let onPath = filter (\<lambda>it. fst it = checkedPath) (flatEntries rs)
         in list_all (\<lambda>it. mBlockedAmount (snd it) = mBlockedAmount checked) onPath \<and>
            length (filter (\<lambda>it. mDirection (snd it) = Incoming) onPath) = 1 \<and>
            length (filter (\<lambda>it. mDirection (snd it) = Outgoing) onPath) = 1)
       (flatEntries rs)"

fun allNeighborsIn :: "ContractorsManager \<Rightarrow> (string \<times> PaymentNodeID) list \<Rightarrow> ContractorID list \<Rightarrow> bool result" where
  "allNeighborsIn cm ids [] = Inr True"
| "allNeighborsIn cm ids (c # cs) =
     bindR (contractorMainAddress cm c) (\<lambda>a.
       if map_of ids (fullAddress a) = None then Inr False else allNeighborsIn cm ids cs)"

definition checkAllNeighborsWithReservationsAreInFinalParticipantsList :: "NodeEnv \<Rightarrow> NodeState \<Rightarrow> bool result" where
  "checkAllNeighborsWithReservationsAreInFinalParticipantsList env s =
     allNeighborsIn (contractorsManager env) (mPaymentNodesIds s) (keys (reservations_of s))"

definition getSerializedReceipt ::
  "VoteState \<Rightarrow> ContractorID \<Rightarrow> ContractorID \<Rightarrow> TrustLineAmount \<Rightarrow> bool \<Rightarrow> ReceiptData result" where
  "getSerializedReceipt v source target amount isSource =
     bindR (auditNumber (linesManager v) (if isSource then target else source)) (\<lambda>currentAuditNumber.
       Inr (source, target, mMaximalClaimingBlockNumber (payment v), currentTransactionUUID (payment v), amount,
            currentAuditNumber))"

section \<open>Reservation stages\<close>

text \<open>\<^verbatim>\<open>min\<close> of what is asked and what is free, then the reservation: \<open>None\<close> when nothing can be reserved.\<close>

definition tryReserve ::
  "TrustLineAmount result \<Rightarrow>
   (TrustLineAmount \<Rightarrow> PaymentState \<Rightarrow> bool result \<times> PaymentState) \<Rightarrow> TrustLineAmount \<Rightarrow> NodeState \<Rightarrow>
   TrustLineAmount option result \<times> NodeState" where
  "tryReserve available reserveOn asked s =
     bindS (available, s) (\<lambda>kAvailable s.
       let kReservationAmount = min asked kAvailable
       in if kReservationAmount = 0 then returning None s
          else bindS (onReservations (reserveOn kReservationAmount) s)
                 (\<lambda>granted. returning (if granted then Some kReservationAmount else None)))"

text \<open>The checks on a trust line; the answer says why it cannot be used.\<close>

definition lineRefusal ::
  "OperationState \<Rightarrow> TrustLinesManager \<Rightarrow> ContractorID \<Rightarrow> OperationState option result" where
  "lineRefusal keysAbsent m c =
     (if c = kNotFoundContractorID then Inr (Some Rejected)
      else if \<not> trustLineIsPresent m c then Inr (Some Rejected)
      else bindR (trustLineIsActive m c) (\<lambda>active. if \<not> active then Inr (Some Rejected)
      else bindR (trustLineOwnKeysPresent m c) (\<lambda>own. if \<not> own then Inr (Some keysAbsent)
      else bindR (trustLineContractorKeysPresent m c) (\<lambda>theirs. if \<not> theirs then Inr (Some keysAbsent)
      else Inr None))))"

definition runPreviousNeighborRequestProcessingStage ::
  "NodeEnv \<Rightarrow> NodeState \<Rightarrow> NodeResult result \<times> NodeState" where
  "runPreviousNeighborRequestProcessingStage env s =
     bindS (firstSender (fst (mMessage s)), s) (\<lambda>kNeighbor s.
       case snd (mMessage s) of
         [] \<Rightarrow> sendErrorMessageOnPreviousNodeRequest kNeighbor 0 ClosedState s
       | (kPath, kAmount) # further \<Rightarrow>
           (let senderID = contractorIDByAddress (contractorsManager env) kNeighbor
            in bindS (lineRefusal RejectedDueContractorKeysAbsence (linesManager (voting s)) senderID, s) (\<lambda>refusal s.
               case refusal of
                 Some state \<Rightarrow> sendErrorMessageOnPreviousNodeRequest kNeighbor kPath state s
               | None \<Rightarrow>
                   bindS (onReservations (updateReservations further) s) (\<lambda>updated s.
                   if \<not> updated then sendErrorMessageOnPreviousNodeRequest kNeighbor kPath ClosedState s
                   else
                     bindS (tryReserve (incomingTrustAmountConsideringReservations (linesManager (voting s)) senderID)
                              (\<lambda>a. reserveIncomingAmount_tx senderID a kPath) kAmount s) (\<lambda>reserved s.
                     case reserved of
                       None \<Rightarrow> sendErrorMessageOnPreviousNodeRequest kNeighbor kPath Rejected s
                     | Some kReservationAmount \<Rightarrow>
                         returning
                           (WaitForMessages
                              [Payments_CoordinatorReservationRequest, Payments_IntermediateNodeReservationRequest,
                               Payments_FinalAmountsConfiguration, Payments_TransactionPublicKeyHash,
                               Payments_TTLProlongationResponse] (maxNetworkDelay 4))
                           (goTo IntermediateNode_CoordinatorRequestProcessing
                             (post (SendIntermediateResponse kNeighbor kPath Accepted kReservationAmount)
                               (s\<lparr>mLastReservedAmount := kReservationAmount, mLastProcessedPath := kPath\<rparr>))))))))"

text \<open>\<open>runFinalPathConfigurationProcessingStage\<close> once its message is there.\<close>

definition processFinalPathConfiguration ::
  "PathID \<Rightarrow> TrustLineAmount \<Rightarrow> NodeState \<Rightarrow> NodeResult result \<times> NodeState" where
  "processFinalPathConfiguration pathID amount s =
     bindS (if amount = 0 then onReservations (rollBackPath pathID) s else returning () s) (\<lambda>_ s.
     if amount = 0 \<and> reservations_of s = [] then returning Ended s
     else bindS (onReservations (shortageReservationsOnPath pathID amount) s) (\<lambda>_ s.
       returning waitProlongation (goTo IntermediateNode_ReservationProlongation s)))"

section \<open>Final amounts\<close>

text \<open>
  The receipt that comes with the final amounts or with a key hash: it must be the neighbour's signature
  over what is reserved from it, and it is stored; without a receipt nothing may be reserved from the
  sender. On \<open>False\<close> the data of the payment is removed and the coordinator is told, as the code does
  before each of its rejections.
\<close>

definition refuseFinalAmounts :: "NodeState \<Rightarrow> bool result \<times> NodeState" where
  "refuseFinalAmounts s =
     bindS (sendErrorMessageOnFinalAmountsConfiguration (removeAllDataFromStorageConcerningTransaction s))
       (\<lambda>_. returning False)"

definition checkReceipt ::
  "NodeEnv \<Rightarrow> Address \<Rightarrow> Receipt option \<Rightarrow> NodeState \<Rightarrow> bool result \<times> NodeState" where
  "checkReceipt env sender receipt s =
     (let senderID = contractorIDByAddress (contractorsManager env) sender;
          m = linesManager (voting s);
          incoming = totalReservedIncomingAmountToNode senderID (payment (voting s))
      in case receipt of
           Some r \<Rightarrow>
             if senderID = kNotFoundContractorID then refuseFinalAmounts s
             else
               bindS (incoming, s) (\<lambda>amount s.
               bindS (trustLineID m senderID, s) (\<lambda>line s.
               bindS (idOnContractorSide (contractorsManager env) senderID, s) (\<lambda>ownID s.
               bindS (getSerializedReceipt (voting s) senderID ownID amount False, s) (\<lambda>receiptData s.
               bindS (checkSign env line receiptData r, s) (\<lambda>valid s.
               if \<not> valid then refuseFinalAmounts s
               else
                 bindS (auditNumber m senderID, s) (\<lambda>audit s.
                 bindS (saveIncomingPaymentReceipt env line audit amount r, s) (\<lambda>saved s.
                 if \<not> saved then refuseFinalAmounts s else returning True s)))))))
         | None \<Rightarrow>
             if senderID = kNotFoundContractorID then returning True s
             else bindS (incoming, s) (\<lambda>amount s.
               if amount \<noteq> 0 then refuseFinalAmounts s else returning True s))"

text \<open>
  Everybody sent a key hash: the final amounts are accepted and the voting begins. The receiver has the
  same code with shorter delays; the delays are arguments.
\<close>

definition acceptFinalAmounts :: "32 word \<Rightarrow> NodeState \<Rightarrow> NodeResult result \<times> NodeState" where
  "acceptFinalAmounts keysDelay s =
     (if \<not> checkAllPublicKeyHashesProperly (voting s)
      then bindS (refuseFinalAmounts s) (\<lambda>_. rejectPayment)
      else
        bindS (coordinatorAddress s, s) (\<lambda>a s.
          returning
            (WaitForMessages [Payments_ParticipantsPublicKeysKind, Payments_TTLProlongationResponse] keysDelay)
            (goTo Common_Voting
              ((post (SendFinalAmountsResponse a True (mPublicKey s)) s)\<lparr>mTTLRequestWasSend := False\<rparr>))))"

definition allHashesKnown :: "NodeState \<Rightarrow> bool" where
  "allHashesKnown s \<longleftrightarrow>
     length (mPaymentParticipants (voting s)) = length (mParticipantsPublicKeysHashes (voting s)) + 1"

definition noteHash :: "Address \<Rightarrow> PaymentNodeID \<Rightarrow> KeyHash \<Rightarrow> NodeState \<Rightarrow> NodeState" where
  "noteHash sender nodeID hash s =
     s\<lparr>voting := (voting s)\<lparr>mParticipantsPublicKeysHashes :=
        AList.update (fullAddress sender) (nodeID, hash) (mParticipantsPublicKeysHashes (voting s))\<rparr>\<rparr>"

definition afterNeighborReceipt ::
  "32 word \<Rightarrow> 32 word \<Rightarrow> bool \<Rightarrow> NodeState \<Rightarrow> NodeResult result \<times> NodeState" where
  "afterNeighborReceipt finalDelay keysDelay valid s =
     (if \<not> valid then rejectPayment s
      else if mPaymentParticipants (voting s) = [] then
        returning (WaitForMessages
          [Payments_FinalAmountsConfiguration, Payments_TransactionPublicKeyHash,
           Payments_TTLProlongationResponse] finalDelay) s
      else if mBlockNumberObtainingInProcess s then
        returning (WaitForResourceAndMessages [Payments_TransactionPublicKeyHash] (maxNetworkDelay 1)) s
      else if allHashesKnown s then acceptFinalAmounts keysDelay s
      else
        returning (WaitForMessages
          [Payments_TransactionPublicKeyHash, Payments_TTLProlongationResponse] (maxNetworkDelay 2)) s)"

definition runFinalReservationsNeighborConfirmation ::
  "NodeEnv \<Rightarrow> Address list \<Rightarrow> PaymentNodeID \<Rightarrow> KeyHash \<Rightarrow> Receipt option \<Rightarrow> NodeState \<Rightarrow>
   NodeResult result \<times> NodeState" where
  "runFinalReservationsNeighborConfirmation env senderAddresses nodeID hash receipt s =
     bindS (firstSender senderAddresses, s) (\<lambda>sender s.
     bindS (checkReceipt env sender receipt (noteHash sender nodeID hash s))
       (afterNeighborReceipt (maxNetworkDelay 2) (maxNetworkDelay 7)))"

text \<open>\<^verbatim>\<open>insert\<close> keeps an entry that is there.\<close>

fun insertNodesIds ::
  "(PaymentNodeID \<times> Address list) list \<Rightarrow> (string \<times> PaymentNodeID) list \<Rightarrow> (string \<times> PaymentNodeID) list result" where
  "insertNodesIds [] ids = Inr ids"
| "insertNodesIds ((nodeID, addresses) # rest) ids =
     bindR (mainAddress addresses) (\<lambda>a.
       insertNodesIds rest (if map_of ids (fullAddress a) = None then ids @ [(fullAddress a, nodeID)] else ids))"

definition setClaimingBlock :: "64 word \<Rightarrow> NodeState \<Rightarrow> NodeState" where
  "setClaimingBlock maxBlock s =
     s\<lparr>voting := (voting s)\<lparr>payment := (payment (voting s))\<lparr>mMaximalClaimingBlockNumber := maxBlock\<rparr>\<rparr>\<rparr>"

definition setParticipants :: "(PaymentNodeID \<times> Address list) list \<Rightarrow> NodeState \<Rightarrow> NodeState" where
  "setParticipants nodes s =
     s\<lparr>participants := nodes,
       voting := (voting s)\<lparr>mPaymentParticipants := map (\<lambda>(i, as). (i, map fullAddress as)) nodes\<rparr>\<rparr>"

definition afterCoordinatorReceipt :: "bool \<Rightarrow> NodeState \<Rightarrow> NodeResult result \<times> NodeState" where
  "afterCoordinatorReceipt valid s =
     (if \<not> valid then rejectPayment s
      else
        returning
          (WaitForResourceAndMessages
             [Payments_TransactionPublicKeyHash, Payments_TTLProlongationResponse] (maxNetworkDelay 1))
          (goTo Common_ObservingBlockNumberProcessing
            ((post RequestObservingBlockNumber s)\<lparr>mBlockNumberObtainingInProcess := True\<rparr>)))"

text \<open>The reservations are what the coordinator said, and balanced: the participants are checked.\<close>

definition confirmParticipants ::
  "NodeEnv \<Rightarrow> Address \<Rightarrow> (PaymentNodeID \<times> Address list) list \<Rightarrow> Receipt option \<Rightarrow> NodeState \<Rightarrow>
   NodeResult result \<times> NodeState" where
  "confirmParticipants env sender nodes receipt s =
     bindS (insertNodesIds nodes (mPaymentNodesIds s), s) (\<lambda>ids s.
     bindS (checkAllNeighborsWithReservationsAreInFinalParticipantsList env (s\<lparr>mPaymentNodesIds := ids\<rparr>),
            s\<lparr>mPaymentNodesIds := ids\<rparr>) (\<lambda>allIn s.
       if \<not> allIn then bindS (refuseFinalAmounts s) (\<lambda>_. rejectPayment)
       else bindS (checkReceipt env sender receipt s) afterCoordinatorReceipt))"

definition runFinalReservationsCoordinatorConfirmation ::
  "NodeEnv \<Rightarrow> Address list \<Rightarrow> PathAmounts \<Rightarrow> (PaymentNodeID \<times> Address list) list \<Rightarrow> 64 word \<Rightarrow>
   Receipt option \<Rightarrow> NodeState \<Rightarrow> NodeResult result \<times> NodeState" where
  "runFinalReservationsCoordinatorConfirmation env senderAddresses finalAmounts nodes maxBlock receipt s =
     bindS (firstSender senderAddresses, s) (\<lambda>sender s.
     bindS (onReservations (updateReservations finalAmounts) (setClaimingBlock maxBlock s)) (\<lambda>updated s.
       if \<not> updated then
         bindS (sendErrorMessageOnFinalAmountsConfiguration s) (\<lambda>_ s.
           rejectPayment (removeAllDataFromStorageConcerningTransaction s))
       else if \<not> checkReservationsDirections (reservations_of s) then
         rejectPayment (removeAllDataFromStorageConcerningTransaction s)
       else confirmParticipants env sender nodes receipt (setParticipants nodes s)))"

section \<open>The block number and the key hashes\<close>

definition kContinue :: "8 word" where "kContinue = 1"

definition kFinish :: "8 word" where "kFinish = 2"

text \<open>The answer of the coordinator to a request for more time.\<close>

definition onTTLResponse :: "NodeEnv \<Rightarrow> NodeResult \<Rightarrow> bool \<Rightarrow> 8 word \<Rightarrow> NodeState \<Rightarrow> NodeResult result \<times> NodeState" where
  "onTTLResponse env goOn removeData state s =
     (if state = kContinue
      then (if durationExpired env then rejectPayment s else returning goOn s)
      else rejectPayment (if removeData then removeAllDataFromStorageConcerningTransaction s else s))"

fun sumAll :: "TrustLineAmount \<Rightarrow> PathReservations \<Rightarrow> TrustLineAmount result" where
  "sumAll acc [] = Inr acc"
| "sumAll acc (it # rest) = bindR (checked_add acc (mBlockedAmount (snd it))) (\<lambda>t. sumAll t rest)"

text \<open>
  The loop over the participants other than the coordinator and the node itself. Who gets an outgoing
  amount gets a signed receipt with the hash. \<open>False\<close>: a receipt could not be stored, and the payment was
  refused.
\<close>

definition sendReceiptTo ::
  "NodeEnv \<Rightarrow> PaymentNodeID \<Rightarrow> KeyHash \<Rightarrow> Address \<Rightarrow> ContractorID \<Rightarrow> PathReservations \<Rightarrow> NodeState \<Rightarrow>
   bool result \<times> NodeState" where
  "sendReceiptTo env ownID hash main participantID es s =
     (let m = linesManager (voting s)
      in bindS (trustLineID m participantID, s) (\<lambda>line s.
         bindS (sumAll 0 es, s) (\<lambda>outgoingReservedAmount s.
         bindS (idOnContractorSide (contractorsManager env) participantID, s) (\<lambda>source s.
         bindS (getSerializedReceipt (voting s) source participantID outgoingReservedAmount True, s) (\<lambda>receiptData s.
         bindS (signReceipt env line receiptData, s) (\<lambda>receipt s.
         bindS (auditNumber m participantID, s) (\<lambda>audit s.
         bindS (saveOutgoingPaymentReceipt env line audit outgoingReservedAmount receipt, s) (\<lambda>saved s.
         if \<not> saved then refuseFinalAmounts s
         else returning True (post (SendPublicKeyHash main ownID hash (Some receipt)) s)))))))))"

fun sendKeyHashes ::
  "NodeEnv \<Rightarrow> PaymentNodeID \<Rightarrow> KeyHash \<Rightarrow> (PaymentNodeID \<times> Address list) list \<Rightarrow> NodeState \<Rightarrow>
   bool result \<times> NodeState" where
  "sendKeyHashes env ownID hash [] s = returning True s"
| "sendKeyHashes env ownID hash ((nodeID, addresses) # rest) s =
     (case mCoordinator s of
        None \<Rightarrow> throwing UndefinedBehaviour s
      | Some coordinator \<Rightarrow>
          if equalContractors addresses coordinator then sendKeyHashes env ownID hash rest s
          else if equalContractors addresses (mSelf (contractorsManager env)) then sendKeyHashes env ownID hash rest s
          else
            bindS (mainAddress addresses, s) (\<lambda>main s.
              let participantID = contractorIDByAddress (contractorsManager env) main
              in bindS (case map_of (reservations_of s) participantID of
                          None \<Rightarrow> returning True (post (SendPublicKeyHash main ownID hash None) s)
                        | Some [] \<Rightarrow> throwing UndefinedBehaviour s
                        | Some (it # es) \<Rightarrow>
                            if mDirection (snd it) = Outgoing
                            then sendReceiptTo env ownID hash main participantID (it # es) s
                            else returning True (post (SendPublicKeyHash main ownID hash None) s))
                   (\<lambda>goOn s. if goOn then sendKeyHashes env ownID hash rest s else returning False s)))"

text \<open>\<^verbatim>\<open>mPaymentNodesIds[...]\<close> inserts 0 for an address it does not know; \<^verbatim>\<open>insert\<close> keeps an entry that is there.\<close>

definition nodeIdAt :: "string \<Rightarrow> NodeState \<Rightarrow> PaymentNodeID \<times> NodeState" where
  "nodeIdAt address s =
     (case map_of (mPaymentNodesIds s) address of
        Some i \<Rightarrow> (i, s)
      | None \<Rightarrow> (0, s\<lparr>mPaymentNodesIds := mPaymentNodesIds s @ [(address, 0)]\<rparr>))"

definition insertOwnHash :: "string \<Rightarrow> PaymentNodeID \<Rightarrow> KeyHash \<Rightarrow> VoteState \<Rightarrow> VoteState" where
  "insertOwnHash address ownID hash v =
     (if map_of (mParticipantsPublicKeysHashes v) address = None
      then v\<lparr>mParticipantsPublicKeysHashes := mParticipantsPublicKeysHashes v @ [(address, ownID, hash)]\<rparr>
      else v)"

definition afterHashes :: "32 word \<Rightarrow> bool \<Rightarrow> NodeState \<Rightarrow> NodeResult result \<times> NodeState" where
  "afterHashes keysDelay stored s =
     (if \<not> stored then rejectPayment s
      else if allHashesKnown s then acceptFinalAmounts keysDelay s
      else
        returning (WaitForMessages
          [Payments_TransactionPublicKeyHash, Payments_TTLProlongationResponse] (maxNetworkDelay 2))
          (goTo Coordinator_FinalAmountsConfigurationConfirmation s))"

definition publishHash :: "NodeEnv \<Rightarrow> PublicKey \<Rightarrow> Address \<Rightarrow> NodeState \<Rightarrow> bool result \<times> NodeState" where
  "publishHash env key self s =
     (case nodeIdAt (fullAddress self) s of
        (ownID, s) \<Rightarrow>
          (let hash = publicKeyHash (voteEnv env) key
           in sendKeyHashes env ownID hash (participants s)
                (s\<lparr>voting := insertOwnHash (fullAddress self) ownID hash (voting s)\<rparr>)))"

definition processBlockNumber :: "NodeEnv \<Rightarrow> 64 word \<Rightarrow> NodeState \<Rightarrow> NodeResult result \<times> NodeState" where
  "processBlockNumber env actualObservingBlockNumber s =
     (if \<not> checkMaxClaimingBlockNumber (actualObservingBlockNumber + kCountBlocksForClaiming) (voting s)
      then bindS (refuseFinalAmounts s) (\<lambda>_. rejectPayment)
      else
        bindS (newPaymentKey env, s\<lparr>mBlockNumberObtainingInProcess := False\<rparr>) (\<lambda>key s.
        bindS (mainAddress (mSelf (contractorsManager env)), s\<lparr>mPublicKey := Some key\<rparr>) (\<lambda>self s.
        bindS (publishHash env key self s) (afterHashes (maxNetworkDelay 7)))))"

definition runCheckObservingBlockNumber :: "NodeEnv \<Rightarrow> NodeState \<Rightarrow> NodeResult result \<times> NodeState" where
  "runCheckObservingBlockNumber env s =
     (case nodeContext s of
        [TransactionPublicKeyHash senders nodeID hash receipt] \<Rightarrow>
          runFinalReservationsNeighborConfirmation env senders nodeID hash receipt (popContext s)
      | [TTLProlongationResponse state] \<Rightarrow>
          onTTLResponse env
            (WaitForResourceAndMessages
               [Payments_TransactionPublicKeyHash, Payments_TTLProlongationResponse] (maxNetworkDelay 1))
            True state (popContext s)
      | _ \<Rightarrow>
          (case mResources s of
             BlockNumberRecourse n # rest \<Rightarrow> processBlockNumber env n (s\<lparr>mResources := rest\<rparr>)
           | _ \<Rightarrow> bindS (refuseFinalAmounts s) (\<lambda>_. rejectPayment)))"

section \<open>Prolongation\<close>

definition askForTime :: "NodeResult \<Rightarrow> NodeState \<Rightarrow> NodeResult result \<times> NodeState" where
  "askForTime wait s =
     bindS (coordinatorAddress s, s) (\<lambda>a s.
       returning wait ((post (SendTTLProlongationRequest a) s)\<lparr>mTTLRequestWasSend := True\<rparr>))"

text \<open>The message of a prolongation that \<open>runFinalPathConfigurationProcessingStage\<close> handles is processed directly.\<close>

definition runReservationProlongationStage :: "NodeEnv \<Rightarrow> NodeState \<Rightarrow> NodeResult result \<times> NodeState" where
  "runReservationProlongationStage env s =
     (case nodeContext s of
        [IntermediateNodeReservationRequest senders amounts] \<Rightarrow>
          runPreviousNeighborRequestProcessingStage env ((popContext s)\<lparr>mMessage := (senders, amounts)\<rparr>)
      | [FinalPathConfiguration pathID amount] \<Rightarrow> processFinalPathConfiguration pathID amount (popContext s)
      | [TransactionPublicKeyHash senders nodeID hash receipt] \<Rightarrow>
          runFinalReservationsNeighborConfirmation env senders nodeID hash receipt
            (popContext (goTo Coordinator_FinalAmountsConfigurationConfirmation s))
      | [FinalAmountsConfiguration senders amounts nodes maxBlock receipt] \<Rightarrow>
          runFinalReservationsCoordinatorConfirmation env senders amounts nodes maxBlock receipt
            (popContext (goTo Coordinator_FinalAmountsConfigurationConfirmation (s\<lparr>mTTLRequestWasSend := False\<rparr>)))
      | [TTLProlongationResponse state] \<Rightarrow>
          onTTLResponse env
            (WaitForMessages
               [Payments_TTLProlongationResponse, Payments_FinalPathConfiguration,
                Payments_FinalAmountsConfiguration, Payments_TransactionPublicKeyHash,
                Payments_IntermediateNodeReservationRequest] (maxNetworkDelay ((kMaxPathLength_payment - 2) * 4)))
            False state (popContext s)
      | _ \<Rightarrow>
          if mTTLRequestWasSend s then rejectPayment s
          else if mCoordinator s = None then rejectPayment s
          else askForTime
            (WaitForMessages
               [Payments_IntermediateNodeReservationRequest, Payments_FinalPathConfiguration,
                Payments_FinalAmountsConfiguration, Payments_TransactionPublicKeyHash,
                Payments_TTLProlongationResponse] (maxNetworkDelay 2)) s)"

definition runFinalPathConfigurationProcessingStage :: "NodeEnv \<Rightarrow> NodeState \<Rightarrow> NodeResult result \<times> NodeState" where
  "runFinalPathConfigurationProcessingStage env s =
     (case nodeContext s of
        [FinalPathConfiguration pathID amount] \<Rightarrow> processFinalPathConfiguration pathID amount (popContext s)
      | _ \<Rightarrow> runReservationProlongationStage env s)"

definition runFinalAmountsConfigurationConfirmation :: "NodeEnv \<Rightarrow> NodeState \<Rightarrow> NodeResult result \<times> NodeState" where
  "runFinalAmountsConfigurationConfirmation env s =
     (case nodeContext s of
        [FinalAmountsConfiguration senders amounts nodes maxBlock receipt] \<Rightarrow>
          runFinalReservationsCoordinatorConfirmation env senders amounts nodes maxBlock receipt (popContext s)
      | [TransactionPublicKeyHash senders nodeID hash receipt] \<Rightarrow>
          runFinalReservationsNeighborConfirmation env senders nodeID hash receipt (popContext s)
      | [TTLProlongationResponse state] \<Rightarrow>
          onTTLResponse env
            (WaitForMessages
               [Payments_TTLProlongationResponse, Payments_FinalAmountsConfiguration,
                Payments_TransactionPublicKeyHash] (maxNetworkDelay ((kMaxPathLength_payment - 1) * 4)))
            True state (popContext s)
      | _ \<Rightarrow>
          if mTTLRequestWasSend s then rejectPayment (removeAllDataFromStorageConcerningTransaction s)
          else askForTime
            (WaitForMessages
               [Payments_FinalAmountsConfiguration, Payments_TransactionPublicKeyHash,
                Payments_TTLProlongationResponse] (maxNetworkDelay 2)) s)"

section \<open>The coordinator and the next node\<close>

definition runCoordinatorRequestProcessingStage :: "NodeEnv \<Rightarrow> NodeState \<Rightarrow> NodeResult result \<times> NodeState" where
  "runCoordinatorRequestProcessingStage env s =
     (case nodeContext s of
        [CoordinatorReservationRequest senders kNextNode finalAmounts] \<Rightarrow>
          (let s = (popContext s)\<lparr>mCoordinator := Some senders\<rparr>
           in case finalAmounts of
             [] \<Rightarrow> sendErrorMessageOnCoordinatorRequest ClosedState s
           | (kPath, kAmount) # further \<Rightarrow>
               (let s = s\<lparr>mLastProcessedPath := kPath\<rparr>;
                    nextNodeID = contractorIDByAddress (contractorsManager env) kNextNode
                in bindS (lineRefusal RejectedDueOwnKeysAbsence (linesManager (voting s)) nextNodeID, s) (\<lambda>refusal s.
                   case refusal of
                     Some state \<Rightarrow> sendErrorMessageOnCoordinatorRequest state s
                   | None \<Rightarrow>
                       bindS (tryReserve (outgoingTrustAmountConsideringReservations (linesManager (voting s)) nextNodeID)
                                (\<lambda>a. reserveOutgoingAmount_tx nextNodeID a kPath) kAmount s) (\<lambda>reserved s.
                       case reserved of
                         None \<Rightarrow> sendErrorMessageOnCoordinatorRequest Rejected s
                       | Some reservationAmount \<Rightarrow>
                           returning
                             (WaitForMessages
                                [Payments_IntermediateNodeReservationResponse,
                                 Payments_IntermediateNodeReservationRequest, Payments_FinalPathConfiguration,
                                 Payments_FinalAmountsConfiguration, Payments_TransactionPublicKeyHash,
                                 Payments_TTLProlongationResponse, General_NoEquivalent] (maxNetworkDelay 2))
                             (goTo IntermediateNode_NextNeighborResponseProcessing
                               (post (SendReservationRequest kNextNode ((kPath, reservationAmount) # further))
                                 (s\<lparr>mLastReservedAmount := reservationAmount\<rparr>)))))))
      | _ \<Rightarrow> runReservationProlongationStage env s)"

text \<open>An answer in any state but the three that are asked for counts as an acceptance.\<close>

definition runNextNeighborResponseProcessingStage :: "NodeEnv \<Rightarrow> NodeState \<Rightarrow> NodeResult result \<times> NodeState" where
  "runNextNeighborResponseProcessingStage env s =
     (case nodeContext s of
        [] \<Rightarrow> sendErrorMessageOnNextNodeResponse NextNodeInaccessible s
      | [NoEquivalent] \<Rightarrow> sendErrorMessageOnNextNodeResponse Rejected s
      | [IntermediateNodeReservationResponse senders pathID state amountReserved] \<Rightarrow>
          bindS (firstSender senders, popContext s) (\<lambda>nextNodeAddress s.
            if pathID \<noteq> mLastProcessedPath s then returning Continued s
            else if state = ClosedState then sendErrorMessageOnNextNodeResponse ClosedState s
            else if state = Rejected then sendErrorMessageOnNextNodeResponse Rejected s
            else if state = RejectedDueContractorKeysAbsence
            then sendErrorMessageOnNextNodeResponse RejectedDueContractorKeysAbsence s
            else
              bindS (onReservations (shortageReservationsOnPath pathID amountReserved)
                       (s\<lparr>mLastReservedAmount := amountReserved\<rparr>)) (\<lambda>_ s.
              bindS (coordinatorAddress s, s) (\<lambda>a s.
                returning
                  (WaitForMessages
                     [Payments_FinalPathConfiguration, Payments_IntermediateNodeReservationRequest,
                      Payments_FinalAmountsConfiguration, Payments_TransactionPublicKeyHash,
                      Payments_TTLProlongationResponse] (maxNetworkDelay ((kMaxPathLength_payment - 2) * 4)))
                  (goTo Common_FinalPathConfigurationChecking
                    (post (SendCoordinatorResponse a pathID Accepted (mLastReservedAmount s)) s)))))
      | _ \<Rightarrow> runReservationProlongationStage env s)"

section \<open>Voting and the dispatch\<close>

definition isParticipantsPublicKeys :: "NodeMessage list \<Rightarrow> bool" where
  "isParticipantsPublicKeys context =
     (case context of [VotingStageMessage (ParticipantsPublicKeysMessage _ _)] \<Rightarrow> True | _ \<Rightarrow> False)"

definition runVotesCheckingStageWithCoordinatorClarification ::
  "NodeEnv \<Rightarrow> NodeState \<Rightarrow> NodeResult result \<times> NodeState" where
  "runVotesCheckingStageWithCoordinatorClarification env s =
     (if isParticipantsPublicKeys (nodeContext s) then onVoting (runVotesCheckingStage (voteEnv env)) s
      else case nodeContext s of
        [TTLProlongationResponse state] \<Rightarrow>
          (let s = popContext s
           in if state = kFinish then rejectPayment (removeAllDataFromStorageConcerningTransaction s)
              else if durationExpired env then rejectPayment s
              else returning
                (WaitForMessages [Payments_ParticipantsPublicKeysKind, Payments_TTLProlongationResponse]
                   (maxNetworkDelay ((kMaxPathLength_payment - 2) * 4))) s)
      | _ \<Rightarrow>
          if mTTLRequestWasSend s then rejectPayment (removeAllDataFromStorageConcerningTransaction s)
          else askForTime
            (WaitForMessages [Payments_ParticipantsPublicKeysKind, Payments_TTLProlongationResponse]
               (maxNetworkDelay 2)) s)"

definition runStage :: "NodeEnv \<Rightarrow> NodeState \<Rightarrow> NodeResult result \<times> NodeState" where
  "runStage env s =
     (case mStep (voting s) of
        IntermediateNode_PreviousNeighborRequestProcessing \<Rightarrow> runPreviousNeighborRequestProcessingStage env s
      | IntermediateNode_CoordinatorRequestProcessing \<Rightarrow> runCoordinatorRequestProcessingStage env s
      | IntermediateNode_NextNeighborResponseProcessing \<Rightarrow> runNextNeighborResponseProcessingStage env s
      | Common_FinalPathConfigurationChecking \<Rightarrow> runFinalPathConfigurationProcessingStage env s
      | IntermediateNode_ReservationProlongation \<Rightarrow> runReservationProlongationStage env s
      | Coordinator_FinalAmountsConfigurationConfirmation \<Rightarrow> runFinalAmountsConfigurationConfirmation env s
      | Common_ObservingBlockNumberProcessing \<Rightarrow> runCheckObservingBlockNumber env s
      | Common_Voting \<Rightarrow> runVotesCheckingStageWithCoordinatorClarification env s
      | Common_VotesChecking \<Rightarrow> onVoting (runVotesConsistencyCheckingStage (voteEnv env)) s
      | Common_Recovery \<Rightarrow> onVoting (runVotesRecoveryParentStage (voteEnv env)) s
      | Common_Observing \<Rightarrow> onVoting (runObservingResultStage (voteEnv env)) s
      | Common_ObservingReject \<Rightarrow> onVoting runObservingRejectTransaction s
      | Common_Uncertain \<Rightarrow> returning Ended s
      | _ \<Rightarrow> throwing RuntimeError s)"

text \<open>\<^verbatim>\<open>run\<close>: the exceptions of the project end in \<open>recover\<close>; those of the standard library leave \<^verbatim>\<open>run\<close>.\<close>

definition recovering :: "VoteEnv \<Rightarrow> NodeResult result \<times> NodeState \<Rightarrow> NodeResult result \<times> NodeState" where
  "recovering env r =
     (case r of
        (Inl e, s) \<Rightarrow> if isProjectException e then onVoting (recover env) s else throwing e s
      | (Inr result, s) \<Rightarrow> returning result s)"

definition run :: "NodeEnv \<Rightarrow> NodeState \<Rightarrow> NodeResult result \<times> NodeState" where
  "run env s = recovering (voteEnv env) (runStage env s)"

text \<open>
  The constructors. The fields of the intermediate node without an initialiser are what the memory held
  (\<open>path\<close>, \<open>unset\<close>); the voting fields are those of the base class.
\<close>

definition newVoting :: "Payment \<Rightarrow> TrustLinesManager \<Rightarrow> VoteState" where
  "newVoting p m = \<lparr>payment = p, linesManager = m, mStep = IntermediateNode_PreviousNeighborRequestProcessing,
     mVotesRecoveryStep = Common_PrepareNodesListToCheckVotes, mTransactionIsVoted = False,
     mCountRecoveryAttempts = 0, mNodesToCheckVotes = [], mCurrentNodeToCheckVotes = None,
     mPaymentParticipants = [], mParticipantsPublicKeysHashes = [], mParticipantsPublicKeys = [],
     mParticipantsSignatures = [], mSignedTransaction = None, mContext = [], outbox = []\<rparr>"

definition newNode ::
  "TransactionUUID \<Rightarrow> bool \<Rightarrow> 64 word \<Rightarrow> PathID \<Rightarrow> Address list \<times> PathAmounts \<Rightarrow> TrustLinesManager \<Rightarrow> NodeState" where
  "newNode transactionUUID iAmGateway unset path message m = \<lparr>
     voting = newVoting (newPayment transactionUUID iAmGateway unset) m, mMessage = message,
     mCoordinator = None, mLastProcessedPath = path, mLastReservedAmount = 0, mTTLRequestWasSend = False,
     mBlockNumberObtainingInProcess = False, mPaymentNodesIds = [], participants = [], mPublicKey = None,
     nodeContext = [], mResources = [], sent = []\<rparr>"

end
