(* ===== verification/Payment_Balance.thy ===== *)
theory Payment_Balance
  imports Payment_Voting
begin

text \<open>
  What a commit and the voting stages do to the balances. A commit either overflows a receipt total,
  which leaves \<^verbatim>\<open>run\<close>, or settles everything; the sum of all balances then moves by what was reserved in
  minus what was reserved out (\<open>netFlow\<close>). Every voting, recovery and observing stage keeps the reservations
  and that sum, or releases all reservations and moves the sum by \<open>netFlow\<close> or not at all (\<open>settles\<close>); one
  that ends holds no reservation unless the observers have it (\<open>released\<close>).
\<close>

section \<open>A commit that returns\<close>

text \<open>On a covered reservation the only failure is the overflow of a receipt total, which no handler of the
  project catches.\<close>

lemma pay_covered:
  assumes "trust_line_ok line" and "within_limits line" and "amount \<le> outgoing_room line"
  shows "pay amount line = settleOutgoing (mBalance line - int amount) amount line"
proof -
  have le: "int amount \<le> int (mIncomingTrustAmount line) + mBalance line"
    using assms(2,3) by (simp add: outgoing_room_def within_limits_def le_nat_iff)
  have "wrap256 (mBalance line - int amount) = mBalance line - int amount"
    using assms(1) le by (intro wrap256_id) (auto simp: trust_line_ok_def)
  then show ?thesis
    using le assms(2) by (auto simp: pay_def Let_def within_limits_def)
qed

lemma settleOutgoing_result:
  "settleOutgoing b amount line = (res, line') \<Longrightarrow>
     (if mTotalOutgoingReceiptsAmount line + amount < 2 ^ 256 then res = Inr () else res = Inl StdOverflowError)"
  by (auto simp: settleOutgoing_def checked_add_def Let_def split: if_splits)

lemma pay_covered_result:
  assumes "trust_line_ok line" and "within_limits line" and "amount \<le> outgoing_room line"
    and "pay amount line = (res, line')"
  shows "if mTotalOutgoingReceiptsAmount line + amount < 2 ^ 256 then res = Inr () else res = Inl StdOverflowError"
  using settleOutgoing_result assms(4) by (simp add: pay_covered [OF assms(1-3)])

lemma accept_covered_result:
  assumes "trust_line_ok line" and "within_limits line" and "amount \<le> incoming_room line"
    and "acceptPayment amount line = (res, line')"
  shows "if mTotalIncomingReceiptsAmount line + amount < 2 ^ 256 then res = Inr () else res = Inl StdOverflowError"
proof -
  have "acceptPayment amount line = map_prod id mirror (pay amount (mirror line))"
    using accept_mirror [of amount "mirror line"] by simp
  then obtain l where "pay amount (mirror line) = (res, l)"
    using assms(4) by (cases "pay amount (mirror line)") simp
  moreover have "trust_line_ok (mirror line)" "within_limits (mirror line)" "amount \<le> outgoing_room (mirror line)"
    using assms(1-3) by (auto simp: mirror_def trust_line_ok_def within_limits_def outgoing_room_def incoming_room_def)
  ultimately show ?thesis
    using pay_covered_result [of "mirror line" amount res l] by (simp add: mirror_def)
qed

lemma use_held_result:
  assumes "manager_ok m" and "r \<in> set (held_by m c)" and "useReservation c r m = (res, m')"
  obtains "res = Inl StdOverflowError"
  | "res = Inr ()" and "\<And>line. map_of (mTrustLines m) c = Some line \<Longrightarrow>
      receiptsOf (mDirection r) line + mBlockedAmount r < 2 ^ 256"
proof -
  obtain line where line: "map_of (mTrustLines m) c = Some line" "line_ok line"
    "mBlockedAmount r \<le> line_room (mDirection r) line"
    using held_room [OF assms(1,2)] by blast
  note ok = line(2) [unfolded line_ok_def, THEN conjunct1]
    line(2) [unfolded line_ok_def, THEN conjunct2, THEN conjunct1]
  have "if receiptsOf (mDirection r) line + mBlockedAmount r < 2 ^ 256 then res = Inr () else res = Inl StdOverflowError"
    using assms(3) line ok pay_covered_result [of line "mBlockedAmount r" res] accept_covered_result [of line "mBlockedAmount r" res]
    by (auto simp: useReservation_def line_room_def receiptsOf_def split: ReservationDirection.splits prod.splits)
  then show thesis using that line(1) by (auto split: if_splits)
qed

lemma commitEntries_returns:
  assumes "manager_ok m" and "mset (map snd es) \<subseteq># own u m c" and "address c = Inr a"
    and "commitEntries address c d0 es (p, m) = (res, p', m')"
  shows "res = Inl StdOverflowError \<or>
    res = Inr (if es = [] then d0 else Some (mDirection (snd (last es)))) \<and>
    p' = noteAll c (map snd es) p \<and> settledTo u m m' (\<lambda>c'. if c' = c then map snd es else [])"
  using assms(1,2,4)
proof (induction es arbitrary: m p d0)
  case Nil
  then show ?case by (auto simp: noteAll_def intro!: settledTo_cong [OF settledTo_none])
next
  case (Cons it es)
  have mem: "snd it \<in># own u m c" using Cons.prems(2) by (simp add: insert_subset_eq_iff)
  obtain r1 mu where use: "useReservation c (snd it) m = (r1, mu)" by (meson surj_pair)
  show ?case
  proof (rule use_held_result [OF Cons.prems(1) own_held [OF mem] use])
    assume "r1 = Inl StdOverflowError"
    then show ?thesis using Cons.prems(3) use by simp
  next
    assume fits: "\<And>line. map_of (mTrustLines m) c = Some line \<Longrightarrow>
      receiptsOf (mDirection (snd it)) line + mBlockedAmount (snd it) < 2 ^ 256"
    obtain m1 m2 where m: "useReservation c (snd it) m = (Inr (), m1)"
      "dropAmountReservation c (snd it) m1 = (Inr (), m2)"
      "settledTo u m m2 (\<lambda>c'. if c' = c then [snd it] else [])"
      using settle_one [OF Cons.prems(1) mem fits] by blast
    have "mset (map snd es) \<subseteq># own u m2 c"
      using m(3) Cons.prems(2) by (simp add: settledTo_def insert_subset_eq_iff)
    moreover have "manager_ok m2" using m(3) by (simp add: settledTo_def)
    moreover have "commitEntries address c (Some (mDirection (snd it))) es (noteTransfer c (snd it) p, m2) = (res, p', m')"
      using Cons.prems(3) m(1,2) assms(3) by simp
    ultimately have "res = Inl StdOverflowError \<or>
      res = Inr (if es = [] then Some (mDirection (snd it)) else Some (mDirection (snd (last es)))) \<and>
      p' = noteAll c (map snd es) (noteTransfer c (snd it) p) \<and>
      settledTo u m2 m' (\<lambda>c'. if c' = c then map snd es else [])"
      using Cons.IH by blast
    moreover have "settledTo u m m' (\<lambda>c'. if c' = c then map snd (it # es) else [])"
      if "settledTo u m2 m' (\<lambda>c'. if c' = c then map snd es else [])"
      using settledTo_trans [OF m(3) that] by (rule settledTo_cong) simp
    ultimately show ?thesis by (auto simp: noteAll_def)
  qed
qed

lemma commitNodes_returns:
  assumes "manager_ok m" and "distinct (keys rs)" and "\<forall>(c, es) \<in> set rs. es \<noteq> []"
    and "\<forall>c. listed rs c \<subseteq># own u m c" and "\<forall>c \<in> set (keys rs). \<exists>a. address c = Inr a"
    and "commitNodes address rs (p, m) = (res, p', m')"
  shows "res = Inl StdOverflowError \<or>
    res = Inr () \<and> settledTo u m m' (listOf rs) \<and> currentTransactionUUID p' = currentTransactionUUID p"
  using assms
proof (induction rs arbitrary: m p)
  case Nil
  then show ?case by (auto simp: listOf_def intro!: settledTo_cong [OF settledTo_none])
next
  case (Cons x rs)
  obtain c es where x: "x = (c, es)" by (cases x)
  have none: "map_of rs c = None" using Cons.prems(2) by (simp add: x map_of_eq_None_iff)
  obtain a where a: "address c = Inr a" using Cons.prems(5) by (auto simp: x)
  have sub: "mset (map snd es) \<subseteq># own u m c" using Cons.prems(4) [THEN spec, of c] by (simp add: x listed_Cons)
  obtain r1 p1 m1 where c1: "commitEntries address c None es (p, m) = (r1, p1, m1)" by (metis prod_cases3)
  note first = commitEntries_returns [where address = address and c = c and ?d0.0 = None and p = p, OF Cons.prems(1) sub a c1]
  have ne: "es \<noteq> []" using Cons.prems(3) by (auto simp: x)
  show ?case
  proof (cases "r1 = Inl StdOverflowError")
    case True
    then show ?thesis using Cons.prems(6) c1 by (simp add: x)
  next
    case False
    then have r1: "r1 = Inr (Some (mDirection (snd (last es))))" and p1: "p1 = noteAll c (map snd es) p"
      and m1: "settledTo u m m1 (\<lambda>c'. if c' = c then map snd es else [])" using first ne by auto
    let ?p1 = "p1\<lparr>events := events p1 @ [TrustLineActionSignal c (mDirection (snd (last es)) = Outgoing)]\<rparr>"
    have go: "commitNodes address rs (?p1, m1) = (res, p', m')" using Cons.prems(6) c1 r1 by (simp add: x)
    have sub1: "listed rs c' \<subseteq># own u m1 c'" for c'
      using m1 none Cons.prems(4) [THEN spec, of c']
      by (cases "c' = c") (simp_all add: settledTo_def x listed_Cons listed_def)
    have "res = Inl StdOverflowError \<or>
      res = Inr () \<and> settledTo u m1 m' (listOf rs) \<and> currentTransactionUUID p' = currentTransactionUUID ?p1"
      using Cons.IH [OF _ _ _ _ _ go] Cons.prems sub1 m1 by (auto simp: x settledTo_def)
    moreover have "settledTo u m m' (listOf (x # rs))" if "settledTo u m1 m' (listOf rs)"
      using settledTo_trans [OF m1 that] by (rule settledTo_cong) (simp add: x listOf_Cons listOf_def none)
    ultimately show ?thesis by (auto simp: p1)
  qed
qed

text \<open>A commit that does not overflow a receipt total has settled everything, also when the database refuses.\<close>

lemma commit_returns:
  assumes "tx_ok (p, m)" and "\<And>c. c \<in> set (keys (txReservations p)) \<Longrightarrow> \<exists>a. address c = Inr a"
    and "commit address ok (p, m) = (res, p', m')"
  shows "res = Inl StdOverflowError \<or>
    (res = Inr () \<or> res = Inl IOError) \<and> tx_ok (p', m') \<and> txReservations p' = [] \<and>
    currentTransactionUUID p' = currentTransactionUUID p \<and>
    settledTo (currentTransactionUUID p) m m' (listOf (txReservations p))"
proof -
  note tx = tx_okD [OF assms(1)]
  obtain r p1 m1 where c: "commitNodes address (txReservations p) (p, m) = (r, p1, m1)" by (metis prod_cases3)
  have "r = Inl StdOverflowError \<or> r = Inr () \<and>
      settledTo (currentTransactionUUID p) m m1 (listOf (txReservations p)) \<and>
      currentTransactionUUID p1 = currentTransactionUUID p"
    using commitNodes_returns [where u = "currentTransactionUUID p", OF tx(1,2) _ _ _ c] tx assms(2) by auto
  then show ?thesis
  proof
    assume "r = Inl StdOverflowError"
    then show ?thesis using assms(3) c by (simp add: commit_def)
  next
    assume r: "r = Inr () \<and> settledTo (currentTransactionUUID p) m m1 (listOf (txReservations p)) \<and>
      currentTransactionUUID p1 = currentTransactionUUID p"
    have "own (currentTransactionUUID p) m1 c = {#}" for c
      using r tx(4) [of c] by (simp add: settledTo_def mset_listOf)
    then show ?thesis
      using r assms(3) c by (auto simp: commit_def Let_def tx_ok_def settledTo_def listed_def split: if_splits)
  qed
qed

section \<open>The sum of all balances\<close>

definition sumOfBalances :: "TrustLinesManager \<Rightarrow> int" where
  "sumOfBalances m = sum_list (map (\<lambda>x. mBalance (snd x)) (mTrustLines m))"

lemma sum_list_keys:
  "distinct (keys xs) \<Longrightarrow> sum_list (map (\<lambda>x. f (snd x)) xs) = (\<Sum>k \<in> set (keys xs). f (the (map_of xs k)))"
  for f :: "'b \<Rightarrow> int"
proof (induction xs)
  case (Cons x xs)
  have "(\<Sum>k \<in> set (keys xs). f (the (map_of (x # xs) k))) = (\<Sum>k \<in> set (keys xs). f (the (map_of xs k)))"
    using Cons.prems by (intro sum.cong) (force simp: image_iff)+
  then show ?case using Cons by (cases x) simp
qed simp

text \<open>What a list of reservations adds to a balance.\<close>

definition netFlow :: "AmountReservation list \<Rightarrow> int" where
  "netFlow rs = int (flow Incoming rs) - int (flow Outgoing rs)"

lemma netFlow_simps [simp]: "netFlow [] = 0" "netFlow (xs @ ys) = netFlow xs + netFlow ys"
  by (simp_all add: netFlow_def)

lemma settled_balance:
  assumes "settledTo u m m' g" and "manager_ok m" and "\<And>c. g c \<noteq> [] \<Longrightarrow> map_of (mTrustLines m) c \<noteq> None"
  shows "sumOfBalances m' = sumOfBalances m + (\<Sum>c \<in> set (keys (mTrustLines m)). netFlow (g c))"
proof -
  have look: "map_of (mTrustLines m') c = map_option (settledLine (g c)) (map_of (mTrustLines m) c)" for c
    using assms(1) by (simp add: settledTo_def)
  have keys: "set (keys (mTrustLines m')) = set (keys (mTrustLines m))"
  proof (rule set_eqI)
    fix c show "c \<in> set (keys (mTrustLines m')) \<longleftrightarrow> c \<in> set (keys (mTrustLines m))"
      using look [of c] map_of_eq_None_keys [of "mTrustLines m'" c] map_of_eq_None_keys [of "mTrustLines m" c]
      by (cases "map_of (mTrustLines m) c") (simp_all del: set_map)
  qed
  have m': "manager_ok m'" using assms(1) by (simp add: settledTo_def)
  have one: "mBalance (the (map_of (mTrustLines m') c)) = mBalance (the (map_of (mTrustLines m) c)) + netFlow (g c)"
    if c: "c \<in> set (keys (mTrustLines m))" for c
  proof -
    obtain line where "map_of (mTrustLines m) c = Some line"
      using c map_of_eq_None_keys [of "mTrustLines m" c] by (cases "map_of (mTrustLines m) c") simp_all
    then show ?thesis using look [of c] by (simp add: settledLine_amounts netFlow_def)
  qed
  have "sumOfBalances m' = (\<Sum>c \<in> set (keys (mTrustLines m)). mBalance (the (map_of (mTrustLines m') c)))"
    unfolding sumOfBalances_def sum_list_keys [OF manager_okD(2) [OF m']] keys ..
  also have "\<dots> = (\<Sum>c \<in> set (keys (mTrustLines m)). mBalance (the (map_of (mTrustLines m) c)) + netFlow (g c))"
    by (intro sum.cong refl one)
  also have "\<dots> = sumOfBalances m + (\<Sum>c \<in> set (keys (mTrustLines m)). netFlow (g c))"
    unfolding sumOfBalances_def sum_list_keys [OF manager_okD(2) [OF assms(2)]] by (simp add: sum.distrib)
  finally show ?thesis .
qed

lemma sum_listOf:
  "distinct (keys rs) \<Longrightarrow> finite K \<Longrightarrow> set (keys rs) \<subseteq> K \<Longrightarrow>
     (\<Sum>c \<in> K. netFlow (listOf rs c)) = netFlow (map snd (concat (map snd rs)))"
proof (induction rs)
  case Nil
  then show ?case by (simp add: listOf_def)
next
  case (Cons x rs)
  obtain c es where x: "x = (c, es)" by (cases x)
  have none: "listOf rs c = []" using Cons.prems(1) by (force simp: x listOf_def split: option.splits dest: map_of_SomeD)
  have c: "c \<in> K" using Cons.prems(3) by (simp add: x)
  have "(\<Sum>d \<in> K. netFlow (listOf (x # rs) d)) = (\<Sum>d \<in> K. (if d = c then netFlow (map snd es) else 0) + netFlow (listOf rs d))"
    by (intro sum.cong) (auto simp: x listOf_Cons none)
  also have "\<dots> = netFlow (map snd es) + (\<Sum>d \<in> K. netFlow (listOf rs d))"
    using Cons.prems(2) c by (simp add: sum.distrib)
  finally show ?case using Cons by (simp add: x)
qed

lemma tx_line:
  assumes "tx_ok (p, m)" and "listOf (txReservations p) c \<noteq> []"
  shows "map_of (mTrustLines m) c \<noteq> None"
proof -
  have "own (currentTransactionUUID p) m c \<noteq> {#}"
    using assms(2) mset_listOf [of "txReservations p" c] tx_okD(4) [OF assms(1), of c] by auto
  then obtain r where "r \<in> set (held_by m c)" by (auto simp: own_def filter_empty_conv)
  then show ?thesis using held_room [OF tx_okD(1) [OF assms(1)]] by blast
qed

text \<open>A commit moves the sum of the balances by what was reserved in minus what was reserved out.\<close>

definition netOf :: "Payment \<Rightarrow> int" where
  "netOf p = netFlow (map snd (concat (map snd (txReservations p))))"

lemma netOf_Nil: "txReservations p = [] \<Longrightarrow> netOf p = 0"
  by (simp add: netOf_def)

lemma netOf_cong: "txReservations p = txReservations q \<Longrightarrow> netOf p = netOf q"
  by (simp add: netOf_def)

lemma settled_total:
  assumes "tx_ok (p, m)" and "settledTo u m m' (listOf (txReservations p))"
  shows "sumOfBalances m' = sumOfBalances m + netOf p"
proof -
  have "set (keys (txReservations p)) \<subseteq> set (keys (mTrustLines m))"
  proof
    fix c assume "c \<in> set (keys (txReservations p))"
    then obtain es where "(c, es) \<in> set (txReservations p)" by auto
    then have "listOf (txReservations p) c \<noteq> []"
      using tx_okD(2,3) [OF assms(1)] by (auto simp: listOf_def)
    then show "c \<in> set (keys (mTrustLines m))"
      using tx_line [OF assms(1)] map_of_eq_None_keys by metis
  qed
  then show ?thesis
    using settled_balance [OF assms(2) tx_okD(1) [OF assms(1)] tx_line [OF assms(1)]]
      sum_listOf [OF tx_okD(2) [OF assms(1)] finite_set] unfolding netOf_def by presburger
qed

section \<open>What a voting stage does to the reservations\<close>

abbreviation reserves :: "VoteState \<Rightarrow> PaymentState" where
  "reserves v \<equiv> (payment v, linesManager v)"

definition others_kept :: "PaymentState \<Rightarrow> PaymentState \<Rightarrow> bool" where
  "others_kept s s' \<longleftrightarrow> currentTransactionUUID (fst s') = currentTransactionUUID (fst s) \<and>
     (\<forall>u c. u \<noteq> currentTransactionUUID (fst s) \<longrightarrow> own u (snd s') c = own u (snd s) c)"

lemma others_kept_refl [simp]: "others_kept s s"
  by (simp add: others_kept_def)

lemma others_kept_trans: "others_kept s t \<Longrightarrow> others_kept t u \<Longrightarrow> others_kept s u"
  by (simp add: others_kept_def)

lemma tx_kept_others: "tx_kept s s' \<Longrightarrow> others_kept s s'"
  by (simp add: tx_kept_def others_kept_def)

lemma tx_kept_total: "tx_kept s s' \<Longrightarrow> sumOfBalances (snd s') = sumOfBalances (snd s)"
  by (simp add: tx_kept_def sumOfBalances_def)

text \<open>
  Ready to vote: the contractors are known. A stage that does not leave with an exception of the standard
  library has all its reservations and the balances it had, or no reservation, and then the sum of the
  balances is what it was or what all reservations make of it.
\<close>

definition vote_ready :: "VoteEnv \<Rightarrow> VoteState \<Rightarrow> bool" where
  "vote_ready env v \<longleftrightarrow> tx_ok (reserves v) \<and>
     (\<forall>c \<in> set (keys (txReservations (payment v))). \<exists>a. contractorAddress env c = Inr a)"

definition settles :: "VoteState \<Rightarrow> 'a result \<times> VoteState \<Rightarrow> bool" where
  "settles v = (\<lambda>(res, v'). (\<forall>e. res = Inl e \<longrightarrow> isProjectException e) \<longrightarrow>
     tx_ok (reserves v') \<and> others_kept (reserves v) (reserves v') \<and>
     (txReservations (payment v') = txReservations (payment v) \<and>
        sumOfBalances (linesManager v') = sumOfBalances (linesManager v) \<or>
      txReservations (payment v') = [] \<and>
        sumOfBalances (linesManager v') - sumOfBalances (linesManager v) \<in> {0, netOf (payment v)}) \<and>
     (mStep v' = mStep v \<or> mStep v' \<in> {Common_VotesChecking, Common_Recovery, Common_Observing}))"

text \<open>What has ended holds nothing, unless the observers have it.\<close>

definition released :: "StepResult result \<times> VoteState \<Rightarrow> bool" where
  "released = (\<lambda>(res, v'). res = Inr ResultDone \<longrightarrow> txReservations (payment v') = [] \<or> mStep v' = Common_Observing)"

lemma vote_ready_after:
  "vote_ready env v \<Longrightarrow> settles v (res, v') \<Longrightarrow> (\<And>e. res = Inl e \<Longrightarrow> isProjectException e) \<Longrightarrow> vote_ready env v'"
  by (auto simp: vote_ready_def settles_def)

lemma settles_still:
  "tx_ok (reserves v) \<Longrightarrow> payment v' = payment v \<Longrightarrow> linesManager v' = linesManager v \<Longrightarrow>
     mStep v' = mStep v \<or> mStep v' \<in> {Common_VotesChecking, Common_Recovery, Common_Observing} \<Longrightarrow>
     settles v (res, v')"
  by (simp add: settles_def)

lemma settles_trans:
  "settles v (res, v1) \<Longrightarrow> (\<And>e. res = Inl e \<Longrightarrow> isProjectException e) \<Longrightarrow> settles v1 (res', v2) \<Longrightarrow>
     settles v (res', v2)"
  by (auto simp: settles_def netOf_Nil intro: others_kept_trans dest: netOf_cong)

lemma settles_bindS:
  assumes "settles v r" and "\<And>x v1. r = (Inr x, v1) \<Longrightarrow> settles v1 (f x v1)"
  shows "settles v (bindS r f)"
proof (cases r)
  case (Pair res v1)
  show ?thesis
  proof (cases res)
    case (Inl e)
    then show ?thesis using Pair assms(1) by (simp add: settles_def)
  next
    case (Inr x)
    obtain res' v2 where "f x v1 = (res', v2)" by (meson surj_pair)
    then show ?thesis
      using settles_trans [of v res v1 res' v2] assms Pair Inr by simp
  qed
qed

lemma settles_rolled: "tx_ok (reserves v) \<Longrightarrow> rollBack (reserves v) = (res, p, m) \<Longrightarrow>
    settles v (res', v\<lparr>payment := p, linesManager := m\<rparr>)"
  using rollBack_kept [of "reserves v" res "(p, m)"] tx_kept_others [of "reserves v" "(p, m)"]
    tx_kept_total [of "reserves v" "(p, m)"]
  by (auto simp: settles_def tx_kept_def)

lemma rolled_back:
  assumes "tx_ok (reserves v)"
  shows "settles v (bindS (onPayment rollBack v) (\<lambda>_. returning ResultDone)) \<and>
    released (bindS (onPayment rollBack v) (\<lambda>_. returning ResultDone))"
proof -
  obtain p m where r: "rollBack (reserves v) = (Inr (), p, m)" and "txReservations p = []"
    using rollBack_kept [OF assms] by (metis prod.collapse)
  then have "bindS (onPayment rollBack v) (\<lambda>_. returning ResultDone) =
      (Inr ResultDone, v\<lparr>payment := p, linesManager := m\<rparr>)" by (simp add: onPayment_def)
  then show ?thesis
    using settles_rolled [OF assms r] \<open>txReservations p = []\<close> by (simp add: released_def)
qed

lemma reject_settles: "tx_ok (reserves v) \<Longrightarrow> settles v (reject v) \<and> released (reject v)"
  unfolding reject_def by (rule rolled_back)

lemma approve_settles:
  assumes "vote_ready env v"
  shows "settles v (approve env v) \<and> released (approve env v)"
proof (cases "committedAmount env (payment v)")
  case (Inl e)
  then show ?thesis
    using assms by (auto simp: approve_def released_def vote_ready_def intro: settles_still)
next
  case (Inr a)
  obtain res p m where c: "commit (contractorAddress env) (commitStorageOk env) (reserves v) = (res, p, m)"
    by (metis prod_cases3)
  have tx: "tx_ok (reserves v)" using assms by (simp add: vote_ready_def)
  have "res = Inl StdOverflowError \<or> (res = Inr () \<or> res = Inl IOError) \<and> tx_ok (p, m) \<and> txReservations p = [] \<and>
      currentTransactionUUID p = currentTransactionUUID (payment v) \<and>
      settledTo (currentTransactionUUID (payment v)) (linesManager v) m (listOf (txReservations (payment v)))"
    by (rule commit_returns [OF tx _ c]) (use assms in \<open>auto simp: vote_ready_def\<close>)
  then show ?thesis
  proof
    assume "res = Inl StdOverflowError"
    then show ?thesis
      using Inr c by (simp add: approve_def onPayment_def settles_def released_def isProjectException_def)
  next
    assume r: "(res = Inr () \<or> res = Inl IOError) \<and> tx_ok (p, m) \<and> txReservations p = [] \<and>
      currentTransactionUUID p = currentTransactionUUID (payment v) \<and>
      settledTo (currentTransactionUUID (payment v)) (linesManager v) m (listOf (txReservations (payment v)))"
    have "sumOfBalances m = sumOfBalances (linesManager v) + netOf (payment v)"
      using settled_total [OF tx, of _ m] r by fastforce
    moreover have "others_kept (reserves v) (p, m)" using r by (simp add: others_kept_def settledTo_def)
    ultimately show ?thesis
      using Inr c r by (cases "signalsCycles env") (auto simp: approve_def onPayment_def settles_def released_def Let_def)
  qed
qed

section \<open>Recovery\<close>

lemma processNext_settles:
  assumes "tx_ok (reserves v)"
  shows "settles v (processNextNodeToCheckVotes env v) \<and> released (processNextNodeToCheckVotes env v)"
proof -
  obtain res v' where r: "processNextNodeToCheckVotes env v = (res, v')" by (meson surj_pair)
  have "mStep v' = mStep v \<or> mStep v' = Common_Observing" "res = Inr ResultDone \<Longrightarrow> mStep v' = Common_Observing"
    using r by (auto simp: processNextNodeToCheckVotes_def Let_def runObservingStage_def bindS_def
      sendVotesRequestMessageAndWaitForResponse_def split: if_splits sum.splits)
  then show ?thesis
    using processNext_keeps [OF r] assms by (auto simp: r released_def intro!: settles_still)
qed

lemma prepare_settles:
  assumes "tx_ok (reserves v)"
  shows "settles v (runPrepareListNodesToCheckNodes env v) \<and> released (runPrepareListNodesToCheckNodes env v)"
proof -
  obtain res v' where r: "runPrepareListNodesToCheckNodes env v = (res, v')" by (meson surj_pair)
  have "(mStep v' = mStep v \<or> mStep v' = Common_Observing) \<and> (res = Inr ResultDone \<longrightarrow> mStep v' = Common_Observing)"
    using r by (auto simp: runPrepareListNodesToCheckNodes_def processNextNodeToCheckVotes_def Let_def
      runObservingStage_def bindS_def sendVotesRequestMessageAndWaitForResponse_def split: if_splits sum.splits option.splits)
  then show ?thesis
    using prepare_keeps [OF r] assms by (auto simp: r released_def intro!: settles_still)
qed

lemma settles_from:
  assumes "settles w r" and "payment w = payment v" and "linesManager w = linesManager v"
    and "mStep w = mStep v \<or> mStep w \<in> {Common_VotesChecking, Common_Recovery, Common_Observing}"
  shows "settles v r"
  using assms by (auto simp: settles_def netOf_def)

lemma recover_settles:
  assumes "tx_ok (reserves v)"
  shows "settles v (recover env v) \<and> released (recover env v)"
proof (cases "mTransactionIsVoted v")
  case True
  let ?w = "v\<lparr>mStep := Common_Recovery, mVotesRecoveryStep := Common_PrepareNodesListToCheckVotes,
       mContext := [], mCountRecoveryAttempts := 0\<rparr>"
  have "recover env v = runPrepareListNodesToCheckNodes env ?w" using True by (simp add: recover_def)
  then show ?thesis
    using prepare_settles [of ?w env] assms settles_from [of ?w "recover env v" v] by simp
next
  case False
  then show ?thesis using rolled_back [OF assms] by (simp add: recover_def)
qed

section \<open>The stages\<close>

lemma released_other: "fst r \<noteq> Inr ResultDone \<Longrightarrow> released r"
  by (cases r) (auto simp: released_def)

lemma process_settles:
  assumes "vote_ready env v"
  shows "settles v (processParticipantsVotesMessage env v) \<and> released (processParticipantsVotesMessage env v)"
proof -
  have tx: "tx_ok (reserves v)" using assms by (simp add: vote_ready_def)
  let ?go = "\<lambda>w. case firstWrongSignature env w (mPaymentParticipants w) of
      Inl e \<Rightarrow> throwing e w | Inr (Some _) \<Rightarrow> recover env w | Inr None \<Rightarrow> approve env w"
  have go: "settles w (?go w) \<and> released (?go w)" if w: "vote_ready env w" for w
  proof -
    have "tx_ok (reserves w)" using w by (simp add: vote_ready_def)
    then show ?thesis
      using recover_settles [of w env] approve_settles [OF w] settles_still [of w w]
      by (auto simp: released_def split: sum.splits option.splits)
  qed
  have rec: "settles v (bindS (recover env v) (\<lambda>_. ?go)) \<and> released (bindS (recover env v) (\<lambda>_. ?go))"
  proof (cases "recover env v")
    case (Pair res w)
    note k = recover_settles [OF tx, of env, unfolded Pair]
    show ?thesis
    proof (cases res)
      case (Inl e)
      then show ?thesis using Pair k by (simp add: settles_def released_def)
    next
      case (Inr x)
      then have "vote_ready env w" using vote_ready_after [OF assms conjunct1 [OF k]] by simp
      note g = go [OF this]
      obtain r' w' where "?go w = (r', w')" by (meson surj_pair)
      then show ?thesis using settles_trans [OF conjunct1 [OF k], of r' w'] g Pair Inr by simp
    qed
  qed
  show ?thesis
    using recover_settles [OF tx, of env] go [OF assms] rec settles_still [OF tx, of v]
    by (auto simp: processParticipantsVotesMessage_def released_def split: option.splits)
qed

lemma consistency_settles:
  assumes "vote_ready env v"
  shows "settles v (runVotesConsistencyCheckingStage env v) \<and> released (runVotesConsistencyCheckingStage env v)"
proof -
  have tx: "tx_ok (reserves v)" using assms by (simp add: vote_ready_def)
  have pr: "settles v (processParticipantsVotesMessage env (v\<lparr>mContext := [], mParticipantsSignatures := sigs\<rparr>)) \<and>
      released (processParticipantsVotesMessage env (v\<lparr>mContext := [], mParticipantsSignatures := sigs\<rparr>))" for sigs
  proof -
    let ?w = "v\<lparr>mContext := [], mParticipantsSignatures := sigs\<rparr>"
    have "vote_ready env ?w" using assms by (simp add: vote_ready_def)
    then show ?thesis using process_settles [of env ?w] by (auto intro!: settles_from [of ?w])
  qed
  show ?thesis
    using recover_settles [OF tx, of env] pr tx
    by (auto simp: runVotesConsistencyCheckingStage_def Let_def sendSignedTransaction_def released_def
        split: list.splits VoteMessage.splits option.splits intro!: settles_still)
qed

text \<open>The vote: what signing and saving may change.\<close>

lemma signing_still:
  assumes "bindS (saveTransaction env, w) (\<lambda>_ s.
      bindS (signPaymentTransaction env (getSerializedParticipantsVotesData s), s)
        (\<lambda>signature s. case signature of
           None \<Rightarrow> returning False (s\<lparr>mSignedTransaction := None\<rparr>)
         | Some sig \<Rightarrow>
             bindS (savePayment env,
                    s\<lparr>mSignedTransaction := Some sig, mTransactionIsVoted := True\<rparr>)
               (\<lambda>_. returning True))) = (r, w')"
  shows "payment w' = payment w \<and> linesManager w' = linesManager w \<and> mStep w' = mStep w"
  using assms by (auto simp: bindS_def split: sum.splits option.splits)

lemma checking_settles:
  assumes "vote_ready env v"
  shows "settles v (runVotesCheckingStage env v) \<and> released (runVotesCheckingStage env v)"
proof -
  have tx: "tx_ok (reserves v)" using assms by (simp add: vote_ready_def)
  have still: "settles v (res, w)" if "payment w = payment v" "linesManager w = linesManager v"
    "mStep w = mStep v \<or> mStep w = Common_VotesChecking" for res :: "StepResult result" and w
    using settles_still [OF tx that(1,2)] that(3) by auto
  have rej: "settles v (reject w) \<and> released (reject w)" if "payment w = payment v" "linesManager w = linesManager v"
    "mStep w = mStep v" for w
    using reject_settles [of w] settles_from [of w "reject w" v] that tx by simp
  show ?thesis
  proof (cases "mTransactionIsVoted v")
    case True
    then show ?thesis using consistency_settles [OF assms] by (simp add: runVotesCheckingStage_def)
  next
    case False
    show ?thesis
    proof (cases "\<exists>c k. mContext v = [ParticipantsPublicKeysMessage c k]")
      case no: False
      then have "runVotesCheckingStage env v = reject (send RemovedAllData v)"
        using False by (auto simp: runVotesCheckingStage_def split: list.splits VoteMessage.splits)
      then show ?thesis using rej [of "send RemovedAllData v"] by simp
    next
      case True
      then obtain c k where ck: "mContext v = [ParticipantsPublicKeysMessage c k]" by blast
      let ?w = "v\<lparr>mContext := [], mParticipantsPublicKeys := k\<rparr>"
      define s where "s = bindS (saveTransaction env, ?w) (\<lambda>_ s.
        bindS (signPaymentTransaction env (getSerializedParticipantsVotesData s), s)
          (\<lambda>signature s. case signature of
             None \<Rightarrow> returning False (s\<lparr>mSignedTransaction := None\<rparr>)
           | Some sig \<Rightarrow>
               bindS (savePayment env,
                      s\<lparr>mSignedTransaction := Some sig, mTransactionIsVoted := True\<rparr>)
                 (\<lambda>_. returning True)))"
      obtain r w where rw: "s = (r, w)" by (cases s)
      have w: "payment w = payment v" "linesManager w = linesManager v" "mStep w = mStep v"
        using signing_still [OF s_def [symmetric, unfolded rw]] by simp_all
      define X where "X = (case s of
          (Inr True, s) \<Rightarrow> sendSignedTransaction c (s\<lparr>mStep := Common_VotesChecking\<rparr>)
        | (Inr False, s) \<Rightarrow> reject (send RemovedAllData s)
        | (Inl IOError, s) \<Rightarrow> reject (send (ParticipantVoteMessage c None) (send RemovedAllData s))
        | (Inl e, s) \<Rightarrow> throwing e s)"
      have X: "settles v X \<and> released X"
      proof (cases r)
        case (Inl e)
        then show ?thesis
          using rej [of "send (ParticipantVoteMessage c None) (send RemovedAllData w)"] still [of w] w
          by (cases e) (simp_all add: X_def rw released_def)
      next
        case (Inr b)
        then show ?thesis
          using rej [of "send RemovedAllData w"] still [of "send (ParticipantVoteMessage c (mSignedTransaction w)) (w\<lparr>mStep := Common_VotesChecking\<rparr>)"] w
          by (cases b) (simp_all add: X_def rw released_def sendSignedTransaction_def)
      qed
      have voting: "runVotesCheckingStage env v = X"
        if "map_of (mPaymentParticipants v) kCoordinatorPaymentNodeID = Some c" "checkPublicKeysAppropriate env ?w"
        unfolding runVotesCheckingStage_def X_def s_def using False ck that by (simp add: Let_def)
      show ?thesis
      proof (cases "map_of (mPaymentParticipants v) kCoordinatorPaymentNodeID = Some c \<and> checkPublicKeysAppropriate env ?w")
        case True
        then show ?thesis using X voting by simp
      next
        case no: False
        show ?thesis
          using no False ck still [of "v\<lparr>mContext := []\<rparr>"] rej [of "send (ParticipantVoteMessage c None) (send RemovedAllData ?w)"]
          by (auto simp: runVotesCheckingStage_def Let_def released_other split: option.splits)
      qed
    qed
  qed
qed

lemma recovery_settles:
  assumes "vote_ready env v"
  shows "settles v (runVotesRecoveryParentStage env v) \<and> released (runVotesRecoveryParentStage env v)"
proof -
  have tx: "tx_ok (reserves v)" using assms by (simp add: vote_ready_def)
  have still: "settles v (res, w)" if "payment w = payment v" "linesManager w = linesManager v" "mStep w = mStep v"
    for res :: "StepResult result" and w
    using settles_still [OF tx that(1,2)] that(3) by auto
  have next_: "settles v (processNextNodeToCheckVotes env w) \<and> released (processNextNodeToCheckVotes env w)"
    if "payment w = payment v" "linesManager w = linesManager v" "mStep w = mStep v" for w
    using processNext_settles [of w env] settles_from [of w "processNextNodeToCheckVotes env w" v] that tx by simp
  have pr: "settles v (processParticipantsVotesMessage env w) \<and> released (processParticipantsVotesMessage env w)"
    if "payment w = payment v" "linesManager w = linesManager v" "mStep w = mStep v" for w
    using process_settles [of env w] settles_from [of w "processParticipantsVotesMessage env w" v] that assms
    by (simp add: vote_ready_def)
  show ?thesis
    using prepare_settles [OF tx, of env] next_ pr still
    by (auto simp: runVotesRecoveryParentStage_def runCheckCoordinatorVotesStage_def
        runCheckIntermediateNodeVotesStage_def released_other Let_def
        split: VotesRecoveryStage.splits list.splits VoteMessage.splits option.splits)
qed

lemma observing_settles:
  assumes "vote_ready env v" and "mStep v = Common_Observing"
  shows "settles v (runObservingResultStage env v) \<and> released (runObservingResultStage env v)"
  using process_settles [OF assms(1)] settles_still [of v "send ObservingClaim v"] assms
  by (auto simp: runObservingResultStage_def released_def vote_ready_def)

lemma observing_reject_settles:
  assumes "tx_ok (reserves v)"
  shows "settles v (runObservingRejectTransaction v) \<and> released (runObservingRejectTransaction v)"
proof -
  let ?w = "send RemovedAllData v"
  have "runObservingRejectTransaction v = bindS (onPayment rollBack ?w) (\<lambda>_. returning ResultDone)"
    by (simp add: runObservingRejectTransaction_def)
  then show ?thesis
    using rolled_back [of ?w] settles_from [of ?w "runObservingRejectTransaction v" v] assms by simp
qed

end
