(* ===== verification/Payment_Totals.thy ===== *)
theory Payment_Totals
  imports Payment_Balance
begin

text \<open>
  The amount a payment has reserved in a direction, over all its paths (\<open>flowOf\<close>): what the code adds
  up, how a new reservation changes it, and that an update to final amounts, a shortening or the drop of
  a path never raises it.
\<close>

definition flowOf :: "ReservationDirection \<Rightarrow> Payment \<Rightarrow> nat" where
  "flowOf d p = flow d (map snd (concat (map snd (txReservations p))))"

lemma flowOf_Nil: "txReservations p = [] \<Longrightarrow> flowOf d p = 0"
  by (simp add: flowOf_def)

lemma netOf_flows: "netOf p = int (flowOf Incoming p) - int (flowOf Outgoing p)"
  by (simp add: netOf_def netFlow_def flowOf_def)

lemma flowOf_cong: "txReservations p = txReservations q \<Longrightarrow> flowOf d p = flowOf d q"
  by (simp add: flowOf_def)

lemma sum_flow_listOf:
  "distinct (keys rs) \<Longrightarrow> finite K \<Longrightarrow> set (keys rs) \<subseteq> K \<Longrightarrow>
     (\<Sum>c \<in> K. flow d (listOf rs c)) = flow d (map snd (concat (map snd rs)))"
proof (induction rs)
  case Nil
  then show ?case by (simp add: listOf_def)
next
  case (Cons x rs)
  obtain c es where x: "x = (c, es)" by (cases x)
  have none: "listOf rs c = []" using Cons.prems(1) by (force simp: x listOf_def split: option.splits dest: map_of_SomeD)
  have c: "c \<in> K" using Cons.prems(3) by (simp add: x)
  have "(\<Sum>e \<in> K. flow d (listOf (x # rs) e)) = (\<Sum>e \<in> K. (if e = c then flow d (map snd es) else 0) + flow d (listOf rs e))"
    by (intro sum.cong) (auto simp: x listOf_Cons none)
  also have "\<dots> = flow d (map snd es) + (\<Sum>e \<in> K. flow d (listOf rs e))"
    using Cons.prems(2) c by (simp add: sum.distrib)
  finally show ?case using Cons by (simp add: x)
qed

lemma listOf_entries: "listOf (txReservations p) c = map snd (entries p c)"
  by (simp add: listOf_def entries_def split: option.split)

lemma flowOf_entries:
  assumes "distinct (keys (txReservations p))" and "finite K" and "set (keys (txReservations p)) \<subseteq> K"
  shows "flowOf d p = (\<Sum>c \<in> K. flow d (map snd (entries p c)))"
  using sum_flow_listOf [OF assms, of d] by (simp add: flowOf_def listOf_entries)

section \<open>What the code adds up\<close>

lemma sumEntries_Inr: "sumEntries d acc rs = Inr k \<Longrightarrow> k = acc + flow d rs"
proof (induction rs arbitrary: acc)
  case (Cons r rs)
  then have "sumEntries d (acc + amountOf d r) rs = Inr k"
    by (auto simp: checked_add_def amountOf_def split: if_splits)
  from Cons.IH [OF this] show ?case by simp
qed simp

lemma allEntries_amounts: "map snd (allEntries rs) = map snd (concat (map snd rs))"
  by (induction rs) (auto simp: allEntries_def)

lemma totalReserved_Inr: "totalReservedAmount d p = Inr k \<Longrightarrow> k = flowOf d p"
  unfolding totalReservedAmount_def flowOf_def allEntries_amounts by (drule sumEntries_Inr) simp

section \<open>Reserving\<close>

lemma flowOf_put:
  assumes "tx_ok (p, m)"
  shows "int (flowOf d (p\<lparr>txReservations := ordUpdate c es (txReservations p)\<rparr>)) =
    int (flowOf d p) + int (flow d (map snd es)) - int (flow d (map snd (entries p c)))"
proof -
  let ?q = "p\<lparr>txReservations := ordUpdate c es (txReservations p)\<rparr>" and ?K = "insert c (set (keys (txReservations p)))"
  note ok = tx_okD [OF assms]
  have q: "distinct (keys (txReservations ?q))"
    using sorted_ordUpdate [OF ok(5,2)] by simp
  have "flowOf d ?q = (\<Sum>e \<in> ?K. flow d (map snd (entries ?q e)))"
    by (rule flowOf_entries [OF q]) (simp_all add: keys_ordUpdate del: set_map)
  also have "\<dots> = flow d (map snd es) + (\<Sum>e \<in> ?K - {c}. flow d (map snd (entries p e)))"
    by (subst sum.remove [of _ c]) (simp_all add: entries_ordUpdate cong: sum.cong_simp)
  finally have a: "flowOf d ?q = \<dots>" .
  have "flowOf d p = (\<Sum>e \<in> ?K. flow d (map snd (entries p e)))"
    by (rule flowOf_entries [OF ok(2)]) auto
  also have "\<dots> = flow d (map snd (entries p c)) + (\<Sum>e \<in> ?K - {c}. flow d (map snd (entries p e)))"
    by (rule sum.remove) simp_all
  finally show ?thesis using a by simp
qed

lemma reserve_flow:
  assumes "tx_ok s" and "reserveOutgoingAmount_tx c a pathID s = (Inr b, s') \<and> e = Outgoing \<or>
    reserveIncomingAmount_tx c a pathID s = (Inr b, s') \<and> e = Incoming"
  shows "flowOf d (fst s') = flowOf d (fst s) + (if b \<and> d = e then a else 0)"
proof -
  obtain p m where s: "s = (p, m)" by (cases s)
  show ?thesis
  proof (cases b)
    case False
    then show ?thesis using assms(2)
      by (auto simp: s reserveOutgoingAmount_tx_def reserveIncomingAmount_tx_def split: sum.splits prod.splits if_splits)
  next
    case True
    then obtain r m' where r: "reserveOutgoingAmount c (currentTransactionUUID p) a m = (Inr r, m') \<and> e = Outgoing \<or>
        reserveIncomingAmount c (currentTransactionUUID p) a m = (Inr r, m') \<and> e = Incoming"
      and s': "s' = (addEntry c pathID r p, m')"
      using assms(2)
      by (auto simp: s reserveOutgoingAmount_tx_def reserveIncomingAmount_tx_def split: sum.splits prod.splits if_splits)
    have "mBlockedAmount r = a \<and> mDirection r = e"
      using r by (auto simp: reserveOutgoingAmount_def reserveIncomingAmount_def onHandler_def reserve_cases Let_def
          split: sum.splits if_splits prod.splits)
    then show ?thesis
      using True flowOf_put [OF assms(1) [unfolded s], of d c "entries p c @ [(pathID, r)]"]
      by (auto simp: s s' addEntry_def amountOf_def)
  qed
qed

section \<open>Lowering\<close>

definition lowered :: "Payment \<Rightarrow> Payment \<Rightarrow> bool" where
  "lowered p q \<longleftrightarrow> (\<forall>d. flowOf d q \<le> flowOf d p)"

lemma lowered_refl [simp]: "lowered p p"
  by (simp add: lowered_def)

lemma lowered_trans: "lowered p q \<Longrightarrow> lowered q r \<Longrightarrow> lowered p r"
  unfolding lowered_def using le_trans by blast

lemma flow_mset: "mset xs = mset ys \<Longrightarrow> flow d xs = flow d ys"
  by (metis mset_map sum_mset_sum_list)

lemma shortage_lowers:
  assumes "tx_ok s" and "(pathID, r) \<in> set (entries (fst s) c)"
    and "shortageReservation_as label c r a pathID s = (res, s')"
  shows "lowered (fst s) (fst s')"
proof -
  obtain p m where s: "s = (p, m)" by (cases s)
  note ok = tx_okD [OF assms(1) [unfolded s]]
  have mem: "(pathID, r) \<in> set (entries p c)" using assms(2) s by simp
  have held: "r \<in> set (held_by m c)" using own_held [OF entry_held [OF assms(1) [unfolded s] mem]] by simp
  obtain rr mm where upd: "updateAmountReservation c r a m = (rr, mm)" by fastforce
  show ?thesis
  proof (cases "mBlockedAmount r < a \<or> (\<exists>e. rr = Inl e)")
    case True
    then have "fst s' = p"
      using assms(3) upd by (auto simp: s shortageReservation_as_def split: if_splits geo_error.splits)
    then show ?thesis by (simp add: s)
  next
    case False
    then obtain n where n: "updateAmountReservation c r a m = (Inr n, mm)" and le: "a \<le> mBlockedAmount r"
      using upd by (cases rr) auto
    let ?q = "\<lambda>it. resRef (snd it) = resRef r \<and> fst it = pathID"
    let ?kept = "removeFirst ?q (entries p c)"
    have s': "fst s' = p\<lparr>txReservations := ordUpdate c (?kept @ [(label ?kept, n)]) (txReservations p)\<rparr>"
      using assms(3) n le by (auto simp: s shortageReservation_as_def Let_def)
    have "snd x = r" if "x \<in> set (entries p c)" "?q x" for x
      using same_ref_same [OF ok(1) held, of "snd x"] own_held [OF entry_held [OF assms(1) [unfolded s] that(1)]] that(2)
      by blast
    then have rem: "mset (map snd ?kept) = mset (map snd (entries p c)) - {#r#}"
      using mem by (intro removeFirst_mset) force+
    have "r \<in># mset (map snd (entries p c))" using mem by force
    then have "mset (map snd (entries p c)) = mset (r # map snd ?kept)" using rem by simp
    from flow_mset [OF this] have old: "flow d (map snd (entries p c)) = amountOf d r + flow d (map snd ?kept)" for d by simp
    have "amountOf d n \<le> amountOf d r" for d
      using updated_held [OF ok(1) held n] le by (simp add: amountOf_def)
    then have "int (flowOf d (fst s')) \<le> int (flowOf d p)" for d
      using flowOf_put [OF assms(1) [unfolded s], of d c "?kept @ [(label ?kept, n)]"] old [of d] by (simp add: s')
    then show ?thesis by (simp add: lowered_def s)
  qed
qed

lemma keepOff_flow: "flow d (map snd (concat (map snd (keepOff pathID rs)))) \<le> flow d (map snd (concat (map snd rs)))"
proof (induction rs)
  case (Cons x rs)
  have "flow d (map snd (filter q es)) \<le> flow d (map snd es)" for q and es :: PathReservations
    by (induction es) auto
  from this [of "\<lambda>it. fst it \<noteq> pathID" "snd x"] Cons show ?case by (cases x) (auto simp: keepOff_def)
qed (simp add: keepOff_def)

lemma dropPath_lowers:
  assumes "tx_ok s" and "dropNodeReservationsOnPath pathID s = (res, s') \<or> rollBackPath pathID s = (res, s')"
  shows "lowered (fst s) (fst s')"
proof -
  have "dropNodeReservationsOnPath pathID s = (res, s')" using assms(2) by (simp add: rollBackPath_def dropNodeReservationsOnPath_def)
  then have "fst s' = (fst s)\<lparr>txReservations := keepOff pathID (txReservations (fst s))\<rparr>"
    using dropPath_ok [of "fst s" "snd s" pathID] assms(1) by auto
  then show ?thesis using keepOff_flow by (simp add: lowered_def flowOf_def)
qed

lemma updateReservation_tx_lowers:
  assumes "tx_ok s" and "find (\<lambda>x. fst x = fst it) finalAmounts \<noteq> None \<Longrightarrow> it \<in> set (entries (fst s) c)"
    and "updateReservation_tx c it finalAmounts s = (res, s')"
  shows "lowered (fst s) (fst s')"
proof (cases "find (\<lambda>x. fst x = fst it) finalAmounts")
  case None
  obtain r t where t: "dropNodeReservationsOnPath (fst it) s = (r, t)" by (meson surj_pair)
  then have "s' = t" using assms(3) None by (cases r) (auto simp: updateReservation_tx_def)
  then show ?thesis using dropPath_lowers [OF assms(1)] t by blast
next
  case (Some a)
  then have a: "fst a = fst it" by (auto simp: find_Some_iff)
  have mem: "(fst it, snd it) \<in> set (entries (fst s) c)" using assms(2) Some by simp
  obtain r t where t: "shortageReservation c (snd it) (snd a) (fst it) s = (r, t)" by (meson surj_pair)
  have "s' = s \<or> s' = t" using assms(3) Some a t by (cases r) (auto simp: updateReservation_tx_def split: if_splits)
  then show ?thesis using shortage_lowers [OF assms(1) mem t [unfolded shortageReservation_def]] by auto
qed

lemma updateEach_lowers:
  assumes "tx_ok s" and "distinct todo"
    and "\<forall>(c, it) \<in> set todo. find (\<lambda>x. fst x = fst it) finalAmounts \<noteq> None \<longrightarrow> it \<in> set (entries (fst s) c)"
    and "updateEach todo finalAmounts paths s = (res, s')"
  shows "lowered (fst s) (fst s')"
  using assms
proof (induction todo arbitrary: s paths)
  case (Cons x todo)
  obtain c it where x: "x = (c, it)" by (cases x)
  obtain r t where t: "updateReservation_tx c it finalAmounts s = (r, t)" by (meson surj_pair)
  have mem: "find (\<lambda>x. fst x = fst it) finalAmounts \<noteq> None \<Longrightarrow> it \<in> set (entries (fst s) c)"
    using Cons.prems(3) by (auto simp: x)
  note st = updateReservation_tx_step [OF Cons.prems(1) mem t] updateReservation_tx_lowers [OF Cons.prems(1) mem t]
  show ?case
  proof (cases r)
    case (Inl e)
    then show ?thesis using Cons.prems(4) t st by (simp add: x)
  next
    case (Inr y)
    then obtain paths' where go: "updateEach todo finalAmounts paths' t = (res, s')"
      using Cons.prems(4) t by (auto simp: x)
    have todo: "\<forall>(c, it) \<in> set todo. find (\<lambda>x. fst x = fst it) finalAmounts \<noteq> None \<longrightarrow> it \<in> set (entries (fst t) c)"
      using remaining_entries [OF Cons.prems(2,3) [unfolded x] conjunct2 [OF st(1)]] .
    have "lowered (fst t) (fst s')"
      using Cons.IH [OF tx_kept_ok [OF conjunct1 [OF st(1)]] _ todo go] Cons.prems(2) by simp
    then show ?thesis using st(2) lowered_trans by blast
  qed
qed simp

lemma updateReservations_lowers:
  assumes "tx_ok s" and "updateReservations finalAmounts s = (res, s')"
  shows "lowered (fst s) (fst s')"
proof -
  let ?copy = "concat (map (\<lambda>(c, es). map (Pair c) es) (txReservations (fst s)))"
  have s: "tx_ok (fst s, snd s)" using assms(1) by simp
  obtain r t where t: "updateEach ?copy finalAmounts {} s = (r, t)" by (meson surj_pair)
  have "s' = t" using assms(2) t by (cases r) (auto simp: updateReservations_def Let_def)
  moreover have "\<forall>(c, it) \<in> set ?copy. find (\<lambda>x. fst x = fst it) finalAmounts \<noteq> None \<longrightarrow> it \<in> set (entries (fst s) c)"
    using copied_entries(2) [OF s] by blast
  ultimately show ?thesis using updateEach_lowers [OF assms(1) copied_entries(1) [OF s] _ t] by blast
qed

end
