(* ===== verification/Role_Runs.thy ===== *)
theory Role_Runs
  imports Intermediate_Node Payment_Totals
begin

text \<open>
  What the roles of a payment share. A role is given by the stages it has before the final amounts, by
  what it checks of its reservations, and by what holds before that check (\<open>Role\<close>). The locale
  \<open>payment_role\<close> is the contract between a role and the stages that are common: its lemmas say that a
  common stage keeps the invariant \<open>role_inv\<close> of the role, changes no trust line before the vote, and
  settles or keeps all reservations after it.
\<close>

section \<open>Moves of the reservations\<close>

abbreviation held_of :: "NodeState \<Rightarrow> PaymentState" where
  "held_of s \<equiv> reserves (voting s)"

definition moved :: "NodeState \<Rightarrow> NodeState \<Rightarrow> bool" where
  "moved s s' \<longleftrightarrow> tx_kept (held_of s) (held_of s') \<and>
     mTransactionIsVoted (voting s') = mTransactionIsVoted (voting s) \<and>
     mPaymentParticipants (voting s') = mPaymentParticipants (voting s) \<and>
     mStep (voting s') = mStep (voting s)"

definition idle :: "NodeState \<Rightarrow> NodeState \<Rightarrow> bool" where
  "idle s s' \<longleftrightarrow> txReservations (payment (voting s')) = reservations_of s \<and>
     currentTransactionUUID (payment (voting s')) = currentTransactionUUID (payment (voting s)) \<and>
     linesManager (voting s') = linesManager (voting s) \<and>
     mTransactionIsVoted (voting s') = mTransactionIsVoted (voting s) \<and>
     mPaymentParticipants (voting s') = mPaymentParticipants (voting s) \<and>
     mStep (voting s') = mStep (voting s)"

lemma tx_ok_cong:
  "tx_ok (p, m) \<Longrightarrow> txReservations p' = txReservations p \<Longrightarrow>
     currentTransactionUUID p' = currentTransactionUUID p \<Longrightarrow> tx_ok (p', m)"
  by (simp add: tx_ok_def)

lemma idle_moved: "idle s s' \<Longrightarrow> tx_ok (held_of s) \<Longrightarrow> moved s s'"
  by (auto simp: idle_def moved_def tx_kept_def intro: tx_ok_cong)

lemma idle_refl [simp]: "idle s s"
  by (simp add: idle_def)

lemma idle_trans [trans]: "idle s t \<Longrightarrow> idle t u \<Longrightarrow> idle s u"
  by (simp add: idle_def)

lemma moved_trans: "moved s t \<Longrightarrow> moved t u \<Longrightarrow> moved s u"
  by (auto simp: moved_def intro: tx_kept_trans)

lemma moved_ok: "moved s s' \<Longrightarrow> tx_ok (held_of s')"
  by (simp add: moved_def tx_kept_def)

lemma post_fields [simp]: "voting (post m s) = voting s" "nodeContext (post m s) = nodeContext s"
  by (simp_all add: post_def)

lemma goTo_fields [simp]:
  "voting (goTo stage s) = (voting s)\<lparr>mStep := stage\<rparr>" "nodeContext (goTo stage s) = nodeContext s"
  by (simp_all add: goTo_def)

lemma removeAllData_voting [simp]: "voting (removeAllDataFromStorageConcerningTransaction s) = voting s"
  by (simp add: removeAllDataFromStorageConcerningTransaction_def)

lemma moved_onReservations:
  assumes "f (held_of s) = (res, t)" and "tx_kept (held_of s) t"
  shows "moved s (snd (onReservations f s))"
  using assms by (cases t) (simp add: onReservations_def moved_def tx_kept_def)

lemma idle_post: "idle s (post m s)"
  by (simp add: idle_def)

lemma rollBackPath_moved: "tx_ok (held_of s) \<Longrightarrow> moved s (snd (onReservations (rollBackPath pathID) s))"
  by (cases "rollBackPath pathID (held_of s)") (auto intro!: moved_onReservations dest: rollBackPath_kept)

lemma moved_pure: "tx_ok (held_of s) \<Longrightarrow> moved s (snd (r, s))"
  by (simp add: moved_def tx_kept_refl)

lemma updateReservations_moved:
  "tx_ok (held_of s) \<Longrightarrow> moved s (snd (onReservations (updateReservations finalAmounts) s))"
  by (cases "updateReservations finalAmounts (held_of s)") (auto intro!: moved_onReservations dest: updateReservations_kept)

lemma tryReserve_moved:
  assumes "tx_ok (held_of s)"
    and "f = (\<lambda>a. reserveIncomingAmount_tx c a pathID) \<or> f = (\<lambda>a. reserveOutgoingAmount_tx c a pathID)"
  shows "moved s (snd (tryReserve available f asked s))"
proof (cases "\<exists>n. available = Inr n \<and> min asked n \<noteq> 0")
  case False
  then show ?thesis using assms(1) by (cases available) (auto simp: tryReserve_def moved_def tx_kept_refl)
next
  case True
  then obtain n where n: "available = Inr n" "min asked n \<noteq> 0" by blast
  obtain r t where t: "f (min asked n) (held_of s) = (r, t)" by (meson surj_pair)
  have "moved s (snd (onReservations (f (min asked n)) s))"
    using moved_onReservations [where f = "f (min asked n)", OF t] reserve_kept [OF assms(1)] t assms(2) by blast
  then show ?thesis using n by (auto simp: tryReserve_def bindS_def Let_def split: prod.splits sum.splits)
qed

lemma tryReserve_in:
  "tx_ok (held_of s) \<Longrightarrow> moved s (snd (tryReserve available (\<lambda>a. reserveIncomingAmount_tx c a pathID) asked s))"
  by (rule tryReserve_moved) auto

lemma tryReserve_out:
  "tx_ok (held_of s) \<Longrightarrow> moved s (snd (tryReserve available (\<lambda>a. reserveOutgoingAmount_tx c a pathID) asked s))"
  by (rule tryReserve_moved) auto

lemma idle_tx: "idle s s' \<Longrightarrow> tx_ok (held_of s) \<Longrightarrow> tx_ok (held_of s')"
  by (auto simp: idle_def intro: tx_ok_cong)

lemma idle_bindS:
  "idle s (snd a) \<Longrightarrow> (\<And>x s1. a = (Inr x, s1) \<Longrightarrow> idle s1 (snd (f x s1))) \<Longrightarrow> idle s (snd (bindS a f))"
  by (cases a) (auto simp: bindS_def split: sum.splits intro: idle_trans)

lemma idle_pure: "(\<And>x. r = Inr x \<Longrightarrow> idle s (snd (f x s))) \<Longrightarrow> idle s (snd (bindS (r, s) f))"
  by (rule idle_bindS) auto

text \<open>Refusals, receipts and key hashes only send.\<close>

lemma sendError_idle: "idle s (snd (sendErrorMessageOnFinalAmountsConfiguration s))"
  by (simp add: sendErrorMessageOnFinalAmountsConfiguration_def bindS_def idle_def split: sum.splits)

lemma refuse_idle: "idle s (snd (refuseFinalAmounts s))"
  by (simp add: refuseFinalAmounts_def sendErrorMessageOnFinalAmountsConfiguration_def bindS_def idle_def
      split: sum.splits)

lemma checkReceipt_idle: "idle s (snd (checkReceipt env sender receipt s))"
  unfolding checkReceipt_def Let_def
  by (auto split: option.splits intro!: idle_pure refuse_idle)

lemma noteHash_idle [simp]: "idle s (noteHash sender nodeID hash s)"
  by (simp add: noteHash_def idle_def)

lemma nodeIdAt_idle: "nodeIdAt address s = (i, s') \<Longrightarrow> idle s s'"
  by (auto simp: nodeIdAt_def idle_def split: option.splits)

lemma insertOwnHash_idle: "idle s (s\<lparr>voting := insertOwnHash address i hash (voting s)\<rparr>)"
  by (simp add: idle_def insertOwnHash_def)

section \<open>The invariant of a role\<close>

text \<open>
  \<open>start\<close> holds in the stages before the final amounts, \<open>pend\<close> while the hashes of the others are
  awaited, \<open>checked\<close> from then on; the Boolean says whether the participants are known.
\<close>

record Role =
  early :: "Stage set"
  start :: "bool \<Rightarrow> (ContractorID \<times> PathReservations) list \<Rightarrow> bool"
  pend :: "bool \<Rightarrow> (ContractorID \<times> PathReservations) list \<Rightarrow> bool"
  checked :: "(ContractorID \<times> PathReservations) list \<Rightarrow> bool"

definition votingStages :: "Stage set" where
  "votingStages = {Common_Voting, Common_VotesChecking, Common_Recovery, Common_Observing, Common_ObservingReject}"

definition midStages :: "Stage set" where
  "midStages = {Coordinator_FinalAmountsConfigurationConfirmation, Common_ObservingBlockNumberProcessing}"

lemmas mid_sets = midStages_def votingStages_def

abbreviation known :: "NodeState \<Rightarrow> bool" where
  "known s \<equiv> mPaymentParticipants (voting s) \<noteq> []"

definition role_inv :: "Role \<Rightarrow> NodeState \<Rightarrow> bool" where
  "role_inv R s \<longleftrightarrow> tx_ok (held_of s) \<and>
     mStep (voting s) \<in> early R \<union> midStages \<union> votingStages \<and>
     (mStep (voting s) \<in> early R \<longrightarrow> start R (known s) (reservations_of s)) \<and>
     (mStep (voting s) = Coordinator_FinalAmountsConfigurationConfirmation \<longrightarrow> pend R (known s) (reservations_of s)) \<and>
     (mStep (voting s) \<in> insert Common_ObservingBlockNumberProcessing votingStages \<longrightarrow> checked R (reservations_of s)) \<and>
     (mStep (voting s) \<in> early R \<union> midStages \<longrightarrow> \<not> mTransactionIsVoted (voting s))"

text \<open>The stages in which a node has not voted.\<close>

definition preStages :: "Role \<Rightarrow> Stage set" where
  "preStages R = insert Common_Voting (early R \<union> midStages)"

text \<open>
  What a stage of a node that has not voted does: it changes no trust line, keeps the reservations of
  others, and where it waits for more, the invariant holds; where it ends, nothing is reserved.
\<close>

definition unvoted :: "Role \<Rightarrow> NodeState \<Rightarrow> NodeResult result \<times> NodeState \<Rightarrow> bool" where
  "unvoted R s = (\<lambda>(res, s'). tx_kept (held_of s) (held_of s') \<and> \<not> mTransactionIsVoted (voting s') \<and>
     (\<forall>r. res = Inr r \<longrightarrow>
        (if r = Ended then reservations_of s' = [] else role_inv R s' \<and> mStep (voting s') \<in> preStages R)))"

definition mid_ok :: "Role \<Rightarrow> NodeState \<Rightarrow> bool" where
  "mid_ok R s \<longleftrightarrow> tx_ok (held_of s) \<and> \<not> mTransactionIsVoted (voting s) \<and> pend R (known s) (reservations_of s) \<and>
     (mStep (voting s) = Coordinator_FinalAmountsConfigurationConfirmation \<or>
      mStep (voting s) = Common_ObservingBlockNumberProcessing \<and> checked R (reservations_of s))"

definition checked_ok :: "Role \<Rightarrow> NodeState \<Rightarrow> bool" where
  "checked_ok R s \<longleftrightarrow> tx_ok (held_of s) \<and> \<not> mTransactionIsVoted (voting s) \<and> checked R (reservations_of s)"

lemma role_inv_tx: "role_inv R s \<Longrightarrow> tx_ok (held_of s)"
  by (simp add: role_inv_def)

lemma role_inv_cong: "role_inv R s \<Longrightarrow> voting s' = voting s \<Longrightarrow> role_inv R s'"
  by (simp add: role_inv_def)

lemma unvoted_from:
  "tx_kept (held_of s) (held_of s1) \<Longrightarrow> unvoted R s1 r \<Longrightarrow> unvoted R s r"
  by (auto simp: unvoted_def intro: tx_kept_trans)

lemma unvoted_after: "moved s s1 \<Longrightarrow> unvoted R s1 r \<Longrightarrow> unvoted R s r"
  unfolding moved_def by (blast intro: unvoted_from)

lemma unvoted_same:
  "tx_ok (held_of s) \<Longrightarrow> held_of s1 = held_of s \<Longrightarrow> unvoted R s1 r \<Longrightarrow> unvoted R s r"
  using unvoted_from tx_kept_refl by metis

lemma unvoted_idle: "tx_ok (held_of s) \<Longrightarrow> idle s s1 \<Longrightarrow> unvoted R s1 r \<Longrightarrow> unvoted R s r"
  using unvoted_after idle_moved by blast

lemma unvoted_bindS:
  assumes "moved s (snd a)" and "\<not> mTransactionIsVoted (voting s)"
    and "\<And>x s1. a = (Inr x, s1) \<Longrightarrow> moved s s1 \<Longrightarrow> unvoted R s1 (f x s1)"
  shows "unvoted R s (bindS a f)"
proof (cases a)
  case (Pair res s1)
  show ?thesis
  proof (cases res)
    case (Inl e)
    then show ?thesis using Pair assms(1,2) by (simp add: unvoted_def moved_def)
  next
    case (Inr x)
    then show ?thesis using Pair assms unvoted_after [of s s1] by simp
  qed
qed

lemma unvoted_idle_bindS:
  assumes "tx_ok (held_of s)" and "\<not> mTransactionIsVoted (voting s)" and "idle s (snd a)"
    and "\<And>x s1. a = (Inr x, s1) \<Longrightarrow> idle s s1 \<Longrightarrow> unvoted R s1 (f x s1)"
  shows "unvoted R s (bindS a f)"
proof (rule unvoted_bindS [OF idle_moved [OF assms(3,1)] assms(2)])
  fix x s1 assume a: "a = (Inr x, s1)"
  then show "unvoted R s1 (f x s1)" using assms(3,4) by simp
qed

lemma unvoted_pure:
  assumes "tx_ok (held_of s)" and "\<not> mTransactionIsVoted (voting s)" and "\<And>x. r = Inr x \<Longrightarrow> unvoted R s (f x s)"
  shows "unvoted R s (bindS (r, s) f)"
  using assms by (intro unvoted_idle_bindS) auto

lemma rejectPayment_unvoted:
  assumes "tx_ok (held_of s)" and "\<not> mTransactionIsVoted (voting s)"
  shows "unvoted R s (rejectPayment s)"
proof -
  obtain t where t: "rollBack (held_of s) = (Inr (), t)" "tx_kept (held_of s) t" "txReservations (fst t) = []"
    using rollBack_kept [OF assms(1)] by (metis prod.collapse)
  then show ?thesis
    using assms(2) by (cases t) (simp add: rejectPayment_def onVoting_def reject_def onPayment_def unvoted_def
        nodeResult_def tx_kept_def)
qed

lemma refuse_reject:
  assumes "tx_ok (held_of s)" and "\<not> mTransactionIsVoted (voting s)"
  shows "unvoted R s (bindS (refuseFinalAmounts s) (\<lambda>_. rejectPayment))"
  using assms idle_tx
  by (auto intro!: unvoted_idle_bindS refuse_idle rejectPayment_unvoted simp: idle_def)

lemma remove_reject:
  assumes "tx_ok (held_of s)" and "\<not> mTransactionIsVoted (voting s)"
  shows "unvoted R s (rejectPayment (removeAllDataFromStorageConcerningTransaction s))"
  using assms by (intro unvoted_same [OF assms(1) _ rejectPayment_unvoted]) simp_all

lemma mid_idle: "mid_ok R s \<Longrightarrow> idle s s' \<Longrightarrow> mid_ok R s'"
  using idle_tx [of s s'] by (auto simp: mid_ok_def idle_def)

lemma checked_idle: "checked_ok R s \<Longrightarrow> idle s s' \<Longrightarrow> checked_ok R s'"
  using idle_tx [of s s'] by (auto simp: checked_ok_def idle_def)

lemma mid_tx: "mid_ok R s \<Longrightarrow> tx_ok (held_of s)" "mid_ok R s \<Longrightarrow> \<not> mTransactionIsVoted (voting s)"
  by (simp_all add: mid_ok_def)

lemma checked_tx: "checked_ok R s \<Longrightarrow> tx_ok (held_of s)" "checked_ok R s \<Longrightarrow> \<not> mTransactionIsVoted (voting s)"
  by (simp_all add: checked_ok_def)

lemma pre_stage:
  "role_inv R s \<Longrightarrow> mStep (voting s) \<in> early R \<union> midStages \<Longrightarrow>
     mStep (voting s) \<in> preStages R \<and> \<not> mTransactionIsVoted (voting s)"
  by (auto simp: role_inv_def preStages_def)

lemma node_waits:
  assumes "role_inv R s" and "mStep (voting s) \<in> preStages R \<and> \<not> mTransactionIsVoted (voting s)" and "r \<noteq> Ended" and "voting s' = voting s"
  shows "unvoted R s (returning r s')"
  using assms by (simp add: unvoted_def role_inv_def tx_kept_refl)

lemma TTL_unvoted:
  assumes "role_inv R s" and "mStep (voting s) \<in> preStages R \<and> \<not> mTransactionIsVoted (voting s)" and "goOn \<noteq> Ended" and "voting t = voting s"
  shows "unvoted R s (onTTLResponse env goOn removeData state t)"
proof -
  have t: "tx_ok (held_of t)" "\<not> mTransactionIsVoted (voting t)" "tx_ok (held_of s)"
    using assms by (simp_all add: role_inv_def)
  have "unvoted R t (onTTLResponse env goOn removeData state t)"
    using rejectPayment_unvoted [OF t(1,2)] remove_reject [OF t(1,2)] assms
      node_waits [of R t goOn t] role_inv_cong [OF assms(1), of t]
    by (auto simp: onTTLResponse_def)
  then show ?thesis using unvoted_same [OF t(3), of t] assms(4) by simp
qed

lemma askForTime_unvoted:
  assumes "role_inv R s" and "mStep (voting s) \<in> preStages R \<and> \<not> mTransactionIsVoted (voting s)" and "w \<noteq> Ended"
  shows "unvoted R s (askForTime w s)"
proof -
  have "tx_ok (held_of s)" "\<not> mTransactionIsVoted (voting s)" using assms(1,2) by (simp_all add: role_inv_def)
  then show ?thesis
    using assms(3) node_waits [OF assms] by (auto simp: askForTime_def intro!: unvoted_pure)
qed

section \<open>The common stages\<close>

locale payment_role =
  fixes R :: Role
  assumes early_apart: "early R \<inter> (midStages \<union> votingStages) = {}"
    and checked_Nil: "checked R []"
    and pend_known: "pend R True rs \<Longrightarrow> checked R rs"
    and checked_pend: "checked R rs \<Longrightarrow> pend R k rs"
begin

lemma mid_of_inv:
  "role_inv R s \<Longrightarrow> mStep (voting s) \<in> midStages \<Longrightarrow> mid_ok R s"
  by (auto simp: role_inv_def mid_ok_def midStages_def checked_pend)

lemma checked_of_inv:
  "role_inv R s \<Longrightarrow> mStep (voting s) = Common_ObservingBlockNumberProcessing \<Longrightarrow> checked_ok R s"
  by (simp add: role_inv_def checked_ok_def midStages_def)

lemma mid_inv: "mid_ok R s \<Longrightarrow> role_inv R s \<and> mStep (voting s) \<in> preStages R"
  using early_apart by (auto simp: mid_ok_def role_inv_def mid_sets preStages_def)

lemma mid_waits: "mid_ok R s \<Longrightarrow> r \<noteq> Ended \<Longrightarrow> unvoted R s (returning r s)"
  using mid_inv [of s] by (simp add: unvoted_def mid_ok_def tx_kept_refl)

lemma checked_waits:
  assumes "checked_ok R s" and "stage \<in> insert Common_Voting midStages" and "r \<noteq> Ended" and "voting t = (voting s)\<lparr>mStep := stage\<rparr>"
  shows "unvoted R s (returning r t)"
  using assms early_apart checked_pend [of "reservations_of s"]
  by (auto simp: checked_ok_def unvoted_def role_inv_def tx_kept_refl mid_sets preStages_def)

lemma accept_checked:
  assumes "checked_ok R s"
  shows "unvoted R s (acceptFinalAmounts d s)"
proof -
  have ok: "tx_ok (held_of s)" "\<not> mTransactionIsVoted (voting s)" using checked_tx [OF assms] .
  have "unvoted R s (returning (WaitForMessages ms d) (goTo Common_Voting ((post m s)\<lparr>mTTLRequestWasSend := False\<rparr>)))"
    for ms d m
    by (rule checked_waits [OF assms, of Common_Voting]) simp_all
  then show ?thesis
    using ok by (auto simp: acceptFinalAmounts_def intro!: refuse_reject unvoted_pure)
qed

lemma afterNeighborReceipt_mid:
  assumes "mid_ok R s"
  shows "unvoted R s (afterNeighborReceipt d e valid s)"
proof -
  have "checked_ok R s" if "known s" using that assms pend_known by (simp add: mid_ok_def checked_ok_def)
  then show ?thesis
    using mid_waits [OF assms] rejectPayment_unvoted [OF mid_tx [OF assms]] accept_checked
    by (auto simp: afterNeighborReceipt_def)
qed

lemma receipt_mid:
  assumes "mid_ok R s"
  shows "unvoted R s (bindS (checkReceipt env sender receipt (noteHash sender nodeID hash s)) (afterNeighborReceipt d e))"
proof -
  let ?t = "noteHash sender nodeID hash s"
  have t: "mid_ok R ?t" using mid_idle [OF assms] by simp
  have "unvoted R ?t (bindS (checkReceipt env sender receipt ?t) (afterNeighborReceipt d e))"
    using mid_idle [OF t] by (auto intro!: unvoted_idle_bindS [OF mid_tx [OF t]] checkReceipt_idle afterNeighborReceipt_mid)
  then show ?thesis by (rule unvoted_idle [OF mid_tx(1) [OF assms] noteHash_idle])
qed

lemma afterCoordinatorReceipt_checked:
  assumes "checked_ok R s"
  shows "unvoted R s (afterCoordinatorReceipt valid s)"
proof (cases valid)
  case True
  have "unvoted R s (returning (WaitForResourceAndMessages ms d)
      (goTo Common_ObservingBlockNumberProcessing ((post m s)\<lparr>mBlockNumberObtainingInProcess := True\<rparr>)))" for ms d m
    by (rule checked_waits [OF assms, of Common_ObservingBlockNumberProcessing]) (simp_all add: midStages_def)
  then show ?thesis using True by (simp add: afterCoordinatorReceipt_def)
next
  case False
  then show ?thesis using rejectPayment_unvoted checked_tx [OF assms] by (simp add: afterCoordinatorReceipt_def)
qed

lemma confirmParticipants_checked:
  assumes "checked_ok R s"
  shows "unvoted R s (confirmParticipants env sender nodes receipt s)"
  unfolding confirmParticipants_def
proof (rule unvoted_pure [OF checked_tx [OF assms]])
  fix ids
  let ?t = "s\<lparr>mPaymentNodesIds := ids\<rparr>"
  have id: "idle s ?t" by (simp add: idle_def)
  have t: "checked_ok R ?t" using checked_idle [OF assms id] .
  show "unvoted R s (bindS (checkAllNeighborsWithReservationsAreInFinalParticipantsList env ?t, ?t)
      (\<lambda>allIn s. if \<not> allIn then bindS (refuseFinalAmounts s) (\<lambda>_. rejectPayment)
         else bindS (checkReceipt env sender receipt s) afterCoordinatorReceipt))"
    by (rule unvoted_idle [OF checked_tx(1) [OF assms] id])
      (use checked_tx [OF t] checked_idle [OF t] in
        \<open>auto intro!: unvoted_pure refuse_reject unvoted_idle_bindS [where a = "checkReceipt env sender receipt s" for s]
          checkReceipt_idle afterCoordinatorReceipt_checked\<close>)
qed

lemma setParticipants_checked:
  assumes "tx_ok (held_of s)" and "\<not> mTransactionIsVoted (voting s)" and "checked R (reservations_of s)"
  shows "unvoted R s (confirmParticipants env sender nodes receipt (setParticipants nodes s))"
  using assms
  by (intro unvoted_same [OF assms(1) _ confirmParticipants_checked]) (simp_all add: setParticipants_def checked_ok_def)

text \<open>Updating to the final amounts, and then whatever keeps the invariant from there.\<close>

lemma final_update:
  assumes "tx_ok (held_of s)" and "\<not> mTransactionIsVoted (voting s)"
    and "\<And>u updated. tx_ok (held_of u) \<Longrightarrow> \<not> mTransactionIsVoted (voting u) \<Longrightarrow>
      lowered (payment (voting s)) (payment (voting u)) \<Longrightarrow> unvoted R u (f updated u)"
  shows "unvoted R s (bindS (onReservations (updateReservations finalAmounts) (setClaimingBlock maxBlock s)) f)"
proof -
  let ?t = "setClaimingBlock maxBlock s"
  have id: "idle s ?t" by (simp add: setClaimingBlock_def idle_def)
  have t: "tx_ok (held_of ?t)" "\<not> mTransactionIsVoted (voting ?t)"
    using idle_tx [OF id assms(1)] id assms(2) by (auto simp: idle_def)
  have "lowered (payment (voting s)) (payment (voting u))"
    if u: "onReservations (updateReservations finalAmounts) ?t = (r, u)" for r u
  proof -
    obtain x p m where x: "updateReservations finalAmounts (held_of ?t) = (x, p, m)" by (metis prod_cases3)
    have "lowered (payment (voting ?t)) p" using updateReservations_lowers [OF t(1) x] by simp
    then show ?thesis using u x by (auto simp: onReservations_def setClaimingBlock_def lowered_def flowOf_def)
  qed
  then show ?thesis
    by (intro unvoted_idle [OF assms(1) id] unvoted_bindS [OF updateReservations_moved [OF t(1)] t(2)] assms(3))
      (use t in \<open>auto simp: moved_def tx_kept_def\<close>)
qed

lemma afterHashes_checked:
  assumes "checked_ok R s"
  shows "unvoted R s (afterHashes d stored s)"
proof -
  have "unvoted R s (returning (WaitForMessages ms d) (goTo Coordinator_FinalAmountsConfigurationConfirmation s))" for ms d
    by (rule checked_waits [OF assms]) (simp_all add: midStages_def)
  then show ?thesis
    using accept_checked [OF assms] rejectPayment_unvoted [OF checked_tx [OF assms]] by (simp add: afterHashes_def)
qed

text \<open>A new key, and the hashes sent by a function that only sends.\<close>

lemma newKey_checked:
  assumes "checked_ok R s" and "\<And>key self t. idle t (snd (publish key self t))"
  shows "unvoted R s (bindS (newPaymentKey env, s\<lparr>mBlockNumberObtainingInProcess := False\<rparr>) (\<lambda>key s.
        bindS (mainAddress (mSelf (contractorsManager env)), s\<lparr>mPublicKey := Some key\<rparr>) (\<lambda>self s.
        bindS (publish key self s) (afterHashes d))))"
proof -
  have id: "idle s (s\<lparr>mBlockNumberObtainingInProcess := False\<rparr>)"
    "idle s (s\<lparr>mBlockNumberObtainingInProcess := False, mPublicKey := k\<rparr>)" for k by (simp_all add: idle_def)
  note t = checked_idle [OF assms(1) id(2)]
  have publish: "unvoted R s (bindS (publish key self (s\<lparr>mBlockNumberObtainingInProcess := False, mPublicKey := Some key\<rparr>)) (afterHashes d))"
    for key self
    by (rule unvoted_idle [OF checked_tx(1) [OF assms(1)] id(2) [of "Some key"]])
      (use checked_tx [OF t] checked_idle [OF t] assms(2) in \<open>auto intro!: unvoted_idle_bindS afterHashes_checked\<close>)
  show ?thesis
    using publish checked_tx [OF assms(1)]
    by (cases "newPaymentKey env"; cases "mainAddress (mSelf (contractorsManager env))")
      (simp_all add: unvoted_def tx_kept_refl)
qed

end

section \<open>Voting\<close>

definition voted_ok :: "NodeState \<Rightarrow> NodeResult result \<times> NodeState \<Rightarrow> bool" where
  "voted_ok s = (\<lambda>(res, s'). (\<forall>e. res = Inl e \<longrightarrow> isProjectException e) \<longrightarrow>
     tx_ok (held_of s') \<and> others_kept (held_of s) (held_of s') \<and>
     (reservations_of s' = reservations_of s \<and>
        sumOfBalances (linesManager (voting s')) = sumOfBalances (linesManager (voting s)) \<or>
      reservations_of s' = [] \<and>
        sumOfBalances (linesManager (voting s')) - sumOfBalances (linesManager (voting s)) \<in>
          {0, netOf (payment (voting s))}) \<and>
     (mStep (voting s') = mStep (voting s) \<or>
      mStep (voting s') \<in> {Common_VotesChecking, Common_Recovery, Common_Observing}) \<and>
     (res = Inr Ended \<longrightarrow> reservations_of s' = [] \<or> mStep (voting s') = Common_Observing))"

lemma nodeResult_Ended: "nodeResult r = Ended \<longleftrightarrow> r = ResultDone"
  by (cases r) (simp_all add: nodeResult_def)

lemma onVoting_ok:
  assumes "settles v (f v) \<and> released (f v)" and "v = (voting s)\<lparr>mContext := map voteMessage (nodeContext s)\<rparr>"
  shows "voted_ok s (onVoting f s)"
proof -
  obtain res w where r: "f v = (res, w)" by (meson surj_pair)
  have on: "onVoting f s = (map_sum id nodeResult res,
      s\<lparr>voting := w\<lparr>mContext := []\<rparr>, nodeContext := (if mContext w = [] then [] else nodeContext s)\<rparr>)"
    using r assms(2) by (simp add: onVoting_def)
  show ?thesis
    using assms unfolding r on
    by (cases res) (auto simp: voted_ok_def settles_def released_def nodeResult_Ended)
qed

text \<open>What \<open>run\<close> promises.\<close>

definition run_ok :: "Role \<Rightarrow> NodeState \<Rightarrow> NodeResult result \<times> NodeState \<Rightarrow> bool" where
  "run_ok R s = (\<lambda>(res, s'). (\<forall>e. res = Inl e \<longrightarrow> isProjectException e) \<longrightarrow>
     tx_ok (held_of s') \<and> others_kept (held_of s) (held_of s') \<and>
     (sumOfBalances (linesManager (voting s')) = sumOfBalances (linesManager (voting s)) \<or>
      mStep (voting s) \<in> votingStages \<and> reservations_of s' = [] \<and>
        sumOfBalances (linesManager (voting s')) = sumOfBalances (linesManager (voting s)) + netOf (payment (voting s))) \<and>
     (\<forall>r. res = Inr r \<longrightarrow>
        (if r = Ended \<and> mStep (voting s') \<noteq> Common_Observing then reservations_of s' = [] else role_inv R s')))"

lemma votingStages_after:
  "mStep (voting s) \<in> votingStages \<Longrightarrow> mStep (voting s') = mStep (voting s) \<or>
      mStep (voting s') \<in> {Common_VotesChecking, Common_Recovery, Common_Observing} \<Longrightarrow>
     mStep (voting s') \<in> votingStages"
  by (auto simp: votingStages_def)

lemma recover_voted: "tx_ok (held_of s) \<Longrightarrow> voted_ok s (onVoting (recover env) s)"
  using recover_settles [of "(voting s)\<lparr>mContext := map voteMessage (nodeContext s)\<rparr>" env]
  by (intro onVoting_ok) simp_all

lemma recovering_throws:
  "fst r = Inl UndefinedBehaviour \<Longrightarrow> fst (recovering env r) = Inl UndefinedBehaviour"
  by (cases r) (simp add: recovering_def isProjectException_def)

lemma voted_ok_still:
  "tx_ok (held_of s) \<Longrightarrow> voting s' = voting s \<Longrightarrow> r \<noteq> Ended \<Longrightarrow> voted_ok s (Inr r, s')"
  by (simp add: voted_ok_def)

lemma voted_ok_same: "voted_ok t r \<Longrightarrow> voting t = voting s \<Longrightarrow> voted_ok s r"
  by (simp add: voted_ok_def)

lemma rejectPayment_voted: "tx_ok (held_of s) \<Longrightarrow> voted_ok s (rejectPayment s)"
  unfolding rejectPayment_def
  by (rule onVoting_ok [OF _ refl]) (auto intro!: reject_settles)

lemma askForTime_voted:
  assumes "tx_ok (held_of s)" and "w \<noteq> Ended"
  shows "voted_ok s (askForTime w s)"
  using assms by (cases "coordinatorAddress s") (auto simp: askForTime_def voted_ok_def)

lemma voted_ok_trans:
  assumes "voted_ok s (res, s1)" and "\<And>e. res = Inl e \<Longrightarrow> isProjectException e" and "voted_ok s1 r"
  shows "voted_ok s r"
proof -
  obtain res' s' where r: "r = (res', s')" by (cases r)
  show ?thesis
  proof (cases "\<exists>e. res' = Inl e \<and> \<not> isProjectException e")
    case True
    then show ?thesis by (auto simp: r voted_ok_def)
  next
    case False
    have a: "others_kept (held_of s) (held_of s1)"
      "reservations_of s1 = reservations_of s \<and> sumOfBalances (linesManager (voting s1)) = sumOfBalances (linesManager (voting s)) \<or>
       reservations_of s1 = [] \<and> sumOfBalances (linesManager (voting s1)) - sumOfBalances (linesManager (voting s)) \<in>
         {0, netOf (payment (voting s))}"
      "mStep (voting s1) = mStep (voting s) \<or> mStep (voting s1) \<in> {Common_VotesChecking, Common_Recovery, Common_Observing}"
      using assms(1,2) by (simp_all add: voted_ok_def)
    have b: "tx_ok (held_of s')" "others_kept (held_of s1) (held_of s')"
      "reservations_of s' = reservations_of s1 \<and> sumOfBalances (linesManager (voting s')) = sumOfBalances (linesManager (voting s1)) \<or>
       reservations_of s' = [] \<and> sumOfBalances (linesManager (voting s')) - sumOfBalances (linesManager (voting s1)) \<in>
         {0, netOf (payment (voting s1))}"
      "mStep (voting s') = mStep (voting s1) \<or> mStep (voting s') \<in> {Common_VotesChecking, Common_Recovery, Common_Observing}"
      "res' = Inr Ended \<longrightarrow> reservations_of s' = [] \<or> mStep (voting s') = Common_Observing"
      using assms(3) False by (auto simp: r voted_ok_def)
    have "reservations_of s' = reservations_of s \<and> sumOfBalances (linesManager (voting s')) = sumOfBalances (linesManager (voting s)) \<or>
       reservations_of s' = [] \<and> sumOfBalances (linesManager (voting s')) - sumOfBalances (linesManager (voting s)) \<in>
         {0, netOf (payment (voting s))}"
    proof (cases "reservations_of s1 = reservations_of s")
      case True
      then show ?thesis using a(2) b(3) netOf_cong [OF True] netOf_Nil [of "payment (voting s)"] by auto
    next
      case False
      then show ?thesis using a(2) b(3) netOf_Nil [of "payment (voting s1)"] by auto
    qed
    then show ?thesis using b others_kept_trans [OF a(1) b(2)] a(3) by (auto simp: r voted_ok_def)
  qed
qed

definition knows_neighbours :: "NodeEnv \<Rightarrow> NodeState \<Rightarrow> bool" where
  "knows_neighbours env s \<longleftrightarrow>
     (\<forall>c \<in> set (keys (mTrustLines (linesManager (voting s)))).
        \<exists>a. contractorMainAddress (contractorsManager env) c = Inr a)"

lemma ready:
  assumes "tx_ok (held_of s)" and "knows_neighbours env s" and "contractorAddress venv = contractorAddress (voteEnv env)"
  shows "vote_ready venv ((voting s)\<lparr>mContext := x\<rparr>)"
proof -
  have "\<exists>a. contractorMainAddress (contractorsManager env) c = Inr a" if c: "c \<in> set (keys (reservations_of s))" for c
  proof -
    obtain es where "(c, es) \<in> set (reservations_of s)" using c by auto
    then have "listOf (reservations_of s) c \<noteq> []"
      using tx_okD(2,3) [OF assms(1)] by (auto simp: listOf_def)
    then have "c \<in> set (keys (mTrustLines (linesManager (voting s))))"
      using tx_line [OF assms(1)] map_of_eq_None_keys by metis
    then show ?thesis using assms(2) unfolding knows_neighbours_def by blast
  qed
  then show ?thesis
    using assms(1,3) by (fastforce simp: vote_ready_def voteEnv_def)
qed

text \<open>The stages of the base class, once the node is ready to vote.\<close>

lemma base_stages_voted:
  assumes "tx_ok (held_of s)" and "knows_neighbours env s" and "contractorAddress venv = contractorAddress (voteEnv env)"
  shows "voted_ok s (onVoting (runVotesCheckingStage venv) s)"
    and "voted_ok s (onVoting (runVotesConsistencyCheckingStage venv) s)"
    and "voted_ok s (onVoting (runVotesRecoveryParentStage venv) s)"
    and "voted_ok s (onVoting runObservingRejectTransaction s)"
    and "mStep (voting s) = Common_Observing \<Longrightarrow> voted_ok s (onVoting (runObservingResultStage venv) s)"
proof -
  note r = ready [OF assms]
  let ?v = "(voting s)\<lparr>mContext := map voteMessage (nodeContext s)\<rparr>"
  have tx: "tx_ok (reserves ?v)" using assms(1) by simp
  show "voted_ok s (onVoting (runVotesCheckingStage venv) s)"
    and "voted_ok s (onVoting (runVotesConsistencyCheckingStage venv) s)"
    and "voted_ok s (onVoting (runVotesRecoveryParentStage venv) s)"
    and "voted_ok s (onVoting runObservingRejectTransaction s)"
    by (rule onVoting_ok [OF _ refl], rule checking_settles consistency_settles recovery_settles observing_reject_settles, rule r tx)+
  assume "mStep (voting s) = Common_Observing"
  then show "voted_ok s (onVoting (runObservingResultStage venv) s)"
    by (intro onVoting_ok [OF _ refl] observing_settles r) simp
qed

text \<open>An exception of the project ends in the recovery, which is a voting stage again.\<close>

lemma recovering_voted:
  assumes "voted_ok s r"
  shows "voted_ok s (recovering env r)"
proof -
  obtain res s1 where r: "r = (res, s1)" by (cases r)
  show ?thesis
  proof (cases "\<exists>e. res = Inl e \<and> isProjectException e")
    case False
    then show ?thesis using assms by (cases res) (simp_all add: r recovering_def)
  next
    case True
    then have "tx_ok (held_of s1)" using assms by (auto simp: r voted_ok_def)
    then have "voted_ok s (onVoting (recover env) s1)"
      using voted_ok_trans [OF assms [unfolded r]] recover_voted [of s1 env] True by blast
    then show ?thesis using True by (auto simp: r recovering_def)
  qed
qed

lemma recovering_unvoted:
  assumes "unvoted R s r"
  shows "unvoted R s (recovering env r)"
proof -
  obtain res s1 where r: "r = (res, s1)" by (cases r)
  have k: "tx_kept (held_of s) (held_of s1)" "\<not> mTransactionIsVoted (voting s1)" using assms r by (simp_all add: unvoted_def)
  have "onVoting (recover env) s1 = rejectPayment s1"
    using k(2) by (simp add: rejectPayment_def onVoting_def recover_def reject_def onPayment_def split: prod.split)
  moreover have "unvoted R s (rejectPayment s1)"
    using unvoted_from [OF k(1)] rejectPayment_unvoted [OF tx_kept_ok [OF k(1)] k(2)] by blast
  ultimately show ?thesis using assms by (cases res) (simp_all add: r recovering_def)
qed

context payment_role
begin

lemma role_inv_voting:
  assumes "mStep (voting s) \<in> votingStages"
  shows "role_inv R s \<longleftrightarrow> tx_ok (held_of s) \<and> checked R (reservations_of s)"
proof -
  have "mStep (voting s) \<notin> early R" "mStep (voting s) \<notin> midStages"
    using assms early_apart by (auto simp: mid_sets)
  then show ?thesis using assms by (auto simp: role_inv_def midStages_def)
qed

lemma run_voting:
  assumes "role_inv R s" and "mStep (voting s) \<in> votingStages" and "voted_ok s r"
  shows "run_ok R s (recovering env r)"
proof -
  obtain res t where r: "recovering env r = (res, t)" by (meson surj_pair)
  have v: "voted_ok s (res, t)" using recovering_voted [OF assms(3), of env] r by simp
  have "checked R (reservations_of s)" using assms(1,2) role_inv_voting by blast
  then have "role_inv R t" if "\<And>e. res = Inl e \<Longrightarrow> isProjectException e"
    using that v checked_Nil votingStages_after [OF assms(2), of t] role_inv_voting [of t] by (auto simp: voted_ok_def)
  then show ?thesis
    using v assms(2) unfolding r by (auto simp: run_ok_def voted_ok_def)
qed

lemma released_inv:
  "tx_ok (held_of s) \<Longrightarrow> reservations_of s = [] \<Longrightarrow> mStep (voting s) = Common_Observing \<Longrightarrow> role_inv R s"
  by (simp add: role_inv_voting votingStages_def checked_Nil)

lemma run_ok_unvoted: "unvoted R s r \<Longrightarrow> run_ok R s r"
  using tx_kept_ok tx_kept_others tx_kept_total released_inv
  by (fastforce simp: unvoted_def run_ok_def split: if_splits)

lemma run_unvoted: "unvoted R s r \<Longrightarrow> run_ok R s (recovering env r)"
  by (rule run_ok_unvoted) (rule recovering_unvoted)

end

section \<open>What happens between runs\<close>

text \<open>
  Between two runs of the transaction any messages and resources arrive, and the other transactions of
  the node change the trust lines and their own reservations (\<open>payment_step_ok\<close> shows that payments
  leave those of each other). What the observers answer reaches a payment they have. A run that ended
  goes on only then.
\<close>

inductive surroundings :: "NodeState \<Rightarrow> NodeState \<Rightarrow> bool" where
  arrives: "surroundings s (s\<lparr>nodeContext := messages, mResources := resources\<rparr>)"
| others_act: "manager_ok m \<Longrightarrow>
    (\<And>c. own (currentTransactionUUID (payment (voting s))) m c =
         own (currentTransactionUUID (payment (voting s))) (linesManager (voting s)) c) \<Longrightarrow>
    surroundings s (s\<lparr>voting := (voting s)\<lparr>linesManager := m\<rparr>\<rparr>)"
| observers_sign: "mStep (voting s) = Common_Observing \<Longrightarrow>
    surroundings s (s\<lparr>voting := (voting s)\<lparr>mParticipantsSignatures := signatures\<rparr>\<rparr>)"
| observers_reject: "mStep (voting s) = Common_Observing \<Longrightarrow> surroundings s (goTo Common_ObservingReject s)"

context payment_role
begin

lemma surroundings_inv: "surroundings s t \<Longrightarrow> role_inv R s \<Longrightarrow> role_inv R t"
proof (induction rule: surroundings.induct)
  case (others_act m s)
  then show ?case using tx_ok_other [of "payment (voting s)" "linesManager (voting s)" m] by (simp add: role_inv_def)
next
  case (observers_reject s)
  then show ?case using role_inv_voting [of s] role_inv_voting [of "goTo Common_ObservingReject s"]
    by (simp add: votingStages_def)
qed (simp_all add: role_inv_def)

end

lemma new_tx_ok:
  assumes "manager_ok m" and "\<not> isReservationsPresentConsiderTransaction m u"
  shows "tx_ok (newPayment u gateway unset, m)"
proof -
  have "own u m c = {#}" for c using assms own_present by blast
  then show ?thesis using assms(1) by (simp add: tx_ok_def newPayment_def listed_def)
qed

lemma no_reservations_to_update:
  "reservations_of s = [] \<Longrightarrow> onReservations (updateReservations further) s = (Inr (further = []), s)"
  by (auto simp: onReservations_def updateReservations_def)

lemma newVoting_fields [simp]:
  "payment (newVoting p m) = p" "linesManager (newVoting p m) = m" "mTransactionIsVoted (newVoting p m) = False"
  "mStep (newVoting p m) = IntermediateNode_PreviousNeighborRequestProcessing"
  "mPaymentParticipants (newVoting p m) = []" "mParticipantsPublicKeysHashes (newVoting p m) = []"
  by (simp_all add: newVoting_def)

lemma newPayment_fields [simp]:
  "txReservations (newPayment u gateway unset) = []" "currentTransactionUUID (newPayment u gateway unset) = u"
  by (simp_all add: newPayment_def)

end
