(* ===== verification/Node_Runs.thy ===== *)
theory Node_Runs
  imports Role_Runs
begin

text \<open>
  Runs of an intermediate node: its role, its invariant \<open>node_inv\<close>, what each stage does to the
  reservations and the balances, and the step relation of a node between which messages arrive, other
  payments work on the same trust lines, and the observers answer.
\<close>

section \<open>Paths balanced\<close>

lemma sum_by_path:
  "finite P \<Longrightarrow> fst ` set es \<subseteq> P \<Longrightarrow>
     sum_list (map f es) = (\<Sum>p \<in> P. sum_list (map f (filter (\<lambda>it. fst it = p) es)))"
  for f :: "'a \<times> 'b \<Rightarrow> nat"
proof (induction es)
  case (Cons x es)
  have "(\<Sum>p \<in> P. sum_list (map f (filter (\<lambda>it. fst it = p) (x # es)))) =
      (\<Sum>p \<in> P. (if p = fst x then f x else 0) + sum_list (map f (filter (\<lambda>it. fst it = p) es)))"
    by (intro sum.cong) auto
  also have "\<dots> = f x + (\<Sum>p \<in> P. sum_list (map f (filter (\<lambda>it. fst it = p) es)))"
    using Cons.prems by (simp add: sum.distrib)
  finally show ?case using Cons by simp
qed simp

lemma flow_same_amount:
  "list_all (\<lambda>it. mBlockedAmount (snd it) = a) es \<Longrightarrow>
     flow d (map snd es) = a * length (filter (\<lambda>it. mDirection (snd it) = d) es)"
  by (induction es) (auto simp: amountOf_def)

lemma checked_directions_balanced:
  assumes "checkReservationsDirections rs"
  shows "flow Incoming (map snd (flatEntries rs)) = flow Outgoing (map snd (flatEntries rs))"
proof -
  let ?es = "flatEntries rs" and ?P = "fst ` set (flatEntries rs)"
  have "flow Incoming (map snd (filter (\<lambda>it. fst it = q) ?es)) = flow Outgoing (map snd (filter (\<lambda>it. fst it = q) ?es))"
    if q: "q \<in> ?P" for q
  proof -
    obtain r where "(q, r) \<in> set ?es" using q by auto
    then have c: "list_all (\<lambda>it. mBlockedAmount (snd it) = mBlockedAmount r) (filter (\<lambda>it. fst it = q) ?es)"
      "length (filter (\<lambda>it. mDirection (snd it) = Incoming) (filter (\<lambda>it. fst it = q) ?es)) = 1"
      "length (filter (\<lambda>it. mDirection (snd it) = Outgoing) (filter (\<lambda>it. fst it = q) ?es)) = 1"
      using assms by (auto simp: checkReservationsDirections_def list_all_iff Let_def)
    show ?thesis using flow_same_amount [OF c(1), of Incoming] flow_same_amount [OF c(1), of Outgoing] c(2,3) by simp
  qed
  then have "(\<Sum>q \<in> ?P. flow Incoming (map snd (filter (\<lambda>it. fst it = q) ?es))) =
      (\<Sum>q \<in> ?P. flow Outgoing (map snd (filter (\<lambda>it. fst it = q) ?es)))"
    by (rule sum.cong [OF refl])
  then show ?thesis
    using sum_by_path [of ?P ?es "\<lambda>it. amountOf Incoming (snd it)"]
      sum_by_path [of ?P ?es "\<lambda>it. amountOf Outgoing (snd it)"]
    by (simp add: comp_def)
qed

lemma checked_directions_netFlow:
  "checkReservationsDirections (txReservations p) \<Longrightarrow> netOf p = 0"
  using checked_directions_balanced by (simp add: netOf_def netFlow_def flatEntries_def)

section \<open>The role\<close>

text \<open>
  Before the final amounts nobody is a participant; once the participants are known, in and out are
  balanced on every path.
\<close>

definition intermediateRole :: Role where
  "intermediateRole = \<lparr>
     early = {IntermediateNode_PreviousNeighborRequestProcessing, IntermediateNode_CoordinatorRequestProcessing,
       IntermediateNode_NextNeighborResponseProcessing, Common_FinalPathConfigurationChecking,
       IntermediateNode_ReservationProlongation},
     start = (\<lambda>k rs. \<not> k), pend = (\<lambda>k rs. k \<longrightarrow> checkReservationsDirections rs), checked = checkReservationsDirections\<rparr>"

lemma intermediateRole_fields [simp]:
  "early intermediateRole = {IntermediateNode_PreviousNeighborRequestProcessing,
     IntermediateNode_CoordinatorRequestProcessing, IntermediateNode_NextNeighborResponseProcessing,
     Common_FinalPathConfigurationChecking, IntermediateNode_ReservationProlongation}"
  "start intermediateRole k rs = (\<not> k)" "pend intermediateRole k rs = (k \<longrightarrow> checkReservationsDirections rs)"
  "checked intermediateRole = checkReservationsDirections"
  by (simp_all add: intermediateRole_def)

abbreviation node_inv :: "NodeState \<Rightarrow> bool" where
  "node_inv \<equiv> role_inv intermediateRole"

abbreviation unvoted_im :: "NodeState \<Rightarrow> NodeResult result \<times> NodeState \<Rightarrow> bool" where
  "unvoted_im \<equiv> unvoted intermediateRole"

lemma checkReservationsDirections_Nil [simp]: "checkReservationsDirections []"
  by (simp add: checkReservationsDirections_def flatEntries_def)

interpretation intermediate: payment_role intermediateRole
  by unfold_locales (auto simp: mid_sets)

section \<open>Early stages\<close>

definition early_ok :: "NodeState \<Rightarrow> bool" where
  "early_ok s \<longleftrightarrow> tx_ok (held_of s) \<and> \<not> mTransactionIsVoted (voting s) \<and> mPaymentParticipants (voting s) = []"

lemma early_moved: "early_ok s \<Longrightarrow> moved s s' \<Longrightarrow> early_ok s'"
  by (auto simp: early_ok_def moved_def tx_kept_def)

lemma early_waits:
  assumes "early_ok s" and "stage \<in> early intermediateRole" and "r \<noteq> Ended" and "voting s' = (voting s)\<lparr>mStep := stage\<rparr>"
  shows "unvoted_im s (returning r s')"
  using assms by (auto simp: early_ok_def unvoted_def role_inv_def tx_kept_refl mid_sets preStages_def)

lemma closeOrProlong_early:
  assumes "early_ok s"
  shows "unvoted_im s (closeOrProlong s)"
proof (cases "reservations_of s = []")
  case True
  then show ?thesis using assms by (simp add: closeOrProlong_def unvoted_def early_ok_def tx_kept_refl)
next
  case False
  then show ?thesis
    using early_waits [OF assms, of IntermediateNode_ReservationProlongation]
    by (simp add: closeOrProlong_def mid_sets waitProlongation_def)
qed

lemma previousError_early: "early_ok s \<Longrightarrow> unvoted_im s (sendErrorMessageOnPreviousNodeRequest a pathID e s)"
  unfolding sendErrorMessageOnPreviousNodeRequest_def
  by (rule unvoted_idle [OF _ idle_post]) (auto intro: closeOrProlong_early simp: early_ok_def)

lemma early_bindS:
  assumes "early_ok s" and "moved s (snd a)"
    and "\<And>x s1. a = (Inr x, s1) \<Longrightarrow> early_ok s1 \<Longrightarrow> unvoted_im s1 (f x s1)"
  shows "unvoted_im s (bindS a f)"
  using unvoted_bindS [OF assms(2), where f = f] assms early_moved [OF assms(1)] by (auto simp: early_ok_def)

lemma early_pure:
  assumes "early_ok s" and "\<And>x. r = Inr x \<Longrightarrow> unvoted_im s (f x s)"
  shows "unvoted_im s (bindS (r, s) f)"
  using assms by (auto intro!: early_bindS moved_pure simp: early_ok_def)

lemma coordinatorError_early:
  assumes "early_ok s"
  shows "unvoted_im s (sendErrorMessageOnCoordinatorRequest e s)" "unvoted_im s (sendErrorMessageOnNextNodeResponse e s)"
proof -
  have *: "unvoted_im s (bindS (onReservations (rollBackPath (mLastProcessedPath s)) (post m s)) (\<lambda>_. closeOrProlong))" for m
  proof (rule unvoted_idle [OF _ idle_post])
    show "tx_ok (held_of s)" using assms by (simp add: early_ok_def)
    have p: "early_ok (post m s)" using assms by (simp add: early_ok_def)
    show "unvoted_im (post m s) (bindS (onReservations (rollBackPath (mLastProcessedPath s)) (post m s)) (\<lambda>_. closeOrProlong))"
      by (rule early_bindS [OF p]) (use p in \<open>auto intro: rollBackPath_moved closeOrProlong_early simp: early_ok_def\<close>)
  qed
  show "unvoted_im s (sendErrorMessageOnCoordinatorRequest e s)" "unvoted_im s (sendErrorMessageOnNextNodeResponse e s)"
    unfolding sendErrorMessageOnCoordinatorRequest_def sendErrorMessageOnNextNodeResponse_def
    by (rule early_pure [OF assms], simp add: *)+
qed

text \<open>The loops of the shortening stay inside the list they visit.\<close>

lemma shortageEntries_kept:
  assumes "tx_ok s" and "i + n \<le> length (entries (fst s) c)" and "shortageEntries n i c pathID a s = (res, s')"
  shows "tx_kept s s'"
  using assms
proof (induction n arbitrary: i s)
  case 0
  then show ?case by (simp add: tx_kept_refl)
next
  case (Suc n)
  let ?it = "entries (fst s) c ! i"
  have mem: "?it \<in> set (entries (fst s) c)" using Suc.prems(2) by simp
  show ?case
  proof (cases "fst ?it = pathID \<and> mBlockedAmount (snd ?it) \<noteq> a")
    case False
    then have "shortageEntries n (i + 1) c pathID a s = (res, s')" using Suc.prems(3) by (auto simp: Let_def)
    then show ?thesis using Suc.IH [of s "i + 1"] Suc.prems(1,2) by simp
  next
    case True
    obtain r t where t: "shortageReservation_as (movedInto i pathID) c (snd ?it) a pathID s = (r, t)" by (meson surj_pair)
    have "(pathID, snd ?it) \<in> set (entries (fst s) c)" using mem True by (metis prod.collapse)
    then have k: "tx_kept s t" using shortage_as_kept [OF Suc.prems(1) _ t] by blast
    have len: "length (entries (fst t) c) = length (entries (fst s) c)"
    proof -
      have "length (removeFirst (\<lambda>it. resRef (snd it) = resRef (snd ?it) \<and> fst it = pathID) (entries (fst s) c)) + 1 =
          length (entries (fst s) c)"
        using mem True by (intro length_removeFirst) auto
      then show ?thesis
        using t by (cases s) (auto simp: shortageReservation_as_def Let_def entries_ordUpdate
            split: if_splits sum.splits geo_error.splits prod.splits)
    qed
    show ?thesis
    proof (cases r)
      case (Inl e)
      then show ?thesis using Suc.prems(3) True t k by (simp add: Let_def)
    next
      case (Inr x)
      then have go: "shortageEntries n (i + 1) c pathID a t = (res, s')"
        using Suc.prems(3) True t by (simp add: Let_def)
      have "tx_kept t s'" by (rule Suc.IH [OF _ _ go]) (use k len Suc.prems(2) in \<open>simp_all add: tx_kept_def\<close>)
      then show ?thesis using k tx_kept_trans by blast
    qed
  qed
qed

lemma shortageNodes_kept:
  "tx_ok s \<Longrightarrow> shortageNodes cs pathID a s = (res, s') \<Longrightarrow> tx_kept s s'"
proof (induction cs arbitrary: s)
  case Nil
  then show ?case by (simp add: tx_kept_refl)
next
  case (Cons c cs)
  obtain r t where t: "shortageEntries (length (entries (fst s) c)) 0 c pathID a s = (r, t)" by (meson surj_pair)
  have k: "tx_kept s t" using shortageEntries_kept [OF Cons.prems(1) _ t] by simp
  then show ?case
    using Cons.IH [of t] Cons.prems(2) t tx_kept_trans [OF k] tx_kept_ok [OF k] by (cases r) auto
qed

lemma shortage_moved:
  assumes "tx_ok (held_of s)"
  shows "moved s (snd (onReservations (shortageReservationsOnPath pathID a) s))"
proof -
  obtain r t where t: "shortageReservationsOnPath pathID a (held_of s) = (r, t)" by (meson surj_pair)
  then show ?thesis
    using moved_onReservations [where f = "shortageReservationsOnPath pathID a", OF t] shortageNodes_kept [OF assms]
    by (simp add: shortageReservationsOnPath_def)
qed

lemma early_tx: "early_ok s \<Longrightarrow> tx_ok (held_of s)"
  by (simp add: early_ok_def)

lemma early_same: "early_ok s \<Longrightarrow> voting s1 = voting s \<Longrightarrow> early_ok s1"
  by (simp add: early_ok_def)

lemma early_ends: "early_ok s \<Longrightarrow> reservations_of s = [] \<Longrightarrow> unvoted_im s (returning Ended s)"
  by (simp add: unvoted_def early_ok_def tx_kept_refl)

lemma previous_early:
  assumes "early_ok s"
  shows "unvoted_im s (runPreviousNeighborRequestProcessingStage env s)"
  unfolding runPreviousNeighborRequestProcessingStage_def Let_def
  using assms
  by (auto split: list.splits option.splits
      intro!: early_pure early_bindS tryReserve_in updateReservations_moved early_tx previousError_early
        early_waits [where stage = IntermediateNode_CoordinatorRequestProcessing] simp: mid_sets)

lemma finalPath_early:
  assumes "early_ok s"
  shows "unvoted_im s (processFinalPathConfiguration pathID amount s)"
  unfolding processFinalPathConfiguration_def
proof (rule early_bindS [OF assms])
  show "moved s (snd (if amount = 0 then onReservations (rollBackPath pathID) s else returning () s))"
    using rollBackPath_moved [OF early_tx [OF assms]] moved_pure [OF early_tx [OF assms], of "Inr ()"] by auto
  fix x s1
  assume e: "early_ok s1"
  show "unvoted_im s1 (if amount = 0 \<and> reservations_of s1 = [] then returning Ended s1
     else bindS (onReservations (shortageReservationsOnPath pathID amount) s1) (\<lambda>_ s.
       returning waitProlongation (goTo IntermediateNode_ReservationProlongation s)))"
    using e early_tx [OF e]
    by (auto intro!: early_bindS shortage_moved early_waits [where stage = IntermediateNode_ReservationProlongation]
        early_ends simp: mid_sets waitProlongation_def)
qed

section \<open>The final amounts\<close>

lemma neighborConfirmation_mid:
  assumes "mid_ok intermediateRole s"
  shows "unvoted_im s (runFinalReservationsNeighborConfirmation env senders nodeID hash receipt s)"
  unfolding runFinalReservationsNeighborConfirmation_def
  by (rule unvoted_pure [OF mid_tx [OF assms]], rule intermediate.receipt_mid [OF assms])

lemma coordinatorConfirmation_unvoted:
  assumes "tx_ok (held_of s)" and "\<not> mTransactionIsVoted (voting s)"
  shows "unvoted_im s (runFinalReservationsCoordinatorConfirmation env senders finalAmounts nodes maxBlock receipt s)"
proof -
  have "unvoted_im u (bindS (sendErrorMessageOnFinalAmountsConfiguration u) (\<lambda>_ s.
         rejectPayment (removeAllDataFromStorageConcerningTransaction s)))"
    if "tx_ok (held_of u)" "\<not> mTransactionIsVoted (voting u)" for u
    using that by (auto intro!: unvoted_idle_bindS sendError_idle remove_reject intro: idle_tx simp: idle_def)
  then show ?thesis
    unfolding runFinalReservationsCoordinatorConfirmation_def
    by (intro unvoted_pure [OF assms] intermediate.final_update [OF assms])
      (simp add: remove_reject intermediate.setParticipants_checked)
qed

section \<open>The key hashes\<close>

lemma sendReceiptTo_idle: "idle s (snd (sendReceiptTo env ownID hash main participantID es s))"
  unfolding sendReceiptTo_def Let_def by (auto intro!: idle_pure refuse_idle idle_post)

lemma sendKeyHashes_idle: "idle s (snd (sendKeyHashes env ownID hash nodes s))"
proof (induction env ownID hash nodes s rule: sendKeyHashes.induct)
  case (2 env ownID hash nodeID addresses rest s)
  then show ?case
    by (auto split: option.splits list.splits simp: Let_def intro!: idle_pure idle_bindS sendReceiptTo_idle idle_post)
qed simp

lemma publishHash_idle: "idle s (snd (publishHash env key self s))"
proof -
  obtain i t where t: "nodeIdAt (fullAddress self) s = (i, t)" by (meson surj_pair)
  have "idle s (t\<lparr>voting := insertOwnHash (fullAddress self) i (publicKeyHash (voteEnv env) key) (voting t)\<rparr>)"
    using nodeIdAt_idle [OF t] insertOwnHash_idle idle_trans by blast
  then show ?thesis
    by (auto simp: publishHash_def t Let_def intro: idle_trans sendKeyHashes_idle)
qed

lemma processBlockNumber_checked:
  assumes "checked_ok intermediateRole s"
  shows "unvoted_im s (processBlockNumber env n s)"
  unfolding processBlockNumber_def
  using refuse_reject [OF checked_tx [OF assms]]
    intermediate.newKey_checked [where publish = "publishHash env" and env = env and d = "maxNetworkDelay 7", OF assms publishHash_idle]
  by (rule if_split [THEN iffD2, OF conjI, OF impI impI])

section \<open>Prolongation and dispatch\<close>

lemma early_inv:
  assumes "node_inv s" and "mStep (voting s) \<in> early intermediateRole"
  shows "early_ok s"
  using assms by (auto simp: role_inv_def early_ok_def)

lemma prolongation_early:
  assumes "node_inv s" and "mStep (voting s) \<in> early intermediateRole"
  shows "unvoted_im s (runReservationProlongationStage env s)"
proof -
  note e = early_inv [OF assms]
  have tx: "tx_ok (held_of s)" "\<not> mTransactionIsVoted (voting s)" using e by (simp_all add: early_ok_def)
  have prev: "unvoted_im s (runPreviousNeighborRequestProcessingStage env ((popContext s)\<lparr>mMessage := m\<rparr>))" for m
    by (rule unvoted_same [OF tx(1) _ previous_early]) (use e in \<open>simp_all add: early_ok_def\<close>)
  have path: "unvoted_im s (processFinalPathConfiguration p a (popContext s))" for p a
    by (rule unvoted_same [OF tx(1) _ finalPath_early]) (use e in \<open>simp_all add: early_ok_def\<close>)
  have hash: "unvoted_im s (runFinalReservationsNeighborConfirmation env senders i h r
      (popContext (goTo Coordinator_FinalAmountsConfigurationConfirmation s)))" for senders i h r
    by (rule unvoted_same [OF tx(1) _ neighborConfirmation_mid]) (use e in \<open>simp_all add: early_ok_def mid_ok_def\<close>)
  have final: "unvoted_im s (runFinalReservationsCoordinatorConfirmation env senders am nodes b r
      (popContext (goTo Coordinator_FinalAmountsConfigurationConfirmation (s\<lparr>mTTLRequestWasSend := False\<rparr>))))" for senders am nodes b r
    by (rule unvoted_same [OF tx(1) _ coordinatorConfirmation_unvoted]) (use tx in simp_all)
  have ttl: "unvoted_im s (onTTLResponse env (WaitForMessages ms d) rm st (popContext s))" for ms d rm st
    by (rule TTL_unvoted [OF assms(1) pre_stage [OF assms(1) UnI1 [OF assms(2)]]]) simp_all
  have silent_: "unvoted_im s (if mTTLRequestWasSend s then rejectPayment s
          else if mCoordinator s = None then rejectPayment s else askForTime (WaitForMessages ms d) s)" for ms d
    using rejectPayment_unvoted [OF tx] askForTime_unvoted [OF assms(1) pre_stage [OF assms(1) UnI1 [OF assms(2)]]] by simp
  show ?thesis
    unfolding runReservationProlongationStage_def
    using prev path hash final ttl silent_
    by (cases "nodeContext s"; cases "tl (nodeContext s)"; cases "hd (nodeContext s)") simp_all
qed

text \<open>A reservation for the next node of a path.\<close>

lemma reserveNext_early:
  assumes "early_ok s"
  shows "unvoted_im s (bindS (lineRefusal RejectedDueOwnKeysAbsence m c, s) (\<lambda>refusal s.
     case refusal of
       Some state \<Rightarrow> sendErrorMessageOnCoordinatorRequest state s
     | None \<Rightarrow>
         bindS (tryReserve (available s) (\<lambda>a. reserveOutgoingAmount_tx c a p) amount s) (\<lambda>reserved s.
         case reserved of
           None \<Rightarrow> sendErrorMessageOnCoordinatorRequest Rejected s
         | Some reservationAmount \<Rightarrow>
             returning (WaitForMessages ms d)
               (goTo IntermediateNode_NextNeighborResponseProcessing (post (msg reservationAmount)
                 (s\<lparr>mLastReservedAmount := reservationAmount\<rparr>))))))"
  using assms
  by (auto split: option.splits intro!: early_pure early_bindS tryReserve_out early_tx coordinatorError_early
      early_waits [where stage = IntermediateNode_NextNeighborResponseProcessing] simp: mid_sets)

lemma coordinatorRequest_early:
  assumes "node_inv s" and "mStep (voting s) \<in> early intermediateRole"
  shows "unvoted_im s (runCoordinatorRequestProcessingStage env s)"
proof (cases "\<exists>senders a am. nodeContext s = [CoordinatorReservationRequest senders a am]")
  case False
  then have "runCoordinatorRequestProcessingStage env s = runReservationProlongationStage env s"
    by (cases "nodeContext s"; cases "tl (nodeContext s)"; cases "hd (nodeContext s)")
      (simp_all add: runCoordinatorRequestProcessingStage_def)
  then show ?thesis using prolongation_early [OF assms] by simp
next
  case True
  then obtain senders a am where c: "nodeContext s = [CoordinatorReservationRequest senders a am]" by blast
  note e = early_inv [OF assms]
  let ?t = "(popContext s)\<lparr>mCoordinator := Some senders\<rparr>"
  have t: "early_ok ?t" using e by (simp add: early_ok_def)
  show ?thesis
  proof (rule unvoted_same [OF early_tx [OF e], of ?t])
    show "unvoted_im ?t (runCoordinatorRequestProcessingStage env s)"
    proof (cases am)
      case Nil
      then show ?thesis
        using coordinatorError_early(1) [OF t] by (simp add: runCoordinatorRequestProcessingStage_def c Let_def)
    next
      case (Cons x further)
      have "early_ok (?t\<lparr>mLastProcessedPath := fst x\<rparr>)" using e by (simp add: early_ok_def)
      note r = reserveNext_early [OF this, where available =
          "\<lambda>s. outgoingTrustAmountConsideringReservations (linesManager (voting s)) (contractorIDByAddress (contractorsManager env) a)"]
      show ?thesis
        by (rule unvoted_same [OF early_tx [OF t], of "?t\<lparr>mLastProcessedPath := fst x\<rparr>"])
          (use r in \<open>simp_all add: runCoordinatorRequestProcessingStage_def c Cons Let_def split_beta\<close>)
    qed
  qed simp
qed

lemma nextResponse_early:
  assumes "node_inv s" and "mStep (voting s) \<in> early intermediateRole"
  shows "unvoted_im s (runNextNeighborResponseProcessingStage env s)"
proof (cases "\<exists>senders p st a. nodeContext s = [IntermediateNodeReservationResponse senders p st a]")
  case False
  note e = early_inv [OF assms]
  show ?thesis
    using False prolongation_early [OF assms, of env] coordinatorError_early(2) [OF e]
    by (cases "nodeContext s"; cases "tl (nodeContext s)"; cases "hd (nodeContext s)")
      (simp_all add: runNextNeighborResponseProcessingStage_def)
next
  case True
  then obtain senders p st a where c: "nodeContext s = [IntermediateNodeReservationResponse senders p st a]" by blast
  note e = early_inv [OF assms]
  have t: "early_ok (popContext s)" using e by (simp add: early_ok_def)
  have inv: "node_inv (popContext s)" using role_inv_cong [OF assms(1)] by simp
  have "unvoted_im (popContext s) (returning Continued (popContext s))"
    using node_waits [OF inv pre_stage [OF inv], of Continued] assms(2) by auto
  moreover have "early_ok ((popContext s)\<lparr>mLastReservedAmount := a\<rparr>)" using e by (simp add: early_ok_def)
  then have "unvoted_im ((popContext s)\<lparr>mLastReservedAmount := a\<rparr>) (bindS (onReservations (shortageReservationsOnPath p a)
                       ((popContext s)\<lparr>mLastReservedAmount := a\<rparr>)) (\<lambda>_ s.
              bindS (coordinatorAddress s, s) (\<lambda>ad s.
                returning
                  (WaitForMessages
                     [Payments_FinalPathConfiguration, Payments_IntermediateNodeReservationRequest,
                      Payments_FinalAmountsConfiguration, Payments_TransactionPublicKeyHash,
                      Payments_TTLProlongationResponse] (maxNetworkDelay ((kMaxPathLength_payment - 2) * 4)))
                  (goTo Common_FinalPathConfigurationChecking
                    (post (SendCoordinatorResponse ad p Accepted (mLastReservedAmount s)) s)))))"
    by (auto intro!: early_bindS early_pure shortage_moved early_tx
        early_waits [where stage = Common_FinalPathConfigurationChecking] simp: mid_sets)
  note shorten = unvoted_same [OF early_tx [OF t] _ this, simplified]
  ultimately show ?thesis
    using coordinatorError_early(2) [OF t] t
    by (intro unvoted_same [OF early_tx [OF e], of "popContext s"])
      (auto simp: runNextNeighborResponseProcessingStage_def c intro!: early_pure shorten)
qed

lemma finalPathStage_early:
  assumes "node_inv s" and "mStep (voting s) \<in> early intermediateRole"
  shows "unvoted_im s (runFinalPathConfigurationProcessingStage env s)"
proof -
  note e = early_inv [OF assms]
  have "unvoted_im s (processFinalPathConfiguration p a (popContext s))" for p a
    by (rule unvoted_same [OF early_tx [OF e] _ finalPath_early]) (use e in \<open>simp_all add: early_ok_def\<close>)
  then show ?thesis
    using prolongation_early [OF assms, of env]
    by (cases "nodeContext s"; cases "tl (nodeContext s)"; cases "hd (nodeContext s)")
      (simp_all add: runFinalPathConfigurationProcessingStage_def)
qed

lemma finalAmounts_mid:
  assumes "node_inv s" and "mStep (voting s) = Coordinator_FinalAmountsConfigurationConfirmation"
  shows "unvoted_im s (runFinalAmountsConfigurationConfirmation env s)"
proof -
  have m: "mid_ok intermediateRole s" using intermediate.mid_of_inv [OF assms(1)] assms(2) by (simp add: midStages_def)
  have hash: "unvoted_im s (runFinalReservationsNeighborConfirmation env senders i h r (popContext s))" for senders i h r
    by (rule unvoted_same [OF mid_tx(1) [OF m] _ neighborConfirmation_mid]) (use m in \<open>simp_all add: mid_ok_def\<close>)
  have final: "unvoted_im s (runFinalReservationsCoordinatorConfirmation env senders am nodes b r (popContext s))" for senders am nodes b r
    by (rule unvoted_same [OF mid_tx(1) [OF m] _ coordinatorConfirmation_unvoted]) (use mid_tx [OF m] in simp_all)
  have ttl: "unvoted_im s (onTTLResponse env (WaitForMessages ms d) rm st (popContext s))" for ms d rm st
    by (rule TTL_unvoted [OF assms(1) pre_stage [OF assms(1) UnI2]]) (use assms(2) in \<open>simp_all add: midStages_def\<close>)
  have silent_: "unvoted_im s (if mTTLRequestWasSend s then rejectPayment (removeAllDataFromStorageConcerningTransaction s)
          else askForTime (WaitForMessages ms d) s)" for ms d
    using remove_reject [OF mid_tx [OF m]] askForTime_unvoted [OF assms(1) pre_stage [OF assms(1) UnI2]] assms(2) by (simp add: midStages_def)
  show ?thesis
    unfolding runFinalAmountsConfigurationConfirmation_def
    using hash final ttl silent_
    by (cases "nodeContext s"; cases "tl (nodeContext s)"; cases "hd (nodeContext s)") simp_all
qed

lemma blockNumber_mid:
  assumes "node_inv s" and "mStep (voting s) = Common_ObservingBlockNumberProcessing"
  shows "unvoted_im s (runCheckObservingBlockNumber env s)"
proof -
  have m: "mid_ok intermediateRole s" "checked_ok intermediateRole s" using intermediate.mid_of_inv [OF assms(1)] intermediate.checked_of_inv [OF assms] assms(2) by (simp_all add: midStages_def)
  have hash: "unvoted_im s (runFinalReservationsNeighborConfirmation env senders i h r (popContext s))" for senders i h r
    by (rule unvoted_same [OF mid_tx(1) [OF m(1)] _ neighborConfirmation_mid]) (use m in \<open>simp_all add: mid_ok_def\<close>)
  have ttl: "unvoted_im s (onTTLResponse env (WaitForResourceAndMessages ms d) rm st (popContext s))" for ms d rm st
    by (rule TTL_unvoted [OF assms(1) pre_stage [OF assms(1) UnI2]]) (use assms(2) in \<open>simp_all add: midStages_def\<close>)
  have block: "unvoted_im s (case mResources s of
             BlockNumberRecourse n # rest \<Rightarrow> processBlockNumber env n (s\<lparr>mResources := rest\<rparr>)
           | _ \<Rightarrow> bindS (refuseFinalAmounts s) (\<lambda>_. rejectPayment))"
  proof -
    have "unvoted_im s (processBlockNumber env n (s\<lparr>mResources := rest\<rparr>))" for n rest
      by (rule unvoted_same [OF mid_tx(1) [OF m(1)] _ processBlockNumber_checked]) (use m in \<open>simp_all add: checked_ok_def\<close>)
    then show ?thesis using refuse_reject [OF mid_tx [OF m(1)]] by (simp split: list.split NodeResource.split)
  qed
  show ?thesis
    unfolding runCheckObservingBlockNumber_def
    using hash ttl block
    by (cases "nodeContext s"; cases "tl (nodeContext s)"; cases "hd (nodeContext s)") simp_all
qed

section \<open>The whole of run\<close>

lemma clarification_voted:
  assumes "node_inv s" and "mStep (voting s) \<in> votingStages" and "knows_neighbours env s"
  shows "voted_ok s (runVotesCheckingStageWithCoordinatorClarification env s)"
proof -
  have tx: "tx_ok (held_of s)" using assms(1) by (simp add: role_inv_def)
  have vote: "voted_ok s (onVoting (runVotesCheckingStage (voteEnv env)) s)"
    by (rule base_stages_voted [OF tx assms(3) refl])
  have rej: "voted_ok s (rejectPayment t)" if "voting t = voting s" for t
    using rejectPayment_voted [of t] voted_ok_same [of t "rejectPayment t" s] tx that by simp
  have ask: "voted_ok s (askForTime (WaitForMessages ms d) s)" for ms d
    using askForTime_voted [OF tx] by simp
  have wait: "voted_ok s (returning (WaitForMessages ms d) (popContext s))" for ms d
    by (rule voted_ok_still [OF tx]) simp_all
  show ?thesis
    unfolding runVotesCheckingStageWithCoordinatorClarification_def
    using vote rej ask wait
    by (cases "isParticipantsPublicKeys (nodeContext s)"; cases "nodeContext s"; cases "tl (nodeContext s)"; cases "hd (nodeContext s)")
      (simp_all add: Let_def)
qed

lemma voting_voted:
  assumes "node_inv s" and "mStep (voting s) \<in> votingStages" and "knows_neighbours env s"
  shows "voted_ok s (runStage env s)"
  using assms(2) base_stages_voted [OF role_inv_tx [OF assms(1)] assms(3) refl] clarification_voted [OF assms]
  by (auto simp: votingStages_def runStage_def)

lemma run_invariant:
  assumes "node_inv s" and "knows_neighbours env s"
  shows "run_ok intermediateRole s (run env s)"
proof -
  note early = previous_early [OF early_inv [OF assms(1)]] coordinatorRequest_early [OF assms(1)]
    nextResponse_early [OF assms(1)] finalPathStage_early [OF assms(1)] prolongation_early [OF assms(1)]
  have "mStep (voting s) \<in> early intermediateRole \<union> midStages \<union> votingStages"
    using assms(1) by (simp add: role_inv_def)
  then consider "mStep (voting s) \<in> early intermediateRole" | "mStep (voting s) \<in> midStages"
    | "mStep (voting s) \<in> votingStages" by blast
  then show ?thesis
  proof cases
    case 1
    then show ?thesis using early unfolding run_def by (intro intermediate.run_unvoted) (auto simp: runStage_def)
  next
    case 2
    then show ?thesis
      using finalAmounts_mid [OF assms(1)] blockNumber_mid [OF assms(1)] unfolding run_def
      by (intro intermediate.run_unvoted) (auto simp: midStages_def runStage_def)
  next
    case 3
    then show ?thesis
      using intermediate.run_voting [OF assms(1)] voting_voted [OF assms(1) _ assms(2)] unfolding run_def by blast
  qed
qed

text \<open>In and out are balanced when the node votes, so that a commit leaves the sum of the balances.\<close>

lemma run_conserves:
  assumes "node_inv s" and "knows_neighbours env s" and "run env s = (Inr r, s')"
  shows "sumOfBalances (linesManager (voting s')) = sumOfBalances (linesManager (voting s))"
proof -
  have "mStep (voting s) \<in> votingStages \<Longrightarrow> netOf (payment (voting s)) = 0"
    using assms(1) intermediate.role_inv_voting [of s] checked_directions_netFlow by simp
  then show ?thesis using run_invariant [OF assms(1,2)] assms(3) by (auto simp: run_ok_def)
qed

section \<open>Runs\<close>

inductive node_moves :: "NodeState \<Rightarrow> NodeState \<Rightarrow> bool" where
  runs: "run env s = (Inr r, s') \<Longrightarrow> r \<noteq> Ended \<or> mStep (voting s') = Common_Observing \<Longrightarrow>
    knows_neighbours env s \<Longrightarrow> node_moves s s'"
| around: "surroundings s s' \<Longrightarrow> node_moves s s'"

lemma node_moves_inv: "node_moves s t \<Longrightarrow> node_inv s \<Longrightarrow> node_inv t"
proof (induction rule: node_moves.induct)
  case (runs env s r s')
  then show ?case
    using run_invariant [of s env] intermediate.released_inv [of s'] by (auto simp: run_ok_def split: if_splits)
next
  case (around s s')
  then show ?case by (rule intermediate.surroundings_inv)
qed

interpretation node_runs: step_invariant node_moves node_inv
  by unfold_locales (rule node_moves_inv)

lemma newNode_inv:
  assumes "manager_ok m" and "\<not> isReservationsPresentConsiderTransaction m u"
  shows "node_inv (newNode u gateway unset path message m)"
  using new_tx_ok [OF assms] by (simp add: role_inv_def newNode_def newVoting_def mid_sets)

text \<open>C2: an intermediate node neither gains nor loses. However the messages, the other payments and the
  observers interleave with the runs of the payment, no run that returns changes the sum of the balances
  of the node's trust lines, the commit included: what it pays out on a path it has taken in. The
  reservations of every other transaction stay, and when the payment ends and the observers do not have
  it, no reservation of it is left.\<close>

theorem intermediate_node_conserves:
  assumes "manager_ok m" and "\<not> isReservationsPresentConsiderTransaction m u"
    and "node_moves\<^sup>*\<^sup>* (newNode u gateway unset path message m) s"
    and "knows_neighbours env s" and "run env s = (Inr r, s')"
  shows "sumOfBalances (linesManager (voting s')) = sumOfBalances (linesManager (voting s)) \<and>
    manager_ok (linesManager (voting s')) \<and>
    (\<forall>v c. v \<noteq> currentTransactionUUID (payment (voting s)) \<longrightarrow>
       own v (linesManager (voting s')) c = own v (linesManager (voting s)) c) \<and>
    (r = Ended \<and> mStep (voting s') \<noteq> Common_Observing \<longrightarrow>
       \<not> isReservationsPresentConsiderTransaction (linesManager (voting s'))
           (currentTransactionUUID (payment (voting s))))"
proof -
  have "node_inv s" using node_runs.steps_inv [OF assms(3) newNode_inv [OF assms(1,2)]] .
  from run_invariant [OF this assms(4)] run_conserves [OF this assms(4,5)]
  have r: "tx_ok (held_of s')" "others_kept (held_of s) (held_of s')"
    "sumOfBalances (linesManager (voting s')) = sumOfBalances (linesManager (voting s))"
    "r = Ended \<and> mStep (voting s') \<noteq> Common_Observing \<Longrightarrow> reservations_of s' = []"
    by (simp_all add: run_ok_def assms(5))
  have "\<not> isReservationsPresentConsiderTransaction (linesManager (voting s')) (currentTransactionUUID (payment (voting s)))"
    if "reservations_of s' = []"
    using that r(1,2) own_present [of "linesManager (voting s')"]
    by (auto simp: tx_ok_def listed_def others_kept_def)
  then show ?thesis using r by (auto simp: others_kept_def tx_ok_def)
qed

definition sampleAddress :: Address where
  "sampleAddress = IPv4WithPortAddress 127 0 0 1 2000"

definition sampleNodeEnv :: NodeEnv where
  "sampleNodeEnv = \<lparr>votes = sampleEnv,
     contractorsManager = \<lparr>mContractors = [(7, newContractor 0 7 [sampleAddress] None)],
       mSelf = [IPv4WithPortAddress 127 0 0 1 2001]\<rparr>,
     durationExpired = False, checkSign = (\<lambda>_ _ _. Inr True), saveIncomingPaymentReceipt = (\<lambda>_ _ _ _. Inr True),
     signReceipt = (\<lambda>_ _. Inr (0, [])), saveOutgoingPaymentReceipt = (\<lambda>_ _ _ _. Inr True),
     newPaymentKey = Inr []\<rparr>"

definition sampleNode :: NodeState where
  "sampleNode = newNode 9 False 0 0 ([sampleAddress], [(1, 10)]) sampleManager"

text \<open>The first stage of a new node, when it reserves.\<close>

definition firstAnswer :: NodeResult where
  "firstAnswer = WaitForMessages
     [Payments_CoordinatorReservationRequest, Payments_IntermediateNodeReservationRequest,
      Payments_FinalAmountsConfiguration, Payments_TransactionPublicKeyHash,
      Payments_TTLProlongationResponse] (maxNetworkDelay 4)"

lemma newNode_fields [simp]:
  "mMessage (newNode u gateway unset path message m) = message"
  "mCoordinator (newNode u gateway unset path message m) = None"
  "mTTLRequestWasSend (newNode u gateway unset path message m) = False"
  "voting (newNode u gateway unset path message m) = newVoting (newPayment u gateway unset) m"
  by (simp_all add: newNode_def)

lemma first_stage_reserves:
  assumes "lineRefusal RejectedDueContractorKeysAbsence m (contractorIDByAddress (contractorsManager env) neighbor) = Inr None"
    and "incomingTrustAmountConsideringReservations m (contractorIDByAddress (contractorsManager env) neighbor) = Inr n"
    and "min a n \<noteq> 0"
    and "reserveIncomingAmount (contractorIDByAddress (contractorsManager env) neighbor) u (min a n) m = (Inr r, m')"
  shows "\<exists>s'. run env (newNode u gateway unset path (neighbor # addresses, [(p, a)]) m) = (Inr firstAnswer, s')"
proof -
  let ?c = "contractorIDByAddress (contractorsManager env) neighbor"
  have "reserveIncomingAmount_tx ?c (min a n) p (newPayment u gateway unset, m) =
      (Inr True, addEntry ?c p r (newPayment u gateway unset), m')"
    using assms(4) by (simp add: reserveIncomingAmount_tx_def)
  then obtain s' where "tryReserve (incomingTrustAmountConsideringReservations m ?c)
      (\<lambda>a. reserveIncomingAmount_tx ?c a p) a (newNode u gateway unset path (neighbor # addresses, [(p, a)]) m) =
      (Inr (Some (min a n)), s')"
    using assms(2,3) by (simp add: tryReserve_def onReservations_def Let_def)
  then show ?thesis
    using assms(1)
    by (simp add: run_def recovering_def runStage_def runPreviousNeighborRequestProcessingStage_def firstSender_def Let_def
        no_reservations_to_update firstAnswer_def)
qed

lemma sampleNode_run:
  "\<exists>s'. run sampleNodeEnv sampleNode = (Inr firstAnswer, s')"
proof -
  have c: "contractorIDByAddress (contractorsManager sampleNodeEnv) sampleAddress = 7"
    by (simp add: contractorIDByAddress_def sampleNodeEnv_def newContractor_def sameAddress_def)
  have line: "map_of (mTrustLines sampleManager) 7 = Some sampleLine" by simp
  have ref: "lineRefusal RejectedDueContractorKeysAbsence sampleManager 7 = Inr None"
    by (simp add: lineRefusal_def kNotFoundContractorID_def trustLineIsPresent_def trustLineIsActive_def
        trustLineOwnKeysPresent_def trustLineContractorKeysPresent_def trustLineReadOnly_def)
  have free: "room sampleManager 7 Incoming = 80" "reserved sampleHandler 7 Incoming = 5"
    by (simp_all add: sampleHandler_eq sampleReservation_def reserved_def reservations_def
        amountOf_def room_def line_room_def incoming_room_def)
  obtain r m' where "reserveIncomingAmount 7 9 10 sampleManager = (Inr r, m')"
    using free reserve_incoming_exact [OF sampleManager_ok line, of 9 10]
    by (auto simp: onHandler_def reserve_cases Let_def)
  then show ?thesis
    using first_stage_reserves [of sampleManager sampleNodeEnv sampleAddress 75 10 9 r m' False 0 0 "[]" 1] ref c free
      considering_exact(2) [OF sampleManager_ok line] by (auto simp: sampleNode_def)
qed

theorem intermediate_node_conserves_witness:
  "\<exists>s'. run sampleNodeEnv sampleNode = (Inr firstAnswer, s') \<and>
     sumOfBalances (linesManager (voting s')) = - 30"
proof -
  have none: "\<not> isReservationsPresentConsiderTransaction sampleManager 9"
    by (simp add: isReservationsPresentConsiderTransaction_def isTransactionReservationsPresent_def
        sampleHandler_eq sampleReservation_def)
  obtain s' where run: "run sampleNodeEnv sampleNode = (Inr firstAnswer, s')" using sampleNode_run by blast
  have reach: "node_moves\<^sup>*\<^sup>* (newNode 9 False 0 0 ([sampleAddress], [(1, 10)]) sampleManager) sampleNode"
    by (simp add: sampleNode_def)
  have "knows_neighbours sampleNodeEnv sampleNode"
    by (simp add: knows_neighbours_def sampleNode_def sampleNodeEnv_def contractorMainAddress_def contractor_def
        newContractor_def mainAddress_def)
  then have "sumOfBalances (linesManager (voting s')) = sumOfBalances sampleManager"
    using intermediate_node_conserves [OF sampleManager_ok none reach _ run] by (simp add: sampleNode_def)
  then show ?thesis using run by (simp add: sumOfBalances_def)
qed

section \<open>A key hash before the coordinator\<close>

lemma not_reserved_ends:
  assumes "unvoted_im s (throwing e s')"
  shows "fst (if isProjectException e then onVoting (recover (voteEnv env)) s' else throwing e s') \<noteq> Inr r \<or> r = Ended"
proof -
  have k: "tx_ok (held_of s')" "\<not> mTransactionIsVoted (voting s')"
    using assms by (simp_all add: unvoted_def tx_kept_def)
  obtain t where "rollBack (held_of s') = (Inr (), t)" using rollBack_kept [OF k(1)] by (metis prod.collapse)
  then show ?thesis
    using k(2) by (cases t) (auto simp: onVoting_def recover_def onPayment_def nodeResult_def)
qed

lemma first_stage_inverse:
  assumes "manager_ok m" and "\<not> isReservationsPresentConsiderTransaction m u"
    and "run env (newNode u gateway unset path (neighbor # addresses, (p, a) # further) m) = (Inr res, s1)" and "res \<noteq> Ended"
  defines "c \<equiv> contractorIDByAddress (contractorsManager env) neighbor"
  shows "\<exists>k r m'. c \<noteq> kNotFoundContractorID \<and> k \<noteq> 0 \<and> reserveIncomingAmount c u k m = (Inr r, m') \<and>
    mCoordinator s1 = None \<and>
    voting s1 = (newVoting (addEntry c p r (newPayment u gateway unset)) m')
      \<lparr>mStep := IntermediateNode_CoordinatorRequestProcessing\<rparr>"
proof -
  let ?s = "newNode u gateway unset path (neighbor # addresses, (p, a) # further) m"
  have inv: "node_inv ?s" using newNode_inv [OF assms(1,2)] .
  have e: "early_ok ?s" using early_inv [OF inv] by (simp add: mid_sets)
  have un: "unvoted_im ?s (runPreviousNeighborRequestProcessingStage env ?s)" by (rule previous_early [OF e])
  have run: "run env ?s = (case runPreviousNeighborRequestProcessingStage env ?s of
      (Inl e, s) \<Rightarrow> if isProjectException e then onVoting (recover (voteEnv env)) s else throwing e s
    | (Inr result, s) \<Rightarrow> returning result s)" by (simp add: run_def runStage_def recovering_def)
  obtain x t where xt: "runPreviousNeighborRequestProcessingStage env ?s = (x, t)" by (meson surj_pair)
  have "x = Inr res \<and> t = s1"
  proof (cases x)
    case (Inl e)
    have "fst (run env ?s) \<noteq> Inr r \<or> r = Ended" for r
      unfolding run xt Inl prod.case sum.case
      by (rule not_reserved_ends) (use un in \<open>simp add: xt Inl\<close>)
    then show ?thesis using assms(3,4) by (metis fst_conv)
  next
    case (Inr y)
    then show ?thesis using assms(3) run xt by simp
  qed
  then have stage: "runPreviousNeighborRequestProcessingStage env ?s = (Inr res, s1)" using xt by simp
  have refused: "sendErrorMessageOnPreviousNodeRequest neighbor p st t = (Inr Ended, post (SendIntermediateResponse neighbor p st 0) t)"
    if "reservations_of t = []" for st t
    using that by (simp add: sendErrorMessageOnPreviousNodeRequest_def closeOrProlong_def)
  have line: "lineRefusal RejectedDueContractorKeysAbsence m c = Inr None"
    using stage assms(4) refused
    by (auto simp: runPreviousNeighborRequestProcessingStage_def firstSender_def Let_def c_def bindS_def
        split: sum.splits option.splits)
  then have "c \<noteq> kNotFoundContractorID" by (auto simp: lineRefusal_def)
  have f: "further = []"
    using stage assms(4) refused line
    by (cases "further = []") (simp_all add: runPreviousNeighborRequestProcessingStage_def firstSender_def Let_def
        c_def no_reservations_to_update)
  define asked where "asked = incomingTrustAmountConsideringReservations m c"
  define k where "k = (case asked of Inl e \<Rightarrow> 0 | Inr n \<Rightarrow> min a n)"
  obtain rr m' where rr: "reserveIncomingAmount c u k m = (rr, m')" by (meson surj_pair)
  have same: "m' = m" if "rr = Inl e" for e using reserve_result [of c u k m rr m'] rr that by simp
  have step: "tryReserve asked (\<lambda>a. reserveIncomingAmount_tx c a p) a ?s =
      (case asked of Inl e \<Rightarrow> throwing e ?s
       | Inr n \<Rightarrow> if k = 0 then returning None ?s
           else case rr of
             Inl e \<Rightarrow> if isProjectException e then returning None ?s else throwing e ?s
           | Inr r \<Rightarrow> returning (Some k) (?s\<lparr>voting := (newVoting (addEntry c p r (newPayment u gateway unset)) m')\<rparr>))"
    using same rr
    by (auto simp: tryReserve_def Let_def k_def onReservations_def reserveIncomingAmount_tx_def newNode_def newVoting_def
        split: sum.splits)
  show ?thesis
    using stage assms(4) refused line f step \<open>c \<noteq> kNotFoundContractorID\<close> rr
    by (auto simp: runPreviousNeighborRequestProcessingStage_def firstSender_def Let_def c_def [symmetric]
        asked_def [symmetric] no_reservations_to_update goTo_def post_def
        split: sum.splits if_splits)
qed

lemma reserved_incoming:
  assumes "manager_ok m" and "reserveIncomingAmount c u k m = (Inr r, m')"
  shows "k \<noteq> 0 \<and> k < 2 ^ 256 \<and> mBlockedAmount r = k \<and> mDirection r = Incoming"
proof -
  have k: "k \<noteq> 0 \<and> mBlockedAmount r = k \<and> mDirection r = Incoming"
    using assms(2) by (auto simp: reserveIncomingAmount_def onHandler_def reserve_cases Let_def
        split: sum.splits if_splits prod.splits)
  have "manager_ok m' \<and> r \<in> set (held_by m' c)"
    using reserve_amount_covered [OF assms(1), of c u k r m' Incoming] assms(2) by blast
  then obtain line where "line_ok line" and "mBlockedAmount r \<le> line_room (mDirection r) line"
    using held_room by blast
  then show ?thesis using k line_room_bound [of line Incoming] by simp
qed

lemma hash_without_receipt:
  assumes "mCoordinator s = None" and "totalReservedIncomingAmountToNode c (payment (voting s)) = Inr k" and "k \<noteq> 0"
    and "c \<noteq> kNotFoundContractorID" and "contractorIDByAddress (contractorsManager env) sender = c"
  shows "fst (runFinalReservationsNeighborConfirmation env (sender # addresses) nodeID hash None s) = Inl UndefinedBehaviour"
  using assms
  by (simp add: runFinalReservationsNeighborConfirmation_def firstSender_def checkReceipt_def noteHash_def Let_def
      refuseFinalAmounts_def sendErrorMessageOnFinalAmountsConfiguration_def coordinatorAddress_def
      removeAllDataFromStorageConcerningTransaction_def post_def)

lemma run_undefined:
  "fst (runStage env s) = Inl UndefinedBehaviour \<Longrightarrow> fst (run env s) = Inl UndefinedBehaviour"
  by (simp add: run_def recovering_throws)

text \<open>C23: a key hash that arrives before the coordinator's request crashes the node. After a first stage that
  reserved, whatever the path asked, a hash from the neighbour it reserved from, without a receipt, is
  refused; the refusal is sent to the coordinator, which the node does not have yet, and the code
  dereferences the null pointer.\<close>

theorem early_hash_crashes:
  assumes "manager_ok m" and "\<not> isReservationsPresentConsiderTransaction m u"
    and "run env (newNode u gateway unset path (neighbor # addresses, (p, a) # further) m) = (Inr r, s)" and "r \<noteq> Ended"
    and "contractorsManager env' = contractorsManager env"
  shows "fst (run env' (s\<lparr>nodeContext := [TransactionPublicKeyHash (neighbor # addresses') nodeID hash None]\<rparr>)) =
    Inl UndefinedBehaviour"
proof -
  let ?c = "contractorIDByAddress (contractorsManager env) neighbor"
  obtain k e m' where k: "?c \<noteq> kNotFoundContractorID" "reserveIncomingAmount ?c u k m = (Inr e, m')" "mCoordinator s = None"
    "voting s = (newVoting (addEntry ?c p e (newPayment u gateway unset)) m')\<lparr>mStep := IntermediateNode_CoordinatorRequestProcessing\<rparr>"
    using first_stage_inverse [OF assms(1-4)] by blast
  have "k \<noteq> 0" and "totalReservedIncomingAmountToNode ?c (payment (voting s)) = Inr k"
    using reserved_incoming [OF assms(1) k(2)] k(4)
    by (simp_all add: totalReservedIncomingAmountToNode_def addEntry_def entries_def checked_add_def)
  then show ?thesis
    using k(1,3,4) assms(5)
    by (simp add: run_undefined runStage_def runCoordinatorRequestProcessingStage_def
        runReservationProlongationStage_def goTo_def hash_without_receipt [where c = ?c and k = k])
qed

theorem early_hash_crashes_witness:
  "\<exists>s. run sampleNodeEnv sampleNode = (Inr firstAnswer, s) \<and>
     fst (run sampleNodeEnv (s\<lparr>nodeContext := [TransactionPublicKeyHash [sampleAddress] 1 [] None]\<rparr>)) = Inl UndefinedBehaviour"
proof -
  have none: "\<not> isReservationsPresentConsiderTransaction sampleManager 9"
    by (simp add: isReservationsPresentConsiderTransaction_def isTransactionReservationsPresent_def
        sampleHandler_eq sampleReservation_def)
  obtain s where s: "run sampleNodeEnv sampleNode = (Inr firstAnswer, s)" using sampleNode_run by blast
  show ?thesis
    using s early_hash_crashes [OF sampleManager_ok none s [unfolded sampleNode_def] _ refl, of "[]" 1 "[]"]
    by (auto simp: firstAnswer_def)
qed

end
