(* ===== verification/Receiver.thy ===== *)
theory Receiver
  imports Intermediate_Node
begin

text \<open>
  A payment on the node that is paid:
  \<^verbatim>\<open>transactions/transactions/regular/payments/ReceiverPaymentTransaction.cpp\<close>. It reserves incoming amounts
  until they make the amount of the payment, then confirms the final amounts, publishes its key hash and
  votes like an intermediate node.

  The state is that of a payment node (\<open>node\<close>, of which \<open>mMessage\<close>, \<open>mLastProcessedPath\<close> and
  \<open>mLastReservedAmount\<close> are not used here) with the amount and the flag of a discrepancy with the
  coordinator. The code it has in common with the intermediate node, but for the delays, is that of
  \<open>Intermediate_Node\<close>. The event that \<open>approve\<close> writes is not modelled.
\<close>

record ReceiverState =
  node :: NodeState
  mTransactionAmount :: TrustLineAmount
  mTransactionShouldBeRejected :: bool

definition onNode ::
  "(NodeState \<Rightarrow> 'a result \<times> NodeState) \<Rightarrow> ReceiverState \<Rightarrow> 'a result \<times> ReceiverState" where
  "onNode f s = (case f (node s) of (res, n) \<Rightarrow> (res, s\<lparr>node := n\<rparr>))"

definition receiverEnv :: "NodeEnv \<Rightarrow> VoteEnv" where
  "receiverEnv env = (voteEnv env)\<lparr>committedAmount := totalReservedAmount Incoming, signalsCycles := False\<rparr>"

section \<open>Reservations\<close>

definition waitReservation :: NodeResult where
  "waitReservation = WaitForMessages
     [Payments_IntermediateNodeReservationRequest, Payments_TTLProlongationResponse]
     (maxNetworkDelay ((kMaxPathLength_payment - 1) * 4))"

definition runInitializationStage :: "TrustLineAmount \<Rightarrow> NodeState \<Rightarrow> NodeResult result \<times> NodeState" where
  "runInitializationStage transactionAmount s =
     bindS (totalIncomingAmount (linesManager (voting s)), s) (\<lambda>kTotalAvailableIncomingAmount s.
     bindS (coordinatorAddress s, s) (\<lambda>a s.
       if kTotalAvailableIncomingAmount < transactionAmount
       then returning Ended (post (SendReceiverInitResponse a False) s)
       else returning waitReservation
              (goTo Receiver_AmountReservationsProcessing (post (SendReceiverInitResponse a True) s))))"

definition sendErrorMessageOnPreviousNodeRequest_receiver ::
  "Address \<Rightarrow> PathID \<Rightarrow> OperationState \<Rightarrow> ReceiverState \<Rightarrow> NodeResult result \<times> ReceiverState" where
  "sendErrorMessageOnPreviousNodeRequest_receiver previousNode pathID errorState s =
     returning waitReservation
       (s\<lparr>node := post (SendIntermediateResponse previousNode pathID errorState 0) (node s)\<rparr>)"

text \<open>The line must be there and active; otherwise the request is rejected.\<close>

definition lineRejected :: "TrustLinesManager \<Rightarrow> ContractorID \<Rightarrow> bool result" where
  "lineRejected m c =
     (if c = kNotFoundContractorID \<or> \<not> trustLineIsPresent m c then Inr True
      else bindR (trustLineIsActive m c) (\<lambda>active. Inr (\<not> active)))"

text \<open>After the reservation: too much is a discrepancy, the exact amount goes on to the final amounts.\<close>

definition reserved_receiver ::
  "Address \<Rightarrow> PathID \<Rightarrow> TrustLineAmount \<Rightarrow> TrustLineAmount \<Rightarrow> ReceiverState \<Rightarrow> NodeResult result \<times> ReceiverState" where
  "reserved_receiver kNeighbor kPath kReservationAmount kTotalReserved s =
     (if kTotalReserved > mTransactionAmount s
      then sendErrorMessageOnPreviousNodeRequest_receiver kNeighbor kPath ClosedState
             (s\<lparr>mTransactionShouldBeRejected := True\<rparr>)
      else
        (let n = post (SendIntermediateResponse kNeighbor kPath Accepted kReservationAmount) (node s)
         in if kTotalReserved = mTransactionAmount s
            then returning
                   (WaitForMessages
                      [Payments_FinalAmountsConfiguration, Payments_TransactionPublicKeyHash,
                       Payments_IntermediateNodeReservationRequest, Payments_TTLProlongationResponse]
                      (maxNetworkDelay (kMaxPathLength_payment - 1)))
                   (s\<lparr>node := goTo Coordinator_FinalAmountsConfigurationConfirmation (n\<lparr>mTTLRequestWasSend := False\<rparr>)\<rparr>)
            else returning waitReservation (s\<lparr>node := n\<rparr>)))"

definition reserve_receiver ::
  "Address \<Rightarrow> ContractorID \<Rightarrow> PathID \<Rightarrow> TrustLineAmount \<Rightarrow> ReceiverState \<Rightarrow> NodeResult result \<times> ReceiverState" where
  "reserve_receiver kNeighbor neighborID kPath kAmount s =
     bindS (incomingTrustAmountConsideringReservations (linesManager (voting (node s))) neighborID, s) (\<lambda>kAvailableAmount s.
       if kAvailableAmount = 0 then sendErrorMessageOnPreviousNodeRequest_receiver kNeighbor kPath Rejected s
       else
         bindS (onNode (onReservations (reserveIncomingAmount_tx neighborID (min kAmount kAvailableAmount) kPath)) s)
           (\<lambda>granted s.
              if \<not> granted then sendErrorMessageOnPreviousNodeRequest_receiver kNeighbor kPath Rejected s
              else
                bindS (totalReservedAmount Incoming (payment (voting (node s))), s) (\<lambda>kTotalReserved.
                  reserved_receiver kNeighbor kPath (min kAmount kAvailableAmount) kTotalReserved)))"

definition processReservationRequest ::
  "NodeEnv \<Rightarrow> Address list \<Rightarrow> PathAmounts \<Rightarrow> ReceiverState \<Rightarrow> NodeResult result \<times> ReceiverState" where
  "processReservationRequest env senderAddresses amounts s =
     bindS (firstSender senderAddresses, s) (\<lambda>kNeighbor s.
       case amounts of
         [] \<Rightarrow> sendErrorMessageOnPreviousNodeRequest_receiver kNeighbor 0 ClosedState s
       | (kPath, kAmount) # further \<Rightarrow>
           (let neighborID = contractorIDByAddress (contractorsManager env) kNeighbor
            in bindS (lineRejected (linesManager (voting (node s))) neighborID, s) (\<lambda>refused s.
               if refused then sendErrorMessageOnPreviousNodeRequest_receiver kNeighbor kPath Rejected s
               else
                 bindS (onNode (onReservations (updateReservations further)) s) (\<lambda>updated s.
                 if \<not> updated
                 then sendErrorMessageOnPreviousNodeRequest_receiver kNeighbor kPath ClosedState
                        (s\<lparr>mTransactionShouldBeRejected := True\<rparr>)
                 else
                   bindS (trustLineContractorKeysPresent (linesManager (voting (node s))) neighborID, s) (\<lambda>keysPresent s.
                   if \<not> keysPresent
                   then sendErrorMessageOnPreviousNodeRequest_receiver kNeighbor kPath RejectedDueContractorKeysAbsence s
                   else reserve_receiver kNeighbor neighborID kPath kAmount s)))))"

definition runAmountReservationStage_receiver :: "NodeEnv \<Rightarrow> ReceiverState \<Rightarrow> NodeResult result \<times> ReceiverState" where
  "runAmountReservationStage_receiver env s =
     (case nodeContext (node s) of
        [TTLProlongationResponse state] \<Rightarrow>
          onNode (\<lambda>n. onTTLResponse env waitReservation False state (popContext n)) s
      | [IntermediateNodeReservationRequest senders amounts] \<Rightarrow>
          processReservationRequest env senders amounts (s\<lparr>node := popContext (node s)\<rparr>)
      | _ \<Rightarrow>
          onNode (\<lambda>n.
            if mTTLRequestWasSend n then rejectPayment n
            else askForTime
              (WaitForMessages [Payments_TTLProlongationResponse, Payments_IntermediateNodeReservationRequest]
                 (maxNetworkDelay 2)) n) s)"

section \<open>Final amounts\<close>

definition checkReservationsDirections_receiver :: "(ContractorID \<times> PathReservations) list \<Rightarrow> bool" where
  "checkReservationsDirections_receiver rs =
     list_all (\<lambda>nodeAndReservations. list_all (\<lambda>it. mDirection (snd it) = Incoming) (snd nodeAndReservations)) rs"

definition runFinalReservationsNeighborConfirmation_receiver ::
  "NodeEnv \<Rightarrow> Address list \<Rightarrow> PaymentNodeID \<Rightarrow> KeyHash \<Rightarrow> Receipt option \<Rightarrow> NodeState \<Rightarrow>
   NodeResult result \<times> NodeState" where
  "runFinalReservationsNeighborConfirmation_receiver env senderAddresses nodeID hash receipt s =
     bindS (firstSender senderAddresses, s) (\<lambda>sender s.
     bindS (checkReceipt env sender receipt (noteHash sender nodeID hash s))
       (afterNeighborReceipt (maxNetworkDelay 1) (maxNetworkDelay 5)))"

definition runFinalReservationsCoordinatorConfirmation_receiver ::
  "NodeEnv \<Rightarrow> Address list \<Rightarrow> PathAmounts \<Rightarrow> (PaymentNodeID \<times> Address list) list \<Rightarrow> 64 word \<Rightarrow>
   Receipt option \<Rightarrow> NodeState \<Rightarrow> NodeResult result \<times> NodeState" where
  "runFinalReservationsCoordinatorConfirmation_receiver env senderAddresses finalAmounts nodes maxBlock receipt s =
     bindS (firstSender senderAddresses, s) (\<lambda>sender s.
     bindS (onReservations (updateReservations finalAmounts) (setClaimingBlock maxBlock s)) (\<lambda>updated s.
       if \<not> updated then bindS (refuseFinalAmounts s) (\<lambda>_. rejectPayment)
       else if \<not> checkReservationsDirections_receiver (reservations_of s)
       then bindS (refuseFinalAmounts s) (\<lambda>_. rejectPayment)
       else confirmParticipants env sender nodes receipt (setParticipants nodes s)))"

definition runFinalAmountsConfigurationConfirmation_receiver ::
  "NodeEnv \<Rightarrow> ReceiverState \<Rightarrow> NodeResult result \<times> ReceiverState" where
  "runFinalAmountsConfigurationConfirmation_receiver env s =
     (case nodeContext (node s) of
        [IntermediateNodeReservationRequest senders amounts] \<Rightarrow>
          runAmountReservationStage_receiver env (s\<lparr>node := goTo Receiver_AmountReservationsProcessing (node s)\<rparr>)
      | [FinalAmountsConfiguration senders amounts nodes maxBlock receipt] \<Rightarrow>
          onNode (\<lambda>n. runFinalReservationsCoordinatorConfirmation_receiver env senders amounts nodes maxBlock receipt
            (popContext n)) s
      | [TransactionPublicKeyHash senders nodeID hash receipt] \<Rightarrow>
          onNode (\<lambda>n. runFinalReservationsNeighborConfirmation_receiver env senders nodeID hash receipt (popContext n)) s
      | [TTLProlongationResponse state] \<Rightarrow>
          onNode (\<lambda>n. onTTLResponse env
            (WaitForMessages
               [Payments_IntermediateNodeReservationRequest, Payments_TTLProlongationResponse,
                Payments_FinalAmountsConfiguration, Payments_TransactionPublicKeyHash]
               (maxNetworkDelay ((kMaxPathLength_payment - 1) * 4)))
            True state (popContext n)) s
      | _ \<Rightarrow>
          onNode (\<lambda>n.
            if mTTLRequestWasSend n then rejectPayment (removeAllDataFromStorageConcerningTransaction n)
            else askForTime
              (WaitForMessages
                 [Payments_FinalAmountsConfiguration, Payments_TransactionPublicKeyHash,
                  Payments_TTLProlongationResponse, Payments_IntermediateNodeReservationRequest]
                 (maxNetworkDelay 2)) n) s)"

text \<open>The key hash goes to every participant but the coordinator and the node itself.\<close>

fun sendOwnHash ::
  "NodeEnv \<Rightarrow> PaymentNodeID \<Rightarrow> KeyHash \<Rightarrow> (PaymentNodeID \<times> Address list) list \<Rightarrow> NodeState \<Rightarrow>
   bool result \<times> NodeState" where
  "sendOwnHash env ownID hash [] s = returning True s"
| "sendOwnHash env ownID hash ((nodeID, addresses) # rest) s =
     (case mCoordinator s of
        None \<Rightarrow> throwing UndefinedBehaviour s
      | Some coordinator \<Rightarrow>
          if equalContractors addresses coordinator then sendOwnHash env ownID hash rest s
          else if equalContractors addresses (mSelf (contractorsManager env)) then sendOwnHash env ownID hash rest s
          else
            bindS (mainAddress addresses, s) (\<lambda>main s.
              sendOwnHash env ownID hash rest (post (SendPublicKeyHash main ownID hash None) s)))"

definition publishHash_receiver :: "NodeEnv \<Rightarrow> PublicKey \<Rightarrow> Address \<Rightarrow> NodeState \<Rightarrow> bool result \<times> NodeState" where
  "publishHash_receiver env key self s =
     (case nodeIdAt (fullAddress self) s of
        (ownID, s) \<Rightarrow>
          (let hash = publicKeyHash (voteEnv env) key
           in sendOwnHash env ownID hash (participants s)
                (s\<lparr>voting := insertOwnHash (fullAddress self) ownID hash (voting s)\<rparr>)))"

definition processBlockNumber_receiver :: "NodeEnv \<Rightarrow> 64 word \<Rightarrow> NodeState \<Rightarrow> NodeResult result \<times> NodeState" where
  "processBlockNumber_receiver env actualObservingBlockNumber s =
     (if \<not> checkMaxClaimingBlockNumber (actualObservingBlockNumber + kCountBlocksForClaiming) (voting s)
      then bindS (refuseFinalAmounts s) (\<lambda>_. rejectPayment)
      else
        bindS (newPaymentKey env, s\<lparr>mBlockNumberObtainingInProcess := False\<rparr>) (\<lambda>key s.
        bindS (mainAddress (mSelf (contractorsManager env)), s\<lparr>mPublicKey := Some key\<rparr>) (\<lambda>self s.
        bindS (publishHash_receiver env key self s) (afterHashes (maxNetworkDelay 5)))))"

definition runCheckObservingBlockNumber_receiver :: "NodeEnv \<Rightarrow> NodeState \<Rightarrow> NodeResult result \<times> NodeState" where
  "runCheckObservingBlockNumber_receiver env s =
     (case nodeContext s of
        [TransactionPublicKeyHash senders nodeID hash receipt] \<Rightarrow>
          runFinalReservationsNeighborConfirmation_receiver env senders nodeID hash receipt (popContext s)
      | _ \<Rightarrow>
          (case mResources s of
             BlockNumberRecourse n # rest \<Rightarrow> processBlockNumber_receiver env n (s\<lparr>mResources := rest\<rparr>)
           | _ \<Rightarrow> bindS (refuseFinalAmounts s) (\<lambda>_. rejectPayment)))"

section \<open>Voting and the dispatch\<close>

text \<open>
  When the public keys come to a receiver that noticed a discrepancy, the code calls \<open>reject\<close> without a
  return: the payment is rolled back and the voting goes on.
\<close>

definition voteAfterDiscrepancy :: "NodeEnv \<Rightarrow> NodeState \<Rightarrow> NodeResult result \<times> NodeState" where
  "voteAfterDiscrepancy env n =
     bindS (rejectPayment (removeAllDataFromStorageConcerningTransaction n))
       (\<lambda>_. onVoting (runVotesCheckingStage (receiverEnv env)))"

definition runVotesStageWithCoordinatorClarification ::
  "NodeEnv \<Rightarrow> ReceiverState \<Rightarrow> NodeResult result \<times> ReceiverState" where
  "runVotesStageWithCoordinatorClarification env s =
     (if isParticipantsPublicKeys (nodeContext (node s))
      then onNode (if mTransactionShouldBeRejected s then voteAfterDiscrepancy env
                   else onVoting (runVotesCheckingStage (receiverEnv env))) s
      else case nodeContext (node s) of
        [TTLProlongationResponse state] \<Rightarrow>
          onNode (\<lambda>n. onTTLResponse env
            (WaitForMessages [Payments_TTLProlongationResponse, Payments_ParticipantsPublicKeysKind]
               (maxNetworkDelay ((kMaxPathLength_payment - 1) * 4)))
            True state (popContext n)) s
      | _ \<Rightarrow>
          onNode (\<lambda>n.
            if mTTLRequestWasSend n then rejectPayment (removeAllDataFromStorageConcerningTransaction n)
            else askForTime
              (WaitForMessages [Payments_ParticipantsPublicKeysKind, Payments_TTLProlongationResponse]
                 (maxNetworkDelay 2)) n) s)"

definition runStage_receiver :: "NodeEnv \<Rightarrow> ReceiverState \<Rightarrow> NodeResult result \<times> ReceiverState" where
  "runStage_receiver env s =
     (case mStep (voting (node s)) of
        Receiver_CoordinatorRequestApproving \<Rightarrow> onNode (runInitializationStage (mTransactionAmount s)) s
      | Receiver_AmountReservationsProcessing \<Rightarrow> runAmountReservationStage_receiver env s
      | Coordinator_FinalAmountsConfigurationConfirmation \<Rightarrow> runFinalAmountsConfigurationConfirmation_receiver env s
      | Common_ObservingBlockNumberProcessing \<Rightarrow> onNode (runCheckObservingBlockNumber_receiver env) s
      | Common_Voting \<Rightarrow> runVotesStageWithCoordinatorClarification env s
      | Common_VotesChecking \<Rightarrow> onNode (onVoting (runVotesConsistencyCheckingStage (receiverEnv env))) s
      | Common_Recovery \<Rightarrow> onNode (onVoting (runVotesRecoveryParentStage (receiverEnv env))) s
      | Common_Observing \<Rightarrow> onNode (onVoting (runObservingResultStage (receiverEnv env))) s
      | Common_ObservingReject \<Rightarrow> onNode (onVoting runObservingRejectTransaction) s
      | Common_Uncertain \<Rightarrow> returning Ended s
      | _ \<Rightarrow> throwing RuntimeError s)"

definition run_receiver :: "NodeEnv \<Rightarrow> ReceiverState \<Rightarrow> NodeResult result \<times> ReceiverState" where
  "run_receiver env s =
     (case runStage_receiver env s of
        (res, s') \<Rightarrow> onNode (\<lambda>n. recovering (receiverEnv env) (res, n)) s')"

text \<open>The constructor; the argument \<open>path\<close> is what the unused field of the state holds.\<close>

definition newReceiver ::
  "TransactionUUID \<Rightarrow> bool \<Rightarrow> 64 word \<Rightarrow> PathID \<Rightarrow> Address list \<Rightarrow> TrustLineAmount \<Rightarrow> TrustLinesManager \<Rightarrow> ReceiverState" where
  "newReceiver transactionUUID iAmGateway unset path senderAddresses amount m = \<lparr>
     node = \<lparr>
       voting = (newVoting (newPayment transactionUUID iAmGateway unset) m)\<lparr>mStep := Receiver_CoordinatorRequestApproving\<rparr>,
       mMessage = ([], []), mCoordinator = Some senderAddresses, mLastProcessedPath = path, mLastReservedAmount = 0,
       mTTLRequestWasSend = False, mBlockNumberObtainingInProcess = False, mPaymentNodesIds = [], participants = [],
       mPublicKey = None, nodeContext = [], mResources = [], sent = []\<rparr>,
     mTransactionAmount = amount, mTransactionShouldBeRejected = False\<rparr>"

end
