(* ===== verification/Receiver_Runs.thy ===== *)
theory Receiver_Runs
  imports Receiver Node_Runs
begin

text \<open>
  Runs of a receiver: what it gains when the payment is committed, and what it does after a discrepancy
  with the coordinator. The role of a receiver depends on the amount of the payment and on whether more
  than it may be reserved.
\<close>

section \<open>The role\<close>

definition within :: "TrustLineAmount \<Rightarrow> bool \<Rightarrow> (ContractorID \<times> PathReservations) list \<Rightarrow> bool" where
  "within a over rs \<longleftrightarrow> flow Outgoing (map snd (concat (map snd rs))) = 0 \<and>
     (over \<or> flow Incoming (map snd (concat (map snd rs))) \<le> a)"

lemma within_flows: "within a over (txReservations p) \<longleftrightarrow> flowOf Outgoing p = 0 \<and> (over \<or> flowOf Incoming p \<le> a)"
  by (simp add: within_def flowOf_def)

lemma within_lowered: "within a over (txReservations p) \<Longrightarrow> lowered p q \<Longrightarrow> within a over (txReservations q)"
  unfolding within_flows lowered_def using le_trans le_zero_eq by metis

lemma within_Nil [simp]: "within a over []"
  by (simp add: within_def)

lemma within_over: "within a over rs \<Longrightarrow> within a True rs"
  by (simp add: within_def)

definition receiverRole :: "TrustLineAmount \<Rightarrow> bool \<Rightarrow> Role" where
  "receiverRole a over = \<lparr>early = {Receiver_AmountReservationsProcessing},
     start = (\<lambda>k. within a over), pend = (\<lambda>k. within a over), checked = within a over\<rparr>"

lemma receiverRole_fields [simp]:
  "early (receiverRole a over) = {Receiver_AmountReservationsProcessing}"
  "start (receiverRole a over) k = within a over" "pend (receiverRole a over) k = within a over"
  "checked (receiverRole a over) = within a over"
  by (simp_all add: receiverRole_def)

interpretation receiver: payment_role "receiverRole a over" for a over
  by unfold_locales (auto simp: mid_sets)

text \<open>All stages before the vote need the same of the reservations.\<close>

lemma receiver_inv_pre:
  assumes "tx_ok (held_of n)" and "\<not> mTransactionIsVoted (voting n)" and "within a over (reservations_of n)"
    and "mStep (voting n) \<in> preStages (receiverRole a over)"
  shows "role_inv (receiverRole a over) n"
  using assms by (auto simp: role_inv_def preStages_def mid_sets)

lemma role_inv_within:
  "role_inv (receiverRole a over) n \<Longrightarrow> within a over (reservations_of n)"
  by (auto simp: role_inv_def midStages_def)

lemma receiver_waits:
  assumes "tx_ok (held_of n)" and "\<not> mTransactionIsVoted (voting n)" and "within a over (reservations_of n)"
    and "stage \<in> preStages (receiverRole a over)" and "r \<noteq> Ended" and "voting n' = (voting n)\<lparr>mStep := stage\<rparr>"
  shows "unvoted (receiverRole a over) n (returning r n')"
  using assms receiver_inv_pre [of n' a over] by (simp add: unvoted_def tx_kept_refl)

section \<open>Stages of the node before the vote\<close>

lemma initialization_unvoted:
  assumes tx: "tx_ok (held_of n)" and "\<not> mTransactionIsVoted (voting n)" and "reservations_of n = []"
  shows "unvoted (receiverRole a over) n (runInitializationStage am n)"
proof -
  have "unvoted (receiverRole a over) n (returning waitReservation (goTo Receiver_AmountReservationsProcessing (post m n)))" for m
    by (rule receiver_waits [OF tx assms(2)]) (use assms(3) in \<open>simp_all add: preStages_def waitReservation_def\<close>)
  moreover have "unvoted (receiverRole a over) n (returning Ended (post m n))" for m
    using tx assms(2,3) by (simp add: unvoted_def tx_kept_refl)
  ultimately show ?thesis
    unfolding runInitializationStage_def using tx assms(2) by (auto intro!: unvoted_pure)
qed

lemma neighborConfirmation_unvoted:
  assumes "mid_ok (receiverRole a over) n"
  shows "unvoted (receiverRole a over) n (runFinalReservationsNeighborConfirmation_receiver env senders nodeID hash receipt n)"
  unfolding runFinalReservationsNeighborConfirmation_receiver_def
  by (rule unvoted_pure [OF mid_tx [OF assms]], rule receiver.receipt_mid [OF assms])

lemma receiverConfirmation_unvoted:
  assumes "tx_ok (held_of n)" and "\<not> mTransactionIsVoted (voting n)" and "within a over (reservations_of n)"
  shows "unvoted (receiverRole a over) n
    (runFinalReservationsCoordinatorConfirmation_receiver env senders finalAmounts nodes maxBlock receipt n)"
  unfolding runFinalReservationsCoordinatorConfirmation_receiver_def
  using within_lowered [OF assms(3)]
  by (intro unvoted_pure [OF assms(1,2)] receiver.final_update [OF assms(1,2)])
    (simp add: refuse_reject receiver.setParticipants_checked)

lemma sendOwnHash_idle: "idle n (snd (sendOwnHash env ownID hash nodes n))"
proof (induction nodes arbitrary: n)
  case (Cons x rest)
  obtain nodeID addresses where x: "x = (nodeID, addresses)" by (cases x)
  have "idle n (snd (sendOwnHash env ownID hash rest (post m n)))" for m by (rule idle_trans [OF idle_post Cons.IH])
  then show ?case using Cons.IH by (auto simp: x split: option.splits intro!: idle_pure)
qed simp

lemma publishHash_receiver_idle: "idle n (snd (publishHash_receiver env key self n))"
proof -
  obtain i t where t: "nodeIdAt (fullAddress self) n = (i, t)" by (meson surj_pair)
  have "idle n (t\<lparr>voting := insertOwnHash (fullAddress self) i (publicKeyHash (voteEnv env) key) (voting t)\<rparr>)"
    using nodeIdAt_idle [OF t] insertOwnHash_idle idle_trans by blast
  then show ?thesis
    by (auto simp: publishHash_receiver_def t Let_def intro: idle_trans sendOwnHash_idle)
qed

lemma receiverBlockNumber_unvoted:
  assumes "role_inv (receiverRole a over) n" and "mStep (voting n) = Common_ObservingBlockNumberProcessing"
  shows "unvoted (receiverRole a over) n (runCheckObservingBlockNumber_receiver env n)"
proof -
  have m: "mid_ok (receiverRole a over) n" "checked_ok (receiverRole a over) n"
    using receiver.mid_of_inv [OF assms(1)] receiver.checked_of_inv [OF assms] assms(2) by (simp_all add: midStages_def)
  have hash: "unvoted (receiverRole a over) n (runFinalReservationsNeighborConfirmation_receiver env senders i h r (popContext n))"
    for senders i h r
    by (rule unvoted_same [OF mid_tx(1) [OF m(1)] _ neighborConfirmation_unvoted]) (use m(1) in \<open>auto simp: mid_ok_def\<close>)
  have process: "unvoted (receiverRole a over) u (processBlockNumber_receiver env b u)"
    if "checked_ok (receiverRole a over) u" for b u
    unfolding processBlockNumber_receiver_def
    using refuse_reject [OF checked_tx [OF that]]
      receiver.newKey_checked [where publish = "publishHash_receiver env" and env = env and d = "maxNetworkDelay 5",
        OF that publishHash_receiver_idle]
    by (rule if_split [THEN iffD2, OF conjI, OF impI impI])
  have "unvoted (receiverRole a over) n (processBlockNumber_receiver env b (n\<lparr>mResources := rest\<rparr>))" for b rest
    by (rule unvoted_same [OF mid_tx(1) [OF m(1)] _ process]) (use m(2) in \<open>simp_all add: checked_ok_def\<close>)
  then have "unvoted (receiverRole a over) n (case mResources n of
             BlockNumberRecourse b # rest \<Rightarrow> processBlockNumber_receiver env b (n\<lparr>mResources := rest\<rparr>)
           | _ \<Rightarrow> bindS (refuseFinalAmounts n) (\<lambda>_. rejectPayment))"
    using refuse_reject [OF mid_tx [OF m(1)]] by (simp split: list.split NodeResource.split)
  then show ?thesis
    unfolding runCheckObservingBlockNumber_receiver_def
    using hash by (cases "nodeContext n"; cases "tl (nodeContext n)"; cases "hd (nodeContext n)") simp_all
qed

section \<open>The reservation stage\<close>

definition rcv_unvoted :: "ReceiverState \<Rightarrow> NodeResult result \<times> ReceiverState \<Rightarrow> bool" where
  "rcv_unvoted s = (\<lambda>(res, s'). mTransactionAmount s' = mTransactionAmount s \<and>
     unvoted (receiverRole (mTransactionAmount s) (mTransactionShouldBeRejected s')) (node s) (res, node s'))"

definition rcv_ok :: "ReceiverState \<Rightarrow> bool" where
  "rcv_ok s \<longleftrightarrow> tx_ok (held_of (node s)) \<and> \<not> mTransactionIsVoted (voting (node s)) \<and>
     mStep (voting (node s)) = Receiver_AmountReservationsProcessing \<and>
     within (mTransactionAmount s) (mTransactionShouldBeRejected s) (reservations_of (node s))"

lemma onNode_unvoted:
  "unvoted (receiverRole (mTransactionAmount s) (mTransactionShouldBeRejected s)) (node s) (f (node s)) \<Longrightarrow>
     rcv_unvoted s (onNode f s)"
  by (cases "f (node s)") (simp add: rcv_unvoted_def onNode_def)

lemma rcv_bind:
  assumes "moved (node s) (node (snd a))" and "mTransactionAmount (snd a) = mTransactionAmount s"
    and "\<not> mTransactionIsVoted (voting (node s))"
    and "\<And>x s1. a = (Inr x, s1) \<Longrightarrow> rcv_unvoted s1 (f x s1)"
  shows "rcv_unvoted s (bindS a f)"
proof (cases a)
  case (Pair res s1)
  show ?thesis
  proof (cases res)
    case (Inl e)
    then show ?thesis using Pair assms(1-3) by (simp add: rcv_unvoted_def unvoted_def moved_def)
  next
    case (Inr x)
    then have "rcv_unvoted s1 (f x s1)" using assms(4) Pair by simp
    then show ?thesis
      using Pair Inr assms(1,2) unvoted_after [of "node s" "node s1"] by (auto simp: rcv_unvoted_def)
  qed
qed

lemma rcv_pure:
  assumes "rcv_ok s" and "\<And>x. r = Inr x \<Longrightarrow> rcv_unvoted s (f x s)"
  shows "rcv_unvoted s (bindS (r, s) f)"
  using assms by (intro rcv_bind) (auto simp: rcv_ok_def moved_def tx_kept_refl)

lemma rcv_waits:
  assumes "tx_ok (held_of (node s))" and "\<not> mTransactionIsVoted (voting (node s))"
    and "within (mTransactionAmount s) (mTransactionShouldBeRejected s') (reservations_of (node s))"
    and "stage = Receiver_AmountReservationsProcessing \<or> stage = Coordinator_FinalAmountsConfigurationConfirmation"
    and "r \<noteq> Ended" and "mTransactionAmount s' = mTransactionAmount s"
    and "voting (node s') = (voting (node s))\<lparr>mStep := stage\<rparr>"
  shows "rcv_unvoted s (returning r s')"
  using receiver_waits [OF assms(1-3), of stage r "node s'"] assms(4-)
  by (auto simp: rcv_unvoted_def preStages_def midStages_def)

lemma errorRequest_rcv:
  assumes "rcv_ok s" and "s' = s \<or> s' = s\<lparr>mTransactionShouldBeRejected := True\<rparr>"
  shows "rcv_unvoted s (sendErrorMessageOnPreviousNodeRequest_receiver a p e s')"
  unfolding sendErrorMessageOnPreviousNodeRequest_receiver_def
  using assms
  by (intro rcv_waits [where stage = Receiver_AmountReservationsProcessing])
    (auto simp: rcv_ok_def waitReservation_def intro: within_over)

lemma updated_rcv:
  assumes "rcv_ok s" and "onNode (onReservations (updateReservations further)) s = (Inr x, s1)"
  shows "rcv_ok s1 \<and> mTransactionAmount s1 = mTransactionAmount s"
proof -
  have tx: "tx_ok (held_of (node s))" using assms(1) by (simp add: rcv_ok_def)
  obtain r p m where u: "updateReservations further (held_of (node s)) = (r, p, m)" by (metis prod_cases3)
  have "lowered (payment (voting (node s))) p" using updateReservations_lowers [OF tx u] by simp
  then have "within (mTransactionAmount s) (mTransactionShouldBeRejected s) (txReservations p)"
    using within_lowered assms(1) unfolding rcv_ok_def by blast
  moreover have "tx_ok (p, m)" using updateReservations_kept [OF tx u] by (simp add: tx_kept_def)
  ultimately show ?thesis
    using assms u by (auto simp: rcv_ok_def onNode_def onReservations_def)
qed

lemma reserved_rcv:
  assumes "tx_ok (held_of (node s))" and "\<not> mTransactionIsVoted (voting (node s))"
    and "flowOf Outgoing (payment (voting (node s))) = 0" and "k = flowOf Incoming (payment (voting (node s)))"
    and "mStep (voting (node s)) = Receiver_AmountReservationsProcessing"
  shows "rcv_unvoted s (reserved_receiver a p am k s)"
proof (cases "k > mTransactionAmount s")
  case True
  then show ?thesis
    unfolding reserved_receiver_def sendErrorMessageOnPreviousNodeRequest_receiver_def
    using assms by (auto intro!: rcv_waits [where stage = Receiver_AmountReservationsProcessing]
        simp: within_flows waitReservation_def)
next
  case False
  let ?n = "post (SendIntermediateResponse a p Accepted am) (node s)"
  have "rcv_unvoted s (returning (WaitForMessages ms d) (s\<lparr>node := goTo Coordinator_FinalAmountsConfigurationConfirmation
      (?n\<lparr>mTTLRequestWasSend := False\<rparr>)\<rparr>))" for ms d
    using assms False
    by (intro rcv_waits [where stage = Coordinator_FinalAmountsConfigurationConfirmation]) (auto simp: within_flows)
  moreover have "rcv_unvoted s (returning waitReservation (s\<lparr>node := ?n\<rparr>))"
    using assms False
    by (intro rcv_waits [where stage = Receiver_AmountReservationsProcessing]) (auto simp: within_flows waitReservation_def)
  ultimately show ?thesis using False by (simp add: reserved_receiver_def Let_def)
qed

lemma moved_onNode:
  "moved (node s) (snd (f (node s))) \<Longrightarrow> moved (node s) (node (snd (onNode f s))) \<and>
     mTransactionAmount (snd (onNode f s)) = mTransactionAmount s"
  by (cases "f (node s)") (simp add: onNode_def)

lemma reserve_rcv:
  assumes "rcv_ok s"
  shows "rcv_unvoted s (reserve_receiver kNeighbor c p am s)"
  unfolding reserve_receiver_def
proof (intro rcv_pure [OF assms], split if_split, intro conjI impI)
  fix x
  show "rcv_unvoted s (sendErrorMessageOnPreviousNodeRequest_receiver kNeighbor p Rejected s)"
    using errorRequest_rcv [OF assms] by blast
  let ?a = "onNode (onReservations (reserveIncomingAmount_tx c (min am x) p)) s"
  have tx: "tx_ok (held_of (node s))" "\<not> mTransactionIsVoted (voting (node s))" using assms by (simp_all add: rcv_ok_def)
  obtain r t where t: "reserveIncomingAmount_tx c (min am x) p (held_of (node s)) = (r, t)" by (meson surj_pair)
  have k: "tx_kept (held_of (node s)) t" using reserve_kept [OF tx(1)] t by blast
  have mv: "moved (node s) (snd (onReservations (reserveIncomingAmount_tx c (min am x) p) (node s)))"
    by (rule moved_onReservations [where f = "reserveIncomingAmount_tx c (min am x) p", OF t k])
  note on = moved_onNode [where f = "onReservations (reserveIncomingAmount_tx c (min am x) p)", OF mv]
  show "rcv_unvoted s (bindS ?a (\<lambda>granted s.
       if \<not> granted then sendErrorMessageOnPreviousNodeRequest_receiver kNeighbor p Rejected s
       else bindS (totalReservedAmount Incoming (payment (voting (node s))), s)
              (\<lambda>kTotalReserved. reserved_receiver kNeighbor p (min am x) kTotalReserved)))"
  proof (rule rcv_bind [OF conjunct1 [OF on] conjunct2 [OF on] tx(2)])
    fix b s1 assume a: "?a = (Inr b, s1)"
    have s1: "r = Inr b" "held_of (node s1) = t" "mStep (voting (node s1)) = mStep (voting (node s))"
      "mTransactionIsVoted (voting (node s1)) = mTransactionIsVoted (voting (node s))"
      "mTransactionAmount s1 = mTransactionAmount s" "mTransactionShouldBeRejected s1 = mTransactionShouldBeRejected s"
      using a t by (auto simp: onNode_def onReservations_def split: prod.splits)
    have f: "flowOf d (payment (voting (node s1))) = flowOf d (payment (voting (node s))) + (if b \<and> d = Incoming then min am x else 0)" for d
      using reserve_flow [OF tx(1), of c "min am x" p b t Incoming d] t s1(1,2) by auto
    have tx1: "tx_ok (held_of (node s1))" using k by (simp add: s1(2) tx_kept_def)
    have out: "flowOf Outgoing (payment (voting (node s1))) = 0" using assms f [of Outgoing] by (simp add: rcv_ok_def within_flows)
    have no: "rcv_ok s1" if "\<not> b" using assms tx1 s1 f that by (simp add: rcv_ok_def within_flows)
    have yes: "rcv_unvoted s1 (bindS (totalReservedAmount Incoming (payment (voting (node s1))), s1)
              (\<lambda>kTotalReserved. reserved_receiver kNeighbor p (min am x) kTotalReserved))"
    proof (rule rcv_bind)
      fix k s2 assume "(totalReservedAmount Incoming (payment (voting (node s1))), s1) = (Inr k, s2)"
      then show "rcv_unvoted s2 (reserved_receiver kNeighbor p (min am x) k s2)"
        using totalReserved_Inr [of Incoming "payment (voting (node s1))" k] tx1 out s1(3,4) assms
        by (intro reserved_rcv) (auto simp: rcv_ok_def)
    qed (use tx1 s1(4) tx(2) in \<open>simp_all add: moved_def tx_kept_refl\<close>)
    show "rcv_unvoted s1 (if \<not> b then sendErrorMessageOnPreviousNodeRequest_receiver kNeighbor p Rejected s1
       else bindS (totalReservedAmount Incoming (payment (voting (node s1))), s1)
              (\<lambda>kTotalReserved. reserved_receiver kNeighbor p (min am x) kTotalReserved))"
      using errorRequest_rcv [OF no] yes by auto
  qed
qed

lemma processRequest_rcv:
  assumes "rcv_ok s"
  shows "rcv_unvoted s (processReservationRequest env senders amounts s)"
  unfolding processReservationRequest_def
proof (rule rcv_pure [OF assms])
  fix kNeighbor
  note err = errorRequest_rcv [OF assms]
  have upd: "rcv_unvoted s (bindS (onNode (onReservations (updateReservations further)) s) (\<lambda>updated s.
       if \<not> updated
       then sendErrorMessageOnPreviousNodeRequest_receiver kNeighbor p ClosedState (s\<lparr>mTransactionShouldBeRejected := True\<rparr>)
       else
         bindS (trustLineContractorKeysPresent (linesManager (voting (node s))) c, s) (\<lambda>keysPresent s.
         if \<not> keysPresent
         then sendErrorMessageOnPreviousNodeRequest_receiver kNeighbor p RejectedDueContractorKeysAbsence s
         else reserve_receiver kNeighbor c p a s)))" for further p c a
  proof -
    have tx: "tx_ok (held_of (node s))" "\<not> mTransactionIsVoted (voting (node s))" using assms by (simp_all add: rcv_ok_def)
    note mv = moved_onNode [where f = "onReservations (updateReservations further)", OF updateReservations_moved [OF tx(1)]]
    show ?thesis
    proof (rule rcv_bind [OF conjunct1 [OF mv] conjunct2 [OF mv] tx(2)])
      fix updated s1 assume "onNode (onReservations (updateReservations further)) s = (Inr updated, s1)"
      note ok = conjunct1 [OF updated_rcv [OF assms this]]
      show "rcv_unvoted s1 (if \<not> updated
       then sendErrorMessageOnPreviousNodeRequest_receiver kNeighbor p ClosedState (s1\<lparr>mTransactionShouldBeRejected := True\<rparr>)
       else
         bindS (trustLineContractorKeysPresent (linesManager (voting (node s1))) c, s1) (\<lambda>keysPresent s.
         if \<not> keysPresent
         then sendErrorMessageOnPreviousNodeRequest_receiver kNeighbor p RejectedDueContractorKeysAbsence s
         else reserve_receiver kNeighbor c p a s))"
        using errorRequest_rcv [OF ok] reserve_rcv [OF ok] by (auto intro!: rcv_pure [OF ok])
    qed
  qed
  show "rcv_unvoted s (case amounts of
         [] \<Rightarrow> sendErrorMessageOnPreviousNodeRequest_receiver kNeighbor 0 ClosedState s
       | (kPath, kAmount) # further \<Rightarrow>
           (let neighborID = contractorIDByAddress (contractorsManager env) kNeighbor
            in bindS (lineRejected (linesManager (voting (node s))) neighborID, s) (\<lambda>refused s.
               if refused then sendErrorMessageOnPreviousNodeRequest_receiver kNeighbor kPath Rejected s
               else
                 bindS (onNode (onReservations (updateReservations further)) s) (\<lambda>updated s.
                 if \<not> updated
                 then sendErrorMessageOnPreviousNodeRequest_receiver kNeighbor kPath ClosedState
                        (s\<lparr>mTransactionShouldBeRejected := True\<rparr>)
                 else
                   bindS (trustLineContractorKeysPresent (linesManager (voting (node s))) neighborID, s) (\<lambda>keysPresent s.
                   if \<not> keysPresent
                   then sendErrorMessageOnPreviousNodeRequest_receiver kNeighbor kPath RejectedDueContractorKeysAbsence s
                   else reserve_receiver kNeighbor neighborID kPath kAmount s)))))"
    using err upd by (auto simp: Let_def split: list.split intro!: rcv_pure [OF assms])
qed

section \<open>The invariant\<close>

text \<open>More than the amount may be reserved only until the receiver has voted.\<close>

definition over :: "ReceiverState \<Rightarrow> bool" where
  "over s \<longleftrightarrow> mTransactionShouldBeRejected s \<and> reservations_of (node s) \<noteq> [] \<and>
     mStep (voting (node s)) \<notin> votingStages - {Common_Voting}"

definition receiver_inv :: "ReceiverState \<Rightarrow> bool" where
  "receiver_inv s \<longleftrightarrow>
     (mStep (voting (node s)) = Receiver_CoordinatorRequestApproving \<and> tx_ok (held_of (node s)) \<and>
        \<not> mTransactionIsVoted (voting (node s)) \<and> reservations_of (node s) = []) \<or>
     (role_inv (receiverRole (mTransactionAmount s) (over s)) (node s) \<and>
        (over s \<longrightarrow> \<not> mTransactionIsVoted (voting (node s))))"

lemma role_inv_over: "role_inv (receiverRole a False) n \<Longrightarrow> role_inv (receiverRole a b) n"
  by (simp add: role_inv_def within_def)

lemma role_inv_none: "role_inv (receiverRole a b) n \<Longrightarrow> reservations_of n = [] \<Longrightarrow> role_inv (receiverRole a c) n"
  by (simp add: role_inv_def)

text \<open>What a run of a receiver promises.\<close>

definition rcv_run_ok :: "ReceiverState \<Rightarrow> NodeResult result \<times> ReceiverState \<Rightarrow> bool" where
  "rcv_run_ok s = (\<lambda>(res, s'). mTransactionAmount s' = mTransactionAmount s \<and>
     ((\<forall>e. res = Inl e \<longrightarrow> isProjectException e) \<longrightarrow>
       tx_ok (held_of (node s')) \<and> others_kept (held_of (node s)) (held_of (node s')) \<and>
       (let gain = sumOfBalances (linesManager (voting (node s'))) - sumOfBalances (linesManager (voting (node s)))
        in gain = 0 \<or> gain = int (flowOf Incoming (payment (voting (node s)))) \<and>
             flowOf Incoming (payment (voting (node s))) \<le> mTransactionAmount s \<and> reservations_of (node s') = []) \<and>
       (\<forall>r. res = Inr r \<longrightarrow>
          (if r = Ended \<and> mStep (voting (node s')) \<noteq> Common_Observing then reservations_of (node s') = []
           else receiver_inv s'))))"

lemma nothing_inv:
  assumes "tx_ok (held_of (node s))" and "reservations_of (node s) = []"
    and "mStep (voting (node s)) \<in> votingStages - {Common_Voting}"
  shows "receiver_inv s"
  using assms receiver.role_inv_voting [of "node s"] by (auto simp: receiver_inv_def over_def)

lemma rcv_unvoted_run:
  assumes "rcv_unvoted s (res, s')"
  shows "rcv_run_ok s (onNode (\<lambda>n. recovering env (res, n)) s')"
proof -
  let ?R = "receiverRole (mTransactionAmount s) (mTransactionShouldBeRejected s')"
  obtain r n where rn: "recovering env (res, node s') = (r, n)" by (meson surj_pair)
  have am: "mTransactionAmount s' = mTransactionAmount s" using assms by (simp add: rcv_unvoted_def)
  have u: "unvoted ?R (node s) (r, n)"
    using recovering_unvoted [of ?R "node s" "(res, node s')" env] assms rn by (simp add: rcv_unvoted_def)
  have kept: "tx_kept (held_of (node s)) (held_of n)" using u by (simp add: unvoted_def)
  have fin: "receiver_inv (s'\<lparr>node := n\<rparr>)" if "reservations_of n = []" "mStep (voting n) = Common_Observing"
    using nothing_inv [of "s'\<lparr>node := n\<rparr>"] that tx_kept_ok [OF kept] by (simp add: votingStages_def)
  have go: "receiver_inv (s'\<lparr>node := n\<rparr>)" if "r = Inr q" "q \<noteq> Ended" for q
  proof -
    have i: "role_inv ?R n" "mStep (voting n) \<in> preStages ?R" "\<not> mTransactionIsVoted (voting n)"
      using u that by (simp_all add: unvoted_def)
    then have "over (s'\<lparr>node := n\<rparr>) = (mTransactionShouldBeRejected s' \<and> reservations_of n \<noteq> [])"
      by (auto simp: over_def preStages_def mid_sets)
    then show ?thesis using i am role_inv_none [OF i(1)] by (auto simp: receiver_inv_def)
  qed
  have "onNode (\<lambda>n. recovering env (res, n)) s' = (r, s'\<lparr>node := n\<rparr>)" using rn by (simp add: onNode_def)
  then show ?thesis
    using am kept tx_kept_ok [OF kept] tx_kept_others [OF kept] tx_kept_total [OF kept] fin go u
    by (auto simp: rcv_run_ok_def unvoted_def Let_def split: if_splits)
qed

text \<open>A voting stage of a receiver that holds at most the amount.\<close>

lemma voted_run:
  assumes "role_inv (receiverRole (mTransactionAmount s) False) (node s)" and "mStep (voting (node s)) \<in> votingStages"
    and "\<not> over s"
    and "voted_ok (node s) (f (node s))"
  shows "rcv_run_ok s (case onNode f s of (res, s') \<Rightarrow> onNode (\<lambda>n. recovering env (res, n)) s')"
proof -
  obtain res n1 where f: "f (node s) = (res, n1)" by (meson surj_pair)
  obtain r n where rn: "recovering env (res, n1) = (r, n)" by (meson surj_pair)
  have v: "voted_ok (node s) (r, n)" using recovering_voted [OF assms(4), of env] f rn by simp
  have w: "within (mTransactionAmount s) False (reservations_of (node s))" using role_inv_within [OF assms(1)] .
  have fl: "flowOf Outgoing (payment (voting (node s))) = 0" "flowOf Incoming (payment (voting (node s))) \<le> mTransactionAmount s"
    using w by (simp_all add: within_flows)
  have eq: "(case onNode f s of (res, s') \<Rightarrow> onNode (\<lambda>n. recovering env (res, n)) s') = (r, s\<lparr>node := n\<rparr>)"
    using f rn by (simp add: onNode_def)
  show ?thesis
  proof (cases "\<exists>e. r = Inl e \<and> \<not> isProjectException e")
    case True
    then show ?thesis unfolding eq by (auto simp: rcv_run_ok_def)
  next
    case False
    have k: "tx_ok (held_of n)" "others_kept (held_of (node s)) (held_of n)"
      "reservations_of n = reservations_of (node s) \<and>
         sumOfBalances (linesManager (voting n)) = sumOfBalances (linesManager (voting (node s))) \<or>
       reservations_of n = [] \<and> sumOfBalances (linesManager (voting n)) - sumOfBalances (linesManager (voting (node s))) \<in>
         {0, netOf (payment (voting (node s)))}"
      "mStep (voting n) = mStep (voting (node s)) \<or> mStep (voting n) \<in> {Common_VotesChecking, Common_Recovery, Common_Observing}"
      "r = Inr Ended \<longrightarrow> reservations_of n = [] \<or> mStep (voting n) = Common_Observing"
      using v False by (auto simp: voted_ok_def)
    have "within (mTransactionAmount s) False (reservations_of n)" using k(3) w by auto
    then have "role_inv (receiverRole (mTransactionAmount s) False) n"
      using k(1) receiver.role_inv_voting [of n] votingStages_after [OF assms(2) k(4)] by simp
    then have "receiver_inv (s\<lparr>node := n\<rparr>)"
      using role_inv_over k(3,4) assms(2,3) by (auto simp: receiver_inv_def over_def votingStages_def)
    then show ?thesis
      unfolding eq using k fl netOf_flows [of "payment (voting (node s))"] by (auto simp: rcv_run_ok_def Let_def)
  qed
qed

section \<open>The discrepancy\<close>

lemma rejectPayment_result:
  assumes "tx_ok (held_of n)"
  shows "\<exists>n'. rejectPayment n = (Inr Ended, n') \<and> tx_kept (held_of n) (held_of n') \<and> reservations_of n' = [] \<and>
    mStep (voting n') = mStep (voting n) \<and> mTransactionIsVoted (voting n') = mTransactionIsVoted (voting n)"
proof -
  obtain p m where t: "rollBack (held_of n) = (Inr (), p, m)" "tx_kept (held_of n) (p, m)" "txReservations p = []"
    using rollBack_kept [OF assms] by (metis fst_conv prod.collapse)
  then show ?thesis
    by (auto simp: rejectPayment_def onVoting_def reject_def onPayment_def nodeResult_def)
qed

text \<open>The reservations are gone before the vote.\<close>

lemma voteAfterDiscrepancy_released:
  assumes "tx_ok (held_of n)" and "knows_neighbours env n"
  shows "\<exists>n'. tx_kept (held_of n) (held_of n') \<and> reservations_of n' = [] \<and> mStep (voting n') = mStep (voting n) \<and>
    voted_ok n' (voteAfterDiscrepancy env n)"
proof -
  let ?m = "removeAllDataFromStorageConcerningTransaction n"
  obtain n' where n': "rejectPayment ?m = (Inr Ended, n')" "tx_kept (held_of n) (held_of n')" "reservations_of n' = []"
    "mStep (voting n') = mStep (voting n)"
    using rejectPayment_result [of ?m] assms(1) by auto
  have "knows_neighbours env n'" using assms(2) n'(2) by (simp add: knows_neighbours_def tx_kept_def)
  then have "voted_ok n' (onVoting (runVotesCheckingStage (receiverEnv env)) n')"
    by (intro base_stages_voted(1) tx_kept_ok [OF n'(2)]) (simp_all add: receiverEnv_def)
  then show ?thesis using n' by (auto simp: voteAfterDiscrepancy_def)
qed

lemma discrepancy_run:
  assumes "tx_ok (held_of (node s))" and "knows_neighbours env (node s)" and "mStep (voting (node s)) = Common_Voting"
  shows "rcv_run_ok s (case onNode (voteAfterDiscrepancy env) s of (res, s') \<Rightarrow> onNode (\<lambda>n. recovering venv (res, n)) s')"
proof -
  obtain n0 where n0: "tx_kept (held_of (node s)) (held_of n0)" "reservations_of n0 = []"
    "mStep (voting n0) = Common_Voting" "voted_ok n0 (voteAfterDiscrepancy env (node s))"
    using voteAfterDiscrepancy_released [OF assms(1,2)] assms(3) by auto
  obtain res n1 where f: "voteAfterDiscrepancy env (node s) = (res, n1)" by (meson surj_pair)
  obtain r n where rn: "recovering venv (res, n1) = (r, n)" by (meson surj_pair)
  have v: "voted_ok n0 (r, n)" using recovering_voted [OF n0(4), of venv] f rn by simp
  have eq: "(case onNode (voteAfterDiscrepancy env) s of (res, s') \<Rightarrow> onNode (\<lambda>n. recovering venv (res, n)) s') =
      (r, s\<lparr>node := n\<rparr>)"
    using f rn by (simp add: onNode_def)
  show ?thesis
  proof (cases "\<exists>e. r = Inl e \<and> \<not> isProjectException e")
    case True
    then show ?thesis unfolding eq by (auto simp: rcv_run_ok_def)
  next
    case False
    have k: "tx_ok (held_of n)" "others_kept (held_of n0) (held_of n)" "reservations_of n = []"
      "sumOfBalances (linesManager (voting n)) = sumOfBalances (linesManager (voting n0))"
      "mStep (voting n) \<in> votingStages"
      using v False n0(2,3) netOf_Nil [of "payment (voting n0)"] by (auto simp: voted_ok_def votingStages_def)
    have "role_inv (receiverRole (mTransactionAmount s) b) n" for b
      using k receiver.role_inv_voting [of n] by simp
    then have "receiver_inv (s\<lparr>node := n\<rparr>)" using k(3) by (simp add: receiver_inv_def over_def)
    moreover have "others_kept (held_of (node s)) (held_of n)"
      using others_kept_trans [OF tx_kept_others [OF n0(1)] k(2)] .
    ultimately show ?thesis
      unfolding eq using k tx_kept_total [OF n0(1)] by (auto simp: rcv_run_ok_def Let_def)
  qed
qed

section \<open>The whole of run\<close>

lemma receiverReservations_run:
  assumes "role_inv (receiverRole (mTransactionAmount s) (mTransactionShouldBeRejected s)) (node s)"
    and "mStep (voting (node s)) = Receiver_AmountReservationsProcessing"
  shows "rcv_unvoted s (runAmountReservationStage_receiver env s)"
proof -
  let ?R = "receiverRole (mTransactionAmount s) (mTransactionShouldBeRejected s)"
  have pre: "mStep (voting (node s)) \<in> preStages ?R \<and> \<not> mTransactionIsVoted (voting (node s))"
    by (rule pre_stage [OF assms(1)]) (simp add: assms(2))
  have tx: "tx_ok (held_of (node s))" using assms(1) by (simp add: role_inv_def)
  have ttl: "rcv_unvoted s (onNode (\<lambda>n. onTTLResponse env waitReservation False st (popContext n)) s)" for st
    by (rule onNode_unvoted, rule TTL_unvoted [OF assms(1) pre]) (simp_all add: waitReservation_def)
  have req: "rcv_unvoted s (processReservationRequest env senders am (s\<lparr>node := popContext (node s)\<rparr>))" for senders am
  proof -
    have "rcv_ok (s\<lparr>node := popContext (node s)\<rparr>)"
      using tx pre assms(2) role_inv_within [OF assms(1)] by (simp add: rcv_ok_def)
    from processRequest_rcv [OF this, of env senders am]
    show ?thesis using unvoted_same [OF tx, of "popContext (node s)"] by (auto simp: rcv_unvoted_def)
  qed
  have silent_: "rcv_unvoted s (onNode (\<lambda>n. if mTTLRequestWasSend n then rejectPayment n else askForTime (WaitForMessages ms d) n) s)" for ms d
    by (rule onNode_unvoted)
      (use rejectPayment_unvoted [OF tx conjunct2 [OF pre]] askForTime_unvoted [OF assms(1) pre] in simp)
  show ?thesis
    unfolding runAmountReservationStage_receiver_def
    using ttl req silent_
    by (cases "nodeContext (node s)"; cases "tl (nodeContext (node s))"; cases "hd (nodeContext (node s))") simp_all
qed

lemma receiverFinal_run:
  assumes "role_inv (receiverRole (mTransactionAmount s) (mTransactionShouldBeRejected s)) (node s)"
    and "mStep (voting (node s)) = Coordinator_FinalAmountsConfigurationConfirmation"
  shows "rcv_unvoted s (runFinalAmountsConfigurationConfirmation_receiver env s)"
proof -
  let ?R = "receiverRole (mTransactionAmount s) (mTransactionShouldBeRejected s)"
  have m: "mid_ok ?R (node s)" using receiver.mid_of_inv [OF assms(1)] assms(2) by (simp add: midStages_def)
  have pre: "mStep (voting (node s)) \<in> preStages ?R \<and> \<not> mTransactionIsVoted (voting (node s))"
    by (rule pre_stage [OF assms(1)]) (simp add: assms(2) midStages_def)
  have w: "within (mTransactionAmount s) (mTransactionShouldBeRejected s) (reservations_of (node s))"
    using role_inv_within [OF assms(1)] .
  have again: "rcv_unvoted s (runAmountReservationStage_receiver env (s\<lparr>node := goTo Receiver_AmountReservationsProcessing (node s)\<rparr>))"
  proof -
    let ?n = "goTo Receiver_AmountReservationsProcessing (node s)"
    have "role_inv ?R ?n"
      by (rule receiver_inv_pre) (use mid_tx [OF m] w in \<open>simp_all add: preStages_def\<close>)
    then show ?thesis
      using receiverReservations_run [of "s\<lparr>node := ?n\<rparr>" env] unvoted_same [OF mid_tx(1) [OF m], of ?n]
      by (auto simp: rcv_unvoted_def)
  qed
  have final: "rcv_unvoted s (onNode (\<lambda>n. runFinalReservationsCoordinatorConfirmation_receiver env senders am nodes b r (popContext n)) s)"
    for senders am nodes b r
    by (rule onNode_unvoted, rule unvoted_same [OF mid_tx(1) [OF m] _ receiverConfirmation_unvoted])
      (use mid_tx [OF m] w in simp_all)
  have hash: "rcv_unvoted s (onNode (\<lambda>n. runFinalReservationsNeighborConfirmation_receiver env senders i h r (popContext n)) s)"
    for senders i h r
    by (rule onNode_unvoted, rule unvoted_same [OF mid_tx(1) [OF m] _ neighborConfirmation_unvoted])
      (use m in \<open>auto simp: mid_ok_def\<close>)
  have ttl: "rcv_unvoted s (onNode (\<lambda>n. onTTLResponse env (WaitForMessages ms d) True st (popContext n)) s)" for ms d st
    by (rule onNode_unvoted, rule TTL_unvoted [OF assms(1) pre]) simp_all
  have silent_: "rcv_unvoted s (onNode (\<lambda>n. if mTTLRequestWasSend n
      then rejectPayment (removeAllDataFromStorageConcerningTransaction n) else askForTime (WaitForMessages ms d) n) s)" for ms d
    by (rule onNode_unvoted) (use remove_reject [OF mid_tx [OF m]] askForTime_unvoted [OF assms(1) pre] in simp)
  show ?thesis
    unfolding runFinalAmountsConfigurationConfirmation_receiver_def
    using again final hash ttl silent_
    by (cases "nodeContext (node s)"; cases "tl (nodeContext (node s))"; cases "hd (nodeContext (node s))") simp_all
qed

lemma run_of_unvoted:
  "rcv_unvoted s (runStage_receiver env s) \<Longrightarrow> rcv_run_ok s (run_receiver env s)"
  by (cases "runStage_receiver env s") (simp add: run_receiver_def rcv_unvoted_run)

lemma run_of_voted:
  assumes "receiver_inv s" and "mStep (voting (node s)) \<in> votingStages" and "\<not> over s"
    and "runStage_receiver env s = onNode f s" and "voted_ok (node s) (f (node s))"
  shows "rcv_run_ok s (run_receiver env s)"
proof -
  have "role_inv (receiverRole (mTransactionAmount s) False) (node s)"
    using assms(1,2,3) by (auto simp: receiver_inv_def votingStages_def)
  from voted_run [where f = f, OF this assms(2,3,5)] show ?thesis by (simp add: run_receiver_def assms(4))
qed

lemma clarification_run:
  assumes "receiver_inv s" and "mStep (voting (node s)) = Common_Voting" and "knows_neighbours env (node s)"
  shows "rcv_run_ok s (run_receiver env s)"
proof -
  let ?R = "receiverRole (mTransactionAmount s) (over s)"
  have st: "runStage_receiver env s = runVotesStageWithCoordinatorClarification env s"
    using assms(2) by (simp add: runStage_receiver_def)
  have vs: "mStep (voting (node s)) \<in> votingStages" using assms(2) by (simp add: votingStages_def)
  have inv: "role_inv ?R (node s)" "over s \<Longrightarrow> \<not> mTransactionIsVoted (voting (node s))"
    using assms(1,2) by (auto simp: receiver_inv_def)
  have tx: "tx_ok (held_of (node s))" using inv(1) by (simp add: role_inv_def)
  note base = base_stages_voted [OF tx assms(3), of "receiverEnv env"]
  show ?thesis
  proof (cases "isParticipantsPublicKeys (nodeContext (node s))")
    case True
    show ?thesis
    proof (cases "mTransactionShouldBeRejected s")
      case f: True
      then show ?thesis
        using discrepancy_run [OF tx assms(3,2), of "receiverEnv env"] True
        by (simp add: run_receiver_def st runVotesStageWithCoordinatorClarification_def)
    next
      case False
      then show ?thesis
        using True base(1)
        by (intro run_of_voted [OF assms(1) vs _ _, where f = "onVoting (runVotesCheckingStage (receiverEnv env))"])
          (simp_all add: st runVotesStageWithCoordinatorClarification_def receiverEnv_def over_def)
    qed
  next
    case no: False
    define f where "f = (\<lambda>n. case nodeContext n of
        [TTLProlongationResponse state] \<Rightarrow>
          onTTLResponse env
            (WaitForMessages [Payments_TTLProlongationResponse, Payments_ParticipantsPublicKeysKind]
               (maxNetworkDelay ((kMaxPathLength_payment - 1) * 4)))
            True state (popContext n)
      | _ \<Rightarrow>
            if mTTLRequestWasSend n then rejectPayment (removeAllDataFromStorageConcerningTransaction n)
            else askForTime
              (WaitForMessages [Payments_ParticipantsPublicKeysKind, Payments_TTLProlongationResponse]
                 (maxNetworkDelay 2)) n)"
    have stage: "runStage_receiver env s = onNode f s"
      using no unfolding st runVotesStageWithCoordinatorClarification_def
      by (cases "nodeContext (node s)"; cases "tl (nodeContext (node s))"; cases "hd (nodeContext (node s))")
        (simp_all add: f_def onNode_def)
    show ?thesis
    proof (cases "over s")
      case True
      then have R: "?R = receiverRole (mTransactionAmount s) (mTransactionShouldBeRejected s)" by (simp add: over_def)
      have pre: "mStep (voting (node s)) \<in> preStages ?R \<and> \<not> mTransactionIsVoted (voting (node s))"
        using inv(2) True assms(2) by (simp add: preStages_def)
      have ttl: "unvoted ?R (node s) (onTTLResponse env (WaitForMessages ms d) True x (popContext (node s)))" for ms d x
        by (rule TTL_unvoted [OF inv(1) pre]) simp_all
      have "unvoted ?R (node s) (f (node s))"
        using ttl remove_reject [OF tx conjunct2 [OF pre]] askForTime_unvoted [OF inv(1) pre]
        by (cases "nodeContext (node s)"; cases "tl (nodeContext (node s))"; cases "hd (nodeContext (node s))")
          (simp_all add: f_def)
      then have "rcv_unvoted s (onNode f s)" unfolding R by (rule onNode_unvoted)
      then show ?thesis using stage run_of_unvoted by simp
    next
      case False
      have rej: "voted_ok (node s) (rejectPayment t)" if "voting t = voting (node s)" for t
        using rejectPayment_voted [of t] voted_ok_same [of t "rejectPayment t" "node s"] tx that by simp
      have ask: "voted_ok (node s) (askForTime (WaitForMessages ms d) (node s))" for ms d
        using askForTime_voted [OF tx] by simp
      have ttl: "voted_ok (node s) (onTTLResponse env (WaitForMessages ms d) True x (popContext (node s)))" for ms d x
        using rej voted_ok_still [OF tx, of "popContext (node s)" "WaitForMessages ms d"] by (simp add: onTTLResponse_def)
      have "voted_ok (node s) (f (node s))"
        using rej ask ttl
        by (cases "nodeContext (node s)"; cases "tl (nodeContext (node s))"; cases "hd (nodeContext (node s))")
          (simp_all add: f_def)
      then show ?thesis by (rule run_of_voted [OF assms(1) vs False stage])
    qed
  qed
qed

text \<open>Before the vote the flag itself decides.\<close>

lemma pre_over:
  assumes "receiver_inv s"
    and "mStep (voting (node s)) = Receiver_AmountReservationsProcessing \<or> mStep (voting (node s)) \<in> midStages"
  shows "role_inv (receiverRole (mTransactionAmount s) (mTransactionShouldBeRejected s)) (node s)"
proof -
  have i: "role_inv (receiverRole (mTransactionAmount s) (over s)) (node s)"
    using assms by (auto simp: receiver_inv_def mid_sets)
  have "over s = (mTransactionShouldBeRejected s \<and> reservations_of (node s) \<noteq> [])"
    using assms(2) by (auto simp: over_def mid_sets)
  then show ?thesis using i role_inv_none [OF i] by (cases "reservations_of (node s) = []") simp_all
qed

lemma receiver_run:
  assumes "receiver_inv s" and "knows_neighbours env (node s)"
  shows "rcv_run_ok s (run_receiver env s)"
proof -
  let ?n = "node s"
  have tx: "tx_ok (held_of ?n)" using assms(1) by (auto simp: receiver_inv_def role_inv_def)
  note base = base_stages_voted [OF tx assms(2), of "receiverEnv env"]
  consider "mStep (voting ?n) = Receiver_CoordinatorRequestApproving" | "mStep (voting ?n) = Receiver_AmountReservationsProcessing"
    | "mStep (voting ?n) = Coordinator_FinalAmountsConfigurationConfirmation"
    | "mStep (voting ?n) = Common_ObservingBlockNumberProcessing" | "mStep (voting ?n) = Common_Voting"
    | "mStep (voting ?n) \<in> votingStages - {Common_Voting}"
    using assms(1) by (auto simp: receiver_inv_def role_inv_def midStages_def)
  then show ?thesis
  proof cases
    case 1
    then have s: "\<not> mTransactionIsVoted (voting ?n)" "reservations_of ?n = []"
      using assms(1) by (auto simp: receiver_inv_def role_inv_def mid_sets)
    show ?thesis
      by (rule run_of_unvoted)
        (use 1 in \<open>simp add: runStage_receiver_def onNode_unvoted initialization_unvoted [OF tx s]\<close>)
  next
    case 5
    then show ?thesis using clarification_run [OF assms(1) _ assms(2)] by simp
  next
    case 6
    have no: "\<not> over s" using 6 by (simp add: over_def)
    have v: "mStep (voting ?n) \<in> votingStages" using 6 by simp
    have env: "contractorAddress (receiverEnv env) = contractorAddress (voteEnv env)" by (simp add: receiverEnv_def)
    consider "mStep (voting ?n) = Common_VotesChecking" | "mStep (voting ?n) = Common_Recovery"
      | "mStep (voting ?n) = Common_Observing" | "mStep (voting ?n) = Common_ObservingReject"
      using 6 by (auto simp: votingStages_def)
    then show ?thesis
    proof cases
      case 1
      then show ?thesis
        by (intro run_of_voted [where f = "onVoting (runVotesConsistencyCheckingStage (receiverEnv env))", OF assms(1) v no])
          (simp_all add: runStage_receiver_def base env)
    next
      case 2
      then show ?thesis
        by (intro run_of_voted [where f = "onVoting (runVotesRecoveryParentStage (receiverEnv env))", OF assms(1) v no])
          (simp_all add: runStage_receiver_def base env)
    next
      case 3
      then show ?thesis
        by (intro run_of_voted [where f = "onVoting (runObservingResultStage (receiverEnv env))", OF assms(1) v no])
          (simp_all add: runStage_receiver_def base env)
    next
      case 4
      then show ?thesis
        by (intro run_of_voted [where f = "onVoting runObservingRejectTransaction", OF assms(1) v no])
          (simp_all add: runStage_receiver_def base env)
    qed
  next
    case 2
    show ?thesis
      by (rule run_of_unvoted) (use 2 pre_over [OF assms(1)] in \<open>simp add: runStage_receiver_def receiverReservations_run\<close>)
  next
    case 3
    show ?thesis
      by (rule run_of_unvoted)
        (use 3 pre_over [OF assms(1)] in \<open>simp add: runStage_receiver_def receiverFinal_run midStages_def\<close>)
  next
    case 4
    show ?thesis
      by (rule run_of_unvoted) (use 4 pre_over [OF assms(1)] in
        \<open>simp add: runStage_receiver_def onNode_unvoted receiverBlockNumber_unvoted midStages_def\<close>)
  qed
qed

section \<open>Runs\<close>

inductive receiver_moves :: "ReceiverState \<Rightarrow> ReceiverState \<Rightarrow> bool" where
  runs: "run_receiver env s = (Inr r, s') \<Longrightarrow> r \<noteq> Ended \<or> mStep (voting (node s')) = Common_Observing \<Longrightarrow>
    knows_neighbours env (node s) \<Longrightarrow> receiver_moves s s'"
| around: "surroundings (node s) n \<Longrightarrow> receiver_moves s (s\<lparr>node := n\<rparr>)"

definition receiving :: "TrustLineAmount \<Rightarrow> ReceiverState \<Rightarrow> bool" where
  "receiving a s \<longleftrightarrow> receiver_inv s \<and> mTransactionAmount s = a"

text \<open>Nothing around the payment makes it reserve more, or brings it out of the stages of the vote.\<close>

lemma surroundings_facts:
  "surroundings n n' \<Longrightarrow> reservations_of n' = reservations_of n \<and>
     mTransactionIsVoted (voting n') = mTransactionIsVoted (voting n) \<and>
     (mStep (voting n') = mStep (voting n) \<or> mStep (voting n) = Common_Observing \<and> mStep (voting n') = Common_ObservingReject)"
  by (induction rule: surroundings.induct) auto

lemma surroundings_tx_ok: "surroundings n n' \<Longrightarrow> tx_ok (held_of n) \<Longrightarrow> tx_ok (held_of n')"
proof (induction rule: surroundings.induct)
  case (others_act m s)
  then show ?case using tx_ok_other [of "payment (voting s)" "linesManager (voting s)" m] by simp
qed simp_all

lemma around_inv:
  assumes "receiver_inv s" and "surroundings (node s) n"
  shows "receiver_inv (s\<lparr>node := n\<rparr>)"
proof -
  note f = surroundings_facts [OF assms(2)]
  have "over (s\<lparr>node := n\<rparr>) = over s" using f by (auto simp: over_def votingStages_def)
  then show ?thesis
    using assms(1) f surroundings_tx_ok [OF assms(2)]
      receiver.surroundings_inv [OF assms(2), of "mTransactionAmount s" "over s"]
    by (auto simp: receiver_inv_def)
qed

lemma receiver_moves_inv: "receiver_moves s t \<Longrightarrow> receiving a s \<Longrightarrow> receiving a t"
proof (induction rule: receiver_moves.induct)
  case (runs env s r s')
  then have ok: "rcv_run_ok s (Inr r, s')" using receiver_run [of s env] by (simp add: receiving_def)
  then have "receiver_inv s'"
    using runs(2) by (auto simp: rcv_run_ok_def Let_def split: if_splits)
  then show ?case using ok runs(4) by (simp add: rcv_run_ok_def receiving_def)
next
  case (around s n)
  then show ?case using around_inv by (simp add: receiving_def)
qed

interpretation receiver_runs: step_invariant receiver_moves "receiving a" for a
  by unfold_locales (rule receiver_moves_inv)

lemma newReceiver_inv:
  assumes "manager_ok m" and "\<not> isReservationsPresentConsiderTransaction m u"
  shows "receiving amount (newReceiver u gateway unset path coordinator amount m)"
  using new_tx_ok [OF assms] by (simp add: receiving_def receiver_inv_def newReceiver_def)

text \<open>C3: a receiver gains what it reserved, and never more than the payment. However the messages, the
  other payments and the observers interleave with the runs of the payment, a run that returns either
  leaves the sum of the balances of the node's trust lines or raises it by the incoming amounts it held,
  which are then at most the amount the coordinator announced and are all released. The reservations of
  every other transaction stay, and when the payment ends and the observers do not have it, no
  reservation of it is left.\<close>

theorem receiver_gains:
  assumes "manager_ok m" and "\<not> isReservationsPresentConsiderTransaction m u"
    and "receiver_moves\<^sup>*\<^sup>* (newReceiver u gateway unset path coordinator amount m) s"
    and "knows_neighbours env (node s)" and "run_receiver env s = (Inr r, s')"
  shows "(sumOfBalances (linesManager (voting (node s'))) = sumOfBalances (linesManager (voting (node s))) \<or>
      sumOfBalances (linesManager (voting (node s'))) =
        sumOfBalances (linesManager (voting (node s))) + int (flowOf Incoming (payment (voting (node s)))) \<and>
      flowOf Incoming (payment (voting (node s))) \<le> amount \<and>
      txReservations (payment (voting (node s'))) = []) \<and>
    manager_ok (linesManager (voting (node s'))) \<and>
    (\<forall>v c. v \<noteq> currentTransactionUUID (payment (voting (node s))) \<longrightarrow>
       own v (linesManager (voting (node s'))) c = own v (linesManager (voting (node s))) c) \<and>
    (r = Ended \<and> mStep (voting (node s')) \<noteq> Common_Observing \<longrightarrow>
       \<not> isReservationsPresentConsiderTransaction (linesManager (voting (node s')))
           (currentTransactionUUID (payment (voting (node s)))))"
proof -
  have i: "receiver_inv s" "mTransactionAmount s = amount"
    using receiver_runs.steps_inv [OF assms(3) newReceiver_inv [OF assms(1,2)]] by (simp_all add: receiving_def)
  from receiver_run [OF i(1) assms(4)]
  have r: "tx_ok (held_of (node s'))" "others_kept (held_of (node s)) (held_of (node s'))"
    "sumOfBalances (linesManager (voting (node s'))) - sumOfBalances (linesManager (voting (node s))) = 0 \<or>
     sumOfBalances (linesManager (voting (node s'))) - sumOfBalances (linesManager (voting (node s))) =
        int (flowOf Incoming (payment (voting (node s)))) \<and>
      flowOf Incoming (payment (voting (node s))) \<le> amount \<and> reservations_of (node s') = []"
    "r = Ended \<and> mStep (voting (node s')) \<noteq> Common_Observing \<Longrightarrow> reservations_of (node s') = []"
    by (simp_all add: rcv_run_ok_def assms(5) Let_def i(2))
  have "\<not> isReservationsPresentConsiderTransaction (linesManager (voting (node s')))
      (currentTransactionUUID (payment (voting (node s))))" if "reservations_of (node s') = []"
    using that r(1,2) own_present [of "linesManager (voting (node s'))"]
    by (auto simp: tx_ok_def listed_def others_kept_def)
  then show ?thesis using r by (auto simp: others_kept_def tx_ok_def)
qed

definition sampleReceiver :: ReceiverState where
  "sampleReceiver = newReceiver 9 False 0 0 [sampleAddress] 10 sampleManager"

lemma sampleReceiver_run:
  "\<exists>s'. run_receiver sampleNodeEnv sampleReceiver = (Inr waitReservation, s')"
proof -
  have line: "map_of (mTrustLines sampleManager) 7 = Some sampleLine" by simp
  have "room sampleManager 7 Incoming = 80" "reserved sampleHandler 7 Incoming = 5"
    by (simp_all add: sampleHandler_eq sampleReservation_def reserved_def reservations_def
        amountOf_def room_def line_room_def incoming_room_def)
  then have "totalIncomingAmount sampleManager = Inr 75"
    using considering_exact(2) [OF sampleManager_ok line]
    by (simp add: totalIncomingAmount_def checked_add_def)
  then show ?thesis
    by (simp add: run_receiver_def runStage_receiver_def sampleReceiver_def newReceiver_def onNode_def
        runInitializationStage_def coordinatorAddress_def mainAddress_def recovering_def)
qed

theorem receiver_gains_witness:
  "\<exists>s'. run_receiver sampleNodeEnv sampleReceiver = (Inr waitReservation, s') \<and>
     manager_ok (linesManager (voting (node s')))"
proof -
  have none: "\<not> isReservationsPresentConsiderTransaction sampleManager 9"
    by (simp add: isReservationsPresentConsiderTransaction_def isTransactionReservationsPresent_def
        sampleHandler_eq sampleReservation_def)
  obtain s' where run: "run_receiver sampleNodeEnv sampleReceiver = (Inr waitReservation, s')"
    using sampleReceiver_run by blast
  have reach: "receiver_moves\<^sup>*\<^sup>* (newReceiver 9 False 0 0 [sampleAddress] 10 sampleManager) sampleReceiver"
    by (simp add: sampleReceiver_def)
  have "knows_neighbours sampleNodeEnv (node sampleReceiver)"
    by (simp add: knows_neighbours_def sampleReceiver_def newReceiver_def sampleNodeEnv_def contractorMainAddress_def
        contractor_def newContractor_def mainAddress_def)
  then have "manager_ok (linesManager (voting (node s')))"
    using receiver_gains [OF sampleManager_ok none reach _ run] by simp
  then show ?thesis using run by blast
qed

section \<open>Voting for what is rolled back\<close>

lemma rejectPayment_value:
  assumes "tx_ok (held_of n)"
  shows "\<exists>p m. rejectPayment n = (Inr Ended, n\<lparr>voting := (voting n)\<lparr>payment := p, linesManager := m, mContext := []\<rparr>,
      nodeContext := (if nodeContext n = [] then [] else nodeContext n)\<rparr>) \<and>
    txReservations p = [] \<and> tx_kept (held_of n) (p, m)"
proof -
  obtain p m where t: "rollBack (held_of n) = (Inr (), p, m)" "tx_kept (held_of n) (p, m)" "txReservations p = []"
    using rollBack_kept [OF assms] by (metis fst_conv prod.collapse)
  then show ?thesis
    by (auto simp: rejectPayment_def onVoting_def reject_def onPayment_def nodeResult_def)
qed

lemma publicKeysAppropriate_cong:
  "publicKeyHash env = publicKeyHash env' \<Longrightarrow> mParticipantsPublicKeys v = mParticipantsPublicKeys w \<Longrightarrow>
     mParticipantsPublicKeysHashes v = mParticipantsPublicKeysHashes w \<Longrightarrow>
     checkPublicKeysAppropriate env v = checkPublicKeysAppropriate env' w"
  unfolding checkPublicKeysAppropriate_def by (simp only:)

lemma signs_vote:
  assumes "mContext v = [ParticipantsPublicKeysMessage c publicKeys]" and "\<not> mTransactionIsVoted v"
    and "map_of (mPaymentParticipants v) kCoordinatorPaymentNodeID = Some c"
    and "checkPublicKeysAppropriate env (v\<lparr>mContext := [], mParticipantsPublicKeys := publicKeys\<rparr>)"
    and "saveTransaction env = Inr ()" and "\<And>d. signPaymentTransaction env d = Inr (Some sig)" and "savePayment env = Inr ()"
  shows "runVotesCheckingStage env v =
    (Inr (ResultWaitForMessageTypes [Payments_ParticipantsVotes, Payments_ParticipantsPublicKeys] (maxNetworkDelay 9)),
     send (ParticipantVoteMessage c (Some sig))
       (v\<lparr>mContext := [], mParticipantsPublicKeys := publicKeys, mSignedTransaction := Some sig,
          mTransactionIsVoted := True, mStep := Common_VotesChecking\<rparr>))"
  using assms by (simp add: runVotesCheckingStage_def Let_def sendSignedTransaction_def)

text \<open>After a discrepancy the receiver votes for a payment it has rolled back. The public keys come, the
  flag of the discrepancy is set, the reservations are dropped (the call of \<open>reject\<close> is not returned), and
  then the receiver signs, stores its vote and sends it to the coordinator as if it had the money
  reserved.\<close>

theorem discrepant_receiver_votes:
  assumes "tx_ok (reserves (voting (node s)))" and "mStep (voting (node s)) = Common_Voting"
    and "mTransactionShouldBeRejected s" and "\<not> mTransactionIsVoted (voting (node s))"
    and "nodeContext (node s) = [VotingStageMessage (ParticipantsPublicKeysMessage c publicKeys)]"
    and "map_of (mPaymentParticipants (voting (node s))) kCoordinatorPaymentNodeID = Some c"
    and "checkPublicKeysAppropriate (votes env) ((voting (node s))\<lparr>mParticipantsPublicKeys := publicKeys\<rparr>)"
    and "saveTransaction (votes env) = Inr ()" and "\<And>d. signPaymentTransaction (votes env) d = Inr (Some sig)"
    and "savePayment (votes env) = Inr ()"
  shows "\<exists>r s'. run_receiver env s = (Inr r, s') \<and> r \<noteq> Ended \<and>
    mStep (voting (node s')) = Common_VotesChecking \<and> mTransactionIsVoted (voting (node s')) \<and>
    last (outbox (voting (node s'))) = ParticipantVoteMessage c (Some sig) \<and>
    txReservations (payment (voting (node s'))) = [] \<and>
    sumOfBalances (linesManager (voting (node s'))) = sumOfBalances (linesManager (voting (node s)))"
proof -
  let ?n = "removeAllDataFromStorageConcerningTransaction (node s)"
  have ctx: "nodeContext ?n = nodeContext (node s)" by (simp add: removeAllDataFromStorageConcerningTransaction_def)
  obtain p m where r: "rejectPayment ?n = (Inr Ended, ?n\<lparr>voting := (voting (node s))\<lparr>payment := p, linesManager := m, mContext := []\<rparr>,
      nodeContext := nodeContext (node s)\<rparr>)" "txReservations p = []" "tx_kept (held_of (node s)) (p, m)"
    using rejectPayment_value [of ?n] assms(1,5) ctx by auto
  have env: "publicKeyHash (receiverEnv env) = publicKeyHash (votes env)"
    "saveTransaction (receiverEnv env) = saveTransaction (votes env)"
    "signPaymentTransaction (receiverEnv env) = signPaymentTransaction (votes env)"
    "savePayment (receiverEnv env) = savePayment (votes env)"
    by (simp_all add: receiverEnv_def voteEnv_def)
  have sum: "sumOfBalances m = sumOfBalances (linesManager (voting (node s)))"
    using tx_kept_total [OF r(3)] by simp
  let ?v = "(voting (node s))\<lparr>payment := p, linesManager := m, mContext := [ParticipantsPublicKeysMessage c publicKeys]\<rparr>"
  have keys: "checkPublicKeysAppropriate (receiverEnv env) (?v\<lparr>mContext := [], mParticipantsPublicKeys := publicKeys\<rparr>)"
    by (rule publicKeysAppropriate_cong [OF env(1), THEN iffD2, OF _ _ assms(7)]) simp_all
  have vote: "runVotesCheckingStage (receiverEnv env) ?v =
    (Inr (ResultWaitForMessageTypes [Payments_ParticipantsVotes, Payments_ParticipantsPublicKeys] (maxNetworkDelay 9)),
     send (ParticipantVoteMessage c (Some sig))
       (?v\<lparr>mContext := [], mParticipantsPublicKeys := publicKeys, mSignedTransaction := Some sig,
          mTransactionIsVoted := True, mStep := Common_VotesChecking\<rparr>))"
    by (rule signs_vote [OF _ _ _ keys]) (use assms env in simp_all)
  have "isParticipantsPublicKeys (nodeContext (node s))" using assms(5) by (simp add: isParticipantsPublicKeys_def)
  then show ?thesis
    using assms(2,3,5) r(1,2) vote sum
    by (simp add: run_receiver_def runStage_receiver_def runVotesStageWithCoordinatorClarification_def onNode_def
        voteAfterDiscrepancy_def onVoting_def voteMessage_def recovering_def nodeResult_def send_def)
qed

definition discrepantReceiver :: ReceiverState where
  "discrepantReceiver = sampleReceiver
     \<lparr>node := (node sampleReceiver)
        \<lparr>voting := sampleVoting\<lparr>mStep := Common_Voting, mTransactionIsVoted := False\<rparr>,
         nodeContext := [VotingStageMessage (ParticipantsPublicKeysMessage [''coordinator''] [(0, [9])])]\<rparr>,
      mTransactionShouldBeRejected := True\<rparr>"

theorem discrepant_receiver_votes_witness:
  "\<exists>r s'. run_receiver sampleNodeEnv discrepantReceiver = (Inr r, s') \<and> mTransactionIsVoted (voting (node s')) \<and>
     txReservations (payment (voting (node discrepantReceiver))) \<noteq> [] \<and> txReservations (payment (voting (node s'))) = []"
proof -
  have f: "voting (node discrepantReceiver) = sampleVoting\<lparr>mStep := Common_Voting, mTransactionIsVoted := False\<rparr>"
    "nodeContext (node discrepantReceiver) = [VotingStageMessage (ParticipantsPublicKeysMessage [''coordinator''] [(0, [9])])]"
    "mTransactionShouldBeRejected discrepantReceiver"
    by (simp_all add: discrepantReceiver_def)
  have "\<exists>r s'. run_receiver sampleNodeEnv discrepantReceiver = (Inr r, s') \<and> r \<noteq> Ended \<and>
    mStep (voting (node s')) = Common_VotesChecking \<and> mTransactionIsVoted (voting (node s')) \<and>
    last (outbox (voting (node s'))) = ParticipantVoteMessage [''coordinator''] (Some [1]) \<and>
    txReservations (payment (voting (node s'))) = [] \<and>
    sumOfBalances (linesManager (voting (node s'))) = sumOfBalances (linesManager (voting (node discrepantReceiver)))"
    by (rule discrepant_receiver_votes [OF _ _ f(3) _ f(2)])
      (simp_all add: f samplePayment_ok sampleVoting_def sampleNodeEnv_def sampleEnv_def kCoordinatorPaymentNodeID_def
        checkPublicKeysAppropriate_def)
  then show ?thesis by (auto simp: f sampleVoting_def)
qed

end
