(* ===== verification/Coordinator.thy ===== *)
theory Coordinator
  imports Intermediate_Node
begin

text \<open>
  A payment on the node that pays:
  \<^verbatim>\<open>transactions/transactions/regular/payments/CoordinatorPaymentTransaction.cpp\<close> and the statistics of its
  paths, \<^verbatim>\<open>base/PathStats.cpp\<close>. It asks for paths, lets the receiver agree, reserves the amount of the
  command node by node on one path after the other, fixes the final amounts, collects the votes and commits.

  The fields of the base class are those of \<open>VoteState\<close> (\<open>common\<close>); a participant is kept with its addresses
  in \<open>members\<close>. Messages arrive in \<open>inbox\<close>, what is sent is appended to \<open>posted\<close>. Two calls recurse: the
  reservation stage and the switch to the next path call each other until a path has to be waited for. The
  functions between them take these two as arguments (\<open>again\<close>, \<open>goNext\<close>), and the recursion is closed with a
  bound on its depth, which every call passes on less one; \<open>OutOfFuel\<close> is what a call without depth answers.
  What the paths manager answers to the calls of \<open>buildPathsAgain\<close> (\<open>PathsCall\<close>), and whether the history
  knows the payment, is part of the environment.
\<close>

section \<open>Statistics of a path\<close>

datatype PathNodeState =
    ReservationRequestDoesntSent
  | NeighbourReservationRequestSent
  | NeighbourReservationApproved
  | ReservationRequestSent
  | ReservationApproved
  | ReservationRejected

text \<open>The nodes end with the receiver, which is added after the states were allocated.\<close>

record PathStats =
  pathNodes :: "Address list"
  mIntermediateNodesStates :: "PathNodeState list"
  mMaxPathFlow :: TrustLineAmount
  mIsValid :: bool

definition newPathStats :: "Address list \<Rightarrow> PathStats" where
  "newPathStats path =
     \<lparr>pathNodes = path, mIntermediateNodesStates = replicate (length path) ReservationRequestDoesntSent,
      mMaxPathFlow = 0, mIsValid = True\<rparr>"

definition nodeAt :: "Address list \<Rightarrow> nat \<Rightarrow> Address result" where
  "nodeAt nodes i = (if i < length nodes then Inr (nodes ! i) else Inl UndefinedBehaviour)"

definition setNodeState :: "nat \<Rightarrow> PathNodeState \<Rightarrow> PathStats \<Rightarrow> PathStats result" where
  "setNodeState i state p =
     (if i < length (mIntermediateNodesStates p)
      then Inr (p\<lparr>mIntermediateNodesStates := (mIntermediateNodesStates p)[i := state]\<rparr>)
      else Inl UndefinedBehaviour)"

definition shortageMaxFlow :: "TrustLineAmount \<Rightarrow> PathStats \<Rightarrow> PathStats result" where
  "shortageMaxFlow kAmount p =
     (if mMaxPathFlow p = 0 then Inr (p\<lparr>mMaxPathFlow := kAmount\<rparr>)
      else if kAmount \<le> mMaxPathFlow p then Inr (p\<lparr>mMaxPathFlow := kAmount\<rparr>)
      else Inl ValueError)"

definition setUnusable :: "PathStats \<Rightarrow> PathStats" where
  "setUnusable p = p\<lparr>mIsValid := False, mMaxPathFlow := 0\<rparr>"

definition containsIntermediateNodes :: "PathStats \<Rightarrow> bool" where
  "containsIntermediateNodes p \<longleftrightarrow> mIntermediateNodesStates p \<noteq> []"

text \<open>The first node whose state fits, with its position.\<close>

definition firstNodeWith :: "(nat \<Rightarrow> PathNodeState \<Rightarrow> bool) \<Rightarrow> PathStats \<Rightarrow> (Address \<times> nat) result" where
  "firstNodeWith fits p =
     (case find (\<lambda>i. fits i (mIntermediateNodesStates p ! i)) [0..<length (mIntermediateNodesStates p)] of
        None \<Rightarrow> Inl NotFoundError
      | Some i \<Rightarrow> bindR (nodeAt (pathNodes p) i) (\<lambda>a. Inr (a, i)))"

definition currentIntermediateNodeAndPos :: "PathStats \<Rightarrow> (Address \<times> nat) result" where
  "currentIntermediateNodeAndPos =
     firstNodeWith (\<lambda>i state. state \<noteq> ReservationApproved \<and> state \<noteq> ReservationRejected)"

definition nextIntermediateNodeAndPos :: "PathStats \<Rightarrow> (Address \<times> nat) result" where
  "nextIntermediateNodeAndPos =
     firstNodeWith (\<lambda>i state. i = 0 \<and> state = NeighbourReservationApproved \<or> state = ReservationRequestDoesntSent)"

text \<open>The next ones are asked for paths with intermediate nodes only.\<close>

definition isNeighborAmountReserved :: "PathStats \<Rightarrow> bool" where
  "isNeighborAmountReserved p \<longleftrightarrow> hd (mIntermediateNodesStates p) = NeighbourReservationApproved"

definition isWaitingForNeighborReservationResponse :: "PathStats \<Rightarrow> bool" where
  "isWaitingForNeighborReservationResponse p \<longleftrightarrow>
     hd (mIntermediateNodesStates p) = NeighbourReservationRequestSent"

definition isWaitingForNeighborReservationPropagationResponse :: "PathStats \<Rightarrow> bool" where
  "isWaitingForNeighborReservationPropagationResponse p \<longleftrightarrow>
     hd (mIntermediateNodesStates p) = ReservationRequestSent"

definition isWaitingForReservationResponse :: "PathStats \<Rightarrow> bool" where
  "isWaitingForReservationResponse p \<longleftrightarrow>
     list_ex (\<lambda>state. state = ReservationRequestSent) (mIntermediateNodesStates p)"

definition isLastIntermediateNodeProcessed :: "PathStats \<Rightarrow> bool" where
  "isLastIntermediateNodeProcessed p \<longleftrightarrow>
     (let state = last (mIntermediateNodesStates p)
      in state \<noteq> ReservationRequestDoesntSent \<and> state \<noteq> NeighbourReservationRequestSent \<and>
         state \<noteq> NeighbourReservationApproved)"

definition isReadyToSendNextReservationRequest :: "PathStats \<Rightarrow> bool" where
  "isReadyToSendNextReservationRequest p \<longleftrightarrow>
     \<not> isWaitingForReservationResponse p \<and> \<not> isWaitingForNeighborReservationResponse p \<and>
     \<not> isLastIntermediateNodeProcessed p"

section \<open>State\<close>

datatype CoordinatorMessage =
    TTLProlongationRequest "Address list"
  | ReceiverInitPaymentResponse bool
  | NoEquivalentAnswer
  | NeighborReservationResponse "Address list" PathID OperationState TrustLineAmount
  | CoordinatorReservationResponse "Address list" PathID OperationState TrustLineAmount
  | FinalAmountsConfigurationResponse "Address list" bool PublicKey
  | ParticipantVote "Address list" "Signature option"

datatype CoordinatorKind =
    Kind_ReceiverInitPaymentResponse
  | Kind_NoEquivalent
  | Kind_IntermediateNodeReservationResponse
  | Kind_CoordinatorReservationResponse
  | Kind_TTLProlongationRequest
  | Kind_FinalAmountsConfigurationResponse
  | Kind_ParticipantVote

datatype ResourceKind = PathsKind | ObservingBlockNumberKind

datatype CoordinatorResource =
    PathsResource "Address list list"
  | ActualBlockNumber "64 word"

datatype CoordinatorSent =
    RequestPaths Address
  | SendReceiverInitRequest Address TrustLineAmount
  | SendNeighborReservationRequest ContractorID PathAmounts
  | SendCoordinatorReservationRequest Address PathAmounts Address
  | SendTTLResponse Address bool
  | SendFinalPathConfiguration Address PathID TrustLineAmount
  | RequestBlockNumber
  | SendFinalAmounts Address PathAmounts "(PaymentNodeID \<times> Address list) list" "64 word" "(Receipt \<times> KeyHash) option"
  | SendPublicKeys Address "(PaymentNodeID \<times> PublicKey) list"
  | SendVotes Address "(PaymentNodeID \<times> Signature) list"
  | WritePaymentEvent "Address list list"
  | RemoveStoredData

datatype CommandAnswer =
    AnswerOK
  | AnswerForbiddenRun
  | AnswerForbiddenRunDueObserving
  | AnswerNoRoutes
  | AnswerProtocolError
  | AnswerRemoteNodeIsInaccessible
  | AnswerInsufficientFunds
  | AnswerInsufficientFundsDueToKeysAbsent
  | AnswerInsufficientFundsDueToParticipantsKeysAbsent
  | AnswerNoConsensus
  | AnswerUnexpectedError

datatype CoordinatorResult =
    Answered CommandAnswer
  | WaitsForMessages "CoordinatorKind list" "32 word"
  | WaitsForResource ResourceKind "32 word"
  | ContinuesPrevious
  | OutOfFuel

text \<open>What \<open>buildPathsAgain\<close> tells the paths manager before it takes the paths that are built.\<close>

datatype PathsCall =
    AddUsedAmountFromInitiator Address TrustLineAmount
  | AddUsedAmount Address Address TrustLineAmount
  | MakeTrustLineFullyUsed Address Address
  | ReBuildPaths Address "Address list"

record CoordinatorEnv =
  nodeEnv :: NodeEnv
  isRunPaymentTransactions :: bool
  operationConducted :: "bool result"
  deletePaymentRecord :: "unit result"
  rebuiltPaths :: "PathsCall list \<Rightarrow> Address list list result"

record CoordinatorState =
  common :: VoteState
  mCommandAmount :: TrustLineAmount
  mContractor :: "Address list"
  mPathsStats :: "(PathID \<times> PathStats) list"
  mCurrentAmountReservingPathIdentifier :: PathID
  mPathIDs :: "PathID list"
  mReservationsStage :: "8 word"
  mCurrentPathParticipants :: "Address list list"
  mDirectPathIsAlreadyProcessed :: bool
  mNodesFinalAmountsConfiguration :: "(string \<times> PathAmounts) list"
  inaccessibleNodes :: "Address list"
  mPreviousInaccessibleNodesCount :: nat
  mRejectedTrustLines :: "(Address \<times> Address) list"
  mPreviousRejectedTrustLinesCount :: nat
  mCurrentFreePaymentID :: PaymentNodeID
  mRebuildingAttemptsCount :: "16 word"
  mNeighborsKeysProblem :: bool
  mParticipantsKeysProblem :: bool
  mCountReceiverInaccessible :: "8 word"
  mCountParticipantKeysResending :: "16 word"
  mIsPaymentTransactionsAllowedDueToObserving :: bool
  members :: "(PaymentNodeID \<times> Address list) list"
  nodesIds :: "(string \<times> PaymentNodeID) list"
  ownPublicKey :: "PublicKey option"
  inbox :: "CoordinatorMessage list"
  resources :: "CoordinatorResource list"
  posted :: "CoordinatorSent list"

definition kMaxReceiverInaccessible :: "8 word" where
  "kMaxReceiverInaccessible = 5"

definition kMaxRebuildingAttemptsCount :: "16 word" where
  "kMaxRebuildingAttemptsCount = 3"

definition kMaxCountParticipantKeysResending :: "16 word" where
  "kMaxCountParticipantKeysResending = 5"

definition newCoordinator ::
  "TransactionUUID \<Rightarrow> bool \<Rightarrow> 64 word \<Rightarrow> PathID \<Rightarrow> PaymentNodeID \<Rightarrow> TrustLineAmount \<Rightarrow> Address list \<Rightarrow> bool \<Rightarrow>
   TrustLinesManager \<Rightarrow> CoordinatorState" where
  "newCoordinator transactionUUID iAmGateway unset path freeID amount addresses allowed m = \<lparr>
     common = (newVoting (newPayment transactionUUID iAmGateway unset) m)\<lparr>mStep := Coordinator_Initialization\<rparr>,
     mCommandAmount = amount, mContractor = addresses, mPathsStats = [],
     mCurrentAmountReservingPathIdentifier = path, mPathIDs = [], mReservationsStage = 0,
     mCurrentPathParticipants = [], mDirectPathIsAlreadyProcessed = False, mNodesFinalAmountsConfiguration = [],
     inaccessibleNodes = [], mPreviousInaccessibleNodesCount = 0, mRejectedTrustLines = [],
     mPreviousRejectedTrustLinesCount = 0, mCurrentFreePaymentID = freeID, mRebuildingAttemptsCount = 0,
     mNeighborsKeysProblem = False, mParticipantsKeysProblem = False, mCountReceiverInaccessible = 0,
     mCountParticipantKeysResending = 1, mIsPaymentTransactionsAllowedDueToObserving = allowed, members = [],
     nodesIds = [], ownPublicKey = None, inbox = [], resources = [], posted = []\<rparr>"

section \<open>Shortcuts\<close>

abbreviation coordinatorContractors :: "CoordinatorEnv \<Rightarrow> ContractorsManager" where
  "coordinatorContractors env \<equiv> contractorsManager (nodeEnv env)"

abbreviation popInbox :: "CoordinatorState \<Rightarrow> CoordinatorState" where
  "popInbox s \<equiv> s\<lparr>inbox := tl (inbox s)\<rparr>"

abbreviation currentPathID :: "CoordinatorState \<Rightarrow> PathID" where
  "currentPathID \<equiv> mCurrentAmountReservingPathIdentifier"

definition say :: "CoordinatorSent \<Rightarrow> CoordinatorState \<Rightarrow> CoordinatorState" where
  "say m s = s\<lparr>posted := posted s @ [m]\<rparr>"

definition toStage :: "Stage \<Rightarrow> CoordinatorState \<Rightarrow> CoordinatorState" where
  "toStage stage s = s\<lparr>common := (common s)\<lparr>mStep := stage\<rparr>\<rparr>"

definition onBase ::
  "(VoteState \<Rightarrow> 'a result \<times> VoteState) \<Rightarrow> CoordinatorState \<Rightarrow> 'a result \<times> CoordinatorState" where
  "onBase f s = (case f (common s) of (res, v) \<Rightarrow> (res, s\<lparr>common := v\<rparr>))"

definition onHeld ::
  "(PaymentState \<Rightarrow> 'a result \<times> PaymentState) \<Rightarrow> CoordinatorState \<Rightarrow> 'a result \<times> CoordinatorState" where
  "onHeld f s =
     (case f (payment (common s), linesManager (common s)) of
        (res, p, m) \<Rightarrow> (res, s\<lparr>common := (common s)\<lparr>payment := p, linesManager := m\<rparr>\<rparr>))"

text \<open>\<^verbatim>\<open>mPathsStats[...]\<close> of an unknown path is a null pointer, which every caller dereferences.\<close>

definition currentAmountReservationPathStats :: "CoordinatorState \<Rightarrow> PathStats result" where
  "currentAmountReservationPathStats s =
     (case map_of (mPathsStats s) (currentPathID s) of None \<Rightarrow> Inl UndefinedBehaviour | Some p \<Rightarrow> Inr p)"

definition onPathStats ::
  "PathID \<Rightarrow> (PathStats \<Rightarrow> PathStats result) \<Rightarrow> CoordinatorState \<Rightarrow> unit result \<times> CoordinatorState" where
  "onPathStats pathID f s =
     (case map_of (mPathsStats s) pathID of
        None \<Rightarrow> throwing UndefinedBehaviour s
      | Some p \<Rightarrow>
          bindS (f p, s) (\<lambda>p' s. returning () (s\<lparr>mPathsStats := AList.update pathID p' (mPathsStats s)\<rparr>)))"

text \<open>\<^verbatim>\<open>std::map::insert\<close> keeps an entry that is there.\<close>

definition mapInsert :: "'k::linorder \<Rightarrow> 'v \<Rightarrow> ('k \<times> 'v) list \<Rightarrow> ('k \<times> 'v) list" where
  "mapInsert k v m = (if map_of m k = None then ordUpdate k v m else m)"

definition setMembers :: "(PaymentNodeID \<times> Address list) list \<Rightarrow> CoordinatorState \<Rightarrow> CoordinatorState" where
  "setMembers nodes s =
     s\<lparr>members := nodes,
       common := (common s)\<lparr>mPaymentParticipants := map (\<lambda>(i, as). (i, map fullAddress as)) nodes\<rparr>\<rparr>"

text \<open>A new participant gets the next free number.\<close>

definition addMember :: "Address list \<Rightarrow> CoordinatorState \<Rightarrow> unit result \<times> CoordinatorState" where
  "addMember addresses s =
     (let i = mCurrentFreePaymentID s
      in bindS (mainAddress addresses, setMembers (mapInsert i addresses (members s)) s) (\<lambda>a s.
         returning () (s\<lparr>nodesIds := (if map_of (nodesIds s) (fullAddress a) = None
                                      then nodesIds s @ [(fullAddress a, i)] else nodesIds s),
                         mCurrentFreePaymentID := i + 1\<rparr>)))"

definition resultInsufficientFundsError :: "CoordinatorState \<Rightarrow> CoordinatorResult" where
  "resultInsufficientFundsError s =
     (if mNeighborsKeysProblem s then Answered AnswerInsufficientFundsDueToKeysAbsent
      else if mParticipantsKeysProblem s then Answered AnswerInsufficientFundsDueToParticipantsKeysAbsent
      else Answered AnswerInsufficientFunds)"

section \<open>Refusing\<close>

fun informEach :: "(PaymentNodeID \<times> Address list) list \<Rightarrow> CoordinatorState \<Rightarrow> unit result \<times> CoordinatorState" where
  "informEach [] s = returning () s"
| "informEach ((i, addresses) # rest) s =
     (if i = kCoordinatorPaymentNodeID then informEach rest s
      else bindS (mainAddress addresses, s) (\<lambda>a s. informEach rest (say (SendTTLResponse a False) s)))"

definition informAllNodesAboutTransactionFinish :: "CoordinatorState \<Rightarrow> unit result \<times> CoordinatorState" where
  "informAllNodesAboutTransactionFinish s = informEach (members s) s"

definition rejectCoordinator :: "CoordinatorState \<Rightarrow> CoordinatorResult result \<times> CoordinatorState" where
  "rejectCoordinator s =
     bindS (onBase reject s) (\<lambda>_ s.
     bindS (informAllNodesAboutTransactionFinish s) (\<lambda>_. returning (Answered AnswerNoConsensus)))"

text \<open>A rejection whose answer the caller replaces.\<close>

definition rejectWith ::
  "(CoordinatorState \<Rightarrow> CoordinatorResult) \<Rightarrow> CoordinatorState \<Rightarrow> CoordinatorResult result \<times> CoordinatorState" where
  "rejectWith answer s = bindS (rejectCoordinator s) (\<lambda>_ s. returning (answer s) s)"

section \<open>Paths\<close>

fun nodesDiffer :: "Address \<Rightarrow> Address \<Rightarrow> Address list \<Rightarrow> bool" where
  "nodesDiffer self receiver [] = True"
| "nodesDiffer self receiver (a # rest) =
     (if sameAddress self a then False
      else if sameAddress receiver a then False
      else if list_ex (sameAddress a) rest then False
      else nodesDiffer self receiver rest)"

definition isPathValid :: "CoordinatorEnv \<Rightarrow> CoordinatorState \<Rightarrow> Address list \<Rightarrow> bool result" where
  "isPathValid env s path =
     (if path = [] then Inr True
      else if length path > unat kMaxPathLength_payment - 2 then Inl ValueError
      else bindR (mainAddress (mSelf (coordinatorContractors env))) (\<lambda>self.
           bindR (mainAddress (mContractor s)) (\<lambda>receiver. Inr (nodesDiffer self receiver path))))"

text \<open>
  The smallest number that is free. The paths that are compared are pointers to different paths, so that no
  duplicate is found; if all numbers were taken, the loop would not end.
\<close>

fun freeIdentifier :: "nat \<Rightarrow> PathID \<Rightarrow> PathID list \<Rightarrow> PathID result" where
  "freeIdentifier 0 identifier ids = Inl UndefinedBehaviour"
| "freeIdentifier (Suc n) identifier ids =
     (if identifier \<notin> set ids then Inr identifier else freeIdentifier n (identifier + 1) ids)"

definition addPathForFurtherProcessing :: "Address list \<Rightarrow> CoordinatorState \<Rightarrow> unit result \<times> CoordinatorState" where
  "addPathForFurtherProcessing path s =
     bindS (freeIdentifier (2 ^ 16) 0 (keys (mPathsStats s)), s) (\<lambda>identifier s.
     bindS (mainAddress (mContractor s), s\<lparr>mPathsStats := mPathsStats s @ [(identifier, newPathStats path)]\<rparr>) (\<lambda>receiver s.
     bindS (onPathStats identifier (\<lambda>p. Inr (p\<lparr>pathNodes := pathNodes p @ [receiver]\<rparr>)) s) (\<lambda>_ s.
       returning () (s\<lparr>mPathIDs := mPathIDs s @ [identifier]\<rparr>))))"

fun addValidPaths :: "CoordinatorEnv \<Rightarrow> Address list list \<Rightarrow> CoordinatorState \<Rightarrow> unit result \<times> CoordinatorState" where
  "addValidPaths env [] s = returning () s"
| "addValidPaths env (path # rest) s =
     bindS (isPathValid env s path, s) (\<lambda>valid s.
       if valid then bindS (addPathForFurtherProcessing path s) (\<lambda>_. addValidPaths env rest)
       else addValidPaths env rest s)"

text \<open>\<^verbatim>\<open>at(0)\<close> throws for a path without nodes; every path here has the receiver.\<close>

definition usedAmounts :: "PathStats \<Rightarrow> PathsCall list result" where
  "usedAmounts p =
     (case pathNodes p of
        [] \<Rightarrow> Inl StdOutOfRange
      | a # rest \<Rightarrow> Inr (AddUsedAmountFromInitiator a (mMaxPathFlow p) #
                      map (\<lambda>(x, y). AddUsedAmount x y (mMaxPathFlow p)) (zip (a # rest) rest)))"

definition buildPathsAgain :: "CoordinatorEnv \<Rightarrow> CoordinatorState \<Rightarrow> unit result \<times> CoordinatorState" where
  "buildPathsAgain env s =
     bindS (collectR usedAmounts (map snd (mPathsStats s)), s) (\<lambda>used s.
     bindS (mainAddress (mContractor s), s) (\<lambda>receiver s.
     bindS (rebuiltPaths env
              (concat used @ map (\<lambda>(a, b). MakeTrustLineFullyUsed a b) (mRejectedTrustLines s) @
               [ReBuildPaths receiver (inaccessibleNodes s)]), s)
       (addValidPaths env)))"

definition initAmountsReservationOnNextPath :: "CoordinatorState \<Rightarrow> unit result \<times> CoordinatorState" where
  "initAmountsReservationOnNextPath s =
     (if mPathsStats s = [] then throwing NotFoundError s
      else case mPathIDs s of
        [] \<Rightarrow> throwing UndefinedBehaviour s
      | pathID # _ \<Rightarrow>
          (let s = s\<lparr>mCurrentAmountReservingPathIdentifier := pathID\<rparr>
           in bindS (currentAmountReservationPathStats s, s) (\<lambda>_ s.
              returning () (s\<lparr>mCurrentPathParticipants := []\<rparr>))))"

text \<open>The delay between two paths through the same first node changes nothing else.\<close>

definition dropUnusable :: "PathID \<Rightarrow> PathStats \<Rightarrow> CoordinatorState \<Rightarrow> CoordinatorState" where
  "dropUnusable justProcessed p s =
     (if \<not> mIsValid p then s\<lparr>mPathsStats := AList.delete justProcessed (mPathsStats s)\<rparr> else s)"

definition switchToNextPath :: "CoordinatorState \<Rightarrow> unit result \<times> CoordinatorState" where
  "switchToNextPath s =
     (let justProcessed = currentPathID s
      in bindS (currentAmountReservationPathStats s, s) (\<lambda>p s.
         let s = s\<lparr>mPathIDs := tl (mPathIDs s)\<rparr>
         in case mPathIDs s of
              [] \<Rightarrow> throwing NotFoundError (dropUnusable justProcessed p s)
            | pathID # _ \<Rightarrow>
                (let s = s\<lparr>mCurrentAmountReservingPathIdentifier := pathID\<rparr>
                 in bindS (currentAmountReservationPathStats s, s) (\<lambda>current s.
                    bindS (nodeAt (pathNodes current) 0, s) (\<lambda>_ s.
                      returning () (dropUnusable justProcessed p s))))))"

section \<open>Reservations on a path\<close>

text \<open>Only the first reservation on the path is dropped; \<^verbatim>\<open>find\<close> of a node without reservations is dereferenced.\<close>

definition dropFirstOnPath :: "ContractorID \<Rightarrow> PathID \<Rightarrow> PaymentState \<Rightarrow> unit result \<times> PaymentState" where
  "dropFirstOnPath c pathID = (\<lambda>(p, m).
     case map_of (txReservations p) c of
       None \<Rightarrow> throwing UndefinedBehaviour (p, m)
     | Some es \<Rightarrow>
         (case (case find (\<lambda>it. fst it = pathID) es of
                  None \<Rightarrow> returning () m
                | Some it \<Rightarrow> dropAmountReservation c (snd it) m) of
            (Inl e, m') \<Rightarrow> throwing e (p, m')
          | (Inr _, m') \<Rightarrow>
              (let kept = removeFirst (\<lambda>it. fst it = pathID) es
               in returning ()
                    (p\<lparr>txReservations := (if kept = [] then AList.delete c (txReservations p)
                                         else ordUpdate c kept (txReservations p))\<rparr>, m'))))"

fun sendDropNotices :: "bool \<Rightarrow> Address \<Rightarrow> PathID \<Rightarrow> Address list \<Rightarrow> CoordinatorState \<Rightarrow> CoordinatorState" where
  "sendDropNotices sendToLast lastNode pathID [] s = s"
| "sendDropNotices sendToLast lastNode pathID (a # rest) s =
     (if \<not> sendToLast \<and> sameAddress a lastNode then s
      else
        (let s = say (SendFinalPathConfiguration a pathID 0) s
         in if sendToLast \<and> sameAddress a lastNode then s
            else sendDropNotices sendToLast lastNode pathID rest s))"

definition dropReservationsOnPath ::
  "CoordinatorEnv \<Rightarrow> bool \<Rightarrow> CoordinatorState \<Rightarrow> unit result \<times> CoordinatorState" where
  "dropReservationsOnPath env sendToLastProcessedNode s =
     (let pathID = currentPathID s
      in bindS (onPathStats pathID (\<lambda>p. Inr (setUnusable p)) s) (\<lambda>_ s.
         bindS (currentAmountReservationPathStats s, s) (\<lambda>p s.
         bindS (nodeAt (pathNodes p) 0, s) (\<lambda>firstNode s.
         bindS (onHeld (dropFirstOnPath (contractorIDByAddress (coordinatorContractors env) firstNode) pathID) s) (\<lambda>_ s.
           if length (pathNodes p) = 1 then returning () s
           else
             bindS (currentIntermediateNodeAndPos p, s) (\<lambda>(lastNode, _) s.
               returning () (sendDropNotices sendToLastProcessedNode lastNode pathID (pathNodes p) s)))))))"

text \<open>\<^verbatim>\<open>mReservations[...]\<close> inserts an empty list for a node without reservations.\<close>

definition shortageReservationsOnPath_coordinator ::
  "ContractorID \<Rightarrow> PathID \<Rightarrow> TrustLineAmount \<Rightarrow> PaymentState \<Rightarrow> unit result \<times> PaymentState" where
  "shortageReservationsOnPath_coordinator neighborID pathID amount = (\<lambda>(p, m).
     let p = (if map_of (txReservations p) neighborID = None
              then p\<lparr>txReservations := ordUpdate neighborID [] (txReservations p)\<rparr> else p)
     in case find (\<lambda>it. fst it = pathID) (entries p neighborID) of
          None \<Rightarrow> returning () (p, m)
        | Some it \<Rightarrow> bindS (shortageReservation neighborID (snd it) amount pathID (p, m)) (\<lambda>_. returning ()))"

text \<open>A smaller amount than was asked for shortens the path and the own reservation.\<close>

definition shortenPath :: "ContractorID \<Rightarrow> TrustLineAmount \<Rightarrow> CoordinatorState \<Rightarrow> unit result \<times> CoordinatorState" where
  "shortenPath neighborID amountReserved s =
     bindS (currentAmountReservationPathStats s, s) (\<lambda>p s.
       if amountReserved = mMaxPathFlow p then returning () s
       else
         bindS (onPathStats (currentPathID s) (shortageMaxFlow amountReserved) s) (\<lambda>_ s.
         bindS (currentAmountReservationPathStats s, s) (\<lambda>p s.
           onHeld (shortageReservationsOnPath_coordinator neighborID (currentPathID s) (mMaxPathFlow p)) s)))"

section \<open>Final amounts of a path\<close>

definition sendFinalPathConfiguration :: "PathStats \<Rightarrow> CoordinatorState \<Rightarrow> unit result \<times> CoordinatorState" where
  "sendFinalPathConfiguration p s =
     bindS (mainAddress (mContractor s), s) (\<lambda>receiver s.
       returning ()
         (fold (\<lambda>a. say (SendFinalPathConfiguration a (currentPathID s) (mMaxPathFlow p)))
            (filter (\<lambda>a. \<not> sameAddress a receiver) (pathNodes p)) s))"

fun includeParticipants :: "Address list list \<Rightarrow> CoordinatorState \<Rightarrow> unit result \<times> CoordinatorState" where
  "includeParticipants [] s = returning () s"
| "includeParticipants (addresses # rest) s =
     (if list_ex (\<lambda>(i, known). equalContractors addresses known) (members s) then includeParticipants rest s
      else bindS (addMember addresses s) (\<lambda>_. includeParticipants rest))"

definition appendAmount :: "string \<Rightarrow> PathID \<times> TrustLineAmount \<Rightarrow> CoordinatorState \<Rightarrow> CoordinatorState" where
  "appendAmount nodeKey pathIDAndAmount s =
     s\<lparr>mNodesFinalAmountsConfiguration := AList.update nodeKey
         ((case map_of (mNodesFinalAmountsConfiguration s) nodeKey of None \<Rightarrow> [] | Some amounts \<Rightarrow> amounts)
            @ [pathIDAndAmount])
         (mNodesFinalAmountsConfiguration s)\<rparr>"

fun appendAmounts ::
  "Address list list \<Rightarrow> PathID \<times> TrustLineAmount \<Rightarrow> CoordinatorState \<Rightarrow> unit result \<times> CoordinatorState" where
  "appendAmounts [] pathIDAndAmount s = returning () s"
| "appendAmounts (addresses # rest) pathIDAndAmount s =
     bindS (mainAddress addresses, s) (\<lambda>a s.
       appendAmounts rest pathIDAndAmount (appendAmount (fullAddress a) pathIDAndAmount s))"

definition addFinalConfigurationOnPath :: "PathStats \<Rightarrow> CoordinatorState \<Rightarrow> unit result \<times> CoordinatorState" where
  "addFinalConfigurationOnPath p s =
     (let pathIDAndAmount = (currentPathID s, mMaxPathFlow p)
      in bindS (includeParticipants (mCurrentPathParticipants s) s) (\<lambda>_ s.
         bindS (appendAmounts (mCurrentPathParticipants s) pathIDAndAmount s) (\<lambda>_ s.
           appendAmounts [mContractor s] pathIDAndAmount s)))"

definition requestBlockNumber :: "CoordinatorState \<Rightarrow> CoordinatorResult result \<times> CoordinatorState" where
  "requestBlockNumber s =
     returning (WaitsForResource ObservingBlockNumberKind (maxNetworkDelay 1))
       (say RequestBlockNumber (toStage Common_ObservingBlockNumberProcessing s))"

text \<open>A path is reserved to its end: too much is an error, the exact amount goes on to the final amounts.\<close>

definition pathReserved ::
  "(PathStats \<Rightarrow> CoordinatorState \<Rightarrow> unit result \<times> CoordinatorState) \<Rightarrow>
   (CoordinatorState \<Rightarrow> CoordinatorResult result \<times> CoordinatorState) \<Rightarrow> CoordinatorState \<Rightarrow>
   CoordinatorResult result \<times> CoordinatorState" where
  "pathReserved announce goOn s =
     bindS (totalReservedAmount Outgoing (payment (common s)), s) (\<lambda>kTotalAmount s.
       if kTotalAmount > mCommandAmount s then rejectCoordinator s
       else
         bindS (currentAmountReservationPathStats s, s) (\<lambda>p s.
         bindS (announce p s) (\<lambda>_ s.
         bindS (addFinalConfigurationOnPath p s) (\<lambda>_ s.
           if kTotalAmount = mCommandAmount s then requestBlockNumber s else goOn s))))"

section \<open>Asking the nodes of a path\<close>

definition remainingAmount :: "CoordinatorState \<Rightarrow> TrustLineAmount result" where
  "remainingAmount s =
     bindR (totalReservedAmount Outgoing (payment (common s))) (\<lambda>reservedAmount.
       checked_sub (mCommandAmount s) reservedAmount)"

text \<open>Switching to another path after the current one was marked.\<close>

definition giveUpPath ::
  "(CoordinatorState \<Rightarrow> CoordinatorResult result \<times> CoordinatorState) \<Rightarrow> CoordinatorState \<Rightarrow>
   CoordinatorResult result \<times> CoordinatorState" where
  "giveUpPath goNext s =
     bindS (onPathStats (currentPathID s) (\<lambda>p. Inr (setUnusable p)) s) (\<lambda>_. goNext)"

definition tryReserveAmountDirectlyOnReceiver ::
  "(CoordinatorState \<Rightarrow> CoordinatorResult result \<times> CoordinatorState) \<Rightarrow> CoordinatorEnv \<Rightarrow> CoordinatorState \<Rightarrow>
   CoordinatorResult result \<times> CoordinatorState" where
  "tryReserveAmountDirectlyOnReceiver goNext env s =
     (if mDirectPathIsAlreadyProcessed s then giveUpPath goNext s
      else
        bindS (mainAddress (mContractor s), s\<lparr>mDirectPathIsAlreadyProcessed := True\<rparr>) (\<lambda>receiver s.
          let receiverID = contractorIDByAddress (coordinatorContractors env) receiver;
              m = linesManager (common s)
          in if receiverID = kNotFoundContractorID then giveUpPath goNext s
             else bindS (trustLineIsActive m receiverID, s) (\<lambda>active s.
               if \<not> active then giveUpPath goNext s
               else bindS (trustLineOwnKeysPresent m receiverID, s) (\<lambda>keysPresent s.
               if \<not> keysPresent then giveUpPath goNext (s\<lparr>mNeighborsKeysProblem := True\<rparr>)
               else bindS (outgoingTrustAmountConsideringReservations m receiverID, s) (\<lambda>kAvailableOutgoingAmount s.
               if kAvailableOutgoingAmount = 0 then giveUpPath goNext s
               else bindS (remainingAmount s, s) (\<lambda>kRemainingAmountForProcessing s.
                 let kReservationAmount = min kRemainingAmountForProcessing kAvailableOutgoingAmount
                 in bindS (onHeld (reserveOutgoingAmount_tx receiverID kReservationAmount (currentPathID s)) s) (\<lambda>granted s.
                 if \<not> granted then giveUpPath goNext s
                 else bindS (onPathStats (currentPathID s) (shortageMaxFlow kReservationAmount) s) (\<lambda>_ s.
                   returning (WaitsForMessages [Kind_IntermediateNodeReservationResponse] (maxNetworkDelay 2))
                     (toStage Coordinator_ShortPathAmountReservationResponseProcessing
                        (say (SendNeighborReservationRequest receiverID [(currentPathID s, kReservationAmount)]) s))))))))))"

text \<open>The exception that gives up the path and unwinds the calls.\<close>

definition breakCallChain :: "CoordinatorState \<Rightarrow> CoordinatorResult result \<times> CoordinatorState" where
  "breakCallChain s =
     bindS (onPathStats (currentPathID s) (\<lambda>p. Inr (setUnusable p)) s) (\<lambda>_. throwing CallChainBreakException)"

text \<open>The amount on the current path, followed by what was fixed for the node on earlier paths.\<close>

definition withFinalAmounts :: "Address \<Rightarrow> TrustLineAmount \<Rightarrow> CoordinatorState \<Rightarrow> PathAmounts" where
  "withFinalAmounts node amount s =
     (currentPathID s, amount) #
     (case map_of (mNodesFinalAmountsConfiguration s) (fullAddress node) of None \<Rightarrow> [] | Some amounts \<Rightarrow> amounts)"

definition askNeighborToReserveAmount ::
  "CoordinatorEnv \<Rightarrow> Address \<Rightarrow> CoordinatorState \<Rightarrow> CoordinatorResult result \<times> CoordinatorState" where
  "askNeighborToReserveAmount env neighbor s =
     (let neighborID = contractorIDByAddress (coordinatorContractors env) neighbor;
          m = linesManager (common s)
      in if neighborID = kNotFoundContractorID then throwing RuntimeError s
         else if \<not> trustLineIsPresent m neighborID then throwing RuntimeError s
         else bindS (trustLineOwnKeysPresent m neighborID, s) (\<lambda>keysPresent s.
         if \<not> keysPresent then breakCallChain (s\<lparr>mNeighborsKeysProblem := True\<rparr>)
         else bindS (trustLineIsActive m neighborID, s) (\<lambda>active s.
         if \<not> active then breakCallChain s
         else bindS (outgoingTrustAmountConsideringReservations m neighborID, s) (\<lambda>kAvailableOutgoingAmount s.
         bindS (remainingAmount s, s) (\<lambda>kRemainingAmountForProcessing s.
           let kReservationAmount = min kAvailableOutgoingAmount kRemainingAmountForProcessing
           in if kReservationAmount = 0
              then bindS (mainAddress (mSelf (coordinatorContractors env)), s) (\<lambda>self s.
                     breakCallChain (s\<lparr>mRejectedTrustLines := mRejectedTrustLines s @ [(self, neighbor)]\<rparr>))
              else bindS (onHeld (reserveOutgoingAmount_tx neighborID kReservationAmount (currentPathID s)) s) (\<lambda>granted s.
                if \<not> granted then breakCallChain s
                else bindS (onPathStats (currentPathID s) (shortageMaxFlow kReservationAmount) s) (\<lambda>_ s.
                bindS (onPathStats (currentPathID s) (setNodeState 0 NeighbourReservationRequestSent) s) (\<lambda>_ s.
                  returning (WaitsForMessages
                      [Kind_IntermediateNodeReservationResponse, Kind_TTLProlongationRequest, Kind_NoEquivalent]
                      (maxNetworkDelay 2))
                    (say (SendNeighborReservationRequest neighborID (withFinalAmounts neighbor kReservationAmount s)) s)))))))))"

text \<open>The two further requests differ in who is asked: the first node of the path, or a later one.\<close>

definition askToReserveFurther ::
  "Address \<Rightarrow> nat \<Rightarrow> Address \<Rightarrow> CoordinatorState \<Rightarrow> CoordinatorResult result \<times> CoordinatorState" where
  "askToReserveFurther node position nextNode s =
     bindS (currentAmountReservationPathStats s, s) (\<lambda>p s.
     bindS (onPathStats (currentPathID s) (setNodeState position ReservationRequestSent)
              (say (SendCoordinatorReservationRequest node (withFinalAmounts nextNode (mMaxPathFlow p) s) nextNode) s)) (\<lambda>_ s.
       returning (WaitsForMessages [Kind_CoordinatorReservationResponse, Kind_TTLProlongationRequest] (maxNetworkDelay 4)) s))"

definition askNeighborToApproveFurtherNodeReservation ::
  "Address \<Rightarrow> CoordinatorState \<Rightarrow> CoordinatorResult result \<times> CoordinatorState" where
  "askNeighborToApproveFurtherNodeReservation neighbor s =
     bindS (currentAmountReservationPathStats s, s) (\<lambda>p s.
     bindS (nodeAt (pathNodes p) 1, s) (\<lambda>kNextAfterNeighborNode. askToReserveFurther neighbor 0 kNextAfterNeighborNode))"

definition askRemoteNodeToApproveReservation ::
  "Address \<Rightarrow> nat \<Rightarrow> Address \<Rightarrow> CoordinatorState \<Rightarrow> CoordinatorResult result \<times> CoordinatorState" where
  "askRemoteNodeToApproveReservation remoteNode remoteNodePosition nextNodeAfterRemote =
     askToReserveFurther remoteNode remoteNodePosition nextNodeAfterRemote"

definition requestNextNode ::
  "CoordinatorEnv \<Rightarrow> CoordinatorState \<Rightarrow> CoordinatorResult result \<times> CoordinatorState" where
  "requestNextNode env s =
     bindS (currentAmountReservationPathStats s, s) (\<lambda>p s.
     bindS (nextIntermediateNodeAndPos p, s) (\<lambda>(remoteAddress, position) s.
       if position = 0
       then (if isNeighborAmountReserved p then askNeighborToApproveFurtherNodeReservation remoteAddress s
             else askNeighborToReserveAmount env remoteAddress s)
       else bindS (nodeAt (pathNodes p) (position + 1), s) (\<lambda>nextAfterRemoteNode.
              askRemoteNodeToApproveReservation remoteAddress position nextAfterRemoteNode)))"

definition tryReserveNextIntermediateNodeAmount ::
  "CoordinatorEnv \<Rightarrow> CoordinatorState \<Rightarrow> CoordinatorResult result \<times> CoordinatorState" where
  "tryReserveNextIntermediateNodeAmount env s =
     (case requestNextNode env s of
        (Inl NotFoundError, s) \<Rightarrow>
          bindS (onBase (onPayment rollBack) s) (\<lambda>_ s.
          bindS (informAllNodesAboutTransactionFinish s) (\<lambda>_ s. returning (resultInsufficientFundsError s) s))
      | r \<Rightarrow> r)"

section \<open>Answers of the nodes of a path\<close>

definition continueReceiver :: "CoordinatorState \<Rightarrow> unit result \<times> CoordinatorState" where
  "continueReceiver s =
     bindS (mainAddress (mContractor s), s) (\<lambda>receiver s. returning () (say (SendTTLResponse receiver True) s))"

definition goOffline :: "Address \<Rightarrow> CoordinatorState \<Rightarrow> CoordinatorState" where
  "goOffline node s = s\<lparr>inaccessibleNodes := inaccessibleNodes s @ [node]\<rparr>"

definition rejectLine :: "Address \<Rightarrow> Address \<Rightarrow> CoordinatorState \<Rightarrow> CoordinatorState" where
  "rejectLine source target s = s\<lparr>mRejectedTrustLines := mRejectedTrustLines s @ [(source, target)]\<rparr>"

text \<open>No answer: the path is dropped and the node that was asked counts as offline.\<close>

definition noAnswer ::
  "(CoordinatorState \<Rightarrow> CoordinatorResult result \<times> CoordinatorState) \<Rightarrow> CoordinatorEnv \<Rightarrow> bool \<Rightarrow> CoordinatorState \<Rightarrow>
   CoordinatorResult result \<times> CoordinatorState" where
  "noAnswer goNext env sendToLastProcessedNode s =
     bindS (dropReservationsOnPath env sendToLastProcessedNode s) (\<lambda>_ s.
     bindS (continueReceiver s) (\<lambda>_ s.
     bindS (currentAmountReservationPathStats s, s) (\<lambda>p s.
     bindS (currentIntermediateNodeAndPos p, s) (\<lambda>(node, _) s. goNext (goOffline node s)))))"

definition acceptedByNeighbor ::
  "(CoordinatorState \<Rightarrow> CoordinatorResult result \<times> CoordinatorState) \<Rightarrow> ContractorID \<Rightarrow> TrustLineAmount \<Rightarrow>
   CoordinatorState \<Rightarrow> CoordinatorResult result \<times> CoordinatorState" where
  "acceptedByNeighbor again neighborID amountReserved s =
     bindS (onPathStats (currentPathID s) (setNodeState 0 NeighbourReservationApproved) s) (\<lambda>_ s.
     bindS (shortenPath neighborID amountReserved s) (\<lambda>_. again))"

definition rejectedByNeighbor ::
  "(CoordinatorState \<Rightarrow> CoordinatorResult result \<times> CoordinatorState) \<Rightarrow> CoordinatorEnv \<Rightarrow> Address \<Rightarrow> bool \<Rightarrow>
   CoordinatorState \<Rightarrow> CoordinatorResult result \<times> CoordinatorState" where
  "rejectedByNeighbor goNext env neighbor keysAbsent s =
     bindS (dropReservationsOnPath env False s) (\<lambda>_ s.
     bindS (mainAddress (mSelf (coordinatorContractors env)), s) (\<lambda>self s.
       goNext ((rejectLine self neighbor s)\<lparr>mNeighborsKeysProblem := mNeighborsKeysProblem s \<or> keysAbsent\<rparr>)))"

definition neighborAnswered ::
  "(CoordinatorState \<Rightarrow> CoordinatorResult result \<times> CoordinatorState) \<Rightarrow>
   (CoordinatorState \<Rightarrow> CoordinatorResult result \<times> CoordinatorState) \<Rightarrow> CoordinatorEnv \<Rightarrow> Address list \<Rightarrow> PathID \<Rightarrow>
   OperationState \<Rightarrow> TrustLineAmount \<Rightarrow> CoordinatorState \<Rightarrow> CoordinatorResult result \<times> CoordinatorState" where
  "neighborAnswered again goNext env senderAddresses pathID state amountReserved s =
     bindS (firstSender senderAddresses, s) (\<lambda>neighbor s.
       let neighborID = contractorIDByAddress (coordinatorContractors env) neighbor
       in if neighborID = kNotFoundContractorID then returning ContinuesPrevious s
          else if pathID \<noteq> currentPathID s then returning ContinuesPrevious s
          else if state = ClosedState then rejectCoordinator s
          else if state = Rejected then rejectedByNeighbor goNext env neighbor False s
          else if state = RejectedDueContractorKeysAbsence then rejectedByNeighbor goNext env neighbor True s
          else if state \<noteq> Accepted then rejectCoordinator s
          else acceptedByNeighbor again neighborID amountReserved s)"

text \<open>The message that the neighbour has no such equivalent stays in the inbox.\<close>

definition processNeighborAmountReservationResponse ::
  "(CoordinatorState \<Rightarrow> CoordinatorResult result \<times> CoordinatorState) \<Rightarrow>
   (CoordinatorState \<Rightarrow> CoordinatorResult result \<times> CoordinatorState) \<Rightarrow> CoordinatorEnv \<Rightarrow> CoordinatorState \<Rightarrow>
   CoordinatorResult result \<times> CoordinatorState" where
  "processNeighborAmountReservationResponse again goNext env s =
     (case inbox s of
        [NoEquivalentAnswer] \<Rightarrow> bindS (dropReservationsOnPath env False s) (\<lambda>_. goNext)
      | [NeighborReservationResponse senders pathID state amountReserved] \<Rightarrow>
          neighborAnswered again goNext env senders pathID state amountReserved (popInbox s)
      | _ \<Rightarrow> noAnswer goNext env False s)"

text \<open>The node after the current one, and what happens when it cannot be reached.\<close>

definition currentLine :: "CoordinatorState \<Rightarrow> (Address \<times> nat \<times> Address) result" where
  "currentLine s =
     bindR (currentAmountReservationPathStats s) (\<lambda>p.
     bindR (currentIntermediateNodeAndPos p) (\<lambda>(node, position).
     bindR (nodeAt (pathNodes p) (position + 1)) (\<lambda>nextNode. Inr (node, position, nextNode))))"

definition nextNodeInaccessible ::
  "(CoordinatorState \<Rightarrow> CoordinatorResult result \<times> CoordinatorState) \<Rightarrow> CoordinatorEnv \<Rightarrow> CoordinatorState \<Rightarrow>
   CoordinatorResult result \<times> CoordinatorState" where
  "nextNodeInaccessible goNext env s =
     bindS (dropReservationsOnPath env False s) (\<lambda>_ s.
     bindS (currentLine s, s) (\<lambda>(_, _, nextNode) s.
     bindS (mainAddress (mContractor s), s) (\<lambda>receiver s.
       if sameAddress nextNode receiver
       then
         (let s = s\<lparr>mCountReceiverInaccessible := mCountReceiverInaccessible s + 1\<rparr>
          in if mCountReceiverInaccessible s \<ge> kMaxReceiverInaccessible
             then rejectWith (\<lambda>_. Answered AnswerRemoteNodeIsInaccessible) s
             else bindS (continueReceiver s) (\<lambda>_. goNext))
       else bindS (continueReceiver (goOffline nextNode s)) (\<lambda>_. goNext))))"

definition furtherRejectedByNeighbor ::
  "(CoordinatorState \<Rightarrow> CoordinatorResult result \<times> CoordinatorState) \<Rightarrow> CoordinatorEnv \<Rightarrow> CoordinatorState \<Rightarrow>
   CoordinatorResult result \<times> CoordinatorState" where
  "furtherRejectedByNeighbor goNext env s =
     bindS (dropReservationsOnPath env False s) (\<lambda>_ s.
     bindS (currentLine s, s) (\<lambda>(node, _, nextNode) s.
     bindS (continueReceiver (rejectLine node nextNode s)) (\<lambda>_. goNext)))"

definition keysAbsentAtNeighbor ::
  "(CoordinatorState \<Rightarrow> CoordinatorResult result \<times> CoordinatorState) \<Rightarrow> CoordinatorEnv \<Rightarrow> Address \<Rightarrow> CoordinatorState \<Rightarrow>
   CoordinatorResult result \<times> CoordinatorState" where
  "keysAbsentAtNeighbor goNext env neighbor s =
     bindS (dropReservationsOnPath env False s) (\<lambda>_ s.
     bindS (mainAddress (mSelf (coordinatorContractors env)), s) (\<lambda>self s.
     bindS (continueReceiver ((rejectLine self neighbor s)\<lparr>mParticipantsKeysProblem := True\<rparr>)) (\<lambda>_. goNext)))"

text \<open>A further reservation is confirmed: the path ends here, or the next node is asked.\<close>

definition confirmedFurther ::
  "(CoordinatorState \<Rightarrow> CoordinatorResult result \<times> CoordinatorState) \<Rightarrow>
   (CoordinatorState \<Rightarrow> CoordinatorResult result \<times> CoordinatorState) \<Rightarrow> CoordinatorState \<Rightarrow>
   CoordinatorResult result \<times> CoordinatorState" where
  "confirmedFurther ask goNext s =
     bindS (currentAmountReservationPathStats s, s) (\<lambda>p s.
       if isLastIntermediateNodeProcessed p then pathReserved sendFinalPathConfiguration goNext s else ask s)"

definition furtherAnswered ::
  "(CoordinatorState \<Rightarrow> CoordinatorResult result \<times> CoordinatorState) \<Rightarrow>
   (CoordinatorState \<Rightarrow> CoordinatorResult result \<times> CoordinatorState) \<Rightarrow> CoordinatorEnv \<Rightarrow> Address list \<Rightarrow> PathID \<Rightarrow>
   OperationState \<Rightarrow> TrustLineAmount \<Rightarrow> CoordinatorState \<Rightarrow> CoordinatorResult result \<times> CoordinatorState" where
  "furtherAnswered again goNext env senderAddresses pathID state amountReserved s =
     bindS (firstSender senderAddresses, s) (\<lambda>neighbor s.
       let neighborID = contractorIDByAddress (coordinatorContractors env) neighbor
       in if neighborID = kNotFoundContractorID then returning ContinuesPrevious s
          else if pathID \<noteq> currentPathID s then returning ContinuesPrevious s
          else if state = ClosedState then rejectCoordinator s
          else if state = NextNodeInaccessible then nextNodeInaccessible goNext env s
          else if amountReserved = 0 \<or> state = Rejected then furtherRejectedByNeighbor goNext env s
          else if state = RejectedDueOwnKeysAbsence \<or> state = RejectedDueContractorKeysAbsence
          then keysAbsentAtNeighbor goNext env neighbor s
          else if state \<noteq> Accepted then rejectCoordinator s
          else
            bindS (onPathStats (currentPathID s) (setNodeState 0 ReservationApproved) s) (\<lambda>_ s.
            bindS (shortenPath neighborID amountReserved
                     (s\<lparr>mCurrentPathParticipants := mCurrentPathParticipants s @ [senderAddresses]\<rparr>)) (\<lambda>_.
              confirmedFurther again goNext)))"

definition processNeighborFurtherReservationResponse ::
  "(CoordinatorState \<Rightarrow> CoordinatorResult result \<times> CoordinatorState) \<Rightarrow>
   (CoordinatorState \<Rightarrow> CoordinatorResult result \<times> CoordinatorState) \<Rightarrow> CoordinatorEnv \<Rightarrow> CoordinatorState \<Rightarrow>
   CoordinatorResult result \<times> CoordinatorState" where
  "processNeighborFurtherReservationResponse again goNext env s =
     (case inbox s of
        [CoordinatorReservationResponse senders pathID state amountReserved] \<Rightarrow>
          furtherAnswered again goNext env senders pathID state amountReserved (popInbox s)
      | _ \<Rightarrow> noAnswer goNext env True s)"

definition remoteRejected ::
  "(CoordinatorState \<Rightarrow> CoordinatorResult result \<times> CoordinatorState) \<Rightarrow> CoordinatorEnv \<Rightarrow> Address \<Rightarrow> nat \<Rightarrow> Address \<Rightarrow>
   CoordinatorState \<Rightarrow> CoordinatorResult result \<times> CoordinatorState" where
  "remoteRejected goNext env node position nextNode s =
     bindS (dropReservationsOnPath env False s) (\<lambda>_ s.
     bindS (continueReceiver (rejectLine node nextNode s)) (\<lambda>_ s.
     bindS (onPathStats (currentPathID s) (\<lambda>p. Inr (setUnusable p)) s) (\<lambda>_ s.
     bindS (onPathStats (currentPathID s) (setNodeState position ReservationRejected) s) (\<lambda>_. goNext))))"

definition keysAbsentAtRemote ::
  "(CoordinatorState \<Rightarrow> CoordinatorResult result \<times> CoordinatorState) \<Rightarrow> CoordinatorEnv \<Rightarrow> Address \<Rightarrow> Address \<Rightarrow>
   CoordinatorState \<Rightarrow> CoordinatorResult result \<times> CoordinatorState" where
  "keysAbsentAtRemote goNext env node nextNode s =
     bindS (dropReservationsOnPath env False s) (\<lambda>_ s.
     bindS (continueReceiver ((rejectLine node nextNode s)\<lparr>mParticipantsKeysProblem := True\<rparr>)) (\<lambda>_. goNext))"

text \<open>What a remote node reserved shortens the reservation with the first node of the path.\<close>

definition acceptedByRemote ::
  "(CoordinatorState \<Rightarrow> CoordinatorResult result \<times> CoordinatorState) \<Rightarrow> CoordinatorEnv \<Rightarrow> Address list \<Rightarrow> nat \<Rightarrow>
   TrustLineAmount \<Rightarrow> CoordinatorState \<Rightarrow> CoordinatorResult result \<times> CoordinatorState" where
  "acceptedByRemote goNext env senderAddresses position reservedAmount s =
     bindS (onPathStats (currentPathID s) (setNodeState position ReservationApproved)
              (s\<lparr>mCurrentPathParticipants := mCurrentPathParticipants s @ [senderAddresses]\<rparr>)) (\<lambda>_ s.
     bindS (currentAmountReservationPathStats s, s) (\<lambda>p s.
     bindS (nodeAt (pathNodes p) 0, s) (\<lambda>firstNode s.
     bindS (shortenPath (contractorIDByAddress (coordinatorContractors env) firstNode) reservedAmount s) (\<lambda>_.
       confirmedFurther (tryReserveNextIntermediateNodeAmount env) goNext))))"

definition remoteAnswered ::
  "(CoordinatorState \<Rightarrow> CoordinatorResult result \<times> CoordinatorState) \<Rightarrow> CoordinatorEnv \<Rightarrow> Address list \<Rightarrow> PathID \<Rightarrow>
   OperationState \<Rightarrow> TrustLineAmount \<Rightarrow> CoordinatorState \<Rightarrow> CoordinatorResult result \<times> CoordinatorState" where
  "remoteAnswered goNext env senderAddresses pathID state amountReserved s =
     bindS (firstSender senderAddresses, s) (\<lambda>_ s.
       if pathID \<noteq> currentPathID s then returning ContinuesPrevious s
       else if state = ClosedState then rejectCoordinator s
       else if state = NextNodeInaccessible then nextNodeInaccessible goNext env s
       else bindS (currentLine s, s) (\<lambda>(node, position, nextNode) s.
         if amountReserved = 0 \<or> state = Rejected then remoteRejected goNext env node position nextNode s
         else if state = RejectedDueOwnKeysAbsence \<or> state = RejectedDueContractorKeysAbsence
         then keysAbsentAtRemote goNext env node nextNode s
         else if state \<noteq> Accepted then rejectCoordinator s
         else acceptedByRemote goNext env senderAddresses position amountReserved s))"

definition processRemoteNodeResponse ::
  "(CoordinatorState \<Rightarrow> CoordinatorResult result \<times> CoordinatorState) \<Rightarrow> CoordinatorEnv \<Rightarrow> CoordinatorState \<Rightarrow>
   CoordinatorResult result \<times> CoordinatorState" where
  "processRemoteNodeResponse goNext env s =
     (case inbox s of
        [CoordinatorReservationResponse senders pathID state amountReserved] \<Rightarrow>
          remoteAnswered goNext env senders pathID state amountReserved (popInbox s)
      | _ \<Rightarrow> noAnswer goNext env True s)"

section \<open>The direct path\<close>

definition directRejected ::
  "(CoordinatorState \<Rightarrow> CoordinatorResult result \<times> CoordinatorState) \<Rightarrow> CoordinatorEnv \<Rightarrow> Address list \<Rightarrow> bool \<Rightarrow>
   CoordinatorState \<Rightarrow> CoordinatorResult result \<times> CoordinatorState" where
  "directRejected goNext env senderAddresses keysAbsent s =
     bindS (dropReservationsOnPath env False s) (\<lambda>_ s.
     bindS (mainAddress (mSelf (coordinatorContractors env)), s) (\<lambda>self s.
     bindS (firstSender senderAddresses, s) (\<lambda>receiver s.
       goNext (toStage Coordinator_AmountReservation
         ((rejectLine self receiver s)\<lparr>mNeighborsKeysProblem := mNeighborsKeysProblem s \<or> keysAbsent\<rparr>)))))"

definition directAnswered ::
  "(CoordinatorState \<Rightarrow> CoordinatorResult result \<times> CoordinatorState) \<Rightarrow> CoordinatorEnv \<Rightarrow> Address list \<Rightarrow>
   OperationState \<Rightarrow> TrustLineAmount \<Rightarrow> CoordinatorState \<Rightarrow> CoordinatorResult result \<times> CoordinatorState" where
  "directAnswered goNext env senderAddresses state amountReserved s =
     bindS (firstSender senderAddresses, s) (\<lambda>sender s.
       let receiverID = contractorIDByAddress (coordinatorContractors env) sender
       in if receiverID = kNotFoundContractorID then returning ContinuesPrevious s
          else if state = RejectedDueContractorKeysAbsence then directRejected goNext env senderAddresses True s
          else if state \<noteq> Accepted then directRejected goNext env senderAddresses False s
          else bindS (shortenPath receiverID amountReserved s) (\<lambda>_.
            pathReserved (\<lambda>_. returning ()) (\<lambda>s. goNext (toStage Coordinator_AmountReservation s))))"

definition runDirectAmountReservationResponseProcessingStage ::
  "(CoordinatorState \<Rightarrow> CoordinatorResult result \<times> CoordinatorState) \<Rightarrow> CoordinatorEnv \<Rightarrow> CoordinatorState \<Rightarrow>
   CoordinatorResult result \<times> CoordinatorState" where
  "runDirectAmountReservationResponseProcessingStage goNext env s =
     (case inbox s of
        [NeighborReservationResponse senders pathID state amountReserved] \<Rightarrow>
          directAnswered goNext env senders state amountReserved (popInbox s)
      | _ \<Rightarrow>
          (let s = s\<lparr>mCountReceiverInaccessible := mCountReceiverInaccessible s + 1\<rparr>
           in if mCountReceiverInaccessible s \<ge> kMaxReceiverInaccessible
              then rejectWith (\<lambda>_. Answered AnswerRemoteNodeIsInaccessible) s
              else bindS (dropReservationsOnPath env False s) (\<lambda>_ s.
                goNext (toStage Coordinator_AmountReservation s))))"

section \<open>The reservation stage and the next path\<close>

definition runTTLTransactionResponse ::
  "Address list \<Rightarrow> CoordinatorState \<Rightarrow> CoordinatorResult result \<times> CoordinatorState" where
  "runTTLTransactionResponse senderAddresses s =
     bindS (firstSender senderAddresses, s) (\<lambda>sender s.
       if members s = []
       then bindS (mainAddress (mContractor s), s) (\<lambda>receiver s.
              returning ContinuesPrevious
                (say (SendTTLResponse sender
                   (sameAddress sender receiver \<or>
                    map_of (mNodesFinalAmountsConfiguration s) (fullAddress sender) \<noteq> None)) s))
       else returning ContinuesPrevious
              (say (SendTTLResponse sender (map_of (nodesIds s) (fullAddress sender) \<noteq> None)) s))"

definition processCurrentPath ::
  "(CoordinatorState \<Rightarrow> CoordinatorResult result \<times> CoordinatorState) \<Rightarrow>
   (CoordinatorState \<Rightarrow> CoordinatorResult result \<times> CoordinatorState) \<Rightarrow> CoordinatorEnv \<Rightarrow> CoordinatorState \<Rightarrow>
   CoordinatorResult result \<times> CoordinatorState" where
  "processCurrentPath again goNext env s =
     (case inbox s of
        [TTLProlongationRequest senders] \<Rightarrow> runTTLTransactionResponse senders (popInbox s)
      | _ \<Rightarrow>
          bindS (currentAmountReservationPathStats s, s) (\<lambda>kPathStats s.
            if \<not> containsIntermediateNodes kPathStats then tryReserveAmountDirectlyOnReceiver goNext env s
            else if isReadyToSendNextReservationRequest kPathStats then tryReserveNextIntermediateNodeAmount env s
            else if isWaitingForNeighborReservationResponse kPathStats
            then processNeighborAmountReservationResponse again goNext env s
            else if isWaitingForNeighborReservationPropagationResponse kPathStats
            then processNeighborFurtherReservationResponse again goNext env s
            else if isWaitingForReservationResponse kPathStats then processRemoteNodeResponse goNext env s
            else throwing RuntimeError s))"

text \<open>No path is left: new ones are built, three times at most, when there is something new to avoid.\<close>

definition buildNewPaths ::
  "(CoordinatorState \<Rightarrow> CoordinatorResult result \<times> CoordinatorState) \<Rightarrow> CoordinatorEnv \<Rightarrow> CoordinatorState \<Rightarrow>
   CoordinatorResult result \<times> CoordinatorState" where
  "buildNewPaths again env s =
     (let s = s\<lparr>mRebuildingAttemptsCount := mRebuildingAttemptsCount s + 1\<rparr>
      in if mRebuildingAttemptsCount s > kMaxRebuildingAttemptsCount then rejectWith resultInsufficientFundsError s
         else if length (inaccessibleNodes s) \<noteq> mPreviousInaccessibleNodesCount s \<or>
                 length (mRejectedTrustLines s) \<noteq> mPreviousRejectedTrustLinesCount s
         then
           (let countPathsBeforeBuilding = length (mPathsStats s)
            in bindS (buildPathsAgain env s) (\<lambda>_ s.
               if length (mPathsStats s) > countPathsBeforeBuilding
               then bindS (initAmountsReservationOnNextPath
                      (s\<lparr>mPreviousInaccessibleNodesCount := length (inaccessibleNodes s),
                         mPreviousRejectedTrustLinesCount := length (mRejectedTrustLines s),
                         mDirectPathIsAlreadyProcessed := False\<rparr>)) (\<lambda>_. again)
               else rejectWith resultInsufficientFundsError s))
         else rejectWith resultInsufficientFundsError s)"

fun runAmountReservationStage_coordinator ::
      "nat \<Rightarrow> CoordinatorEnv \<Rightarrow> CoordinatorState \<Rightarrow> CoordinatorResult result \<times> CoordinatorState"
  and tryProcessNextPath ::
      "nat \<Rightarrow> CoordinatorEnv \<Rightarrow> CoordinatorState \<Rightarrow> CoordinatorResult result \<times> CoordinatorState" where
  "runAmountReservationStage_coordinator 0 env s = returning OutOfFuel s"
| "runAmountReservationStage_coordinator (Suc n) env s =
     (if mReservationsStage s = 0
      then bindS (initAmountsReservationOnNextPath s) (\<lambda>_ s.
             processCurrentPath (runAmountReservationStage_coordinator n env) (tryProcessNextPath n env) env
               (s\<lparr>mReservationsStage := mReservationsStage s + 1\<rparr>))
      else if mReservationsStage s = 1
      then processCurrentPath (runAmountReservationStage_coordinator n env) (tryProcessNextPath n env) env s
      else if mReservationsStage s = 2 then tryProcessNextPath n env (s\<lparr>mReservationsStage := 1\<rparr>)
      else throwing ValueError s)"
| "tryProcessNextPath 0 env s = returning OutOfFuel s"
| "tryProcessNextPath (Suc n) env s =
     (case bindS (switchToNextPath (s\<lparr>mCurrentPathParticipants := []\<rparr>))
             (\<lambda>_. runAmountReservationStage_coordinator n env) of
        (Inl NotFoundError, s) \<Rightarrow> buildNewPaths (runAmountReservationStage_coordinator n env) env s
      | r \<Rightarrow> r)"

section \<open>The first stages\<close>

definition runPaymentInitializationStage ::
  "CoordinatorEnv \<Rightarrow> CoordinatorState \<Rightarrow> CoordinatorResult result \<times> CoordinatorState" where
  "runPaymentInitializationStage env s =
     (if \<not> mIsPaymentTransactionsAllowedDueToObserving s then returning (Answered AnswerForbiddenRunDueObserving) s
      else if \<not> isRunPaymentTransactions env then returning (Answered AnswerForbiddenRun) s
      else bindS (mainAddress (mContractor s), s) (\<lambda>receiver s.
        if equalContractors (mContractor s) (mSelf (coordinatorContractors env))
        then returning (Answered AnswerProtocolError) s
        else bindS (totalOutgoingAmount (linesManager (common s)), s) (\<lambda>kTotalOutgoingPossibilities s.
          if kTotalOutgoingPossibilities < mCommandAmount s then returning (resultInsufficientFundsError s) s
          else returning (WaitsForResource PathsKind (maxNetworkDelay 10))
                 (toStage Coordinator_ReceiverResourceProcessing (say (RequestPaths receiver) s)))))"

definition runPathsResourceProcessingStage ::
  "CoordinatorEnv \<Rightarrow> CoordinatorState \<Rightarrow> CoordinatorResult result \<times> CoordinatorState" where
  "runPathsResourceProcessingStage env s =
     (case resources s of
        PathsResource paths # rest \<Rightarrow>
          bindS (addValidPaths env paths (s\<lparr>resources := rest\<rparr>)) (\<lambda>_ s.
            if mPathsStats s = [] then returning (Answered AnswerNoRoutes) s
            else bindS (mainAddress (mContractor s), s) (\<lambda>receiver s.
              returning (WaitsForMessages [Kind_ReceiverInitPaymentResponse, Kind_NoEquivalent] (maxNetworkDelay 4))
                (toStage Coordinator_ReceiverResponseProcessing
                   (say (SendReceiverInitRequest receiver (mCommandAmount s)) s))))
      | _ \<Rightarrow> returning (Answered AnswerNoRoutes) s)"

definition runReceiverResponseProcessingStage ::
  "(CoordinatorState \<Rightarrow> CoordinatorResult result \<times> CoordinatorState) \<Rightarrow> CoordinatorEnv \<Rightarrow> CoordinatorState \<Rightarrow>
   CoordinatorResult result \<times> CoordinatorState" where
  "runReceiverResponseProcessingStage again env s =
     (case inbox s of
        [NoEquivalentAnswer] \<Rightarrow> returning (Answered AnswerProtocolError) s
      | [ReceiverInitPaymentResponse accepts] \<Rightarrow>
          (let s = popInbox s
           in if \<not> accepts then returning (resultInsufficientFundsError s) s
              else bindS (addMember (mSelf (coordinatorContractors env))
                            (s\<lparr>mCurrentFreePaymentID := kCoordinatorPaymentNodeID\<rparr>)) (\<lambda>_ s.
                   bindS (addMember (mContractor s) s) (\<lambda>_ s. again (toStage Coordinator_AmountReservation s))))
      | _ \<Rightarrow> returning (Answered AnswerRemoteNodeIsInaccessible) s)"

section \<open>Final amounts\<close>

text \<open>\<^verbatim>\<open>mNodesFinalAmountsConfiguration[...]\<close> inserts an empty list for a node that has none.\<close>

definition finalAmountsOf :: "string \<Rightarrow> CoordinatorState \<Rightarrow> PathAmounts \<times> CoordinatorState" where
  "finalAmountsOf nodeKey s =
     (case map_of (mNodesFinalAmountsConfiguration s) nodeKey of
        Some amounts \<Rightarrow> (amounts, s)
      | None \<Rightarrow>
          ([], s\<lparr>mNodesFinalAmountsConfiguration := mNodesFinalAmountsConfiguration s @ [(nodeKey, [])]\<rparr>))"

definition signOutgoing ::
  "CoordinatorEnv \<Rightarrow> ContractorID \<Rightarrow> PathReservations \<Rightarrow> CoordinatorState \<Rightarrow> Receipt option result" where
  "signOutgoing env participantID es s =
     (let m = linesManager (common s)
      in bindR (trustLineID m participantID) (\<lambda>line.
         bindR (sumAll 0 es) (\<lambda>outgoingReservedAmount.
         bindR (idOnContractorSide (coordinatorContractors env) participantID) (\<lambda>source.
         bindR (getSerializedReceipt (common s) source participantID outgoingReservedAmount True) (\<lambda>receiptData.
         bindR (signReceipt (nodeEnv env) line receiptData) (\<lambda>receipt.
         bindR (auditNumber m participantID) (\<lambda>audit.
         bindR (saveOutgoingPaymentReceipt (nodeEnv env) line audit outgoingReservedAmount receipt) (\<lambda>saved.
           Inr (if saved then Some receipt else None)))))))))"

text \<open>\<open>False\<close>: a receipt could not be saved.\<close>

fun sendFinalAmountsTo ::
  "CoordinatorEnv \<Rightarrow> PublicKey \<Rightarrow> 64 word \<Rightarrow> (PaymentNodeID \<times> Address list) list \<Rightarrow> CoordinatorState \<Rightarrow>
   bool result \<times> CoordinatorState" where
  "sendFinalAmountsTo env key maxBlock [] s = returning True s"
| "sendFinalAmountsTo env key maxBlock ((i, addresses) # rest) s =
     (if i = kCoordinatorPaymentNodeID then sendFinalAmountsTo env key maxBlock rest s
      else
        bindS (mainAddress addresses, s) (\<lambda>main s.
          let participantID = contractorIDByAddress (coordinatorContractors env) main
          in case map_of (txReservations (payment (common s))) participantID of
               None \<Rightarrow>
                 (case finalAmountsOf (fullAddress main) s of
                    (amounts, s) \<Rightarrow>
                      sendFinalAmountsTo env key maxBlock rest
                        (say (SendFinalAmounts main amounts (members s) maxBlock None) s))
             | Some es \<Rightarrow>
                 bindS (signOutgoing env participantID es s, s) (\<lambda>signed s.
                   case signed of
                     None \<Rightarrow> returning False s
                   | Some receipt \<Rightarrow>
                       (case finalAmountsOf (fullAddress main) s of
                          (amounts, s) \<Rightarrow>
                            sendFinalAmountsTo env key maxBlock rest
                              (say (SendFinalAmounts main amounts (members s) maxBlock
                                 (Some (receipt, publicKeyHash (votes (nodeEnv env)) key))) s)))))"

definition setKeys :: "(PaymentNodeID \<times> PublicKey) list \<Rightarrow> CoordinatorState \<Rightarrow> CoordinatorState" where
  "setKeys participantsKeys s = s\<lparr>common := (common s)\<lparr>mParticipantsPublicKeys := participantsKeys\<rparr>\<rparr>"

definition announceFinalAmounts ::
  "CoordinatorEnv \<Rightarrow> 64 word \<Rightarrow> CoordinatorState \<Rightarrow> CoordinatorResult result \<times> CoordinatorState" where
  "announceFinalAmounts env maxBlock s =
     bindS (newPaymentKey (nodeEnv env), setKeys [] s) (\<lambda>key s.
     bindS (sendFinalAmountsTo env key maxBlock (members s)
              ((setKeys [(kCoordinatorPaymentNodeID, key)] s)\<lparr>ownPublicKey := Some key\<rparr>)) (\<lambda>stored s.
       if \<not> stored then rejectCoordinator s
       else returning
              (WaitsForMessages [Kind_FinalAmountsConfigurationResponse, Kind_TTLProlongationRequest] (maxNetworkDelay 6))
              (toStage Coordinator_FinalAmountsConfigurationConfirmation s)))"

text \<open>Without the block number the command is answered, and the reservations stay.\<close>

definition sendFinalAmountsConfigurationToAllParticipants ::
  "CoordinatorEnv \<Rightarrow> CoordinatorState \<Rightarrow> CoordinatorResult result \<times> CoordinatorState" where
  "sendFinalAmountsConfigurationToAllParticipants env s =
     (case resources s of
        ActualBlockNumber actualObservingBlockNumber # rest \<Rightarrow>
          (let maxBlock = actualObservingBlockNumber + kCountBlocksForClaiming;
               v = common s;
               s = s\<lparr>resources := rest, common := v\<lparr>payment := (payment v)\<lparr>mMaximalClaimingBlockNumber := maxBlock\<rparr>\<rparr>\<rparr>
           in bindS (mainAddress (mContractor s), s) (\<lambda>receiver s.
                if length (entries (payment (common s)) (contractorIDByAddress (coordinatorContractors env) receiver)) > 1
                then rejectCoordinator s
                else announceFinalAmounts env maxBlock s))
      | _ \<Rightarrow> returning (Answered AnswerUnexpectedError) s)"

text \<open>The public keys go to the participants chosen.\<close>

fun sendKeysTo ::
  "(PaymentNodeID \<Rightarrow> bool) \<Rightarrow> (PaymentNodeID \<times> Address list) list \<Rightarrow> CoordinatorState \<Rightarrow>
   unit result \<times> CoordinatorState" where
  "sendKeysTo chosen [] s = returning () s"
| "sendKeysTo chosen ((i, addresses) # rest) s =
     (if i = kCoordinatorPaymentNodeID \<or> \<not> chosen i then sendKeysTo chosen rest s
      else bindS (mainAddress addresses, s) (\<lambda>main s.
        sendKeysTo chosen rest (say (SendPublicKeys main (mParticipantsPublicKeys (common s))) s)))"

definition waitForVotes :: "32 word \<Rightarrow> CoordinatorResult" where
  "waitForVotes delay = WaitsForMessages [Kind_ParticipantVote, Kind_TTLProlongationRequest] delay"

definition propagateVotesListAndWaitForVotingResult ::
  "CoordinatorState \<Rightarrow> CoordinatorResult result \<times> CoordinatorState" where
  "propagateVotesListAndWaitForVotingResult s =
     bindS (sendKeysTo (\<lambda>_. True) (members s) s) (\<lambda>_ s.
       returning (waitForVotes (maxNetworkDelay 4))
         (toStage Common_VotesChecking (s\<lparr>common := (common s)\<lparr>mParticipantsSignatures := []\<rparr>\<rparr>)))"

definition runFinalAmountsConfigurationConfirmation_coordinator ::
  "CoordinatorState \<Rightarrow> CoordinatorResult result \<times> CoordinatorState" where
  "runFinalAmountsConfigurationConfirmation_coordinator s =
     (case inbox s of
        [TTLProlongationRequest senders] \<Rightarrow> runTTLTransactionResponse senders (popInbox s)
      | [FinalAmountsConfigurationResponse senders accepts key] \<Rightarrow>
          bindS (firstSender senders, popInbox s) (\<lambda>sender s.
            case map_of (nodesIds s) (fullAddress sender) of
              None \<Rightarrow> returning ContinuesPrevious s
            | Some i \<Rightarrow>
                if \<not> accepts then rejectCoordinator (say RemoveStoredData s)
                else
                  (let s = setKeys (ordUpdate i key (mParticipantsPublicKeys (common s))) s
                   in if length (mParticipantsPublicKeys (common s)) < length (nodesIds s)
                      then returning
                        (WaitsForMessages [Kind_FinalAmountsConfigurationResponse, Kind_TTLProlongationRequest]
                           (maxNetworkDelay 2)) s
                      else propagateVotesListAndWaitForVotingResult s))
      | _ \<Rightarrow> rejectCoordinator (say RemoveStoredData s))"

section \<open>Votes\<close>

fun sendVotesTo ::
  "(PaymentNodeID \<times> Address list) list \<Rightarrow> CoordinatorState \<Rightarrow> unit result \<times> CoordinatorState" where
  "sendVotesTo [] s = returning () s"
| "sendVotesTo ((i, addresses) # rest) s =
     (if i = kCoordinatorPaymentNodeID then sendVotesTo rest s
      else bindS (mainAddress addresses, s) (\<lambda>main s.
        sendVotesTo rest (say (SendVotes main (mParticipantsSignatures (common s))) s)))"

text \<open>
  The event lists the paths with reservations in the order of their numbers. Exceptions of its writing are
  swallowed, but a number without statistics is a null pointer.
\<close>

definition writePaymentEvent :: "CoordinatorState \<Rightarrow> unit result \<times> CoordinatorState" where
  "writePaymentEvent s =
     (let ids = sort (remdups (map fst (concat (map snd (txReservations (payment (common s)))))))
      in bindS (collectR (\<lambda>i. case map_of (mPathsStats s) i of
                              None \<Rightarrow> Inl UndefinedBehaviour | Some p \<Rightarrow> Inr (pathNodes p)) ids, s) (\<lambda>eventPaths s.
           returning () (say (WritePaymentEvent eventPaths) s)))"

definition approveCoordinator ::
  "CoordinatorEnv \<Rightarrow> CoordinatorState \<Rightarrow> CoordinatorResult result \<times> CoordinatorState" where
  "approveCoordinator env s =
     bindS (sendVotesTo (members s) s) (\<lambda>_ s.
     bindS (writePaymentEvent s) (\<lambda>_ s.
     bindS (onBase (approve (voteEnv (nodeEnv env))) s) (\<lambda>_. returning (Answered AnswerOK))))"

definition addSignature :: "PaymentNodeID \<Rightarrow> Signature \<Rightarrow> CoordinatorState \<Rightarrow> CoordinatorState" where
  "addSignature i signature s =
     s\<lparr>common := (common s)\<lparr>mParticipantsSignatures := mapInsert i signature (mParticipantsSignatures (common s))\<rparr>\<rparr>"

definition ownVote :: "CoordinatorEnv \<Rightarrow> CoordinatorState \<Rightarrow> CoordinatorResult result \<times> CoordinatorState" where
  "ownVote env s =
     bindS (signPaymentTransaction (votes (nodeEnv env)) (getSerializedParticipantsVotesData (common s)), s) (\<lambda>ownSign s.
       case ownSign of
         None \<Rightarrow> rejectCoordinator (say RemoveStoredData s)
       | Some signature \<Rightarrow>
           bindS (savePayment (votes (nodeEnv env)), addSignature kCoordinatorPaymentNodeID signature s)
             (\<lambda>_. approveCoordinator env))"

definition participantVoted ::
  "CoordinatorEnv \<Rightarrow> Address list \<Rightarrow> Signature option \<Rightarrow> CoordinatorState \<Rightarrow>
   CoordinatorResult result \<times> CoordinatorState" where
  "participantVoted env senderAddresses vote s =
     bindS (mainAddress senderAddresses, s) (\<lambda>sender s.
       case map_of (nodesIds s) (fullAddress sender) of
         None \<Rightarrow> returning ContinuesPrevious s
       | Some participantPaymentID \<Rightarrow>
           (case vote of
              None \<Rightarrow> rejectCoordinator (say RemoveStoredData s)
            | Some participantSignature \<Rightarrow>
                (case map_of (mParticipantsPublicKeys (common s)) participantPaymentID of
                   None \<Rightarrow> throwing UndefinedBehaviour s
                 | Some participantPublicKey \<Rightarrow>
                     if \<not> signatureCheck (votes (nodeEnv env)) participantSignature
                            (getSerializedParticipantsVotesData (common s)) participantPublicKey
                     then rejectCoordinator (say RemoveStoredData s)
                     else
                       (let s = addSignature participantPaymentID participantSignature s
                        in if length (mParticipantsSignatures (common s)) + 1 = length (members s) then ownVote env s
                           else returning (waitForVotes (maxNetworkDelay 2)) s))))"

definition runVotesConsistencyCheckingStage_coordinator ::
  "CoordinatorEnv \<Rightarrow> CoordinatorState \<Rightarrow> CoordinatorResult result \<times> CoordinatorState" where
  "runVotesConsistencyCheckingStage_coordinator env s =
     (case inbox s of
        [TTLProlongationRequest senders] \<Rightarrow> runTTLTransactionResponse senders (popInbox s)
      | [ParticipantVote senders vote] \<Rightarrow> participantVoted env senders vote (popInbox s)
      | _ \<Rightarrow>
          if mCountParticipantKeysResending s \<ge> kMaxCountParticipantKeysResending
          then rejectCoordinator (say RemoveStoredData s)
          else
            bindS (sendKeysTo (\<lambda>i. map_of (mParticipantsSignatures (common s)) i = None) (members s) s) (\<lambda>_ s.
              returning (waitForVotes (maxNetworkDelay 4))
                (s\<lparr>mCountParticipantKeysResending := mCountParticipantKeysResending s + 1\<rparr>)))"

section \<open>The dispatch\<close>

definition runStage_coordinator ::
  "nat \<Rightarrow> CoordinatorEnv \<Rightarrow> CoordinatorState \<Rightarrow> CoordinatorResult result \<times> CoordinatorState" where
  "runStage_coordinator n env s =
     (case mStep (common s) of
        Coordinator_Initialization \<Rightarrow> runPaymentInitializationStage env s
      | Coordinator_ReceiverResourceProcessing \<Rightarrow> runPathsResourceProcessingStage env s
      | Coordinator_ReceiverResponseProcessing \<Rightarrow>
          runReceiverResponseProcessingStage (runAmountReservationStage_coordinator n env) env s
      | Coordinator_AmountReservation \<Rightarrow> runAmountReservationStage_coordinator n env s
      | Coordinator_ShortPathAmountReservationResponseProcessing \<Rightarrow>
          runDirectAmountReservationResponseProcessingStage (tryProcessNextPath n env) env s
      | Common_ObservingBlockNumberProcessing \<Rightarrow> sendFinalAmountsConfigurationToAllParticipants env s
      | Coordinator_FinalAmountsConfigurationConfirmation \<Rightarrow> runFinalAmountsConfigurationConfirmation_coordinator s
      | Common_VotesChecking \<Rightarrow> runVotesConsistencyCheckingStage_coordinator env s
      | _ \<Rightarrow> throwing RuntimeError s)"

text \<open>An exception of the project ends the payment, unless the history says that it was conducted.\<close>

definition concludeFailed :: "CoordinatorEnv \<Rightarrow> CoordinatorState \<Rightarrow> CoordinatorResult result \<times> CoordinatorState" where
  "concludeFailed env s =
     bindS (operationConducted env, s) (\<lambda>conducted s.
       if conducted then returning (Answered AnswerOK) s
       else bindS (deletePaymentRecord env, say RemoveStoredData s) (\<lambda>_. rejectCoordinator))"

fun run_coordinator ::
  "nat \<Rightarrow> CoordinatorEnv \<Rightarrow> CoordinatorState \<Rightarrow> CoordinatorResult result \<times> CoordinatorState" where
  "run_coordinator 0 env s = returning OutOfFuel s"
| "run_coordinator (Suc n) env s =
     (case runStage_coordinator n env s of
        (Inl CallChainBreakException, s) \<Rightarrow> run_coordinator n env (s\<lparr>mReservationsStage := 2\<rparr>)
      | (Inl e, s) \<Rightarrow> if isProjectException e then concludeFailed env s else throwing e s
      | (Inr r, s) \<Rightarrow> returning r s)"

end
