(* ===== verification/Coordinator_Reservations.thy ===== *)
theory Coordinator_Reservations
  imports Coordinator Payment_Totals
begin

text \<open>
  The reservations of a coordinator. Shortening inserts an empty list for a node without reservations, which
  the invariant \<open>tx_ok\<close> of a payment does not allow; without these lists (\<open>prune\<close>) it holds. Every operation
  of the coordinator on its reservations commutes with leaving them out, so that it keeps the weaker
  invariant \<open>weak_ok\<close>.
\<close>

section \<open>Leaving out empty lists\<close>

abbreviation nonempty :: "(ContractorID \<times> PathReservations) list \<Rightarrow> (ContractorID \<times> PathReservations) list" where
  "nonempty \<equiv> filter (\<lambda>x. snd x \<noteq> [])"

definition prune :: "Payment \<Rightarrow> Payment" where
  "prune p = p\<lparr>txReservations := nonempty (txReservations p)\<rparr>"

definition pruned :: "PaymentState \<Rightarrow> PaymentState" where
  "pruned = (\<lambda>(p, m). (prune p, m))"

definition weak_ok :: "PaymentState \<Rightarrow> bool" where
  "weak_ok s \<longleftrightarrow> sorted (keys (txReservations (fst s))) \<and> distinct (keys (txReservations (fst s))) \<and> tx_ok (pruned s)"

lemma pruned_simps [simp]:
  "pruned (p, m) = (prune p, m)" "fst (pruned s) = prune (fst s)" "snd (pruned s) = snd s"
  by (simp_all add: pruned_def split: prod.split)

lemma prune_fields [simp]:
  "txReservations (prune p) = nonempty (txReservations p)" "currentTransactionUUID (prune p) = currentTransactionUUID p"
  "prune p\<lparr>txReservations := rs\<rparr> = p\<lparr>txReservations := rs\<rparr>"
  by (simp_all add: prune_def)

lemma concat_nonempty: "concat (map snd (nonempty rs)) = concat (map snd rs)"
  by (induction rs) auto

lemma flowOf_prune [simp]: "flowOf d (prune p) = flowOf d p"
  by (simp add: flowOf_def concat_nonempty)

lemma allEntries_nonempty: "allEntries (nonempty rs) = allEntries rs"
  by (induction rs) (auto simp: allEntries_def)

lemma nonempty_distinct: "distinct (keys rs) \<Longrightarrow> distinct (keys (nonempty rs))"
  by (induction rs) auto

lemma nonempty_sorted: "sorted (keys rs) \<Longrightarrow> sorted (keys (nonempty rs))"
  by (rule sorted_filter)

lemma map_of_nonempty:
  "distinct (keys rs) \<Longrightarrow> map_of (nonempty rs) c = (if map_of rs c = Some [] then None else map_of rs c)"
  by (induction rs) (force simp: map_of_eq_None_keys split: if_splits)+

lemma entries_prune: "distinct (keys (txReservations p)) \<Longrightarrow> entries (prune p) c = entries p c"
  by (simp add: entries_def map_of_nonempty)

lemma listed_nonempty: "distinct (keys rs) \<Longrightarrow> listed (nonempty rs) c = listed rs c"
  by (simp add: listed_def map_of_nonempty)

lemma nonempty_put:
  "sorted (keys rs) \<Longrightarrow> distinct (keys rs) \<Longrightarrow> es \<noteq> [] \<Longrightarrow> nonempty (ordUpdate c es rs) = ordUpdate c es (nonempty rs)"
proof (induction rs)
  case (Cons x rs)
  obtain d ds where x: "x = (d, ds)" by (cases x)
  have front: "ordUpdate c es (nonempty rs) = (c, es) # nonempty rs" if "c \<le> d"
  proof -
    have "c < fst y" if "y \<in> set rs" for y
    proof -
      have "d \<le> fst y" "d \<noteq> fst y" using Cons.prems(1,2) that by (auto simp: x)
      then show ?thesis using \<open>c \<le> d\<close> by simp
    qed
    then have "\<forall>y \<in> set (nonempty rs). c < fst y" by auto
    then show ?thesis by (cases "nonempty rs") auto
  qed
  show ?case using Cons front by (auto simp: x)
qed simp

lemma nonempty_put_Nil: "map_of rs c = None \<Longrightarrow> nonempty (ordUpdate c [] rs) = nonempty rs"
  by (induction c "[] :: PathReservations" rs rule: ordUpdate.induct) (auto split: if_splits)

lemma weak_okD:
  assumes "weak_ok (p, m)"
  shows "manager_ok m" and "sorted (keys (txReservations p))" and "distinct (keys (txReservations p))"
    and "listed (txReservations p) c = own (currentTransactionUUID p) m c" and "tx_ok (prune p, m)"
  using assms tx_okD(4) [of "prune p" m c] by (auto simp: weak_ok_def tx_ok_def listed_nonempty)

lemma weak_okI:
  assumes "manager_ok m" and "sorted (keys (txReservations p))" and "distinct (keys (txReservations p))"
    and "\<And>c. listed (txReservations p) c = own (currentTransactionUUID p) m c"
  shows "weak_ok (p, m)"
  using assms by (auto simp: weak_ok_def tx_ok_def listed_nonempty intro: nonempty_sorted nonempty_distinct)

lemma weak_of_tx: "tx_ok s \<Longrightarrow> weak_ok s"
  by (cases s) (auto intro: weak_okI dest: tx_okD)

section \<open>What is kept\<close>

definition wkept :: "PaymentState \<Rightarrow> PaymentState \<Rightarrow> bool" where
  "wkept s s' \<longleftrightarrow> weak_ok s' \<and> currentTransactionUUID (fst s') = currentTransactionUUID (fst s) \<and>
     mTrustLines (snd s') = mTrustLines (snd s) \<and>
     (\<forall>u c. u \<noteq> currentTransactionUUID (fst s) \<longrightarrow> own u (snd s') c = own u (snd s) c)"

lemma wkept_refl: "weak_ok s \<Longrightarrow> wkept s s"
  by (simp add: wkept_def)

lemma wkept_trans: "wkept s t \<Longrightarrow> wkept t u \<Longrightarrow> wkept s u"
  by (simp add: wkept_def)

lemma wkept_others: "wkept s s' \<Longrightarrow> others_kept s s'"
  by (simp add: wkept_def others_kept_def)

lemma wkept_total: "wkept s s' \<Longrightarrow> sumOfBalances (snd s') = sumOfBalances (snd s)"
  by (simp add: wkept_def sumOfBalances_def)

lemma wkept_of_pruned:
  assumes "tx_kept (pruned s) (pruned s')" and "sorted (keys (txReservations (fst s')))" and "distinct (keys (txReservations (fst s')))"
  shows "wkept s s'"
  using assms by (auto simp: wkept_def tx_kept_def weak_ok_def)

lemma wkept_cong:
  assumes "weak_ok (p, m)" and "txReservations p' = txReservations p" and "currentTransactionUUID p' = currentTransactionUUID p"
  shows "wkept (p, m) (p', m)"
  using assms weak_okD(4) [OF assms(1)] by (auto simp: wkept_def intro!: weak_okI dest: weak_okD)

section \<open>The operations\<close>

lemma rollBack_weak:
  assumes "weak_ok s" and "rollBack s = (res, s')"
  shows "wkept s s' \<and> res = Inr () \<and> txReservations (fst s') = []"
proof -
  obtain p m where s: "s = (p, m)" by (cases s)
  have "rollBack (pruned s) = (res, pruned s')"
    using assms(2) by (auto simp: s rollBack_def allEntries_nonempty prune_def split: prod.splits sum.splits)
  then have k: "tx_kept (pruned s) (pruned s') \<and> res = Inr ()"
    using rollBack_kept [of "pruned s" res "pruned s'"] assms(1) by (simp add: weak_ok_def)
  then have "txReservations (fst s') = []"
    using assms(2) by (auto simp: s rollBack_def split: prod.splits sum.splits)
  then show ?thesis using k wkept_of_pruned [of s s'] by simp
qed

lemma reserve_weak:
  assumes "weak_ok s" and "reserveOutgoingAmount_tx c a pathID s = (res, s')"
  shows "wkept s s'" and "flowOf Incoming (fst s') = flowOf Incoming (fst s)"
    and "res = Inr b \<Longrightarrow> flowOf Outgoing (fst s') = flowOf Outgoing (fst s) + (if b then a else 0)"
    and "res \<noteq> Inr True \<Longrightarrow> txReservations (fst s') = txReservations (fst s)"
proof -
  obtain p m where s: "s = (p, m)" by (cases s)
  note ok = weak_okD [OF assms(1) [unfolded s]]
  have step: "reserveOutgoingAmount_tx c a pathID (pruned s) = (res, pruned s')"
    using assms(2) ok(2,3)
    by (auto simp: s reserveOutgoingAmount_tx_def addEntry_def prune_def nonempty_put entries_prune [unfolded prune_def]
        split: sum.splits prod.splits if_splits)
  have "tx_kept (pruned s) (pruned s')" using reserve_kept [of "pruned s"] step assms(1) unfolding weak_ok_def by blast
  moreover have "sorted (keys (txReservations (fst s')))" "distinct (keys (txReservations (fst s')))"
    using assms(2) ok(2,3) sorted_ordUpdate [of "txReservations p"]
    by (auto simp: s reserveOutgoingAmount_tx_def addEntry_def split: sum.splits prod.splits if_splits)
  ultimately show "wkept s s'" by (rule wkept_of_pruned)
  show same: "res \<noteq> Inr True \<Longrightarrow> txReservations (fst s') = txReservations (fst s)"
    using assms(2) by (auto simp: s reserveOutgoingAmount_tx_def split: sum.splits prod.splits if_splits)
  have tx: "tx_ok (pruned s)" using assms(1) by (simp add: weak_ok_def)
  have f: "flowOf d (fst s') = flowOf d (fst s) + (if b \<and> d = Outgoing then a else 0)" if "res = Inr b" for d b
    using reserve_flow [OF tx, of c a pathID b "pruned s'" Outgoing d] step that by simp
  then show "res = Inr b \<Longrightarrow> flowOf Outgoing (fst s') = flowOf Outgoing (fst s) + (if b then a else 0)" by simp
  show "flowOf Incoming (fst s') = flowOf Incoming (fst s)"
    using f same by (cases res) (auto intro: flowOf_cong)
qed

lemma find_map_of_entries: "map_of (txReservations p) c = Some es \<Longrightarrow> entries p c = es"
  by (simp add: entries_def)

lemma ordUpdate_same:
  "sorted (keys rs) \<Longrightarrow> distinct (keys rs) \<Longrightarrow> map_of rs c = Some es \<Longrightarrow> ordUpdate c es rs = rs"
proof (induction rs)
  case (Cons x rs)
  show ?case
  proof (cases "fst x = c")
    case False
    then have "map_of rs c = Some es" using Cons.prems(3) by (cases x) auto
    moreover have "\<not> c < fst x" using Cons.prems(1) calculation by (fastforce dest: map_of_SomeD)
    ultimately show ?thesis using Cons False by (cases x) auto
  qed (use Cons.prems in \<open>cases x; auto\<close>)
qed simp

lemma removeFirst_none: "find q xs = None \<Longrightarrow> removeFirst q xs = xs"
  by (induction xs) (auto split: if_splits)

lemma find_removeFirst_mset: "find q xs = Some x \<Longrightarrow> mset xs = add_mset x (mset (removeFirst q xs))"
  by (induction xs) (auto split: if_splits)

lemma listed_delete: "listed (AList.delete c rs) c' = (if c' = c then {#} else listed rs c')"
  by (simp add: listed_def)

lemma sorted_delete: "sorted (keys rs) \<Longrightarrow> sorted (keys (AList.delete c rs))"
  by (simp add: AList.delete_eq sorted_filter)

text \<open>Dropping the first reservation on a path.\<close>

lemma dropFirst_weak:
  assumes "weak_ok s" and "dropFirstOnPath c pathID s = (res, s')"
  shows "wkept s s' \<and> (\<forall>d. flowOf d (fst s') \<le> flowOf d (fst s)) \<and> (res = Inr () \<or> res = Inl UndefinedBehaviour)"
proof -
  obtain p m where s: "s = (p, m)" by (cases s)
  let ?u = "currentTransactionUUID p" and ?q = "\<lambda>it. fst it = pathID"
  note ok = weak_okD [OF assms(1) [unfolded s]]
  show ?thesis
  proof (cases "map_of (txReservations p) c")
    case None
    then show ?thesis using assms by (auto simp: s dropFirstOnPath_def wkept_refl)
  next
    case (Some es)
    let ?kept = "removeFirst ?q es"
    define rs where "rs = (if ?kept = [] then AList.delete c (txReservations p) else ordUpdate c ?kept (txReservations p))"
    have keys: "sorted (keys rs)" "distinct (keys rs)"
      using ok(2,3) sorted_ordUpdate [OF ok(2,3)] sorted_delete [OF ok(2)] by (auto simp: rs_def)
    have listed: "listed rs c' = (if c' = c then mset (map snd ?kept) else listed (txReservations p) c')" for c'
      by (auto simp: rs_def listed_ordUpdate listed_delete)
    have ownc: "own ?u m c = mset (map snd es)" using ok(4) [of c] Some by (simp add: listed_def)
    obtain m' where m': "res = Inr ()" "s' = (p\<lparr>txReservations := rs\<rparr>, m')"
      "manager_ok m'" "mTrustLines m' = mTrustLines m" "\<And>u c. u \<noteq> ?u \<Longrightarrow> own u m' c = own u m c"
      "\<And>c'. own ?u m' c' = (if c' = c then mset (map snd ?kept) else own ?u m c')"
    proof (cases "find ?q es")
      case None
      then show ?thesis
        using that [of m] assms(2) Some ownc ok(1) removeFirst_none [of ?q es]
        by (auto simp: s dropFirstOnPath_def rs_def Let_def)
    next
      case (Some it)
      have it: "it \<in> set es" "?q it" using find_SomeD [OF Some] by auto
      then have "snd it \<in># own ?u m c" using ownc by force
      from drop_own [OF ok(1) this] obtain m' where m': "dropAmountReservation c (snd it) m = (Inr (), m')"
        "manager_ok m'" "mTrustLines m' = mTrustLines m"
        "\<forall>c'. own ?u m' c' = (if c' = c then own ?u m c - {#snd it#} else own ?u m c')"
        "\<forall>u' c'. u' \<noteq> ?u \<longrightarrow> own u' m' c' = own u' m c'" by blast
      have "mset (map snd ?kept) = mset (map snd es) - {#snd it#}"
        using arg_cong [OF find_removeFirst_mset [OF Some], of "image_mset snd"] by simp
      then show ?thesis
        using that [of m'] m' assms(2) Some \<open>map_of (txReservations p) c = Some es\<close> ownc
        by (auto simp: s dropFirstOnPath_def rs_def Let_def)
    qed
    have ok': "weak_ok s'"
      using m'(3,6) keys listed ok(4) by (auto simp: m'(2) intro!: weak_okI)
    moreover have "flowOf d (fst s') \<le> flowOf d p" for d
    proof -
      let ?K = "insert c (set (keys (txReservations p)) \<union> set (keys rs))"
      have le: "flow d (map snd (removeFirst ?q es)) \<le> flow d (map snd es)" for es :: PathReservations
        by (induction es) auto
      have "flow d (map snd (entries (p\<lparr>txReservations := rs\<rparr>) e)) \<le> flow d (map snd (entries p e))" for e
        using le [of es] Some by (auto simp: entries_def rs_def)
      then have "(\<Sum>e \<in> ?K. flow d (map snd (entries (p\<lparr>txReservations := rs\<rparr>) e))) \<le> (\<Sum>e \<in> ?K. flow d (map snd (entries p e)))"
        by (rule sum_mono)
      then show ?thesis
        using flowOf_entries [of "p\<lparr>txReservations := rs\<rparr>" ?K d] flowOf_entries [of p ?K d] keys(2) ok(3)
        by (simp add: m'(2) subset_insertI2 del: map_map set_map)
    qed
    ultimately show ?thesis using m' by (auto simp: wkept_def s)
  qed
qed

text \<open>Shortening the first reservation on a path.\<close>

lemma prune_put_Nil:
  "map_of (txReservations p) c = None \<Longrightarrow> prune (p\<lparr>txReservations := ordUpdate c [] (txReservations p)\<rparr>) = prune p"
  by (simp add: prune_def nonempty_put_Nil)

lemma shortage_pruned:
  assumes "weak_ok (p, m)" and "shortageReservation c r a pathID (p, m) = (res, s')"
  shows "shortageReservation c r a pathID (prune p, m) = (res, pruned s')"
    and "sorted (keys (txReservations (fst s')))" "distinct (keys (txReservations (fst s')))"
proof -
  note ok = weak_okD [OF assms(1)]
  show "shortageReservation c r a pathID (prune p, m) = (res, pruned s')"
    using assms(2) ok(2,3)
    by (auto simp: shortageReservation_def shortageReservation_as_def Let_def prune_def nonempty_put
        entries_prune [unfolded prune_def] split: if_splits prod.splits sum.splits geo_error.splits)
  show "sorted (keys (txReservations (fst s')))" "distinct (keys (txReservations (fst s')))"
    using assms(2) ok(2,3) sorted_ordUpdate [OF ok(2,3)]
    by (auto simp: shortageReservation_def shortageReservation_as_def Let_def
        split: if_splits prod.splits sum.splits geo_error.splits)
qed

lemma shortage_weak:
  assumes "weak_ok s" and "shortageReservationsOnPath_coordinator c pathID a s = (res, s')"
  shows "wkept s s' \<and> (\<forall>d. flowOf d (fst s') \<le> flowOf d (fst s))"
proof -
  obtain p m where s: "s = (p, m)" by (cases s)
  note ok = weak_okD [OF assms(1) [unfolded s]]
  define q where "q = (if map_of (txReservations p) c = None
    then p\<lparr>txReservations := ordUpdate c [] (txReservations p)\<rparr> else p)"
  have q: "prune q = prune p" "sorted (keys (txReservations q))" "distinct (keys (txReservations q))"
    "currentTransactionUUID q = currentTransactionUUID p"
    using ok(2,3) sorted_ordUpdate [OF ok(2,3), of c "[]"] by (auto simp: q_def prune_put_Nil)
  have wq: "weak_ok (q, m)" using assms(1) q by (simp add: weak_ok_def s)
  have fq: "flowOf d q = flowOf d p" for d using flowOf_prune [of d q] q(1) by simp
  have kq: "wkept s (q, m)" using wq q(4) by (simp add: wkept_def s)
  show ?thesis
  proof (cases "find (\<lambda>it. fst it = pathID) (entries q c)")
    case None
    then have "s' = (q, m)"
      using assms(2) by (simp add: s shortageReservationsOnPath_coordinator_def Let_def flip: q_def)
    then show ?thesis using kq fq by (simp add: s)
  next
    case (Some it)
    obtain r t where t: "shortageReservation c (snd it) a pathID (q, m) = (r, t)" by (meson surj_pair)
    have "bindS (r, t) (\<lambda>_. returning ()) = (res, s')"
      using assms(2) Some t by (simp add: s shortageReservationsOnPath_coordinator_def Let_def flip: q_def)
    then have "s' = t" by (cases r) auto
    have it: "(pathID, snd it) \<in> set (entries (fst (prune q, m)) c)"
      using find_SomeD [OF Some] by (auto simp: entries_prune [OF q(3)])
    note pr = shortage_pruned [OF wq t]
    have txq: "tx_ok (prune q, m)" using weak_okD(5) [OF wq] .
    have "tx_kept (prune q, m) (pruned t)"
      using shortage_as_kept [OF txq it] pr(1) by (simp add: shortageReservation_def)
    then have "wkept (q, m) t" using wkept_of_pruned [of "(q, m)" t] pr(2,3) by simp
    moreover have "lowered (prune q) (prune (fst t))"
      using shortage_lowers [OF txq it pr(1) [unfolded shortageReservation_def]] by simp
    ultimately show ?thesis
      using wkept_trans [OF kq] fq \<open>s' = t\<close> by (auto simp: lowered_def s)
  qed
qed

section \<open>Commit\<close>

text \<open>An empty list stops a commit: the direction of its reservations is read uninitialised.\<close>

lemma commitNodes_stuck:
  assumes "manager_ok m" and "distinct (keys rs)" and "(c0, []) \<in> set rs" and "\<forall>c. listed rs c \<subseteq># own u m c"
    and "\<forall>c es. (c, es) \<in> set rs \<longrightarrow> es \<noteq> [] \<longrightarrow> (\<exists>a. address c = Inr a)"
    and "commitNodes address rs (p, m) = (res, p', m')"
  shows "\<exists>e. res = Inl e \<and> \<not> isProjectException e"
  using assms
proof (induction rs arbitrary: m p)
  case (Cons x rs)
  obtain c es where x: "x = (c, es)" by (cases x)
  show ?case
  proof (cases "es = []")
    case True
    then show ?thesis using Cons.prems(6) by (auto simp: x isProjectException_def)
  next
    case False
    have none: "map_of rs c = None" using Cons.prems(2) by (simp add: x map_of_eq_None_iff)
    obtain a where a: "address c = Inr a" using Cons.prems(5) False by (auto simp: x)
    have sub: "mset (map snd es) \<subseteq># own u m c" using Cons.prems(4) [THEN spec, of c] by (simp add: x listed_Cons)
    obtain r1 p1 m1 where c1: "commitEntries address c None es (p, m) = (r1, p1, m1)" by (metis prod_cases3)
    note first = commitEntries_returns [where address = address and c = c and ?d0.0 = None and p = p, OF Cons.prems(1) sub a c1]
    show ?thesis
    proof (cases "r1 = Inl StdOverflowError")
      case True
      then show ?thesis using Cons.prems(6) c1 by (auto simp: x isProjectException_def)
    next
      case r1: False
      then have m1: "r1 = Inr (Some (mDirection (snd (last es))))"
        "settledTo u m m1 (\<lambda>c'. if c' = c then map snd es else [])" using first False by auto
      let ?p1 = "p1\<lparr>events := events p1 @ [TrustLineActionSignal c (mDirection (snd (last es)) = Outgoing)]\<rparr>"
      have go: "commitNodes address rs (?p1, m1) = (res, p', m')" using Cons.prems(6) c1 m1(1) by (simp add: x)
      have sub1: "\<forall>c'. listed rs c' \<subseteq># own u m1 c'"
      proof
        fix c'
        show "listed rs c' \<subseteq># own u m1 c'"
          using m1(2) none Cons.prems(4) [THEN spec, of c']
          by (cases "c' = c") (simp_all add: settledTo_def x listed_Cons listed_def)
      qed
      have "manager_ok m1" "distinct (keys rs)" "(c0, []) \<in> set rs"
        using m1(2) Cons.prems(2,3) False by (auto simp: settledTo_def x)
      from Cons.IH [OF this sub1 _ go] show ?thesis using Cons.prems(5) by (auto simp: x)
    qed
  qed
qed simp

lemma commit_weak:
  assumes "weak_ok (p, m)" and "\<forall>c \<in> set (keys (mTrustLines m)). \<exists>a. address c = Inr a"
    and "commit address ok (p, m) = (res, p', m')" and "\<And>e. res = Inl e \<Longrightarrow> isProjectException e"
  shows "res = (if ok then Inr () else Inl IOError) \<and> weak_ok (p', m') \<and> txReservations p' = [] \<and>
    others_kept (p, m) (p', m') \<and> sumOfBalances m' = sumOfBalances m + netOf p"
proof -
  let ?u = "currentTransactionUUID p"
  note w = weak_okD [OF assms(1)]
  have known: "\<exists>a. address c = Inr a" if c: "(c, es) \<in> set (txReservations p)" "es \<noteq> []" for c es
  proof -
    have "listOf (txReservations (prune p)) c \<noteq> []"
      using c map_of_is_SomeI [OF w(3) c(1)] by (simp add: listOf_def map_of_nonempty [OF w(3)])
    then have "c \<in> set (keys (mTrustLines m))" using tx_line [OF w(5)] map_of_eq_None_keys by metis
    then show ?thesis using assms(2) by blast
  qed
  obtain r p1 m1 where r: "commitNodes address (txReservations p) (p, m) = (r, p1, m1)" by (metis prod_cases3)
  have stop: "isProjectException e" if "r = Inl e" for e
    using that assms(3,4) r by (auto simp: commit_def)
  have full: "es \<noteq> []" if "(c, es) \<in> set (txReservations p)" for c es
    using commitNodes_stuck [OF w(1,3), of c ?u address p r p1 m1] that w(4) known r stop by auto
  have tx: "tx_ok (p, m)"
  proof -
    have "nonempty (txReservations p) = txReservations p" using full by (force simp: filter_id_conv)
    then have "prune p = p" by (simp add: prune_def)
    then show ?thesis using w(5) by simp
  qed
  have "\<exists>a. address c = Inr a" if "c \<in> set (keys (txReservations p))" for c
    using that known full by fastforce
  then have s: "r = Inr ()" "settledTo ?u m m1 (listOf (txReservations p))" "currentTransactionUUID p1 = ?u"
    using commitNodes_returns [OF w(1,3) _ _ _ r, of ?u] full w(4) stop by (auto simp: isProjectException_def)
  have "own ?u m1 c = {#}" for c
    using s(2) w(4) [of c] by (simp add: settledTo_def mset_listOf)
  then have "weak_ok (p', m') \<and> txReservations p' = [] \<and> currentTransactionUUID p' = ?u \<and> m' = m1 \<and>
      res = (if ok then Inr () else Inl IOError)"
    using assms(3) r s by (auto simp: commit_def Let_def settledTo_def listed_def intro!: weak_okI split: if_splits)
  then show ?thesis using settled_total [OF tx s(2)] s(2) by (auto simp: others_kept_def settledTo_def)
qed

end
