(* ===== verification/Coordinator_Runs.thy ===== *)
theory Coordinator_Runs
  imports Coordinator_Reservations Node_Runs
begin

text \<open>
  Runs of a coordinator: what every stage keeps, and what the payment does to the balances of the node.
\<close>

section \<open>What the steps keep\<close>

abbreviation held_co :: "CoordinatorState \<Rightarrow> PaymentState" where
  "held_co s \<equiv> reserves (common s)"

abbreviation stage_co :: "CoordinatorState \<Rightarrow> Stage" where
  "stage_co s \<equiv> mStep (common s)"

abbreviation reservations_co :: "CoordinatorState \<Rightarrow> (ContractorID \<times> PathReservations) list" where
  "reservations_co s \<equiv> txReservations (payment (common s))"

abbreviation outgoing_co :: "CoordinatorState \<Rightarrow> nat" where
  "outgoing_co s \<equiv> flowOf Outgoing (payment (common s))"

definition cok :: "CoordinatorState \<Rightarrow> bool" where
  "cok s \<longleftrightarrow> weak_ok (held_co s) \<and> flowOf Incoming (payment (common s)) = 0"

definition ckept :: "CoordinatorState \<Rightarrow> CoordinatorState \<Rightarrow> bool" where
  "ckept s s' \<longleftrightarrow> cok s' \<and> wkept (held_co s) (held_co s') \<and> mCommandAmount s' = mCommandAmount s"

text \<open>\<open>near\<close>: the reservations and the lines are untouched. \<open>quiet\<close>: so is the stage.\<close>

definition near :: "CoordinatorState \<Rightarrow> CoordinatorState \<Rightarrow> bool" where
  "near s s' \<longleftrightarrow> reservations_co s' = reservations_co s \<and>
     currentTransactionUUID (payment (common s')) = currentTransactionUUID (payment (common s)) \<and>
     linesManager (common s') = linesManager (common s) \<and> mCommandAmount s' = mCommandAmount s"

definition quiet :: "CoordinatorState \<Rightarrow> CoordinatorState \<Rightarrow> bool" where
  "quiet s s' \<longleftrightarrow> near s s' \<and> stage_co s' = stage_co s"

lemma near_kept: "near s s' \<Longrightarrow> cok s \<Longrightarrow> ckept s s'"
  unfolding near_def cok_def ckept_def
  using wkept_cong [of "payment (common s)" "linesManager (common s)" "payment (common s')"]
  by (auto simp: wkept_def flowOf_def)

lemma ckept_refl: "cok s \<Longrightarrow> ckept s s"
  by (simp add: cok_def ckept_def wkept_refl)

lemma ckept_trans: "ckept s t \<Longrightarrow> ckept t u \<Longrightarrow> ckept s u"
  by (auto simp: ckept_def intro: wkept_trans)

lemma ckept_cok: "ckept s t \<Longrightarrow> cok t"
  by (simp add: ckept_def)

lemma near_refl [simp]: "near s s" and near_trans: "near s t \<Longrightarrow> near t u \<Longrightarrow> near s u"
  by (simp_all add: near_def)

lemma quiet_refl [simp]: "quiet s s" and quiet_trans: "quiet s t \<Longrightarrow> quiet t u \<Longrightarrow> quiet s u"
  by (auto simp: quiet_def intro: near_trans)

lemma quiet_near: "quiet s t \<Longrightarrow> near s t"
  by (simp add: quiet_def)

lemma near_outgoing: "near s t \<Longrightarrow> outgoing_co t = outgoing_co s"
  by (simp add: near_def flowOf_def)

section \<open>What only sends or records\<close>

lemma quiet_bindS:
  "quiet s (snd a) \<Longrightarrow> (\<And>x s1. a = (Inr x, s1) \<Longrightarrow> quiet s1 (snd (f x s1))) \<Longrightarrow> quiet s (snd (bindS a f))"
  by (cases a) (auto simp: bindS_def split: sum.splits intro: quiet_trans)

lemma quiet_pure: "(\<And>x. r = Inr x \<Longrightarrow> quiet s (snd (f x s))) \<Longrightarrow> quiet s (snd (bindS (r, s) f))"
  by (rule quiet_bindS) auto

lemma near_say [simp]: "near s (say m s)" and say_stage [simp]: "stage_co (say m s) = stage_co s"
  by (simp_all add: near_def say_def)

lemma quiet_say [simp]: "quiet s (say m s)"
  by (simp add: quiet_def)

lemma near_toStage [simp]: "near s (toStage stage s)" and toStage_stage [simp]: "stage_co (toStage stage s) = stage"
  by (simp_all add: near_def toStage_def)

lemma onPathStats_quiet [simp]: "quiet s (snd (onPathStats pathID f s))"
  by (auto simp: onPathStats_def quiet_def near_def bindS_def split: option.split sum.split)

lemma setMembers_quiet: "quiet s (setMembers nodes s)"
  by (simp add: setMembers_def quiet_def near_def)

lemma addMember_quiet [simp]: "quiet s (snd (addMember addresses s))"
  unfolding addMember_def Let_def
  by (rule quiet_bindS) (simp_all add: setMembers_quiet, simp add: quiet_def near_def)

lemma informEach_quiet [simp]: "quiet s (snd (informEach nodes s))"
proof (induction nodes arbitrary: s)
  case (Cons x nodes)
  have "quiet s (snd (informEach nodes (say m s)))" for m using Cons.IH quiet_trans quiet_say by blast
  then show ?case using Cons.IH by (cases x) (auto intro!: quiet_pure)
qed simp

lemma informEach_throws: "informEach nodes s = (Inl e, s') \<Longrightarrow> e = StdOutOfRange"
proof (induction nodes arbitrary: s)
  case (Cons x nodes)
  then show ?case by (cases x) (auto simp: mainAddress_def split: if_splits list.splits)
qed simp

lemma addPath_quiet [simp]: "quiet s (snd (addPathForFurtherProcessing path s))"
  unfolding addPathForFurtherProcessing_def
proof (rule quiet_pure)
  fix i
  let ?t = "s\<lparr>mPathsStats := mPathsStats s @ [(i, newPathStats path)]\<rparr>"
  have "quiet ?t (snd (bindS (mainAddress (mContractor s), ?t) (\<lambda>receiver s.
     bindS (onPathStats i (\<lambda>p. Inr (p\<lparr>pathNodes := pathNodes p @ [receiver]\<rparr>)) s) (\<lambda>_ s.
       returning () (s\<lparr>mPathIDs := mPathIDs s @ [i]\<rparr>)))))"
    by (intro quiet_pure quiet_bindS onPathStats_quiet) (simp_all add: quiet_def near_def)
  then show "quiet s (snd (bindS (mainAddress (mContractor s), ?t) (\<lambda>receiver s.
     bindS (onPathStats i (\<lambda>p. Inr (p\<lparr>pathNodes := pathNodes p @ [receiver]\<rparr>)) s) (\<lambda>_ s.
       returning () (s\<lparr>mPathIDs := mPathIDs s @ [i]\<rparr>)))))"
    by (rule quiet_trans [rotated]) (simp add: quiet_def near_def)
qed

lemma addValidPaths_quiet [simp]: "quiet s (snd (addValidPaths env paths s))"
  by (induction paths arbitrary: s) (auto intro!: quiet_pure quiet_bindS)

lemma buildPathsAgain_quiet [simp]: "quiet s (snd (buildPathsAgain env s))"
  unfolding buildPathsAgain_def by (intro quiet_pure addValidPaths_quiet)

lemma initAmounts_quiet [simp]: "quiet s (snd (initAmountsReservationOnNextPath s))"
proof -
  have "quiet s (snd (bindS (r, s\<lparr>mCurrentAmountReservingPathIdentifier := i\<rparr>) (\<lambda>_ s. returning () (s\<lparr>mCurrentPathParticipants := []\<rparr>))))"
    for r :: "PathStats result" and i
    by (cases r) (simp_all add: quiet_def near_def)
  then show ?thesis by (auto simp: initAmountsReservationOnNextPath_def Let_def split: list.split)
qed

lemma dropUnusable_quiet [simp]: "quiet s (dropUnusable i p s)"
  by (simp add: dropUnusable_def quiet_def near_def)

lemma switch_quiet [simp]: "quiet s (snd (switchToNextPath s))"
proof -
  have ids: "quiet s (s\<lparr>mPathIDs := x\<rparr>)" "quiet s (s\<lparr>mPathIDs := x, mCurrentAmountReservingPathIdentifier := i\<rparr>)" for x i
    by (simp_all add: quiet_def near_def)
  show ?thesis
    unfolding switchToNextPath_def Let_def
    by (auto intro!: quiet_pure quiet_trans [OF ids(1) dropUnusable_quiet] quiet_trans [OF ids(2) quiet_pure]
        split: list.split)
qed

lemma sendDropNotices_quiet [simp]: "quiet s (sendDropNotices b node pathID nodes s)"
proof (induction nodes arbitrary: s)
  case (Cons a nodes)
  have "quiet s (sendDropNotices b node pathID nodes (say m s))" for m using Cons.IH quiet_trans quiet_say by blast
  then show ?case by (cases b) (simp_all add: Let_def)
qed simp

lemma fold_say_quiet [simp]: "quiet s (fold (\<lambda>a. say (f a)) xs s)"
proof (induction xs arbitrary: s)
  case (Cons a xs)
  show ?case using quiet_trans [OF quiet_say Cons.IH] by simp
qed simp

lemma sendFinalPath_quiet [simp]: "quiet s (snd (sendFinalPathConfiguration p s))"
  unfolding sendFinalPathConfiguration_def by (intro quiet_pure) simp

lemma includeParticipants_quiet [simp]: "quiet s (snd (includeParticipants xs s))"
  by (induction xs arbitrary: s) (auto intro!: quiet_bindS)

lemma appendAmount_quiet [simp]: "quiet s (appendAmount nodeKey x s)"
  by (simp add: appendAmount_def quiet_def near_def)

lemma appendAmounts_quiet [simp]: "quiet s (snd (appendAmounts xs x s))"
proof (induction xs arbitrary: s)
  case (Cons a xs)
  have "quiet s (snd (appendAmounts xs x (appendAmount nodeKey x s)))" for nodeKey
    by (rule quiet_trans [OF appendAmount_quiet Cons.IH])
  then show ?case by (auto intro!: quiet_pure)
qed simp

lemma addFinal_quiet [simp]: "quiet s (snd (addFinalConfigurationOnPath p s))"
  unfolding addFinalConfigurationOnPath_def Let_def by (intro quiet_bindS appendAmounts_quiet includeParticipants_quiet)

lemma continueReceiver_quiet [simp]: "quiet s (snd (continueReceiver s))"
  unfolding continueReceiver_def by (intro quiet_pure) simp

section \<open>What a stage promises\<close>

definition firstStages :: "Stage set" where
  "firstStages = {Coordinator_Initialization, Coordinator_ReceiverResourceProcessing, Coordinator_ReceiverResponseProcessing}"

definition reserving :: "Stage set" where
  "reserving = {Coordinator_AmountReservation, Coordinator_ShortPathAmountReservationResponseProcessing}"

definition finalStages :: "Stage set" where
  "finalStages = {Common_ObservingBlockNumberProcessing, Coordinator_FinalAmountsConfigurationConfirmation, Common_VotesChecking}"

lemmas stage_sets = firstStages_def reserving_def finalStages_def

text \<open>From the final amounts on exactly the amount of the command is reserved.\<close>

definition stage_ok :: "CoordinatorState \<Rightarrow> bool" where
  "stage_ok s \<longleftrightarrow> stage_co s \<in> firstStages \<and> reservations_co s = [] \<or> stage_co s \<in> reserving \<or>
     stage_co s \<in> finalStages \<and> outgoing_co s = mCommandAmount s"

definition answers :: "CoordinatorResult \<Rightarrow> CoordinatorState \<Rightarrow> bool" where
  "answers r s \<longleftrightarrow>
     (case r of
        Answered a \<Rightarrow> a \<noteq> AnswerOK \<and> (a \<noteq> AnswerUnexpectedError \<longrightarrow> reservations_co s = [])
      | OutOfFuel \<Rightarrow> True
      | _ \<Rightarrow> stage_ok s)"

text \<open>A stage without a commit; \<open>X\<close> is what holds after an exception of the project.\<close>

definition coord_ok ::
  "(CoordinatorState \<Rightarrow> bool) \<Rightarrow> CoordinatorState \<Rightarrow> CoordinatorResult result \<times> CoordinatorState \<Rightarrow> bool" where
  "coord_ok X s = (\<lambda>(res, s'). (\<forall>e. res = Inl e \<longrightarrow> isProjectException e) \<longrightarrow>
     ckept s s' \<and> (case res of Inl e \<Rightarrow> X s' | Inr r \<Rightarrow> answers r s'))"

lemma coord_throws: "ckept s s' \<Longrightarrow> X s' \<Longrightarrow> coord_ok X s (throwing e s')"
  by (simp add: coord_ok_def)

lemma coord_returns: "ckept s s' \<Longrightarrow> answers r s' \<Longrightarrow> coord_ok X s (returning r s')"
  by (simp add: coord_ok_def)

lemma coord_trans: "ckept s s1 \<Longrightarrow> coord_ok X s1 r \<Longrightarrow> coord_ok X s r"
  by (auto simp: coord_ok_def intro: ckept_trans)

lemma coord_near: "near s s1 \<Longrightarrow> cok s \<Longrightarrow> (cok s1 \<Longrightarrow> coord_ok X s1 r) \<Longrightarrow> coord_ok X s r"
  using coord_trans near_kept ckept_cok by metis

lemma coord_bind:
  assumes "ckept s (snd a)" and "\<And>e s1. a = (Inl e, s1) \<Longrightarrow> X s1"
    and "\<And>x s1. a = (Inr x, s1) \<Longrightarrow> ckept s s1 \<Longrightarrow> coord_ok X s1 (f x s1)"
  shows "coord_ok X s (bindS a f)"
proof (cases a)
  case (Pair res s1)
  show ?thesis
  proof (cases res)
    case (Inl e)
    then show ?thesis using Pair assms(1,2) coord_throws by simp
  next
    case (Inr x)
    then show ?thesis using Pair assms(1) assms(3) [of x s1] coord_trans [of s s1] by simp
  qed
qed

text \<open>Answers that refuse.\<close>

definition refuses :: "CoordinatorResult \<Rightarrow> bool" where
  "refuses r \<longleftrightarrow> (\<exists>a. r = Answered a \<and> a \<noteq> AnswerOK)"

lemma refuses_insufficient [simp]: "refuses (resultInsufficientFundsError s)"
  by (simp add: refuses_def resultInsufficientFundsError_def)

lemma refuses_Answered [simp]: "refuses (Answered a) \<longleftrightarrow> a \<noteq> AnswerOK"
  by (simp add: refuses_def)

lemma refuses_answers: "refuses r \<Longrightarrow> reservations_co s = [] \<Longrightarrow> answers r s"
  by (auto simp: refuses_def answers_def)

lemma rollBack_co:
  assumes "cok s"
  shows "\<exists>s'. onBase (onPayment rollBack) s = (Inr (), s') \<and> ckept s s' \<and> reservations_co s' = [] \<and> stage_co s' = stage_co s"
proof -
  obtain r p m where r: "rollBack (held_co s) = (r, p, m)" by (metis prod_cases3)
  have w: "weak_ok (held_co s)" using assms by (simp add: cok_def)
  from rollBack_weak [OF w r] have k: "wkept (held_co s) (p, m)" "r = Inr ()" "txReservations p = []" by simp_all
  then show ?thesis
    using r by (auto simp: onBase_def onPayment_def ckept_def cok_def wkept_def flowOf_Nil)
qed

lemma rejectCoordinator_cases:
  assumes "cok s"
  obtains s' where "rejectCoordinator s = (Inl StdOutOfRange, s')"
  | s' where "rejectCoordinator s = (Inr (Answered AnswerNoConsensus), s')" "ckept s s'" "reservations_co s' = []"
      "stage_co s' = stage_co s"
proof -
  obtain t where t: "onBase (onPayment rollBack) s = (Inr (), t)" "ckept s t" "reservations_co t = []" "stage_co t = stage_co s"
    using rollBack_co [OF assms] by blast
  have "onBase reject s = (Inr ResultDone, t)"
    using t(1) by (auto simp: onBase_def reject_def onPayment_def split: prod.splits)
  then have r: "rejectCoordinator s = bindS (informAllNodesAboutTransactionFinish t) (\<lambda>_. returning (Answered AnswerNoConsensus))"
    by (simp add: rejectCoordinator_def)
  obtain x u where u: "informAllNodesAboutTransactionFinish t = (x, u)" by (meson surj_pair)
  have q: "quiet t u"
    using arg_cong [OF u, of snd] informEach_quiet [of t "members t"]
    by (simp add: informAllNodesAboutTransactionFinish_def del: informEach_quiet)
  show thesis
  proof (cases x)
    case (Inl e)
    then have "e = StdOutOfRange" using u informEach_throws by (simp add: informAllNodesAboutTransactionFinish_def)
    then show thesis using that(1) r u Inl by simp
  next
    case (Inr y)
    have "ckept s u" using ckept_trans [OF t(2)] near_kept [OF quiet_near [OF q] ckept_cok [OF t(2)]] by blast
    then show thesis using that(2) r u Inr q t(3,4) by (simp add: quiet_def near_def)
  qed
qed

lemma reject_ok: "cok s \<Longrightarrow> coord_ok X s (rejectCoordinator s)"
  by (erule rejectCoordinator_cases [of s])
    (simp_all add: coord_ok_def isProjectException_def answers_def)

lemma rejectWith_ok:
  assumes "cok s" and "\<And>s. refuses (answer s)"
  shows "coord_ok X s (rejectWith answer s)"
  by (rule rejectCoordinator_cases [OF assms(1)])
    (simp_all add: rejectWith_def coord_ok_def isProjectException_def refuses_answers assms(2))

section \<open>The reservation stage\<close>

definition pre :: "CoordinatorState \<Rightarrow> bool" where
  "pre s \<longleftrightarrow> cok s \<and> stage_co s \<in> reserving"

definition calm :: "CoordinatorState \<Rightarrow> CoordinatorState \<Rightarrow> bool" where
  "calm s s' \<longleftrightarrow> ckept s s' \<and> stage_co s' = stage_co s"

abbreviation res_ok :: "CoordinatorState \<Rightarrow> CoordinatorResult result \<times> CoordinatorState \<Rightarrow> bool" where
  "res_ok \<equiv> coord_ok (\<lambda>s. stage_co s \<in> reserving)"

definition carries_on :: "(CoordinatorState \<Rightarrow> CoordinatorResult result \<times> CoordinatorState) \<Rightarrow> bool" where
  "carries_on g \<longleftrightarrow> (\<forall>s. pre s \<longrightarrow> res_ok s (g s))"

definition waits :: "CoordinatorResult \<Rightarrow> bool" where
  "waits r \<longleftrightarrow> (\<forall>a. r \<noteq> Answered a) \<and> r \<noteq> OutOfFuel"

lemma waits_simps [simp]:
  "waits (WaitsForMessages ks d)" "waits (WaitsForResource k d)" "waits ContinuesPrevious" "waits (waitForVotes d)"
  by (simp_all add: waits_def waitForVotes_def)

lemma waits_answers: "waits r \<Longrightarrow> stage_ok s \<Longrightarrow> answers r s"
  by (auto simp: waits_def answers_def split: CoordinatorResult.split)

lemma quiet_calm: "quiet s t \<Longrightarrow> cok s \<Longrightarrow> calm s t"
  by (simp add: quiet_def calm_def near_kept)

lemma calm_bindS:
  "calm s (snd a) \<Longrightarrow> (\<And>x s1. a = (Inr x, s1) \<Longrightarrow> cok s1 \<Longrightarrow> calm s1 (snd (f x s1))) \<Longrightarrow> calm s (snd (bindS a f))"
  by (cases a) (auto simp: bindS_def calm_def split: sum.splits intro: ckept_trans dest: ckept_cok)

lemma calm_pure: "cok s \<Longrightarrow> (\<And>x. r = Inr x \<Longrightarrow> calm s (snd (f x s))) \<Longrightarrow> calm s (snd (bindS (r, s) f))"
  by (rule calm_bindS) (auto simp: calm_def ckept_refl)

lemma onHeld_calm:
  assumes "f (held_co s) = (res, t)" and "wkept (held_co s) t" and "flowOf Incoming (fst t) = 0"
  shows "calm s (snd (onHeld f s))"
  using assms by (cases t) (auto simp: onHeld_def calm_def ckept_def cok_def wkept_def)

lemma dropReservations_calm:
  assumes "cok s"
  shows "calm s (snd (dropReservationsOnPath env b s))"
proof -
  have d: "calm t (snd (onHeld (dropFirstOnPath c pathID) t))" if t: "cok t" for t c pathID
  proof -
    obtain r u where u: "dropFirstOnPath c pathID (held_co t) = (r, u)" by (meson surj_pair)
    have w: "weak_ok (held_co t)" "flowOf Incoming (fst (held_co t)) = 0" using t by (simp_all add: cok_def)
    have k: "wkept (held_co t) u \<and> (\<forall>d. flowOf d (fst u) \<le> flowOf d (fst (held_co t)))"
      using dropFirst_weak [OF w(1) u] by blast
    then have "flowOf Incoming (fst u) = 0" using w(2) le_zero_eq by metis
    then show ?thesis using onHeld_calm [where f = "dropFirstOnPath c pathID", OF u] k by blast
  qed
  show ?thesis
    unfolding dropReservationsOnPath_def Let_def using assms
    by (intro calm_bindS calm_pure d)
      (auto intro!: quiet_calm calm_pure simp: calm_def [of s s] ckept_refl dest: ckept_cok split del: if_split
        split: prod.split if_split)
qed

lemma shortenPath_calm:
  assumes "cok s"
  shows "calm s (snd (shortenPath c a s))"
proof -
  have d: "calm t (snd (onHeld (shortageReservationsOnPath_coordinator c pathID n) t))" if t: "cok t" for t pathID n
  proof -
    obtain r u where u: "shortageReservationsOnPath_coordinator c pathID n (held_co t) = (r, u)" by (meson surj_pair)
    have w: "weak_ok (held_co t)" "flowOf Incoming (fst (held_co t)) = 0" using t by (simp_all add: cok_def)
    have k: "wkept (held_co t) u \<and> (\<forall>d. flowOf d (fst u) \<le> flowOf d (fst (held_co t)))"
      using shortage_weak [OF w(1) u] by blast
    then have "flowOf Incoming (fst u) = 0" using w(2) le_zero_eq by metis
    then show ?thesis using onHeld_calm [where f = "shortageReservationsOnPath_coordinator c pathID n", OF u] k by blast
  qed
  have "calm s (snd (bindS (onPathStats (currentPathID s) (shortageMaxFlow a) s) (\<lambda>_ s.
         bindS (currentAmountReservationPathStats s, s) (\<lambda>p s.
           onHeld (shortageReservationsOnPath_coordinator c (currentPathID s) (mMaxPathFlow p)) s))))"
    by (intro calm_bindS [OF quiet_calm [OF onPathStats_quiet assms]] calm_pure d)
  moreover have "calm s s" using assms by (simp add: calm_def ckept_refl)
  ultimately show ?thesis
    unfolding shortenPath_def using assms by (intro calm_pure) simp_all
qed

lemma pre_bind:
  assumes "pre s" and "calm s (snd a)" and "\<And>x s1. a = (Inr x, s1) \<Longrightarrow> pre s1 \<Longrightarrow> res_ok s1 (f x s1)"
  shows "res_ok s (bindS a f)"
  using assms by (intro coord_bind) (auto simp: calm_def pre_def dest: ckept_cok)

lemma pre_quiet:
  assumes "pre s" and "quiet s (snd a)" and "\<And>x s1. a = (Inr x, s1) \<Longrightarrow> pre s1 \<Longrightarrow> res_ok s1 (f x s1)"
  shows "res_ok s (bindS a f)"
  using assms quiet_calm by (intro pre_bind) (auto simp: pre_def)

lemma pre_go: "pre s \<Longrightarrow> near s t \<Longrightarrow> stage_co t \<in> reserving \<Longrightarrow> (pre t \<Longrightarrow> res_ok t r) \<Longrightarrow> res_ok s r"
  by (auto simp: pre_def intro: coord_near)

lemma pre_at:
  assumes "pre s" and "near s t" and "stage_co t = stage_co s" and "\<And>x. r = Inr x \<Longrightarrow> pre t \<Longrightarrow> res_ok t (f x t)"
  shows "res_ok s (bindS (r, t) f)"
proof (rule pre_go [OF assms(1,2)])
  show "stage_co t \<in> reserving" using assms(1,3) by (simp add: pre_def)
  assume "pre t"
  then show "res_ok t (bindS (r, t) f)" using assms(4) by (intro pre_quiet) auto
qed

lemma pre_pure: "pre s \<Longrightarrow> (\<And>x. r = Inr x \<Longrightarrow> res_ok s (f x s)) \<Longrightarrow> res_ok s (bindS (r, s) f)"
  by (rule pre_at) auto

lemma pre_throws: "pre s \<Longrightarrow> res_ok s (throwing e s)"
  by (auto simp: pre_def intro: coord_throws ckept_refl)

lemma pre_waits: "pre s \<Longrightarrow> near s t \<Longrightarrow> stage_co t \<in> reserving \<Longrightarrow> waits r \<Longrightarrow> res_ok s (returning r t)"
  by (rule coord_returns) (auto simp: pre_def stage_ok_def intro: near_kept waits_answers)

lemma pre_stays: "pre s \<Longrightarrow> waits r \<Longrightarrow> res_ok s (returning r s)"
  by (rule pre_waits) (auto simp: pre_def)

lemma pre_next: "carries_on g \<Longrightarrow> pre s \<Longrightarrow> near s t \<Longrightarrow> stage_co t \<in> reserving \<Longrightarrow> res_ok s (g t)"
  by (rule pre_go) (auto simp: carries_on_def)

lemma carries_onD: "carries_on g \<Longrightarrow> pre s \<Longrightarrow> res_ok s (g s)"
  by (simp add: carries_on_def)

lemma pre_reject: "pre s \<Longrightarrow> res_ok s (rejectCoordinator s)"
  by (simp add: pre_def reject_ok)

lemma pre_rejectWith: "pre s \<Longrightarrow> (\<And>s. refuses (answer s)) \<Longrightarrow> res_ok s (rejectWith answer s)"
  by (simp add: pre_def rejectWith_ok)

lemma pre_reserving: "pre s \<Longrightarrow> stage_co s \<in> reserving" and pre_cok: "pre s \<Longrightarrow> cok s"
  by (simp_all add: pre_def)

lemma near_records [simp]:
  "near s (goOffline node s)" "stage_co (goOffline node s) = stage_co s"
  "near s (rejectLine source target s)" "stage_co (rejectLine source target s) = stage_co s"
  by (simp_all add: goOffline_def rejectLine_def near_def)

lemma amount_stage [simp]: "Coordinator_AmountReservation \<in> reserving"
  "Coordinator_ShortPathAmountReservationResponseProcessing \<in> reserving"
  by (simp_all add: reserving_def)

lemma pre_quietly:
  assumes "pre s" and "quiet s (snd a)"
    and "\<And>x s1. a = (Inr x, s1) \<Longrightarrow> pre s1 \<Longrightarrow> near s s1 \<Longrightarrow> res_ok s1 (f x s1)"
  shows "res_ok s (bindS a f)"
proof (rule pre_quiet [OF assms(1,2)])
  fix x s1 assume a: "a = (Inr x, s1)" and "pre s1"
  moreover have "near s s1" using assms(2) a by (simp add: quiet_near)
  ultimately show "res_ok s1 (f x s1)" using assms(3) by blast
qed

lemma reserve_calm:
  assumes "cok s"
  shows "calm s (snd (onHeld (reserveOutgoingAmount_tx c a pathID) s))"
proof -
  obtain r u where u: "reserveOutgoingAmount_tx c a pathID (held_co s) = (r, u)" by (meson surj_pair)
  have w: "weak_ok (held_co s)" "flowOf Incoming (fst (held_co s)) = 0" using assms by (simp_all add: cok_def)
  show ?thesis
    using onHeld_calm [where f = "reserveOutgoingAmount_tx c a pathID", OF u reserve_weak(1) [OF w(1) u]]
      reserve_weak(2) [OF w(1) u] w(2) by simp
qed

lemma requestBlockNumber_ok:
  assumes "cok s" and "outgoing_co s = mCommandAmount s"
  shows "coord_ok X s (requestBlockNumber s)"
proof -
  let ?t = "say RequestBlockNumber (toStage Common_ObservingBlockNumberProcessing s)"
  have n: "near s ?t" by (rule near_trans [OF near_toStage near_say])
  have "stage_ok ?t" using near_outgoing [OF n] n assms(2) by (simp add: stage_ok_def finalStages_def near_def)
  then show ?thesis
    unfolding requestBlockNumber_def by (intro coord_returns near_kept [OF n assms(1)] waits_answers) simp_all
qed

lemma pathReserved_ok:
  assumes "carries_on g" and "\<And>p t. quiet t (snd (announce p t))" and "pre s"
  shows "res_ok s (pathReserved announce g s)"
  unfolding pathReserved_def
proof (rule pre_pure [OF assms(3)])
  fix k assume k: "totalReservedAmount Outgoing (payment (common s)) = Inr k"
  show "res_ok s (if k > mCommandAmount s then rejectCoordinator s
       else bindS (currentAmountReservationPathStats s, s) (\<lambda>p s.
         bindS (announce p s) (\<lambda>_ s. bindS (addFinalConfigurationOnPath p s) (\<lambda>_ s.
           if k = mCommandAmount s then requestBlockNumber s else g s))))"
  proof (cases "k > mCommandAmount s")
    case True
    then show ?thesis using pre_reject [OF assms(3)] by simp
  next
    case False
    have "res_ok u (if k = mCommandAmount u then requestBlockNumber u else g u)" if "near s u" "pre u" for u
      using that near_outgoing [OF that(1)] totalReserved_Inr [OF k] carries_onD [OF assms(1)]
      by (auto intro: requestBlockNumber_ok pre_cok)
    note go = this
    have "res_ok s (bindS (currentAmountReservationPathStats s, s) (\<lambda>p s.
         bindS (announce p s) (\<lambda>_ s. bindS (addFinalConfigurationOnPath p s) (\<lambda>_ s.
           if k = mCommandAmount s then requestBlockNumber s else g s))))"
      by (intro pre_pure [OF assms(3)] pre_quietly [OF assms(3) assms(2)] pre_quietly [OF _ addFinal_quiet] go)
        (blast intro: near_trans)+
    then show ?thesis using False by simp
  qed
qed

lemma giveUp_ok: "carries_on g \<Longrightarrow> pre s \<Longrightarrow> near s t \<Longrightarrow> stage_co t = stage_co s \<Longrightarrow> res_ok s (giveUpPath g t)"
  unfolding giveUpPath_def
  by (rule pre_go [of s t]) (auto intro!: pre_quiet simp: carries_on_def pre_def)

lemma breakCallChain_ok: "pre s \<Longrightarrow> near s t \<Longrightarrow> stage_co t = stage_co s \<Longrightarrow> res_ok s (breakCallChain t)"
  unfolding breakCallChain_def
  by (rule pre_go [of s t]) (auto intro!: pre_quiet pre_throws simp: pre_def)

lemma pre_if: "(b \<Longrightarrow> res_ok s x) \<Longrightarrow> (\<not> b \<Longrightarrow> res_ok s y) \<Longrightarrow> res_ok s (if b then x else y)"
  by simp

lemma directly_ok:
  assumes "carries_on g" and "pre s"
  shows "res_ok s (tryReserveAmountDirectlyOnReceiver g env s)"
proof -
  have gu: "res_ok t (giveUpPath g t)" if "pre t" for t
    using giveUp_ok [OF assms(1) that] by simp
  have keys: "res_ok t (giveUpPath g (t\<lparr>mNeighborsKeysProblem := True\<rparr>))" if "pre t" for t
    by (rule giveUp_ok [OF assms(1) that]) (simp_all add: near_def)
  show ?thesis
    unfolding tryReserveAmountDirectlyOnReceiver_def Let_def
    by (intro pre_if gu keys pre_at [OF assms(2)] pre_pure pre_bind [OF _ reserve_calm] pre_quiet [OF _ onPathStats_quiet] pre_waits)
      (auto simp: assms(2) pre_cok near_def say_def toStage_def)
qed

lemma askNeighbor_ok:
  assumes "pre s"
  shows "res_ok s (askNeighborToReserveAmount env neighbor s)"
proof -
  have b: "res_ok t (breakCallChain t)" "res_ok t (breakCallChain (t\<lparr>mNeighborsKeysProblem := True\<rparr>))"
    "res_ok t (breakCallChain (t\<lparr>mRejectedTrustLines := x\<rparr>))" if "pre t" for t x
    by (rule breakCallChain_ok [OF that]; simp add: near_def)+
  show ?thesis
    unfolding askNeighborToReserveAmount_def Let_def
    by (intro pre_if b pre_throws pre_pure pre_bind [OF _ reserve_calm] pre_quiet [OF _ onPathStats_quiet] pre_waits assms)
      (auto simp: pre_cok [OF assms] pre_cok pre_reserving near_def say_def)
qed

lemma onPathStats_ok:
  assumes "pre s" and "near s t" and "stage_co t = stage_co s" and "\<And>x s1. pre s1 \<Longrightarrow> res_ok s1 (f x s1)"
  shows "res_ok s (bindS (onPathStats i h t) f)"
  using assms by (intro pre_go [OF assms(1,2)] pre_quiet [OF _ onPathStats_quiet]) (simp_all add: pre_reserving)

lemma askFurther_ok: "pre s \<Longrightarrow> res_ok s (askToReserveFurther node i nextNode s)"
  unfolding askToReserveFurther_def
  by (intro pre_pure onPathStats_ok pre_stays) simp_all

lemma requestNext_ok: "pre s \<Longrightarrow> res_ok s (requestNextNode env s)"
  unfolding requestNextNode_def askNeighborToApproveFurtherNodeReservation_def askRemoteNodeToApproveReservation_def
  by (intro pre_pure) (auto intro!: pre_if pre_pure askFurther_ok askNeighbor_ok split: prod.split)

lemma tryReserveNext_ok:
  assumes "pre s"
  shows "res_ok s (tryReserveNextIntermediateNodeAmount env s)"
proof -
  obtain r t where r: "requestNextNode env s = (r, t)" by (meson surj_pair)
  have ok: "res_ok s (r, t)" using requestNext_ok [OF assms] r by metis
  show ?thesis
  proof (cases "r = Inl NotFoundError")
    case False
    then show ?thesis using ok r
      by (auto simp: tryReserveNextIntermediateNodeAmount_def split: sum.split geo_error.split)
  next
    case True
    then have t: "ckept s t" "stage_co t \<in> reserving" using ok by (simp_all add: coord_ok_def isProjectException_def)
    obtain u where u: "onBase (onPayment rollBack) t = (Inr (), u)" "ckept t u" "reservations_co u = []"
      using rollBack_co [OF ckept_cok [OF t(1)]] by blast
    have "res_ok u (bindS (informAllNodesAboutTransactionFinish u) (\<lambda>_ s. returning (resultInsufficientFundsError s) s))"
    proof (rule coord_bind)
      have q: "quiet u (snd (informAllNodesAboutTransactionFinish u))"
        unfolding informAllNodesAboutTransactionFinish_def by (rule informEach_quiet)
      have cu: "cok u" using u(2) by (rule ckept_cok)
      show "ckept u (snd (informAllNodesAboutTransactionFinish u))" using near_kept [OF quiet_near [OF q] cu] .
      show "stage_co s1 \<in> reserving" if "informAllNodesAboutTransactionFinish u = (Inl e, s1)" for e s1
        using q that t(2) u(1) by (auto simp: quiet_def onBase_def onPayment_def split: prod.splits)
      show "res_ok s1 (returning (resultInsufficientFundsError s1) s1)"
        if "informAllNodesAboutTransactionFinish u = (Inr x, s1)" "ckept u s1" for x s1
        using that q u(3) by (intro coord_returns refuses_answers) (auto simp: quiet_def near_def intro: ckept_refl ckept_cok)
    qed
    then have "res_ok s (bindS (informAllNodesAboutTransactionFinish u) (\<lambda>_ s. returning (resultInsufficientFundsError s) s))"
      by (rule coord_trans [OF ckept_trans [OF t(1) u(2)]])
    then show ?thesis using r True u(1) by (simp add: tryReserveNextIntermediateNodeAmount_def)
  qed
qed

section \<open>Answers of the nodes of a path\<close>

lemma noAnswer_ok: "carries_on g \<Longrightarrow> pre s \<Longrightarrow> res_ok s (noAnswer g env b s)"
  unfolding noAnswer_def
  by (intro pre_bind [OF _ dropReservations_calm] pre_quiet [OF _ continueReceiver_quiet] pre_pure)
    (auto intro: pre_next simp: pre_cok pre_reserving split: prod.split)

lemma acceptedByNeighbor_ok: "carries_on again \<Longrightarrow> pre s \<Longrightarrow> res_ok s (acceptedByNeighbor again c a s)"
  unfolding acceptedByNeighbor_def
  by (intro pre_quiet [OF _ onPathStats_quiet] pre_bind [OF _ shortenPath_calm] carries_onD) (simp_all add: pre_cok)

lemma rejectedByNeighbor_ok:
  assumes "carries_on g" and "pre s"
  shows "res_ok s (rejectedByNeighbor g env neighbor k s)"
proof -
  have "res_ok t (g ((rejectLine self neighbor t)\<lparr>mNeighborsKeysProblem := b\<rparr>))" if "pre t" for t self b
    by (rule pre_next [OF assms(1) that]) (simp_all add: near_def rejectLine_def pre_reserving [OF that])
  then show ?thesis
    unfolding rejectedByNeighbor_def using assms(2)
    by (intro pre_bind [OF _ dropReservations_calm] pre_pure) (simp_all add: pre_cok)
qed

lemma neighborAnswered_ok:
  assumes "carries_on again" and "carries_on g" and "pre s"
  shows "res_ok s (neighborAnswered again g env senders pathID state a s)"
  unfolding neighborAnswered_def Let_def using assms
  by (intro pre_if pre_pure pre_stays pre_reject rejectedByNeighbor_ok acceptedByNeighbor_ok) simp_all

lemma popped_ok:
  assumes "pre s" and "\<And>t. pre t \<Longrightarrow> res_ok t (f t)"
  shows "res_ok s (f (popInbox s))"
proof -
  have "near s (popInbox s)" by (simp add: near_def)
  moreover have "stage_co (popInbox s) \<in> reserving" using pre_reserving [OF assms(1)] by simp
  ultimately show ?thesis by (rule pre_go [OF assms(1) _ _ assms(2)])
qed

lemma processNeighborAmount_ok:
  assumes "carries_on again" and "carries_on g" and "pre s"
  shows "res_ok s (processNeighborAmountReservationResponse again g env s)"
proof -
  have "res_ok s (bindS (dropReservationsOnPath env False s) (\<lambda>_. g))"
    using assms by (intro pre_bind [OF _ dropReservations_calm] carries_onD) (simp_all add: pre_cok)
  moreover have "res_ok s (neighborAnswered again g env senders pathID state a (popInbox s))" for senders pathID state a
    by (rule popped_ok [OF assms(3)], rule neighborAnswered_ok [OF assms(1,2)])
  ultimately show ?thesis
    unfolding processNeighborAmountReservationResponse_def
    using noAnswer_ok [OF assms(2,3)] by (auto split: list.split CoordinatorMessage.split)
qed

text \<open>A rejected line is recorded, the receiver is told to go on, and the next path is taken.\<close>

lemma rejected_next:
  assumes "carries_on g" and "pre s" and "near s t" and "stage_co t = stage_co s"
  shows "res_ok s (bindS (continueReceiver t) (\<lambda>_. g))"
proof (rule pre_go [OF assms(2,3)])
  show "stage_co t \<in> reserving" using pre_reserving [OF assms(2)] assms(4) by simp
  assume "pre t"
  then show "res_ok t (bindS (continueReceiver t) (\<lambda>_. g))"
    by (intro pre_quiet [OF _ continueReceiver_quiet] carries_onD [OF assms(1)])
qed

lemma nextNodeInaccessible_ok:
  assumes "carries_on g" and "pre s"
  shows "res_ok s (nextNodeInaccessible g env s)"
proof -
  have "res_ok t (let u = t\<lparr>mCountReceiverInaccessible := mCountReceiverInaccessible t + 1\<rparr>
      in if mCountReceiverInaccessible u \<ge> kMaxReceiverInaccessible
         then rejectWith (\<lambda>_. Answered AnswerRemoteNodeIsInaccessible) u
         else bindS (continueReceiver u) (\<lambda>_. g))" if t: "pre t" for t
    unfolding Let_def
  proof (rule pre_go [OF t])
    let ?u = "t\<lparr>mCountReceiverInaccessible := mCountReceiverInaccessible t + 1\<rparr>"
    show "near t ?u" "stage_co ?u \<in> reserving" using pre_reserving [OF t] by (simp_all add: near_def)
    assume u: "pre ?u"
    show "res_ok ?u (if mCountReceiverInaccessible ?u \<ge> kMaxReceiverInaccessible
         then rejectWith (\<lambda>_. Answered AnswerRemoteNodeIsInaccessible) ?u
         else bindS (continueReceiver ?u) (\<lambda>_. g))"
      by (intro pre_if pre_rejectWith [OF u] pre_quiet [OF u continueReceiver_quiet] carries_onD [OF assms(1)]) simp_all
  qed
  note counted = this
  have off: "res_ok t (bindS (continueReceiver (goOffline node t)) (\<lambda>_. g))" if t: "pre t" for t node
    by (rule rejected_next [OF assms(1) t]) simp_all
  show ?thesis
    unfolding nextNodeInaccessible_def using assms(2) counted off
    by (intro pre_bind [OF _ dropReservations_calm] pre_pure) (auto intro!: pre_pure simp: pre_cok split: prod.split)
qed

lemma furtherRejected_ok: "carries_on g \<Longrightarrow> pre s \<Longrightarrow> res_ok s (furtherRejectedByNeighbor g env s)"
  unfolding furtherRejectedByNeighbor_def
  by (intro pre_bind [OF _ dropReservations_calm] pre_pure) (auto intro: rejected_next simp: pre_cok split: prod.split)

lemma keysAbsentNeighbor_ok: "carries_on g \<Longrightarrow> pre s \<Longrightarrow> res_ok s (keysAbsentAtNeighbor g env neighbor s)"
  unfolding keysAbsentAtNeighbor_def
  by (intro pre_bind [OF _ dropReservations_calm] pre_pure rejected_next) (simp_all add: pre_cok near_def rejectLine_def)

lemma confirmedFurther_ok:
  assumes "\<And>t. pre t \<Longrightarrow> res_ok t (ask t)" and "carries_on g" and "pre s"
  shows "res_ok s (confirmedFurther ask g s)"
  unfolding confirmedFurther_def using assms
  by (intro pre_pure pre_if pathReserved_ok) simp_all

lemma furtherAnswered_ok:
  assumes "carries_on again" and "carries_on g" and "pre s"
  shows "res_ok s (furtherAnswered again g env senders pathID state a s)"
proof -
  have conf: "res_ok t (confirmedFurther again g t)" if "pre t" for t
    using confirmedFurther_ok [OF carries_onD [OF assms(1)] assms(2) that] by blast
  have short: "res_ok t (bindS (shortenPath c a (t\<lparr>mCurrentPathParticipants := x\<rparr>)) (\<lambda>_. confirmedFurther again g))"
    if t: "pre t" for t c x
  proof (rule pre_go [OF t])
    show "near t (t\<lparr>mCurrentPathParticipants := x\<rparr>)" by (simp add: near_def)
    assume u: "pre (t\<lparr>mCurrentPathParticipants := x\<rparr>)"
    then show "res_ok (t\<lparr>mCurrentPathParticipants := x\<rparr>)
        (bindS (shortenPath c a (t\<lparr>mCurrentPathParticipants := x\<rparr>)) (\<lambda>_. confirmedFurther again g))"
      by (intro pre_bind [OF u shortenPath_calm] conf) (simp_all add: pre_cok)
  qed (simp add: pre_reserving [OF t])
  show ?thesis
    unfolding furtherAnswered_def Let_def using assms
    by (intro pre_if pre_pure pre_stays pre_reject nextNodeInaccessible_ok furtherRejected_ok keysAbsentNeighbor_ok
        pre_quiet [OF _ onPathStats_quiet] short) simp_all
qed

lemma processNeighborFurther_ok:
  assumes "carries_on again" and "carries_on g" and "pre s"
  shows "res_ok s (processNeighborFurtherReservationResponse again g env s)"
proof -
  have "res_ok s (furtherAnswered again g env senders pathID state a (popInbox s))" for senders pathID state a
    by (rule popped_ok [OF assms(3)], rule furtherAnswered_ok [OF assms(1,2)])
  then show ?thesis
    unfolding processNeighborFurtherReservationResponse_def
    using noAnswer_ok [OF assms(2,3)] by (auto split: list.split CoordinatorMessage.split)
qed

lemma remoteRejected_ok:
  assumes "carries_on g" and "pre s"
  shows "res_ok s (remoteRejected g env node i nextNode s)"
proof -
  have "quiet t (snd (continueReceiver (rejectLine node nextNode t)))" for t
    by (rule quiet_trans [OF _ continueReceiver_quiet]) (simp add: quiet_def)
  then show ?thesis
    unfolding remoteRejected_def using assms
    by (intro pre_bind [OF _ dropReservations_calm] pre_quiet [OF _ onPathStats_quiet] carries_onD
        pre_quiet [where a = "continueReceiver (rejectLine node nextNode t)" for t]) (simp_all add: pre_cok)
qed

lemma keysAbsentRemote_ok: "carries_on g \<Longrightarrow> pre s \<Longrightarrow> res_ok s (keysAbsentAtRemote g env node nextNode s)"
  unfolding keysAbsentAtRemote_def
  by (intro pre_bind [OF _ dropReservations_calm] rejected_next) (simp_all add: pre_cok near_def rejectLine_def)

lemma acceptedByRemote_ok:
  assumes "carries_on g" and "pre s"
  shows "res_ok s (acceptedByRemote g env senders i a s)"
proof -
  have conf: "res_ok t (confirmedFurther (tryReserveNextIntermediateNodeAmount env) g t)" if "pre t" for t
    by (rule confirmedFurther_ok [OF _ assms(1) that], rule tryReserveNext_ok)
  show ?thesis
    unfolding acceptedByRemote_def
    by (intro onPathStats_ok [OF assms(2)] pre_pure pre_bind [OF _ shortenPath_calm] conf) (simp_all add: near_def pre_cok)
qed

lemma remoteAnswered_ok:
  assumes "carries_on g" and "pre s"
  shows "res_ok s (remoteAnswered g env senders pathID state a s)"
  unfolding remoteAnswered_def using assms
  by (intro pre_if pre_pure pre_stays pre_reject nextNodeInaccessible_ok)
    (auto intro!: pre_if pre_stays pre_reject remoteRejected_ok keysAbsentRemote_ok acceptedByRemote_ok split: prod.split)

lemma processRemote_ok:
  assumes "carries_on g" and "pre s"
  shows "res_ok s (processRemoteNodeResponse g env s)"
proof -
  have "res_ok s (remoteAnswered g env senders pathID state a (popInbox s))" for senders pathID state a
    by (rule popped_ok [OF assms(2)], rule remoteAnswered_ok [OF assms(1)])
  then show ?thesis
    unfolding processRemoteNodeResponse_def
    using noAnswer_ok [OF assms] by (auto split: list.split CoordinatorMessage.split)
qed

section \<open>The direct path, and the loop over the paths\<close>

lemma pre_next_amount: "carries_on g \<Longrightarrow> pre s \<Longrightarrow> near s t \<Longrightarrow> res_ok s (g (toStage Coordinator_AmountReservation t))"
  by (rule pre_next) (auto intro: near_trans)

lemma direct_ok:
  assumes "carries_on g" and "pre s"
  shows "res_ok s (runDirectAmountReservationResponseProcessingStage g env s)"
proof -
  have rej: "res_ok t (directRejected g env senders k t)" if t: "pre t" for t senders k
  proof -
    have "near u ((rejectLine self receiver u)\<lparr>mNeighborsKeysProblem := b\<rparr>)" for u self receiver b
      by (simp add: near_def rejectLine_def)
    then show ?thesis
      unfolding directRejected_def using t
      by (intro pre_bind [OF _ dropReservations_calm] pre_pure pre_next_amount [OF assms(1)]) (simp_all add: pre_cok)
  qed
  have amount: "carries_on (\<lambda>t. g (toStage Coordinator_AmountReservation t))"
    using pre_next_amount [OF assms(1) _ near_refl] by (simp add: carries_on_def)
  have acc: "res_ok t (directAnswered g env senders state a t)" if "pre t" for t senders state a
    unfolding directAnswered_def Let_def using that
    by (intro pre_if pre_pure pre_stays rej pre_bind [OF _ shortenPath_calm] pathReserved_ok [OF amount]) (simp_all add: pre_cok)
  have "res_ok s (directAnswered g env senders state a (popInbox s))" for senders state a
    by (rule popped_ok [OF assms(2) acc])
  moreover have "res_ok s (let u = s\<lparr>mCountReceiverInaccessible := mCountReceiverInaccessible s + 1\<rparr>
      in if mCountReceiverInaccessible u \<ge> kMaxReceiverInaccessible
         then rejectWith (\<lambda>_. Answered AnswerRemoteNodeIsInaccessible) u
         else bindS (dropReservationsOnPath env False u) (\<lambda>_ s. g (toStage Coordinator_AmountReservation s)))"
    unfolding Let_def
  proof (rule pre_go [OF assms(2)])
    let ?u = "s\<lparr>mCountReceiverInaccessible := mCountReceiverInaccessible s + 1\<rparr>"
    show "near s ?u" "stage_co ?u \<in> reserving" using pre_reserving [OF assms(2)] by (simp_all add: near_def)
    assume u: "pre ?u"
    show "res_ok ?u (if mCountReceiverInaccessible ?u \<ge> kMaxReceiverInaccessible
         then rejectWith (\<lambda>_. Answered AnswerRemoteNodeIsInaccessible) ?u
         else bindS (dropReservationsOnPath env False ?u) (\<lambda>_ s. g (toStage Coordinator_AmountReservation s)))"
      by (intro pre_if pre_rejectWith [OF u] pre_bind [OF u dropReservations_calm [OF pre_cok [OF u]]]
          pre_next_amount [OF assms(1)]) simp_all
  qed
  ultimately show ?thesis
    unfolding runDirectAmountReservationResponseProcessingStage_def
    by (auto split: list.split CoordinatorMessage.split)
qed

lemma TTL_quiet [simp]: "quiet s (snd (runTTLTransactionResponse senders s))"
  unfolding runTTLTransactionResponse_def by (intro quiet_pure) (auto intro: quiet_pure)

lemma TTL_continues: "runTTLTransactionResponse senders s = (Inr r, s') \<Longrightarrow> r = ContinuesPrevious"
  by (auto simp: runTTLTransactionResponse_def result_simps split: if_splits)

lemma processCurrentPath_ok:
  assumes "carries_on again" and "carries_on g" and "pre s"
  shows "res_ok s (processCurrentPath again g env s)"
proof -
  have ttl: "res_ok t (runTTLTransactionResponse senders t)" if t: "pre t" for t senders
  proof -
    obtain r u where r: "runTTLTransactionResponse senders t = (r, u)" by (meson surj_pair)
    have q: "quiet t u" using TTL_quiet [of t senders] r by simp
    then have "ckept t u" "stage_co u \<in> reserving"
      using t near_kept by (simp_all add: quiet_def pre_def)
    then show ?thesis
      using r TTL_continues [of senders t _ u] by (cases r) (auto simp: coord_ok_def answers_def stage_ok_def)
  qed
  have "res_ok s (runTTLTransactionResponse senders (popInbox s))" for senders
    by (rule popped_ok [OF assms(3) ttl])
  moreover have "res_ok s (bindS (currentAmountReservationPathStats s, s) (\<lambda>kPathStats s.
      if \<not> containsIntermediateNodes kPathStats then tryReserveAmountDirectlyOnReceiver g env s
      else if isReadyToSendNextReservationRequest kPathStats then tryReserveNextIntermediateNodeAmount env s
      else if isWaitingForNeighborReservationResponse kPathStats
      then processNeighborAmountReservationResponse again g env s
      else if isWaitingForNeighborReservationPropagationResponse kPathStats
      then processNeighborFurtherReservationResponse again g env s
      else if isWaitingForReservationResponse kPathStats then processRemoteNodeResponse g env s
      else throwing RuntimeError s))"
    using assms
    by (intro pre_pure pre_if directly_ok tryReserveNext_ok processNeighborAmount_ok processNeighborFurther_ok
        processRemote_ok pre_throws)
  ultimately show ?thesis
    unfolding processCurrentPath_def by (auto split: list.split CoordinatorMessage.split)
qed

lemma buildNewPaths_ok:
  assumes "carries_on again" and "pre s"
  shows "res_ok s (buildNewPaths again env s)"
  unfolding buildNewPaths_def Let_def
proof (rule pre_go [OF assms(2)])
  let ?u = "s\<lparr>mRebuildingAttemptsCount := mRebuildingAttemptsCount s + 1\<rparr>"
  show "near s ?u" "stage_co ?u \<in> reserving" using pre_reserving [OF assms(2)] by (simp_all add: near_def)
  assume u: "pre ?u"
  have init: "res_ok t (bindS (initAmountsReservationOnNextPath (t\<lparr>mPreviousInaccessibleNodesCount := length (inaccessibleNodes t),
        mPreviousRejectedTrustLinesCount := length (mRejectedTrustLines t), mDirectPathIsAlreadyProcessed := False\<rparr>)) (\<lambda>_. again))"
    if t: "pre t" for t
  proof (rule pre_go [OF t])
    let ?v = "t\<lparr>mPreviousInaccessibleNodesCount := length (inaccessibleNodes t),
        mPreviousRejectedTrustLinesCount := length (mRejectedTrustLines t), mDirectPathIsAlreadyProcessed := False\<rparr>"
    show "near t ?v" "stage_co ?v \<in> reserving" using pre_reserving [OF t] by (simp_all add: near_def)
    assume v: "pre ?v"
    show "res_ok ?v (bindS (initAmountsReservationOnNextPath ?v) (\<lambda>_. again))"
      by (rule pre_quiet [OF v initAmounts_quiet carries_onD [OF assms(1)]])
  qed
  show "res_ok ?u (if mRebuildingAttemptsCount ?u > kMaxRebuildingAttemptsCount then rejectWith resultInsufficientFundsError ?u
         else if length (inaccessibleNodes ?u) \<noteq> mPreviousInaccessibleNodesCount ?u \<or>
                 length (mRejectedTrustLines ?u) \<noteq> mPreviousRejectedTrustLinesCount ?u
         then bindS (buildPathsAgain env ?u) (\<lambda>_ s.
               if length (mPathsStats s) > length (mPathsStats ?u)
               then bindS (initAmountsReservationOnNextPath
                      (s\<lparr>mPreviousInaccessibleNodesCount := length (inaccessibleNodes s),
                         mPreviousRejectedTrustLinesCount := length (mRejectedTrustLines s),
                         mDirectPathIsAlreadyProcessed := False\<rparr>)) (\<lambda>_. again)
               else rejectWith resultInsufficientFundsError s)
         else rejectWith resultInsufficientFundsError ?u)"
    by (intro pre_if pre_rejectWith [OF u] pre_quiet [OF u buildPathsAgain_quiet] init pre_rejectWith refuses_insufficient)
qed

text \<open>The two mutually recursive functions, by induction on the depth.\<close>

lemma reservation_stage_ok:
  "carries_on (runAmountReservationStage_coordinator n env)" "carries_on (tryProcessNextPath n env)"
proof (induction n)
  case 0
  have "res_ok s (returning OutOfFuel s)" if "pre s" for s
    by (rule coord_returns) (simp_all add: answers_def ckept_refl pre_cok [OF that])
  then show "carries_on (runAmountReservationStage_coordinator 0 env)" "carries_on (tryProcessNextPath 0 env)"
    by (simp_all add: carries_on_def)
next
  case (Suc n)
  let ?again = "runAmountReservationStage_coordinator n env" and ?g = "tryProcessNextPath n env"
  have next_ok: "res_ok s (tryProcessNextPath (Suc n) env s)" if s: "pre s" for s
  proof -
    let ?u = "s\<lparr>mCurrentPathParticipants := []\<rparr>"
    have go: "res_ok s (bindS (switchToNextPath ?u) (\<lambda>_. ?again))"
    proof (rule pre_go [OF s])
      show "near s ?u" "stage_co ?u \<in> reserving" using pre_reserving [OF s] by (simp_all add: near_def)
      assume u: "pre ?u"
      show "res_ok ?u (bindS (switchToNextPath ?u) (\<lambda>_. ?again))"
        by (rule pre_quiet [OF u switch_quiet carries_onD [OF Suc.IH(1)]])
    qed
    obtain r t where r: "bindS (switchToNextPath ?u) (\<lambda>_. ?again) = (r, t)" by (meson surj_pair)
    show ?thesis
    proof (cases "r = Inl NotFoundError")
      case False
      then show ?thesis using go r by (auto split: sum.split geo_error.split)
    next
      case True
      then have "ckept s t" "pre t" using go r by (auto simp: coord_ok_def isProjectException_def pre_def dest: ckept_cok)
      then show ?thesis
        using coord_trans [OF \<open>ckept s t\<close> buildNewPaths_ok [OF Suc.IH(1)]] r True by simp
    qed
  qed
  have stage: "res_ok s (runAmountReservationStage_coordinator (Suc n) env s)" if s: "pre s" for s
  proof -
    have t: "res_ok t (processCurrentPath ?again ?g env (t\<lparr>mReservationsStage := x\<rparr>))" if t: "pre t" for t x
    proof (rule pre_go [OF t])
      show "near t (t\<lparr>mReservationsStage := x\<rparr>)" "stage_co (t\<lparr>mReservationsStage := x\<rparr>) \<in> reserving"
        using pre_reserving [OF t] by (simp_all add: near_def)
    qed (rule processCurrentPath_ok [OF Suc.IH])
    have two: "res_ok s (?g (s\<lparr>mReservationsStage := 1\<rparr>))"
      by (rule pre_next [OF Suc.IH(2) s]) (simp_all add: near_def pre_reserving [OF s])
    show ?thesis
      unfolding runAmountReservationStage_coordinator.simps
      by (intro pre_if pre_quiet [OF s initAmounts_quiet] t two processCurrentPath_ok [OF Suc.IH s] pre_throws [OF s])
  qed
  show "carries_on (runAmountReservationStage_coordinator (Suc n) env)" "carries_on (tryProcessNextPath (Suc n) env)"
    using next_ok stage unfolding carries_on_def by blast+
qed

section \<open>The first and the final stages\<close>

lemma coord_mono: "coord_ok X s r \<Longrightarrow> (\<And>t. X t \<Longrightarrow> Y t) \<Longrightarrow> coord_ok Y s r"
  by (auto simp: coord_ok_def split: sum.splits)

abbreviation stg_ok :: "CoordinatorState \<Rightarrow> CoordinatorResult result \<times> CoordinatorState \<Rightarrow> bool" where
  "stg_ok \<equiv> coord_ok stage_ok"

lemma res_stg: "res_ok s r \<Longrightarrow> stg_ok s r"
  by (erule coord_mono) (simp add: stage_ok_def)

lemma stage_ok_quiet: "quiet s t \<Longrightarrow> stage_ok s \<Longrightarrow> stage_ok t"
  using near_outgoing [of s t] by (auto simp: stage_ok_def quiet_def near_def)

text \<open>The other stages do not reserve: they keep \<open>settled\<close>.\<close>

definition settled :: "CoordinatorState \<Rightarrow> bool" where
  "settled s \<longleftrightarrow> cok s \<and> stage_ok s"

lemma settled_quiet: "quiet s t \<Longrightarrow> settled s \<Longrightarrow> settled t"
  using stage_ok_quiet near_kept quiet_near ckept_cok unfolding settled_def by metis

lemma stg_bind:
  assumes "settled s" and "quiet s (snd a)" and "\<And>x s1. a = (Inr x, s1) \<Longrightarrow> quiet s s1 \<Longrightarrow> settled s1 \<Longrightarrow> stg_ok s1 (f x s1)"
  shows "stg_ok s (bindS a f)"
proof (rule coord_bind)
  show "ckept s (snd a)" using near_kept quiet_near assms(1,2) by (simp add: settled_def)
  show "stage_ok s1" if "a = (Inl e, s1)" for e s1 using that assms(1,2) stage_ok_quiet by (simp add: settled_def)
  show "stg_ok s1 (f x s1)" if "a = (Inr x, s1)" for x s1
    using that assms(3) [OF that] assms(2) settled_quiet [OF _ assms(1)] by simp
qed

lemma stg_pure: "settled s \<Longrightarrow> (\<And>x. r = Inr x \<Longrightarrow> stg_ok s (f x s)) \<Longrightarrow> stg_ok s (bindS (r, s) f)"
  by (rule stg_bind) auto

lemma stg_at: "settled s \<Longrightarrow> quiet s t \<Longrightarrow> (settled t \<Longrightarrow> stg_ok t r) \<Longrightarrow> stg_ok s r"
  using settled_quiet coord_trans near_kept quiet_near unfolding settled_def by metis

lemma stg_refuses: "settled s \<Longrightarrow> near s t \<Longrightarrow> refuses r \<Longrightarrow> reservations_co s = [] \<Longrightarrow> stg_ok s (returning r t)"
  by (rule coord_returns) (auto simp: settled_def near_def intro: refuses_answers near_kept)

lemma stg_waits: "settled s \<Longrightarrow> near s t \<Longrightarrow> stage_ok t \<Longrightarrow> waits r \<Longrightarrow> stg_ok s (returning r t)"
  by (rule coord_returns) (auto simp: settled_def intro: waits_answers near_kept)

lemma stg_stays: "settled s \<Longrightarrow> quiet s t \<Longrightarrow> waits r \<Longrightarrow> stg_ok s (returning r t)"
  using stg_waits quiet_near stage_ok_quiet unfolding settled_def by metis

lemma stg_reject: "settled s \<Longrightarrow> quiet s t \<Longrightarrow> stg_ok s (rejectCoordinator t)"
  by (rule stg_at) (auto simp: settled_def intro: reject_ok)

lemma initialization_ok:
  assumes "settled s" and "stage_co s = Coordinator_Initialization"
  shows "stg_ok s (runPaymentInitializationStage env s)"
proof -
  have none: "reservations_co s = []" using assms by (simp add: settled_def stage_ok_def stage_sets)
  have refuse: "stg_ok s (returning r s)" if "refuses r" for r
    using stg_refuses [OF assms(1) near_refl that none] .
  have "stg_ok s (returning (WaitsForResource k d) (toStage Coordinator_ReceiverResourceProcessing (say m s)))" for k d m
    using none
    by (intro stg_waits [OF assms(1)])
      (auto simp: stage_ok_def firstStages_def say_def toStage_def near_def)
  then show ?thesis
    unfolding runPaymentInitializationStage_def using assms(1)
    by (auto intro!: refuse stg_pure)
qed

lemma pathsResource_ok:
  assumes "settled s" and "stage_co s = Coordinator_ReceiverResourceProcessing"
  shows "stg_ok s (runPathsResourceProcessingStage env s)"
proof -
  have none: "reservations_co s = []" using assms by (simp add: settled_def stage_ok_def stage_sets)
  have "stg_ok s (bindS (addValidPaths env paths (s\<lparr>resources := rest\<rparr>)) (\<lambda>_ s.
            if mPathsStats s = [] then returning (Answered AnswerNoRoutes) s
            else bindS (mainAddress (mContractor s), s) (\<lambda>receiver s.
              returning (WaitsForMessages [Kind_ReceiverInitPaymentResponse, Kind_NoEquivalent] (maxNetworkDelay 4))
                (toStage Coordinator_ReceiverResponseProcessing
                   (say (SendReceiverInitRequest receiver (mCommandAmount s)) s)))))" (is "stg_ok s ?r") for paths rest
  proof (rule stg_at [OF assms(1), of "s\<lparr>resources := rest\<rparr>"])
    assume t: "settled (s\<lparr>resources := rest\<rparr>)"
    show "stg_ok (s\<lparr>resources := rest\<rparr>) ?r"
    proof (rule stg_bind [OF t addValidPaths_quiet])
      fix x u assume u: "quiet (s\<lparr>resources := rest\<rparr>) u" "settled u"
      have nu: "reservations_co u = []" using u(1) none by (simp add: quiet_def near_def)
      have "stg_ok u (returning (WaitsForMessages ks d) (toStage Coordinator_ReceiverResponseProcessing (say m u)))" for ks d m
        using nu by (intro stg_waits [OF u(2)]) (auto simp: stage_ok_def firstStages_def say_def toStage_def near_def)
      then show "stg_ok u (if mPathsStats u = [] then returning (Answered AnswerNoRoutes) u
            else bindS (mainAddress (mContractor u), u) (\<lambda>receiver s.
              returning (WaitsForMessages [Kind_ReceiverInitPaymentResponse, Kind_NoEquivalent] (maxNetworkDelay 4))
                (toStage Coordinator_ReceiverResponseProcessing
                   (say (SendReceiverInitRequest receiver (mCommandAmount s)) s))))"
        using stg_refuses [OF u(2) near_refl _ nu] by (auto intro!: stg_pure u(2))
    qed
  qed (simp add: quiet_def near_def)
  then show ?thesis
    unfolding runPathsResourceProcessingStage_def
    using stg_refuses [OF assms(1) near_refl _ none, of "Answered AnswerNoRoutes"]
    by (simp split: list.split CoordinatorResource.split)
qed

lemma receiverResponse_ok:
  assumes "settled s" and "stage_co s = Coordinator_ReceiverResponseProcessing" and "carries_on again"
  shows "stg_ok s (runReceiverResponseProcessingStage again env s)"
proof -
  have none: "reservations_co s = []" using assms(1,2) by (simp add: settled_def stage_ok_def stage_sets)
  have refuse: "stg_ok s (returning r t)" if "refuses r" "near s t" for r t
    using stg_refuses [OF assms(1) that(2,1) none] .
  have go: "stg_ok u (again (toStage Coordinator_AmountReservation u))" if "settled u" for u
  proof (rule coord_near [OF near_toStage])
    show "cok u" using that by (simp add: settled_def)
    assume "cok (toStage Coordinator_AmountReservation u)"
    then show "stg_ok (toStage Coordinator_AmountReservation u) (again (toStage Coordinator_AmountReservation u))"
      by (intro res_stg carries_onD [OF assms(3)]) (simp add: pre_def)
  qed
  have accepted: "stg_ok s (bindS (addMember self (s\<lparr>inbox := x, mCurrentFreePaymentID := i\<rparr>)) (\<lambda>_ s.
      bindS (addMember (mContractor s) s) (\<lambda>_ s. again (toStage Coordinator_AmountReservation s))))" for self x i
  proof (rule stg_at [OF assms(1), of "s\<lparr>inbox := x, mCurrentFreePaymentID := i\<rparr>"])
    assume t: "settled (s\<lparr>inbox := x, mCurrentFreePaymentID := i\<rparr>)"
    show "stg_ok (s\<lparr>inbox := x, mCurrentFreePaymentID := i\<rparr>)
      (bindS (addMember self (s\<lparr>inbox := x, mCurrentFreePaymentID := i\<rparr>)) (\<lambda>_ s.
        bindS (addMember (mContractor s) s) (\<lambda>_ s. again (toStage Coordinator_AmountReservation s))))"
      by (intro stg_bind [OF t addMember_quiet] stg_bind [OF _ addMember_quiet] go)
  qed (simp add: quiet_def near_def)
  have "near s (popInbox s)" by (simp add: near_def)
  then show ?thesis
    unfolding runReceiverResponseProcessingStage_def
    using accepted refuse by (auto simp: Let_def split: list.split CoordinatorMessage.split)
qed

section \<open>Final amounts\<close>

definition final :: "CoordinatorState \<Rightarrow> bool" where
  "final s \<longleftrightarrow> cok s \<and> stage_co s \<in> finalStages \<and> outgoing_co s = mCommandAmount s"

lemma final_settled: "final s \<Longrightarrow> settled s"
  by (simp add: final_def settled_def stage_ok_def)

lemma settled_final: "settled s \<Longrightarrow> stage_co s \<in> finalStages \<Longrightarrow> final s"
  by (auto simp: final_def settled_def stage_ok_def stage_sets)

lemma final_near: "final s \<Longrightarrow> near s t \<Longrightarrow> stage_co t \<in> finalStages \<Longrightarrow> final t"
  using near_outgoing [of s t] near_kept [of s t] ckept_cok by (auto simp: final_def near_def)

lemma final_quiet: "final s \<Longrightarrow> quiet s t \<Longrightarrow> final t"
  using final_near [of s t] by (simp add: quiet_def final_def)

lemma final_waits: "final s \<Longrightarrow> near s t \<Longrightarrow> stage_co t \<in> finalStages \<Longrightarrow> waits r \<Longrightarrow> stg_ok s (returning r t)"
  using stg_waits [of s t r] final_settled [of t] final_near [of s t] final_settled [of s] by (simp add: settled_def)

lemma setKeys_quiet [simp]: "quiet s (setKeys ks s)"
  by (simp add: setKeys_def quiet_def near_def)

lemma finalAmountsOf_quiet: "finalAmountsOf k s = (x, t) \<Longrightarrow> quiet s t"
  by (auto simp: finalAmountsOf_def quiet_def near_def split: option.splits)

lemma sendFinalAmountsTo_quiet [simp]: "quiet s (snd (sendFinalAmountsTo env key b nodes s))"
proof (induction nodes arbitrary: s)
  case (Cons x nodes)
  obtain i addresses where x: "x = (i, addresses)" by (cases x)
  have sent: "quiet u (snd (sendFinalAmountsTo env key b nodes (say m t)))" if "quiet u t" for u t m
    using quiet_trans [OF quiet_trans [OF that quiet_say] Cons.IH] .
  have told: "quiet u (snd (case finalAmountsOf k u of (amounts, t) \<Rightarrow>
      sendFinalAmountsTo env key b nodes (say (h amounts t) t)))" for u k h
    using sent finalAmountsOf_quiet by (cases "finalAmountsOf k u") simp
  show ?case
    using Cons.IH told by (auto simp: x Let_def intro!: quiet_pure split: option.split)
qed simp

lemma announce_ok:
  assumes "final s"
  shows "stg_ok s (announceFinalAmounts env b s)"
  unfolding announceFinalAmounts_def
proof (rule stg_at [OF final_settled [OF assms] setKeys_quiet], rule stg_pure)
  fix key
  let ?t = "setKeys [] s" let ?u = "(setKeys [(kCoordinatorPaymentNodeID, key)] ?t)\<lparr>ownPublicKey := Some key\<rparr>"
  have qt: "quiet s ?t" by simp
  have q: "quiet ?t ?u" by (rule quiet_trans [OF setKeys_quiet]) (simp add: quiet_def near_def)
  have t: "final ?t" by (rule final_quiet [OF assms qt])
  have wait: "stg_ok v (returning (WaitsForMessages ks d) (toStage Coordinator_FinalAmountsConfigurationConfirmation v))"
    if "final v" for v ks d
    using that by (intro final_waits) (auto simp: finalStages_def)
  show "stg_ok ?t (bindS (sendFinalAmountsTo env key b (members ?t) ?u) (\<lambda>stored s.
       if \<not> stored then rejectCoordinator s
       else returning
              (WaitsForMessages [Kind_FinalAmountsConfigurationResponse, Kind_TTLProlongationRequest] (maxNetworkDelay 6))
              (toStage Coordinator_FinalAmountsConfigurationConfirmation s)))"
  proof (rule stg_at [OF final_settled [OF t] q], rule stg_bind [OF _ sendFinalAmountsTo_quiet])
    show "settled ?u" using final_settled [OF final_quiet [OF t q]] .
    fix stored v assume v: "quiet ?u v"
    have "final v" using final_quiet [OF final_quiet [OF t q] v] .
    then show "stg_ok v (if \<not> stored then rejectCoordinator v
       else returning
              (WaitsForMessages [Kind_FinalAmountsConfigurationResponse, Kind_TTLProlongationRequest] (maxNetworkDelay 6))
              (toStage Coordinator_FinalAmountsConfigurationConfirmation v))"
      using wait stg_reject [OF final_settled quiet_refl] by simp
  qed
next
  show "settled (setKeys [] s)" by (rule settled_quiet [OF setKeys_quiet final_settled [OF assms]])
qed

lemma finalAmounts_ok:
  assumes "final s"
  shows "stg_ok s (sendFinalAmountsConfigurationToAllParticipants env s)"
proof -
  have unexpected: "stg_ok s (returning (Answered AnswerUnexpectedError) s)"
    using assms by (intro coord_returns) (auto simp: final_def answers_def ckept_refl)
  have "stg_ok s (bindS (mainAddress (mContractor s), t) (\<lambda>receiver s.
       if length (entries (payment (common s)) (contractorIDByAddress (coordinatorContractors env) receiver)) > 1
       then rejectCoordinator s else announceFinalAmounts env b s))" if t: "quiet s t" for t b
  proof (rule stg_at [OF final_settled [OF assms] t], rule stg_pure)
    fix receiver
    have f: "final t" by (rule final_quiet [OF assms t])
    show "stg_ok t (if length (entries (payment (common t)) (contractorIDByAddress (coordinatorContractors env) receiver)) > 1
       then rejectCoordinator t else announceFinalAmounts env b t)"
      using announce_ok [OF f] stg_reject [OF final_settled [OF f] quiet_refl] by simp
  qed
  then show ?thesis
    unfolding sendFinalAmountsConfigurationToAllParticipants_def Let_def
    using unexpected by (simp add: quiet_def near_def split: list.split CoordinatorResource.split)
qed

lemma sendKeysTo_quiet [simp]: "quiet s (snd (sendKeysTo chosen nodes s))"
proof (induction nodes arbitrary: s)
  case (Cons x nodes)
  have "quiet s (snd (sendKeysTo chosen nodes (say m s)))" for m using quiet_trans [OF quiet_say Cons.IH] .
  then show ?case using Cons.IH by (cases x) (auto intro!: quiet_pure)
qed simp

lemma propagate_ok:
  assumes "final s"
  shows "stg_ok s (propagateVotesListAndWaitForVotingResult s)"
  unfolding propagateVotesListAndWaitForVotingResult_def
proof (rule stg_bind [OF final_settled [OF assms] sendKeysTo_quiet])
  fix x t assume "quiet s t"
  then have "final t" by (rule final_quiet [OF assms])
  then show "stg_ok t (returning (waitForVotes (maxNetworkDelay 4))
      (toStage Common_VotesChecking (t\<lparr>common := (common t)\<lparr>mParticipantsSignatures := []\<rparr>\<rparr>)))"
    by (rule final_waits) (simp_all add: near_def toStage_def finalStages_def)
qed

lemma TTL_ok: "settled s \<Longrightarrow> quiet s t \<Longrightarrow> stg_ok s (runTTLTransactionResponse senders t)"
proof (rule stg_at [of s t])
  assume t: "settled t"
  obtain r u where r: "runTTLTransactionResponse senders t = (r, u)" by (meson surj_pair)
  have q: "quiet t u" using TTL_quiet [of t senders] r by simp
  show "stg_ok t (runTTLTransactionResponse senders t)"
  proof (cases r)
    case (Inl e)
    then show ?thesis using r t q near_kept [OF quiet_near [OF q]] stage_ok_quiet [OF q]
      by (simp add: coord_throws settled_def)
  next
    case (Inr y)
    then show ?thesis using r stg_stays [OF t q] TTL_continues [of senders t y u] by simp
  qed
qed

lemma confirmation_ok:
  assumes "final s"
  shows "stg_ok s (runFinalAmountsConfigurationConfirmation_coordinator s)"
proof -
  note set = final_settled [OF assms]
  have pop: "quiet s (popInbox s)" by (simp add: quiet_def near_def)
  have answered: "stg_ok s (bindS (firstSender senders, popInbox s) (\<lambda>sender s.
            case map_of (nodesIds s) (fullAddress sender) of
              None \<Rightarrow> returning ContinuesPrevious s
            | Some i \<Rightarrow>
                if \<not> accepts then rejectCoordinator (say RemoveStoredData s)
                else
                  (let s = setKeys (ordUpdate i key (mParticipantsPublicKeys (common s))) s
                   in if length (mParticipantsPublicKeys (common s)) < length (nodesIds s)
                      then returning
                        (WaitsForMessages [Kind_FinalAmountsConfigurationResponse, Kind_TTLProlongationRequest]
                           (maxNetworkDelay 2)) s
                      else propagateVotesListAndWaitForVotingResult s)))" for senders accepts key
  proof (rule stg_at [OF set pop], rule stg_pure)
    fix sender
    assume t: "settled (popInbox s)"
    have k: "stg_ok (popInbox s) (propagateVotesListAndWaitForVotingResult (setKeys ks (popInbox s)))" for ks
    proof (rule stg_at [OF t setKeys_quiet propagate_ok])
      show "final (setKeys ks (popInbox s))" by (rule final_quiet [OF final_quiet [OF assms pop] setKeys_quiet])
    qed
    show "stg_ok (popInbox s) (case map_of (nodesIds (popInbox s)) (fullAddress sender) of
              None \<Rightarrow> returning ContinuesPrevious (popInbox s)
            | Some i \<Rightarrow>
                if \<not> accepts then rejectCoordinator (say RemoveStoredData (popInbox s))
                else
                  (let s = setKeys (ordUpdate i key (mParticipantsPublicKeys (common (popInbox s)))) (popInbox s)
                   in if length (mParticipantsPublicKeys (common s)) < length (nodesIds s)
                      then returning
                        (WaitsForMessages [Kind_FinalAmountsConfigurationResponse, Kind_TTLProlongationRequest]
                           (maxNetworkDelay 2)) s
                      else propagateVotesListAndWaitForVotingResult s))"
      using k stg_stays [OF t setKeys_quiet] stg_stays [OF t quiet_refl] stg_reject [OF t quiet_say]
      by (simp add: Let_def split: option.split)
  qed (use settled_quiet [OF pop set] in simp)
  then show ?thesis
    unfolding runFinalAmountsConfigurationConfirmation_coordinator_def
    using TTL_ok [OF set pop] stg_reject [OF set quiet_say]
    by (auto split: list.split CoordinatorMessage.split)
qed

section \<open>Votes and the commit\<close>

definition knows_co :: "CoordinatorEnv \<Rightarrow> CoordinatorState \<Rightarrow> bool" where
  "knows_co env s \<longleftrightarrow> (\<forall>c \<in> set (keys (mTrustLines (linesManager (common s)))).
     \<exists>a. contractorMainAddress (coordinatorContractors env) c = Inr a)"

definition balance_co :: "CoordinatorState \<Rightarrow> int" where
  "balance_co s = sumOfBalances (linesManager (common s))"

definition storage_ok :: "CoordinatorEnv \<Rightarrow> bool" where
  "storage_ok env \<longleftrightarrow> commitStorageOk (votes (nodeEnv env))"

text \<open>A voting stage may also commit: the amount of the command is paid and nothing stays reserved.\<close>

definition vote_ok :: "CoordinatorEnv \<Rightarrow> CoordinatorState \<Rightarrow> CoordinatorResult result \<times> CoordinatorState \<Rightarrow> bool" where
  "vote_ok env s = (\<lambda>(res, s').
     stg_ok s (res, s') \<or>
     cok s' \<and> others_kept (held_co s) (held_co s') \<and> mCommandAmount s' = mCommandAmount s \<and>
     balance_co s' = balance_co s - int (mCommandAmount s) \<and> reservations_co s' = [] \<and>
     res = (if storage_ok env then Inr (Answered AnswerOK) else Inl IOError))"

lemma vote_of_stg: "stg_ok s r \<Longrightarrow> vote_ok env s r"
  by (cases r) (simp add: vote_ok_def)

lemma vote_trans:
  assumes "ckept s t" and "vote_ok env t r"
  shows "vote_ok env s r"
proof -
  have b: "balance_co t = balance_co s" "mCommandAmount t = mCommandAmount s" "others_kept (held_co s) (held_co t)"
    using assms(1) wkept_total [of "held_co s" "held_co t"] wkept_others [of "held_co s" "held_co t"]
    by (simp_all add: ckept_def balance_co_def)
  show ?thesis
    using assms(2) coord_trans [OF assms(1)] b by (auto simp: vote_ok_def intro: others_kept_trans)
qed

lemma vote_bind:
  assumes "final s" and "quiet s (snd a)" and "\<And>x s1. a = (Inr x, s1) \<Longrightarrow> quiet s s1 \<Longrightarrow> final s1 \<Longrightarrow> vote_ok env s1 (f x s1)"
  shows "vote_ok env s (bindS a f)"
proof (cases a)
  case (Pair res s1)
  have q: "quiet s s1" using assms(2) Pair by simp
  have f: "final s1" using final_quiet [OF assms(1) q] .
  have k: "ckept s s1" using near_kept [OF quiet_near [OF q]] assms(1) by (simp add: final_def)
  show ?thesis
  proof (cases res)
    case (Inl e)
    then show ?thesis
      using Pair k final_settled [OF f] by (auto intro!: vote_of_stg coord_throws simp: settled_def)
  next
    case (Inr x)
    then show ?thesis using Pair vote_trans [OF k] assms(3) [of x s1] q f by simp
  qed
qed

lemma vote_pure: "final s \<Longrightarrow> (\<And>x. r = Inr x \<Longrightarrow> vote_ok env s (f x s)) \<Longrightarrow> vote_ok env s (bindS (r, s) f)"
  by (rule vote_bind) auto

lemma vote_at:
  assumes "final s" and "quiet s t" and "final t \<Longrightarrow> vote_ok env t r"
  shows "vote_ok env s r"
  using vote_trans near_kept [OF quiet_near [OF assms(2)]] assms(3) final_quiet [OF assms(1,2)] assms(1)
  unfolding final_def by blast

lemma knows_quiet: "quiet s t \<Longrightarrow> knows_co env s \<Longrightarrow> knows_co env t"
  by (simp add: knows_co_def quiet_def near_def)

lemma sendVotesTo_quiet [simp]: "quiet s (snd (sendVotesTo nodes s))"
proof (induction nodes arbitrary: s)
  case (Cons x nodes)
  have "quiet s (snd (sendVotesTo nodes (say m s)))" for m using quiet_trans [OF quiet_say Cons.IH] .
  then show ?case using Cons.IH by (cases x) (auto intro!: quiet_pure)
qed simp

lemma writePaymentEvent_quiet [simp]: "quiet s (snd (writePaymentEvent s))"
  unfolding writePaymentEvent_def Let_def by (intro quiet_pure) simp

text \<open>The commit itself.\<close>

lemma approve_vote:
  assumes "final s" and "knows_co env s"
  shows "vote_ok env s (bindS (onBase (approve (voteEnv (nodeEnv env))) s) (\<lambda>_. returning (Answered AnswerOK)))"
proof -
  let ?v = "voteEnv (nodeEnv env)"
  have throws: "vote_ok env s (throwing e t)" if "\<not> isProjectException e" for e t
    using that by (simp add: vote_ok_def coord_ok_def)
  have v: "commitStorageOk ?v = storage_ok env" "signalsCycles ?v"
    by (simp_all add: voteEnv_def storage_ok_def)
  have known: "\<forall>c \<in> set (keys (mTrustLines (linesManager (common s)))). \<exists>a. contractorAddress ?v c = Inr a"
    using assms(2) by (fastforce simp: knows_co_def voteEnv_def)
  show ?thesis
  proof (cases "committedAmount ?v (payment (common s))")
    case (Inl e)
    then show ?thesis
      using assms(1) final_settled [OF assms(1)]
      by (auto simp: onBase_def approve_def settled_def intro!: vote_of_stg coord_throws ckept_refl)
  next
    case (Inr k)
    obtain res p m where c: "commit (contractorAddress ?v) (storage_ok env) (held_co s) = (res, p, m)" by (metis prod_cases3)
    let ?t = "s\<lparr>common := (common s)\<lparr>payment := p, linesManager := m\<rparr>\<rparr>"
    show ?thesis
    proof (cases "\<exists>e. res = Inl e \<and> \<not> isProjectException e")
      case True
      then show ?thesis
        using Inr c v throws by (auto simp: onBase_def approve_def onPayment_def)
    next
      case False
      have w: "weak_ok (payment (common s), linesManager (common s))" using assms(1) by (simp add: final_def cok_def)
      have cw: "res = (if storage_ok env then Inr () else Inl IOError)" "weak_ok (p, m)" "txReservations p = []"
        "others_kept (held_co s) (p, m)" "sumOfBalances m = sumOfBalances (linesManager (common s)) + netOf (payment (common s))"
        using commit_weak [OF w known c] False by simp_all
      have "netOf (payment (common s)) = - int (mCommandAmount s)"
        using assms(1) by (simp add: netOf_flows final_def cok_def)
      then have "vote_ok env s (if storage_ok env then Inr (Answered AnswerOK) else Inl IOError,
          s\<lparr>common := v\<rparr>)" if "payment v = p" "linesManager v = m" for v
        using cw that by (auto simp: vote_ok_def cok_def balance_co_def flowOf_Nil)
      then show ?thesis
        using Inr c v cw(1) by (auto simp: onBase_def approve_def onPayment_def Let_def)
    qed
  qed
qed

lemma approveCoordinator_vote:
  assumes "final s" and "knows_co env s"
  shows "vote_ok env s (approveCoordinator env s)"
  unfolding approveCoordinator_def
  by (intro vote_bind [OF assms(1) sendVotesTo_quiet] vote_bind [OF _ writePaymentEvent_quiet] approve_vote)
    (use assms(2) knows_quiet in blast)+

lemma addSignature_quiet [simp]: "quiet s (addSignature i x s)"
  by (simp add: addSignature_def quiet_def near_def)

lemma vote_reject: "final s \<Longrightarrow> quiet s t \<Longrightarrow> vote_ok env s (rejectCoordinator t)"
  by (intro vote_of_stg stg_reject final_settled)

lemma ownVote_vote:
  assumes "final s" and "knows_co env s"
  shows "vote_ok env s (ownVote env s)"
  unfolding ownVote_def
proof (rule vote_pure [OF assms(1)])
  fix sign
  have "vote_ok env s (bindS (savePayment (votes (nodeEnv env)), addSignature i x s) (\<lambda>_. approveCoordinator env))" for i x
  proof (rule vote_at [OF assms(1) addSignature_quiet], rule vote_pure)
    assume f: "final (addSignature i x s)"
    show "vote_ok env (addSignature i x s) (approveCoordinator env (addSignature i x s))"
      using approveCoordinator_vote [OF f knows_quiet [OF addSignature_quiet assms(2)]] .
  qed
  then show "vote_ok env s (case sign of
         None \<Rightarrow> rejectCoordinator (say RemoveStoredData s)
       | Some signature \<Rightarrow>
           bindS (savePayment (votes (nodeEnv env)), addSignature kCoordinatorPaymentNodeID signature s)
             (\<lambda>_. approveCoordinator env))"
    using vote_reject [OF assms(1) quiet_say] by (simp split: option.split)
qed

lemma participantVoted_vote:
  assumes "final s" and "knows_co env s"
  shows "vote_ok env s (participantVoted env senders vote s)"
  unfolding participantVoted_def
proof (rule vote_pure [OF assms(1)])
  fix sender
  note set = final_settled [OF assms(1)]
  have "vote_ok env s (throwing UndefinedBehaviour s)" by (simp add: vote_ok_def coord_ok_def isProjectException_def)
  moreover have "vote_ok env s (let s = addSignature i x s
      in if length (mParticipantsSignatures (common s)) + 1 = length (members s) then ownVote env s
         else returning (waitForVotes (maxNetworkDelay 2)) s)" for i x
    unfolding Let_def
    using vote_at [OF assms(1) addSignature_quiet ownVote_vote [OF _ knows_quiet [OF addSignature_quiet assms(2)]]]
      vote_of_stg [OF stg_stays [OF set addSignature_quiet]] by auto
  ultimately show "vote_ok env s (case map_of (nodesIds s) (fullAddress sender) of
         None \<Rightarrow> returning ContinuesPrevious s
       | Some participantPaymentID \<Rightarrow>
           (case vote of
              None \<Rightarrow> rejectCoordinator (say RemoveStoredData s)
            | Some participantSignature \<Rightarrow>
                (case map_of (mParticipantsPublicKeys (common s)) participantPaymentID of
                   None \<Rightarrow> throwing UndefinedBehaviour s
                 | Some participantPublicKey \<Rightarrow>
                     if \<not> signatureCheck (votes (nodeEnv env)) participantSignature
                            (getSerializedParticipantsVotesData (common s)) participantPublicKey
                     then rejectCoordinator (say RemoveStoredData s)
                     else
                       (let s = addSignature participantPaymentID participantSignature s
                        in if length (mParticipantsSignatures (common s)) + 1 = length (members s) then ownVote env s
                           else returning (waitForVotes (maxNetworkDelay 2)) s))))"
    using vote_reject [OF assms(1) quiet_say] vote_of_stg [OF stg_stays [OF set quiet_refl]]
    by (simp split: option.split)
qed

lemma votes_vote:
  assumes "final s" and "knows_co env s"
  shows "vote_ok env s (runVotesConsistencyCheckingStage_coordinator env s)"
proof -
  note set = final_settled [OF assms(1)]
  have pop: "quiet s (popInbox s)" by (simp add: quiet_def near_def)
  have "vote_ok env s (participantVoted env senders vote (popInbox s))" for senders vote
    by (rule vote_at [OF assms(1) pop participantVoted_vote [OF _ knows_quiet [OF pop assms(2)]]])
  moreover have "stg_ok s (bindS (sendKeysTo chosen nodes s) (\<lambda>_ s.
      returning (waitForVotes d) (s\<lparr>mCountParticipantKeysResending := mCountParticipantKeysResending s + 1\<rparr>)))" for chosen nodes d
    by (rule stg_bind [OF set sendKeysTo_quiet], rule stg_stays) (simp_all add: quiet_def near_def)
  ultimately show ?thesis
    unfolding runVotesConsistencyCheckingStage_coordinator_def
    using vote_of_stg [OF TTL_ok [OF set pop]] vote_reject [OF assms(1) quiet_say] vote_of_stg
    by (auto split: list.split CoordinatorMessage.split)
qed

section \<open>Runs\<close>

lemma runStage_vote:
  assumes "settled s" and "knows_co env s"
  shows "vote_ok env s (runStage_coordinator n env s)"
proof -
  have pre: "pre s" if "stage_co s \<in> reserving" using that assms(1) by (simp add: pre_def settled_def)
  have fin: "final s" if "stage_co s \<in> finalStages" using settled_final [OF assms(1) that] .
  have bad: "vote_ok env s (throwing RuntimeError s)"
    using assms(1) by (intro vote_of_stg coord_throws) (simp_all add: settled_def ckept_refl)
  show ?thesis
    unfolding runStage_coordinator_def
    using bad initialization_ok [OF assms(1)] pathsResource_ok [OF assms(1)] receiverResponse_ok [OF assms(1) _ reservation_stage_ok(1)]
      res_stg [OF carries_onD [OF reservation_stage_ok(1)]] res_stg [OF direct_ok [OF reservation_stage_ok(2)]]
      finalAmounts_ok confirmation_ok votes_vote [OF _ assms(2)] pre fin
    by (simp add: reserving_def finalStages_def vote_of_stg split: Stage.split)
qed

definition pays :: "CoordinatorEnv \<Rightarrow> CoordinatorState \<Rightarrow> CoordinatorResult \<Rightarrow> CoordinatorState \<Rightarrow> bool" where
  "pays env s r s' \<longleftrightarrow> cok s' \<and> others_kept (held_co s) (held_co s') \<and> mCommandAmount s' = mCommandAmount s \<and>
     (balance_co s' = balance_co s \<and>
        (case r of
           Answered a \<Rightarrow>
             operationConducted env = Inr True \<or>
             a \<noteq> AnswerOK \<and> (a \<noteq> AnswerUnexpectedError \<longrightarrow> reservations_co s' = [])
         | OutOfFuel \<Rightarrow> True
         | _ \<Rightarrow> settled s') \<or>
      balance_co s' = balance_co s - int (mCommandAmount s) \<and> reservations_co s' = [] \<and>
        (\<exists>a. r = Answered a \<and> (storage_ok env \<longrightarrow> a = AnswerOK)))"

lemma ckept_balance: "ckept s t \<Longrightarrow> balance_co t = balance_co s \<and> mCommandAmount t = mCommandAmount s \<and>
    others_kept (held_co s) (held_co t) \<and> (knows_co env s \<longrightarrow> knows_co env t)"
  using wkept_total [of "held_co s" "held_co t"] wkept_others [of "held_co s" "held_co t"]
  by (simp add: ckept_def balance_co_def knows_co_def wkept_def)

lemma pays_trans: "ckept s t \<Longrightarrow> pays env t r s' \<Longrightarrow> pays env s r s'"
  using ckept_balance [of s t env] others_kept_trans [of "held_co s" "held_co t" "held_co s'"] by (auto simp: pays_def)

lemma pays_answers: "ckept s t \<Longrightarrow> answers r t \<Longrightarrow> pays env s r t"
  using ckept_balance [of s t env] ckept_cok [of s t]
  by (auto simp: pays_def answers_def settled_def split: CoordinatorResult.splits)

text \<open>After an exception of the project.\<close>

lemma concludeFailed_cases:
  assumes "cok t" and "concludeFailed env t = (Inr r, s')"
  shows "operationConducted env = Inr True \<and> r = Answered AnswerOK \<and> s' = t \<or>
    r = Answered AnswerNoConsensus \<and> ckept t s' \<and> reservations_co s' = []"
proof -
  have say: "near t (say RemoveStoredData t)" by simp
  obtain c where c: "operationConducted env = Inr c" using assms(2) by (cases "operationConducted env") (simp_all add: concludeFailed_def)
  show ?thesis
  proof (cases c)
    case True
    then show ?thesis using assms(2) c by (simp add: concludeFailed_def)
  next
    case False
    then have go: "rejectCoordinator (say RemoveStoredData t) = (Inr r, s')"
      using assms(2) c by (cases "deletePaymentRecord env") (simp_all add: concludeFailed_def)
    have k: "ckept t (say RemoveStoredData t)" by (rule near_kept [OF say assms(1)])
    show ?thesis
      by (rule rejectCoordinator_cases [OF ckept_cok [OF k]]) (use go k in \<open>auto intro: ckept_trans\<close>)
  qed
qed

lemma run_pays:
  "settled s \<Longrightarrow> knows_co env s \<Longrightarrow> run_coordinator n env s = (Inr r, s') \<Longrightarrow> pays env s r s'"
proof (induction n arbitrary: s)
  case 0
  then show ?case using pays_answers [of s s r] by (auto simp: settled_def answers_def ckept_refl)
next
  case (Suc n)
  obtain x t where x: "runStage_coordinator n env s = (x, t)" by (meson surj_pair)
  have v: "vote_ok env s (x, t)" using runStage_vote [OF Suc.prems(1,2), of n] x by simp
  show ?case
  proof (cases "stg_ok s (x, t)")
    case True
    show ?thesis
    proof (cases x)
      case (Inr y)
      then show ?thesis using Suc.prems(3) x True pays_answers [of s t y] by (auto simp: coord_ok_def)
    next
      case (Inl e)
      then have e: "isProjectException e" using Suc.prems(3) x by (auto simp: isProjectException_def split: geo_error.splits)
      then have k: "ckept s t" "stage_ok t" using True Inl by (simp_all add: coord_ok_def)
      show ?thesis
      proof (cases "e = CallChainBreakException")
        case True
        let ?u = "t\<lparr>mReservationsStage := 2\<rparr>"
        have q: "quiet t ?u" by (simp add: quiet_def near_def)
        have "settled t" using k ckept_cok by (simp add: settled_def)
        then have u: "settled ?u" "ckept s ?u"
          using settled_quiet [OF q] ckept_trans [OF k(1) near_kept [OF quiet_near [OF q]]] ckept_cok [OF k(1)] by auto
        have "knows_co env ?u" using ckept_balance [OF u(2), of env] Suc.prems(2) by simp
        then show ?thesis using Suc.IH [OF u(1)] Suc.prems(3) x Inl True pays_trans [OF u(2)] by simp
      next
        case False
        then have "concludeFailed env t = (Inr r, s')" using Suc.prems(3) x Inl e by (simp split: geo_error.splits)
        from concludeFailed_cases [OF ckept_cok [OF k(1)] this] show ?thesis
          using ckept_balance [OF k(1), of env] ckept_cok [OF k(1)] pays_answers [OF ckept_trans [OF k(1)], of s' r]
          by (auto simp: pays_def answers_def)
      qed
    qed
  next
    case False
    then have p: "cok t" "others_kept (held_co s) (held_co t)" "mCommandAmount t = mCommandAmount s"
      "balance_co t = balance_co s - int (mCommandAmount s)" "reservations_co t = []"
      "x = (if storage_ok env then Inr (Answered AnswerOK) else Inl IOError)"
      using v by (simp_all add: vote_ok_def)
    show ?thesis
    proof (cases "storage_ok env")
      case True
      then show ?thesis using p x Suc.prems(3) by (auto simp: pays_def)
    next
      case False
      then have c: "concludeFailed env t = (Inr r, s')"
        using p(6) x Suc.prems(3) by (simp add: isProjectException_def)
      show ?thesis
        using concludeFailed_cases [OF p(1) c] p False ckept_balance [of t s' env] ckept_cok [of t s']
          others_kept_trans [of "held_co s" "held_co t" "held_co s'"]
        by (auto simp: pays_def)
    qed
  qed
qed

text \<open>
  What happens on the node of a coordinator: runs of the payment that wait for more, arriving messages and
  resources, and other transactions, which leave its reservations.
\<close>

inductive coordinator_moves :: "CoordinatorState \<Rightarrow> CoordinatorState \<Rightarrow> bool" where
  runs: "run_coordinator n env s = (Inr r, s') \<Longrightarrow> waits r \<Longrightarrow> knows_co env s \<Longrightarrow> coordinator_moves s s'"
| arrives: "coordinator_moves s (s\<lparr>inbox := messages, resources := provided\<rparr>)"
| others_act: "manager_ok m \<Longrightarrow>
    (\<And>c. own (currentTransactionUUID (payment (common s))) m c =
         own (currentTransactionUUID (payment (common s))) (linesManager (common s)) c) \<Longrightarrow>
    coordinator_moves s (s\<lparr>common := (common s)\<lparr>linesManager := m\<rparr>\<rparr>)"

definition paying :: "TransactionUUID \<Rightarrow> TrustLineAmount \<Rightarrow> CoordinatorState \<Rightarrow> bool" where
  "paying u a s \<longleftrightarrow> settled s \<and> mCommandAmount s = a \<and> currentTransactionUUID (payment (common s)) = u"

lemma coordinator_moves_inv: "coordinator_moves s t \<Longrightarrow> paying u a s \<Longrightarrow> paying u a t"
proof (induction rule: coordinator_moves.induct)
  case (runs n env s r s')
  then have "pays env s r s'" using run_pays [of s env n r s'] by (simp add: paying_def)
  then have "settled s'" "mCommandAmount s' = mCommandAmount s"
    "currentTransactionUUID (payment (common s')) = currentTransactionUUID (payment (common s))"
    using runs(2) by (auto simp: pays_def waits_def others_kept_def split: CoordinatorResult.splits)
  then show ?case using runs(4) by (simp add: paying_def)
next
  case (arrives s provided messages)
  then show ?case
    using settled_quiet [of s "s\<lparr>inbox := messages, resources := provided\<rparr>"] by (simp add: paying_def quiet_def near_def)
next
  case (others_act m s)
  let ?t = "s\<lparr>common := (common s)\<lparr>linesManager := m\<rparr>\<rparr>"
  have w: "weak_ok (payment (common s), linesManager (common s))" using others_act by (simp add: paying_def settled_def cok_def)
  have "weak_ok (payment (common s), m)"
    using weak_okD [OF w] others_act(1,2) by (intro weak_okI) simp_all
  then show ?case using others_act(3) by (auto simp: paying_def settled_def cok_def stage_ok_def)
qed

interpretation coordinator_runs: step_invariant coordinator_moves "paying u a" for u a
  by unfold_locales (rule coordinator_moves_inv)

lemma newCoordinator_inv:
  assumes "manager_ok m" and "\<not> isReservationsPresentConsiderTransaction m u"
  shows "paying u a (newCoordinator u gateway unset path i a addresses allowed m)"
  using weak_of_tx [OF new_tx_ok [OF assms, of gateway unset]]
  by (simp add: paying_def settled_def cok_def stage_ok_def newCoordinator_def firstStages_def flowOf_Nil)

text \<open>C4: a coordinator pays exactly the amount of its command, or nothing. However its messages and the other
  payments of the node interleave with its runs, a run that returns leaves the sum of the balances of the
  node's trust lines or lowers it by exactly that amount, and then nothing of the payment stays reserved.
  When the database stores the payment, a lowered sum means the answer OK; the answer OK means that the sum
  was lowered, or that the history knows the payment already. Every other answer but that of an unexpected
  error leaves no reservation behind. The reservations of other transactions stay.\<close>

theorem coordinator_pays_exactly:
  assumes "manager_ok m" and "\<not> isReservationsPresentConsiderTransaction m u"
    and "coordinator_moves\<^sup>*\<^sup>* (newCoordinator u gateway unset path i amount addresses allowed m) s"
    and "knows_co env s" and "run_coordinator n env s = (Inr r, s')"
  defines "before \<equiv> sumOfBalances (linesManager (common s))" and "after \<equiv> sumOfBalances (linesManager (common s'))"
    and "reservedBy \<equiv> isReservationsPresentConsiderTransaction (linesManager (common s'))"
  shows "(after = before \<or> after = before - int amount \<and> \<not> reservedBy u) \<and>
    (after \<noteq> before \<and> commitStorageOk (votes (nodeEnv env)) \<longrightarrow> r = Answered AnswerOK) \<and>
    (r = Answered AnswerOK \<and> operationConducted env \<noteq> Inr True \<longrightarrow> after = before - int amount) \<and>
    (\<forall>a. r = Answered a \<and> a \<noteq> AnswerUnexpectedError \<and> operationConducted env \<noteq> Inr True \<longrightarrow> \<not> reservedBy u) \<and>
    manager_ok (linesManager (common s')) \<and>
    (\<forall>v c. v \<noteq> u \<longrightarrow> own v (linesManager (common s')) c = own v (linesManager (common s)) c)"
proof -
  have "paying u amount s"
    by (rule coordinator_runs.steps_inv [OF assms(3) newCoordinator_inv [OF assms(1,2)]])
  then have i: "settled s" "mCommandAmount s = amount" "currentTransactionUUID (payment (common s)) = u"
    by (simp_all add: paying_def)
  have p: "pays env s r s'" by (rule run_pays [OF i(1) assms(4,5)])
  have w: "weak_ok (payment (common s'), linesManager (common s'))" using p by (simp add: pays_def cok_def)
  have o: "others_kept (held_co s) (held_co s')" using p by (simp add: pays_def)
  have free: "\<not> reservedBy u" if "reservations_co s' = []"
    using that weak_okD(1,4) [OF w] own_present [of "linesManager (common s')" u] o i(3)
    by (simp add: reservedBy_def listed_def others_kept_def)
  show ?thesis
    using p free o weak_okD(1) [OF w] i(2,3)
    by (auto simp: pays_def balance_co_def before_def after_def storage_ok_def others_kept_def split: CoordinatorResult.splits)
qed

section \<open>A coordinator that pays\<close>

definition sampleCoordinatorEnv :: CoordinatorEnv where
  "sampleCoordinatorEnv = \<lparr>nodeEnv = sampleNodeEnv, isRunPaymentTransactions = True, operationConducted = Inr False,
     deletePaymentRecord = Inr (), rebuiltPaths = (\<lambda>_. Inr [])\<rparr>"

definition sampleCoordinator :: CoordinatorState where
  "sampleCoordinator = newCoordinator 9 False 0 0 0 10 [sampleAddress] True sampleManager"

lemma run_step: "runStage_coordinator n env s = (Inr r, s') \<Longrightarrow> run_coordinator (Suc n) env s = (Inr r, s')"
  by simp

lemma sampleCoordinator_fields [simp]:
  "payment (common sampleCoordinator) = newPayment 9 False 0" "linesManager (common sampleCoordinator) = sampleManager"
  "stage_co sampleCoordinator = Coordinator_Initialization" "mCommandAmount sampleCoordinator = 10"
  "mContractor sampleCoordinator = [sampleAddress]" "mPathsStats sampleCoordinator = []" "mPathIDs sampleCoordinator = []"
  "mReservationsStage sampleCoordinator = 0" "mDirectPathIsAlreadyProcessed sampleCoordinator = False"
  "mIsPaymentTransactionsAllowedDueToObserving sampleCoordinator" "members sampleCoordinator = []"
  "nodesIds sampleCoordinator = []" "mNodesFinalAmountsConfiguration sampleCoordinator = []"
  by (simp_all add: sampleCoordinator_def newCoordinator_def)

lemma sampleOutgoing:
  "outgoingTrustAmountConsideringReservations sampleManager 7 = Inr 40" "totalOutgoingAmount sampleManager = Inr 40"
proof -
  have line: "map_of (mTrustLines sampleManager) 7 = Some sampleLine" by simp
  have "room sampleManager 7 Outgoing = 70" "reserved sampleHandler 7 Outgoing = 30"
    by (simp_all add: sampleHandler_eq sampleReservation_def reserved_def reservations_def
        amountOf_def room_def line_room_def outgoing_room_def)
  then show a: "outgoingTrustAmountConsideringReservations sampleManager 7 = Inr 40"
    using considering_exact(1) [OF sampleManager_ok line] by simp
  then show "totalOutgoingAmount sampleManager = Inr 40"
    by (simp add: totalOutgoingAmount_def checked_add_def)
qed

lemma sampleSelf: "contractorIDByAddress (coordinatorContractors sampleCoordinatorEnv) sampleAddress = 7"
  "mSelf (coordinatorContractors sampleCoordinatorEnv) = [IPv4WithPortAddress 127 0 0 1 2001]"
  "isRunPaymentTransactions sampleCoordinatorEnv" "mainAddress (a # as) = Inr a"
  by (simp_all add: contractorIDByAddress_def sampleNodeEnv_def newContractor_def sameAddress_def sampleCoordinatorEnv_def
      sampleAddress_def mainAddress_def)

lemma knows_sample:
  "linesManager (common s) = sampleManager \<Longrightarrow> knows_co sampleCoordinatorEnv s"
  by (simp add: knows_co_def sampleCoordinatorEnv_def sampleNodeEnv_def contractorMainAddress_def contractor_def newContractor_def mainAddress_def)

definition asked :: CoordinatorState where
  "asked = say (RequestPaths sampleAddress) (toStage Coordinator_ReceiverResourceProcessing sampleCoordinator)"

lemma sample_asks: "run_coordinator (Suc n) sampleCoordinatorEnv sampleCoordinator =
    (Inr (WaitsForResource PathsKind (maxNetworkDelay 10)), asked)"
proof (rule run_step)
  have "decimal 2000 \<noteq> decimal 2001" using foldl_decimal [of 2000] foldl_decimal [of 2001] by force
  then have "\<not> equalContractors [sampleAddress] [IPv4WithPortAddress 127 0 0 1 2001]"
    by (simp add: equalContractors_def sampleAddress_def sameAddress_def)
  then show "runStage_coordinator n sampleCoordinatorEnv sampleCoordinator =
    (Inr (WaitsForResource PathsKind (maxNetworkDelay 10)), asked)"
    by (simp add: runStage_coordinator_def runPaymentInitializationStage_def sampleSelf sampleOutgoing asked_def say_def toStage_def)
qed
definition withPath :: CoordinatorState where
  "withPath = (asked\<lparr>resources := [], mPathsStats := [(0, (newPathStats [])\<lparr>pathNodes := [sampleAddress]\<rparr>)], mPathIDs := [0]\<rparr>)"
lemma sample_path: "run_coordinator (Suc n) sampleCoordinatorEnv (asked\<lparr>inbox := [], resources := [PathsResource [[]]]\<rparr>) =
    (Inr (WaitsForMessages [Kind_ReceiverInitPaymentResponse, Kind_NoEquivalent] (maxNetworkDelay 4)),
     toStage Coordinator_ReceiverResponseProcessing (say (SendReceiverInitRequest sampleAddress 10) (withPath\<lparr>inbox := []\<rparr>)))"
proof (rule run_step)
  have "freeIdentifier (Suc 65535) 0 [] = Inr 0" by (simp only: freeIdentifier.simps) simp
  then have "freeIdentifier 65536 0 [] = Inr 0" by simp
  then have "addValidPaths sampleCoordinatorEnv [[]] (asked\<lparr>inbox := [], resources := []\<rparr>) = (Inr (), withPath\<lparr>inbox := []\<rparr>)"
    by (simp add: isPathValid_def addPathForFurtherProcessing_def asked_def say_def toStage_def sampleSelf onPathStats_def withPath_def newPathStats_def)
  then show "runStage_coordinator n sampleCoordinatorEnv (asked\<lparr>inbox := [], resources := [PathsResource [[]]]\<rparr>) =
    (Inr (WaitsForMessages [Kind_ReceiverInitPaymentResponse, Kind_NoEquivalent] (maxNetworkDelay 4)),
     toStage Coordinator_ReceiverResponseProcessing (say (SendReceiverInitRequest sampleAddress 10) (withPath\<lparr>inbox := []\<rparr>)))"
    by (simp add: runStage_coordinator_def asked_def say_def toStage_def runPathsResourceProcessingStage_def withPath_def sampleSelf)
qed

definition accepted :: CoordinatorState where
  "accepted = (toStage Coordinator_ReceiverResponseProcessing (say (SendReceiverInitRequest sampleAddress 10) (withPath\<lparr>inbox := []\<rparr>)))"

lemma accepted_fields [simp]:
  "payment (common accepted) = newPayment 9 False 0" "linesManager (common accepted) = sampleManager"
  "stage_co accepted = Coordinator_ReceiverResponseProcessing" "mCommandAmount accepted = 10"
  "mContractor accepted = [sampleAddress]" "mPathsStats accepted = [(0, (newPathStats [])\<lparr>pathNodes := [sampleAddress]\<rparr>)]" "mPathIDs accepted = [0]"
  "mReservationsStage accepted = 0" "mDirectPathIsAlreadyProcessed accepted = False" "members accepted = []"
  "nodesIds accepted = []" "mNodesFinalAmountsConfiguration accepted = []"
  by (simp_all add: accepted_def withPath_def asked_def say_def toStage_def)

lemma sample_reserves:
  obtains r m where "reserveOutgoingAmount 7 9 10 sampleManager = (Inr r, m)" "mBlockedAmount r = 10" "mDirection r = Outgoing"
    "mTrustLines m = mTrustLines sampleManager"
proof -
  have line: "map_of (mTrustLines sampleManager) 7 = Some sampleLine" by simp
  have "room sampleManager 7 Outgoing = 70" "reserved sampleHandler 7 Outgoing = 30"
    by (simp_all add: sampleHandler_eq sampleReservation_def reserved_def reservations_def
        amountOf_def room_def line_room_def outgoing_room_def)
  then obtain r m where r: "reserveOutgoingAmount 7 9 10 sampleManager = (Inr r, m)" "mBlockedAmount r = 10" "mDirection r = Outgoing"
    using reserve_outgoing_exact [OF sampleManager_ok line, of 9 10]
    by (auto simp: onHandler_def reserve_cases Let_def)
  then show thesis using that reserve_amount_covered [OF sampleManager_ok, of 7 9 10 r m] by auto
qed

text \<open>The receiver agrees, and the direct path is reserved.\<close>

abbreviation sampleMe :: Address where
  "sampleMe \<equiv> IPv4WithPortAddress 127 0 0 1 2001"

definition directly :: "CoordinatorState \<Rightarrow> AmountReservation \<Rightarrow> bool" where
  "directly s r \<longleftrightarrow> mContractor s = [sampleAddress] \<and>
     mPathsStats s = [(0, \<lparr>pathNodes = [sampleAddress], mIntermediateNodesStates = [], mMaxPathFlow = 10, mIsValid = True\<rparr>)] \<and>
     mTrustLines (linesManager (common s)) = [(7, sampleLine)] \<and> reservations_co s = [(7, [(0, r)])] \<and>
     mBlockedAmount r = 10 \<and> mDirection r = Outgoing \<and> members s = [(0, [sampleMe]), (1, [sampleAddress])] \<and>
     nodesIds s = [(fullAddress sampleMe, 0), (fullAddress sampleAddress, 1)]"

lemma directly_total: "directly s r \<Longrightarrow> totalReservedAmount Outgoing (payment (common s)) = Inr 10"
  by (simp add: directly_def totalReservedAmount_def allEntries_def checked_add_def)

definition directAsked :: "CoordinatorState \<Rightarrow> bool" where
  "directAsked s \<longleftrightarrow> (\<exists>r. directly s r) \<and> stage_co s = Coordinator_ShortPathAmountReservationResponseProcessing \<and>
     mCommandAmount s = 10 \<and> currentPathID s = 0 \<and> mCurrentPathParticipants s = []"

lemma zeroID: "kCoordinatorPaymentNodeID = 0" "(7::32 word) \<noteq> kNotFoundContractorID"
  by (simp_all add: kCoordinatorPaymentNodeID_def kNotFoundContractorID_def)

lemma sample_apart: "fullAddress sampleMe \<noteq> fullAddress sampleAddress"
proof -
  have "decimal 2000 \<noteq> decimal 2001" using foldl_decimal [of 2000] foldl_decimal [of 2001] by force
  then show ?thesis by (simp add: sampleAddress_def)
qed

lemma sample_direct:
  "\<exists>s. run_coordinator (Suc (Suc n)) sampleCoordinatorEnv (accepted\<lparr>inbox := [ReceiverInitPaymentResponse True], resources := []\<rparr>) =
     (Inr (WaitsForMessages [Kind_IntermediateNodeReservationResponse] (maxNetworkDelay 2)), s) \<and> directAsked s"
proof -
  obtain r m where r: "reserveOutgoingAmount 7 9 10 sampleManager = (Inr r, m)" "mBlockedAmount r = 10" "mDirection r = Outgoing"
    "mTrustLines m = mTrustLines sampleManager"
    using sample_reserves by blast
  have a: "trustLineIsActive sampleManager 7 = Inr True" "trustLineOwnKeysPresent sampleManager 7 = Inr True"
    by (simp_all add: trustLineIsActive_def trustLineOwnKeysPresent_def trustLineReadOnly_def)
  have k: "totalReservedAmount Outgoing (newPayment 9 False 0) = Inr 0"
    by (simp add: totalReservedAmount_def allEntries_def)
  let ?s = "accepted\<lparr>inbox := [ReceiverInitPaymentResponse True], resources := []\<rparr>"
  have "\<exists>s. runStage_coordinator (Suc n) sampleCoordinatorEnv ?s =
      (Inr (WaitsForMessages [Kind_IntermediateNodeReservationResponse] (maxNetworkDelay 2)), s) \<and> directAsked s"
    using sample_apart
    by (simp add: runStage_coordinator_def runReceiverResponseProcessingStage_def addMember_def sampleSelf Let_def mapInsert_def
      setMembers_def toStage_def initAmountsReservationOnNextPath_def currentAmountReservationPathStats_def processCurrentPath_def
      containsIntermediateNodes_def newPathStats_def tryReserveAmountDirectlyOnReceiver_def a zeroID sampleOutgoing remainingAmount_def
      k checked_sub_def onHeld_def reserveOutgoingAmount_tx_def r addEntry_def entries_def onPathStats_def shortageMaxFlow_def say_def
      directAsked_def directly_def)
  then show ?thesis by (elim exE conjE) (intro exI conjI run_step)
qed

text \<open>The receiver has reserved the same amount.\<close>

definition collected :: "CoordinatorState \<Rightarrow> bool" where
  "collected s \<longleftrightarrow> (\<exists>r. directly s r) \<and> stage_co s = Common_ObservingBlockNumberProcessing \<and> resources s = []"

lemma sample_collected:
  assumes "directAsked s"
  shows "\<exists>s'. run_coordinator (Suc n) sampleCoordinatorEnv
       (s\<lparr>inbox := [NeighborReservationResponse [sampleAddress] 0 Accepted 10], resources := []\<rparr>) =
     (Inr (WaitsForResource ObservingBlockNumberKind (maxNetworkDelay 1)), s') \<and> collected s'"
proof -
  obtain r where r: "directly s r" using assms by (auto simp: directAsked_def)
  have "\<exists>s'. runStage_coordinator n sampleCoordinatorEnv
       (s\<lparr>inbox := [NeighborReservationResponse [sampleAddress] 0 Accepted 10], resources := []\<rparr>) =
     (Inr (WaitsForResource ObservingBlockNumberKind (maxNetworkDelay 1)), s') \<and> collected s'"
    using assms r
    by (simp add: directAsked_def runStage_coordinator_def runDirectAmountReservationResponseProcessingStage_def directAnswered_def
      sampleSelf zeroID Let_def shortenPath_def currentAmountReservationPathStats_def pathReserved_def firstSender_def
      addFinalConfigurationOnPath_def appendAmount_def requestBlockNumber_def toStage_def say_def collected_def directly_def
      totalReservedAmount_def allEntries_def checked_add_def)
  then show ?thesis by (elim exE conjE) (intro exI conjI run_step)
qed

lemma sampleKeys: "newPaymentKey (nodeEnv sampleCoordinatorEnv) = Inr []" "signReceipt (nodeEnv sampleCoordinatorEnv) l d = Inr (0, [])"
  "saveOutgoingPaymentReceipt (nodeEnv sampleCoordinatorEnv) l n a e = Inr True" "votes (nodeEnv sampleCoordinatorEnv) = sampleEnv"
  "signatureCheck sampleEnv [1] x y" "signPaymentTransaction sampleEnv x = Inr (Some [1])" "savePayment sampleEnv = Inr ()"
  "\<exists>i. idOnContractorSide (coordinatorContractors sampleCoordinatorEnv) 7 = Inr i"
  by (simp_all add: sampleCoordinatorEnv_def sampleNodeEnv_def idOnContractorSide_def contractor_def sampleEnv_def)

text \<open>The block number comes: the final amounts are sent with a receipt.\<close>

definition announced :: "CoordinatorState \<Rightarrow> bool" where
  "announced s \<longleftrightarrow> (\<exists>r. directly s r) \<and> stage_co s = Coordinator_FinalAmountsConfigurationConfirmation \<and>
     mParticipantsPublicKeys (common s) = [(0, [])]"

lemma sample_announced:
  assumes "collected s"
  shows "\<exists>s'. run_coordinator (Suc n) sampleCoordinatorEnv (s\<lparr>inbox := [], resources := [ActualBlockNumber 5]\<rparr>) =
     (Inr (WaitsForMessages [Kind_FinalAmountsConfigurationResponse, Kind_TTLProlongationRequest] (maxNetworkDelay 6)), s') \<and>
     announced s'"
proof -
  obtain r where r: "directly s r" using assms by (auto simp: collected_def)
  obtain i where i: "idOnContractorSide (coordinatorContractors sampleCoordinatorEnv) 7 = Inr i" using sampleKeys(8) by blast
  have "\<exists>s'. runStage_coordinator n sampleCoordinatorEnv (s\<lparr>inbox := [], resources := [ActualBlockNumber 5]\<rparr>) =
     (Inr (WaitsForMessages [Kind_FinalAmountsConfigurationResponse, Kind_TTLProlongationRequest] (maxNetworkDelay 6)), s') \<and>
     announced s'"
    using assms r
    by (cases "map_of (mNodesFinalAmountsConfiguration s) (fullAddress sampleAddress)")
      (simp_all add: collected_def runStage_coordinator_def sendFinalAmountsConfigurationToAllParticipants_def announceFinalAmounts_def
      sampleSelf zeroID Let_def toStage_def say_def directly_def announced_def signOutgoing_def finalAmountsOf_def setKeys_def
      entries_def getSerializedReceipt_def auditNumber_def trustLineReadOnly_def trustLineID_def checked_add_def
      sampleKeys i)
  then show ?thesis by (elim exE conjE) (intro exI conjI run_step)
qed

definition voting_co :: "CoordinatorState \<Rightarrow> bool" where
  "voting_co s \<longleftrightarrow> (\<exists>r. directly s r) \<and> stage_co s = Common_VotesChecking \<and>
     mParticipantsPublicKeys (common s) = [(0, []), (1, [3])] \<and> mParticipantsSignatures (common s) = []"

lemma sample_confirmed:
  assumes "announced s"
  shows "\<exists>s'. run_coordinator (Suc n) sampleCoordinatorEnv
       (s\<lparr>inbox := [FinalAmountsConfigurationResponse [sampleAddress] True [3]], resources := []\<rparr>) =
     (Inr (waitForVotes (maxNetworkDelay 4)), s') \<and> voting_co s'"
proof -
  obtain r where r: "directly s r" using assms by (auto simp: announced_def)
  have "\<exists>s'. runStage_coordinator n sampleCoordinatorEnv
       (s\<lparr>inbox := [FinalAmountsConfigurationResponse [sampleAddress] True [3]], resources := []\<rparr>) =
     (Inr (waitForVotes (maxNetworkDelay 4)), s') \<and> voting_co s'"
    using assms r sample_apart
    by (simp add: announced_def runStage_coordinator_def runFinalAmountsConfigurationConfirmation_coordinator_def
      sampleSelf zeroID Let_def toStage_def say_def directly_def voting_co_def setKeys_def firstSender_def
      propagateVotesListAndWaitForVotingResult_def)
  then show ?thesis by (elim exE conjE) (intro exI conjI run_step)
qed

text \<open>The vote of the receiver is the last one: the payment is committed.\<close>

lemma sample_commits:
  assumes "voting_co s" and "settled s"
  shows "\<exists>s'. run_coordinator (Suc n) sampleCoordinatorEnv
       (s\<lparr>inbox := [ParticipantVote [sampleAddress] (Some [1])], resources := []\<rparr>) = (Inr (Answered AnswerOK), s')"
proof -
  obtain r where r: "directly s r" using assms(1) by (auto simp: voting_co_def)
  have known: "contractorAddress (voteEnv (nodeEnv sampleCoordinatorEnv)) 7 = Inr ()"
    by (simp add: voteEnv_def sampleCoordinatorEnv_def sampleNodeEnv_def contractorMainAddress_def contractor_def
      newContractor_def mainAddress_def)
  have v: "commitStorageOk (voteEnv (nodeEnv sampleCoordinatorEnv))" "signalsCycles (voteEnv (nodeEnv sampleCoordinatorEnv))"
    "committedAmount (voteEnv (nodeEnv sampleCoordinatorEnv)) = totalOutgoing"
    by (simp_all add: voteEnv_def sampleKeys sampleEnv_def)
  obtain k where k: "totalOutgoing (payment (common s)) = Inr k"
    using directly_total [OF r] by (simp add: totalOutgoing_def)
  have w: "weak_ok (payment (common s), linesManager (common s))" using assms(2) by (simp add: settled_def cok_def)
  have "prune (payment (common s)) = payment (common s)" using r by (simp add: prune_def directly_def)
  then have tx: "tx_ok (payment (common s), linesManager (common s))" using weak_okD(5) [OF w] by simp
  have fits: "settlingFits (reservations_co s) (linesManager (common s))"
    using r by (simp add: settlingFits_def directly_def amountOf_def receiptsOf_def)
  obtain p m where c: "commit (contractorAddress (voteEnv (nodeEnv sampleCoordinatorEnv))) True (held_co s) = (Inr (), p, m)"
    using commit_ok [OF tx _ fits, of "contractorAddress (voteEnv (nodeEnv sampleCoordinatorEnv))"] r known
    by (auto simp: directly_def)
  have "\<exists>s'. runStage_coordinator n sampleCoordinatorEnv
       (s\<lparr>inbox := [ParticipantVote [sampleAddress] (Some [1])], resources := []\<rparr>) = (Inr (Answered AnswerOK), s')"
    using assms(1) r sample_apart
    by (simp add: voting_co_def runStage_coordinator_def runVotesConsistencyCheckingStage_coordinator_def participantVoted_def
      sampleSelf zeroID Let_def say_def directly_def sampleKeys addSignature_def mapInsert_def ownVote_def approveCoordinator_def
      writePaymentEvent_def onBase_def approve_def v k onPayment_def c)
  then show ?thesis by (elim exE conjE) (intro exI conjI run_step)
qed

text \<open>The whole payment of the sample.\<close>

lemma sampleCoordinator_paying: "coordinator_moves\<^sup>*\<^sup>* sampleCoordinator s \<Longrightarrow> settled s"
proof -
  assume s: "coordinator_moves\<^sup>*\<^sup>* sampleCoordinator s"
  have none: "\<not> isReservationsPresentConsiderTransaction sampleManager 9"
    by (simp add: isReservationsPresentConsiderTransaction_def isTransactionReservationsPresent_def
        sampleHandler_eq sampleReservation_def)
  have "paying 9 10 sampleCoordinator" unfolding sampleCoordinator_def by (rule newCoordinator_inv [OF sampleManager_ok none])
  then show "settled s" using coordinator_runs.steps_inv [OF s] by (simp add: paying_def)
qed

lemma knows_one: "mTrustLines (linesManager (common s)) = [(7, sampleLine)] \<Longrightarrow> knows_co sampleCoordinatorEnv s"
  by (simp add: knows_co_def sampleCoordinatorEnv_def sampleNodeEnv_def contractorMainAddress_def contractor_def
      newContractor_def mainAddress_def)

lemma sample_goes:
  assumes "coordinator_moves\<^sup>*\<^sup>* sampleCoordinator s" and "waits r" and "mTrustLines (linesManager (common s)) = [(7, sampleLine)]"
    and "run_coordinator n sampleCoordinatorEnv (s\<lparr>inbox := ms, resources := rs\<rparr>) = (Inr r, t)"
  shows "coordinator_moves\<^sup>*\<^sup>* sampleCoordinator t"
proof -
  let ?u = "s\<lparr>inbox := ms, resources := rs\<rparr>"
  have a: "coordinator_moves\<^sup>*\<^sup>* sampleCoordinator ?u"
    using assms(1) coordinator_moves.arrives by (rule rtranclp.rtrancl_into_rtrancl)
  have "knows_co sampleCoordinatorEnv ?u" by (rule knows_one) (simp add: assms(3))
  then show ?thesis using rtranclp.rtrancl_into_rtrancl [OF a coordinator_moves.runs [OF assms(4,2)]] by blast
qed

lemma directly_line: "directly s r \<Longrightarrow> mTrustLines (linesManager (common s)) = [(7, sampleLine)]"
  by (simp add: directly_def)

lemma sample_to_collected: "\<exists>s. coordinator_moves\<^sup>*\<^sup>* sampleCoordinator s \<and> collected s"
proof -
  have 1: "coordinator_moves\<^sup>*\<^sup>* sampleCoordinator asked"
    using coordinator_moves.runs [OF sample_asks [of 0] _ knows_one] by auto
  have 2: "coordinator_moves\<^sup>*\<^sup>* sampleCoordinator accepted"
    by (rule sample_goes [OF 1 waits_simps(1) _ sample_path [of 0, folded accepted_def]]) (simp add: asked_def say_def toStage_def)
  obtain s where s: "run_coordinator (Suc (Suc 0)) sampleCoordinatorEnv (accepted\<lparr>inbox := [ReceiverInitPaymentResponse True], resources := []\<rparr>) =
     (Inr (WaitsForMessages [Kind_IntermediateNodeReservationResponse] (maxNetworkDelay 2)), s)" "directAsked s"
    using sample_direct [of 0] by (elim exE conjE)
  have 3: "coordinator_moves\<^sup>*\<^sup>* sampleCoordinator s"
    by (rule sample_goes [OF 2 waits_simps(1) _ s(1)]) simp
  obtain t where t: "run_coordinator (Suc 0) sampleCoordinatorEnv
       (s\<lparr>inbox := [NeighborReservationResponse [sampleAddress] 0 Accepted 10], resources := []\<rparr>) =
     (Inr (WaitsForResource ObservingBlockNumberKind (maxNetworkDelay 1)), t)" "collected t"
    using sample_collected [OF s(2), of 0] by (elim exE conjE)
  have "mTrustLines (linesManager (common s)) = [(7, sampleLine)]" using s(2) directly_line unfolding directAsked_def by blast
  then have "coordinator_moves\<^sup>*\<^sup>* sampleCoordinator t" by (rule sample_goes [OF 3 waits_simps(2) _ t(1)])
  then show ?thesis using t(2) by (intro exI conjI)
qed

lemma sample_to_voting: "\<exists>s. coordinator_moves\<^sup>*\<^sup>* sampleCoordinator s \<and> voting_co s"
proof -
  obtain s where s: "coordinator_moves\<^sup>*\<^sup>* sampleCoordinator s" "collected s" using sample_to_collected by (elim exE conjE)
  obtain t where t: "run_coordinator (Suc 0) sampleCoordinatorEnv (s\<lparr>inbox := [], resources := [ActualBlockNumber 5]\<rparr>) =
     (Inr (WaitsForMessages [Kind_FinalAmountsConfigurationResponse, Kind_TTLProlongationRequest] (maxNetworkDelay 6)), t)"
     "announced t"
    using sample_announced [OF s(2), of 0] by (elim exE conjE)
  have "mTrustLines (linesManager (common s)) = [(7, sampleLine)]" using s(2) directly_line unfolding collected_def by blast
  then have 4: "coordinator_moves\<^sup>*\<^sup>* sampleCoordinator t" by (rule sample_goes [OF s(1) waits_simps(1) _ t(1)])
  obtain u where u: "run_coordinator (Suc 0) sampleCoordinatorEnv
       (t\<lparr>inbox := [FinalAmountsConfigurationResponse [sampleAddress] True [3]], resources := []\<rparr>) =
     (Inr (waitForVotes (maxNetworkDelay 4)), u)" "voting_co u"
    using sample_confirmed [OF t(2), of 0] by (elim exE conjE)
  have "mTrustLines (linesManager (common t)) = [(7, sampleLine)]" using t(2) directly_line unfolding announced_def by blast
  then have "coordinator_moves\<^sup>*\<^sup>* sampleCoordinator u" by (rule sample_goes [OF 4 waits_simps(4) _ u(1)])
  then show ?thesis using u(2) by (intro exI conjI)
qed

theorem coordinator_pays_exactly_witness:
  "\<exists>n s s'. coordinator_moves\<^sup>*\<^sup>* sampleCoordinator s \<and> run_coordinator n sampleCoordinatorEnv s = (Inr (Answered AnswerOK), s') \<and>
     sumOfBalances (linesManager (common s')) = sumOfBalances (linesManager (common s)) - 10"
proof -
  obtain s where s: "coordinator_moves\<^sup>*\<^sup>* sampleCoordinator s" "voting_co s" using sample_to_voting by (elim exE conjE)
  let ?u = "s\<lparr>inbox := [ParticipantVote [sampleAddress] (Some [1])], resources := []\<rparr>"
  obtain s' where run: "run_coordinator (Suc 0) sampleCoordinatorEnv ?u = (Inr (Answered AnswerOK), s')"
    using sample_commits [OF s(2) sampleCoordinator_paying [OF s(1)], of 0] by (elim exE)
  have u: "coordinator_moves\<^sup>*\<^sup>* sampleCoordinator ?u"
    using s(1) coordinator_moves.arrives by (rule rtranclp.rtrancl_into_rtrancl)
  have none: "\<not> isReservationsPresentConsiderTransaction sampleManager 9"
    by (simp add: isReservationsPresentConsiderTransaction_def isTransactionReservationsPresent_def
        sampleHandler_eq sampleReservation_def)
  have "mTrustLines (linesManager (common s)) = [(7, sampleLine)]" using s(2) directly_line unfolding voting_co_def by blast
  then have "knows_co sampleCoordinatorEnv ?u" by (intro knows_one) simp
  from coordinator_pays_exactly [OF sampleManager_ok none u [unfolded sampleCoordinator_def] this run]
  have "sumOfBalances (linesManager (common s')) = sumOfBalances (linesManager (common ?u)) - 10"
    by (simp add: sampleCoordinatorEnv_def)
  then show ?thesis using u run by (intro exI conjI)
qed

section \<open>Without the block number\<close>

text \<open>C27: without the number of the block the reservations are lost. When the whole amount is reserved and the
  block number does not come, the command is answered with an unexpected error, the transaction is over, and
  the amount of the command stays reserved on the lines of the node: nothing is rolled back.\<close>

theorem missing_block_number_leaks:
  assumes "manager_ok m" and "\<not> isReservationsPresentConsiderTransaction m u"
    and "coordinator_moves\<^sup>*\<^sup>* (newCoordinator u gateway unset path i amount addresses allowed m) s"
    and "stage_co s = Common_ObservingBlockNumberProcessing" and "\<nexists>b rest. resources s = ActualBlockNumber b # rest"
    and "0 < amount"
  shows "\<exists>s'. run_coordinator (Suc n) env s = (Inr (Answered AnswerUnexpectedError), s') \<and>
    flowOf Outgoing (payment (common s')) = amount \<and>
    isReservationsPresentConsiderTransaction (linesManager (common s')) u"
proof -
  have "paying u amount s"
    by (rule coordinator_runs.steps_inv [OF assms(3) newCoordinator_inv [OF assms(1,2)]])
  then have i: "settled s" "mCommandAmount s = amount" "currentTransactionUUID (payment (common s)) = u"
    by (simp_all add: paying_def)
  then have o: "outgoing_co s = amount" using assms(4) by (simp add: settled_def stage_ok_def stage_sets)
  have w: "weak_ok (payment (common s), linesManager (common s))" using i(1) by (simp add: settled_def cok_def)
  have "isReservationsPresentConsiderTransaction (linesManager (common s)) u"
  proof (rule ccontr)
    assume "\<not> ?thesis"
    then have "listed (reservations_co s) c = {#}" for c
      using own_present [OF weak_okD(1) [OF w], of u] weak_okD(4) [OF w, of c] i(3) by simp
    then have "es = []" if "(c, es) \<in> set (reservations_co s)" for c es
      using map_of_is_SomeI [OF weak_okD(3) [OF w] that] by (metis listed_def mset_zero_iff map_is_Nil_conv option.simps(5))
    then have "concat (map snd (reservations_co s)) = []" by force
    then have "outgoing_co s = 0" unfolding flowOf_def by (simp only: list.map sum_list.Nil filter.simps)
    then show False using o assms(6) by simp
  qed
  moreover have "run_coordinator (Suc n) env s = (Inr (Answered AnswerUnexpectedError), s)"
    using assms(4,5)
    by (cases "resources s"; cases "hd (resources s)")
      (simp_all add: runStage_coordinator_def sendFinalAmountsConfigurationToAllParticipants_def)
  ultimately show ?thesis using o by blast
qed

theorem missing_block_number_leaks_witness:
  "\<exists>s s'. coordinator_moves\<^sup>*\<^sup>* sampleCoordinator s \<and>
     run_coordinator 1 sampleCoordinatorEnv s = (Inr (Answered AnswerUnexpectedError), s') \<and>
     isReservationsPresentConsiderTransaction (linesManager (common s')) 9"
proof -
  obtain s where s: "coordinator_moves\<^sup>*\<^sup>* sampleCoordinator s" "collected s" using sample_to_collected by (elim exE conjE)
  have none: "\<not> isReservationsPresentConsiderTransaction sampleManager 9"
    by (simp add: isReservationsPresentConsiderTransaction_def isTransactionReservationsPresent_def
        sampleHandler_eq sampleReservation_def)
  have "stage_co s = Common_ObservingBlockNumberProcessing" "\<nexists>b rest. resources s = ActualBlockNumber b # rest"
    using s(2) by (simp_all add: collected_def)
  from missing_block_number_leaks [OF sampleManager_ok none s(1) [unfolded sampleCoordinator_def] this, of 0]
  obtain s' where "run_coordinator 1 sampleCoordinatorEnv s = (Inr (Answered AnswerUnexpectedError), s')"
    "isReservationsPresentConsiderTransaction (linesManager (common s')) 9"
    by (auto simp del: run_coordinator.simps)
  with s(1) show ?thesis by (intro exI conjI)
qed


end
