(* ===== verification/Coordinator_Ends.thy ===== *)
theory Coordinator_Ends
  imports Coordinator_Runs
begin

text \<open>
  Runs of a coordinator end: what a state leaves to do (attempts to build paths, paths, messages and resources,
  in this order), that no step of a stage leaves more, and that every call of the next path leaves less.
\<close>

section \<open>What gets less\<close>

definition leftOver :: "CoordinatorState \<Rightarrow> nat \<times> nat \<times> nat" where
  "leftOver s = (unat (kMaxRebuildingAttemptsCount - mRebuildingAttemptsCount s), length (mPathIDs s),
     length (inbox s) + length (resources s))"

definition less3 :: "((nat \<times> nat \<times> nat) \<times> nat \<times> nat \<times> nat) set" where
  "less3 = less_than <*lex*> less_than <*lex*> less_than"

definition le3 :: "nat \<times> nat \<times> nat \<Rightarrow> nat \<times> nat \<times> nat \<Rightarrow> bool" where
  "le3 x y \<longleftrightarrow> (x, y) \<in> less3 \<or> x = y"

abbreviation lower :: "CoordinatorState \<Rightarrow> CoordinatorState \<Rightarrow> bool" where
  "lower s' s \<equiv> (leftOver s', leftOver s) \<in> less3"

abbreviation atmost :: "CoordinatorState \<Rightarrow> CoordinatorState \<Rightarrow> bool" where
  "atmost s' s \<equiv> le3 (leftOver s') (leftOver s)"

lemma wf_less3: "wf less3"
  unfolding less3_def by (intro wf_lex_prod wf_less_than)

lemma trans_less3: "trans less3"
  unfolding less3_def by (intro trans_lex_prod trans_less_than)

lemma less3_trans: "(x, y) \<in> less3 \<Longrightarrow> (y, z) \<in> less3 \<Longrightarrow> (x, z) \<in> less3"
  by (rule transD [OF trans_less3])

lemma le3_refl [simp]: "le3 x x"
  by (simp add: le3_def)

lemma lower_atmost: "lower s2 s1 \<Longrightarrow> atmost s1 s \<Longrightarrow> lower s2 s"
  and atmost_lower: "atmost s2 s1 \<Longrightarrow> lower s1 s \<Longrightarrow> lower s2 s"
  and atmost_trans: "atmost s2 s1 \<Longrightarrow> atmost s1 s \<Longrightarrow> atmost s2 s"
  by (auto simp: le3_def intro: less3_trans)

lemma lower_le: "lower s' s \<Longrightarrow> atmost s' s"
  by (simp add: le3_def)

definition still :: "CoordinatorState \<Rightarrow> CoordinatorState \<Rightarrow> bool" where
  "still s s' \<longleftrightarrow> mRebuildingAttemptsCount s' = mRebuildingAttemptsCount s \<and> mPathIDs s' = mPathIDs s \<and>
     inbox s' = inbox s \<and> resources s' = resources s"

lemma still_refl [simp]: "still s s"
  and still_trans: "still s s1 \<Longrightarrow> still s1 s2 \<Longrightarrow> still s s2"
  and still_atmost: "still s s' \<Longrightarrow> leftOver s' = leftOver s"
  by (simp_all add: still_def leftOver_def)

lemma popped: "inbox s = [m] \<Longrightarrow> lower (popInbox s) s"
  by (simp add: less3_def leftOver_def)

lemma still_bindS:
  "still s (snd a) \<Longrightarrow> (\<And>x s1. a = (Inr x, s1) \<Longrightarrow> still s1 (snd (f x s1))) \<Longrightarrow> still s (snd (bindS a f))"
  by (cases a) (auto simp: bindS_def split: sum.splits intro: still_trans)

lemma still_pure: "(\<And>x. r = Inr x \<Longrightarrow> still s (snd (f x s))) \<Longrightarrow> still s (snd (bindS (r, s) f))"
  by (rule still_bindS) auto

lemma still_say [simp]: "still s (say m s)" and still_toStage [simp]: "still s (toStage stage s)"
  and still_onPathStats [simp]: "still s (snd (onPathStats i f s))"
  and still_onBase [simp]: "still s (snd (onBase g s))"
  and still_onHeld [simp]: "still s (snd (onHeld h s))"
  and still_reject [simp]: "still s (rejectLine a b s)" and still_offline [simp]: "still s (goOffline a s)"
  and still_append [simp]: "still s (appendAmount k y s)"
  by (auto simp: still_def say_def toStage_def onPathStats_def onBase_def onHeld_def bindS_def rejectLine_def goOffline_def
      appendAmount_def split: option.split sum.split prod.split)

text \<open>An operation whose repeated update hides behind a record update.\<close>

lemma still_after: "still s t \<Longrightarrow> still t (snd a) \<Longrightarrow> still s (snd a)"
  by (rule still_trans)

lemma still_addMember [simp]: "still s (snd (addMember addresses s))"
  unfolding addMember_def Let_def
  by (rule still_bindS) (simp_all add: still_def setMembers_def)

lemma still_informEach [simp]: "still s (snd (informEach nodes s))"
proof (induction nodes arbitrary: s)
  case (Cons x nodes)
  have "still s (snd (informEach nodes (say m s)))" for m using Cons.IH still_trans still_say by blast
  then show ?case using Cons.IH by (cases x) (auto intro!: still_pure)
qed simp

lemma still_rejectCoordinator [simp]: "still s (snd (rejectCoordinator s))"
  unfolding rejectCoordinator_def informAllNodesAboutTransactionFinish_def
  by (intro still_bindS still_onBase still_informEach) simp

lemma still_rejectWith [simp]: "still s (snd (rejectWith answer s))"
  unfolding rejectWith_def by (rule still_bindS) simp_all

lemma still_sendDropNotices [simp]: "still s (sendDropNotices b node pathID nodes s)"
proof (induction nodes arbitrary: s)
  case (Cons a nodes)
  have "still s (sendDropNotices b node pathID nodes (say m s))" for m using Cons.IH still_trans still_say by blast
  then show ?case by (cases b) (simp_all add: Let_def)
qed simp

lemma still_drop [simp]: "still s (snd (dropReservationsOnPath env b s))"
  unfolding dropReservationsOnPath_def Let_def
  by (intro still_bindS still_pure still_onPathStats still_onHeld) (auto intro!: still_pure split: prod.split)

lemma still_fold_say [simp]: "still s (fold (\<lambda>a. say (f a)) xs s)"
proof (induction xs arbitrary: s)
  case (Cons a xs)
  show ?case using still_trans [OF still_say Cons.IH] by simp
qed simp

lemma still_sendFinalPath [simp]: "still s (snd (sendFinalPathConfiguration p s))"
  unfolding sendFinalPathConfiguration_def by (intro still_pure) simp

lemma still_includeParticipants [simp]: "still s (snd (includeParticipants xs s))"
  by (induction xs arbitrary: s) (auto intro!: still_bindS)

lemma still_appendAmounts [simp]: "still s (snd (appendAmounts xs x s))"
proof (induction xs arbitrary: s)
  case (Cons a xs)
  have "still s (snd (appendAmounts xs x (appendAmount nodeKey x s)))" for nodeKey
    by (rule still_trans [OF still_append Cons.IH])
  then show ?case by (auto intro!: still_pure)
qed simp

lemma still_addFinal [simp]: "still s (snd (addFinalConfigurationOnPath p s))"
  unfolding addFinalConfigurationOnPath_def Let_def
  by (intro still_bindS still_appendAmounts still_includeParticipants)

lemma still_continueReceiver [simp]: "still s (snd (continueReceiver s))"
  unfolding continueReceiver_def by (intro still_pure) simp

lemma still_shorten [simp]: "still s (snd (shortenPath c x s))"
  unfolding shortenPath_def by (intro still_pure) (auto intro!: still_bindS still_pure)

lemma still_breakCallChain [simp]: "still s (snd (breakCallChain s))"
  unfolding breakCallChain_def by (intro still_bindS) simp_all

lemma still_update [simp]: "still s t \<Longrightarrow> still s (t\<lparr>mNeighborsKeysProblem := x\<rparr>)"
  "still s t \<Longrightarrow> still s (t\<lparr>mRejectedTrustLines := y\<rparr>)" "still s t \<Longrightarrow> still s (t\<lparr>mParticipantsKeysProblem := x\<rparr>)"
  by (simp_all add: still_def)

lemma leftOver_simps [simp]:
  "leftOver (say m s) = leftOver s" "leftOver (toStage stage s) = leftOver s"
  "leftOver (rejectLine a b s) = leftOver s" "leftOver (goOffline a s) = leftOver s"
  "leftOver (s\<lparr>mNeighborsKeysProblem := x\<rparr>) = leftOver s" "leftOver (s\<lparr>mRejectedTrustLines := y\<rparr>) = leftOver s"
  "leftOver (s\<lparr>mParticipantsKeysProblem := x\<rparr>) = leftOver s" "leftOver (s\<lparr>mDirectPathIsAlreadyProcessed := x\<rparr>) = leftOver s"
  "leftOver (s\<lparr>mCountReceiverInaccessible := c\<rparr>) = leftOver s" "leftOver (s\<lparr>mCurrentPathParticipants := ps\<rparr>) = leftOver s"
  "leftOver (s\<lparr>mReservationsStage := w\<rparr>) = leftOver s"
  by (simp_all add: leftOver_def say_def toStage_def rejectLine_def goOffline_def)

section \<open>Calls that end\<close>

text \<open>\<open>fit s0 s\<close>: the reservation stage can go on in \<open>s\<close>, with at most what \<open>s0\<close> leaves.\<close>

definition fit :: "CoordinatorState \<Rightarrow> CoordinatorState \<Rightarrow> bool" where
  "fit s0 s \<longleftrightarrow> atmost s s0 \<and> pre s"

lemma fit_atmost: "fit s0 s \<Longrightarrow> atmost s s0" and fit_pre: "fit s0 s \<Longrightarrow> pre s"
  by (simp_all add: fit_def)

lemma fit_self: "pre s \<Longrightarrow> fit s s"
  by (simp add: fit_def)

lemma fit_mono: "fit s1 s \<Longrightarrow> atmost s1 s0 \<Longrightarrow> fit s0 s"
  using atmost_trans by (auto simp: fit_def)

lemma fit_quiet: "quiet s t \<Longrightarrow> leftOver t = leftOver s \<Longrightarrow> fit s0 s \<Longrightarrow> fit s0 t"
  using quiet_calm [of s t] by (auto simp: fit_def pre_def calm_def dest: ckept_cok)

lemma fit_calm: "(cok s \<Longrightarrow> calm s t) \<Longrightarrow> leftOver t = leftOver s \<Longrightarrow> fit s0 s \<Longrightarrow> fit s0 t"
  by (auto simp: fit_def pre_def calm_def dest: ckept_cok)

lemma fit_records [simp]:
  assumes "fit s0 s"
  shows "fit s0 (say m s)" "fit s0 (rejectLine a b s)" "fit s0 (goOffline a s)" "fit s0 (s\<lparr>mNeighborsKeysProblem := x\<rparr>)"
    "fit s0 ((rejectLine a b s)\<lparr>mNeighborsKeysProblem := x\<rparr>)" "fit s0 ((rejectLine a b s)\<lparr>mParticipantsKeysProblem := x\<rparr>)"
    "fit s0 (s\<lparr>mDirectPathIsAlreadyProcessed := x\<rparr>)"
    "fit s0 (s\<lparr>mCountReceiverInaccessible := c\<rparr>)" "fit s0 (s\<lparr>mCurrentPathParticipants := ps\<rparr>)"
    "fit s0 (s\<lparr>mReservationsStage := w\<rparr>)"
  by (rule fit_quiet [OF _ _ assms]; simp add: quiet_def near_def say_def rejectLine_def goOffline_def leftOver_def)+

lemma fit_toStage [simp]: "fit s0 s \<Longrightarrow> fit s0 (toStage Coordinator_AmountReservation s)"
  using near_kept [OF near_toStage] by (auto simp: fit_def pre_def dest: ckept_cok)

text \<open>\<open>F\<close>, given depth enough, answers the same whatever the depth; an exception after which the payment
  goes on leaves at most what \<open>s0\<close> leaves.\<close>

definition goesOn :: "CoordinatorResult result \<Rightarrow> bool" where
  "goesOn res \<longleftrightarrow> res = Inl NotFoundError \<or> res = Inl CallChainBreakException"

definition ends :: "(nat \<Rightarrow> CoordinatorResult result \<times> CoordinatorState) \<Rightarrow> CoordinatorState \<Rightarrow> bool" where
  "ends F s0 \<longleftrightarrow> (\<exists>N res s'. res \<noteq> Inr OutOfFuel \<and> (goesOn res \<longrightarrow> atmost s' s0) \<and> (\<forall>k. F (N + k) = (res, s')))"

definition proceeds :: "(nat \<Rightarrow> CoordinatorResult result \<times> CoordinatorState) \<Rightarrow> CoordinatorState \<Rightarrow> bool" where
  "proceeds F s0 \<longleftrightarrow> (\<exists>N res s'. res \<noteq> Inr OutOfFuel \<and> (goesOn res \<longrightarrow> atmost s' s0) \<and>
     (res = Inl CallChainBreakException \<longrightarrow> lower s' s0) \<and> (\<forall>k. F (N + k) = (res, s')))"

lemma ends_still:
  assumes "still s (snd r)" and "fst r \<noteq> Inr OutOfFuel" and "atmost s s0"
  shows "ends (\<lambda>n. r) s0"
  using assms still_atmost [OF assms(1)] unfolding ends_def by (cases r) auto

lemma ends_bind:
  assumes "fit s0 (snd a)" and "\<And>x s1. a = (Inr x, s1) \<Longrightarrow> fit s0 s1 \<Longrightarrow> ends (\<lambda>n. G n x s1) s0"
  shows "ends (\<lambda>n. bindS a (G n)) s0"
proof (cases a)
  case (Pair res s1)
  show ?thesis
  proof (cases res)
    case (Inl e)
    then show ?thesis using Pair fit_atmost [OF assms(1)] by (auto simp: ends_def)
  next
    case (Inr x)
    then show ?thesis using Pair assms by simp
  qed
qed

lemma ends_pure:
  assumes "fit s0 s" and "\<And>x. r = Inr x \<Longrightarrow> ends (\<lambda>n. G n x s) s0"
  shows "ends (\<lambda>n. bindS (r, s) (G n)) s0"
  by (rule ends_bind) (use assms in auto)

lemma ends_if: "(P \<Longrightarrow> ends A s0) \<Longrightarrow> (\<not> P \<Longrightarrow> ends B s0) \<Longrightarrow> ends (\<lambda>n. if P then A n else B n) s0"
  by (cases P) (simp_all add: ends_def)

lemma ends_pair: "(\<And>x y. p = (x, y) \<Longrightarrow> ends (\<lambda>n. A n x y) s0) \<Longrightarrow> ends (\<lambda>n. case p of (x, y) \<Rightarrow> A n x y) s0"
  by (cases p) simp

lemma ends_mono:
  assumes "ends F s1" and "atmost s1 s0"
  shows "ends F s0"
  using assms(1) atmost_trans [OF _ assms(2)] unfolding ends_def by blast

lemma proceeds_mono:
  assumes "proceeds F s1" and "atmost s1 s0"
  shows "proceeds F s0"
  using assms(1) atmost_trans [OF _ assms(2)] lower_atmost [OF _ assms(2)] unfolding proceeds_def by blast

lemma ends_proceeds:
  assumes "ends F s1" and "lower s1 s0"
  shows "proceeds F s0"
  using assms(1) atmost_lower [OF _ assms(2)] atmost_lower [OF _ assms(2), THEN lower_le]
  unfolding proceeds_def ends_def goesOn_def by blast

lemma proceeds_ends: "proceeds F s0 \<Longrightarrow> ends F s0"
  unfolding proceeds_def ends_def by blast

definition goes :: "(nat \<Rightarrow> CoordinatorState \<Rightarrow> CoordinatorResult result \<times> CoordinatorState) \<Rightarrow> CoordinatorState \<Rightarrow> bool" where
  "goes f s0 \<longleftrightarrow> (\<forall>s. fit s0 s \<longrightarrow> ends (\<lambda>n. f n s) s)"

lemma goes_ends: "goes f s0 \<Longrightarrow> fit s0 s \<Longrightarrow> ends (\<lambda>n. f n s) s0"
  unfolding goes_def using ends_mono fit_atmost by blast

lemma goes_mono: "goes f s0 \<Longrightarrow> atmost s s0 \<Longrightarrow> goes f s"
  unfolding goes_def using fit_mono by blast

section \<open>What does not call back\<close>

definition stops :: "CoordinatorState \<Rightarrow> CoordinatorResult result \<times> CoordinatorState \<Rightarrow> bool" where
  "stops s r \<longleftrightarrow> still s (snd r) \<and> fst r \<noteq> Inr OutOfFuel"

lemma stops_simps [simp]:
  "stops s (throwing e s') \<longleftrightarrow> still s s'" "stops s (returning r s') \<longleftrightarrow> still s s' \<and> r \<noteq> OutOfFuel"
  by (auto simp: stops_def)

lemma stops_trans: "still s s1 \<Longrightarrow> stops s1 r \<Longrightarrow> stops s r"
  by (auto simp: stops_def intro: still_trans)

lemma stops_bind:
  "still s (snd a) \<Longrightarrow> (\<And>x s1. a = (Inr x, s1) \<Longrightarrow> stops s1 (f x s1)) \<Longrightarrow> stops s (bindS a f)"
  by (cases a) (auto simp: bindS_def split: sum.splits intro: stops_trans)

lemma stops_pure: "(\<And>x. r = Inr x \<Longrightarrow> stops s (f x s)) \<Longrightarrow> stops s (bindS (r, s) f)"
  by (rule stops_bind) auto

lemma stops_if: "(P \<Longrightarrow> stops s a) \<Longrightarrow> (\<not> P \<Longrightarrow> stops s b) \<Longrightarrow> stops s (if P then a else b)"
  by simp

lemma stops_pair: "(\<And>x y. p = (x, y) \<Longrightarrow> stops s (f x y)) \<Longrightarrow> stops s (case p of (x, y) \<Rightarrow> f x y)"
  by (cases p) simp

lemma stops_apply: "(\<And>x y. p = (x, y) \<Longrightarrow> stops s (f x y t)) \<Longrightarrow> stops s ((case p of (x, y) \<Rightarrow> f x y) t)"
  by (cases p) simp

lemmas stops_intros = stops_bind stops_pure stops_if stops_pair stops_apply

lemma ends_stops: "stops s r \<Longrightarrow> atmost s s0 \<Longrightarrow> ends (\<lambda>n. r) s0"
  by (rule ends_still) (simp_all add: stops_def)

lemma ends_apply:
  "(\<And>x y. p = (x, y) \<Longrightarrow> ends (\<lambda>n. A n x y t) s0) \<Longrightarrow> ends (\<lambda>n. (case p of (x, y) \<Rightarrow> A n x y) t) s0"
  by (cases p) simp

lemmas ends_intros = ends_bind ends_pure ends_if ends_pair ends_apply

lemma answers_fuel [simp]: "resultInsufficientFundsError s \<noteq> OutOfFuel" "waitForVotes delay \<noteq> OutOfFuel"
  by (simp_all add: resultInsufficientFundsError_def waitForVotes_def)

lemma rejectCoordinator_stops [simp]: "stops s (rejectCoordinator s)"
  unfolding rejectCoordinator_def informAllNodesAboutTransactionFinish_def by (intro stops_bind) simp_all

lemma rejectWith_stops [simp]: "(\<And>s. answer s \<noteq> OutOfFuel) \<Longrightarrow> stops s (rejectWith answer s)"
  unfolding rejectWith_def by (rule stops_bind) simp_all

lemma breakCallChain_stops [simp]: "stops s (breakCallChain s)"
  unfolding breakCallChain_def by (rule stops_bind) simp_all

lemma requestBlockNumber_stops [simp]: "stops s (requestBlockNumber s)"
  using still_trans [OF still_toStage still_say] by (simp add: requestBlockNumber_def)

lemma breaks_update: "stops s (breakCallChain (s\<lparr>mNeighborsKeysProblem := x\<rparr>))"
  "stops s (breakCallChain (s\<lparr>mRejectedTrustLines := y\<rparr>))"
  by (rule stops_trans [OF _ breakCallChain_stops], simp add: still_def)+

lemma askNeighbor_stops [simp]: "stops s (askNeighborToReserveAmount env neighbor s)"
  unfolding askNeighborToReserveAmount_def Let_def
  by (intro stops_intros) (simp_all add: breaks_update)

lemma askFurther_stops [simp]: "stops s (askToReserveFurther node position nextNode s)"
proof -
  have "still s (snd (onPathStats i f (say m s)))" for i f m
    by (rule still_trans [OF still_say still_onPathStats])
  then show ?thesis unfolding askToReserveFurther_def by (intro stops_intros) simp_all
qed

lemma requestNextNode_stops [simp]: "stops s (requestNextNode env s)"
  unfolding requestNextNode_def askNeighborToApproveFurtherNodeReservation_def askRemoteNodeToApproveReservation_def
  by (intro stops_intros askFurther_stops) simp_all

lemma tryReserveNext_stops [simp]: "stops s (tryReserveNextIntermediateNodeAmount env s)"
proof (cases "requestNextNode env s")
  case (Pair res s1)
  then have s1: "still s s1" "res \<noteq> Inr OutOfFuel" using requestNextNode_stops [of s env] by (simp_all add: stops_def)
  have "stops s1 (bindS (onBase (onPayment rollBack) s1) (\<lambda>_ s.
          bindS (informAllNodesAboutTransactionFinish s) (\<lambda>_ s. returning (resultInsufficientFundsError s) s)))"
    unfolding informAllNodesAboutTransactionFinish_def by (intro stops_bind) simp_all
  from stops_trans [OF s1(1) this] show ?thesis
    using Pair s1 by (auto simp: tryReserveNextIntermediateNodeAmount_def stops_def split: sum.splits geo_error.splits)
qed

lemma runTTL_stops [simp]: "stops s (runTTLTransactionResponse senders s)"
  unfolding runTTLTransactionResponse_def by (intro stops_intros) simp_all

section \<open>What does\<close>

lemma leftOver_snd:
  "still s (snd r) \<Longrightarrow> leftOver (snd r) = leftOver s"
  by (rule still_atmost)

lemmas leftOver_ops [simp] =
  still_onPathStats [THEN leftOver_snd] still_onBase [THEN leftOver_snd] still_onHeld [THEN leftOver_snd]
  still_drop [THEN leftOver_snd] still_continueReceiver [THEN leftOver_snd] still_shorten [THEN leftOver_snd]
  still_addFinal [THEN leftOver_snd] still_addMember [THEN leftOver_snd]

lemma ends_returning: "r \<noteq> OutOfFuel \<Longrightarrow> ends (\<lambda>n. returning r s) s0"
  and ends_throwing: "fit s0 s \<Longrightarrow> ends (\<lambda>n. throwing e s) s0"
  by (auto simp: ends_def goesOn_def dest: fit_atmost)

lemmas ends_fit = ends_stops [OF _ fit_atmost]

lemmas ends_leaves = ends_returning ends_throwing
  ends_fit [OF rejectCoordinator_stops] ends_fit [OF rejectWith_stops] ends_fit [OF requestBlockNumber_stops]
  ends_fit [OF tryReserveNext_stops] ends_stops [OF runTTL_stops]

lemma fit_ops [simp]:
  assumes "fit s0 s"
  shows "fit s0 (snd (onPathStats i f s))" "fit s0 (snd (dropReservationsOnPath env b s))" "fit s0 (snd (continueReceiver s))"
    "fit s0 (snd (shortenPath c x s))" "fit s0 (snd (addFinalConfigurationOnPath p s))"
    "fit s0 (snd (onHeld (reserveOutgoingAmount_tx c x pathID) s))"
    "fit s0 (snd (sendFinalPathConfiguration p s))"
  by (rule fit_calm [OF _ _ assms]; simp add: quiet_calm dropReservations_calm shortenPath_calm reserve_calm
      still_sendFinalPath [THEN leftOver_snd])+

lemma giveUpPath_ends: "goes goNext s0 \<Longrightarrow> fit s0 s \<Longrightarrow> ends (\<lambda>n. giveUpPath (goNext n) s) s0"
  unfolding giveUpPath_def by (rule ends_bind) (auto intro: goes_ends)

lemma pathReserved_ends:
  assumes "goes goNext s0" and "fit s0 s" and "\<And>p. fit s0 (snd (announce p s))"
  shows "ends (\<lambda>n. pathReserved announce (goNext n) s) s0"
  unfolding pathReserved_def using assms
  by (intro ends_intros) (auto intro: goes_ends ends_leaves)

lemma tryDirectly_ends:
  assumes "goes goNext s0" and "fit s0 s"
  shows "ends (\<lambda>n. tryReserveAmountDirectlyOnReceiver (goNext n) env s) s0"
  unfolding tryReserveAmountDirectlyOnReceiver_def Let_def using assms
  by (intro ends_intros) (auto intro: giveUpPath_ends ends_leaves)

lemma noAnswer_ends:
  assumes "goes goNext s0" and "fit s0 s"
  shows "ends (\<lambda>n. noAnswer (goNext n) env b s) s0"
  unfolding noAnswer_def using assms
  by (intro ends_intros) (auto intro: goes_ends)

lemma acceptedByNeighbor_ends:
  assumes "goes again s0" and "fit s0 s"
  shows "ends (\<lambda>n. acceptedByNeighbor (again n) c x s) s0"
  unfolding acceptedByNeighbor_def using assms
  by (intro ends_intros) (auto intro: goes_ends)

lemma rejectedByNeighbor_ends:
  assumes "goes goNext s0" and "fit s0 s"
  shows "ends (\<lambda>n. rejectedByNeighbor (goNext n) env neighbor b s) s0"
  unfolding rejectedByNeighbor_def using assms
  by (intro ends_intros) (auto intro: goes_ends)

lemma neighborAnswered_ends:
  assumes "goes again s0" and "goes goNext s0" and "fit s0 s"
  shows "ends (\<lambda>n. neighborAnswered (again n) (goNext n) env senders i state x s) s0"
  unfolding neighborAnswered_def Let_def using assms
  by (intro ends_intros) (auto intro: rejectedByNeighbor_ends acceptedByNeighbor_ends ends_leaves)

lemma nextNodeInaccessible_ends:
  assumes "goes goNext s0" and "fit s0 s"
  shows "ends (\<lambda>n. nextNodeInaccessible (goNext n) env s) s0"
  unfolding nextNodeInaccessible_def Let_def using assms
  by (intro ends_intros) (auto intro: goes_ends ends_leaves)

lemma furtherRejected_ends:
  assumes "goes goNext s0" and "fit s0 s"
  shows "ends (\<lambda>n. furtherRejectedByNeighbor (goNext n) env s) s0"
    and "ends (\<lambda>n. keysAbsentAtNeighbor (goNext n) env neighbor s) s0"
    and "ends (\<lambda>n. remoteRejected (goNext n) env node position nextNode s) s0"
    and "ends (\<lambda>n. keysAbsentAtRemote (goNext n) env node nextNode s) s0"
  unfolding furtherRejectedByNeighbor_def keysAbsentAtNeighbor_def remoteRejected_def keysAbsentAtRemote_def using assms
  by (intro ends_intros; auto intro: goes_ends)+

lemma confirmedFurther_ends:
  assumes "\<And>t. fit s0 t \<Longrightarrow> ends (\<lambda>n. ask n t) s0" and "goes goNext s0" and "fit s0 s"
  shows "ends (\<lambda>n. confirmedFurther (ask n) (goNext n) s) s0"
  unfolding confirmedFurther_def using assms
  by (intro ends_intros) (auto intro!: pathReserved_ends)

lemma furtherAnswered_ends:
  assumes "goes again s0" and "goes goNext s0" and "fit s0 s"
  shows "ends (\<lambda>n. furtherAnswered (again n) (goNext n) env senders i state x s) s0"
  unfolding furtherAnswered_def Let_def using assms
  by (intro ends_intros)
    (auto intro: nextNodeInaccessible_ends furtherRejected_ends confirmedFurther_ends goes_ends ends_leaves)

lemma acceptedByRemote_ends:
  assumes "goes goNext s0" and "fit s0 s"
  shows "ends (\<lambda>n. acceptedByRemote (goNext n) env senders position x s) s0"
  unfolding acceptedByRemote_def using assms
  by (intro ends_intros) (auto intro: confirmedFurther_ends ends_leaves)

lemma remoteAnswered_ends:
  assumes "goes goNext s0" and "fit s0 s"
  shows "ends (\<lambda>n. remoteAnswered (goNext n) env senders i state x s) s0"
  unfolding remoteAnswered_def using assms
  by (intro ends_intros)
    (auto intro: nextNodeInaccessible_ends furtherRejected_ends acceptedByRemote_ends ends_leaves)

lemma directRejected_ends:
  assumes "goes goNext s0" and "fit s0 s"
  shows "ends (\<lambda>n. directRejected (goNext n) env senders b s) s0"
  unfolding directRejected_def using assms
  by (intro ends_intros) (auto intro: goes_ends)

lemma directAnswered_ends:
  assumes "goes goNext s0" and "fit s0 s"
  shows "ends (\<lambda>n. directAnswered (goNext n) env senders state x s) s0"
proof -
  have "goes (\<lambda>n s. goNext n (toStage Coordinator_AmountReservation s)) s0"
    unfolding goes_def by (auto intro!: goes_ends [OF goes_mono [OF assms(1) fit_atmost]] fit_toStage [OF fit_self [OF fit_pre]])
  from pathReserved_ends [OF this] show ?thesis
    unfolding directAnswered_def Let_def using assms
    by (intro ends_intros) (auto intro: directRejected_ends ends_leaves)
qed

section \<open>The path at hand\<close>

definition goesBelow ::
  "(nat \<Rightarrow> CoordinatorState \<Rightarrow> CoordinatorResult result \<times> CoordinatorState) \<Rightarrow> CoordinatorState \<Rightarrow> bool" where
  "goesBelow f s0 \<longleftrightarrow> (\<forall>s. lower s s0 \<and> pre s \<longrightarrow> ends (\<lambda>n. f n s) s)"

lemma goesBelow_goes: "goesBelow f s0 \<Longrightarrow> lower s s0 \<Longrightarrow> goes f s"
  unfolding goes_def goesBelow_def fit_def using atmost_lower by blast

lemma fit_popped: "pre s \<Longrightarrow> fit (popInbox s) (popInbox s)"
  using near_kept [of s "popInbox s"] by (auto simp: fit_def pre_def near_def dest: ckept_cok)

lemma processNeighbor_ends:
  assumes "goesBelow again s" and "goes goNext s" and "pre s"
  shows "ends (\<lambda>n. processNeighborAmountReservationResponse (again n) (goNext n) env s) s"
proof -
  have none: "ends (\<lambda>n. noAnswer (goNext n) env False s) s"
    by (rule noAnswer_ends [OF assms(2) fit_self [OF assms(3)]])
  have equivalent: "ends (\<lambda>n. bindS (dropReservationsOnPath env False s) (\<lambda>_. goNext n)) s"
    using assms(2) fit_self [OF assms(3)] by (intro ends_bind) (auto intro: goes_ends)
  have "ends (\<lambda>n. neighborAnswered (again n) (goNext n) env senders i state x (popInbox s)) s"
    if "inbox s = [NeighborReservationResponse senders i state x]" for senders i state x
    using neighborAnswered_ends [OF goesBelow_goes [OF assms(1) popped [OF that]] goes_mono [OF assms(2) lower_le [OF popped [OF that]]] fit_popped [OF assms(3)]]
      ends_mono [OF _ lower_le [OF popped [OF that]]] by simp
  then show ?thesis using none equivalent
    by (cases "inbox s"; cases "hd (inbox s)"; cases "tl (inbox s)")
      (simp_all add: processNeighborAmountReservationResponse_def)
qed

lemma processFurther_ends:
  assumes "goesBelow again s" and "goes goNext s" and "pre s"
  shows "ends (\<lambda>n. processNeighborFurtherReservationResponse (again n) (goNext n) env s) s"
    and "ends (\<lambda>n. processRemoteNodeResponse (goNext n) env s) s"
proof -
  have none: "ends (\<lambda>n. noAnswer (goNext n) env True s) s"
    by (rule noAnswer_ends [OF assms(2) fit_self [OF assms(3)]])
  have "ends (\<lambda>n. furtherAnswered (again n) (goNext n) env senders i state x (popInbox s)) s"
    "ends (\<lambda>n. remoteAnswered (goNext n) env senders i state x (popInbox s)) s"
    if "inbox s = [CoordinatorReservationResponse senders i state x]" for senders i state x
    using furtherAnswered_ends [OF goesBelow_goes [OF assms(1) popped [OF that]] goes_mono [OF assms(2) lower_le [OF popped [OF that]]] fit_popped [OF assms(3)]]
      remoteAnswered_ends [OF goes_mono [OF assms(2) lower_le [OF popped [OF that]]] fit_popped [OF assms(3)]]
      ends_mono [OF _ lower_le [OF popped [OF that]]] by simp_all
  then show "ends (\<lambda>n. processNeighborFurtherReservationResponse (again n) (goNext n) env s) s"
    "ends (\<lambda>n. processRemoteNodeResponse (goNext n) env s) s"
    using none
    by (cases "inbox s"; cases "hd (inbox s)"; cases "tl (inbox s)";
        simp add: processNeighborFurtherReservationResponse_def processRemoteNodeResponse_def)+
qed

lemma processCurrentPath_ends:
  assumes "goesBelow again s" and "goes goNext s" and "pre s"
  shows "ends (\<lambda>n. processCurrentPath (again n) (goNext n) env s) s"
proof -
  have "ends (\<lambda>n. runTTLTransactionResponse senders (popInbox s)) s"
    if "inbox s = [TTLProlongationRequest senders]" for senders
    by (intro ends_leaves lower_le popped [OF that])
  moreover have "ends (\<lambda>n. bindS (currentAmountReservationPathStats s, s) (\<lambda>kPathStats s.
            if \<not> containsIntermediateNodes kPathStats then tryReserveAmountDirectlyOnReceiver (goNext n) env s
            else if isReadyToSendNextReservationRequest kPathStats then tryReserveNextIntermediateNodeAmount env s
            else if isWaitingForNeighborReservationResponse kPathStats
            then processNeighborAmountReservationResponse (again n) (goNext n) env s
            else if isWaitingForNeighborReservationPropagationResponse kPathStats
            then processNeighborFurtherReservationResponse (again n) (goNext n) env s
            else if isWaitingForReservationResponse kPathStats then processRemoteNodeResponse (goNext n) env s
            else throwing RuntimeError s)) s"
    using assms fit_self [OF assms(3)] by (intro ends_intros)
      (auto intro: tryDirectly_ends processNeighbor_ends processFurther_ends ends_leaves)
  ultimately show ?thesis
    by (cases "inbox s"; cases "hd (inbox s)"; cases "tl (inbox s)") (simp_all add: processCurrentPath_def)
qed

section \<open>The next path\<close>

lemma addPath_keeps [simp]:
  "mRebuildingAttemptsCount (snd (addPathForFurtherProcessing path s)) = mRebuildingAttemptsCount s"
  by (auto simp: addPathForFurtherProcessing_def onPathStats_def bindS_def split: sum.split option.split)

lemma addValidPaths_keeps [simp]:
  "mRebuildingAttemptsCount (snd (addValidPaths env paths s)) = mRebuildingAttemptsCount s"
proof (induction paths arbitrary: s)
  case (Cons path rest)
  have "mRebuildingAttemptsCount (snd (bindS (addPathForFurtherProcessing path s) (\<lambda>_. addValidPaths env rest)))
      = mRebuildingAttemptsCount s"
    using addPath_keeps [of path s] Cons.IH
    by (cases "addPathForFurtherProcessing path s") (auto simp: bindS_def split: sum.split)
  then show ?case using Cons.IH by (auto simp: bindS_def split: sum.split)
qed simp

lemma buildPathsAgain_keeps [simp]:
  "mRebuildingAttemptsCount (snd (buildPathsAgain env s)) = mRebuildingAttemptsCount s"
  by (auto simp: buildPathsAgain_def bindS_def split: sum.split)

lemma initAmounts_keeps: "initAmountsReservationOnNextPath s = (r, s') \<Longrightarrow> still s s'"
  by (auto simp: initAmountsReservationOnNextPath_def Let_def currentAmountReservationPathStats_def bindS_def still_def
      split: if_splits list.splits option.splits)

lemma unat_less_Suc: "(x :: 'a::len word) \<noteq> - 1 \<Longrightarrow> unat x < unat (x + 1)"
  using unatSuc [of x] add_eq_0_iff [of 1 x] by (simp add: add.commute)

lemma fewer_attempts:
  assumes "mRebuildingAttemptsCount t = mRebuildingAttemptsCount s + 1" and "mRebuildingAttemptsCount t \<le> kMaxRebuildingAttemptsCount"
  shows "lower t s"
proof -
  have "unat (3 - d) < unat (3 - (d - 1))" if "d \<le> 3" for d :: "16 word"
  proof -
    have "3 - d \<noteq> - 1"
    proof
      assume "3 - d = - 1"
      then have "d = 4" by (simp add: algebra_simps)
      then show False using that by (simp add: word_le_nat_alt)
    qed
    from unat_less_Suc [OF this] show ?thesis by (simp add: algebra_simps)
  qed
  from this [OF assms(2) [unfolded kMaxRebuildingAttemptsCount_def]] show ?thesis
    using assms(1) by (simp add: less3_def leftOver_def kMaxRebuildingAttemptsCount_def)
qed

lemma pre_quiet_snd: "pre s \<Longrightarrow> quiet s t \<Longrightarrow> pre t"
  using quiet_calm by (auto simp: pre_def calm_def dest: ckept_cok)

lemma pre_records:
  assumes "pre s"
  shows "pre (s\<lparr>mRebuildingAttemptsCount := c\<rparr>)" "pre (s\<lparr>mCurrentPathParticipants := ps\<rparr>)"
    "pre (s\<lparr>mReservationsStage := w\<rparr>)"
    "pre (s\<lparr>mPreviousInaccessibleNodesCount := i, mPreviousRejectedTrustLinesCount := j, mDirectPathIsAlreadyProcessed := x\<rparr>)"
  by (rule pre_quiet_snd [OF assms]; simp add: quiet_def near_def)+

text \<open>A rejection is not a reason to go on.\<close>

lemma rejectWith_ends:
  assumes "pre s" and "\<And>s. answer s \<noteq> OutOfFuel"
  shows "proceeds (\<lambda>n. rejectWith answer s) s0"
  by (rule rejectCoordinator_cases [OF pre_cok [OF assms(1)]])
    (use assms(2) in \<open>auto simp: proceeds_def goesOn_def rejectWith_def\<close>)

lemma proceeds_if: "(P \<Longrightarrow> proceeds A s0) \<Longrightarrow> (\<not> P \<Longrightarrow> proceeds B s0) \<Longrightarrow> proceeds (\<lambda>n. if P then A n else B n) s0"
  by (cases P) (simp_all add: proceeds_def)

lemma buildNewPaths_proceeds:
  assumes "pre s" and "goesBelow again s"
  shows "proceeds (\<lambda>n. buildNewPaths (again n) env s) s"
proof -
  let ?t = "s\<lparr>mRebuildingAttemptsCount := mRebuildingAttemptsCount s + 1\<rparr>"
  note pt = pre_records(1) [OF assms(1), of "mRebuildingAttemptsCount s + 1"]
  obtain res u where u: "buildPathsAgain env ?t = (res, u)" by (meson surj_pair)
  have pu: "pre u" using pre_quiet_snd [OF pt buildPathsAgain_quiet] u by (metis snd_conv)
  let ?v = "u\<lparr>mPreviousInaccessibleNodesCount := length (inaccessibleNodes u),
       mPreviousRejectedTrustLinesCount := length (mRejectedTrustLines u), mDirectPathIsAlreadyProcessed := False\<rparr>"
  obtain res' w where w: "initAmountsReservationOnNextPath ?v = (res', w)" by (meson surj_pair)
  have pw: "pre w" using pre_quiet_snd [OF pre_records(4) [OF pu] initAmounts_quiet] w by (metis snd_conv)
  have no: "proceeds (\<lambda>n. rejectWith resultInsufficientFundsError ?t) s"
    by (rule rejectWith_ends [OF pt]) simp
  have count: "mRebuildingAttemptsCount u = mRebuildingAttemptsCount s + 1"
    using buildPathsAgain_keeps [of env ?t] u by simp
  have lu: "lower u s" and lw: "lower w s" if "\<not> mRebuildingAttemptsCount ?t > kMaxRebuildingAttemptsCount"
    using that count initAmounts_keeps [OF w] by (auto intro!: fewer_attempts simp: still_def)
  have init: "proceeds (\<lambda>n. bindS (initAmountsReservationOnNextPath ?v) (\<lambda>_. again n)) s" if w': "lower w s"
  proof -
    have "ends (\<lambda>n. again n w) w" using assms(2) w' pw by (simp add: goesBelow_def)
    from ends_proceeds [OF this w'] show ?thesis
      using w w' lower_le [OF w'] by (cases res') (auto simp: proceeds_def)
  qed
  have "proceeds (\<lambda>n. bindS (buildPathsAgain env ?t) (\<lambda>_ s.
               if length (mPathsStats s) > length (mPathsStats ?t)
               then bindS (initAmountsReservationOnNextPath
                      (s\<lparr>mPreviousInaccessibleNodesCount := length (inaccessibleNodes s),
                         mPreviousRejectedTrustLinesCount := length (mRejectedTrustLines s),
                         mDirectPathIsAlreadyProcessed := False\<rparr>)) (\<lambda>_. again n)
               else rejectWith resultInsufficientFundsError s)) s"
    if t: "\<not> mRebuildingAttemptsCount ?t > kMaxRebuildingAttemptsCount"
  proof (cases res)
    case (Inl e)
    then show ?thesis using u lu [OF t] lower_le [OF lu [OF t]] by (auto simp: proceeds_def)
  next
    case (Inr x)
    have "proceeds (\<lambda>n. if length (mPathsStats u) > length (mPathsStats ?t)
               then bindS (initAmountsReservationOnNextPath ?v) (\<lambda>_. again n)
               else rejectWith resultInsufficientFundsError u) s"
      by (intro proceeds_if init [OF lw [OF t]] rejectWith_ends [OF pu]) simp
    then show ?thesis using u Inr by simp
  qed
  then show ?thesis unfolding buildNewPaths_def Let_def by (intro proceeds_if no)
qed

lemma switch_lower:
  assumes "switchToNextPath s = (res, s')"
  shows "res = Inr () \<Longrightarrow> lower s' s" and "atmost s' s" and "res \<noteq> Inl CallChainBreakException"
proof -
  have "res = Inr () \<Longrightarrow> lower s' s" "atmost s' s \<and> res \<noteq> Inl CallChainBreakException"
    using assms
    by (cases "mPathIDs s";
        auto simp: switchToNextPath_def Let_def currentAmountReservationPathStats_def bindS_def leftOver_def dropUnusable_def
          nodeAt_def less3_def le3_def split: list.splits option.splits if_splits)+
  then show "res = Inr () \<Longrightarrow> lower s' s" "atmost s' s" "res \<noteq> Inl CallChainBreakException" by simp_all
qed

section \<open>The loop over the paths\<close>

lemma ends_Suc: "ends (\<lambda>n. F (Suc n)) s0 \<Longrightarrow> ends F s0"
  and proceeds_Suc: "proceeds (\<lambda>n. F (Suc n)) s0 \<Longrightarrow> proceeds F s0"
  unfolding ends_def proceeds_def by (metis add_Suc)+

lemma goesBelow_mono: "goesBelow f s0 \<Longrightarrow> atmost s s0 \<Longrightarrow> goesBelow f s"
  unfolding goesBelow_def using lower_atmost by blast

lemma proceeds_catches:
  assumes "ends F s1" and "lower s1 s0"
    and "\<And>N s'. F N = (Inl NotFoundError, s') \<Longrightarrow> atmost s' s0 \<Longrightarrow> proceeds (\<lambda>n. G n s') s0"
  shows "proceeds (\<lambda>n. case F n of (Inl NotFoundError, s) \<Rightarrow> G n s | r \<Rightarrow> r) s0"
proof -
  obtain N res s' where f: "res \<noteq> Inr OutOfFuel" "goesOn res \<longrightarrow> atmost s' s1" "\<And>k. F (N + k) = (res, s')"
    using assms(1) unfolding ends_def by blast
  show ?thesis
  proof (cases "res = Inl NotFoundError")
    case True
    then have "atmost s' s0" using f(2) atmost_lower [OF _ assms(2)] lower_le by (auto simp: goesOn_def)
    then have "proceeds (\<lambda>n. G n s') s0" using assms(3) [of "N + 0" s'] f(3) [of 0] True by simp
    then obtain M res2 s2 where g: "res2 \<noteq> Inr OutOfFuel" "goesOn res2 \<longrightarrow> atmost s2 s0"
      "res2 = Inl CallChainBreakException \<longrightarrow> lower s2 s0" "\<And>k. G (M + k) s' = (res2, s2)"
      unfolding proceeds_def by blast
    have "(case F (N + M + k) of (Inl NotFoundError, s) \<Rightarrow> G (N + M + k) s | r \<Rightarrow> r) = (res2, s2)" for k
      using f(3) [of "M + k"] g(4) [of "N + k"] True by (simp add: add_ac)
    then show ?thesis unfolding proceeds_def using g(1-3) by blast
  next
    case False
    have "(case F (N + k) of (Inl NotFoundError, s) \<Rightarrow> G (N + k) s | r \<Rightarrow> r) = (res, s')" for k
      using f(3) [of k] False by (auto split: sum.split geo_error.split)
    moreover have "goesOn res \<longrightarrow> lower s' s0" using f(2) atmost_lower [OF _ assms(2)] by blast
    ultimately show ?thesis unfolding proceeds_def using f(1) lower_le by (fastforce simp: goesOn_def)
  qed
qed

lemma nextPath_proceeds:
  assumes "goesBelow (\<lambda>n. runAmountReservationStage_coordinator n env) s" and "pre s"
  shows "proceeds (\<lambda>n. tryProcessNextPath n env s) s"
proof (rule proceeds_Suc)
  let ?again = "\<lambda>n. runAmountReservationStage_coordinator n env"
  let ?u = "s\<lparr>mCurrentPathParticipants := []\<rparr>"
  obtain res w where w: "switchToNextPath ?u = (res, w)" by (meson surj_pair)
  have pw: "pre w" using pre_quiet_snd [OF pre_records(2) [OF assms(2)] switch_quiet] w by (metis snd_conv)
  have le: "atmost w s" and lw: "res = Inr () \<Longrightarrow> lower w s" and nb: "res \<noteq> Inl CallChainBreakException"
    using switch_lower [OF w] by simp_all
  have build: "proceeds (\<lambda>n. buildNewPaths (?again n) env t) s" if "atmost t s" "pre t" for t
    using proceeds_mono [OF buildNewPaths_proceeds [OF that(2) goesBelow_mono [OF assms(1) that(1)]] that(1)] .
  have "proceeds (\<lambda>n. case bindS (switchToNextPath ?u) (\<lambda>_. ?again n) of
      (Inl NotFoundError, s) \<Rightarrow> buildNewPaths (?again n) env s | r \<Rightarrow> r) s"
  proof (cases res)
    case (Inl e)
    then show ?thesis using w nb build [OF le pw]
      by (cases "e = NotFoundError") (auto simp: proceeds_def goesOn_def split: geo_error.split)
  next
    case (Inr x)
    then have "lower w s" using lw by simp
    then have w_ends: "ends (\<lambda>n. ?again n w) w" using assms(1) pw by (simp add: goesBelow_def)
    have again_pre: "pre t" if "?again n w = (Inl NotFoundError, t)" for n t
      using carries_onD [OF reservation_stage_ok(1) pw, of n env] that
      by (auto simp: coord_ok_def isProjectException_def pre_def dest: ckept_cok)
    have "proceeds (\<lambda>n. case ?again n w of (Inl NotFoundError, s) \<Rightarrow> buildNewPaths (?again n) env s | r \<Rightarrow> r) s"
      by (rule proceeds_catches [OF w_ends \<open>lower w s\<close>]) (rule build [OF _ again_pre])
    then show ?thesis using w Inr by simp
  qed
  then show "proceeds (\<lambda>n. tryProcessNextPath (Suc n) env s) s" by simp
qed

lemma reservation_stage_ends:
  assumes "pre s"
  shows "ends (\<lambda>n. runAmountReservationStage_coordinator n env s) s"
    and "mReservationsStage s = 2 \<Longrightarrow> proceeds (\<lambda>n. runAmountReservationStage_coordinator n env s) s"
proof -
  let ?again = "\<lambda>n. runAmountReservationStage_coordinator n env" and ?go = "\<lambda>n. tryProcessNextPath n env"
  have "pre s \<longrightarrow> ends (\<lambda>n. ?again n s) s \<and> (mReservationsStage s = 2 \<longrightarrow> proceeds (\<lambda>n. ?again n s) s)"
  proof (rule wf_induct [OF wf_inv_image [OF wf_less3, of leftOver], of _ s], intro impI)
    fix s assume IH: "\<forall>t. (t, s) \<in> inv_image less3 leftOver \<longrightarrow> pre t \<longrightarrow>
        ends (\<lambda>n. ?again n t) t \<and> (mReservationsStage t = 2 \<longrightarrow> proceeds (\<lambda>n. ?again n t) t)" and s: "pre s"
    have below: "goesBelow ?again s" using IH by (simp add: goesBelow_def)
    have go: "proceeds (\<lambda>n. ?go n t) s" if "fit s t" for t
      using proceeds_mono [OF nextPath_proceeds [OF goesBelow_mono [OF below fit_atmost [OF that]] fit_pre [OF that]]
          fit_atmost [OF that]] .
    have goes: "goes ?go t" if "fit s t" for t
      unfolding goes_def
      using proceeds_ends [OF nextPath_proceeds [OF goesBelow_mono [OF below] fit_pre]] fit_mono [OF _ fit_atmost [OF that]] fit_atmost
      by meson
    have path: "ends (\<lambda>n. processCurrentPath (?again n) (?go n) env t) s" if t: "fit s t" for t
      by (rule ends_mono [OF processCurrentPath_ends [OF goesBelow_mono [OF below fit_atmost [OF t]] goes [OF t] fit_pre [OF t]]
            fit_atmost [OF t]])
    note self = fit_self [OF s]
    have init: "fit s (snd (initAmountsReservationOnNextPath s))"
    proof -
      obtain r t where t: "initAmountsReservationOnNextPath s = (r, t)" by (meson surj_pair)
      have "quiet s t" using initAmounts_quiet [of s] t by simp
      from fit_quiet [OF this still_atmost [OF initAmounts_keeps [OF t]] self] show ?thesis using t by simp
    qed
    have strict: "proceeds (\<lambda>n. ?again n s) s" if "mReservationsStage s = 2"
      by (rule proceeds_Suc) (use that go [OF fit_records(10) [OF self]] in simp)
    have "ends (\<lambda>n. ?again n s) s"
    proof (rule ends_Suc)
      have "ends (\<lambda>n. if mReservationsStage s = 0
      then bindS (initAmountsReservationOnNextPath s) (\<lambda>_ s.
             processCurrentPath (?again n) (?go n) env (s\<lparr>mReservationsStage := mReservationsStage s + 1\<rparr>))
      else if mReservationsStage s = 1 then processCurrentPath (?again n) (?go n) env s
      else if mReservationsStage s = 2 then ?go n (s\<lparr>mReservationsStage := 1\<rparr>)
      else throwing ValueError s) s"
        by (intro ends_if ends_bind init path proceeds_ends [OF go] fit_records(10) self ends_throwing)
      then show "ends (\<lambda>n. ?again (Suc n) s) s" by simp
    qed
    with strict show "ends (\<lambda>n. ?again n s) s \<and> (mReservationsStage s = 2 \<longrightarrow> proceeds (\<lambda>n. ?again n s) s)" by blast
  qed
  then show "ends (\<lambda>n. ?again n s) s" "mReservationsStage s = 2 \<Longrightarrow> proceeds (\<lambda>n. ?again n s) s" using assms by simp_all
qed

section \<open>The stages\<close>

text \<open>An answer after which \<open>run\<close> may call the stages again only with less left.\<close>

definition advances :: "CoordinatorState \<Rightarrow> CoordinatorResult result \<times> CoordinatorState \<Rightarrow> bool" where
  "advances s r \<longleftrightarrow> fst r \<noteq> Inr OutOfFuel \<and> (fst r = Inl CallChainBreakException \<longrightarrow>
     lower (snd r) s \<or> mReservationsStage s \<noteq> 2 \<and> atmost (snd r) s)"

definition comes_to :: "CoordinatorState \<Rightarrow> (nat \<Rightarrow> CoordinatorResult result \<times> CoordinatorState) \<Rightarrow> bool" where
  "comes_to s F \<longleftrightarrow> (\<exists>N r. advances s r \<and> (\<forall>k. F (N + k) = r))"

lemma comes_to_const: "advances s r \<Longrightarrow> comes_to s (\<lambda>n. r)"
  unfolding comes_to_def by blast

lemma comes_to_if: "(P \<Longrightarrow> comes_to s A) \<Longrightarrow> (\<not> P \<Longrightarrow> comes_to s B) \<Longrightarrow> comes_to s (\<lambda>n. if P then A n else B n)"
  by (cases P) (simp_all add: comes_to_def)

lemma comes_to_proceeds: "proceeds F s \<Longrightarrow> comes_to s F"
  unfolding proceeds_def comes_to_def advances_def by fastforce

lemma comes_to_ends: "ends F s \<Longrightarrow> mReservationsStage s \<noteq> 2 \<Longrightarrow> comes_to s F"
  unfolding ends_def comes_to_def advances_def goesOn_def by fastforce

lemma advances_stops: "stops t r \<Longrightarrow> lower t s \<Longrightarrow> advances s r"
  using still_atmost [of t "snd r"] by (auto simp: stops_def advances_def)

lemma advances_answer: "r \<noteq> OutOfFuel \<Longrightarrow> advances s (returning r t)"
  and advances_throws: "e \<noteq> CallChainBreakException \<Longrightarrow> advances s (throwing e t)"
  by (simp_all add: advances_def)

lemma advances_bind:
  assumes "fst a \<noteq> Inl CallChainBreakException" and "\<And>x t. a = (Inr x, t) \<Longrightarrow> advances s (f x t)"
  shows "advances s (bindS a f)"
  using assms by (cases a) (auto simp: bindS_def advances_def split: sum.splits)

lemma advances_pure:
  "r \<noteq> Inl CallChainBreakException \<Longrightarrow> (\<And>x. r = Inr x \<Longrightarrow> advances s (f x t)) \<Longrightarrow> advances s (bindS (r, t) f)"
  by (rule advances_bind) auto

lemma advances_reject: "cok t \<Longrightarrow> advances s (rejectCoordinator t)"
  by (erule rejectCoordinator_cases) (simp_all add: advances_def)

lemma advances_rejectWith: "cok t \<Longrightarrow> (\<And>t. answer t \<noteq> OutOfFuel) \<Longrightarrow> advances s (rejectWith answer t)"
  by (erule rejectCoordinator_cases) (simp_all add: advances_def rejectWith_def)

lemma mainAddress_unbroken [simp]: "mainAddress as \<noteq> Inl CallChainBreakException"
  by (simp add: mainAddress_def split: list.split)

lemma considering_unbroken [simp]: "outgoingTrustAmountConsideringReservations m c \<noteq> Inl CallChainBreakException"
  by (auto simp: outgoingTrustAmountConsideringReservations_def trustLineReadOnly_def availableOutgoingAmount_def
      absoluteBalanceAmount_def to_amount_def totalReserved_eq checked_sub_def bindR_def
      split: option.splits sum.splits if_splits)

lemma sumFlows_unbroken: "(\<And>c. f c \<noteq> Inl CallChainBreakException) \<Longrightarrow> sumFlows f n ls \<noteq> Inl CallChainBreakException"
  by (induction f n ls rule: sumFlows.induct) (auto simp: checked_add_def bindR_def split: option.split sum.splits if_splits)

lemma initialization_advances: "advances s (runPaymentInitializationStage env s)"
  unfolding runPaymentInitializationStage_def totalOutgoingAmount_def
  by (auto intro!: advances_answer advances_pure sumFlows_unbroken)

lemma freeIdentifier_unbroken [simp]: "freeIdentifier n i ids \<noteq> Inl CallChainBreakException"
  by (induction n i ids rule: freeIdentifier.induct) auto

lemma isPathValid_unbroken [simp]: "isPathValid env s path \<noteq> Inl CallChainBreakException"
  by (auto simp: isPathValid_def bindR_def split: sum.splits)

lemma addPath_unbroken: "fst (addPathForFurtherProcessing path s) \<noteq> Inl CallChainBreakException"
  by (auto simp: addPathForFurtherProcessing_def bindS_def onPathStats_def split: sum.split option.split)

lemma addValidPaths_unbroken: "fst (addValidPaths env paths s) \<noteq> Inl CallChainBreakException"
proof (induction paths arbitrary: s)
  case (Cons path rest)
  then show ?case using addPath_unbroken [of path s] by (auto simp: bindS_def split: sum.split prod.split)
qed simp

lemma pathsResource_advances: "advances s (runPathsResourceProcessingStage env s)"
proof -
  have "advances s (bindS (addValidPaths env paths (s\<lparr>resources := rest\<rparr>)) (\<lambda>_ s.
            if mPathsStats s = [] then returning (Answered AnswerNoRoutes) s
            else bindS (mainAddress (mContractor s), s) (\<lambda>receiver s.
              returning (WaitsForMessages [Kind_ReceiverInitPaymentResponse, Kind_NoEquivalent] (maxNetworkDelay 4))
                (toStage Coordinator_ReceiverResponseProcessing
                   (say (SendReceiverInitRequest receiver (mCommandAmount s)) s)))))" for paths rest
    by (rule advances_bind [OF addValidPaths_unbroken]) (auto intro!: advances_answer advances_pure)
  then show ?thesis
    unfolding runPathsResourceProcessingStage_def
    by (auto intro: advances_answer split: list.split CoordinatorResource.split)
qed

lemma lower_resources: "resources s = x # rest \<Longrightarrow> lower (s\<lparr>resources := rest\<rparr>) s"
  by (simp add: less3_def leftOver_def)

lemma quiet_cok: "quiet s t \<Longrightarrow> cok s \<Longrightarrow> cok t"
  using near_kept quiet_near ckept_cok by blast

lemma receiverResponse_comes:
  assumes "settled s" and "stage_co s = Coordinator_ReceiverResponseProcessing"
  shows "comes_to s (\<lambda>n. runReceiverResponseProcessingStage (runAmountReservationStage_coordinator n env) env s)"
proof -
  let ?again = "\<lambda>n. runAmountReservationStage_coordinator n env"
  let ?p = "popInbox s" and ?self = "mSelf (coordinatorContractors env)"
  have accepted: "comes_to s (\<lambda>n. bindS (addMember ?self (?p\<lparr>mCurrentFreePaymentID := kCoordinatorPaymentNodeID\<rparr>)) (\<lambda>_ s.
      bindS (addMember (mContractor s) s) (\<lambda>_ s. ?again n (toStage Coordinator_AmountReservation s))))"
    if m: "inbox s = [m]" for m
  proof -
    let ?q = "?p\<lparr>mCurrentFreePaymentID := kCoordinatorPaymentNodeID\<rparr>"
    obtain r1 t1 where t1: "addMember ?self ?q = (r1, t1)" by (meson surj_pair)
    obtain r2 t2 where t2: "addMember (mContractor t1) t1 = (r2, t2)" by (meson surj_pair)
    have unbroken: "fst (addMember x t) \<noteq> Inl CallChainBreakException" for x t
      by (auto simp: addMember_def Let_def bindS_def split: sum.split)
    have q: "quiet ?q t1" "quiet t1 t2" using addMember_quiet [of ?q ?self] addMember_quiet [of t1 "mContractor t1"] t1 t2 by simp_all
    have "cok ?q" using assms(1) near_kept [of s ?q] by (auto simp: settled_def near_def dest: ckept_cok)
    then have "cok t2" using quiet_cok q by blast
    then have "pre (toStage Coordinator_AmountReservation t2)"
      using ckept_cok [OF near_kept [OF near_toStage]] by (simp add: pre_def)
    then have e: "ends (\<lambda>n. ?again n (toStage Coordinator_AmountReservation t2)) (toStage Coordinator_AmountReservation t2)"
      by (rule reservation_stage_ends(1))
    have "leftOver t2 = leftOver ?q"
      using still_atmost [OF still_addMember, of ?self ?q] still_atmost [OF still_addMember, of "mContractor t1" t1] t1 t2 by simp
    also have "\<dots> = leftOver ?p" by (simp add: leftOver_def)
    finally have "lower (toStage Coordinator_AmountReservation t2) s" using popped [OF m] by simp
    from comes_to_proceeds [OF ends_proceeds [OF e this]]
    have "comes_to s (\<lambda>n. ?again n (toStage Coordinator_AmountReservation t2))" .
    then show ?thesis
      using t1 t2 unbroken [of ?self ?q] unbroken [of "mContractor t1" t1]
      by (cases r1; cases r2) (auto intro!: comes_to_const advances_throws)
  qed
  have refused: "comes_to s (\<lambda>n. returning r t)" if "r \<noteq> OutOfFuel" for r t
    by (intro comes_to_const advances_answer that)
  have answered: "comes_to s (\<lambda>n. if \<not> b then returning (resultInsufficientFundsError ?p) ?p
      else bindS (addMember ?self (?p\<lparr>mCurrentFreePaymentID := kCoordinatorPaymentNodeID\<rparr>)) (\<lambda>_ s.
        bindS (addMember (mContractor s) s) (\<lambda>_ s. ?again n (toStage Coordinator_AmountReservation s))))"
    if "inbox s = [m]" for m b
    using accepted [OF that] refused by (cases b) simp_all
  have "comes_to s (\<lambda>n. runReceiverResponseProcessingStage (?again n) env s)" if m: "inbox s = [ReceiverInitPaymentResponse b]" for b
    using answered [OF m, of b] unfolding runReceiverResponseProcessingStage_def Let_def m by simp
  then show ?thesis
    using refused
    by (cases "inbox s"; cases "hd (inbox s)"; cases "tl (inbox s)")
      (simp_all add: runReceiverResponseProcessingStage_def Let_def)
qed

lemma free_unbroken [simp]: "fst (dropAmountReservation c r m) \<noteq> Inl CallChainBreakException"
  by (auto simp: dropAmountReservation_def onHandler_def free_def split: option.split)

lemma unbroken_bind:
  "fst a \<noteq> Inl CallChainBreakException \<Longrightarrow> (\<And>x t. fst (f x t) \<noteq> Inl CallChainBreakException) \<Longrightarrow>
   fst (bindS a f) \<noteq> Inl CallChainBreakException"
  by (cases a) (auto simp: bindS_def split: sum.split)

lemma path_unbroken [simp]:
  "fst (onPathStats i (\<lambda>p. Inr (f p)) s) \<noteq> Inl CallChainBreakException"
  "currentAmountReservationPathStats s \<noteq> Inl CallChainBreakException"
  "nodeAt nodes j \<noteq> Inl CallChainBreakException" "currentIntermediateNodeAndPos p \<noteq> Inl CallChainBreakException"
  by (auto simp: onPathStats_def currentAmountReservationPathStats_def nodeAt_def currentIntermediateNodeAndPos_def
      firstNodeWith_def bindR_def split: option.split)

lemma drop_unbroken: "fst (dropReservationsOnPath env b s) \<noteq> Inl CallChainBreakException"
proof -
  have first: "fst (dropFirstOnPath c i h) \<noteq> Inl CallChainBreakException" for c i h
  proof -
    obtain p m where h: "h = (p, m)" by (meson surj_pair)
    have "fst (case x of (Inl e, m') \<Rightarrow> throwing e (p, m') | (Inr _, m') \<Rightarrow> returning () (q m')) \<noteq> Inl CallChainBreakException"
      if "fst x \<noteq> Inl CallChainBreakException" for x :: "unit result \<times> TrustLinesManager" and q :: "TrustLinesManager \<Rightarrow> PaymentState"
      using that by (cases x; cases "fst x") auto
    note this [simp]
    show ?thesis unfolding dropFirstOnPath_def Let_def h by (auto split: option.split)
  qed
  have held: "fst (onHeld (dropFirstOnPath c i) t) \<noteq> Inl CallChainBreakException" for c i t
    using first [of c i "held_co t"] by (auto simp: onHeld_def split: prod.split)
  show ?thesis
    unfolding dropReservationsOnPath_def Let_def
  proof (intro unbroken_bind held)
    have "fst (bindS (currentIntermediateNodeAndPos p, t) (\<lambda>(node, _) s. returning () (f node s))) \<noteq> Inl CallChainBreakException"
      for p t and f :: "Address \<Rightarrow> CoordinatorState \<Rightarrow> CoordinatorState"
      by (rule unbroken_bind) (auto split: prod.split)
    then show "fst (if length (pathNodes p) = 1 then returning () t
        else bindS (currentIntermediateNodeAndPos p, t) (\<lambda>(lastNode, _) s.
               returning () (sendDropNotices b lastNode (currentPathID s') (pathNodes p) s))) \<noteq> Inl CallChainBreakException"
      for p t s' by simp
  qed simp_all
qed

lemma direct_comes:
  assumes "pre s"
  shows "comes_to s (\<lambda>n. runDirectAmountReservationResponseProcessingStage (tryProcessNextPath n env) env s)"
proof -
  let ?go = "\<lambda>n. tryProcessNextPath n env"
  have go: "proceeds (\<lambda>n. ?go n t) t" if "pre t" for t
    using reservation_stage_ends(1) by (intro nextPath_proceeds that) (simp add: goesBelow_def)
  have goes: "goes ?go t" for t
    unfolding goes_def using proceeds_ends [OF go [OF fit_pre]] by blast
  have answered: "comes_to s (\<lambda>n. directAnswered (?go n) env senders state x (popInbox s))" if "inbox s = [m]" for senders state x m
    by (rule comes_to_proceeds [OF ends_proceeds [OF directAnswered_ends [OF goes fit_popped [OF assms]] popped [OF that]]])
  let ?t = "s\<lparr>mCountReceiverInaccessible := mCountReceiverInaccessible s + 1\<rparr>"
  have t: "fit s ?t" by (rule fit_records(8) [OF fit_self [OF assms]])
  obtain res u where u: "dropReservationsOnPath env False ?t = (res, u)" by (meson surj_pair)
  have fu: "fit s u" using fit_ops(2) [OF t, of env False] u by simp
  have next_ends: "proceeds (\<lambda>n. ?go n (toStage Coordinator_AmountReservation u)) s"
    by (rule proceeds_mono [OF go [OF fit_pre [OF fit_toStage [OF fu]]] fit_atmost [OF fit_toStage [OF fu]]])
  have "comes_to s (\<lambda>n. bindS (dropReservationsOnPath env False ?t) (\<lambda>_ s. ?go n (toStage Coordinator_AmountReservation s)))"
  proof (cases res)
    case (Inl e)
    then have "comes_to s (\<lambda>n. throwing e u)"
      using drop_unbroken [of env False ?t] u by (intro comes_to_const advances_throws) auto
    then show ?thesis using u Inl by simp
  next
    case (Inr x)
    then show ?thesis using comes_to_proceeds [OF next_ends] u by simp
  qed
  then have silent: "comes_to s (\<lambda>n. if mCountReceiverInaccessible ?t \<ge> kMaxReceiverInaccessible
      then rejectWith (\<lambda>_. Answered AnswerRemoteNodeIsInaccessible) ?t
      else bindS (dropReservationsOnPath env False ?t) (\<lambda>_ s. ?go n (toStage Coordinator_AmountReservation s)))"
    by (intro comes_to_if comes_to_const [OF advances_rejectWith [OF pre_cok [OF fit_pre [OF t]]]]) simp_all
  show ?thesis
    using answered silent
    by (cases "inbox s"; cases "hd (inbox s)"; cases "tl (inbox s)")
      (simp_all add: runDirectAmountReservationResponseProcessingStage_def Let_def)
qed

section \<open>The final stages\<close>

lemma still_setKeys [simp]: "still s (setKeys ks s)" and still_addSignature [simp]: "still s (addSignature i x s)"
  by (simp_all add: still_def setKeys_def addSignature_def)

lemma still_sendKeysTo [simp]: "still s (snd (sendKeysTo chosen nodes s))"
proof (induction nodes arbitrary: s)
  case (Cons x nodes)
  have "still s (snd (sendKeysTo chosen nodes (say m s)))" for m using still_trans [OF still_say Cons.IH] .
  then show ?case using Cons.IH by (cases x) (auto intro!: still_pure)
qed simp

lemma still_sendVotesTo [simp]: "still s (snd (sendVotesTo nodes s))"
proof (induction nodes arbitrary: s)
  case (Cons x nodes)
  have "still s (snd (sendVotesTo nodes (say m s)))" for m using still_trans [OF still_say Cons.IH] .
  then show ?case using Cons.IH by (cases x) (auto intro!: still_pure)
qed simp

lemma still_finalAmountsOf: "still s (snd (finalAmountsOf k s))"
  by (simp add: finalAmountsOf_def still_def split: option.split)

lemma still_sendFinalAmountsTo [simp]: "still s (snd (sendFinalAmountsTo env key maxBlock nodes s))"
proof (induction nodes arbitrary: s)
  case (Cons x nodes)
  have go: "still s (snd (case finalAmountsOf k s of (amounts, s) \<Rightarrow> sendFinalAmountsTo env key maxBlock nodes (say (f amounts s) s)))"
    for k f s
  proof -
    obtain amounts t where t: "finalAmountsOf k s = (amounts, t)" by (meson surj_pair)
    have "still s t" using still_finalAmountsOf [of s k] t by simp
    then show ?thesis using still_trans [OF still_trans [OF _ still_say] Cons.IH] t by simp
  qed
  obtain i addresses where x: "x = (i, addresses)" by (cases x)
  show ?case using Cons.IH go by (auto simp: x Let_def intro!: still_pure split: option.split)
qed simp

lemma still_writePaymentEvent [simp]: "still s (snd (writePaymentEvent s))"
  unfolding writePaymentEvent_def Let_def by (intro still_pure) simp

lemma approve_stops [simp]: "stops s (approveCoordinator env s)"
  unfolding approveCoordinator_def by (intro stops_bind) simp_all

lemma stops_at: "still s t \<Longrightarrow> stops t r \<Longrightarrow> stops s r"
  by (rule stops_trans)

lemma announce_stops: "stops s (announceFinalAmounts env maxBlock s)"
  unfolding announceFinalAmounts_def
proof (rule stops_at [OF still_setKeys [of s "[]"]], rule stops_pure)
  fix key
  show "stops (setKeys [] s) (bindS (sendFinalAmountsTo env key maxBlock (members (setKeys [] s))
              ((setKeys [(kCoordinatorPaymentNodeID, key)] (setKeys [] s))\<lparr>ownPublicKey := Some key\<rparr>)) (\<lambda>stored s.
       if \<not> stored then rejectCoordinator s
       else returning
              (WaitsForMessages [Kind_FinalAmountsConfigurationResponse, Kind_TTLProlongationRequest] (maxNetworkDelay 6))
              (toStage Coordinator_FinalAmountsConfigurationConfirmation s)))"
    by (intro stops_bind still_trans [OF _ still_sendFinalAmountsTo]) (simp_all add: still_def setKeys_def toStage_def)
qed

lemma finalAmounts_advances:
  "cok s \<Longrightarrow> advances s (sendFinalAmountsConfigurationToAllParticipants env s)"
proof -
  have "advances s (let maxBlock = actual + kCountBlocksForClaiming;
               v = common s;
               s = s\<lparr>resources := rest, common := v\<lparr>payment := (payment v)\<lparr>mMaximalClaimingBlockNumber := maxBlock\<rparr>\<rparr>\<rparr>
           in bindS (mainAddress (mContractor s), s) (\<lambda>receiver s.
                if length (entries (payment (common s)) (contractorIDByAddress (coordinatorContractors env) receiver)) > 1
                then rejectCoordinator s
                else announceFinalAmounts env maxBlock s))"
    if "resources s = ActualBlockNumber actual # rest" for actual rest
    unfolding Let_def
    using that by (intro advances_stops [OF stops_pure] stops_if rejectCoordinator_stops announce_stops)
      (simp add: less3_def leftOver_def)
  then show ?thesis
    unfolding sendFinalAmountsConfigurationToAllParticipants_def
    by (auto intro: advances_answer split: list.split CoordinatorResource.split)
qed

lemma confirmation_advances:
  assumes "cok s"
  shows "advances s (runFinalAmountsConfigurationConfirmation_coordinator s)"
proof -
  have say_cok: "cok (say RemoveStoredData s)" by (rule quiet_cok [OF quiet_say assms])
  have propagate: "stops t (propagateVotesListAndWaitForVotingResult (setKeys ks t))" for ks t
    unfolding propagateVotesListAndWaitForVotingResult_def
    by (rule stops_at [OF still_setKeys [of t ks]], rule stops_bind) (rule still_sendKeysTo, simp add: still_def toStage_def)
  have say_stops: "stops t (rejectCoordinator (say m t))" for m t
    by (rule stops_at [OF still_say rejectCoordinator_stops])
  have "advances s (bindS (firstSender senders, popInbox s) (\<lambda>sender s.
            case map_of (nodesIds s) (fullAddress sender) of
              None \<Rightarrow> returning ContinuesPrevious s
            | Some i \<Rightarrow>
                if \<not> accepts then rejectCoordinator (say RemoveStoredData s)
                else
                  (let s = setKeys (ordUpdate i key (mParticipantsPublicKeys (common s))) s
                   in if length (mParticipantsPublicKeys (common s)) < length (nodesIds s)
                      then returning
                        (WaitsForMessages [Kind_FinalAmountsConfigurationResponse, Kind_TTLProlongationRequest]
                           (maxNetworkDelay 2)) s
                      else propagateVotesListAndWaitForVotingResult s)))"
    if "inbox s = [m]" for m senders accepts key
    unfolding Let_def
    by (intro advances_stops [OF stops_pure popped [OF that]])
      (auto simp: propagate say_stops split: option.split)
  moreover have "advances s (runTTLTransactionResponse senders (popInbox s))" if "inbox s = [m]" for m senders
    by (rule advances_stops [OF runTTL_stops popped [OF that]])
  ultimately show ?thesis
    unfolding runFinalAmountsConfigurationConfirmation_coordinator_def
    using advances_reject [OF say_cok] by (auto split: list.split CoordinatorMessage.split)
qed

lemma ownVote_stops [simp]: "stops s (ownVote env s)"
proof -
  have "stops s (rejectCoordinator (say m s))" for m by (rule stops_at [OF still_say rejectCoordinator_stops])
  moreover have "stops s (bindS (r, addSignature i x s) (\<lambda>_. approveCoordinator env))" for r :: "unit result" and i x
    by (rule stops_at [OF still_addSignature [of s i x]], rule stops_pure) simp
  ultimately show ?thesis
    unfolding ownVote_def by (intro stops_pure) (simp split: option.split)
qed

lemma participantVoted_stops [simp]: "stops s (participantVoted env senders vote s)"
proof -
  have "stops s (rejectCoordinator (say m s))" for m by (rule stops_at [OF still_say rejectCoordinator_stops])
  moreover have "stops s (ownVote env (addSignature i x s))" for i x
    by (rule stops_at [OF still_addSignature ownVote_stops])
  ultimately show ?thesis
    unfolding participantVoted_def Let_def by (intro stops_pure) (auto split: option.split)
qed

lemma votes_advances:
  assumes "cok s"
  shows "advances s (runVotesConsistencyCheckingStage_coordinator env s)"
proof -
  have say_cok: "cok (say RemoveStoredData s)" by (rule quiet_cok [OF quiet_say assms])
  have "fst (sendKeysTo chosen nodes t) \<noteq> Inl CallChainBreakException" for chosen nodes t
    by (induction chosen nodes t rule: sendKeysTo.induct) (auto simp: bindS_def split: sum.split)
  then have "advances s (bindS (sendKeysTo chosen nodes s) (\<lambda>_ s. returning (waitForVotes d) (f s)))" for chosen nodes d f
    by (intro advances_bind advances_answer) simp_all
  moreover have "advances s (participantVoted env senders vote (popInbox s))"
    "advances s (runTTLTransactionResponse senders (popInbox s))" if "inbox s = [m]" for m senders vote
    using advances_stops [OF participantVoted_stops popped [OF that]]
      advances_stops [OF runTTL_stops popped [OF that]] by simp_all
  ultimately show ?thesis
    unfolding runVotesConsistencyCheckingStage_coordinator_def
    using advances_reject [OF say_cok] by (auto split: list.split CoordinatorMessage.split)
qed

lemma runStage_comes:
  assumes "settled s"
  shows "comes_to s (\<lambda>n. runStage_coordinator n env s)"
proof -
  have pre: "pre s" if "stage_co s \<in> reserving" using that assms by (simp add: pre_def settled_def)
  have cok: "cok s" using assms by (simp add: settled_def)
  have amount: "comes_to s (\<lambda>n. runAmountReservationStage_coordinator n env s)" if "pre s"
    using reservation_stage_ends [OF that] comes_to_proceeds comes_to_ends by blast
  show ?thesis
    unfolding runStage_coordinator_def
    using pre amount receiverResponse_comes [OF assms] direct_comes
      comes_to_const [OF initialization_advances [of s env]] comes_to_const [OF pathsResource_advances [of s env]]
      comes_to_const [OF finalAmounts_advances [OF cok]] comes_to_const [OF confirmation_advances [OF cok]]
      comes_to_const [OF votes_advances [OF cok]] comes_to_const [OF advances_throws [of RuntimeError]]
    by (cases "stage_co s") (simp_all add: reserving_def)
qed

section \<open>Runs\<close>

lemma concludeFailed_fuel: "fst (concludeFailed env s) \<noteq> Inr OutOfFuel"
  using rejectCoordinator_stops [of "say RemoveStoredData s"]
  by (auto simp: concludeFailed_def bindS_def stops_def split: sum.split)

definition beforeRun :: "(CoordinatorState \<times> CoordinatorState) set" where
  "beforeRun = inv_image (less3 <*lex*> less_than) (\<lambda>s. (leftOver s, if mReservationsStage s = 2 then 0 else 1))"

lemma wf_beforeRun: "wf beforeRun"
  unfolding beforeRun_def by (intro wf_inv_image wf_lex_prod wf_less3 wf_less_than)

lemma again_beforeRun:
  assumes "advances s (Inl CallChainBreakException, t)"
  shows "(t\<lparr>mReservationsStage := 2\<rparr>, s) \<in> beforeRun"
  using assms by (auto simp: beforeRun_def advances_def le3_def)

lemma broken_settled:
  assumes "settled s" and "knows_co env s" and "runStage_coordinator n env s = (Inl CallChainBreakException, t)"
  shows "settled (t\<lparr>mReservationsStage := 2\<rparr>) \<and> knows_co env (t\<lparr>mReservationsStage := 2\<rparr>)"
proof -
  have "vote_ok env s (Inl CallChainBreakException, t)" using runStage_vote [OF assms(1,2), of n] assms(3) by simp
  then have k: "ckept s t" "stage_ok t"
    by (auto simp: vote_ok_def coord_ok_def isProjectException_def split: if_splits)
  then have t: "settled t" "knows_co env t"
    using ckept_cok ckept_balance [OF k(1), of env] assms(2) by (simp_all add: settled_def)
  have q: "quiet t (t\<lparr>mReservationsStage := 2\<rparr>)" by (simp add: quiet_def near_def)
  show ?thesis using settled_quiet [OF q t(1)] knows_quiet [OF q t(2)] by blast
qed

lemma run_ends:
  "settled s \<Longrightarrow> knows_co env s \<Longrightarrow> \<exists>N r. fst r \<noteq> Inr OutOfFuel \<and> (\<forall>k. run_coordinator (N + k) env s = r)"
proof (induction s rule: wf_induct_rule [OF wf_beforeRun])
  case (1 s)
  obtain N x t where x: "advances s (x, t)" "\<And>k. runStage_coordinator (N + k) env s = (x, t)"
    using runStage_comes [OF 1(2), of env] unfolding comes_to_def by (auto elim!: exE)
  show ?case
  proof (cases "x = Inl CallChainBreakException")
    case True
    let ?u = "t\<lparr>mReservationsStage := 2\<rparr>"
    have u: "settled ?u \<and> knows_co env ?u" using broken_settled [OF 1(2,3)] x(2) [of 0] True by simp
    have "(?u, s) \<in> beforeRun" using again_beforeRun x(1) True by blast
    from 1(1) [OF this] u obtain M r where r: "fst r \<noteq> Inr OutOfFuel" "\<And>k. run_coordinator (M + k) env ?u = r" by blast
    have "run_coordinator (Suc (N + M) + k) env s = r" for k
      using x(2) [of "M + k"] r(2) [of "N + k"] True by (simp add: add_ac)
    then show ?thesis using r(1) by blast
  next
    case False
    have "run_coordinator (Suc N + k) env s =
        (case (x, t) of (Inl e, s) \<Rightarrow> if isProjectException e then concludeFailed env s else throwing e s
          | (Inr r, s) \<Rightarrow> returning r s)" for k
    proof (cases x)
      case (Inl e)
      then have "e \<noteq> CallChainBreakException" using False by simp
      then show ?thesis using x(2) [of k] Inl by (cases e) simp_all
    next
      case (Inr y)
      then show ?thesis using x(2) [of k] by simp
    qed
    moreover have "fst (case (x, t) of (Inl e, s) \<Rightarrow> if isProjectException e then concludeFailed env s else throwing e s
          | (Inr r, s) \<Rightarrow> returning r s) \<noteq> Inr OutOfFuel"
      using x(1) concludeFailed_fuel by (auto simp: advances_def split: sum.split)
    ultimately show ?thesis by blast
  qed
qed

text \<open>C15: a run of the coordinator ends. In every state that the payment reaches, whatever messages, resources
  and other payments came before, the calls of its stages and the loop of \<^verbatim>\<open>run\<close> around them come to an end:
  from some depth on the answer is the same for every larger one, and it is not that the depth was too small.
  Every call of the next path uses up a path or one of the three attempts to build new ones, and every other
  one a message.\<close>

theorem coordinator_run_ends:
  assumes "manager_ok m" and "\<not> isReservationsPresentConsiderTransaction m u"
    and "coordinator_moves\<^sup>*\<^sup>* (newCoordinator u gateway unset path i amount addresses allowed m) s"
    and "knows_co env s"
  shows "\<exists>N res s'. res \<noteq> Inr OutOfFuel \<and> (\<forall>k. run_coordinator (N + k) env s = (res, s'))"
proof -
  have "paying u amount s"
    by (rule coordinator_runs.steps_inv [OF assms(3) newCoordinator_inv [OF assms(1,2)]])
  then have "settled s" by (simp add: paying_def)
  from run_ends [OF this assms(4)] obtain N r
    where "fst r \<noteq> Inr OutOfFuel" "\<forall>k. run_coordinator (N + k) env s = (fst r, snd r)" by auto
  then show ?thesis by (intro exI conjI)
qed

theorem coordinator_run_ends_witness:
  "\<exists>N res s'. res \<noteq> Inr OutOfFuel \<and> (\<forall>k. run_coordinator (N + k) sampleCoordinatorEnv sampleCoordinator = (res, s'))"
proof -
  have none: "\<not> isReservationsPresentConsiderTransaction sampleManager 9"
    by (simp add: isReservationsPresentConsiderTransaction_def isTransactionReservationsPresent_def
        sampleHandler_eq sampleReservation_def)
  have "knows_co sampleCoordinatorEnv sampleCoordinator" by (intro knows_one) simp
  from coordinator_run_ends [OF sampleManager_ok none rtranclp.rtrancl_refl this [unfolded sampleCoordinator_def]]
  show ?thesis by (simp only: sampleCoordinator_def)
qed

end
