(* ===== verification/Lamport.thy ===== *)
theory Lamport imports GeoPrelude begin

text \<open>Lamport keys and signatures (crypto/lamportkeys.cpp, crypto/lamportscheme.cpp). A private key holds 256
  pairs of random 32 byte numbers, the public key their hashes; a signature holds, for each bit of the hash of the
  message, one number of the pair. The random numbers and \<^verbatim>\<open>crypto_generichash\<close> of libsodium with
  32 bytes of output are arguments; the only law of the hash is its length. Locked memory is not modelled.\<close>

type_synonym Bytes = "8 word list"

section \<open>Keys\<close>

definition kRandomNumbersCount :: nat where
  "kRandomNumbersCount = 256 * 2"

definition kRandomNumberSize :: nat where
  "kRandomNumberSize = 256 div 8"

definition keySize :: nat where
  "keySize = 16 * 1024"

definition signatureSize :: nat where
  "signatureSize = 8 * 1024"

text \<open>The number at an offset of a key or a signature; \<open>hash\<close> is \<^verbatim>\<open>crypto_generichash\<close>.\<close>

definition numberAt :: "nat \<Rightarrow> Bytes \<Rightarrow> Bytes" where
  "numberAt i bytes = take kRandomNumberSize (drop (i * kRandomNumberSize) bytes)"

definition hashNumbers :: "(Bytes \<Rightarrow> Bytes) \<Rightarrow> nat \<Rightarrow> Bytes \<Rightarrow> Bytes" where
  "hashNumbers hash n source = concat (map (\<lambda>i. hash (numberAt i source)) [0..<n])"

record PrivateKey =
  mData :: Bytes
  mIsCropped :: bool

definition newPrivateKey :: "Bytes \<Rightarrow> PrivateKey" where
  "newPrivateKey numbers = \<lparr>mData = take keySize numbers, mIsCropped = False\<rparr>"

definition derivePublicKey :: "(Bytes \<Rightarrow> Bytes) \<Rightarrow> PrivateKey \<Rightarrow> Bytes" where
  "derivePublicKey hash key = hashNumbers hash kRandomNumbersCount (mData key)"

definition publicKeyHashOf :: "(Bytes \<Rightarrow> Bytes) \<Rightarrow> Bytes \<Rightarrow> Bytes" where
  "publicKeyHashOf hash key = hash (take keySize key)"

section \<open>Signatures\<close>

text \<open>The bit of the hash decides which number of the pair is taken: the first for a one.\<close>

definition collectSignature :: "Bytes \<Rightarrow> Bytes \<Rightarrow> Bytes" where
  "collectSignature key messageHash =
     concat (map (\<lambda>i. concat (map (\<lambda>b.
       numberAt (2 * (8 * i + b) + (if bit (messageHash ! i) b then 0 else 1)) key) [0..<8]))
       [0..<kRandomNumberSize])"

text \<open>A cropped key ends the process.\<close>

definition newSignature :: "(Bytes \<Rightarrow> Bytes) \<Rightarrow> Bytes \<Rightarrow> PrivateKey \<Rightarrow> (Bytes \<times> PrivateKey) option" where
  "newSignature hash message key =
     (if mIsCropped key then None
      else Some (collectSignature (mData key) (hash message), key\<lparr>mIsCropped := True\<rparr>))"

definition checkSignature :: "(Bytes \<Rightarrow> Bytes) \<Rightarrow> Bytes \<Rightarrow> Bytes \<Rightarrow> Bytes \<Rightarrow> bool" where
  "checkSignature hash signature message pubKey =
     (message \<noteq> [] \<and>
      collectSignature pubKey (hash message) = hashNumbers hash (kRandomNumbersCount div 2) signature)"

section \<open>Numbers in a row\<close>

lemma concat_numbers:
  assumes "\<And>i. length (f i) = k" and "j < n"
  shows "take k (drop (j * k) (concat (map f [0..<n]))) = f j"
  using assms(2)
proof (induction n)
  case (Suc n)
  have len: "length (concat (map f [0..<n])) = n * k" for n
    by (induction n) (simp_all add: assms(1))
  show ?case
  proof (cases "j = n")
    case True
    then show ?thesis by (simp add: len assms(1))
  next
    case False
    then have "j < n" using Suc.prems by simp
    then have "Suc j * k \<le> n * k" by (intro mult_le_mono1) simp
    then show ?thesis using Suc.IH [OF \<open>j < n\<close>] by (simp add: len)
  qed
qed simp

lemma concat_numbers_length: "(\<And>i. i < n \<Longrightarrow> length (f i) = k) \<Longrightarrow> length (concat (map f [0..<n])) = n * k"
  by (induction n) simp_all

lemma concat_nested:
  "concat (map (\<lambda>i. concat (map (f i) [0..<k])) [0..<n]) = concat (map (\<lambda>j. f (j div k) (j mod k)) [0..<n * k])"
proof (induction n)
  case (Suc n)
  have "concat (map (\<lambda>j. f (j div k) (j mod k)) [n * k..<Suc n * k]) = concat (map (f n) [0..<k])"
  proof (cases "k = 0")
    case False
    have "[n * k..<Suc n * k] = map (\<lambda>b. n * k + b) [0..<k]"
      by (simp add: map_add_upt add.commute)
    moreover have "map (\<lambda>j. f (j div k) (j mod k)) (map (\<lambda>b. n * k + b) [0..<k]) = map (f n) [0..<k]"
      using False by simp
    ultimately show ?thesis by metis
  qed simp
  moreover have "[0..<Suc n * k] = [0..<n * k] @ [n * k..<Suc n * k]"
    by (rule upt_add_eq_append [of 0 "n * k" k, simplified add.commute [of "n * k" k], folded mult_Suc]) simp
  ultimately show ?case using Suc.IH by simp
qed simp

section \<open>What a signature holds\<close>

definition messageBit :: "Bytes \<Rightarrow> nat \<Rightarrow> bool" where
  "messageBit messageHash j = bit (messageHash ! (j div 8)) (j mod 8)"

definition chosen :: "Bytes \<Rightarrow> nat \<Rightarrow> nat" where
  "chosen messageHash j = 2 * j + (if messageBit messageHash j then 0 else 1)"

lemma collectSignature_numbers:
  "collectSignature key messageHash = concat (map (\<lambda>j. numberAt (chosen messageHash j) key) [0..<256])"
  unfolding collectSignature_def concat_nested
  by (simp add: kRandomNumberSize_def chosen_def messageBit_def)

lemma chosen_less: "j < 256 \<Longrightarrow> chosen messageHash j < 512"
  by (simp add: chosen_def)

lemma numberAt_length: "length bytes = n * 32 \<Longrightarrow> i < n \<Longrightarrow> length (numberAt i bytes) = 32"
proof -
  assume "length bytes = n * 32" "i < n"
  moreover from \<open>i < n\<close> have "Suc i * 32 \<le> n * 32" by (intro mult_le_mono1) simp
  ultimately show ?thesis by (simp add: numberAt_def kRandomNumberSize_def)
qed

lemma numberAt_concat:
  assumes "\<And>i. i < n \<Longrightarrow> length (f i) = 32" and "j < n"
  shows "numberAt j (concat (map f [0..<n])) = f j"
proof -
  let ?g = "\<lambda>i. if i < n then f i else replicate 32 0"
  have "concat (map f [0..<n]) = concat (map ?g [0..<n])" by (intro arg_cong [where f = concat] map_cong) auto
  moreover have "take 32 (drop (j * 32) (concat (map ?g [0..<n]))) = ?g j"
    by (rule concat_numbers) (use assms in auto)
  ultimately show ?thesis using assms(2) by (simp add: numberAt_def kRandomNumberSize_def)
qed

lemma numbers_eqI:
  assumes "length xs = n * 32" and "length ys = n * 32" and "\<And>j. j < n \<Longrightarrow> numberAt j xs = numberAt j ys"
  shows "xs = ys"
proof (rule nth_equalityI)
  show "length xs = length ys" using assms by simp
  fix i assume "i < length xs"
  then have i: "i < n * 32" "i div 32 < n" using assms(1) by (simp_all add: less_mult_imp_div_less)
  have "take 32 (drop (i div 32 * 32) xs) ! (i mod 32) = take 32 (drop (i div 32 * 32) ys) ! (i mod 32)"
    using assms(3) [OF i(2)] by (simp add: numberAt_def kRandomNumberSize_def)
  moreover have "i div 32 * 32 \<le> length xs" "i div 32 * 32 \<le> length ys" using assms i(1) by simp_all
  ultimately show "xs ! i = ys ! i" by simp
qed

text \<open>The laws of the hash: 32 bytes come out.\<close>

definition hash32 :: "(Bytes \<Rightarrow> Bytes) \<Rightarrow> bool" where
  "hash32 hash \<longleftrightarrow> (\<forall>m. length (hash m) = 32)"

lemma hash32D: "hash32 hash \<Longrightarrow> length (hash m) = 32"
  by (simp add: hash32_def)

lemma hashNumbers_at: "hash32 hash \<Longrightarrow> j < n \<Longrightarrow> numberAt j (hashNumbers hash n source) = hash (numberAt j source)"
  unfolding hashNumbers_def by (rule numberAt_concat) (simp add: hash32D)

lemma hashNumbers_length: "hash32 hash \<Longrightarrow> length (hashNumbers hash n source) = n * 32"
  unfolding hashNumbers_def by (rule concat_numbers_length) (simp add: hash32D)

lemma collect_at:
  assumes "length key = 512 * 32" and "j < 256"
  shows "numberAt j (collectSignature key h) = numberAt (chosen h j) key"
  unfolding collectSignature_numbers
  by (rule numberAt_concat [OF numberAt_length [OF assms(1) chosen_less] assms(2)])

lemma collect_length: "length key = 512 * 32 \<Longrightarrow> length (collectSignature key h) = 256 * 32"
  unfolding collectSignature_numbers by (rule concat_numbers_length) (rule numberAt_length [OF _ chosen_less])

lemma check_numbers:
  assumes "hash32 hash" and "length pubKey = 512 * 32"
  shows "checkSignature hash signature message pubKey \<longleftrightarrow>
    message \<noteq> [] \<and> (\<forall>j < 256. numberAt (chosen (hash message) j) pubKey = hash (numberAt j signature))"
proof -
  have "collectSignature pubKey (hash message) = hashNumbers hash 256 signature \<longleftrightarrow>
      (\<forall>j < 256. numberAt j (collectSignature pubKey (hash message)) = numberAt j (hashNumbers hash 256 signature))"
    using numbers_eqI [OF collect_length [OF assms(2)] hashNumbers_length [OF assms(1)]] by auto
  also have "\<dots> \<longleftrightarrow> (\<forall>j < 256. numberAt (chosen (hash message) j) pubKey = hash (numberAt j signature))"
    using collect_at [OF assms(2)] hashNumbers_at [OF assms(1)] by simp
  finally show ?thesis by (simp add: checkSignature_def kRandomNumbersCount_def)
qed

lemma derived_length: "hash32 hash \<Longrightarrow> length (derivePublicKey hash key) = 512 * 32"
  using hashNumbers_length by (simp add: derivePublicKey_def kRandomNumbersCount_def)

lemma derived_at: "hash32 hash \<Longrightarrow> i < 512 \<Longrightarrow> numberAt i (derivePublicKey hash key) = hash (numberAt i (mData key))"
  using hashNumbers_at by (simp add: derivePublicKey_def kRandomNumbersCount_def)

lemma check_derived:
  assumes "hash32 hash"
  shows "checkSignature hash signature message (derivePublicKey hash key) \<longleftrightarrow>
    message \<noteq> [] \<and> (\<forall>j < 256. hash (numberAt (chosen (hash message) j) (mData key)) = hash (numberAt j signature))"
  using check_numbers [OF assms derived_length [OF assms]] derived_at [OF assms] chosen_less by (simp cong: conj_cong)

text \<open>Signatures of a new key.\<close>

lemma newPrivateKey_length: "length numbers = keySize \<Longrightarrow> length (mData (newPrivateKey numbers)) = 512 * 32"
  by (simp add: newPrivateKey_def keySize_def)

lemma new_key_signs: "newSignature hash message (newPrivateKey numbers) =
    Some (collectSignature (mData (newPrivateKey numbers)) (hash message), newPrivateKey numbers\<lparr>mIsCropped := True\<rparr>)"
  by (simp add: newSignature_def newPrivateKey_def)

lemma new_key_signature_at:
  assumes "length numbers = keySize" and "newSignature hash message (newPrivateKey numbers) = Some (signature, cropped)"
    and "j < 256"
  shows "numberAt j signature = numberAt (chosen (hash message) j) (mData (newPrivateKey numbers))"
  using assms(2) collect_at [OF newPrivateKey_length [OF assms(1)] assms(3)] by (auto simp: new_key_signs)

lemma new_key_signature_length:
  "length numbers = keySize \<Longrightarrow> newSignature hash message (newPrivateKey numbers) = Some (signature, cropped) \<Longrightarrow>
    length signature = 256 * 32"
  using collect_length [OF newPrivateKey_length] by (auto simp: new_key_signs)

lemma own_signature_checks:
  assumes "hash32 hash" and "length numbers = keySize" and "message \<noteq> []"
  shows "checkSignature hash (collectSignature (mData (newPrivateKey numbers)) (hash message)) message
    (derivePublicKey hash (newPrivateKey numbers))"
  using assms(3) by (simp add: check_derived [OF assms(1)] collect_at [OF newPrivateKey_length [OF assms(2)]])

text \<open>A hash is determined by its bits.\<close>

lemma hash_bits:
  assumes "length h = 32" and "length h' = 32" and "\<And>j. j < 256 \<Longrightarrow> messageBit h j = messageBit h' j"
  shows "h = h'"
proof (rule nth_equalityI)
  show "length h = length h'" using assms by simp
  fix i assume "i < length h"
  then have "i < 32" using assms(1) by simp
  have "bit (h ! i) b = bit (h' ! i) b" if "b < 8" for b
    using assms(3) [of "i * 8 + b"] \<open>i < 32\<close> that by (simp add: messageBit_def)
  then show "h ! i = h' ! i" by (intro bit_word_eqI) simp
qed

section \<open>Theorems\<close>

text \<open>a signature verifies. Whatever the numbers of a new key are and whatever message is not empty, the
  signature made with the key has 8 KB and is accepted for the message with the public key derived from it;
  a second signature with the same key object ends the process.\<close>

theorem signature_verifies:
  assumes "hash32 hash" and "length numbers = keySize" and "message \<noteq> []"
  shows "\<exists>signature cropped. newSignature hash message (newPrivateKey numbers) = Some (signature, cropped) \<and>
    length signature = signatureSize \<and>
    checkSignature hash signature message (derivePublicKey hash (newPrivateKey numbers)) \<and>
    newSignature hash message' cropped = None"
proof -
  let ?key = "newPrivateKey numbers"
  have len: "length (mData ?key) = 512 * 32" by (rule newPrivateKey_length [OF assms(2)])
  have "checkSignature hash (collectSignature (mData ?key) (hash message)) message (derivePublicKey hash ?key)"
    by (rule own_signature_checks [OF assms])
  moreover have "length (collectSignature (mData ?key) (hash message)) = signatureSize"
    by (simp add: collect_length [OF len] signatureSize_def)
  moreover have "newSignature hash message' (?key\<lparr>mIsCropped := True\<rparr>) = None"
    by (simp add: newSignature_def)
  ultimately show ?thesis unfolding new_key_signs by blast
qed

text \<open>The two numbers of every pair of a key.\<close>

definition pairs_differ :: "Bytes \<Rightarrow> bool" where
  "pairs_differ numbers \<longleftrightarrow> (\<forall>j < 256. numberAt (2 * j) numbers \<noteq> numberAt (2 * j + 1) numbers)"

lemma chosen_same: "pairs_differ numbers \<Longrightarrow> j < 256 \<Longrightarrow>
    numberAt (chosen h j) numbers = numberAt (chosen h' j) numbers \<longleftrightarrow> messageBit h j = messageBit h' j"
  by (auto simp: pairs_differ_def chosen_def dest: spec)

lemma key_accepts_iff:
  assumes "hash32 hash" and "length numbers = keySize"
    and "pairs_differ (derivePublicKey hash (newPrivateKey numbers))"
  shows "checkSignature hash (collectSignature (mData (newPrivateKey numbers)) (hash message)) message'
      (derivePublicKey hash (newPrivateKey numbers)) \<longleftrightarrow> message' \<noteq> [] \<and> hash message' = hash message"
    (is "checkSignature hash ?signature message' ?pub \<longleftrightarrow> _")
proof -
  have "hash (numberAt j ?signature) = numberAt (chosen (hash message) j) ?pub" if "j < 256" for j
    using new_key_signature_at [OF assms(2) new_key_signs that] derived_at [OF assms(1) chosen_less [OF that]] by simp
  then have "checkSignature hash ?signature message' ?pub \<longleftrightarrow>
      message' \<noteq> [] \<and> (\<forall>j < 256. messageBit (hash message') j = messageBit (hash message) j)"
    using chosen_same [OF assms(3)] check_numbers [OF assms(1) derived_length [OF assms(1)]] by (simp cong: conj_cong)
  then show ?thesis using hash_bits [OF hash32D [OF assms(1)] hash32D [OF assms(1)]] by auto
qed

text \<open>C8: a signature binds its message. When the numbers of each pair of the public key differ, a signature is
  accepted for exactly the messages, other than the empty one, whose hash is that of the message it was made for.\<close>

theorem signature_binds_message:
  assumes "hash32 hash" and "length numbers = keySize"
    and "pairs_differ (derivePublicKey hash (newPrivateKey numbers))"
    and "newSignature hash message (newPrivateKey numbers) = Some (signature, cropped)"
  shows "checkSignature hash signature message' (derivePublicKey hash (newPrivateKey numbers)) \<longleftrightarrow>
    message' \<noteq> [] \<and> hash message' = hash message"
  using key_accepts_iff [OF assms(1-3), of message] assms(4) by (auto simp: new_key_signs)

text \<open>What somebody who has seen two signatures of a key makes of them: for each bit the number of one of them.\<close>

definition mixSignatures :: "Bytes \<Rightarrow> Bytes \<Rightarrow> Bytes \<Rightarrow> Bytes \<Rightarrow> Bytes" where
  "mixSignatures h h1 s1 s2 =
     concat (map (\<lambda>j. if messageBit h j = messageBit h1 j then numberAt j s1 else numberAt j s2) [0..<256])"

lemma mixSignatures_at:
  assumes "length s1 = 256 * 32" and "length s2 = 256 * 32" and "j < 256"
  shows "numberAt j (mixSignatures h h1 s1 s2) = (if messageBit h j = messageBit h1 j then numberAt j s1 else numberAt j s2)"
  unfolding mixSignatures_def by (rule numberAt_concat) (use assms in \<open>simp_all add: numberAt_length\<close>)

text \<open>A key must sign only once. Two signatures with the same numbers let anybody sign every message whose hash
  takes each of its bits from the hash of one of the two messages.\<close>

theorem second_signature_forges:
  assumes "hash32 hash" and "length numbers = keySize" and "message \<noteq> []"
    and "newSignature hash message1 (newPrivateKey numbers) = Some (signature1, cropped1)"
    and "newSignature hash message2 (newPrivateKey numbers) = Some (signature2, cropped2)"
    and "\<forall>j < 256. messageBit (hash message) j \<in> {messageBit (hash message1) j, messageBit (hash message2) j}"
  shows "checkSignature hash (mixSignatures (hash message) (hash message1) signature1 signature2) message
    (derivePublicKey hash (newPrivateKey numbers))"
proof -
  have "numberAt j (mixSignatures (hash message) (hash message1) signature1 signature2) =
      numberAt (chosen (hash message) j) (mData (newPrivateKey numbers))" if j: "j < 256" for j
  proof -
    have "messageBit (hash message) j = messageBit (hash message1) j \<or> messageBit (hash message) j = messageBit (hash message2) j"
      using assms(6) j by blast
    then show ?thesis
      using new_key_signature_at [OF assms(2,4) j] new_key_signature_at [OF assms(2,5) j]
        mixSignatures_at [OF new_key_signature_length [OF assms(2,4)] new_key_signature_length [OF assms(2,5)] j]
      by (auto simp: chosen_def)
  qed
  then show ?thesis using assms(3) by (simp add: check_derived [OF assms(1)])
qed

section \<open>Examples\<close>

definition sample_hash :: "Bytes \<Rightarrow> Bytes" where
  "sample_hash m = take 32 (m @ replicate 32 0)"

definition sample_numbers :: Bytes where
  "sample_numbers = concat (map (\<lambda>i. replicate 32 (of_nat (i mod 2))) [0..<512])"

lemma sample_hash32: "hash32 sample_hash"
  by (simp add: hash32_def sample_hash_def min_def)

lemma sample_numbers_length: "length sample_numbers = keySize"
  using concat_numbers_length [of 512 "\<lambda>i. replicate 32 (of_nat (i mod 2) :: 8 word)" 32]
  by (simp add: sample_numbers_def keySize_def)

lemma sample_numbers_at: "i < 512 \<Longrightarrow> numberAt i sample_numbers = replicate 32 (of_nat (i mod 2))"
  unfolding sample_numbers_def by (rule numberAt_concat) simp_all

lemma sample_public_at: "i < 512 \<Longrightarrow>
    numberAt i (derivePublicKey sample_hash (newPrivateKey sample_numbers)) = replicate 32 (of_nat (i mod 2))"
  using derived_at [OF sample_hash32] sample_numbers_at sample_numbers_length
  by (simp add: newPrivateKey_def sample_hash_def)

lemma sample_pairs: "pairs_differ (derivePublicKey sample_hash (newPrivateKey sample_numbers))"
  by (simp add: pairs_differ_def sample_public_at replicate_eq_replicate)

lemma signature_verifies_witness:
  "\<exists>signature cropped. newSignature sample_hash [1, 2, 3] (newPrivateKey sample_numbers) = Some (signature, cropped) \<and>
    length signature = signatureSize \<and>
    checkSignature sample_hash signature [1, 2, 3] (derivePublicKey sample_hash (newPrivateKey sample_numbers)) \<and>
    newSignature sample_hash [4] cropped = None"
  by (rule signature_verifies [OF sample_hash32 sample_numbers_length]) simp

lemma signature_binds_message_witness:
  "checkSignature sample_hash (collectSignature (mData (newPrivateKey sample_numbers)) (sample_hash [1])) [2]
     (derivePublicKey sample_hash (newPrivateKey sample_numbers)) \<longleftrightarrow> [2 :: 8 word] \<noteq> [] \<and> sample_hash [2] = sample_hash [1]"
  by (rule signature_binds_message [OF sample_hash32 sample_numbers_length sample_pairs new_key_signs])

lemma second_signature_forges_witness:
  "checkSignature sample_hash (mixSignatures (sample_hash [3]) (sample_hash [1])
       (collectSignature (mData (newPrivateKey sample_numbers)) (sample_hash [1]))
       (collectSignature (mData (newPrivateKey sample_numbers)) (sample_hash [2]))) [3]
     (derivePublicKey sample_hash (newPrivateKey sample_numbers))"
proof (rule second_signature_forges [OF sample_hash32 sample_numbers_length _ new_key_signs new_key_signs])
  show "\<forall>j < 256. messageBit (sample_hash [3]) j \<in> {messageBit (sample_hash [1]) j, messageBit (sample_hash [2]) j}"
  proof (intro allI impI)
    fix j :: nat assume "j < 256"
    have "bit (3 :: 8 word) b \<longleftrightarrow> bit (1 :: 8 word) b \<or> bit (2 :: 8 word) b" for b
      using bit_or_iff [of "1 :: 8 word" 2 b] by simp
    then show "messageBit (sample_hash [3]) j \<in> {messageBit (sample_hash [1]) j, messageBit (sample_hash [2]) j}"
      by (cases "j div 8") (auto simp: messageBit_def sample_hash_def)
  qed
qed simp

end
