(* ===== verification/Crypto_Tables.thy ===== *)
theory Crypto_Tables imports Lamport Amounts begin

text \<open>
  The tables that keep keys, audits, receipts and payments (src/src/core/io/storage: OwnKeysHandler,
  ContractorKeysHandler, AuditHandler, IncomingPaymentReceiptHandler, OutgoingPaymentReceiptHandler,
  PaymentKeysHandler, PaymentParticipantsVotesHandler, PaymentTransactionsHandler, TransactionsHandler). A row has the
  columns of the \<^verbatim>\<open>CREATE TABLE\<close> statement; the rows stand in the order SQLite returns them, which is that
  of their insertion. The declared keys decide when an \<^verbatim>\<open>INSERT\<close> is refused, and deleting a key deletes
  the receipts that refer to it (\<^verbatim>\<open>ON DELETE CASCADE\<close>; StorageHandler.cpp turns foreign keys on). SQLite
  stores the 32 bit numbers as signed ones, so it compares them as signed. Amounts and balances stand for the byte
  strings the code writes, whose round trip is shown with the amounts. \<open>engineFails\<close> is any other failure of the
  engine; it shows when a statement is prepared.
\<close>

section \<open>Rows\<close>

record OwnKeyRow =
  ownHash :: Bytes
  ownLine :: TrustLineID
  ownSet :: KeyNumber
  ownPublic :: Bytes
  ownPrivate :: Bytes
  ownNumber :: KeyNumber
  ownValid :: bool

record ContractorKeyRow =
  ckHash :: Bytes
  ckLine :: TrustLineID
  ckSet :: KeyNumber
  ckPublic :: Bytes
  ckNumber :: KeyNumber
  ckValid :: bool

record AuditRow =
  arNumber :: AuditNumber
  arLine :: TrustLineID
  arOurKeyHash :: Bytes
  arOurSignature :: Bytes
  arContractorKeyHash :: "Bytes option"
  arContractorSignature :: "Bytes option"
  arOwnKeysSetHash :: Bytes
  arContractorKeysSetHash :: Bytes
  arBalance :: TrustLineBalance
  arOutgoingAmount :: TrustLineAmount
  arIncomingAmount :: TrustLineAmount

record ReceiptRow =
  rcLine :: TrustLineID
  rcAudit :: AuditNumber
  rcTransaction :: TransactionUUID
  rcKeyHash :: Bytes
  rcAmount :: TrustLineAmount
  rcSignature :: "Bytes option"

record PaymentKeyRow =
  pkTransaction :: TransactionUUID
  pkPublic :: Bytes
  pkPrivate :: Bytes

record VoteRow =
  vrTransaction :: TransactionUUID
  vrContractor :: Bytes
  vrNode :: "16 word"
  vrPublic :: Bytes
  vrSignature :: Bytes

record PaymentRow =
  prTransaction :: TransactionUUID
  prClaimingBlock :: "64 word"
  prObservingState :: int
  prRecordingTime :: int

record CryptoStore =
  lineRowIDs :: "TrustLineID list"
  ownKeyRows :: "OwnKeyRow list"
  contractorKeyRows :: "ContractorKeyRow list"
  auditRows :: "AuditRow list"
  incomingReceiptRows :: "ReceiptRow list"
  outgoingReceiptRows :: "ReceiptRow list"
  paymentKeyRows :: "PaymentKeyRow list"
  voteRows :: "VoteRow list"
  paymentRows :: "PaymentRow list"
  transactionRows :: "(TransactionUUID \<times> Bytes) list"
  engineFails :: bool

text \<open>Statements that write, and queries.\<close>

definition statement :: "(CryptoStore \<Rightarrow> 'a result \<times> CryptoStore) \<Rightarrow> CryptoStore \<Rightarrow> 'a result \<times> CryptoStore" where
  "statement f store = (if engineFails store then throwing IOError store else f store)"

definition query :: "(CryptoStore \<Rightarrow> 'a result) \<Rightarrow> CryptoStore \<Rightarrow> 'a result" where
  "query f store = (if engineFails store then Inl IOError else f store)"

text \<open>The first row that no other one is better than: \<^verbatim>\<open>ORDER BY ... LIMIT 1\<close>, \<^verbatim>\<open>MAX\<close>.\<close>

fun firstBest :: "('a \<Rightarrow> 'a \<Rightarrow> bool) \<Rightarrow> 'a list \<Rightarrow> 'a option" where
  "firstBest better [] = None"
| "firstBest better (x # xs) =
     (case firstBest better xs of None \<Rightarrow> Some x | Some y \<Rightarrow> if better y x then Some y else Some x)"

definition orNotFound :: "'a option \<Rightarrow> 'a result" where
  "orNotFound found = (case found of None \<Rightarrow> Inl NotFoundError | Some x \<Rightarrow> Inr x)"

section \<open>Own keys\<close>

definition saveKey_own :: "(Bytes \<Rightarrow> Bytes) \<Rightarrow> TrustLineID \<Rightarrow> KeyNumber \<Rightarrow> Bytes \<Rightarrow> PrivateKey \<Rightarrow> KeyNumber \<Rightarrow> CryptoStore
    \<Rightarrow> unit result \<times> CryptoStore" where
  "saveKey_own hash line keysSet publicKey privateKey number = statement (\<lambda>store.
     if publicKeyHashOf hash publicKey \<in> ownHash ` set (ownKeyRows store) \<or> line \<notin> set (lineRowIDs store)
     then throwing IOError store
     else returning () (store\<lparr>ownKeyRows := ownKeyRows store @
       [\<lparr>ownHash = publicKeyHashOf hash publicKey, ownLine = line, ownSet = keysSet, ownPublic = publicKey,
         ownPrivate = mData privateKey, ownNumber = number, ownValid = True\<rparr>]\<rparr>))"

text \<open>\<^verbatim>\<open>SELECT MAX\<close> returns a row even without keys, which reads as zero.\<close>

definition maxKeySetSequenceNumber_own :: "TrustLineID \<Rightarrow> CryptoStore \<Rightarrow> KeyNumber result" where
  "maxKeySetSequenceNumber_own line = query (\<lambda>store.
     Inr (case firstBest (\<lambda>r' r. ownSet r <s ownSet r') (filter (\<lambda>r. ownLine r = line) (ownKeyRows store)) of
       None \<Rightarrow> 0 | Some r \<Rightarrow> ownSet r))"

definition nextAvailableKey :: "TrustLineID \<Rightarrow> CryptoStore \<Rightarrow> (PrivateKey \<times> KeyNumber) result" where
  "nextAvailableKey line = query (\<lambda>store.
     orNotFound (map_option (\<lambda>r. (newPrivateKey (ownPrivate r), ownNumber r))
       (firstBest (\<lambda>r' r. ownNumber r' <s ownNumber r)
         (filter (\<lambda>r. ownLine r = line \<and> ownValid r) (ownKeyRows store)))))"

definition invalidateOwn :: "(OwnKeyRow \<Rightarrow> bool) \<Rightarrow> Bytes \<Rightarrow> CryptoStore \<Rightarrow> unit result \<times> CryptoStore" where
  "invalidateOwn P signature = statement (\<lambda>store.
     if \<exists>r \<in> set (ownKeyRows store). P r
     then returning () (store\<lparr>ownKeyRows :=
       map (\<lambda>r. if P r then r\<lparr>ownValid := False, ownPrivate := signature\<rparr> else r) (ownKeyRows store)\<rparr>)
     else throwing ValueError store)"

definition invalidKey_own :: "TrustLineID \<Rightarrow> KeyNumber \<Rightarrow> Bytes \<Rightarrow> CryptoStore \<Rightarrow> unit result \<times> CryptoStore" where
  "invalidKey_own line number = invalidateOwn (\<lambda>r. ownLine r = line \<and> ownNumber r = number)"

definition invalidKeyByHash_own :: "TrustLineID \<Rightarrow> Bytes \<Rightarrow> Bytes \<Rightarrow> CryptoStore \<Rightarrow> unit result \<times> CryptoStore" where
  "invalidKeyByHash_own line keyHash = invalidateOwn (\<lambda>r. ownLine r = line \<and> ownHash r = keyHash)"

definition getPublicKey :: "TrustLineID \<Rightarrow> KeyNumber \<Rightarrow> CryptoStore \<Rightarrow> Bytes result" where
  "getPublicKey line number = query (\<lambda>store.
     orNotFound (map_option ownPublic
       (find (\<lambda>r. ownLine r = line \<and> ownNumber r = number \<and> ownValid r) (ownKeyRows store))))"

definition getPublicKeyByHash :: "TrustLineID \<Rightarrow> Bytes \<Rightarrow> CryptoStore \<Rightarrow> Bytes result" where
  "getPublicKeyByHash line keyHash = query (\<lambda>store.
     orNotFound (map_option ownPublic
       (find (\<lambda>r. ownLine r = line \<and> ownHash r = keyHash \<and> ownValid r) (ownKeyRows store))))"

definition getPublicKeyHash :: "TrustLineID \<Rightarrow> KeyNumber \<Rightarrow> CryptoStore \<Rightarrow> Bytes result" where
  "getPublicKeyHash line number = query (\<lambda>store.
     orNotFound (map_option ownHash
       (find (\<lambda>r. ownLine r = line \<and> ownNumber r = number \<and> ownValid r) (ownKeyRows store))))"

definition getKeyNumberByHash :: "Bytes \<Rightarrow> CryptoStore \<Rightarrow> KeyNumber result" where
  "getKeyNumberByHash keyHash = query (\<lambda>store.
     orNotFound (map_option ownNumber (find (\<lambda>r. ownHash r = keyHash) (ownKeyRows store))))"

definition availableKeysCnt_own :: "TrustLineID \<Rightarrow> CryptoStore \<Rightarrow> KeysCount result" where
  "availableKeysCnt_own line = query (\<lambda>store.
     Inr (of_nat (length (filter (\<lambda>r. ownLine r = line \<and> ownValid r) (ownKeyRows store)))))"

text \<open>The outgoing receipts of the deleted keys go with them.\<close>

definition deleteOwnKeys :: "(OwnKeyRow \<Rightarrow> bool) \<Rightarrow> CryptoStore \<Rightarrow> unit result \<times> CryptoStore" where
  "deleteOwnKeys P = statement (\<lambda>store.
     returning () (store\<lparr>ownKeyRows := filter (\<lambda>r. \<not> P r) (ownKeyRows store),
       outgoingReceiptRows := filter (\<lambda>c. rcKeyHash c \<notin> ownHash ` set (filter P (ownKeyRows store)))
         (outgoingReceiptRows store)\<rparr>))"

definition removeUnusedKeys_own :: "TrustLineID \<Rightarrow> CryptoStore \<Rightarrow> unit result \<times> CryptoStore" where
  "removeUnusedKeys_own line = deleteOwnKeys (\<lambda>r. ownLine r = line \<and> ownValid r)"

definition publicKeysBySetNumber_own :: "TrustLineID \<Rightarrow> KeyNumber \<Rightarrow> CryptoStore \<Rightarrow> Bytes list result" where
  "publicKeysBySetNumber_own line keysSet = query (\<lambda>store.
     Inr (map ownPublic (filter (\<lambda>r. ownLine r = line \<and> ownSet r = keysSet) (ownKeyRows store))))"

definition deleteKeysByTrustLineID_own :: "TrustLineID \<Rightarrow> CryptoStore \<Rightarrow> unit result \<times> CryptoStore" where
  "deleteKeysByTrustLineID_own line = deleteOwnKeys (\<lambda>r. ownLine r = line)"

definition deleteKeyByHashExceptSequenceNumber_own :: "Bytes \<Rightarrow> KeyNumber \<Rightarrow> CryptoStore \<Rightarrow> unit result \<times> CryptoStore" where
  "deleteKeyByHashExceptSequenceNumber_own keyHash keysSet = deleteOwnKeys (\<lambda>r. ownHash r = keyHash \<and> ownSet r \<noteq> keysSet)"

definition publicKeyHashesLessThanSetNumber_own :: "TrustLineID \<Rightarrow> KeyNumber \<Rightarrow> CryptoStore \<Rightarrow> Bytes list result" where
  "publicKeyHashesLessThanSetNumber_own line keysSet = query (\<lambda>store.
     Inr (map ownHash (filter (\<lambda>r. ownLine r = line \<and> ownSet r <s keysSet) (ownKeyRows store))))"

section \<open>Keys of the contractors\<close>

definition saveKey_contractor :: "(Bytes \<Rightarrow> Bytes) \<Rightarrow> TrustLineID \<Rightarrow> KeyNumber \<Rightarrow> Bytes \<Rightarrow> KeyNumber \<Rightarrow> CryptoStore
    \<Rightarrow> unit result \<times> CryptoStore" where
  "saveKey_contractor hash line keysSet publicKey number = statement (\<lambda>store.
     if publicKeyHashOf hash publicKey \<in> ckHash ` set (contractorKeyRows store) \<or> line \<notin> set (lineRowIDs store)
     then throwing IOError store
     else returning () (store\<lparr>contractorKeyRows := contractorKeyRows store @
       [\<lparr>ckHash = publicKeyHashOf hash publicKey, ckLine = line, ckSet = keysSet, ckPublic = publicKey,
         ckNumber = number, ckValid = True\<rparr>]\<rparr>))"

definition maxKeySetSequenceNumber_contractor :: "TrustLineID \<Rightarrow> CryptoStore \<Rightarrow> KeyNumber result" where
  "maxKeySetSequenceNumber_contractor line = query (\<lambda>store.
     Inr (case firstBest (\<lambda>r' r. ckSet r <s ckSet r') (filter (\<lambda>r. ckLine r = line) (contractorKeyRows store)) of
       None \<Rightarrow> 0 | Some r \<Rightarrow> ckSet r))"

definition invalidKey_contractor :: "TrustLineID \<Rightarrow> KeyNumber \<Rightarrow> CryptoStore \<Rightarrow> unit result \<times> CryptoStore" where
  "invalidKey_contractor line number = statement (\<lambda>store.
     if \<exists>r \<in> set (contractorKeyRows store). ckLine r = line \<and> ckNumber r = number
     then returning () (store\<lparr>contractorKeyRows :=
       map (\<lambda>r. if ckLine r = line \<and> ckNumber r = number then r\<lparr>ckValid := False\<rparr> else r) (contractorKeyRows store)\<rparr>)
     else throwing ValueError store)"

text \<open>The condition is \<^verbatim>\<open>trust_line_id = ? AND number = ?\<close> with the bytes of the hash bound to the second
  parameter. An integer and a blob are never equal in SQLite.\<close>

definition integerEqualsBlob :: "32 word \<Rightarrow> Bytes \<Rightarrow> bool" where
  "integerEqualsBlob number blob = False"

definition invalidKeyByHash_contractor :: "TrustLineID \<Rightarrow> Bytes \<Rightarrow> CryptoStore \<Rightarrow> unit result \<times> CryptoStore" where
  "invalidKeyByHash_contractor line keyHash = statement (\<lambda>store.
     if \<exists>r \<in> set (contractorKeyRows store). ckLine r = line \<and> integerEqualsBlob (ckNumber r) keyHash
     then returning () (store\<lparr>contractorKeyRows :=
       map (\<lambda>r. if ckLine r = line \<and> integerEqualsBlob (ckNumber r) keyHash then r\<lparr>ckValid := False\<rparr> else r)
         (contractorKeyRows store)\<rparr>)
     else throwing ValueError store)"

definition keyByNumber :: "TrustLineID \<Rightarrow> KeyNumber \<Rightarrow> CryptoStore \<Rightarrow> Bytes result" where
  "keyByNumber line number = query (\<lambda>store.
     orNotFound (map_option ckPublic
       (find (\<lambda>r. ckLine r = line \<and> ckNumber r = number \<and> ckValid r) (contractorKeyRows store))))"

definition keyByHash :: "TrustLineID \<Rightarrow> Bytes \<Rightarrow> CryptoStore \<Rightarrow> Bytes result" where
  "keyByHash line keyHash = query (\<lambda>store.
     orNotFound (map_option ckPublic
       (find (\<lambda>r. ckLine r = line \<and> ckHash r = keyHash \<and> ckValid r) (contractorKeyRows store))))"

definition keyHashByNumber :: "TrustLineID \<Rightarrow> KeyNumber \<Rightarrow> CryptoStore \<Rightarrow> Bytes result" where
  "keyHashByNumber line number = query (\<lambda>store.
     orNotFound (map_option ckHash
       (find (\<lambda>r. ckLine r = line \<and> ckNumber r = number \<and> ckValid r) (contractorKeyRows store))))"

definition availableKeysCnt_contractor :: "TrustLineID \<Rightarrow> CryptoStore \<Rightarrow> KeysCount result" where
  "availableKeysCnt_contractor line = query (\<lambda>store.
     Inr (of_nat (length (filter (\<lambda>r. ckLine r = line \<and> ckValid r) (contractorKeyRows store)))))"

definition sequenceKeysCnt :: "TrustLineID \<Rightarrow> KeyNumber \<Rightarrow> CryptoStore \<Rightarrow> KeysCount result" where
  "sequenceKeysCnt line keysSet = query (\<lambda>store.
     Inr (of_nat (length (filter (\<lambda>r. ckLine r = line \<and> ckSet r = keysSet) (contractorKeyRows store)))))"

definition deleteContractorKeys :: "(ContractorKeyRow \<Rightarrow> bool) \<Rightarrow> CryptoStore \<Rightarrow> unit result \<times> CryptoStore" where
  "deleteContractorKeys P = statement (\<lambda>store.
     returning () (store\<lparr>contractorKeyRows := filter (\<lambda>r. \<not> P r) (contractorKeyRows store),
       incomingReceiptRows := filter (\<lambda>c. rcKeyHash c \<notin> ckHash ` set (filter P (contractorKeyRows store)))
         (incomingReceiptRows store)\<rparr>))"

definition removeUnusedKeys_contractor :: "TrustLineID \<Rightarrow> CryptoStore \<Rightarrow> unit result \<times> CryptoStore" where
  "removeUnusedKeys_contractor line = deleteContractorKeys (\<lambda>r. ckLine r = line \<and> ckValid r)"

definition publicKeysBySetNumber_contractor :: "TrustLineID \<Rightarrow> KeyNumber \<Rightarrow> CryptoStore \<Rightarrow> Bytes list result" where
  "publicKeysBySetNumber_contractor line keysSet = query (\<lambda>store.
     Inr (map ckPublic (filter (\<lambda>r. ckLine r = line \<and> ckSet r = keysSet) (contractorKeyRows store))))"

definition deleteKeysByTrustLineID_contractor :: "TrustLineID \<Rightarrow> CryptoStore \<Rightarrow> unit result \<times> CryptoStore" where
  "deleteKeysByTrustLineID_contractor line = deleteContractorKeys (\<lambda>r. ckLine r = line)"

definition deleteKeyByHashExceptSequenceNumber_contractor ::
    "Bytes \<Rightarrow> KeyNumber \<Rightarrow> CryptoStore \<Rightarrow> unit result \<times> CryptoStore" where
  "deleteKeyByHashExceptSequenceNumber_contractor keyHash keysSet =
     deleteContractorKeys (\<lambda>r. ckHash r = keyHash \<and> ckSet r \<noteq> keysSet)"

definition publicKeyHashesLessThanSetNumber_contractor :: "TrustLineID \<Rightarrow> KeyNumber \<Rightarrow> CryptoStore \<Rightarrow> Bytes list result" where
  "publicKeyHashesLessThanSetNumber_contractor line keysSet = query (\<lambda>store.
     Inr (map ckHash (filter (\<lambda>r. ckLine r = line \<and> ckSet r <s keysSet) (contractorKeyRows store))))"

section \<open>Audits\<close>

definition insertAudit :: "AuditRow \<Rightarrow> CryptoStore \<Rightarrow> unit result \<times> CryptoStore" where
  "insertAudit row = statement (\<lambda>store.
     if (\<exists>r \<in> set (auditRows store). arNumber r = arNumber row \<and> arLine r = arLine row) \<or>
        arLine row \<notin> set (lineRowIDs store)
     then throwing IOError store
     else returning () (store\<lparr>auditRows := auditRows store @ [row]\<rparr>))"

definition saveFullAudit_db :: "AuditNumber \<Rightarrow> TrustLineID \<Rightarrow> Bytes \<Rightarrow> Bytes \<Rightarrow> Bytes \<Rightarrow> Bytes \<Rightarrow> Bytes \<Rightarrow> Bytes \<Rightarrow>
    TrustLineAmount \<Rightarrow> TrustLineAmount \<Rightarrow> TrustLineBalance \<Rightarrow> CryptoStore \<Rightarrow> unit result \<times> CryptoStore" where
  "saveFullAudit_db number line ownKeyHash ownSignature contractorKeyHash contractorSignature ownKeysSetHash
     contractorKeysSetHash incomingAmount outgoingAmount bal = insertAudit
       \<lparr>arNumber = number, arLine = line, arOurKeyHash = ownKeyHash, arOurSignature = ownSignature,
        arContractorKeyHash = Some contractorKeyHash, arContractorSignature = Some contractorSignature,
        arOwnKeysSetHash = ownKeysSetHash, arContractorKeysSetHash = contractorKeysSetHash, arBalance = bal,
        arOutgoingAmount = outgoingAmount, arIncomingAmount = incomingAmount\<rparr>"

definition saveOwnAuditPart_db :: "AuditNumber \<Rightarrow> TrustLineID \<Rightarrow> Bytes \<Rightarrow> Bytes \<Rightarrow> Bytes \<Rightarrow> Bytes \<Rightarrow>
    TrustLineAmount \<Rightarrow> TrustLineAmount \<Rightarrow> TrustLineBalance \<Rightarrow> CryptoStore \<Rightarrow> unit result \<times> CryptoStore" where
  "saveOwnAuditPart_db number line ownKeyHash ownSignature ownKeysSetHash contractorKeysSetHash
     incomingAmount outgoingAmount bal = insertAudit
       \<lparr>arNumber = number, arLine = line, arOurKeyHash = ownKeyHash, arOurSignature = ownSignature,
        arContractorKeyHash = None, arContractorSignature = None,
        arOwnKeysSetHash = ownKeysSetHash, arContractorKeysSetHash = contractorKeysSetHash, arBalance = bal,
        arOutgoingAmount = outgoingAmount, arIncomingAmount = incomingAmount\<rparr>"

definition saveContractorAuditPart_db :: "AuditNumber \<Rightarrow> TrustLineID \<Rightarrow> Bytes \<Rightarrow> Bytes \<Rightarrow> CryptoStore
    \<Rightarrow> unit result \<times> CryptoStore" where
  "saveContractorAuditPart_db number line contractorKeyHash contractorSignature = statement (\<lambda>store.
     if \<exists>r \<in> set (auditRows store). arLine r = line \<and> arNumber r = number
     then returning () (store\<lparr>auditRows :=
       map (\<lambda>r. if arLine r = line \<and> arNumber r = number
                then r\<lparr>arContractorKeyHash := Some contractorKeyHash, arContractorSignature := Some contractorSignature\<rparr>
                else r) (auditRows store)\<rparr>)
     else throwing ValueError store)"

definition lastAudit :: "TrustLineID \<Rightarrow> CryptoStore \<Rightarrow> AuditRow option" where
  "lastAudit line store = firstBest (\<lambda>r' r. arNumber r <s arNumber r') (filter (\<lambda>r. arLine r = line) (auditRows store))"

definition getActualAuditFull :: "TrustLineID \<Rightarrow> CryptoStore \<Rightarrow> AuditRow result" where
  "getActualAuditFull line = query (\<lambda>store. orNotFound (lastAudit line store))"

definition getActualAuditNumber_db :: "TrustLineID \<Rightarrow> CryptoStore \<Rightarrow> AuditNumber result" where
  "getActualAuditNumber_db line = query (\<lambda>store. orNotFound (map_option arNumber (lastAudit line store)))"

definition deleteRecords_audit :: "TrustLineID \<Rightarrow> CryptoStore \<Rightarrow> unit result \<times> CryptoStore" where
  "deleteRecords_audit line = statement (\<lambda>store.
     returning () (store\<lparr>auditRows := filter (\<lambda>r. arLine r \<noteq> line) (auditRows store)\<rparr>))"

definition deleteAuditByNumber :: "TrustLineID \<Rightarrow> AuditNumber \<Rightarrow> CryptoStore \<Rightarrow> unit result \<times> CryptoStore" where
  "deleteAuditByNumber line number = statement (\<lambda>store.
     if \<exists>r \<in> set (auditRows store). arLine r = line \<and> arNumber r = number
     then returning () (store\<lparr>auditRows := filter (\<lambda>r. \<not> (arLine r = line \<and> arNumber r = number)) (auditRows store)\<rparr>)
     else throwing ValueError store)"

definition auditsLessEqualThanAuditNumber :: "TrustLineID \<Rightarrow> AuditNumber \<Rightarrow> CryptoStore \<Rightarrow> AuditRow list result" where
  "auditsLessEqualThanAuditNumber line number = query (\<lambda>store.
     Inr (filter (\<lambda>r. arLine r = line \<and> arNumber r \<le>s number) (auditRows store)))"

text \<open>The answer of the engine is dropped: the result of the last binding, \<^verbatim>\<open>SQLITE_OK\<close>, is compared with
  \<^verbatim>\<open>SQLITE_ROW\<close>. The receipts' \<^verbatim>\<open>isContainsKeyHash\<close> do the same.\<close>

definition SQLITE_OK :: int where
  "SQLITE_OK = 0"

definition SQLITE_ROW :: int where
  "SQLITE_ROW = 100"

definition isContainsKeyHash_audit :: "Bytes \<Rightarrow> CryptoStore \<Rightarrow> bool result" where
  "isContainsKeyHash_audit keyHash = query (\<lambda>store. let rc = SQLITE_OK in Inr (rc = SQLITE_ROW))"

section \<open>Receipts\<close>

definition saveRecord_incoming :: "TrustLineID \<Rightarrow> AuditNumber \<Rightarrow> TransactionUUID \<Rightarrow> Bytes \<Rightarrow> TrustLineAmount \<Rightarrow> Bytes
    \<Rightarrow> CryptoStore \<Rightarrow> unit result \<times> CryptoStore" where
  "saveRecord_incoming line number transaction contractorKeyHash amount contractorSignature = statement (\<lambda>store.
     if (\<exists>r \<in> set (incomingReceiptRows store). rcLine r = line \<and> rcAudit r = number \<and> rcKeyHash r = contractorKeyHash) \<or>
        line \<notin> set (lineRowIDs store) \<or> contractorKeyHash \<notin> ckHash ` set (contractorKeyRows store)
     then throwing IOError store
     else returning () (store\<lparr>incomingReceiptRows := incomingReceiptRows store @
       [\<lparr>rcLine = line, rcAudit = number, rcTransaction = transaction, rcKeyHash = contractorKeyHash,
         rcAmount = amount, rcSignature = Some contractorSignature\<rparr>]\<rparr>))"

definition saveRecord_outgoing :: "TrustLineID \<Rightarrow> AuditNumber \<Rightarrow> TransactionUUID \<Rightarrow> Bytes \<Rightarrow> TrustLineAmount
    \<Rightarrow> CryptoStore \<Rightarrow> unit result \<times> CryptoStore" where
  "saveRecord_outgoing line number transaction ownKeyHash amount = statement (\<lambda>store.
     if (\<exists>r \<in> set (outgoingReceiptRows store). rcLine r = line \<and> rcAudit r = number \<and> rcKeyHash r = ownKeyHash) \<or>
        line \<notin> set (lineRowIDs store) \<or> ownKeyHash \<notin> ownHash ` set (ownKeyRows store)
     then throwing IOError store
     else returning () (store\<lparr>outgoingReceiptRows := outgoingReceiptRows store @
       [\<lparr>rcLine = line, rcAudit = number, rcTransaction = transaction, rcKeyHash = ownKeyHash,
         rcAmount = amount, rcSignature = None\<rparr>]\<rparr>))"

definition auditAmounts_incoming :: "TrustLineID \<Rightarrow> AuditNumber \<Rightarrow> CryptoStore \<Rightarrow> (TransactionUUID \<times> TrustLineAmount) list result" where
  "auditAmounts_incoming line number = query (\<lambda>store.
     Inr (map (\<lambda>r. (rcTransaction r, rcAmount r))
       (filter (\<lambda>r. rcLine r = line \<and> rcAudit r = number) (incomingReceiptRows store))))"

definition auditAmounts_outgoing :: "TrustLineID \<Rightarrow> AuditNumber \<Rightarrow> CryptoStore \<Rightarrow> (TransactionUUID \<times> TrustLineAmount) list result" where
  "auditAmounts_outgoing line number = query (\<lambda>store.
     Inr (map (\<lambda>r. (rcTransaction r, rcAmount r))
       (filter (\<lambda>r. rcLine r = line \<and> rcAudit r = number) (outgoingReceiptRows store))))"

definition receiptsByAuditNumber_incoming :: "TrustLineID \<Rightarrow> AuditNumber \<Rightarrow> CryptoStore \<Rightarrow> ReceiptRow list result" where
  "receiptsByAuditNumber_incoming line number = query (\<lambda>store.
     Inr (filter (\<lambda>r. rcLine r = line \<and> rcAudit r = number) (incomingReceiptRows store)))"

definition receiptsByAuditNumber_outgoing :: "TrustLineID \<Rightarrow> AuditNumber \<Rightarrow> CryptoStore \<Rightarrow> ReceiptRow list result" where
  "receiptsByAuditNumber_outgoing line number = query (\<lambda>store.
     Inr (filter (\<lambda>r. rcLine r = line \<and> rcAudit r = number) (outgoingReceiptRows store)))"

text \<open>The records of the following queries carry the number asked for, not that of their row.\<close>

definition receiptsLessEqualThanAuditNumber_incoming :: "TrustLineID \<Rightarrow> AuditNumber \<Rightarrow> CryptoStore \<Rightarrow> ReceiptRow list result" where
  "receiptsLessEqualThanAuditNumber_incoming line number = query (\<lambda>store.
     Inr (map (\<lambda>r. r\<lparr>rcAudit := number\<rparr>)
       (filter (\<lambda>r. rcLine r = line \<and> rcAudit r \<le>s number) (incomingReceiptRows store))))"

definition receiptsLessEqualThanAuditNumber_outgoing :: "TrustLineID \<Rightarrow> AuditNumber \<Rightarrow> CryptoStore \<Rightarrow> ReceiptRow list result" where
  "receiptsLessEqualThanAuditNumber_outgoing line number = query (\<lambda>store.
     Inr (map (\<lambda>r. r\<lparr>rcAudit := number\<rparr>)
       (filter (\<lambda>r. rcLine r = line \<and> rcAudit r \<le>s number) (outgoingReceiptRows store))))"

definition countReceiptsByNumber_incoming :: "TrustLineID \<Rightarrow> AuditNumber \<Rightarrow> CryptoStore \<Rightarrow> 32 word result" where
  "countReceiptsByNumber_incoming line number = query (\<lambda>store.
     Inr (of_nat (length (filter (\<lambda>r. rcLine r = line \<and> rcAudit r = number) (incomingReceiptRows store)))))"

definition countReceiptsByNumber_outgoing :: "TrustLineID \<Rightarrow> AuditNumber \<Rightarrow> CryptoStore \<Rightarrow> 32 word result" where
  "countReceiptsByNumber_outgoing line number = query (\<lambda>store.
     Inr (of_nat (length (filter (\<lambda>r. rcLine r = line \<and> rcAudit r = number) (outgoingReceiptRows store)))))"

text \<open>\<^verbatim>\<open>deleteRecords\<close> is overloaded: by transaction, by trust line, by key.\<close>

definition deleteIncoming :: "(ReceiptRow \<Rightarrow> bool) \<Rightarrow> CryptoStore \<Rightarrow> unit result \<times> CryptoStore" where
  "deleteIncoming P = statement (\<lambda>store.
     returning () (store\<lparr>incomingReceiptRows := filter (\<lambda>r. \<not> P r) (incomingReceiptRows store)\<rparr>))"

definition deleteOutgoing :: "(ReceiptRow \<Rightarrow> bool) \<Rightarrow> CryptoStore \<Rightarrow> unit result \<times> CryptoStore" where
  "deleteOutgoing P = statement (\<lambda>store.
     returning () (store\<lparr>outgoingReceiptRows := filter (\<lambda>r. \<not> P r) (outgoingReceiptRows store)\<rparr>))"

definition deleteByTransaction_incoming :: "TransactionUUID \<Rightarrow> CryptoStore \<Rightarrow> unit result \<times> CryptoStore" where
  "deleteByTransaction_incoming transaction = deleteIncoming (\<lambda>r. rcTransaction r = transaction)"

definition deleteByTransaction_outgoing :: "TransactionUUID \<Rightarrow> CryptoStore \<Rightarrow> unit result \<times> CryptoStore" where
  "deleteByTransaction_outgoing transaction = deleteOutgoing (\<lambda>r. rcTransaction r = transaction)"

definition deleteByLine_incoming :: "TrustLineID \<Rightarrow> CryptoStore \<Rightarrow> unit result \<times> CryptoStore" where
  "deleteByLine_incoming line = deleteIncoming (\<lambda>r. rcLine r = line)"

definition deleteByLine_outgoing :: "TrustLineID \<Rightarrow> CryptoStore \<Rightarrow> unit result \<times> CryptoStore" where
  "deleteByLine_outgoing line = deleteOutgoing (\<lambda>r. rcLine r = line)"

definition deleteByKey_incoming :: "Bytes \<Rightarrow> CryptoStore \<Rightarrow> unit result \<times> CryptoStore" where
  "deleteByKey_incoming keyHash = deleteIncoming (\<lambda>r. rcKeyHash r = keyHash)"

definition deleteByKey_outgoing :: "Bytes \<Rightarrow> CryptoStore \<Rightarrow> unit result \<times> CryptoStore" where
  "deleteByKey_outgoing keyHash = deleteOutgoing (\<lambda>r. rcKeyHash r = keyHash)"

definition isContainsKeyHash_incoming :: "Bytes \<Rightarrow> CryptoStore \<Rightarrow> bool result" where
  "isContainsKeyHash_incoming keyHash = query (\<lambda>store. let rc = SQLITE_OK in Inr (rc = SQLITE_ROW))"

definition isContainsKeyHash_outgoing :: "Bytes \<Rightarrow> CryptoStore \<Rightarrow> bool result" where
  "isContainsKeyHash_outgoing keyHash = query (\<lambda>store. let rc = SQLITE_OK in Inr (rc = SQLITE_ROW))"

definition isContainsTransaction_incoming :: "TransactionUUID \<Rightarrow> CryptoStore \<Rightarrow> bool result" where
  "isContainsTransaction_incoming transaction = query (\<lambda>store.
     Inr (\<exists>r \<in> set (incomingReceiptRows store). rcTransaction r = transaction))"

definition isContainsTransaction_outgoing :: "TransactionUUID \<Rightarrow> CryptoStore \<Rightarrow> bool result" where
  "isContainsTransaction_outgoing transaction = query (\<lambda>store.
     Inr (\<exists>r \<in> set (outgoingReceiptRows store). rcTransaction r = transaction))"

section \<open>Payments\<close>

definition saveOwnKey_payment :: "TransactionUUID \<Rightarrow> Bytes \<Rightarrow> PrivateKey \<Rightarrow> CryptoStore \<Rightarrow> unit result \<times> CryptoStore" where
  "saveOwnKey_payment transaction publicKey privateKey = statement (\<lambda>store.
     returning () (store\<lparr>paymentKeyRows := paymentKeyRows store @
       [\<lparr>pkTransaction = transaction, pkPublic = publicKey, pkPrivate = mData privateKey\<rparr>]\<rparr>))"

definition getOwnPrivateKey :: "TransactionUUID \<Rightarrow> CryptoStore \<Rightarrow> PrivateKey result" where
  "getOwnPrivateKey transaction = query (\<lambda>store.
     orNotFound (map_option (\<lambda>r. newPrivateKey (pkPrivate r))
       (find (\<lambda>r. pkTransaction r = transaction) (paymentKeyRows store))))"

definition deleteKeyByTransactionUUID :: "TransactionUUID \<Rightarrow> CryptoStore \<Rightarrow> unit result \<times> CryptoStore" where
  "deleteKeyByTransactionUUID transaction = statement (\<lambda>store.
     returning () (store\<lparr>paymentKeyRows := filter (\<lambda>r. pkTransaction r \<noteq> transaction) (paymentKeyRows store)\<rparr>))"

definition saveRecord_vote :: "TransactionUUID \<Rightarrow> Bytes \<Rightarrow> 16 word \<Rightarrow> Bytes \<Rightarrow> Bytes \<Rightarrow> CryptoStore \<Rightarrow> unit result \<times> CryptoStore" where
  "saveRecord_vote transaction contractor node publicKey signature = statement (\<lambda>store.
     returning () (store\<lparr>voteRows := voteRows store @
       [\<lparr>vrTransaction = transaction, vrContractor = contractor, vrNode = node, vrPublic = publicKey,
         vrSignature = signature\<rparr>]\<rparr>))"

text \<open>\<^verbatim>\<open>map::insert\<close> keeps the first signature of a node.\<close>

definition participantsSignatures :: "TransactionUUID \<Rightarrow> CryptoStore \<Rightarrow> (16 word \<times> Bytes) list result" where
  "participantsSignatures transaction = query (\<lambda>store.
     Inr (fold (\<lambda>r m. if vrNode r \<in> set (keys m) then m else ordUpdate (vrNode r) (vrSignature r) m)
       (filter (\<lambda>r. vrTransaction r = transaction) (voteRows store)) []))"

definition deleteRecords_vote :: "TransactionUUID \<Rightarrow> CryptoStore \<Rightarrow> unit result \<times> CryptoStore" where
  "deleteRecords_vote transaction = statement (\<lambda>store.
     returning () (store\<lparr>voteRows := filter (\<lambda>r. vrTransaction r \<noteq> transaction) (voteRows store)\<rparr>))"

definition saveRecord_payment :: "int \<Rightarrow> TransactionUUID \<Rightarrow> 64 word \<Rightarrow> CryptoStore \<Rightarrow> unit result \<times> CryptoStore" where
  "saveRecord_payment now transaction maximalClaimingBlockNumber = statement (\<lambda>store.
     returning () (store\<lparr>paymentRows := paymentRows store @
       [\<lparr>prTransaction = transaction, prClaimingBlock = maximalClaimingBlockNumber, prObservingState = 0,
         prRecordingTime = now\<rparr>]\<rparr>))"

definition updateTransactionState_payment :: "TransactionUUID \<Rightarrow> int \<Rightarrow> CryptoStore \<Rightarrow> unit result \<times> CryptoStore" where
  "updateTransactionState_payment transaction observingState = statement (\<lambda>store.
     if \<exists>r \<in> set (paymentRows store). prTransaction r = transaction
     then returning () (store\<lparr>paymentRows :=
       map (\<lambda>r. if prTransaction r = transaction then r\<lparr>prObservingState := observingState\<rparr> else r) (paymentRows store)\<rparr>)
     else throwing ValueError store)"

definition transactionsWithUncertainObservingState :: "CryptoStore \<Rightarrow> (TransactionUUID \<times> 64 word) list result" where
  "transactionsWithUncertainObservingState = query (\<lambda>store.
     Inr (map (\<lambda>r. (prTransaction r, prClaimingBlock r)) (filter (\<lambda>r. prObservingState r = 0) (paymentRows store))))"

definition isTransactionPresent :: "TransactionUUID \<Rightarrow> CryptoStore \<Rightarrow> bool result" where
  "isTransactionPresent transaction = query (\<lambda>store. Inr (\<exists>r \<in> set (paymentRows store). prTransaction r = transaction))"

definition deleteRecord_payment :: "TransactionUUID \<Rightarrow> CryptoStore \<Rightarrow> unit result \<times> CryptoStore" where
  "deleteRecord_payment transaction = statement (\<lambda>store.
     returning () (store\<lparr>paymentRows := filter (\<lambda>r. prTransaction r \<noteq> transaction) (paymentRows store)\<rparr>))"

text \<open>\<^verbatim>\<open>INSERT OR REPLACE\<close> deletes the old row and adds the new one at the end.\<close>

definition saveRecord_transaction :: "TransactionUUID \<Rightarrow> Bytes \<Rightarrow> CryptoStore \<Rightarrow> unit result \<times> CryptoStore" where
  "saveRecord_transaction transaction body = statement (\<lambda>store.
     returning () (store\<lparr>transactionRows :=
       filter (\<lambda>r. fst r \<noteq> transaction) (transactionRows store) @ [(transaction, body)]\<rparr>))"

definition deleteRecord_transaction :: "TransactionUUID \<Rightarrow> CryptoStore \<Rightarrow> unit result \<times> CryptoStore" where
  "deleteRecord_transaction transaction = statement (\<lambda>store.
     returning () (store\<lparr>transactionRows := filter (\<lambda>r. fst r \<noteq> transaction) (transactionRows store)\<rparr>))"

definition getTransaction :: "TransactionUUID \<Rightarrow> CryptoStore \<Rightarrow> Bytes result" where
  "getTransaction transaction = query (\<lambda>store. orNotFound (map_of (transactionRows store) transaction))"

definition isTransactionSerialized :: "TransactionUUID \<Rightarrow> CryptoStore \<Rightarrow> bool result" where
  "isTransactionSerialized transaction = query (\<lambda>store. Inr (transaction \<in> set (keys (transactionRows store))))"

definition allTransactions :: "CryptoStore \<Rightarrow> Bytes list result" where
  "allTransactions = query (\<lambda>store. Inr (map snd (transactionRows store)))"

end
