(* ===== verification/Keychain.thy ===== *)
theory Keychain imports Crypto_Tables Trust_Line begin

text \<open>
  The keychain of a trust line and the key store of payments (src/src/core/crypto/keychain.cpp) over the tables. A
  keychain is the number of its trust line. The statements of an operation run in the order of the code; what was
  written before an exception stays in the store, as the transaction of the caller keeps it unless it is rolled back.
  The random numbers of new keys are an argument. The two guards of the code are empty.
\<close>

section \<open>Control\<close>

fun inOrder :: "('a \<Rightarrow> 's \<Rightarrow> unit result \<times> 's) \<Rightarrow> 'a list \<Rightarrow> 's \<Rightarrow> unit result \<times> 's" where
  "inOrder f [] s = returning () s"
| "inOrder f (x # xs) s = bindS (f x s) (\<lambda>_. inOrder f xs)"

text \<open>A \<^verbatim>\<open>catch\<close> that answers with a value.\<close>

definition catching :: "geo_error list \<Rightarrow> 'a \<Rightarrow> 'a result \<times> 's \<Rightarrow> 'a result \<times> 's" where
  "catching errors answer r = (case r of
     (Inl e, s) \<Rightarrow> if e \<in> set errors then (Inr answer, s) else (Inl e, s)
   | (Inr x, s) \<Rightarrow> (Inr x, s))"

definition notNull :: "'a option \<Rightarrow> 'a result" where
  "notNull pointer = (case pointer of None \<Rightarrow> Inl UndefinedBehaviour | Some x \<Rightarrow> Inr x)"

section \<open>Keys\<close>

definition kDefaultKeysSetSize :: KeysCount where
  "kDefaultKeysSetSize = 20"

definition kMinKeysSetSize :: KeysCount where
  "kMinKeysSetSize = 2"

lemma unat_next: "i < n \<Longrightarrow> unat (i + 1) = unat i + 1" for i n :: "'a::len word"
proof -
  assume "i < n"
  then have "unat i < unat n" by (simp add: word_less_nat_alt)
  moreover have "unat n < 2 ^ LENGTH('a)" by (rule unsigned_less)
  ultimately have "unat i + 1 < 2 ^ LENGTH('a)" by linarith
  then show ?thesis by (simp add: unat_word_ariths)
qed

text \<open>A key that cannot be saved, because of a failure or of a hash that is in the table, is generated again; the
  third failure is thrown. \<open>attempt\<close> counts the keys drawn.\<close>

function generateKeys :: "(Bytes \<Rightarrow> Bytes) \<Rightarrow> TrustLineID \<Rightarrow> KeyNumber \<Rightarrow> KeysCount \<Rightarrow> KeyNumber \<Rightarrow> nat \<Rightarrow> nat \<Rightarrow>
    (nat \<Rightarrow> Bytes) \<Rightarrow> CryptoStore \<Rightarrow> unit result \<times> CryptoStore" where
  "generateKeys hash line keysSet keyPairsCount idx cntFailedAttempts attempt randomNumbers store =
     (if \<not> idx < keyPairsCount then returning () store
      else
        let pKey = newPrivateKey (randomNumbers attempt); pubKey = derivePublicKey hash pKey
        in case saveKey_own hash line keysSet pubKey pKey idx store of
             (Inr _, store') \<Rightarrow>
               generateKeys hash line keysSet keyPairsCount (idx + 1) cntFailedAttempts (attempt + 1) randomNumbers store'
           | (Inl e, store') \<Rightarrow>
               if e \<noteq> IOError \<or> 3 \<le> cntFailedAttempts + 1 then throwing e store'
               else generateKeys hash line keysSet keyPairsCount idx (cntFailedAttempts + 1) (attempt + 1)
                 randomNumbers store')"
  by pat_completeness auto

termination
  by (relation "measure (\<lambda>(_, _, _, n, idx, failed, _). (unat n - unat idx) + (3 - failed))")
    (auto simp: unat_next word_less_nat_alt)

declare generateKeys.simps [simp del]

definition generateKeyPairsSet :: "(Bytes \<Rightarrow> Bytes) \<Rightarrow> TrustLineID \<Rightarrow> KeysCount \<Rightarrow> (nat \<Rightarrow> Bytes) \<Rightarrow> CryptoStore
    \<Rightarrow> unit result \<times> CryptoStore" where
  "generateKeyPairsSet hash line keyPairsCount randomNumbers store =
     (case maxKeySetSequenceNumber_own line store of
        Inl e \<Rightarrow> if e = NotFoundError then generateKeys hash line 0 keyPairsCount 0 0 0 randomNumbers store
                 else throwing e store
      | Inr n \<Rightarrow> generateKeys hash line (n + 1) keyPairsCount 0 0 0 randomNumbers store)"

text \<open>An absent key is a null pointer.\<close>

definition publicKey_keychain :: "TrustLineID \<Rightarrow> KeyNumber \<Rightarrow> CryptoStore \<Rightarrow> Bytes option result" where
  "publicKey_keychain line number store =
     (case getPublicKey line number store of
        Inl e \<Rightarrow> if e = NotFoundError then Inr None else Inl e
      | Inr key \<Rightarrow> Inr (Some key))"

definition setContractorPublicKey :: "(Bytes \<Rightarrow> Bytes) \<Rightarrow> TrustLineID \<Rightarrow> KeyNumber \<Rightarrow> KeyNumber \<Rightarrow> Bytes \<Rightarrow> CryptoStore
    \<Rightarrow> unit result \<times> CryptoStore" where
  "setContractorPublicKey hash line keysSet number key = saveKey_contractor hash line keysSet key number"

definition contractorKeysPresent_keychain :: "TrustLineID \<Rightarrow> CryptoStore \<Rightarrow> bool result" where
  "contractorKeysPresent_keychain line store = bindR (availableKeysCnt_contractor line store) (\<lambda>n. Inr (0 < n))"

definition ownKeysPresent_keychain :: "TrustLineID \<Rightarrow> CryptoStore \<Rightarrow> bool result" where
  "ownKeysPresent_keychain line store = bindR (availableKeysCnt_own line store) (\<lambda>n. Inr (0 < n))"

definition allContractorKeysReceive :: "TrustLineID \<Rightarrow> KeyNumber \<Rightarrow> KeysCount \<Rightarrow> CryptoStore \<Rightarrow> bool result" where
  "allContractorKeysReceive line keysSet contractorKeysCount store =
     bindR (sequenceKeysCnt line keysSet store) (\<lambda>n. Inr (n = contractorKeysCount))"

definition ownKeysCriticalCount_keychain :: "TrustLineID \<Rightarrow> CryptoStore \<Rightarrow> bool result" where
  "ownKeysCriticalCount_keychain line store = bindR (availableKeysCnt_own line store) (\<lambda>n. Inr (n \<le> kMinKeysSetSize))"

definition isInitialAuditCondition :: "TrustLineID \<Rightarrow> CryptoStore \<Rightarrow> bool result" where
  "isInitialAuditCondition line store =
     bindR (getActualAuditNumber_db line store) (\<lambda>number.
       if number = kInitialAuditNumber + 1 then Inr True
       else bindR (availableKeysCnt_own line store) (\<lambda>ownValidKeysCount.
         bindR (availableKeysCnt_contractor line store) (\<lambda>contractorKeysCount.
           Inr (ownValidKeysCount = kDefaultKeysSetSize - 1 \<and> contractorKeysCount = kDefaultKeysSetSize - 1))))"

section \<open>Signatures\<close>

text \<open>The key is read anew, so it is not cropped; a cropped one would end the process.\<close>

definition sign :: "(Bytes \<Rightarrow> Bytes) \<Rightarrow> TrustLineID \<Rightarrow> Bytes \<Rightarrow> CryptoStore \<Rightarrow> (Bytes \<times> KeyNumber) result" where
  "sign hash line message store =
     bindR (nextAvailableKey line store) (\<lambda>(privateKey, number).
       bindR (notNull (newSignature hash message privateKey)) (\<lambda>(signature, _). Inr (signature, number)))"

definition checkSign_keychain :: "(Bytes \<Rightarrow> Bytes) \<Rightarrow> TrustLineID \<Rightarrow> Bytes \<Rightarrow> Bytes \<Rightarrow> KeyNumber \<Rightarrow> CryptoStore \<Rightarrow> bool" where
  "checkSign_keychain hash line message signature number store =
     (case keyByNumber line number store of
        Inl _ \<Rightarrow> False
      | Inr contractorPublicKey \<Rightarrow> checkSignature hash signature message contractorPublicKey)"

definition removeUnusedContractorKeys :: "TrustLineID \<Rightarrow> CryptoStore \<Rightarrow> unit result \<times> CryptoStore" where
  "removeUnusedContractorKeys = removeUnusedKeys_contractor"

definition removeUnusedOwnKeys :: "TrustLineID \<Rightarrow> CryptoStore \<Rightarrow> unit result \<times> CryptoStore" where
  "removeUnusedOwnKeys = removeUnusedKeys_own"

section \<open>Receipts\<close>

definition saveOutgoingReceipt :: "TrustLineID \<Rightarrow> AuditNumber \<Rightarrow> TransactionUUID \<Rightarrow> KeyNumber \<Rightarrow> TrustLineAmount \<Rightarrow> Bytes \<Rightarrow>
    CryptoStore \<Rightarrow> bool result \<times> CryptoStore" where
  "saveOutgoingReceipt line number transaction ownKeyNumber amount signature store =
     catching [NotFoundError, IOError] False
       (bindS (getPublicKeyHash line ownKeyNumber store, store) (\<lambda>keyHash s.
        bindS (saveRecord_outgoing line number transaction keyHash amount s) (\<lambda>_ s.
        bindS (invalidKey_own line ownKeyNumber signature s) (\<lambda>_ s. returning True s))))"

definition saveIncomingReceipt :: "TrustLineID \<Rightarrow> AuditNumber \<Rightarrow> TransactionUUID \<Rightarrow> KeyNumber \<Rightarrow> TrustLineAmount \<Rightarrow> Bytes \<Rightarrow>
    CryptoStore \<Rightarrow> bool result \<times> CryptoStore" where
  "saveIncomingReceipt line number transaction contractorKeyNumber amount contractorSignature store =
     catching [NotFoundError, IOError] False
       (bindS (keyHashByNumber line contractorKeyNumber store, store) (\<lambda>keyHash s.
        bindS (saveRecord_incoming line number transaction keyHash amount contractorSignature s) (\<lambda>_ s.
        bindS (invalidKey_contractor line contractorKeyNumber s) (\<lambda>_ s. returning True s))))"

text \<open>The receipts of payments that are decided and not serialised any more.\<close>

fun committedSum :: "(TransactionUUID \<times> TrustLineAmount) list \<Rightarrow> TrustLineAmount \<Rightarrow> CryptoStore \<Rightarrow> TrustLineAmount result" where
  "committedSum [] result store = Inr result"
| "committedSum ((transaction, amount) # receipts) result store =
     bindR (isTransactionSerialized transaction store) (\<lambda>serialized.
       if serialized then committedSum receipts result store
       else bindR (isTransactionPresent transaction store) (\<lambda>present.
         if present then bindR (checked_add result amount) (\<lambda>sum. committedSum receipts sum store)
         else committedSum receipts result store))"

definition incomingCommittedReceiptsAmountsSum :: "TrustLineID \<Rightarrow> AuditNumber \<Rightarrow> CryptoStore \<Rightarrow> TrustLineAmount result" where
  "incomingCommittedReceiptsAmountsSum line number store =
     bindR (auditAmounts_incoming line number store) (\<lambda>receipts. committedSum receipts 0 store)"

definition outgoingCommittedReceiptsAmountsSum :: "TrustLineID \<Rightarrow> AuditNumber \<Rightarrow> CryptoStore \<Rightarrow> TrustLineAmount result" where
  "outgoingCommittedReceiptsAmountsSum line number store =
     bindR (auditAmounts_outgoing line number store) (\<lambda>receipts. committedSum receipts 0 store)"

definition incomingReceipts :: "TrustLineID \<Rightarrow> AuditNumber \<Rightarrow> CryptoStore \<Rightarrow> ReceiptRow list result" where
  "incomingReceipts = receiptsByAuditNumber_incoming"

definition outgoingReceipts :: "TrustLineID \<Rightarrow> AuditNumber \<Rightarrow> CryptoStore \<Rightarrow> ReceiptRow list result" where
  "outgoingReceipts = receiptsByAuditNumber_outgoing"

section \<open>Audits\<close>

definition saveFullAudit :: "TrustLineID \<Rightarrow> AuditNumber \<Rightarrow> KeyNumber \<Rightarrow> Bytes \<Rightarrow> KeyNumber \<Rightarrow> Bytes \<Rightarrow> Bytes \<Rightarrow> Bytes \<Rightarrow>
    TrustLineAmount \<Rightarrow> TrustLineAmount \<Rightarrow> TrustLineBalance \<Rightarrow> CryptoStore \<Rightarrow> unit result \<times> CryptoStore" where
  "saveFullAudit line number ownKeyNumber ownSignature contractorKeyNumber contractorSignature ownKeysSetHash
     contractorKeysSetHash incomingAmount outgoingAmount bal store =
     bindS (getPublicKeyHash line ownKeyNumber store, store) (\<lambda>ownKeyHash s.
     bindS (keyHashByNumber line contractorKeyNumber s, s) (\<lambda>contractorKeyHash s.
     bindS (saveFullAudit_db number line ownKeyHash ownSignature contractorKeyHash contractorSignature ownKeysSetHash
       contractorKeysSetHash incomingAmount outgoingAmount bal s) (\<lambda>_ s.
     bindS (invalidKey_own line ownKeyNumber ownSignature s) (\<lambda>_ s.
       invalidKey_contractor line contractorKeyNumber s))))"

definition saveOwnAuditPart :: "TrustLineID \<Rightarrow> AuditNumber \<Rightarrow> KeyNumber \<Rightarrow> Bytes \<Rightarrow> Bytes \<Rightarrow> Bytes \<Rightarrow>
    TrustLineAmount \<Rightarrow> TrustLineAmount \<Rightarrow> TrustLineBalance \<Rightarrow> CryptoStore \<Rightarrow> unit result \<times> CryptoStore" where
  "saveOwnAuditPart line number ownKeyNumber ownSignature ownKeysSetHash contractorKeysSetHash
     incomingAmount outgoingAmount bal store =
     bindS (getPublicKeyHash line ownKeyNumber store, store) (\<lambda>ownKeyHash s.
     bindS (saveOwnAuditPart_db number line ownKeyHash ownSignature ownKeysSetHash contractorKeysSetHash
       incomingAmount outgoingAmount bal s) (\<lambda>_ s.
       invalidKey_own line ownKeyNumber ownSignature s))"

definition saveContractorAuditPart :: "TrustLineID \<Rightarrow> AuditNumber \<Rightarrow> KeyNumber \<Rightarrow> Bytes \<Rightarrow> CryptoStore
    \<Rightarrow> unit result \<times> CryptoStore" where
  "saveContractorAuditPart line number contractorKeyNumber contractorSignature store =
     bindS (keyHashByNumber line contractorKeyNumber store, store) (\<lambda>contractorKeyHash s.
     bindS (saveContractorAuditPart_db number line contractorKeyHash contractorSignature s) (\<lambda>_ s.
       invalidKey_contractor line contractorKeyNumber s))"

definition removeCancelledOwnAuditPart :: "TrustLineID \<Rightarrow> CryptoStore \<Rightarrow> unit result \<times> CryptoStore" where
  "removeCancelledOwnAuditPart line store =
     bindS (getActualAuditFull line store, store) (\<lambda>actualAudit s.
       if arContractorSignature actualAudit \<noteq> None then throwing ValueError s
       else deleteAuditByNumber line (arNumber actualAudit) s)"

definition isAuditWasCancelled :: "TrustLineID \<Rightarrow> AuditNumber \<Rightarrow> CryptoStore \<Rightarrow> bool result" where
  "isAuditWasCancelled line number store =
     bindR (getActualAuditFull line store) (\<lambda>actualAudit.
       Inr (arNumber actualAudit > number \<or> arContractorSignature actualAudit \<noteq> None))"

definition isActualAuditFull :: "TrustLineID \<Rightarrow> CryptoStore \<Rightarrow> bool result" where
  "isActualAuditFull line store =
     bindR (getActualAuditFull line store) (\<lambda>actualAudit. Inr (arContractorSignature actualAudit \<noteq> None))"

definition signatureAndNumber :: "AuditRow \<Rightarrow> CryptoStore \<Rightarrow> (Bytes \<times> KeyNumber) result" where
  "signatureAndNumber audit store =
     (case getKeyNumberByHash (arOurKeyHash audit) store of
        Inl e \<Rightarrow> Inl (if e = NotFoundError then ValueError else e)
      | Inr ownKeyNumber \<Rightarrow> Inr (arOurSignature audit, ownKeyNumber))"

definition getSignatureAndKeyNumberForPendingAudit :: "TrustLineID \<Rightarrow> AuditNumber \<Rightarrow> CryptoStore \<Rightarrow> (Bytes \<times> KeyNumber) result" where
  "getSignatureAndKeyNumberForPendingAudit line number store =
     bindR (getActualAuditFull line store) (\<lambda>audit.
       if arNumber audit \<noteq> number then Inl ValueError
       else if arContractorSignature audit \<noteq> None then Inl ValueError
       else signatureAndNumber audit store)"

definition getCurrentAuditSignatureAndKeyNumber :: "TrustLineID \<Rightarrow> CryptoStore \<Rightarrow> (Bytes \<times> KeyNumber) result" where
  "getCurrentAuditSignatureAndKeyNumber line store =
     bindR (getActualAuditFull line store) (\<lambda>audit. signatureAndNumber audit store)"

definition actualFullAudit :: "TrustLineID \<Rightarrow> CryptoStore \<Rightarrow> AuditRow result" where
  "actualFullAudit = getActualAuditFull"

text \<open>The keys of the set with the highest number; hashing them one after the other is hashing their bytes in a row.\<close>

definition ownPublicKeysHash :: "(Bytes \<Rightarrow> Bytes) \<Rightarrow> TrustLineID \<Rightarrow> CryptoStore \<Rightarrow> Bytes result" where
  "ownPublicKeysHash hash line store =
     bindR (maxKeySetSequenceNumber_own line store) (\<lambda>currentKeysSet.
     bindR (publicKeysBySetNumber_own line currentKeysSet store) (\<lambda>ownPublicKeys.
       Inr (hash (concat (map (take keySize) ownPublicKeys)))))"

definition contractorPublicKeysHash :: "(Bytes \<Rightarrow> Bytes) \<Rightarrow> TrustLineID \<Rightarrow> CryptoStore \<Rightarrow> Bytes result" where
  "contractorPublicKeysHash hash line store =
     bindR (maxKeySetSequenceNumber_contractor line store) (\<lambda>currentKeysSet.
     bindR (publicKeysBySetNumber_contractor line currentKeysSet store) (\<lambda>contractorPublicKeys.
       Inr (hash (concat (map (take keySize) contractorPublicKeys)))))"

definition checkKeysSetAppropriate_keychain :: "(Bytes \<Rightarrow> Bytes) \<Rightarrow> TrustLineID \<Rightarrow> Bytes \<Rightarrow> Bytes \<Rightarrow> CryptoStore
    \<Rightarrow> (bool \<times> bool) result" where
  "checkKeysSetAppropriate_keychain hash line auditOwnKeysSetHash auditContractorKeysSetHash store =
     bindR (ownPublicKeysHash hash line store) (\<lambda>ownKeysSetHash.
     bindR (contractorPublicKeysHash hash line store) (\<lambda>contractorKeysSetHash.
       Inr (auditOwnKeysSetHash = ownKeysSetHash, auditContractorKeysSetHash = contractorKeysSetHash)))"

section \<open>Conflicts\<close>

text \<open>\<open>checkOwnConflictedSignature\<close> and \<open>checkConflictedIncomingReceipt\<close> look for an own key,
  \<open>checkContractorConflictedSignature\<close> and \<open>checkConflictedOutgoingReceipt\<close> for one of the contractor.\<close>

definition checkOwnConflictedSignature :: "(Bytes \<Rightarrow> Bytes) \<Rightarrow> TrustLineID \<Rightarrow> Bytes \<Rightarrow> Bytes \<Rightarrow> Bytes \<Rightarrow> CryptoStore \<Rightarrow> bool result" where
  "checkOwnConflictedSignature hash line message ownSignature ownKeyHash store =
     bindR (getPublicKeyByHash line ownKeyHash store) (\<lambda>key. Inr (checkSignature hash ownSignature message key))"

definition checkContractorConflictedSignature :: "(Bytes \<Rightarrow> Bytes) \<Rightarrow> TrustLineID \<Rightarrow> Bytes \<Rightarrow> Bytes \<Rightarrow> Bytes \<Rightarrow> CryptoStore \<Rightarrow> bool result" where
  "checkContractorConflictedSignature hash line message contractorSignature contractorKeyHash store =
     bindR (keyByHash line contractorKeyHash store) (\<lambda>key. Inr (checkSignature hash contractorSignature message key))"

definition checkConflictedIncomingReceipt :: "(Bytes \<Rightarrow> Bytes) \<Rightarrow> TrustLineID \<Rightarrow> Bytes \<Rightarrow> Bytes \<Rightarrow> Bytes \<Rightarrow> CryptoStore \<Rightarrow> bool result" where
  "checkConflictedIncomingReceipt = checkOwnConflictedSignature"

definition checkConflictedOutgoingReceipt :: "(Bytes \<Rightarrow> Bytes) \<Rightarrow> TrustLineID \<Rightarrow> Bytes \<Rightarrow> Bytes \<Rightarrow> Bytes \<Rightarrow> CryptoStore \<Rightarrow> bool result" where
  "checkConflictedOutgoingReceipt = checkContractorConflictedSignature"

text \<open>The record is one of the contractor: its own side is the other side here.\<close>

definition acceptAudit :: "TrustLineID \<Rightarrow> AuditRow \<Rightarrow> CryptoStore \<Rightarrow> unit result \<times> CryptoStore" where
  "acceptAudit line auditRecord store =
     bindS (notNull (arContractorKeyHash auditRecord), store) (\<lambda>contractorKeyHash s.
     bindS (notNull (arContractorSignature auditRecord), s) (\<lambda>contractorSignature s.
     bindS (saveFullAudit_db (arNumber auditRecord) line contractorKeyHash contractorSignature (arOurKeyHash auditRecord)
       (arOurSignature auditRecord) (arOwnKeysSetHash auditRecord) (arContractorKeysSetHash auditRecord)
       (arOutgoingAmount auditRecord) (arIncomingAmount auditRecord) (wrap256 (arBalance auditRecord * -1)) s) (\<lambda>_ s.
     bindS (invalidKeyByHash_own line contractorKeyHash contractorSignature s) (\<lambda>_ s.
       invalidKeyByHash_contractor line (arOurKeyHash auditRecord) s))))"

definition acceptIncomingReceipt :: "TrustLineID \<Rightarrow> ReceiptRow \<Rightarrow> CryptoStore \<Rightarrow> unit result \<times> CryptoStore" where
  "acceptIncomingReceipt line receipt store =
     bindS (saveRecord_outgoing line (rcAudit receipt) (rcTransaction receipt) (rcKeyHash receipt) (rcAmount receipt) store) (\<lambda>_ s.
     bindS (notNull (rcSignature receipt), s) (\<lambda>signature s.
       invalidKeyByHash_own line (rcKeyHash receipt) signature s))"

definition acceptOutgoingReceipt :: "TrustLineID \<Rightarrow> ReceiptRow \<Rightarrow> CryptoStore \<Rightarrow> unit result \<times> CryptoStore" where
  "acceptOutgoingReceipt line receipt store =
     bindS (notNull (rcSignature receipt), store) (\<lambda>signature s.
     bindS (saveRecord_incoming line (rcAudit receipt) (rcTransaction receipt) (rcKeyHash receipt) (rcAmount receipt) signature s) (\<lambda>_ s.
       invalidKeyByHash_contractor line (rcKeyHash receipt) s))"

definition acceptReceipts :: "TrustLineID \<Rightarrow> ReceiptRow list \<Rightarrow> ReceiptRow list \<Rightarrow> CryptoStore \<Rightarrow> unit result \<times> CryptoStore" where
  "acceptReceipts line contractorIncomingReceipts contractorOutgoingReceipts store =
     bindS (inOrder (acceptIncomingReceipt line) contractorIncomingReceipts store) (\<lambda>_.
       inOrder (acceptOutgoingReceipt line) contractorOutgoingReceipts)"

section \<open>Removal\<close>

definition removeAllTrustLineData :: "TrustLineID \<Rightarrow> CryptoStore \<Rightarrow> unit result \<times> CryptoStore" where
  "removeAllTrustLineData line store =
     bindS (deleteByLine_outgoing line store) (\<lambda>_ s.
     bindS (deleteByLine_incoming line s) (\<lambda>_ s.
     bindS (deleteRecords_audit line s) (\<lambda>_ s.
     bindS (deleteKeysByTrustLineID_own line s) (\<lambda>_ s.
       deleteKeysByTrustLineID_contractor line s))))"

definition isReceiptsPresent :: "TransactionUUID \<Rightarrow> CryptoStore \<Rightarrow> bool result" where
  "isReceiptsPresent transaction store =
     bindR (isContainsTransaction_incoming transaction store) (\<lambda>found.
       if found then Inr True else isContainsTransaction_outgoing transaction store)"

definition removeDecidedPayment :: "TransactionUUID \<Rightarrow> CryptoStore \<Rightarrow> unit result \<times> CryptoStore" where
  "removeDecidedPayment transaction store =
     bindS (isReceiptsPresent transaction store, store) (\<lambda>present s.
       if present then returning () s
       else bindS (deleteRecords_vote transaction s) (\<lambda>_ s.
            bindS (deleteRecord_payment transaction s) (\<lambda>_ s.
              deleteKeyByTransactionUUID transaction s)))"

definition removeOutgoingReceipt :: "KeyNumber \<Rightarrow> ReceiptRow \<Rightarrow> CryptoStore \<Rightarrow> unit result \<times> CryptoStore" where
  "removeOutgoingReceipt currentOwnKeysSet receipt store =
     bindS (deleteByKey_outgoing (rcKeyHash receipt) store) (\<lambda>_ s.
     bindS (removeDecidedPayment (rcTransaction receipt) s) (\<lambda>_ s.
       deleteKeyByHashExceptSequenceNumber_own (rcKeyHash receipt) currentOwnKeysSet s))"

definition removeIncomingReceipt :: "KeyNumber \<Rightarrow> ReceiptRow \<Rightarrow> CryptoStore \<Rightarrow> unit result \<times> CryptoStore" where
  "removeIncomingReceipt currentContractorKeysSet receipt store =
     bindS (deleteByKey_incoming (rcKeyHash receipt) store) (\<lambda>_ s.
     bindS (removeDecidedPayment (rcTransaction receipt) s) (\<lambda>_ s.
       deleteKeyByHashExceptSequenceNumber_contractor (rcKeyHash receipt) currentContractorKeysSet s))"

definition removeAudit :: "TrustLineID \<Rightarrow> KeyNumber \<Rightarrow> KeyNumber \<Rightarrow> AuditRow \<Rightarrow> CryptoStore \<Rightarrow> unit result \<times> CryptoStore" where
  "removeAudit line currentOwnKeysSet currentContractorKeysSet audit store =
     bindS (deleteAuditByNumber line (arNumber audit) store) (\<lambda>_ s.
     bindS (deleteKeyByHashExceptSequenceNumber_own (arOurKeyHash audit) currentOwnKeysSet s) (\<lambda>_ s.
     bindS (notNull (arContractorKeyHash audit), s) (\<lambda>contractorKeyHash s.
       deleteKeyByHashExceptSequenceNumber_contractor contractorKeyHash currentContractorKeysSet s)))"

definition removeOwnKey :: "KeyNumber \<Rightarrow> Bytes \<Rightarrow> CryptoStore \<Rightarrow> unit result \<times> CryptoStore" where
  "removeOwnKey currentOwnKeysSet keyHash store =
     bindS (isContainsKeyHash_outgoing keyHash store, store) (\<lambda>inReceipt s.
       if inReceipt then returning () s
       else bindS (isContainsKeyHash_audit keyHash s, s) (\<lambda>inAudit s.
         if inAudit then returning () s
         else deleteKeyByHashExceptSequenceNumber_own keyHash (currentOwnKeysSet + 1) s))"

definition removeContractorKey :: "KeyNumber \<Rightarrow> Bytes \<Rightarrow> CryptoStore \<Rightarrow> unit result \<times> CryptoStore" where
  "removeContractorKey currentContractorKeysSet keyHash store =
     bindS (isContainsKeyHash_incoming keyHash store, store) (\<lambda>inReceipt s.
       if inReceipt then returning () s
       else bindS (isContainsKeyHash_audit keyHash s, s) (\<lambda>inAudit s.
         if inAudit then returning () s
         else deleteKeyByHashExceptSequenceNumber_contractor keyHash (currentContractorKeysSet + 1) s))"

definition removeOutdatedKeys :: "TrustLineID \<Rightarrow> KeyNumber \<Rightarrow> KeyNumber \<Rightarrow> CryptoStore \<Rightarrow> unit result \<times> CryptoStore" where
  "removeOutdatedKeys line currentOwnKeysSet currentContractorKeysSet store =
     bindS (publicKeyHashesLessThanSetNumber_own line currentOwnKeysSet store, store) (\<lambda>ownKeyHashes s.
     bindS (inOrder (removeOwnKey currentOwnKeysSet) ownKeyHashes s) (\<lambda>_ s.
     bindS (publicKeyHashesLessThanSetNumber_contractor line currentContractorKeysSet s, s) (\<lambda>contractorKeyHashes s.
       inOrder (removeContractorKey currentContractorKeysSet) contractorKeyHashes s)))"

definition removeOutdatedCryptoData :: "TrustLineID \<Rightarrow> AuditNumber \<Rightarrow> CryptoStore \<Rightarrow> unit result \<times> CryptoStore" where
  "removeOutdatedCryptoData line number store =
     bindS (maxKeySetSequenceNumber_own line store, store) (\<lambda>currentOwnKeysSet s.
     bindS (maxKeySetSequenceNumber_contractor line s, s) (\<lambda>currentContractorKeysSet s.
     bindS (receiptsLessEqualThanAuditNumber_outgoing line number s, s) (\<lambda>outgoings s.
     bindS (inOrder (removeOutgoingReceipt currentOwnKeysSet) outgoings s) (\<lambda>_ s.
     bindS (receiptsLessEqualThanAuditNumber_incoming line number s, s) (\<lambda>incomings s.
     bindS (inOrder (removeIncomingReceipt currentContractorKeysSet) incomings s) (\<lambda>_ s.
     bindS (auditsLessEqualThanAuditNumber line number s, s) (\<lambda>audits s.
     bindS (inOrder (removeAudit line currentOwnKeysSet currentContractorKeysSet) audits s) (\<lambda>_ s.
       removeOutdatedKeys line currentOwnKeysSet currentContractorKeysSet s))))))))"

section \<open>Keys of payments\<close>

definition generateAndSaveKeyPairForPaymentTransaction :: "(Bytes \<Rightarrow> Bytes) \<Rightarrow> Bytes \<Rightarrow> TransactionUUID \<Rightarrow> CryptoStore
    \<Rightarrow> Bytes result \<times> CryptoStore" where
  "generateAndSaveKeyPairForPaymentTransaction hash randomNumbers transaction store =
     (let pKey = newPrivateKey randomNumbers; pubKey = derivePublicKey hash pKey
      in bindS (saveOwnKey_payment transaction pubKey pKey store) (\<lambda>_ s. returning pubKey s))"

definition signPaymentTransaction_keychain :: "(Bytes \<Rightarrow> Bytes) \<Rightarrow> TransactionUUID \<Rightarrow> Bytes \<Rightarrow> CryptoStore \<Rightarrow> Bytes option result" where
  "signPaymentTransaction_keychain hash transaction message store =
     (case getOwnPrivateKey transaction store of
        Inl e \<Rightarrow> if e = NotFoundError then Inr None else Inl e
      | Inr privateKey \<Rightarrow> bindR (notNull (newSignature hash message privateKey)) (\<lambda>(signature, _). Inr (Some signature)))"

section \<open>The removal of outdated data\<close>

text \<open>RemoveOutdatedCryptoDataTransaction over the trust lines of one equivalent: an engine failure ends the loop and
  rolls everything back.\<close>

definition kOutdatedDifference :: AuditNumber where
  "kOutdatedDifference = 2"

definition removeOutdatedOfLine :: "TrustLineID \<Rightarrow> CryptoStore \<Rightarrow> unit result \<times> CryptoStore" where
  "removeOutdatedOfLine line store =
     bindS (getActualAuditFull line store, store) (\<lambda>currentAuditRecord s.
       if arNumber currentAuditRecord \<le> kOutdatedDifference then returning () s
       else removeOutdatedCryptoData line (arNumber currentAuditRecord - kOutdatedDifference) s)"

definition removeOutdatedOfEquivalent :: "TrustLineID list \<Rightarrow> CryptoStore \<Rightarrow> unit result \<times> CryptoStore" where
  "removeOutdatedOfEquivalent trustLineIDs store =
     (case inOrder removeOutdatedOfLine trustLineIDs store of
        (Inl e, s) \<Rightarrow> if e = IOError then returning () store else (Inl e, s)
      | (Inr _, s) \<Rightarrow> returning () s)"

end
