(* ===== verification/Crypto_Integrity.thy ===== *)
theory Crypto_Integrity imports Keychain begin

text \<open>
  The integrity of the tables under the operations of the keychain: hashes are unique, a receipt refers to a key
  that is in its table, numbers of audits are unique for a line, and every own key that may still sign stands with the
  public key derived from it.
\<close>

definition own_row_ok :: "(Bytes \<Rightarrow> Bytes) \<Rightarrow> OwnKeyRow \<Rightarrow> bool" where
  "own_row_ok hash r \<longleftrightarrow> ownHash r = publicKeyHashOf hash (ownPublic r) \<and>
     (ownValid r \<longrightarrow> length (ownPrivate r) = keySize \<and> ownPublic r = derivePublicKey hash (newPrivateKey (ownPrivate r)))"

definition receipt_key :: "ReceiptRow \<Rightarrow> TrustLineID \<times> AuditNumber \<times> Bytes" where
  "receipt_key r = (rcLine r, rcAudit r, rcKeyHash r)"

definition tables_ok :: "(Bytes \<Rightarrow> Bytes) \<Rightarrow> CryptoStore \<Rightarrow> bool" where
  "tables_ok hash s \<longleftrightarrow>
     distinct (map ownHash (ownKeyRows s)) \<and> distinct (map ckHash (contractorKeyRows s)) \<and>
     (\<forall>r \<in> set (ownKeyRows s). own_row_ok hash r) \<and>
     rcKeyHash ` set (outgoingReceiptRows s) \<subseteq> ownHash ` set (ownKeyRows s) \<and>
     rcKeyHash ` set (incomingReceiptRows s) \<subseteq> ckHash ` set (contractorKeyRows s) \<and>
     distinct (map receipt_key (outgoingReceiptRows s)) \<and> distinct (map receipt_key (incomingReceiptRows s)) \<and>
     distinct (map (\<lambda>r. (arNumber r, arLine r)) (auditRows s)) \<and> distinct (keys (transactionRows s))"

named_theorems keeps \<open>operations that keep the integrity of the tables\<close>

section \<open>Control\<close>

lemma keeps_statement: "I s \<Longrightarrow> I (snd (f s)) \<Longrightarrow> I (snd (statement f s))"
  by (simp add: statement_def)

lemma keeps_bindS: "I (snd r) \<Longrightarrow> (\<And>x s. I s \<Longrightarrow> I (snd (f x s))) \<Longrightarrow> I (snd (bindS r f))"
  by (cases r; cases "fst r") (auto simp: bindS_def)

lemma keeps_catching: "I (snd r) \<Longrightarrow> I (snd (catching errors answer r))"
  by (cases r; cases "fst r") (auto simp: catching_def)

lemma keeps_inOrder: "(\<And>x s. I s \<Longrightarrow> I (snd (f x s))) \<Longrightarrow> I s \<Longrightarrow> I (snd (inOrder f xs s))"
  by (induction xs arbitrary: s) (auto intro: keeps_bindS)

lemmas ok_bindS = keeps_bindS [where I = "tables_ok hash" for hash]
lemmas ok_catching = keeps_catching [where I = "tables_ok hash" for hash]
lemmas ok_inOrder = keeps_inOrder [where I = "tables_ok hash" for hash]

section \<open>Tables\<close>

lemma distinct_map_filterI: "distinct (map f xs) \<Longrightarrow> distinct (map f (filter P xs))"
  by (induction xs) auto

lemma kept_image: "x \<notin> f ` {y \<in> A. P y} \<Longrightarrow> x \<in> f ` A \<Longrightarrow> x \<in> f ` {y \<in> A. \<not> P y}"
  by auto

lemma deleteOwnKeys_keeps [keeps]: "tables_ok hash s \<Longrightarrow> tables_ok hash (snd (deleteOwnKeys P s))"
  unfolding deleteOwnKeys_def
  by (rule keeps_statement [where I = "tables_ok hash"])
    (auto simp: tables_ok_def distinct_map_filterI intro!: kept_image [of _ _ _ P])

lemma deleteContractorKeys_keeps [keeps]: "tables_ok hash s \<Longrightarrow> tables_ok hash (snd (deleteContractorKeys P s))"
  unfolding deleteContractorKeys_def
  by (rule keeps_statement [where I = "tables_ok hash"])
    (auto simp: tables_ok_def distinct_map_filterI intro!: kept_image [of _ _ _ P])

lemma saveKey_own_keeps:
  assumes "tables_ok hash s" and "length numbers = keySize"
  shows "tables_ok hash (snd (saveKey_own hash line keysSet (derivePublicKey hash (newPrivateKey numbers)) (newPrivateKey numbers) number s))"
  using assms unfolding saveKey_own_def
  by (intro keeps_statement [where I = "tables_ok hash"]) (auto simp: tables_ok_def own_row_ok_def newPrivateKey_def)

text \<open>Writing columns other than the key of a table.\<close>

lemma map_same:
  assumes "\<And>r. key (f r) = key r"
  shows "map key (map f rows) = map key rows" and "key ` set (map f rows) = key ` set rows"
  by (simp_all add: assms comp_def image_image)

lemma map_own_ok:
  assumes "tables_ok hash s" and "\<And>r. ownHash (f r) = ownHash r" and "\<And>r. own_row_ok hash r \<Longrightarrow> own_row_ok hash (f r)"
  shows "tables_ok hash (s\<lparr>ownKeyRows := map f (ownKeyRows s)\<rparr>)"
proof -
  have "\<forall>r \<in> set (map f (ownKeyRows s)). own_row_ok hash r" using assms(1,3) by (auto simp: tables_ok_def)
  then show ?thesis
    using assms(1) map_same [where key = ownHash and f = f, OF assms(2)] by (simp add: tables_ok_def del: map_map set_map)
qed

lemma map_contractor_ok:
  assumes "tables_ok hash s" and "\<And>r. ckHash (f r) = ckHash r"
  shows "tables_ok hash (s\<lparr>contractorKeyRows := map f (contractorKeyRows s)\<rparr>)"
  using assms(1) map_same [where key = ckHash and f = f, OF assms(2)] by (simp add: tables_ok_def del: map_map set_map)

lemma map_audit_ok:
  assumes "tables_ok hash s" and "\<And>r. arNumber (f r) = arNumber r" and "\<And>r. arLine (f r) = arLine r"
  shows "tables_ok hash (s\<lparr>auditRows := map f (auditRows s)\<rparr>)"
  using assms(1) map_same(1) [where key = "\<lambda>r. (arNumber r, arLine r)" and f = f] assms(2,3)
  by (simp add: tables_ok_def del: map_map set_map)

lemma invalidateOwn_keeps [keeps]: "tables_ok hash s \<Longrightarrow> tables_ok hash (snd (invalidateOwn P signature s))"
  unfolding invalidateOwn_def
  by (rule keeps_statement [where I = "tables_ok hash"]) (auto intro!: map_own_ok simp: own_row_ok_def)

lemma saveKey_contractor_keeps [keeps]:
  "tables_ok hash s \<Longrightarrow> tables_ok hash (snd (saveKey_contractor hash line keysSet key number s))"
  unfolding saveKey_contractor_def by (intro keeps_statement [where I = "tables_ok hash"]) (auto simp: tables_ok_def)

lemma invalidKey_contractor_keeps [keeps]: "tables_ok hash s \<Longrightarrow> tables_ok hash (snd (invalidKey_contractor line number s))"
  unfolding invalidKey_contractor_def
  by (rule keeps_statement [where I = "tables_ok hash"]) (auto intro!: map_contractor_ok)

lemma invalidKeyByHash_contractor_keeps [keeps]:
  "tables_ok hash s \<Longrightarrow> tables_ok hash (snd (invalidKeyByHash_contractor line keyHash s))"
  unfolding invalidKeyByHash_contractor_def
  by (rule keeps_statement [where I = "tables_ok hash"]) (auto intro!: map_contractor_ok)

lemma insertAudit_keeps [keeps]: "tables_ok hash s \<Longrightarrow> tables_ok hash (snd (insertAudit row s))"
  unfolding insertAudit_def by (intro keeps_statement [where I = "tables_ok hash"]) (auto simp: tables_ok_def)

lemma saveContractorAuditPart_db_keeps [keeps]:
  "tables_ok hash s \<Longrightarrow> tables_ok hash (snd (saveContractorAuditPart_db number line keyHash signature s))"
  unfolding saveContractorAuditPart_db_def
  by (rule keeps_statement [where I = "tables_ok hash"]) (auto intro!: map_audit_ok)

lemma delete_keeps [keeps]:
  assumes "tables_ok hash s"
  shows "tables_ok hash (snd (deleteRecords_audit line s))" and "tables_ok hash (snd (deleteAuditByNumber line number s))"
    and "tables_ok hash (snd (deleteIncoming P s))" and "tables_ok hash (snd (deleteOutgoing P s))"
    and "tables_ok hash (snd (deleteKeyByTransactionUUID transaction s))" and "tables_ok hash (snd (deleteRecords_vote transaction s))"
    and "tables_ok hash (snd (deleteRecord_payment transaction s))" and "tables_ok hash (snd (deleteRecord_transaction transaction s))"
  using assms
  by (auto simp: deleteRecords_audit_def deleteAuditByNumber_def deleteIncoming_def deleteOutgoing_def
      deleteKeyByTransactionUUID_def deleteRecords_vote_def deleteRecord_payment_def deleteRecord_transaction_def
      statement_def tables_ok_def distinct_map_filterI)

lemma saveRecord_keeps [keeps]:
  assumes "tables_ok hash s"
  shows "tables_ok hash (snd (saveRecord_incoming line number transaction keyHash amount signature s))"
    and "tables_ok hash (snd (saveRecord_outgoing line number transaction keyHash amount s))"
  using assms by (auto simp: saveRecord_incoming_def saveRecord_outgoing_def statement_def tables_ok_def receipt_key_def)

lemma savePayment_keeps [keeps]:
  assumes "tables_ok hash s"
  shows "tables_ok hash (snd (saveOwnKey_payment transaction key privateKey s))"
    and "tables_ok hash (snd (saveRecord_vote transaction contractor node key signature s))"
    and "tables_ok hash (snd (saveRecord_payment now transaction block s))"
    and "tables_ok hash (snd (updateTransactionState_payment transaction state s))"
    and "tables_ok hash (snd (saveRecord_transaction transaction body s))"
  using assms by (auto simp: saveOwnKey_payment_def saveRecord_vote_def saveRecord_payment_def
      updateTransactionState_payment_def saveRecord_transaction_def statement_def tables_ok_def distinct_map_filterI)

section \<open>Keychain\<close>

lemma generateKeys_keeps:
  assumes "\<And>i. length (randomNumbers i) = keySize"
  shows "tables_ok hash s \<Longrightarrow>
    tables_ok hash (snd (generateKeys hash line keysSet keyPairsCount idx failed attempt randomNumbers s))"
  using assms
proof (induction hash line keysSet keyPairsCount idx failed attempt randomNumbers s rule: generateKeys.induct)
  case (1 hash line keysSet keyPairsCount idx failed attempt randomNumbers s)
  let ?key = "newPrivateKey (randomNumbers attempt)"
  obtain r s' where save: "saveKey_own hash line keysSet (derivePublicKey hash ?key) ?key idx s = (r, s')" by (meson surj_pair)
  have ok: "tables_ok hash s'"
    using saveKey_own_keeps [OF "1.prems"(1), of "randomNumbers attempt" line keysSet idx] "1.prems"(2) save by simp
  show ?case
  proof (cases "idx < keyPairsCount")
    case less: True
    show ?thesis
    proof (cases r)
      case (Inl e)
      then show ?thesis
        using "1.IH"(1) [OF _ refl refl save [symmetric] Inl] less ok "1.prems" save
        by (subst generateKeys.simps) (simp add: Let_def)
    next
      case (Inr u)
      then show ?thesis
        using "1.IH"(2) [OF _ refl refl save [symmetric] Inr] less ok "1.prems" save
        by (subst generateKeys.simps) (simp add: Let_def)
    qed
  next
    case False
    then show ?thesis using "1.prems" by (subst generateKeys.simps) simp
  qed
qed

lemma generateKeyPairsSet_keeps:
  "tables_ok hash s \<Longrightarrow> (\<And>i. length (randomNumbers i) = keySize) \<Longrightarrow>
    tables_ok hash (snd (generateKeyPairsSet hash line keyPairsCount randomNumbers s))"
  by (auto simp: generateKeyPairsSet_def intro: generateKeys_keeps split: sum.split)

lemmas deleteNames =
  removeUnusedKeys_own_def deleteKeysByTrustLineID_own_def deleteKeyByHashExceptSequenceNumber_own_def
  removeUnusedKeys_contractor_def deleteKeysByTrustLineID_contractor_def deleteKeyByHashExceptSequenceNumber_contractor_def
  deleteByTransaction_incoming_def deleteByTransaction_outgoing_def deleteByLine_incoming_def deleteByLine_outgoing_def
  deleteByKey_incoming_def deleteByKey_outgoing_def invalidKey_own_def invalidKeyByHash_own_def
  saveFullAudit_db_def saveOwnAuditPart_db_def

lemma save_keeps [keeps]:
  assumes "tables_ok hash s"
  shows "tables_ok hash (snd (saveOutgoingReceipt line number transaction key amount signature s))"
    and "tables_ok hash (snd (saveIncomingReceipt line number transaction key amount signature s))"
    and "tables_ok hash (snd (saveFullAudit line number key signature key' signature' h h' incoming outgoing bal s))"
    and "tables_ok hash (snd (saveOwnAuditPart line number key signature h h' incoming outgoing bal s))"
    and "tables_ok hash (snd (saveContractorAuditPart line number key signature s))"
    and "tables_ok hash (snd (removeCancelledOwnAuditPart line s))"
  unfolding saveOutgoingReceipt_def saveIncomingReceipt_def saveFullAudit_def saveOwnAuditPart_def
    saveContractorAuditPart_def removeCancelledOwnAuditPart_def deleteNames
  by (rule ok_catching ok_bindS keeps assms | simp add: assms keeps | assumption)+

lemma accept_keeps [keeps]:
  assumes "tables_ok hash s"
  shows "tables_ok hash (snd (acceptAudit line audit s))"
    and "tables_ok hash (snd (acceptReceipts line incomings outgoings s))"
  unfolding acceptAudit_def acceptReceipts_def acceptIncomingReceipt_def acceptOutgoingReceipt_def deleteNames
  by (rule ok_inOrder ok_bindS keeps assms | simp add: assms keeps | assumption)+

lemma removeDecidedPayment_keeps [keeps]: "tables_ok hash s \<Longrightarrow> tables_ok hash (snd (removeDecidedPayment transaction s))"
  unfolding removeDecidedPayment_def by (rule ok_bindS | simp add: keeps | intro impI conjI | assumption)+

lemma removeOne_keeps [keeps]:
  assumes "tables_ok hash s"
  shows "tables_ok hash (snd (removeOutgoingReceipt keysSet receipt s))"
    and "tables_ok hash (snd (removeIncomingReceipt keysSet receipt s))"
    and "tables_ok hash (snd (removeAudit line keysSet keysSet' audit s))"
    and "tables_ok hash (snd (removeOwnKey keysSet keyHash s))"
    and "tables_ok hash (snd (removeContractorKey keysSet keyHash s))"
  unfolding removeOutgoingReceipt_def removeIncomingReceipt_def removeAudit_def removeOwnKey_def removeContractorKey_def
    deleteNames
  by (rule ok_bindS keeps assms | simp add: assms keeps | intro impI conjI | assumption)+

lemma removeOutdated_keeps [keeps]:
  assumes "tables_ok hash s"
  shows "tables_ok hash (snd (removeOutdatedKeys line keysSet keysSet' s))"
    and "tables_ok hash (snd (removeOutdatedCryptoData line number s))"
    and "tables_ok hash (snd (removeAllTrustLineData line s))"
  unfolding removeOutdatedKeys_def removeOutdatedCryptoData_def removeAllTrustLineData_def deleteNames
  by (rule ok_inOrder ok_bindS keeps assms | simp add: assms keeps | assumption)+

end
