(* ===== verification/Keychain_Laws.thy ===== *)
theory Keychain_Laws imports Crypto_Integrity begin

text \<open>
  What the keychains of the two ends of a trust line guarantee: the integrity of the tables over every sequence of
  operations, the acceptance of what the other end signs, the single use of a key, and what the operations for
  conflicts and for outdated data really do.
\<close>

section \<open>Sequences of operations\<close>

text \<open>The operations that change the tables, other than the generation of keys; each may return or throw.\<close>

inductive keychain_call :: "(Bytes \<Rightarrow> Bytes) \<Rightarrow> CryptoStore \<Rightarrow> CryptoStore \<Rightarrow> bool" for hash where
  contractorKey: "keychain_call hash s (snd (setContractorPublicKey hash line keysSet number key s))"
| unusedOwn: "keychain_call hash s (snd (removeUnusedOwnKeys line s))"
| unusedContractor: "keychain_call hash s (snd (removeUnusedContractorKeys line s))"
| outgoing: "keychain_call hash s (snd (saveOutgoingReceipt line number transaction key amount signature s))"
| incoming: "keychain_call hash s (snd (saveIncomingReceipt line number transaction key amount signature s))"
| fullAudit: "keychain_call hash s (snd (saveFullAudit line number key signature key' signature' h h' incoming outgoing bal s))"
| ownAudit: "keychain_call hash s (snd (saveOwnAuditPart line number key signature h h' incoming outgoing bal s))"
| contractorAudit: "keychain_call hash s (snd (saveContractorAuditPart line number key signature s))"
| cancelled: "keychain_call hash s (snd (removeCancelledOwnAuditPart line s))"
| acceptedAudit: "keychain_call hash s (snd (acceptAudit line audit s))"
| acceptedReceipts: "keychain_call hash s (snd (acceptReceipts line incomings outgoings s))"
| allData: "keychain_call hash s (snd (removeAllTrustLineData line s))"
| outdated: "keychain_call hash s (snd (removeOutdatedCryptoData line number s))"
| paymentKey: "keychain_call hash s (snd (generateAndSaveKeyPairForPaymentTransaction hash numbers transaction s))"
| payment: "keychain_call hash s (snd (saveRecord_payment now transaction block s))"
| vote: "keychain_call hash s (snd (saveRecord_vote transaction contractor node key signature s))"
| serialise: "keychain_call hash s (snd (saveRecord_transaction transaction body s))"
| forget: "keychain_call hash s (snd (deleteRecord_transaction transaction s))"

inductive keychain_step :: "(Bytes \<Rightarrow> Bytes) \<Rightarrow> CryptoStore \<Rightarrow> CryptoStore \<Rightarrow> bool" for hash where
  generate: "\<forall>i. length (randomNumbers i) = keySize \<Longrightarrow>
    keychain_step hash s (snd (generateKeyPairsSet hash line keyPairsCount randomNumbers s))"
| call: "keychain_call hash s t \<Longrightarrow> keychain_step hash s t"
| rollback: "tables_ok hash t \<Longrightarrow> keychain_step hash s t"

lemma keychain_call_ok: "keychain_call hash s t \<Longrightarrow> tables_ok hash s \<Longrightarrow> tables_ok hash t"
  by (induction rule: keychain_call.induct)
    (simp_all add: keeps setContractorPublicKey_def removeUnusedOwnKeys_def
      removeUnusedContractorKeys_def deleteNames generateAndSaveKeyPairForPaymentTransaction_def Let_def ok_bindS)

lemma keychain_step_ok: "keychain_step hash s t \<Longrightarrow> tables_ok hash s \<Longrightarrow> tables_ok hash t"
  by (induction rule: keychain_step.induct) (simp_all add: generateKeyPairsSet_keeps keychain_call_ok)

interpretation keychain: step_invariant "keychain_step hash" "tables_ok hash" for hash
  by unfold_locales (rule keychain_step_ok)

definition emptyStore :: "TrustLineID list \<Rightarrow> CryptoStore" where
  "emptyStore lines = \<lparr>lineRowIDs = lines, ownKeyRows = [], contractorKeyRows = [], auditRows = [],
     incomingReceiptRows = [], outgoingReceiptRows = [], paymentKeyRows = [], voteRows = [], paymentRows = [],
     transactionRows = [], engineFails = False\<rparr>"

lemma emptyStore_ok: "tables_ok hash (emptyStore lines)"
  by (simp add: tables_ok_def emptyStore_def)

section \<open>Single statements\<close>

lemma query_Inr: "query f s = Inr x \<longleftrightarrow> \<not> engineFails s \<and> f s = Inr x"
  by (simp add: query_def)

lemma statement_Inr: "statement f s = (Inr x, s') \<longleftrightarrow> \<not> engineFails s \<and> f s = (Inr x, s')"
  by (simp add: statement_def)

lemma orNotFound_Inr: "orNotFound m = Inr x \<longleftrightarrow> m = Some x"
  by (simp add: orNotFound_def split: option.split)

lemma firstBest_None [simp]: "firstBest better xs = None \<longleftrightarrow> xs = []"
  by (cases xs) (auto split: option.split)

lemma firstBest_in: "firstBest better xs = Some x \<Longrightarrow> x \<in> set xs"
  by (induction xs arbitrary: x) (auto split: option.splits if_splits)

lemmas ok_simps = query_Inr statement_Inr orNotFound_Inr bindS_eq_Inr bindR_eq_Inr

lemma catching_Inr_True: "catching errors False r = (Inr True, s) \<longleftrightarrow> r = (Inr True, s)"
  by (cases r; cases "fst r") (auto simp: catching_def)

text \<open>What the operations that use up a key do to the keys.\<close>

definition invalidated :: "TrustLineID \<Rightarrow> KeyNumber \<Rightarrow> Bytes \<Rightarrow> OwnKeyRow \<Rightarrow> OwnKeyRow" where
  "invalidated line number signature r =
     (if ownLine r = line \<and> ownNumber r = number then r\<lparr>ownValid := False, ownPrivate := signature\<rparr> else r)"

definition invalidated_contractor :: "TrustLineID \<Rightarrow> KeyNumber \<Rightarrow> ContractorKeyRow \<Rightarrow> ContractorKeyRow" where
  "invalidated_contractor line number r = (if ckLine r = line \<and> ckNumber r = number then r\<lparr>ckValid := False\<rparr> else r)"

lemma invalidated_valid:
  "ownValid (invalidated line number signature r) \<Longrightarrow>
    invalidated line number signature r = r \<and> \<not> (ownLine r = line \<and> ownNumber r = number)"
  unfolding invalidated_def by (cases "ownLine r = line"; cases "ownNumber r = number") simp_all

text \<open>An end has saved a signature of its own: of an audit it starts, of a receipt, of an audit it countersigns.\<close>

inductive ownSaved :: "TrustLineID \<Rightarrow> KeyNumber \<Rightarrow> Bytes \<Rightarrow> CryptoStore \<Rightarrow> CryptoStore \<Rightarrow> bool" where
  "saveOwnAuditPart line number key signature h h' incoming outgoing bal s = (Inr (), t) \<Longrightarrow> ownSaved line key signature s t"
| "saveOutgoingReceipt line number transaction key amount signature s = (Inr True, t) \<Longrightarrow> ownSaved line key signature s t"
| "saveFullAudit line number key signature key' signature' h h' incoming outgoing bal s = (Inr (), t) \<Longrightarrow>
    ownSaved line key signature s t"

text \<open>An end has saved a signature of its contractor: the answer to its audit, a receipt, an audit it countersigns.\<close>

inductive contractorSaved :: "TrustLineID \<Rightarrow> KeyNumber \<Rightarrow> Bytes \<Rightarrow> CryptoStore \<Rightarrow> CryptoStore \<Rightarrow> bool" where
  "saveContractorAuditPart line number key signature s = (Inr (), t) \<Longrightarrow> contractorSaved line key signature s t"
| "saveIncomingReceipt line number transaction key amount signature s = (Inr True, t) \<Longrightarrow> contractorSaved line key signature s t"
| "saveFullAudit line number key' signature' key signature h h' incoming outgoing bal s = (Inr (), t) \<Longrightarrow>
    contractorSaved line key signature s t"

lemma ownSaved_rows:
  "ownSaved line key signature s t \<Longrightarrow>
    ownKeyRows t = map (invalidated line key signature) (ownKeyRows s) \<and> engineFails t = engineFails s"
  by (induction rule: ownSaved.induct)
    (auto simp: saveOwnAuditPart_def saveOutgoingReceipt_def saveFullAudit_def catching_Inr_True ok_simps saveOwnAuditPart_db_def
      saveFullAudit_db_def insertAudit_def saveRecord_outgoing_def invalidKey_own_def invalidateOwn_def invalidated_def
      invalidKey_contractor_def split: if_splits)

lemma ownSaved_valid:
  assumes "ownSaved line key signature s t" and "r \<in> set (ownKeyRows t)" and "ownValid r"
  shows "r \<in> set (ownKeyRows s) \<and> \<not> (ownLine r = line \<and> ownNumber r = key)"
proof -
  have "ownKeyRows t = map (invalidated line key signature) (ownKeyRows s)" using ownSaved_rows [OF assms(1)] by blast
  then obtain r' where "r' \<in> set (ownKeyRows s)" "r = invalidated line key signature r'" using assms(2) by auto
  then show ?thesis using invalidated_valid [of line key signature r'] assms(3) by simp
qed

lemma contractorSaved_rows:
  "contractorSaved line key signature s t \<Longrightarrow>
    contractorKeyRows t = map (invalidated_contractor line key) (contractorKeyRows s) \<and> engineFails t = engineFails s"
  by (induction rule: contractorSaved.induct)
    (auto simp: saveContractorAuditPart_def saveIncomingReceipt_def saveFullAudit_def catching_Inr_True ok_simps
      saveContractorAuditPart_db_def saveFullAudit_db_def insertAudit_def saveRecord_incoming_def invalidKey_own_def
      invalidateOwn_def invalidKey_contractor_def invalidated_contractor_def split: if_splits)

lemma ownSaved_call: "ownSaved line key signature s t \<Longrightarrow> keychain_call hash s t"
  by (erule ownSaved.cases) (metis keychain_call.intros snd_conv)+

lemma contractorSaved_call: "contractorSaved line key signature s t \<Longrightarrow> keychain_call hash s t"
  by (erule contractorSaved.cases) (metis keychain_call.intros snd_conv)+

lemmas ownSaved_ok = keychain_call_ok [OF ownSaved_call]

lemma sign_row:
  assumes "sign hash line message s = Inr (signature, number)"
  obtains r where "r \<in> set (ownKeyRows s)" and "ownLine r = line" and "ownValid r" and "ownNumber r = number"
    and "nextAvailableKey line s = Inr (newPrivateKey (ownPrivate r), number)" and "signature = collectSignature (mData (newPrivateKey (ownPrivate r))) (hash message)" and "\<not> engineFails s"
proof -
  obtain key where key: "nextAvailableKey line s = Inr (key, number)"
    and signed: "bindR (notNull (newSignature hash message key)) (\<lambda>(signature, _). Inr (signature, number)) = Inr (signature, number)"
    using assms by (auto simp: sign_def ok_simps notNull_def split: option.splits)
  obtain r where r: "firstBest (\<lambda>r' r. ownNumber r' <s ownNumber r) (filter (\<lambda>r. ownLine r = line \<and> ownValid r) (ownKeyRows s)) = Some r"
    and eq: "key = newPrivateKey (ownPrivate r)" "ownNumber r = number" and "\<not> engineFails s"
    using key by (auto simp: nextAvailableKey_def ok_simps)
  have "signature = collectSignature (mData key) (hash message)"
    using signed by (auto simp: newSignature_def notNull_def bindR_def split: if_splits option.splits)
  then show thesis using that [of r] firstBest_in [OF r] eq key \<open>\<not> engineFails s\<close> by auto
qed

section \<open>Two ends\<close>

text \<open>Every key that may still sign on one end is known, under its number, on the other one. A line without such keys
  agrees with anything.\<close>

definition keys_agree :: "TrustLineID \<Rightarrow> CryptoStore \<Rightarrow> TrustLineID \<Rightarrow> CryptoStore \<Rightarrow> bool" where
  "keys_agree lineA a lineB b \<longleftrightarrow>
     (\<forall>r \<in> set (ownKeyRows a). ownLine r = lineA \<and> ownValid r \<longrightarrow>
        map_option ckPublic (find (\<lambda>c. ckLine c = lineB \<and> ckNumber c = ownNumber r \<and> ckValid c) (contractorKeyRows b)) =
          Some (ownPublic r))"

text \<open>The number is used up: no key of the line that may sign has it.\<close>

definition number_spent :: "TrustLineID \<Rightarrow> KeyNumber \<Rightarrow> CryptoStore \<Rightarrow> bool" where
  "number_spent line number s \<longleftrightarrow> (\<forall>r \<in> set (ownKeyRows s). ownLine r = line \<and> ownNumber r = number \<longrightarrow> \<not> ownValid r)"

definition signing_keys :: "TrustLineID \<Rightarrow> CryptoStore \<Rightarrow> OwnKeyRow set" where
  "signing_keys line s = {r \<in> set (ownKeyRows s). ownLine r = line \<and> ownValid r}"

definition checking_keys :: "TrustLineID \<Rightarrow> CryptoStore \<Rightarrow> ContractorKeyRow list" where
  "checking_keys line s = filter (\<lambda>c. ckLine c = line \<and> ckValid c) (contractorKeyRows s)"

text \<open>
  The two ends of a line, \<open>a\<close> signing and \<open>b\<close> checking. \<open>signs\<close>: the first one signs and saves an audit, a receipt or the
  audit it countersigns. \<open>receives\<close>: the other one saves a signature under a number that the first one has used up, as the
  answer to its audit, a receipt or the audit it countersigns; the message may be late, and it may be lost. \<open>shares\<close>: a new
  set of keys, as PublicKeysSharingSourceTransaction and PublicKeysSharingTargetTransaction exchange it: the unused keys go on
  both ends, a set is generated, and the other end saves the public keys that the first one reads by number from zero, until it
  has them all; nothing is signed in between, since the own keys are not present then. \<open>rest\<close>: any other
  operation of the keychain of either end (or a rollback) that makes no key able to sign and takes no key to check with: the saves of
  signatures in the other direction, audits cancelled, payments, votes, other lines, outdated data.
\<close>

inductive exchange_step :: "(Bytes \<Rightarrow> Bytes) \<Rightarrow> TrustLineID \<Rightarrow> TrustLineID \<Rightarrow> CryptoStore \<times> CryptoStore \<Rightarrow>
    CryptoStore \<times> CryptoStore \<Rightarrow> bool" for hash lineA lineB where
  signs: "sign hash lineA message a = Inr (signature, number) \<Longrightarrow> ownSaved lineA number signature a a' \<Longrightarrow>
    exchange_step hash lineA lineB (a, b) (a', b)"
| receives: "number_spent lineA number a \<Longrightarrow> contractorSaved lineB number signature b b' \<Longrightarrow>
    exchange_step hash lineA lineB (a, b) (a, b')"
| shares: "removeUnusedOwnKeys lineA a = (Inr (), a1) \<Longrightarrow> \<forall>i. length (randomNumbers i) = keySize \<Longrightarrow>
    generateKeyPairsSet hash lineA keysCount randomNumbers a1 = (Inr (), a') \<Longrightarrow>
    removeUnusedContractorKeys lineB b = (Inr (), b1) \<Longrightarrow>
    map fst sent = map of_nat [0..<unat keysCount] \<Longrightarrow>
    \<forall>(number, key) \<in> set sent. publicKey_keychain lineA number a' = Inr (Some key) \<Longrightarrow>
    inOrder (\<lambda>(number, key). setContractorPublicKey hash lineB keysSet number key) sent b1 = (Inr (), b') \<Longrightarrow>
    exchange_step hash lineA lineB (a, b) (a', b')"
| rest_a: "keychain_step hash a a' \<Longrightarrow> signing_keys lineA a' \<subseteq> signing_keys lineA a \<Longrightarrow>
    exchange_step hash lineA lineB (a, b) (a', b)"
| rest_b: "keychain_step hash b b' \<Longrightarrow> checking_keys lineB b' = checking_keys lineB b \<Longrightarrow>
    engineFails b' = engineFails b \<Longrightarrow> exchange_step hash lineA lineB (a, b) (a, b')"

definition ends_ok :: "(Bytes \<Rightarrow> Bytes) \<Rightarrow> TrustLineID \<Rightarrow> TrustLineID \<Rightarrow> CryptoStore \<times> CryptoStore \<Rightarrow> bool" where
  "ends_ok hash lineA lineB s \<longleftrightarrow>
     tables_ok hash (fst s) \<and> keys_agree lineA (fst s) lineB (snd s) \<and> \<not> engineFails (snd s)"

lemma find_map_other:
  "(\<And>c. P c \<Longrightarrow> f c = c) \<Longrightarrow> (\<And>c. \<not> P c \<Longrightarrow> \<not> P (f c)) \<Longrightarrow> find P (map f cs) = find P cs"
  by (induction cs) auto

lemma find_checking:
  "find (\<lambda>c. ckLine c = line \<and> ckNumber c = number \<and> ckValid c) (contractorKeyRows s) =
   find (\<lambda>c. ckNumber c = number) (checking_keys line s)"
proof -
  have "find (\<lambda>c. ckLine c = line \<and> ckNumber c = number \<and> ckValid c) cs =
      find (\<lambda>c. ckNumber c = number) (filter (\<lambda>c. ckLine c = line \<and> ckValid c) cs)" for cs
    by (induction cs) auto
  then show ?thesis unfolding checking_keys_def by blast
qed

lemma keys_agree_iff:
  "keys_agree lineA a lineB b \<longleftrightarrow> (\<forall>r \<in> signing_keys lineA a.
     map_option ckPublic (find (\<lambda>c. ckNumber c = ownNumber r) (checking_keys lineB b)) = Some (ownPublic r))"
  unfolding keys_agree_def find_checking signing_keys_def by auto

lemma find_only: "x \<in> set xs \<Longrightarrow> P x \<Longrightarrow> (\<And>y. y \<in> set xs \<Longrightarrow> P y \<Longrightarrow> y = x) \<Longrightarrow> find P xs = Some x"
proof (induction xs)
  case (Cons a xs)
  show ?case
  proof (cases "P a")
    case True
    then have "a = x" using Cons.prems(3) [of a] by simp
    then show ?thesis using True by simp
  next
    case False
    then have "x \<in> set xs" using Cons.prems(1,2) by auto
    then have "find P xs = Some x" using Cons.IH Cons.prems(2,3) by (meson list.set_intros(2))
    then show ?thesis using False by simp
  qed
qed simp

text \<open>The keys a generation adds.\<close>

lemma generateKeys_new:
  "generateKeys hash line keysSet keyPairsCount idx failed attempt randomNumbers s = (Inr (), t) \<Longrightarrow>
    \<exists>new. ownKeyRows t = ownKeyRows s @ new \<and> map ownNumber new = map of_nat [unat idx..<unat keyPairsCount] \<and>
      (\<forall>r \<in> set new. ownLine r = line \<and> ownValid r)"
proof (induction hash line keysSet keyPairsCount idx failed attempt randomNumbers s rule: generateKeys.induct)
  case (1 hash line keysSet keyPairsCount idx failed attempt randomNumbers s)
  let ?key = "newPrivateKey (randomNumbers attempt)"
  obtain res s' where save: "saveKey_own hash line keysSet (derivePublicKey hash ?key) ?key idx s = (res, s')" by (meson surj_pair)
  show ?case
  proof (cases "idx < keyPairsCount")
    case False
    then have "unat keyPairsCount \<le> unat idx" by (simp add: word_le_nat_alt not_less)
    then show ?thesis using "1.prems" False by (subst (asm) generateKeys.simps) simp
  next
    case less: True
    show ?thesis
    proof (cases res)
      case (Inl e)
      then have "s' = s" using save by (auto simp: saveKey_own_def statement_def split: if_splits)
      moreover have "generateKeys hash line keysSet keyPairsCount idx (failed + 1) (attempt + 1) randomNumbers s' = (Inr (), t)"
        and "\<not> (e \<noteq> IOError \<or> 3 \<le> failed + 1)"
        using "1.prems" less save Inl by (subst (asm) generateKeys.simps, simp add: Let_def split: if_splits)+
      ultimately show ?thesis using "1.IH"(1) [OF _ refl refl save [symmetric] Inl] less by auto
    next
      case (Inr u)
      then have "ownKeyRows s' = ownKeyRows s @ [\<lparr>ownHash = publicKeyHashOf hash (derivePublicKey hash ?key), ownLine = line,
          ownSet = keysSet, ownPublic = derivePublicKey hash ?key, ownPrivate = mData ?key, ownNumber = idx, ownValid = True\<rparr>]"
        using save by (auto simp: saveKey_own_def statement_def split: if_splits)
      moreover have rest: "generateKeys hash line keysSet keyPairsCount (idx + 1) failed (attempt + 1) randomNumbers s' = (Inr (), t)"
        using "1.prems" less save Inr by (subst (asm) generateKeys.simps) (simp add: Let_def)
      moreover obtain new where "ownKeyRows t = ownKeyRows s' @ new"
        "map ownNumber new = map of_nat [unat (idx + 1)..<unat keyPairsCount]" "\<forall>r \<in> set new. ownLine r = line \<and> ownValid r"
        using "1.IH"(2) [OF _ refl refl save [symmetric] Inr rest] less by auto
      moreover have "unat (idx + 1) = Suc (unat idx)" "unat idx < unat keyPairsCount"
        using unat_next [OF less] less by (simp_all add: word_less_nat_alt)
      ultimately show ?thesis
        by (intro exI [of _ "\<lparr>ownHash = publicKeyHashOf hash (derivePublicKey hash ?key), ownLine = line,
          ownSet = keysSet, ownPublic = derivePublicKey hash ?key, ownPrivate = mData ?key, ownNumber = idx, ownValid = True\<rparr> # new"])
          (simp add: upt_conv_Cons)
    qed
  qed
qed

lemma saved_keys:
  "inOrder (\<lambda>(number, key). setContractorPublicKey hash line keysSet number key) sent b = (Inr (), b') \<Longrightarrow>
    \<exists>new. contractorKeyRows b' = contractorKeyRows b @ new \<and> map (\<lambda>c. (ckNumber c, ckPublic c)) new = sent \<and>
      (\<forall>c \<in> set new. ckLine c = line \<and> ckValid c) \<and> engineFails b' = engineFails b"
proof (induction sent arbitrary: b)
  case (Cons x sent)
  obtain number key where x: "x = (number, key)" by (cases x)
  obtain b1 where first: "setContractorPublicKey hash line keysSet number key b = (Inr (), b1)"
    and rest: "inOrder (\<lambda>(number, key). setContractorPublicKey hash line keysSet number key) sent b1 = (Inr (), b')"
    using Cons.prems by (auto simp: x bindS_eq_Inr)
  obtain new where "contractorKeyRows b' = contractorKeyRows b1 @ new" "map (\<lambda>c. (ckNumber c, ckPublic c)) new = sent"
    "\<forall>c \<in> set new. ckLine c = line \<and> ckValid c" "engineFails b' = engineFails b1"
    using Cons.IH [OF rest] by blast
  then show ?case
    using first
    by (intro exI [of _ "\<lparr>ckHash = publicKeyHashOf hash key, ckLine = line, ckSet = keysSet, ckPublic = key,
         ckNumber = number, ckValid = True\<rparr> # new"])
      (auto simp: x setContractorPublicKey_def saveKey_contractor_def statement_def split: if_splits)
qed simp

lemma shares_agree:
  assumes "removeUnusedOwnKeys lineA a = (Inr (), a1)"
    and "generateKeyPairsSet hash lineA keysCount randomNumbers a1 = (Inr (), a')"
    and "removeUnusedContractorKeys lineB b = (Inr (), b1)"
    and "map fst sent = map of_nat [0..<unat keysCount]"
    and "\<forall>(number, key) \<in> set sent. publicKey_keychain lineA number a' = Inr (Some key)"
    and "inOrder (\<lambda>(number, key). setContractorPublicKey hash lineB keysSet number key) sent b1 = (Inr (), b')"
  shows "keys_agree lineA a' lineB b' \<and> engineFails b' = engineFails b"
proof -
  have a1: "signing_keys lineA a1 = {}"
    using assms(1) by (auto simp: removeUnusedOwnKeys_def removeUnusedKeys_own_def deleteOwnKeys_def statement_def
        signing_keys_def split: if_splits)
  have b1: "checking_keys lineB b1 = []" "engineFails b1 = engineFails b"
    using assms(3) by (auto simp: removeUnusedContractorKeys_def removeUnusedKeys_contractor_def deleteContractorKeys_def
        statement_def checking_keys_def filter_empty_conv split: if_splits)
  obtain n where "generateKeys hash lineA n keysCount 0 0 0 randomNumbers a1 = (Inr (), a')"
    using assms(2) by (auto simp: generateKeyPairsSet_def split: sum.splits if_splits)
  then obtain new where new: "ownKeyRows a' = ownKeyRows a1 @ new" "map ownNumber new = map of_nat [0..<unat keysCount]"
    "\<forall>r \<in> set new. ownLine r = lineA \<and> ownValid r"
    using generateKeys_new by fastforce
  obtain saved where saved: "contractorKeyRows b' = contractorKeyRows b1 @ saved"
    "map (\<lambda>c. (ckNumber c, ckPublic c)) saved = sent" "\<forall>c \<in> set saved. ckLine c = lineB \<and> ckValid c" "engineFails b' = engineFails b1"
    using saved_keys [OF assms(6)] by blast
  have checks: "checking_keys lineB b' = saved" using saved(1,3) b1(1) by (simp add: checking_keys_def)
  have signers: "signing_keys lineA a' = set new" using new(1,3) a1 by (auto simp: signing_keys_def)
  have dist: "distinct (map of_nat [0..<unat keysCount] :: KeyNumber list)"
    unfolding distinct_map
  proof (intro conjI inj_onI)
    fix i j assume "i \<in> set [0..<unat keysCount]" "j \<in> set [0..<unat keysCount]" "(of_nat i :: KeyNumber) = of_nat j"
    moreover have "unat keysCount < 2 ^ LENGTH(32)" by (rule unsigned_less)
    then have "unat (of_nat k :: KeyNumber) = k" if "k < unat keysCount" for k
      using that by (simp add: unat_of_nat)
    ultimately show "i = j" by (metis atLeastLessThan_iff set_upt)
  qed simp
  have "map_option ckPublic (find (\<lambda>c. ckNumber c = ownNumber r) saved) = Some (ownPublic r)" if r: "r \<in> set new" for r
  proof -
    have "ownNumber r \<in> set (map fst sent)" using new(2) assms(4) r by (metis image_eqI set_map)
    then obtain key where key: "(ownNumber r, key) \<in> set sent" by auto
    have "find (\<lambda>r'. ownLine r' = lineA \<and> ownNumber r' = ownNumber r \<and> ownValid r') (ownKeyRows a') = Some r"
    proof -
      have 1: "find (\<lambda>r'. ownLine r' = lineA \<and> ownNumber r' = ownNumber r \<and> ownValid r') (ownKeyRows a1) = None"
        using a1 by (auto simp: find_None_iff signing_keys_def)
      have inj: "inj_on ownNumber (set new)" using new(2) dist by (metis distinct_map)
      have 2: "find (\<lambda>r'. ownLine r' = lineA \<and> ownNumber r' = ownNumber r \<and> ownValid r') new = Some r"
        using r new(3) inj by (intro find_only) (auto simp: inj_on_def)
      have "find P (xs @ ys) = (case find P xs of None \<Rightarrow> find P ys | Some y \<Rightarrow> Some y)" for P :: "OwnKeyRow \<Rightarrow> bool" and xs ys
        by (induction xs) auto
      then show ?thesis using 1 2 new(1) by simp
    qed
    then have "key = ownPublic r"
      using assms(5) key by (auto simp: publicKey_keychain_def getPublicKey_def query_def orNotFound_def split: if_splits sum.splits)
    then have in_saved: "(ownNumber r, ownPublic r) \<in> set (map (\<lambda>c. (ckNumber c, ckPublic c)) saved)" using key saved(2) by simp
    have "inj_on ckNumber (set saved)"
      using saved(2) assms(4) dist by (metis (no_types, lifting) comp_def distinct_map fst_conv map_eq_conv map_map)
    moreover obtain c where c: "c \<in> set saved" "ckNumber c = ownNumber r" "ckPublic c = ownPublic r"
      using in_saved by auto
    ultimately have "find (\<lambda>c. ckNumber c = ownNumber r) saved = Some c"
      by (intro find_only) (auto simp: inj_on_def)
    then show ?thesis using c(3) by simp
  qed
  then show ?thesis using checks signers saved(4) b1(2) by (simp add: keys_agree_iff)
qed

lemma exchange_step_ok: "exchange_step hash lineA lineB s t \<Longrightarrow> ends_ok hash lineA lineB s \<Longrightarrow> ends_ok hash lineA lineB t"
proof (induction rule: exchange_step.induct)
  case (signs message a signature number a' b)
  have "r \<in> set (ownKeyRows a)" if "r \<in> set (ownKeyRows a')" "ownLine r = lineA" "ownValid r" for r
    using ownSaved_valid [OF signs(2)] that by blast
  then show ?case
    using signs(3) ownSaved_ok [OF signs(2)] by (simp add: ends_ok_def keys_agree_def)
next
  case (receives number a signature b b')
  have "find (\<lambda>c. ckLine c = lineB \<and> ckNumber c = ownNumber r \<and> ckValid c) (contractorKeyRows b') =
      find (\<lambda>c. ckLine c = lineB \<and> ckNumber c = ownNumber r \<and> ckValid c) (contractorKeyRows b)"
    if "r \<in> set (ownKeyRows a)" "ownLine r = lineA" "ownValid r" for r
  proof -
    have "ownNumber r \<noteq> number" using receives(1) that unfolding number_spent_def by blast
    have rows: "contractorKeyRows b' = map (invalidated_contractor lineB number) (contractorKeyRows b)"
      using contractorSaved_rows [OF receives(2)] by blast
    show ?thesis
      unfolding rows
      by (rule find_map_other) (use \<open>ownNumber r \<noteq> number\<close> in \<open>auto simp: invalidated_contractor_def split: if_splits\<close>)
  qed
  then show ?case
    using receives contractorSaved_rows [OF receives(2)] by (auto simp: ends_ok_def keys_agree_def)
next
  case (shares a a1 randomNumbers keysCount a' b b1 sent keysSet b')
  have "tables_ok hash a1"
    using keychain_call_ok [OF keychain_call.unusedOwn [of hash a lineA]] shares.hyps(1) shares.prems by (simp add: ends_ok_def)
  then have "tables_ok hash a'"
    using generateKeyPairsSet_keeps [of hash a1 randomNumbers lineA keysCount] shares.hyps(2,3) by simp
  then show ?case using shares_agree [OF shares.hyps(1,3-7)] shares.prems by (simp add: ends_ok_def)
next
  case (rest_a a a' b)
  then show ?case using keychain_step_ok [OF rest_a(1)] by (auto simp: ends_ok_def keys_agree_iff)
next
  case (rest_b b b' a)
  then show ?case by (auto simp: ends_ok_def keys_agree_iff)
qed

interpretation exchange: step_invariant "exchange_step hash lineA lineB" "ends_ok hash lineA lineB" for hash lineA lineB
  by unfold_locales (rule exchange_step_ok)

lemma agreed_accepts:
  assumes "hash32 hash" and "ends_ok hash lineA lineB (a, b)" and "message \<noteq> []"
    and "sign hash lineA message a = Inr (signature, number)"
  shows "checkSign_keychain hash lineB message signature number b"
proof -
  obtain r where r: "r \<in> set (ownKeyRows a)" "ownLine r = lineA" "ownValid r" "ownNumber r = number"
    and signature: "signature = collectSignature (mData (newPrivateKey (ownPrivate r))) (hash message)"
    using sign_row [OF assms(4)] by metis
  have row: "length (ownPrivate r) = keySize" "ownPublic r = derivePublicKey hash (newPrivateKey (ownPrivate r))"
    using assms(2) r by (auto simp: ends_ok_def tables_ok_def own_row_ok_def)
  have "keyByNumber lineB number b = Inr (ownPublic r)"
    using assms(2) r by (auto simp: ends_ok_def keys_agree_def keyByNumber_def ok_simps)
  moreover have "checkSignature hash signature message (ownPublic r)"
    using own_signature_checks [OF assms(1) row(1) assms(3)] unfolding row(2) signature by blast
  ultimately show ?thesis by (simp add: checkSign_keychain_def)
qed

text \<open>C5: what one end of a trust line signs, the other one accepts. Take any state of the two ends in which every key that
  may still sign on the first one is known under its number on the second one, as on a line without keys, and any sequence of
  audits and receipts that the first end starts or countersigns, of their saving on the other end, with messages late or
  lost, of complete exchanges of new key sets, and of other operations of the two keychains that bring no new signing
  key to the first end and take no key from the second: when the first end signs, the second one finds the
  key under the number and accepts the signature.\<close>

theorem signed_is_accepted:
  assumes "hash32 hash" and "ends_ok hash lineA lineB (a, b)" and "(exchange_step hash lineA lineB)\<^sup>*\<^sup>* (a, b) (a', b')"
    and "message \<noteq> []" and "sign hash lineA message a' = Inr (signature, number)"
  shows "checkSign_keychain hash lineB message signature number b'"
  by (rule agreed_accepts [OF assms(1) exchange.steps_inv [OF assms(3,2)] assms(4,5)])

section \<open>A key signs once\<close>

text \<open>The keys with the given hashes cannot sign any more.\<close>

definition retired :: "Bytes set \<Rightarrow> CryptoStore \<Rightarrow> bool" where
  "retired H s \<longleftrightarrow> (\<forall>r \<in> set (ownKeyRows s). ownHash r \<in> H \<longrightarrow> \<not> ownValid r)"

named_theorems retires \<open>operations that let no retired key sign again\<close>

lemmas retired_bindS = keeps_bindS [where I = "retired H" for H]
lemmas retired_catching = keeps_catching [where I = "retired H" for H]
lemmas retired_inOrder = keeps_inOrder [where I = "retired H" for H]

lemma retired_keys [retires]:
  assumes "retired H s"
  shows "retired H (snd (deleteOwnKeys P s))" and "retired H (snd (invalidateOwn P signature s))"
    and "retired H (snd (deleteContractorKeys Q s))" and "retired H (snd (saveKey_contractor hash line keysSet key number s))"
    and "retired H (snd (invalidKey_contractor line number s))" and "retired H (snd (invalidKeyByHash_contractor line keyHash s))"
  using assms
  by (auto simp: retired_def deleteOwnKeys_def invalidateOwn_def deleteContractorKeys_def saveKey_contractor_def
      invalidKey_contractor_def invalidKeyByHash_contractor_def statement_def)

lemma retired_rows [retires]:
  assumes "retired H s"
  shows "retired H (snd (insertAudit row s))" and "retired H (snd (saveContractorAuditPart_db number line keyHash signature s))"
    and "retired H (snd (deleteRecords_audit line s))" and "retired H (snd (deleteAuditByNumber line number s))"
    and "retired H (snd (deleteIncoming C s))" and "retired H (snd (deleteOutgoing C s))"
    and "retired H (snd (deleteKeyByTransactionUUID transaction s))" and "retired H (snd (deleteRecords_vote transaction s))"
    and "retired H (snd (deleteRecord_payment transaction s))" and "retired H (snd (deleteRecord_transaction transaction s))"
    and "retired H (snd (saveRecord_incoming line number transaction keyHash amount signature s))"
    and "retired H (snd (saveRecord_outgoing line number transaction keyHash amount s))"
    and "retired H (snd (saveOwnKey_payment transaction key privateKey s))"
    and "retired H (snd (saveRecord_vote transaction contractor node key signature s))"
    and "retired H (snd (saveRecord_payment now transaction block s))"
    and "retired H (snd (saveRecord_transaction transaction body s))"
  using assms
  by (auto simp: retired_def insertAudit_def saveContractorAuditPart_db_def deleteRecords_audit_def deleteAuditByNumber_def
      deleteIncoming_def deleteOutgoing_def deleteKeyByTransactionUUID_def deleteRecords_vote_def deleteRecord_payment_def
      deleteRecord_transaction_def saveRecord_incoming_def saveRecord_outgoing_def saveOwnKey_payment_def saveRecord_vote_def
      saveRecord_payment_def saveRecord_transaction_def statement_def)

lemma retired_saves [retires]:
  assumes "retired H s"
  shows "retired H (snd (saveOutgoingReceipt line number transaction key amount signature s))"
    and "retired H (snd (saveIncomingReceipt line number transaction key amount signature s))"
    and "retired H (snd (saveFullAudit line number key signature key' signature' h h' incoming outgoing bal s))"
    and "retired H (snd (saveOwnAuditPart line number key signature h h' incoming outgoing bal s))"
    and "retired H (snd (saveContractorAuditPart line number key signature s))"
    and "retired H (snd (removeCancelledOwnAuditPart line s))"
    and "retired H (snd (acceptAudit line audit s))"
    and "retired H (snd (acceptReceipts line incomings outgoings s))"
  unfolding saveOutgoingReceipt_def saveIncomingReceipt_def saveFullAudit_def saveOwnAuditPart_def
    saveContractorAuditPart_def removeCancelledOwnAuditPart_def acceptAudit_def acceptReceipts_def acceptIncomingReceipt_def
    acceptOutgoingReceipt_def deleteNames
  by (rule retired_catching retired_inOrder retired_bindS retires assms | simp add: assms retires | assumption)+

lemma retired_decided [retires]: "retired H s \<Longrightarrow> retired H (snd (removeDecidedPayment transaction s))"
  unfolding removeDecidedPayment_def by (rule retired_bindS | simp add: retires | intro impI conjI | assumption)+

lemma retired_removeOne [retires]:
  assumes "retired H s"
  shows "retired H (snd (removeOutgoingReceipt keysSet receipt s))"
    and "retired H (snd (removeIncomingReceipt keysSet receipt s))"
    and "retired H (snd (removeAudit line keysSet keysSet' audit s))"
    and "retired H (snd (removeOwnKey keysSet keyHash s))"
    and "retired H (snd (removeContractorKey keysSet keyHash s))"
  unfolding removeOutgoingReceipt_def removeIncomingReceipt_def removeAudit_def removeOwnKey_def removeContractorKey_def
    deleteNames
  by (rule retired_bindS retires assms | simp add: assms retires | intro impI conjI | assumption)+

lemma retired_outdated [retires]:
  assumes "retired H s"
  shows "retired H (snd (removeOutdatedKeys line keysSet keysSet' s))"
    and "retired H (snd (removeOutdatedCryptoData line number s))"
    and "retired H (snd (removeAllTrustLineData line s))"
  unfolding removeOutdatedKeys_def removeOutdatedCryptoData_def removeAllTrustLineData_def deleteNames
  by (rule retired_inOrder retired_bindS retires assms | simp add: assms retires | assumption)+

lemma retired_call: "keychain_call hash s t \<Longrightarrow> retired H s \<Longrightarrow> retired H t"
  by (induction rule: keychain_call.induct)
    (simp_all add: retires setContractorPublicKey_def removeUnusedOwnKeys_def
      removeUnusedContractorKeys_def deleteNames generateAndSaveKeyPairForPaymentTransaction_def Let_def retired_bindS)

lemma retired_generateKeys:
  assumes "\<And>i. publicKeyHashOf hash (derivePublicKey hash (newPrivateKey (randomNumbers i))) \<notin> H"
  shows "retired H s \<Longrightarrow>
    retired H (snd (generateKeys hash line keysSet keyPairsCount idx failed attempt randomNumbers s))"
  using assms
proof (induction hash line keysSet keyPairsCount idx failed attempt randomNumbers s rule: generateKeys.induct)
  case (1 hash line keysSet keyPairsCount idx failed attempt randomNumbers s)
  let ?key = "newPrivateKey (randomNumbers attempt)"
  obtain r s' where save: "saveKey_own hash line keysSet (derivePublicKey hash ?key) ?key idx s = (r, s')" by (meson surj_pair)
  have ok: "retired H s'"
    using "1.prems"(1,2) save by (auto simp: saveKey_own_def statement_def retired_def split: if_splits)
  show ?case
  proof (cases "idx < keyPairsCount")
    case less: True
    show ?thesis
    proof (cases r)
      case (Inl e)
      then show ?thesis
        using "1.IH"(1) [OF _ refl refl save [symmetric] Inl] less ok "1.prems" save
        by (subst generateKeys.simps) (simp add: Let_def)
    next
      case (Inr u)
      then show ?thesis
        using "1.IH"(2) [OF _ refl refl save [symmetric] Inr] less ok "1.prems" save
        by (subst generateKeys.simps) (simp add: Let_def)
    qed
  next
    case False
    then show ?thesis using "1.prems" by (subst generateKeys.simps) simp
  qed
qed

text \<open>The operations of a keychain; a new key set may repeat numbers, but it draws none of the given keys again.\<close>

inductive key_step :: "(Bytes \<Rightarrow> Bytes) \<Rightarrow> Bytes set \<Rightarrow> CryptoStore \<Rightarrow> CryptoStore \<Rightarrow> bool" for hash H where
  generated: "\<forall>i. publicKeyHashOf hash (derivePublicKey hash (newPrivateKey (randomNumbers i))) \<notin> H \<Longrightarrow>
    key_step hash H s (snd (generateKeyPairsSet hash line keyPairsCount randomNumbers s))"
| called: "keychain_call hash s t \<Longrightarrow> key_step hash H s t"

lemma key_step_retired: "key_step hash H s t \<Longrightarrow> retired H s \<Longrightarrow> retired H t"
  by (induction rule: key_step.induct)
    (auto simp: generateKeyPairsSet_def intro: retired_generateKeys retired_call split: sum.split)

interpretation key_run: step_invariant "key_step hash H" "retired H" for hash H
  by unfold_locales (rule key_step_retired)

definition key_hashes :: "TrustLineID \<Rightarrow> KeyNumber \<Rightarrow> CryptoStore \<Rightarrow> Bytes set" where
  "key_hashes line number s = ownHash ` {r \<in> set (ownKeyRows s). ownLine r = line \<and> ownNumber r = number}"

lemma ownSaved_retires:
  assumes "ownSaved line key signature s t" and "distinct (map ownHash (ownKeyRows s))"
  shows "retired (key_hashes line key s) t"
  unfolding retired_def
proof (intro ballI impI notI)
  fix r assume r: "r \<in> set (ownKeyRows t)" "ownHash r \<in> key_hashes line key s" "ownValid r"
  have old: "r \<in> set (ownKeyRows s)" "\<not> (ownLine r = line \<and> ownNumber r = key)"
    using ownSaved_valid [OF assms(1) r(1,3)] by blast+
  obtain r' where "r' \<in> set (ownKeyRows s)" "ownLine r' = line" "ownNumber r' = key" "ownHash r' = ownHash r"
    using r(2) by (auto simp: key_hashes_def)
  then show False using old assms(2) by (metis distinct_map inj_onD)
qed

text \<open>C6: a key signs once. Once an audit or a receipt is saved with the signature and the number that the keychain gave (an
  audit the node starts, an outgoing receipt, or an audit it countersigns), and the saving is not rolled back, any number of
  operations of the keychain follow, new key sets with the same numbers among them, as long as their
  random numbers do not give the used key again. Then the private key that the next signature of the line is made with is
  that of another row, whose hash is not that of the first one.\<close>

theorem key_signs_once:
  assumes "tables_ok hash s" and "sign hash line message s = Inr (signature, number)" and "ownSaved line number signature s t"
    and "(key_step hash (key_hashes line number s))\<^sup>*\<^sup>* t u" and "sign hash line message' u = Inr (signature', number')"
  shows "\<exists>r r'. r \<in> set (ownKeyRows s) \<and> nextAvailableKey line s = Inr (newPrivateKey (ownPrivate r), number) \<and>
    r' \<in> set (ownKeyRows u) \<and> nextAvailableKey line u = Inr (newPrivateKey (ownPrivate r'), number') \<and>
    ownHash r' \<noteq> ownHash r"
proof -
  obtain r where r: "r \<in> set (ownKeyRows s)" "ownLine r = line" "ownNumber r = number"
    "nextAvailableKey line s = Inr (newPrivateKey (ownPrivate r), number)"
    using sign_row [OF assms(2)] by metis
  obtain r' where r': "r' \<in> set (ownKeyRows u)" "ownValid r'"
    "nextAvailableKey line u = Inr (newPrivateKey (ownPrivate r'), number')"
    using sign_row [OF assms(5)] by metis
  have "retired (key_hashes line number s) t" using ownSaved_retires [OF assms(3)] assms(1) by (simp add: tables_ok_def)
  then have "retired (key_hashes line number s) u" by (rule key_run.steps_inv [OF assms(4)])
  then have "ownHash r' \<noteq> ownHash r" using r r' by (auto simp: retired_def key_hashes_def)
  then show ?thesis using r r' by blast
qed

section \<open>Conflicts and outdated data\<close>

lemma invalidKeyByHash_fails: "fst (invalidKeyByHash_contractor line keyHash s) \<in> {Inl ValueError, Inl IOError}"
  by (simp add: invalidKeyByHash_contractor_def statement_def integerEqualsBlob_def)

lemma bindS_fails: "(\<And>x s. fst (f x s) \<noteq> Inr ()) \<Longrightarrow> fst (bindS r f) \<noteq> Inr ()"
  by (cases r; cases "fst r") (auto simp: bindS_def)

lemma invalidKeyByHash_not_Inr: "fst (invalidKeyByHash_contractor line keyHash s) \<noteq> Inr ()"
  using invalidKeyByHash_fails [of line keyHash s] by auto

text \<open>C26: an audit or a receipt of the contractor is never accepted. Whatever the tables hold, taking over the
  contractor's audit throws, and so does taking over any list of receipts it has signed as outgoing ones: the statement
  that should invalidate the contractor's key by its hash matches no row.\<close>

theorem conflicts_never_resolve:
  "fst (acceptAudit line auditRecord s) \<noteq> Inr () \<and>
   fst (acceptReceipts line contractorIncomingReceipts (receipt # contractorOutgoingReceipts) s) \<noteq> Inr ()"
proof
  show "fst (acceptAudit line auditRecord s) \<noteq> Inr ()"
    unfolding acceptAudit_def by (intro bindS_fails invalidKeyByHash_not_Inr)
  have "fst (acceptOutgoingReceipt line receipt t) \<noteq> Inr ()" for t
    unfolding acceptOutgoingReceipt_def by (intro bindS_fails invalidKeyByHash_not_Inr)
  then have "fst (inOrder (acceptOutgoingReceipt line) (receipt # contractorOutgoingReceipts) t) \<noteq> Inr ()" for t
    by (cases "acceptOutgoingReceipt line receipt t"; cases "fst (acceptOutgoingReceipt line receipt t)")
      (simp_all, metis fst_conv)
  then show "fst (acceptReceipts line contractorIncomingReceipts (receipt # contractorOutgoingReceipts) s) \<noteq> Inr ()"
    unfolding acceptReceipts_def by (intro bindS_fails)
qed

text \<open>What is removed.\<close>

lemma inOrder_Cons_Inr: "inOrder f (x # xs) s = (Inr (), t) \<longleftrightarrow> (\<exists>s'. f x s = (Inr (), s') \<and> inOrder f xs s' = (Inr (), t))"
  by (auto simp: bindS_eq_Inr)

definition own_within :: "OwnKeyRow set \<Rightarrow> CryptoStore \<Rightarrow> bool" where
  "own_within R s \<longleftrightarrow> set (ownKeyRows s) \<subseteq> R"

lemmas within_bindS = keeps_bindS [where I = "own_within R" for R]
lemmas within_inOrder = keeps_inOrder [where I = "own_within R" for R]

lemma within_statements:
  assumes "own_within R s"
  shows "own_within R (snd (deleteOwnKeys P s))" and "own_within R (snd (deleteContractorKeys Q s))"
    and "own_within R (snd (deleteOutgoing T s))" and "own_within R (snd (deleteIncoming T s))"
    and "own_within R (snd (deleteAuditByNumber line number s))" and "own_within R (snd (removeDecidedPayment transaction s))"
  using assms
  by (auto simp: own_within_def deleteOwnKeys_def deleteContractorKeys_def deleteOutgoing_def deleteIncoming_def
      deleteAuditByNumber_def removeDecidedPayment_def deleteRecords_vote_def deleteRecord_payment_def
      deleteKeyByTransactionUUID_def statement_def bindS_def split: sum.split prod.split)

lemma within_removals:
  assumes "own_within R s"
  shows "own_within R (snd (removeOutgoingReceipt keysSet receipt s))"
    and "own_within R (snd (removeIncomingReceipt keysSet receipt s))"
    and "own_within R (snd (removeAudit line keysSet keysSet' audit s))"
    and "own_within R (snd (removeOwnKey keysSet keyHash s))"
    and "own_within R (snd (removeContractorKey keysSet keyHash s))"
  unfolding removeOutgoingReceipt_def removeIncomingReceipt_def removeAudit_def removeOwnKey_def removeContractorKey_def
    deleteNames
  by (rule within_bindS within_statements assms | simp add: assms within_statements | intro impI conjI | assumption)+

lemma within_all:
  assumes "own_within R s"
  shows "own_within R (snd (inOrder (removeOutgoingReceipt keysSet) receipts s))"
    and "own_within R (snd (inOrder (removeIncomingReceipt keysSet) receipts s))"
    and "own_within R (snd (inOrder (removeAudit line keysSet keysSet') audits s))"
    and "own_within R (snd (inOrder (removeOwnKey keysSet) hashes s))"
    and "own_within R (snd (inOrder (removeContractorKey keysSet) hashes s))"
  by (rule within_inOrder, erule within_removals, rule assms)+

lemma own_within_self: "own_within (set (ownKeyRows s)) s"
  by (simp add: own_within_def)

lemma removeOwnKey_removes:
  "removeOwnKey keysSet keyHash s = (Inr (), t) \<Longrightarrow> r \<in> set (ownKeyRows t) \<Longrightarrow> ownHash r = keyHash \<Longrightarrow> ownSet r = keysSet + 1"
  by (auto simp: removeOwnKey_def ok_simps isContainsKeyHash_outgoing_def isContainsKeyHash_audit_def SQLITE_OK_def
      SQLITE_ROW_def deleteKeyByHashExceptSequenceNumber_own_def deleteOwnKeys_def)

lemma removeOwnKeys_removes:
  "inOrder (removeOwnKey keysSet) hashes s = (Inr (), t) \<Longrightarrow> r \<in> set (ownKeyRows t) \<Longrightarrow> ownHash r \<in> set hashes \<Longrightarrow>
    ownSet r = keysSet + 1"
proof (induction hashes arbitrary: s)
  case (Cons h hashes)
  obtain s' where first: "removeOwnKey keysSet h s = (Inr (), s')" and rest: "inOrder (removeOwnKey keysSet) hashes s' = (Inr (), t)"
    using Cons.prems(1) unfolding inOrder_Cons_Inr by blast
  show ?case
  proof (cases "ownHash r \<in> set hashes")
    case True
    then show ?thesis using Cons.IH rest Cons.prems(2) by blast
  next
    case False
    then have "r \<in> set (ownKeyRows s')"
      using within_all(4) [OF own_within_self, of s' keysSet hashes] rest Cons.prems(2) by (auto simp: own_within_def)
    then show ?thesis using removeOwnKey_removes [OF first] False Cons.prems(3) by simp
  qed
qed simp

lemma removeOutdatedKeys_removes:
  assumes "removeOutdatedKeys line keysSet keysSet' s = (Inr (), t)" and "r \<in> set (ownKeyRows t)"
  shows "r \<in> set (ownKeyRows s) \<and> (ownLine r = line \<and> ownSet r <s keysSet \<longrightarrow> ownSet r = keysSet + 1)"
proof -
  obtain s' hashes where own: "inOrder (removeOwnKey keysSet) (map ownHash (filter (\<lambda>r. ownLine r = line \<and> ownSet r <s keysSet) (ownKeyRows s))) s = (Inr (), s')"
    and rest: "inOrder (removeContractorKey keysSet') hashes s' = (Inr (), t)"
    using assms(1) by (auto simp: removeOutdatedKeys_def ok_simps publicKeyHashesLessThanSetNumber_own_def)
  have r: "r \<in> set (ownKeyRows s')"
    using within_all(5) [OF own_within_self, of s' keysSet' hashes] rest assms(2) by (auto simp: own_within_def)
  have "own_within (set (ownKeyRows s)) (snd (inOrder (removeOwnKey keysSet)
      (map ownHash (filter (\<lambda>r. ownLine r = line \<and> ownSet r <s keysSet) (ownKeyRows s))) s))"
    by (rule within_all(4) [OF own_within_self])
  then have "r \<in> set (ownKeyRows s)" unfolding own snd_conv own_within_def using r by blast
  then show ?thesis using removeOwnKeys_removes [OF own r] by auto
qed

lemma removeOutdatedCryptoData_removes:
  assumes "removeOutdatedCryptoData line number s = (Inr (), t)" and "r \<in> set (ownKeyRows t)"
    and "maxKeySetSequenceNumber_own line s = Inr keysSet"
  shows "r \<in> set (ownKeyRows s) \<and> (ownLine r = line \<and> ownSet r <s keysSet \<longrightarrow> ownSet r = keysSet + 1)"
proof -
  obtain keysSet' receipts s1 receipts' s2 audits s3 where
    out: "inOrder (removeOutgoingReceipt keysSet) receipts s = (Inr (), s1)"
    and inc: "inOrder (removeIncomingReceipt keysSet') receipts' s1 = (Inr (), s2)"
    and aud: "inOrder (removeAudit line keysSet keysSet') audits s2 = (Inr (), s3)"
    and last: "removeOutdatedKeys line keysSet keysSet' s3 = (Inr (), t)"
    using assms(1) by (auto simp: removeOutdatedCryptoData_def bindS_eq_Inr assms(3))
  have "own_within (set (ownKeyRows s)) s1"
    using within_all(1) [OF own_within_self, of s keysSet receipts] out by simp
  then have "own_within (set (ownKeyRows s)) s2" using within_all(2) inc by (metis snd_conv)
  then have "own_within (set (ownKeyRows s)) s3" using within_all(3) aud by (metis snd_conv)
  then show ?thesis using removeOutdatedKeys_removes [OF last assms(2)] by (auto simp: own_within_def)
qed

text \<open>C25: the removal of outdated data deletes receipts that still count. When it returns, no key of an older set than the
  last one is left, and with the keys all outgoing receipts signed with them are gone, those of the current audit
  too, although the code asks the tables of receipts and audits whether a key is still in use.\<close>

theorem outdated_removal_drops_receipts:
  assumes "tables_ok hash s" and "removeOutdatedCryptoData line number s = (Inr (), t)"
    and "maxKeySetSequenceNumber_own line s = Inr keysSet" and "key \<in> set (ownKeyRows s)" and "ownLine key = line"
    and "ownSet key <s keysSet" and "ownSet key \<noteq> keysSet + 1"
  shows "ownHash key \<notin> ownHash ` set (ownKeyRows t) \<and> ownHash key \<notin> rcKeyHash ` set (outgoingReceiptRows t)"
proof -
  have gone: "ownHash key \<notin> ownHash ` set (ownKeyRows t)"
  proof
    assume "ownHash key \<in> ownHash ` set (ownKeyRows t)"
    then obtain r where r: "r \<in> set (ownKeyRows t)" "ownHash r = ownHash key" by auto
    have "r \<in> set (ownKeyRows s)" using removeOutdatedCryptoData_removes [OF assms(2) r(1) assms(3)] by blast
    then have "r = key" using assms(1,4) r(2) by (auto simp: tables_ok_def distinct_map dest: inj_onD)
    then show False using removeOutdatedCryptoData_removes [OF assms(2) r(1) assms(3)] assms(5-7) by blast
  qed
  have "tables_ok hash t" using removeOutdated_keeps(2) [OF assms(1), of line number] assms(2) by simp
  then show ?thesis using gone by (auto simp: tables_ok_def)
qed

section \<open>Examples\<close>

definition sample_numbers2 :: Bytes where
  "sample_numbers2 = concat (map (\<lambda>i. replicate 32 (of_nat (i mod 2 + 1))) [0..<512])"

lemma sample_numbers2_length: "length sample_numbers2 = keySize"
  using concat_numbers_length [of 512 "\<lambda>i. replicate 32 (of_nat (i mod 2 + 1) :: 8 word)" 32]
  by (simp add: sample_numbers2_def keySize_def)

lemma sample_public_start:
  "take 32 (derivePublicKey sample_hash (newPrivateKey sample_numbers)) = replicate 32 0"
  "take 32 (derivePublicKey sample_hash (newPrivateKey sample_numbers2)) = replicate 32 1"
proof -
  have "numberAt 0 sample_numbers2 = replicate 32 (of_nat (0 mod 2 + 1))"
    unfolding sample_numbers2_def by (rule numberAt_concat) simp_all
  then have "numberAt 0 (derivePublicKey sample_hash (newPrivateKey sample_numbers2)) = replicate 32 1"
    using derived_at [OF sample_hash32, of 0 "newPrivateKey sample_numbers2"] sample_numbers2_length
    by (simp add: newPrivateKey_def sample_hash_def)
  then show "take 32 (derivePublicKey sample_hash (newPrivateKey sample_numbers2)) = replicate 32 1"
    by (simp add: numberAt_def kRandomNumberSize_def)
  show "take 32 (derivePublicKey sample_hash (newPrivateKey sample_numbers)) = replicate 32 0"
    using sample_public_at [of 0] by (simp add: numberAt_def kRandomNumberSize_def)
qed

definition sample_key :: "Bytes \<Rightarrow> KeyNumber \<Rightarrow> OwnKeyRow" where
  "sample_key numbers number =
     \<lparr>ownHash = publicKeyHashOf sample_hash (derivePublicKey sample_hash (newPrivateKey numbers)), ownLine = 1, ownSet = 1,
      ownPublic = derivePublicKey sample_hash (newPrivateKey numbers), ownPrivate = numbers, ownNumber = number, ownValid = True\<rparr>"

definition sample_contractor_key :: "Bytes \<Rightarrow> KeyNumber \<Rightarrow> ContractorKeyRow" where
  "sample_contractor_key numbers number =
     \<lparr>ckHash = publicKeyHashOf sample_hash (derivePublicKey sample_hash (newPrivateKey numbers)), ckLine = 2, ckSet = 1,
      ckPublic = derivePublicKey sample_hash (newPrivateKey numbers), ckNumber = number, ckValid = True\<rparr>"

definition sampleA :: CryptoStore where
  "sampleA = (emptyStore [1])\<lparr>ownKeyRows := [sample_key sample_numbers 0, sample_key sample_numbers2 1]\<rparr>"

definition sampleB :: CryptoStore where
  "sampleB = (emptyStore [2])\<lparr>contractorKeyRows := [sample_contractor_key sample_numbers 0, sample_contractor_key sample_numbers2 1]\<rparr>"

lemma sample_hashes:
  "publicKeyHashOf sample_hash (derivePublicKey sample_hash (newPrivateKey sample_numbers)) = replicate 32 0"
  "publicKeyHashOf sample_hash (derivePublicKey sample_hash (newPrivateKey sample_numbers2)) = replicate 32 1"
  using sample_public_start derived_length [OF sample_hash32]
  by (simp_all add: publicKeyHashOf_def sample_hash_def keySize_def min_def)

lemma sampleA_ok: "tables_ok sample_hash sampleA"
  by (simp add: tables_ok_def own_row_ok_def sampleA_def sample_key_def emptyStore_def sample_hashes
      sample_numbers_length sample_numbers2_length replicate_eq_replicate)

lemma sample_ends_ok: "ends_ok sample_hash 1 2 (sampleA, sampleB)"
  using sampleA_ok
  by (simp add: ends_ok_def keys_agree_def sampleA_def sampleB_def sample_key_def sample_contractor_key_def emptyStore_def)

definition sample_signature :: "Bytes \<Rightarrow> Bytes \<Rightarrow> Bytes" where
  "sample_signature numbers message = collectSignature (mData (newPrivateKey numbers)) (sample_hash message)"

lemma sample_sign: "sign sample_hash 1 message sampleA = Inr (sample_signature sample_numbers message, 0)"
  by (simp add: sign_def nextAvailableKey_def query_def sampleA_def sample_key_def emptyStore_def orNotFound_def
      word_sless_alt notNull_def newSignature_def newPrivateKey_def sample_signature_def)

definition sampleA1 :: CryptoStore where
  "sampleA1 = snd (saveOwnAuditPart 1 1 0 (sample_signature sample_numbers [7]) [] [] 5 6 0 sampleA)"

lemma sample_saved: "saveOwnAuditPart 1 1 0 (sample_signature sample_numbers [7]) [] [] 5 6 0 sampleA = (Inr (), sampleA1)"
  by (simp add: sampleA1_def saveOwnAuditPart_def getPublicKeyHash_def query_def sampleA_def sample_key_def emptyStore_def
      orNotFound_def saveOwnAuditPart_db_def insertAudit_def statement_def invalidKey_own_def invalidateOwn_def)

lemma sample_ownSaved: "ownSaved 1 0 (sample_signature sample_numbers [7]) sampleA sampleA1"
  by (rule ownSaved.intros(1) [OF sample_saved])

lemma sample_sign_again: "sign sample_hash 1 message sampleA1 = Inr (sample_signature sample_numbers2 message, 1)"
  by (simp add: sampleA1_def saveOwnAuditPart_def getPublicKeyHash_def query_def sampleA_def sample_key_def emptyStore_def
      orNotFound_def saveOwnAuditPart_db_def insertAudit_def statement_def invalidKey_own_def invalidateOwn_def
      sign_def nextAvailableKey_def notNull_def newSignature_def newPrivateKey_def sample_signature_def)

lemma signed_is_accepted_witness:
  "checkSign_keychain sample_hash 2 [8] (sample_signature sample_numbers2 [8]) 1 sampleB"
proof (rule signed_is_accepted [OF sample_hash32 sample_ends_ok _ _ sample_sign_again])
  have "exchange_step sample_hash 1 2 (sampleA, sampleB) (sampleA1, sampleB)"
    by (rule exchange_step.signs [OF sample_sign sample_ownSaved])
  then show "(exchange_step sample_hash 1 2)\<^sup>*\<^sup>* (sampleA, sampleB) (sampleA1, sampleB)" by simp
qed simp

lemma key_signs_once_witness:
  "\<exists>r r'. r \<in> set (ownKeyRows sampleA) \<and> r' \<in> set (ownKeyRows sampleA1) \<and> ownHash r' \<noteq> ownHash r"
  using key_signs_once [OF sampleA_ok sample_sign [of "[7]"] sample_ownSaved rtranclp.rtrancl_refl sample_sign_again [of "[8]"]]
  by blast

text \<open>A line with an old key, which signed a receipt of the current audit, and a key of the second set.\<close>

definition sample_old :: CryptoStore where
  "sample_old = (emptyStore [1])\<lparr>
     ownKeyRows := [(sample_key sample_numbers 0)\<lparr>ownValid := False\<rparr>, (sample_key sample_numbers2 0)\<lparr>ownSet := 2\<rparr>],
     outgoingReceiptRows := [\<lparr>rcLine = 1, rcAudit = 9, rcTransaction = 4, rcKeyHash = replicate 32 0, rcAmount = 100, rcSignature = None\<rparr>]\<rparr>"

lemma sample_old_ok: "tables_ok sample_hash sample_old"
  by (simp add: tables_ok_def own_row_ok_def sample_old_def sample_key_def emptyStore_def sample_hashes
      sample_numbers2_length replicate_eq_replicate)

lemma sample_old_max: "maxKeySetSequenceNumber_own 1 sample_old = Inr 2"
  by (simp add: maxKeySetSequenceNumber_own_def query_def sample_old_def sample_key_def emptyStore_def word_sless_alt)

lemma sample_old_removal:
  "removeOutdatedCryptoData 1 7 sample_old = (Inr (), snd (removeOutdatedCryptoData 1 7 sample_old))"
  unfolding removeOutdatedCryptoData_def sample_old_max
  by (simp add: sample_old_def sample_key_def emptyStore_def maxKeySetSequenceNumber_contractor_def query_def
      receiptsLessEqualThanAuditNumber_outgoing_def receiptsLessEqualThanAuditNumber_incoming_def
      auditsLessEqualThanAuditNumber_def word_sle_eq removeOutdatedKeys_def publicKeyHashesLessThanSetNumber_own_def
      publicKeyHashesLessThanSetNumber_contractor_def word_sless_alt removeOwnKey_def isContainsKeyHash_outgoing_def
      isContainsKeyHash_audit_def SQLITE_OK_def SQLITE_ROW_def deleteKeyByHashExceptSequenceNumber_own_def
      deleteOwnKeys_def statement_def)

lemma outdated_removal_drops_receipts_witness:
  "ownHash (sample_key sample_numbers 0) \<notin> ownHash ` set (ownKeyRows (snd (removeOutdatedCryptoData 1 7 sample_old))) \<and>
   ownHash (sample_key sample_numbers 0) \<notin> rcKeyHash ` set (outgoingReceiptRows (snd (removeOutdatedCryptoData 1 7 sample_old)))"
  using outdated_removal_drops_receipts [OF sample_old_ok sample_old_removal sample_old_max,
      of "(sample_key sample_numbers 0)\<lparr>ownValid := False\<rparr>"]
  by (simp add: sample_old_def sample_key_def emptyStore_def word_sless_alt)

end
