(* ===== verification/Audit_Data.thy ===== *)
theory Audit_Data imports Keychain_Laws Trust_Lines_Manager begin

text \<open>
  The bytes that both ends of a trust line sign in an audit
  (src/src/core/transactions/transactions/trust_lines/base/BaseTrustLineTransaction.cpp). A node serializes its own
  view and, to check the signature of its contractor, the view the contractor should have. Numbers are copied as the
  machine holds them, least significant byte first. The address of the registry of equivalents comes from the
  features of the node.
\<close>

definition word32Bytes :: "32 word \<Rightarrow> Bytes" where
  "word32Bytes n = map (\<lambda>k. ucast (drop_bit (8 * k) n)) [0..<4]"

definition registryBytes :: "Bytes \<Rightarrow> Bytes" where
  "registryBytes equivalentRegistryAddress =
     (of_nat (length equivalentRegistryAddress) :: 8 word) # equivalentRegistryAddress"

definition getOwnSerializedAuditData ::
    "(nat \<Rightarrow> byte list) \<Rightarrow> Bytes \<Rightarrow> AuditNumber \<Rightarrow> TrustLine \<Rightarrow> Bytes \<Rightarrow> Bytes \<Rightarrow> Bytes" where
  "getOwnSerializedAuditData export_bits registryAddress number line ownKeys contractorKeys =
     word32Bytes number @
     trustLineAmountToBytes export_bits (mIncomingTrustAmount line) @
     trustLineAmountToBytes export_bits (mOutgoingTrustAmount line) @
     trustLineBalanceToBytes export_bits (mBalance line) @
     ownKeys @ contractorKeys @ registryBytes registryAddress"

definition getContractorSerializedAuditData ::
    "(nat \<Rightarrow> byte list) \<Rightarrow> Bytes \<Rightarrow> AuditNumber \<Rightarrow> TrustLine \<Rightarrow> Bytes \<Rightarrow> Bytes \<Rightarrow> Bytes" where
  "getContractorSerializedAuditData export_bits registryAddress number line ownKeys contractorKeys =
     word32Bytes number @
     trustLineAmountToBytes export_bits (mOutgoingTrustAmount line) @
     trustLineAmountToBytes export_bits (mIncomingTrustAmount line) @
     trustLineBalanceToBytes export_bits (wrap256 (-1 * mBalance line)) @
     contractorKeys @ ownKeys @ registryBytes registryAddress"

section \<open>What the bytes determine\<close>

lemma word32Bytes_length [simp]: "length (word32Bytes n) = 4"
  by (simp add: word32Bytes_def)

lemma word32Bytes_inj: "word32Bytes m = word32Bytes n \<longleftrightarrow> m = n"
proof
  assume eq: "word32Bytes m = word32Bytes n"
  show "m = n"
  proof (rule bit_word_eqI)
    fix i assume "i < LENGTH(32)"
    then have "i div 8 < 4" by simp
    then have "(ucast (drop_bit (8 * (i div 8)) m) :: 8 word) = ucast (drop_bit (8 * (i div 8)) n)"
      using arg_cong [OF eq, of "\<lambda>xs. xs ! (i div 8)"] by (simp add: word32Bytes_def)
    then have "bit (ucast (drop_bit (8 * (i div 8)) m) :: 8 word) (i mod 8) =
        bit (ucast (drop_bit (8 * (i div 8)) n) :: 8 word) (i mod 8)" by simp
    then show "bit m i = bit n i"
      by (simp add: bit_simps)
  qed
qed simp

text \<open>What a line of either end must satisfy, which \<open>trust_line_ok\<close> gives.\<close>

definition fields_fit :: "TrustLine \<Rightarrow> bool" where
  "fields_fit line \<longleftrightarrow>
     amount_ok (mIncomingTrustAmount line) \<and> amount_ok (mOutgoingTrustAmount line) \<and> balance_ok (mBalance line)"

context boost_codec begin

lemma audit_data_eq:
  assumes "fields_fit a" and "fields_fit b" and "length ownA = length contractorB" and "length contractorA = length ownB"
  shows "getOwnSerializedAuditData export_bits registryA numberA a ownA contractorA =
      getContractorSerializedAuditData export_bits registryB numberB b ownB contractorB \<longleftrightarrow>
    numberA = numberB \<and> mIncomingTrustAmount a = mOutgoingTrustAmount b \<and> mOutgoingTrustAmount a = mIncomingTrustAmount b \<and>
    mBalance a = - mBalance b \<and> ownA = contractorB \<and> contractorA = ownB \<and> registryA = registryB"
proof -
  have fit: "mIncomingTrustAmount a < 2 ^ 256" "mOutgoingTrustAmount a < 2 ^ 256" "\<bar>mBalance a\<bar> < 2 ^ 256"
    "mIncomingTrustAmount b < 2 ^ 256" "mOutgoingTrustAmount b < 2 ^ 256" "\<bar>mBalance b\<bar> < 2 ^ 256"
    using assms(1,2) by (simp_all add: fields_fit_def)
  have opposite: "wrap256 (-1 * mBalance b) = - mBalance b" "\<bar>- mBalance b\<bar> < 2 ^ 256"
    using fit(6) by (simp_all add: wrap256_id)
  have amounts: "trustLineAmountToBytes export_bits x = trustLineAmountToBytes export_bits y \<longleftrightarrow> x = y"
    if "x < 2 ^ 256" "y < 2 ^ 256" for x y
    using amount.enc_inj that by blast
  have balances: "trustLineBalanceToBytes export_bits x = trustLineBalanceToBytes export_bits y \<longleftrightarrow> x = y"
    if "\<bar>x\<bar> < 2 ^ 256" "\<bar>y\<bar> < 2 ^ 256" for x y
    using balance.enc_inj that by blast
  have registry: "registryBytes x = registryBytes y \<longleftrightarrow> x = y" for x y
    by (auto simp: registryBytes_def)
  show ?thesis
    unfolding getOwnSerializedAuditData_def getContractorSerializedAuditData_def opposite(1)
    using assms(3,4) fit opposite(2)
    by (simp add: append_eq_append_conv amount.enc_width balance.enc_width amounts balances registry word32Bytes_inj)
qed

end

text \<open>The bytes of an audit bind both ends. What one end signs is what the other end reconstructs to check the
  signature exactly when the two ends have the same audit number, opposite limits and balances, the same sets of keys
  and the same registry of equivalents.\<close>

theorem audit_bytes_bind_both_ends:
  assumes "boost_bits export_bits import_bits" and "fields_fit a" and "fields_fit b"
    and "length ownA = 32" and "length contractorA = 32" and "length ownB = 32" and "length contractorB = 32"
  shows "getOwnSerializedAuditData export_bits registryA numberA a ownA contractorA =
      getContractorSerializedAuditData export_bits registryB numberB b ownB contractorB \<longleftrightarrow>
    numberA = numberB \<and> mIncomingTrustAmount a = mOutgoingTrustAmount b \<and> mOutgoingTrustAmount a = mIncomingTrustAmount b \<and>
    mBalance a = - mBalance b \<and> ownA = contractorB \<and> contractorA = ownB \<and> registryA = registryB"
  by (rule boost_codec.audit_data_eq [OF boost_codec.intro [OF assms(1)]]) (use assms in simp_all)

lemma audit_bytes_bind_both_ends_witness:
  "getOwnSerializedAuditData be_export [7] 3 (newTrustLine 1 2 False Active) (replicate 32 1) (replicate 32 2) =
      getContractorSerializedAuditData be_export [7] 3 (newTrustLine 5 6 False Active) (replicate 32 2) (replicate 32 1)"
  using audit_bytes_bind_both_ends [OF big_endian.bits, of "newTrustLine 1 2 False Active" "newTrustLine 5 6 False Active"
      "replicate 32 1" "replicate 32 2" "replicate 32 2" "replicate 32 1" "[7]" 3 "[7]" 3]
  by (simp add: fields_fit_def newTrustLine_def)

end
