(* ===== verification/Audit_Transactions.thy ===== *)
theory Audit_Transactions imports Audit_Data begin

text \<open>
  The audit of a trust line (src/src/core/transactions/transactions/trust_lines/AuditSourceTransaction.cpp and
  AuditTargetTransaction.cpp with base/BaseTrustLineTransaction.cpp). The state is the node with its trust lines and
  its tables, the messages it has sent and the members of the transaction. An \<^verbatim>\<open>ioTransaction\<close> is committed
  when it goes out of scope, also by an exception, unless the code rolls it back: \<open>rollbackTo\<close> puts the tables back.
  The presence of contractors, the order of the two addresses and the failure to write the history are answers of the
  environment. The caches of the topology are left out.
\<close>

section \<open>State\<close>

datatype ConfirmationState =
    OK
  | ErrorShouldBeRemovedFromQueue
  | ContractorBanned
  | TrustLineIsAbsent
  | TrustLineAlreadyPresent
  | TrustLineInvalidState
  | ReservationsPresentOnTrustLine
  | Audit_Reject
  | Audit_Invalid
  | Audit_KeyNotFound
  | Audit_IncorrectNumber
  | OwnKeysAbsent
  | ContractorKeysAbsent

record AuditMessage =
  amNumber :: AuditNumber
  amIncoming :: TrustLineAmount
  amOutgoing :: TrustLineAmount
  amKeyNumber :: KeyNumber
  amSignature :: Bytes

record AuditResponse =
  reSender :: ContractorID
  reState :: ConfirmationState
  reKeyNumber :: KeyNumber
  reSignature :: Bytes

datatype AuditOut =
    SendAudit AuditMessage
  | SendResponse KeyNumber Bytes
  | SendError ConfirmationState
  | SendPing
  | PongProcessed
  | ActionSignal

datatype TrustLineOperationType = OpeningRecord | AcceptingRecord | SettingRecord | UpdatingRecord | ClosingRecord |
  RejectingRecord | ClosingIncomingRecord | RejectingOutgoingRecord

datatype AuditStage =
    AuditInitialization
  | AuditPendingStage
  | AuditNextAttempt
  | AuditNextAttemptPending
  | AuditResponseProcessing
  | AuditContractorPending

datatype AuditResult = Done | AwakeAfter nat | WaitForResponse nat | ContinuePrevious

record AuditEnv =
  hashOf :: "Bytes \<Rightarrow> Bytes"
  exportBits :: "nat \<Rightarrow> byte list"
  registryAddress :: Bytes
  contractorIsPresent :: "ContractorID \<Rightarrow> bool"
  ownAddressGreater :: bool
  historyFails :: bool

record AuditState =
  nodeLines :: TrustLinesManager
  lineTable :: TrustLineStore
  cryptoTables :: CryptoStore
  historyTable :: "(TrustLineOperationType \<times> TrustLineAmount option) list"
  sentOut :: "AuditOut list"
  auditContractor :: ContractorID
  auditNumberOfTx :: AuditNumber
  ownSignatureAndKey :: "Bytes \<times> KeyNumber"
  auditStage :: AuditStage
  countSending :: nat
  countPending :: nat
  countContractorPending :: nat
  responses :: "AuditResponse list"

definition kWaitForResponse_audit :: nat where
  "kWaitForResponse_audit = 20000"

definition kMaxCountSendingAttempts_audit :: nat where
  "kMaxCountSendingAttempts_audit = 3"

definition kPendingPeriodInMilliseconds :: nat where
  "kPendingPeriodInMilliseconds = 5000"

definition kMaxPendingAttempts :: nat where
  "kMaxPendingAttempts = 3"

section \<open>Access\<close>

definition askingNode :: "(AuditState \<Rightarrow> 'a result) \<Rightarrow> AuditState \<Rightarrow> 'a result \<times> AuditState" where
  "askingNode f s = (f s, s)"

definition onLines :: "(TrustLinesManager \<Rightarrow> 'a result \<times> TrustLinesManager) \<Rightarrow> AuditState \<Rightarrow> 'a result \<times> AuditState" where
  "onLines f s = (let (r, m) = f (nodeLines s) in (r, s\<lparr>nodeLines := m\<rparr>))"

definition onCrypto :: "(CryptoStore \<Rightarrow> 'a result \<times> CryptoStore) \<Rightarrow> AuditState \<Rightarrow> 'a result \<times> AuditState" where
  "onCrypto f s = (let (r, c) = f (cryptoTables s) in (r, s\<lparr>cryptoTables := c\<rparr>))"

definition sendOut :: "AuditOut \<Rightarrow> AuditState \<Rightarrow> AuditState" where
  "sendOut message s = s\<lparr>sentOut := sentOut s @ [message]\<rparr>"

definition rollbackTo :: "AuditState \<Rightarrow> AuditState \<Rightarrow> AuditState" where
  "rollbackTo begun s =
     s\<lparr>lineTable := lineTable begun, cryptoTables := cryptoTables begun, historyTable := historyTable begun\<rparr>"

definition setStateInMemory :: "TrustLineState \<Rightarrow> AuditState \<Rightarrow> unit result \<times> AuditState" where
  "setStateInMemory state s =
     (let (r, (m, _)) = setTrustLineState (auditContractor s) state (nodeLines s, None) in (r, s\<lparr>nodeLines := m\<rparr>))"

definition setStateStored :: "TrustLineState \<Rightarrow> AuditState \<Rightarrow> unit result \<times> AuditState" where
  "setStateStored state s =
     (let (r, (m, table)) = setTrustLineState (auditContractor s) state (nodeLines s, Some (lineTable s))
      in (r, s\<lparr>nodeLines := m, lineTable := (case table of None \<Rightarrow> lineTable s | Some t \<Rightarrow> t)\<rparr>))"

definition lineOf :: "AuditState \<Rightarrow> TrustLine result" where
  "lineOf s = trustLineReadOnly (nodeLines s) (auditContractor s)"

definition keychainLine :: "AuditState \<Rightarrow> TrustLineID result" where
  "keychainLine s = trustLineID (nodeLines s) (auditContractor s)"

definition ownAuditData :: "AuditEnv \<Rightarrow> Bytes \<Rightarrow> Bytes \<Rightarrow> AuditState \<Rightarrow> Bytes result" where
  "ownAuditData env ownKeys contractorKeys s = bindR (lineOf s) (\<lambda>line.
     Inr (getOwnSerializedAuditData (exportBits env) (registryAddress env) (auditNumberOfTx s) line ownKeys contractorKeys))"

definition contractorAuditData :: "AuditEnv \<Rightarrow> Bytes \<Rightarrow> Bytes \<Rightarrow> AuditState \<Rightarrow> Bytes result" where
  "contractorAuditData env ownKeys contractorKeys s = bindR (lineOf s) (\<lambda>line.
     Inr (getContractorSerializedAuditData (exportBits env) (registryAddress env) (auditNumberOfTx s) line ownKeys contractorKeys))"

definition keysHashes :: "AuditEnv \<Rightarrow> TrustLineID \<Rightarrow> AuditState \<Rightarrow> (Bytes \<times> Bytes) result" where
  "keysHashes env line s =
     bindR (ownPublicKeysHash (hashOf env) line (cryptoTables s)) (\<lambda>ownKeys.
     bindR (contractorPublicKeysHash (hashOf env) line (cryptoTables s)) (\<lambda>contractorKeys. Inr (ownKeys, contractorKeys)))"

definition currentAuditMessage :: "AuditState \<Rightarrow> AuditOut result" where
  "currentAuditMessage s = bindR (lineOf s) (\<lambda>line.
     Inr (SendAudit \<lparr>amNumber = auditNumberOfTx s, amIncoming = mIncomingTrustAmount line, amOutgoing = mOutgoingTrustAmount line,
       amKeyNumber = snd (ownSignatureAndKey s), amSignature = fst (ownSignatureAndKey s)\<rparr>))"

text \<open>The contractor is looked up for the message.\<close>

definition sendAudit :: "AuditEnv \<Rightarrow> AuditState \<Rightarrow> unit result \<times> AuditState" where
  "sendAudit env s =
     (if contractorIsPresent env (auditContractor s)
      then bindS (askingNode currentAuditMessage s) (\<lambda>message s. returning () (sendOut message s))
      else throwing NotFoundError s)"

text \<open>The line becomes empty: it is archived and its unused keys are removed. The first end activates the line
  otherwise, the other end has done so before.\<close>

definition archiveIfEmpty :: "TrustLineID \<Rightarrow> bool \<Rightarrow> AuditState \<Rightarrow> unit result \<times> AuditState" where
  "archiveIfEmpty line activates s =
     bindS (askingNode (\<lambda>s. isTrustLineEmpty (nodeLines s) (auditContractor s)) s) (\<lambda>empty s.
     bindS (if empty then askingNode (\<lambda>s. isInitialAuditCondition line (cryptoTables s)) s else returning True s) (\<lambda>initial s.
       if \<not> initial
       then bindS (setStateStored Archived s) (\<lambda>_ s.
            bindS (onCrypto (removeUnusedOwnKeys line) s) (\<lambda>_ s.
            bindS (onLines (setIsOwnKeysPresent (auditContractor s) False) s) (\<lambda>_ s.
            bindS (onCrypto (removeUnusedContractorKeys line) s) (\<lambda>_ s.
              onLines (setIsContractorKeysPresent (auditContractor s) False) s))))
       else if activates then setStateStored Active s else returning () s))"

section \<open>The end that starts the audit\<close>

text \<open>The conditions at the start of four stages.\<close>

definition readyForAudit :: "AuditEnv \<Rightarrow> TrustLineState \<Rightarrow> AuditState \<Rightarrow> bool" where
  "readyForAudit env expected s =
     (contractorIsPresent env (auditContractor s) \<and>
      trustLineState (nodeLines s) (auditContractor s) = Inr expected)"

definition keysForAudit :: "AuditState \<Rightarrow> bool" where
  "keysForAudit s =
     (trustLineOwnKeysPresent (nodeLines s) (auditContractor s) = Inr True \<and>
      trustLineContractorKeysPresent (nodeLines s) (auditContractor s) = Inr True)"

definition signAudit :: "AuditEnv \<Rightarrow> AuditState \<Rightarrow> unit result \<times> AuditState" where
  "signAudit env s =
     bindS (askingNode keychainLine s) (\<lambda>line s.
     bindS (askingNode (keysHashes env line) s) (\<lambda>(ownKeys, contractorKeys) s.
     bindS (askingNode (ownAuditData env ownKeys contractorKeys) s) (\<lambda>message s.
     bindS (askingNode (\<lambda>s. sign (hashOf env) line message (cryptoTables s)) s) (\<lambda>signed s.
     let s = s\<lparr>ownSignatureAndKey := signed\<rparr> in
     bindS (askingNode lineOf s) (\<lambda>l s.
     bindS (onCrypto (saveOwnAuditPart line (auditNumberOfTx s) (snd signed) (fst signed) ownKeys contractorKeys
       (mIncomingTrustAmount l) (mOutgoingTrustAmount l) (mBalance l)) s) (\<lambda>_ s.
       onLines (setTrustLineAuditNumber (auditContractor s) (auditNumberOfTx s)) s))))))"

definition initializeAudit :: "AuditEnv \<Rightarrow> AuditState \<Rightarrow> AuditResult result \<times> AuditState" where
  "initializeAudit env s =
     (case signAudit env s of
        (Inl e, s') \<Rightarrow>
          if e = IOError
          then bindS (setStateInMemory Active (rollbackTo s s')) (\<lambda>_. throwing IOError)
          else throwing e s'
      | (Inr _, s') \<Rightarrow>
          bindS (sendAudit env s') (\<lambda>_ s.
            returning (WaitForResponse kWaitForResponse_audit)
              (s\<lparr>countSending := countSending s + 1, auditStage := AuditResponseProcessing\<rparr>)))"

definition nextAttemptAudit :: "AuditEnv \<Rightarrow> AuditState \<Rightarrow> AuditResult result \<times> AuditState" where
  "nextAttemptAudit env s =
     bindS (askingNode keychainLine s) (\<lambda>line s.
     bindS (askingNode (\<lambda>s. getSignatureAndKeyNumberForPendingAudit line (auditNumberOfTx s) (cryptoTables s)) s) (\<lambda>signed s.
     bindS (sendAudit env (s\<lparr>ownSignatureAndKey := signed\<rparr>)) (\<lambda>_ s.
       returning (WaitForResponse kWaitForResponse_audit)
         (s\<lparr>countSending := countSending s + 1, auditStage := AuditResponseProcessing\<rparr>))))"

definition becomeConflicting :: "AuditState \<Rightarrow> AuditResult result \<times> AuditState" where
  "becomeConflicting s = bindS (setStateStored ConflictResolving s) (\<lambda>_. returning Done)"

text \<open>Waiting for the reservations on the line, before the first attempt and before a later one.\<close>

definition waitForReservations :: "AuditState \<Rightarrow> AuditResult result \<times> AuditState" where
  "waitForReservations s =
     (let s = s\<lparr>countPending := countPending s + 1\<rparr>
      in if kMaxPendingAttempts < countPending s then becomeConflicting s else returning (AwakeAfter kPendingPeriodInMilliseconds) s)"

definition runInitializationStage_audit :: "AuditEnv \<Rightarrow> AuditState \<Rightarrow> AuditResult result \<times> AuditState" where
  "runInitializationStage_audit env s =
     (if \<not> readyForAudit env Active s \<or> \<not> keysForAudit s then returning Done s
      else bindS (setStateInMemory AuditPending s) (\<lambda>_ s.
        if isReservationsPresentOnTrustLine (nodeLines s) (auditContractor s)
        then returning (AwakeAfter kPendingPeriodInMilliseconds) (s\<lparr>auditStage := AuditPendingStage, countPending := countPending s + 1\<rparr>)
        else initializeAudit env s))"

definition runAuditPendingStage :: "AuditEnv \<Rightarrow> AuditState \<Rightarrow> AuditResult result \<times> AuditState" where
  "runAuditPendingStage env s =
     (if \<not> readyForAudit env AuditPending s \<or> \<not> keysForAudit s then returning Done s
      else if isReservationsPresentOnTrustLine (nodeLines s) (auditContractor s) then waitForReservations s
      else initializeAudit env s)"

definition runNextAttemptStage :: "AuditEnv \<Rightarrow> AuditState \<Rightarrow> AuditResult result \<times> AuditState" where
  "runNextAttemptStage env s =
     (if \<not> readyForAudit env AuditPending s then returning Done s
      else let s = sendOut PongProcessed s in
        if \<not> keysForAudit s then returning Done s
        else if isReservationsPresentOnTrustLine (nodeLines s) (auditContractor s)
        then returning (AwakeAfter kPendingPeriodInMilliseconds) (s\<lparr>auditStage := AuditNextAttemptPending, countPending := countPending s + 1\<rparr>)
        else nextAttemptAudit env s)"

definition runNextAttemptAuditPendingStage :: "AuditEnv \<Rightarrow> AuditState \<Rightarrow> AuditResult result \<times> AuditState" where
  "runNextAttemptAuditPendingStage env s =
     (if \<not> readyForAudit env AuditPending s \<or> \<not> keysForAudit s then returning Done s
      else if isReservationsPresentOnTrustLine (nodeLines s) (auditContractor s) then waitForReservations s
      else nextAttemptAudit env s)"

definition cancelledBefore :: "AuditState \<Rightarrow> bool result" where
  "cancelledBefore s = bindR (keychainLine s) (\<lambda>line. isAuditWasCancelled line (auditNumberOfTx s) (cryptoTables s))"

definition responseMissing :: "AuditEnv \<Rightarrow> AuditState \<Rightarrow> AuditResult result \<times> AuditState" where
  "responseMissing env s =
     bindS (askingNode cancelledBefore s) (\<lambda>cancelled s.
       if cancelled then returning Done s
       else if countSending s < kMaxCountSendingAttempts_audit
       then bindS (sendAudit env s) (\<lambda>_ s.
         returning (WaitForResponse kWaitForResponse_audit) (s\<lparr>countSending := countSending s + 1\<rparr>))
       else if contractorIsPresent env (auditContractor s) then returning Done (sendOut SendPing s)
       else throwing NotFoundError s)"

definition acceptResponse :: "AuditEnv \<Rightarrow> AuditResponse \<Rightarrow> TrustLineID \<Rightarrow> AuditState \<Rightarrow> bool result \<times> AuditState" where
  "acceptResponse env message line s =
     (if reState message \<noteq> OK
      then bindS (setStateStored ConflictResolving s) (\<lambda>_. returning False)
      else
        bindS (askingNode (keysHashes env line) s) (\<lambda>(ownKeys, contractorKeys) s.
        bindS (askingNode (contractorAuditData env ownKeys contractorKeys) s) (\<lambda>audit s.
          if \<not> checkSign_keychain (hashOf env) line audit (reSignature message) (reKeyNumber message) (cryptoTables s)
          then bindS (setStateStored ConflictResolving s) (\<lambda>_. returning False)
          else
            bindS (onCrypto (saveContractorAuditPart line (auditNumberOfTx s) (reKeyNumber message) (reSignature message)) s) (\<lambda>_ s.
            bindS (onLines (resetTrustLineTotalReceiptsAmounts (auditContractor s)) s) (\<lambda>_ s.
            bindS (archiveIfEmpty line True s) (\<lambda>_. returning True))))))"

definition responseAnswered :: "AuditEnv \<Rightarrow> AuditResponse \<Rightarrow> AuditState \<Rightarrow> AuditResult result \<times> AuditState" where
  "responseAnswered env message s =
     (if reSender message \<noteq> auditContractor s then returning ContinuePrevious s
      else if \<not> trustLineIsPresent (nodeLines s) (auditContractor s) then returning Done s
      else if reState message = ReservationsPresentOnTrustLine
      then if kMaxPendingAttempts < countContractorPending s then becomeConflicting s
        else returning (AwakeAfter kPendingPeriodInMilliseconds)
          (s\<lparr>auditStage := AuditContractorPending, countContractorPending := countContractorPending s + 1, countSending := 0\<rparr>)
      else bindS (askingNode keychainLine s) (\<lambda>line s.
        case acceptResponse env message line s of
          (Inl e, s') \<Rightarrow>
            if e = ValueError then returning Done (rollbackTo s s')
            else if e = IOError then throwing IOError (rollbackTo s s')
            else throwing e s'
        | (Inr accepted, s') \<Rightarrow>
            if \<not> accepted then returning Done s'
            else bindS (onLines (resetAuditRule (auditContractor s')) s') (\<lambda>_ s.
              returning Done (sendOut ActionSignal s))))"

definition runResponseProcessingStage_audit :: "AuditEnv \<Rightarrow> AuditState \<Rightarrow> AuditResult result \<times> AuditState" where
  "runResponseProcessingStage_audit env s =
     (case responses s of
        [] \<Rightarrow> responseMissing env s
      | message # rest \<Rightarrow> responseAnswered env message (s\<lparr>responses := rest\<rparr>))"

definition runContractorPendingStage :: "AuditEnv \<Rightarrow> AuditState \<Rightarrow> AuditResult result \<times> AuditState" where
  "runContractorPendingStage env s =
     bindS (askingNode cancelledBefore s) (\<lambda>cancelled s.
       if cancelled then returning Done s
       else bindS (sendAudit env s) (\<lambda>_ s.
         returning (WaitForResponse kWaitForResponse_audit) (s\<lparr>auditStage := AuditResponseProcessing\<rparr>)))"

definition run_auditSource :: "AuditEnv \<Rightarrow> AuditState \<Rightarrow> AuditResult result \<times> AuditState" where
  "run_auditSource env s =
     (case auditStage s of
        AuditInitialization \<Rightarrow> runInitializationStage_audit env s
      | AuditPendingStage \<Rightarrow> runAuditPendingStage env s
      | AuditNextAttempt \<Rightarrow> runNextAttemptStage env s
      | AuditNextAttemptPending \<Rightarrow> runNextAttemptAuditPendingStage env s
      | AuditResponseProcessing \<Rightarrow> runResponseProcessingStage_audit env s
      | AuditContractorPending \<Rightarrow> runContractorPendingStage env s)"

section \<open>The other end\<close>

text \<open>The message is made for the contractor, who is looked up for it.\<close>

definition sendAuditErrorConfirmation :: "AuditEnv \<Rightarrow> ConfirmationState \<Rightarrow> AuditState \<Rightarrow> AuditResult result \<times> AuditState" where
  "sendAuditErrorConfirmation env errorState s =
     (if contractorIsPresent env (auditContractor s) then returning Done (sendOut (SendError errorState) s)
      else throwing NotFoundError s)"

text \<open>What the manager reads of a line when an audit is taken back. A sum of receipts above the range, which throws in
  the code, reads as zero.\<close>

definition storageOf :: "(Bytes \<Rightarrow> Bytes) \<Rightarrow> CryptoStore \<Rightarrow> AuditStorage" where
  "storageOf hash c = \<lparr>
     getActualAudit = (\<lambda>line. bindR (getActualAuditFull line c) (\<lambda>r. Inr \<lparr>auditNumberOf = arNumber r,
       incomingAmountOf = arIncomingAmount r, outgoingAmountOf = arOutgoingAmount r, balanceOf = arBalance r,
       isPendingState = (arContractorSignature r = None)\<rparr>)),
     getActualAuditNumber = (\<lambda>line. getActualAuditNumber_db line c),
     incomingReceiptsSum = (\<lambda>line number. case incomingCommittedReceiptsAmountsSum line number c of Inl _ \<Rightarrow> 0 | Inr x \<Rightarrow> x),
     outgoingReceiptsSum = (\<lambda>line number. case outgoingCommittedReceiptsAmountsSum line number c of Inl _ \<Rightarrow> 0 | Inr x \<Rightarrow> x),
     incomingReceiptsCount = (\<lambda>line number. case countReceiptsByNumber_incoming line number c of Inl _ \<Rightarrow> 0 | Inr x \<Rightarrow> x),
     outgoingReceiptsCount = (\<lambda>line number. case countReceiptsByNumber_outgoing line number c of Inl _ \<Rightarrow> 0 | Inr x \<Rightarrow> x),
     ownKeysPresent = (\<lambda>line. ownKeysPresent_keychain line c = Inr True),
     contractorKeysPresent = (\<lambda>line. contractorKeysPresent_keychain line c = Inr True),
     ownKeysCriticalCount = (\<lambda>line. ownKeysCriticalCount_keychain line c = Inr True),
     checkKeysSetAppropriate = (\<lambda>line. case bindR (getActualAuditFull line c) (\<lambda>r.
         checkKeysSetAppropriate_keychain hash line (arOwnKeysSetHash r) (arContractorKeysSetHash r) c) of
       Inl _ \<Rightarrow> (False, False) | Inr b \<Rightarrow> b)\<rparr>"

definition cancelOwnAudit :: "AuditEnv \<Rightarrow> AuditState \<Rightarrow> unit result \<times> AuditState" where
  "cancelOwnAudit env s =
     bindS (askingNode keychainLine s) (\<lambda>line s.
     bindS (onCrypto (removeCancelledOwnAuditPart line) s) (\<lambda>_ s.
     bindS (onLines (updateTrustLineFromStorage (storageOf (hashOf env) (cryptoTables s)) (auditContractor s)) s) (\<lambda>_ s.
     bindS (setStateInMemory Active s) (\<lambda>_ s.
     bindS (askingNode (\<lambda>s. auditNumber (nodeLines s) (auditContractor s)) s) (\<lambda>number s.
       returning () (s\<lparr>auditNumberOfTx := number + 1\<rparr>))))))"

definition populateHistory :: "AuditEnv \<Rightarrow> AuditMessage \<Rightarrow> TrustLineOperationType \<Rightarrow> AuditState \<Rightarrow> unit result \<times> AuditState" where
  "populateHistory env message operationType s =
     (if historyFails env then throwing IOError s
      else returning () (s\<lparr>historyTable := historyTable s @
        [(operationType, if operationType \<noteq> RejectingOutgoingRecord then Some (amOutgoing message) else None)]\<rparr>))"

definition setIncomingTrustLineAmount :: "AuditEnv \<Rightarrow> AuditMessage \<Rightarrow> AuditState \<Rightarrow> unit result \<times> AuditState" where
  "setIncomingTrustLineAmount env message s =
     bindS (onLines (setIncoming (auditContractor s) (amOutgoing message)) s) (\<lambda>kOperationResult s.
       case kOperationResult of
         Updated \<Rightarrow> populateHistory env message UpdatingRecord s
       | Closed \<Rightarrow> populateHistory env message RejectingRecord s
       | NoChanges \<Rightarrow> returning () s
       | Opened \<Rightarrow> returning () s)"

definition closeOutgoingTrustLine :: "AuditEnv \<Rightarrow> AuditMessage \<Rightarrow> AuditState \<Rightarrow> unit result \<times> AuditState" where
  "closeOutgoingTrustLine env message s =
     bindS (onLines (closeOutgoing (auditContractor s)) s) (\<lambda>_ s. populateHistory env message RejectingOutgoingRecord s)"

definition takeLimits :: "AuditEnv \<Rightarrow> AuditMessage \<Rightarrow> AuditState \<Rightarrow> unit result \<times> AuditState" where
  "takeLimits env message s =
     bindS (askingNode lineOf s) (\<lambda>line s.
     bindS (if amOutgoing message \<noteq> mIncomingTrustAmount line then setIncomingTrustLineAmount env message s
            else returning () s) (\<lambda>_ s.
     bindS (askingNode lineOf s) (\<lambda>line s.
       if amIncoming message = 0 \<and> mOutgoingTrustAmount line \<noteq> 0 then closeOutgoingTrustLine env message s
       else returning () s)))"

text \<open>The \<^verbatim>\<open>try\<close> block; \<open>False\<close> for a wrong signature. What follows a right one comes first.\<close>

definition countersignChecked ::
    "AuditEnv \<Rightarrow> AuditMessage \<Rightarrow> TrustLineID \<Rightarrow> Bytes \<Rightarrow> Bytes \<Rightarrow> AuditState \<Rightarrow> bool result \<times> AuditState" where
  "countersignChecked env message line ownKeys contractorKeys s =
     bindS (askingNode (ownAuditData env ownKeys contractorKeys) s) (\<lambda>ownAudit s.
     bindS (askingNode (\<lambda>s. sign (hashOf env) line ownAudit (cryptoTables s)) s) (\<lambda>signed s.
     let s = s\<lparr>ownSignatureAndKey := signed\<rparr> in
     bindS (askingNode lineOf s) (\<lambda>l s.
     bindS (onCrypto (saveFullAudit line (auditNumberOfTx s) (snd signed) (fst signed) (amKeyNumber message)
       (amSignature message) ownKeys contractorKeys (mIncomingTrustAmount l) (mOutgoingTrustAmount l) (mBalance l)) s) (\<lambda>_ s.
     bindS (onLines (setTrustLineAuditNumber (auditContractor s) (auditNumberOfTx s)) s) (\<lambda>_ s.
     bindS (onLines (resetTrustLineTotalReceiptsAmounts (auditContractor s)) s) (\<lambda>_ s.
     bindS (setStateStored Active s) (\<lambda>_ s.
     bindS (archiveIfEmpty line False s) (\<lambda>_. returning True))))))))"

definition countersign :: "AuditEnv \<Rightarrow> AuditMessage \<Rightarrow> TrustLineID \<Rightarrow> AuditState \<Rightarrow> bool result \<times> AuditState" where
  "countersign env message line s =
     bindS (takeLimits env message s) (\<lambda>_ s.
     bindS (askingNode (keysHashes env line) s) (\<lambda>(ownKeys, contractorKeys) s.
     bindS (askingNode (contractorAuditData env ownKeys contractorKeys) s) (\<lambda>audit s.
       if checkSign_keychain (hashOf env) line audit (amSignature message) (amKeyNumber message) (cryptoTables s)
       then countersignChecked env message line ownKeys contractorKeys s
       else returning False s)))"

definition sendOwnSignature :: "AuditState \<Rightarrow> AuditState" where
  "sendOwnSignature s = sendOut (SendResponse (snd (ownSignatureAndKey s)) (fst (ownSignatureAndKey s))) s"

text \<open>On an engine failure memory and tables are put back.\<close>

definition putBack :: "TrustLine \<Rightarrow> AuditState \<Rightarrow> AuditResult result \<times> AuditState" where
  "putBack previous s =
     bindS (onLines (setIncoming (auditContractor s) (mIncomingTrustAmount previous)) s) (\<lambda>_ s.
     bindS (onLines (setOutgoing (auditContractor s) (mOutgoingTrustAmount previous)) s) (\<lambda>_ s.
     bindS (setStateInMemory (mState previous) s) (\<lambda>_. throwing IOError)))"

definition performAudit :: "AuditEnv \<Rightarrow> AuditMessage \<Rightarrow> TrustLineID \<Rightarrow> AuditState \<Rightarrow> AuditState \<Rightarrow> AuditResult result \<times> AuditState" where
  "performAudit env message line begun s =
     bindS (askingNode lineOf s) (\<lambda>previous s.
       case countersign env message line s of
         (Inl e, s') \<Rightarrow>
           if e = ValueError then sendAuditErrorConfirmation env ErrorShouldBeRemovedFromQueue s'
           else if e = IOError then putBack previous (rollbackTo begun s')
           else throwing e s'
       | (Inr accepted, s') \<Rightarrow>
           if \<not> accepted then sendAuditErrorConfirmation env ErrorShouldBeRemovedFromQueue s'
           else bindS (onLines (resetAuditRule (auditContractor s')) (sendOwnSignature s')) (\<lambda>_ s.
             returning Done (sendOut ActionSignal s)))"

definition runAuditOfContractor :: "AuditEnv \<Rightarrow> AuditMessage \<Rightarrow> AuditState \<Rightarrow> AuditResult result \<times> AuditState" where
  "runAuditOfContractor env message begun =
     bindS (askingNode keychainLine begun) (\<lambda>line s.
       if auditNumberOfTx s - amNumber message = 1
       then bindS (askingNode (\<lambda>s. isActualAuditFull line (cryptoTables s)) s) (\<lambda>complete s.
         if \<not> complete
         then bindS (onCrypto (removeCancelledOwnAuditPart line) s) (\<lambda>_. performAudit env message line begun)
         else bindS (askingNode (\<lambda>s. getCurrentAuditSignatureAndKeyNumber line (cryptoTables s)) s) (\<lambda>signed s.
           returning Done (sendOwnSignature (s\<lparr>ownSignatureAndKey := signed\<rparr>))))
       else performAudit env message line begun s)"

definition checkedAudit :: "AuditEnv \<Rightarrow> AuditMessage \<Rightarrow> AuditState \<Rightarrow> AuditResult result \<times> AuditState" where
  "checkedAudit env message s =
     bindS (askingNode lineOf s) (\<lambda>line s.
       if mState line \<noteq> Active \<and> mState line \<noteq> Reset then sendAuditErrorConfirmation env ErrorShouldBeRemovedFromQueue s
       else if \<not> mIsOwnKeysPresent line then sendAuditErrorConfirmation env OwnKeysAbsent s
       else if \<not> mIsContractorKeysPresent line then sendAuditErrorConfirmation env ContractorKeysAbsent s
       else if 1 < auditNumberOfTx s - amNumber message then sendAuditErrorConfirmation env Audit_IncorrectNumber s
       else if isReservationsPresentOnTrustLine (nodeLines s) (auditContractor s)
       then sendAuditErrorConfirmation env ReservationsPresentOnTrustLine s
       else runAuditOfContractor env message s)"

definition run_auditTarget :: "AuditEnv \<Rightarrow> AuditMessage \<Rightarrow> AuditState \<Rightarrow> AuditResult result \<times> AuditState" where
  "run_auditTarget env message s =
     (if \<not> contractorIsPresent env (auditContractor s) then sendAuditErrorConfirmation env ErrorShouldBeRemovedFromQueue s
      else case lineOf s of
        Inl _ \<Rightarrow> sendAuditErrorConfirmation env ErrorShouldBeRemovedFromQueue s
      | Inr line \<Rightarrow>
          if mState line = AuditPending
          then if ownAddressGreater env then returning Done s
            else (case cancelOwnAudit env s of
              (Inl e, s') \<Rightarrow>
                if e = ValueError then bindS (setStateInMemory Active s') (\<lambda>_. checkedAudit env message)
                else if e = IOError then throwing IOError (rollbackTo s s')
                else throwing e s'
            | (Inr _, s') \<Rightarrow> checkedAudit env message s')
          else checkedAudit env message s)"

text \<open>The constructors: the number of the audit is read from the line.\<close>

definition newAudit :: "AuditStage \<Rightarrow> ContractorID \<Rightarrow> TrustLinesManager \<Rightarrow> TrustLineStore \<Rightarrow> CryptoStore \<Rightarrow> AuditState result" where
  "newAudit stage contractor manager table crypto =
     bindR (auditNumber manager contractor) (\<lambda>number. Inr
       \<lparr>nodeLines = manager, lineTable = table, cryptoTables = crypto, historyTable = [], sentOut = [],
        auditContractor = contractor, auditNumberOfTx = (if stage = AuditNextAttempt then number else number + 1),
        ownSignatureAndKey = ([], 0), auditStage = stage, countSending = 0, countPending = 0,
        countContractorPending = 0, responses = []\<rparr>)"

end
