(* ===== verification/Audit_Laws.thy ===== *)
theory Audit_Laws imports Audit_Transactions begin

text \<open>
  What an audit guarantees: an audit that the other end has countersigned is stored there with the opposite of what
  the first end signed. And what it does not: the limits of a message are taken before its signature is checked.
\<close>

lemmas access_defs = askingNode_def onLines_def onCrypto_def lineOf_def keychainLine_def trustLineReadOnly_def
  trustLineID_def

lemma askingNode_Inr: "askingNode f s = (Inr x, t) \<longleftrightarrow> f s = Inr x \<and> t = s"
  by (auto simp: askingNode_def)

lemma onCrypto_Inr: "onCrypto f s = (Inr x, t) \<longleftrightarrow> (\<exists>c. f (cryptoTables s) = (Inr x, c) \<and> t = s\<lparr>cryptoTables := c\<rparr>)"
  by (auto simp: onCrypto_def split: prod.split)

lemma onLines_Inr: "onLines f s = (Inr x, t) \<longleftrightarrow> (\<exists>m. f (nodeLines s) = (Inr x, m) \<and> t = s\<lparr>nodeLines := m\<rparr>)"
  by (auto simp: onLines_def split: prod.split)

lemmas audit_Inr = askingNode_Inr onCrypto_Inr onLines_Inr bindS_eq_Inr

section \<open>Steps that leave the tables of keys alone\<close>

lemma setStateStored_crypto: "setStateStored state s = (r, t) \<Longrightarrow> cryptoTables t = cryptoTables s \<and> sentOut t = sentOut s"
  by (auto simp: setStateStored_def Let_def split: prod.splits)

lemma setStateInMemory_crypto: "setStateInMemory state s = (r, t) \<Longrightarrow> cryptoTables t = cryptoTables s \<and> sentOut t = sentOut s"
  by (auto simp: setStateInMemory_def Let_def split: prod.splits)

lemma populateHistory_crypto:
  "populateHistory env message kind s = (r, t) \<Longrightarrow>
    cryptoTables t = cryptoTables s \<and> sentOut t = sentOut s \<and> nodeLines t = nodeLines s \<and> auditContractor t = auditContractor s \<and>
    auditNumberOfTx t = auditNumberOfTx s"
  by (auto simp: populateHistory_def split: if_splits)

lemma setIncoming_crypto:
  "setIncomingTrustLineAmount env message s = (Inr (), t) \<Longrightarrow>
    cryptoTables t = cryptoTables s \<and> sentOut t = sentOut s \<and> auditContractor t = auditContractor s \<and>
    auditNumberOfTx t = auditNumberOfTx s"
  unfolding setIncomingTrustLineAmount_def audit_Inr
  by (elim exE conjE) (auto split: TrustLineOperationResult.splits dest: populateHistory_crypto)

lemma closeOutgoing_crypto:
  "closeOutgoingTrustLine env message s = (Inr (), t) \<Longrightarrow>
    cryptoTables t = cryptoTables s \<and> sentOut t = sentOut s \<and> auditContractor t = auditContractor s \<and>
    auditNumberOfTx t = auditNumberOfTx s"
  unfolding closeOutgoingTrustLine_def audit_Inr
  by (elim exE conjE) (auto dest: populateHistory_crypto)

lemma takeLimits_crypto:
  assumes "takeLimits env message s = (Inr (), t)"
  shows "cryptoTables t = cryptoTables s \<and> sentOut t = sentOut s \<and> auditContractor t = auditContractor s \<and>
    auditNumberOfTx t = auditNumberOfTx s"
  using assms unfolding takeLimits_def audit_Inr
  by (elim exE conjE) (auto split: if_splits dest!: setIncoming_crypto closeOutgoing_crypto)

lemma removals_audits:
  assumes "onCrypto (removeUnusedOwnKeys line) s = (Inr (), t) \<or> onCrypto (removeUnusedContractorKeys line) s = (Inr (), t)"
  shows "auditRows (cryptoTables t) = auditRows (cryptoTables s)"
  using assms
  by (auto simp: onCrypto_Inr removeUnusedOwnKeys_def removeUnusedContractorKeys_def deleteNames deleteOwnKeys_def
      deleteContractorKeys_def statement_Inr)

lemma archiveIfEmpty_audits:
  "archiveIfEmpty line activates s = (Inr (), t) \<Longrightarrow> auditRows (cryptoTables t) = auditRows (cryptoTables s)"
  by (auto simp: archiveIfEmpty_def bindS_eq_Inr askingNode_Inr onLines_Inr split: if_splits
      dest!: setStateStored_crypto removals_audits [OF disjI1] removals_audits [OF disjI2])

lemma saveFullAudit_row:
  "saveFullAudit line number key signature key' signature' h h' incoming outgoing bal c = (Inr (), c') \<Longrightarrow>
    \<exists>row \<in> set (auditRows c'). arNumber row = number \<and> arLine row = line \<and> arOurSignature row = signature \<and>
      arContractorSignature row = Some signature' \<and> arIncomingAmount row = incoming \<and> arOutgoingAmount row = outgoing \<and>
      arBalance row = bal"
  by (auto simp: saveFullAudit_def ok_simps saveFullAudit_db_def insertAudit_def invalidKey_own_def invalidateOwn_def
      invalidKey_contractor_def split: if_splits)

section \<open>A countersigned audit\<close>

definition audit_stored :: "TrustLineID \<Rightarrow> AuditNumber \<Rightarrow> Bytes \<Rightarrow> TrustLineAmount \<Rightarrow> TrustLineAmount \<Rightarrow> TrustLineBalance \<Rightarrow> CryptoStore \<Rightarrow> bool" where
  "audit_stored line number contractorSignature incoming outgoing bal c \<longleftrightarrow>
     (\<exists>row \<in> set (auditRows c). arNumber row = number \<and> arLine row = line \<and>
        arContractorSignature row = Some contractorSignature \<and> arIncomingAmount row = incoming \<and>
        arOutgoingAmount row = outgoing \<and> arBalance row = bal)"

lemma countersignChecked_stores:
  assumes "countersignChecked env message line ownKeys contractorKeys s = (Inr True, t)" and "lineOf s = Inr l"
  shows "audit_stored line (auditNumberOfTx s) (amSignature message) (mIncomingTrustAmount l) (mOutgoingTrustAmount l)
      (mBalance l) (cryptoTables t)"
proof -
  from assms(1) obtain signed s1 s2 s3 s4 where
    save: "onCrypto (saveFullAudit line (auditNumberOfTx s) (snd signed) (fst signed) (amKeyNumber message)
       (amSignature message) ownKeys contractorKeys (mIncomingTrustAmount l) (mOutgoingTrustAmount l) (mBalance l))
       (s\<lparr>ownSignatureAndKey := signed\<rparr>) = (Inr (), s1)"
    and s2: "onLines (setTrustLineAuditNumber (auditContractor s1) (auditNumberOfTx s1)) s1 = (Inr (), s2)"
    and s3: "onLines (resetTrustLineTotalReceiptsAmounts (auditContractor s2)) s2 = (Inr (), s3)"
    and s4: "setStateStored Active s3 = (Inr (), s4)"
    and t: "archiveIfEmpty line False s4 = (Inr (), t)"
    using assms(2) unfolding countersignChecked_def Let_def bindS_eq_Inr askingNode_Inr
    by (elim exE conjE) (auto simp: lineOf_def)
  obtain c where "saveFullAudit line (auditNumberOfTx s) (snd signed) (fst signed) (amKeyNumber message)
       (amSignature message) ownKeys contractorKeys (mIncomingTrustAmount l) (mOutgoingTrustAmount l) (mBalance l)
       (cryptoTables s) = (Inr (), c)" and "cryptoTables s1 = c"
    using save by (auto simp: onCrypto_Inr)
  moreover have "auditRows (cryptoTables t) = auditRows (cryptoTables s1)"
    using archiveIfEmpty_audits [OF t] setStateStored_crypto [OF s4] s2 s3 by (auto simp: onLines_Inr)
  ultimately show ?thesis
    unfolding audit_stored_def using saveFullAudit_row by fastforce
qed

lemma countersign_Inr:
  "countersign env message line s = (Inr accepted, t) \<longleftrightarrow>
    (\<exists>s1 ownKeys contractorKeys l. takeLimits env message s = (Inr (), s1) \<and>
      keysHashes env line s1 = Inr (ownKeys, contractorKeys) \<and> lineOf s1 = Inr l \<and>
      (if checkSign_keychain (hashOf env) line
        (getContractorSerializedAuditData (exportBits env) (registryAddress env) (auditNumberOfTx s1) l ownKeys contractorKeys)
        (amSignature message) (amKeyNumber message) (cryptoTables s1)
       then countersignChecked env message line ownKeys contractorKeys s1 = (Inr accepted, t)
       else \<not> accepted \<and> t = s1))"
  by (simp add: countersign_def bindS_eq_Inr askingNode_Inr contractorAuditData_def bindR_eq_Inr split_paired_Ex
      if_distrib [where f = "\<lambda>f. f _"] cong: if_cong) (auto split: if_splits; blast)

lemma countersign_stores:
  assumes "countersign env message line s = (Inr True, t)"
  obtains l ownKeys contractorKeys s1 where
    "takeLimits env message s = (Inr (), s1)" and "lineOf s1 = Inr l"
    and "keysHashes env line s1 = Inr (ownKeys, contractorKeys)"
    and "checkSign_keychain (hashOf env) line
      (getContractorSerializedAuditData (exportBits env) (registryAddress env) (auditNumberOfTx s) l ownKeys contractorKeys)
      (amSignature message) (amKeyNumber message) (cryptoTables s)"
    and "audit_stored line (auditNumberOfTx s) (amSignature message) (mIncomingTrustAmount l) (mOutgoingTrustAmount l)
      (mBalance l) (cryptoTables t)"
proof -
  from assms obtain s1 ownKeys contractorKeys l where "takeLimits env message s = (Inr (), s1)"
    and "keysHashes env line s1 = Inr (ownKeys, contractorKeys)" and "lineOf s1 = Inr l"
    and "checkSign_keychain (hashOf env) line
        (getContractorSerializedAuditData (exportBits env) (registryAddress env) (auditNumberOfTx s1) l ownKeys contractorKeys)
        (amSignature message) (amKeyNumber message) (cryptoTables s1)"
    and "countersignChecked env message line ownKeys contractorKeys s1 = (Inr True, t)"
    unfolding countersign_Inr by (auto split: if_splits)
  with takeLimits_crypto countersignChecked_stores show thesis
    by (metis that)
qed

section \<open>A wrong signature\<close>

lemma takeLimits_sets:
  assumes "map_of (mTrustLines (nodeLines s)) (auditContractor s) = Some l" and "amOutgoing message \<noteq> mIncomingTrustAmount l"
    and "amOutgoing message \<noteq> kMaxAmount" and "amIncoming message \<noteq> 0" and "\<not> historyFails env"
  obtains t where "takeLimits env message s = (Inr (), t)"
    and "nodeLines t = putLine (auditContractor s) (l\<lparr>mIncomingTrustAmount := amOutgoing message\<rparr>) (nodeLines s)"
proof
  let ?m = "putLine (auditContractor s) (l\<lparr>mIncomingTrustAmount := amOutgoing message\<rparr>) (nodeLines s)"
  let ?t = "s\<lparr>nodeLines := ?m, historyTable := historyTable s @
    [(if amOutgoing message = 0 then RejectingRecord else UpdatingRecord, Some (amOutgoing message))]\<rparr>"
  have "onLines (setIncoming (auditContractor s) (amOutgoing message)) s =
      (Inr (if amOutgoing message = 0 then Closed else Updated), s\<lparr>nodeLines := ?m\<rparr>)"
    by (simp add: onLines_def setIncoming_exact [OF assms(1)] assms(2,3))
  then have "setIncomingTrustLineAmount env message s = (Inr (), ?t)"
    using assms(5) by (simp add: setIncomingTrustLineAmount_def populateHistory_def)
  then show "takeLimits env message s = (Inr (), ?t)"
    using assms(1,2,4) by (simp add: takeLimits_def access_defs)
  show "nodeLines ?t = ?m" by simp
qed

lemma audit_checked:
  assumes "contractorIsPresent env (auditContractor s)"
    and "map_of (mTrustLines (nodeLines s)) (auditContractor s) = Some l" and "mState l \<in> {Active, Reset}"
    and "mIsOwnKeysPresent l" and "mIsContractorKeysPresent l"
    and "amNumber message = auditNumberOfTx s" and "\<not> isReservationsPresentOnTrustLine (nodeLines s) (auditContractor s)"
  shows "run_auditTarget env message s = performAudit env message (mID l) s s"
  using assms by (auto simp: run_auditTarget_def checkedAudit_def runAuditOfContractor_def access_defs)

text \<open>C24: a message with a wrong signature changes the limits of a trust line. A node whose trust line is ready for an
  audit answers an audit message, whose signature is wrong whatever data it is checked for, with an error, and writes
  none of its tables of keys and audits; but the incoming limit of its line is afterwards the one of the message.\<close>

theorem unsigned_audit_changes_limits:
  assumes "contractorIsPresent env (auditContractor s)"
    and "map_of (mTrustLines (nodeLines s)) (auditContractor s) = Some l" and "mState l = Active"
    and "mIsOwnKeysPresent l" and "mIsContractorKeysPresent l"
    and "amNumber message = auditNumberOfTx s" and "\<not> isReservationsPresentOnTrustLine (nodeLines s) (auditContractor s)"
    and "\<not> historyFails env" and "keysHashes env (mID l) s = Inr hashes"
    and "\<forall>x. \<not> checkSign_keychain (hashOf env) (mID l) x (amSignature message) (amKeyNumber message) (cryptoTables s)"
    and "amOutgoing message \<noteq> mIncomingTrustAmount l" and "amOutgoing message \<noteq> kMaxAmount" and "amIncoming message \<noteq> 0"
  shows "\<exists>t. run_auditTarget env message s = (Inr Done, t) \<and>
    sentOut t = sentOut s @ [SendError ErrorShouldBeRemovedFromQueue] \<and> cryptoTables t = cryptoTables s \<and>
    map_of (mTrustLines (nodeLines t)) (auditContractor s) = Some (l\<lparr>mIncomingTrustAmount := amOutgoing message\<rparr>)"
proof -
  obtain t where take: "takeLimits env message s = (Inr (), t)"
    and lines: "nodeLines t = putLine (auditContractor s) (l\<lparr>mIncomingTrustAmount := amOutgoing message\<rparr>) (nodeLines s)"
    by (rule takeLimits_sets [OF assms(2,11,12,13,8)])
  note same = takeLimits_crypto [OF take]
  have "keysHashes env (mID l) t = Inr (fst hashes, snd hashes)" using assms(9) same by (simp add: keysHashes_def)
  moreover have "lineOf t = Inr (l\<lparr>mIncomingTrustAmount := amOutgoing message\<rparr>)"
    using lines same by (simp add: access_defs)
  ultimately have "countersign env message (mID l) s = (Inr False, t)"
    using take assms(10) same unfolding countersign_Inr by auto
  then have "performAudit env message (mID l) s s =
      (Inr Done, sendOut (SendError ErrorShouldBeRemovedFromQueue) t)"
    using assms(1,2) same by (simp add: performAudit_def sendAuditErrorConfirmation_def access_defs)
  then show ?thesis
    using audit_checked [OF assms(1,2) _ assms(4-7)] assms(3) lines same by (auto simp: sendOut_def)
qed

section \<open>Examples\<close>

text \<open>Both ends of a line, each with a key of its own and the key of the other end.\<close>

definition storeOfA :: CryptoStore where
  "storeOfA = (emptyStore [1])\<lparr>ownKeyRows := [sample_key sample_numbers 0],
     contractorKeyRows := [(sample_contractor_key sample_numbers2 0)\<lparr>ckLine := 1\<rparr>]\<rparr>"

definition storeOfB :: CryptoStore where
  "storeOfB = (emptyStore [2])\<lparr>ownKeyRows := [(sample_key sample_numbers2 0)\<lparr>ownLine := 2\<rparr>],
     contractorKeyRows := [sample_contractor_key sample_numbers 0]\<rparr>"

definition lineOfA :: TrustLine where
  "lineOfA = (newTrustLine 1 7 False Active)\<lparr>mIncomingTrustAmount := 100, mOutgoingTrustAmount := 50, mBalance := - 30,
     mIsOwnKeysPresent := True, mIsContractorKeysPresent := True\<rparr>"

definition lineOfB :: TrustLine where
  "lineOfB = (newTrustLine 2 9 False Active)\<lparr>mIncomingTrustAmount := 50, mOutgoingTrustAmount := 100, mBalance := 30,
     mIsOwnKeysPresent := True, mIsContractorKeysPresent := True\<rparr>"

definition nodeOf :: "ContractorID \<Rightarrow> TrustLine \<Rightarrow> CryptoStore \<Rightarrow> AuditState" where
  "nodeOf contractor line store =
     \<lparr>nodeLines = \<lparr>mTrustLines = [(contractor, line)], mEquivalent = 1, mAuditRules = [(contractor, AuditRuleCountPayments 10)],
        mContractorsShouldBePinged = [], mAmountReservationsHandler = emptyHandler\<rparr>,
      lineTable = \<lparr>lineRows = [\<lparr>rowId = mID line, rowState = Active, rowContractorId = contractor, rowEquivalent = 1,
        rowIsContractorGateway = False\<rparr>], contractorRows = [contractor], broken = False\<rparr>,
      cryptoTables = store, historyTable = [], sentOut = [], auditContractor = contractor, auditNumberOfTx = 1,
      ownSignatureAndKey = ([], 0), auditStage = AuditInitialization, countSending = 0, countPending = 0,
      countContractorPending = 0, responses = []\<rparr>"

definition nodeA :: AuditState where
  "nodeA = nodeOf 7 lineOfA storeOfA"

definition nodeB :: AuditState where
  "nodeB = nodeOf 9 lineOfB storeOfB"

definition auditEnv :: AuditEnv where
  "auditEnv = \<lparr>hashOf = sample_hash, exportBits = be_export, registryAddress = [5], contractorIsPresent = (\<lambda>_. True),
     ownAddressGreater = False, historyFails = False\<rparr>"

lemma auditEnv_fields [simp]:
  "hashOf auditEnv = sample_hash" "exportBits auditEnv = be_export" "registryAddress auditEnv = [5]"
  "contractorIsPresent auditEnv c" "\<not> historyFails auditEnv"
  by (simp_all add: auditEnv_def)

lemma node_fields [simp]:
  "mTrustLines (nodeLines (nodeOf c l x)) = [(c, l)]" "mEquivalent (nodeLines (nodeOf c l x)) = 1"
  "mAuditRules (nodeLines (nodeOf c l x)) = [(c, AuditRuleCountPayments 10)]"
  "mAmountReservationsHandler (nodeLines (nodeOf c l x)) = emptyHandler"
  "cryptoTables (nodeOf c l x) = x" "sentOut (nodeOf c l x) = []" "auditContractor (nodeOf c l x) = c"
  "auditNumberOfTx (nodeOf c l x) = 1" "lineOf (nodeOf c l x) = Inr l"
  by (simp_all add: nodeOf_def access_defs)

lemma ends_fields [simp]:
  "mContractorID lineOfA = 7" "mContractorID lineOfB = 9" "mID lineOfA = 1" "mState lineOfA = Active" "mIsOwnKeysPresent lineOfA" "mIsContractorKeysPresent lineOfA"
  "mIncomingTrustAmount lineOfA = 100" "mOutgoingTrustAmount lineOfA = 50" "mBalance lineOfA = - 30"
  "mID lineOfB = 2" "mState lineOfB = Active" "mIsOwnKeysPresent lineOfB" "mIsContractorKeysPresent lineOfB"
  "mIncomingTrustAmount lineOfB = 50" "mOutgoingTrustAmount lineOfB = 100" "mBalance lineOfB = 30"
  by (simp_all add: lineOfA_def lineOfB_def newTrustLine_def)

definition keysHashOf :: "Bytes \<Rightarrow> Bytes" where
  "keysHashOf numbers = sample_hash (take keySize (derivePublicKey sample_hash (newPrivateKey numbers)))"

lemma hashes_sample:
  "keysHashes auditEnv 1 (nodeOf c l storeOfA) = Inr (keysHashOf sample_numbers, keysHashOf sample_numbers2)"
  "keysHashes auditEnv 2 (nodeOf c l storeOfB) = Inr (keysHashOf sample_numbers2, keysHashOf sample_numbers)"
  by (simp_all add: keysHashes_def ownPublicKeysHash_def contractorPublicKeysHash_def maxKeySetSequenceNumber_own_def
      maxKeySetSequenceNumber_contractor_def publicKeysBySetNumber_own_def publicKeysBySetNumber_contractor_def query_def
      storeOfA_def storeOfB_def emptyStore_def sample_key_def sample_contractor_key_def keysHashOf_def)

lemma unsigned_audit_changes_limits_witness:
  "\<exists>t. run_auditTarget auditEnv \<lparr>amNumber = 1, amIncoming = 50, amOutgoing = 5000, amKeyNumber = 4, amSignature = []\<rparr> nodeB = (Inr Done, t) \<and>
    sentOut t = sentOut nodeB @ [SendError ErrorShouldBeRemovedFromQueue] \<and> cryptoTables t = cryptoTables nodeB \<and>
    map_of (mTrustLines (nodeLines t)) (auditContractor nodeB) = Some (lineOfB\<lparr>mIncomingTrustAmount := 5000\<rparr>)"
proof -
  have "\<forall>x. \<not> checkSign_keychain sample_hash 2 x [] 4 storeOfB"
    by (simp add: checkSign_keychain_def keyByNumber_def query_def storeOfB_def emptyStore_def sample_contractor_key_def orNotFound_def)
  then show ?thesis
    using unsigned_audit_changes_limits [of auditEnv nodeB lineOfB "\<lparr>amNumber = 1, amIncoming = 50, amOutgoing = 5000, amKeyNumber = 4, amSignature = []\<rparr>"]
    by (simp add: nodeB_def hashes_sample kMaxAmount_def isReservationsPresentOnTrustLine_def
        isReservationsPresentWithContractor_def emptyHandler_def)
qed

end
