(* ===== verification/Audit_Ends.thy ===== *)
theory Audit_Ends imports Audit_Laws begin

text \<open>
  Both ends of an audit: the end that is asked answers with a response only after it has stored the opposite of what the
  other end signed.
\<close>

section \<open>Nothing is sent on the way\<close>

lemma sent_access [simp]:
  "sentOut (snd (askingNode f s)) = sentOut s" "sentOut (snd (onLines g s)) = sentOut s" "sentOut (snd (onCrypto h s)) = sentOut s"
  "sentOut (snd (setStateStored state s)) = sentOut s" "sentOut (snd (setStateInMemory state s)) = sentOut s"
  by (simp_all add: askingNode_def onLines_def onCrypto_def setStateStored_def setStateInMemory_def Let_def split_def)

lemma sent_bindS:
  "sentOut (snd r) = out \<Longrightarrow> (\<And>x s. sentOut s = out \<Longrightarrow> sentOut (snd (f x s)) = out) \<Longrightarrow> sentOut (snd (bindS r f)) = out"
  by (cases r; cases "fst r") auto

lemma sent_history [simp]: "sentOut (snd (populateHistory env message kind s)) = sentOut s"
  by (simp add: populateHistory_def)

lemma sent_takeLimits [simp]: "sentOut (snd (takeLimits env message s)) = sentOut s"
  unfolding takeLimits_def setIncomingTrustLineAmount_def closeOutgoingTrustLine_def
  by (auto intro!: sent_bindS split: TrustLineOperationResult.splits)

lemma sent_archive [simp]: "sentOut (snd (archiveIfEmpty line activates s)) = sentOut s"
  unfolding archiveIfEmpty_def by (auto intro!: sent_bindS)

lemma sent_countersign [simp]: "sentOut (snd (countersign env message line s)) = sentOut s"
  unfolding countersign_def countersignChecked_def Let_def by (auto intro!: sent_bindS)

lemma sent_putBack [simp]: "sentOut (snd (putBack previous s)) = sentOut s"
  unfolding putBack_def by (auto intro!: sent_bindS)

lemma rollbackTo_sent [simp]: "sentOut (rollbackTo begun s) = sentOut s"
  by (simp add: rollbackTo_def)

text \<open>A response is only sent after a countersignature.\<close>

lemma performAudit_responds:
  assumes "performAudit env message line begun s = (r, t)" and "SendResponse k signature \<in> set (sentOut t)"
    and "SendResponse k signature \<notin> set (sentOut s)"
  obtains s' where "countersign env message line s = (Inr True, s')" and "cryptoTables t = cryptoTables s'"
proof -
  obtain answer s' where c: "countersign env message line s = (answer, s')" by (meson surj_pair)
  have quiet: "sentOut s' = sentOut s" using sent_countersign [of env message line s] c by simp
  have restored: "sentOut t' = sentOut s" if "putBack previous (rollbackTo begun s') = (r', t')" for previous r' t'
    using sent_putBack [of previous "rollbackTo begun s'"] that quiet by simp
  show thesis
  proof (cases answer)
    case (Inl e)
    then show ?thesis
      using assms c quiet restored
      by (auto simp: performAudit_def bindS_def askingNode_def sendAuditErrorConfirmation_def sendOut_def split: sum.splits if_splits)
  next
    case (Inr accepted)
    moreover have accepted
    proof (rule ccontr)
      assume "\<not> accepted"
      then show False
        using assms c quiet Inr
        by (auto simp: performAudit_def bindS_def askingNode_def sendAuditErrorConfirmation_def sendOut_def split: sum.splits if_splits)
    qed
    moreover have "cryptoTables t = cryptoTables s'"
      using assms c Inr \<open>accepted\<close>
      by (auto simp: performAudit_def bindS_def askingNode_def onLines_def sendOwnSignature_def sendOut_def
          split: sum.splits prod.splits if_splits)
    ultimately show ?thesis using that c by simp
  qed
qed

text \<open>The two ways to a response: a countersignature, after the removal of an own audit with this number that was never
  completed if there is one, and the repeated answer to a message with the number of the current audit, which is complete.\<close>

definition removedOwnAudit :: "AuditMessage \<Rightarrow> TrustLineID \<Rightarrow> AuditState \<Rightarrow> AuditState \<Rightarrow> bool" where
  "removedOwnAudit message line s s' \<longleftrightarrow>
     (if auditNumberOfTx s - amNumber message = 1
      then isActualAuditFull line (cryptoTables s) = Inr False \<and> onCrypto (removeCancelledOwnAuditPart line) s = (Inr (), s')
      else s' = s)"

definition answeredAgain :: "AuditMessage \<Rightarrow> TrustLineID \<Rightarrow> KeyNumber \<Rightarrow> Bytes \<Rightarrow> AuditState \<Rightarrow> AuditState \<Rightarrow> bool" where
  "answeredAgain message line k signature s t \<longleftrightarrow>
     auditNumberOfTx s - amNumber message = 1 \<and> isActualAuditFull line (cryptoTables s) = Inr True \<and>
     getCurrentAuditSignatureAndKeyNumber line (cryptoTables s) = Inr (signature, k) \<and>
     nodeLines t = nodeLines s \<and> cryptoTables t = cryptoTables s \<and> historyTable t = historyTable s"

lemma target_responds:
  assumes "run_auditTarget env message s = (r, t)" and "SendResponse k signature \<in> set (sentOut t)" and "sentOut s = []"
    and "map_of (mTrustLines (nodeLines s)) (auditContractor s) = Some l" and "mState l \<noteq> AuditPending"
  shows "answeredAgain message (mID l) k signature s t \<or>
    (\<exists>s1 s'. removedOwnAudit message (mID l) s s1 \<and> countersign env message (mID l) s1 = (Inr True, s') \<and>
      cryptoTables t = cryptoTables s')"
proof -
  have silent: False if "sendAuditErrorConfirmation env e s = (r, t)" for e
    using that assms(2,3) by (auto simp: sendAuditErrorConfirmation_def sendOut_def split: if_splits)
  have line: "lineOf s = Inr l" using assms(4) by (simp add: access_defs)
  have chain: "keychainLine s = Inr (mID l)" using assms(4) by (simp add: access_defs)
  have "checkedAudit env message s = (r, t)"
    using assms(1) silent assms(5) unfolding run_auditTarget_def line by (auto split: if_splits)
  then have run: "runAuditOfContractor env message s = (r, t)"
    using silent unfolding checkedAudit_def askingNode_def line by (auto split: if_splits)
  show ?thesis
  proof (cases "auditNumberOfTx s - amNumber message = 1")
    case False
    then have "performAudit env message (mID l) s s = (r, t)"
      using run chain by (simp add: runAuditOfContractor_def askingNode_def)
    then obtain s' where "countersign env message (mID l) s = (Inr True, s')" "cryptoTables t = cryptoTables s'"
      by (rule performAudit_responds) (use assms(2,3) in simp_all)
    then show ?thesis using False by (auto simp: removedOwnAudit_def)
  next
    case one: True
    show ?thesis
    proof (cases "isActualAuditFull (mID l) (cryptoTables s)")
      case (Inl e)
      then have "t = s" using run chain one by (simp add: runAuditOfContractor_def askingNode_def)
      then show ?thesis using assms(2,3) by simp
    next
      case (Inr complete)
      show ?thesis
      proof (cases complete)
        case True
        then show ?thesis
          using run chain one Inr assms(2,3)
          by (auto simp: runAuditOfContractor_def askingNode_def answeredAgain_def sendOwnSignature_def sendOut_def bindS_def
              split: sum.splits)
      next
        case False
        obtain res s1 where c: "onCrypto (removeCancelledOwnAuditPart (mID l)) s = (res, s1)" by (meson surj_pair)
        have quiet: "sentOut s1 = sentOut s" using c sent_access(3) [of "removeCancelledOwnAuditPart (mID l)" s] by simp
        show ?thesis
        proof (cases res)
          case (Inl e)
          then have "t = s1" using run chain one Inr False c \<open>\<not> complete\<close> \<open>isActualAuditFull (mID l) (cryptoTables s) = Inr complete\<close>
            by (simp add: runAuditOfContractor_def askingNode_def)
          then show ?thesis using assms(2,3) quiet by simp
        next
          case (Inr u)
          have "performAudit env message (mID l) s s1 = (r, t)"
            using run chain one False c Inr \<open>isActualAuditFull (mID l) (cryptoTables s) = Inr complete\<close>
            by (simp add: runAuditOfContractor_def askingNode_def)
          then obtain s' where "countersign env message (mID l) s1 = (Inr True, s')" "cryptoTables t = cryptoTables s'"
            by (rule performAudit_responds) (use assms(2,3) quiet in simp_all)
          then show ?thesis
            using one False c Inr \<open>isActualAuditFull (mID l) (cryptoTables s) = Inr complete\<close> by (auto simp: removedOwnAudit_def)
        qed
      qed
    qed
  qed
qed

text \<open>What the end that starts an audit signs, and what the other end checks the signature for.\<close>

definition dataSigned :: "AuditEnv \<Rightarrow> AuditState \<Rightarrow> Bytes result" where
  "dataSigned env s = bindR (keychainLine s) (\<lambda>line.
     bindR (keysHashes env line s) (\<lambda>(ownKeys, contractorKeys). ownAuditData env ownKeys contractorKeys s))"

definition dataChecked :: "AuditEnv \<Rightarrow> AuditMessage \<Rightarrow> TrustLineID \<Rightarrow> AuditState \<Rightarrow> Bytes result" where
  "dataChecked env message line s = (case takeLimits env message s of
     (Inl e, _) \<Rightarrow> Inl e
   | (Inr _, t) \<Rightarrow> bindR (keysHashes env line t) (\<lambda>(ownKeys, contractorKeys). contractorAuditData env ownKeys contractorKeys t))"

text \<open>The removal leaves the keys, and what is checked does not depend on the audits in the table.\<close>

definition withTables :: "CryptoStore \<Rightarrow> 'a result \<times> AuditState \<Rightarrow> 'a result \<times> AuditState" where
  "withTables c r = (fst r, (snd r)\<lparr>cryptoTables := c\<rparr>)"

lemma withTables_bindS:
  assumes "r' = withTables c r" and "\<And>x s. g x (s\<lparr>cryptoTables := c\<rparr>) = withTables c (g x s)"
  shows "bindS r' g = withTables c (bindS r g)"
  unfolding assms(1) withTables_def by (cases r; cases "fst r") (auto simp: assms(2) withTables_def)

lemma lineOf_tables [simp]: "lineOf (s\<lparr>cryptoTables := c\<rparr>) = lineOf s"
  by (simp add: lineOf_def)

lemma withTables_access:
  "askingNode lineOf (s\<lparr>cryptoTables := c\<rparr>) = withTables c (askingNode lineOf s)"
  "onLines f (s\<lparr>cryptoTables := c\<rparr>) = withTables c (onLines f s)"
  "populateHistory env message kind (s\<lparr>cryptoTables := c\<rparr>) = withTables c (populateHistory env message kind s)"
  "returning x (s\<lparr>cryptoTables := c\<rparr>) = withTables c (returning x s)"
  by (auto simp: askingNode_def onLines_def populateHistory_def withTables_def split_def Let_def)

lemma withTables_limits:
  "setIncomingTrustLineAmount env message (s\<lparr>cryptoTables := c\<rparr>) = withTables c (setIncomingTrustLineAmount env message s)"
  "closeOutgoingTrustLine env message (s\<lparr>cryptoTables := c\<rparr>) = withTables c (closeOutgoingTrustLine env message s)"
  unfolding setIncomingTrustLineAmount_def closeOutgoingTrustLine_def
  by (rule withTables_bindS; simp add: withTables_access split: TrustLineOperationResult.split)+

lemma takeLimits_tables: "takeLimits env message (s\<lparr>cryptoTables := c\<rparr>) = withTables c (takeLimits env message s)"
  unfolding takeLimits_def
  by (intro withTables_bindS) (simp_all add: withTables_access withTables_limits)

lemma dataChecked_tables:
  assumes "ownKeyRows c = ownKeyRows (cryptoTables s)" and "contractorKeyRows c = contractorKeyRows (cryptoTables s)"
    and "engineFails c = engineFails (cryptoTables s)"
  shows "dataChecked env message line (s\<lparr>cryptoTables := c\<rparr>) = dataChecked env message line s"
proof (cases "takeLimits env message s")
  case (Pair r t)
  show ?thesis
  proof (cases r)
    case (Inl e)
    then show ?thesis using Pair by (simp add: dataChecked_def takeLimits_tables withTables_def)
  next
    case (Inr u)
    then have "cryptoTables t = cryptoTables s" using takeLimits_crypto [of env message s t] Pair by simp
    moreover have "ownPublicKeysHash h line c = ownPublicKeysHash h line (cryptoTables s)"
      "contractorPublicKeysHash h line c = contractorPublicKeysHash h line (cryptoTables s)" for h
      using assms
      by (simp_all add: ownPublicKeysHash_def contractorPublicKeysHash_def maxKeySetSequenceNumber_own_def
          maxKeySetSequenceNumber_contractor_def publicKeysBySetNumber_own_def publicKeysBySetNumber_contractor_def query_def)
    ultimately have "keysHashes env line (t\<lparr>cryptoTables := c\<rparr>) = keysHashes env line t" by (simp add: keysHashes_def)
    then show ?thesis
      using Pair Inr by (simp add: dataChecked_def takeLimits_tables withTables_def contractorAuditData_def)
  qed
qed

lemma removed_keys:
  assumes "removedOwnAudit message line s s'"
  obtains c where "s' = s\<lparr>cryptoTables := c\<rparr>" and "ownKeyRows c = ownKeyRows (cryptoTables s)"
    and "contractorKeyRows c = contractorKeyRows (cryptoTables s)" and "engineFails c = engineFails (cryptoTables s)"
proof (cases "s' = s")
  case True
  then show ?thesis using that [of "cryptoTables s"] by simp
next
  case False
  then have "onCrypto (removeCancelledOwnAuditPart line) s = (Inr (), s')"
    using assms by (auto simp: removedOwnAudit_def split: if_splits)
  then obtain c where c: "removeCancelledOwnAuditPart line (cryptoTables s) = (Inr (), c)" "s' = s\<lparr>cryptoTables := c\<rparr>"
    by (auto simp: onCrypto_Inr)
  then show ?thesis
    using that [OF c(2)]
    by (auto simp: removeCancelledOwnAuditPart_def deleteAuditByNumber_def ok_simps split: if_splits)
qed

section \<open>Both ends\<close>

text \<open>What one end signs is accepted by the other one for data with the same hash only.\<close>

lemma agreed_binds:
  assumes "hash32 hash" and "ends_ok hash lineA lineB (a, b)"
    and "\<forall>key \<in> set (ownKeyRows a). ownLine key = lineA \<longrightarrow> pairs_differ (ownPublic key)"
    and "sign hash lineA message a = Inr (signature, number)"
    and "checkSign_keychain hash lineB message' signature number b"
  shows "hash message' = hash message"
proof -
  obtain key where key: "key \<in> set (ownKeyRows a)" "ownLine key = lineA" "ownValid key" "ownNumber key = number"
    and signature: "signature = collectSignature (mData (newPrivateKey (ownPrivate key))) (hash message)"
    using sign_row [OF assms(4)] by metis
  have row: "length (ownPrivate key) = keySize" "ownPublic key = derivePublicKey hash (newPrivateKey (ownPrivate key))"
    using assms(2) key by (auto simp: ends_ok_def tables_ok_def own_row_ok_def)
  have "keyByNumber lineB number b = Inr (ownPublic key)"
    using assms(2) key by (auto simp: ends_ok_def keys_agree_def keyByNumber_def ok_simps)
  then have "checkSignature hash signature message' (ownPublic key)" using assms(5) by (simp add: checkSign_keychain_def)
  then show ?thesis
    using key_accepts_iff [OF assms(1) row(1)] assms(3) key unfolding signature row(2) by (metis row(2))
qed

lemma signAudit_signs:
  assumes "signAudit env s = (Inr (), t)"
  obtains l ownKeys contractorKeys where "lineOf s = Inr l" and "keysHashes env (mID l) s = Inr (ownKeys, contractorKeys)"
    and "dataSigned env s =
      Inr (getOwnSerializedAuditData (exportBits env) (registryAddress env) (auditNumberOfTx s) l ownKeys contractorKeys)"
    and "sign (hashOf env) (mID l)
      (getOwnSerializedAuditData (exportBits env) (registryAddress env) (auditNumberOfTx s) l ownKeys contractorKeys)
      (cryptoTables s) = Inr (ownSignatureAndKey t)"
proof -
  obtain line ownKeys contractorKeys l signed c where line: "keychainLine s = Inr line"
    and keys: "keysHashes env line s = Inr (ownKeys, contractorKeys)" and l: "lineOf s = Inr l"
    and sig: "sign (hashOf env) line
      (getOwnSerializedAuditData (exportBits env) (registryAddress env) (auditNumberOfTx s) l ownKeys contractorKeys)
      (cryptoTables s) = Inr signed" and t: "ownSignatureAndKey t = signed"
    using assms
    by (simp add: signAudit_def bindS_eq_Inr askingNode_Inr onCrypto_Inr onLines_Inr ownAuditData_def bindR_eq_Inr Let_def
        split_paired_Ex) (elim exE conjE; auto)
  have "line = mID l" using line l by (auto simp: access_defs)
  then show thesis
    using that [OF l] keys line l sig t by (simp add: dataSigned_def ownAuditData_def)
qed

lemma keysHashes_lengths:
  "hash32 (hashOf env) \<Longrightarrow> keysHashes env line s = Inr (ownKeys, contractorKeys) \<Longrightarrow>
    length ownKeys = 32 \<and> length contractorKeys = 32"
  by (auto simp: keysHashes_def bindR_eq_Inr ownPublicKeysHash_def contractorPublicKeysHash_def hash32D)

text \<open>The limits that a message leaves in the line.\<close>

lemma setIncoming_fits:
  assumes "setIncomingTrustLineAmount env message s = (Inr (), t)" and "lineOf s = Inr l" and "fields_fit l"
    and "amount_ok (amOutgoing message)"
  shows "\<exists>l'. lineOf t = Inr l' \<and> fields_fit l'"
proof -
  have l: "map_of (mTrustLines (nodeLines s)) (auditContractor s) = Some l"
    using assms(2) by (simp add: access_defs split: option.splits)
  obtain outcome s1 where s1: "onLines (setIncoming (auditContractor s) (amOutgoing message)) s = (Inr outcome, s1)"
    and rest: "(case outcome of Updated \<Rightarrow> populateHistory env message UpdatingRecord s1
      | Closed \<Rightarrow> populateHistory env message RejectingRecord s1 | NoChanges \<Rightarrow> returning () s1 | Opened \<Rightarrow> returning () s1) = (Inr (), t)"
    using assms(1) by (auto simp: setIncomingTrustLineAmount_def bindS_eq_Inr)
  have "nodeLines t = nodeLines s1 \<and> auditContractor t = auditContractor s1"
    using rest by (auto split: TrustLineOperationResult.splits dest: populateHistory_crypto)
  moreover have "\<exists>l'. map_of (mTrustLines (nodeLines s1)) (auditContractor s1) = Some l' \<and> fields_fit l'"
    using s1 l assms(3,4) by (auto simp: onLines_Inr setIncoming_exact [OF l] fields_fit_def split: if_splits)
  ultimately show ?thesis by (auto simp: access_defs)
qed

lemma closeOutgoing_fits:
  assumes "closeOutgoingTrustLine env message s = (Inr (), t)" and "lineOf s = Inr l" and "fields_fit l"
  shows "\<exists>l'. lineOf t = Inr l' \<and> fields_fit l'"
proof -
  have l: "map_of (mTrustLines (nodeLines s)) (auditContractor s) = Some l"
    using assms(2) by (simp add: access_defs split: option.splits)
  obtain s1 where s1: "onLines (closeOutgoing (auditContractor s)) s = (Inr (), s1)"
    and rest: "populateHistory env message RejectingOutgoingRecord s1 = (Inr (), t)"
    using assms(1) by (auto simp: closeOutgoingTrustLine_def bindS_eq_Inr)
  have "\<exists>l'. map_of (mTrustLines (nodeLines s1)) (auditContractor s1) = Some l' \<and> fields_fit l'"
    using s1 l assms(3)
    by (auto simp: onLines_Inr closeOutgoing_def outgoingTrustAmount_def trustLineReadOnly_def onLine_Some [OF l]
        setOutgoingTrustAmount_def fields_fit_def split: if_splits)
  then show ?thesis using populateHistory_crypto [OF rest] by (auto simp: access_defs)
qed

lemma takeLimits_fits:
  assumes "takeLimits env message s = (Inr (), t)" and "lineOf s = Inr l" and "fields_fit l" and "amount_ok (amOutgoing message)"
  shows "\<exists>l'. lineOf t = Inr l' \<and> fields_fit l'"
proof -
  obtain s1 l1 where s1: "(if amOutgoing message \<noteq> mIncomingTrustAmount l then setIncomingTrustLineAmount env message s
        else returning () s) = (Inr (), s1)" and l1: "lineOf s1 = Inr l1"
    and rest: "(if amIncoming message = 0 \<and> mOutgoingTrustAmount l1 \<noteq> 0 then closeOutgoingTrustLine env message s1
       else returning () s1) = (Inr (), t)"
    using assms(1,2) by (auto simp: takeLimits_def bindS_eq_Inr askingNode_Inr)
  have "fields_fit l1"
    using s1 l1 setIncoming_fits [of env message s s1 l] assms(2-4) by (auto split: if_splits)
  then show ?thesis
    using rest l1 closeOutgoing_fits [OF _ l1] by (auto split: if_splits)
qed

section \<open>The other end countersigns the opposite\<close>

lemma countersigned_opposite:
  assumes "boost_bits (exportBits envA) import_bits" and "exportBits envB = exportBits envA"
    and "hash32 (hashOf envA)" and "hashOf envB = hashOf envA"
    and "lineOf a = Inr la" and "fields_fit la" and "signAudit envA a = (Inr (), a')"
    and "amSignature message = fst (ownSignatureAndKey a')" and "amKeyNumber message = snd (ownSignatureAndKey a')"
    and "lineOf b = Inr lb" and "fields_fit lb" and "amount_ok (amOutgoing message)"
    and "ends_ok (hashOf envA) (mID la) (mID lb) (cryptoTables a, cryptoTables b)"
    and "\<forall>key \<in> set (ownKeyRows (cryptoTables a)). ownLine key = mID la \<longrightarrow> pairs_differ (ownPublic key)"
    and "\<forall>x y. dataSigned envA a = Inr x \<and> dataChecked envB message (mID lb) b = Inr y \<and> hashOf envA x = hashOf envA y \<longrightarrow> x = y"
    and accepted: "countersign envB message (mID lb) b = (Inr True, b')"
  shows "auditNumberOfTx b = auditNumberOfTx a \<and>
    audit_stored (mID lb) (auditNumberOfTx a) (amSignature message) (mOutgoingTrustAmount la) (mIncomingTrustAmount la)
      (- mBalance la) (cryptoTables b')"
proof -
  obtain l ownB contractorB b1 where take: "takeLimits envB message b = (Inr (), b1)" and l: "lineOf b1 = Inr l"
    and keysB: "keysHashes envB (mID lb) b1 = Inr (ownB, contractorB)"
    and check: "checkSign_keychain (hashOf envB) (mID lb)
      (getContractorSerializedAuditData (exportBits envB) (registryAddress envB) (auditNumberOfTx b) l ownB contractorB)
      (amSignature message) (amKeyNumber message) (cryptoTables b)"
    and stored: "audit_stored (mID lb) (auditNumberOfTx b) (amSignature message) (mIncomingTrustAmount l)
      (mOutgoingTrustAmount l) (mBalance l) (cryptoTables b')"
    by (rule countersign_stores [OF accepted])
  let ?checked = "getContractorSerializedAuditData (exportBits envB) (registryAddress envB) (auditNumberOfTx b) l ownB contractorB"
  obtain ownA contractorA where keysA: "keysHashes envA (mID la) a = Inr (ownA, contractorA)"
    and signed: "dataSigned envA a =
      Inr (getOwnSerializedAuditData (exportBits envA) (registryAddress envA) (auditNumberOfTx a) la ownA contractorA)"
    and sig: "sign (hashOf envA) (mID la)
      (getOwnSerializedAuditData (exportBits envA) (registryAddress envA) (auditNumberOfTx a) la ownA contractorA)
      (cryptoTables a) = Inr (amSignature message, amKeyNumber message)"
    using signAudit_signs [OF assms(7)] assms(5,8,9) by (metis Inr_inject prod.collapse)
  let ?signed = "getOwnSerializedAuditData (exportBits envA) (registryAddress envA) (auditNumberOfTx a) la ownA contractorA"
  have "hashOf envA ?checked = hashOf envA ?signed"
    using agreed_binds [OF assms(3,13,14) sig] check assms(4) by simp
  moreover have "dataChecked envB message (mID lb) b = Inr ?checked"
    using take keysB l takeLimits_crypto [OF take] by (simp add: dataChecked_def contractorAuditData_def)
  ultimately have "?signed = ?checked" using assms(15) signed by metis
  moreover have "fields_fit l" using takeLimits_fits [OF take assms(10,11,12)] l by auto
  ultimately show ?thesis
    using boost_codec.audit_data_eq [OF boost_codec.intro [OF assms(1)] assms(6) \<open>fields_fit l\<close>, of ownA contractorB contractorA ownB
        "registryAddress envA" "auditNumberOfTx a" "registryAddress envB" "auditNumberOfTx b"]
      keysHashes_lengths [OF assms(3) keysA] keysHashes_lengths [of envB "mID lb" b1] keysB assms(2-4) stored
    by simp
qed

text \<open>C7: an audit is countersigned only as its opposite. One end signs its view of the line. When the other end, on a line
  without an audit of its own in progress, answers a message with this signature by a response, whatever amounts and numbers
  the message carries, one of two things has happened. It has stored the audit under the number that the first end signed,
  with opposite limits and the opposite balance (after deleting an own audit with the number of the message that was never
  completed, if there is one). Or the number of the message is that of its current audit, one less than the
  number of the next one, and this audit is complete: then it has checked nothing, stored nothing, and sent the signature it
  gave for that audit again. Hypotheses: the keys of the ends agree, the numbers of each pair of a key differ, and what
  the other end checks does not collide with what was signed.\<close>

theorem countersigned_audit_is_opposite:
  assumes "boost_bits (exportBits envA) import_bits" and "exportBits envB = exportBits envA"
    and "hash32 (hashOf envA)" and "hashOf envB = hashOf envA"
    and "lineOf a = Inr la" and "fields_fit la" and "signAudit envA a = (Inr (), a')"
    and "amSignature message = fst (ownSignatureAndKey a')" and "amKeyNumber message = snd (ownSignatureAndKey a')"
    and "lineOf b = Inr lb" and "fields_fit lb" and "mState lb \<noteq> AuditPending" and "amount_ok (amOutgoing message)"
    and "ends_ok (hashOf envA) (mID la) (mID lb) (cryptoTables a, cryptoTables b)"
    and "\<forall>key \<in> set (ownKeyRows (cryptoTables a)). ownLine key = mID la \<longrightarrow> pairs_differ (ownPublic key)"
    and "\<forall>x y. dataSigned envA a = Inr x \<and> dataChecked envB message (mID lb) b = Inr y \<and> hashOf envA x = hashOf envA y \<longrightarrow> x = y"
    and "run_auditTarget envB message b = (r, t)" and "sentOut b = []" and "SendResponse k signature \<in> set (sentOut t)"
  shows "(auditNumberOfTx b = auditNumberOfTx a \<and>
      audit_stored (mID lb) (auditNumberOfTx a) (amSignature message) (mOutgoingTrustAmount la) (mIncomingTrustAmount la)
        (- mBalance la) (cryptoTables t)) \<or>
    answeredAgain message (mID lb) k signature b t"
proof -
  have lb: "map_of (mTrustLines (nodeLines b)) (auditContractor b) = Some lb"
    using assms(10) by (simp add: access_defs split: option.splits)
  from target_responds [OF assms(17,19,18) lb assms(12)] show ?thesis
  proof (elim disjE exE conjE)
    fix b1 b' assume removed: "removedOwnAudit message (mID lb) b b1"
      and accepted: "countersign envB message (mID lb) b1 = (Inr True, b')" and tables: "cryptoTables t = cryptoTables b'"
    obtain c where b1: "b1 = b\<lparr>cryptoTables := c\<rparr>" and c: "ownKeyRows c = ownKeyRows (cryptoTables b)"
      "contractorKeyRows c = contractorKeyRows (cryptoTables b)" "engineFails c = engineFails (cryptoTables b)"
      by (rule removed_keys [OF removed])
    have "ends_ok (hashOf envA) (mID la) (mID lb) (cryptoTables a, cryptoTables b1)"
      using assms(14) c by (simp add: b1 ends_ok_def keys_agree_def)
    moreover have "dataChecked envB message (mID lb) b1 = dataChecked envB message (mID lb) b"
      unfolding b1 by (rule dataChecked_tables [OF c])
    moreover have "lineOf b1 = Inr lb" using assms(10) by (simp add: b1)
    ultimately have "auditNumberOfTx b1 = auditNumberOfTx a \<and>
        audit_stored (mID lb) (auditNumberOfTx a) (amSignature message) (mOutgoingTrustAmount la) (mIncomingTrustAmount la)
          (- mBalance la) (cryptoTables b')"
      using countersigned_opposite [OF assms(1-9) _ assms(11,13) _ assms(15) _ accepted] assms(16) by simp
    then show ?thesis using tables by (simp add: b1)
  qed simp
qed

section \<open>An audit between two nodes\<close>

text \<open>The first end signs.\<close>

definition auditOfA :: Bytes where
  "auditOfA = getOwnSerializedAuditData be_export [5] 1 lineOfA (keysHashOf sample_numbers) (keysHashOf sample_numbers2)"

lemma sign_sampleA: "sign sample_hash 1 message storeOfA = Inr (sample_signature sample_numbers message, 0)"
  by (simp add: sign_def nextAvailableKey_def query_def storeOfA_def sample_key_def emptyStore_def orNotFound_def
      notNull_def newSignature_def newPrivateKey_def sample_signature_def)

lemma sign_sampleB: "sign sample_hash 2 message storeOfB = Inr (sample_signature sample_numbers2 message, 0)"
  by (simp add: sign_def nextAvailableKey_def query_def storeOfB_def sample_key_def emptyStore_def orNotFound_def
      notNull_def newSignature_def newPrivateKey_def sample_signature_def)

lemma lineOf_signed [simp]: "lineOf (s\<lparr>ownSignatureAndKey := sk\<rparr>) = lineOf s"
  by (simp add: lineOf_def)

lemma saveOwn_sample: "saveOwnAuditPart 1 1 0 signature h h' incoming outgoing bal storeOfA =
    (Inr (), snd (saveOwnAuditPart 1 1 0 signature h h' incoming outgoing bal storeOfA))"
  by (simp add: saveOwnAuditPart_def getPublicKeyHash_def query_def storeOfA_def sample_key_def emptyStore_def orNotFound_def
      saveOwnAuditPart_db_def insertAudit_def statement_def invalidKey_own_def invalidateOwn_def)

lemma signAudit_sample:
  "\<exists>a'. signAudit auditEnv nodeA = (Inr (), a') \<and> ownSignatureAndKey a' = (sample_signature sample_numbers auditOfA, 0)"
  by (simp add: signAudit_def askingNode_def nodeA_def keychainLine_def trustLineID_def trustLineReadOnly_def hashes_sample
      ownAuditData_def sign_sampleA auditOfA_def [symmetric] Let_def)
    (subst bindS_eq_Inr, simp add: onCrypto_def nodeOf_def, subst saveOwn_sample,
      simp add: onLines_def setTrustLineAuditNumber_def onLine_def)

text \<open>The other end takes no limits from an honest message and finds the data that were signed.\<close>

definition messageOfA :: AuditMessage where
  "messageOfA = \<lparr>amNumber = 1, amIncoming = 100, amOutgoing = 50, amKeyNumber = 0,
     amSignature = sample_signature sample_numbers auditOfA\<rparr>"

lemma take_sample: "takeLimits auditEnv messageOfA nodeB = (Inr (), nodeB)"
  by (simp add: takeLimits_def askingNode_def nodeB_def messageOfA_def)

lemma same_data:
  "getContractorSerializedAuditData be_export [5] 1 lineOfB (keysHashOf sample_numbers2) (keysHashOf sample_numbers) = auditOfA"
proof -
  have "length (keysHashOf numbers) = 32" for numbers by (simp add: keysHashOf_def hash32D [OF sample_hash32])
  then show ?thesis
    using big_endian.audit_data_eq [of lineOfA lineOfB "keysHashOf sample_numbers" "keysHashOf sample_numbers"
        "keysHashOf sample_numbers2" "keysHashOf sample_numbers2" "[5]" 1 "[5]" 1]
    by (simp add: auditOfA_def fields_fit_def)
qed

lemma stores_ok: "ends_ok sample_hash 1 2 (storeOfA, storeOfB)"
  by (simp add: ends_ok_def keys_agree_def tables_ok_def own_row_ok_def storeOfA_def storeOfB_def sample_key_def
      sample_contractor_key_def emptyStore_def sample_numbers_length)

lemma check_sample: "checkSign_keychain sample_hash 2 auditOfA (sample_signature sample_numbers auditOfA) 0 storeOfB"
  by (rule agreed_accepts [OF sample_hash32 stores_ok _ sign_sampleA])
    (simp add: auditOfA_def getOwnSerializedAuditData_def word32Bytes_def)

lemma saveFull_sample: "saveFullAudit 2 1 0 signature 0 signature' h h' incoming outgoing bal storeOfB =
    (Inr (), snd (saveFullAudit 2 1 0 signature 0 signature' h h' incoming outgoing bal storeOfB))"
  by (simp add: saveFullAudit_def getPublicKeyHash_def keyHashByNumber_def query_def storeOfB_def sample_key_def
      sample_contractor_key_def emptyStore_def orNotFound_def
      saveFullAudit_db_def insertAudit_def statement_def invalidKey_own_def invalidateOwn_def invalidKey_contractor_def)

lemma countersign_sample:
  "\<exists>t. countersignChecked auditEnv messageOfA 2 (keysHashOf sample_numbers2) (keysHashOf sample_numbers) nodeB = (Inr True, t) \<and>
     ownSignatureAndKey t = (sample_signature sample_numbers2
       (getOwnSerializedAuditData be_export [5] 1 lineOfB (keysHashOf sample_numbers2) (keysHashOf sample_numbers)), 0) \<and>
     sentOut t = [] \<and> auditContractor t = 9 \<and> mAuditRules (nodeLines t) = [(9, AuditRuleCountPayments 10)]"
  by (simp add: countersignChecked_def askingNode_def nodeB_def ownAuditData_def sign_sampleB Let_def)
    (subst bindS_eq_Inr, simp add: onCrypto_def nodeOf_def messageOfA_def, subst saveFull_sample,
      simp add: onLines_def setTrustLineAuditNumber_def onLine_def resetTrustLineTotalReceiptsAmounts_def
        resetTotalReceiptsAmounts_def putLine_def setStateStored_def setTrustLineState_def updateTrustLineState_def isRowOf_def
        archiveIfEmpty_def askingNode_def isTrustLineEmpty_def trustLineIsPresent_def outgoingTrustAmount_def
        incomingTrustAmount_def balance_def trustLineReadOnly_def)

definition signatureOfB :: Bytes where
  "signatureOfB = sample_signature sample_numbers2
     (getOwnSerializedAuditData be_export [5] 1 lineOfB (keysHashOf sample_numbers2) (keysHashOf sample_numbers))"

lemma target_sample:
  "\<exists>t. run_auditTarget auditEnv messageOfA nodeB = (Inr Done, t) \<and> SendResponse 0 signatureOfB \<in> set (sentOut t)"
proof -
  obtain t where t: "countersignChecked auditEnv messageOfA 2 (keysHashOf sample_numbers2) (keysHashOf sample_numbers) nodeB = (Inr True, t)"
    and sent: "ownSignatureAndKey t = (signatureOfB, 0)" "sentOut t = []" "auditContractor t = 9"
      "mAuditRules (nodeLines t) = [(9, AuditRuleCountPayments 10)]"
    using countersign_sample unfolding signatureOfB_def by blast
  have "countersign auditEnv messageOfA 2 nodeB = (Inr True, t)"
    unfolding countersign_def using t
    by (simp add: take_sample askingNode_def contractorAuditData_def)
      (simp add: nodeB_def hashes_sample same_data check_sample messageOfA_def)
  then have "performAudit auditEnv messageOfA 2 nodeB nodeB = (Inr Done, sendOut ActionSignal (sendOwnSignature t))"
    using sent by (simp add: performAudit_def askingNode_def nodeB_def sendOwnSignature_def sendOut_def onLines_def resetAuditRule_def)
  moreover have "run_auditTarget auditEnv messageOfA nodeB = performAudit auditEnv messageOfA (mID lineOfB) nodeB nodeB"
    by (rule audit_checked)
      (simp_all add: nodeB_def messageOfA_def isReservationsPresentOnTrustLine_def isReservationsPresentWithContractor_def emptyHandler_def)
  ultimately show ?thesis using sent by (simp add: sendOwnSignature_def sendOut_def)
qed

lemma data_samples:
  "dataSigned auditEnv nodeA = Inr auditOfA" "dataChecked auditEnv messageOfA 2 nodeB = Inr auditOfA"
proof -
  show "dataSigned auditEnv nodeA = Inr auditOfA"
    by (simp add: dataSigned_def keychainLine_def trustLineID_def trustLineReadOnly_def nodeA_def hashes_sample
        ownAuditData_def auditOfA_def)
  show "dataChecked auditEnv messageOfA 2 nodeB = Inr auditOfA"
    by (simp add: dataChecked_def take_sample) (simp add: nodeB_def hashes_sample contractorAuditData_def same_data)
qed

lemma countersigned_audit_is_opposite_witness:
  "\<exists>t. run_auditTarget auditEnv messageOfA nodeB = (Inr Done, t) \<and>
     audit_stored 2 1 (sample_signature sample_numbers auditOfA) 50 100 30 (cryptoTables t)"
proof -
  obtain t where t: "run_auditTarget auditEnv messageOfA nodeB = (Inr Done, t)" "SendResponse 0 signatureOfB \<in> set (sentOut t)"
    using target_sample by blast
  obtain a' where a': "signAudit auditEnv nodeA = (Inr (), a')"
    "ownSignatureAndKey a' = (sample_signature sample_numbers auditOfA, 0)" using signAudit_sample by blast
  have "(auditNumberOfTx nodeB = auditNumberOfTx nodeA \<and>
    audit_stored (mID lineOfB) (auditNumberOfTx nodeA) (amSignature messageOfA) (mOutgoingTrustAmount lineOfA)
      (mIncomingTrustAmount lineOfA) (- mBalance lineOfA) (cryptoTables t)) \<or>
    answeredAgain messageOfA (mID lineOfB) 0 signatureOfB nodeB t"
  proof (rule countersigned_audit_is_opposite [OF _ _ _ _ _ _ a'(1) _ _ _ _ _ _ _ _ _ t(1) _ t(2)])
    show "boost_bits (exportBits auditEnv) be_value" using big_endian.bits by simp
    show "\<forall>key \<in> set (ownKeyRows (cryptoTables nodeA)). ownLine key = mID lineOfA \<longrightarrow> pairs_differ (ownPublic key)"
      by (simp add: nodeA_def storeOfA_def sample_key_def sample_pairs)
    show "ends_ok (hashOf auditEnv) (mID lineOfA) (mID lineOfB) (cryptoTables nodeA, cryptoTables nodeB)"
      using stores_ok by (simp add: nodeA_def nodeB_def)
    show "\<forall>x y. dataSigned auditEnv nodeA = Inr x \<and> dataChecked auditEnv messageOfA (mID lineOfB) nodeB = Inr y \<and>
        hashOf auditEnv x = hashOf auditEnv y \<longrightarrow> x = y"
      by (simp add: data_samples)
  qed (simp_all add: nodeA_def nodeB_def messageOfA_def a' sample_hash32 fields_fit_def)
  moreover have "\<not> answeredAgain messageOfA (mID lineOfB) 0 signatureOfB nodeB t"
    by (simp add: answeredAgain_def nodeB_def messageOfA_def)
  ultimately have "audit_stored (mID lineOfB) (auditNumberOfTx nodeA) (amSignature messageOfA) (mOutgoingTrustAmount lineOfA)
      (mIncomingTrustAmount lineOfA) (- mBalance lineOfA) (cryptoTables t)" by blast
  then show ?thesis using t by (simp add: nodeA_def messageOfA_def)
qed

end
