(* ===== verification/Audit_Bounds.thy ===== *)
theory Audit_Bounds imports Audit_Laws begin

text \<open>How long an audit lasts on the end that starts it: the messages it sends and the time it waits are bounded, whatever
  the other end, the rest of the node and its tables do between the runs.\<close>

section \<open>The members of the transaction\<close>

definition auditMembers :: "AuditState \<Rightarrow> AuditStage \<times> nat \<times> nat \<times> nat \<times> AuditOut list" where
  "auditMembers s = (auditStage s, countSending s, countPending s, countContractorPending s, sentOut s)"

lemma auditMembers_access [simp]:
  "auditMembers (snd (askingNode f s)) = auditMembers s" "auditMembers (snd (onLines g s)) = auditMembers s" "auditMembers (snd (onCrypto h s)) = auditMembers s"
  "auditMembers (snd (setStateStored state s)) = auditMembers s" "auditMembers (snd (setStateInMemory state s)) = auditMembers s"
  "auditMembers (rollbackTo begun s) = auditMembers s" "auditMembers (s\<lparr>ownSignatureAndKey := sk\<rparr>) = auditMembers s"
  by (simp_all add: auditMembers_def askingNode_def onLines_def onCrypto_def setStateStored_def setStateInMemory_def rollbackTo_def
      Let_def split_def)

lemma auditMembers_bindS:
  "auditMembers (snd r) = k \<Longrightarrow> (\<And>x s. auditMembers s = k \<Longrightarrow> auditMembers (snd (f x s)) = k) \<Longrightarrow> auditMembers (snd (bindS r f)) = k"
  by (cases r; cases "fst r") auto

lemma auditMembers_signAudit [simp]: "auditMembers (snd (signAudit env s)) = auditMembers s"
  unfolding signAudit_def Let_def by (auto intro!: auditMembers_bindS)

lemma auditMembers_archive [simp]: "auditMembers (snd (archiveIfEmpty line activates s)) = auditMembers s"
  unfolding archiveIfEmpty_def by (auto intro!: auditMembers_bindS)

lemma auditMembers_accept [simp]: "auditMembers (snd (acceptResponse env message line s)) = auditMembers s"
  unfolding acceptResponse_def by (auto intro!: auditMembers_bindS)

lemma auditMembers_conflict [simp]: "auditMembers (snd (becomeConflicting s)) = auditMembers s"
  unfolding becomeConflicting_def by (auto intro!: auditMembers_bindS)

section \<open>What is left\<close>

fun isSendAudit :: "AuditOut \<Rightarrow> bool" where
  "isSendAudit (SendAudit m) = True"
| "isSendAudit _ = False"

definition auditsSent :: "AuditState \<Rightarrow> nat" where
  "auditsSent s = length (filter isSendAudit (sentOut s))"

definition sendsLeft :: "AuditState \<Rightarrow> nat" where
  "sendsLeft s = (case auditStage s of
       AuditResponseProcessing \<Rightarrow> 3 - countSending s
     | AuditContractorPending \<Rightarrow> 1 + (3 - countSending s)
     | _ \<Rightarrow> 1 + (2 - countSending s)) + 4 * (4 - countContractorPending s)"

definition awakesLeft :: "AuditState \<Rightarrow> nat" where
  "awakesLeft s = (case auditStage s of
       AuditInitialization \<Rightarrow> 1 + (2 - countPending s)
     | AuditNextAttempt \<Rightarrow> 1 + (2 - countPending s)
     | AuditPendingStage \<Rightarrow> 3 - countPending s
     | AuditNextAttemptPending \<Rightarrow> 3 - countPending s
     | _ \<Rightarrow> 0) + (4 - countContractorPending s)"

definition timeLeft :: "AuditState \<Rightarrow> nat" where
  "timeLeft s = kPendingPeriodInMilliseconds * awakesLeft s + kWaitForResponse_audit * sendsLeft s"

fun waitOf :: "AuditResult \<Rightarrow> nat" where
  "waitOf (AwakeAfter n) = n"
| "waitOf (WaitForResponse n) = n"
| "waitOf _ = 0"

text \<open>One run, with its result and the state after it, spends what was left.\<close>

definition spends :: "AuditState \<Rightarrow> AuditResult result \<times> AuditState \<Rightarrow> bool" where
  "spends s x \<longleftrightarrow> (case x of
       (Inl _, t) \<Rightarrow> auditsSent t \<le> auditsSent s + sendsLeft s
     | (Inr Done, t) \<Rightarrow> auditsSent t \<le> auditsSent s + sendsLeft s
     | (Inr r, t) \<Rightarrow> auditsSent t + sendsLeft t \<le> auditsSent s + sendsLeft s \<and> waitOf r + timeLeft t \<le> timeLeft s)"

lemma auditMembers_left: "auditMembers s = auditMembers t \<Longrightarrow>
    auditsSent s = auditsSent t \<and> sendsLeft s = sendsLeft t \<and> awakesLeft s = awakesLeft t \<and> timeLeft s = timeLeft t"
  unfolding auditMembers_def auditsSent_def sendsLeft_def awakesLeft_def timeLeft_def by (cases "auditStage s") simp_all

lemma spends_from:
  "auditsSent s = auditsSent s' \<Longrightarrow> sendsLeft s = sendsLeft s' \<Longrightarrow> timeLeft s = timeLeft s' \<Longrightarrow> spends s x = spends s' x"
  by (simp only: spends_def)

lemma spends_start: "auditMembers s = auditMembers s' \<Longrightarrow> spends s x = spends s' x"
  by (rule spends_from) (simp_all add: auditMembers_left [of s s'])

lemma spends_end: "auditsSent t = auditsSent s \<Longrightarrow> r = Inr Done \<or> (\<exists>e. r = Inl e) \<Longrightarrow> spends s (r, t)"
  by (auto simp: spends_def)

lemma spends_nothing: "auditMembers t = auditMembers s \<Longrightarrow> r = Inr Done \<or> r = Inr ContinuePrevious \<or> (\<exists>e. r = Inl e) \<Longrightarrow> spends s (r, t)"
  using auditMembers_left [of t s] by (auto simp: spends_def)

lemma spends_bindS:
  assumes "auditMembers (snd r) = auditMembers s" and "\<And>x s'. auditMembers s' = auditMembers s \<Longrightarrow> spends s' (f x s')"
  shows "spends s (bindS r f)"
proof (cases r)
  case (Pair y s')
  then show ?thesis
    using assms spends_start [of s s'] by (cases y) (auto intro: spends_nothing)
qed

text \<open>Sending the audit.\<close>

lemma sendAudit_cases:
  "sendAudit env s = (r, t) \<Longrightarrow> (\<exists>e. r = Inl e) \<and> t = s \<or> r = Inr () \<and> (\<exists>m. t = sendOut (SendAudit m) s)"
  by (auto simp: sendAudit_def bindS_def askingNode_def currentAuditMessage_def bindR_def split: if_splits sum.splits)

lemma spends_send:
  assumes "\<And>m. spends s (f () (sendOut (SendAudit m) s))"
  shows "spends s (bindS (sendAudit env s) f)"
proof -
  obtain r t where "sendAudit env s = (r, t)" by (meson surj_pair)
  with sendAudit_cases [OF this] assms show ?thesis by (auto simp: spends_nothing)
qed

lemmas left_defs = spends_def auditsSent_def sendsLeft_def awakesLeft_def timeLeft_def sendOut_def kPendingPeriodInMilliseconds_def
  kWaitForResponse_audit_def

lemma sent_other: "\<not> isSendAudit m \<Longrightarrow> auditsSent (sendOut m s) = auditsSent s \<and> sendsLeft (sendOut m s) = sendsLeft s \<and>
    timeLeft (sendOut m s) = timeLeft s"
  by (simp add: sendOut_def auditsSent_def sendsLeft_def awakesLeft_def timeLeft_def split: AuditStage.split)

section \<open>The stages\<close>

definition beforeSending :: "AuditState \<Rightarrow> bool" where
  "beforeSending s \<longleftrightarrow> auditStage s \<in> {AuditInitialization, AuditPendingStage, AuditNextAttempt, AuditNextAttemptPending}"

lemma beforeSending_members: "auditMembers s = auditMembers s' \<Longrightarrow> beforeSending s = beforeSending s'"
  by (simp add: beforeSending_def auditMembers_def)

text \<open>The first attempt to send, from any stage before it.\<close>

lemma spends_first:
  "beforeSending s \<Longrightarrow> spends s (bindS (sendAudit env s) (\<lambda>_ s. returning (WaitForResponse kWaitForResponse_audit)
     (s\<lparr>countSending := countSending s + 1, auditStage := AuditResponseProcessing\<rparr>)))"
  by (rule spends_send) (auto simp: left_defs beforeSending_def)

lemma spends_nextAttempt:
  assumes "beforeSending s"
  shows "spends s (nextAttemptAudit env s)"
  unfolding nextAttemptAudit_def
proof (rule spends_bindS, simp, rule spends_bindS, simp)
  fix line s1 sk s2 assume "auditMembers s1 = auditMembers s" "auditMembers s2 = auditMembers s1"
  then show "spends s2 (bindS (sendAudit env (s2\<lparr>ownSignatureAndKey := sk\<rparr>)) (\<lambda>_ s.
      returning (WaitForResponse kWaitForResponse_audit)
        (s\<lparr>countSending := countSending s + 1, auditStage := AuditResponseProcessing\<rparr>)))"
    using spends_first [of "s2\<lparr>ownSignatureAndKey := sk\<rparr>" env] spends_start [of s2 "s2\<lparr>ownSignatureAndKey := sk\<rparr>"]
      beforeSending_members [of "s2\<lparr>ownSignatureAndKey := sk\<rparr>" s] assms by simp
qed

lemma spends_initializeAudit:
  assumes "beforeSending s"
  shows "spends s (initializeAudit env s)"
proof -
  obtain r t where sign: "signAudit env s = (r, t)" by (meson surj_pair)
  have t: "auditMembers t = auditMembers s" using auditMembers_signAudit [of env s] sign by simp
  have "spends s (bindS (setStateInMemory Active (rollbackTo s t)) (\<lambda>_. throwing e))" for e
    using t by (intro spends_bindS) (simp_all add: spends_nothing)
  moreover have "spends s (bindS (sendAudit env t) (\<lambda>_ s. returning (WaitForResponse kWaitForResponse_audit)
     (s\<lparr>countSending := countSending s + 1, auditStage := AuditResponseProcessing\<rparr>)))"
    using spends_first [of t env] spends_start [OF t] beforeSending_members [OF t] assms by simp
  ultimately show ?thesis
    using sign t by (cases r) (auto simp: initializeAudit_def intro: spends_nothing)
qed

lemma conflict_result: "fst (becomeConflicting s) = Inr Done \<or> (\<exists>e. fst (becomeConflicting s) = Inl e)"
  by (auto simp: becomeConflicting_def bindS_def split: sum.split prod.split)

lemma spends_conflict: "auditsSent s' = auditsSent s \<Longrightarrow> spends s (becomeConflicting s')"
  using conflict_result [of s'] auditMembers_conflict [of s'] auditMembers_left [of "snd (becomeConflicting s')" s']
  by (cases "becomeConflicting s'") (auto intro: spends_end)

lemma spends_waitForReservations:
  assumes "auditStage s \<in> {AuditPendingStage, AuditNextAttemptPending}"
  shows "spends s (waitForReservations s)"
proof (cases "3 < countPending s + 1")
  case True
  then show ?thesis
    by (simp add: waitForReservations_def Let_def kMaxPendingAttempts_def spends_conflict auditsSent_def)
next
  case False
  then show ?thesis
    using assms by (auto simp: waitForReservations_def Let_def kMaxPendingAttempts_def left_defs)
qed

lemma spends_initialization:
  assumes "auditStage s = AuditInitialization"
  shows "spends s (runInitializationStage_audit env s)"
proof (cases "readyForAudit env Active s \<and> keysForAudit s")
  case True
  have "spends s' (if isReservationsPresentOnTrustLine (nodeLines s') (auditContractor s')
      then returning (AwakeAfter kPendingPeriodInMilliseconds) (s'\<lparr>auditStage := AuditPendingStage, countPending := countPending s' + 1\<rparr>)
      else initializeAudit env s')" if "auditMembers s' = auditMembers s" for s'
    using that assms spends_initializeAudit [of s' env] by (auto simp: left_defs auditMembers_def beforeSending_def)
  then have "spends s (bindS (setStateInMemory AuditPending s) (\<lambda>_ s.
      if isReservationsPresentOnTrustLine (nodeLines s) (auditContractor s)
      then returning (AwakeAfter kPendingPeriodInMilliseconds) (s\<lparr>auditStage := AuditPendingStage, countPending := countPending s + 1\<rparr>)
      else initializeAudit env s))"
    by (intro spends_bindS) simp_all
  then show ?thesis using True by (simp add: runInitializationStage_audit_def)
qed (auto simp: runInitializationStage_audit_def intro: spends_nothing)

lemma spends_nextAttemptStage:
  assumes "auditStage s = AuditNextAttempt"
  shows "spends s (runNextAttemptStage env s)"
proof -
  let ?s = "sendOut PongProcessed s"
  have stage: "auditStage ?s = AuditNextAttempt" using assms by (simp add: sendOut_def)
  then have "spends ?s (nextAttemptAudit env ?s)" by (intro spends_nextAttempt) (simp add: beforeSending_def)
  moreover have "spends ?s (returning (AwakeAfter kPendingPeriodInMilliseconds)
      (?s\<lparr>auditStage := AuditNextAttemptPending, countPending := countPending ?s + 1\<rparr>))"
    using stage by (simp add: spends_def auditsSent_def sendsLeft_def awakesLeft_def timeLeft_def kPendingPeriodInMilliseconds_def)
  ultimately show ?thesis
    using spends_from [of s ?s] sent_other [of PongProcessed s]
    by (auto simp: runNextAttemptStage_def Let_def intro: spends_end)
qed

lemma spends_pending:
  "auditStage s = AuditPendingStage \<Longrightarrow> spends s (runAuditPendingStage env s)"
  "auditStage s = AuditNextAttemptPending \<Longrightarrow> spends s (runNextAttemptAuditPendingStage env s)"
  using spends_waitForReservations [of s] spends_initializeAudit [of s env] spends_nextAttempt [of s env]
  by (auto simp: runAuditPendingStage_def runNextAttemptAuditPendingStage_def beforeSending_def intro: spends_nothing)

lemma spends_missing:
  assumes "auditStage s = AuditResponseProcessing"
  shows "spends s (responseMissing env s)"
proof -
  have "spends s' (bindS (sendAudit env s') (\<lambda>_ s.
      returning (WaitForResponse kWaitForResponse_audit) (s\<lparr>countSending := countSending s + 1\<rparr>)))"
    if "auditMembers s' = auditMembers s" "countSending s' < 3" for s'
    using assms that by (intro spends_send) (auto simp: left_defs auditMembers_def)
  then show ?thesis
    unfolding responseMissing_def
    by (intro spends_bindS) (auto simp: kMaxCountSendingAttempts_audit_def sent_other intro: spends_nothing spends_end)
qed

lemma spends_answered:
  assumes "auditStage s = AuditResponseProcessing"
  shows "spends s (responseAnswered env message s)"
proof -
  have signalled: "spends s' (bindS (onLines f s') (\<lambda>_ s. returning Done (sendOut ActionSignal s)))" for s' and f :: "TrustLinesManager \<Rightarrow> unit result \<times> TrustLinesManager"
    by (intro spends_bindS) (simp_all add: sent_other spends_end)
  have "spends s' (case acceptResponse env message line s' of
          (Inl e, s'') \<Rightarrow>
            if e = ValueError then returning Done (rollbackTo s' s'')
            else if e = IOError then throwing IOError (rollbackTo s' s'')
            else throwing e s''
        | (Inr accepted, s'') \<Rightarrow>
            if \<not> accepted then returning Done s''
            else bindS (onLines (resetAuditRule (auditContractor s'')) s'') (\<lambda>_ s. returning Done (sendOut ActionSignal s)))"
    for line s'
  proof -
    obtain r t where t: "acceptResponse env message line s' = (r, t)" by (meson surj_pair)
    then have "auditMembers t = auditMembers s'" using auditMembers_accept [of env message line s'] by simp
    then show ?thesis
      using t signalled [of t] spends_start [of s' t] by (cases r) (auto intro: spends_nothing)
  qed
  then have "spends s (bindS (askingNode keychainLine s) (\<lambda>line s'. case acceptResponse env message line s' of
          (Inl e, s'') \<Rightarrow>
            if e = ValueError then returning Done (rollbackTo s' s'')
            else if e = IOError then throwing IOError (rollbackTo s' s'')
            else throwing e s''
        | (Inr accepted, s'') \<Rightarrow>
            if \<not> accepted then returning Done s''
            else bindS (onLines (resetAuditRule (auditContractor s'')) s'') (\<lambda>_ s. returning Done (sendOut ActionSignal s))))"
    by (intro spends_bindS) simp_all
  moreover have "spends s (returning (AwakeAfter kPendingPeriodInMilliseconds)
          (s\<lparr>auditStage := AuditContractorPending, countContractorPending := countContractorPending s + 1, countSending := 0\<rparr>))"
    if "\<not> kMaxPendingAttempts < countContractorPending s"
  proof -
    have "4 - countContractorPending s = Suc (3 - countContractorPending s)" using that by (simp add: kMaxPendingAttempts_def)
    then show ?thesis using assms by (simp add: left_defs)
  qed
  ultimately show ?thesis
    using spends_conflict [of s s] unfolding responseAnswered_def by (auto intro: spends_nothing)
qed

lemma spends_response:
  assumes "auditStage s = AuditResponseProcessing"
  shows "spends s (runResponseProcessingStage_audit env s)"
proof (cases "responses s")
  case (Cons message rest)
  have "spends (s\<lparr>responses := rest\<rparr>) (responseAnswered env message (s\<lparr>responses := rest\<rparr>))"
    using assms by (intro spends_answered) simp
  then show ?thesis
    using Cons spends_start [of s "s\<lparr>responses := rest\<rparr>"] by (simp add: runResponseProcessingStage_audit_def auditMembers_def)
qed (simp add: runResponseProcessingStage_audit_def spends_missing assms)

lemma spends_contractorPending:
  assumes "auditStage s = AuditContractorPending"
  shows "spends s (runContractorPendingStage env s)"
proof -
  have "spends s' (bindS (sendAudit env s') (\<lambda>_ s.
      returning (WaitForResponse kWaitForResponse_audit) (s\<lparr>auditStage := AuditResponseProcessing\<rparr>)))"
    if "auditMembers s' = auditMembers s" for s'
    using assms that by (intro spends_send) (auto simp: left_defs auditMembers_def)
  then show ?thesis
    unfolding runContractorPendingStage_def by (intro spends_bindS) (auto intro: spends_nothing)
qed

lemma spends_run: "spends s (run_auditSource env s)"
  by (cases "auditStage s") (simp_all add: run_auditSource_def spends_initialization spends_pending spends_nextAttemptStage
      spends_response spends_contractorPending)

section \<open>All runs\<close>

text \<open>Between two runs the lines, the tables and the messages that have come change freely. The number counts the
  milliseconds that the transaction has asked to wait.\<close>

inductive audit_step :: "nat \<times> AuditState \<Rightarrow> nat \<times> AuditState \<Rightarrow> bool" where
  "run_auditSource env s = (Inr r, t) \<Longrightarrow> r \<noteq> Done \<Longrightarrow> auditMembers u = auditMembers t \<Longrightarrow> audit_step (n, s) (n + waitOf r, u)"

definition within_audit :: "nat \<Rightarrow> nat \<Rightarrow> nat \<times> AuditState \<Rightarrow> bool" where
  "within_audit sends time x \<longleftrightarrow> auditsSent (snd x) + sendsLeft (snd x) \<le> sends \<and> fst x + timeLeft (snd x) \<le> time"

lemma audit_step_within: "audit_step x y \<Longrightarrow> within_audit sends time x \<Longrightarrow> within_audit sends time y"
proof (induction rule: audit_step.induct)
  case (1 env s r t u n)
  have "auditsSent u = auditsSent t \<and> sendsLeft u = sendsLeft t \<and> timeLeft u = timeLeft t"
    using auditMembers_left [OF 1(3)] by simp
  then show ?case
    using spends_run [of s env] 1 by (auto simp: within_audit_def spends_def split: AuditResult.splits)
qed

interpretation audit: step_invariant audit_step "within_audit sends time" for sends time
  by unfold_locales (rule audit_step_within)

text \<open>C16: an audit ends. The end that starts it sends its message at most nineteen times and waits at most 415 seconds, in
  every sequence of its runs, whatever the other end answers and whatever the rest of the node does to the lines, the
  reservations, the tables and the messages between the runs.\<close>

theorem audit_is_bounded:
  assumes "stage \<in> {AuditInitialization, AuditNextAttempt}" and "newAudit stage contractor manager table crypto = Inr s"
    and "audit_step\<^sup>*\<^sup>* (0, s) (n, t)" and "run_auditSource env t = (r, u)"
  shows "auditsSent u \<le> 19 \<and> n \<le> 415000"
proof -
  have "within_audit 19 415000 (0, s)"
    using assms(1,2)
    by (auto simp: within_audit_def newAudit_def bindR_eq_Inr auditsSent_def sendsLeft_def awakesLeft_def timeLeft_def
        kPendingPeriodInMilliseconds_def kWaitForResponse_audit_def)
  then have t: "within_audit 19 415000 (n, t)" by (rule audit.steps_inv [OF assms(3)])
  have "auditsSent u \<le> auditsSent t + sendsLeft t"
    using spends_run [of t env] assms(4) by (auto simp: spends_def split: sum.splits AuditResult.splits)
  then show ?thesis using t by (simp add: within_audit_def)
qed

text \<open>A line with a reservation: the transaction waits for it.\<close>

definition reservedLine :: TrustLinesManager where
  "reservedLine = (nodeLines nodeA)\<lparr>mAmountReservationsHandler := \<lparr>mReservations = [(7, [sampleReservation])], nextRef = 1\<rparr>\<rparr>"

lemma audit_is_bounded_witness:
  "\<exists>s t n. newAudit AuditInitialization 7 reservedLine (lineTable nodeA) storeOfA = Inr s \<and> audit_step\<^sup>*\<^sup>* (0, s) (n, t) \<and> n = 5000 \<and>
     auditsSent (snd (run_auditSource auditEnv t)) \<le> 19 \<and> n \<le> 415000"
proof -
  have line: "map_of (mTrustLines reservedLine) 7 = Some lineOfA" "isReservationsPresentOnTrustLine reservedLine 7"
    by (simp_all add: reservedLine_def nodeA_def isReservationsPresentOnTrustLine_def isReservationsPresentWithContractor_def)
  obtain s where s: "newAudit AuditInitialization 7 reservedLine (lineTable nodeA) storeOfA = Inr s"
    and fields: "nodeLines s = reservedLine" "auditContractor s = 7" "auditStage s = AuditInitialization"
    using line by (auto simp: newAudit_def auditNumber_def trustLineReadOnly_def)
  obtain t where run: "run_auditSource auditEnv s = (Inr (AwakeAfter 5000), t)"
    using fields line by (auto simp: run_auditSource_def runInitializationStage_audit_def readyForAudit_def keysForAudit_def
        trustLineState_def trustLineOwnKeysPresent_def trustLineContractorKeysPresent_def trustLineReadOnly_def
        setStateInMemory_def setTrustLineState_def isReservationsPresentOnTrustLine_def kPendingPeriodInMilliseconds_def Let_def)
  have step: "audit_step\<^sup>*\<^sup>* (0, s) (5000, t)"
    using audit_step.intros [OF run _ refl, of 0] by simp
  have "auditsSent (snd (run_auditSource auditEnv t)) \<le> 19 \<and> (5000 :: nat) \<le> 415000"
    by (rule audit_is_bounded [OF _ s step, of auditEnv "fst (run_auditSource auditEnv t)"]) simp_all
  then show ?thesis using s step by blast
qed

end
