(* ===== verification/Spec2Isabelle.thy ===== *)
theory Spec2Isabelle
  imports Cycles Node_Runs Receiver_Runs Coordinator_Ends Audit_Ends Audit_Bounds
begin

text \<open>
  A model of the core of a GEO Protocol node (\<^verbatim>\<open>src/src/core\<close>): the accounting of its trust lines,
  the reservations that payments make on them, the life of a payment up to its commit, the votes that
  decide it, the scheduler that runs transactions, and the paths and max flows it finds in what it knows
  of the network.

  \<^bold>\<open>The program.\<close> A node keeps one trust line per neighbour (contractor) and equivalent: the
  limits in both directions, the balance, the state. A payment runs as a transaction on every node of
  its paths. It first reserves amounts on the trust lines (\<^verbatim>\<open>TrustLinesManager\<close> with its
  \<^verbatim>\<open>AmountReservationsHandler\<close>), may shorten or drop them when paths are reconfigured, then the
  participants exchange keys and sign (vote), and in the end every participant either commits (uses and
  drops its reservations) or rolls back (drops them). A participant that has voted may only commit, or
  ask the others for the votes, or hand the payment to the observers.

  \<^bold>\<open>Theories.\<close>
    \<^item> \<open>GeoPrelude\<close>: type names, the errors of the program (\<open>geo_error\<close>, one constructor per exception
      class that occurs, \<open>UndefinedBehaviour\<close> for undefined C++), results as sums, operations as
      functions to a pair of a result and the new state, ordered association lists for \<^verbatim>\<open>std::map\<close>,
      and the locale \<open>step_invariant\<close> (an invariant of a step relation holds in every run).
    \<^item> \<open>Amounts\<close>: the 256 bit amounts of \<^verbatim>\<open>common/multiprecision\<close> and their byte formats.
    \<^item> \<open>Trust_Line\<close>: \<^verbatim>\<open>trust_lines/TrustLine\<close>, the record and its operations.
    \<^item> \<open>Reservations\<close>: \<^verbatim>\<open>payments/reservations\<close>. The locale \<open>reservation_ledger\<close> is the contract the
      manager relies on; its interpretation \<open>ledger\<close> is the handler of the code.
    \<^item> \<open>Trust_Line_Storage\<close>: the table of trust lines, \<^verbatim>\<open>io/storage/TrustLineHandler\<close>.
    \<^item> \<open>Trust_Lines_Manager\<close>: \<^verbatim>\<open>trust_lines/manager\<close> and \<^verbatim>\<open>trust_lines/audit_rules\<close>; the invariant
      \<open>manager_ok\<close> (reservations within the capacity of each line), for each call the exact condition under which it is
      kept (\<open>covers\<close>: the code does not check it for new limits, resets, lines read back and raised incoming
      reservations), and the runs of calls that meet it (\<open>manager_step\<close>).
    \<^item> \<open>Base_Payment\<close>: the reservations of a payment, rollback and commit, from
      \<^verbatim>\<open>transactions/transactions/regular/payments/base/BasePaymentTransaction\<close>; the invariant \<open>tx_ok\<close>
      (the payment and the manager agree) and the steps of a node with many payments.
    \<^item> \<open>Payment_Voting\<close>: the voting, recovery and observing stages of the same class; \<open>voted_step\<close> is a run of the stages after the
      vote.
    \<^item> \<open>Scheduler\<close>: \<^verbatim>\<open>transactions/scheduler\<close>, the states of \<^verbatim>\<open>transactions/transactions/result\<close> and the
      context of \<^verbatim>\<open>BaseTransaction\<close>; the invariant \<open>scheduler_ok\<close> (the timer wakes in time) and the steps
      of the scheduler. What a transaction does inside its run is \<open>run_effect\<close>: it may start, postpone and awake others
      and put resources, which runs others inside it.
    \<^item> \<open>Topology\<close>: the lines of other nodes and the numbers of participants,
      \<^verbatim>\<open>topology/manager/TopologyTrustLinesManager\<close> and \<^verbatim>\<open>topology/TopologyTrustLine\<close>.
    \<^item> \<open>Paths\<close>: \<^verbatim>\<open>paths/PathsManager\<close>, \<^verbatim>\<open>paths/lib\<close> and the calculation of max flows of
      \<^verbatim>\<open>transactions/max_flow_calculation/InitiateMaxFlowCalculationTransaction\<close>. The abstract algorithm is the step
      relation \<open>route\<close>. The locale \<open>arrival\<close> is what the search asks of the code that records an arrival,
      \<open>level_search\<close> what the loops of a level ask of a search; both are interpreted on the three
      searches of the code.
    \<^item> \<open>Cycles\<close>: \<^verbatim>\<open>cycles/CyclesManager\<close> and \<^verbatim>\<open>cycles/RoutingTableManager\<close>; the steps of a manager, and
      conflicts over reservations, which act on the transactions of \<open>Scheduler\<close>.
    \<^item> \<open>Addresses\<close>, \<open>Contractors\<close>: \<^verbatim>\<open>contractors\<close>, its tables in \<^verbatim>\<open>io/storage\<close> and the channel keys of
      \<^verbatim>\<open>crypto/MsgEncryptor\<close>; the invariant \<open>in_step\<close> (memory and tables agree) and the steps of a manager, which
      also keep what the calls have said (\<open>told_ok\<close>: the tables hold it).
    \<^item> \<open>Intermediate_Node\<close>: a payment on a node between coordinator and receiver,
      \<^verbatim>\<open>transactions/transactions/regular/payments/IntermediateNodePaymentTransaction\<close>.
    \<^item> \<open>Receiver\<close>: a payment on the node that is paid,
      \<^verbatim>\<open>transactions/transactions/regular/payments/ReceiverPaymentTransaction\<close>.
    \<^item> \<open>Payment_Balance\<close>, \<open>Payment_Totals\<close>: what a commit does to the sum of the balances of a node, and what
      reserving, shortening and dropping do to the amounts a payment holds in each direction.
    \<^item> \<open>Role_Runs\<close>: what the roles share. The locale \<open>payment_role\<close> is what the common stages ask of a role;
      \<open>surroundings\<close> is what happens on a node between two runs of a payment.
    \<^item> \<open>Node_Runs\<close>, \<open>Receiver_Runs\<close>: the invariants of an intermediate node and of a receiver, which interpret
      \<open>payment_role\<close>, and their steps (\<open>node_moves\<close>, \<open>receiver_moves\<close>) among other payments.
    \<^item> \<open>Coordinator\<close>: a payment on the node that pays,
      \<^verbatim>\<open>transactions/transactions/regular/payments/CoordinatorPaymentTransaction\<close> and \<^verbatim>\<open>base/PathStats\<close>.
    \<^item> \<open>Coordinator_Reservations\<close>, \<open>Coordinator_Runs\<close>: the weaker invariant of the reservations of a coordinator
      (\<open>weak_ok\<close>: it may keep empty lists of a neighbour), the amounts it holds against those of its paths
      (\<open>settled\<close>), and its steps (\<open>coordinator_moves\<close>).
    \<^item> \<open>Coordinator_Ends\<close>: what a coordinator has left to do, and that its runs end.
    \<^item> \<open>Lamport\<close>: the keys and the signatures of \<^verbatim>\<open>crypto/lamportkeys\<close> and \<^verbatim>\<open>crypto/lamportscheme\<close>.
    \<^item> \<open>Crypto_Tables\<close>, \<open>Keychain\<close>: the tables of keys, audits, receipts and payments of \<^verbatim>\<open>io/storage\<close> with their
      foreign keys, and \<^verbatim>\<open>crypto/keychain\<close> over them; \<open>Crypto_Integrity\<close>: the invariant \<open>tables_ok\<close>, kept by every
      operation; \<open>Keychain_Laws\<close>: its steps (\<open>keychain_step\<close>, with every operation that writes), the two ends of a line that sign for each other, exchange
      key sets and save what they sign or receive, full audits too (\<open>exchange_step\<close>), and what the operations for conflicts and outdated data do.
    \<^item> \<open>Audit_Data\<close>, \<open>Audit_Transactions\<close>: the bytes that are signed in an audit and both ends of it,
      \<^verbatim>\<open>transactions/transactions/trust_lines\<close> (\<^verbatim>\<open>AuditSourceTransaction\<close>, \<^verbatim>\<open>AuditTargetTransaction\<close>,
      \<^verbatim>\<open>base/BaseTrustLineTransaction\<close>), over the lines, their table and the keychain; \<open>Audit_Laws\<close>,
      \<open>Audit_Ends\<close>: what a wrong signature does and what is countersigned; \<open>Audit_Bounds\<close>: the messages and the time an
      audit takes (\<open>audit_step\<close>).

  \<^bold>\<open>Numbers.\<close> \<^verbatim>\<open>TrustLineAmount\<close> is the checked unsigned 256 bit integer of Boost: a natural number,
  addition throws \<open>StdOverflowError\<close> above the range and subtraction \<open>StdRangeError\<close> below zero.
  \<^verbatim>\<open>TrustLineBalance\<close> is the unchecked signed 256 bit integer, a sign and a magnitude: an integer
  whose magnitude is taken modulo 2 to the 256 (\<open>wrap256\<close>) after every operation. Identifiers,
  counters and block numbers are words of their width.

  \<^bold>\<open>Parameters.\<close> The bytes Boost exports and imports (locale \<open>boost_codec\<close>, interpreted on big endian
  digits); what the audit and key storage answers; what signatures, key hashes and the database answer
  during a vote (\<open>VoteEnv\<close>); new key pairs of a channel; the generic hash of libsodium (\<open>hash32\<close>: 32 bytes
  come out) and the random numbers of new Lamport keys; what running a transaction does and
  answers (scheduler); the presence of a contractor, the order of two addresses and a failing history
  (\<open>AuditEnv\<close>); the gateways among the contractors (paths); the slot that
  starts a cycle transaction and the lengths of cycles (cycles). Shared pointers to reservations are numbers
  drawn from a counter, since the code compares some of them by identity.

  \<^bold>\<open>Lemmas.\<close> Each component has its functional behaviour on every branch, its invariant and that
  every operation keeps it. Above them: a granted reservation can be used as long as limits that are
  set cover it (manager); a rollback never stops half way in any interleaving of payments, and a commit settles every line
  when the totals have room and the neighbours are known, and then fails at most in the storage (payment); and
  the votes: no commit without the signatures of the participants other than the coordinator, no unilateral move after the
  vote in the voted stages, a recovery that ends. An intermediate node is left with the sum of balances it had, whatever
  order messages and other payments come in, a receiver gains what it reserved, at most the amount of
  the payment, and a coordinator pays exactly the amount of its command or nothing. For the scheduler: no wake-up is lost,
  an awakening launches the transaction with the least deadline, and what becomes of every message. For paths and flows: while no line is used
  beyond its amount the loops end, no exception is thrown, capacities are respected, and no walk with room is left. For cycles: one at a
  time, taken round robin, and conflicts have one winner. For contractors: what is in memory and what the
  calls have said comes back from the tables after a restart. For keys: what one end of a line signs the other accepts, whatever is late or
  lost, and a key signs once. An audit is countersigned only as the opposite of what was signed, or again when it is the current
  one, and it ends. Loops that end
  only because amounts run out are \<open>partial_function (option)\<close>, and that they return is part of what is
  proved; the search takes the number of lines it may still take as its argument. The recovery with \<open>n\<close> other participants needs at most \<open>3n + 5\<close>
  awakenings, which is the number the theorem runs. The stages of a coordinator call each other until one of
  them waits or answers; \<open>run_coordinator\<close> bounds the depth of these calls by its first argument and answers
  \<open>OutOfFuel\<close>, which no code returns, beyond it; that some depth is enough in every state the payment reaches
  is proved, from the attempts to build new paths, the paths and the messages that are left.

  \<^bold>\<open>Not modelled.\<close> Sockets, message bytes, the SQL engine, the user interface, what libsodium computes and logging; the collection of the topology and its
  caches; the exchange of public keys and the other transactions of trust lines; and observing, which are the next components of this development.
\<close>

end
